(* ===== verification/Prelude.thy ===== *)
theory Prelude
  imports Main "HOL-Library.Word"
begin

text \<open>
  Shared vocabulary of the development: machine integers, the outcomes a C++ operation of the
  repository can have (a value, or the program stopping), the \<open>NS_ASSERT\<close> macro of
  \<open>src/ns3/assert.h\<close>, byte buffers and C strings, and the notion of a reachable state with
  its invariant locale. The named collections declared here are extended by the component
  theories.
\<close>

section \<open>Collections\<close>

named_theorems res_simps "rules that evaluate the sequencing of fallible operations"
named_theorems frame_simps "which parts of a state an operation leaves alone"

section \<open>Machine integers and outcomes\<close>

type_synonym byte = "8 word"
type_synonym u16 = "16 word"
type_synonym u32 = "32 word"
type_synonym u64 = "64 word"
type_synonym mac48 = "48 word"

text \<open>
  How an operation can stop the program: a failed \<open>NS_ASSERT\<close> of a debug build, an
  \<open>NS_FATAL_ERROR\<close>, an uncaught C++ exception, or behaviour that the language leaves
  undefined (null dereference, access outside an array, reading past a buffer).
\<close>

datatype abort = AssertFailed string | FatalError string | Uncaught string | Undefined string

type_synonym 'a res = "abort + 'a"

fun bind_res :: "'a res \<Rightarrow> ('a \<Rightarrow> 'b res) \<Rightarrow> 'b res" where
  "bind_res (Inl e) f = Inl e"
| "bind_res (Inr x) f = f x"

text \<open>
  \<open>NS_ASSERT (c)\<close> and \<open>NS_ASSERT_MSG (c, m)\<close>: with \<open>NS3_ASSERT_ENABLE\<close> the program
  terminates when the condition is false, without it the macro does nothing.
\<close>

definition ns_assert :: "bool \<Rightarrow> bool \<Rightarrow> string \<Rightarrow> unit res" where
  "ns_assert enabled c msg = (if enabled \<and> \<not> c then Inl (AssertFailed msg) else Inr ())"

text \<open>Dereferencing a \<open>Ptr\<close>: a null pointer has no behaviour.\<close>

definition deref :: "string \<Rightarrow> 'a option \<Rightarrow> 'a res" where
  "deref what r = (case r of None \<Rightarrow> Inl (Undefined what) | Some x \<Rightarrow> Inr x)"

definition is_ok :: "'a res \<Rightarrow> bool" where
  "is_ok r = (case r of Inl _ \<Rightarrow> False | Inr _ \<Rightarrow> True)"

lemma bind_res_Inr [simp, res_simps]: "bind_res m Inr = m"
  by (cases m) auto

lemma bind_res_assoc [res_simps]: "bind_res (bind_res m f) g = bind_res m (\<lambda>x. bind_res (f x) g)"
  by (cases m) auto

lemma bind_res_eq_Inr: "bind_res m f = Inr y \<longleftrightarrow> (\<exists>x. m = Inr x \<and> f x = Inr y)"
  by (cases m) auto

lemma bind_res_eq_Inl: "bind_res m f = Inl e \<longleftrightarrow> m = Inl e \<or> (\<exists>x. m = Inr x \<and> f x = Inl e)"
  by (cases m) auto

lemma ns_assert_True [simp, res_simps]: "ns_assert b True m = Inr ()"
  by (simp add: ns_assert_def)

lemma ns_assert_off [simp, res_simps]: "ns_assert False c m = Inr ()"
  by (simp add: ns_assert_def)

lemma ns_assert_fails [simp, res_simps]: "ns_assert True False m = Inl (AssertFailed m)"
  by (simp add: ns_assert_def)

lemma ns_assert_eq_Inr: "ns_assert b c m = Inr u \<longleftrightarrow> (b \<longrightarrow> c)"
  by (auto simp: ns_assert_def)

lemma ns_assert_holds: "c \<Longrightarrow> ns_assert b c m = Inr ()"
  by (simp add: ns_assert_def)

lemma deref_simps [simp, res_simps]:
  "deref w None = Inl (Undefined w)" "deref w (Some x) = Inr x"
  by (simp_all add: deref_def)

lemma deref_eq_Inr: "deref w r = Inr x \<longleftrightarrow> r = Some x"
  by (cases r) auto

lemma is_ok_simps [simp]: "is_ok (Inr x)" "\<not> is_ok (Inl e)"
  by (simp_all add: is_ok_def)

lemma is_ok_iff: "is_ok r \<longleftrightarrow> (\<exists>x. r = Inr x)"
  by (cases r) auto

section \<open>Reading a number back from a 32-bit word\<close>

lemma unat_of_nat32: "n < 2 ^ 32 \<Longrightarrow> unat (of_nat n :: u32) = n"
  by (simp add: unsigned_of_nat take_bit_nat_eq_self)

lemma unat_of_nat32_Suc: "Suc n < 2 ^ 32 \<Longrightarrow> unat ((of_nat n :: u32) + 1) = Suc n"
  using unat_of_nat32 [of "Suc n"] by (simp add: add.commute)

lemma unat_plus32: "unat a + unat b < 2 ^ 32 \<Longrightarrow> unat (a + b) = unat a + unat b"
  for a b :: u32
  by (simp add: unat_word_ariths)

lemma unat_minus32: "unat b \<le> unat a \<Longrightarrow> unat (a - b) = unat a - unat b"
  for a b :: u32
  by (simp add: word_le_nat_alt unat_sub)

lemma unat_less32: "unat a < 4294967296"
  for a :: u32
  by (rule order_less_le_trans [OF unsigned_less]) simp

section \<open>Buffers and C strings\<close>

text \<open>Writing \<open>xs\<close> at the start of the buffer \<open>ys\<close>; what lies behind it stays.\<close>

definition overwrite :: "'a list \<Rightarrow> 'a list \<Rightarrow> 'a list" where
  "overwrite xs ys = xs @ drop (length xs) ys"

lemma length_overwrite [simp]: "length xs \<le> length ys \<Longrightarrow> length (overwrite xs ys) = length ys"
  by (simp add: overwrite_def)

lemma take_overwrite: "n \<le> length xs \<Longrightarrow> take n (overwrite xs ys) = take n xs"
  by (simp add: overwrite_def)

lemma overwrite_all: "length ys \<le> length xs \<Longrightarrow> overwrite xs ys = xs"
  by (simp add: overwrite_def)

text \<open>
  \<open>strlen\<close> on a buffer: the number of bytes before the first zero. Without a zero in the
  buffer it reads past the end.
\<close>

definition c_strlen :: "byte list \<Rightarrow> nat res" where
  "c_strlen bs = (if 0 \<in> set bs then Inr (length (takeWhile (\<lambda>b. b \<noteq> 0) bs))
                  else Inl (Undefined ''strlen''))"

text \<open>The C string at the start of a buffer with its terminator, as the calls see it.\<close>

definition c_string :: "byte list \<Rightarrow> byte list" where
  "c_string bs = takeWhile (\<lambda>b. b \<noteq> 0) bs @ [0]"

lemma c_strlen_Inr: "0 \<in> set bs \<Longrightarrow> c_strlen bs = Inr (length (takeWhile (\<lambda>b. b \<noteq> 0) bs))"
  by (simp add: c_strlen_def)

lemma c_strlen_less: "c_strlen bs = Inr n \<Longrightarrow> n < length bs"
proof -
  assume "c_strlen bs = Inr n"
  then have z: "0 \<in> set bs" and n: "n = length (takeWhile (\<lambda>b. b \<noteq> 0) bs)"
    by (auto simp: c_strlen_def split: if_splits)
  have "takeWhile (\<lambda>b. b \<noteq> 0) bs \<noteq> bs"
    using z by (metis set_takeWhileD)
  then show ?thesis
    using n by (metis length_takeWhile_le nat_less_le takeWhile_eq_take take_all order_refl)
qed

lemma takeWhile_stop: "0 \<in> set bs \<Longrightarrow>
    take (Suc (length (takeWhile (\<lambda>b. b \<noteq> 0) bs))) bs = takeWhile (\<lambda>b. b \<noteq> 0) bs @ [0]"
  for bs :: "byte list"
  by (induction bs) auto

lemma c_strlen_take: "c_strlen bs = Inr n \<Longrightarrow> take (Suc n) bs = c_string bs"
  by (auto simp: c_strlen_def c_string_def takeWhile_stop split: if_splits)

lemma c_string_append: "0 \<in> set xs \<Longrightarrow> c_string (xs @ ys) = c_string xs"
  by (simp add: c_string_def)

lemma c_strlen_append: "0 \<in> set xs \<Longrightarrow> c_strlen (xs @ ys) = c_strlen xs"
  by (simp add: c_strlen_def)

lemma length_c_string: "c_strlen bs = Inr n \<Longrightarrow> length (c_string bs) = Suc n"
  by (auto simp: c_strlen_def c_string_def split: if_splits)

lemma length_c_string_le: "0 \<in> set bs \<Longrightarrow> length (c_string bs) \<le> length bs"
  using length_c_string [of bs] c_strlen_less [of bs] c_strlen_Inr [of bs] by (metis Suc_leI)

lemma c_strlen_c_string_eq:
  "0 \<in> set xs \<Longrightarrow> 0 \<in> set ys \<Longrightarrow> c_string xs = c_string ys \<Longrightarrow> c_strlen xs = c_strlen ys"
  by (simp add: c_strlen_def c_string_def)

section \<open>Transition systems\<close>

text \<open>The states a system reaches from its initial states.\<close>

inductive reaches :: "('s \<Rightarrow> bool) \<Rightarrow> ('s \<Rightarrow> 's \<Rightarrow> bool) \<Rightarrow> 's \<Rightarrow> bool"
  for initial :: "'s \<Rightarrow> bool" and step :: "'s \<Rightarrow> 's \<Rightarrow> bool" where
  reaches_init: "initial s \<Longrightarrow> reaches initial step s"
| reaches_step: "reaches initial step s \<Longrightarrow> step s t \<Longrightarrow> reaches initial step t"

locale invariant_system =
  fixes initial :: "'s \<Rightarrow> bool" and step :: "'s \<Rightarrow> 's \<Rightarrow> bool" and inv :: "'s \<Rightarrow> bool"
  assumes inv_initial: "initial s \<Longrightarrow> inv s"
    and inv_step: "inv s \<Longrightarrow> step s t \<Longrightarrow> inv t"
begin

lemma reachable_inv: "reaches initial step s \<Longrightarrow> inv s"
  by (induction rule: reaches.induct) (auto intro: inv_initial inv_step)

lemma step_within_reach: "reaches initial step s \<Longrightarrow> step s t \<Longrightarrow> inv s \<and> inv t"
  by (blast intro: reachable_inv reaches_step)

end

text \<open>
  The histories of a system whose steps carry labels, and the answer of a function that takes the
  same labels one after the other, where \<open>None\<close> is a label that it does not allow.
\<close>

inductive runs :: "('s \<Rightarrow> 'l \<Rightarrow> 's \<Rightarrow> bool) \<Rightarrow> 's \<Rightarrow> 'l list \<Rightarrow> 's \<Rightarrow> bool"
  for act :: "'s \<Rightarrow> 'l \<Rightarrow> 's \<Rightarrow> bool" and s0 :: 's where
  runs_Nil: "runs act s0 [] s0"
| runs_snoc: "runs act s0 ls s \<Longrightarrow> act s l t \<Longrightarrow> runs act s0 (ls @ [l]) t"

fun reacts :: "('a \<Rightarrow> 'l \<Rightarrow> 'a option) \<Rightarrow> 'a \<Rightarrow> 'l list \<Rightarrow> 'a option" where
  "reacts react a [] = Some a"
| "reacts react a (l # ls) = (case react a l of None \<Rightarrow> None | Some b \<Rightarrow> reacts react b ls)"

lemma reacts_snoc:
  "reacts react a (ls @ [l]) = (case reacts react a ls of None \<Rightarrow> None | Some b \<Rightarrow> react b l)"
  by (induction ls arbitrary: a) (auto split: option.splits)

text \<open>A labelled system refines a function when every step is the function's reaction to its label.\<close>

locale trace_refinement =
  fixes act :: "'s \<Rightarrow> 'l \<Rightarrow> 's \<Rightarrow> bool" and inv :: "'s \<Rightarrow> bool"
    and abs :: "'s \<Rightarrow> 'a" and react :: "'a \<Rightarrow> 'l \<Rightarrow> 'a option"
  assumes act_inv: "inv s \<Longrightarrow> act s l t \<Longrightarrow> inv t"
    and act_react: "inv s \<Longrightarrow> act s l t \<Longrightarrow> react (abs s) l = Some (abs t)"
begin

lemma runs_react:
  assumes "runs act s0 ls s" and "inv s0"
  shows "inv s \<and> reacts react (abs s0) ls = Some (abs s)"
  using assms by (induction rule: runs.induct) (auto simp: reacts_snoc act_react intro: act_inv)

end

end
