(* ===== verification/Platform.thy ===== *)
theory Platform
  imports Prelude
begin

text \<open>
  The code the repository calls and does not contain: the out-of-line part of \<open>ns3::Packet\<close>
  and \<open>ns3::PppHeader\<close>, and zlib. Each is a record of functions that the component theories
  take as an argument; what the components rely on is a predicate over the record, taken from
  the documentation in \<open>src/ns3/packet.h\<close>, \<open>src/ns3/ppp-header.h\<close> and the zlib manual that
  the README points to. The last section instantiates them by concrete functions, for the
  witnesses.
\<close>

section \<open>Packets and the PPP header\<close>

text \<open>
  \<open>CopyData p n\<close> is the list of bytes that \<open>Packet::CopyData (buf, n)\<close> writes at \<open>buf\<close>,
  \<open>CreatePacket bs\<close> is \<open>Create<Packet> (buf, size)\<close>; the last three are \<open>AddHeader\<close>,
  \<open>RemoveHeader\<close> and \<open>PeekHeader\<close> with a \<open>PppHeader\<close>, whose only field is the protocol.
\<close>

record 'p packet_api =
  GetSize :: "'p \<Rightarrow> u32"
  CopyData :: "'p \<Rightarrow> u32 \<Rightarrow> byte list"
  CreatePacket :: "byte list \<Rightarrow> 'p"
  CreateZeroFilled :: "u32 \<Rightarrow> 'p"
  AddPpp :: "u16 \<Rightarrow> 'p \<Rightarrow> 'p"
  RemovePpp :: "'p \<Rightarrow> u16 \<times> 'p"
  PeekPpp :: "'p \<Rightarrow> u16"

definition packet_laws :: "'p packet_api \<Rightarrow> bool" where
  "packet_laws P \<longleftrightarrow>
     (\<forall>p n. length (CopyData P p n) = min (unat n) (unat (GetSize P p))) \<and>
     (\<forall>bs n. length bs < 2 ^ 32 \<longrightarrow> CopyData P (CreatePacket P bs) n = take (unat n) bs) \<and>
     (\<forall>bs. length bs < 2 ^ 32 \<longrightarrow> GetSize P (CreatePacket P bs) = of_nat (length bs)) \<and>
     (\<forall>v p. GetSize P (AddPpp P v p) = GetSize P p + 2) \<and>
     (\<forall>v p. RemovePpp P (AddPpp P v p) = (v, p)) \<and>
     (\<forall>p. PeekPpp P p = fst (RemovePpp P p))"

lemma packet_lawsD:
  assumes "packet_laws P"
  shows length_CopyData: "length (CopyData P p n) = min (unat n) (unat (GetSize P p))"
    and CopyData_Create: "length bs < 2 ^ 32 \<Longrightarrow> CopyData P (CreatePacket P bs) n = take (unat n) bs"
    and GetSize_Create: "length bs < 2 ^ 32 \<Longrightarrow> GetSize P (CreatePacket P bs) = of_nat (length bs)"
    and GetSize_AddPpp: "GetSize P (AddPpp P v p) = GetSize P p + 2"
    and RemovePpp_AddPpp: "RemovePpp P (AddPpp P v p) = (v, p)"
    and PeekPpp_fst: "PeekPpp P p = fst (RemovePpp P p)"
  using assms unfolding packet_laws_def by blast+

lemma PeekPpp_AddPpp: "packet_laws P \<Longrightarrow> PeekPpp P (AddPpp P v p) = v"
  by (simp add: PeekPpp_fst RemovePpp_AddPpp)

lemma unat_GetSize_Create:
  "packet_laws P \<Longrightarrow> length bs < 2 ^ 32 \<Longrightarrow> unat (GetSize P (CreatePacket P bs)) = length bs"
  by (simp add: GetSize_Create unat_of_nat32)

section \<open>zlib\<close>

text \<open>
  \<open>deflate_finish Z inp n\<close> is what \<open>deflateInit (Z_BEST_COMPRESSION)\<close>, one
  \<open>deflate (Z_FINISH)\<close> and \<open>deflateEnd\<close> write with \<open>inp\<close> as the input and \<open>n\<close> bytes of
  output space, and \<open>deflate_done Z inp n\<close> whether that one call reached the end of the stream
  (\<open>Z_STREAM_END\<close>). \<open>inflate_once Z inp n\<close> is what \<open>inflateInit\<close>, one \<open>inflate\<close> and
  \<open>inflateEnd\<close> write.
\<close>

record zlib_api =
  deflate_finish :: "byte list \<Rightarrow> nat \<Rightarrow> byte list"
  deflate_done :: "byte list \<Rightarrow> nat \<Rightarrow> bool"
  inflate_once :: "byte list \<Rightarrow> nat \<Rightarrow> byte list"

text \<open>Neither call writes more than the output space it is given.\<close>

definition zlib_bounded :: "zlib_api \<Rightarrow> bool" where
  "zlib_bounded Z \<longleftrightarrow>
     (\<forall>inp n. length (deflate_finish Z inp n) \<le> n) \<and> (\<forall>inp n. length (inflate_once Z inp n) \<le> n)"

text \<open>A complete stream decodes to its input, whatever follows it, if the output has room.\<close>

definition zlib_lossless :: "zlib_api \<Rightarrow> bool" where
  "zlib_lossless Z \<longleftrightarrow>
     (\<forall>inp n rest m. deflate_done Z inp n \<longrightarrow> length inp \<le> m \<longrightarrow>
        inflate_once Z (deflate_finish Z inp n @ rest) m = inp)"

lemma deflate_length: "zlib_bounded Z \<Longrightarrow> length (deflate_finish Z inp n) \<le> n"
  by (simp add: zlib_bounded_def)

lemma inflate_length: "zlib_bounded Z \<Longrightarrow> length (inflate_once Z inp n) \<le> n"
  by (simp add: zlib_bounded_def)

section \<open>Addresses\<close>

text \<open>An \<open>Address\<close>, by what its \<open>IsMatchingType\<close> functions answer.\<close>

datatype address =
  NoAddress | Ipv4Addr u32 | Ipv6Addr "128 word" | InetSocketAddr u32 u16 | Inet6SocketAddr "128 word" u16

section \<open>A concrete platform\<close>

text \<open>
  Packets as byte lists with a two-byte big-endian PPP header, and a codec that marks every
  byte of the input with \<open>1\<close> and the end of the stream with \<open>2\<close>.
\<close>

definition byte_packets :: "byte list packet_api" where
  "byte_packets = \<lparr>
     GetSize = (\<lambda>p. of_nat (length p)),
     CopyData = (\<lambda>p n. take (min (unat n) (unat (of_nat (length p) :: u32))) p),
     CreatePacket = (\<lambda>bs. bs),
     CreateZeroFilled = (\<lambda>n. replicate (unat n) 0),
     AddPpp = (\<lambda>v p. ucast (drop_bit 8 v) # ucast v # p),
     RemovePpp = (\<lambda>p. case p of
         h # l # rest \<Rightarrow> (push_bit 8 (ucast h) + ucast l, rest)
       | _ \<Rightarrow> (0, [])),
     PeekPpp = (\<lambda>p. case p of h # l # rest \<Rightarrow> push_bit 8 (ucast h) + ucast l | _ \<Rightarrow> 0)\<rparr>"

lemma ppp_bytes:
  "push_bit 8 (ucast (ucast (drop_bit 8 v :: u16) :: byte)) + ucast (ucast v :: byte) = (v :: u16)"
proof -
  have "push_bit 8 (ucast (ucast (drop_bit 8 v :: u16) :: byte)) + ucast (ucast v :: byte) =
      or (push_bit 8 (ucast (ucast (drop_bit 8 v :: u16) :: byte))) (ucast (ucast v :: byte) :: u16)"
    by (rule disjunctive_add) (auto simp: bit_simps)
  also have "\<dots> = v"
    by (rule bit_word_eqI) (auto simp: bit_simps)
  finally show ?thesis .
qed

lemma byte_packets_laws: "packet_laws byte_packets"
  unfolding packet_laws_def byte_packets_def
  by (auto simp: unsigned_of_nat take_bit_nat_eq_self ppp_bytes min_def take_all split: list.splits
      intro: order_antisym order_trans take_bit_nat_less_eq_self)

fun marked_decode :: "byte list \<Rightarrow> byte list" where
  "marked_decode (m # b # rest) = (if m = 1 then b # marked_decode rest else [])"
| "marked_decode _ = []"

definition marked_encode :: "byte list \<Rightarrow> byte list" where
  "marked_encode bs = concat (map (\<lambda>b. [1, b]) bs) @ [2, 2]"

definition marked_codec :: zlib_api where
  "marked_codec = \<lparr>
     deflate_finish = (\<lambda>inp n. take n (marked_encode inp)),
     deflate_done = (\<lambda>inp n. length (marked_encode inp) \<le> n),
     inflate_once = (\<lambda>inp n. take n (marked_decode inp))\<rparr>"

lemma marked_roundtrip: "marked_decode (marked_encode bs @ rest) = bs"
  by (induction bs) (auto simp: marked_encode_def)

lemma marked_codec_bounded: "zlib_bounded marked_codec"
  by (simp add: zlib_bounded_def marked_codec_def)

lemma marked_codec_lossless: "zlib_lossless marked_codec"
  by (simp add: zlib_lossless_def marked_codec_def marked_roundtrip)

end
