(* ===== verification/Drop_Tail_Queue.thy ===== *)
theory Drop_Tail_Queue
  imports Platform
begin

text \<open>
  The device's transmit queue: the class templates \<open>Queue<Item>\<close> (\<open>src/ns3/queue.h\<close>) and
  \<open>DropTailQueue<Item>\<close> (\<open>src/ns3/drop-tail-queue.h\<close>) and the addition of a packet to a
  \<open>QueueSize\<close> (\<open>src/ns3/queue-size.h\<close>). The non-template part of \<open>QueueBase\<close> and the
  comparison of two \<open>QueueSize\<close> are in files the repository does not hold and are arguments
  here. The trace sources of a queue are the list \<open>q_trace\<close> of the callbacks it fired.
\<close>

section \<open>State\<close>

datatype QueueSizeUnit = PACKETS | BYTES

record queue_size =
  qs_unit :: QueueSizeUnit
  qs_value :: u32

datatype 'p queue_event =
  TraceEnqueue 'p | TraceDequeue 'p | TraceDrop 'p | TraceDropBeforeEnqueue 'p
| TraceDropAfterDequeue 'p

record 'p queue =
  m_packets :: "'p list"
  m_nBytes :: u32
  m_nTotalReceivedBytes :: u32
  m_nPackets :: u32
  m_nTotalReceivedPackets :: u32
  m_nTotalDroppedBytes :: u32
  m_nTotalDroppedBytesBeforeEnqueue :: u32
  m_nTotalDroppedBytesAfterDequeue :: u32
  m_nTotalDroppedPackets :: u32
  m_nTotalDroppedPacketsBeforeEnqueue :: u32
  m_nTotalDroppedPacketsAfterDequeue :: u32
  m_maxSize :: queue_size
  q_trace :: "'p queue_event list"

definition fire :: "'p queue_event list \<Rightarrow> 'p queue \<Rightarrow> 'p queue" where
  "fire es q = q\<lparr>q_trace := q_trace q @ es\<rparr>"

text \<open>A queue with the given limit, nothing in it and all statistics at zero.\<close>

definition DropTailQueue :: "queue_size \<Rightarrow> 'p queue" where
  "DropTailQueue mx = \<lparr>m_packets = [], m_nBytes = 0, m_nTotalReceivedBytes = 0, m_nPackets = 0,
     m_nTotalReceivedPackets = 0, m_nTotalDroppedBytes = 0, m_nTotalDroppedBytesBeforeEnqueue = 0,
     m_nTotalDroppedBytesAfterDequeue = 0, m_nTotalDroppedPackets = 0,
     m_nTotalDroppedPacketsBeforeEnqueue = 0, m_nTotalDroppedPacketsAfterDequeue = 0,
     m_maxSize = mx, q_trace = []\<rparr>"

section \<open>What is outside the repository\<close>

text \<open>
  \<open>QueueBase::GetCurrentSize\<close>, \<open>QueueSize::operator >\<close> and \<open>QueueBase::IsEmpty\<close>, with what
  their documentation in \<open>queue.h\<close> and \<open>queue-size.h\<close> says of them.
\<close>

record 'p queue_base_api =
  GetCurrentSize :: "'p queue \<Rightarrow> queue_size"
  SizeGreater :: "queue_size \<Rightarrow> queue_size \<Rightarrow> bool"
  IsEmpty :: "'p queue \<Rightarrow> bool"

definition queue_base_laws :: "'p queue_base_api \<Rightarrow> bool" where
  "queue_base_laws B \<longleftrightarrow>
     (\<forall>q. GetCurrentSize B q = \<lparr>qs_unit = qs_unit (m_maxSize q),
        qs_value = (case qs_unit (m_maxSize q) of PACKETS \<Rightarrow> m_nPackets q | BYTES \<Rightarrow> m_nBytes q)\<rparr>) \<and>
     (\<forall>a b. qs_unit a = qs_unit b \<longrightarrow> SizeGreater B a b = (qs_value b < qs_value a)) \<and>
     (\<forall>q. IsEmpty B q = (m_nPackets q = 0))"

section \<open>Operations\<close>

definition queue_size_plus :: "'p packet_api \<Rightarrow> queue_size \<Rightarrow> 'p \<Rightarrow> queue_size" where
  "queue_size_plus P lhs rhs = (case qs_unit lhs of
       PACKETS \<Rightarrow> \<lparr>qs_unit = qs_unit lhs, qs_value = qs_value lhs + 1\<rparr>
     | BYTES \<Rightarrow> \<lparr>qs_unit = qs_unit lhs, qs_value = qs_value lhs + GetSize P rhs\<rparr>)"

definition DropBeforeEnqueue :: "'p packet_api \<Rightarrow> 'p queue \<Rightarrow> 'p \<Rightarrow> 'p queue" where
  "DropBeforeEnqueue P q item =
     fire [TraceDrop item, TraceDropBeforeEnqueue item]
       (q\<lparr>m_nTotalDroppedPackets := m_nTotalDroppedPackets q + 1,
          m_nTotalDroppedPacketsBeforeEnqueue := m_nTotalDroppedPacketsBeforeEnqueue q + 1,
          m_nTotalDroppedBytes := m_nTotalDroppedBytes q + GetSize P item,
          m_nTotalDroppedBytesBeforeEnqueue :=
            m_nTotalDroppedBytesBeforeEnqueue q + GetSize P item\<rparr>)"

definition DropAfterDequeue :: "'p packet_api \<Rightarrow> 'p queue \<Rightarrow> 'p \<Rightarrow> 'p queue" where
  "DropAfterDequeue P q item =
     fire [TraceDrop item, TraceDropAfterDequeue item]
       (q\<lparr>m_nTotalDroppedPackets := m_nTotalDroppedPackets q + 1,
          m_nTotalDroppedPacketsAfterDequeue := m_nTotalDroppedPacketsAfterDequeue q + 1,
          m_nTotalDroppedBytes := m_nTotalDroppedBytes q + GetSize P item,
          m_nTotalDroppedBytesAfterDequeue :=
            m_nTotalDroppedBytesAfterDequeue q + GetSize P item\<rparr>)"

text \<open>An iterator into \<open>m_packets\<close> is its index; \<open>length\<close> is \<open>cend ()\<close>.\<close>

definition DoEnqueue ::
  "'p packet_api \<Rightarrow> 'p queue_base_api \<Rightarrow> 'p queue \<Rightarrow> nat \<Rightarrow> 'p \<Rightarrow> bool \<times> 'p queue" where
  "DoEnqueue P B q pos item =
     (if SizeGreater B (queue_size_plus P (GetCurrentSize B q) item) (m_maxSize q)
      then (False, DropBeforeEnqueue P q item)
      else let sz = GetSize P item in
        (True, fire [TraceEnqueue item]
          (q\<lparr>m_packets := take pos (m_packets q) @ item # drop pos (m_packets q),
             m_nBytes := m_nBytes q + sz,
             m_nTotalReceivedBytes := m_nTotalReceivedBytes q + sz,
             m_nPackets := m_nPackets q + 1,
             m_nTotalReceivedPackets := m_nTotalReceivedPackets q + 1\<rparr>)))"

text \<open>The part \<open>DoDequeue\<close> and \<open>DoRemove\<close> share: take the item at \<open>pos\<close> out.\<close>

definition take_out :: "bool \<Rightarrow> 'p packet_api \<Rightarrow> 'p queue \<Rightarrow> nat \<Rightarrow> ('p \<times> 'p queue) res" where
  "take_out asserts P q pos =
     (if pos < length (m_packets q) then
        let item = m_packets q ! pos;
            q1 = q\<lparr>m_packets := take pos (m_packets q) @ drop (Suc pos) (m_packets q)\<rparr>
        in bind_res (ns_assert asserts (GetSize P item \<le> m_nBytes q1) ''m_nBytes >= GetSize'') (\<lambda>_.
           bind_res (ns_assert asserts (m_nPackets q1 > 0) ''m_nPackets > 0'') (\<lambda>_.
           Inr (item, fire [TraceDequeue item]
             (q1\<lparr>m_nBytes := m_nBytes q1 - GetSize P item, m_nPackets := m_nPackets q1 - 1\<rparr>))))
      else Inl (Undefined ''dereference of cend''))"

definition DoDequeue ::
  "bool \<Rightarrow> 'p packet_api \<Rightarrow> 'p queue \<Rightarrow> nat \<Rightarrow> ('p option \<times> 'p queue) res" where
  "DoDequeue asserts P q pos =
     (if m_nPackets q = 0 then Inr (None, q)
      else bind_res (take_out asserts P q pos) (\<lambda>(item, q'). Inr (Some item, q')))"

definition DoRemove ::
  "bool \<Rightarrow> 'p packet_api \<Rightarrow> 'p queue \<Rightarrow> nat \<Rightarrow> ('p option \<times> 'p queue) res" where
  "DoRemove asserts P q pos =
     (if m_nPackets q = 0 then Inr (None, q)
      else bind_res (take_out asserts P q pos) (\<lambda>(item, q').
        Inr (Some item, DropAfterDequeue P q' item)))"

definition DoPeek :: "'p queue \<Rightarrow> nat \<Rightarrow> 'p option res" where
  "DoPeek q pos =
     (if m_nPackets q = 0 then Inr None
      else if pos < length (m_packets q) then Inr (Some (m_packets q ! pos))
      else Inl (Undefined ''dereference of cend''))"

definition Head :: "'p queue \<Rightarrow> nat" where
  "Head q = 0"

definition Tail :: "'p queue \<Rightarrow> nat" where
  "Tail q = length (m_packets q)"

definition Enqueue ::
  "'p packet_api \<Rightarrow> 'p queue_base_api \<Rightarrow> 'p queue \<Rightarrow> 'p \<Rightarrow> bool \<times> 'p queue" where
  "Enqueue P B q item = DoEnqueue P B q (Tail q) item"

definition Dequeue :: "bool \<Rightarrow> 'p packet_api \<Rightarrow> 'p queue \<Rightarrow> ('p option \<times> 'p queue) res" where
  "Dequeue asserts P q = DoDequeue asserts P q (Head q)"

definition Remove :: "bool \<Rightarrow> 'p packet_api \<Rightarrow> 'p queue \<Rightarrow> ('p option \<times> 'p queue) res" where
  "Remove asserts P q = DoRemove asserts P q (Head q)"

definition Peek :: "'p queue \<Rightarrow> 'p option res" where
  "Peek q = DoPeek q (Head q)"

text \<open>
  \<open>while (!IsEmpty ()) Remove ();\<close> with fuel: \<open>None\<close> is a loop that has not ended.
\<close>

fun Flush :: "nat \<Rightarrow> bool \<Rightarrow> 'p packet_api \<Rightarrow> 'p queue_base_api \<Rightarrow> 'p queue \<Rightarrow> 'p queue res option" where
  "Flush 0 asserts P B q = (if IsEmpty B q then Some (Inr q) else None)"
| "Flush (Suc fuel) asserts P B q =
     (if IsEmpty B q then Some (Inr q)
      else case Remove asserts P q of
             Inl e \<Rightarrow> Some (Inl e)
           | Inr (_, q') \<Rightarrow> Flush fuel asserts P B q')"

section \<open>What a queue promises\<close>

text \<open>The packets that went in and out, read off the trace callbacks.\<close>

definition enqueued :: "'p queue_event list \<Rightarrow> 'p list" where
  "enqueued es = concat (map (\<lambda>e. case e of TraceEnqueue p \<Rightarrow> [p] | _ \<Rightarrow> []) es)"

definition dequeued :: "'p queue_event list \<Rightarrow> 'p list" where
  "dequeued es = concat (map (\<lambda>e. case e of TraceDequeue p \<Rightarrow> [p] | _ \<Rightarrow> []) es)"

text \<open>Packets of a legal size: not empty (a PPP header is always there) and at most \<open>L\<close>.\<close>

definition sized :: "'p packet_api \<Rightarrow> nat \<Rightarrow> 'p \<Rightarrow> bool" where
  "sized P L p \<longleftrightarrow> 0 < unat (GetSize P p) \<and> unat (GetSize P p) \<le> L"

definition total_bytes :: "'p packet_api \<Rightarrow> 'p list \<Rightarrow> nat" where
  "total_bytes P ps = sum_list (map (\<lambda>p. unat (GetSize P p)) ps)"

text \<open>The limit holds, and it is far enough from \<open>2^32\<close> that no counter of the queue wraps.\<close>

definition within_limit :: "'p packet_api \<Rightarrow> nat \<Rightarrow> queue_size \<Rightarrow> 'p list \<Rightarrow> bool" where
  "within_limit P L mx ps = (case qs_unit mx of
       PACKETS \<Rightarrow> length ps \<le> unat (qs_value mx)
     | BYTES \<Rightarrow> total_bytes P ps \<le> unat (qs_value mx))"

definition sane_limit :: "nat \<Rightarrow> queue_size \<Rightarrow> bool" where
  "sane_limit L mx = (case qs_unit mx of
       PACKETS \<Rightarrow> Suc (unat (qs_value mx)) * L < 2 ^ 32 \<and> 0 < L
     | BYTES \<Rightarrow> unat (qs_value mx) + L < 2 ^ 32)"

definition queue_inv :: "'p packet_api \<Rightarrow> nat \<Rightarrow> 'p queue \<Rightarrow> bool" where
  "queue_inv P L q \<longleftrightarrow>
     m_nPackets q = of_nat (length (m_packets q)) \<and>
     m_nBytes q = of_nat (total_bytes P (m_packets q)) \<and>
     m_nTotalDroppedPackets q =
       m_nTotalDroppedPacketsBeforeEnqueue q + m_nTotalDroppedPacketsAfterDequeue q \<and>
     m_nTotalDroppedBytes q =
       m_nTotalDroppedBytesBeforeEnqueue q + m_nTotalDroppedBytesAfterDequeue q \<and>
     (\<forall>p \<in> set (m_packets q). sized P L p) \<and>
     sane_limit L (m_maxSize q) \<and>
     within_limit P L (m_maxSize q) (m_packets q) \<and>
     enqueued (q_trace q) = dequeued (q_trace q) @ m_packets q"

lemma trace_simps [simp]:
  "enqueued [] = []" "dequeued [] = []"
  "enqueued (xs @ ys) = enqueued xs @ enqueued ys"
  "dequeued (xs @ ys) = dequeued xs @ dequeued ys"
  "enqueued (TraceEnqueue p # xs) = p # enqueued xs"
  "enqueued (TraceDequeue p # xs) = enqueued xs"
  "enqueued (TraceDrop p # xs) = enqueued xs"
  "enqueued (TraceDropBeforeEnqueue p # xs) = enqueued xs"
  "enqueued (TraceDropAfterDequeue p # xs) = enqueued xs"
  "dequeued (TraceEnqueue p # xs) = dequeued xs"
  "dequeued (TraceDequeue p # xs) = p # dequeued xs"
  "dequeued (TraceDrop p # xs) = dequeued xs"
  "dequeued (TraceDropBeforeEnqueue p # xs) = dequeued xs"
  "dequeued (TraceDropAfterDequeue p # xs) = dequeued xs"
  by (simp_all add: enqueued_def dequeued_def)

lemma total_bytes_simps [simp]:
  "total_bytes P [] = 0"
  "total_bytes P (p # ps) = unat (GetSize P p) + total_bytes P ps"
  "total_bytes P (ps @ qs) = total_bytes P ps + total_bytes P qs"
  by (simp_all add: total_bytes_def)

lemma total_bytes_le: "\<forall>p \<in> set ps. sized P L p \<Longrightarrow> total_bytes P ps \<le> length ps * L"
  by (induction ps) (auto simp: sized_def add_mono)

lemma length_le_total_bytes: "\<forall>p \<in> set ps. sized P L p \<Longrightarrow> length ps \<le> total_bytes P ps"
  by (induction ps) (auto simp: sized_def)

text \<open>In a sane queue neither the packet count nor the byte count reaches \<open>2^32\<close>.\<close>

lemma queue_no_wrap:
  assumes "queue_inv P L q"
  shows "Suc (length (m_packets q)) < 2 ^ 32" and "total_bytes P (m_packets q) + L < 2 ^ 32"
proof -
  let ?n = "length (m_packets q)" and ?t = "total_bytes P (m_packets q)"
  let ?v = "unat (qs_value (m_maxSize q))"
  have tl: "?t \<le> ?n * L" and lt: "?n \<le> ?t"
    using assms total_bytes_le length_le_total_bytes by (auto simp: queue_inv_def)
  have "Suc ?n < 2 ^ 32 \<and> ?t + L < 2 ^ 32"
  proof (cases "qs_unit (m_maxSize q)")
    case PACKETS
    then have n: "?n \<le> ?v" and v: "Suc ?v * L < 2 ^ 32" and L: "0 < L"
      using assms by (auto simp: queue_inv_def within_limit_def sane_limit_def)
    have "?t + L \<le> Suc ?n * L" using tl by simp
    also have "\<dots> \<le> Suc ?v * L" using n by (intro mult_le_mono) auto
    finally have t: "?t + L < 2 ^ 32" using v by simp
    have "Suc ?n * 1 \<le> Suc ?v * L"
      using n L by (intro mult_le_mono) auto
    then have "Suc ?n \<le> Suc ?v * L" by (simp only: mult_1_right)
    then have "Suc ?n < 2 ^ 32" using v by (rule le_less_trans)
    then show ?thesis using t by simp
  next
    case BYTES
    then have b: "?t \<le> ?v" "?v + L < 2 ^ 32"
      using assms by (auto simp: queue_inv_def within_limit_def sane_limit_def)
    show ?thesis
    proof (cases "m_packets q")
      case Nil
      then show ?thesis using b by simp
    next
      case (Cons p ps)
      then have "0 < L" using assms by (auto simp: queue_inv_def sized_def)
      then show ?thesis using b lt by simp
    qed
  qed
  then show "Suc ?n < 2 ^ 32" and "?t + L < 2 ^ 32" by auto
qed

lemma queue_counts:
  assumes "queue_inv P L q"
  shows "unat (m_nPackets q) = length (m_packets q)"
    and "unat (m_nBytes q) = total_bytes P (m_packets q)"
    and "m_nPackets q = 0 \<longleftrightarrow> m_packets q = []"
proof -
  show n: "unat (m_nPackets q) = length (m_packets q)"
    using assms queue_no_wrap(1) [OF assms] by (simp add: queue_inv_def unat_of_nat32)
  show "unat (m_nBytes q) = total_bytes P (m_packets q)"
    using assms queue_no_wrap(2) [OF assms] by (simp add: queue_inv_def unat_of_nat32)
  show "m_nPackets q = 0 \<longleftrightarrow> m_packets q = []"
    using n by (metis length_0_conv unat_eq_0)
qed

section \<open>Every operation keeps the promise\<close>

lemma queue_inv_empty: "sane_limit L mx \<Longrightarrow> queue_inv P L (DropTailQueue mx)"
  by (simp add: queue_inv_def DropTailQueue_def within_limit_def split: QueueSizeUnit.splits)

text \<open>\<open>Enqueue\<close> accepts a packet exactly when the limit would still hold with it.\<close>

lemma Enqueue_accepts:
  assumes B: "queue_base_laws B" and q: "queue_inv P L q" and p: "sized P L p"
  shows "fst (Enqueue P B q p) \<longleftrightarrow> within_limit P L (m_maxSize q) (m_packets q @ [p])"
proof -
  have n: "unat (m_nPackets q + 1) = Suc (length (m_packets q))"
    using queue_no_wrap(1) [OF q] queue_counts(1) [OF q] by (simp add: unat_plus32)
  have t: "unat (m_nBytes q + GetSize P p) = total_bytes P (m_packets q) + unat (GetSize P p)"
    using queue_no_wrap(2) [OF q] queue_counts(2) [OF q] p by (simp add: unat_plus32 sized_def)
  show ?thesis
    using B n t unfolding queue_base_laws_def
    by (auto simp: Enqueue_def DoEnqueue_def queue_size_plus_def within_limit_def Let_def
        word_less_nat_alt not_less split: QueueSizeUnit.splits)
qed

lemma Enqueue_fields:
  "Enqueue P B q p = (True, q') \<Longrightarrow> m_packets q' = m_packets q @ [p] \<and> m_maxSize q' = m_maxSize q
     \<and> q_trace q' = q_trace q @ [TraceEnqueue p]"
  "Enqueue P B q p = (False, q') \<Longrightarrow> m_packets q' = m_packets q \<and> m_maxSize q' = m_maxSize q
     \<and> q_trace q' = q_trace q @ [TraceDrop p, TraceDropBeforeEnqueue p]"
  by (auto simp: Enqueue_def DoEnqueue_def Tail_def fire_def DropBeforeEnqueue_def Let_def
      split: if_splits)

lemma Enqueue_inv:
  assumes B: "queue_base_laws B" and q: "queue_inv P L q" and p: "sized P L p"
    and e: "Enqueue P B q p = (ok, q')"
  shows "queue_inv P L q'"
proof (cases ok)
  case False
  then have "q' = DropBeforeEnqueue P q p"
    using e by (auto simp: Enqueue_def DoEnqueue_def Let_def split: if_splits)
  then show ?thesis using q by (simp add: queue_inv_def DropBeforeEnqueue_def fire_def)
next
  case True
  then have w: "within_limit P L (m_maxSize q) (m_packets q @ [p])"
    using Enqueue_accepts [OF B q p] e by simp
  have "q' = fire [TraceEnqueue p]
      (q\<lparr>m_packets := m_packets q @ [p], m_nBytes := m_nBytes q + GetSize P p,
         m_nTotalReceivedBytes := m_nTotalReceivedBytes q + GetSize P p,
         m_nPackets := m_nPackets q + 1,
         m_nTotalReceivedPackets := m_nTotalReceivedPackets q + 1\<rparr>)"
    using e True by (auto simp: Enqueue_def DoEnqueue_def Tail_def Let_def split: if_splits)
  then show ?thesis using q p w by (simp add: queue_inv_def fire_def add.commute)
qed

lemma take_out_head:
  assumes q: "queue_inv P L q" and c: "m_packets q = p # ps"
  shows "\<exists>q'. take_out a P q 0 = Inr (p, q') \<and> queue_inv P L q' \<and> m_packets q' = ps
           \<and> m_maxSize q' = m_maxSize q \<and> q_trace q' = q_trace q @ [TraceDequeue p]"
proof -
  have n: "0 < m_nPackets q" using queue_counts(3) [OF q] c by (simp add: word_neq_0_conv)
  have b: "GetSize P p \<le> m_nBytes q"
    using queue_counts(2) [OF q] c by (simp add: word_le_nat_alt)
  let ?q' = "q\<lparr>m_packets := ps, m_nBytes := m_nBytes q - GetSize P p,
      m_nPackets := m_nPackets q - 1, q_trace := q_trace q @ [TraceDequeue p]\<rparr>"
  have "take_out a P q 0 = Inr (p, ?q')"
    using c n b by (simp add: take_out_def fire_def Let_def)
  moreover have "within_limit P L (m_maxSize q) ps"
    using q c by (auto simp: queue_inv_def within_limit_def split: QueueSizeUnit.splits)
  then have "queue_inv P L ?q'" using q c by (simp add: queue_inv_def)
  ultimately show ?thesis by auto
qed

lemma Dequeue_empty: "queue_inv P L q \<Longrightarrow> m_packets q = [] \<Longrightarrow> Dequeue a P q = Inr (None, q)"
  by (simp add: Dequeue_def DoDequeue_def queue_counts)

lemma Dequeue_head:
  assumes q: "queue_inv P L q" and c: "m_packets q = p # ps"
  shows "\<exists>q'. Dequeue a P q = Inr (Some p, q') \<and> queue_inv P L q' \<and> m_packets q' = ps
           \<and> m_maxSize q' = m_maxSize q \<and> q_trace q' = q_trace q @ [TraceDequeue p]"
  using take_out_head [OF q c, of a] queue_counts(3) [OF q] c
  by (auto simp: Dequeue_def DoDequeue_def Head_def)

lemma Remove_empty: "queue_inv P L q \<Longrightarrow> m_packets q = [] \<Longrightarrow> Remove a P q = Inr (None, q)"
  by (simp add: Remove_def DoRemove_def queue_counts)

lemma Remove_head:
  assumes q: "queue_inv P L q" and c: "m_packets q = p # ps"
  shows "\<exists>q'. Remove a P q = Inr (Some p, q') \<and> queue_inv P L q' \<and> m_packets q' = ps"
proof -
  obtain q1 where q1: "take_out a P q 0 = Inr (p, q1)" "queue_inv P L q1" "m_packets q1 = ps"
    using take_out_head [OF q c, of a] by auto
  have "queue_inv P L (DropAfterDequeue P q1 p)"
    using q1(2) by (simp add: queue_inv_def DropAfterDequeue_def fire_def)
  then show ?thesis
    using q1 queue_counts(3) [OF q] c
    by (auto simp: Remove_def DoRemove_def Head_def DropAfterDequeue_def fire_def)
qed

section \<open>The FIFO interface\<close>

text \<open>
  What the device relies on when it hands packets to a queue and takes them back: \<open>put\<close>
  appends or refuses, \<open>get\<close> takes the oldest packet and never stops the program.
\<close>

fun drain :: "('q \<Rightarrow> ('p option \<times> 'q) res) \<Rightarrow> nat \<Rightarrow> 'q \<Rightarrow> ('p list \<times> 'q) res" where
  "drain take_one 0 q = Inr ([], q)"
| "drain take_one (Suc n) q = bind_res (take_one q) (\<lambda>(x, q1).
     case x of None \<Rightarrow> Inr ([], q1)
     | Some p \<Rightarrow> bind_res (drain take_one n q1) (\<lambda>(ps, q2). Inr (p # ps, q2)))"

fun offer :: "('q \<Rightarrow> 'p \<Rightarrow> bool \<times> 'q) \<Rightarrow> 'q \<Rightarrow> 'p list \<Rightarrow> 'p list \<times> 'q" where
  "offer give q [] = ([], q)"
| "offer give q (p # ps) =
     (let (ok, q1) = give q p; (acc, q2) = offer give q1 ps
      in (if ok then p # acc else acc, q2))"

locale fifo_service =
  fixes put :: "'q \<Rightarrow> 'p \<Rightarrow> bool \<times> 'q"
    and get :: "'q \<Rightarrow> ('p option \<times> 'q) res"
    and contents :: "'q \<Rightarrow> 'p list"
    and good :: "'q \<Rightarrow> bool"
    and legal :: "'p \<Rightarrow> bool"
  assumes put_good: "good q \<Longrightarrow> legal p \<Longrightarrow> put q p = (ok, q') \<Longrightarrow> good q'"
    and put_contents: "good q \<Longrightarrow> legal p \<Longrightarrow> put q p = (ok, q') \<Longrightarrow>
      contents q' = (if ok then contents q @ [p] else contents q)"
    and get_empty: "good q \<Longrightarrow> contents q = [] \<Longrightarrow> get q = Inr (None, q)"
    and get_head: "good q \<Longrightarrow> contents q = p # ps \<Longrightarrow>
      \<exists>q'. get q = Inr (Some p, q') \<and> good q' \<and> contents q' = ps"
begin

lemma get_total: "good q \<Longrightarrow> \<exists>x q'. get q = Inr (x, q') \<and> good q'"
  by (cases "contents q") (auto dest: get_empty get_head)

lemma put_get_empty:
  "good q \<Longrightarrow> legal p \<Longrightarrow> contents q = [] \<Longrightarrow> put q p = (True, q1) \<Longrightarrow>
     \<exists>q2. get q1 = Inr (Some p, q2) \<and> good q2 \<and> contents q2 = []"
  using put_good [of q p True q1] put_contents [of q p True q1] get_head [of q1 p "[]"] by auto

lemma offer_contents:
  "good q \<Longrightarrow> \<forall>p \<in> set ps. legal p \<Longrightarrow> offer put q ps = (acc, q') \<Longrightarrow>
     good q' \<and> contents q' = contents q @ acc"
proof (induction ps arbitrary: q acc q')
  case (Cons p ps)
  obtain ok q1 where q1: "put q p = (ok, q1)" by fastforce
  obtain acc1 q2 where q2: "offer put q1 ps = (acc1, q2)" by fastforce
  have "good q1" and "contents q1 = (if ok then contents q @ [p] else contents q)"
    using Cons.prems q1 put_good put_contents by auto
  then show ?case using Cons.IH [OF _ _ q2] Cons.prems q1 q2 by (auto split: if_splits)
qed simp

lemma drain_contents:
  "good q \<Longrightarrow> n \<le> length (contents q) \<Longrightarrow>
     \<exists>q'. drain get n q = Inr (take n (contents q), q') \<and> good q' \<and> contents q' = drop n (contents q)"
proof (induction n arbitrary: q)
  case (Suc n)
  then obtain p ps where c: "contents q = p # ps" by (cases "contents q") auto
  with Suc.prems obtain q1 where "get q = Inr (Some p, q1)" "good q1" "contents q1 = ps"
    using get_head by blast
  then show ?case using Suc.IH [of q1] Suc.prems c by auto
qed simp

lemma offer_drain:
  assumes "good q" and "contents q = []" and "\<forall>p \<in> set ps. legal p"
    and "offer put q ps = (acc, q1)"
  shows "\<exists>q2. drain get (length acc) q1 = Inr (acc, q2) \<and> contents q2 = []"
  using offer_contents [OF assms(1,3,4)] assms(2) drain_contents [of q1 "length acc"] by auto

end

text \<open>The drop-tail queue provides it, with \<open>Dequeue\<close> and with \<open>Remove\<close> as the way out.\<close>

lemma Enqueue_contents:
  "Enqueue P B q p = (ok, q') \<Longrightarrow> m_packets q' = (if ok then m_packets q @ [p] else m_packets q)"
  using Enqueue_fields by (cases ok) fastforce+

lemma Enqueue_enqueued:
  "Enqueue P B q p = (ok, q') \<Longrightarrow>
     enqueued (q_trace q') = (if ok then enqueued (q_trace q) @ [p] else enqueued (q_trace q))"
  using Enqueue_fields by (cases ok) fastforce+

definition plain_queue_base :: "'p queue_base_api" where
  "plain_queue_base = \<lparr>
     GetCurrentSize = (\<lambda>q. \<lparr>qs_unit = qs_unit (m_maxSize q),
        qs_value = (case qs_unit (m_maxSize q) of PACKETS \<Rightarrow> m_nPackets q | BYTES \<Rightarrow> m_nBytes q)\<rparr>),
     SizeGreater = (\<lambda>a b. qs_value b < qs_value a),
     IsEmpty = (\<lambda>q. m_nPackets q = 0)\<rparr>"

lemma plain_queue_base_laws: "queue_base_laws plain_queue_base"
  by (simp add: queue_base_laws_def plain_queue_base_def)

text \<open>
  A platform of laws on the level of types, so that the interpretations hold for every packet
  type: the laws of the queue base are a hypothesis of the law-abiding puts and gets.
\<close>

definition lawful_good :: "'p packet_api \<Rightarrow> 'p queue_base_api \<Rightarrow> nat \<Rightarrow> 'p queue \<Rightarrow> bool" where
  "lawful_good P B L q \<longleftrightarrow> queue_base_laws B \<and> queue_inv P L q"

interpretation tx: fifo_service "Enqueue P B" "Dequeue a P" m_packets "lawful_good P B L" "sized P L"
  for P :: "'p packet_api" and B :: "'p queue_base_api" and a L
  by unfold_locales
    (auto simp: lawful_good_def Enqueue_contents Dequeue_empty intro: Enqueue_inv
      dest: Dequeue_head [where a = a])

interpretation flushing: fifo_service "Enqueue P B" "Remove a P" m_packets "lawful_good P B L" "sized P L"
  for P :: "'p packet_api" and B :: "'p queue_base_api" and a L
  by unfold_locales
    (auto simp: lawful_good_def Enqueue_contents Remove_empty intro: Enqueue_inv
      dest: Remove_head [where a = a])

section \<open>Properties\<close>

text \<open>C38. FIFO: what a queue accepted comes out complete and in the order it went in.\<close>

theorem queue_fifo:
  assumes "queue_base_laws B" and "sane_limit L mx" and "\<forall>p \<in> set ps. sized P L p"
    and "offer (Enqueue P B) (DropTailQueue mx) ps = (acc, q)"
  shows "\<exists>q'. drain (Dequeue asserts P) (length acc) q = Inr (acc, q') \<and> m_packets q' = []"
proof -
  have "lawful_good P B L (DropTailQueue mx)"
    using assms(1,2) by (simp add: lawful_good_def queue_inv_empty)
  then show ?thesis
    using tx.offer_drain [of P B L "DropTailQueue mx" ps acc q asserts] assms(3,4)
    by (simp add: DropTailQueue_def)
qed

text \<open>The queue of the witnesses: two packets of at most 1500 bytes each, packets as byte lists.\<close>

definition two_packets :: queue_size where
  "two_packets = \<lparr>qs_unit = PACKETS, qs_value = 2\<rparr>"

lemma two_packets_sane: "sane_limit 1500 two_packets"
  by (simp add: sane_limit_def two_packets_def)

lemma small_sized: "\<forall>p \<in> set [[1], [2, 2], [3, 3, 3]]. sized byte_packets 1500 p"
  by (simp add: sized_def byte_packets_def)

lemma offered_sample:
  "fst (offer (Enqueue byte_packets plain_queue_base) (DropTailQueue two_packets)
     [[1], [2, 2], [3, 3, 3]]) = [[1], [2, 2]]"
  by (simp add: two_packets_def DropTailQueue_def Enqueue_def DoEnqueue_def DropBeforeEnqueue_def
      queue_size_plus_def plain_queue_base_def byte_packets_def fire_def Tail_def Let_def)

lemma sample_offer_inv:
  assumes "offer (Enqueue byte_packets plain_queue_base) (DropTailQueue two_packets)
    [[1], [2, 2], [3, 3, 3]] = (acc, q)"
  shows "queue_inv byte_packets 1500 q \<and> m_packets q = acc"
proof -
  have "lawful_good byte_packets plain_queue_base 1500 (DropTailQueue two_packets)"
    using plain_queue_base_laws two_packets_sane by (simp add: lawful_good_def queue_inv_empty)
  then show ?thesis
    using tx.offer_contents [OF _ small_sized assms] by (simp add: lawful_good_def DropTailQueue_def)
qed

theorem queue_fifo_witness:
  "\<exists>q q'. offer (Enqueue byte_packets plain_queue_base) (DropTailQueue two_packets)
       [[1], [2, 2], [3, 3, 3]] = ([[1], [2, 2]], q) \<and>
     drain (Dequeue True byte_packets) 2 q = Inr ([[1], [2, 2]], q')"
proof -
  obtain q where q: "offer (Enqueue byte_packets plain_queue_base) (DropTailQueue two_packets)
      [[1], [2, 2], [3, 3, 3]] = ([[1], [2, 2]], q)"
    using offered_sample by (metis prod.collapse)
  then show ?thesis
    using queue_fifo [OF plain_queue_base_laws two_packets_sane small_sized q, of True]
    by (auto simp del: offer.simps drain.simps simp: numeral_2_eq_2)
qed

text \<open>C37. \<open>Flush\<close> ends after at most one pass per packet, empties the queue and never fails.\<close>

theorem Flush_terminates:
  assumes "queue_base_laws B" and "queue_inv P L q" and "length (m_packets q) \<le> fuel"
  shows "\<exists>q'. Flush fuel asserts P B q = Some (Inr q') \<and> m_packets q' = [] \<and> queue_inv P L q'"
  using assms(2,3)
proof (induction fuel arbitrary: q)
  case 0
  then show ?case using assms(1) by (simp add: queue_base_laws_def queue_counts(3))
next
  case (Suc fuel)
  show ?case
  proof (cases "m_packets q")
    case Nil
    then show ?thesis using Suc.prems assms(1) by (simp add: queue_base_laws_def queue_counts(3))
  next
    case (Cons p ps)
    then obtain q1 where "Remove asserts P q = Inr (Some p, q1)" "queue_inv P L q1" "m_packets q1 = ps"
      using Remove_head [OF Suc.prems(1) Cons, of asserts] by blast
    moreover have "\<not> IsEmpty B q"
      using assms(1) Cons queue_counts(3) [OF Suc.prems(1)] by (simp add: queue_base_laws_def)
    ultimately show ?thesis using Suc.IH [of q1] Suc.prems(2) Cons by simp
  qed
qed

theorem Flush_terminates_witness:
  "\<exists>q q'. offer (Enqueue byte_packets plain_queue_base) (DropTailQueue two_packets)
       [[1], [2, 2], [3, 3, 3]] = ([[1], [2, 2]], q) \<and>
     Flush 2 True byte_packets plain_queue_base q = Some (Inr q') \<and> m_packets q' = []"
proof -
  obtain q where q: "offer (Enqueue byte_packets plain_queue_base) (DropTailQueue two_packets)
      [[1], [2, 2], [3, 3, 3]] = ([[1], [2, 2]], q)"
    using offered_sample by (metis prod.collapse)
  have "queue_inv byte_packets 1500 q" and "length (m_packets q) \<le> 2"
    using sample_offer_inv [OF q] by simp_all
  then obtain q' where "Flush 2 True byte_packets plain_queue_base q = Some (Inr q')"
    and "m_packets q' = []"
    using Flush_terminates [OF plain_queue_base_laws, of byte_packets 1500 q 2 True] by auto
  then show ?thesis using q by blast
qed

text \<open>
  Offering packets to a queue with room for \<open>r\<close> more of them: the first \<open>r\<close> get in, the rest is
  counted as dropped.
\<close>

lemma offer_packets_mode:
  assumes B: "queue_base_laws B"
  shows "queue_inv P L q \<Longrightarrow> qs_unit (m_maxSize q) = PACKETS \<Longrightarrow> \<forall>p \<in> set ps. sized P L p \<Longrightarrow>
    offer (Enqueue P B) q ps = (acc, q') \<Longrightarrow>
    acc = take (unat (qs_value (m_maxSize q)) - length (m_packets q)) ps \<and>
    m_nTotalDroppedPackets q' = m_nTotalDroppedPackets q + of_nat (length ps - length acc)"
proof (induction ps arbitrary: q acc q')
  case (Cons p ps)
  let ?v = "unat (qs_value (m_maxSize q))"
  obtain ok q1 where q1: "Enqueue P B q p = (ok, q1)" by fastforce
  obtain acc1 q2 where q2: "offer (Enqueue P B) q1 ps = (acc1, q2)" by fastforce
  have inv: "queue_inv P L q1" using Enqueue_inv [OF B Cons.prems(1) _ q1] Cons.prems(3) by simp
  have mx: "m_maxSize q1 = m_maxSize q" using Enqueue_fields q1 by (cases ok) fastforce+
  have cs: "m_packets q1 = (if ok then m_packets q @ [p] else m_packets q)"
    using Enqueue_contents [OF q1] .
  have ok: "ok \<longleftrightarrow> length (m_packets q) < ?v"
    using Enqueue_accepts [OF B Cons.prems(1), of p] Cons.prems(2,3) q1
    by (simp add: within_limit_def Suc_le_eq)
  have le: "length (m_packets q) \<le> ?v"
    using Cons.prems(1,2) by (simp add: queue_inv_def within_limit_def)
  have dr: "m_nTotalDroppedPackets q1 = m_nTotalDroppedPackets q + (if ok then 0 else 1)"
    using q1 by (auto simp: Enqueue_def DoEnqueue_def DropBeforeEnqueue_def fire_def Let_def
        split: if_splits)
  have IH: "acc1 = take (?v - length (m_packets q1)) ps \<and>
      m_nTotalDroppedPackets q2 = m_nTotalDroppedPackets q1 + of_nat (length ps - length acc1)"
    using Cons.IH [OF inv _ _ q2] Cons.prems(2,3) mx by simp
  show ?case
  proof (cases ok)
    case True
    then have "?v - length (m_packets q) = Suc (?v - length (m_packets q1))"
      using ok cs by simp
    moreover have a: "acc = p # acc1" "q' = q2"
      using True Cons.prems(4) q1 q2 by auto
    ultimately have "acc = take (?v - length (m_packets q)) (p # ps)" using IH by simp
    moreover have "length (p # ps) - length acc = length ps - length acc1" using a by simp
    then have "m_nTotalDroppedPackets q' =
        m_nTotalDroppedPackets q + of_nat (length (p # ps) - length acc)"
      using IH dr True a by (simp only: if_True add_0_right)
    ultimately show ?thesis by blast
  next
    case False
    then have v: "?v - length (m_packets q) = 0" using ok by simp
    have a: "acc = acc1" "q' = q2" using False Cons.prems(4) q1 q2 by auto
    have "acc1 = []" using IH v False cs by simp
    then show ?thesis using IH dr False a v by simp
  qed
qed simp

text \<open>
  C29. Drop tail: a fresh queue limited to \<open>n\<close> packets takes the first \<open>n\<close> packets it is offered
  and drops, and counts, all the later ones.
\<close>

theorem drop_tail_prefix:
  assumes "queue_base_laws B" and "sane_limit L mx" and "qs_unit mx = PACKETS"
    and "\<forall>p \<in> set ps. sized P L p" and "offer (Enqueue P B) (DropTailQueue mx) ps = (acc, q)"
  shows "acc = take (unat (qs_value mx)) ps \<and>
    m_nTotalDroppedPackets q = of_nat (length ps - unat (qs_value mx))"
  using offer_packets_mode [OF assms(1) queue_inv_empty [OF assms(2)] _ assms(4,5)] assms(3)
  by (simp add: DropTailQueue_def min_def split: if_splits)

theorem drop_tail_prefix_witness:
  "\<exists>q. offer (Enqueue byte_packets plain_queue_base) (DropTailQueue two_packets)
       [[1], [2, 2], [3, 3, 3]] = ([[1], [2, 2]], q) \<and> m_nTotalDroppedPackets q = 1"
proof -
  obtain q where q: "offer (Enqueue byte_packets plain_queue_base) (DropTailQueue two_packets)
      [[1], [2, 2], [3, 3, 3]] = ([[1], [2, 2]], q)"
    using offered_sample by (metis prod.collapse)
  have "m_nTotalDroppedPackets q = of_nat (length [[1 :: byte], [2, 2], [3, 3, 3]] - unat (2 :: u32))"
    using drop_tail_prefix [OF plain_queue_base_laws two_packets_sane _ small_sized q]
    by (simp only: two_packets_def queue_size.select_convs)
  then show ?thesis using q by (simp del: offer.simps)
qed

end
