(* ===== verification/Device_State.thy ===== *)
theory Device_State
  imports Drop_Tail_Queue
begin

text \<open>
  What both variants of \<open>PointToPointNetDevice\<close> share: the members of the class
  (\<open>src/model/point-to-point-net-device.h\<close>), the platform they run on, and the operations
  whose text is the same in \<open>src/model/point-to-point-net-device.cc\<close> and
  \<open>src/model/point-to-point-compression-net-device.cc\<close>. The record is extended by each
  variant with the member only it has.
\<close>


section \<open>Effects\<close>

text \<open>
  Everything a device does to the world outside itself, in the order it does it: the trace
  sources it fires, the events it schedules, its calls to the channel and to the layer above.
  Times are counts of the simulator's time unit. The remote address is an \<open>Address\<close>, which \<open>None\<close>
  stands for when it is the empty one that \<open>Address ()\<close> makes.
\<close>

datatype 'p device_event =
  MacTx 'p | MacTxDrop 'p | MacPromiscRx 'p | MacRx 'p
| PhyTxBegin 'p | PhyTxEnd "'p option" | PhyTxDrop 'p | PhyRxEnd 'p | PhyRxDrop 'p
| Sniffer 'p | PromiscSniffer 'p
| ScheduleTransmitComplete int
| ChannelTransmitStart 'p int
| PromiscCallback nat 'p u16 "mac48 option" mac48
| RxCallback nat 'p u16 "mac48 option"
| ChannelAttach nat
| LinkChange nat
| ConnectQueueTraces nat

section \<open>The platform\<close>

text \<open>
  The collaborators of a device that are outside the repository: packets, the queue's base
  class, zlib, \<open>DataRate\<close>, the channel (its answer to \<open>TransmitStart\<close> and the devices on
  it), what \<open>new uint8_t[n]\<close> finds in memory (by allocation and size), the bytes a file stream
  delivers (none when the file cannot be opened), the decimal point of the locale, the largest container of the
  standard library, and whether the build has \<open>NS3_ASSERT_ENABLE\<close>.
\<close>

record 'p env =
  asserts_on :: bool
  pkt :: "'p packet_api"
  qbase :: "'p queue_base_api"
  zlib :: zlib_api
  parse_rate :: "string \<Rightarrow> u64"
  bytes_tx_time :: "u64 \<Rightarrow> u32 \<Rightarrow> int"
  channel_transmit :: "'p \<Rightarrow> int \<Rightarrow> bool"
  channel_devices :: "(nat \<times> mac48) list"
  this_device :: nat
  new_bytes :: "nat \<Rightarrow> u32 \<Rightarrow> byte list"
  file_bytes :: "string \<Rightarrow> byte list"
  decimal_point :: byte
  max_container :: u64

definition env_laws :: "'p env \<Rightarrow> bool" where
  "env_laws E \<longleftrightarrow> packet_laws (pkt E) \<and> queue_base_laws (qbase E) \<and>
     (\<forall>k n. length (new_bytes E k n) = unat n)"

lemma env_lawsD:
  assumes "env_laws E"
  shows "packet_laws (pkt E)" and "queue_base_laws (qbase E)" and "length (new_bytes E k n) = unat n"
  using assms by (simp_all add: env_laws_def)

section \<open>The members of the class\<close>

datatype TxMachineState = READY | BUSY

text \<open>
  Pointers to objects the device only passes on (node, channel, queue interface, callbacks) are
  identifiers; \<open>None\<close> is the null pointer. The queue and the current packet are held by value.
\<close>

record 'p net_device =
  compressionEnabled :: bool
  m_txMachineState :: TxMachineState
  m_bps :: u64
  m_tInterframeGap :: int
  m_channel :: "nat option"
  m_queue :: "'p queue option"
  m_receiveErrorModel :: "('p \<Rightarrow> bool) option"
  m_node :: "nat option"
  m_queueInterface :: "nat option"
  m_address :: mac48
  m_rxCallback :: "nat option"
  m_promiscCallback :: "nat option"
  m_ifIndex :: u32
  m_linkUp :: bool
  m_linkChangeCallbacks :: "nat list"
  m_mtu :: u32
  m_currentPkt :: "'p option"
  events :: "'p device_event list"

definition emit :: "'p device_event list \<Rightarrow> ('p, 'z) net_device_scheme \<Rightarrow> ('p, 'z) net_device_scheme" where
  "emit es d = d\<lparr>events := events d @ es\<rparr>"

definition DEFAULT_MTU :: u16 where
  "DEFAULT_MTU = 1500"

section \<open>Setters, getters and constant answers\<close>

definition SetDataRate :: "u64 \<Rightarrow> ('p, 'z) net_device_scheme \<Rightarrow> ('p, 'z) net_device_scheme" where
  "SetDataRate bps d = d\<lparr>m_bps := bps\<rparr>"

definition SetInterframeGap :: "int \<Rightarrow> ('p, 'z) net_device_scheme \<Rightarrow> ('p, 'z) net_device_scheme" where
  "SetInterframeGap t d = d\<lparr>m_tInterframeGap := t\<rparr>"

definition SetQueue :: "'p queue option \<Rightarrow> ('p, 'z) net_device_scheme \<Rightarrow> ('p, 'z) net_device_scheme" where
  "SetQueue q d = d\<lparr>m_queue := q\<rparr>"

definition GetQueue :: "('p, 'z) net_device_scheme \<Rightarrow> 'p queue option" where
  "GetQueue d = m_queue d"

definition SetReceiveErrorModel ::
  "('p \<Rightarrow> bool) option \<Rightarrow> ('p, 'z) net_device_scheme \<Rightarrow> ('p, 'z) net_device_scheme" where
  "SetReceiveErrorModel em d = d\<lparr>m_receiveErrorModel := em\<rparr>"

definition SetIfIndex :: "u32 \<Rightarrow> ('p, 'z) net_device_scheme \<Rightarrow> ('p, 'z) net_device_scheme" where
  "SetIfIndex i d = d\<lparr>m_ifIndex := i\<rparr>"

definition GetIfIndex :: "('p, 'z) net_device_scheme \<Rightarrow> u32" where
  "GetIfIndex d = m_ifIndex d"

definition GetChannel :: "('p, 'z) net_device_scheme \<Rightarrow> nat option" where
  "GetChannel d = m_channel d"

definition SetAddress :: "mac48 \<Rightarrow> ('p, 'z) net_device_scheme \<Rightarrow> ('p, 'z) net_device_scheme" where
  "SetAddress a d = d\<lparr>m_address := a\<rparr>"

definition GetAddress :: "('p, 'z) net_device_scheme \<Rightarrow> mac48" where
  "GetAddress d = m_address d"

definition IsLinkUp :: "('p, 'z) net_device_scheme \<Rightarrow> bool" where
  "IsLinkUp d = m_linkUp d"

definition AddLinkChangeCallback :: "nat \<Rightarrow> ('p, 'z) net_device_scheme \<Rightarrow> ('p, 'z) net_device_scheme" where
  "AddLinkChangeCallback cb d = d\<lparr>m_linkChangeCallbacks := m_linkChangeCallbacks d @ [cb]\<rparr>"

definition SetNode :: "nat option \<Rightarrow> ('p, 'z) net_device_scheme \<Rightarrow> ('p, 'z) net_device_scheme" where
  "SetNode n d = d\<lparr>m_node := n\<rparr>"

definition GetNode :: "('p, 'z) net_device_scheme \<Rightarrow> nat option" where
  "GetNode d = m_node d"

definition SetReceiveCallback :: "nat option \<Rightarrow> ('p, 'z) net_device_scheme \<Rightarrow> ('p, 'z) net_device_scheme" where
  "SetReceiveCallback cb d = d\<lparr>m_rxCallback := cb\<rparr>"

definition SetPromiscReceiveCallback ::
  "nat option \<Rightarrow> ('p, 'z) net_device_scheme \<Rightarrow> ('p, 'z) net_device_scheme" where
  "SetPromiscReceiveCallback cb d = d\<lparr>m_promiscCallback := cb\<rparr>"

text \<open>\<open>SetMtu\<close> widens its 16-bit argument into the 32-bit member and \<open>GetMtu\<close> narrows it back.\<close>

definition SetMtu :: "u16 \<Rightarrow> ('p, 'z) net_device_scheme \<Rightarrow> bool \<times> ('p, 'z) net_device_scheme" where
  "SetMtu mtu d = (True, d\<lparr>m_mtu := ucast mtu\<rparr>)"

definition GetMtu :: "('p, 'z) net_device_scheme \<Rightarrow> u16" where
  "GetMtu d = ucast (m_mtu d)"

definition IsBroadcast :: bool where
  "IsBroadcast = True"

definition GetBroadcast :: mac48 where
  "GetBroadcast = 0xffffffffffff"

definition IsMulticast :: bool where
  "IsMulticast = True"

definition GetMulticast4 :: "32 word \<Rightarrow> mac48" where
  "GetMulticast4 multicastGroup = 0x01005e000000"

definition GetMulticast6 :: "128 word \<Rightarrow> mac48" where
  "GetMulticast6 addr = 0x333300000000"

definition IsPointToPoint :: bool where
  "IsPointToPoint = True"

definition IsBridge :: bool where
  "IsBridge = False"

definition NeedsArp :: bool where
  "NeedsArp = False"

definition SupportsSendFrom :: bool where
  "SupportsSendFrom = False"

definition SendFrom :: "'p \<Rightarrow> mac48 \<Rightarrow> mac48 \<Rightarrow> u16 \<Rightarrow> bool" where
  "SendFrom packet source dest protocolNumber = False"

section \<open>Link and life cycle\<close>

definition NotifyLinkUp :: "('p, 'z) net_device_scheme \<Rightarrow> ('p, 'z) net_device_scheme" where
  "NotifyLinkUp d =
     (let d1 = d\<lparr>m_linkUp := True\<rparr> in emit (map LinkChange (m_linkChangeCallbacks d1)) d1)"

text \<open>\<open>Attach\<close> dereferences the channel it was given, so a null channel has no behaviour.\<close>

definition Attach :: "nat option \<Rightarrow> ('p, 'z) net_device_scheme \<Rightarrow> (bool \<times> ('p, 'z) net_device_scheme) res" where
  "Attach ch d =
     (let d1 = d\<lparr>m_channel := ch\<rparr>
      in bind_res (deref ''m_channel'' (m_channel d1)) (\<lambda>c.
           Inr (True, NotifyLinkUp (emit [ChannelAttach c] d1))))"

text \<open>The argument is what \<open>GetObject<NetDeviceQueueInterface>\<close> finds among the aggregates.\<close>

definition NotifyNewAggregate :: "nat option \<Rightarrow> ('p, 'z) net_device_scheme \<Rightarrow> ('p, 'z) net_device_scheme" where
  "NotifyNewAggregate ndqi d =
     (if m_queueInterface d = None
      then (if ndqi \<noteq> None then d\<lparr>m_queueInterface := ndqi\<rparr> else d)
      else d)"

definition DoDispose :: "('p, 'z) net_device_scheme \<Rightarrow> ('p, 'z) net_device_scheme" where
  "DoDispose d = d\<lparr>m_node := None, m_channel := None, m_receiveErrorModel := None,
     m_currentPkt := None, m_queue := None, m_queueInterface := None\<rparr>"

text \<open>The address of the first device on the channel that is not this one, or the empty \<open>Address ()\<close>.\<close>

definition GetRemote :: "'p env \<Rightarrow> ('p, 'z) net_device_scheme \<Rightarrow> mac48 option res" where
  "GetRemote E d =
     bind_res (deref ''m_channel'' (m_channel d)) (\<lambda>_.
     bind_res (ns_assert (asserts_on E) (length (channel_devices E) = 2) ''GetNDevices () == 2'') (\<lambda>_.
       case find (\<lambda>(i, a). i \<noteq> this_device E) (channel_devices E) of
         Some (i, a) \<Rightarrow> Inr (Some a)
       | None \<Rightarrow> bind_res (ns_assert (asserts_on E) False ''false'') (\<lambda>_. Inr None)))"

section \<open>The transmit machine\<close>

definition TransmitStart ::
  "'p env \<Rightarrow> ('p, 'z) net_device_scheme \<Rightarrow> 'p \<Rightarrow> (bool \<times> ('p, 'z) net_device_scheme) res" where
  "TransmitStart E d p =
     bind_res (ns_assert (asserts_on E) (m_txMachineState d = READY) ''Must be READY to transmit'') (\<lambda>_.
       let d1 = emit [PhyTxBegin p] (d\<lparr>m_txMachineState := BUSY, m_currentPkt := Some p\<rparr>);
           txTime = bytes_tx_time E (m_bps d1) (GetSize (pkt E) p);
           txCompleteTime = txTime + m_tInterframeGap d1;
           d2 = emit [ScheduleTransmitComplete txCompleteTime] d1
       in bind_res (deref ''m_channel'' (m_channel d2)) (\<lambda>_.
            let result = channel_transmit E p txTime;
                d3 = emit [ChannelTransmitStart p txTime] d2
            in Inr (result, if result = False then emit [PhyTxDrop p] d3 else d3)))"

definition TransmitComplete :: "'p env \<Rightarrow> ('p, 'z) net_device_scheme \<Rightarrow> ('p, 'z) net_device_scheme res" where
  "TransmitComplete E d =
     bind_res (ns_assert (asserts_on E) (m_txMachineState d = BUSY) ''Must be BUSY if transmitting'') (\<lambda>_.
     let d1 = d\<lparr>m_txMachineState := READY\<rparr> in
     bind_res (ns_assert (asserts_on E) (m_currentPkt d1 \<noteq> None) ''m_currentPkt zero'') (\<lambda>_.
     let d2 = (emit [PhyTxEnd (m_currentPkt d1)] d1)\<lparr>m_currentPkt := None\<rparr> in
     bind_res (deref ''m_queue'' (m_queue d2)) (\<lambda>q.
     bind_res (Dequeue (asserts_on E) (pkt E) q) (\<lambda>(head, q1).
     let d3 = d2\<lparr>m_queue := Some q1\<rparr> in
     case head of
       None \<Rightarrow> Inr d3
     | Some p \<Rightarrow> bind_res (TransmitStart E (emit [Sniffer p, PromiscSniffer p] d3) p) (\<lambda>(_, d4). Inr d4)))))"

text \<open>
  The end of \<open>Send\<close>, the same in each of its branches: announce the packet, put it into the
  queue, and when the transmitter is idle take the head of the queue out and start it.
\<close>

definition queue_and_start ::
  "'p env \<Rightarrow> ('p, 'z) net_device_scheme \<Rightarrow> 'p \<Rightarrow> (bool \<times> ('p, 'z) net_device_scheme) res" where
  "queue_and_start E d packet =
     (let d1 = emit [MacTx packet] d in
      bind_res (deref ''m_queue'' (m_queue d1)) (\<lambda>q.
      let (accepted, q1) = Enqueue (pkt E) (qbase E) q packet; d2 = d1\<lparr>m_queue := Some q1\<rparr> in
      if accepted then
        (if m_txMachineState d2 = READY then
           bind_res (Dequeue (asserts_on E) (pkt E) q1) (\<lambda>(head, q2).
           let d3 = d2\<lparr>m_queue := Some q2\<rparr> in
           bind_res (deref ''packet'' head) (\<lambda>p.
             TransmitStart E (emit [Sniffer p, PromiscSniffer p] d3) p))
         else Inr (True, d2))
      else Inr (False, emit [MacTxDrop packet] d2)))"

end
