(* ===== verification/Compression.thy ===== *)
theory Compression
  imports Platform
begin

text \<open>
  \<open>PointToPointNetDevice::Compress\<close> and \<open>PointToPointNetDevice::Decompress\<close> of
  \<open>src/model/point-to-point-net-device.cc\<close>: the calls into zlib with the sizes the code
  computes, including its use of \<open>strlen\<close> on binary data. The buffers are byte lists; a
  buffer argument that the call writes is returned updated.
\<close>

section \<open>The two routines\<close>

definition Compress :: "zlib_api \<Rightarrow> byte list \<Rightarrow> byte list \<Rightarrow> u32 \<Rightarrow> byte list res" where
  "Compress Z packetData outputData sz =
     bind_res (c_strlen packetData) (\<lambda>len.
       let avail_in = (of_nat len :: u32) + 1;
           next_in = take (unat avail_in) packetData;
           avail_out = sz
       in Inr (overwrite (deflate_finish Z next_in (unat avail_out)) outputData))"

definition Decompress :: "zlib_api \<Rightarrow> byte list \<Rightarrow> byte list \<Rightarrow> u32 \<Rightarrow> byte list res" where
  "Decompress Z packetData outputData sz =
     bind_res (c_strlen packetData) (\<lambda>len.
       let avail_in = sz - (of_nat len :: u32);
           next_in = take (unat avail_in) packetData;
           avail_out = sz
       in Inr (overwrite (inflate_once Z next_in (unat avail_out)) outputData))"

section \<open>What they compute\<close>

text \<open>\<open>Compress\<close> feeds exactly the leading C string of the buffer to \<open>deflate\<close>.\<close>

lemma Compress_eq:
  assumes "0 \<in> set packetData" and "length packetData < 2 ^ 32"
  shows "Compress Z packetData outputData sz =
    Inr (overwrite (deflate_finish Z (c_string packetData) (unat sz)) outputData)"
proof -
  obtain n where n: "c_strlen packetData = Inr n"
    using assms(1) by (simp add: c_strlen_def)
  then have "Suc n < 2 ^ 32" using c_strlen_less [OF n] assms(2) by simp
  then show ?thesis
    using n by (simp add: Compress_def Let_def unat_of_nat32_Suc c_strlen_take)
qed

lemma Compress_no_terminator:
  "0 \<notin> set packetData \<Longrightarrow> Compress Z packetData outputData sz = Inl (Undefined ''strlen'')"
  by (simp add: Compress_def c_strlen_def)

lemma Compress_length:
  assumes "zlib_bounded Z" and "Compress Z packetData outputData sz = Inr out"
    and "length outputData = unat sz"
  shows "length out = unat sz"
  using assms deflate_length [OF assms(1)]
  by (auto simp: Compress_def Let_def bind_res_eq_Inr)

lemma Decompress_length:
  assumes "zlib_bounded Z" and "Decompress Z packetData outputData sz = Inr out"
    and "length outputData = unat sz"
  shows "length out = unat sz"
  using assms inflate_length [OF assms(1)]
  by (auto simp: Decompress_def Let_def bind_res_eq_Inr)

text \<open>
  What the buffer holds behind its first zero byte has no influence on the result: two buffers
  with the same leading C string compress to the same bytes.
\<close>

lemma Compress_cong:
  assumes "0 \<in> set xs" and "0 \<in> set ys" and "c_string xs = c_string ys"
    and "length xs < 2 ^ 32" and "length ys < 2 ^ 32"
  shows "Compress Z xs outputData sz = Compress Z ys outputData sz"
  using assms by (simp add: Compress_eq)

text \<open>
  The decoder is given \<open>size - strlen (stream)\<close> bytes of the stream. Where that is the whole
  stream, it restores the C string and leaves the rest of its output buffer as it was.
\<close>

lemma Decompress_stream:
  assumes Z: "zlib_bounded Z" "zlib_lossless Z"
    and packed: "packed = overwrite (deflate_finish Z inp (unat sz)) out"
    and len: "length out = unat sz"
    and "done": "deflate_done Z inp (unat sz)"
    and inp: "length inp \<le> unat sz"
    and k: "c_strlen packed = Inr k"
    and fits: "length (deflate_finish Z inp (unat sz)) \<le> unat sz - k"
  shows "Decompress Z packed out2 sz = Inr (overwrite inp out2)"
proof -
  let ?s = "deflate_finish Z inp (unat sz)"
  have "length packed = unat sz"
    using packed len deflate_length [OF Z(1)] by simp
  then have kl: "k < unat sz" using c_strlen_less [OF k] by simp
  have uk: "unat (of_nat k :: u32) = k"
    using kl unat_less32 [of sz] by (intro unat_of_nat32) simp
  have ai: "unat (sz - of_nat k) = unat sz - k"
    using kl uk by (simp add: unat_minus32)
  have "take (unat sz - k) packed = ?s @ take (unat sz - k - length ?s) (drop (length ?s) out)"
    using fits packed by (simp add: overwrite_def)
  then show ?thesis
    using k ai Z(2) "done" inp by (simp add: Decompress_def Let_def zlib_lossless_def)
qed

text \<open>
  A round trip restores the leading C string of the packet, and only that.\<close>

theorem Decompress_Compress:
  assumes "zlib_bounded Z" and "zlib_lossless Z"
    and "length data = unat sz" and "length out = unat sz" and "0 \<in> set data"
    and "Compress Z data out sz = Inr packed"
    and "deflate_done Z (c_string data) (unat sz)"
    and "c_strlen packed = Inr k"
    and "length (deflate_finish Z (c_string data) (unat sz)) \<le> unat sz - k"
  shows "Decompress Z packed out2 sz = Inr (overwrite (c_string data) out2)"
proof (rule Decompress_stream [OF assms(1,2) _ assms(4,7) _ assms(8,9)])
  show "packed = overwrite (deflate_finish Z (c_string data) (unat sz)) out"
    using assms(3,5,6) unat_less32 [of sz] by (simp add: Compress_eq)
  show "length (c_string data) \<le> unat sz"
    using assms(3,5) length_c_string_le by metis
qed

theorem Decompress_Compress_witness:
  "\<exists>packed. Compress marked_codec [65, 66, 0, 9, 9, 9, 9, 9, 9, 9, 9, 9, 9]
       [0, 0, 0, 0, 0, 0, 0, 0, 0, 0, 0, 0, 0] 13 = Inr packed \<and>
     Decompress marked_codec packed [7, 7, 7, 7, 7, 7, 7, 7, 7, 7, 7, 7, 7] 13 =
       Inr [65, 66, 0, 7, 7, 7, 7, 7, 7, 7, 7, 7, 7]"
proof -
  let ?data = "[65, 66, 0, 9, 9, 9, 9, 9, 9, 9, 9, 9, 9] :: byte list"
  let ?packed = "[1, 65, 1, 66, 1, 0, 2, 2, 0, 0, 0, 0, 0] :: byte list"
  have c: "c_string ?data = [65, 66, 0]" by (simp add: c_string_def)
  have p: "Compress marked_codec ?data [0, 0, 0, 0, 0, 0, 0, 0, 0, 0, 0, 0, 0] 13 = Inr ?packed"
    by (simp add: Compress_eq c marked_codec_def marked_encode_def overwrite_def)
  have k: "c_strlen ?packed = Inr 5" by (simp add: c_strlen_def)
  have "Decompress marked_codec ?packed [7, 7, 7, 7, 7, 7, 7, 7, 7, 7, 7, 7, 7] 13 =
      Inr (overwrite (c_string ?data) [7, 7, 7, 7, 7, 7, 7, 7, 7, 7, 7, 7, 7])"
    by (rule Decompress_Compress [OF marked_codec_bounded marked_codec_lossless _ _ _ p _ k])
      (simp_all add: c marked_codec_def marked_encode_def)
  then show ?thesis using p by (simp add: c overwrite_def)
qed

end
