(* ===== verification/Net_Device.thy ===== *)
theory Net_Device
  imports Device_State Compression
begin

text \<open>
  The device of the project, \<open>src/model/point-to-point-net-device.cc\<close>: a point-to-point device
  that compresses the packets of one protocol when it sends them and decompresses what arrives
  marked as LZS.
\<close>

section \<open>State and attributes\<close>

record 'p p2p_device = "'p net_device" +
  m_protocol :: u16

datatype attribute_value =
  UintegerValue nat | Mac48AddressValue mac48 | DataRateValue string | TimeValue int
| BooleanValue bool | NullPointer

text \<open>
  The attributes \<open>GetTypeId\<close> declares, in its order, each with its initial value. The setter an
  attribute has follows; \<open>None\<close> is a value the attribute's checker refuses. The two pointer
  attributes are set to objects by \<open>SetReceiveErrorModel\<close> and \<open>SetQueue\<close>.
\<close>

definition device_attributes :: "(string \<times> attribute_value) list" where
  "device_attributes =
     [(''Mtu'', UintegerValue (unat DEFAULT_MTU)),
      (''Address'', Mac48AddressValue 0xffffffffffff),
      (''DataRate'', DataRateValue ''32768b/s''),
      (''ReceiveErrorModel'', NullPointer),
      (''InterframeGap'', TimeValue 0),
      (''Compression'', BooleanValue False),
      (''TxQueue'', NullPointer)]"

definition set_attribute ::
  "'p env \<Rightarrow> string \<Rightarrow> attribute_value \<Rightarrow> ('p, 'z) net_device_scheme \<Rightarrow> ('p, 'z) net_device_scheme option" where
  "set_attribute E name v d =
     (if name = ''Mtu'' then
        (case v of UintegerValue n \<Rightarrow> if n < 2 ^ 16 then Some (snd (SetMtu (of_nat n) d)) else None | _ \<Rightarrow> None)
      else if name = ''Address'' then
        (case v of Mac48AddressValue a \<Rightarrow> Some (d\<lparr>m_address := a\<rparr>) | _ \<Rightarrow> None)
      else if name = ''DataRate'' then
        (case v of DataRateValue r \<Rightarrow> Some (d\<lparr>m_bps := parse_rate E r\<rparr>) | _ \<Rightarrow> None)
      else if name = ''ReceiveErrorModel'' then
        (case v of NullPointer \<Rightarrow> Some (d\<lparr>m_receiveErrorModel := None\<rparr>) | _ \<Rightarrow> None)
      else if name = ''InterframeGap'' then
        (case v of TimeValue t \<Rightarrow> Some (d\<lparr>m_tInterframeGap := t\<rparr>) | _ \<Rightarrow> None)
      else if name = ''Compression'' then
        (case v of BooleanValue b \<Rightarrow> Some (d\<lparr>compressionEnabled := b\<rparr>) | _ \<Rightarrow> None)
      else if name = ''TxQueue'' then
        (case v of NullPointer \<Rightarrow> Some (d\<lparr>m_queue := None\<rparr>) | _ \<Rightarrow> None)
      else None)"

text \<open>The trace sources of \<open>GetTypeId\<close> and the event each of them fires.\<close>

definition device_trace_sources :: "(string \<times> ('p \<Rightarrow> 'p device_event)) list" where
  "device_trace_sources =
     [(''MacTx'', MacTx), (''MacTxDrop'', MacTxDrop), (''MacPromiscRx'', MacPromiscRx),
      (''MacRx'', MacRx), (''PhyTxBegin'', PhyTxBegin), (''PhyTxEnd'', \<lambda>p. PhyTxEnd (Some p)),
      (''PhyTxDrop'', PhyTxDrop), (''PhyRxEnd'', PhyRxEnd), (''PhyRxDrop'', PhyRxDrop),
      (''Sniffer'', Sniffer), (''PromiscSniffer'', PromiscSniffer)]"

fun apply_attributes ::
  "'p env \<Rightarrow> (string \<times> attribute_value) list \<Rightarrow> ('p, 'z) net_device_scheme \<Rightarrow> ('p, 'z) net_device_scheme option" where
  "apply_attributes E [] d = Some d"
| "apply_attributes E ((n, v) # as) d =
     (case set_attribute E n v d of None \<Rightarrow> None | Some d1 \<Rightarrow> apply_attributes E as d1)"

text \<open>
  The constructor leaves the members it does not mention as they are in the memory it is given
  (\<open>raw\<close>); smart pointers, callbacks and the callback list start out empty.
\<close>

definition PointToPointNetDevice :: "'p p2p_device \<Rightarrow> 'p p2p_device" where
  "PointToPointNetDevice raw = raw\<lparr>m_txMachineState := READY, m_channel := None,
     m_linkUp := False, m_currentPkt := None, m_queue := None, m_receiveErrorModel := None,
     m_node := None, m_queueInterface := None, m_rxCallback := None, m_promiscCallback := None,
     m_linkChangeCallbacks := [], events := [], m_protocol := 0\<rparr>"

definition create_device :: "'p env \<Rightarrow> 'p p2p_device \<Rightarrow> 'p p2p_device option" where
  "create_device E raw = apply_attributes E device_attributes (PointToPointNetDevice raw)"

section \<open>Protocol numbers and headers\<close>

definition PppToEther :: "bool \<Rightarrow> u16 \<Rightarrow> u16 res" where
  "PppToEther asserts proto =
     (if proto = 0x0021 then Inr 0x0800
      else if proto = 0x4021 then Inr 0x4021
      else if proto = 0x0057 then Inr 0x86DD
      else bind_res (ns_assert asserts False ''PPP Protocol number not defined!'') (\<lambda>_. Inr 0))"

definition EtherToPpp :: "bool \<Rightarrow> u16 \<Rightarrow> u16 res" where
  "EtherToPpp asserts proto =
     (if proto = 0x0800 then Inr 0x0021
      else if proto = 0x4021 then Inr 0x4021
      else if proto = 0x86DD then Inr 0x0057
      else bind_res (ns_assert asserts False ''PPP Protocol number not defined!'') (\<lambda>_. Inr 0))"

definition AddHeader :: "'p env \<Rightarrow> 'p \<Rightarrow> u16 \<Rightarrow> 'p res" where
  "AddHeader E p protocolNumber =
     bind_res (EtherToPpp (asserts_on E) protocolNumber) (\<lambda>ppp. Inr (AddPpp (pkt E) ppp p))"

definition ProcessHeader :: "'p env \<Rightarrow> 'p \<Rightarrow> (bool \<times> u16 \<times> 'p) res" where
  "ProcessHeader E p =
     (let (ppp, p') = RemovePpp (pkt E) p
      in bind_res (PppToEther (asserts_on E) ppp) (\<lambda>param. Inr (True, param, p')))"

section \<open>Sending\<close>

text \<open>The three allocations are \<open>buffer\<close>, \<open>newBuffer\<close> and \<open>outputData\<close>.\<close>

definition compressed_packet :: "'p env \<Rightarrow> 'p \<Rightarrow> 'p res" where
  "compressed_packet E packet =
     (let packetSize = GetSize (pkt E) packet;
          adjustedPacketSize = packetSize + 8;
          newBuffer = overwrite (CopyData (pkt E) packet adjustedPacketSize)
            (new_bytes E 1 adjustedPacketSize);
          outputData = new_bytes E 2 adjustedPacketSize
      in bind_res (Compress (zlib E) newBuffer outputData adjustedPacketSize) (\<lambda>outputData'.
           Inr (CreatePacket (pkt E) outputData')))"

definition Send :: "'p env \<Rightarrow> 'p p2p_device \<Rightarrow> 'p \<Rightarrow> u16 \<Rightarrow> (bool \<times> 'p p2p_device) res" where
  "Send E d packet protocolNumber =
     (if compressionEnabled d then
        (if protocolNumber = m_protocol d then
           (if IsLinkUp d = False then Inr (False, emit [MacTxDrop packet] d)
            else bind_res (compressed_packet E packet) (\<lambda>packet1.
                 bind_res (AddHeader E packet1 0x4021) (\<lambda>packet2. queue_and_start E d packet2)))
         else if IsLinkUp d = False then Inr (False, emit [MacTxDrop packet] d)
         else bind_res (AddHeader E packet protocolNumber) (\<lambda>packet1. queue_and_start E d packet1))
      else if IsLinkUp d = False then Inr (False, emit [MacTxDrop packet] d)
      else bind_res (AddHeader E packet protocolNumber) (\<lambda>packet1. queue_and_start E d packet1))"

section \<open>Receiving\<close>

text \<open>What \<open>case 0x4021\<close> of \<open>Receive\<close> makes of a packet: \<open>buffer\<close> and \<open>newBuffer\<close> are allocated.\<close>

definition decompressed_packet :: "'p env \<Rightarrow> 'p \<Rightarrow> 'p res" where
  "decompressed_packet E packet =
     (let (header, packet1) = RemovePpp (pkt E) packet;
          packetSize = GetSize (pkt E) packet1;
          buffer = overwrite (CopyData (pkt E) packet1 packetSize) (new_bytes E 3 packetSize);
          newBuffer = new_bytes E 4 packetSize
      in bind_res (Decompress (zlib E) buffer newBuffer packetSize) (\<lambda>newBuffer'.
           AddHeader E (CreatePacket (pkt E) newBuffer') 0x0021))"

definition forward_up ::
  "'p env \<Rightarrow> ('p, 'z) net_device_scheme \<Rightarrow> 'p \<Rightarrow> 'p \<Rightarrow> u16 \<Rightarrow> mac48 option \<Rightarrow> ('p, 'z) net_device_scheme res" where
  "forward_up E d originalPacket packet protocol remote =
     (let d1 = (case m_promiscCallback d of None \<Rightarrow> d
        | Some cb \<Rightarrow> emit [MacPromiscRx originalPacket,
            PromiscCallback cb packet protocol remote (GetAddress d)] d)
      in bind_res (deref ''m_rxCallback'' (m_rxCallback d1)) (\<lambda>cb.
           Inr (emit [MacRx originalPacket, RxCallback cb packet protocol remote] d1)))"

definition process_and_forward ::
  "'p env \<Rightarrow> ('p, 'z) net_device_scheme \<Rightarrow> 'p \<Rightarrow> 'p \<Rightarrow> ('p, 'z) net_device_scheme res" where
  "process_and_forward E d originalPacket packet =
     bind_res (ProcessHeader E packet) (\<lambda>(_, protocol, packet').
     bind_res (GetRemote E d) (\<lambda>remote.
       forward_up E d originalPacket packet' protocol remote))"

definition Receive :: "'p env \<Rightarrow> 'p p2p_device \<Rightarrow> 'p \<Rightarrow> 'p p2p_device res" where
  "Receive E d packet =
     (if (case m_receiveErrorModel d of None \<Rightarrow> False | Some em \<Rightarrow> em packet)
      then Inr (emit [PhyRxDrop packet] d)
      else
        let d1 = emit [Sniffer packet, PromiscSniffer packet, PhyRxEnd packet] d;
            originalPacket = packet
        in if compressionEnabled d1 then
             (let currentProtocol = PeekPpp (pkt E) packet in
              if currentProtocol = 0x4021 then
                bind_res (decompressed_packet E packet) (\<lambda>packet1.
                  process_and_forward E d1 originalPacket packet1)
              else process_and_forward E d1 originalPacket packet)
           else process_and_forward E d1 originalPacket packet)"

definition DoMpiReceive :: "'p env \<Rightarrow> 'p p2p_device \<Rightarrow> 'p \<Rightarrow> 'p p2p_device res" where
  "DoMpiReceive E d p = Receive E d p"

end
