(* ===== verification/Stock_Device.thy ===== *)
theory Stock_Device
  imports Net_Device
begin

text \<open>
  The other implementation of the class, \<open>src/model/point-to-point-compression-net-device.cc\<close>:
  ns-3's device with the \<open>Compression\<close> attribute and a count of receptions, which neither
  compresses nor knows LZS. The file is an alternative to \<open>point-to-point-net-device.cc\<close> (both
  define \<open>ns3::PointToPointNetDevice\<close>, so one build has one of them). Its operations are
  translated here from their own text, with the prefix \<open>stock_\<close>; the members it shares with the
  project's device are the record \<open>net_device\<close>.
\<close>

section \<open>State, attributes, construction\<close>

record 'p stock_device = "'p net_device" +
  m_count :: u16

definition stock_attributes :: "(string \<times> attribute_value) list" where
  "stock_attributes =
     [(''Mtu'', UintegerValue (unat DEFAULT_MTU)),
      (''Address'', Mac48AddressValue 0xffffffffffff),
      (''DataRate'', DataRateValue ''32768b/s''),
      (''ReceiveErrorModel'', NullPointer),
      (''InterframeGap'', TimeValue 0),
      (''Compression'', BooleanValue False),
      (''TxQueue'', NullPointer)]"

definition stock_trace_sources :: "(string \<times> ('p \<Rightarrow> 'p device_event)) list" where
  "stock_trace_sources =
     [(''MacTx'', MacTx), (''MacTxDrop'', MacTxDrop), (''MacPromiscRx'', MacPromiscRx),
      (''MacRx'', MacRx), (''PhyTxBegin'', PhyTxBegin), (''PhyTxEnd'', \<lambda>p. PhyTxEnd (Some p)),
      (''PhyTxDrop'', PhyTxDrop), (''PhyRxEnd'', PhyRxEnd), (''PhyRxDrop'', PhyRxDrop),
      (''Sniffer'', Sniffer), (''PromiscSniffer'', PromiscSniffer)]"

definition stock_PointToPointNetDevice :: "'p stock_device \<Rightarrow> 'p stock_device" where
  "stock_PointToPointNetDevice raw = raw\<lparr>m_txMachineState := READY, m_channel := None,
     m_linkUp := False, m_currentPkt := None, m_queue := None, m_receiveErrorModel := None,
     m_node := None, m_queueInterface := None, m_rxCallback := None, m_promiscCallback := None,
     m_linkChangeCallbacks := [], events := [], m_count := 0\<rparr>"

definition stock_create_device :: "'p env \<Rightarrow> 'p stock_device \<Rightarrow> 'p stock_device option" where
  "stock_create_device E raw = apply_attributes E stock_attributes (stock_PointToPointNetDevice raw)"

section \<open>Protocol numbers and headers\<close>

definition stock_PppToEther :: "bool \<Rightarrow> u16 \<Rightarrow> u16 res" where
  "stock_PppToEther asserts proto =
     (if proto = 0x0021 then Inr 0x0800
      else if proto = 0x0057 then Inr 0x86DD
      else bind_res (ns_assert asserts False ''PPP Protocol number not defined!'') (\<lambda>_. Inr 0))"

definition stock_EtherToPpp :: "bool \<Rightarrow> u16 \<Rightarrow> u16 res" where
  "stock_EtherToPpp asserts proto =
     (if proto = 0x0800 then Inr 0x0021
      else if proto = 0x86DD then Inr 0x0057
      else bind_res (ns_assert asserts False ''PPP Protocol number not defined!'') (\<lambda>_. Inr 0))"

definition stock_AddHeader :: "'p env \<Rightarrow> 'p \<Rightarrow> u16 \<Rightarrow> 'p res" where
  "stock_AddHeader E p protocolNumber =
     bind_res (stock_EtherToPpp (asserts_on E) protocolNumber) (\<lambda>ppp. Inr (AddPpp (pkt E) ppp p))"

definition stock_ProcessHeader :: "'p env \<Rightarrow> 'p \<Rightarrow> (bool \<times> u16 \<times> 'p) res" where
  "stock_ProcessHeader E p =
     (let (ppp, p') = RemovePpp (pkt E) p
      in bind_res (stock_PppToEther (asserts_on E) ppp) (\<lambda>param. Inr (True, param, p')))"

section \<open>Life cycle\<close>

definition stock_DoInitialize ::
  "'p env \<Rightarrow> ('p, 'z) net_device_scheme \<Rightarrow> ('p, 'z) net_device_scheme res" where
  "stock_DoInitialize E d =
     (case m_queueInterface d of None \<Rightarrow> Inr d
      | Some qi \<Rightarrow>
          bind_res (ns_assert (asserts_on E) (m_queue d \<noteq> None)
            ''A Queue object has not been attached to the device'') (\<lambda>_.
          Inr (emit [ConnectQueueTraces qi] d)))"

definition stock_NotifyNewAggregate ::
  "nat option \<Rightarrow> ('p, 'z) net_device_scheme \<Rightarrow> ('p, 'z) net_device_scheme" where
  "stock_NotifyNewAggregate ndqi d =
     (if m_queueInterface d = None \<and> ndqi \<noteq> None then d\<lparr>m_queueInterface := ndqi\<rparr> else d)"

definition stock_DoDispose :: "('p, 'z) net_device_scheme \<Rightarrow> ('p, 'z) net_device_scheme" where
  "stock_DoDispose d = d\<lparr>m_node := None, m_channel := None, m_receiveErrorModel := None,
     m_currentPkt := None, m_queue := None, m_queueInterface := None\<rparr>"

definition stock_NotifyLinkUp :: "('p, 'z) net_device_scheme \<Rightarrow> ('p, 'z) net_device_scheme" where
  "stock_NotifyLinkUp d =
     emit (map LinkChange (m_linkChangeCallbacks d)) (d\<lparr>m_linkUp := True\<rparr>)"

definition stock_Attach ::
  "nat option \<Rightarrow> ('p, 'z) net_device_scheme \<Rightarrow> (bool \<times> ('p, 'z) net_device_scheme) res" where
  "stock_Attach ch d =
     (case ch of None \<Rightarrow> Inl (Undefined ''m_channel'')
      | Some c \<Rightarrow> Inr (True, stock_NotifyLinkUp (emit [ChannelAttach c] (d\<lparr>m_channel := Some c\<rparr>))))"

section \<open>Setters, getters and constant answers\<close>

definition stock_SetDataRate :: "u64 \<Rightarrow> ('p, 'z) net_device_scheme \<Rightarrow> ('p, 'z) net_device_scheme" where
  "stock_SetDataRate bps d = d\<lparr>m_bps := bps\<rparr>"

definition stock_SetInterframeGap :: "int \<Rightarrow> ('p, 'z) net_device_scheme \<Rightarrow> ('p, 'z) net_device_scheme" where
  "stock_SetInterframeGap t d = d\<lparr>m_tInterframeGap := t\<rparr>"

definition stock_SetQueue ::
  "'p queue option \<Rightarrow> ('p, 'z) net_device_scheme \<Rightarrow> ('p, 'z) net_device_scheme" where
  "stock_SetQueue q d = d\<lparr>m_queue := q\<rparr>"

definition stock_GetQueue :: "('p, 'z) net_device_scheme \<Rightarrow> 'p queue option" where
  "stock_GetQueue d = m_queue d"

definition stock_SetReceiveErrorModel ::
  "('p \<Rightarrow> bool) option \<Rightarrow> ('p, 'z) net_device_scheme \<Rightarrow> ('p, 'z) net_device_scheme" where
  "stock_SetReceiveErrorModel em d = d\<lparr>m_receiveErrorModel := em\<rparr>"

definition stock_SetIfIndex :: "u32 \<Rightarrow> ('p, 'z) net_device_scheme \<Rightarrow> ('p, 'z) net_device_scheme" where
  "stock_SetIfIndex i d = d\<lparr>m_ifIndex := i\<rparr>"

definition stock_GetIfIndex :: "('p, 'z) net_device_scheme \<Rightarrow> u32" where
  "stock_GetIfIndex d = m_ifIndex d"

definition stock_GetChannel :: "('p, 'z) net_device_scheme \<Rightarrow> nat option" where
  "stock_GetChannel d = m_channel d"

definition stock_SetAddress :: "mac48 \<Rightarrow> ('p, 'z) net_device_scheme \<Rightarrow> ('p, 'z) net_device_scheme" where
  "stock_SetAddress a d = d\<lparr>m_address := a\<rparr>"

definition stock_GetAddress :: "('p, 'z) net_device_scheme \<Rightarrow> mac48" where
  "stock_GetAddress d = m_address d"

definition stock_IsLinkUp :: "('p, 'z) net_device_scheme \<Rightarrow> bool" where
  "stock_IsLinkUp d = m_linkUp d"

definition stock_AddLinkChangeCallback ::
  "nat \<Rightarrow> ('p, 'z) net_device_scheme \<Rightarrow> ('p, 'z) net_device_scheme" where
  "stock_AddLinkChangeCallback cb d = d\<lparr>m_linkChangeCallbacks := m_linkChangeCallbacks d @ [cb]\<rparr>"

definition stock_SetNode :: "nat option \<Rightarrow> ('p, 'z) net_device_scheme \<Rightarrow> ('p, 'z) net_device_scheme" where
  "stock_SetNode n d = d\<lparr>m_node := n\<rparr>"

definition stock_GetNode :: "('p, 'z) net_device_scheme \<Rightarrow> nat option" where
  "stock_GetNode d = m_node d"

definition stock_SetReceiveCallback ::
  "nat option \<Rightarrow> ('p, 'z) net_device_scheme \<Rightarrow> ('p, 'z) net_device_scheme" where
  "stock_SetReceiveCallback cb d = d\<lparr>m_rxCallback := cb\<rparr>"

definition stock_SetPromiscReceiveCallback ::
  "nat option \<Rightarrow> ('p, 'z) net_device_scheme \<Rightarrow> ('p, 'z) net_device_scheme" where
  "stock_SetPromiscReceiveCallback cb d = d\<lparr>m_promiscCallback := cb\<rparr>"

definition stock_SetMtu :: "u16 \<Rightarrow> ('p, 'z) net_device_scheme \<Rightarrow> bool \<times> ('p, 'z) net_device_scheme" where
  "stock_SetMtu mtu d = (True, d\<lparr>m_mtu := ucast mtu\<rparr>)"

definition stock_GetMtu :: "('p, 'z) net_device_scheme \<Rightarrow> u16" where
  "stock_GetMtu d = ucast (m_mtu d)"

text \<open>
  The answers that do not depend on the device: \<open>IsBroadcast\<close>, \<open>IsMulticast\<close>,
  \<open>IsPointToPoint\<close>, \<open>IsBridge\<close>, \<open>NeedsArp\<close>, \<open>SupportsSendFrom\<close>, \<open>SendFrom\<close> and the three
  addresses.
\<close>

definition stock_IsBroadcast :: bool where "stock_IsBroadcast = True"
definition stock_GetBroadcast :: mac48 where "stock_GetBroadcast = 0xffffffffffff"
definition stock_IsMulticast :: bool where "stock_IsMulticast = True"
definition stock_GetMulticast4 :: "32 word \<Rightarrow> mac48" where
  "stock_GetMulticast4 multicastGroup = 0x01005e000000"
definition stock_GetMulticast6 :: "128 word \<Rightarrow> mac48" where
  "stock_GetMulticast6 addr = 0x333300000000"
definition stock_IsPointToPoint :: bool where "stock_IsPointToPoint = True"
definition stock_IsBridge :: bool where "stock_IsBridge = False"
definition stock_NeedsArp :: bool where "stock_NeedsArp = False"
definition stock_SupportsSendFrom :: bool where "stock_SupportsSendFrom = False"
definition stock_SendFrom :: "'p \<Rightarrow> mac48 \<Rightarrow> mac48 \<Rightarrow> u16 \<Rightarrow> bool" where
  "stock_SendFrom packet source dest protocolNumber = False"

text \<open>The loop over the channel's devices, with its index; the list holds what \<open>GetDevice\<close> gives.\<close>

fun stock_find_remote :: "nat \<Rightarrow> (nat \<times> mac48) list \<Rightarrow> mac48 option" where
  "stock_find_remote this [] = None"
| "stock_find_remote this ((tmp, a) # rest) =
     (if tmp \<noteq> this then Some a else stock_find_remote this rest)"

definition stock_GetRemote :: "'p env \<Rightarrow> ('p, 'z) net_device_scheme \<Rightarrow> mac48 option res" where
  "stock_GetRemote E d =
     bind_res (deref ''m_channel'' (m_channel d)) (\<lambda>_.
     bind_res (ns_assert (asserts_on E) (length (channel_devices E) = 2) ''GetNDevices () == 2'') (\<lambda>_.
       case stock_find_remote (this_device E) (channel_devices E) of
         Some a \<Rightarrow> Inr (Some a)
       | None \<Rightarrow> bind_res (ns_assert (asserts_on E) False ''false'') (\<lambda>_. Inr None)))"

section \<open>Transmitting\<close>

definition stock_TransmitStart ::
  "'p env \<Rightarrow> ('p, 'z) net_device_scheme \<Rightarrow> 'p \<Rightarrow> (bool \<times> ('p, 'z) net_device_scheme) res" where
  "stock_TransmitStart E d p =
     bind_res (ns_assert (asserts_on E) (m_txMachineState d = READY) ''Must be READY to transmit'') (\<lambda>_.
       let d1 = emit [PhyTxBegin p] (d\<lparr>m_txMachineState := BUSY, m_currentPkt := Some p\<rparr>);
           txTime = bytes_tx_time E (m_bps d1) (GetSize (pkt E) p);
           txCompleteTime = txTime + m_tInterframeGap d1;
           d2 = emit [ScheduleTransmitComplete txCompleteTime] d1
       in bind_res (deref ''m_channel'' (m_channel d2)) (\<lambda>_.
            let result = channel_transmit E p txTime;
                d3 = emit [ChannelTransmitStart p txTime] d2
            in Inr (result, if result = False then emit [PhyTxDrop p] d3 else d3)))"

definition stock_TransmitComplete ::
  "'p env \<Rightarrow> ('p, 'z) net_device_scheme \<Rightarrow> ('p, 'z) net_device_scheme res" where
  "stock_TransmitComplete E d =
     bind_res (ns_assert (asserts_on E) (m_txMachineState d = BUSY) ''Must be BUSY if transmitting'') (\<lambda>_.
     let d1 = d\<lparr>m_txMachineState := READY\<rparr> in
     bind_res (ns_assert (asserts_on E) (m_currentPkt d1 \<noteq> None) ''m_currentPkt zero'') (\<lambda>_.
     let d2 = (emit [PhyTxEnd (m_currentPkt d1)] d1)\<lparr>m_currentPkt := None\<rparr> in
     bind_res (deref ''m_queue'' (m_queue d2)) (\<lambda>q.
     bind_res (Dequeue (asserts_on E) (pkt E) q) (\<lambda>(head, q1).
     let d3 = d2\<lparr>m_queue := Some q1\<rparr> in
     case head of
       None \<Rightarrow> Inr d3
     | Some p \<Rightarrow> bind_res (stock_TransmitStart E (emit [Sniffer p, PromiscSniffer p] d3) p)
         (\<lambda>(_, d4). Inr d4)))))"

definition stock_Send ::
  "'p env \<Rightarrow> 'p stock_device \<Rightarrow> 'p \<Rightarrow> u16 \<Rightarrow> (bool \<times> 'p stock_device) res" where
  "stock_Send E d packet protocolNumber =
     (if stock_IsLinkUp d = False then Inr (False, emit [MacTxDrop packet] d)
      else
        bind_res (stock_AddHeader E packet protocolNumber) (\<lambda>packet1.
        let d1 = emit [MacTx packet1] d in
        bind_res (deref ''m_queue'' (m_queue d1)) (\<lambda>q.
        let (accepted, q1) = Enqueue (pkt E) (qbase E) q packet1; d2 = d1\<lparr>m_queue := Some q1\<rparr> in
        if accepted then
          (if m_txMachineState d2 = READY then
             bind_res (Dequeue (asserts_on E) (pkt E) q1) (\<lambda>(head, q2).
             let d3 = d2\<lparr>m_queue := Some q2\<rparr> in
             bind_res (deref ''packet'' head) (\<lambda>p.
               stock_TransmitStart E (emit [Sniffer p, PromiscSniffer p] d3) p))
           else Inr (True, d2))
        else Inr (False, emit [MacTxDrop packet1] d2))))"

section \<open>Receiving\<close>

definition stock_Receive :: "'p env \<Rightarrow> 'p stock_device \<Rightarrow> 'p \<Rightarrow> 'p stock_device res" where
  "stock_Receive E d packet =
     (let d0 = d\<lparr>m_count := m_count d + 1\<rparr> in
      if (case m_receiveErrorModel d0 of None \<Rightarrow> False | Some em \<Rightarrow> em packet)
      then Inr (emit [PhyRxDrop packet] d0)
      else
        let d1 = emit [Sniffer packet, PromiscSniffer packet, PhyRxEnd packet] d0;
            originalPacket = packet
        in bind_res (stock_ProcessHeader E packet) (\<lambda>(_, protocol, packet').
           bind_res (stock_GetRemote E d1) (\<lambda>remote.
           let d2 = (case m_promiscCallback d1 of None \<Rightarrow> d1
             | Some cb \<Rightarrow> emit [MacPromiscRx originalPacket,
                 PromiscCallback cb packet' protocol remote (stock_GetAddress d1)] d1)
           in bind_res (deref ''m_rxCallback'' (m_rxCallback d2)) (\<lambda>cb.
                Inr (emit [MacRx originalPacket, RxCallback cb packet' protocol remote] d2)))))"

definition stock_DoMpiReceive :: "'p env \<Rightarrow> 'p stock_device \<Rightarrow> 'p \<Rightarrow> 'p stock_device res" where
  "stock_DoMpiReceive E d p = stock_Receive E d p"

end
