(* ===== verification/Transmit_Machine.thy ===== *)
theory Transmit_Machine
  imports Net_Device
begin

text \<open>
  The transmit side of the device as a state machine: what \<open>TransmitStart\<close>,
  \<open>TransmitComplete\<close> and \<open>Send\<close> do on every branch, the invariant that ties the transmitter,
  the packet on the wire and the queue together, and what it gives for every history of sends,
  completions, receptions and settings.
\<close>

section \<open>Reading a history\<close>

definition completed :: "'p device_event list \<Rightarrow> 'p list" where
  "completed es = concat (map (\<lambda>e. case e of PhyTxEnd (Some p) \<Rightarrow> [p] | _ \<Rightarrow> []) es)"

definition on_channel :: "'p device_event list \<Rightarrow> 'p list" where
  "on_channel es = concat (map (\<lambda>e. case e of ChannelTransmitStart p t \<Rightarrow> [p] | _ \<Rightarrow> []) es)"

definition scheduled :: "'p device_event list \<Rightarrow> nat" where
  "scheduled es = length (filter (\<lambda>e. case e of ScheduleTransmitComplete t \<Rightarrow> True | _ \<Rightarrow> False) es)"

definition ended :: "'p device_event list \<Rightarrow> nat" where
  "ended es = length (filter (\<lambda>e. case e of PhyTxEnd p \<Rightarrow> True | _ \<Rightarrow> False) es)"

definition current :: "('p, 'z) net_device_scheme \<Rightarrow> 'p list" where
  "current d = (case m_currentPkt d of None \<Rightarrow> [] | Some p \<Rightarrow> [p])"

text \<open>Events that say nothing about the transmitter.\<close>

definition quiet :: "'p device_event \<Rightarrow> bool" where
  "quiet e = (case e of PhyTxEnd p \<Rightarrow> False | ChannelTransmitStart p t \<Rightarrow> False
     | ScheduleTransmitComplete t \<Rightarrow> False | _ \<Rightarrow> True)"

lemma history_append [simp]:
  "completed (xs @ ys) = completed xs @ completed ys"
  "on_channel (xs @ ys) = on_channel xs @ on_channel ys"
  "scheduled (xs @ ys) = scheduled xs + scheduled ys"
  "ended (xs @ ys) = ended xs + ended ys"
  by (simp_all add: completed_def on_channel_def scheduled_def ended_def)

lemma history_Nil [simp]:
  "completed [] = []" "on_channel [] = []" "scheduled [] = 0" "ended [] = 0"
  by (simp_all add: completed_def on_channel_def scheduled_def ended_def)

lemma history_busy [simp]:
  "completed (PhyTxEnd (Some p) # es) = p # completed es"
  "on_channel (PhyTxEnd r # es) = on_channel es"
  "scheduled (PhyTxEnd r # es) = scheduled es"
  "ended (PhyTxEnd r # es) = Suc (ended es)"
  "completed (ChannelTransmitStart p t # es) = completed es"
  "on_channel (ChannelTransmitStart p t # es) = p # on_channel es"
  "scheduled (ChannelTransmitStart p t # es) = scheduled es"
  "ended (ChannelTransmitStart p t # es) = ended es"
  "completed (ScheduleTransmitComplete t # es) = completed es"
  "on_channel (ScheduleTransmitComplete t # es) = on_channel es"
  "scheduled (ScheduleTransmitComplete t # es) = Suc (scheduled es)"
  "ended (ScheduleTransmitComplete t # es) = ended es"
  by (simp_all add: completed_def on_channel_def scheduled_def ended_def)

lemma history_quiet [simp]:
  assumes "quiet e"
  shows "completed (e # es) = completed es" "on_channel (e # es) = on_channel es"
    "scheduled (e # es) = scheduled es" "ended (e # es) = ended es"
  using assms
  by (cases e; simp add: completed_def on_channel_def scheduled_def ended_def quiet_def)+

lemma quiet_simps [simp]:
  "quiet (MacTx p)" "quiet (MacTxDrop p)" "quiet (MacPromiscRx p)" "quiet (MacRx p)"
  "quiet (PhyTxBegin p)" "quiet (PhyTxDrop p)" "quiet (PhyRxEnd p)" "quiet (PhyRxDrop p)"
  "quiet (Sniffer p)" "quiet (PromiscSniffer p)" "quiet (PromiscCallback cb p pr r a)"
  "quiet (RxCallback cb p pr r)" "quiet (ChannelAttach c)" "quiet (LinkChange cb)"
  "quiet (ConnectQueueTraces qi)"
  by (simp_all add: quiet_def)

lemma quiet_history:
  "\<forall>e \<in> set es. quiet e \<Longrightarrow>
     completed es = [] \<and> on_channel es = [] \<and> scheduled es = 0 \<and> ended es = 0"
  by (induction es) auto

lemma events_emit [simp]: "events (emit es d) = events d @ es"
  by (simp add: emit_def)

lemma emit_frame [simp, frame_simps]:
  "compressionEnabled (emit es d) = compressionEnabled d"
  "m_txMachineState (emit es d) = m_txMachineState d" "m_bps (emit es d) = m_bps d"
  "m_tInterframeGap (emit es d) = m_tInterframeGap d" "m_channel (emit es d) = m_channel d"
  "m_queue (emit es d) = m_queue d" "m_currentPkt (emit es d) = m_currentPkt d"
  "m_receiveErrorModel (emit es d) = m_receiveErrorModel d" "m_linkUp (emit es d) = m_linkUp d"
  "m_rxCallback (emit es d) = m_rxCallback d" "m_promiscCallback (emit es d) = m_promiscCallback d"
  "m_address (emit es d) = m_address d"
  by (simp_all add: emit_def)

section \<open>The operations of the transmitter\<close>

abbreviation tx_time :: "'p env \<Rightarrow> ('p, 'z) net_device_scheme \<Rightarrow> 'p \<Rightarrow> int" where
  "tx_time E d p \<equiv> bytes_tx_time E (m_bps d) (GetSize (pkt E) p)"

definition start_events :: "'p env \<Rightarrow> ('p, 'z) net_device_scheme \<Rightarrow> 'p \<Rightarrow> 'p device_event list" where
  "start_events E d p =
     [PhyTxBegin p, ScheduleTransmitComplete (tx_time E d p + m_tInterframeGap d),
      ChannelTransmitStart p (tx_time E d p)] @
     (if channel_transmit E p (tx_time E d p) then [] else [PhyTxDrop p])"

text \<open>An idle device on a channel starts a transmission and has nothing else to say.\<close>

lemma TransmitStart_ready:
  assumes "m_txMachineState d = READY" and "m_channel d = Some c"
  shows "TransmitStart E d p = Inr (channel_transmit E p (tx_time E d p),
    d\<lparr>m_txMachineState := BUSY, m_currentPkt := Some p, events := events d @ start_events E d p\<rparr>)"
  using assms by (simp add: TransmitStart_def start_events_def emit_def Let_def)

lemma start_events_history [simp]:
  "completed (start_events E d p) = []" "on_channel (start_events E d p) = [p]"
  "scheduled (start_events E d p) = 1" "ended (start_events E d p) = 0"
  by (simp_all add: start_events_def)

lemma TransmitStart_busy:
  "asserts_on E \<Longrightarrow> m_txMachineState d = BUSY \<Longrightarrow>
     TransmitStart E d p = Inl (AssertFailed ''Must be READY to transmit'')"
  by (simp add: TransmitStart_def)

section \<open>The invariant\<close>

text \<open>
  The device has a queue and a channel; it is idle exactly when no packet is on the wire, and
  then its queue is empty; one completion is outstanding exactly while it is busy; and every
  packet the queue accepted is, in order, completed, on the wire, or waiting.
\<close>

definition machine_inv :: "'p env \<Rightarrow> nat \<Rightarrow> ('p, 'z) net_device_scheme \<Rightarrow> bool" where
  "machine_inv E L d \<longleftrightarrow> m_channel d \<noteq> None \<and>
     (\<exists>q. m_queue d = Some q \<and> queue_inv (pkt E) L q \<and>
        (m_txMachineState d = READY \<longleftrightarrow> m_currentPkt d = None) \<and>
        (m_txMachineState d = READY \<longrightarrow> m_packets q = []) \<and>
        scheduled (events d) = ended (events d) + length (current d) \<and>
        on_channel (events d) = completed (events d) @ current d \<and>
        enqueued (q_trace q) = completed (events d) @ current d @ m_packets q)"

lemma machine_inv_quiet:
  assumes "machine_inv E L d" and "\<forall>e \<in> set es. quiet e"
  shows "machine_inv E L (emit es d)"
proof -
  have "completed es = []" "on_channel es = []" "scheduled es = 0" "ended es = 0"
    using quiet_history [OF assms(2)] by auto
  then show ?thesis using assms(1) by (simp add: machine_inv_def current_def)
qed

text \<open>Starting the head of the queue from an idle state.\<close>

lemma machine_start:
  assumes "m_txMachineState d = READY" and "m_channel d = Some c" and "m_currentPkt d = None"
    and "m_queue d = Some q" and "queue_inv (pkt E) L q"
    and "scheduled (events d) = ended (events d)" and "on_channel (events d) = completed (events d)"
    and "enqueued (q_trace q) = completed (events d) @ p # m_packets q"
    and "\<forall>e \<in> set es. quiet e"
  shows "\<exists>ok d'. TransmitStart E (emit es d) p = Inr (ok, d') \<and> machine_inv E L d' \<and>
    completed (events d') = completed (events d) \<and> m_currentPkt d' = Some p \<and> m_queue d' = Some q"
proof -
  have q: "completed es = []" "on_channel es = []" "scheduled es = 0" "ended es = 0"
    using quiet_history [OF assms(9)] by auto
  let ?d = "(emit es d)\<lparr>m_txMachineState := BUSY, m_currentPkt := Some p,
      events := events (emit es d) @ start_events E (emit es d) p\<rparr>"
  have e: "TransmitStart E (emit es d) p =
      Inr (channel_transmit E p (tx_time E (emit es d) p), ?d)"
    by (rule TransmitStart_ready) (use assms(1,2) in simp_all)
  have "machine_inv E L ?d"
    using assms q by (simp add: machine_inv_def current_def)
  moreover have "completed (events ?d) = completed (events d)" using q by simp
  moreover have "m_queue ?d = Some q" using assms(4) by simp
  ultimately show ?thesis using e by auto
qed

lemma machine_queue_and_start:
  assumes E: "env_laws E" and d: "machine_inv E L d" and p: "sized (pkt E) L p"
  shows "\<exists>ok d'. queue_and_start E d p = Inr (ok, d') \<and> machine_inv E L d'"
proof -
  obtain q where q: "m_queue d = Some q" "queue_inv (pkt E) L q"
    using d by (auto simp: machine_inv_def)
  obtain ok q1 where e: "Enqueue (pkt E) (qbase E) q p = (ok, q1)" by fastforce
  have q1: "queue_inv (pkt E) L q1" using Enqueue_inv [OF env_lawsD(2) [OF E] q(2) p e] .
  let ?d1 = "(emit [MacTx p] d)\<lparr>m_queue := Some q1\<rparr>"
  show ?thesis
  proof (cases "ok \<and> m_txMachineState d = READY")
    case False
    have "machine_inv E L ?d1"
      using d q q1 False Enqueue_contents [OF e] Enqueue_enqueued [OF e]
      by (simp add: machine_inv_def current_def)
    moreover from this have "machine_inv E L (emit [MacTxDrop p] ?d1)"
      by (rule machine_inv_quiet) simp
    ultimately show ?thesis using False q e by (auto simp: queue_and_start_def Let_def)
  next
    case True
    then have c: "m_packets q1 = [p]" "enqueued (q_trace q1) = enqueued (q_trace q) @ [p]"
      using d q e Enqueue_fields(1) [of "pkt E" "qbase E" q p q1] by (auto simp: machine_inv_def)
    then obtain q2 where q2: "Dequeue (asserts_on E) (pkt E) q1 = Inr (Some p, q2)"
      "queue_inv (pkt E) L q2" "m_packets q2 = []" "q_trace q2 = q_trace q1 @ [TraceDequeue p]"
      using Dequeue_head [OF q1, of p "[]"] by auto
    let ?d2 = "?d1\<lparr>m_queue := Some q2\<rparr>"
    obtain ch where "m_channel d = Some ch" using d by (auto simp: machine_inv_def)
    then have "\<exists>ok' d'. TransmitStart E (emit [Sniffer p, PromiscSniffer p] ?d2) p = Inr (ok', d')
        \<and> machine_inv E L d' \<and> completed (events d') = completed (events ?d2)
        \<and> m_currentPkt d' = Some p \<and> m_queue d' = Some q2"
      using d q q2 c True by (intro machine_start) (auto simp: machine_inv_def current_def)
    then show ?thesis using True q e q2 by (auto simp: queue_and_start_def Let_def)
  qed
qed

text \<open>Completing a transmission: it never fails, and it starts the next waiting packet.\<close>

lemma machine_complete:
  assumes d: "machine_inv E L d" and busy: "m_txMachineState d = BUSY"
  shows "\<exists>d'. TransmitComplete E d = Inr d' \<and> machine_inv E L d' \<and>
    completed (events d') = completed (events d) @ current d \<and>
    (\<exists>q q'. m_queue d = Some q \<and> m_queue d' = Some q' \<and>
       current d' @ m_packets q' = m_packets q)"
proof -
  obtain q cur where q: "m_queue d = Some q" "queue_inv (pkt E) L q" and cur: "m_currentPkt d = Some cur"
    using d busy by (auto simp: machine_inv_def)
  let ?d1 = "(emit [PhyTxEnd (Some cur)] (d\<lparr>m_txMachineState := READY\<rparr>))\<lparr>m_currentPkt := None\<rparr>"
  show ?thesis
  proof (cases "m_packets q")
    case Nil
    then have "TransmitComplete E d = Inr (?d1\<lparr>m_queue := Some q\<rparr>)"
      using busy cur q by (simp add: TransmitComplete_def Dequeue_empty [OF q(2)] Let_def emit_def)
    moreover have "machine_inv E L (?d1\<lparr>m_queue := Some q\<rparr>)"
      using d busy cur q Nil by (simp add: machine_inv_def current_def)
    ultimately show ?thesis using cur q Nil by (simp add: current_def)
  next
    case (Cons p ps)
    then obtain q1 where q1: "Dequeue (asserts_on E) (pkt E) q = Inr (Some p, q1)"
      "queue_inv (pkt E) L q1" "m_packets q1 = ps" "q_trace q1 = q_trace q @ [TraceDequeue p]"
      using Dequeue_head [OF q(2)] by blast
    let ?d2 = "?d1\<lparr>m_queue := Some q1\<rparr>"
    obtain ch where "m_channel d = Some ch" using d by (auto simp: machine_inv_def)
    then have "\<exists>ok d'. TransmitStart E (emit [Sniffer p, PromiscSniffer p] ?d2) p = Inr (ok, d')
        \<and> machine_inv E L d' \<and> completed (events d') = completed (events ?d2)
        \<and> m_currentPkt d' = Some p \<and> m_queue d' = Some q1"
      using d q q1 cur Cons by (intro machine_start) (auto simp: machine_inv_def current_def)
    then show ?thesis
      using busy cur q q1 Cons by (auto simp: TransmitComplete_def Let_def current_def emit_def)
  qed
qed

end
