(* ===== verification/Device_Machine.thy ===== *)
theory Device_Machine
  imports Transmit_Machine
begin

text \<open>
  The device of the project in operation: \<open>Send\<close> and \<open>Receive\<close> branch by branch, the step
  relation over everything that can happen to a device after installation, and what the
  invariant of the transmitter gives in every reachable state.
\<close>

section \<open>Send, branch by branch\<close>

definition supported :: "u16 \<Rightarrow> bool" where
  "supported proto \<longleftrightarrow> proto \<in> {0x0800, 0x4021, 0x86DD}"

definition compresses :: "'p p2p_device \<Rightarrow> u16 \<Rightarrow> bool" where
  "compresses d proto \<longleftrightarrow> compressionEnabled d \<and> proto = m_protocol d"

lemma Send_link_down: "\<not> m_linkUp d \<Longrightarrow> Send E d p proto = Inr (False, emit [MacTxDrop p] d)"
  by (simp add: Send_def IsLinkUp_def)

lemma Send_plain:
  "m_linkUp d \<Longrightarrow> \<not> compresses d proto \<Longrightarrow>
     Send E d p proto = bind_res (AddHeader E p proto) (queue_and_start E d)"
  by (auto simp: Send_def IsLinkUp_def compresses_def)

lemma Send_compressing:
  "m_linkUp d \<Longrightarrow> compresses d proto \<Longrightarrow>
     Send E d p proto = bind_res (compressed_packet E p) (\<lambda>p1.
       bind_res (AddHeader E p1 0x4021) (queue_and_start E d))"
  by (simp add: Send_def IsLinkUp_def compresses_def)

lemma EtherToPpp_LZS [simp]: "EtherToPpp a 0x4021 = Inr 0x4021"
  by (simp add: EtherToPpp_def)

lemma EtherToPpp_supported: "supported proto \<Longrightarrow> \<exists>ppp. EtherToPpp a proto = Inr ppp"
  by (auto simp: supported_def EtherToPpp_def)

lemma compressed_packet_size:
  assumes E: "env_laws E" and Z: "zlib_bounded (zlib E)" and c: "compressed_packet E p = Inr p'"
  shows "GetSize (pkt E) p' = GetSize (pkt E) p + 8"
proof -
  let ?n = "GetSize (pkt E) p + 8"
  obtain out where out: "Compress (zlib E) (overwrite (CopyData (pkt E) p ?n) (new_bytes E 1 ?n))
      (new_bytes E 2 ?n) ?n = Inr out" and p': "p' = CreatePacket (pkt E) out"
    using c by (auto simp: compressed_packet_def Let_def bind_res_eq_Inr)
  have l: "length out = unat ?n"
    using Compress_length [OF Z out] env_lawsD(3) [OF E] by simp
  then have "GetSize (pkt E) p' = of_nat (unat ?n)"
    using GetSize_Create [OF env_lawsD(1) [OF E], of out] unat_less32 [of ?n] p' by simp
  then show ?thesis by simp
qed

section \<open>Everything that can happen to a device\<close>

text \<open>Settings that the simulation may change while a device is in operation.\<close>

datatype 'p setting =
  DataRateSetting u64 | InterframeGapSetting int | ErrorModelSetting "('p \<Rightarrow> bool) option"
| IfIndexSetting u32 | AddressSetting mac48 | LinkChangeSetting nat | NodeSetting "nat option"
| ReceiveCallbackSetting "nat option" | PromiscCallbackSetting "nat option" | MtuSetting u16
| CompressionSetting bool | AggregateSetting "nat option"

fun apply_setting :: "'p setting \<Rightarrow> ('p, 'z) net_device_scheme \<Rightarrow> ('p, 'z) net_device_scheme" where
  "apply_setting (DataRateSetting r) d = SetDataRate r d"
| "apply_setting (InterframeGapSetting t) d = SetInterframeGap t d"
| "apply_setting (ErrorModelSetting em) d = SetReceiveErrorModel em d"
| "apply_setting (IfIndexSetting i) d = SetIfIndex i d"
| "apply_setting (AddressSetting a) d = SetAddress a d"
| "apply_setting (LinkChangeSetting cb) d = AddLinkChangeCallback cb d"
| "apply_setting (NodeSetting n) d = SetNode n d"
| "apply_setting (ReceiveCallbackSetting cb) d = SetReceiveCallback cb d"
| "apply_setting (PromiscCallbackSetting cb) d = SetPromiscReceiveCallback cb d"
| "apply_setting (MtuSetting m) d = snd (SetMtu m d)"
| "apply_setting (CompressionSetting b) d = d\<lparr>compressionEnabled := b\<rparr>"
| "apply_setting (AggregateSetting qi) d = NotifyNewAggregate qi d"

text \<open>
  One step of a device: a packet from above that leaves room for the headers below the size
  bound \<open>L\<close>, a completion event that was scheduled and has not run, a packet from the channel,
  or a setting. Steps that stop the program are not steps.
\<close>

definition room_for_headers :: "'p env \<Rightarrow> nat \<Rightarrow> 'p \<Rightarrow> bool" where
  "room_for_headers E L p \<longleftrightarrow> unat (GetSize (pkt E) p) + 10 \<le> L"

inductive device_step :: "'p env \<Rightarrow> nat \<Rightarrow> 'p p2p_device \<Rightarrow> 'p p2p_device \<Rightarrow> bool"
  for E :: "'p env" and L :: nat where
  send: "room_for_headers E L p \<Longrightarrow> Send E d p proto = Inr (ok, d') \<Longrightarrow> device_step E L d d'"
| complete: "ended (events d) < scheduled (events d) \<Longrightarrow> TransmitComplete E d = Inr d' \<Longrightarrow>
    device_step E L d d'"
| receive: "Receive E d p = Inr d' \<Longrightarrow> device_step E L d d'"
| setting: "device_step E L d (apply_setting s d)"

text \<open>A freshly installed device: a queue, a channel, and nothing sent yet.\<close>

definition installed :: "nat \<Rightarrow> 'p p2p_device \<Rightarrow> bool" where
  "installed L d \<longleftrightarrow> m_channel d \<noteq> None \<and> m_txMachineState d = READY \<and> m_currentPkt d = None \<and>
     (\<exists>mx. sane_limit L mx \<and> m_queue d = Some (DropTailQueue mx)) \<and> (\<forall>e \<in> set (events d). quiet e)"

definition reachable_device :: "'p env \<Rightarrow> nat \<Rightarrow> 'p p2p_device \<Rightarrow> bool" where
  "reachable_device E L d \<longleftrightarrow> reaches (installed L) (device_step E L) d"

lemma installed_inv: "installed L d \<Longrightarrow> machine_inv E L d"
proof -
  assume d: "installed L d"
  then have "completed (events d) = [] \<and> on_channel (events d) = [] \<and>
      scheduled (events d) = 0 \<and> ended (events d) = 0"
    by (intro quiet_history) (simp add: installed_def)
  then show "machine_inv E L d"
    using d queue_inv_empty [of L _ "pkt E"]
    by (auto simp: installed_def machine_inv_def current_def DropTailQueue_def)
qed

lemma sized_headers:
  assumes "unat (GetSize P p) + 10 \<le> L" and "L < 2 ^ 32" and "k = 2 \<or> k = 10"
    and "GetSize P p' = GetSize P p + k"
  shows "sized P L p'"
  using assms unat_plus32 [of "GetSize P p" k] by (auto simp: sized_def)

lemma Send_inv:
  assumes E: "env_laws E" and Z: "zlib_bounded (zlib E)" and L: "L < 2 ^ 32"
    and d: "machine_inv E L d" and p: "room_for_headers E L p" and s: "Send E d p proto = Inr (ok, d')"
  shows "machine_inv E L d'"
proof (cases "m_linkUp d")
  case False
  then show ?thesis using s d machine_inv_quiet [OF d, of "[MacTxDrop p]"] by (simp add: Send_link_down)
next
  case True
  have "\<exists>p'. sized (pkt E) L p' \<and> queue_and_start E d p' = Inr (ok, d')"
  proof (cases "compresses d proto")
    case False
    then obtain v where "queue_and_start E d (AddPpp (pkt E) v p) = Inr (ok, d')"
      using s True by (auto simp: Send_plain AddHeader_def bind_res_eq_Inr)
    moreover have "sized (pkt E) L (AddPpp (pkt E) v p)"
      using p L GetSize_AddPpp [OF env_lawsD(1) [OF E]]
      by (intro sized_headers [where k = 2]) (auto simp: room_for_headers_def)
    ultimately show ?thesis by blast
  next
    case True
    then obtain p1 where p1: "compressed_packet E p = Inr p1"
      and "queue_and_start E d (AddPpp (pkt E) 0x4021 p1) = Inr (ok, d')"
      using s \<open>m_linkUp d\<close> by (auto simp: Send_compressing AddHeader_def bind_res_eq_Inr)
    moreover have "sized (pkt E) L (AddPpp (pkt E) 0x4021 p1)"
      using p L GetSize_AddPpp [OF env_lawsD(1) [OF E]] compressed_packet_size [OF E Z p1]
      by (intro sized_headers [where k = 10 and p = p]) (auto simp: room_for_headers_def)
    ultimately show ?thesis by blast
  qed
  then show ?thesis using machine_queue_and_start [OF E d] by fastforce
qed

lemma forward_up_inv:
  assumes "machine_inv E L d" and "forward_up E d o1 p proto r = Inr d'"
  shows "machine_inv E L d'"
  using assms
  by (auto simp: forward_up_def Let_def bind_res_eq_Inr split: option.splits intro!: machine_inv_quiet)

lemma process_and_forward_inv:
  "machine_inv E L d \<Longrightarrow> process_and_forward E d o1 p = Inr d' \<Longrightarrow> machine_inv E L d'"
  by (auto simp: process_and_forward_def bind_res_eq_Inr intro: forward_up_inv)

lemma Receive_inv:
  assumes d: "machine_inv E L d" and r: "Receive E d p = Inr d'"
  shows "machine_inv E L d'"
proof -
  have "machine_inv E L (emit [PhyRxDrop p] d)"
    and "machine_inv E L (emit [Sniffer p, PromiscSniffer p, PhyRxEnd p] d)"
    using d by (auto intro!: machine_inv_quiet)
  then show ?thesis
    using r by (auto simp: Receive_def Let_def bind_res_eq_Inr split: if_splits
        intro: process_and_forward_inv)
qed

lemma setting_inv: "machine_inv E L d \<Longrightarrow> machine_inv E L (apply_setting s d)"
  by (cases s) (auto simp: machine_inv_def current_def SetDataRate_def SetInterframeGap_def
    SetReceiveErrorModel_def SetIfIndex_def SetAddress_def AddLinkChangeCallback_def SetNode_def
    SetReceiveCallback_def SetPromiscReceiveCallback_def SetMtu_def NotifyNewAggregate_def)

lemma pending_busy:
  "machine_inv E L d \<Longrightarrow> ended (events d) < scheduled (events d) \<longleftrightarrow> m_txMachineState d = BUSY"
  by (cases "m_txMachineState d") (auto simp: machine_inv_def current_def split: option.splits)

definition run_time :: "'p env \<Rightarrow> nat \<Rightarrow> bool" where
  "run_time E L \<longleftrightarrow> env_laws E \<and> zlib_bounded (zlib E) \<and> L < 2 ^ 32"

lemma device_step_inv:
  assumes "run_time E L" and "machine_inv E L d" and "device_step E L d d'"
  shows "machine_inv E L d'"
  using assms(3)
proof (cases rule: device_step.cases)
  case (send p proto ok)
  then show ?thesis using Send_inv assms(1,2) by (auto simp: run_time_def)
next
  case complete
  then show ?thesis using machine_complete [OF assms(2)] pending_busy [OF assms(2)] by auto
next
  case (receive p)
  show ?thesis using assms(2) receive by (rule Receive_inv)
next
  case (setting s)
  then show ?thesis using setting_inv [OF assms(2)] by simp
qed

text \<open>The invariant of the transmitter is an invariant of the device, under the platform's laws.\<close>

interpretation device: invariant_system
    "\<lambda>d. run_time E L \<and> installed L d" "device_step E L" "\<lambda>d. run_time E L \<and> machine_inv E L d"
  for E :: "'p env" and L
  by unfold_locales (auto intro: installed_inv device_step_inv)

lemma reachable_machine_inv:
  assumes "run_time E L" and "reachable_device E L d"
  shows "machine_inv E L d"
proof -
  have "reaches (\<lambda>d. run_time E L \<and> installed L d) (device_step E L) d"
    using assms by (simp add: reachable_device_def)
  then show ?thesis by (blast dest: device.reachable_inv)
qed

section \<open>Send returns\<close>

text \<open>
  What makes \<open>Send\<close> return instead of stopping the program: a terminating zero among the bytes
  that \<open>strlen\<close> will see when the packet is compressed, and otherwise a protocol number of the
  table or a build without assertions.
\<close>

definition sendable :: "'p env \<Rightarrow> 'p p2p_device \<Rightarrow> 'p \<Rightarrow> u16 \<Rightarrow> bool" where
  "sendable E d p proto \<longleftrightarrow>
     (if compresses d proto then 0 \<in> set (overwrite (CopyData (pkt E) p (GetSize (pkt E) p + 8))
         (new_bytes E 1 (GetSize (pkt E) p + 8)))
      else supported proto \<or> \<not> asserts_on E)"

lemma EtherToPpp_returns: "supported proto \<or> \<not> a \<Longrightarrow> \<exists>ppp. EtherToPpp a proto = Inr ppp"
  by (auto simp: supported_def EtherToPpp_def)

lemma compressed_packet_returns:
  assumes "0 \<in> set (overwrite (CopyData (pkt E) p (GetSize (pkt E) p + 8))
    (new_bytes E 1 (GetSize (pkt E) p + 8)))"
  shows "\<exists>p'. compressed_packet E p = Inr p'"
  using assms by (simp add: compressed_packet_def Compress_def c_strlen_def Let_def)

lemma Send_returns:
  assumes R: "run_time E L" and d: "machine_inv E L d" and p: "room_for_headers E L p"
    and s: "sendable E d p proto"
  shows "\<exists>ok d'. Send E d p proto = Inr (ok, d')"
proof (cases "m_linkUp d")
  case False
  then show ?thesis by (auto simp: Send_link_down)
next
  case up: True
  have E: "env_laws E" and Z: "zlib_bounded (zlib E)" and L: "L < 2 ^ 32"
    using R by (simp_all add: run_time_def)
  show ?thesis
  proof (cases "compresses d proto")
    case True
    then obtain p1 where p1: "compressed_packet E p = Inr p1"
      using s compressed_packet_returns by (fastforce simp: sendable_def)
    have "sized (pkt E) L (AddPpp (pkt E) 0x4021 p1)"
      using p L GetSize_AddPpp [OF env_lawsD(1) [OF E]] compressed_packet_size [OF E Z p1]
      by (intro sized_headers [where k = 10 and p = p]) (auto simp: room_for_headers_def)
    then show ?thesis
      using machine_queue_and_start [OF E d] up True p1
      by (fastforce simp: Send_compressing AddHeader_def)
  next
    case False
    then obtain v where v: "EtherToPpp (asserts_on E) proto = Inr v"
      using s EtherToPpp_returns by (fastforce simp: sendable_def)
    have "sized (pkt E) L (AddPpp (pkt E) v p)"
      using p L GetSize_AddPpp [OF env_lawsD(1) [OF E]]
      by (intro sized_headers [where k = 2]) (auto simp: room_for_headers_def)
    then show ?thesis
      using machine_queue_and_start [OF E d] up False v by (fastforce simp: Send_plain AddHeader_def)
  qed
qed

end
