(* ===== verification/Device_Properties.thy ===== *)
theory Device_Properties
  imports Device_Machine
begin

text \<open>
  The properties of the project's device: protocol numbers, initialisation, what sending and
  receiving do on every branch, what compression does to a packet, and the guarantees of the
  transmit machine in every reachable state. The platform of the witnesses is at the start.
\<close>

section \<open>A concrete platform\<close>

text \<open>The bytes of \<open>src/config.json\<close>.\<close>

definition config_json :: "byte list" where
  "config_json = [0x7B, 0x22] @ map of_char ''protocolsToCompress'' @ [0x22, 0x3A, 0x22] @ map of_char ''0x0021'' @ [0x22, 0x7D]"

definition byte_env :: "bool \<Rightarrow> byte list env" where
  "byte_env asserts = \<lparr>asserts_on = asserts, pkt = byte_packets, qbase = plain_queue_base,
     zlib = marked_codec, parse_rate = (\<lambda>r. 32768), bytes_tx_time = (\<lambda>bps n. int (unat n) * 8),
     channel_transmit = (\<lambda>p t. True), channel_devices = [(0, 10), (1, 11)], this_device = 0,
     new_bytes = (\<lambda>k n. replicate (unat n) 0),
     file_bytes = (\<lambda>file. config_json), decimal_point = 0x2E, max_container = 2 ^ 60\<rparr>"

lemma byte_env_laws: "env_laws (byte_env a)"
  by (simp add: env_laws_def byte_env_def byte_packets_laws plain_queue_base_laws)

lemma byte_env_zlib: "zlib_bounded (zlib (byte_env a))" "zlib_lossless (zlib (byte_env a))"
  by (simp_all add: byte_env_def marked_codec_bounded marked_codec_lossless)

lemma byte_env_fields [simp]:
  "asserts_on (byte_env a) = a" "pkt (byte_env a) = byte_packets"
  "channel_devices (byte_env a) = [(0, 10), (1, 11)]" "this_device (byte_env a) = 0"
  "file_bytes (byte_env a) f = config_json" "decimal_point (byte_env a) = 0x2E"
  by (simp_all add: byte_env_def)

text \<open>A device with default attributes, attached, with a queue of at most 100 packets.\<close>

definition sample_device :: "'p p2p_device" where
  "sample_device = \<lparr>compressionEnabled = False, m_txMachineState = READY, m_bps = 32768,
     m_tInterframeGap = 0, m_channel = Some 0,
     m_queue = Some (DropTailQueue \<lparr>qs_unit = PACKETS, qs_value = 100\<rparr>),
     m_receiveErrorModel = None, m_node = Some 0, m_queueInterface = None, m_address = 10,
     m_rxCallback = Some 7, m_promiscCallback = None, m_ifIndex = 0, m_linkUp = True,
     m_linkChangeCallbacks = [], m_mtu = 1500, m_currentPkt = None, events = [],
     m_protocol = 0x0800\<rparr>"

lemma sample_limit: "sane_limit 2000 \<lparr>qs_unit = PACKETS, qs_value = 100\<rparr>"
  by (simp add: sane_limit_def)

lemma sample_installed: "installed 2000 sample_device"
  using sample_limit by (auto simp: installed_def sample_device_def)

lemma sample_run_time: "run_time (byte_env a) 2000"
  by (simp add: run_time_def byte_env_laws byte_env_zlib)

section \<open>Protocol numbers\<close>

text \<open>Two number translations that undo each other on the protocols they know.\<close>

locale number_codec =
  fixes enc :: "u16 \<Rightarrow> u16 res" and dec :: "u16 \<Rightarrow> u16 res" and known :: "u16 \<Rightarrow> bool"
  assumes enc_dec: "known n \<Longrightarrow> \<exists>m. enc n = Inr m \<and> m \<noteq> 0 \<and> dec m = Inr n"
    and enc_unknown: "\<not> known n \<Longrightarrow> enc n = Inr 0 \<or> \<not> is_ok (enc n)"
begin

lemma dec_enc: "enc n = Inr m \<Longrightarrow> m \<noteq> 0 \<Longrightarrow> dec m = Inr n"
proof -
  assume f: "enc n = Inr m" and m: "m \<noteq> 0"
  then have "known n" using enc_unknown [of n] by auto
  then show "dec m = Inr n" using enc_dec f by fastforce
qed

lemma enc_inj: "enc n = Inr m \<Longrightarrow> enc n' = Inr m \<Longrightarrow> m \<noteq> 0 \<Longrightarrow> n = n'"
  by (metis dec_enc sum.inject(2))

end

definition ppp_known :: "u16 \<Rightarrow> bool" where
  "ppp_known n \<longleftrightarrow> n \<in> {0x0021, 0x4021, 0x0057}"

interpretation ether: number_codec "EtherToPpp a" "PppToEther a" supported for a
  by unfold_locales (auto simp: supported_def EtherToPpp_def PppToEther_def ns_assert_def)

interpretation ppp: number_codec "PppToEther a" "EtherToPpp a" ppp_known for a
  by unfold_locales (auto simp: ppp_known_def EtherToPpp_def PppToEther_def ns_assert_def)

text \<open>
  The two translations are inverse to each other: a number that either of them yields for a
  known protocol is taken back to that protocol by the other one.
\<close>

theorem protocol_numbers_inverse:
  assumes "m \<noteq> 0"
  shows "EtherToPpp a n = Inr m \<longleftrightarrow> PppToEther a m = Inr n \<and> n \<noteq> 0"
proof
  assume e: "EtherToPpp a n = Inr m"
  then have "PppToEther a m = Inr n" using assms by (rule ether.dec_enc)
  moreover have "n \<noteq> 0" using e assms by (auto simp: EtherToPpp_def ns_assert_def split: if_splits)
  ultimately show "PppToEther a m = Inr n \<and> n \<noteq> 0" ..
qed (blast intro: ppp.dec_enc)

theorem protocol_numbers_inverse_witness:
  "EtherToPpp True 0x86DD = Inr 0x0057 \<longleftrightarrow> PppToEther True 0x0057 = Inr 0x86DD \<and> (0x86DD::u16) \<noteq> 0"
  using protocol_numbers_inverse [of "0x0057" True "0x86DD"] by simp

text \<open>
  A protocol number outside the table stops a debug build and turns into protocol 0 in an
  optimised one, in both directions.
\<close>

theorem unknown_protocol:
  "(\<not> supported n \<longrightarrow> EtherToPpp a n =
      (if a then Inl (AssertFailed ''PPP Protocol number not defined!'') else Inr 0)) \<and>
   (\<not> ppp_known n \<longrightarrow> PppToEther a n =
      (if a then Inl (AssertFailed ''PPP Protocol number not defined!'') else Inr 0))"
  by (auto simp: supported_def ppp_known_def EtherToPpp_def PppToEther_def)

theorem unknown_protocol_witness:
  "EtherToPpp True 0x0021 = Inl (AssertFailed ''PPP Protocol number not defined!'') \<and>
   PppToEther False 0 = Inr 0"
  using unknown_protocol [of "0x0021" True] unknown_protocol [of 0 False]
  by (simp add: supported_def ppp_known_def)

section \<open>Creation\<close>

text \<open>
  A device created with the attributes' initial values is idle, detached and without
  compression, has an MTU of 1500 and the protocol to compress unset, whatever the memory held.
\<close>

theorem create_device_defaults:
  "\<exists>d. create_device E raw = Some d \<and> m_txMachineState d = READY \<and> m_channel d = None \<and>
     \<not> m_linkUp d \<and> m_currentPkt d = None \<and> m_queue d = None \<and> \<not> compressionEnabled d \<and>
     GetMtu d = DEFAULT_MTU \<and> m_address d = GetBroadcast \<and> m_tInterframeGap d = 0 \<and> m_protocol d = 0"
  by (simp add: create_device_def device_attributes_def set_attribute_def SetMtu_def GetMtu_def
      DEFAULT_MTU_def GetBroadcast_def PointToPointNetDevice_def)

section \<open>What compression does to a packet\<close>

text \<open>The device of the witnesses with compression switched on.\<close>

definition compressing_device :: "'p p2p_device" where
  "compressing_device = sample_device\<lparr>compressionEnabled := True\<rparr>"

lemma compressing_device_compresses: "m_linkUp compressing_device" "compresses compressing_device 0x0800"
  by (simp_all add: compressing_device_def sample_device_def compresses_def)

lemma compressing_inv: "machine_inv (byte_env a) 2000 (compressing_device :: byte list p2p_device)"
  using sample_limit by (intro installed_inv) (auto simp: installed_def compressing_device_def sample_device_def)

text \<open>
  C39. Compression never makes a packet smaller on the wire: what the device queues for a
  packet of \<open>n\<close> bytes is an LZS-marked packet of \<open>n + 10\<close> bytes, for every input and every
  behaviour of zlib.
\<close>

theorem compressed_packets_grow:
  assumes "env_laws E" and "zlib_bounded (zlib E)" and "m_linkUp d" and "compresses d proto"
    and "Send E d p proto = Inr r"
  shows "\<exists>p'. queue_and_start E d p' = Inr r \<and> PeekPpp (pkt E) p' = 0x4021 \<and>
    GetSize (pkt E) p' = GetSize (pkt E) p + 10"
proof -
  obtain p1 where p1: "compressed_packet E p = Inr p1"
    and r: "queue_and_start E d (AddPpp (pkt E) 0x4021 p1) = Inr r"
    using assms(3-5) by (auto simp: Send_compressing AddHeader_def bind_res_eq_Inr)
  have P: "packet_laws (pkt E)" using assms(1) by (rule env_lawsD)
  show ?thesis
    using r compressed_packet_size [OF assms(1,2) p1] GetSize_AddPpp [OF P] PeekPpp_AddPpp [OF P]
    by (intro exI [of _ "AddPpp (pkt E) 0x4021 p1"]) simp
qed

theorem compressed_packets_grow_witness:
  "\<exists>p'. GetSize byte_packets p' = GetSize byte_packets [65, 66, 0] + 10 \<and>
     is_ok (queue_and_start (byte_env True) compressing_device p')"
proof -
  have "sendable (byte_env True) compressing_device [65, 66, 0] 0x0800"
    by (simp add: sendable_def overwrite_def byte_packets_def compressing_device_compresses)
  then obtain r where "Send (byte_env True) compressing_device [65, 66, 0] 0x0800 = Inr r"
    using Send_returns [OF sample_run_time compressing_inv [of True]]
    by (fastforce simp: room_for_headers_def byte_packets_def)
  then show ?thesis
    using compressed_packets_grow [OF byte_env_laws byte_env_zlib(1) compressing_device_compresses]
    by fastforce
qed

text \<open>What the device does with a packet that has a zero byte, in terms of its C string only.\<close>

lemma compressed_packet_eq:
  assumes E: "env_laws E" and z: "0 \<in> set (CopyData (pkt E) p (GetSize (pkt E) p + 8))"
  shows "compressed_packet E p = Inr (CreatePacket (pkt E) (overwrite
    (deflate_finish (zlib E) (c_string (CopyData (pkt E) p (GetSize (pkt E) p + 8)))
      (unat (GetSize (pkt E) p + 8))) (new_bytes E 2 (GetSize (pkt E) p + 8))))"
proof -
  let ?n = "GetSize (pkt E) p + 8" and ?xs = "CopyData (pkt E) p (GetSize (pkt E) p + 8)"
  have "length ?xs \<le> unat ?n" using length_CopyData [OF env_lawsD(1) [OF E]] by simp
  then have l: "length (overwrite ?xs (new_bytes E 1 ?n)) < 2 ^ 32"
    using env_lawsD(3) [OF E] unat_less32 [of ?n] by simp
  have "0 \<in> set (overwrite ?xs (new_bytes E 1 ?n))"
    and "c_string (overwrite ?xs (new_bytes E 1 ?n)) = c_string ?xs"
    using z by (simp_all add: overwrite_def c_string_append)
  then show ?thesis using l by (simp add: compressed_packet_def Let_def Compress_eq)
qed

text \<open>
  C6. Compression forgets everything behind the first zero byte of a packet: two packets of the
  same size whose bytes agree up to their first zero are sent as one and the same packet.
\<close>

theorem compression_forgets:
  assumes "env_laws E" and "m_linkUp d" and "compresses d proto"
    and "GetSize (pkt E) p = GetSize (pkt E) p'"
    and "CopyData (pkt E) p (GetSize (pkt E) p + 8) = xs @ 0 # ys"
    and "CopyData (pkt E) p' (GetSize (pkt E) p' + 8) = xs @ 0 # ys'"
  shows "Send E d p proto = Send E d p' proto"
proof -
  have "c_string (xs @ 0 # ys) = c_string (xs @ 0 # ys')"
    using c_string_append [of "xs @ [0]" ys] c_string_append [of "xs @ [0]" ys'] by simp
  then have "compressed_packet E p = compressed_packet E p'"
    using compressed_packet_eq [OF assms(1), of p] compressed_packet_eq [OF assms(1), of p']
      assms(4-6) by simp
  then show ?thesis using assms(2,3) by (simp add: Send_compressing)
qed

text \<open>
  For instance the 20-byte and longer IPv4 packets with a type of service of 0, whose second
  byte is zero: only their first two bytes reach the other side.
\<close>

theorem compression_forgets_witness:
  "Send (byte_env True) compressing_device (0x45 # 0 # [1, 2, 3, 4]) 0x0800 =
   Send (byte_env True) compressing_device (0x45 # 0 # [9, 9, 9, 9]) 0x0800"
  by (rule compression_forgets [OF byte_env_laws compressing_device_compresses, where xs = "[0x45]"])
    (simp_all add: byte_packets_def)

section \<open>Receiving\<close>

definition error_free :: "('p, 'z) net_device_scheme \<Rightarrow> 'p \<Rightarrow> bool" where
  "error_free d p \<longleftrightarrow> (case m_receiveErrorModel d of None \<Rightarrow> True | Some em \<Rightarrow> \<not> em p)"

lemma Receive_corrupt: "\<not> error_free d p \<Longrightarrow> Receive E d p = Inr (emit [PhyRxDrop p] d)"
  by (auto simp: Receive_def error_free_def split: option.splits)

lemma Receive_LZS:
  "error_free d p \<Longrightarrow> compressionEnabled d \<Longrightarrow> PeekPpp (pkt E) p = 0x4021 \<Longrightarrow>
     Receive E d p = bind_res (decompressed_packet E p)
       (process_and_forward E (emit [Sniffer p, PromiscSniffer p, PhyRxEnd p] d) p)"
  by (auto simp: Receive_def error_free_def Let_def split: option.splits)

lemma Receive_plain:
  "error_free d p \<Longrightarrow> \<not> (compressionEnabled d \<and> PeekPpp (pkt E) p = 0x4021) \<Longrightarrow>
     Receive E d p = process_and_forward E (emit [Sniffer p, PromiscSniffer p, PhyRxEnd p] d) p p"
  by (auto simp: Receive_def error_free_def Let_def split: option.splits)

text \<open>
  C38. In a build with assertions no device that compresses survives the reception of an LZS
  packet: \<open>Receive\<close> puts the PPP number \<open>0x0021\<close> through the Ethernet table, which does not have
  it.
\<close>

theorem Receive_LZS_asserts:
  assumes "asserts_on E" and "compressionEnabled d" and "error_free d p"
    and "PeekPpp (pkt E) p = 0x4021"
  shows "Receive E d p = Inl (Undefined ''strlen'') \<or>
    Receive E d p = Inl (AssertFailed ''PPP Protocol number not defined!'')"
  using assms
  by (auto simp: Receive_LZS decompressed_packet_def Decompress_def c_strlen_def AddHeader_def
      EtherToPpp_def Let_def case_prod_unfold)

theorem Receive_LZS_asserts_witness:
  "Receive (byte_env True) compressing_device [0x40, 0x21, 1, 65, 0] = Inl (Undefined ''strlen'') \<or>
   Receive (byte_env True) compressing_device [0x40, 0x21, 1, 65, 0] =
     Inl (AssertFailed ''PPP Protocol number not defined!'')"
  by (rule Receive_LZS_asserts)
    (simp_all add: compressing_device_def sample_device_def error_free_def byte_packets_def)

text \<open>
  C23. In an optimised build the decompressed packet is handed up, but with protocol number 0
  instead of IPv4's \<open>0x0800\<close>, so no IPv4 layer is registered for it.
\<close>

theorem Receive_LZS_protocol_0:
  assumes "env_laws E" and "\<not> asserts_on E" and "compressionEnabled d" and "error_free d p"
    and "PeekPpp (pkt E) p = 0x4021" and "Receive E d p = Inr d'"
  shows "\<exists>cb payload remote. last (events d') = RxCallback cb payload 0 remote"
proof -
  have P: "packet_laws (pkt E)" using assms(1) by (rule env_lawsD)
  obtain v where "process_and_forward E (emit [Sniffer p, PromiscSniffer p, PhyRxEnd p] d) p
      (AddPpp (pkt E) 0 v) = Inr d'"
    using assms by (auto simp: Receive_LZS decompressed_packet_def AddHeader_def EtherToPpp_def
        Let_def case_prod_unfold bind_res_eq_Inr)
  then show ?thesis
    using assms(2) by (auto simp: process_and_forward_def ProcessHeader_def RemovePpp_AddPpp [OF P]
        PppToEther_def forward_up_def Let_def bind_res_eq_Inr)
qed

text \<open>The state of the witness: what the optimised device makes of one compressed packet.\<close>

lemma lzs_received:
  "\<exists>d'. Receive (byte_env False) compressing_device [0x40, 0x21, 1, 65, 0] = Inr d'"
  by (simp add: Receive_def compressing_device_def sample_device_def byte_packets_def
      decompressed_packet_def Decompress_def c_strlen_def AddHeader_def EtherToPpp_def Let_def
      overwrite_def byte_env_def process_and_forward_def ProcessHeader_def PppToEther_def GetRemote_def
      forward_up_def)

theorem Receive_LZS_protocol_0_witness:
  "\<exists>d' cb payload remote.
     Receive (byte_env False) compressing_device [0x40, 0x21, 1, 65, 0] = Inr d' \<and>
     last (events d') = RxCallback cb payload 0 remote"
proof -
  obtain d' where d': "Receive (byte_env False) compressing_device [0x40, 0x21, 1, 65, 0] = Inr d'"
    using lzs_received by blast
  have "\<exists>cb payload remote. last (events d') = RxCallback cb payload 0 remote"
    by (rule Receive_LZS_protocol_0 [OF byte_env_laws _ _ _ _ d'])
      (simp_all add: compressing_device_def sample_device_def error_free_def byte_packets_def)
  then show ?thesis using d' by blast
qed

end
