(* ===== verification/Link.thy ===== *)
theory Link
  imports Device_Properties
begin

text \<open>
  Two devices on one channel: what one of them puts on it and the other receives, without and
  with compression.
\<close>

section \<open>A packet across the link\<close>

text \<open>On a channel with two devices each of them finds the address of the other one.\<close>

theorem GetRemote_other:
  assumes "m_channel d = Some c" and "channel_devices E = [(i, a), (j, b)]" and "i \<noteq> j"
  shows "(this_device E = i \<longrightarrow> GetRemote E d = Inr (Some b)) \<and>
    (this_device E = j \<longrightarrow> GetRemote E d = Inr (Some a))"
  using assms by (auto simp: GetRemote_def)

theorem GetRemote_other_witness:
  "GetRemote (byte_env True) (sample_device :: byte list p2p_device) = Inr (Some 11)"
  using GetRemote_other [of "sample_device :: byte list p2p_device" 0 "byte_env True" 0 10 1 11]
  by (simp add: sample_device_def)

lemma process_and_forward_AddPpp:
  assumes "packet_laws (pkt E)" and "PppToEther (asserts_on E) v = Inr proto"
    and "GetRemote E d = Inr (Some r)" and "m_rxCallback d = Some cb"
  shows "\<exists>d'. process_and_forward E d o1 (AddPpp (pkt E) v p) = Inr d' \<and>
    last (events d') = RxCallback cb p proto (Some r)"
  using assms(2-4)
  by (auto simp: process_and_forward_def ProcessHeader_def RemovePpp_AddPpp [OF assms(1)]
      forward_up_def Let_def split: option.splits)

text \<open>A supported protocol has one PPP number, and LZS is the only one that has LZS's.\<close>

lemma supported_number:
  assumes "supported proto"
  shows "\<exists>v. (\<forall>b. EtherToPpp b proto = Inr v) \<and> (\<forall>b. PppToEther b v = Inr proto) \<and>
    (v = 0x4021 \<longleftrightarrow> proto = 0x4021)"
proof -
  consider "proto = 0x0800" | "proto = 0x4021" | "proto = 0x86DD"
    using assms by (auto simp: supported_def)
  then show ?thesis
  proof cases
    case 1
    then show ?thesis
      by (intro exI [of _ "0x0021"]) (simp add: EtherToPpp_def PppToEther_def)
  next
    case 2
    then show ?thesis
      by (intro exI [of _ "0x4021"]) (simp add: EtherToPpp_def PppToEther_def)
  next
    case 3
    then show ?thesis
      by (intro exI [of _ "0x0057"]) (simp add: EtherToPpp_def PppToEther_def)
  qed
qed

text \<open>An idle device puts the packet it queues on the channel at once, or refuses it.\<close>

lemma queue_and_start_idle:
  assumes E: "env_laws E" and d: "machine_inv E L d" and ready: "m_txMachineState d = READY"
    and sz: "sized (pkt E) L p" and s: "queue_and_start E d p = Inr (ok, d')"
    and new: "on_channel (events d') \<noteq> on_channel (events d)"
  shows "on_channel (events d') = on_channel (events d) @ [p]"
proof -
  obtain q c where q: "m_queue d = Some q" "queue_inv (pkt E) L q" "m_packets q = []"
    and c: "m_channel d = Some c"
    using d ready by (auto simp: machine_inv_def)
  obtain acc q1 where e: "Enqueue (pkt E) (qbase E) q p = (acc, q1)" by fastforce
  have "acc" using s new q e by (cases acc) (auto simp: queue_and_start_def Let_def)
  with e have q1: "Enqueue (pkt E) (qbase E) q p = (True, q1)" by simp
  have "lawful_good (pkt E) (qbase E) L q"
    using q(2) env_lawsD(2) [OF E] by (simp add: lawful_good_def)
  then obtain q2 where "Dequeue (asserts_on E) (pkt E) q1 = Inr (Some p, q2)"
    using tx.put_get_empty [OF _ sz q(3) q1, where a = "asserts_on E"] by blast
  then have "queue_and_start E d p = TransmitStart E (emit [Sniffer p, PromiscSniffer p]
      ((emit [MacTx p] d)\<lparr>m_queue := Some q2\<rparr>)) p"
    using q q1 ready by (simp add: queue_and_start_def Let_def emit_def)
  then show ?thesis using s ready c by (simp add: TransmitStart_ready)
qed

text \<open>
  C23. Without compression a packet crosses the link unchanged: what an idle sender puts on the
  channel for a packet and a supported protocol makes the receiver hand exactly that packet up,
  with exactly that protocol.
\<close>

theorem plain_link_roundtrip:
  assumes "run_time E L" and "machine_inv E L d" and "m_linkUp d" and "m_txMachineState d = READY"
    and "\<not> compresses d proto" and "room_for_headers E L p" and "supported proto"
    and "Send E d p proto = Inr (ok, d')" and "on_channel (events d') \<noteq> on_channel (events d)"
    and "packet_laws (pkt E')" and "pkt E' = pkt E" and "GetRemote E' r = Inr (Some a)"
    and "m_rxCallback r = Some cb" and "m_receiveErrorModel r = None"
    and "\<not> (compressionEnabled r \<and> proto = 0x4021)"
  shows "\<exists>w r'. on_channel (events d') = on_channel (events d) @ [w] \<and>
    Receive E' r w = Inr r' \<and> last (events r') = RxCallback cb p proto (Some a)"
proof -
  obtain v where v: "\<And>b. EtherToPpp b proto = Inr v" "\<And>b. PppToEther b v = Inr proto"
      "v = 0x4021 \<longleftrightarrow> proto = 0x4021"
    using supported_number [OF assms(7)] by blast
  let ?w = "AddPpp (pkt E) v p"
  have E: "env_laws E" and L: "L < 2 ^ 32" using assms(1) by (simp_all add: run_time_def)
  have "queue_and_start E d ?w = Inr (ok, d')"
    using assms(3,5,8) v by (simp add: Send_plain AddHeader_def)
  moreover have "sized (pkt E) L ?w"
    using assms(6) L GetSize_AddPpp [OF env_lawsD(1) [OF E]]
    by (intro sized_headers [where k = 2]) (auto simp: room_for_headers_def)
  ultimately have w: "on_channel (events d') = on_channel (events d) @ [?w]"
    using queue_and_start_idle [OF E assms(2,4)] assms(9) by blast
  have "Receive E' r ?w = process_and_forward E' (emit [Sniffer ?w, PromiscSniffer ?w, PhyRxEnd ?w] r) ?w ?w"
    using assms(10,11,14,15) v PeekPpp_AddPpp [of "pkt E" v p]
    by (intro Receive_plain) (auto simp: error_free_def)
  moreover have "GetRemote E' (emit [Sniffer ?w, PromiscSniffer ?w, PhyRxEnd ?w] r) = Inr (Some a)"
    using assms(12) by (simp add: GetRemote_def)
  ultimately have "\<exists>r'. Receive E' r ?w = Inr r' \<and> last (events r') = RxCallback cb p proto (Some a)"
    using process_and_forward_AddPpp [of E' v proto
      "emit [Sniffer ?w, PromiscSniffer ?w, PhyRxEnd ?w] r" a cb ?w p] assms(10,11,13) v by simp
  then show ?thesis using w by blast
qed

definition other_end :: "bool \<Rightarrow> byte list env" where
  "other_end a = (byte_env a)\<lparr>this_device := 1\<rparr>"

lemma size_123: "GetSize byte_packets [1, 2, 3] = 3"
  by (simp add: byte_packets_def)

lemma plain_sent:
  "\<exists>ok d'. Send (byte_env True) sample_device [1, 2, 3] 0x0800 = Inr (ok, d') \<and>
     on_channel (events d') \<noteq> []"
  by (intro exI [of _ True]) (simp add: Send_def sample_device_def IsLinkUp_def AddHeader_def EtherToPpp_def
      queue_and_start_def TransmitStart_def byte_env_def Enqueue_def DoEnqueue_def Tail_def
      Dequeue_def DoDequeue_def Head_def take_out_def queue_size_plus_def plain_queue_base_def
      DropTailQueue_def byte_packets_def fire_def emit_def on_channel_def Let_def)

theorem plain_link_roundtrip_witness:
  "\<exists>ok d' w r'. Send (byte_env True) sample_device [1, 2, 3] 0x0800 = Inr (ok, d') \<and>
     on_channel (events d') = [w] \<and> Receive (other_end True) sample_device w = Inr r' \<and>
     last (events r') = RxCallback 7 [1, 2, 3] 0x0800 (Some 10)"
proof -
  have h: "events sample_device = []" by (simp add: sample_device_def)
  obtain ok d' where s: "Send (byte_env True) sample_device [1, 2, 3] 0x0800 = Inr (ok, d')"
    and o: "on_channel (events d') \<noteq> []"
    using plain_sent by blast
  have "\<exists>w r'. on_channel (events d') = on_channel (events sample_device) @ [w] \<and>
      Receive (other_end True) sample_device w = Inr r' \<and>
      last (events r') = RxCallback 7 [1, 2, 3] 0x0800 (Some 10)"
    by (rule plain_link_roundtrip [OF sample_run_time [of True] installed_inv [OF sample_installed]
          _ _ _ _ _ s])
      (use o byte_packets_laws in \<open>simp_all add: h other_end_def sample_device_def compresses_def
        supported_def room_for_headers_def GetRemote_def size_123\<close>)
  then show ?thesis using s by (simp add: h)
qed

section \<open>A compressed packet across the link\<close>

text \<open>
  The stream \<open>Send\<close> makes of a packet, in a buffer of the packet's size plus 8, and the condition
  under which \<open>Receive\<close> gives all of it to the decoder: the sum of its length and of the position
  of its first zero byte is within the buffer.
\<close>

definition lzs_buffer :: "'p env \<Rightarrow> 'p \<Rightarrow> byte list" where
  "lzs_buffer E p = (let n = GetSize (pkt E) p + 8 in
     overwrite (deflate_finish (zlib E) (c_string (CopyData (pkt E) p n)) (unat n)) (new_bytes E 2 n))"

definition stream_fits :: "'p env \<Rightarrow> 'p \<Rightarrow> bool" where
  "stream_fits E p \<longleftrightarrow> (let n = GetSize (pkt E) p + 8; xs = c_string (CopyData (pkt E) p n) in
     deflate_done (zlib E) xs (unat n) \<and>
     (case c_strlen (lzs_buffer E p) of Inl _ \<Rightarrow> False
      | Inr k \<Rightarrow> length (deflate_finish (zlib E) xs (unat n)) + k \<le> unat n))"

lemma length_lzs_buffer:
  assumes "env_laws E" and "zlib_bounded (zlib E)"
  shows "length (lzs_buffer E p) = unat (GetSize (pkt E) p + 8)"
  using deflate_length [OF assms(2)] env_lawsD(3) [OF assms(1)]
  by (simp add: lzs_buffer_def Let_def)

lemma decompressed_lzs:
  assumes E: "env_laws E" "env_laws E'" and Z: "zlib_bounded (zlib E)" "zlib_lossless (zlib E)"
    and same: "pkt E' = pkt E" "zlib E' = zlib E" and opt: "\<not> asserts_on E'"
    and fits: "stream_fits E p" and z: "0 \<in> set (CopyData (pkt E) p (GetSize (pkt E) p + 8))"
  shows "decompressed_packet E' (AddPpp (pkt E) 0x4021 (CreatePacket (pkt E) (lzs_buffer E p))) =
    Inr (AddPpp (pkt E) 0 (CreatePacket (pkt E) (overwrite
      (c_string (CopyData (pkt E) p (GetSize (pkt E) p + 8))) (new_bytes E' 4 (GetSize (pkt E) p + 8)))))"
proof -
  let ?n = "GetSize (pkt E) p + 8" and ?b = "lzs_buffer E p"
  let ?xs = "c_string (CopyData (pkt E) p ?n)"
  have P: "packet_laws (pkt E)" using E(1) by (rule env_lawsD)
  have l: "length ?b = unat ?n" using length_lzs_buffer [OF E(1) Z(1)] .
  then have small: "length ?b < 2 ^ 32" using unat_less32 [of ?n] by simp
  have size: "GetSize (pkt E) (CreatePacket (pkt E) ?b) = ?n"
    using GetSize_Create [OF P small] l by simp
  have copy: "overwrite (CopyData (pkt E) (CreatePacket (pkt E) ?b) ?n) (new_bytes E' 3 ?n) = ?b"
    using CopyData_Create [OF P small] l env_lawsD(3) [OF E(2)] by (simp add: overwrite_def)
  obtain k where k: "c_strlen ?b = Inr k" "deflate_done (zlib E) ?xs (unat ?n)"
    "length (deflate_finish (zlib E) ?xs (unat ?n)) \<le> unat ?n - k"
    using fits by (auto simp: stream_fits_def Let_def split: sum.splits)
  have "length (CopyData (pkt E) p ?n) \<le> unat ?n" using length_CopyData [OF P] by simp
  then have "length ?xs \<le> unat ?n" using length_c_string_le [OF z] by (rule order_trans [rotated])
  moreover have "?b = overwrite (deflate_finish (zlib E) ?xs (unat ?n)) (new_bytes E 2 ?n)"
    by (simp only: lzs_buffer_def Let_def)
  ultimately have d: "Decompress (zlib E) ?b (new_bytes E' 4 ?n) ?n =
      Inr (overwrite ?xs (new_bytes E' 4 ?n))"
    using env_lawsD(3) [OF E(1)] k by (intro Decompress_stream [OF Z]) simp_all
  have "decompressed_packet E' (AddPpp (pkt E) 0x4021 (CreatePacket (pkt E) ?b)) =
      bind_res (Decompress (zlib E) ?b (new_bytes E' 4 ?n) ?n)
        (\<lambda>newBuffer'. AddHeader E' (CreatePacket (pkt E) newBuffer') 0x0021)"
    unfolding decompressed_packet_def same RemovePpp_AddPpp [OF P] Let_def prod.case size copy ..
  then show ?thesis using d opt same(1) by (simp add: AddHeader_def EtherToPpp_def)
qed

text \<open>
  C5. LZS across the link: when the stream fits, the optimised receiver hands up the packet's bytes
  up to and including its first zero, followed by the previous content of the receive buffer, in a
  packet 8 bytes longer than the one that was sent, with protocol 0.
\<close>

theorem lzs_link:
  assumes "run_time E L" and "env_laws E'" and "zlib_lossless (zlib E)"
    and "pkt E' = pkt E" and "zlib E' = zlib E" and "\<not> asserts_on E'"
    and "machine_inv E L d" and "m_linkUp d" and "m_txMachineState d = READY"
    and "compresses d proto" and "room_for_headers E L p" and "stream_fits E p"
    and "0 \<in> set (CopyData (pkt E) p (GetSize (pkt E) p + 8))"
    and "Send E d p proto = Inr (ok, d')" and "on_channel (events d') \<noteq> on_channel (events d)"
    and "compressionEnabled r" and "m_receiveErrorModel r = None"
    and "GetRemote E' r = Inr (Some a)" and "m_rxCallback r = Some cb"
  shows "\<exists>w r'. on_channel (events d') = on_channel (events d) @ [w] \<and> Receive E' r w = Inr r' \<and>
    last (events r') = RxCallback cb (CreatePacket (pkt E) (overwrite
      (c_string (CopyData (pkt E) p (GetSize (pkt E) p + 8)))
      (new_bytes E' 4 (GetSize (pkt E) p + 8)))) 0 (Some a)"
proof -
  have E: "env_laws E" "zlib_bounded (zlib E)" and L: "L < 2 ^ 32"
    using assms(1) by (simp_all add: run_time_def)
  have P: "packet_laws (pkt E)" using E(1) by (rule env_lawsD)
  let ?p1 = "CreatePacket (pkt E) (lzs_buffer E p)"
  let ?w = "AddPpp (pkt E) 0x4021 ?p1"
  let ?r1 = "emit [Sniffer ?w, PromiscSniffer ?w, PhyRxEnd ?w] r"
  have c: "compressed_packet E p = Inr ?p1"
    using compressed_packet_eq [OF E(1) assms(13)] by (simp add: lzs_buffer_def Let_def)
  then have "queue_and_start E d ?w = Inr (ok, d')"
    using assms(8,10,14) by (simp add: Send_compressing AddHeader_def)
  moreover have "sized (pkt E) L ?w"
    using assms(11) L GetSize_AddPpp [OF P] compressed_packet_size [OF E c]
    by (intro sized_headers [where k = 10 and p = p]) (auto simp: room_for_headers_def)
  ultimately have w: "on_channel (events d') = on_channel (events d) @ [?w]"
    using queue_and_start_idle [OF E(1) assms(7,9)] assms(15) by blast
  have "Receive E' r ?w = bind_res (decompressed_packet E' ?w) (process_and_forward E' ?r1 ?w)"
    using assms(4,16,17) PeekPpp_AddPpp [OF P] by (intro Receive_LZS) (simp_all add: error_free_def)
  moreover have "GetRemote E' ?r1 = Inr (Some a)" using assms(18) by (simp add: GetRemote_def)
  moreover have "PppToEther (asserts_on E') 0 = Inr 0" using assms(6) by (simp add: PppToEther_def)
  ultimately show ?thesis
    using w process_and_forward_AddPpp [of E' 0 0 ?r1 a cb ?w] assms(2,4,6,19)
      decompressed_lzs [OF E(1) assms(2) E(2) assms(3-6,12,13)] P by simp
qed

text \<open>A packet of five bytes: the three behind the zero reach the other side as the buffer's zeros.\<close>

lemma lzs_sample:
  "GetSize byte_packets [65, 66, 0, 9, 9] = 5" "CopyData byte_packets [65, 66, 0, 9, 9] 13 = [65, 66, 0, 9, 9]"
  "c_string [65, 66, 0, 9, 9] = [65, 66, 0]"
  by (simp_all add: byte_packets_def c_string_def)

lemma lzs_sample_fits: "stream_fits (byte_env True) [65, 66, 0, 9, 9]"
  by (simp add: stream_fits_def lzs_buffer_def lzs_sample byte_env_def marked_codec_def
      marked_encode_def overwrite_def c_strlen_def Let_def)

lemma lzs_sent:
  "\<exists>ok d'. Send (byte_env True) compressing_device [65, 66, 0, 9, 9] 0x0800 = Inr (ok, d') \<and>
     on_channel (events d') \<noteq> []"
  by (intro exI [of _ True]) (simp add: Send_def compressing_device_def sample_device_def IsLinkUp_def
      compressed_packet_def Compress_def c_strlen_def overwrite_def AddHeader_def EtherToPpp_def
      queue_and_start_def TransmitStart_def byte_env_def Enqueue_def DoEnqueue_def Tail_def
      Dequeue_def DoDequeue_def Head_def take_out_def queue_size_plus_def plain_queue_base_def
      DropTailQueue_def byte_packets_def marked_codec_def marked_encode_def fire_def emit_def
      on_channel_def Let_def)

theorem lzs_link_witness:
  "\<exists>ok d' w r'. Send (byte_env True) compressing_device [65, 66, 0, 9, 9] 0x0800 = Inr (ok, d') \<and>
     on_channel (events d') = [w] \<and> Receive (other_end False) compressing_device w = Inr r' \<and>
     last (events r') = RxCallback 7 [65, 66, 0, 0, 0, 0, 0, 0, 0, 0, 0, 0, 0] 0 (Some 10)"
proof -
  have h: "events compressing_device = []" by (simp add: compressing_device_def sample_device_def)
  have laws: "env_laws (other_end False)"
    using byte_env_laws [of False] by (simp add: env_laws_def other_end_def byte_env_def)
  have same: "zlib (other_end False) = zlib (byte_env True)" "new_bytes (other_end False) 4 13 = replicate 13 0"
    by (simp_all add: other_end_def byte_env_def)
  obtain ok d' where s: "Send (byte_env True) compressing_device [65, 66, 0, 9, 9] 0x0800 = Inr (ok, d')"
    and o: "on_channel (events d') \<noteq> []"
    using lzs_sent by blast
  have "\<exists>w r'. on_channel (events d') = on_channel (events compressing_device) @ [w] \<and>
      Receive (other_end False) compressing_device w = Inr r' \<and>
      last (events r') = RxCallback 7 (CreatePacket (pkt (byte_env True)) (overwrite
        (c_string (CopyData (pkt (byte_env True)) [65, 66, 0, 9, 9]
          (GetSize (pkt (byte_env True)) [65, 66, 0, 9, 9] + 8)))
        (new_bytes (other_end False) 4 (GetSize (pkt (byte_env True)) [65, 66, 0, 9, 9] + 8)))) 0 (Some 10)"
    by (rule lzs_link [OF sample_run_time [of True] laws byte_env_zlib(2) _ same(1) _
          compressing_inv [of True] compressing_device_compresses(1) _
          compressing_device_compresses(2) _ lzs_sample_fits _ s])
      (use o in \<open>simp_all add: h other_end_def compressing_device_def sample_device_def
        room_for_headers_def GetRemote_def lzs_sample\<close>)
  then show ?thesis
    using s same(2)
    by (simp add: h lzs_sample overwrite_def) (simp add: byte_packets_def eval_nat_numeral)
qed

end
