(* ===== verification/Device_Safety.thy ===== *)
theory Device_Safety
  imports Link
begin

text \<open>
  What holds of a device in every state it can reach after installation, under any history of
  sends, completions, receptions and settings: no packet is lost, duplicated or reordered behind
  the queue, the transmitter and its completion event agree, nothing stops the program, and the
  queue drains.
\<close>

section \<open>A serial line as the specification\<close>

text \<open>
  The abstract transmitter: a serial line with a waiting room. It keeps the settings that matter to
  it, what it has put on the channel and for how long, what it has finished, the packet on the
  wire and the packets that wait.
\<close>

record 'p line =
  up :: bool
  squeezing :: bool
  squeezed_protocol :: u16
  line_rate :: u64
  room :: queue_size
  machine :: TxMachineState
  transmitted :: "('p \<times> int) list"
  finished :: "'p list"
  on_wire :: "'p option"
  waiting :: "'p list"

text \<open>What \<open>Send\<close> owes the wire for a packet: it with a PPP header, compressed or not.\<close>

definition wire_packet :: "'p env \<Rightarrow> bool \<Rightarrow> 'p \<Rightarrow> u16 \<Rightarrow> 'p res" where
  "wire_packet E squeeze p proto =
     (if squeeze then bind_res (compressed_packet E p) (\<lambda>p1. Inr (AddPpp (pkt E) 0x4021 p1))
      else AddHeader E p proto)"

definition line_start :: "'p env \<Rightarrow> 'p \<Rightarrow> 'p line \<Rightarrow> 'p line" where
  "line_start E w l = l\<lparr>machine := BUSY, on_wire := Some w,
     transmitted := transmitted l @ [(w, bytes_tx_time E (line_rate l) (GetSize (pkt E) w))]\<rparr>"

text \<open>
  A packet that there is room for starts on an idle line, which answers what the channel answers,
  and waits behind all others on a busy one; without room the line refuses it and stays as it is.
\<close>

definition line_offer :: "'p env \<Rightarrow> nat \<Rightarrow> 'p \<Rightarrow> 'p line \<Rightarrow> bool \<times> 'p line" where
  "line_offer E L w l =
     (if \<not> within_limit (pkt E) L (room l) (waiting l @ [w]) then (False, l)
      else case machine l of
        BUSY \<Rightarrow> (True, l\<lparr>waiting := waiting l @ [w]\<rparr>)
      | READY \<Rightarrow> (channel_transmit E w (bytes_tx_time E (line_rate l) (GetSize (pkt E) w)),
          line_start E w l))"

text \<open>
  What happens to a device, with the answer of \<open>Send\<close>, and how the line reacts: a completion
  finishes the packet on the wire and starts the one that has waited longest; receptions are
  nothing to it.
\<close>

datatype 'p occurrence = Sent 'p u16 bool | Completed | Received 'p | Changed "'p setting"

fun line_react :: "'p env \<Rightarrow> nat \<Rightarrow> 'p line \<Rightarrow> 'p occurrence \<Rightarrow> 'p line option" where
  "line_react E L l (Sent p proto ok) =
     (if \<not> up l then (if ok then None else Some l)
      else case wire_packet E (squeezing l \<and> proto = squeezed_protocol l) p proto of
        Inl e \<Rightarrow> None
      | Inr w \<Rightarrow> (case line_offer E L w l of (ok', l') \<Rightarrow> if ok = ok' then Some l' else None))"
| "line_react E L l Completed =
     (case on_wire l of
        None \<Rightarrow> None
      | Some p \<Rightarrow>
          let l1 = l\<lparr>machine := READY, finished := finished l @ [p], on_wire := None\<rparr>
          in Some (case waiting l of [] \<Rightarrow> l1 | w # ws \<Rightarrow> line_start E w (l1\<lparr>waiting := ws\<rparr>)))"
| "line_react E L l (Received p) = Some l"
| "line_react E L l (Changed s) =
     Some (case s of CompressionSetting b \<Rightarrow> l\<lparr>squeezing := b\<rparr> | DataRateSetting r \<Rightarrow> l\<lparr>line_rate := r\<rparr> | _ \<Rightarrow> l)"

text \<open>The steps of a device with what happened in them, and the line a device is.\<close>

inductive device_act :: "'p env \<Rightarrow> nat \<Rightarrow> 'p p2p_device \<Rightarrow> 'p occurrence \<Rightarrow> 'p p2p_device \<Rightarrow> bool"
  for E :: "'p env" and L :: nat where
  act_send: "room_for_headers E L p \<Longrightarrow> Send E d p proto = Inr (ok, d') \<Longrightarrow>
    device_act E L d (Sent p proto ok) d'"
| act_complete: "ended (events d) < scheduled (events d) \<Longrightarrow> TransmitComplete E d = Inr d' \<Longrightarrow>
    device_act E L d Completed d'"
| act_receive: "Receive E d p = Inr d' \<Longrightarrow> device_act E L d (Received p) d'"
| act_setting: "device_act E L d (Changed s) (apply_setting s d)"

inductive_cases device_actE: "device_act E L d a d'"

lemma device_act_step: "device_act E L d a d' \<Longrightarrow> device_step E L d d'"
  by (auto elim: device_actE intro: device_step.intros)

lemma device_step_act: "device_step E L d d' \<Longrightarrow> \<exists>a. device_act E L d a d'"
  by (auto elim!: device_step.cases intro: device_act.intros)

definition channel_log :: "'p device_event list \<Rightarrow> ('p \<times> int) list" where
  "channel_log es = concat (map (\<lambda>e. case e of ChannelTransmitStart p t \<Rightarrow> [(p, t)] | _ \<Rightarrow> []) es)"

lemma channel_log_simps [simp]:
  "channel_log [] = []" "channel_log (xs @ ys) = channel_log xs @ channel_log ys"
  "channel_log (ChannelTransmitStart p t # es) = (p, t) # channel_log es"
  "channel_log (ScheduleTransmitComplete t # es) = channel_log es"
  "channel_log (PhyTxEnd r # es) = channel_log es"
  by (simp_all add: channel_log_def)

lemma channel_log_quiet [simp]: "quiet e \<Longrightarrow> channel_log (e # es) = channel_log es"
  by (cases e) (auto simp: channel_log_def quiet_def)

lemma channel_log_quiets: "\<forall>e \<in> set es. quiet e \<Longrightarrow> channel_log es = []"
  by (induction es) auto

lemma channel_log_packets: "map fst (channel_log es) = on_channel es"
proof (induction es)
  case (Cons e es)
  then show ?case by (cases e) (auto simp: channel_log_def on_channel_def)
qed simp

lemma channel_log_start [simp]: "channel_log (start_events E d p) = [(p, tx_time E d p)]"
  by (simp add: start_events_def)

lemma m_protocol_emit [simp]: "m_protocol (emit es d) = m_protocol d"
  by (simp add: emit_def)

definition line_of :: "'p p2p_device \<Rightarrow> 'p line" where
  "line_of d = \<lparr>up = m_linkUp d, squeezing = compressionEnabled d, squeezed_protocol = m_protocol d,
     line_rate = m_bps d, room = m_maxSize (the (m_queue d)), machine = m_txMachineState d,
     transmitted = channel_log (events d), finished = completed (events d),
     on_wire = m_currentPkt d, waiting = m_packets (the (m_queue d))\<rparr>"

lemma line_of_fields [simp]:
  "up (line_of d) = m_linkUp d" "squeezing (line_of d) = compressionEnabled d"
  "squeezed_protocol (line_of d) = m_protocol d" "line_rate (line_of d) = m_bps d"
  "room (line_of d) = m_maxSize (the (m_queue d))" "machine (line_of d) = m_txMachineState d"
  "transmitted (line_of d) = channel_log (events d)" "finished (line_of d) = completed (events d)"
  "on_wire (line_of d) = m_currentPkt d" "waiting (line_of d) = m_packets (the (m_queue d))"
  by (simp_all add: line_of_def)

lemma line_of_quiet [simp]: "\<forall>e \<in> set es. quiet e \<Longrightarrow> line_of (emit es d) = line_of d"
  using quiet_history [of es] channel_log_quiets [of es] by (simp add: line_of_def emit_def)

text \<open>Starting the head of the queue, in the device and on the line.\<close>

lemma TransmitStart_line:
  assumes "m_txMachineState d = READY" and "m_channel d = Some c" and "TransmitStart E d p = Inr (ok, d')"
  shows "ok = channel_transmit E p (tx_time E d p) \<and> line_of d' = line_start E p (line_of d)"
  using assms by (auto simp: TransmitStart_ready line_of_def line_start_def)

lemma queue_and_start_line:
  assumes E: "env_laws E" and d: "machine_inv E L d" and p: "sized (pkt E) L p"
    and s: "queue_and_start E d p = Inr (ok, d')"
  shows "line_offer E L p (line_of d) = (ok, line_of d')"
proof -
  obtain q c where q: "m_queue d = Some q" "queue_inv (pkt E) L q" and c: "m_channel d = Some c"
    using d by (auto simp: machine_inv_def)
  obtain acc q1 where e: "Enqueue (pkt E) (qbase E) q p = (acc, q1)" by fastforce
  have w: "acc \<longleftrightarrow> within_limit (pkt E) L (m_maxSize q) (m_packets q @ [p])"
    using Enqueue_accepts [OF env_lawsD(2) [OF E] q(2) p] e by simp
  have k: "m_maxSize q1 = m_maxSize q" "m_packets q1 = (if acc then m_packets q @ [p] else m_packets q)"
    using Enqueue_fields e by (cases acc; fastforce)+
  consider "\<not> acc" | "acc" "m_txMachineState d = BUSY" | "acc" "m_txMachineState d = READY"
    by (cases "m_txMachineState d") auto
  then show ?thesis
  proof cases
    case 1
    then show ?thesis
      using s q e k w by (auto simp: queue_and_start_def Let_def line_of_def line_offer_def emit_def
          quiet_history [of "[MacTx p, MacTxDrop p]"])
  next
    case 2
    then show ?thesis
      using s q e k w by (auto simp: queue_and_start_def Let_def line_of_def line_offer_def emit_def)
  next
    case 3
    then have m: "m_packets q = []" using d q by (auto simp: machine_inv_def)
    have q1: "queue_inv (pkt E) L q1" using Enqueue_inv [OF env_lawsD(2) [OF E] q(2) p e] .
    obtain q2 where q2: "Dequeue (asserts_on E) (pkt E) q1 = Inr (Some p, q2)" "m_packets q2 = []"
      "m_maxSize q2 = m_maxSize q"
      using Dequeue_head [OF q1, of p "[]"] k 3(1) m by auto
    let ?d = "emit [Sniffer p, PromiscSniffer p] ((emit [MacTx p] d)\<lparr>m_queue := Some q2\<rparr>)"
    have "TransmitStart E ?d p = Inr (ok, d')"
      using q e 3 q2 s by (simp add: queue_and_start_def Let_def emit_def)
    then have "ok = channel_transmit E p (tx_time E ?d p) \<and> line_of d' = line_start E p (line_of ?d)"
      using 3 c by (intro TransmitStart_line) auto
    moreover have "line_of ?d = line_of d"
      using q q2 m by (simp add: line_of_def emit_def)
    ultimately show ?thesis
      using 3 w q by (simp add: line_offer_def)
  qed
qed

lemma complete_line:
  assumes d: "machine_inv E L d" and b: "m_txMachineState d = BUSY"
    and t: "TransmitComplete E d = Inr d'"
  shows "line_react E L (line_of d) Completed = Some (line_of d')"
proof -
  obtain q cur c where q: "m_queue d = Some q" "queue_inv (pkt E) L q"
    and cur: "m_currentPkt d = Some cur" and c: "m_channel d = Some c"
    using d b by (auto simp: machine_inv_def)
  let ?d1 = "(emit [PhyTxEnd (Some cur)] (d\<lparr>m_txMachineState := READY\<rparr>))\<lparr>m_currentPkt := None\<rparr>"
  show ?thesis
  proof (cases "m_packets q")
    case Nil
    then have "d' = ?d1\<lparr>m_queue := Some q\<rparr>"
      using t b cur q by (simp add: TransmitComplete_def Dequeue_empty [OF q(2)] Let_def emit_def)
    then show ?thesis using q cur Nil by (simp add: line_of_def)
  next
    case (Cons p ps)
    then obtain q1 where q1: "Dequeue (asserts_on E) (pkt E) q = Inr (Some p, q1)"
      "m_packets q1 = ps" "m_maxSize q1 = m_maxSize q"
      using Dequeue_head [OF q(2)] by blast
    let ?d2 = "emit [Sniffer p, PromiscSniffer p] (?d1\<lparr>m_queue := Some q1\<rparr>)"
    obtain ok where "TransmitStart E ?d2 p = Inr (ok, d')"
      using t b cur q q1 by (auto simp: TransmitComplete_def Let_def emit_def bind_res_eq_Inr)
    then have "line_of d' = line_start E p (line_of ?d2)"
      using c TransmitStart_line [of ?d2 c E p ok d'] by simp
    then show ?thesis
      using q cur q1 Cons by (simp add: line_of_def line_start_def emit_def)
  qed
qed

text \<open>\<open>Send\<close> on a link that is up: make the packet for the wire, then queue and start.\<close>

lemma Send_wire:
  assumes "m_linkUp d"
  shows "Send E d p proto = bind_res (wire_packet E (compresses d proto) p proto) (queue_and_start E d)"
  using assms
  by (cases "compresses d proto")
    (simp_all add: Send_plain Send_compressing wire_packet_def AddHeader_def bind_res_assoc)

lemma wire_packet_sized:
  assumes E: "env_laws E" and Z: "zlib_bounded (zlib E)" and L: "L < 2 ^ 32"
    and p: "room_for_headers E L p" and w: "wire_packet E squeeze p proto = Inr w"
  shows "sized (pkt E) L w"
proof (cases squeeze)
  case False
  then obtain v where "w = AddPpp (pkt E) v p"
    using w by (auto simp: wire_packet_def AddHeader_def bind_res_eq_Inr)
  then show ?thesis
    using p L GetSize_AddPpp [OF env_lawsD(1) [OF E]]
      sized_headers [where P = "pkt E" and k = 2 and p = p and p' = "AddPpp (pkt E) v p"]
    by (auto simp: room_for_headers_def)
next
  case True
  then obtain p1 where "compressed_packet E p = Inr p1" "w = AddPpp (pkt E) 0x4021 p1"
    using w by (auto simp: wire_packet_def bind_res_eq_Inr)
  then show ?thesis
    using p L GetSize_AddPpp [OF env_lawsD(1) [OF E]] compressed_packet_size [OF E Z]
      sized_headers [where P = "pkt E" and k = 10 and p = p and p' = "AddPpp (pkt E) 0x4021 p1"]
    by (auto simp: room_for_headers_def)
qed

lemma Send_line:
  assumes R: "run_time E L" and d: "machine_inv E L d" and p: "room_for_headers E L p"
    and s: "Send E d p proto = Inr (ok, d')"
  shows "line_react E L (line_of d) (Sent p proto ok) = Some (line_of d')"
proof (cases "m_linkUp d")
  case False
  then show ?thesis using s by (auto simp: Send_link_down)
next
  case True
  have E: "env_laws E" "zlib_bounded (zlib E)" "L < 2 ^ 32" using R by (simp_all add: run_time_def)
  obtain w where w: "wire_packet E (compresses d proto) p proto = Inr w" "queue_and_start E d w = Inr (ok, d')"
    using s by (auto simp: Send_wire [OF True] bind_res_eq_Inr)
  have "line_offer E L w (line_of d) = (ok, line_of d')"
    using queue_and_start_line [OF E(1) d wire_packet_sized [OF E p w(1)] w(2)] .
  then show ?thesis using True w(1) by (simp add: compresses_def)
qed

text \<open>Receiving only makes events, none of which concerns the transmitter.\<close>

lemma forward_up_emits:
  assumes "forward_up E d o1 p proto r = Inr d'"
  shows "\<exists>es. (\<forall>e \<in> set es. quiet e) \<and> d' = emit es d"
proof -
  let ?es = "\<lambda>cb. (case m_promiscCallback d of None \<Rightarrow> []
      | Some pcb \<Rightarrow> [MacPromiscRx o1, PromiscCallback pcb p proto r (GetAddress d)]) @
    [MacRx o1, RxCallback cb p proto r]"
  obtain cb where "d' = emit (?es cb) d"
    using assms by (auto simp: forward_up_def emit_def Let_def bind_res_eq_Inr split: option.splits)
  then show ?thesis by (intro exI [of _ "?es cb"]) (auto split: option.splits)
qed

lemma process_and_forward_emits:
  "process_and_forward E d o1 p = Inr d' \<Longrightarrow> \<exists>es. (\<forall>e \<in> set es. quiet e) \<and> d' = emit es d"
  by (auto simp: process_and_forward_def bind_res_eq_Inr dest: forward_up_emits)

lemma Receive_emits:
  assumes "Receive E d p = Inr d'"
  shows "\<exists>es. (\<forall>e \<in> set es. quiet e) \<and> d' = emit es d"
proof (cases "error_free d p")
  case False
  then show ?thesis using assms by (intro exI [of _ "[PhyRxDrop p]"]) (simp add: Receive_corrupt)
next
  case True
  let ?es = "[Sniffer p, PromiscSniffer p, PhyRxEnd p]"
  obtain p1 where "process_and_forward E (emit ?es d) p p1 = Inr d'"
    using assms Receive_LZS [OF True, of E] Receive_plain [OF True, of E]
    by (cases "compressionEnabled d \<and> PeekPpp (pkt E) p = 0x4021") (auto simp: bind_res_eq_Inr)
  then obtain es where "\<forall>e \<in> set es. quiet e" "d' = emit es (emit ?es d)"
    by (blast dest: process_and_forward_emits)
  then show ?thesis by (intro exI [of _ "?es @ es"]) (auto simp: emit_def)
qed

lemma setting_line: "line_react E L (line_of d) (Changed s) = Some (line_of (apply_setting s d))"
  by (cases s) (auto simp: line_of_def SetDataRate_def SetInterframeGap_def
    SetReceiveErrorModel_def SetIfIndex_def SetAddress_def AddLinkChangeCallback_def SetNode_def
    SetReceiveCallback_def SetPromiscReceiveCallback_def SetMtu_def NotifyNewAggregate_def)

lemma Receive_line: "Receive E d p = Inr d' \<Longrightarrow> line_of d' = line_of d"
  using Receive_emits by fastforce

lemma device_act_line:
  assumes "run_time E L" and "machine_inv E L d" and "device_act E L d a d'"
  shows "line_react E L (line_of d) a = Some (line_of d')"
  using assms(3)
proof (cases rule: device_act.cases)
  case (act_send p proto ok)
  then show ?thesis using Send_line [OF assms(1,2)] by blast
next
  case act_complete
  then show ?thesis using complete_line [OF assms(2)] pending_busy [OF assms(2)] by blast
next
  case (act_receive p)
  then show ?thesis by (simp add: Receive_line)
next
  case (act_setting s)
  then show ?thesis by (simp only: setting_line)
qed

interpretation line: trace_refinement
    "device_act E L" "\<lambda>d. run_time E L \<and> machine_inv E L d" line_of "line_react E L"
  for E :: "'p env" and L
  by unfold_locales (auto intro: device_act_line device_step_inv device_act_step)

text \<open>A line that nothing has happened to.\<close>

definition fresh_line :: "bool \<Rightarrow> bool \<Rightarrow> u16 \<Rightarrow> u64 \<Rightarrow> queue_size \<Rightarrow> 'p line" where
  "fresh_line linkUp compression protocol bps mx = \<lparr>up = linkUp, squeezing = compression,
     squeezed_protocol = protocol, line_rate = bps, room = mx, machine = READY, transmitted = [],
     finished = [], on_wire = None, waiting = []\<rparr>"

lemma installed_line:
  assumes "installed L d" and "m_queue d = Some (DropTailQueue mx)"
  shows "line_of d = fresh_line (m_linkUp d) (compressionEnabled d) (m_protocol d) (m_bps d) mx"
  using assms quiet_history [of "events d"] channel_log_quiets [of "events d"]
  by (auto simp: installed_def line_of_def fresh_line_def DropTailQueue_def)

section \<open>Properties of every reachable device\<close>

text \<open>
  C1. The device refines the serial line, history by history: whatever sends (of packets that leave room
  for the headers below the size bound), completions,
  receptions and settings have happened to an installed device, and whatever \<open>Send\<close> has answered
  to each packet, the line reacts to the same sequence, gives the same answers, and ends with the
  same packets, in the same order, finished, on the wire and waiting, with the same packets and
  transmission times given to the channel, and in the same machine state.
\<close>

theorem device_refines_line:
  assumes "run_time E L" and "installed L d0" and "m_queue d0 = Some (DropTailQueue mx)"
    and "runs (device_act E L) d0 history d"
  shows "reacts (line_react E L)
      (fresh_line (m_linkUp d0) (compressionEnabled d0) (m_protocol d0) (m_bps d0) mx) history =
    Some (line_of d)"
  using line.runs_react [OF assms(4)] installed_inv [OF assms(2)] assms(1)
  unfolding installed_line [OF assms(2,3)] by blast

text \<open>A history for the witnesses: an installed device is sent one packet.\<close>

lemma sample_reachable: "reachable_device E 2000 sample_device"
  by (simp add: reachable_device_def reaches_init sample_installed)

lemma sample_sent:
  "\<exists>d. Send (byte_env True) sample_device [1, 2, 3] 0x0800 = Inr (True, d) \<and>
     reachable_device (byte_env True) 2000 d \<and> on_channel (events d) = [[0, 0x21, 1, 2, 3]] \<and>
     m_txMachineState d = BUSY \<and> m_linkUp d \<and> m_currentPkt d = Some [0, 0x21, 1, 2, 3]"
proof -
  have "\<exists>d. Send (byte_env True) sample_device [1, 2, 3] 0x0800 = Inr (True, d) \<and>
      on_channel (events d) = [[0, 0x21, 1, 2, 3]] \<and>
      m_txMachineState d = BUSY \<and> m_linkUp d \<and> m_currentPkt d = Some [0, 0x21, 1, 2, 3]"
    by (simp add: Send_def sample_device_def IsLinkUp_def AddHeader_def EtherToPpp_def
        queue_and_start_def TransmitStart_def byte_env_def Enqueue_def DoEnqueue_def Tail_def
        Dequeue_def DoDequeue_def Head_def take_out_def queue_size_plus_def plain_queue_base_def
        DropTailQueue_def byte_packets_def fire_def emit_def on_channel_def Let_def)
  moreover have "room_for_headers (byte_env True) 2000 [1, 2, 3]"
    by (simp add: room_for_headers_def size_123)
  ultimately show ?thesis
    using sample_reachable [of "byte_env True"] device_step.send reaches_step
    by (metis reachable_device_def)
qed

lemma sample_send_keeps:
  "Send (byte_env True) sample_device [1, 2, 3] 0x0800 = Inr (True, d) \<Longrightarrow>
     compressionEnabled d = False \<and> (\<exists>q. m_queue d = Some q \<and> m_packets q = [])"
  by (auto simp: Send_def sample_device_def IsLinkUp_def AddHeader_def EtherToPpp_def
      queue_and_start_def TransmitStart_def byte_env_def Enqueue_def DoEnqueue_def Tail_def
      Dequeue_def DoDequeue_def Head_def take_out_def queue_size_plus_def plain_queue_base_def
      DropTailQueue_def byte_packets_def fire_def emit_def Let_def)

theorem device_refines_line_witness:
  "\<exists>d. Send (byte_env True) sample_device [1, 2, 3] 0x0800 = Inr (True, d) \<and>
     reacts (line_react (byte_env True) 2000)
       (fresh_line True False 0x0800 32768 \<lparr>qs_unit = PACKETS, qs_value = 100\<rparr>)
       [Sent [1, 2, 3] 0x0800 True] = Some (line_of d)"
proof -
  obtain d where d: "Send (byte_env True) sample_device [1, 2, 3] 0x0800 = Inr (True, d)"
    using sample_sent by blast
  have "device_act (byte_env True) 2000 sample_device (Sent [1, 2, 3] 0x0800 True) d"
    using d by (intro act_send) (simp_all add: room_for_headers_def size_123)
  then have "runs (device_act (byte_env True) 2000) sample_device ([] @ [Sent [1, 2, 3] 0x0800 True]) d"
    by (rule runs_snoc [OF runs_Nil])
  then have r: "runs (device_act (byte_env True) 2000) sample_device [Sent [1, 2, 3] 0x0800 True] d" by simp
  have q: "m_queue (sample_device :: byte list p2p_device) =
      Some (DropTailQueue \<lparr>qs_unit = PACKETS, qs_value = 100\<rparr>)"
    and f: "m_linkUp (sample_device :: byte list p2p_device) = True" "m_bps (sample_device :: byte list p2p_device) = 32768"
      "compressionEnabled (sample_device :: byte list p2p_device) = False"
      "m_protocol (sample_device :: byte list p2p_device) = 0x0800"
    by (simp_all add: sample_device_def)
  have "reacts (line_react (byte_env True) 2000)
       (fresh_line True False 0x0800 32768 \<lparr>qs_unit = PACKETS, qs_value = 100\<rparr>)
       [Sent [1, 2, 3] 0x0800 True] = Some (line_of d)"
    using device_refines_line [OF sample_run_time [of True] sample_installed q r] by (simp only: f)
  with d show ?thesis by blast
qed

text \<open>
  C2. Conservation and order: what the queue ever accepted is, in this order, completed, in
  transmission, or still queued, and what was put on the channel is what was completed or is in
  transmission. Nothing behind the queue is lost, duplicated or overtaken.
\<close>

theorem transmit_order:
  assumes "run_time E L" and "reachable_device E L d"
  shows "\<exists>q. m_queue d = Some q \<and>
    enqueued (q_trace q) = completed (events d) @ current d @ m_packets q \<and>
    on_channel (events d) = completed (events d) @ current d"
  using reachable_machine_inv [OF assms] by (auto simp: machine_inv_def)

theorem transmit_order_witness:
  "\<exists>d q. Send (byte_env True) sample_device [1, 2, 3] 0x0800 = Inr (True, d) \<and>
     m_queue d = Some q \<and>
     enqueued (q_trace q) = completed (events d) @ current d @ m_packets q"
  using sample_sent transmit_order [OF sample_run_time [of True]] by blast

text \<open>
  C26. Idle and busy: the transmitter is READY exactly when it holds no current packet, it is never
  READY with packets waiting, and one completion event is outstanding exactly while it is BUSY.
\<close>

theorem idle_or_busy:
  assumes "run_time E L" and "reachable_device E L d"
  shows "(m_txMachineState d = READY \<longleftrightarrow> m_currentPkt d = None) \<and>
    (m_txMachineState d = READY \<longrightarrow> m_packets (the (m_queue d)) = []) \<and>
    scheduled (events d) = ended (events d) + (if m_txMachineState d = BUSY then 1 else 0)"
  using reachable_machine_inv [OF assms]
  by (cases "m_txMachineState d") (auto simp: machine_inv_def current_def split: option.splits)

theorem idle_or_busy_witness:
  "\<exists>d. Send (byte_env True) sample_device [1, 2, 3] 0x0800 = Inr (True, d) \<and>
     scheduled (events d) = ended (events d) + 1"
  using sample_sent idle_or_busy [OF sample_run_time [of True]] by fastforce

text \<open>
  C25. No assertion of the transmitter ever fails: a completion event that is due always runs
  through, and \<open>Send\<close> returns for every packet and protocol number it can translate.
\<close>

theorem transmitter_never_stops:
  assumes "run_time E L" and "reachable_device E L d"
  shows "(ended (events d) < scheduled (events d) \<longrightarrow> is_ok (TransmitComplete E d)) \<and>
    (room_for_headers E L p \<and> sendable E d p proto \<longrightarrow> is_ok (Send E d p proto))"
  using reachable_machine_inv [OF assms] machine_complete [of E L d] pending_busy [of E L d]
    Send_returns [OF assms(1), of d p proto]
  by auto

theorem transmitter_never_stops_witness:
  "\<exists>d. Send (byte_env True) sample_device [1, 2, 3] 0x0800 = Inr (True, d) \<and>
     is_ok (TransmitComplete (byte_env True) d) \<and> is_ok (Send (byte_env True) d [1, 2, 3] 0x86DD)"
proof -
  obtain d where d: "Send (byte_env True) sample_device [1, 2, 3] 0x0800 = Inr (True, d)"
    "reachable_device (byte_env True) 2000 d" "m_txMachineState d = BUSY"
    using sample_sent by blast
  have "ended (events d) < scheduled (events d)"
    using pending_busy [OF reachable_machine_inv [OF sample_run_time d(2)]] d(3) by simp
  moreover have "compressionEnabled d = False"
    using sample_send_keeps [OF d(1)] by simp
  then have "sendable (byte_env True) d [1, 2, 3] 0x86DD"
    by (simp add: sendable_def compresses_def supported_def)
  moreover have "room_for_headers (byte_env True) 2000 [1, 2, 3]"
    by (simp add: room_for_headers_def size_123)
  ultimately show ?thesis
    using d transmitter_never_stops [OF sample_run_time [of True] d(2), of "[1, 2, 3]" "0x86DD"] by blast
qed

section \<open>Draining\<close>

fun complete_times :: "'p env \<Rightarrow> nat \<Rightarrow> ('p, 'z) net_device_scheme \<Rightarrow> ('p, 'z) net_device_scheme res" where
  "complete_times E 0 d = Inr d"
| "complete_times E (Suc n) d = bind_res (TransmitComplete E d) (complete_times E n)"

lemma complete_times_drain:
  assumes "machine_inv E L d" and "m_queue d = Some q"
    and "n = length (current d) + length (m_packets q)"
  shows "\<exists>d'. complete_times E n d = Inr d' \<and> machine_inv E L d' \<and> m_txMachineState d' = READY \<and>
    completed (events d') = completed (events d) @ current d @ m_packets q"
  using assms
proof (induction n arbitrary: d q)
  case 0
  then have "m_currentPkt d = None" by (auto simp: current_def split: option.splits)
  then show ?case using 0 by (auto simp: machine_inv_def current_def)
next
  case (Suc n)
  then obtain p where p: "m_currentPkt d = Some p"
    by (cases "m_currentPkt d"; cases "m_txMachineState d") (auto simp: machine_inv_def current_def)
  then have "m_txMachineState d = BUSY"
    using Suc.prems(1) by (cases "m_txMachineState d") (auto simp: machine_inv_def)
  then obtain d1 q1 where d1: "TransmitComplete E d = Inr d1" "machine_inv E L d1"
    "completed (events d1) = completed (events d) @ [p]" "m_queue d1 = Some q1"
    "current d1 @ m_packets q1 = m_packets q"
    using machine_complete [OF Suc.prems(1)] Suc.prems(2) p by (auto simp: current_def)
  have "length (current d1) + length (m_packets q1) = length (m_packets q)"
    using arg_cong [OF d1(5), of length] by simp
  then have "n = length (current d1) + length (m_packets q1)"
    using Suc.prems(3) p by (simp add: current_def)
  then obtain d2 where "complete_times E n d1 = Inr d2" "machine_inv E L d2" "m_txMachineState d2 = READY"
    "completed (events d2) = completed (events d1) @ current d1 @ m_packets q1"
    using Suc.IH [OF d1(2,4)] by blast
  then show ?case using d1 p by (simp add: current_def)
qed

text \<open>
  C24. Liveness: as many completion events as packets are in transmission or queued leave the
  device idle, with every packet its queue ever accepted completed in order.
\<close>

theorem device_drains:
  assumes "run_time E L" and "reachable_device E L d" and "m_queue d = Some q"
    and "n = length (current d) + length (m_packets q)"
  shows "\<exists>d'. complete_times E n d = Inr d' \<and> m_txMachineState d' = READY \<and>
    completed (events d') = enqueued (q_trace q)"
proof -
  have i: "machine_inv E L d" using reachable_machine_inv [OF assms(1,2)] .
  then have "enqueued (q_trace q) = completed (events d) @ current d @ m_packets q"
    using assms(3) by (auto simp: machine_inv_def)
  then show ?thesis using complete_times_drain [OF i assms(3,4)] by auto
qed

theorem device_drains_witness:
  "\<exists>d d'. Send (byte_env True) sample_device [1, 2, 3] 0x0800 = Inr (True, d) \<and>
     complete_times (byte_env True) 1 d = Inr d' \<and> m_txMachineState d' = READY"
proof -
  obtain d where d: "Send (byte_env True) sample_device [1, 2, 3] 0x0800 = Inr (True, d)"
    "reachable_device (byte_env True) 2000 d" "m_currentPkt d = Some [0, 0x21, 1, 2, 3]"
    "on_channel (events d) = [[0, 0x21, 1, 2, 3]]"
    using sample_sent by blast
  obtain q where q: "m_queue d = Some q" "m_packets q = []"
    using sample_send_keeps [OF d(1)] by blast
  have "1 = length (current d) + length (m_packets q)" using d(3) q(2) by (simp add: current_def)
  then show ?thesis using d(1) device_drains [OF sample_run_time d(2) q(1)] by blast
qed

section \<open>Bounded queue, refusals and receptions\<close>

text \<open>
  The queue of a reachable device is within its limit, and its 32-bit counters have not wrapped:
  they are the number of its packets and the sum of their sizes.
\<close>

theorem queue_counters_exact:
  assumes "run_time E L" and "reachable_device E L d"
  shows "\<exists>q. m_queue d = Some q \<and> unat (m_nPackets q) = length (m_packets q) \<and>
    unat (m_nBytes q) = total_bytes (pkt E) (m_packets q) \<and>
    within_limit (pkt E) L (m_maxSize q) (m_packets q)"
proof -
  obtain q where q: "m_queue d = Some q" "queue_inv (pkt E) L q"
    using reachable_machine_inv [OF assms] by (auto simp: machine_inv_def)
  then show ?thesis using queue_counts(1,2) [OF q(2)] by (simp add: queue_inv_def)
qed

theorem queue_counters_exact_witness:
  "\<exists>d q. Send (byte_env True) sample_device [1, 2, 3] 0x0800 = Inr (True, d) \<and>
     m_queue d = Some q \<and> unat (m_nPackets q) = length (m_packets q)"
  using sample_sent queue_counters_exact [OF sample_run_time [of True]] by blast

text \<open>
  C40. Accept or drop: while a transmission is going on, \<open>Send\<close> makes the packet for the wire (when that
  returns) and announces it; when the queue has room, this very packet is put behind all others and the answer
  is true; without room the queue only counts and traces the drop, the device reports this very
  packet as dropped, and the answer is false. On a link that is down the packet itself is reported
  as dropped. Nothing else of the device changes.
\<close>

theorem Send_accepts_or_drops:
  assumes "run_time E L" and "reachable_device E L d" and "m_txMachineState d = BUSY"
    and "room_for_headers E L p" and "wire_packet E (compresses d proto) p proto = Inr w"
  shows "\<exists>q q'. m_queue d = Some q \<and> Send E d p proto =
    (if \<not> m_linkUp d then Inr (False, d\<lparr>events := events d @ [MacTxDrop p]\<rparr>)
     else if within_limit (pkt E) L (m_maxSize q) (m_packets q @ [w])
     then Inr (True, d\<lparr>m_queue := Some q', events := events d @ [MacTx w]\<rparr>)
     else Inr (False, d\<lparr>m_queue := Some (DropBeforeEnqueue (pkt E) q w),
       events := events d @ [MacTx w, MacTxDrop w]\<rparr>)) \<and>
    m_packets q' = m_packets q @ [w]"
proof -
  have E: "env_laws E" "zlib_bounded (zlib E)" "L < 2 ^ 32" using assms(1) by (simp_all add: run_time_def)
  obtain q where q: "m_queue d = Some q" "queue_inv (pkt E) L q"
    using reachable_machine_inv [OF assms(1,2)] by (auto simp: machine_inv_def)
  have w: "fst (Enqueue (pkt E) (qbase E) q w) \<longleftrightarrow> within_limit (pkt E) L (m_maxSize q) (m_packets q @ [w])"
    using Enqueue_accepts [OF env_lawsD(2) [OF E(1)] q(2) wire_packet_sized [OF E assms(4,5)]] .
  have dropped: "Enqueue (pkt E) (qbase E) q w = (False, DropBeforeEnqueue (pkt E) q w)"
    if "\<not> fst (Enqueue (pkt E) (qbase E) q w)"
    using that by (auto simp: Enqueue_def DoEnqueue_def Let_def split: if_splits)
  show ?thesis
  proof (cases "fst (Enqueue (pkt E) (qbase E) q w)")
    case True
    then obtain q' where e: "Enqueue (pkt E) (qbase E) q w = (True, q')" by (metis prod.collapse)
    then have "m_packets q' = m_packets q @ [w]" using Enqueue_contents [OF e] by simp
    then show ?thesis
      using q w e True assms(3,5)
      by (intro exI [of _ q] exI [of _ q'])
        (cases "m_linkUp d"; simp add: Send_link_down Send_wire queue_and_start_def emit_def Let_def)
  next
    case False
    then show ?thesis
      using q w dropped assms(3,5)
      by (intro exI [of _ q] exI [of _ "q\<lparr>m_packets := m_packets q @ [w]\<rparr>"])
        (cases "m_linkUp d"; simp add: Send_link_down Send_wire queue_and_start_def emit_def Let_def)
  qed
qed

theorem Send_accepts_or_drops_witness:
  "\<exists>d ok d'. Send (byte_env True) sample_device [1, 2, 3] 0x0800 = Inr (True, d) \<and>
     Send (byte_env True) d [1, 2, 3] 0x86DD = Inr (ok, d') \<and>
     events d' = events d @ [MacTx [0, 0x57, 1, 2, 3]] @ (if ok then [] else [MacTxDrop [0, 0x57, 1, 2, 3]])"
proof -
  obtain d where d: "Send (byte_env True) sample_device [1, 2, 3] 0x0800 = Inr (True, d)"
    "reachable_device (byte_env True) 2000 d" "m_txMachineState d = BUSY" "m_linkUp d"
    using sample_sent by blast
  have p: "room_for_headers (byte_env True) 2000 [1, 2, 3]"
    by (simp add: room_for_headers_def size_123)
  have w: "wire_packet (byte_env True) (compresses d 0x86DD) [1, 2, 3] 0x86DD = Inr [0, 0x57, 1, 2, 3]"
    using sample_send_keeps [OF d(1)]
    by (simp add: wire_packet_def compresses_def AddHeader_def EtherToPpp_def byte_env_def byte_packets_def)
  show ?thesis
    using d Send_accepts_or_drops [OF sample_run_time d(2,3) p w] by (auto split: if_splits)
qed

text \<open>
  A reception changes nothing of the device: it only fires trace sources and callbacks, none
  of them of the transmitter; and a packet the error model condemns is only reported as dropped.
\<close>

theorem Receive_only_reports:
  assumes "Receive E d p = Inr d'"
  shows "\<exists>es. d' = emit es d \<and> (\<forall>e \<in> set es. quiet e) \<and>
    (\<not> error_free d p \<longrightarrow> es = [PhyRxDrop p])"
proof (cases "error_free d p")
  case True
  then show ?thesis using Receive_emits [OF assms] by auto
next
  case False
  then show ?thesis using assms by (auto simp: Receive_corrupt intro!: exI [of _ "[PhyRxDrop p]"])
qed

theorem Receive_only_reports_witness:
  "\<exists>d'. Receive (byte_env True) (sample_device\<lparr>m_receiveErrorModel := Some (\<lambda>p. True)\<rparr>) [0, 0x21, 5] =
     Inr d' \<and> events d' = [PhyRxDrop [0, 0x21, 5]]"
proof -
  let ?d = "sample_device\<lparr>m_receiveErrorModel := Some (\<lambda>p :: byte list. True)\<rparr>"
  obtain d' where d': "Receive (byte_env True) ?d [0, 0x21, 5] = Inr d'"
    using Receive_corrupt [of ?d "[0, 0x21, 5]" "byte_env True"] by (auto simp: error_free_def)
  then show ?thesis
    using Receive_only_reports [OF d'] by (auto simp: error_free_def emit_def sample_device_def)
qed

end
