(* ===== verification/Stock_Equivalence.thy ===== *)
theory Stock_Equivalence
  imports Stock_Device Device_Safety
begin

text \<open>
  The two implementations of the class compared: with compression off, and away from the LZS
  protocol number, every history of sends, completions, receptions and settings takes the
  project's device and the stock one through the same states, events, results and failures.
\<close>

section \<open>The operations the two files share\<close>

lemma stock_find_remote_find: "stock_find_remote this ds = map_option snd (find (\<lambda>(i, a). i \<noteq> this) ds)"
  by (induction ds) auto

lemma stock_GetRemote_eq: "stock_GetRemote E d = GetRemote E d"
  by (simp add: stock_GetRemote_def GetRemote_def stock_find_remote_find case_prod_unfold
      split: option.splits)

lemma stock_TransmitStart_eq: "stock_TransmitStart E d p = TransmitStart E d p"
  by (simp add: stock_TransmitStart_def TransmitStart_def)

lemma stock_TransmitComplete_eq: "stock_TransmitComplete E d = TransmitComplete E d"
  unfolding stock_TransmitComplete_def TransmitComplete_def stock_TransmitStart_eq ..

lemma stock_numbers_eq:
  "n \<noteq> 0x4021 \<Longrightarrow> stock_EtherToPpp a n = EtherToPpp a n"
  "n \<noteq> 0x4021 \<Longrightarrow> stock_PppToEther a n = PppToEther a n"
  by (simp_all add: stock_EtherToPpp_def EtherToPpp_def stock_PppToEther_def PppToEther_def)

lemma stock_AddHeader_eq: "n \<noteq> 0x4021 \<Longrightarrow> stock_AddHeader E p n = AddHeader E p n"
  by (simp add: stock_AddHeader_def AddHeader_def stock_numbers_eq)

lemma stock_ProcessHeader_eq:
  "fst (RemovePpp (pkt E) p) \<noteq> 0x4021 \<Longrightarrow> stock_ProcessHeader E p = ProcessHeader E p"
  by (simp add: stock_ProcessHeader_def ProcessHeader_def stock_numbers_eq case_prod_unfold Let_def)

lemma stock_Send_eq:
  "stock_Send E s p proto = (if \<not> m_linkUp s then Inr (False, emit [MacTxDrop p] s)
     else bind_res (stock_AddHeader E p proto) (queue_and_start E s))"
  unfolding stock_Send_def stock_IsLinkUp_def queue_and_start_def stock_TransmitStart_eq by simp

lemma stock_Receive_eq:
  assumes "fst (RemovePpp (pkt E) p) \<noteq> 0x4021"
  shows "stock_Receive E s p = (let s0 = s\<lparr>m_count := m_count s + 1\<rparr> in
     if error_free s p then process_and_forward E (emit [Sniffer p, PromiscSniffer p, PhyRxEnd p] s0) p p
     else Inr (emit [PhyRxDrop p] s0))"
  unfolding stock_Receive_def process_and_forward_def forward_up_def stock_GetRemote_eq
    stock_ProcessHeader_eq [OF assms] stock_GetAddress_def GetAddress_def
  by (simp add: error_free_def Let_def split: option.splits)

section \<open>The shared members\<close>

text \<open>An operation of the shared members commutes with forgetting the members of one file.\<close>

abbreviation shared :: "('p, 'z) net_device_scheme \<Rightarrow> 'p net_device" where
  "shared d \<equiv> net_device.truncate d"

lemma shared_fields [simp]:
  "m_txMachineState (shared d) = m_txMachineState d" "m_bps (shared d) = m_bps d"
  "m_tInterframeGap (shared d) = m_tInterframeGap d" "m_channel (shared d) = m_channel d"
  "m_queue (shared d) = m_queue d" "m_currentPkt (shared d) = m_currentPkt d"
  "m_receiveErrorModel (shared d) = m_receiveErrorModel d" "m_linkUp (shared d) = m_linkUp d"
  "m_rxCallback (shared d) = m_rxCallback d" "m_promiscCallback (shared d) = m_promiscCallback d"
  "m_address (shared d) = m_address d" "events (shared d) = events d"
  "compressionEnabled (shared d) = compressionEnabled d" "error_free (shared d) = error_free d"
  by (simp_all add: net_device.defs error_free_def fun_eq_iff)

lemma shared_updates [simp]:
  "shared (d\<lparr>m_queue := q\<rparr>) = (shared d)\<lparr>m_queue := q\<rparr>"
  "shared (d\<lparr>m_txMachineState := st\<rparr>) = (shared d)\<lparr>m_txMachineState := st\<rparr>"
  "shared (d\<lparr>m_currentPkt := c\<rparr>) = (shared d)\<lparr>m_currentPkt := c\<rparr>"
  "shared (emit es d) = emit es (shared d)"
  by (simp_all add: net_device.defs emit_def)

lemma TransmitStart_shared:
  "TransmitStart E (shared d) p = map_sum id (apsnd shared) (TransmitStart E d p)"
  by (cases "m_channel d"; cases "m_txMachineState d")
    (simp_all add: TransmitStart_def ns_assert_def deref_def Let_def)

lemma bind_res_shared:
  assumes "m' = map_sum id g m" and "\<And>x. f' (g x) = map_sum id h (f x)"
  shows "bind_res m' f' = map_sum id h (bind_res m f)"
  using assms by (cases m) auto

lemma queue_and_start_shared:
  "queue_and_start E (shared d) p = map_sum id (apsnd shared) (queue_and_start E d p)"
proof (cases "m_queue d")
  case None
  then show ?thesis by (simp add: queue_and_start_def deref_def Let_def)
next
  case (Some q)
  obtain acc q1 where e: "Enqueue (pkt E) (qbase E) q p = (acc, q1)" by fastforce
  have D: "bind_res (Dequeue (asserts_on E) (pkt E) q1) (\<lambda>(head, q2).
        bind_res (deref ''packet'' head) (\<lambda>p'. TransmitStart E
          (emit [Sniffer p', PromiscSniffer p'] ((emit [MacTx p] (shared d))\<lparr>m_queue := Some q2\<rparr>)) p')) =
      map_sum id (apsnd shared) (bind_res (Dequeue (asserts_on E) (pkt E) q1) (\<lambda>(head, q2).
        bind_res (deref ''packet'' head) (\<lambda>p'. TransmitStart E
          (emit [Sniffer p', PromiscSniffer p'] ((emit [MacTx p] d)\<lparr>m_queue := Some q2\<rparr>)) p')))"
    by (rule bind_res_shared [where g = id])
      (auto simp: map_sum.id deref_def TransmitStart_shared [symmetric] split: option.splits)
  show ?thesis using Some e D by (simp add: queue_and_start_def Let_def)
qed

lemma TransmitComplete_shared: "TransmitComplete E (shared d) = map_sum id shared (TransmitComplete E d)"
proof (cases "m_queue d")
  case None
  then show ?thesis by (simp add: TransmitComplete_def ns_assert_def deref_def Let_def)
next
  case (Some q)
  show ?thesis
    using Some
    by (cases "Dequeue (asserts_on E) (pkt E) q")
      (auto simp: TransmitComplete_def ns_assert_def Let_def TransmitStart_shared [symmetric]
        split: option.splits sum.splits intro!: bind_res_shared [where g = "apsnd shared"])
qed

lemma GetRemote_shared: "GetRemote E (shared d) = GetRemote E d"
  by (simp add: GetRemote_def)

lemma forward_up_shared:
  "forward_up E (shared d) o1 p proto r = map_sum id shared (forward_up E d o1 p proto r)"
  by (cases "m_rxCallback d"; cases "m_promiscCallback d")
    (simp_all add: forward_up_def deref_def GetAddress_def Let_def)

lemma process_and_forward_shared:
  "process_and_forward E (shared d) o1 p = map_sum id shared (process_and_forward E d o1 p)"
  unfolding process_and_forward_def GetRemote_shared
  by (cases "ProcessHeader E p"; cases "GetRemote E d") (auto simp: forward_up_shared)

section \<open>Histories\<close>

datatype 'p command = SendCommand 'p u16 | CompleteCommand | ReceiveCommand 'p | SettingCommand "'p setting"

text \<open>
  One command on the project's device, and on the stock device with its own operations, with the
  answer of \<open>Send\<close>; the operations that answer nothing give true.
\<close>

fun project_step :: "'p env \<Rightarrow> 'p command \<Rightarrow> 'p p2p_device \<Rightarrow> (bool \<times> 'p p2p_device) res" where
  "project_step E (SendCommand p proto) d = Send E d p proto"
| "project_step E CompleteCommand d = map_sum id (Pair True) (TransmitComplete E d)"
| "project_step E (ReceiveCommand p) d = map_sum id (Pair True) (Receive E d p)"
| "project_step E (SettingCommand s) d = Inr (True, apply_setting s d)"

fun stock_apply_setting :: "'p setting \<Rightarrow> ('p, 'z) net_device_scheme \<Rightarrow> ('p, 'z) net_device_scheme" where
  "stock_apply_setting (DataRateSetting r) d = stock_SetDataRate r d"
| "stock_apply_setting (InterframeGapSetting t) d = stock_SetInterframeGap t d"
| "stock_apply_setting (ErrorModelSetting em) d = stock_SetReceiveErrorModel em d"
| "stock_apply_setting (IfIndexSetting i) d = stock_SetIfIndex i d"
| "stock_apply_setting (AddressSetting a) d = stock_SetAddress a d"
| "stock_apply_setting (LinkChangeSetting cb) d = stock_AddLinkChangeCallback cb d"
| "stock_apply_setting (NodeSetting n) d = stock_SetNode n d"
| "stock_apply_setting (ReceiveCallbackSetting cb) d = stock_SetReceiveCallback cb d"
| "stock_apply_setting (PromiscCallbackSetting cb) d = stock_SetPromiscReceiveCallback cb d"
| "stock_apply_setting (MtuSetting m) d = snd (stock_SetMtu m d)"
| "stock_apply_setting (CompressionSetting b) d = d\<lparr>compressionEnabled := b\<rparr>"
| "stock_apply_setting (AggregateSetting qi) d = stock_NotifyNewAggregate qi d"

fun stock_step :: "'p env \<Rightarrow> 'p command \<Rightarrow> 'p stock_device \<Rightarrow> (bool \<times> 'p stock_device) res" where
  "stock_step E (SendCommand p proto) s = stock_Send E s p proto"
| "stock_step E CompleteCommand s = map_sum id (Pair True) (stock_TransmitComplete E s)"
| "stock_step E (ReceiveCommand p) s = map_sum id (Pair True) (stock_Receive E s p)"
| "stock_step E (SettingCommand t) s = Inr (True, stock_apply_setting t s)"

text \<open>A history, with the answers to all its commands.\<close>

fun run :: "('c \<Rightarrow> 's \<Rightarrow> ('o \<times> 's) res) \<Rightarrow> 'c list \<Rightarrow> 's \<Rightarrow> ('o list \<times> 's) res" where
  "run step [] s = Inr ([], s)"
| "run step (c # cs) s =
     bind_res (step c s) (\<lambda>(ok, s1). bind_res (run step cs s1) (\<lambda>(oks, s2). Inr (ok # oks, s2)))"

text \<open>The commands that stay away from LZS and leave compression off.\<close>

fun plain_command :: "'p env \<Rightarrow> 'p command \<Rightarrow> bool" where
  "plain_command E (SendCommand p proto) \<longleftrightarrow> proto \<noteq> 0x4021"
| "plain_command E (ReceiveCommand p) \<longleftrightarrow> fst (RemovePpp (pkt E) p) \<noteq> 0x4021"
| "plain_command E (SettingCommand (CompressionSetting b)) \<longleftrightarrow> \<not> b"
| "plain_command E c \<longleftrightarrow> True"

text \<open>What a plain command does to the shared members alone.\<close>

fun link_step :: "'p env \<Rightarrow> 'p command \<Rightarrow> 'p net_device \<Rightarrow> (bool \<times> 'p net_device) res" where
  "link_step E (SendCommand p proto) d =
     (if \<not> m_linkUp d then Inr (False, emit [MacTxDrop p] d)
      else bind_res (AddHeader E p proto) (queue_and_start E d))"
| "link_step E CompleteCommand d = map_sum id (Pair True) (TransmitComplete E d)"
| "link_step E (ReceiveCommand p) d = map_sum id (Pair True)
     (if error_free d p
      then process_and_forward E (emit [Sniffer p, PromiscSniffer p, PhyRxEnd p] d) p p
      else Inr (emit [PhyRxDrop p] d))"
| "link_step E (SettingCommand s) d = Inr (True, apply_setting s d)"

lemma map_sum_bind: "map_sum id g (bind_res m f) = bind_res m (\<lambda>x. map_sum id g (f x))"
  by (cases m) auto

lemma answer_shared:
  "map_sum id (apsnd shared) (map_sum id (Pair a) m) = map_sum id (Pair a) (map_sum id shared m)"
  by (cases m) auto

lemma setting_shared: "shared (apply_setting s d) = apply_setting s (shared d)"
  by (cases s) (simp_all add: net_device.defs SetDataRate_def SetInterframeGap_def
    SetReceiveErrorModel_def SetIfIndex_def SetAddress_def AddLinkChangeCallback_def SetNode_def
    SetReceiveCallback_def SetPromiscReceiveCallback_def SetMtu_def NotifyNewAggregate_def)

lemma stock_setting_eq: "stock_apply_setting s d = apply_setting s d"
  by (cases s) (simp_all add: SetDataRate_def SetInterframeGap_def SetReceiveErrorModel_def
    SetIfIndex_def SetAddress_def AddLinkChangeCallback_def SetNode_def SetReceiveCallback_def
    SetPromiscReceiveCallback_def SetMtu_def NotifyNewAggregate_def stock_SetDataRate_def
    stock_SetInterframeGap_def stock_SetReceiveErrorModel_def stock_SetIfIndex_def
    stock_SetAddress_def stock_AddLinkChangeCallback_def stock_SetNode_def
    stock_SetReceiveCallback_def stock_SetPromiscReceiveCallback_def stock_SetMtu_def
    stock_NotifyNewAggregate_def)

lemma project_link_step:
  assumes "\<not> compressionEnabled d" and "plain_command E c"
  shows "map_sum id (apsnd shared) (project_step E c d) = link_step E c (shared d)"
proof (cases c)
  case (SendCommand p proto)
  then show ?thesis
    using assms
    by (cases "m_linkUp d") (simp_all add: Send_link_down Send_plain compresses_def answer_shared
        map_sum_bind queue_and_start_shared [abs_def])
next
  case (ReceiveCommand p)
  then show ?thesis
    using assms Receive_plain [of d p E] Receive_corrupt [of d p E]
    by (cases "error_free d p")
      (simp_all add: answer_shared process_and_forward_shared [symmetric])
qed (simp_all add: TransmitComplete_shared setting_shared answer_shared)

lemma stock_link_step:
  assumes "plain_command E c"
  shows "map_sum id (apsnd shared) (stock_step E c s) = link_step E c (shared s)"
proof (cases c)
  case (SendCommand p proto)
  then show ?thesis
    using assms by (simp add: stock_Send_eq stock_AddHeader_eq answer_shared map_sum_bind
        queue_and_start_shared [abs_def])
next
  case (ReceiveCommand p)
  have "shared (s\<lparr>m_count := m_count s + 1\<rparr>) = shared s" by (simp add: net_device.defs)
  then show ?thesis
    using assms ReceiveCommand
    by (cases "error_free s p")
      (simp_all add: stock_Receive_eq Let_def answer_shared process_and_forward_shared [symmetric])
qed (simp_all add: stock_TransmitComplete_eq TransmitComplete_shared stock_setting_eq setting_shared answer_shared)

text \<open>No plain command turns compression on.\<close>

lemma TransmitStart_keeps:
  "TransmitStart E d p = Inr (ok, d') \<Longrightarrow> compressionEnabled d' = compressionEnabled d"
  by (auto simp: TransmitStart_def Let_def bind_res_eq_Inr split: if_splits)

lemma emit_emit: "emit es (emit es' d) = emit (es' @ es) d"
  by (simp add: emit_def)

lemma emit_queue: "(emit es d)\<lparr>m_queue := q\<rparr> = emit es (d\<lparr>m_queue := q\<rparr>)"
  by (simp add: emit_def)

text \<open>What \<open>queue_and_start\<close> can have done: a queue update and events, and perhaps a start.\<close>

lemma queue_and_start_shape:
  assumes s: "queue_and_start E d p = Inr (ok, d')"
  shows "\<exists>q es. d' = emit es (d\<lparr>m_queue := q\<rparr>) \<or>
    (\<exists>p'. TransmitStart E (emit es (d\<lparr>m_queue := q\<rparr>)) p' = Inr (ok, d'))"
proof -
  obtain q where q: "m_queue d = Some q"
    using s by (cases "m_queue d") (auto simp: queue_and_start_def deref_def)
  obtain acc q1 where e: "Enqueue (pkt E) (qbase E) q p = (acc, q1)" by fastforce
  consider "\<not> acc" | "acc" "m_txMachineState d = BUSY" | "acc" "m_txMachineState d = READY"
    by (cases "m_txMachineState d") auto
  then show ?thesis
  proof cases
    case 3
    then obtain q2 p' where "TransmitStart E (emit [Sniffer p', PromiscSniffer p']
        ((emit [MacTx p] d)\<lparr>m_queue := Some q2\<rparr>)) p' = Inr (ok, d')"
      using s q e by (auto simp: queue_and_start_def Let_def bind_res_eq_Inr)
    then show ?thesis unfolding emit_queue emit_emit by blast
  next
    case 1
    then show ?thesis
      using s q e by (auto simp: queue_and_start_def Let_def emit_queue emit_emit)
  next
    case 2
    then show ?thesis
      using s q e by (auto simp: queue_and_start_def Let_def emit_queue emit_emit)
  qed
qed

lemma queue_and_start_keeps:
  assumes "queue_and_start E d p = Inr (ok, d')"
  shows "compressionEnabled d' = compressionEnabled d"
  using queue_and_start_shape [OF assms] by (auto dest!: TransmitStart_keeps)

lemma TransmitComplete_keeps:
  "TransmitComplete E d = Inr d' \<Longrightarrow> compressionEnabled d' = compressionEnabled d"
  by (auto simp: TransmitComplete_def Let_def bind_res_eq_Inr split: option.splits
      dest!: TransmitStart_keeps)

lemma map_sum_eq_Inr: "map_sum id g m = Inr y \<longleftrightarrow> (\<exists>x. m = Inr x \<and> y = g x)"
  by (cases m) auto

lemma link_step_keeps:
  assumes "link_step E c d = Inr (a, d')" and "plain_command E c" and "\<not> compressionEnabled d"
  shows "\<not> compressionEnabled d'"
proof (cases c)
  case (SendCommand p proto)
  then have "d' = emit [MacTxDrop p] d \<or> (\<exists>ok p'. queue_and_start E d p' = Inr (ok, d'))"
    using assms(1) by (force simp: bind_res_eq_Inr map_sum_eq_Inr split: if_splits)
  then show ?thesis using assms(3) by (auto dest: queue_and_start_keeps)
next
  case CompleteCommand
  then show ?thesis using assms by (auto simp: map_sum_eq_Inr dest: TransmitComplete_keeps)
next
  case (ReceiveCommand p)
  then show ?thesis
    using assms by (auto simp: map_sum_eq_Inr split: if_splits dest!: process_and_forward_emits)
next
  case (SettingCommand t)
  then show ?thesis
    using assms by (cases t) (auto simp: SetDataRate_def SetInterframeGap_def SetReceiveErrorModel_def
      SetIfIndex_def SetAddress_def AddLinkChangeCallback_def SetNode_def SetReceiveCallback_def
      SetPromiscReceiveCallback_def SetMtu_def NotifyNewAggregate_def split: if_splits)
qed

lemma run_map:
  assumes step: "\<And>c d. c \<in> set cs \<Longrightarrow> P d \<Longrightarrow> map_sum id (apsnd g) (f c d) = h c (g d)"
    and keep: "\<And>c d a d'. c \<in> set cs \<Longrightarrow> P d \<Longrightarrow> f c d = Inr (a, d') \<Longrightarrow> P d'"
    and "P d"
  shows "map_sum id (apsnd g) (run f cs d) = run h cs (g d)"
  using assms
proof (induction cs arbitrary: d)
  case (Cons c cs)
  show ?case
  proof (cases "f c d")
    case (Inl e)
    then have "h c (g d) = Inl e" using Cons.prems(1) [of c d] Cons.prems(3) by simp
    then show ?thesis using Inl by simp
  next
    case (Inr r)
    then obtain a d' where d': "f c d = Inr (a, d')" by (cases r) simp
    then have "P d'" using Cons.prems(2) [of c d a d'] Cons.prems(3) by simp
    have "map_sum id (apsnd g) (run f cs d') = run h cs (g d')"
    proof (rule Cons.IH)
      show "map_sum id (apsnd g) (f c' x) = h c' (g x)" if "c' \<in> set cs" "P x" for c' x
        using that by (intro Cons.prems(1) list.set_intros(2))
      show "P x'" if "c' \<in> set cs" "P x" "f c' x = Inr (a', x')" for c' x a' x'
        using that Cons.prems(2) list.set_intros(2) by metis
    qed fact
    then have "run h cs (g d') = map_sum id (apsnd g) (run f cs d')" by (rule sym)
    moreover have "h c (g d) = Inr (a, g d')" using Cons.prems(1) [of c d] Cons.prems(3) d' by simp
    ultimately show ?thesis using d'
      by (cases "run f cs d'") (simp_all split: prod.splits)
  qed
qed simp

section \<open>Properties\<close>

text \<open>
  C7. With compression off and no LZS number, every history of sends, completions, receptions and
  settings takes the project's device and the stock device from equal shared members to equal
  shared members, with equal events and equal answers of \<open>Send\<close>, or stops both in the same way.
\<close>

theorem stock_equivalence:
  assumes "\<not> compressionEnabled d" and "shared d = shared s" and "\<forall>c \<in> set cs. plain_command E c"
  shows "map_sum id (apsnd shared) (run (project_step E) cs d) = map_sum id (apsnd shared) (run (stock_step E) cs s)"
proof -
  have "map_sum id (apsnd shared) (run (project_step E) cs d) = run (link_step E) cs (shared d)"
  proof (rule run_map [where P = "\<lambda>d. \<not> compressionEnabled d"])
    show "\<not> compressionEnabled d'" if "c \<in> set cs" "\<not> compressionEnabled d" "project_step E c d = Inr (a, d')"
      for c d a d'
      using that assms(3) project_link_step [of d E c] link_step_keeps [of E c "shared d" a "shared d'"]
      by simp
  qed (use assms(1,3) project_link_step in auto)
  moreover have "map_sum id (apsnd shared) (run (stock_step E) cs s) = run (link_step E) cs (shared s)"
    by (rule run_map [where P = "\<lambda>s. True"]) (use assms(3) stock_link_step in auto)
  ultimately show ?thesis using assms(2) by simp
qed

text \<open>The stock device of the witnesses, and a history of two sends, a reception and a completion.\<close>

definition sample_stock :: "'p stock_device" where
  "sample_stock = net_device.extend (shared (sample_device :: 'p p2p_device)) \<lparr>m_count = 65535\<rparr>"

definition sample_history :: "byte list command list" where
  "sample_history = [SendCommand [1, 2, 3] 0x0800, SendCommand [4] 0x86DD,
     ReceiveCommand [0, 0x21, 7], CompleteCommand]"

lemma sample_shared: "shared sample_device = shared sample_stock" "m_count sample_stock = 65535"
  by (simp_all add: sample_stock_def net_device.defs)

lemma sample_plain: "\<forall>c \<in> set sample_history. plain_command (byte_env True) c"
  by (simp add: sample_history_def byte_packets_def)

theorem stock_equivalence_witness:
  "map_sum id (apsnd shared) (run (project_step (byte_env True)) sample_history sample_device) =
   map_sum id (apsnd shared) (run (stock_step (byte_env True)) sample_history sample_stock)"
  by (rule stock_equivalence [OF _ sample_shared(1) sample_plain]) (simp add: sample_device_def)

text \<open>The 16-bit reception count: every \<open>Receive\<close> adds one, nothing else changes it.\<close>

fun receptions :: "'p command list \<Rightarrow> nat" where
  "receptions [] = 0"
| "receptions (c # cs) = (case c of ReceiveCommand p \<Rightarrow> Suc (receptions cs) | _ \<Rightarrow> receptions cs)"

lemma TransmitStart_more:
  "TransmitStart E d p = Inr (ok, d') \<Longrightarrow> net_device.more d' = net_device.more d"
  by (auto simp: TransmitStart_def emit_def Let_def bind_res_eq_Inr split: if_splits)

lemma queue_and_start_more:
  assumes "queue_and_start E d p = Inr (ok, d')"
  shows "net_device.more d' = net_device.more d"
  using queue_and_start_shape [OF assms] by (auto simp: emit_def dest!: TransmitStart_more)

lemma TransmitComplete_more:
  "TransmitComplete E d = Inr d' \<Longrightarrow> net_device.more d' = net_device.more d"
  by (auto simp: TransmitComplete_def emit_def Let_def bind_res_eq_Inr split: option.splits
      dest!: TransmitStart_more)

lemma m_count_more: "net_device.more d' = net_device.more d \<Longrightarrow> m_count d' = m_count d"
  by (cases d; cases d') simp

lemma stock_Receive_count: "stock_Receive E s p = Inr s' \<Longrightarrow> m_count s' = m_count s + 1"
  by (auto simp: stock_Receive_def emit_def Let_def bind_res_eq_Inr split: option.splits if_splits)

lemma stock_step_count:
  assumes "stock_step E c s = Inr (a, s')"
  shows "m_count s' = m_count s + of_nat (receptions [c])"
proof (cases c)
  case (SendCommand p proto)
  then show ?thesis
    using assms by (auto simp: stock_Send_eq bind_res_eq_Inr map_sum_def emit_def
        split: if_splits sum.splits dest!: queue_and_start_more m_count_more)
next
  case CompleteCommand
  then show ?thesis
    using assms by (auto simp: map_sum_eq_Inr stock_TransmitComplete_eq dest!: TransmitComplete_more m_count_more)
next
  case (ReceiveCommand p)
  then show ?thesis using assms stock_Receive_count by (auto simp: map_sum_eq_Inr)
next
  case (SettingCommand t)
  then show ?thesis
    using assms by (cases t) (auto simp: stock_setting_eq SetDataRate_def SetInterframeGap_def
      SetReceiveErrorModel_def SetIfIndex_def SetAddress_def AddLinkChangeCallback_def SetNode_def
      SetReceiveCallback_def SetPromiscReceiveCallback_def SetMtu_def NotifyNewAggregate_def)
qed

text \<open>
  C34. \<open>m_count\<close> of the stock device is the number of receptions, corrupt ones included, modulo
  65536: at the 65536th reception it is 0 again.
\<close>

theorem stock_count_wraps:
  assumes "run (stock_step E) cs s = Inr (oks, s')"
  shows "unat (m_count s') = (unat (m_count s) + receptions cs) mod 65536"
proof -
  have "m_count s' = m_count s + of_nat (receptions cs)"
    using assms
  proof (induction cs arbitrary: s oks)
    case (Cons c cs)
    then obtain a s1 as where s1: "stock_step E c s = Inr (a, s1)" "run (stock_step E) cs s1 = Inr (as, s')"
      by (auto simp: bind_res_eq_Inr)
    then show ?case
      using Cons.IH [OF s1(2)] stock_step_count [OF s1(1)] by (cases c) simp_all
  qed simp
  then show ?thesis by (simp add: unat_word_ariths unat_of_nat mod_simps)
qed

theorem stock_count_wraps_witness:
  "\<exists>s'. run (stock_step (byte_env True)) [ReceiveCommand [0, 0x21, 7]] sample_stock = Inr ([True], s') \<and>
     m_count s' = 0"
proof -
  have "\<exists>s'. stock_Receive (byte_env True) sample_stock [0, 0x21, 7] = Inr s'"
    by (simp add: stock_Receive_def stock_ProcessHeader_def stock_PppToEther_def stock_GetRemote_def
        byte_packets_def sample_stock_def sample_device_def net_device.defs deref_def ns_assert_def
        Let_def)
  then obtain s' where s': "run (stock_step (byte_env True)) [ReceiveCommand [0, 0x21, 7]] sample_stock = Inr ([True], s')"
    by auto
  have "unat (m_count s') = 0" using stock_count_wraps [OF s'] by (simp add: sample_shared)
  then show ?thesis using s' by (auto simp: unat_eq_0)
qed

end
