(* ===== verification/Timed_Line.thy ===== *)
theory Timed_Line
  imports Device_Safety
begin

text \<open>
  The transmitting device in simulated time: sends come at given times, the completion that
  \<open>TransmitStart\<close> schedules runs when its delay is over, and events due at the same time run in
  either order. The specification is a single server with a queue of its own: when each packet
  starts is a recursion over the times of the sends and the packets' service times.
\<close>

section \<open>A server with a queue\<close>

text \<open>
  Jobs are pairs of arrival and service time; \<open>f\<close> is when the server is free. \<open>starts\<close> is when
  each job begins, \<open>finish\<close> when the last one is over.
\<close>

fun starts :: "int \<Rightarrow> (int \<times> int) list \<Rightarrow> int list" where
  "starts f [] = []"
| "starts f ((t, s) # js) = max f t # starts (max f t + s) js"

fun finish :: "int \<Rightarrow> (int \<times> int) list \<Rightarrow> int" where
  "finish f [] = f"
| "finish f ((t, s) # js) = finish (max f t + s) js"

lemma starts_snoc: "starts f (js @ [(t, s)]) = starts f js @ [max (finish f js) t]"
  by (induction js arbitrary: f) auto

lemma finish_snoc: "finish f (js @ [(t, s)]) = max (finish f js) t + s"
  by (induction js arbitrary: f) auto

lemma starts_append: "starts f (js @ ks) = starts f js @ starts (finish f js) ks"
  by (induction js arbitrary: f) auto

lemma length_starts [simp]: "length (starts f js) = length js"
  by (induction js arbitrary: f) auto

text \<open>A server that is free when the first job arrives starts it at once, and shifting the arrivals
  of all jobs shifts all starts.\<close>

lemma starts_free: "f \<le> t \<Longrightarrow> starts f ((t, s) # js) = starts t ((t, s) # js)"
  by simp

lemma starts_shift: "starts (f + c) (map (\<lambda>(t, s). (t + c, s)) js) = map (\<lambda>t. t + c) (starts f js)"
proof (induction js arbitrary: f)
  case (Cons j js)
  obtain t s where j: "j = (t, s)" by force
  have "max (f + c) (t + c) = max f t + c" by simp
  moreover have "max f t + c + s = (max f t + s) + c" by simp
  ultimately show ?case
    unfolding j by (simp only: list.map prod.case starts.simps Cons.IH [of "max f t + s"])
qed simp

section \<open>What the operations schedule\<close>

definition delays :: "'p device_event list \<Rightarrow> int list" where
  "delays es = concat (map (\<lambda>e. case e of ScheduleTransmitComplete t \<Rightarrow> [t] | _ \<Rightarrow> []) es)"

lemma delays_simps [simp]:
  "delays [] = []" "delays (xs @ ys) = delays xs @ delays ys"
  "delays (ScheduleTransmitComplete t # es) = t # delays es"
  "delays (ChannelTransmitStart p t # es) = delays es" "delays (PhyTxEnd r # es) = delays es"
  by (simp_all add: delays_def)

lemma delays_quiet [simp]: "quiet e \<Longrightarrow> delays (e # es) = delays es"
  by (cases e) (auto simp: delays_def quiet_def)

definition service :: "'p env \<Rightarrow> ('p, 'z) net_device_scheme \<Rightarrow> 'p \<Rightarrow> int" where
  "service E d p = tx_time E d p + m_tInterframeGap d"

lemma delays_start_events [simp]: "delays (start_events E d p) = [service E d p]"
  by (simp add: start_events_def service_def)

text \<open>The settings that a transmission does not touch.\<close>

definition kept :: "'p p2p_device \<Rightarrow> 'p p2p_device \<Rightarrow> bool" where
  "kept d d' \<longleftrightarrow> m_bps d' = m_bps d \<and> m_tInterframeGap d' = m_tInterframeGap d \<and>
     m_linkUp d' = m_linkUp d \<and> compressionEnabled d' = compressionEnabled d \<and> m_protocol d' = m_protocol d"

lemma kept_service: "kept d d' \<Longrightarrow> service E d' = service E d"
  by (simp add: kept_def service_def fun_eq_iff)

lemma kept_trans: "kept d d' \<Longrightarrow> kept d' d'' \<Longrightarrow> kept d d''"
  by (simp add: kept_def)

lemma kept_refl [simp]: "kept d d"
  by (simp add: kept_def)

text \<open>
  The effect of a transmission step on the queue, the channel and the schedule: nothing, a packet
  joins the queue of a busy device, or a packet starts.
\<close>

datatype 'p tx_effect = Refused | Queued 'p | Started 'p

definition has_effect :: "'p env \<Rightarrow> 'p p2p_device \<Rightarrow> 'p p2p_device \<Rightarrow> 'p tx_effect \<Rightarrow> bool" where
  "has_effect E d d' f \<longleftrightarrow> kept d d' \<and> (\<exists>es q q'. events d' = events d @ es \<and> m_queue d = Some q \<and>
     m_queue d' = Some q' \<and>
     (case f of
        Refused \<Rightarrow> on_channel es = [] \<and> delays es = [] \<and> m_packets q' = m_packets q \<and>
          enqueued (q_trace q') = enqueued (q_trace q) \<and> m_txMachineState d' = m_txMachineState d
      | Queued w \<Rightarrow> on_channel es = [] \<and> delays es = [] \<and> m_packets q' = m_packets q @ [w] \<and>
          enqueued (q_trace q') = enqueued (q_trace q) @ [w] \<and>
          m_txMachineState d = BUSY \<and> m_txMachineState d' = BUSY
      | Started w \<Rightarrow> on_channel es = [w] \<and> delays es = [service E d w] \<and> m_packets q = [] \<and>
          m_packets q' = [] \<and> enqueued (q_trace q') = enqueued (q_trace q) @ [w] \<and>
          m_txMachineState d = READY \<and> m_txMachineState d' = BUSY))"

lemma queue_and_start_effect:
  assumes E: "env_laws E" and d: "machine_inv E L d" and w: "sized (pkt E) L w"
    and s: "queue_and_start E d w = Inr (ok, d')"
  shows "\<exists>f \<in> {Refused, Queued w, Started w}. has_effect E d d' f"
proof -
  obtain q c where q: "m_queue d = Some q" "queue_inv (pkt E) L q" and c: "m_channel d = Some c"
    using d by (auto simp: machine_inv_def)
  obtain acc q1 where e: "Enqueue (pkt E) (qbase E) q w = (acc, q1)" by fastforce
  note c1 = Enqueue_contents [OF e] Enqueue_enqueued [OF e]
  consider "\<not> acc" | "acc" "m_txMachineState d = BUSY" | "acc" "m_txMachineState d = READY"
    by (cases "m_txMachineState d") auto
  then show ?thesis
  proof cases
    case 1
    then have "has_effect E d d' Refused"
      using s q e c1 by (auto simp: queue_and_start_def Let_def has_effect_def kept_def emit_def)
    then show ?thesis by simp
  next
    case 2
    then have "has_effect E d d' (Queued w)"
      using s q e c1 by (auto simp: queue_and_start_def Let_def has_effect_def kept_def emit_def)
    then show ?thesis by simp
  next
    case 3
    then have m: "m_packets q = []" using d q by (auto simp: machine_inv_def)
    have q1: "queue_inv (pkt E) L q1" using Enqueue_inv [OF env_lawsD(2) [OF E] q(2) w e] .
    obtain q2 where q2: "Dequeue (asserts_on E) (pkt E) q1 = Inr (Some w, q2)" "m_packets q2 = []"
      "q_trace q2 = q_trace q1 @ [TraceDequeue w]"
      using Dequeue_head [OF q1, of w "[]"] c1(1) 3(1) m by auto
    let ?d = "emit [Sniffer w, PromiscSniffer w] ((emit [MacTx w] d)\<lparr>m_queue := Some q2\<rparr>)"
    have "queue_and_start E d w = TransmitStart E ?d w"
      using q e 3 q2 by (simp add: queue_and_start_def Let_def emit_def)
    then have d': "d' = ?d\<lparr>m_txMachineState := BUSY, m_currentPkt := Some w,
        events := events ?d @ start_events E ?d w\<rparr>"
      using s 3 c by (simp add: TransmitStart_ready)
    have "service E ?d w = service E d w" by (simp add: service_def)
    moreover have "enqueued (q_trace q2) = enqueued (q_trace q) @ [w]"
      using q2(3) c1(2) 3(1) by (simp add: enqueued_def)
    ultimately have "has_effect E d d' (Started w)"
      using q m q2(2) 3 unfolding d' has_effect_def by (auto simp: kept_def)
    then show ?thesis by simp
  qed
qed

text \<open>The packet \<open>Send\<close> makes of a packet, by its size: compressed ones are 10 bytes longer.\<close>

definition wire_size :: "'p env \<Rightarrow> 'p p2p_device \<Rightarrow> 'p \<Rightarrow> u16 \<Rightarrow> u32" where
  "wire_size E d p proto = GetSize (pkt E) p + (if compresses d proto then 10 else 2)"

lemma Send_effect:
  assumes R: "run_time E L" and d: "machine_inv E L d" and p: "room_for_headers E L p"
    and s: "Send E d p proto = Inr (ok, d')"
  shows "has_effect E d d' Refused \<or> (\<exists>w. GetSize (pkt E) w = wire_size E d p proto \<and>
    (has_effect E d d' (Queued w) \<or> has_effect E d d' (Started w)))"
proof (cases "m_linkUp d")
  case False
  have "d' = emit [MacTxDrop p] d" using False s by (simp add: Send_link_down)
  then have "has_effect E d d' Refused" using d by (auto simp: has_effect_def machine_inv_def kept_def)
  then show ?thesis by blast
next
  case True
  have E: "env_laws E" "zlib_bounded (zlib E)" "L < 2 ^ 32" using R by (simp_all add: run_time_def)
  have "\<exists>w. sized (pkt E) L w \<and> queue_and_start E d w = Inr (ok, d') \<and>
      GetSize (pkt E) w = wire_size E d p proto"
  proof (cases "compresses d proto")
    case False
    then obtain v where "queue_and_start E d (AddPpp (pkt E) v p) = Inr (ok, d')"
      using s True by (auto simp: Send_plain AddHeader_def bind_res_eq_Inr)
    then show ?thesis
      using p E(3) False GetSize_AddPpp [OF env_lawsD(1) [OF E(1)]]
        sized_headers [where P = "pkt E" and k = 2 and p = p and p' = "AddPpp (pkt E) v p"]
      by (auto simp: room_for_headers_def wire_size_def)
  next
    case c: True
    then obtain p1 where p1: "compressed_packet E p = Inr p1"
      and "queue_and_start E d (AddPpp (pkt E) 0x4021 p1) = Inr (ok, d')"
      using s True by (auto simp: Send_compressing AddHeader_def bind_res_eq_Inr)
    then show ?thesis
      using p E(3) c GetSize_AddPpp [OF env_lawsD(1) [OF E(1)]] compressed_packet_size [OF E(1,2) p1]
        sized_headers [where P = "pkt E" and k = 10 and p = p and p' = "AddPpp (pkt E) 0x4021 p1"]
      by (intro exI [of _ "AddPpp (pkt E) 0x4021 p1"]) (auto simp: room_for_headers_def wire_size_def)
  qed
  then show ?thesis using queue_and_start_effect [OF E(1) d] by blast
qed

definition completes :: "'p env \<Rightarrow> 'p p2p_device \<Rightarrow> 'p p2p_device \<Rightarrow> bool" where
  "completes E d d' \<longleftrightarrow> kept d d' \<and> (\<exists>es q q'. events d' = events d @ es \<and> m_queue d = Some q \<and>
     m_queue d' = Some q' \<and> enqueued (q_trace q') = enqueued (q_trace q) \<and>
     (case m_packets q of
        [] \<Rightarrow> on_channel es = [] \<and> delays es = [] \<and> m_packets q' = [] \<and> m_txMachineState d' = READY
      | p # ps \<Rightarrow> on_channel es = [p] \<and> delays es = [service E d p] \<and> m_packets q' = ps \<and>
          m_txMachineState d' = BUSY))"

lemma complete_effect:
  assumes d: "machine_inv E L d" and b: "m_txMachineState d = BUSY" and t: "TransmitComplete E d = Inr d'"
  shows "completes E d d'"
proof -
  obtain q cur c where q: "m_queue d = Some q" "queue_inv (pkt E) L q"
    and cur: "m_currentPkt d = Some cur" and c: "m_channel d = Some c"
    using d b by (auto simp: machine_inv_def)
  let ?d1 = "(emit [PhyTxEnd (Some cur)] (d\<lparr>m_txMachineState := READY\<rparr>))\<lparr>m_currentPkt := None\<rparr>"
  show ?thesis
  proof (cases "m_packets q")
    case Nil
    then have "d' = ?d1\<lparr>m_queue := Some q\<rparr>"
      using t b cur q by (simp add: TransmitComplete_def Dequeue_empty [OF q(2)] Let_def emit_def)
    then show ?thesis using q Nil by (auto simp: completes_def kept_def)
  next
    case (Cons p ps)
    then obtain q1 where q1: "Dequeue (asserts_on E) (pkt E) q = Inr (Some p, q1)"
      "m_packets q1 = ps" "q_trace q1 = q_trace q @ [TraceDequeue p]"
      using Dequeue_head [OF q(2)] by blast
    let ?d2 = "emit [Sniffer p, PromiscSniffer p] (?d1\<lparr>m_queue := Some q1\<rparr>)"
    have "TransmitComplete E d = bind_res (TransmitStart E ?d2 p) (\<lambda>(_, d4). Inr d4)"
      using b cur q q1 by (simp add: TransmitComplete_def Let_def emit_def)
    then have d': "d' = ?d2\<lparr>m_txMachineState := BUSY, m_currentPkt := Some p,
        events := events ?d2 @ start_events E ?d2 p\<rparr>"
      using t c by (simp add: TransmitStart_ready)
    have "service E ?d2 p = service E d p" by (simp add: service_def)
    moreover have "enqueued (q_trace q1) = enqueued (q_trace q)" using q1(3) by (simp add: enqueued_def)
    ultimately show ?thesis using q q1(2) Cons unfolding d' completes_def by (auto simp: kept_def)
  qed
qed

section \<open>The timed system\<close>

text \<open>
  A device with the clock of the simulator, the sends that are still to come, when the pending
  completion is due, and when the packets that the queue accepted were sent and have started.
\<close>

record 'p timed =
  clock :: int
  dev :: "'p p2p_device"
  agenda :: "(int \<times> 'p \<times> u16) list"
  due :: "int option"
  send_times :: "int list"
  start_times :: "int list"

definition accepted :: "'p p2p_device \<Rightarrow> 'p list" where
  "accepted d = (case m_queue d of None \<Rightarrow> [] | Some q \<Rightarrow> enqueued (q_trace q))"

text \<open>Taking over a device after an event at time \<open>t\<close>.\<close>

definition absorb :: "int \<Rightarrow> 'p p2p_device \<Rightarrow> 'p timed \<Rightarrow> 'p timed" where
  "absorb t d' s =
     (let es = drop (length (events (dev s))) (events d') in
      s\<lparr>clock := t, dev := d', due := (if delays es = [] then due s else Some (t + last (delays es))),
        send_times := send_times s @ replicate (length (accepted d') - length (accepted (dev s))) t,
        start_times := start_times s @ replicate (length (on_channel es)) t\<rparr>)"

inductive timed_step :: "'p env \<Rightarrow> nat \<Rightarrow> 'p timed \<Rightarrow> 'p timed \<Rightarrow> bool" for E :: "'p env" and L :: nat where
  send_now: "agenda s = (t, p, proto) # rest \<Longrightarrow> (\<forall>c. due s = Some c \<longrightarrow> t \<le> c) \<Longrightarrow>
     room_for_headers E L p \<Longrightarrow> Send E (dev s) p proto = Inr (ok, d') \<Longrightarrow>
     timed_step E L s (absorb t d' (s\<lparr>agenda := rest\<rparr>))"
| complete_now: "due s = Some c \<Longrightarrow> (\<forall>x \<in> set (agenda s). c \<le> fst x) \<Longrightarrow>
     TransmitComplete E (dev s) = Inr d' \<Longrightarrow>
     timed_step E L s (absorb c d' (s\<lparr>due := None\<rparr>))"

text \<open>
  The system run for \<open>n\<close> events, completions before sends at the same time; it stops when nothing
  is left to do.
\<close>

fun run_timed :: "nat \<Rightarrow> 'p env \<Rightarrow> 'p timed \<Rightarrow> 'p timed res" where
  "run_timed 0 E s = Inr s"
| "run_timed (Suc n) E s =
     (case (due s, agenda s) of
        (None, []) \<Rightarrow> Inr s
      | (Some c, []) \<Rightarrow> bind_res (TransmitComplete E (dev s)) (\<lambda>d'.
          run_timed n E (absorb c d' (s\<lparr>due := None\<rparr>)))
      | (None, (t, p, proto) # rest) \<Rightarrow> bind_res (Send E (dev s) p proto) (\<lambda>(ok, d').
          run_timed n E (absorb t d' (s\<lparr>agenda := rest\<rparr>)))
      | (Some c, (t, p, proto) # rest) \<Rightarrow>
          if c \<le> t then bind_res (TransmitComplete E (dev s)) (\<lambda>d'.
            run_timed n E (absorb c d' (s\<lparr>due := None\<rparr>)))
          else bind_res (Send E (dev s) p proto) (\<lambda>(ok, d').
            run_timed n E (absorb t d' (s\<lparr>agenda := rest\<rparr>))))"

definition timed_start :: "nat \<Rightarrow> 'p timed \<Rightarrow> bool" where
  "timed_start L s \<longleftrightarrow> installed L (dev s) \<and> due s = None \<and> send_times s = [] \<and> start_times s = [] \<and>
     sorted (clock s # map fst (agenda s))"

text \<open>The jobs of the specification: send times with the service times of the packets.\<close>

definition jobs :: "'p env \<Rightarrow> 'p p2p_device \<Rightarrow> int list \<Rightarrow> 'p list \<Rightarrow> (int \<times> int) list" where
  "jobs E d ts ps = zip ts (map (service E d) ps)"

definition timed_laws :: "'p env \<Rightarrow> bool" where
  "timed_laws E \<longleftrightarrow> (\<forall>r n. 0 \<le> bytes_tx_time E r n)"

text \<open>
  The invariant relative to the initial state \<open>s0\<close>: the packets started so far have the start
  times of the specification, those waiting were sent before now, and the pending completion
  is due when the specification's server becomes free.
\<close>

definition timed_inv :: "'p env \<Rightarrow> nat \<Rightarrow> 'p timed \<Rightarrow> 'p timed \<Rightarrow> bool" where
  "timed_inv E L s0 s \<longleftrightarrow> machine_inv E L (dev s) \<and> kept (dev s0) (dev s) \<and>
     sorted (clock s # map fst (agenda s)) \<and>
     (\<exists>ts1 ts2. send_times s = ts1 @ ts2 \<and> length ts1 = length (on_channel (events (dev s))) \<and>
        length ts2 = length (m_packets (the (m_queue (dev s)))) \<and> (\<forall>t \<in> set ts2. t \<le> clock s) \<and>
        (let js = jobs E (dev s0) ts1 (on_channel (events (dev s))) in
           start_times s = starts (clock s0) js \<and>
           (if m_txMachineState (dev s) = BUSY
            then due s = Some (finish (clock s0) js) \<and> clock s \<le> finish (clock s0) js
            else due s = None \<and> finish (clock s0) js \<le> clock s)))"

lemma jobs_snoc:
  "length ts = length ps \<Longrightarrow> jobs E d (ts @ [t]) (ps @ [w]) = jobs E d ts ps @ [(t, service E d w)]"
  by (simp add: jobs_def)

lemma accepted_Some: "m_queue d = Some q \<Longrightarrow> accepted d = enqueued (q_trace q)"
  by (simp add: accepted_def)

lemma machine_inv_accepted:
  assumes "machine_inv E L d"
  shows "\<exists>q. m_queue d = Some q \<and> accepted d = on_channel (events d) @ m_packets q \<and>
    (m_txMachineState d = READY \<longrightarrow> m_packets q = [])"
  using assms by (auto simp: machine_inv_def accepted_def)

lemma timed_send:
  assumes i: "timed_inv E L s0 s" and a: "agenda s = (t, p, proto) # rest"
    and due: "\<forall>c. due s = Some c \<longrightarrow> t \<le> c" and d': "machine_inv E L d'"
    and f: "has_effect E (dev s) d' f" and E: "0 \<le> service E (dev s0) w"
    and w: "f \<in> {Refused, Queued w, Started w}"
  shows "timed_inv E L s0 (absorb t d' (s\<lparr>agenda := rest\<rparr>))"
proof -
  let ?d = "dev s" and ?F = "clock s0"
  obtain ts1 ts2 where ts: "send_times s = ts1 @ ts2" "length ts1 = length (on_channel (events ?d))"
    "length ts2 = length (m_packets (the (m_queue ?d)))" "\<forall>t \<in> set ts2. t \<le> clock s"
    "start_times s = starts ?F (jobs E (dev s0) ts1 (on_channel (events ?d)))"
    "if m_txMachineState ?d = BUSY
     then due s = Some (finish ?F (jobs E (dev s0) ts1 (on_channel (events ?d)))) \<and>
       clock s \<le> finish ?F (jobs E (dev s0) ts1 (on_channel (events ?d)))
     else due s = None \<and> finish ?F (jobs E (dev s0) ts1 (on_channel (events ?d))) \<le> clock s"
    using i by (auto simp: timed_inv_def Let_def)
  have k0: "kept (dev s0) ?d" using i by (simp add: timed_inv_def)
  have srt: "clock s \<le> t" "sorted (t # map fst rest)"
    using i a by (auto simp: timed_inv_def)
  obtain es q q' where e: "events d' = events ?d @ es" "m_queue ?d = Some q" "m_queue d' = Some q'"
    and k: "kept ?d d'" and
    eff: "case f of
        Refused \<Rightarrow> on_channel es = [] \<and> delays es = [] \<and> m_packets q' = m_packets q \<and>
          enqueued (q_trace q') = enqueued (q_trace q) \<and> m_txMachineState d' = m_txMachineState ?d
      | Queued w \<Rightarrow> on_channel es = [] \<and> delays es = [] \<and> m_packets q' = m_packets q @ [w] \<and>
          enqueued (q_trace q') = enqueued (q_trace q) @ [w] \<and>
          m_txMachineState ?d = BUSY \<and> m_txMachineState d' = BUSY
      | Started w \<Rightarrow> on_channel es = [w] \<and> delays es = [service E ?d w] \<and> m_packets q = [] \<and>
          m_packets q' = [] \<and> enqueued (q_trace q') = enqueued (q_trace q) @ [w] \<and>
          m_txMachineState ?d = READY \<and> m_txMachineState d' = BUSY"
    using f unfolding has_effect_def by blast
  note kt = kept_trans [OF k0 k]
  consider "f = Refused" | "f = Queued w" | "f = Started w" using w by blast
  then show ?thesis
  proof cases
    case 1
    then have "\<forall>u \<in> set ts2. u \<le> t" using ts(4) srt(1) by auto
    then show ?thesis
      using 1 ts srt due e eff kt d' unfolding timed_inv_def
      by (intro conjI exI [of _ ts1] exI [of _ ts2])
        (auto simp: absorb_def accepted_def Let_def split: if_splits)
  next
    case 2
    then have "send_times (absorb t d' (s\<lparr>agenda := rest\<rparr>)) = ts1 @ (ts2 @ [t])"
      using eff e ts(1) by (simp add: absorb_def accepted_def Let_def)
    moreover have "\<forall>u \<in> set (ts2 @ [t]). u \<le> t" using ts(4) srt(1) by auto
    ultimately show ?thesis
      using 2 ts srt due e eff kt d' unfolding timed_inv_def
      by (intro conjI exI [of _ ts1] exI [of _ "ts2 @ [t]"])
        (auto simp: absorb_def accepted_def Let_def split: if_splits)
  next
    case 3
    then have "ts2 = []" using eff ts(3) e(2) by simp
    moreover have "max (finish ?F (jobs E (dev s0) ts1 (on_channel (events ?d)))) t = t"
      using 3 eff ts(6) srt(1) by simp
    ultimately show ?thesis
      using 3 ts srt e eff kt d' E kept_service [OF k0, of E] unfolding timed_inv_def
      by (intro conjI exI [of _ "ts1 @ [t]"] exI [of _ "[]"])
        (auto simp: absorb_def accepted_def jobs_snoc starts_snoc finish_snoc Let_def)
  qed
qed

lemma timed_complete:
  assumes i: "timed_inv E L s0 s" and c: "due s = Some c" and a: "\<forall>x \<in> set (agenda s). c \<le> fst x"
    and d': "machine_inv E L d'" and f: "completes E (dev s) d'" and E: "\<And>w. 0 \<le> service E (dev s0) w"
  shows "timed_inv E L s0 (absorb c d' (s\<lparr>due := None\<rparr>))"
proof -
  let ?d = "dev s" and ?F = "clock s0"
  obtain ts1 ts2 where ts: "send_times s = ts1 @ ts2" "length ts1 = length (on_channel (events ?d))"
    "length ts2 = length (m_packets (the (m_queue ?d)))" "\<forall>t \<in> set ts2. t \<le> clock s"
    "start_times s = starts ?F (jobs E (dev s0) ts1 (on_channel (events ?d)))"
    "c = finish ?F (jobs E (dev s0) ts1 (on_channel (events ?d)))" "clock s \<le> c"
    using i c by (auto simp: timed_inv_def Let_def split: if_splits)
  have k0: "kept (dev s0) ?d" using i by (simp add: timed_inv_def)
  have srt: "sorted (c # map fst (agenda s))" using i a by (auto simp: timed_inv_def)
  obtain es q q' where e: "events d' = events ?d @ es" "m_queue ?d = Some q" "m_queue d' = Some q'"
      "enqueued (q_trace q') = enqueued (q_trace q)"
    and k: "kept ?d d'" and eff: "case m_packets q of
        [] \<Rightarrow> on_channel es = [] \<and> delays es = [] \<and> m_packets q' = [] \<and> m_txMachineState d' = READY
      | p # ps \<Rightarrow> on_channel es = [p] \<and> delays es = [service E ?d p] \<and> m_packets q' = ps \<and>
          m_txMachineState d' = BUSY"
    using f unfolding completes_def by blast
  note kt = kept_trans [OF k0 k]
  show ?thesis
  proof (cases "m_packets q")
    case Nil
    then show ?thesis
      using ts srt e eff kt d' unfolding timed_inv_def
      by (intro conjI exI [of _ ts1] exI [of _ "[]"]) (auto simp: absorb_def accepted_def Let_def)
  next
    case (Cons p ps)
    then obtain u us where u: "ts2 = u # us" using ts(3) e(2) by (cases ts2) auto
    have "max c u = c" using ts(4,7) u by auto
    moreover have "\<forall>v \<in> set us. v \<le> c" using ts(4,7) u by auto
    ultimately show ?thesis
      using Cons ts u srt e eff kt d' E [of p] kept_service [OF k0, of E] unfolding timed_inv_def
      by (intro conjI exI [of _ "ts1 @ [u]"] exI [of _ us])
        (auto simp: absorb_def accepted_def jobs_snoc starts_snoc finish_snoc Let_def)
  qed
qed

text \<open>The assumptions on the platform and the initial state.\<close>

definition timed_run :: "'p env \<Rightarrow> nat \<Rightarrow> 'p timed \<Rightarrow> bool" where
  "timed_run E L s0 \<longleftrightarrow> run_time E L \<and> timed_laws E \<and> timed_start L s0 \<and> 0 \<le> m_tInterframeGap (dev s0)"

lemma service_nonneg: "timed_run E L s0 \<Longrightarrow> 0 \<le> service E (dev s0) w"
  by (simp add: timed_run_def timed_laws_def service_def)

lemma timed_start_inv:
  assumes "timed_run E L s0"
  shows "timed_inv E L s0 s0"
proof -
  have i: "installed L (dev s0)" "due s0 = None" "send_times s0 = []" "start_times s0 = []"
    "sorted (clock s0 # map fst (agenda s0))"
    using assms by (simp_all add: timed_run_def timed_start_def)
  have "on_channel (events (dev s0)) = []" "m_packets (the (m_queue (dev s0))) = []"
    "m_txMachineState (dev s0) = READY"
    using i(1) quiet_history [of "events (dev s0)"] by (auto simp: installed_def DropTailQueue_def)
  then show ?thesis
    using i installed_inv [OF i(1), of E] by (auto simp: timed_inv_def jobs_def)
qed

lemma timed_step_cases:
  assumes R: "timed_run E L s0" and i: "timed_inv E L s0 s" and st: "timed_step E L s s'"
  obtains (sent) t p proto rest d' f w where "agenda s = (t, p, proto) # rest"
      "s' = absorb t d' (s\<lparr>agenda := rest\<rparr>)" "\<forall>c. due s = Some c \<longrightarrow> t \<le> c" "machine_inv E L d'"
      "has_effect E (dev s) d' f" "f \<in> {Refused, Queued w, Started w}"
      "f \<noteq> Refused \<longrightarrow> GetSize (pkt E) w = wire_size E (dev s) p proto"
    | (done_) c d' where "due s = Some c" "\<forall>x \<in> set (agenda s). c \<le> fst x"
      "s' = absorb c d' (s\<lparr>due := None\<rparr>)" "machine_inv E L d'" "completes E (dev s) d'"
  using st
proof (cases rule: timed_step.cases)
  case (send_now t p proto rest ok d')
  have r: "run_time E L" "machine_inv E L (dev s)" using R i by (simp_all add: timed_run_def timed_inv_def)
  have m: "machine_inv E L d'"
    using Send_inv [OF _ _ _ r(2) send_now(4,5)] r(1) by (simp add: run_time_def)
  from Send_effect [OF r send_now(4,5)] show thesis
  proof (elim disjE exE conjE)
    assume "has_effect E (dev s) d' Refused"
    then show thesis by (intro sent [OF send_now(2,1,3) m, of Refused]) auto
  next
    fix w assume "GetSize (pkt E) w = wire_size E (dev s) p proto" "has_effect E (dev s) d' (Queued w)"
    then show thesis by (intro sent [OF send_now(2,1,3) m, of "Queued w" w]) auto
  next
    fix w assume "GetSize (pkt E) w = wire_size E (dev s) p proto" "has_effect E (dev s) d' (Started w)"
    then show thesis by (intro sent [OF send_now(2,1,3) m, of "Started w" w]) auto
  qed
next
  case (complete_now c d')
  have m: "machine_inv E L (dev s)" using i by (simp add: timed_inv_def)
  have b: "m_txMachineState (dev s) = BUSY"
    using i complete_now(2) by (auto simp: timed_inv_def Let_def split: if_splits)
  then have "machine_inv E L d'" using machine_complete [OF m b] complete_now(4) by auto
  then show thesis using done_ complete_now complete_effect [OF m b complete_now(4)] by blast
qed

lemma timed_step_inv:
  assumes R: "timed_run E L s0" and i: "timed_inv E L s0 s" and st: "timed_step E L s s'"
  shows "timed_inv E L s0 s'"
  using R i st
proof (cases rule: timed_step_cases)
  case (sent t p proto rest d' f w)
  show ?thesis
    unfolding sent(2) by (rule timed_send [OF i sent(1,3,4,5) service_nonneg [OF R] sent(6)])
next
  case (done_ c d')
  show ?thesis
    unfolding done_(3) by (rule timed_complete [OF i done_(1,2,4,5) service_nonneg [OF R]])
qed

interpretation timed: invariant_system
    "\<lambda>s. timed_run E L s0 \<and> s = s0" "timed_step E L" "\<lambda>s. timed_run E L s0 \<and> timed_inv E L s0 s"
  for E :: "'p env" and L s0
  by unfold_locales (auto intro: timed_start_inv timed_step_inv)

text \<open>States reached from \<open>s0\<close>.\<close>

definition timed_reachable :: "'p env \<Rightarrow> nat \<Rightarrow> 'p timed \<Rightarrow> 'p timed \<Rightarrow> bool" where
  "timed_reachable E L s0 s \<longleftrightarrow> reaches (\<lambda>s. s = s0) (timed_step E L) s"

lemma timed_reachable_inv:
  assumes "timed_run E L s0" and "timed_reachable E L s0 s"
  shows "timed_inv E L s0 s"
proof -
  have "reaches (\<lambda>s. timed_run E L s0 \<and> s = s0) (timed_step E L) s"
    using assms by (simp add: timed_reachable_def)
  then show ?thesis by (blast dest: timed.reachable_inv)
qed

lemma departures:
  assumes "timed_run E L s0" and "timed_reachable E L s0 s" and "due s = None"
  shows "on_channel (events (dev s)) = accepted (dev s) \<and> length (send_times s) = length (accepted (dev s)) \<and>
    start_times s = starts (clock s0) (jobs E (dev s0) (send_times s) (accepted (dev s)))"
proof -
  have i: "timed_inv E L s0 s" using timed_reachable_inv [OF assms(1,2)] .
  then have "m_txMachineState (dev s) = READY"
    using assms(3) by (cases "m_txMachineState (dev s)") (auto simp: timed_inv_def Let_def)
  moreover have "machine_inv E L (dev s)" using i by (simp add: timed_inv_def)
  then obtain q where "m_queue (dev s) = Some q"
    "accepted (dev s) = on_channel (events (dev s)) @ m_packets q"
    "m_txMachineState (dev s) = READY \<longrightarrow> m_packets q = []"
    using machine_inv_accepted by blast
  ultimately show ?thesis using i by (auto simp: timed_inv_def Let_def)
qed

text \<open>
  A computed run of sends that leave room for the headers ends in a state reached from \<open>s0\<close>.
\<close>

lemma run_timed_reachable:
  assumes R: "timed_run E L s0" and "run_timed n E s = Inr s'" and "timed_reachable E L s0 s"
    and "\<forall>(t, p, pr) \<in> set (agenda s). room_for_headers E L p"
  shows "timed_reachable E L s0 s'"
  using assms(2-4)
proof (induction n arbitrary: s)
  case (Suc n)
  have "timed_inv E L s0 s" using timed_reachable_inv [OF R Suc.prems(2)] .
  then have srt: "sorted (map fst (agenda s))" by (simp add: timed_inv_def)
  have step: "timed_reachable E L s0 s2" if "timed_step E L s s2" for s2
    using Suc.prems(2) that reaches_step unfolding timed_reachable_def by metis
  have snd: "timed_reachable E L s0 s'"
    if "agenda s = (t, p, pr) # rest" "\<forall>c. due s = Some c \<longrightarrow> t \<le> c" "Send E (dev s) p pr = Inr (ok, d')"
      "run_timed n E (absorb t d' (s\<lparr>agenda := rest\<rparr>)) = Inr s'" for t p pr rest ok d'
    using Suc.prems(3) that
    by (intro Suc.IH [OF that(4)] step timed_step.send_now) (auto simp: absorb_def Let_def)
  have cmp: "timed_reachable E L s0 s'"
    if "due s = Some c" "\<forall>x \<in> set (agenda s). c \<le> fst x" "TransmitComplete E (dev s) = Inr d'"
      "run_timed n E (absorb c d' (s\<lparr>due := None\<rparr>)) = Inr s'" for c d'
    using Suc.prems(3) that
    by (intro Suc.IH [OF that(4)] step timed_step.complete_now) (auto simp: absorb_def Let_def)
  show ?case
  proof (cases "due s")
    case None
    then show ?thesis
      using Suc.prems(1,2) snd by (cases "agenda s") (auto simp: bind_res_eq_Inr)
  next
    case (Some c)
    show ?thesis
    proof (cases "\<exists>x \<in> set (agenda s). fst x < c")
      case False
      then show ?thesis
        using Suc.prems(1) Some cmp [OF Some] by (cases "agenda s") (auto simp: bind_res_eq_Inr not_less)
    next
      case True
      then obtain t p pr rest where a: "agenda s = (t, p, pr) # rest" by (cases "agenda s") auto
      then have "t < c" using True srt by auto
      then show ?thesis using Suc.prems(1) Some a snd [OF a] by (auto simp: bind_res_eq_Inr)
    qed
  qed
qed auto

end
