(* ===== verification/Timed_Detection.thy ===== *)
theory Timed_Detection
  imports Timed_Line
begin

text \<open>
  Trains of probes through the compressing device: how large its packets are on the wire, when
  they leave, and that the rhythm in which they leave says nothing about their content.
\<close>

section \<open>Sizes on the wire\<close>

text \<open>Sends of packets of \<open>k\<close> bytes, all of one protocol.\<close>

definition uniform :: "'p env \<Rightarrow> u32 \<Rightarrow> u16 \<Rightarrow> 'p timed \<Rightarrow> bool" where
  "uniform E k proto s \<longleftrightarrow> (\<forall>(t, p, pr) \<in> set (agenda s). GetSize (pkt E) p = k \<and> pr = proto)"

definition wire_bytes :: "'p p2p_device \<Rightarrow> u32 \<Rightarrow> u16 \<Rightarrow> u32" where
  "wire_bytes d k proto = k + (if compresses d proto then 10 else 2)"

definition uniform_inv :: "'p env \<Rightarrow> nat \<Rightarrow> 'p timed \<Rightarrow> u32 \<Rightarrow> u16 \<Rightarrow> 'p timed \<Rightarrow> bool" where
  "uniform_inv E L s0 k proto s \<longleftrightarrow> timed_inv E L s0 s \<and> uniform E k proto s \<and>
     (\<forall>w \<in> set (accepted (dev s)). GetSize (pkt E) w = wire_bytes (dev s0) k proto)"

lemma accepted_effect:
  "has_effect E d d' f \<Longrightarrow> f \<in> {Refused, Queued w, Started w} \<Longrightarrow>
     accepted d' = accepted d @ (if f = Refused then [] else [w])"
  by (auto simp: has_effect_def accepted_def)

lemma accepted_completes: "completes E d d' \<Longrightarrow> accepted d' = accepted d"
  by (auto simp: completes_def accepted_def)

lemma absorb_fields [simp]:
  "dev (absorb t d' s) = d'" "agenda (absorb t d' s) = agenda s" "clock (absorb t d' s) = t"
  by (simp_all add: absorb_def Let_def)

lemma uniform_step:
  assumes R: "timed_run E L s0" and i: "uniform_inv E L s0 k proto s" and st: "timed_step E L s s'"
  shows "uniform_inv E L s0 k proto s'"
proof -
  have ti: "timed_inv E L s0 s" using i by (simp add: uniform_inv_def)
  note next_inv = timed_step_inv [OF R ti st]
  show ?thesis
    using R ti st
  proof (cases rule: timed_step_cases)
    case (sent t p pr rest d' f w)
    have "kept (dev s0) (dev s)" using ti by (simp add: timed_inv_def)
    moreover have "GetSize (pkt E) p = k" "pr = proto"
      using i sent(1) by (auto simp: uniform_inv_def uniform_def)
    ultimately have "wire_size E (dev s) p pr = wire_bytes (dev s0) k proto"
      by (simp add: wire_size_def wire_bytes_def compresses_def kept_def)
    then show ?thesis
      using i next_inv sent accepted_effect [OF sent(5,6)]
      by (auto simp: uniform_inv_def uniform_def)
  next
    case (done_ c d')
    then show ?thesis
      using i next_inv accepted_completes [OF done_(5)] by (simp add: uniform_inv_def uniform_def)
  qed
qed

interpretation uniform: invariant_system
    "\<lambda>s. timed_run E L s0 \<and> uniform E k proto s0 \<and> s = s0" "timed_step E L"
    "\<lambda>s. timed_run E L s0 \<and> uniform_inv E L s0 k proto s"
  for E :: "'p env" and L s0 k proto
proof unfold_locales
  fix s assume a: "timed_run E L s0 \<and> uniform E k proto s0 \<and> s = s0"
  then have "installed L (dev s0)" by (simp add: timed_run_def timed_start_def)
  then have "accepted (dev s0) = []"
    by (auto simp: installed_def accepted_def DropTailQueue_def)
  then show "timed_run E L s0 \<and> uniform_inv E L s0 k proto s"
    using a timed_start_inv by (auto simp: uniform_inv_def)
qed (auto intro: uniform_step)

lemma uniform_services:
  assumes "timed_run E L s0" and "timed_reachable E L s0 s" and "uniform E k proto s0"
  shows "map (service E (dev s0)) (accepted (dev s)) =
    replicate (length (accepted (dev s))) (bytes_tx_time E (m_bps (dev s0)) (wire_bytes (dev s0) k proto)
      + m_tInterframeGap (dev s0))"
proof -
  have "reaches (\<lambda>s. timed_run E L s0 \<and> uniform E k proto s0 \<and> s = s0) (timed_step E L) s"
    using assms by (simp add: timed_reachable_def)
  then have "uniform_inv E L s0 k proto s" by (blast dest: uniform.reachable_inv)
  then show ?thesis
    by (auto simp: uniform_inv_def service_def map_replicate_const [symmetric] intro: map_cong)
qed

section \<open>Trains\<close>

text \<open>Sends at the times \<open>offsets\<close> after \<open>t\<close>, each with the service time \<open>v\<close>.\<close>

definition train :: "int \<Rightarrow> int \<Rightarrow> int list \<Rightarrow> (int \<times> int) list" where
  "train v t offsets = map (\<lambda>x. (t + x, v)) offsets"

lemma train_shift: "train v (t + c) offsets = map (\<lambda>(y, s). (y + c, s)) (train v t offsets)"
  by (simp add: train_def algebra_simps)

text \<open>Two trains that find the line free leave it in the same rhythm.\<close>

lemma trains_same_rhythm:
  assumes "offsets \<noteq> []" and "f \<le> t + hd offsets" and "g \<le> u + hd offsets"
  shows "starts g (train v u offsets) = map (\<lambda>x. x + (u - t)) (starts f (train v t offsets))"
proof -
  obtain x xs where o: "offsets = x # xs" using assms(1) by (cases offsets) auto
  have a: "starts f (train v t offsets) = starts (t + x) (train v t offsets)"
    using assms(2) o by (simp add: train_def starts_free)
  have b: "starts g (train v u offsets) = starts (u + x) (train v u offsets)"
    using assms(3) o by (simp add: train_def starts_free)
  have "starts (t + x + (u - t)) (map (\<lambda>(y, s). (y + (u - t), s)) (train v t offsets)) =
      map (\<lambda>y. y + (u - t)) (starts (t + x) (train v t offsets))"
    by (rule starts_shift)
  then show ?thesis unfolding a b train_shift [symmetric] by (simp add: algebra_simps)
qed

text \<open>Two trains of two packets, sent on a compressing device.\<close>

definition sample_timed :: "byte list timed" where
  "sample_timed = \<lparr>clock = 0, dev = compressing_device,
     agenda = [(0, [65, 66, 0], 0x0800), (50, [65, 66, 0], 0x0800),
               (1000, [67, 68, 0], 0x0800), (1050, [67, 68, 0], 0x0800)],
     due = None, send_times = [], start_times = []\<rparr>"


lemma sample_timed_run: "timed_run (byte_env True) 2000 sample_timed"
  using sample_limit sample_run_time
  by (auto simp: timed_run_def timed_start_def timed_laws_def sample_timed_def installed_def
      compressing_device_def sample_device_def byte_env_def)

text \<open>All four packets leave, and the line is idle at the end.\<close>

lemma sample_timed_end:
  "\<exists>s. timed_reachable (byte_env True) 2000 sample_timed s \<and> due s = None \<and>
     send_times s = [0, 50, 1000, 1050] \<and> length (accepted (dev s)) = 4"
proof -
  have "case run_timed 8 (byte_env True) sample_timed of Inr s \<Rightarrow> due s = None \<and>
      send_times s = [0, 50, 1000, 1050] \<and> length (accepted (dev s)) = 4 | Inl _ \<Rightarrow> False"
    by code_simp
  then obtain s where s: "run_timed 8 (byte_env True) sample_timed = Inr s" "due s = None"
      "send_times s = [0, 50, 1000, 1050]" "length (accepted (dev s)) = 4"
    by (auto split: sum.splits)
  have "\<forall>(t, p, pr) \<in> set (agenda sample_timed). room_for_headers (byte_env True) 2000 p"
    by (simp add: sample_timed_def room_for_headers_def byte_packets_def)
  moreover have "timed_reachable (byte_env True) 2000 sample_timed sample_timed"
    by (simp add: timed_reachable_def reaches_init)
  ultimately show ?thesis
    using run_timed_reachable [OF sample_timed_run s(1)] s(2-4) by blast
qed

section \<open>Properties\<close>

text \<open>
  C4. When packets leave: in simulated time the device is a server with one queue. In every state
  without a pending completion, the packets that its queue accepted have all been put on the
  channel in order, and each was started at the time the specification computes from the
  times of the sends and the transmission times, whichever of two simultaneous events runs first.
\<close>

theorem departure_times:
  assumes "timed_run E L s0" and "timed_reachable E L s0 s" and "due s = None"
  shows "on_channel (events (dev s)) = accepted (dev s) \<and>
    start_times s = starts (clock s0) (jobs E (dev s0) (send_times s) (accepted (dev s)))"
  using departures [OF assms] by blast

theorem departure_times_witness:
  "\<exists>s. timed_reachable (byte_env True) 2000 sample_timed s \<and> length (accepted (dev s)) = 4 \<and>
     start_times s = starts 0 (jobs (byte_env True) compressing_device [0, 50, 1000, 1050] (accepted (dev s)))"
proof -
  obtain s where s: "timed_reachable (byte_env True) 2000 sample_timed s" "due s = None"
    "send_times s = [0, 50, 1000, 1050]" "length (accepted (dev s)) = 4"
    using sample_timed_end by blast
  show ?thesis
    using departure_times [OF sample_timed_run s(1,2)] s by (auto simp: sample_timed_def)
qed

text \<open>Every packet that leaves has the size that packets of this protocol have on the wire.\<close>

lemma uniform_departures:
  assumes R: "timed_run E L s0" and r: "timed_reachable E L s0 s" and d: "due s = None"
    and u: "uniform E k proto s0"
  shows "\<forall>w \<in> set (on_channel (events (dev s))). GetSize (pkt E) w = wire_bytes (dev s0) k proto"
    and "jobs E (dev s0) (send_times s) (accepted (dev s)) =
      map (\<lambda>x. (x, bytes_tx_time E (m_bps (dev s0)) (wire_bytes (dev s0) k proto) + m_tInterframeGap (dev s0)))
        (send_times s)"
proof -
  note dep = departures [OF R r d]
  have "reaches (\<lambda>s. timed_run E L s0 \<and> uniform E k proto s0 \<and> s = s0) (timed_step E L) s"
    using R r u by (simp add: timed_reachable_def)
  then have "uniform_inv E L s0 k proto s" by (blast dest: uniform.reachable_inv)
  then show "\<forall>w \<in> set (on_channel (events (dev s))). GetSize (pkt E) w = wire_bytes (dev s0) k proto"
    using dep by (simp add: uniform_inv_def)
  show "jobs E (dev s0) (send_times s) (accepted (dev s)) =
      map (\<lambda>x. (x, bytes_tx_time E (m_bps (dev s0)) (wire_bytes (dev s0) k proto) + m_tInterframeGap (dev s0)))
        (send_times s)"
    using dep uniform_services [OF R r u]
    by (auto simp: jobs_def intro!: nth_equalityI)
qed

text \<open>
  C3. The line does not show what was compressed: let the device, compressing or not, accept two
  trains of packets of one size and protocol, the second in the rhythm of the first and on a free
  line, and finish them. Whatever their bytes, all packets have one size on the channel, and the
  second train starts on it in exactly the rhythm of the first: the time between the first and the last
  start of a train is the same for both.
\<close>

theorem trains_leave_alike:
  assumes "timed_run E L s0" and "timed_reachable E L s0 s" and "due s = None"
    and "uniform E k proto s0"
    and "v = bytes_tx_time E (m_bps (dev s0)) (wire_bytes (dev s0) k proto) + m_tInterframeGap (dev s0)"
    and "send_times s = map ((+) t) offsets @ map ((+) u) offsets" and "offsets \<noteq> []"
    and "clock s0 \<le> t + hd offsets" and "finish (clock s0) (train v t offsets) \<le> u + hd offsets"
  shows "(\<forall>w \<in> set (on_channel (events (dev s))). GetSize (pkt E) w = wire_bytes (dev s0) k proto) \<and>
    (\<exists>first second. start_times s = first @ second \<and> length first = length offsets \<and>
      second = map (\<lambda>x. x + (u - t)) first \<and> last second - hd second = last first - hd first)"
proof -
  let ?first = "starts (clock s0) (train v t offsets)"
  have j: "jobs E (dev s0) (send_times s) (accepted (dev s)) = train v t offsets @ train v u offsets"
    using uniform_departures(2) [OF assms(1-4)] assms(5,6) by (simp add: train_def)
  have "start_times s = starts (clock s0) (train v t offsets @ train v u offsets)"
    using departures [OF assms(1-3)] unfolding j by blast
  then have s: "start_times s = ?first @ map (\<lambda>x. x + (u - t)) ?first"
    by (simp only: starts_append trains_same_rhythm [OF assms(7-9)])
  have l: "length ?first = length offsets" by (simp add: train_def)
  then have "?first \<noteq> []" using assms(7) by (metis length_0_conv)
  then show ?thesis
    using s l uniform_departures(1) [OF assms(1-4)]
    by (intro conjI exI [of _ ?first] exI [of _ "map (\<lambda>x. x + (u - t)) ?first"]) (simp_all add: last_map hd_map)
qed

theorem trains_leave_alike_witness:
  "\<exists>s first. timed_reachable (byte_env True) 2000 sample_timed s \<and>
     start_times s = first @ map (\<lambda>x. x + 1000) first \<and> length first = 2"
proof -
  obtain s where s: "timed_reachable (byte_env True) 2000 sample_timed s" "due s = None"
    "send_times s = [0, 50, 1000, 1050]"
    using sample_timed_end by blast
  have u: "uniform (byte_env True) 3 0x0800 sample_timed"
    by (simp add: uniform_def sample_timed_def byte_packets_def)
  have v: "104 = bytes_tx_time (byte_env True) (m_bps (dev sample_timed))
      (wire_bytes (dev sample_timed) 3 0x0800) + m_tInterframeGap (dev sample_timed)"
    by (simp add: sample_timed_def byte_env_def wire_bytes_def compressing_device_def sample_device_def
        compresses_def)
  have t: "send_times s = map ((+) 0) [0, 50] @ map ((+) 1000) [0, 50]" using s(3) by simp
  have f: "clock sample_timed \<le> 0 + hd [0, 50]"
    "finish (clock sample_timed) (train 104 0 [0, 50]) \<le> 1000 + hd [0, 50]"
    by (simp_all add: train_def sample_timed_def)
  then obtain first where "start_times s = first @ map (\<lambda>x. x + (1000 - 0)) first" "length first = length [0 :: int, 50]"
    using trains_leave_alike [OF sample_timed_run s(1,2) u v t _ f] by blast
  then show ?thesis using s(1) by (intro exI [of _ s] exI [of _ first]) simp
qed

end
