(* ===== verification/Udp_Client.thy ===== *)
theory Udp_Client
  imports Platform
begin

text \<open>
  The traffic source, \<open>src/model/udp-app-client.cc\<close>: its attributes and life cycle, the data
  fills, the array of random data read from a file, and \<open>Send\<close>, which sends the low entropy
  packets, waits, and then sends the high entropy ones. Members whose name another class of the
  repository uses too have the suffix \<open>_c\<close>.
\<close>

section \<open>State\<close>

datatype 'p client_event =
  TxTrace 'p | TxWithAddressesTrace 'p address address | RxTrace 'p | RxWithAddressesTrace 'p address address
| SocketCreated | SocketBind | SocketBind6 | SocketConnect address | SocketRecvCallback bool
| SocketAllowBroadcast | SocketSend 'p | SocketClose
| ScheduleSend int | CancelSend | SleepForMilliseconds nat

text \<open>
  \<open>m_data\<close> is the buffer the pointer points to, \<open>m_sendEvent\<close> whether the event it refers to
  is still pending, and \<open>m_socket_c\<close> a socket's identifier.
\<close>

record 'p udp_client =
  m_count_c :: u32
  m_interval :: int
  m_size_c :: u32
  m_dataSize :: u32
  m_data :: "byte list option"
  m_sent_l :: u32
  m_sent_h :: u32
  m_socket_c :: "nat option"
  m_peerAddress :: address
  m_peerPort :: u16
  m_sendEvent :: bool
  packets :: "byte list"
  lowPackets :: "byte list"
  c_events :: "'p client_event list"

definition c_log :: "'p client_event list \<Rightarrow> 'p udp_client \<Rightarrow> 'p udp_client" where
  "c_log es c = c\<lparr>c_events := c_events c @ es\<rparr>"

text \<open>
  The client's surroundings: whether assertions are compiled in, packets, what a \<open>new\<close> of a
  number of bytes finds in memory, the results of \<open>Bind\<close> and \<open>Bind6\<close>, the identifier of the
  next socket and the address of a bound one.
\<close>

record 'p app_env =
  app_asserts :: bool
  app_pkt :: "'p packet_api"
  heap :: "nat \<Rightarrow> byte list"
  bind_result :: int
  bind6_result :: int
  next_socket :: nat
  sock_name :: address

definition app_laws :: "'p app_env \<Rightarrow> bool" where
  "app_laws E \<longleftrightarrow> packet_laws (app_pkt E) \<and> (\<forall>n. length (heap E n) = n)"

section \<open>Construction and attributes\<close>

text \<open>
  The constructor's \<open>packets\<close> and \<open>lowPackets\<close> are local arrays of the same names, so the two
  members keep what the memory \<open>raw\<close> held. The attributes' initial values follow.
\<close>

definition UdpAppClient :: "'p udp_client \<Rightarrow> 'p udp_client" where
  "UdpAppClient raw = raw\<lparr>m_sent_l := 0, m_sent_h := 0, m_socket_c := None, m_sendEvent := False,
     m_data := None, m_dataSize := 0, m_peerAddress := NoAddress, c_events := []\<rparr>"

datatype client_attribute =
  MaxPacketsAttr nat | IntervalAttr int | RemoteAddressAttr address | RemotePortAttr nat
| PacketSizeAttr nat

definition client_defaults :: "client_attribute list" where
  "client_defaults = [MaxPacketsAttr 12000, IntervalAttr 1000000000, RemoteAddressAttr NoAddress,
     RemotePortAttr 0, PacketSizeAttr 1100]"

text \<open>Setting an attribute; \<open>None\<close> is a value its checker refuses.\<close>

fun set_client_attribute :: "client_attribute \<Rightarrow> 'p udp_client \<Rightarrow> 'p udp_client option" where
  "set_client_attribute (MaxPacketsAttr n) c =
     (if n < 2 ^ 32 then Some (c\<lparr>m_count_c := of_nat n\<rparr>) else None)"
| "set_client_attribute (IntervalAttr t) c = Some (c\<lparr>m_interval := t\<rparr>)"
| "set_client_attribute (RemoteAddressAttr a) c = Some (c\<lparr>m_peerAddress := a\<rparr>)"
| "set_client_attribute (RemotePortAttr n) c =
     (if n < 2 ^ 16 then Some (c\<lparr>m_peerPort := of_nat n\<rparr>) else None)"
| "set_client_attribute (PacketSizeAttr n) c =
     (if n < 2 ^ 32 then Some (c\<lparr>m_size_c := of_nat n\<rparr>) else None)"

fun set_client_attributes :: "client_attribute list \<Rightarrow> 'p udp_client \<Rightarrow> 'p udp_client option" where
  "set_client_attributes [] c = Some c"
| "set_client_attributes (a # as) c =
     (case set_client_attribute a c of None \<Rightarrow> None | Some c1 \<Rightarrow> set_client_attributes as c1)"

definition client_destroy :: "'p udp_client \<Rightarrow> 'p udp_client" where
  "client_destroy c = c\<lparr>m_socket_c := None, m_data := None, m_dataSize := 0\<rparr>"

definition SetRemote :: "address \<Rightarrow> u16 \<Rightarrow> 'p udp_client \<Rightarrow> 'p udp_client" where
  "SetRemote ip port c = c\<lparr>m_peerAddress := ip, m_peerPort := port\<rparr>"

definition SetRemoteAddress :: "address \<Rightarrow> 'p udp_client \<Rightarrow> 'p udp_client" where
  "SetRemoteAddress addr c = c\<lparr>m_peerAddress := addr\<rparr>"

section \<open>Data fills\<close>

definition SetDataSize :: "u32 \<Rightarrow> 'p udp_client \<Rightarrow> 'p udp_client" where
  "SetDataSize dataSize c = c\<lparr>m_data := None, m_dataSize := 0, m_size_c := dataSize\<rparr>"

definition GetDataSize :: "'p udp_client \<Rightarrow> u32" where
  "GetDataSize c = m_size_c c"

text \<open>The reallocation at the start of each \<open>SetFill\<close>.\<close>

definition resize_data :: "'p app_env \<Rightarrow> u32 \<Rightarrow> 'p udp_client \<Rightarrow> 'p udp_client" where
  "resize_data E dataSize c =
     (if dataSize \<noteq> m_dataSize c
      then c\<lparr>m_data := Some (heap E (unat dataSize)), m_dataSize := dataSize\<rparr> else c)"

text \<open>
  \<open>memcpy\<close> of \<open>bs\<close> to position \<open>off\<close> of the buffer \<open>m_data\<close>: nothing when \<open>bs\<close> is empty,
  undefined when the buffer does not have the room.
\<close>

definition write_data :: "nat \<Rightarrow> byte list \<Rightarrow> 'p udp_client \<Rightarrow> 'p udp_client res" where
  "write_data off bs c =
     (if bs = [] then Inr c
      else case m_data c of
        None \<Rightarrow> Inl (Undefined ''m_data'')
      | Some buf \<Rightarrow> if off + length bs \<le> length buf
          then Inr (c\<lparr>m_data := Some (take off buf @ bs @ drop (off + length bs) buf)\<rparr>)
          else Inl (Undefined ''m_data''))"

text \<open>\<open>SetFill (std::string)\<close>: the bytes of the string and a terminating zero.\<close>

definition SetFill_string :: "'p app_env \<Rightarrow> byte list \<Rightarrow> 'p udp_client \<Rightarrow> 'p udp_client res" where
  "SetFill_string E fill c =
     (let dataSize = (of_nat (length fill) :: u32) + 1; c1 = resize_data E dataSize c
      in bind_res (write_data 0 (take (unat dataSize) (fill @ [0])) c1) (\<lambda>c2.
           Inr (c2\<lparr>m_size_c := dataSize\<rparr>)))"

definition SetFill_byte :: "'p app_env \<Rightarrow> byte \<Rightarrow> u32 \<Rightarrow> 'p udp_client \<Rightarrow> 'p udp_client res" where
  "SetFill_byte E fill dataSize c =
     (let c1 = resize_data E dataSize c
      in bind_res (write_data 0 (replicate (unat dataSize) fill) c1) (\<lambda>c2.
           Inr (c2\<lparr>m_size_c := dataSize\<rparr>)))"

text \<open>Reading the first \<open>n\<close> bytes behind a pointer to the array \<open>fill\<close>.\<close>

definition read_fill :: "byte list \<Rightarrow> nat \<Rightarrow> byte list res" where
  "read_fill fill n = (if n \<le> length fill then Inr (take n fill) else Inl (Undefined ''fill''))"

text \<open>
  The loop of \<open>SetFill (uint8_t *, uint32_t, uint32_t)\<close> with fuel; \<open>None\<close> is a loop that has
  not ended. \<open>filled + fillSize\<close> wraps at 32 bits.
\<close>

fun fill_loop :: "nat \<Rightarrow> byte list \<Rightarrow> u32 \<Rightarrow> u32 \<Rightarrow> u32 \<Rightarrow> 'p udp_client \<Rightarrow> (u32 \<times> 'p udp_client) res option" where
  "fill_loop fuel fill fillSize dataSize filled c =
     (if filled + fillSize < dataSize then
        (case fuel of 0 \<Rightarrow> None
         | Suc fuel' \<Rightarrow>
            (case bind_res (read_fill fill (unat fillSize)) (\<lambda>bs. write_data (unat filled) bs c) of
               Inl e \<Rightarrow> Some (Inl e)
             | Inr c1 \<Rightarrow> fill_loop fuel' fill fillSize dataSize (filled + fillSize) c1))
      else Some (Inr (filled, c)))"

declare fill_loop.simps [simp del]

definition SetFill_pattern ::
  "nat \<Rightarrow> 'p app_env \<Rightarrow> byte list \<Rightarrow> u32 \<Rightarrow> u32 \<Rightarrow> 'p udp_client \<Rightarrow> 'p udp_client res option" where
  "SetFill_pattern fuel E fill fillSize dataSize c =
     (let c1 = resize_data E dataSize c in
      if fillSize \<ge> dataSize then
        Some (bind_res (read_fill fill (unat dataSize)) (\<lambda>bs.
              bind_res (write_data 0 bs c1) (\<lambda>c2. Inr (c2\<lparr>m_size_c := dataSize\<rparr>))))
      else
        case fill_loop fuel fill fillSize dataSize 0 c1 of
          None \<Rightarrow> None
        | Some r \<Rightarrow> Some (bind_res r (\<lambda>(filled, c2).
            bind_res (read_fill fill (unat (dataSize - filled))) (\<lambda>bs.
            bind_res (write_data (unat filled) bs c2) (\<lambda>c3.
            Inr (c3\<lparr>m_size_c := dataSize\<rparr>))))))"

section \<open>The array of random data\<close>

text \<open>A byte as \<open>std::bitset<8>\<close> prints it, most significant bit first.\<close>

definition bitset8 :: "byte \<Rightarrow> byte list" where
  "bitset8 b = map (\<lambda>k. if bit b k then 49 else 48) [7, 6, 5, 4, 3, 2, 1, 0]"

text \<open>The file \<open>FillInPacketArray\<close> writes: \<open>n\<close> lines of \<open>m\<close> random bytes each (6000 and 128).\<close>

definition random_line :: "nat \<Rightarrow> byte list \<Rightarrow> nat \<Rightarrow> byte list" where
  "random_line m buffer i = concat (map (\<lambda>j. bitset8 (buffer ! (m * i + j))) [0..<m])"

definition random_file :: "nat \<Rightarrow> nat \<Rightarrow> byte list \<Rightarrow> byte list" where
  "random_file n m buffer = concat (map (\<lambda>i. random_line m buffer i @ [10]) [0..<n])"

text \<open>\<open>std::getline\<close> until the end of the file.\<close>

fun split_lines :: "byte list \<Rightarrow> byte list list" where
  "split_lines [] = []"
| "split_lines (b # bs) =
     (if b = 10 then [] # split_lines bs
      else case split_lines bs of [] \<Rightarrow> [[b]] | l # ls \<Rightarrow> (b # l) # ls)"

text \<open>
  Each line's first 1024 bytes, the terminating zero of \<open>c_str\<close> included, go into the array; a
  shorter line is read past its end, a line too many is written past the end of the array.
\<close>

fun store_lines :: "byte list list \<Rightarrow> nat \<Rightarrow> byte list \<Rightarrow> byte list res" where
  "store_lines [] i arr = Inr arr"
| "store_lines (l # ls) i arr =
     (if length l + 1 < 1024 then Inl (Undefined ''line.c_str ()'')
      else if length arr < i * 1024 + 1024 then Inl (Undefined ''packets'')
      else store_lines ls (i + 1)
        (take (i * 1024) arr @ take 1024 (l @ [0]) @ drop (i * 1024 + 1024) arr))"

text \<open>
  \<open>FillInPacketArray\<close> with the random bytes \<open>buffer\<close> read from the device and the file
  \<open>randomfile\<close> if it exists. When it does not, it is written, but the stream that is read from
  afterwards is the one that could not be opened.
\<close>

definition FillInPacketArray ::
  "byte list \<Rightarrow> byte list option \<Rightarrow> byte list \<Rightarrow> (byte list \<times> byte list) res" where
  "FillInPacketArray buffer randomfile arr =
     (case randomfile of
        None \<Rightarrow> Inr (arr, random_file 6000 128 buffer)
      | Some f \<Rightarrow> bind_res (store_lines (split_lines f) 0 arr) (\<lambda>arr'. Inr (arr', f)))"

section \<open>Starting and stopping\<close>

definition ScheduleTransmit :: "int \<Rightarrow> 'p udp_client \<Rightarrow> 'p udp_client" where
  "ScheduleTransmit dt c = c_log [ScheduleSend dt] (c\<lparr>m_sendEvent := True\<rparr>)"

definition bind_and_connect ::
  "int \<Rightarrow> 'p client_event \<Rightarrow> address \<Rightarrow> 'p udp_client \<Rightarrow> 'p udp_client res" where
  "bind_and_connect result bind_call peer c =
     (if result = -1 then Inl (FatalError ''Failed to bind socket'')
      else Inr (c_log [bind_call, SocketConnect peer] c))"

definition open_socket :: "'p app_env \<Rightarrow> 'p udp_client \<Rightarrow> 'p udp_client res" where
  "open_socket E c =
     (let c1 = c_log [SocketCreated] (c\<lparr>m_socket_c := Some (next_socket E)\<rparr>) in
      case m_peerAddress c1 of
        Ipv4Addr a \<Rightarrow> bind_and_connect (bind_result E) SocketBind (InetSocketAddr a (m_peerPort c1)) c1
      | Ipv6Addr a \<Rightarrow> bind_and_connect (bind6_result E) SocketBind6 (Inet6SocketAddr a (m_peerPort c1)) c1
      | InetSocketAddr a p \<Rightarrow> bind_and_connect (bind_result E) SocketBind (m_peerAddress c1) c1
      | Inet6SocketAddr a p \<Rightarrow> bind_and_connect (bind6_result E) SocketBind6 (m_peerAddress c1) c1
      | NoAddress \<Rightarrow> bind_res (ns_assert (app_asserts E) False ''Incompatible address type: '') (\<lambda>_. Inr c1))"

definition StartApplication ::
  "'p app_env \<Rightarrow> byte list \<Rightarrow> byte list option \<Rightarrow> 'p udp_client \<Rightarrow> ('p udp_client \<times> byte list) res" where
  "StartApplication E buffer randomfile c =
     bind_res (FillInPacketArray buffer randomfile (packets c)) (\<lambda>(arr, f).
     let c1 = c\<lparr>packets := arr\<rparr> in
     bind_res (if m_socket_c c1 = None then open_socket E c1 else Inr c1) (\<lambda>c2.
     Inr (ScheduleTransmit 0 (c_log [SocketRecvCallback True, SocketAllowBroadcast] c2), f)))"

definition StopApplication :: "'p udp_client \<Rightarrow> 'p udp_client" where
  "StopApplication c =
     (let c1 = (if m_socket_c c \<noteq> None
        then c_log [SocketClose, SocketRecvCallback False] c\<lparr>m_socket_c := None\<rparr> else c)
      in c_log [CancelSend] (c1\<lparr>m_sendEvent := False\<rparr>))"

section \<open>Sending and receiving\<close>

text \<open>\<open>std::copy (packets + i, packets + i + 1024, m_data)\<close> into a fresh buffer \<open>buf\<close>.\<close>

definition copy_packet :: "byte list \<Rightarrow> int \<Rightarrow> byte list \<Rightarrow> byte list res" where
  "copy_packet arr i buf =
     (if i < 0 \<or> int (length arr) < i + 1024 then Inl (Undefined ''packets'')
      else if length buf < 1024 then Inl (Undefined ''m_data'')
      else Inr (overwrite (take 1024 (drop (nat i) arr)) buf))"

text \<open>The product of two \<open>int\<close>: a result outside 32 bits is undefined.\<close>

definition int_mult :: "int \<Rightarrow> int \<Rightarrow> int res" where
  "int_mult a b = (if - (2 ^ 31) \<le> a * b \<and> a * b < 2 ^ 31 then Inr (a * b)
     else Inl (Undefined ''signed overflow''))"

text \<open>The first part of \<open>Send\<close>: the packet to send. The \<open>int\<close> indices are converted from 32-bit unsigned.\<close>

definition next_packet :: "'p app_env \<Rightarrow> 'p udp_client \<Rightarrow> ('p \<times> 'p udp_client) res" where
  "next_packet E c =
     (if m_dataSize c \<noteq> 0 then
        bind_res (int_mult 1024 (sint (m_sent_l c - 6000))) (\<lambda>i.
        bind_res (copy_packet (packets c) i (heap E (unat (m_dataSize c)))) (\<lambda>data.
        let c1 = c\<lparr>m_data := Some data\<rparr> in
        bind_res (ns_assert (app_asserts E) (m_dataSize c1 = m_size_c c1)
          ''UdpAppClient::Send(): m_size and m_dataSize inconsistent'') (\<lambda>_.
        bind_res (ns_assert (app_asserts E) (m_data c1 \<noteq> None)
          ''UdpAppClient::Send(): m_dataSize but no m_data'') (\<lambda>_.
        Inr (CreatePacket (app_pkt E) data, c1)))))
      else
        bind_res (copy_packet (packets c) (sint (m_sent_l c * 1024)) (heap E 1024)) (\<lambda>data.
        Inr (CreatePacket (app_pkt E) (take 1024 (lowPackets c)), c\<lparr>m_data := Some data\<rparr>)))"

text \<open>The last part of \<open>Send\<close>: the counter decides what is scheduled next.\<close>

definition schedule_next :: "'p udp_client \<Rightarrow> 'p udp_client" where
  "schedule_next c =
     (if m_sent_l c \<le> m_count_c c then ScheduleTransmit (m_interval c) c
      else if m_sent_l c = m_count_c c + 1 then
        ScheduleTransmit (m_interval c) ((c_log [SleepForMilliseconds 1000] c)\<lparr>m_dataSize := 1024\<rparr>)
      else if m_sent_l c \<le> m_count_c c * 2 then ScheduleTransmit (m_interval c) c
      else c)"

definition client_Send :: "'p app_env \<Rightarrow> 'p udp_client \<Rightarrow> 'p udp_client res" where
  "client_Send E c =
     bind_res (ns_assert (app_asserts E) (\<not> m_sendEvent c) ''m_sendEvent.IsExpired ()'') (\<lambda>_.
     bind_res (next_packet E c) (\<lambda>(p, c1).
     bind_res (deref ''m_socket'' (m_socket_c c1)) (\<lambda>_.
     let c2 = c_log ([TxTrace p] @ (case m_peerAddress c1 of
           Ipv4Addr a \<Rightarrow> [TxWithAddressesTrace p (sock_name E) (InetSocketAddr a (m_peerPort c1))]
         | Ipv6Addr a \<Rightarrow> [TxWithAddressesTrace p (sock_name E) (Inet6SocketAddr a (m_peerPort c1))]
         | _ \<Rightarrow> []) @ [SocketSend p]) c1
     in Inr (schedule_next (c2\<lparr>m_sent_l := m_sent_l c2 + 1\<rparr>)))))"

text \<open>The packets waiting at the socket, each with the address it came from.\<close>

fun client_HandleRead :: "'p app_env \<Rightarrow> ('p \<times> address) list \<Rightarrow> 'p udp_client \<Rightarrow> 'p udp_client" where
  "client_HandleRead E [] c = c"
| "client_HandleRead E ((p, src) # waiting) c =
     client_HandleRead E waiting (c_log [RxTrace p, RxWithAddressesTrace p src (sock_name E)] c)"

text \<open>The simulator running send events while one is pending, at most \<open>n\<close> of them.\<close>

fun run_sends :: "nat \<Rightarrow> 'p app_env \<Rightarrow> 'p udp_client \<Rightarrow> 'p udp_client res" where
  "run_sends 0 E c = Inr c"
| "run_sends (Suc n) E c =
     (if m_sendEvent c then bind_res (client_Send E (c\<lparr>m_sendEvent := False\<rparr>)) (run_sends n E)
      else Inr c)"

end
