(* ===== verification/Client_Data.thy ===== *)
theory Client_Data
  imports Udp_Client
begin

text \<open>
  The data the client sends: the buffers the fills produce, when the pattern fill ends, and the
  round trip of the random data through the file.
\<close>

section \<open>Fills\<close>

text \<open>The first \<open>n\<close> bytes of a pattern of \<open>k\<close> bytes repeated for ever.\<close>

definition repeated :: "nat \<Rightarrow> byte list \<Rightarrow> nat \<Rightarrow> byte list" where
  "repeated k fill n = map (\<lambda>j. fill ! (j mod k)) [0..<n]"

lemma length_repeated [simp]: "length (repeated k fill n) = n"
  by (simp add: repeated_def)

lemma repeated_0 [simp]: "repeated k fill 0 = []"
  by (simp add: repeated_def)

lemma repeated_append:
  assumes "k dvd n" and "m \<le> k" and "k \<le> length fill"
  shows "repeated k fill n @ take m fill = repeated k fill (n + m)"
proof (rule nth_equalityI)
  fix j assume "j < length (repeated k fill n @ take m fill)"
  then have j: "j < n + m" using assms(2,3) by simp
  show "(repeated k fill n @ take m fill) ! j = repeated k fill (n + m) ! j"
  proof (cases "j < n")
    case True
    then show ?thesis using j by (simp add: nth_append repeated_def)
  next
    case False
    define r where "r = j - n"
    then have r: "j = n + r" "r < m" "r < k" using False j assms(2) by simp_all
    obtain q where "n = k * q" using assms(1) by (rule dvdE)
    then have "j mod k = r" using r by simp
    then show ?thesis using r by (simp add: nth_append repeated_def)
  qed
qed (use assms in simp)

text \<open>The buffer a client has is of the size it records.\<close>

definition data_ok :: "'p udp_client \<Rightarrow> bool" where
  "data_ok c \<longleftrightarrow> (m_dataSize c \<noteq> 0 \<longrightarrow> (\<exists>buf. m_data c = Some buf \<and> length buf = unat (m_dataSize c)))"

lemma resize_data:
  assumes "app_laws E" and "data_ok c"
  shows "m_dataSize (resize_data E n c) = n \<and> data_ok (resize_data E n c) \<and>
    c_events (resize_data E n c) = c_events c"
  using assms by (auto simp: resize_data_def data_ok_def app_laws_def)

lemma write_data_whole:
  assumes "m_data c = Some buf" and "length bs = length buf"
  shows "write_data 0 bs c = Inr (c\<lparr>m_data := Some bs\<rparr>)"
  using assms by (cases "bs = []") (auto simp: write_data_def)

lemma write_data_next:
  assumes "m_data c = Some (xs @ ys)" and "length bs \<le> length ys"
  shows "write_data (length xs) bs c = Inr (c\<lparr>m_data := Some (xs @ bs @ drop (length bs) ys)\<rparr>)"
  using assms by (cases "bs = []") (auto simp: write_data_def)

text \<open>The loop: it stops with at most one pattern left to write.\<close>

lemma fill_loop_result:
  assumes "0 < unat k" and "unat k \<le> length fill" and "unat n + unat k < 2 ^ 32"
  shows "m_data c = Some (repeated (unat k) fill (unat f) @ ys) \<Longrightarrow>
    unat f + length ys = unat n \<Longrightarrow> unat k dvd unat f \<Longrightarrow> length ys \<le> fuel \<Longrightarrow>
    unat f < unat n \<Longrightarrow>
    \<exists>f' c' zs. fill_loop fuel fill k n f c = Some (Inr (f', c')) \<and>
      m_data c' = Some (repeated (unat k) fill (unat f') @ zs) \<and> unat f' + length zs = unat n \<and>
      unat k dvd unat f' \<and> length zs \<le> unat k \<and> m_dataSize c' = m_dataSize c"
proof (induction fuel arbitrary: f c ys)
  case 0
  then show ?case by simp
next
  case (Suc fuel)
  have u: "unat (f + k) = unat f + unat k"
    using Suc.prems(5) assms(3) by (intro unat_plus32) simp
  show ?case
  proof (cases "f + k < n")
    case False
    then have "length ys \<le> unat k" using u Suc.prems(2) by (simp add: word_less_nat_alt)
    then show ?thesis using False Suc.prems by (subst fill_loop.simps) auto
  next
    case True
    then have lt: "unat f + unat k < unat n" using u by (simp add: word_less_nat_alt)
    let ?c = "c\<lparr>m_data := Some (repeated (unat k) fill (unat (f + k)) @ drop (unat k) ys)\<rparr>"
    have "write_data (unat f) (take (unat k) fill) c = Inr ?c"
      using write_data_next [OF Suc.prems(1), of "take (unat k) fill"] Suc.prems(2) assms(2) lt u
        repeated_append [OF Suc.prems(3) order_refl assms(2)]
      by (simp add: append_assoc [symmetric] del: append_assoc)
    then have "fill_loop (Suc fuel) fill k n f c = fill_loop fuel fill k n (f + k) ?c"
      using True assms(2) by (subst fill_loop.simps) (simp add: read_fill_def)
    moreover have "\<exists>f' c' zs. fill_loop fuel fill k n (f + k) ?c = Some (Inr (f', c')) \<and>
      m_data c' = Some (repeated (unat k) fill (unat f') @ zs) \<and> unat f' + length zs = unat n \<and>
      unat k dvd unat f' \<and> length zs \<le> unat k \<and> m_dataSize c' = m_dataSize ?c"
      using Suc.prems(2-4) u lt assms(1) by (intro Suc.IH) auto
    ultimately show ?thesis by simp
  qed
qed

text \<open>A client on a heap of zeros, with packets as byte lists, for the witnesses.\<close>

definition client_env :: "byte list app_env" where
  "client_env = \<lparr>app_asserts = True, app_pkt = byte_packets, heap = (\<lambda>n. replicate n 0),
     bind_result = 0, bind6_result = 0, next_socket = 0, sock_name = NoAddress\<rparr>"

lemma client_env_laws: "app_laws client_env"
  by (simp add: app_laws_def client_env_def byte_packets_laws)

definition sample_client :: "u32 \<Rightarrow> byte list udp_client" where
  "sample_client n = \<lparr>m_count_c = n, m_interval = 15000000, m_size_c = 1024, m_dataSize = 0,
     m_data = None, m_sent_l = 0, m_sent_h = 0, m_socket_c = Some 0,
     m_peerAddress = Ipv4Addr 0x0a010202, m_peerPort = 4000, m_sendEvent = True,
     packets = replicate (6000 * 1024) 48, lowPackets = replicate 1024 0, c_events = []\<rparr>"

lemma sample_client_data: "data_ok (sample_client n)"
  by (simp add: data_ok_def sample_client_def)

text \<open>
  C34. The pattern fill, when it ends: with a pattern that is not empty and sizes whose sum fits 32
  bits, \<open>SetFill\<close> returns within \<open>dataSize\<close> rounds and the buffer holds the pattern repeated up
  to exactly \<open>dataSize\<close> bytes.
\<close>

theorem SetFill_repeats:
  assumes "app_laws E" and "data_ok c" and "0 < unat k" and "unat k \<le> length fill"
    and "unat n + unat k < 2 ^ 32" and "unat n \<le> fuel"
  shows "\<exists>c'. SetFill_pattern fuel E fill k n c = Some (Inr c') \<and>
    (0 < n \<longrightarrow> m_data c' = Some (repeated (unat k) fill (unat n))) \<and> m_size_c c' = n \<and> m_dataSize c' = n"
proof -
  let ?c = "resize_data E n c"
  have ok: "data_ok ?c" "m_dataSize ?c = n" using resize_data [OF assms(1,2)] by blast+
  show ?thesis
  proof (cases "n = 0")
    case True
    then show ?thesis using ok by (simp add: SetFill_pattern_def read_fill_def write_data_def)
  next
    case pos: False
    then obtain buf where buf: "m_data ?c = Some buf" "length buf = unat n"
      using ok by (auto simp: data_ok_def)
    show ?thesis
    proof (cases "n \<le> k")
      case True
      then have le: "unat n \<le> unat k" by (simp add: word_le_nat_alt)
      then have "take (unat n) fill = repeated (unat k) fill (unat n)"
        using repeated_append [of "unat k" 0 "unat n" fill] assms(4) by simp
      moreover have "write_data 0 (repeated (unat k) fill (unat n)) ?c =
          Inr (?c\<lparr>m_data := Some (repeated (unat k) fill (unat n))\<rparr>)"
        using buf(1) by (rule write_data_whole) (simp only: length_repeated buf(2))
      ultimately show ?thesis
        using True le assms(4) ok by (simp add: SetFill_pattern_def read_fill_def)
    next
      case False
      then have "unat k < unat n" by (simp add: word_le_nat_alt not_le)
      then obtain f' c' zs where l: "fill_loop fuel fill k n 0 ?c = Some (Inr (f', c'))"
        "m_data c' = Some (repeated (unat k) fill (unat f') @ zs)" "unat f' + length zs = unat n"
        "unat k dvd unat f'" "length zs \<le> unat k" "m_dataSize c' = n"
        using fill_loop_result [OF assms(3-5), of ?c 0 buf fuel] buf assms(6) ok by auto
      have z: "unat (n - f') = length zs" using l(3) by (simp add: unat_minus32)
      let ?t = "take (length zs) fill"
      have "write_data (unat f') ?t c' = Inr (c'\<lparr>m_data := Some (repeated (unat k) fill (unat n))\<rparr>)"
        using write_data_next [OF l(2), of ?t] l(3,5) assms(4)
          repeated_append [OF l(4,5) assms(4)] by simp
      then show ?thesis
        using False l z assms(4) by (simp add: SetFill_pattern_def read_fill_def Let_def)
    qed
  qed
qed

theorem SetFill_repeats_witness:
  "\<exists>c'. SetFill_pattern 7 client_env [0, 1, 0, 1, 1, 0] 3 7 (sample_client 1) = Some (Inr c') \<and>
     m_data c' = Some [0, 1, 0, 0, 1, 0, 0] \<and> m_size_c c' = 7"
  using SetFill_repeats [OF client_env_laws sample_client_data [of 1], of 3 "[0, 1, 0, 1, 1, 0]" 7 7]
  by (auto simp: repeated_def upt_rec word_less_nat_alt)

text \<open>
  With an empty pattern \<open>SetFill\<close> never ends: no amount of fuel gives a result, for any buffer
  size but 0.
\<close>

theorem SetFill_empty_pattern_loops:
  assumes "app_laws E" and "data_ok c" and "n \<noteq> 0"
  shows "SetFill_pattern fuel E fill 0 n c = None"
proof -
  have "fill_loop fuel fill 0 n 0 d = None" for d :: "'a udp_client"
    using assms(3)
    by (induction fuel arbitrary: d)
      (subst fill_loop.simps, simp add: read_fill_def write_data_def word_neq_0_conv)+
  then show ?thesis using assms(3) by (simp add: SetFill_pattern_def word_le_0_iff)
qed

theorem SetFill_empty_pattern_loops_witness:
  "SetFill_pattern 1000 client_env [] 0 1024 (sample_client 1) = None"
  by (rule SetFill_empty_pattern_loops [OF client_env_laws sample_client_data]) simp

section \<open>The file of random data\<close>

lemma split_lines_append:
  "10 \<notin> set l \<Longrightarrow> split_lines (l @ 10 # rest) = l # split_lines rest"
  by (induction l) auto

lemma split_lines_concat:
  "\<forall>l \<in> set ls. 10 \<notin> set l \<Longrightarrow> split_lines (concat (map (\<lambda>l. l @ [10]) ls)) = ls"
  by (induction ls) (auto simp: split_lines_append)

lemma store_lines_concat:
  "\<forall>l \<in> set ls. length l = 1024 \<Longrightarrow> (i + length ls) * 1024 \<le> length arr \<Longrightarrow>
     store_lines ls i arr =
       Inr (take (i * 1024) arr @ concat ls @ drop ((i + length ls) * 1024) arr)"
proof (induction ls arbitrary: i arr)
  case (Cons l ls)
  let ?arr = "take (i * 1024) arr @ l @ drop (i * 1024 + 1024) arr"
  have len: "i * 1024 + 1024 \<le> length arr" using Cons.prems(2) by simp
  then have "length ?arr = length arr" using Cons.prems(1) by simp
  then have "store_lines ls (i + 1) ?arr =
      Inr (take ((i + 1) * 1024) ?arr @ concat ls @ drop ((i + 1 + length ls) * 1024) ?arr)"
    using Cons.prems by (intro Cons.IH) auto
  moreover have "take ((i + 1) * 1024) ?arr = take (i * 1024) arr @ l"
    using len Cons.prems(1) by simp
  moreover have "drop ((i + 1 + length ls) * 1024) ?arr = drop ((i + length (l # ls)) * 1024) arr"
    using len Cons.prems(1) by (simp add: algebra_simps)
  moreover have "store_lines (l # ls) i arr = store_lines ls (i + 1) ?arr"
    using len Cons.prems(1) by simp
  ultimately show ?case by simp
qed simp

lemma length_bitset8 [simp]: "length (bitset8 b) = 8"
  by (simp add: bitset8_def)

lemma bitset8_bytes: "10 \<notin> set (bitset8 b)"
  by (auto simp: bitset8_def)

lemma length_random_line: "length (random_line m buffer i) = 8 * m"
  by (simp add: random_line_def length_concat comp_def sum_list_triv)

lemma random_lines_concat:
  "m * n \<le> length buffer \<Longrightarrow>
     concat (map (random_line m buffer) [0..<n]) = concat (map bitset8 (take (m * n) buffer))"
proof (induction n)
  case (Suc n)
  have "map (\<lambda>j. buffer ! (m * n + j)) [0..<m] = take m (drop (m * n) buffer)"
    using Suc.prems by (intro nth_equalityI) auto
  then have "random_line m buffer n = concat (map bitset8 (take m (drop (m * n) buffer)))"
    by (metis (no_types, lifting) comp_apply map_eq_conv map_map random_line_def)
  moreover have "take (m * Suc n) buffer = take (m * n) buffer @ take m (drop (m * n) buffer)"
    by (metis mult_Suc_right add.commute take_add)
  ultimately show ?case using Suc by simp
qed simp

lemma random_file_read:
  assumes "length buffer = 128 * n" and "length arr = n * 1024"
  shows "store_lines (split_lines (random_file n 128 buffer)) 0 arr = Inr (concat (map bitset8 buffer))"
proof -
  let ?ls = "map (random_line 128 buffer) [0..<n]"
  have l: "\<forall>l \<in> set ?ls. length l = 1024" by (auto simp: length_random_line)
  have "\<forall>l \<in> set ?ls. 10 \<notin> set l" using bitset8_bytes by (auto simp: random_line_def)
  then have "split_lines (random_file n 128 buffer) = ?ls"
    using split_lines_concat [of ?ls] unfolding random_file_def map_map comp_def by blast
  moreover have "store_lines ?ls 0 arr = Inr (concat ?ls)"
    using store_lines_concat [OF l, of 0 arr] assms(2) by simp
  moreover have "concat ?ls = concat (map bitset8 buffer)"
    using random_lines_concat [of 128 n buffer] assms(1) by simp
  ultimately show ?thesis by simp
qed

text \<open>
  C37. The round trip of the random data: the run that finds no file writes one and leaves the array
  as it was; a later run reads it back, and the array then holds the ASCII digits of the bits of
  the random bytes, 1024 per packet, whatever it held before.
\<close>

theorem random_file_roundtrip:
  assumes "length buffer = 128 * 6000" and "length arr = 6000 * 1024"
  shows "\<exists>f. FillInPacketArray buffer None old = Inr (old, f) \<and>
    FillInPacketArray other (Some f) arr = Inr (concat (map bitset8 buffer), f)"
  using random_file_read [OF assms] by (simp add: FillInPacketArray_def)

text \<open>The witness: random bytes that are all ones give an array of the digit 1.\<close>

lemma concat_replicate_bitset8: "concat (map bitset8 (replicate n 255)) = replicate (8 * n) 49"
proof (induction n)
  case (Suc n)
  have "bitset8 255 = replicate 8 49" by (simp add: bitset8_def eval_nat_numeral)
  then show ?case using Suc by (simp add: replicate_add [symmetric])
qed simp

theorem random_file_roundtrip_witness:
  "\<exists>f. FillInPacketArray (replicate (128 * 6000) 255) None [] = Inr ([], f) \<and>
     FillInPacketArray [] (Some f) (replicate (6000 * 1024) 0) =
       Inr (replicate (8 * (128 * 6000)) 49, f)"
  unfolding concat_replicate_bitset8 [symmetric]
  by (rule random_file_roundtrip [OF length_replicate length_replicate])

end
