(* ===== verification/Client_Run.thy ===== *)
theory Client_Run
  imports Client_Data
begin

text \<open>
  A whole run of the client's \<open>Send\<close>: the low entropy phase, the wait, the high entropy phase,
  and for which \<open>MaxPackets\<close> the run stays inside the client's arrays.
\<close>

section \<open>One send\<close>

text \<open>The events of the run that the outside sees: packets sent, and the wait.\<close>

definition wire :: "'p udp_client \<Rightarrow> 'p client_event list" where
  "wire c = filter (\<lambda>e. case e of SocketSend p \<Rightarrow> True | SleepForMilliseconds n \<Rightarrow> True | _ \<Rightarrow> False)
     (c_events c)"

text \<open>What does not change during a run of a client for \<open>n\<close> packets of 1024 bytes.\<close>

definition client_static :: "nat \<Rightarrow> 'p udp_client \<Rightarrow> bool" where
  "client_static n c \<longleftrightarrow> n < 2 ^ 31 \<and> m_count_c c = of_nat n \<and> m_size_c c = 1024 \<and>
     m_socket_c c \<noteq> None \<and> length (packets c) = 6000 * 1024 \<and> length (lowPackets c) = 1024"

definition low_packet :: "'p app_env \<Rightarrow> 'p udp_client \<Rightarrow> 'p" where
  "low_packet E c = CreatePacket (app_pkt E) (lowPackets c)"

definition high_packet :: "'p app_env \<Rightarrow> 'p udp_client \<Rightarrow> nat \<Rightarrow> 'p" where
  "high_packet E c i = CreatePacket (app_pkt E) (take 1024 (drop (i * 1024) (packets c)))"

text \<open>A send of \<open>p\<close> that has no influence on the arrays and the settings.\<close>

definition sent_one :: "'p udp_client \<Rightarrow> 'p udp_client \<Rightarrow> 'p \<Rightarrow> 'p client_event list \<Rightarrow> bool" where
  "sent_one c c' p es \<longleftrightarrow> wire c' = wire c @ SocketSend p # es \<and> m_sent_l c' = m_sent_l c + 1 \<and>
     packets c' = packets c \<and> lowPackets c' = lowPackets c \<and> m_count_c c' = m_count_c c \<and>
     m_size_c c' = m_size_c c \<and> m_socket_c c' = m_socket_c c"

lemma sent_one_static: "sent_one c c' p es \<Longrightarrow> client_static n c \<Longrightarrow> client_static n c'"
  by (simp add: sent_one_def client_static_def)

lemma sent_one_packets:
  "sent_one c c' p es \<Longrightarrow> low_packet E c' = low_packet E c \<and> high_packet E c' = high_packet E c"
  by (simp add: sent_one_def low_packet_def high_packet_def fun_eq_iff)

text \<open>\<open>Send\<close> behind a successful choice of the packet.\<close>

lemma client_Send_eq:
  assumes "next_packet E (c\<lparr>m_sendEvent := False\<rparr>) = Inr (p, c\<lparr>m_sendEvent := False, m_data := Some data\<rparr>)"
    and "m_socket_c c \<noteq> None"
  shows "\<exists>c1. client_Send E (c\<lparr>m_sendEvent := False\<rparr>) = Inr (schedule_next c1) \<and>
    sent_one c c1 p [] \<and> m_dataSize c1 = m_dataSize c \<and> \<not> m_sendEvent c1"
  using assms
  by (cases "m_peerAddress c")
    (auto simp: client_Send_def sent_one_def wire_def c_log_def Let_def)

lemma schedule_next_effect:
  "wire (schedule_next c) = wire c @
     (if m_sent_l c \<le> m_count_c c then [] else if m_sent_l c = m_count_c c + 1
      then [SleepForMilliseconds 1000] else [])"
  "packets (schedule_next c) = packets c" "lowPackets (schedule_next c) = lowPackets c"
  "m_count_c (schedule_next c) = m_count_c c" "m_size_c (schedule_next c) = m_size_c c"
  "m_socket_c (schedule_next c) = m_socket_c c" "m_sent_l (schedule_next c) = m_sent_l c"
  "m_dataSize (schedule_next c) =
     (if \<not> m_sent_l c \<le> m_count_c c \<and> m_sent_l c = m_count_c c + 1 then 1024 else m_dataSize c)"
  "\<not> m_sendEvent c \<Longrightarrow> m_sendEvent (schedule_next c) \<longleftrightarrow>
     m_sent_l c \<le> m_count_c c \<or> m_sent_l c = m_count_c c + 1 \<or> m_sent_l c \<le> m_count_c c * 2"
  by (auto simp: schedule_next_def ScheduleTransmit_def wire_def c_log_def)

section \<open>The two phases\<close>

definition low_state :: "nat \<Rightarrow> nat \<Rightarrow> 'p udp_client \<Rightarrow> bool" where
  "low_state n k c \<longleftrightarrow> client_static n c \<and> m_dataSize c = 0 \<and> m_sent_l c = of_nat k \<and> m_sendEvent c"

definition high_state :: "nat \<Rightarrow> nat \<Rightarrow> 'p udp_client \<Rightarrow> bool" where
  "high_state n j c \<longleftrightarrow> client_static n c \<and> m_dataSize c = 1024 \<and> m_sent_l c = of_nat (n + 1 + j)"

lemma of_nat_less_eq32:
  "a < 2 ^ 32 \<Longrightarrow> b < 2 ^ 32 \<Longrightarrow> (of_nat a :: u32) \<le> of_nat b \<longleftrightarrow> a \<le> b"
  "a < 2 ^ 32 \<Longrightarrow> b < 2 ^ 32 \<Longrightarrow> (of_nat a :: u32) = of_nat b \<longleftrightarrow> a = b"
  by (metis unat_of_nat32 word_le_nat_alt, metis unat_of_nat32)

lemma low_index: "k \<le> 6000 \<Longrightarrow> sint ((of_nat k :: u32) * 1024) = int k * 1024"
proof -
  assume k: "k \<le> 6000"
  have "(of_nat k :: u32) * 1024 = of_int (int k * 1024)" by simp
  then show ?thesis
    using k by (simp only: signed_of_int) (simp add: signed_take_bit_int_eq_self)
qed

lemma high_index: "m < 2 ^ 31 \<Longrightarrow> sint ((of_nat m :: u32) - 6000) = int m - 6000"
proof -
  assume m: "m < 2 ^ 31"
  have "(of_nat m :: u32) - 6000 = of_int (int m - 6000)" by simp
  then show ?thesis
    using m by (simp only: signed_of_int) (simp add: signed_take_bit_int_eq_self)
qed

lemma copy_in_range:
  assumes "length arr = 6000 * 1024" and "i < 6000" and "length buf = 1024"
  shows "copy_packet arr (int i * 1024) buf = Inr (take 1024 (drop (i * 1024) arr))"
proof -
  have "nat (int i * 1024) = i * 1024" by simp
  moreover have "length (take 1024 (drop (i * 1024) arr)) = 1024" using assms(1,2) by simp
  ultimately show ?thesis using assms by (simp add: copy_packet_def overwrite_all)
qed

lemma low_step:
  assumes E: "app_laws E" and c: "low_state n k c" and k: "k \<le> n" "k < 6000"
  shows "\<exists>c'. client_Send E (c\<lparr>m_sendEvent := False\<rparr>) = Inr c' \<and>
    low_packet E c' = low_packet E c \<and> high_packet E c' = high_packet E c \<and>
    (if k < n then low_state n (k + 1) c' \<and> wire c' = wire c @ [SocketSend (low_packet E c)]
     else high_state n 0 c' \<and> m_sendEvent c' \<and>
       wire c' = wire c @ [SocketSend (low_packet E c), SleepForMilliseconds 1000])"
proof -
  have st: "client_static n c" "m_dataSize c = 0" "m_sent_l c = of_nat k"
    using c by (simp_all add: low_state_def)
  have n: "n < 2 ^ 31" "m_count_c c = of_nat n" "m_socket_c c \<noteq> None"
    using st(1) by (simp_all add: client_static_def)
  have "copy_packet (packets c) (sint (m_sent_l c * 1024)) (heap E 1024) =
      Inr (take 1024 (drop (k * 1024) (packets c)))"
    using E st k low_index [of k] copy_in_range [of "packets c" k "heap E 1024"]
    by (simp add: app_laws_def client_static_def)
  then have "next_packet E (c\<lparr>m_sendEvent := False\<rparr>) =
      Inr (low_packet E c, c\<lparr>m_sendEvent := False, m_data := Some (take 1024 (drop (k * 1024) (packets c)))\<rparr>)"
    using st by (simp add: next_packet_def low_packet_def client_static_def)
  then obtain c1 where c1: "client_Send E (c\<lparr>m_sendEvent := False\<rparr>) = Inr (schedule_next c1)"
    "sent_one c c1 (low_packet E c) []" "m_dataSize c1 = m_dataSize c" "\<not> m_sendEvent c1"
    using client_Send_eq [OF _ n(3)] by blast
  note s1 = sent_one_static [OF c1(2) st(1)] and p1 = sent_one_packets [OF c1(2), of E]
  have l1: "m_sent_l c1 = of_nat (k + 1)" "m_count_c c1 = of_nat n"
    using c1(2) st(3) n(2) by (simp_all add: sent_one_def add.commute)
  have le: "m_sent_l c1 \<le> m_count_c c1 \<longleftrightarrow> k + 1 \<le> n" and eq: "m_sent_l c1 = m_count_c c1 + 1 \<longleftrightarrow> k = n"
    using of_nat_less_eq32(1) [of "k + 1" n] of_nat_less_eq32(2) [of "k + 1" "n + 1"] k n(1) l1
    by (simp_all add: add.commute)
  have p2: "low_packet E (schedule_next c1) = low_packet E c"
    "high_packet E (schedule_next c1) = high_packet E c"
    using p1 by (simp_all add: low_packet_def high_packet_def schedule_next_effect fun_eq_iff)
  have s2: "client_static n (schedule_next c1)"
    using s1 by (simp add: client_static_def schedule_next_effect)
  have w: "wire c1 = wire c @ [SocketSend (low_packet E c)]" using c1(2) by (simp add: sent_one_def)
  show ?thesis
  proof (cases "k < n")
    case True
    then have "low_state n (k + 1) (schedule_next c1)"
      using s2 c1(3,4) st(2) l1 le by (simp add: low_state_def schedule_next_effect)
    then show ?thesis using True c1(1) p2 w le by (simp add: schedule_next_effect)
  next
    case False
    then have "k = n" using k by simp
    then have "high_state n 0 (schedule_next c1)" "m_sendEvent (schedule_next c1)"
      using s2 c1(4) l1 le eq by (simp_all add: high_state_def schedule_next_effect)
    then show ?thesis using \<open>k = n\<close> c1(1) p2 w le eq by (simp add: schedule_next_effect)
  qed
qed

lemma high_step:
  assumes E: "app_laws E" and c: "high_state n j c" and j: "j \<le> n"
    and i: "n + 1 + j = 6000 + i" "i < 6000"
  shows "\<exists>c'. client_Send E (c\<lparr>m_sendEvent := False\<rparr>) = Inr c' \<and> high_state n (j + 1) c' \<and>
    low_packet E c' = low_packet E c \<and> high_packet E c' = high_packet E c \<and>
    wire c' = wire c @ [SocketSend (high_packet E c i)] \<and> (m_sendEvent c' \<longleftrightarrow> j + 2 \<le> n)"
proof -
  have st: "client_static n c" "m_dataSize c = 1024" "m_sent_l c = of_nat (n + 1 + j)"
    using c by (simp_all add: high_state_def)
  have n: "n < 2 ^ 31" "m_count_c c = of_nat n" "m_socket_c c \<noteq> None" "m_size_c c = 1024"
    using st(1) by (simp_all add: client_static_def)
  have m: "m_sent_l c = of_nat (6000 + i)" by (simp only: st(3) i(1))
  have "sint (m_sent_l c - 6000) = int (6000 + i) - 6000"
    unfolding m by (rule high_index) (use i(2) in simp)
  then have "sint (m_sent_l c - 6000) = int i" by simp
  then have "int_mult 1024 (sint (m_sent_l c - 6000)) = Inr (int i * 1024)"
    using i(2) by (simp add: int_mult_def)
  moreover have "copy_packet (packets c) (int i * 1024) (heap E 1024) =
      Inr (take 1024 (drop (i * 1024) (packets c)))"
    using E st(1) i(2) copy_in_range [of "packets c" i "heap E 1024"]
    by (simp add: app_laws_def client_static_def)
  ultimately have "next_packet E (c\<lparr>m_sendEvent := False\<rparr>) = Inr (high_packet E c i,
      c\<lparr>m_sendEvent := False, m_data := Some (take 1024 (drop (i * 1024) (packets c)))\<rparr>)"
    using st n by (simp add: next_packet_def high_packet_def)
  then obtain c1 where c1: "client_Send E (c\<lparr>m_sendEvent := False\<rparr>) = Inr (schedule_next c1)"
    "sent_one c c1 (high_packet E c i) []" "m_dataSize c1 = m_dataSize c" "\<not> m_sendEvent c1"
    using client_Send_eq [OF _ n(3)] by blast
  note s1 = sent_one_static [OF c1(2) st(1)] and p1 = sent_one_packets [OF c1(2), of E]
  have l1: "m_sent_l c1 = of_nat (n + 1 + (j + 1))" "m_count_c c1 = of_nat n"
    using c1(2) st(3) n(2) by (simp_all add: sent_one_def add.commute add.left_commute)
  have "n + 1 + (j + 1) < 2 ^ 32" "2 * n < 2 ^ 32" using i n(1) by simp_all
  then have le: "\<not> m_sent_l c1 \<le> m_count_c c1" and eq: "m_sent_l c1 \<noteq> m_count_c c1 + 1"
    and dbl: "m_sent_l c1 \<le> m_count_c c1 * 2 \<longleftrightarrow> j + 2 \<le> n"
    using of_nat_less_eq32(1) [of "n + 1 + (j + 1)" n] of_nat_less_eq32(2) [of "n + 1 + (j + 1)" "n + 1"]
      of_nat_less_eq32(1) [of "n + 1 + (j + 1)" "2 * n"] n(1) l1
    by (simp_all add: algebra_simps)
  have "low_packet E (schedule_next c1) = low_packet E c"
    "high_packet E (schedule_next c1) = high_packet E c"
    using p1 by (simp_all add: low_packet_def high_packet_def schedule_next_effect fun_eq_iff)
  moreover have "client_static n (schedule_next c1)"
    using s1 by (simp add: client_static_def schedule_next_effect)
  then have "high_state n (j + 1) (schedule_next c1)"
    using l1 le eq c1(3) st(2) by (simp add: high_state_def schedule_next_effect)
  ultimately show ?thesis
    using c1 le eq dbl by (simp add: schedule_next_effect sent_one_def)
qed

text \<open>Outside the arrays.\<close>

lemma low_step_outside:
  assumes "low_state n 6000 c"
  shows "client_Send E (c\<lparr>m_sendEvent := False\<rparr>) = Inl (Undefined ''packets'')"
  using assms low_index [of 6000]
  by (simp add: low_state_def client_static_def client_Send_def next_packet_def copy_packet_def)

lemma high_step_outside:
  assumes "high_state n j c" and "n + 1 + j < 6000"
  shows "client_Send E (c\<lparr>m_sendEvent := False\<rparr>) = Inl (Undefined ''packets'')"
proof -
  have m: "m_sent_l c = of_nat (n + 1 + j)" using assms(1) by (simp only: high_state_def)
  have "sint (m_sent_l c - 6000) = int (n + 1 + j) - 6000"
    unfolding m by (rule high_index) (use assms(2) in simp)
  then have "int_mult 1024 (sint (m_sent_l c - 6000)) = Inr (1024 * (int (n + 1 + j) - 6000))"
    using assms(2) by (simp add: int_mult_def)
  then show ?thesis
    using assms by (simp add: high_state_def client_Send_def next_packet_def copy_packet_def)
qed

section \<open>Runs\<close>

lemma run_sends_idle: "\<not> m_sendEvent c \<Longrightarrow> run_sends m E c = Inr c"
  by (cases m) simp_all

lemma run_sends_add: "run_sends (a + b) E c = bind_res (run_sends a E c) (run_sends b E)"
proof (induction a arbitrary: c)
  case (Suc a)
  then show ?case
    by (cases "client_Send E (c\<lparr>m_sendEvent := False\<rparr>)") (simp_all add: run_sends_idle)
qed simp

lemma run_low:
  assumes E: "app_laws E"
  shows "low_state n k c \<Longrightarrow> k + m \<le> n \<Longrightarrow> k + m \<le> 6000 \<Longrightarrow>
    \<exists>c'. run_sends m E c = Inr c' \<and> low_state n (k + m) c' \<and>
      wire c' = wire c @ map SocketSend (replicate m (low_packet E c)) \<and>
      low_packet E c' = low_packet E c \<and> high_packet E c' = high_packet E c"
proof (induction m arbitrary: k c)
  case (Suc m)
  have k: "k < n" "k < 6000" using Suc.prems(2,3) by simp_all
  obtain c1 where c1: "client_Send E (c\<lparr>m_sendEvent := False\<rparr>) = Inr c1" "low_state n (k + 1) c1"
    "wire c1 = wire c @ [SocketSend (low_packet E c)]"
    "low_packet E c1 = low_packet E c" "high_packet E c1 = high_packet E c"
    using low_step [OF E Suc.prems(1)] k by auto
  have "m_sendEvent c" using Suc.prems(1) by (simp add: low_state_def)
  moreover obtain c' where "run_sends m E c1 = Inr c'" "low_state n (k + 1 + m) c'"
    "wire c' = wire c1 @ map SocketSend (replicate m (low_packet E c1))"
    "low_packet E c' = low_packet E c1" "high_packet E c' = high_packet E c1"
    using Suc.IH [OF c1(2)] Suc.prems(2,3) by auto
  ultimately show ?case using c1 by simp
qed simp

lemma run_high:
  assumes E: "app_laws E"
  shows "high_state n j c \<Longrightarrow> m_sendEvent c \<Longrightarrow> j < n \<Longrightarrow> j + m \<le> n \<Longrightarrow> n + 1 + j = 6000 + i \<Longrightarrow>
    i + m \<le> 6000 \<Longrightarrow>
    \<exists>c'. run_sends m E c = Inr c' \<and>
      wire c' = wire c @ map SocketSend (map (high_packet E c) [i..<i + m]) \<and>
      (m_sendEvent c' \<longleftrightarrow> j + m < n)"
proof (induction m arbitrary: i j c)
  case (Suc m)
  have i: "i < 6000" using Suc.prems(6) by simp
  obtain c1 where c1: "client_Send E (c\<lparr>m_sendEvent := False\<rparr>) = Inr c1" "high_state n (j + 1) c1"
    "high_packet E c1 = high_packet E c" "wire c1 = wire c @ [SocketSend (high_packet E c i)]"
    "m_sendEvent c1 \<longleftrightarrow> j + 2 \<le> n"
    using high_step [OF E Suc.prems(1) _ Suc.prems(5) i] Suc.prems(3) by auto
  have "[i..<i + Suc m] = i # [i + 1..<i + 1 + m]" by (simp add: upt_rec)
  moreover have "\<exists>c'. run_sends m E c1 = Inr c' \<and>
      wire c' = wire c1 @ map SocketSend (map (high_packet E c1) [i + 1..<i + 1 + m]) \<and>
      (m_sendEvent c' \<longleftrightarrow> j + 1 + m < n)"
  proof (cases "j + 1 < n")
    case True
    then show ?thesis using Suc.IH [OF c1(2), of "i + 1"] Suc.prems c1(5) by simp
  next
    case False
    then have m: "m = 0" and "\<not> m_sendEvent c1" using Suc.prems(4) c1(5) by auto
    then show ?thesis using False by (intro exI [of _ c1]) (simp add: m)
  qed
  ultimately show ?case using Suc.prems(2) c1 by auto
qed simp

text \<open>The low entropy phase and the change to the high entropy phase.\<close>

lemma run_low_phase:
  assumes E: "app_laws E" and c: "low_state n 0 c" and n: "n < 6000"
  shows "\<exists>c'. run_sends (n + 1) E c = Inr c' \<and> high_state n 0 c' \<and> m_sendEvent c' \<and>
    wire c' = wire c @ map SocketSend (replicate (n + 1) (low_packet E c)) @ [SleepForMilliseconds 1000] \<and>
    high_packet E c' = high_packet E c"
proof -
  obtain c1 where c1: "run_sends n E c = Inr c1" "low_state n n c1"
    "wire c1 = wire c @ map SocketSend (replicate n (low_packet E c))"
    "low_packet E c1 = low_packet E c" "high_packet E c1 = high_packet E c"
    using run_low [OF E c, of n] n by auto
  obtain c2 where c2: "client_Send E (c1\<lparr>m_sendEvent := False\<rparr>) = Inr c2"
    "high_packet E c2 = high_packet E c1" "high_state n 0 c2" "m_sendEvent c2"
    "wire c2 = wire c1 @ [SocketSend (low_packet E c1), SleepForMilliseconds 1000]"
    using low_step [OF E c1(2)] n by auto
  have "m_sendEvent c1" using c1(2) by (simp add: low_state_def)
  then have "run_sends (n + 1) E c = Inr c2"
    using c1(1) c2(1) by (simp only: run_sends_add bind_res.simps) simp
  then show ?thesis using c1 c2 by (simp add: replicate_append_same)
qed

lemma run_5999:
  assumes E: "app_laws E" and c: "low_state 5999 0 c"
  shows "\<exists>c'. run_sends (6000 + 5999) E c = Inr c' \<and> \<not> m_sendEvent c' \<and>
    wire c' = wire c @ map SocketSend (replicate 6000 (low_packet E c)) @ [SleepForMilliseconds 1000] @
      map SocketSend (map (high_packet E c) [0..<5999])"
proof -
  obtain c1 where c1: "run_sends 6000 E c = Inr c1" "high_state 5999 0 c1" "m_sendEvent c1"
    "wire c1 = wire c @ map SocketSend (replicate 6000 (low_packet E c)) @ [SleepForMilliseconds 1000]"
    "high_packet E c1 = high_packet E c"
    using run_low_phase [OF E c] by auto
  obtain c2 where "run_sends 5999 E c1 = Inr c2" "\<not> m_sendEvent c2"
    "wire c2 = wire c1 @ map SocketSend (map (high_packet E c1) [0..<0 + 5999])"
    using run_high [OF E c1(2,3), of 5999 0] by auto
  then show ?thesis using c1 by (simp only: run_sends_add bind_res.simps) simp
qed

section \<open>Properties\<close>

text \<open>
  The run of a client for 5999 packets of 1024 bytes: it sends 6000 low entropy packets, one
  more than it is configured for, waits a second, sends the 5999 slices of the random data, and is
  done.
\<close>

theorem client_run_5999:
  assumes "app_laws E" and "low_state 5999 0 c"
  shows "\<exists>c'. run_sends 11999 E c = Inr c' \<and> \<not> m_sendEvent c' \<and>
    wire c' = wire c @ map SocketSend (replicate 6000 (low_packet E c)) @ [SleepForMilliseconds 1000] @
      map SocketSend (map (high_packet E c) [0..<5999])"
  using run_5999 [OF assms] by (simp only: numeral_plus_numeral add_num_simps)

lemma sample_low_state: "n < 2 ^ 31 \<Longrightarrow> low_state n 0 (sample_client (of_nat n))"
  by (simp add: low_state_def client_static_def sample_client_def)

theorem client_run_5999_witness:
  "\<exists>c'. run_sends 11999 client_env (sample_client 5999) = Inr c' \<and> \<not> m_sendEvent c'"
proof -
  have "low_state 5999 0 (sample_client 5999)" using sample_low_state [of 5999] by simp
  from client_run_5999 [OF client_env_laws this] show ?thesis by blast
qed

text \<open>
  C8. The run stays inside the client's arrays for no other number of packets: a client for \<open>n\<close>
  packets of 1024 bytes never does anything undefined exactly when \<open>n\<close> is 5999. With fewer
  packets the first high entropy index is negative, with more the 6001st low entropy packet reads
  behind the array.
\<close>

theorem client_run_defined_iff:
  assumes E: "app_laws E" and c: "low_state n 0 c"
  shows "(\<forall>m. is_ok (run_sends m E c)) \<longleftrightarrow> n = 5999"
proof
  assume ok: "\<forall>m. is_ok (run_sends m E c)"
  show "n = 5999"
  proof (rule ccontr)
    assume "n \<noteq> 5999"
    then consider "n < 5999" | "6000 \<le> n" by linarith
    then show False
    proof cases
      case 1
      obtain c1 where c1: "run_sends (n + 1) E c = Inr c1" "high_state n 0 c1" "m_sendEvent c1"
        using run_low_phase [OF E c] 1 by auto
      then have "run_sends (n + 1 + 1) E c = Inl (Undefined ''packets'')"
        using high_step_outside [OF c1(2), of E] 1 by (simp only: run_sends_add bind_res.simps) simp
      then show False using ok is_ok_simps(2) by metis
    next
      case 2
      obtain c1 where c1: "run_sends 6000 E c = Inr c1" "low_state n 6000 c1"
        using run_low [OF E c, of 6000] 2 by auto
      moreover have "m_sendEvent c1" using c1(2) by (simp add: low_state_def)
      ultimately have "run_sends (6000 + 1) E c = Inl (Undefined ''packets'')"
        using low_step_outside [OF c1(2), of E] by (simp only: run_sends_add bind_res.simps) simp
      then show False using ok is_ok_simps(2) by metis
    qed
  qed
next
  assume n: "n = 5999"
  obtain c' where c': "run_sends (6000 + 5999) E c = Inr c'" "\<not> m_sendEvent c'"
    using run_5999 [OF E] c n by blast
  show "\<forall>m. is_ok (run_sends m E c)"
  proof
    fix m
    show "is_ok (run_sends m E c)"
    proof (cases "m \<le> 6000 + 5999")
      case True
      then have "bind_res (run_sends m E c) (run_sends (6000 + 5999 - m) E) = Inr c'"
        using c'(1) run_sends_add [of m "6000 + 5999 - m" E c] by simp
      then show ?thesis by (auto simp: bind_res_eq_Inr is_ok_iff)
    next
      case False
      then have "run_sends m E c = Inr c'"
        using c' run_sends_add [of "6000 + 5999" "m - (6000 + 5999)" E c] run_sends_idle [OF c'(2)]
        by simp
      then show ?thesis by simp
    qed
  qed
qed

theorem client_run_defined_iff_witness: "\<not> (\<forall>m. is_ok (run_sends m client_env (sample_client 6000)))"
proof -
  have "low_state 6000 0 (sample_client 6000)" using sample_low_state [of 6000] by simp
  from client_run_defined_iff [OF client_env_laws this] show ?thesis by simp
qed

end
