(* ===== verification/Single_Float.thy ===== *)
theory Single_Float
  imports Complex_Main Prelude
begin

text \<open>
  The arithmetic behind the server's timing: C++ \<open>float\<close> as rationals rounded to 24 significant
  bits (IEEE single precision, ties to even; the values here stay far from its exponent range),
  and \<open>std::chrono\<close>'s way from a difference of nanosecond time points over seconds as \<open>float\<close>
  to milliseconds.
\<close>

section \<open>Rounding\<close>

fun log2_int :: "int \<Rightarrow> nat" where
  "log2_int n = (if n < 2 then 0 else Suc (log2_int (n div 2)))"

declare log2_int.simps [simp del]

definition round_even :: "rat \<Rightarrow> int" where
  "round_even y = (let f = \<lfloor>y\<rfloor>; r = y - of_int f in
     if r < 1 / 2 then f else if r > 1 / 2 then f + 1 else if even f then f else f + 1)"

text \<open>The exponent of the leading bit of a positive rational.\<close>

definition leading_exponent :: "rat \<Rightarrow> int" where
  "leading_exponent x = (case quotient_of x of (p, q) \<Rightarrow>
     let e = int (log2_int p) - int (log2_int q)
     in if 2 powi e \<le> x then e else e - 1)"

definition fl_pos :: "rat \<Rightarrow> rat" where
  "fl_pos x = (let u = 2 powi (leading_exponent x - 23) in of_int (round_even (x / u)) * u)"

definition fl :: "rat \<Rightarrow> rat" where
  "fl x = (if x = 0 then 0 else if x < 0 then - fl_pos (- x) else fl_pos x)"

text \<open>
  \<open>duration<float> fs = last - first\<close> and \<open>duration_cast<milliseconds> (fs).count ()\<close>, from the
  difference in nanoseconds.
\<close>

definition elapsed_ms :: "int \<Rightarrow> int" where
  "elapsed_ms ns =
     (let seconds = fl (fl (of_int ns) / 1000000000); scaled = fl (seconds * 1000)
      in if scaled < 0 then \<lceil>scaled\<rceil> else \<lfloor>scaled\<rfloor>)"

section \<open>The rounding error\<close>

lemma round_even_error: "\<bar>of_int (round_even y) - y\<bar> \<le> 1 / 2"
proof -
  define f where "f = \<lfloor>y\<rfloor>"
  have r: "0 \<le> y - of_int f" "y - of_int f < 1"
    using of_int_floor_le [of y] floor_correct [of y] unfolding f_def by linarith+
  have "round_even y = f \<and> y - of_int f \<le> 1 / 2 \<or> round_even y = f + 1 \<and> 1 / 2 \<le> y - of_int f"
    unfolding round_even_def Let_def f_def [symmetric] by auto
  then show ?thesis using r by (auto simp: abs_le_iff)
qed

lemma log2_int_bounds: "0 < n \<Longrightarrow> 2 ^ log2_int n \<le> n \<and> n < 2 ^ Suc (log2_int n)"
proof (induction n rule: log2_int.induct)
  case (1 n)
  show ?case
  proof (cases "n < 2")
    case True
    then have "n = 1" using 1 by simp
    then show ?thesis by (simp add: log2_int.simps)
  next
    case False
    then have "2 ^ log2_int (n div 2) \<le> n div 2 \<and> n div 2 < 2 ^ Suc (log2_int (n div 2))"
      using 1 by simp
    then have "2 * 2 ^ log2_int (n div 2) \<le> n \<and> n < 2 * 2 ^ Suc (log2_int (n div 2))"
      by linarith
    then show ?thesis using False by (subst (1 2) log2_int.simps) simp
  qed
qed

lemma leading_exponent_le:
  assumes "0 < x"
  shows "2 powi leading_exponent x \<le> x"
proof -
  obtain p q where pq: "quotient_of x = (p, q)" by fastforce
  have q: "0 < q" using quotient_of_denom_pos [OF pq] .
  have x: "x = of_int p / of_int q" using quotient_of_div [OF pq] .
  then have p: "0 < p" using assms q by (simp add: zero_less_divide_iff)
  let ?a = "log2_int p" and ?b = "log2_int q"
  have "2 ^ ?a \<le> p" and "q < 2 ^ Suc ?b"
    using log2_int_bounds [of p] log2_int_bounds [of q] p q by simp_all
  then have "(of_int (2 ^ ?a) :: rat) \<le> of_int p" and "(of_int q :: rat) \<le> of_int (2 ^ Suc ?b)"
    unfolding of_int_le_iff by simp_all
  then have ap: "(2 :: rat) ^ ?a \<le> of_int p" and bq: "of_int q \<le> (2 :: rat) ^ Suc ?b" by simp_all
  have "(2 :: rat) powi (int ?a - int ?b - 1) = 2 ^ ?a / 2 ^ Suc ?b"
    by (simp add: power_int_diff power_int_add)
  also have "\<dots> \<le> of_int p / of_int q"
    using ap bq q p by (intro frac_le) simp_all
  finally have "2 powi (int ?a - int ?b - 1) \<le> x" using x by simp
  then show ?thesis using pq by (simp add: leading_exponent_def Let_def)
qed

lemma fl_pos_error:
  assumes "0 < x"
  shows "\<bar>fl_pos x - x\<bar> \<le> x / 2 ^ 24"
proof -
  let ?u = "(2 :: rat) powi (leading_exponent x - 23)"
  have u: "0 < ?u" by simp
  have "fl_pos x - x = (of_int (round_even (x / ?u)) - x / ?u) * ?u"
    using u by (simp add: fl_pos_def Let_def left_diff_distrib)
  then have "\<bar>fl_pos x - x\<bar> = \<bar>of_int (round_even (x / ?u)) - x / ?u\<bar> * ?u"
    using u by (simp add: abs_mult)
  also have "\<dots> \<le> 1 / 2 * ?u"
    using round_even_error u by (intro mult_right_mono) simp_all
  also have "\<dots> = 2 powi leading_exponent x / 2 ^ 24"
    by (simp add: power_int_diff)
  also have "\<dots> \<le> x / 2 ^ 24"
    using leading_exponent_le [OF assms] by (simp add: divide_right_mono)
  finally show ?thesis .
qed

lemma fl_error: "\<bar>fl x - x\<bar> \<le> \<bar>x\<bar> / 2 ^ 24"
proof (cases x "0 :: rat" rule: linorder_cases)
  case less
  then show ?thesis using fl_pos_error [of "- x"] by (simp add: fl_def abs_le_iff)
next
  case greater
  then show ?thesis using fl_pos_error [of x] by (simp add: fl_def)
qed (simp add: fl_def)

lemma fl_bounds:
  assumes "0 \<le> x"
  shows "x * (1 - 1 / 2 ^ 24) \<le> fl x" and "fl x \<le> x * (1 + 1 / 2 ^ 24)"
proof -
  have "\<bar>fl x - x\<bar> \<le> x / 2 ^ 24" using fl_error [of x] assms by simp
  then have "fl x - x \<le> x / 2 ^ 24" "x - fl x \<le> x / 2 ^ 24" by (simp_all only: abs_le_iff minus_diff_eq)
  then show "x * (1 - 1 / 2 ^ 24) \<le> fl x" and "fl x \<le> x * (1 + 1 / 2 ^ 24)"
    by (simp_all add: algebra_simps)
qed

lemma fl_nonneg: "0 \<le> x \<Longrightarrow> 0 \<le> fl x"
  using fl_bounds(1) [of x] by (rule order_trans [rotated]) simp_all

section \<open>Exact cases\<close>

lemma round_even_of_int [simp]: "round_even (of_int k) = k"
  by (simp add: round_even_def Let_def)

lemma fl_pos_of_int:
  assumes "0 < k" and "k < 2 ^ 24"
  shows "fl_pos (of_int k) = of_int k"
proof -
  let ?e = "leading_exponent (of_int k)"
  have "(2 :: rat) powi ?e \<le> of_int k" using leading_exponent_le [of "of_int k"] assms by simp
  also have "of_int k < (of_int (2 ^ 24) :: rat)" using assms(2) by (simp only: of_int_less_iff)
  also have "\<dots> = 2 powi 24" by simp
  finally have "?e < 24" by (rule power_int_le_imp_less_exp [rotated]) simp_all
  then have u: "(2 :: rat) powi (?e - 23) = 1 / 2 ^ nat (23 - ?e)"
    by (simp add: power_int_def field_simps split: if_splits)
  have "of_int k / (2 :: rat) powi (?e - 23) = of_int (k * 2 ^ nat (23 - ?e))"
    unfolding u by simp
  then show ?thesis
    unfolding fl_pos_def Let_def by (simp only: round_even_of_int) (simp add: u)
qed

lemma fl_of_int: "\<bar>k\<bar> < 2 ^ 24 \<Longrightarrow> fl (of_int k) = of_int k"
  using fl_pos_of_int [of k] fl_pos_of_int [of "- k"] by (auto simp: fl_def)

section \<open>Elapsed time\<close>

text \<open>Up to 70 minutes, the milliseconds are off by less than two.\<close>

lemma elapsed_ms_error:
  assumes "0 \<le> ns" and "ns \<le> 4194304 * 1000000"
  shows "\<bar>of_int (elapsed_ms ns) - (of_int ns :: rat) / 1000000\<bar> < 2" and "0 \<le> elapsed_ms ns"
proof -
  let ?t = "(of_int ns :: rat) / 1000000" and ?d = "(1 :: rat) / 2 ^ 24"
  define a where "a = fl (of_int ns)"
  define b where "b = fl (a / 1000000000)"
  define c where "c = fl (b * 1000)"
  have t: "0 \<le> ?t" using assms(1) by simp
  have "(of_int ns :: rat) \<le> of_int (4194304 * 1000000)" using assms(2) by (simp only: of_int_le_iff)
  then have t4: "?t \<le> 4194304" by simp
  have n: "0 \<le> a" "0 \<le> b" "0 \<le> c"
    using assms(1) by (simp_all add: a_def b_def c_def fl_nonneg)
  have a: "of_int ns * (1 - ?d) \<le> a" "a \<le> of_int ns * (1 + ?d)"
    unfolding a_def using assms(1) by (simp_all only: fl_bounds of_int_0_le_iff)
  have b: "a / 1000000000 * (1 - ?d) \<le> b" "b \<le> a / 1000000000 * (1 + ?d)"
    unfolding b_def using n(1) by (simp_all only: fl_bounds divide_nonneg_nonneg zero_le_numeral)
  have c: "b * 1000 * (1 - ?d) \<le> c" "c \<le> b * 1000 * (1 + ?d)"
    unfolding c_def using n(2) by (simp_all only: fl_bounds mult_nonneg_nonneg zero_le_numeral)
  have "?t - 1 \<le> c" "c \<le> ?t + 1"
    using a b c t t4 by simp_all
  moreover have "elapsed_ms ns = \<lfloor>c\<rfloor>"
    using n(3) by (simp add: elapsed_ms_def a_def b_def c_def Let_def)
  moreover have "of_int \<lfloor>c\<rfloor> \<le> c" "c < of_int \<lfloor>c\<rfloor> + 1" using floor_correct [of c] by simp_all
  ultimately have "of_int (elapsed_ms ns) - ?t < 2" "?t - of_int (elapsed_ms ns) < 2"
    and "0 \<le> elapsed_ms ns"
    using n(3) by linarith+
  then show "\<bar>of_int (elapsed_ms ns) - ?t\<bar> < 2" and "0 \<le> elapsed_ms ns"
    by (simp_all only: abs_less_iff minus_diff_eq)
qed

end
