(* ===== verification/Udp_Server.thy ===== *)
theory Udp_Server
  imports Platform Single_Float
begin

text \<open>
  The receiver of the probes, \<open>src/model/udp-app-server.cc\<close>: it counts the packets of the low
  and of the high entropy phase in 16-bit counters, takes the wall clock at the first and the
  last packet of each, answers every packet, and at the end compares the two durations. Members
  whose name another class of the repository uses too have the suffix \<open>_s\<close>.
\<close>

section \<open>State\<close>

datatype 'p server_event =
  ServerRx 'p | ServerRxWithAddresses 'p address address | SendReply 'p address
| BindSocket address | JoinMulticast address | ServerRecvCallback nat bool | CloseServerSocket nat
| CompressionDetected rat | NoCompressionDetected rat

text \<open>
  Time points are nanoseconds of the system clock, durations \<open>float\<close>s, and sockets identifiers.
\<close>

record 'p udp_server =
  m_port :: u16
  m_size_s :: u16
  m_count_s :: u16
  m_received_l :: u16
  m_received_h :: u16
  receivedAllLowEntropy :: bool
  m_duration_l :: rat
  m_duration_h :: rat
  m_first_t :: int
  m_last_t :: int
  m_socket_s :: "nat option"
  m_socket6 :: "nat option"
  m_local :: address
  s_events :: "'p server_event list"

definition s_log :: "'p server_event list \<Rightarrow> 'p udp_server \<Rightarrow> 'p udp_server" where
  "s_log es s = s\<lparr>s_events := s_events s @ es\<rparr>"

text \<open>
  The server's surroundings: packets, whether each \<open>Bind\<close> succeeds, which addresses are
  multicast, whether the sockets are UDP sockets, the next socket's identifier, and the address a
  socket is bound to.
\<close>

record 'p server_env =
  srv_pkt :: "'p packet_api"
  bind4_result :: int
  bind6_result_s :: int
  is_multicast :: "address \<Rightarrow> bool"
  is_udp_socket :: bool
  fresh_socket :: nat
  own_name :: address

section \<open>Construction and attributes\<close>

text \<open>The two time points the constructor declares are locals; the members start at the epoch.\<close>

definition UdpAppServer :: "'p udp_server \<Rightarrow> 'p udp_server" where
  "UdpAppServer raw = raw\<lparr>m_received_l := 0, m_received_h := 0, m_duration_l := 0, m_duration_h := 0,
     receivedAllLowEntropy := False, m_first_t := 0, m_last_t := 0, m_socket_s := None,
     m_socket6 := None, m_local := NoAddress, s_events := []\<rparr>"

datatype server_attribute = PortAttr nat | ServerMaxPacketsAttr nat | ServerPacketSizeAttr nat

definition server_defaults :: "server_attribute list" where
  "server_defaults = [PortAttr 9, ServerMaxPacketsAttr 6000, ServerPacketSizeAttr 100]"

text \<open>
  The checkers of \<open>MaxPackets\<close> and \<open>PacketSize\<close> admit 32 bits, the members behind them have 16:
  a larger value is cut off.
\<close>

fun set_server_attribute :: "server_attribute \<Rightarrow> 'p udp_server \<Rightarrow> 'p udp_server option" where
  "set_server_attribute (PortAttr n) s = (if n < 2 ^ 16 then Some (s\<lparr>m_port := of_nat n\<rparr>) else None)"
| "set_server_attribute (ServerMaxPacketsAttr n) s =
     (if n < 2 ^ 32 then Some (s\<lparr>m_count_s := of_nat n\<rparr>) else None)"
| "set_server_attribute (ServerPacketSizeAttr n) s =
     (if n < 2 ^ 32 then Some (s\<lparr>m_size_s := of_nat n\<rparr>) else None)"

fun set_server_attributes :: "server_attribute list \<Rightarrow> 'p udp_server \<Rightarrow> 'p udp_server option" where
  "set_server_attributes [] s = Some s"
| "set_server_attributes (a # as) s =
     (case set_server_attribute a s of None \<Rightarrow> None | Some s1 \<Rightarrow> set_server_attributes as s1)"

definition server_destroy :: "'p udp_server \<Rightarrow> 'p udp_server" where
  "server_destroy s = s\<lparr>m_socket_s := None, m_socket6 := None\<rparr>"

section \<open>Starting and stopping\<close>

text \<open>Joining the multicast group of an address after binding, if it is one.\<close>

definition join_group :: "'p server_env \<Rightarrow> address \<Rightarrow> 'p udp_server \<Rightarrow> 'p udp_server res" where
  "join_group E addr s =
     (if is_multicast E addr then
        (if is_udp_socket E then Inr (s_log [JoinMulticast addr] s)
         else Inl (FatalError ''Error: Failed to join multicast group''))
      else Inr s)"

definition open_socket4 :: "'p server_env \<Rightarrow> 'p udp_server \<Rightarrow> 'p udp_server res" where
  "open_socket4 E s =
     (let s1 = s\<lparr>m_socket_s := Some (fresh_socket E)\<rparr>; local4 = InetSocketAddr 0 (m_port s1)
      in if bind4_result E = -1 then Inl (FatalError ''Failed to bind socket'')
         else join_group E (m_local s1) (s_log [BindSocket local4] s1))"

definition open_socket6 :: "'p server_env \<Rightarrow> 'p udp_server \<Rightarrow> 'p udp_server res" where
  "open_socket6 E s =
     (let s1 = s\<lparr>m_socket6 := Some (fresh_socket E + 1)\<rparr>; local6 = Inet6SocketAddr 0 (m_port s1)
      in if bind6_result_s E = -1 then Inl (FatalError ''Failed to bind socket'')
         else join_group E local6 (s_log [BindSocket local6] s1))"

definition server_StartApplication :: "'p server_env \<Rightarrow> 'p udp_server \<Rightarrow> 'p udp_server res" where
  "server_StartApplication E s =
     bind_res (if m_socket_s s = None then open_socket4 E s else Inr s) (\<lambda>s1.
     bind_res (if m_socket6 s1 = None then open_socket6 E s1 else Inr s1) (\<lambda>s2.
     bind_res (deref ''m_socket'' (m_socket_s s2)) (\<lambda>k4.
     bind_res (deref ''m_socket6'' (m_socket6 s2)) (\<lambda>k6.
     Inr (s_log [ServerRecvCallback k4 True, ServerRecvCallback k6 True] s2)))))"

text \<open>The verdict: the difference of the two \<open>float\<close> durations, compared with 100.\<close>

definition difference :: "'p udp_server \<Rightarrow> rat" where
  "difference s = fl (m_duration_h s - m_duration_l s)"

definition server_StopApplication :: "'p udp_server \<Rightarrow> 'p udp_server" where
  "server_StopApplication s =
     (let s1 = s_log [if difference s > 100 then CompressionDetected (difference s)
                      else NoCompressionDetected (difference s)] s;
          s2 = (case m_socket_s s1 of None \<Rightarrow> s1
            | Some k \<Rightarrow> s_log [CloseServerSocket k, ServerRecvCallback k False] s1)
      in case m_socket6 s2 of None \<Rightarrow> s2
         | Some k \<Rightarrow> s_log [CloseServerSocket k, ServerRecvCallback k False] s2)"

section \<open>Receiving\<close>

text \<open>The phase counters and clocks, for a packet that arrives at clock time \<open>now\<close>.\<close>

definition count_low :: "int \<Rightarrow> 'p udp_server \<Rightarrow> 'p udp_server" where
  "count_low now s =
     (let s1 = s\<lparr>m_received_l := m_received_l s + 1\<rparr> in
      if m_received_l s1 = 1 then s1\<lparr>m_first_t := now\<rparr>
      else if m_received_l s1 < m_count_s s1 then s1\<lparr>m_last_t := now\<rparr>
      else if m_received_l s1 = m_count_s s1 then
        (let s2 = s1\<lparr>m_last_t := now\<rparr>; d = elapsed_ms (m_last_t s2 - m_first_t s2)
         in s2\<lparr>m_duration_l := fl (of_int d), receivedAllLowEntropy := True\<rparr>)
      else s1)"

definition count_high :: "int \<Rightarrow> 'p udp_server \<Rightarrow> 'p udp_server" where
  "count_high now s =
     (let s1 = s\<lparr>m_received_h := m_received_h s + 1\<rparr> in
      if m_received_h s1 = 1 then s1\<lparr>m_first_t := now\<rparr>
      else if m_received_h s1 < m_count_s s1 then s1\<lparr>m_last_t := now\<rparr>
      else if m_received_h s1 = m_count_s s1 then
        (let s2 = s1\<lparr>m_last_t := now\<rparr>; d = elapsed_ms (m_last_t s2 - m_first_t s2)
         in s2\<lparr>m_duration_h := fl (of_int d)\<rparr>)
      else s1)"

definition count_packet :: "int \<Rightarrow> 'p udp_server \<Rightarrow> 'p udp_server" where
  "count_packet now s = (if \<not> receivedAllLowEntropy s then count_low now s else count_high now s)"

text \<open>
  \<open>HandleRead\<close> takes every packet waiting at the socket, each with its source and the clock
  when it is handled. The answer is a new packet of \<open>m_size\<close> zero bytes.
\<close>

fun server_HandleRead ::
  "'p server_env \<Rightarrow> ('p \<times> address \<times> int) list \<Rightarrow> 'p udp_server \<Rightarrow> 'p udp_server" where
  "server_HandleRead E [] s = s"
| "server_HandleRead E ((packet, src, now) # waiting) s =
     (let s1 = count_packet now s;
          s2 = s_log [ServerRx packet, ServerRxWithAddresses packet src (own_name E)] s1;
          p = CreateZeroFilled (srv_pkt E) (ucast (m_size_s s2))
      in server_HandleRead E waiting (s_log [SendReply p src] s2))"

end
