(* ===== verification/Server_Timing.thy ===== *)
theory Server_Timing
  imports Udp_Server
begin

text \<open>
  What the server measures: which packets its two durations span, when it never finishes a
  phase, how close its milliseconds and its verdict are to the clock, and what it answers.
\<close>

section \<open>Counting a sequence of arrivals\<close>

definition count_all :: "int list \<Rightarrow> 'p udp_server \<Rightarrow> 'p udp_server" where
  "count_all ts s = fold count_packet ts s"

lemma count_all_simps [simp]:
  "count_all [] s = s" "count_all (t # ts) s = count_all ts (count_packet t s)"
  "count_all (ts @ us) s = count_all us (count_all ts s)"
  by (simp_all add: count_all_def)

text \<open>What counting leaves alone.\<close>

lemma count_packet_frame:
  "m_count_s (count_packet t s) = m_count_s s" "m_size_s (count_packet t s) = m_size_s s"
  "s_events (count_packet t s) = s_events s"
  by (simp_all add: count_packet_def count_low_def count_high_def Let_def)

lemma unat_of_nat16: "n < 65536 \<Longrightarrow> unat (of_nat n :: u16) = n"
  by (simp add: unsigned_of_nat take_bit_nat_eq_self)

lemma of_nat_less_eq16:
  "a < 65536 \<Longrightarrow> b < 65536 \<Longrightarrow> (of_nat a :: u16) < of_nat b \<longleftrightarrow> a < b"
  "a < 65536 \<Longrightarrow> b < 65536 \<Longrightarrow> (of_nat a :: u16) = of_nat b \<longleftrightarrow> a = b"
  by (metis unat_of_nat16 word_less_nat_alt, metis unat_of_nat16)

text \<open>
  The state after \<open>k\<close> packets of the low phase, and of the high phase, of a server for \<open>m\<close>
  packets: the clock was started at \<open>first\<close>.
\<close>

definition low_count :: "nat \<Rightarrow> nat \<Rightarrow> int \<Rightarrow> 'p udp_server \<Rightarrow> bool" where
  "low_count m k first s \<longleftrightarrow> m_count_s s = of_nat m \<and> \<not> receivedAllLowEntropy s \<and>
     m_received_l s = of_nat k \<and> m_received_h s = 0 \<and> (0 < k \<longrightarrow> m_first_t s = first)"

definition high_count :: "nat \<Rightarrow> nat \<Rightarrow> int \<Rightarrow> rat \<Rightarrow> 'p udp_server \<Rightarrow> bool" where
  "high_count m k first l s \<longleftrightarrow> m_count_s s = of_nat m \<and> receivedAllLowEntropy s \<and>
     m_duration_l s = l \<and> m_received_h s = of_nat k \<and> (0 < k \<longrightarrow> m_first_t s = first)"

lemma low_count_step:
  assumes "low_count m k first s" and "k + 1 < m" and "m < 65536" and "k = 0 \<longrightarrow> t = first"
  shows "low_count m (k + 1) first (count_packet t s)"
  using assms of_nat_less_eq16(1) [of "k + 1" m] of_nat_less_eq16(2) [of "k + 1" 1]
  by (auto simp: low_count_def count_packet_def count_low_def Let_def add.commute)

lemma low_count_last:
  assumes "low_count m k first s" and "k + 1 = m" and "1 < m" and "m < 65536"
  shows "high_count m 0 u (fl (of_int (elapsed_ms (t - first)))) (count_packet t s)"
  using assms of_nat_less_eq16(2) [of "k + 1" 1]
  by (auto simp: low_count_def high_count_def count_packet_def count_low_def Let_def add.commute)

lemma high_count_step:
  assumes "high_count m k first l s" and "k + 1 < 65536" and "m < 65536" and "k = 0 \<longrightarrow> t = first"
    and "k + 1 \<noteq> m \<or> m = 1"
  shows "high_count m (k + 1) first l (count_packet t s) \<and>
    m_duration_h (count_packet t s) = m_duration_h s"
  using assms of_nat_less_eq16(2) [of "k + 1" m] of_nat_less_eq16(2) [of "k + 1" 1]
  by (auto simp: high_count_def count_packet_def count_high_def Let_def add.commute)

lemma high_count_last:
  assumes "high_count m k first l s" and "k + 1 = m" and "1 < m" and "m < 65536"
  shows "high_count m m first l (count_packet t s) \<and>
    m_duration_h (count_packet t s) = fl (of_int (elapsed_ms (t - first)))"
  using assms of_nat_less_eq16(2) [of "k + 1" 1]
  by (auto simp: high_count_def count_packet_def count_high_def Let_def add.commute)

text \<open>Runs of packets that do not complete a phase.\<close>

lemma low_count_run:
  assumes "low_count m 0 x s" and "length ts < m" and "m < 65536"
  shows "low_count m (length ts) (hd (ts @ [x])) (count_all ts s)"
  using assms
proof (induction ts rule: rev_induct)
  case (snoc t ts)
  then have IH: "low_count m (length ts) (hd (ts @ [x])) (count_all ts s)" by simp
  show ?case
  proof (cases ts)
    case Nil
    then have "low_count m 0 t s" using snoc.prems(1) by (simp add: low_count_def)
    then show ?thesis using low_count_step [of m 0 t s t] snoc.prems Nil by simp
  next
    case (Cons u us)
    then show ?thesis using low_count_step [OF IH, of t] snoc.prems by simp
  qed
qed simp

lemma high_count_run:
  assumes "high_count m k x l s" and "k + length ts < 65536" and "m < 65536" and "1 < m"
    and "k + length ts < m \<or> m \<le> k"
  shows "high_count m (k + length ts) (if k = 0 then hd (ts @ [x]) else x) l (count_all ts s) \<and>
    m_duration_h (count_all ts s) = m_duration_h s"
  using assms
proof (induction ts rule: rev_induct)
  case (snoc t ts)
  then have IH: "high_count m (k + length ts) (if k = 0 then hd (ts @ [x]) else x) l (count_all ts s)"
    "m_duration_h (count_all ts s) = m_duration_h s"
    by auto
  show ?case
  proof (cases "k + length ts = 0")
    case True
    then have "high_count m 0 t l s" using snoc.prems(1) by (simp add: high_count_def)
    then show ?thesis using high_count_step [of m 0 t l s t] snoc.prems True by simp
  next
    case False
    then have "(if k = 0 then hd ((ts @ [t]) @ [x]) else x) = (if k = 0 then hd (ts @ [x]) else x)"
      by (cases ts) simp_all
    then show ?thesis using high_count_step [OF IH(1), of t] IH(2) snoc.prems False by auto
  qed
qed auto

lemma low_phase:
  assumes "low_count m 0 x s" and "length ls = m" and "1 < m" and "m < 65536"
  shows "high_count m 0 y (fl (of_int (elapsed_ms (last ls - hd ls)))) (count_all ls s)"
proof -
  obtain us t where ls: "ls = us @ [t]" using assms(2,3) by (cases ls rule: rev_cases) auto
  then have "us \<noteq> []" using assms(2,3) by auto
  then have hd: "hd (us @ [x]) = hd ls" using ls by simp
  have "low_count m (length us) (hd ls) (count_all us s)"
    using low_count_run [OF assms(1), of us] ls assms(2,4) hd by simp
  from low_count_last [OF this, of y t] show ?thesis using ls assms(2-4) by simp
qed

lemma high_phase:
  assumes "high_count m 0 x l s" and "length hs = m" and "1 < m" and "m < 65536"
  shows "high_count m m (hd hs) l (count_all hs s) \<and>
    m_duration_h (count_all hs s) = fl (of_int (elapsed_ms (last hs - hd hs)))"
proof -
  obtain us t where hs: "hs = us @ [t]" using assms(2,3) by (cases hs rule: rev_cases) auto
  then have "us \<noteq> []" using assms(2,3) by auto
  then have hd: "hd (us @ [x]) = hd hs" using hs by simp
  have "high_count m (length us) (hd hs) l (count_all us s)"
    using high_count_run [OF assms(1), of us] hs assms(2-4) hd by simp
  from high_count_last [OF this, of t] show ?thesis using hs assms(2-4) by simp
qed

lemma server_phases_run:
  assumes "low_count m 0 x s" and "1 < m" and "m < 65536"
    and "length ls = m" and "length hs = m" and "m + length rest < 65536"
  shows "m_duration_l (count_all (ls @ hs @ rest) s) = fl (of_int (elapsed_ms (last ls - hd ls))) \<and>
    m_duration_h (count_all (ls @ hs @ rest) s) = fl (of_int (elapsed_ms (last hs - hd hs)))"
proof -
  let ?l = "fl (of_int (elapsed_ms (last ls - hd ls)))"
  have "high_count m 0 0 ?l (count_all ls s)" by (rule low_phase [OF assms(1,4,2,3)])
  note h = high_phase [OF this assms(5,2,3)]
  have "high_count m (m + length rest) (hd hs) ?l (count_all rest (count_all hs (count_all ls s))) \<and>
      m_duration_h (count_all rest (count_all hs (count_all ls s))) = m_duration_h (count_all hs (count_all ls s))"
    using high_count_run [of m m "hd hs" ?l "count_all hs (count_all ls s)" rest] h assms(2,3,6) by simp
  then show ?thesis using h by (simp add: high_count_def)
qed

section \<open>Properties\<close>

text \<open>
  C33. What the two durations are: a fresh server for \<open>m\<close> packets (at least 2) measures from the
  first to the \<open>m\<close>-th arrival and from the \<open>m + 1\<close>-st to the \<open>2 m\<close>-th; up to \<open>65535 - m\<close>
  further packets change neither.
\<close>

theorem server_phases:
  assumes "low_count m 0 x s" and "1 < m" and "m < 65536"
    and "length ls = m" and "length hs = m" and "m + length rest < 65536"
  shows "m_duration_l (count_all (ls @ hs @ rest) s) = fl (of_int (elapsed_ms (last ls - hd ls))) \<and>
    m_duration_h (count_all (ls @ hs @ rest) s) = fl (of_int (elapsed_ms (last hs - hd hs)))"
  using server_phases_run [OF assms] .

definition sample_server :: "u16 \<Rightarrow> byte list udp_server" where
  "sample_server m = \<lparr>m_port = 4000, m_size_s = 100, m_count_s = m, m_received_l = 0, m_received_h = 0,
     receivedAllLowEntropy = False, m_duration_l = 0, m_duration_h = 0, m_first_t = 0, m_last_t = 0,
     m_socket_s = Some 0, m_socket6 = Some 1, m_local = NoAddress, s_events = []\<rparr>"

lemma sample_server_fresh: "low_count m 0 x (sample_server (of_nat m))"
  by (simp add: low_count_def sample_server_def)

theorem server_phases_witness:
  "m_duration_l (count_all ([100, 700] @ [1000, 5000] @ [9000]) (sample_server 2)) =
     fl (of_int (elapsed_ms 600)) \<and>
   m_duration_h (count_all ([100, 700] @ [1000, 5000] @ [9000]) (sample_server 2)) =
     fl (of_int (elapsed_ms 4000))"
  using server_phases [OF sample_server_fresh [of 2], of "[100, 700]" "[1000, 5000]" "[9000]"] by simp

text \<open>
  A server for one packet never finishes its low entropy phase, however many packets arrive:
  the first one only starts the clock, and the test for the last one comes after that for the
  first.
\<close>

theorem server_for_one_packet_hangs:
  assumes "m_count_s s = 1" and "\<not> receivedAllLowEntropy s"
  shows "\<not> receivedAllLowEntropy (count_all ts s) \<and> m_duration_l (count_all ts s) = m_duration_l s"
  using assms
proof (induction ts arbitrary: s)
  case (Cons t ts)
  have "\<not> receivedAllLowEntropy (count_packet t s) \<and> m_duration_l (count_packet t s) = m_duration_l s"
    using Cons.prems by (auto simp: count_packet_def count_low_def Let_def)
  then show ?case using Cons.IH [of "count_packet t s"] Cons.prems(1) by (simp add: count_packet_frame)
qed simp

theorem server_for_one_packet_hangs_witness:
  "\<not> receivedAllLowEntropy (count_all [1, 2, 3] (sample_server 1))"
  using server_for_one_packet_hangs [of "sample_server 1" "[1, 2, 3]"] by (simp add: sample_server_def)

text \<open>\<open>HandleRead\<close> is the counting and, for every packet, the traces and the answer.\<close>

lemma count_packet_log: "count_packet t (s_log es s) = s_log es (count_packet t s)"
  by (simp add: s_log_def count_packet_def count_low_def count_high_def Let_def)

lemma count_all_log: "count_all ts (s_log es s) = s_log es (count_all ts s)"
  by (induction ts arbitrary: s) (simp_all add: count_packet_log)

lemma count_all_frame: "s_events (count_all ts s) = s_events s"
  by (induction ts arbitrary: s) (simp_all add: count_packet_frame)

definition answers :: "'p server_env \<Rightarrow> u16 \<Rightarrow> 'p \<times> address \<times> int \<Rightarrow> 'p server_event list" where
  "answers E n a = (case a of (p, src, t) \<Rightarrow>
     [ServerRx p, ServerRxWithAddresses p src (own_name E),
      SendReply (CreateZeroFilled (srv_pkt E) (ucast n)) src])"

lemma s_log_log: "s_log es (s_log es' s) = s_log (es' @ es) s"
  by (simp add: s_log_def)

lemma HandleRead_counts:
  "server_HandleRead E ps s =
     s_log (concat (map (answers E (m_size_s s)) ps)) (count_all (map (snd \<circ> snd) ps) s)"
proof (induction ps arbitrary: s)
  case (Cons a ps)
  obtain p src t where a: "a = (p, src, t)" by (cases a)
  have m: "m_size_s (s_log es (count_packet t s)) = m_size_s s" for es
    by (simp add: s_log_def count_packet_frame)
  show ?case
    by (simp add: a Cons m Let_def answers_def s_log_log count_all_log)
qed (simp add: s_log_def)

text \<open>
  C40. Every packet gets exactly one answer, in order and to its source: a new packet of \<open>m_size\<close>
  zero bytes, whatever was received.
\<close>

theorem server_answers:
  "\<exists>es. s_events (server_HandleRead E ps s) = s_events s @ es \<and>
     filter (\<lambda>e. case e of SendReply p a \<Rightarrow> True | _ \<Rightarrow> False) es =
       map (\<lambda>(p, src, t). SendReply (CreateZeroFilled (srv_pkt E) (ucast (m_size_s s))) src) ps"
proof -
  have "filter (\<lambda>e. case e of SendReply p a \<Rightarrow> True | _ \<Rightarrow> False) (concat (map (answers E n) qs)) =
      map (\<lambda>(p, src, t). SendReply (CreateZeroFilled (srv_pkt E) (ucast n)) src) qs" for n qs
    by (induction qs) (auto simp: answers_def)
  then show ?thesis by (simp add: HandleRead_counts s_log_def count_all_frame)
qed

section \<open>The verdict\<close>

text \<open>
  C34. How good the verdict is: for two phases of less than 70 minutes on the clock, a difference of
  104 ms or more is reported as compression and one of 97 ms or less is not.
\<close>

theorem verdict_accuracy:
  assumes "m_duration_l s = fl (of_int (elapsed_ms l))" and "m_duration_h s = fl (of_int (elapsed_ms h))"
    and "0 \<le> l" "l \<le> 4194304 * 1000000" and "0 \<le> h" "h \<le> 4194304 * 1000000"
  shows "(104 * 1000000 \<le> h - l \<longrightarrow>
      CompressionDetected (difference s) \<in> set (s_events (server_StopApplication s))) \<and>
    (h - l \<le> 97 * 1000000 \<longrightarrow>
      NoCompressionDetected (difference s) \<in> set (s_events (server_StopApplication s)))"
proof -
  let ?ml = "elapsed_ms l" and ?mh = "elapsed_ms h"
  have e: "\<bar>of_int ?ml - (of_int l :: rat) / 1000000\<bar> < 2" "\<bar>of_int ?mh - (of_int h :: rat) / 1000000\<bar> < 2"
    "0 \<le> ?ml" "0 \<le> ?mh"
    using elapsed_ms_error assms(3-6) by blast+
  have "(of_int l :: rat) \<le> of_int (4194304 * 1000000)" "(of_int h :: rat) \<le> of_int (4194304 * 1000000)"
    using assms(4,6) by (simp_all only: of_int_le_iff)
  then have "(of_int ?ml :: rat) < of_int 4194306" "(of_int ?mh :: rat) < of_int 4194306"
    using e(1,2) unfolding abs_less_iff by simp_all
  then have b: "?ml < 4194306" "?mh < 4194306" by (simp_all only: of_int_less_iff)
  have "difference s = fl (of_int (?mh - ?ml))"
    using b e(3,4) by (simp add: difference_def assms(1,2) fl_of_int)
  then have d: "difference s = of_int (?mh - ?ml)" using b e(3,4) by (subst (asm) fl_of_int) simp_all
  have "(of_int 104 :: rat) \<le> of_int h / 1000000 - of_int l / 1000000" if "104 * 1000000 \<le> h - l"
  proof -
    have "(of_int (104 * 1000000) :: rat) \<le> of_int (h - l)" using that by (simp only: of_int_le_iff)
    then show ?thesis by simp
  qed
  moreover have "of_int h / 1000000 - of_int l / 1000000 \<le> (of_int 97 :: rat)" if "h - l \<le> 97 * 1000000"
  proof -
    have "(of_int (h - l) :: rat) \<le> of_int (97 * 1000000)" using that by (simp only: of_int_le_iff)
    then show ?thesis by simp
  qed
  ultimately have "104 * 1000000 \<le> h - l \<Longrightarrow> (of_int 100 :: rat) < of_int (?mh - ?ml)"
    and "h - l \<le> 97 * 1000000 \<Longrightarrow> of_int (?mh - ?ml) < (of_int 101 :: rat)"
    using e(1,2) unfolding abs_less_iff by fastforce+
  then have i: "104 * 1000000 \<le> h - l \<Longrightarrow> 100 < ?mh - ?ml" "h - l \<le> 97 * 1000000 \<Longrightarrow> ?mh - ?ml < 101"
    by (simp_all only: of_int_less_iff)
  have "difference s > of_int 100 \<longleftrightarrow> 100 < ?mh - ?ml" unfolding d by (simp only: of_int_less_iff)
  then have "difference s > 100 \<longleftrightarrow> 100 < ?mh - ?ml" by simp
  then show ?thesis
    using i by (auto simp: server_StopApplication_def s_log_def Let_def split: option.splits)
qed

text \<open>The verdict on phases of 1 and 1.2 seconds.\<close>

theorem verdict_accuracy_witness:
  "CompressionDetected (difference ((sample_server 2)\<lparr>
       m_duration_l := fl (of_int (elapsed_ms 1000000000)),
       m_duration_h := fl (of_int (elapsed_ms 1200000000))\<rparr>)) \<in>
     set (s_events (server_StopApplication ((sample_server 2)\<lparr>
       m_duration_l := fl (of_int (elapsed_ms 1000000000)),
       m_duration_h := fl (of_int (elapsed_ms 1200000000))\<rparr>)))"
  using verdict_accuracy [of "(sample_server 2)\<lparr>m_duration_l := fl (of_int (elapsed_ms 1000000000)),
       m_duration_h := fl (of_int (elapsed_ms 1200000000))\<rparr>" 1000000000 1200000000]
  by simp

end
