(* ===== verification/Detection.thy ===== *)
theory Detection
  imports Client_Run Server_Timing
begin

text \<open>
  Client and server together: which of the client's packets the server's two phases span when
  every packet arrives, in order.
\<close>

text \<open>The packets a client has handed to its socket.\<close>

definition sent :: "'p udp_client \<Rightarrow> 'p list" where
  "sent c = concat (map (\<lambda>e. case e of SocketSend p \<Rightarrow> [p] | _ \<Rightarrow> []) (wire c))"

lemma sent_sends:
  "concat (map (\<lambda>e. case e of SocketSend p \<Rightarrow> [p] | _ \<Rightarrow> []) (map SocketSend xs)) = xs"
  by (induction xs) simp_all

lemma sent_run:
  assumes "wire c' = wire c @ map SocketSend ps @ [SleepForMilliseconds n] @ map SocketSend qs"
  shows "sent c' = sent c @ ps @ qs"
  using assms by (simp add: sent_def sent_sends del: map_map)

text \<open>A client for 6000 packets: the 6001st low entropy packet lies behind the array.\<close>

lemma overrun_6000:
  assumes "app_laws E" and "low_state 6000 0 c" and "wire c = []"
  shows "\<exists>c'. run_sends 6000 E c = Inr c' \<and> sent c' = replicate 6000 (low_packet E c) \<and>
    run_sends 6001 E c = Inl (Undefined ''packets'')"
proof -
  obtain c1 where c1: "run_sends 6000 E c = Inr c1" "low_state 6000 6000 c1"
    "wire c1 = wire c @ map SocketSend (replicate 6000 (low_packet E c))"
    using run_low [OF assms(1,2), of 6000] by auto
  have "m_sendEvent c1" using c1(2) by (simp add: low_state_def)
  then have "run_sends (6000 + 1) E c = Inl (Undefined ''packets'')"
    using c1(1) low_step_outside [OF c1(2), of E] by (simp only: run_sends_add bind_res.simps) simp
  then have "run_sends 6001 E c = Inl (Undefined ''packets'')"
    by (simp only: numeral_plus_one add_num_simps)
  moreover have "sent c1 = replicate 6000 (low_packet E c)"
    using c1(3) assms(3) by (simp only: sent_def sent_sends append_Nil)
  ultimately show ?thesis using c1(1) by blast
qed

lemma split_phases:
  assumes "length ts = 2 * m + 1" and "0 < m"
  shows "\<exists>ls hs t. ts = ls @ hs @ [t] \<and> length ls = m \<and> length hs = m \<and> hd ls = ts ! 0 \<and>
    last ls = ts ! (m - 1) \<and> hd hs = ts ! m \<and> last hs = ts ! (2 * m - 1)"
proof -
  let ?ls = "take m ts" and ?hs = "take m (drop m ts)"
  have d: "length (drop (2 * m) ts) = 1" using assms(1) by simp
  then obtain t where t: "drop (2 * m) ts = [t]" by (cases "drop (2 * m) ts") auto
  have "ts = ?ls @ ?hs @ drop (2 * m) ts"
    by (metis append_take_drop_id drop_drop mult_2)
  moreover have "?ls \<noteq> []" "?hs \<noteq> []" using assms by auto
  ultimately show ?thesis
    using assms t by - (rule exI [of _ ?ls], rule exI [of _ ?hs], rule exI [of _ t],
      auto simp: hd_conv_nth last_conv_nth mult_2)
qed

text \<open>
  C9. The phases of the two programs are off by one: when all packets of a client for 5999 packets
  reach a server for 5999 packets, the first packet that the server times as high entropy, the
  one its high entropy clock starts with, is still a low entropy packet, and the client's last
  packet is in neither phase.
\<close>

theorem phases_off_by_one:
  assumes "app_laws E" and "low_state 5999 0 c" and "sent c = []"
    and "low_count 5999 0 x s" and "length ts = 11999"
  shows "\<exists>c'. run_sends 11999 E c = Inr c' \<and> length (sent c') = 11999 \<and>
    sent c' ! 5999 = low_packet E c \<and> sent c' ! 6000 = high_packet E c 0 \<and>
    m_duration_l (count_all ts s) = fl (of_int (elapsed_ms (ts ! 5998 - ts ! 0))) \<and>
    m_duration_h (count_all ts s) = fl (of_int (elapsed_ms (ts ! 11997 - ts ! 5999)))"
proof -
  let ?L = "replicate 6000 (low_packet E c)" and ?H = "map (high_packet E c) [0..<5999]"
  obtain c' where c': "run_sends (6000 + 5999) E c = Inr c'"
    "wire c' = wire c @ map SocketSend ?L @ [SleepForMilliseconds 1000] @ map SocketSend ?H"
    using run_5999 [OF assms(1,2)] by blast
  have r: "run_sends 11999 E c = Inr c'"
    using c'(1) by (simp only: numeral_plus_numeral add_num_simps)
  have st: "sent c' = ?L @ ?H" using sent_run [OF c'(2)] assms(3) by (simp only: append_Nil)
  have len: "length (sent c') = 11999"
    unfolding st length_append length_replicate length_map length_upt by simp
  have "sent c' ! 5999 = ?L ! 5999"
    unfolding st by (subst nth_append_left) simp_all
  also have "\<dots> = low_packet E c" by (rule nth_replicate) simp
  finally have lo: "sent c' ! 5999 = low_packet E c" .
  have "sent c' ! (length ?L + 0) = ?H ! 0" unfolding st by (rule nth_append_length_plus)
  also have "\<dots> = high_packet E c 0" by (subst nth_map) (simp_all only: length_upt nth_upt, simp_all)
  finally have hi: "sent c' ! 6000 = high_packet E c 0" by (simp only: length_replicate add_0_right)
  obtain ls hs t where sp: "ts = ls @ hs @ [t]" "length ls = 5999" "length hs = 5999" "hd ls = ts ! 0"
    "last ls = ts ! 5998" "hd hs = ts ! 5999" "last hs = ts ! 11997"
    using split_phases [of ts 5999] assms(5) by auto
  have "m_duration_l (count_all (ls @ hs @ [t]) s) = fl (of_int (elapsed_ms (last ls - hd ls))) \<and>
      m_duration_h (count_all (ls @ hs @ [t]) s) = fl (of_int (elapsed_ms (last hs - hd hs)))"
    by (rule server_phases_run [OF assms(4)]) (simp_all add: sp(2,3))
  then show ?thesis using r len lo hi sp(4-7) unfolding sp(1) [symmetric] by simp
qed

theorem phases_off_by_one_witness:
  "\<exists>c'. run_sends 11999 client_env (sample_client 5999) = Inr c' \<and>
     sent c' ! 5999 = low_packet client_env (sample_client 5999) \<and>
     m_duration_h (count_all (replicate 11999 7) (sample_server 5999)) = fl (of_int (elapsed_ms 0))"
proof -
  have c: "low_state 5999 0 (sample_client 5999)" using sample_low_state [of 5999] by simp
  have s: "low_count 5999 0 0 (sample_server 5999)" using sample_server_fresh [of 5999 0] by simp
  have e: "sent (sample_client 5999) = []" by (simp add: sent_def wire_def sample_client_def)
  have n: "replicate 11999 (7 :: int) ! 11997 - replicate 11999 7 ! 5999 = 0"
    by (subst (1 2) nth_replicate) simp_all
  show ?thesis
    using phases_off_by_one [OF client_env_laws c e s, of "replicate 11999 7"]
    unfolding n length_replicate by blast
qed

end
