(* ===== verification/Udp_Helper.thy ===== *)
theory Udp_Helper
  imports Detection
begin

text \<open>
  \<open>src/helper/udp-app-helper.cc\<close>: the factories of the two applications. A factory is the list
  of the attributes it has been given, in order; an application is made from raw memory with its
  class's attributes first and the factory's after them. Names of nodes are looked up outside the
  repository.
\<close>

section \<open>The server's helper\<close>

type_synonym server_factory = "server_attribute list"

definition UdpAppServerHelper :: "u16 \<Rightarrow> server_factory" where
  "UdpAppServerHelper port = [PortAttr (unat port)]"

definition server_SetAttribute :: "server_attribute \<Rightarrow> server_factory \<Rightarrow> server_factory" where
  "server_SetAttribute a m_factory = m_factory @ [a]"

text \<open>The application and the node it is added to; a refused attribute stops the program.\<close>

definition server_InstallPriv ::
  "server_factory \<Rightarrow> 'p udp_server \<Rightarrow> nat \<Rightarrow> (nat \<times> 'p udp_server) res" where
  "server_InstallPriv m_factory raw node =
     (case set_server_attributes (server_defaults @ m_factory) (UdpAppServer raw) of
        None \<Rightarrow> Inl (FatalError ''attribute'')
      | Some app \<Rightarrow> Inr (node, app))"

definition server_Install_node ::
  "server_factory \<Rightarrow> 'p udp_server \<Rightarrow> nat \<Rightarrow> (nat \<times> 'p udp_server) list res" where
  "server_Install_node m_factory raw node =
     bind_res (server_InstallPriv m_factory raw node) (\<lambda>app. Inr [app])"

definition server_Install_name ::
  "(string \<Rightarrow> nat option) \<Rightarrow> server_factory \<Rightarrow> 'p udp_server \<Rightarrow> string \<Rightarrow> (nat \<times> 'p udp_server) list res" where
  "server_Install_name find_name m_factory raw nodeName =
     bind_res (deref ''node'' (find_name nodeName)) (server_Install_node m_factory raw)"

text \<open>The container of nodes, each with the memory its application gets.\<close>

fun server_Install ::
  "server_factory \<Rightarrow> ('p udp_server \<times> nat) list \<Rightarrow> (nat \<times> 'p udp_server) list res" where
  "server_Install m_factory [] = Inr []"
| "server_Install m_factory ((raw, node) # c) =
     bind_res (server_InstallPriv m_factory raw node) (\<lambda>app.
     bind_res (server_Install m_factory c) (\<lambda>apps. Inr (app # apps)))"

section \<open>The client's helper\<close>

type_synonym client_factory = "client_attribute list"

definition UdpAppClientHelper :: "address \<Rightarrow> u16 \<Rightarrow> client_factory" where
  "UdpAppClientHelper a port = [RemoteAddressAttr a, RemotePortAttr (unat port)]"

definition UdpAppClientHelper_address :: "address \<Rightarrow> client_factory" where
  "UdpAppClientHelper_address a = [RemoteAddressAttr a]"

definition client_SetAttribute :: "client_attribute \<Rightarrow> client_factory \<Rightarrow> client_factory" where
  "client_SetAttribute a m_factory = m_factory @ [a]"

text \<open>The fills are passed on to the client; an application of another class is a null pointer.\<close>

definition helper_SetFill_string ::
  "'p app_env \<Rightarrow> 'p udp_client option \<Rightarrow> byte list \<Rightarrow> 'p udp_client res" where
  "helper_SetFill_string E app fill = bind_res (deref ''GetObject'' app) (SetFill_string E fill)"

definition helper_SetFill_byte ::
  "'p app_env \<Rightarrow> 'p udp_client option \<Rightarrow> byte \<Rightarrow> u32 \<Rightarrow> 'p udp_client res" where
  "helper_SetFill_byte E app fill dataLength =
     bind_res (deref ''GetObject'' app) (SetFill_byte E fill dataLength)"

definition helper_SetFill_pattern ::
  "nat \<Rightarrow> 'p app_env \<Rightarrow> 'p udp_client option \<Rightarrow> byte list \<Rightarrow> u32 \<Rightarrow> u32 \<Rightarrow> 'p udp_client res option" where
  "helper_SetFill_pattern fuel E app fill fillLength dataLength =
     (case app of None \<Rightarrow> Some (Inl (Undefined ''GetObject''))
      | Some c \<Rightarrow> SetFill_pattern fuel E fill fillLength dataLength c)"

definition client_InstallPriv ::
  "client_factory \<Rightarrow> 'p udp_client \<Rightarrow> nat \<Rightarrow> (nat \<times> 'p udp_client) res" where
  "client_InstallPriv m_factory raw node =
     (case set_client_attributes (client_defaults @ m_factory) (UdpAppClient raw) of
        None \<Rightarrow> Inl (FatalError ''attribute'')
      | Some app \<Rightarrow> Inr (node, app))"

definition client_Install_node ::
  "client_factory \<Rightarrow> 'p udp_client \<Rightarrow> nat \<Rightarrow> (nat \<times> 'p udp_client) list res" where
  "client_Install_node m_factory raw node =
     bind_res (client_InstallPriv m_factory raw node) (\<lambda>app. Inr [app])"

definition client_Install_name ::
  "(string \<Rightarrow> nat option) \<Rightarrow> client_factory \<Rightarrow> 'p udp_client \<Rightarrow> string \<Rightarrow> (nat \<times> 'p udp_client) list res" where
  "client_Install_name find_name m_factory raw nodeName =
     bind_res (deref ''node'' (find_name nodeName)) (client_Install_node m_factory raw)"

fun client_Install ::
  "client_factory \<Rightarrow> ('p udp_client \<times> nat) list \<Rightarrow> (nat \<times> 'p udp_client) list res" where
  "client_Install m_factory [] = Inr []"
| "client_Install m_factory ((raw, node) # c) =
     bind_res (client_InstallPriv m_factory raw node) (\<lambda>app.
     bind_res (client_Install m_factory c) (\<lambda>apps. Inr (app # apps)))"

section \<open>Installed applications\<close>

lemma set_server_attributes_append:
  "set_server_attributes (as @ bs) s =
     (case set_server_attributes as s of None \<Rightarrow> None | Some s1 \<Rightarrow> set_server_attributes bs s1)"
  by (induction as arbitrary: s) (auto split: option.splits)

lemma set_server_attribute_fresh:
  "set_server_attribute a s = Some s' \<Longrightarrow> m_received_l s' = m_received_l s \<and>
     m_received_h s' = m_received_h s \<and> receivedAllLowEntropy s' = receivedAllLowEntropy s"
  by (cases a) (auto split: if_splits)

lemma set_server_attributes_fresh:
  "set_server_attributes as s = Some s' \<Longrightarrow> m_received_l s' = m_received_l s \<and>
     m_received_h s' = m_received_h s \<and> receivedAllLowEntropy s' = receivedAllLowEntropy s"
  by (induction as arbitrary: s) (auto split: option.splits dest: set_server_attribute_fresh)

text \<open>
  C39. A server installed with \<open>MaxPackets\<close> set to \<open>n\<close> as its last attribute counts for \<open>n\<close>
  modulo 65536 packets: the attribute accepts 32 bits, the member keeps 16.
\<close>

theorem server_count_truncated:
  assumes "server_InstallPriv (server_SetAttribute (ServerMaxPacketsAttr n) f) raw node = Inr (k, s)"
  shows "k = node \<and> low_count (n mod 65536) 0 x s"
proof -
  obtain s1 where s1: "set_server_attributes (server_defaults @ f) (UdpAppServer raw) = Some s1"
    and s: "set_server_attribute (ServerMaxPacketsAttr n) s1 = Some s" and k: "k = node"
    using assms
    by (auto simp: server_InstallPriv_def server_SetAttribute_def set_server_attributes_append
        append_assoc [symmetric] simp del: append_assoc split: option.splits)
  have "(of_nat n :: u16) = of_nat (n mod 65536)"
    by (simp add: word_unat_eq_iff unsigned_of_nat take_bit_eq_mod)
  then show ?thesis
    using s k set_server_attributes_fresh [OF s1]
    by (auto simp: low_count_def UdpAppServer_def split: if_splits)
qed

theorem server_count_truncated_witness:
  "\<exists>s. server_InstallPriv (server_SetAttribute (ServerMaxPacketsAttr 65537) (UdpAppServerHelper 4000))
       (sample_server 0) 1 = Inr (1, s) \<and> low_count 1 0 0 s"
proof -
  obtain k s where s: "server_InstallPriv (server_SetAttribute (ServerMaxPacketsAttr 65537)
      (UdpAppServerHelper 4000)) (sample_server 0) 1 = Inr (k, s)"
    by (simp add: server_InstallPriv_def server_SetAttribute_def UdpAppServerHelper_def
        server_defaults_def)
  from server_count_truncated [OF s, of 0] s show ?thesis by auto
qed

end
