(* ===== verification/P2P_Helper.thy ===== *)
theory P2P_Helper
  imports Device_Machine
begin

text \<open>
  \<open>src/helper/point-to-point-helper.cc\<close>: the helper that creates two devices with their queues,
  connects them by a channel, and hooks trace files to them; and its \<open>Compress\<close>, a
  demonstration of zlib on a fixed string. Object factories' \<open>Set\<close>, the creation of queues, the
  node's \<open>AddDevice\<close>, address allocation, names and MPI are outside the repository and arguments.
\<close>

section \<open>State\<close>

record object_factory =
  type_id :: string
  factory_settings :: "(string \<times> attribute_value) list"

record p2p_helper =
  m_queueFactory :: object_factory
  m_deviceFactory :: object_factory
  m_channelFactory :: object_factory
  m_remoteChannelFactory :: object_factory

text \<open>
  The helper's surroundings. \<open>allocate k\<close> is the \<open>k\<close>-th MAC address handed out from now on,
  \<open>add_device n i\<close> what \<open>Node::AddDevice\<close> of node \<open>n\<close> does to a device.
\<close>

record 'p helper_env =
  dev_env :: "'p env"
  factory_Set :: "object_factory \<Rightarrow> string \<Rightarrow> attribute_value \<Rightarrow> object_factory"
  item_type :: "string \<Rightarrow> string"
  make_queue :: "object_factory \<Rightarrow> 'p queue"
  allocate :: "nat \<Rightarrow> mac48"
  add_device :: "nat \<Rightarrow> 'p p2p_device \<Rightarrow> 'p p2p_device"
  mpi_enabled :: bool
  system_id :: "nat \<Rightarrow> u32"
  my_system_id :: u32
  find_node :: "string \<Rightarrow> nat option"
  new_channel :: nat

section \<open>Configuration\<close>

definition PointToPointHelper :: p2p_helper where
  "PointToPointHelper = \<lparr>m_queueFactory = \<lparr>type_id = ''ns3::DropTailQueue<Packet>'', factory_settings = []\<rparr>,
     m_deviceFactory = \<lparr>type_id = ''ns3::PointToPointNetDevice'', factory_settings = []\<rparr>,
     m_channelFactory = \<lparr>type_id = ''ns3::PointToPointChannel'', factory_settings = []\<rparr>,
     m_remoteChannelFactory = \<lparr>type_id = ''ns3::PointToPointRemoteChannel'', factory_settings = []\<rparr>\<rparr>"

definition helper_SetQueue ::
  "'p helper_env \<Rightarrow> string \<Rightarrow> string \<times> attribute_value \<Rightarrow> string \<times> attribute_value \<Rightarrow>
   string \<times> attribute_value \<Rightarrow> string \<times> attribute_value \<Rightarrow> p2p_helper \<Rightarrow> p2p_helper" where
  "helper_SetQueue H type a1 a2 a3 a4 h =
     (let f0 = (m_queueFactory h)\<lparr>type_id := item_type H type\<rparr>;
          f1 = factory_Set H f0 (fst a1) (snd a1);
          f2 = factory_Set H f1 (fst a2) (snd a2);
          f3 = factory_Set H f2 (fst a3) (snd a3);
          f4 = factory_Set H f3 (fst a4) (snd a4)
      in h\<lparr>m_queueFactory := f4\<rparr>)"

definition SetDeviceAttribute ::
  "'p helper_env \<Rightarrow> string \<Rightarrow> attribute_value \<Rightarrow> p2p_helper \<Rightarrow> p2p_helper" where
  "SetDeviceAttribute H n1 v1 h = h\<lparr>m_deviceFactory := factory_Set H (m_deviceFactory h) n1 v1\<rparr>"

definition SetChannelAttribute ::
  "'p helper_env \<Rightarrow> string \<Rightarrow> attribute_value \<Rightarrow> p2p_helper \<Rightarrow> p2p_helper" where
  "SetChannelAttribute H n1 v1 h =
     h\<lparr>m_channelFactory := factory_Set H (m_channelFactory h) n1 v1,
       m_remoteChannelFactory := factory_Set H (m_remoteChannelFactory h) n1 v1\<rparr>"

section \<open>Installation\<close>

text \<open>
  Creating one device from raw memory: the class's attributes, the factory's, the address, the
  node, and its queue. A value that an attribute refuses stops the program.
\<close>

definition create_on_node ::
  "'p helper_env \<Rightarrow> p2p_helper \<Rightarrow> 'p p2p_device \<Rightarrow> nat \<Rightarrow> mac48 \<Rightarrow> 'p p2p_device res" where
  "create_on_node H h raw node a =
     (case create_device (dev_env H) raw of
        None \<Rightarrow> Inl (FatalError ''attribute'')
      | Some d0 \<Rightarrow> (case apply_attributes (dev_env H) (factory_settings (m_deviceFactory h)) d0 of
            None \<Rightarrow> Inl (FatalError ''attribute'')
          | Some d1 \<Rightarrow> Inr (SetQueue (Some (make_queue H (m_queueFactory h)))
              (add_device H node (SetAddress a d1)))))"

text \<open>Whether the channel is an ordinary one: without MPI, or when both nodes are of this process.\<close>

definition useNormalChannel :: "'p helper_env \<Rightarrow> nat \<Rightarrow> nat \<Rightarrow> bool" where
  "useNormalChannel H a b =
     (if mpi_enabled H
      then \<not> (system_id H a \<noteq> my_system_id H \<or> system_id H b \<noteq> my_system_id H) else True)"

definition Install ::
  "'p helper_env \<Rightarrow> p2p_helper \<Rightarrow> 'p p2p_device \<Rightarrow> 'p p2p_device \<Rightarrow> nat \<Rightarrow> nat \<Rightarrow>
   ('p p2p_device \<times> 'p p2p_device \<times> bool) res" where
  "Install H h rawA rawB a b =
     bind_res (create_on_node H h rawA a (allocate H 0)) (\<lambda>devA.
     bind_res (create_on_node H h rawB b (allocate H 1)) (\<lambda>devB.
     let normal = useNormalChannel H a b;
         devA1 = (if normal then devA else NotifyNewAggregate None devA);
         devB1 = (if normal then devB else NotifyNewAggregate None devB)
     in bind_res (Attach (Some (new_channel H)) devA1) (\<lambda>(_, devA2).
        bind_res (Attach (Some (new_channel H)) devB1) (\<lambda>(_, devB2).
          Inr (devA2, devB2, normal)))))"

definition Install_container ::
  "'p helper_env \<Rightarrow> p2p_helper \<Rightarrow> 'p p2p_device \<Rightarrow> 'p p2p_device \<Rightarrow> nat list \<Rightarrow>
   ('p p2p_device \<times> 'p p2p_device \<times> bool) res" where
  "Install_container H h rawA rawB c =
     bind_res (ns_assert (asserts_on (dev_env H)) (length c = 2) ''c.GetN () == 2'') (\<lambda>_.
     if length c < 2 then Inl (Undefined ''NodeContainer::Get'')
     else Install H h rawA rawB (c ! 0) (c ! 1))"

text \<open>A name that is not found gives a null node.\<close>

definition Install_node_name ::
  "'p helper_env \<Rightarrow> p2p_helper \<Rightarrow> 'p p2p_device \<Rightarrow> 'p p2p_device \<Rightarrow> nat \<Rightarrow> string \<Rightarrow>
   ('p p2p_device \<times> 'p p2p_device \<times> bool) res" where
  "Install_node_name H h rawA rawB a bName =
     bind_res (deref ''b'' (find_node H bName)) (\<lambda>b. Install H h rawA rawB a b)"

definition Install_name_node ::
  "'p helper_env \<Rightarrow> p2p_helper \<Rightarrow> 'p p2p_device \<Rightarrow> 'p p2p_device \<Rightarrow> string \<Rightarrow> nat \<Rightarrow>
   ('p p2p_device \<times> 'p p2p_device \<times> bool) res" where
  "Install_name_node H h rawA rawB aName b =
     bind_res (deref ''a'' (find_node H aName)) (\<lambda>a. Install H h rawA rawB a b)"

definition Install_names ::
  "'p helper_env \<Rightarrow> p2p_helper \<Rightarrow> 'p p2p_device \<Rightarrow> 'p p2p_device \<Rightarrow> string \<Rightarrow> string \<Rightarrow>
   ('p p2p_device \<times> 'p p2p_device \<times> bool) res" where
  "Install_names H h rawA rawB aName bName =
     bind_res (deref ''a'' (find_node H aName)) (\<lambda>a.
     bind_res (deref ''b'' (find_node H bName)) (\<lambda>b. Install H h rawA rawB a b))"

section \<open>Trace files\<close>

definition digit :: "nat \<Rightarrow> char" where
  "digit n = char_of (48 + n)"

fun decimal :: "nat \<Rightarrow> string" where
  "decimal n = (if n < 10 then [digit n] else decimal (n div 10) @ [digit (n mod 10)])"

declare decimal.simps [simp del]

text \<open>A device as the trace functions see it: its class, its node's number, its index.\<close>

record traced_device =
  is_p2p :: bool
  node_id :: u32
  if_index :: u32

datatype trace_action =
  CreatePcapFile string | HookPcapSink string
| EnablePrinting | CreateFileStream string | HookReceiveSink string | HookEnqueueSink string
| HookDequeueSink string | HookDropSink string
| ConnectReceive string nat | ConnectEnqueue string nat | ConnectDequeue string nat | ConnectDrop string nat

text \<open>\<open>name_for\<close> is what \<open>GetFilenameFromDevice\<close> makes of a prefix for the device.\<close>

definition EnablePcapInternal ::
  "(string \<Rightarrow> string) \<Rightarrow> string \<Rightarrow> traced_device \<Rightarrow> bool \<Rightarrow> bool \<Rightarrow> trace_action list" where
  "EnablePcapInternal name_for prefix nd promiscuous explicitFilename =
     (if \<not> is_p2p nd then []
      else let filename = (if explicitFilename then prefix else name_for prefix)
           in [CreatePcapFile filename, HookPcapSink ''PromiscSniffer''])"

definition trace_path :: "traced_device \<Rightarrow> string \<Rightarrow> string" where
  "trace_path nd source =
     ''/NodeList/'' @ decimal (unat (node_id nd)) @ ''/DeviceList/'' @ decimal (unat (if_index nd)) @
     ''/$ns3::PointToPointNetDevice/'' @ source"

definition EnableAsciiInternal ::
  "(string \<Rightarrow> string) \<Rightarrow> nat option \<Rightarrow> string \<Rightarrow> traced_device \<Rightarrow> bool \<Rightarrow> trace_action list" where
  "EnableAsciiInternal name_for stream prefix nd explicitFilename =
     (if \<not> is_p2p nd then []
      else EnablePrinting #
        (case stream of
           None \<Rightarrow>
             let filename = (if explicitFilename then prefix else name_for prefix)
             in [CreateFileStream filename, HookReceiveSink ''MacRx'', HookEnqueueSink ''Enqueue'',
                 HookDropSink ''Drop'', HookDequeueSink ''Dequeue'', HookDropSink ''PhyRxDrop'']
         | Some s \<Rightarrow>
             [ConnectReceive (trace_path nd ''MacRx'') s, ConnectEnqueue (trace_path nd ''TxQueue/Enqueue'') s,
              ConnectDequeue (trace_path nd ''TxQueue/Dequeue'') s, ConnectDrop (trace_path nd ''TxQueue/Drop'') s,
              ConnectDrop (trace_path nd ''PhyRxDrop'') s]))"

section \<open>The compression demonstration\<close>

definition hello :: "byte list" where
  "hello = map of_char ''Hello Hello Hello Hello Hello Hello!''"

text \<open>
  \<open>Compress\<close> of the helper: the string in an array of 50 is deflated into \<open>b\<close>, that into \<open>c\<close>,
  and \<open>assert\<close> (active unless \<open>ndebug\<close>) compares the strings. The packet is returned as it is.
\<close>

definition helper_Compress :: "zlib_api \<Rightarrow> bool \<Rightarrow> byte list \<Rightarrow> byte list \<Rightarrow> 'p \<Rightarrow> 'p res" where
  "helper_Compress Z ndebug b c p =
     (let a = overwrite hello (replicate 50 0) in
      bind_res (c_strlen a) (\<lambda>len.
      let stream = deflate_finish Z (take (len + 1) a) 50; b1 = overwrite stream b;
          c1 = overwrite (inflate_once Z (take (length stream) b1) 50) c
      in if ndebug then Inr p
         else bind_res (c_strlen c1) (\<lambda>_.
           if c_string a = c_string c1 then Inr p else Inl (AssertFailed ''strcmp(a,c)==0''))))"

end
