(* ===== verification/Helper_Properties.thy ===== *)
theory Helper_Properties
  imports P2P_Helper Device_Safety
begin

text \<open>
  What the point-to-point helper sets up: its devices are initial states of the device's step
  relation, its trace paths identify the device, and its zlib demonstration succeeds.
\<close>

section \<open>Installed devices\<close>

text \<open>
  What the helper relies on: \<open>AddDevice\<close> records the node and the index in the device and leaves
  its transmitter, its events and its address alone, and the queues are drop-tail queues within
  the size bound.
\<close>

definition helper_laws :: "'p helper_env \<Rightarrow> nat \<Rightarrow> bool" where
  "helper_laws H L \<longleftrightarrow>
     (\<forall>n d. m_txMachineState (add_device H n d) = m_txMachineState d \<and>
        m_currentPkt (add_device H n d) = m_currentPkt d \<and> events (add_device H n d) = events d \<and>
        m_address (add_device H n d) = m_address d) \<and>
     (\<forall>f. \<exists>mx. sane_limit L mx \<and> make_queue H f = DropTailQueue mx)"

lemma set_attribute_keeps:
  "set_attribute E n v d = Some d' \<Longrightarrow> m_txMachineState d' = m_txMachineState d \<and>
     m_currentPkt d' = m_currentPkt d \<and> events d' = events d"
  by (auto simp: set_attribute_def SetMtu_def split: if_splits attribute_value.splits)

lemma apply_attributes_keeps:
  "apply_attributes E as d = Some d' \<Longrightarrow> m_txMachineState d' = m_txMachineState d \<and>
     m_currentPkt d' = m_currentPkt d \<and> events d' = events d"
  by (induction as d rule: apply_attributes.induct)
    (auto split: option.splits dest: set_attribute_keeps)

lemma create_on_node_idle:
  assumes "helper_laws H L" and "create_on_node H h raw n a = Inr d"
  shows "m_txMachineState d = READY \<and> m_currentPkt d = None \<and> events d = [] \<and> m_address d = a \<and>
    (\<exists>mx. sane_limit L mx \<and> m_queue d = Some (DropTailQueue mx))"
proof -
  obtain d0 d1 where d: "create_device (dev_env H) raw = Some d0"
    "apply_attributes (dev_env H) (factory_settings (m_deviceFactory h)) d0 = Some d1"
    "d = SetQueue (Some (make_queue H (m_queueFactory h))) (add_device H n (SetAddress a d1))"
    using assms(2) by (auto simp: create_on_node_def split: option.splits)
  have "m_txMachineState d0 = READY \<and> m_currentPkt d0 = None \<and> events d0 = []"
    using apply_attributes_keeps [of "dev_env H" device_attributes "PointToPointNetDevice raw" d0] d(1)
    by (simp add: create_device_def PointToPointNetDevice_def)
  then have "m_txMachineState d1 = READY \<and> m_currentPkt d1 = None \<and> events d1 = []"
    using apply_attributes_keeps [OF d(2)] by simp
  then show ?thesis
    using assms(1) by (simp add: d(3) helper_laws_def SetQueue_def SetAddress_def)
qed

lemma attach_installed:
  assumes "m_txMachineState d = READY" and "m_currentPkt d = None" and "events d = []"
    and "\<exists>mx. sane_limit L mx \<and> m_queue d = Some (DropTailQueue mx)"
    and "Attach (Some c) d = Inr (ok, d')"
  shows "installed L d' \<and> m_linkUp d' \<and> m_channel d' = Some c \<and> m_address d' = m_address d"
  using assms by (auto simp: Attach_def NotifyLinkUp_def installed_def emit_def Let_def)

lemma install_run:
  assumes "helper_laws H L" and "Install H h rawA rawB a b = Inr (devA, devB, normal)"
  shows "installed L devA \<and> installed L devB \<and> m_linkUp devA \<and> m_linkUp devB \<and>
    m_channel devA = m_channel devB \<and> m_address devA = allocate H 0 \<and> m_address devB = allocate H 1"
proof -
  obtain dA dB okA okB where d: "create_on_node H h rawA a (allocate H 0) = Inr dA"
    "create_on_node H h rawB b (allocate H 1) = Inr dB"
    "Attach (Some (new_channel H)) (if useNormalChannel H a b then dA else NotifyNewAggregate None dA) =
      Inr (okA, devA)"
    "Attach (Some (new_channel H)) (if useNormalChannel H a b then dB else NotifyNewAggregate None dB) =
      Inr (okB, devB)"
    using assms(2) by (auto simp: Install_def Let_def bind_res_eq_Inr)
  have n: "(if useNormalChannel H a b then x else NotifyNewAggregate None x) = x" for x :: "'a p2p_device"
    by (simp add: NotifyNewAggregate_def)
  show ?thesis
    using create_on_node_idle [OF assms(1) d(1)] create_on_node_idle [OF assms(1) d(2)]
      attach_installed [of dA L "new_channel H" okA devA] attach_installed [of dB L "new_channel H" okB devB]
      d(3,4) unfolding n by simp
qed

text \<open>
  C38. What \<open>Install\<close> returns are two devices on the same channel, with their links up, the
  allocated addresses, and in an initial state of the device's step relation: so everything that
  holds of reachable devices holds of the devices the helper makes.
\<close>

theorem Install_installed:
  assumes "helper_laws H L" and "Install H h rawA rawB a b = Inr (devA, devB, normal)"
  shows "installed L devA \<and> installed L devB \<and> m_linkUp devA \<and> m_linkUp devB \<and>
    m_channel devA = m_channel devB \<and> m_address devA = allocate H 0 \<and> m_address devB = allocate H 1"
  by (rule install_run [OF assms])

definition byte_helper :: "byte list helper_env" where
  "byte_helper = \<lparr>dev_env = byte_env True,
     factory_Set = (\<lambda>f n v. f\<lparr>factory_settings := factory_settings f @ [(n, v)]\<rparr>),
     item_type = (\<lambda>t. t), make_queue = (\<lambda>f. DropTailQueue two_packets), allocate = (\<lambda>k. of_nat k + 1),
     add_device = (\<lambda>n d. SetNode (Some n) d), mpi_enabled = False, system_id = (\<lambda>n. 0),
     my_system_id = 0, find_node = (\<lambda>n. None), new_channel = 0\<rparr>"

lemma byte_helper_laws: "helper_laws byte_helper 1500"
  using two_packets_sane by (auto simp: helper_laws_def byte_helper_def SetNode_def)

lemma create_device_some: "\<exists>d. create_device E raw = Some d"
  by (simp add: create_device_def device_attributes_def set_attribute_def DEFAULT_MTU_def)

lemma byte_helper_installs:
  "\<exists>r. Install byte_helper PointToPointHelper sample_device sample_device 0 1 = Inr r"
proof -
  obtain d where d: "create_device (byte_env True) sample_device = Some d"
    using create_device_some by blast
  show ?thesis
    by (simp add: Install_def create_on_node_def byte_helper_def d PointToPointHelper_def
        useNormalChannel_def Attach_def Let_def) (rule exI, rule TrueI)
qed

theorem Install_installed_witness:
  "\<exists>devA devB normal. Install byte_helper PointToPointHelper sample_device sample_device 0 1 =
     Inr (devA, devB, normal) \<and> installed 1500 devA \<and> installed 1500 devB"
  using byte_helper_installs Install_installed [OF byte_helper_laws] by fast

section \<open>Trace paths\<close>

fun undecimal :: "nat \<Rightarrow> string \<Rightarrow> nat" where
  "undecimal acc [] = acc"
| "undecimal acc (c # cs) = undecimal (10 * acc + (of_char c - 48)) cs"

lemma digit_value: "n < 10 \<Longrightarrow> of_char (digit n) = 48 + n"
  by (simp add: digit_def of_char_of)

lemma undecimal_append: "undecimal acc (xs @ [c]) = 10 * undecimal acc xs + (of_char c - 48)"
  by (induction xs arbitrary: acc) simp_all

lemma undecimal_decimal: "undecimal 0 (decimal n) = n"
proof (induction n rule: decimal.induct)
  case (1 n)
  show ?case
  proof (cases "n < 10")
    case True
    then show ?thesis using digit_value [of n] by (subst decimal.simps) simp
  next
    case False
    then show ?thesis
      using 1 digit_value [of "n mod 10"] by (subst decimal.simps) (simp add: undecimal_append)
  qed
qed

lemma slash_not_digit: "n < 10 \<Longrightarrow> digit n \<noteq> CHR ''/''"
  using digit_value [of n] by auto

lemma slash_not_decimal: "CHR ''/'' \<notin> set (decimal n)"
proof (induction n rule: decimal.induct)
  case (1 n)
  then show ?case
    using slash_not_digit [of n] slash_not_digit [of "n mod 10"] by (subst decimal.simps) auto
qed

lemma split_at:
  assumes "c \<notin> set xs" and "c \<notin> set xs'" and "xs @ c # ys = xs' @ c # ys'"
  shows "xs = xs' \<and> ys = ys'"
  using assms by (induction xs arbitrary: xs') (auto simp: Cons_eq_append_conv append_eq_Cons_conv)

text \<open>
  A trace path determines the device and the trace source: two paths are equal only when the
  node, the device index and the source are.
\<close>

theorem trace_path_inj:
  "trace_path d s = trace_path d' s' \<longleftrightarrow> node_id d = node_id d' \<and> if_index d = if_index d' \<and> s = s'"
proof
  assume p: "trace_path d s = trace_path d' s'"
  have "decimal (unat (node_id d)) @ CHR ''/'' # (''DeviceList/'' @ decimal (unat (if_index d)) @
      CHR ''/'' # (''$ns3::PointToPointNetDevice/'' @ s)) =
    decimal (unat (node_id d')) @ CHR ''/'' # (''DeviceList/'' @ decimal (unat (if_index d')) @
      CHR ''/'' # (''$ns3::PointToPointNetDevice/'' @ s'))"
    using p by (simp add: trace_path_def)
  from split_at [OF slash_not_decimal slash_not_decimal this]
  have n: "decimal (unat (node_id d)) = decimal (unat (node_id d'))"
    and r: "decimal (unat (if_index d)) @ CHR ''/'' # (''$ns3::PointToPointNetDevice/'' @ s) =
      decimal (unat (if_index d')) @ CHR ''/'' # (''$ns3::PointToPointNetDevice/'' @ s')"
    by simp_all
  from split_at [OF slash_not_decimal slash_not_decimal r]
  have "decimal (unat (if_index d)) = decimal (unat (if_index d'))" "s = s'" by simp_all
  with n show "node_id d = node_id d' \<and> if_index d = if_index d' \<and> s = s'"
    by (metis undecimal_decimal unsigned_word_eqI)
qed (simp add: trace_path_def)

section \<open>The demonstration\<close>

lemma hello_zero: "c_string (hello @ 0 # ys) = hello @ [0]"
proof -
  have "0 \<notin> set hello" by (auto simp: hello_def)
  then have "takeWhile (\<lambda>b. b \<noteq> 0) (hello @ 0 # ys) = hello" by (subst takeWhile_append2) auto
  then show ?thesis by (simp add: c_string_def)
qed

lemma hello_string: "c_string (overwrite hello (replicate 50 0)) = hello @ [0]"
  "c_strlen (overwrite hello (replicate 50 0)) = Inr (length hello)"
  "length hello = 36" "take 37 (overwrite hello (replicate 50 0)) = hello @ [0]"
proof -
  have h: "0 \<notin> set hello" "length hello = 36" by (auto simp: hello_def)
  then show "length hello = 36" by simp
  have o: "overwrite hello (replicate 50 0) = hello @ 0 # replicate 13 0"
    using h(2) by (simp add: overwrite_def eval_nat_numeral)
  have t: "takeWhile (\<lambda>b. b \<noteq> 0) (hello @ 0 # replicate 13 0) = hello"
    using h(1) by (subst takeWhile_append2) auto
  show "c_string (overwrite hello (replicate 50 0)) = hello @ [0]"
    using t o by (simp add: c_string_def)
  show "c_strlen (overwrite hello (replicate 50 0)) = Inr (length hello)"
    using t o by (simp add: c_strlen_def)
  show "take 37 (overwrite hello (replicate 50 0)) = hello @ [0]"
    using h(2) o by simp
qed

text \<open>
  The demonstration's assertion holds and the packet comes back unchanged, for a lossless zlib
  that can finish the string's stream within the 50 bytes.
\<close>

theorem helper_Compress_succeeds:
  assumes "zlib_bounded Z" and "zlib_lossless Z" and "deflate_done Z (hello @ [0]) 50"
    and "length b = 50"
  shows "helper_Compress Z False b c p = Inr p"
proof -
  let ?s = "deflate_finish Z (hello @ [0]) 50"
  have s: "take (length ?s) (overwrite ?s b) = ?s" by (simp add: overwrite_def)
  have "length (hello @ [0]) \<le> 50" using hello_string(3) by simp
  then have "inflate_once Z (?s @ []) 50 = hello @ [0]"
    using assms(2,3) unfolding zlib_lossless_def by blast
  then have i: "inflate_once Z ?s 50 = hello @ [0]" by simp
  have z: "0 \<in> set (overwrite (hello @ [0]) c)" by (simp add: overwrite_def)
  have "overwrite (hello @ [0]) c = hello @ 0 # drop 37 c"
    using hello_string(3) by (simp add: overwrite_def)
  then have "c_string (overwrite (hello @ [0]) c) = hello @ [0]" by (simp add: hello_zero)
  then show ?thesis
    using hello_string s i z by (simp add: helper_Compress_def Let_def c_strlen_Inr)
qed

text \<open>A codec that writes the length in front of the data, for the witness.\<close>

definition prefix_codec :: zlib_api where
  "prefix_codec = \<lparr>
     deflate_finish = (\<lambda>inp n. take n (of_nat (length inp) # inp)),
     deflate_done = (\<lambda>inp n. length inp < n \<and> length inp < 256),
     inflate_once = (\<lambda>inp n. case inp of [] \<Rightarrow> [] | l # rest \<Rightarrow> take n (take (unat l) rest))\<rparr>"

lemma prefix_codec_laws: "zlib_bounded prefix_codec" "zlib_lossless prefix_codec"
proof -
  have "unat (of_nat (length inp) :: byte) = length inp" if "length inp < 256" for inp :: "byte list"
    using that by (simp add: unsigned_of_nat take_bit_nat_eq_self)
  then show "zlib_lossless prefix_codec" by (auto simp: zlib_lossless_def prefix_codec_def)
qed (auto simp: zlib_bounded_def prefix_codec_def split: list.splits)

theorem helper_Compress_succeeds_witness:
  "helper_Compress prefix_codec False (replicate 50 7) (replicate 50 7) [1 :: nat] = Inr [1]"
  by (rule helper_Compress_succeeds [OF prefix_codec_laws])
    (simp_all add: prefix_codec_def hello_string(3))

end
