(* ===== verification/Scenario.thy ===== *)
theory Scenario
  imports Udp_Helper Helper_Properties
begin

text \<open>
  The simulation program \<open>src/project1.cc\<close>: its \<open>main\<close> creates the four nodes of the
  topology, the compression link, the CSMA segment, addresses and applications. The model is the
  set-up up to \<open>Simulator::Run\<close>; the CSMA, internet and routing helpers are outside the repository.
\<close>

section \<open>What main builds\<close>

text \<open>The command line: \<open>useIpv6\<close>, \<open>compressionEnabled\<close>, \<open>maxBandwidth\<close> and their defaults.\<close>

record main_args =
  arg_useV6 :: bool
  arg_compressionEnabled :: bool
  arg_maxBandwidth :: u16

definition default_args :: main_args where
  "default_args = \<lparr>arg_useV6 = False, arg_compressionEnabled = False, arg_maxBandwidth = 0\<rparr>"

datatype link = P2P_Link nat nat | Csma_Link "nat list"

datatype 'p application = ServerApp "'p udp_server" | ClientApp "'p udp_client"

text \<open>
  An application on its node with the times (in nanoseconds) of \<open>Start\<close> and \<open>Stop\<close>; 0, the
  default, is a start with the simulation and no stop.
\<close>

record 'p installed_app =
  app_node :: nat
  app :: "'p application"
  start_time :: int
  stop_time :: int

text \<open>\<open>interfaces\<close> are the nodes' addresses, \<open>pcap\<close> the traces of the compression link.\<close>

record 'p scenario =
  devComp :: "'p p2p_device"
  devDecomp :: "'p p2p_device"
  links :: "link list"
  csma_attributes :: "(string \<times> attribute_value) list"
  ip_stacks :: "nat list"
  interfaces :: "(nat \<times> address) list"
  applications :: "'p installed_app list"
  pcap :: "trace_action list"

text \<open>
  The surroundings of \<open>main\<close>: those of the helper, the \<open>i\<close>-th address an address helper gives out
  of a network, the names of trace files, and the memory each object is constructed in.
\<close>

record 'p main_env =
  main_helper :: "'p helper_env"
  assign4 :: "u32 \<Rightarrow> nat \<Rightarrow> u32"
  assign6 :: "128 word \<Rightarrow> nat \<Rightarrow> 128 word"
  pcap_name :: "nat \<Rightarrow> string \<Rightarrow> string"
  mem_device :: "nat \<Rightarrow> 'p p2p_device"
  mem_server :: "nat \<Rightarrow> 'p udp_server"
  mem_client :: "nat \<Rightarrow> 'p udp_client"

section \<open>The parts of main\<close>

text \<open>The nodes in the order of their creation.\<close>

definition comp_node :: nat where "comp_node = 0"
definition decomp_node :: nat where "decomp_node = 1"
definition sender_node :: nat where "sender_node = 2"
definition receiver_node :: nat where "receiver_node = 3"

text \<open>The helper of the compression link, configured.\<close>

definition pointToPoint :: "'p main_env \<Rightarrow> main_args \<Rightarrow> p2p_helper" where
  "pointToPoint M args =
     (let H = main_helper M; dataRate = decimal (unat (arg_maxBandwidth args));
          h1 = SetDeviceAttribute H ''DataRate'' (DataRateValue (dataRate @ ''Mbps'')) PointToPointHelper;
          h2 = SetDeviceAttribute H ''Compression'' (BooleanValue (arg_compressionEnabled args)) h1
      in SetChannelAttribute H ''Delay'' (TimeValue 2000000) h2)"

text \<open>The settings of the CSMA segment's channel and devices.\<close>

definition csma_settings :: "(string \<times> attribute_value) list" where
  "csma_settings = [(''DataRate'', DataRateValue ''5000000b/s''), (''Delay'', TimeValue 2000000),
     (''Mtu'', UintegerValue 1400)]"

text \<open>
  The addresses, and \<open>udpServerInterfaces\<close>: with IPv6 the compression link gets none, and a
  container of interfaces has the link-local address at 0 and the assigned one at 1.
\<close>

definition main_addresses :: "'p main_env \<Rightarrow> main_args \<Rightarrow> (nat \<times> address) list \<times> address" where
  "main_addresses M args =
     (if arg_useV6 args = False then
        (let p2pIp = map (\<lambda>i. Ipv4Addr (assign4 M 0x0a010100 i)) [0, 1];
             udpIp = map (\<lambda>i. Ipv4Addr (assign4 M 0x0a010200 i)) [0, 1]
         in (zip [comp_node, decomp_node, sender_node, receiver_node] (p2pIp @ udpIp), udpIp ! 1))
      else
        (let i6 = map (\<lambda>i. Ipv6Addr (assign6 M 0x20010000f00dcafe0000000000000000 i)) [0, 1]
         in (zip [sender_node, receiver_node] i6, i6 ! 1)))"

definition main_server :: server_factory where
  "main_server = server_SetAttribute (ServerMaxPacketsAttr 6000) (UdpAppServerHelper 4000)"

definition main_client :: "address \<Rightarrow> client_factory" where
  "main_client udpServerInterfaces =
     client_SetAttribute (PacketSizeAttr 1024) (client_SetAttribute (IntervalAttr 15000000)
       (client_SetAttribute (MaxPacketsAttr 6000) (UdpAppClientHelper udpServerInterfaces 4000)))"

definition install_server ::
  "'p main_env \<Rightarrow> nat \<Rightarrow> nat \<Rightarrow> int \<Rightarrow> int \<Rightarrow> 'p installed_app res" where
  "install_server M k node t0 t1 =
     bind_res (server_InstallPriv main_server (mem_server M k) node) (\<lambda>(n, s).
       Inr \<lparr>app_node = n, app = ServerApp s, start_time = t0, stop_time = t1\<rparr>)"

definition install_client ::
  "'p main_env \<Rightarrow> address \<Rightarrow> nat \<Rightarrow> nat \<Rightarrow> int \<Rightarrow> int \<Rightarrow> 'p installed_app res" where
  "install_client M peer k node t0 t1 =
     bind_res (client_InstallPriv (main_client peer) (mem_client M k) node) (\<lambda>(n, c).
       Inr \<lparr>app_node = n, app = ClientApp c, start_time = t0, stop_time = t1\<rparr>)"

text \<open>
  The six applications in the order of their installation. The ones called \<open>p2pServer\<close> and
  \<open>p2pClient\<close> are the last two, both made by the client's helper.
\<close>

definition main_apps :: "'p main_env \<Rightarrow> address \<Rightarrow> 'p installed_app list res" where
  "main_apps M udpServerInterfaces =
     bind_res (install_server M 0 receiver_node 1000000000 3000000000000) (\<lambda>serverApp.
     bind_res (install_server M 1 decomp_node 0 0) (\<lambda>a1.
     bind_res (install_client M udpServerInterfaces 0 sender_node 1000000000 3000000000000) (\<lambda>clientApp.
     bind_res (install_client M udpServerInterfaces 1 comp_node 0 0) (\<lambda>a3.
     bind_res (install_client M udpServerInterfaces 2 decomp_node 1000000000 30000000000000) (\<lambda>p2pServer.
     bind_res (install_client M udpServerInterfaces 3 comp_node 2000000000 0) (\<lambda>p2pClient.
     Inr [serverApp, a1, clientApp, a3, p2pServer, p2pClient]))))))"

definition as_traced :: "nat \<Rightarrow> 'p p2p_device \<Rightarrow> traced_device" where
  "as_traced n d = \<lparr>is_p2p = True, node_id = of_nat n, if_index = GetIfIndex d\<rparr>"

definition main_setup :: "'p main_env \<Rightarrow> main_args \<Rightarrow> 'p scenario res" where
  "main_setup M args =
     (let p2pNodes = [comp_node, decomp_node]; udpNodes = [sender_node, receiver_node] in
      bind_res (Install_container (main_helper M) (pointToPoint M args) (mem_device M 0) (mem_device M 1)
        p2pNodes) (\<lambda>(devA, devB, normal).
      let (addrs, udpServerInterfaces) = main_addresses M args in
      bind_res (main_apps M udpServerInterfaces) (\<lambda>apps.
      Inr \<lparr>devComp = devA, devDecomp = devB,
        links = [P2P_Link comp_node decomp_node, Csma_Link udpNodes],
        csma_attributes = csma_settings, ip_stacks = p2pNodes @ udpNodes, interfaces = addrs, applications = apps,
        pcap = EnablePcapInternal (pcap_name M comp_node) ''comp'' (as_traced comp_node devA) False False @
          EnablePcapInternal (pcap_name M decomp_node) ''decomp'' (as_traced decomp_node devB) False False\<rparr>)))"

end
