(* ===== verification/Scenario_Properties.thy ===== *)
theory Scenario_Properties
  imports Scenario
begin

text \<open>
  What the simulation program's set-up comes to: its devices, where its probes travel, and how
  far its client's run gets.
\<close>

section \<open>The devices of the compression link\<close>

text \<open>
  Besides the helper's laws: \<open>ObjectFactory::Set\<close> adds a setting that later ones override, and
  \<open>AddDevice\<close> leaves the settings of a device alone.
\<close>

definition main_laws :: "'p main_env \<Rightarrow> nat \<Rightarrow> bool" where
  "main_laws M L \<longleftrightarrow> helper_laws (main_helper M) L \<and>
     (\<forall>f n v. factory_settings (factory_Set (main_helper M) f n v) = factory_settings f @ [(n, v)]) \<and>
     (\<forall>n d. compressionEnabled (add_device (main_helper M) n d) = compressionEnabled d \<and>
        m_bps (add_device (main_helper M) n d) = m_bps d)"

lemma pointToPoint_settings:
  "main_laws M L \<Longrightarrow> factory_settings (m_deviceFactory (pointToPoint M args)) =
     [(''DataRate'', DataRateValue (decimal (unat (arg_maxBandwidth args)) @ ''Mbps'')),
      (''Compression'', BooleanValue (arg_compressionEnabled args))]"
  by (simp add: main_laws_def pointToPoint_def SetDeviceAttribute_def SetChannelAttribute_def
      PointToPointHelper_def Let_def)

definition main_rate :: "'p main_env \<Rightarrow> main_args \<Rightarrow> u64" where
  "main_rate M args =
     parse_rate (dev_env (main_helper M)) (decimal (unat (arg_maxBandwidth args)) @ ''Mbps'')"

lemma create_on_node_main:
  assumes "main_laws M L" and "create_on_node (main_helper M) (pointToPoint M args) raw n a = Inr d"
  shows "compressionEnabled d = arg_compressionEnabled args \<and> m_bps d = main_rate M args"
  using assms
  by (auto simp: create_on_node_def pointToPoint_settings [OF assms(1)] set_attribute_def main_laws_def
      SetQueue_def SetAddress_def main_rate_def split: option.splits)

lemma Attach_keeps:
  "Attach c d = Inr (ok, d') \<Longrightarrow> compressionEnabled d' = compressionEnabled d \<and> m_bps d' = m_bps d"
  by (auto simp: Attach_def NotifyLinkUp_def emit_def Let_def bind_res_eq_Inr)

lemma NotifyNewAggregate_None [simp]: "NotifyNewAggregate None d = d"
  by (simp add: NotifyNewAggregate_def)

lemma Install_main:
  assumes "main_laws M L"
    and "Install (main_helper M) (pointToPoint M args) rawA rawB a b = Inr (devA, devB, normal)"
  shows "compressionEnabled devA = arg_compressionEnabled args \<and> m_bps devA = main_rate M args \<and>
    compressionEnabled devB = arg_compressionEnabled args \<and> m_bps devB = main_rate M args"
  using assms(2) by (auto simp: Install_def Let_def bind_res_eq_Inr
      dest!: Attach_keeps create_on_node_main [OF assms(1)])

lemmas node_numbers = comp_node_def decomp_node_def sender_node_def receiver_node_def

definition topology :: "link list" where
  "topology = [P2P_Link comp_node decomp_node, Csma_Link [sender_node, receiver_node]]"

lemma main_setup_cases:
  assumes "main_setup M args = Inr s"
  obtains normal where
    "Install (main_helper M) (pointToPoint M args) (mem_device M 0) (mem_device M 1) comp_node decomp_node =
       Inr (devComp s, devDecomp s, normal)"
    "main_apps M (snd (main_addresses M args)) = Inr (applications s)"
    "links s = topology"
    "interfaces s = fst (main_addresses M args)"
proof -
  obtain devA devB normal where d:
    "Install_container (main_helper M) (pointToPoint M args) (mem_device M 0) (mem_device M 1)
       [comp_node, decomp_node] = Inr (devA, devB, normal)"
    "devComp s = devA" "devDecomp s = devB"
    "main_apps M (snd (main_addresses M args)) = Inr (applications s)"
    "links s = topology"
    "interfaces s = fst (main_addresses M args)"
    using assms by (cases "main_addresses M args") (auto simp: main_setup_def topology_def Let_def bind_res_eq_Inr)
  then show thesis by (intro that [of normal]) (simp_all add: Install_container_def)
qed

text \<open>A concrete program environment, over the helper's.\<close>

definition byte_main :: "byte list main_env" where
  "byte_main = \<lparr>main_helper = byte_helper, assign4 = (\<lambda>base i. base + of_nat i + 1),
     assign6 = (\<lambda>base i. base + of_nat i + 1), pcap_name = (\<lambda>n prefix. prefix @ decimal n),
     mem_device = (\<lambda>k. sample_device), mem_server = (\<lambda>k. sample_server 0),
     mem_client = (\<lambda>k. sample_client 0)\<rparr>"

lemma byte_main_laws: "main_laws byte_main 1500"
  using byte_helper_laws by (simp add: main_laws_def byte_main_def byte_helper_def SetNode_def)

lemma apply_attributes_main:
  "main_laws M L \<Longrightarrow>
     \<exists>d'. apply_attributes E (factory_settings (m_deviceFactory (pointToPoint M args))) d = Some d'"
  by (simp add: pointToPoint_settings set_attribute_def)

lemma create_on_node_succeeds:
  "main_laws M L \<Longrightarrow> \<exists>d. create_on_node (main_helper M) (pointToPoint M args) raw n a = Inr d"
  using create_device_some [of "dev_env (main_helper M)" raw]
  by (auto simp: create_on_node_def pointToPoint_settings set_attribute_def split: option.splits)

lemma Install_succeeds:
  assumes "main_laws M L"
  shows "\<exists>r. Install (main_helper M) (pointToPoint M args) rawA rawB a b = Inr r"
proof -
  obtain dA dB where
    "create_on_node (main_helper M) (pointToPoint M args) rawA a (allocate (main_helper M) 0) = Inr dA"
    "create_on_node (main_helper M) (pointToPoint M args) rawB b (allocate (main_helper M) 1) = Inr dB"
    using create_on_node_succeeds [OF assms] by meson
  then show ?thesis by (simp add: Install_def Attach_def Let_def)
qed

lemma main_apps_succeeds: "\<exists>apps. main_apps M peer = Inr apps"
  by (simp add: main_apps_def install_server_def install_client_def server_InstallPriv_def
      client_InstallPriv_def server_defaults_def client_defaults_def main_server_def main_client_def
      server_SetAttribute_def client_SetAttribute_def UdpAppServerHelper_def UdpAppClientHelper_def)

lemma main_setup_succeeds:
  assumes "main_laws M L"
  shows "\<exists>s. main_setup M args = Inr s"
proof -
  obtain devA devB normal where i: "Install (main_helper M) (pointToPoint M args) (mem_device M 0)
      (mem_device M 1) comp_node decomp_node = Inr (devA, devB, normal)"
    using Install_succeeds [OF assms] by (metis prod_cases3)
  obtain apps where "main_apps M (snd (main_addresses M args)) = Inr apps"
    using main_apps_succeeds by blast
  with i show ?thesis
    by (cases "main_addresses M args") (simp add: main_setup_def Install_container_def Let_def)
qed

text \<open>
  Both ends of the compression link are initial devices of the device's step relation, with
  their links up, compressing exactly when the command line says so, at the command line's rate.
\<close>

theorem main_devices:
  assumes "main_laws M L" and "main_setup M args = Inr s"
  shows "installed L (devComp s) \<and> installed L (devDecomp s) \<and> m_linkUp (devComp s) \<and> m_linkUp (devDecomp s) \<and>
    m_channel (devComp s) = m_channel (devDecomp s) \<and>
    compressionEnabled (devComp s) = arg_compressionEnabled args \<and>
    compressionEnabled (devDecomp s) = arg_compressionEnabled args \<and>
    m_bps (devComp s) = main_rate M args \<and> m_bps (devDecomp s) = main_rate M args"
proof -
  obtain normal where i: "Install (main_helper M) (pointToPoint M args) (mem_device M 0) (mem_device M 1)
      comp_node decomp_node = Inr (devComp s, devDecomp s, normal)"
    using assms(2) by (rule main_setup_cases)
  have "helper_laws (main_helper M) L" using assms(1) by (simp add: main_laws_def)
  from install_run [OF this i] Install_main [OF assms(1) i] show ?thesis by simp
qed

theorem main_devices_witness:
  "\<exists>s. main_setup byte_main default_args = Inr s \<and> installed 1500 (devComp s) \<and>
     \<not> compressionEnabled (devDecomp s)"
  using main_setup_succeeds [OF byte_main_laws] main_devices [OF byte_main_laws]
  by (metis default_args_def main_args.select_convs(2))

section \<open>Where the probes travel\<close>

definition on_link :: "nat \<Rightarrow> link \<Rightarrow> bool" where
  "on_link n l = (case l of P2P_Link a b \<Rightarrow> n = a \<or> n = b | Csma_Link ns \<Rightarrow> n \<in> set ns)"

definition adjacent :: "link list \<Rightarrow> nat \<Rightarrow> nat \<Rightarrow> bool" where
  "adjacent ls a b \<longleftrightarrow> list_ex (\<lambda>l. on_link a l \<and> on_link b l) ls"

inductive joined :: "link list \<Rightarrow> nat \<Rightarrow> nat \<Rightarrow> bool" for ls where
  joined_refl: "joined ls a a"
| joined_step: "joined ls a b \<Longrightarrow> adjacent ls b c \<Longrightarrow> joined ls a c"

lemma adjacent_topology: "adjacent topology a b \<longleftrightarrow> {a, b} \<subseteq> {0, 1} \<or> {a, b} \<subseteq> {2, 3}"
  by (auto simp: adjacent_def on_link_def topology_def node_numbers)

lemma joined_topology: "joined topology a b \<longleftrightarrow> a = b \<or> {a, b} \<subseteq> {0, 1} \<or> {a, b} \<subseteq> {2, 3}"
proof
  assume "joined topology a b"
  then show "a = b \<or> {a, b} \<subseteq> {0, 1} \<or> {a, b} \<subseteq> {2, 3}"
    by induction (auto simp: adjacent_topology)
next
  assume "a = b \<or> {a, b} \<subseteq> {0, 1} \<or> {a, b} \<subseteq> {2, 3}"
  then have "a = b \<or> adjacent topology a b" by (simp add: adjacent_topology)
  then show "joined topology a b" using joined_refl joined_step [OF joined_refl] by metis
qed

text \<open>A client as the program configures it, constructed in the memory \<open>raw\<close>.\<close>

definition configured :: "address \<Rightarrow> 'p udp_client \<Rightarrow> 'p udp_client" where
  "configured peer raw = (UdpAppClient raw)\<lparr>m_count_c := 6000, m_interval := 15000000,
     m_peerAddress := peer, m_peerPort := 4000, m_size_c := 1024\<rparr>"

definition main_configured :: "'p main_env \<Rightarrow> address \<Rightarrow> 'p udp_client \<Rightarrow> bool" where
  "main_configured M peer c \<longleftrightarrow> c \<in> range (\<lambda>k. configured peer (mem_client M k))"

lemma install_client_app:
  assumes "install_client M peer k node t0 t1 = Inr a"
  shows "app_node a = node \<and> (\<exists>c. app a = ClientApp c \<and> main_configured M peer c)"
proof -
  have "app_node a = node \<and> app a = ClientApp (configured peer (mem_client M k))"
    using assms
    by (auto simp: install_client_def client_InstallPriv_def client_defaults_def main_client_def
        client_SetAttribute_def UdpAppClientHelper_def configured_def)
  then show ?thesis by (simp add: main_configured_def)
qed

lemma install_server_app:
  "install_server M k node t0 t1 = Inr a \<Longrightarrow> \<exists>s. app a = ServerApp s"
  by (auto simp: install_server_def bind_res_eq_Inr)

lemma main_client_app:
  assumes "main_apps M peer = Inr apps" and "a \<in> set apps" and "app a = ClientApp c"
  shows "app_node a \<in> {comp_node, decomp_node, sender_node} \<and> main_configured M peer c"
  using assms
  by (auto simp: main_apps_def bind_res_eq_Inr dest!: install_client_app install_server_app)

lemma main_receiver_address: "(receiver_node, snd (main_addresses M args)) \<in> set (fst (main_addresses M args))"
  by (simp add: main_addresses_def Let_def)

text \<open>
  C35. The probes never meet the compression link: every client sends to an address of the
  receiver, which is joined, over the CSMA segment, to the sender only. The sender's packets cannot
  get to either end of the compression link, and those of the clients on its ends cannot get to
  the receiver.
\<close>

theorem probes_bypass_compression:
  assumes "main_setup M args = Inr s" and "a \<in> set (applications s)" and "app a = ClientApp c"
  shows "(receiver_node, m_peerAddress c) \<in> set (interfaces s) \<and>
    (joined (links s) (app_node a) receiver_node \<longleftrightarrow> app_node a = sender_node) \<and>
    \<not> joined (links s) sender_node comp_node \<and> \<not> joined (links s) sender_node decomp_node"
proof -
  obtain normal where i: "Install (main_helper M) (pointToPoint M args) (mem_device M 0) (mem_device M 1)
      comp_node decomp_node = Inr (devComp s, devDecomp s, normal)"
    and m: "main_apps M (snd (main_addresses M args)) = Inr (applications s)"
    "links s = topology"
    "interfaces s = fst (main_addresses M args)"
    using assms(1) by (rule main_setup_cases)
  have k: "app_node a \<in> {comp_node, decomp_node, sender_node}"
    "m_peerAddress c = snd (main_addresses M args)"
    using main_client_app [OF m(1) assms(2,3)] by (auto simp: main_configured_def configured_def)
  show ?thesis
    using k main_receiver_address [of M args]
    unfolding m(2,3) joined_topology by (auto simp: node_numbers)
qed

lemma main_apps_client:
  "main_apps M peer = Inr apps \<Longrightarrow>
     \<exists>a \<in> set apps. install_client M peer 0 sender_node 1000000000 3000000000000 = Inr a"
  by (auto simp: main_apps_def bind_res_eq_Inr)

lemma main_has_client:
  assumes "main_laws M L"
  shows "\<exists>s a c. main_setup M args = Inr s \<and> a \<in> set (applications s) \<and> app a = ClientApp c"
proof -
  obtain s where s: "main_setup M args = Inr s" using main_setup_succeeds [OF assms] by blast
  then have "main_apps M (snd (main_addresses M args)) = Inr (applications s)"
    by (rule main_setup_cases)
  then obtain a where "a \<in> set (applications s)"
    "install_client M (snd (main_addresses M args)) 0 sender_node 1000000000 3000000000000 = Inr a"
    using main_apps_client by blast
  then show ?thesis using s install_client_app by blast
qed

theorem probes_bypass_compression_witness:
  "\<exists>s. main_setup byte_main default_args = Inr s \<and> \<not> joined (links s) sender_node comp_node"
  using main_has_client [OF byte_main_laws] probes_bypass_compression by blast

section \<open>The client's run\<close>

lemma store_lines_length:
  "store_lines ls i arr = Inr arr' \<Longrightarrow> length arr' = length arr"
  by (induction ls i arr rule: store_lines.induct) (auto split: if_splits)

lemma FillInPacketArray_length:
  "FillInPacketArray buffer f arr = Inr (arr', f') \<Longrightarrow> length arr' = length arr"
  by (auto simp: FillInPacketArray_def bind_res_eq_Inr dest: store_lines_length split: option.splits)

lemma open_socket_effect:
  assumes "open_socket E c = Inr c'"
  shows "m_socket_c c' \<noteq> None \<and> wire c' = wire c \<and> packets c' = packets c \<and> lowPackets c' = lowPackets c \<and>
    m_count_c c' = m_count_c c \<and> m_size_c c' = m_size_c c \<and> m_dataSize c' = m_dataSize c \<and>
    m_sent_l c' = m_sent_l c"
  using assms
  by (auto simp: open_socket_def bind_and_connect_def c_log_def wire_def Let_def bind_res_eq_Inr
      split: address.splits if_splits)

lemma StartApplication_low_state:
  assumes "StartApplication E buffer f c = Inr (c', f')" and "m_socket_c c = None" and "n < 2 ^ 31"
    and "m_count_c c = of_nat n" and "m_size_c c = 1024" and "m_dataSize c = 0" and "m_sent_l c = 0"
    and "length (packets c) = 6000 * 1024" and "length (lowPackets c) = 1024"
  shows "low_state n 0 c' \<and> wire c' = wire c"
proof -
  obtain arr c2 where s: "FillInPacketArray buffer f (packets c) = Inr (arr, f')"
    "open_socket E (c\<lparr>packets := arr\<rparr>) = Inr c2"
    "c' = ScheduleTransmit 0 (c_log [SocketRecvCallback True, SocketAllowBroadcast] c2)"
    using assms(1,2) by (auto simp: StartApplication_def Let_def bind_res_eq_Inr)
  have "length arr = 6000 * 1024" using FillInPacketArray_length [OF s(1)] assms(8) by simp
  moreover have "wire (c\<lparr>packets := arr\<rparr>) = wire c" by (simp add: wire_def)
  moreover have "wire c' = wire c2" by (simp add: s(3) wire_def ScheduleTransmit_def c_log_def)
  ultimately show ?thesis
    using open_socket_effect [OF s(2)] assms(3-7,9)
    by (simp add: s(3) low_state_def client_static_def ScheduleTransmit_def c_log_def)
qed

text \<open>
  The program's clients are for 6000 packets, and their array holds 6000: whatever file of
  random data is found, once started each of them sends 6000 low entropy packets and then
  reads behind the array, for a packet more than it was configured for.
\<close>

theorem main_client_overruns:
  assumes "main_setup M args = Inr s" and "a \<in> set (applications s)" and "app a = ClientApp c"
    and "\<forall>k. length (packets (mem_client M k)) = 6000 * 1024 \<and> length (lowPackets (mem_client M k)) = 1024"
    and "app_laws E" and "StartApplication E buffer f c = Inr (c', f')"
  shows "\<exists>c''. run_sends 6000 E c' = Inr c'' \<and> sent c'' = replicate 6000 (low_packet E c') \<and>
    run_sends 6001 E c' = Inl (Undefined ''packets'')"
proof -
  have "main_apps M (snd (main_addresses M args)) = Inr (applications s)"
    using assms(1) by (rule main_setup_cases)
  then obtain k where k: "c = configured (snd (main_addresses M args)) (mem_client M k)"
    using main_client_app [OF _ assms(2,3)] by (auto simp: main_configured_def)
  have w: "low_state 6000 0 c'" "wire c' = []"
    using StartApplication_low_state [OF assms(6), of 6000] assms(4) k
    by (simp_all add: configured_def UdpAppClient_def wire_def)
  show ?thesis by (rule overrun_6000 [OF assms(5) w])
qed

lemma client_env_starts:
  assumes "main_configured M (Ipv4Addr x) c"
  shows "\<exists>c' f'. StartApplication client_env buffer None c = Inr (c', f')"
proof -
  have "m_peerAddress c = Ipv4Addr x" "m_socket_c c = None"
    using assms by (auto simp: main_configured_def configured_def UdpAppClient_def)
  then have "\<exists>c'. open_socket client_env c = Inr c'"
    by (simp add: open_socket_def c_log_def bind_and_connect_def client_env_def Let_def)
  then show ?thesis
    using \<open>m_socket_c c = None\<close> by (auto simp: StartApplication_def FillInPacketArray_def)
qed

theorem main_client_overruns_witness:
  "\<exists>c c' f'. StartApplication client_env [] None c = Inr (c', f') \<and>
     run_sends 6001 client_env c' = Inl (Undefined ''packets'')"
proof -
  obtain s a c where s: "main_setup byte_main default_args = Inr s" "a \<in> set (applications s)"
    "app a = ClientApp c"
    using main_has_client [OF byte_main_laws] by blast
  have "main_apps byte_main (snd (main_addresses byte_main default_args)) = Inr (applications s)"
    using s(1) by (rule main_setup_cases)
  moreover have "\<exists>x. snd (main_addresses byte_main default_args) = Ipv4Addr x"
    by (simp add: main_addresses_def default_args_def)
  ultimately obtain x where "main_configured byte_main (Ipv4Addr x) c"
    using main_client_app [OF _ s(2,3)] by metis
  then obtain c' f' where c': "StartApplication client_env [] None c = Inr (c', f')"
    using client_env_starts by blast
  have "\<forall>k. length (packets (mem_client byte_main k)) = 6000 * 1024 \<and>
      length (lowPackets (mem_client byte_main k)) = 1024"
    by (simp add: byte_main_def sample_client_def)
  from main_client_overruns [OF s this client_env_laws c'] c' show ?thesis by blast
qed

end
