(* ===== verification/Comp_Helper.thy ===== *)
theory Comp_Helper
  imports Helper_Properties
begin

text \<open>
  \<open>src/copies/point-to-point-comp-helper.cc\<close>: a second helper class, a copy of the
  point-to-point helper for installations over four nodes, without the zlib demonstration. Its
  members, factories and surroundings are those of the original.
\<close>

section \<open>Configuration\<close>

definition PointToPointCompHelper :: p2p_helper where
  "PointToPointCompHelper = \<lparr>m_queueFactory = \<lparr>type_id = ''ns3::DropTailQueue<Packet>'', factory_settings = []\<rparr>,
     m_deviceFactory = \<lparr>type_id = ''ns3::PointToPointNetDevice'', factory_settings = []\<rparr>,
     m_channelFactory = \<lparr>type_id = ''ns3::PointToPointChannel'', factory_settings = []\<rparr>,
     m_remoteChannelFactory = \<lparr>type_id = ''ns3::PointToPointRemoteChannel'', factory_settings = []\<rparr>\<rparr>"

definition comp_SetQueue ::
  "'p helper_env \<Rightarrow> string \<Rightarrow> string \<times> attribute_value \<Rightarrow> string \<times> attribute_value \<Rightarrow>
   string \<times> attribute_value \<Rightarrow> string \<times> attribute_value \<Rightarrow> p2p_helper \<Rightarrow> p2p_helper" where
  "comp_SetQueue H type a1 a2 a3 a4 h =
     (let f0 = (m_queueFactory h)\<lparr>type_id := item_type H type\<rparr>;
          f1 = factory_Set H f0 (fst a1) (snd a1);
          f2 = factory_Set H f1 (fst a2) (snd a2);
          f3 = factory_Set H f2 (fst a3) (snd a3);
          f4 = factory_Set H f3 (fst a4) (snd a4)
      in h\<lparr>m_queueFactory := f4\<rparr>)"

definition comp_SetDeviceAttribute ::
  "'p helper_env \<Rightarrow> string \<Rightarrow> attribute_value \<Rightarrow> p2p_helper \<Rightarrow> p2p_helper" where
  "comp_SetDeviceAttribute H n1 v1 h = h\<lparr>m_deviceFactory := factory_Set H (m_deviceFactory h) n1 v1\<rparr>"

definition comp_SetChannelAttribute ::
  "'p helper_env \<Rightarrow> string \<Rightarrow> attribute_value \<Rightarrow> p2p_helper \<Rightarrow> p2p_helper" where
  "comp_SetChannelAttribute H n1 v1 h =
     h\<lparr>m_channelFactory := factory_Set H (m_channelFactory h) n1 v1,
       m_remoteChannelFactory := factory_Set H (m_remoteChannelFactory h) n1 v1\<rparr>"

section \<open>Installation\<close>

definition comp_create_on_node ::
  "'p helper_env \<Rightarrow> p2p_helper \<Rightarrow> 'p p2p_device \<Rightarrow> nat \<Rightarrow> mac48 \<Rightarrow> 'p p2p_device res" where
  "comp_create_on_node H h raw node a =
     (case create_device (dev_env H) raw of
        None \<Rightarrow> Inl (FatalError ''attribute'')
      | Some d0 \<Rightarrow> (case apply_attributes (dev_env H) (factory_settings (m_deviceFactory h)) d0 of
            None \<Rightarrow> Inl (FatalError ''attribute'')
          | Some d1 \<Rightarrow> Inr (SetQueue (Some (make_queue H (m_queueFactory h)))
              (add_device H node (SetAddress a d1)))))"

definition comp_Install ::
  "'p helper_env \<Rightarrow> p2p_helper \<Rightarrow> 'p p2p_device \<Rightarrow> 'p p2p_device \<Rightarrow> nat \<Rightarrow> nat \<Rightarrow>
   ('p p2p_device \<times> 'p p2p_device \<times> bool) res" where
  "comp_Install H h rawA rawB a b =
     bind_res (comp_create_on_node H h rawA a (allocate H 0)) (\<lambda>devA.
     bind_res (comp_create_on_node H h rawB b (allocate H 1)) (\<lambda>devB.
     let normal = useNormalChannel H a b;
         devA1 = (if normal then devA else NotifyNewAggregate None devA);
         devB1 = (if normal then devB else NotifyNewAggregate None devB)
     in bind_res (Attach (Some (new_channel H)) devA1) (\<lambda>(_, devA2).
        bind_res (Attach (Some (new_channel H)) devB1) (\<lambda>(_, devB2).
          Inr (devA2, devB2, normal)))))"

text \<open>The container must have four nodes; the first two are connected.\<close>

definition comp_Install_container ::
  "'p helper_env \<Rightarrow> p2p_helper \<Rightarrow> 'p p2p_device \<Rightarrow> 'p p2p_device \<Rightarrow> nat list \<Rightarrow>
   ('p p2p_device \<times> 'p p2p_device \<times> bool) res" where
  "comp_Install_container H h rawA rawB c =
     bind_res (ns_assert (asserts_on (dev_env H)) (length c = 4) ''c.GetN () == 4'') (\<lambda>_.
     if length c < 2 then Inl (Undefined ''NodeContainer::Get'')
     else comp_Install H h rawA rawB (c ! 0) (c ! 1))"

definition comp_Install_node_name ::
  "'p helper_env \<Rightarrow> p2p_helper \<Rightarrow> 'p p2p_device \<Rightarrow> 'p p2p_device \<Rightarrow> nat \<Rightarrow> string \<Rightarrow>
   ('p p2p_device \<times> 'p p2p_device \<times> bool) res" where
  "comp_Install_node_name H h rawA rawB a bName =
     bind_res (deref ''b'' (find_node H bName)) (\<lambda>b. comp_Install H h rawA rawB a b)"

definition comp_Install_name_node ::
  "'p helper_env \<Rightarrow> p2p_helper \<Rightarrow> 'p p2p_device \<Rightarrow> 'p p2p_device \<Rightarrow> string \<Rightarrow> nat \<Rightarrow>
   ('p p2p_device \<times> 'p p2p_device \<times> bool) res" where
  "comp_Install_name_node H h rawA rawB aName b =
     bind_res (deref ''a'' (find_node H aName)) (\<lambda>a. comp_Install H h rawA rawB a b)"

definition comp_Install_names ::
  "'p helper_env \<Rightarrow> p2p_helper \<Rightarrow> 'p p2p_device \<Rightarrow> 'p p2p_device \<Rightarrow> string \<Rightarrow> string \<Rightarrow>
   ('p p2p_device \<times> 'p p2p_device \<times> bool) res" where
  "comp_Install_names H h rawA rawB aName bName =
     bind_res (deref ''a'' (find_node H aName)) (\<lambda>a.
     bind_res (deref ''b'' (find_node H bName)) (\<lambda>b. comp_Install H h rawA rawB a b))"

section \<open>Trace files\<close>

definition comp_EnablePcapInternal ::
  "(string \<Rightarrow> string) \<Rightarrow> string \<Rightarrow> traced_device \<Rightarrow> bool \<Rightarrow> bool \<Rightarrow> trace_action list" where
  "comp_EnablePcapInternal name_for prefix nd promiscuous explicitFilename =
     (if \<not> is_p2p nd then []
      else let filename = (if explicitFilename then prefix else name_for prefix)
           in [CreatePcapFile filename, HookPcapSink ''PromiscSniffer''])"

definition comp_EnableAsciiInternal ::
  "(string \<Rightarrow> string) \<Rightarrow> nat option \<Rightarrow> string \<Rightarrow> traced_device \<Rightarrow> bool \<Rightarrow> trace_action list" where
  "comp_EnableAsciiInternal name_for stream prefix nd explicitFilename =
     (if \<not> is_p2p nd then []
      else EnablePrinting #
        (case stream of
           None \<Rightarrow>
             let filename = (if explicitFilename then prefix else name_for prefix)
             in [CreateFileStream filename, HookReceiveSink ''MacRx'', HookEnqueueSink ''Enqueue'',
                 HookDropSink ''Drop'', HookDequeueSink ''Dequeue'', HookDropSink ''PhyRxDrop'']
         | Some s \<Rightarrow>
             [ConnectReceive (trace_path nd ''MacRx'') s, ConnectEnqueue (trace_path nd ''TxQueue/Enqueue'') s,
              ConnectDequeue (trace_path nd ''TxQueue/Dequeue'') s, ConnectDrop (trace_path nd ''TxQueue/Drop'') s,
              ConnectDrop (trace_path nd ''PhyRxDrop'') s]))"

section \<open>Properties\<close>

lemma comp_create_on_node_eq: "comp_create_on_node H h raw n a = create_on_node H h raw n a"
  by (simp add: comp_create_on_node_def create_on_node_def)

lemma comp_Install_eq: "comp_Install H h rawA rawB a b = Install H h rawA rawB a b"
  by (simp add: comp_Install_def Install_def comp_create_on_node_eq)

text \<open>
  In a debug build no container is good for both helpers: the copy stops at every container
  the original accepts. For a container it accepts, the copy connects the first two nodes, like
  the original connects a pair, and leaves the other two without a device.
\<close>

theorem comp_helper_containers:
  assumes "asserts_on (dev_env H)"
  shows "(length c = 2 \<longrightarrow> comp_Install_container H h rawA rawB c = Inl (AssertFailed ''c.GetN () == 4'')) \<and>
    (length c = 4 \<longrightarrow> Install_container H h rawA rawB c = Inl (AssertFailed ''c.GetN () == 2'') \<and>
       comp_Install_container H h rawA rawB c = Install H h rawA rawB (c ! 0) (c ! 1) \<and>
       comp_Install_container H h rawA rawB c = Install_container H h rawA rawB (take 2 c))"
  using assms by (auto simp: comp_Install_container_def Install_container_def comp_Install_eq)

theorem comp_helper_containers_witness:
  "comp_Install_container byte_helper PointToPointCompHelper sample_device sample_device [0, 1] =
     Inl (AssertFailed ''c.GetN () == 4'')"
proof -
  have "asserts_on (dev_env byte_helper)" by (simp add: byte_helper_def)
  from comp_helper_containers [OF this, of "[0, 1]"] show ?thesis by simp
qed

end
