(* ===== verification/Json_Number.thy ===== *)
theory Json_Number
  imports Single_Float
begin

text \<open>
  The library's assertions, and the conversions of the C library that the JSON lexer of \<open>src/nlohmann/detail/input/lexer.hpp\<close>
  calls on the text of a number: \<open>strtoull\<close>, \<open>strtoll\<close> and \<open>strtod\<close>, on decimal numbers with
  at most a minus sign in front, and the IEEE double precision values that \<open>number_float_t\<close> holds.
\<close>

section \<open>Assertions\<close>

text \<open>
  The library's \<open>assert\<close> stops a build without \<open>NDEBUG\<close>. The model always has it; that none fails
  is one of the results.
\<close>

definition c_assert :: "bool \<Rightarrow> string \<Rightarrow> unit res" where
  "c_assert c msg = (if c then Inr () else Inl (AssertFailed msg))"

lemma c_assert_simps [simp]:
  "c_assert True m = Inr ()" "c_assert False m = Inl (AssertFailed m)"
  by (simp_all add: c_assert_def)

lemma c_assert_eq_Inr: "c_assert c m = Inr u \<longleftrightarrow> c"
  by (simp add: c_assert_def)

section \<open>Words of 64 bits\<close>

text \<open>A \<open>number_integer_t\<close> is a word, read as \<open>sint\<close>.\<close>

type_synonym int64 = "64 word"

section \<open>Digits\<close>

definition is_digit :: "byte \<Rightarrow> bool" where
  "is_digit c \<longleftrightarrow> 0x30 \<le> c \<and> c \<le> 0x39"

definition digit_value :: "byte \<Rightarrow> int" where
  "digit_value c = uint (c - 0x30)"

definition digits_value :: "byte list \<Rightarrow> int" where
  "digits_value = foldl (\<lambda>n c. 10 * n + digit_value c) 0"

lemma digit_value_bounds: "is_digit c \<Longrightarrow> 0 \<le> digit_value c \<and> digit_value c \<le> 9"
proof -
  assume d: "is_digit c"
  then have "48 \<le> uint c" "uint c \<le> 57" by (simp_all add: is_digit_def word_le_def)
  then show ?thesis by (simp add: digit_value_def uint_sub_if')
qed

lemma digits_value_snoc [simp]: "digits_value (xs @ [c]) = 10 * digits_value xs + digit_value c"
  by (simp add: digits_value_def)

lemma digits_value_Nil [simp]: "digits_value [] = 0"
  by (simp add: digits_value_def)

section \<open>Integers\<close>

text \<open>
  The result of a conversion: the value, whether \<open>errno\<close> is set to \<open>ERANGE\<close>, and how many
  characters were read (where \<open>endptr\<close> points to).
\<close>

definition strtoull :: "byte list \<Rightarrow> u64 \<times> bool \<times> nat" where
  "strtoull s =
     (let ds = takeWhile is_digit s; n = digits_value ds
      in if n < 2 ^ 64 then (word_of_int n, False, length ds) else (2 ^ 64 - 1, True, length ds))"

definition strtoll :: "byte list \<Rightarrow> int64 \<times> bool \<times> nat" where
  "strtoll s =
     (let neg = (case s of c # _ \<Rightarrow> c = 0x2D | [] \<Rightarrow> False);
          ds = takeWhile is_digit (if neg then tl s else s);
          k = (if neg then Suc (length ds) else length ds);
          v = (if neg then - digits_value ds else digits_value ds)
      in if v < - (2 ^ 63) then (word_of_int (- (2 ^ 63)), True, k)
         else if 2 ^ 63 \<le> v then (word_of_int (2 ^ 63 - 1), True, k)
         else (word_of_int v, False, k))"

section \<open>Double precision\<close>

text \<open>
  A \<open>number_float_t\<close> is its 64 bits: the sign, 11 bits of exponent, 52 bits of fraction.
\<close>

type_synonym double = "64 word"

definition double_exponent :: "double \<Rightarrow> int" where
  "double_exponent x = uint x div 2 ^ 52 mod 2 ^ 11"

definition double_fraction :: "double \<Rightarrow> int" where
  "double_fraction x = uint x mod 2 ^ 52"

definition signbit :: "double \<Rightarrow> bool" where
  "signbit x \<longleftrightarrow> 2 ^ 63 \<le> uint x"

definition isfinite :: "double \<Rightarrow> bool" where
  "isfinite x \<longleftrightarrow> double_exponent x \<noteq> 2047"

text \<open>The magnitude of a finite double.\<close>

definition magnitude :: "double \<Rightarrow> rat" where
  "magnitude x = (if double_exponent x = 0 then of_int (double_fraction x) * 2 powi (- 1074)
     else of_int (2 ^ 52 + double_fraction x) * 2 powi (double_exponent x - 1075))"

definition sign_bits :: "bool \<Rightarrow> int" where
  "sign_bits neg = (if neg then 2 ^ 63 else 0)"

definition infinity_bits :: int where
  "infinity_bits = 2047 * 2 ^ 52"

text \<open>
  The double nearest to a magnitude, ties to even: with the exponent \<open>e\<close> of the last bit and the
  rounded multiple \<open>m\<close> of it, the bits are \<open>(e + 1074) * 2 ^ 52 + m\<close>, also for subnormal numbers
  and when rounding carries into the next exponent; from \<open>2 ^ 1024\<close> on it is infinity.
\<close>

definition nearest_double :: "bool \<Rightarrow> rat \<Rightarrow> double" where
  "nearest_double neg x =
     (if x = 0 then word_of_int (sign_bits neg)
      else let e = max (leading_exponent x - 52) (- 1074);
               m = round_even (x / 2 powi e)
           in word_of_int (sign_bits neg + min ((e + 1074) * 2 ^ 52 + m) infinity_bits))"

text \<open>
  \<open>strtod\<close>: an optional sign, digits with a fraction behind the decimal point \<open>dp\<close> of the locale,
  and an exponent, of which every part is read only as far as it is complete.
\<close>

definition strtod :: "byte \<Rightarrow> byte list \<Rightarrow> double \<times> nat" where
  "strtod dp s =
     (let neg = (case s of c # _ \<Rightarrow> c = 0x2D | [] \<Rightarrow> False);
          s1 = (if neg then tl s else s);
          whole = takeWhile is_digit s1; s2 = drop (length whole) s1;
          frac = (case s2 of c # s3 \<Rightarrow> if c = dp then takeWhile is_digit s3 else [] | [] \<Rightarrow> []);
          s4 = (case s2 of c # s3 \<Rightarrow> if c = dp then drop (length frac) s3 else s2 | [] \<Rightarrow> []);
          esign = (case s4 of e # c # _ \<Rightarrow> if (e = 0x65 \<or> e = 0x45) \<and> (c = 0x2B \<or> c = 0x2D) then [c] else []
                   | _ \<Rightarrow> []);
          edigits = (case s4 of e # s5 \<Rightarrow>
                       if e = 0x65 \<or> e = 0x45 then takeWhile is_digit (drop (length esign) s5) else []
                     | [] \<Rightarrow> []);
          ex = (if esign = [0x2D] then - digits_value edigits else digits_value edigits);
          k = length s - length s4 + (if edigits = [] then 0 else 1 + length esign + length edigits)
      in (nearest_double neg (of_int (digits_value (whole @ frac)) * 10 powi (ex - int (length frac))), k))"

end
