(* ===== verification/Json_Value.thy ===== *)
theory Json_Value
  imports Json_Number "HOL-Library.List_Lexorder"
begin

text \<open>
  JSON values and the exceptions of the library: the class \<open>basic_json\<close> of
  \<open>src/nlohmann/json.hpp\<close> with the operations the program reaches, \<open>value_t\<close> of
  \<open>src/nlohmann/detail/value_t.hpp\<close> and \<open>src/nlohmann/detail/exceptions.hpp\<close>.
\<close>

section \<open>Exceptions\<close>

text \<open>Decimal digits of a number, as \<open>std::to_string\<close> writes them.\<close>

fun to_string :: "nat \<Rightarrow> string" where
  "to_string n = (if n < 10 then [char_of (48 + n)] else to_string (n div 10) @ [char_of (48 + n mod 10)])"

declare to_string.simps [simp del]

text \<open>The digits as the bytes of a string.\<close>

definition index_key :: "nat \<Rightarrow> byte list" where
  "index_key i = map of_char (to_string i)"

record json_exception =
  ex_id :: nat
  ex_what :: string
  ex_byte :: nat

definition exception_name :: "string \<Rightarrow> nat \<Rightarrow> string" where
  "exception_name ename eid = ''[json.exception.'' @ ename @ ''.'' @ to_string eid @ ''] ''"

text \<open>\<open>parse_error::create\<close> for a position, given as its lines, column and total.\<close>

definition parse_error_create :: "nat \<Rightarrow> nat \<Rightarrow> nat \<Rightarrow> nat \<Rightarrow> string \<Rightarrow> json_exception" where
  "parse_error_create eid lines column chars what_arg =
     \<lparr>ex_id = eid,
      ex_what = exception_name ''parse_error'' eid @ ''parse error'' @ '' at line '' @ to_string (lines + 1) @
        '', column '' @ to_string column @ '': '' @ what_arg,
      ex_byte = chars\<rparr>"

text \<open>\<open>parse_error::create\<close> for a byte position.\<close>

definition parse_error_at :: "nat \<Rightarrow> nat \<Rightarrow> string \<Rightarrow> json_exception" where
  "parse_error_at eid byte_pos what_arg =
     \<lparr>ex_id = eid,
      ex_what = exception_name ''parse_error'' eid @ ''parse error'' @
        (if byte_pos \<noteq> 0 then '' at byte '' @ to_string byte_pos else []) @ '': '' @ what_arg,
      ex_byte = byte_pos\<rparr>"

definition type_error_create :: "nat \<Rightarrow> string \<Rightarrow> json_exception" where
  "type_error_create eid what_arg =
     \<lparr>ex_id = eid, ex_what = exception_name ''type_error'' eid @ what_arg, ex_byte = 0\<rparr>"

definition out_of_range_create :: "nat \<Rightarrow> string \<Rightarrow> json_exception" where
  "out_of_range_create eid what_arg =
     \<lparr>ex_id = eid, ex_what = exception_name ''out_of_range'' eid @ what_arg, ex_byte = 0\<rparr>"

text \<open>\<open>JSON_THROW\<close>; nobody in the program catches.\<close>

definition json_throw :: "json_exception \<Rightarrow> 'a res" where
  "json_throw ex = Inl (Uncaught (ex_what ex))"

section \<open>Values\<close>

text \<open>
  The type \<open>m_type\<close> and the member of the union it selects. An object is a \<open>std::map\<close>: its
  entries in the order of their keys, which compare by their bytes.
\<close>

datatype json =
    JNull
  | JObject "(byte list \<times> json) list"
  | JArray "json list"
  | JString "byte list"
  | JBoolean bool
  | JInteger int64
  | JUnsigned u64
  | JFloat double
  | JDiscarded

datatype value_t =
    null_t | object_t | array_t | string_t | boolean_t | number_integer_t | number_unsigned_t
  | number_float_t | discarded_t

fun m_type :: "json \<Rightarrow> value_t" where
  "m_type JNull = null_t"
| "m_type (JObject _) = object_t"
| "m_type (JArray _) = array_t"
| "m_type (JString _) = string_t"
| "m_type (JBoolean _) = boolean_t"
| "m_type (JInteger _) = number_integer_t"
| "m_type (JUnsigned _) = number_unsigned_t"
| "m_type (JFloat _) = number_float_t"
| "m_type JDiscarded = discarded_t"

text \<open>The constructor from a \<open>value_t\<close>.\<close>

fun json_of_type :: "value_t \<Rightarrow> json" where
  "json_of_type null_t = JNull"
| "json_of_type object_t = JObject []"
| "json_of_type array_t = JArray []"
| "json_of_type string_t = JString []"
| "json_of_type boolean_t = JBoolean False"
| "json_of_type number_integer_t = JInteger 0"
| "json_of_type number_unsigned_t = JUnsigned 0"
| "json_of_type number_float_t = JFloat 0"
| "json_of_type discarded_t = JDiscarded"

fun type_name :: "json \<Rightarrow> string" where
  "type_name JNull = ''null''"
| "type_name (JObject _) = ''object''"
| "type_name (JArray _) = ''array''"
| "type_name (JString _) = ''string''"
| "type_name (JBoolean _) = ''boolean''"
| "type_name JDiscarded = ''discarded''"
| "type_name _ = ''number''"

definition is_object :: "json \<Rightarrow> bool" where
  "is_object j \<longleftrightarrow> m_type j = object_t"

definition is_array :: "json \<Rightarrow> bool" where
  "is_array j \<longleftrightarrow> m_type j = array_t"

definition is_string :: "json \<Rightarrow> bool" where
  "is_string j \<longleftrightarrow> m_type j = string_t"

section \<open>Maps\<close>

text \<open>
  \<open>std::map\<close>: looking up a key, \<open>operator[]\<close>, which first adds a null value when the key is
  missing, and assigning through the reference it returns.
\<close>

fun map_find :: "byte list \<Rightarrow> (byte list \<times> 'a) list \<Rightarrow> 'a option" where
  "map_find k [] = None"
| "map_find k ((k', v) # m) = (if k' = k then Some v else map_find k m)"

fun map_at :: "byte list \<Rightarrow> (byte list \<times> json) list \<Rightarrow> (byte list \<times> json) list" where
  "map_at k [] = [(k, JNull)]"
| "map_at k ((k', v) # m) =
     (if k = k' then (k', v) # m else if k < k' then (k, JNull) # (k', v) # m else (k', v) # map_at k m)"

fun map_assign :: "byte list \<Rightarrow> 'a \<Rightarrow> (byte list \<times> 'a) list \<Rightarrow> (byte list \<times> 'a) list" where
  "map_assign k x [] = []"
| "map_assign k x ((k', v) # m) = (if k' = k then (k', x) # m else (k', v) # map_assign k x m)"

text \<open>Keys in strictly increasing order: what makes a list of entries a \<open>std::map\<close>.\<close>

definition map_ok :: "(byte list \<times> 'a) list \<Rightarrow> bool" where
  "map_ok m \<longleftrightarrow> sorted_wrt (<) (map fst m)"

fun json_ok :: "json \<Rightarrow> bool" where
  "json_ok (JObject m) \<longleftrightarrow> map_ok m \<and> (\<forall>v \<in> snd ` set m. json_ok v)"
| "json_ok (JArray xs) \<longleftrightarrow> (\<forall>v \<in> set xs. json_ok v)"
| "json_ok _ \<longleftrightarrow> True"

lemma set_map_at: "fst ` set (map_at k m) = insert k (fst ` set m)"
  by (induction k m rule: map_at.induct) auto

lemma set_map_at_entries: "set (map_at k m) \<subseteq> insert (k, JNull) (set m)"
  by (induction k m rule: map_at.induct) auto

lemma set_map_assign: "set (map_assign k v m) \<subseteq> insert (k, v) (set m)"
  by (induction k v m rule: map_assign.induct) auto

lemma map_ok_map_at: "map_ok m \<Longrightarrow> map_ok (map_at k m)"
proof (induction k m rule: map_at.induct)
  case (2 k k' v m)
  have "\<forall>x \<in> fst ` set (map_at k m). k' < x" if "k \<noteq> k'" "\<not> k < k'"
    using 2(2) that unfolding set_map_at by (auto simp: map_ok_def)
  then show ?case using 2 by (auto simp: map_ok_def)
qed (simp add: map_ok_def)

lemma map_find_map_at: "map_ok m \<Longrightarrow> map_find k' (map_at k m) =
    (if k' = k then Some (case map_find k m of None \<Rightarrow> JNull | Some v \<Rightarrow> v) else map_find k' m)"
proof (induction k m rule: map_at.induct)
  case (2 k k1 v m)
  have "map_find k m = None" if "k < k1"
  proof -
    have "\<forall>x \<in> fst ` set m. k < x" using 2(2) that by (auto simp: map_ok_def intro: order_less_trans)
    then show ?thesis by (induction m) force+
  qed
  then show ?case using 2 by (auto simp: map_ok_def)
qed simp

lemma map_ok_assign [simp]: "map fst (map_assign k x m) = map fst m" "map_ok (map_assign k x m) = map_ok m"
proof -
  show "map fst (map_assign k x m) = map fst m" by (induction k x m rule: map_assign.induct) auto
  then show "map_ok (map_assign k x m) = map_ok m" by (simp add: map_ok_def)
qed

lemma map_find_assign: "map_find k' (map_assign k x m) =
    (if k' = k then map_option (\<lambda>_. x) (map_find k m) else map_find k' m)"
  by (induction k x m rule: map_assign.induct) auto

section \<open>Access\<close>

text \<open>
  \<open>operator[]\<close> with a key: null becomes an object, a missing member a null. The result is the
  changed value and the member the returned reference denotes.
\<close>

definition json_index :: "json \<Rightarrow> byte list \<Rightarrow> (json \<times> json) res" where
  "json_index j key =
     (let j1 = (if j = JNull then JObject [] else j)
      in case j1 of
           JObject m \<Rightarrow>
             (let m' = map_at key m
              in Inr (case map_find key m' of Some v \<Rightarrow> v | None \<Rightarrow> JNull, JObject m'))
         | _ \<Rightarrow> json_throw (type_error_create 305
                 (''cannot use operator[] with a string argument with '' @ type_name j1)))"

text \<open>\<open>get<std::string> ()\<close>, that is \<open>from_json\<close> of \<open>src/nlohmann/detail/conversions/from_json.hpp\<close>.\<close>

definition get_string :: "json \<Rightarrow> byte list res" where
  "get_string j = (case j of JString s \<Rightarrow> Inr s
     | _ \<Rightarrow> json_throw (type_error_create 302 (''type must be string, but is '' @ type_name j)))"

end
