(* ===== verification/Json_To_Chars.thy ===== *)
theory Json_To_Chars
  imports Json_Number "HOL-Library.Signed_Division"
begin

unbundle bit_operations_syntax

text \<open>
  Printing a double, \<open>src/nlohmann/detail/conversions/to_chars.hpp\<close>: the Grisu2 algorithm on 64-bit
  significands and the layout of its digits. The library's assertions are part of the definitions.
  The digits written so far are a list; \<open>cap\<close> is the room in the caller's buffer.
\<close>

section \<open>Numbers with a binary exponent\<close>

text \<open>The value \<open>f * 2 ^ e\<close>.\<close>

record diyfp =
  dfp_f :: u64
  dfp_e :: int

definition diyfp_sub :: "diyfp \<Rightarrow> diyfp \<Rightarrow> diyfp res" where
  "diyfp_sub x y =
     bind_res (c_assert (dfp_e x = dfp_e y) ''x.e == y.e'') (\<lambda>_.
     bind_res (c_assert (dfp_f y \<le> dfp_f x) ''x.f >= y.f'') (\<lambda>_.
     Inr \<lparr>dfp_f = dfp_f x - dfp_f y, dfp_e = dfp_e x\<rparr>))"

definition diyfp_mul :: "diyfp \<Rightarrow> diyfp \<Rightarrow> diyfp" where
  "diyfp_mul x y =
     (let u_lo = dfp_f x AND 0xFFFFFFFF; u_hi = drop_bit 32 (dfp_f x);
          v_lo = dfp_f y AND 0xFFFFFFFF; v_hi = drop_bit 32 (dfp_f y);
          p0 = u_lo * v_lo; p1 = u_lo * v_hi; p2 = u_hi * v_lo; p3 = u_hi * v_hi;
          p0_hi = drop_bit 32 p0;
          p1_lo = p1 AND 0xFFFFFFFF; p1_hi = drop_bit 32 p1;
          p2_lo = p2 AND 0xFFFFFFFF; p2_hi = drop_bit 32 p2;
          Q = p0_hi + p1_lo + p2_lo;
          Q' = Q + push_bit (64 - 32 - 1) 1;
          h = p3 + p2_hi + p1_hi + drop_bit 32 Q'
      in \<lparr>dfp_f = h, dfp_e = dfp_e x + dfp_e y + 64\<rparr>)"

text \<open>The loop of \<open>normalize\<close>; for the significand 0, which the assertion excludes, it would not end.\<close>

lemma unat_less64: "unat x < 2 ^ 64"
  for x :: u64
  using unsigned_less [of x] by simp

lemma unat_drop_bit: "unat (drop_bit n x) = unat x div 2 ^ n"
  for x :: u64
  by (simp only: unsigned_drop_bit_eq) (simp add: drop_bit_eq_div take_bit_nat_eq_self [OF unat_less64, simplified])

lemma double_small: "drop_bit 63 x = 0 \<Longrightarrow> unat (push_bit 1 x) = 2 * unat x"
  for x :: u64
proof -
  assume "drop_bit 63 x = 0"
  then have "unat x div 2 ^ 63 = 0" using unat_drop_bit [of 63 x] by simp
  then have "2 * unat x < 2 ^ 64" by (simp add: div_eq_0_iff)
  then show ?thesis by (simp add: push_bit_eq_mult unat_word_ariths)
qed

function normalize_loop :: "diyfp \<Rightarrow> diyfp" where
  "normalize_loop x =
     (if dfp_f x \<noteq> 0 \<and> drop_bit 63 (dfp_f x) = 0
      then normalize_loop \<lparr>dfp_f = push_bit 1 (dfp_f x), dfp_e = dfp_e x - 1\<rparr> else x)"
  by pat_completeness auto
termination
proof (relation "measure (\<lambda>x. 2 ^ 64 - unat (dfp_f x))")
  fix x :: diyfp assume "dfp_f x \<noteq> 0 \<and> drop_bit 63 (dfp_f x) = 0"
  moreover have "0 < unat (dfp_f x)" using calculation by (simp add: unat_gt_0)
  moreover have "unat (dfp_f x) < 2 ^ 64" by (rule unat_less64)
  ultimately show "(\<lparr>dfp_f = push_bit 1 (dfp_f x), dfp_e = dfp_e x - 1\<rparr>, x)
      \<in> measure (\<lambda>x. 2 ^ 64 - unat (dfp_f x))"
    using double_small [of "dfp_f x"] by (simp add: diff_less_mono2)
qed simp

declare normalize_loop.simps [simp del]

definition normalize :: "diyfp \<Rightarrow> diyfp res" where
  "normalize x = bind_res (c_assert (dfp_f x \<noteq> 0) ''x.f != 0'') (\<lambda>_. Inr (normalize_loop x))"

definition normalize_to :: "diyfp \<Rightarrow> int \<Rightarrow> diyfp res" where
  "normalize_to x target_exponent =
     (let delta = dfp_e x - target_exponent
      in bind_res (c_assert (0 \<le> delta) ''delta >= 0'') (\<lambda>_.
         bind_res (c_assert (drop_bit (nat delta) (push_bit (nat delta) (dfp_f x)) = dfp_f x)
           ''((x.f << delta) >> delta) == x.f'') (\<lambda>_.
         Inr \<lparr>dfp_f = push_bit (nat delta) (dfp_f x), dfp_e = target_exponent\<rparr>)))"

record boundaries =
  bd_w :: diyfp
  bd_minus :: diyfp
  bd_plus :: diyfp

definition compute_boundaries :: "double \<Rightarrow> boundaries res" where
  "compute_boundaries value =
     bind_res (c_assert (isfinite value) ''std::isfinite(value)'') (\<lambda>_.
     bind_res (c_assert (\<not> signbit value \<and> magnitude value \<noteq> 0) ''value > 0'') (\<lambda>_.
     let kBias = 1075; kMinExp = - 1074; kHiddenBit = push_bit 52 1;
         E = drop_bit 52 value; F = value AND (kHiddenBit - 1);
         v = (if E = 0 then \<lparr>dfp_f = F, dfp_e = kMinExp\<rparr>
              else \<lparr>dfp_f = F + kHiddenBit, dfp_e = uint E - kBias\<rparr>);
         lower_boundary_is_closer = (F = 0 \<and> 1 < E);
         m_plus = \<lparr>dfp_f = 2 * dfp_f v + 1, dfp_e = dfp_e v - 1\<rparr>;
         m_minus = (if lower_boundary_is_closer then \<lparr>dfp_f = 4 * dfp_f v - 1, dfp_e = dfp_e v - 2\<rparr>
                    else \<lparr>dfp_f = 2 * dfp_f v - 1, dfp_e = dfp_e v - 1\<rparr>)
     in bind_res (normalize m_plus) (\<lambda>w_plus.
        bind_res (normalize_to m_minus (dfp_e w_plus)) (\<lambda>w_minus.
        bind_res (normalize v) (\<lambda>w.
        Inr \<lparr>bd_w = w, bd_minus = w_minus, bd_plus = w_plus\<rparr>)))))"

section \<open>Powers of ten\<close>

definition kAlpha :: int where "kAlpha = - 60"
definition kGamma :: int where "kGamma = - 32"

text \<open>Entries \<open>(f, e, k)\<close> with \<open>f * 2 ^ e\<close> near \<open>10 ^ k\<close>.\<close>

definition kCachedPowers :: "(u64 \<times> int \<times> int) list" where
  "kCachedPowers =
    [(0xAB70FE17C79AC6CA, - 1060, - 300), (0xFF77B1FCBEBCDC4F, - 1034, - 292),
     (0xBE5691EF416BD60C, - 1007, - 284), (0x8DD01FAD907FFC3C, - 980, - 276),
     (0xD3515C2831559A83, - 954, - 268), (0x9D71AC8FADA6C9B5, - 927, - 260),
     (0xEA9C227723EE8BCB, - 901, - 252), (0xAECC49914078536D, - 874, - 244),
     (0x823C12795DB6CE57, - 847, - 236), (0xC21094364DFB5637, - 821, - 228),
     (0x9096EA6F3848984F, - 794, - 220), (0xD77485CB25823AC7, - 768, - 212),
     (0xA086CFCD97BF97F4, - 741, - 204), (0xEF340A98172AACE5, - 715, - 196),
     (0xB23867FB2A35B28E, - 688, - 188), (0x84C8D4DFD2C63F3B, - 661, - 180),
     (0xC5DD44271AD3CDBA, - 635, - 172), (0x936B9FCEBB25C996, - 608, - 164),
     (0xDBAC6C247D62A584, - 582, - 156), (0xA3AB66580D5FDAF6, - 555, - 148),
     (0xF3E2F893DEC3F126, - 529, - 140), (0xB5B5ADA8AAFF80B8, - 502, - 132),
     (0x87625F056C7C4A8B, - 475, - 124), (0xC9BCFF6034C13053, - 449, - 116),
     (0x964E858C91BA2655, - 422, - 108), (0xDFF9772470297EBD, - 396, - 100),
     (0xA6DFBD9FB8E5B88F, - 369, - 92), (0xF8A95FCF88747D94, - 343, - 84),
     (0xB94470938FA89BCF, - 316, - 76), (0x8A08F0F8BF0F156B, - 289, - 68),
     (0xCDB02555653131B6, - 263, - 60), (0x993FE2C6D07B7FAC, - 236, - 52),
     (0xE45C10C42A2B3B06, - 210, - 44), (0xAA242499697392D3, - 183, - 36),
     (0xFD87B5F28300CA0E, - 157, - 28), (0xBCE5086492111AEB, - 130, - 20),
     (0x8CBCCC096F5088CC, - 103, - 12), (0xD1B71758E219652C, - 77, - 4),
     (0x9C40000000000000, - 50, 4), (0xE8D4A51000000000, - 24, 12),
     (0xAD78EBC5AC620000, 3, 20), (0x813F3978F8940984, 30, 28),
     (0xC097CE7BC90715B3, 56, 36), (0x8F7E32CE7BEA5C70, 83, 44),
     (0xD5D238A4ABE98068, 109, 52), (0x9F4F2726179A2245, 136, 60),
     (0xED63A231D4C4FB27, 162, 68), (0xB0DE65388CC8ADA8, 189, 76),
     (0x83C7088E1AAB65DB, 216, 84), (0xC45D1DF942711D9A, 242, 92),
     (0x924D692CA61BE758, 269, 100), (0xDA01EE641A708DEA, 295, 108),
     (0xA26DA3999AEF774A, 322, 116), (0xF209787BB47D6B85, 348, 124),
     (0xB454E4A179DD1877, 375, 132), (0x865B86925B9BC5C2, 402, 140),
     (0xC83553C5C8965D3D, 428, 148), (0x952AB45CFA97A0B3, 455, 156),
     (0xDE469FBD99A05FE3, 481, 164), (0xA59BC234DB398C25, 508, 172),
     (0xF6C69A72A3989F5C, 534, 180), (0xB7DCBF5354E9BECE, 561, 188),
     (0x88FCF317F22241E2, 588, 196), (0xCC20CE9BD35C78A5, 614, 204),
     (0x98165AF37B2153DF, 641, 212), (0xE2A0B5DC971F303A, 667, 220),
     (0xA8D9D1535CE3B396, 694, 228), (0xFB9B7CD9A4A7443C, 720, 236),
     (0xBB764C4CA7A44410, 747, 244), (0x8BAB8EEFB6409C1A, 774, 252),
     (0xD01FEF10A657842C, 800, 260), (0x9B10A4E5E9913129, 827, 268),
     (0xE7109BFBA19C0C9D, 853, 276), (0xAC2820D9623BF429, 880, 284),
     (0x80444B5E7AA7CF85, 907, 292), (0xBF21E44003ACDD2D, 933, 300),
     (0x8E679C2F5E44FF8F, 960, 308), (0xD433179D9C8CB841, 986, 316),
     (0x9E19DB92B4E31BA9, 1013, 324)]"

definition get_cached_power_for_binary_exponent :: "int \<Rightarrow> (u64 \<times> int \<times> int) res" where
  "get_cached_power_for_binary_exponent e =
     bind_res (c_assert (- 1500 \<le> e) ''e >= -1500'') (\<lambda>_.
     bind_res (c_assert (e \<le> 1500) ''e <=  1500'') (\<lambda>_.
     let f = kAlpha - e - 1;
         k = (f * 78913) sdiv 2 ^ 18 + (if 0 < f then 1 else 0);
         index = (300 + k + (8 - 1)) sdiv 8
     in bind_res (c_assert (0 \<le> index) ''index >= 0'') (\<lambda>_.
        bind_res (c_assert (index < 79) ''index < kCachedPowersSize'') (\<lambda>_.
        case kCachedPowers ! nat index of (cf, ce, ck) \<Rightarrow>
          bind_res (c_assert (kAlpha \<le> ce + e + 64) ''kAlpha <= cached.e + e + 64'') (\<lambda>_.
          bind_res (c_assert (ce + e + 64 \<le> kGamma) ''kGamma >= cached.e + e + 64'') (\<lambda>_.
          Inr (cf, ce, ck)))))))"

text \<open>The number of digits and the power of ten of the first one.\<close>

definition find_largest_pow10 :: "u32 \<Rightarrow> nat \<times> u32" where
  "find_largest_pow10 n =
     (if 1000000000 \<le> n then (10, 1000000000)
      else if 100000000 \<le> n then (9, 100000000)
      else if 10000000 \<le> n then (8, 10000000)
      else if 1000000 \<le> n then (7, 1000000)
      else if 100000 \<le> n then (6, 100000)
      else if 10000 \<le> n then (5, 10000)
      else if 1000 \<le> n then (4, 1000)
      else if 100 \<le> n then (3, 100)
      else if 10 \<le> n then (2, 10)
      else (1, 1))"

section \<open>Digits\<close>

text \<open>\<open>buffer[length++] = c\<close>.\<close>

definition put_char :: "nat \<Rightarrow> byte \<Rightarrow> byte list \<Rightarrow> byte list res" where
  "put_char cap c buf = (if length buf < cap then Inr (buf @ [c]) else Inl (Undefined ''buffer''))"

lemma unat_pred_less: "x \<noteq> 0 \<Longrightarrow> unat (x - 1) < unat x"
  for x :: byte
proof -
  assume "x \<noteq> 0"
  then have "0 < unat x" by (simp add: unat_gt_0)
  then show ?thesis using unat_minus_one [OF \<open>x \<noteq> 0\<close>] by simp
qed

text \<open>The loop of \<open>grisu2_round\<close>: the last digit goes down while that brings the number closer to \<open>w\<close>.\<close>

function round_loop :: "u64 \<Rightarrow> u64 \<Rightarrow> u64 \<Rightarrow> u64 \<Rightarrow> byte \<Rightarrow> byte res" where
  "round_loop dst delta rest ten_k c =
     (if rest < dst \<and> ten_k \<le> delta - rest \<and>
         (rest + ten_k < dst \<or> rest + ten_k - dst < dst - rest)
      then if c = 0x30 then Inl (AssertFailed ''buf[len - 1] != 0'')
           else round_loop dst delta (rest + ten_k) ten_k (c - 1)
      else Inr c)"
  by pat_completeness auto
termination
proof (relation "measure (\<lambda>(dst, delta, rest, ten_k, c). unat (c - 0x30))")
  fix dst delta rest ten_k :: u64 and c :: byte assume "c \<noteq> 0x30"
  then have "c - 0x30 \<noteq> 0" by simp
  then have "unat (c - 0x30 - 1) < unat (c - 0x30)" by (rule unat_pred_less)
  then show "((dst, delta, rest + ten_k, ten_k, c - 1), dst, delta, rest, ten_k, c)
      \<in> measure (\<lambda>(dst, delta, rest, ten_k, c). unat (c - 0x30))"
    by (simp add: diff_diff_eq add.commute)
qed simp

declare round_loop.simps [simp del]

definition grisu2_round :: "byte list \<Rightarrow> u64 \<Rightarrow> u64 \<Rightarrow> u64 \<Rightarrow> u64 \<Rightarrow> byte list res" where
  "grisu2_round buf dst delta rest ten_k =
     bind_res (c_assert (buf \<noteq> []) ''len >= 1'') (\<lambda>_.
     bind_res (c_assert (dst \<le> delta) ''dist <= delta'') (\<lambda>_.
     bind_res (c_assert (rest \<le> delta) ''rest <= delta'') (\<lambda>_.
     bind_res (c_assert (0 < ten_k) ''ten_k > 0'') (\<lambda>_.
     bind_res (round_loop dst delta rest ten_k (last buf)) (\<lambda>c.
     Inr (butlast buf @ [c]))))))"

text \<open>
  The first loop of \<open>grisu2_digit_gen\<close>, over the digits of the integral part; \<open>e\<close> is the negated
  exponent \<open>-one.e\<close>. It ends with the number, or with the values for the second loop.
\<close>

fun integral_loop :: "nat \<Rightarrow> nat \<Rightarrow> nat \<Rightarrow> u64 \<Rightarrow> u64 \<Rightarrow> u64 \<Rightarrow> int \<Rightarrow> u32 \<Rightarrow> u32 \<Rightarrow> byte list \<Rightarrow>
    ((byte list \<times> int) + byte list) res" where
  "integral_loop cap e 0 p2 delta dst decimal_exponent p1 pow10 buf = Inr (Inr buf)"
| "integral_loop cap e (Suc n) p2 delta dst decimal_exponent p1 pow10 buf =
     (let d = p1 div pow10; r = p1 mod pow10
      in bind_res (c_assert (d \<le> 9) ''d <= 9'') (\<lambda>_.
         bind_res (put_char cap (0x30 + ucast d) buf) (\<lambda>buf1.
         let rest = push_bit e (ucast r) + p2
         in if rest \<le> delta
            then bind_res (grisu2_round buf1 dst delta rest (push_bit e (ucast pow10))) (\<lambda>buf2.
                 Inr (Inl (buf2, decimal_exponent + int n)))
            else integral_loop cap e n p2 delta dst decimal_exponent r (pow10 div 10) buf1)))"

text \<open>The second loop, over the digits of the fractional part, which the room in the buffer bounds.\<close>

function fraction_loop :: "nat \<Rightarrow> nat \<Rightarrow> u64 \<Rightarrow> u64 \<Rightarrow> u64 \<Rightarrow> nat \<Rightarrow> byte list \<Rightarrow>
    (nat \<times> u64 \<times> u64 \<times> u64 \<times> byte list) res" where
  "fraction_loop cap e p2 delta dst m buf =
     (if \<not> p2 \<le> (- 1) div 10 then Inl (AssertFailed ''p2 <= UINT64_MAX / 10'')
      else let p = p2 * 10; d = drop_bit e p; r = p AND (push_bit e 1 - 1) in
        if \<not> d \<le> 9 then Inl (AssertFailed ''d <= 9'')
        else if length buf < cap then
          let buf1 = buf @ [0x30 + ucast d]; delta1 = delta * 10; dst1 = dst * 10
          in if r \<le> delta1 then Inr (Suc m, r, delta1, dst1, buf1)
             else fraction_loop cap e r delta1 dst1 (Suc m) buf1
        else Inl (Undefined ''buffer''))"
  by pat_completeness auto
termination
  by (relation "measure (\<lambda>(cap, e, p2, delta, dst, m, buf). cap - length buf)") auto

declare fraction_loop.simps [simp del]

definition grisu2_digit_gen :: "nat \<Rightarrow> int \<Rightarrow> diyfp \<Rightarrow> diyfp \<Rightarrow> diyfp \<Rightarrow> (byte list \<times> int) res" where
  "grisu2_digit_gen cap decimal_exponent M_minus w M_plus =
     bind_res (c_assert (kAlpha \<le> dfp_e M_plus) ''M_plus.e >= kAlpha'') (\<lambda>_.
     bind_res (c_assert (dfp_e M_plus \<le> kGamma) ''M_plus.e <= kGamma'') (\<lambda>_.
     bind_res (diyfp_sub M_plus M_minus) (\<lambda>dm.
     bind_res (diyfp_sub M_plus w) (\<lambda>dw.
     let delta = dfp_f dm; dst = dfp_f dw;
         e = nat (- dfp_e M_plus); one_f = push_bit e 1;
         p1 = ucast (drop_bit e (dfp_f M_plus)) :: u32;
         p2 = dfp_f M_plus AND (one_f - 1)
     in bind_res (c_assert (0 < p1) ''p1 > 0'') (\<lambda>_.
        case find_largest_pow10 p1 of (k, pow10) \<Rightarrow>
        bind_res (integral_loop cap e k p2 delta dst decimal_exponent p1 pow10 []) (\<lambda>res.
        case res of
          Inl number \<Rightarrow> Inr number
        | Inr buf \<Rightarrow>
            bind_res (c_assert (delta < p2) ''p2 > delta'') (\<lambda>_.
            bind_res (fraction_loop cap e p2 delta dst 0 buf) (\<lambda>(m, p2', delta', dst', buf1).
            bind_res (grisu2_round buf1 dst' delta' p2' one_f) (\<lambda>buf2.
            Inr (buf2, decimal_exponent - int m))))))))))"

text \<open>\<open>grisu2\<close> on the boundaries, and on a value.\<close>

definition grisu2_boundaries :: "nat \<Rightarrow> diyfp \<Rightarrow> diyfp \<Rightarrow> diyfp \<Rightarrow> (byte list \<times> int) res" where
  "grisu2_boundaries cap m_minus v m_plus =
     bind_res (c_assert (dfp_e m_plus = dfp_e m_minus) ''m_plus.e == m_minus.e'') (\<lambda>_.
     bind_res (c_assert (dfp_e m_plus = dfp_e v) ''m_plus.e == v.e'') (\<lambda>_.
     bind_res (get_cached_power_for_binary_exponent (dfp_e m_plus)) (\<lambda>(cf, ce, ck).
     let c_minus_k = \<lparr>dfp_f = cf, dfp_e = ce\<rparr>;
         w = diyfp_mul v c_minus_k; w_minus = diyfp_mul m_minus c_minus_k;
         w_plus = diyfp_mul m_plus c_minus_k;
         M_minus = \<lparr>dfp_f = dfp_f w_minus + 1, dfp_e = dfp_e w_minus\<rparr>;
         M_plus = \<lparr>dfp_f = dfp_f w_plus - 1, dfp_e = dfp_e w_plus\<rparr>
     in grisu2_digit_gen cap (- ck) M_minus w M_plus)))"

definition grisu2 :: "nat \<Rightarrow> double \<Rightarrow> (byte list \<times> int) res" where
  "grisu2 cap value =
     bind_res (c_assert (isfinite value) ''std::isfinite(value)'') (\<lambda>_.
     bind_res (c_assert (\<not> signbit value \<and> magnitude value \<noteq> 0) ''value > 0'') (\<lambda>_.
     bind_res (compute_boundaries value) (\<lambda>b.
     grisu2_boundaries cap (bd_minus b) (bd_w b) (bd_plus b))))"

section \<open>Layout\<close>

definition digit_byte :: "int \<Rightarrow> byte" where
  "digit_byte d = 0x30 + word_of_int d"

definition append_exponent :: "int \<Rightarrow> byte list res" where
  "append_exponent e =
     bind_res (c_assert (- 1000 < e) ''e > -1000'') (\<lambda>_.
     bind_res (c_assert (e < 1000) ''e <  1000'') (\<lambda>_.
     let s = (if e < 0 then [0x2D] else [0x2B]); k = \<bar>e\<bar>
     in if k < 10 then Inr (s @ [0x30, digit_byte k])
        else if k < 100 then Inr (s @ [digit_byte (k div 10), digit_byte (k mod 10)])
        else Inr (s @ [digit_byte (k div 100), digit_byte (k mod 100 div 10), digit_byte (k mod 100 mod 10)])))"

text \<open>The text that \<open>format_buffer\<close> leaves in the buffer, from the digits in it.\<close>

definition format_buffer :: "byte list \<Rightarrow> int \<Rightarrow> int \<Rightarrow> int \<Rightarrow> byte list res" where
  "format_buffer buf decimal_exponent min_exp max_exp =
     bind_res (c_assert (min_exp < 0) ''min_exp < 0'') (\<lambda>_.
     bind_res (c_assert (0 < max_exp) ''max_exp > 0'') (\<lambda>_.
     let k = int (length buf); n = int (length buf) + decimal_exponent
     in if k \<le> n \<and> n \<le> max_exp then Inr (buf @ replicate (nat (n - k)) 0x30 @ [0x2E, 0x30])
        else if 0 < n \<and> n \<le> max_exp then
          bind_res (c_assert (n < k) ''k > n'') (\<lambda>_.
          Inr (take (nat n) buf @ [0x2E] @ drop (nat n) buf))
        else if min_exp < n \<and> n \<le> 0 then
          Inr ([0x30, 0x2E] @ replicate (nat (- n)) 0x30 @ buf)
        else
          bind_res (append_exponent (n - 1)) (\<lambda>ex.
          Inr ((if k = 1 then buf else take 1 buf @ [0x2E] @ drop 1 buf) @ [0x65] @ ex))))"

text \<open>\<open>to_chars\<close> into a buffer with room for \<open>room\<close> characters.\<close>

definition to_chars :: "nat \<Rightarrow> double \<Rightarrow> byte list res" where
  "to_chars room value =
     bind_res (c_assert (isfinite value) ''std::isfinite(value)'') (\<lambda>_.
     let neg = signbit value;
         v = (if neg then value - word_of_int (2 ^ 63) else value);
         sgn_text = (if neg then [0x2D] else []); cap = (if neg then room - 1 else room)
     in if magnitude v = 0 then Inr (sgn_text @ [0x30, 0x2E, 0x30])
        else bind_res (c_assert (17 \<le> cap) ''last - first >= max_digits10'') (\<lambda>_.
             bind_res (grisu2 cap v) (\<lambda>(buf, decimal_exponent).
             bind_res (c_assert (length buf \<le> 17) ''len <= max_digits10'') (\<lambda>_.
             bind_res (c_assert (15 + 2 \<le> cap) ''last - first >= kMaxExp + 2'') (\<lambda>_.
             bind_res (c_assert (2 + (4 - 1) + 17 \<le> cap) ''last - first >= 2 + (-kMinExp - 1) + max_digits10'') (\<lambda>_.
             bind_res (c_assert (17 + 6 \<le> cap) ''last - first >= max_digits10 + 6'') (\<lambda>_.
             bind_res (format_buffer buf decimal_exponent (- 4) 15) (\<lambda>text.
             Inr (sgn_text @ text)))))))))"

end
