(* ===== verification/Json_Serializer.thy ===== *)
theory Json_Serializer
  imports Json_Value Json_To_Chars
begin

text \<open>
  The serializer, \<open>src/nlohmann/detail/output/serializer.hpp\<close>: \<open>dump\<close> with its indentation, the
  escaping of strings by a table-driven UTF-8 decoder through a buffer of 512 characters, and
  numbers through a buffer of 64.
\<close>

section \<open>Members\<close>

datatype error_handler_t = strict | replace | ignore

text \<open>\<open>out\<close> is what the output adapter has been given.\<close>

record serializer =
  out :: "byte list"
  string_buffer :: "byte list"
  indent_char :: byte
  indent_string :: "byte list"
  error_handler :: error_handler_t

definition new_serializer :: "byte \<Rightarrow> error_handler_t \<Rightarrow> serializer" where
  "new_serializer ichar eh =
     \<lparr>out = [], string_buffer = replicate 512 0, indent_char = ichar,
      indent_string = replicate 512 ichar, error_handler = eh\<rparr>"

definition write_characters :: "byte list \<Rightarrow> serializer \<Rightarrow> serializer" where
  "write_characters cs s = s\<lparr>out := out s @ cs\<rparr>"

text \<open>
  Writing the first \<open>n\<close> characters of \<open>indent_string.c_str ()\<close>: there are its characters and a
  terminating zero, what lies behind them may not be read.
\<close>

definition write_indent :: "u32 \<Rightarrow> serializer \<Rightarrow> serializer res" where
  "write_indent n s =
     (if unat n \<le> Suc (length (indent_string s))
      then Inr (write_characters (take (unat n) (indent_string s @ [0])) s)
      else Inl (Undefined ''indent_string.c_str()''))"

section \<open>Decoding UTF-8\<close>

definition UTF8_ACCEPT :: byte where "UTF8_ACCEPT = 0"
definition UTF8_REJECT :: byte where "UTF8_REJECT = 1"

definition utf8d :: "byte list" where
  "utf8d =
    [0, 0, 0, 0, 0, 0, 0, 0, 0, 0, 0, 0, 0, 0, 0, 0, 0, 0, 0, 0, 0, 0, 0, 0, 0, 0, 0, 0, 0, 0, 0, 0,
     0, 0, 0, 0, 0, 0, 0, 0, 0, 0, 0, 0, 0, 0, 0, 0, 0, 0, 0, 0, 0, 0, 0, 0, 0, 0, 0, 0, 0, 0, 0, 0,
     0, 0, 0, 0, 0, 0, 0, 0, 0, 0, 0, 0, 0, 0, 0, 0, 0, 0, 0, 0, 0, 0, 0, 0, 0, 0, 0, 0, 0, 0, 0, 0,
     0, 0, 0, 0, 0, 0, 0, 0, 0, 0, 0, 0, 0, 0, 0, 0, 0, 0, 0, 0, 0, 0, 0, 0, 0, 0, 0, 0, 0, 0, 0, 0,
     1, 1, 1, 1, 1, 1, 1, 1, 1, 1, 1, 1, 1, 1, 1, 1, 9, 9, 9, 9, 9, 9, 9, 9, 9, 9, 9, 9, 9, 9, 9, 9,
     7, 7, 7, 7, 7, 7, 7, 7, 7, 7, 7, 7, 7, 7, 7, 7, 7, 7, 7, 7, 7, 7, 7, 7, 7, 7, 7, 7, 7, 7, 7, 7,
     8, 8, 2, 2, 2, 2, 2, 2, 2, 2, 2, 2, 2, 2, 2, 2, 2, 2, 2, 2, 2, 2, 2, 2, 2, 2, 2, 2, 2, 2, 2, 2,
     10, 3, 3, 3, 3, 3, 3, 3, 3, 3, 3, 3, 3, 4, 3, 3, 11, 6, 6, 6, 5, 8, 8, 8, 8, 8, 8, 8, 8, 8, 8, 8,
     0, 1, 2, 3, 5, 8, 7, 1, 1, 1, 4, 6, 1, 1, 1, 1, 1, 1, 1, 1, 1, 1, 1, 1, 1, 1, 1, 1, 1, 1, 1, 1,
     1, 0, 1, 1, 1, 1, 1, 0, 1, 0, 1, 1, 1, 1, 1, 1, 1, 2, 1, 1, 1, 1, 1, 2, 1, 2, 1, 1, 1, 1, 1, 1,
     1, 1, 1, 1, 1, 1, 1, 2, 1, 1, 1, 1, 1, 1, 1, 1, 1, 2, 1, 1, 1, 1, 1, 1, 1, 2, 1, 1, 1, 1, 1, 1,
     1, 1, 1, 1, 1, 1, 1, 3, 1, 3, 1, 1, 1, 1, 1, 1, 1, 3, 1, 1, 1, 1, 1, 3, 1, 3, 1, 1, 1, 1, 1, 1,
     1, 3, 1, 1, 1, 1, 1, 1, 1, 1, 1, 1, 1, 1, 1, 1]"

text \<open>The new state and code point; an index outside the table has no behaviour.\<close>

definition decode :: "byte \<Rightarrow> u32 \<Rightarrow> byte \<Rightarrow> (byte \<times> u32) res" where
  "decode state codep b =
     (let ty = utf8d ! unat b;
          codep' = (if state \<noteq> UTF8_ACCEPT then (ucast b AND 0x3F) OR push_bit 6 codep
                    else drop_bit (unat ty) 0xFF AND ucast b);
          i = 256 + unat state * 16 + unat ty
      in if i < 400 then Inr (utf8d ! i, codep') else Inl (Undefined ''utf8d''))"

section \<open>Escaping\<close>

text \<open>The local variables of \<open>dump_escaped\<close>; \<open>pos\<close> is its loop variable.\<close>

record escaping =
  ser :: serializer
  codepoint :: u32
  dstate :: byte
  nbytes :: nat
  bytes_after_last_accept :: nat
  undumped_chars :: nat
  pos :: nat

text \<open>\<open>string_buffer[bytes++] = c\<close>.\<close>

definition put :: "byte \<Rightarrow> escaping \<Rightarrow> escaping res" where
  "put c e =
     (if nbytes e < length (string_buffer (ser e))
      then Inr (e\<lparr>ser := (ser e)\<lparr>string_buffer := (string_buffer (ser e))[nbytes e := c]\<rparr>, nbytes := nbytes e + 1\<rparr>)
      else Inl (Undefined ''string_buffer''))"

fun puts :: "byte list \<Rightarrow> escaping \<Rightarrow> escaping res" where
  "puts [] e = Inr e"
| "puts (c # cs) e = bind_res (put c e) (puts cs)"

text \<open>\<open>snprintf\<close> of a text into the buffer at \<open>bytes\<close>: it also writes a zero behind the text.\<close>

definition put_format :: "byte list \<Rightarrow> escaping \<Rightarrow> escaping res" where
  "put_format cs e = bind_res (puts cs e) (\<lambda>e1. bind_res (put 0 e1) (\<lambda>e2. Inr (e2\<lparr>nbytes := nbytes e1\<rparr>)))"

definition hex_lower :: "nat \<Rightarrow> byte" where
  "hex_lower n = (if n < 10 then of_nat (48 + n) else of_nat (87 + n))"

text \<open>\<open>\u%04x\<close> of a 16-bit number.\<close>

definition escape_u :: "u16 \<Rightarrow> byte list" where
  "escape_u w = [0x5C, 0x75, hex_lower (unat w div 4096), hex_lower (unat w div 256 mod 16),
     hex_lower (unat w div 16 mod 16), hex_lower (unat w mod 16)]"

text \<open>\<open>o->write_characters (string_buffer.data (), n)\<close>.\<close>

definition flush_buffer :: "nat \<Rightarrow> escaping \<Rightarrow> escaping" where
  "flush_buffer n e = e\<lparr>ser := write_characters (take n (string_buffer (ser e))) (ser e)\<rparr>"

definition hex2 :: "byte \<Rightarrow> string" where
  "hex2 b = (let h = (\<lambda>n. if n < 10 then char_of (48 + n) else char_of (55 + n))
     in [h (unat b div 16), h (unat b mod 16)])"

text \<open>The text of a code point whose last byte is \<open>b\<close>.\<close>

definition put_codepoint :: "bool \<Rightarrow> byte \<Rightarrow> escaping \<Rightarrow> escaping res" where
  "put_codepoint ensure_ascii b e =
     (let cp = codepoint e
      in if cp = 0x08 then puts [0x5C, 0x62] e
         else if cp = 0x09 then puts [0x5C, 0x74] e
         else if cp = 0x0A then puts [0x5C, 0x6E] e
         else if cp = 0x0C then puts [0x5C, 0x66] e
         else if cp = 0x0D then puts [0x5C, 0x72] e
         else if cp = 0x22 then puts [0x5C, 0x22] e
         else if cp = 0x5C then puts [0x5C, 0x5C] e
         else if cp \<le> 0x1F \<or> ensure_ascii \<and> 0x7F \<le> cp then
           (if cp \<le> 0xFFFF then put_format (escape_u (ucast cp)) e
            else put_format (escape_u (ucast (0xD7C0 + drop_bit 10 cp)) @
                   escape_u (ucast (0xDC00 + (cp AND 0x3FF)))) e)
         else put b e)"

text \<open>The decoder accepts: a code point is complete.\<close>

definition dump_codepoint :: "bool \<Rightarrow> byte \<Rightarrow> escaping \<Rightarrow> escaping res" where
  "dump_codepoint ensure_ascii b e =
     bind_res (put_codepoint ensure_ascii b e) (\<lambda>e1.
      let e2 = (if length (string_buffer (ser e1)) - nbytes e1 < 13
                then (flush_buffer (nbytes e1) e1)\<lparr>nbytes := 0\<rparr> else e1)
      in Inr (e2\<lparr>bytes_after_last_accept := nbytes e2, undumped_chars := 0\<rparr>))"

text \<open>The decoder rejects the byte \<open>b\<close>.\<close>

definition dump_rejected :: "bool \<Rightarrow> byte \<Rightarrow> escaping \<Rightarrow> escaping res" where
  "dump_rejected ensure_ascii b e =
     (if error_handler (ser e) = strict
      then json_throw (type_error_create 316 (''invalid UTF-8 byte at index '' @ to_string (pos e) @ '': 0x'' @ hex2 b))
      else
        let e1 = (if 0 < undumped_chars e then e\<lparr>pos := pos e - 1\<rparr> else e);
            e2 = e1\<lparr>nbytes := bytes_after_last_accept e1\<rparr>
        in bind_res (if error_handler (ser e) = replace
              then bind_res (puts (if ensure_ascii then [0x5C, 0x75, 0x66, 0x66, 0x66, 0x64] else [0xEF, 0xBF, 0xBD]) e2)
                     (\<lambda>e3. Inr (e3\<lparr>bytes_after_last_accept := nbytes e3\<rparr>))
              else Inr e2) (\<lambda>e4.
           Inr (e4\<lparr>undumped_chars := 0, dstate := UTF8_ACCEPT\<rparr>)))"

text \<open>One round of the loop, with its increment of the index.\<close>

definition dump_round :: "bool \<Rightarrow> byte list \<Rightarrow> escaping \<Rightarrow> escaping res" where
  "dump_round ensure_ascii s e =
     (let b = s ! pos e
      in bind_res (decode (dstate e) (codepoint e) b) (\<lambda>(st, cp).
         let e1 = e\<lparr>dstate := st, codepoint := cp\<rparr>
         in bind_res (if st = UTF8_ACCEPT then dump_codepoint ensure_ascii b e1
                      else if st = UTF8_REJECT then dump_rejected ensure_ascii b e1
                      else bind_res (if ensure_ascii then Inr e1 else put b e1) (\<lambda>e2.
                        Inr (e2\<lparr>undumped_chars := undumped_chars e2 + 1\<rparr>))) (\<lambda>e3.
            Inr (e3\<lparr>pos := pos e3 + 1\<rparr>))))"

text \<open>The loop ends: each round goes on in the string or gives up the bytes of a sequence.\<close>

lemma put_keeps: "put c e = Inr e' \<Longrightarrow> pos e' = pos e \<and> undumped_chars e' = undumped_chars e \<and>
    dstate e' = dstate e \<and> codepoint e' = codepoint e"
  by (auto simp: put_def split: if_splits)

lemma puts_keeps: "puts cs e = Inr e' \<Longrightarrow> pos e' = pos e \<and> undumped_chars e' = undumped_chars e \<and>
    dstate e' = dstate e \<and> codepoint e' = codepoint e"
  by (induction cs arbitrary: e) (auto simp: bind_res_eq_Inr dest!: put_keeps)

lemma put_format_keeps: "put_format cs e = Inr e' \<Longrightarrow> pos e' = pos e \<and> dstate e' = dstate e"
  by (auto simp: put_format_def bind_res_eq_Inr dest!: put_keeps puts_keeps)

lemma put_codepoint_keeps: "put_codepoint a b e = Inr e' \<Longrightarrow> pos e' = pos e \<and> dstate e' = dstate e"
  using put_keeps puts_keeps put_format_keeps
  by (auto simp: put_codepoint_def Let_def simp del: puts.simps split: if_splits)

lemma dump_codepoint_keeps:
  "dump_codepoint a b e = Inr e' \<Longrightarrow> pos e' = pos e \<and> undumped_chars e' = 0 \<and> dstate e' = dstate e"
  by (auto simp: dump_codepoint_def Let_def bind_res_eq_Inr flush_buffer_def dest!: put_codepoint_keeps split: if_splits)

lemma dump_rejected_keeps:
  assumes "dump_rejected a b e = Inr e'"
  shows "undumped_chars e' = 0 \<and> pos e' = (if 0 < undumped_chars e then pos e - 1 else pos e)"
  using assms
  by (auto simp: dump_rejected_def Let_def bind_res_eq_Inr json_throw_def simp del: puts.simps
      dest!: puts_keeps split: if_splits)

lemma dump_round_less:
  assumes "dump_round a s e = Inr e'" and "pos e < length s"
  shows "2 * (length s - pos e') + (if 0 < undumped_chars e' then 1 else 0) <
    2 * (length s - pos e) + (if 0 < undumped_chars e then 1 else 0)"
proof -
  obtain st cp e3 where
    r: "(if st = UTF8_ACCEPT then dump_codepoint a (s ! pos e) (e\<lparr>dstate := st, codepoint := cp\<rparr>)
      else if st = UTF8_REJECT then dump_rejected a (s ! pos e) (e\<lparr>dstate := st, codepoint := cp\<rparr>)
      else bind_res (if a then Inr (e\<lparr>dstate := st, codepoint := cp\<rparr>)
          else put (s ! pos e) (e\<lparr>dstate := st, codepoint := cp\<rparr>)) (\<lambda>e2.
        Inr (e2\<lparr>undumped_chars := undumped_chars e2 + 1\<rparr>))) = Inr e3"
    and e': "e' = e3\<lparr>pos := pos e3 + 1\<rparr>"
    using assms(1) by (auto simp: dump_round_def Let_def bind_res_eq_Inr)
  let ?e = "e\<lparr>dstate := st, codepoint := cp\<rparr>"
  consider (accept) "dump_codepoint a (s ! pos e) ?e = Inr e3"
    | (reject) "dump_rejected a (s ! pos e) ?e = Inr e3"
    | (more) e2 where "(if a then Inr ?e else put (s ! pos e) ?e) = Inr e2"
        "e3 = e2\<lparr>undumped_chars := undumped_chars e2 + 1\<rparr>"
    using r by (cases "st = UTF8_ACCEPT"; cases "st = UTF8_REJECT") (auto simp only: if_True if_False bind_res_eq_Inr Inr_inject)
  then have "pos e3 = pos e \<and> undumped_chars e3 = 0 \<or>
      pos e3 = pos e - 1 \<and> undumped_chars e3 = 0 \<and> 0 < undumped_chars e \<or>
      pos e3 = pos e \<and> 0 < undumped_chars e3"
  proof cases
    case accept
    then show ?thesis using dump_codepoint_keeps [OF accept] by simp
  next
    case reject
    then show ?thesis using dump_rejected_keeps [OF reject] by (simp split: if_splits)
  next
    case more
    then show ?thesis using put_keeps [of "s ! pos e" ?e e2] by (cases a) auto
  qed
  then show ?thesis using assms(2) e' by (auto split: if_splits)
qed

function dump_loop :: "bool \<Rightarrow> byte list \<Rightarrow> escaping \<Rightarrow> escaping res" where
  "dump_loop ensure_ascii s e =
     (if pos e < length s
      then (case dump_round ensure_ascii s e of Inl err \<Rightarrow> Inl err | Inr e' \<Rightarrow> dump_loop ensure_ascii s e')
      else Inr e)"
  by pat_completeness auto
termination
  by (relation "measure (\<lambda>(a, s, e). 2 * (length s - pos e) + (if 0 < undumped_chars e then 1 else 0))")
    (auto dest: dump_round_less)

declare dump_loop.simps [simp del]

text \<open>\<open>codepoint\<close> starts uninitialised; \<open>decode\<close> does not read it in the state it starts in.\<close>

definition dump_escaped :: "byte list \<Rightarrow> bool \<Rightarrow> serializer \<Rightarrow> serializer res" where
  "dump_escaped s ensure_ascii z =
     bind_res (dump_loop ensure_ascii s
       \<lparr>ser = z, codepoint = 0, dstate = UTF8_ACCEPT, nbytes = 0, bytes_after_last_accept = 0,
        undumped_chars = 0, pos = 0\<rparr>) (\<lambda>e.
     if dstate e = UTF8_ACCEPT
     then Inr (ser (if 0 < nbytes e then flush_buffer (nbytes e) e else e))
     else (case error_handler (ser e) of
         strict \<Rightarrow> json_throw (type_error_create 316 (''incomplete UTF-8 string; last byte: 0x'' @ hex2 (last s)))
       | ignore \<Rightarrow> Inr (ser (flush_buffer (bytes_after_last_accept e) e))
       | replace \<Rightarrow>
           Inr (write_characters (if ensure_ascii then [0x5C, 0x75, 0x66, 0x66, 0x66, 0x64] else [0xEF, 0xBF, 0xBD])
             (ser (flush_buffer (bytes_after_last_accept e) e)))))"

section \<open>Numbers\<close>

text \<open>
  The loop of \<open>dump_integer\<close> on the value of \<open>x\<close>: the digits from the last to the first. C++ division
  truncates, and \<open>labs\<close> takes the sign off the remainder.
\<close>

function integer_loop :: "int \<Rightarrow> byte list \<Rightarrow> byte list res" where
  "integer_loop x buf =
     (if x = 0 then Inr buf
      else if \<not> length buf < 64 - 1 then Inl (AssertFailed ''i < number_buffer.size() - 1'')
      else integer_loop (x sdiv 10) (buf @ [0x30 + word_of_int \<bar>x smod 10\<bar>]))"
  by pat_completeness auto
termination
  by (relation "measure (\<lambda>(x, buf). 64 - length buf)") auto

declare integer_loop.simps [simp del]

definition dump_integer :: "int \<Rightarrow> serializer \<Rightarrow> serializer res" where
  "dump_integer x z =
     (if x = 0 then Inr (write_characters [0x30] z)
      else bind_res (integer_loop x []) (\<lambda>buf.
        bind_res (if x < 0 then bind_res (c_assert (length buf < 64 - 2) ''i < number_buffer.size() - 2'')
                    (\<lambda>_. Inr (buf @ [0x2D]))
                  else Inr buf) (\<lambda>buf1.
        Inr (write_characters (rev buf1) z))))"

text \<open>\<open>dump_float\<close> for doubles, with the buffer of 64 characters.\<close>

definition dump_float :: "double \<Rightarrow> serializer \<Rightarrow> serializer res" where
  "dump_float x z =
     (if \<not> isfinite x then Inr (write_characters [0x6E, 0x75, 0x6C, 0x6C] z)
      else bind_res (to_chars 64 x) (\<lambda>cs. Inr (write_characters cs z)))"

section \<open>Values\<close>

text \<open>The wider indentation for the elements of a container, in a string that is long enough.\<close>

definition widen_indent :: "u32 \<Rightarrow> serializer \<Rightarrow> serializer" where
  "widen_indent new_indent z =
     (if length (indent_string z) < unat new_indent
      then z\<lparr>indent_string := indent_string z @ replicate (length (indent_string z)) 0x20\<rparr> else z)"

definition dump_key :: "byte list \<Rightarrow> byte list \<Rightarrow> bool \<Rightarrow> serializer \<Rightarrow> serializer res" where
  "dump_key k colon ensure_ascii z =
     bind_res (dump_escaped k ensure_ascii (write_characters [0x22] z)) (\<lambda>z1.
     Inr (write_characters colon z1))"

text \<open>
  \<open>dump\<close>, with the loops over the elements of an array and the members of an object: all but the
  last are followed by a comma.
\<close>

fun dump :: "json \<Rightarrow> bool \<Rightarrow> bool \<Rightarrow> u32 \<Rightarrow> u32 \<Rightarrow> serializer \<Rightarrow> serializer res"
  and dump_elements :: "json list \<Rightarrow> bool \<Rightarrow> bool \<Rightarrow> u32 \<Rightarrow> u32 \<Rightarrow> serializer \<Rightarrow> serializer res"
  and dump_members :: "(byte list \<times> json) list \<Rightarrow> bool \<Rightarrow> bool \<Rightarrow> u32 \<Rightarrow> u32 \<Rightarrow> serializer \<Rightarrow> serializer res" where
  "dump (JObject m) pretty ascii step cur z =
     (if m = [] then Inr (write_characters [0x7B, 0x7D] z)
      else if pretty then
        let new_indent = cur + step in
        bind_res (dump_members m True ascii step new_indent (widen_indent new_indent (write_characters [0x7B, 0x0A] z))) (\<lambda>z1.
        bind_res (write_indent cur (write_characters [0x0A] z1)) (\<lambda>z2.
        Inr (write_characters [0x7D] z2)))
      else
        bind_res (dump_members m False ascii step cur (write_characters [0x7B] z)) (\<lambda>z1.
        Inr (write_characters [0x7D] z1)))"
| "dump (JArray xs) pretty ascii step cur z =
     (if xs = [] then Inr (write_characters [0x5B, 0x5D] z)
      else if pretty then
        let new_indent = cur + step in
        bind_res (dump_elements xs True ascii step new_indent (widen_indent new_indent (write_characters [0x5B, 0x0A] z))) (\<lambda>z1.
        bind_res (write_indent cur (write_characters [0x0A] z1)) (\<lambda>z2.
        Inr (write_characters [0x5D] z2)))
      else
        bind_res (dump_elements xs False ascii step cur (write_characters [0x5B] z)) (\<lambda>z1.
        Inr (write_characters [0x5D] z1)))"
| "dump (JString s) pretty ascii step cur z =
     bind_res (dump_escaped s ascii (write_characters [0x22] z)) (\<lambda>z1. Inr (write_characters [0x22] z1))"
| "dump (JBoolean b) pretty ascii step cur z =
     Inr (write_characters (if b then [0x74, 0x72, 0x75, 0x65] else [0x66, 0x61, 0x6C, 0x73, 0x65]) z)"
| "dump (JInteger n) pretty ascii step cur z = dump_integer (sint n) z"
| "dump (JUnsigned n) pretty ascii step cur z = dump_integer (uint n) z"
| "dump (JFloat x) pretty ascii step cur z = dump_float x z"
| "dump JDiscarded pretty ascii step cur z =
     Inr (write_characters [0x3C, 0x64, 0x69, 0x73, 0x63, 0x61, 0x72, 0x64, 0x65, 0x64, 0x3E] z)"
| "dump JNull pretty ascii step cur z = Inr (write_characters [0x6E, 0x75, 0x6C, 0x6C] z)"
| "dump_elements [] pretty ascii step cur z = Inr z"
| "dump_elements (x # xs) pretty ascii step cur z =
     bind_res (if pretty then write_indent cur z else Inr z) (\<lambda>z1.
     bind_res (dump x pretty ascii step cur z1) (\<lambda>z2.
     if xs = [] then Inr z2
     else dump_elements xs pretty ascii step cur
            (write_characters (if pretty then [0x2C, 0x0A] else [0x2C]) z2)))"
| "dump_members [] pretty ascii step cur z = Inr z"
| "dump_members ((k, x) # m) pretty ascii step cur z =
     bind_res (if pretty then write_indent cur z else Inr z) (\<lambda>z1.
     bind_res (dump_key k (if pretty then [0x22, 0x3A, 0x20] else [0x22, 0x3A]) ascii z1) (\<lambda>z2.
     bind_res (dump x pretty ascii step cur z2) (\<lambda>z3.
     if m = [] then Inr z3
     else dump_members m pretty ascii step cur
            (write_characters (if pretty then [0x2C, 0x0A] else [0x2C]) z3))))"

text \<open>
  \<open>operator<<\<close> of \<open>src/nlohmann/json.hpp\<close> on a stream of the width \<open>width\<close> and the fill character
  \<open>fill\<close>: the text it writes.
\<close>

definition json_to_stream :: "int \<Rightarrow> byte \<Rightarrow> json \<Rightarrow> byte list res" where
  "json_to_stream width fill j =
     (let pretty_print = (0 < width); indentation = (if pretty_print then width else 0)
      in bind_res (dump j pretty_print False (word_of_int indentation) 0 (new_serializer fill strict)) (\<lambda>z.
         Inr (out z)))"

text \<open>The member function \<open>dump\<close> of \<open>src/nlohmann/json.hpp\<close>.\<close>

definition json_dump :: "json \<Rightarrow> int \<Rightarrow> byte \<Rightarrow> bool \<Rightarrow> error_handler_t \<Rightarrow> byte list res" where
  "json_dump j indent ichar ensure_ascii eh =
     bind_res (if 0 \<le> indent then dump j True ensure_ascii (word_of_int indent) 0 (new_serializer ichar eh)
               else dump j False ensure_ascii 0 0 (new_serializer ichar eh)) (\<lambda>z. Inr (out z))"

end
