(* ===== verification/Json_Lexer.thy ===== *)
theory Json_Lexer
  imports Json_Number
begin

unbundle bit_operations_syntax

text \<open>
  The lexer of the JSON library, \<open>src/nlohmann/detail/input/lexer.hpp\<close>, on the characters an input
  adapter of \<open>src/nlohmann/detail/input/input_adapters.hpp\<close> delivers. Every member function is a
  definition on the record of the lexer's members. The counters of characters and lines count
  the characters of one input and are natural numbers.
\<close>

section \<open>Tokens and members\<close>

datatype token_type =
    uninitialized | literal_true | literal_false | literal_null | value_string | value_unsigned
  | value_integer_token | value_float_token | begin_array | begin_object | end_array_token
  | end_object_token | name_separator | value_separator | parse_error_token | end_of_input
  | literal_or_value

text \<open>A text in single quotes.\<close>

definition squote :: "string \<Rightarrow> string" where
  "squote s = CHR 0x27 # s @ [CHR 0x27]"

fun token_type_name :: "token_type \<Rightarrow> string" where
  "token_type_name uninitialized = ''<uninitialized>''"
| "token_type_name literal_true = ''true literal''"
| "token_type_name literal_false = ''false literal''"
| "token_type_name literal_null = ''null literal''"
| "token_type_name value_string = ''string literal''"
| "token_type_name value_unsigned = ''number literal''"
| "token_type_name value_integer_token = ''number literal''"
| "token_type_name value_float_token = ''number literal''"
| "token_type_name begin_array = squote ''[''"
| "token_type_name begin_object = squote ''{''"
| "token_type_name end_array_token = squote '']''"
| "token_type_name end_object_token = squote ''}''"
| "token_type_name name_separator = squote '':''"
| "token_type_name value_separator = squote '',''"
| "token_type_name parse_error_token = ''<parse error>''"
| "token_type_name end_of_input = ''end of input''"
| "token_type_name literal_or_value = squote ''['' @ '', '' @ squote ''{'' @ '', or a literal''"

record position_t =
  chars_read_total :: nat
  chars_read_current_line :: nat
  lines_read :: nat

text \<open>
  \<open>ia\<close> is what the adapter still delivers. Characters are \<open>int\<close>s from 0 to 255 or \<open>EOF\<close>, the bytes
  of the buffers have type \<open>char\<close>.
\<close>

record lexer =
  ia :: "byte list"
  lex_current :: int
  next_unget :: bool
  position :: position_t
  token_string :: "byte list"
  token_buffer :: "byte list"
  error_message :: string
  value_integer :: int64
  value_unsigned_number :: u64
  value_float :: double
  decimal_point_char :: byte

abbreviation EOF :: int where
  "EOF \<equiv> - 1"

text \<open>The constructor; the decimal point is that of the locale.\<close>

definition new_lexer :: "byte \<Rightarrow> byte list \<Rightarrow> lexer" where
  "new_lexer dp input =
     \<lparr>ia = input, lex_current = EOF, next_unget = False,
      position = \<lparr>chars_read_total = 0, chars_read_current_line = 0, lines_read = 0\<rparr>,
      token_string = [], token_buffer = [], error_message = [], value_integer = 0,
      value_unsigned_number = 0, value_float = 0, decimal_point_char = dp\<rparr>"

section \<open>Input\<close>

text \<open>\<open>get_character\<close> of a stream or a buffer.\<close>

definition get_character :: "byte list \<Rightarrow> int \<times> byte list" where
  "get_character bs = (case bs of [] \<Rightarrow> (EOF, []) | b # rest \<Rightarrow> (uint b, rest))"

definition to_char_type :: "int \<Rightarrow> byte" where
  "to_char_type c = word_of_int c"

definition reset :: "lexer \<Rightarrow> lexer" where
  "reset s = s\<lparr>token_buffer := [], token_string := [to_char_type (lex_current s)]\<rparr>"

definition lex_get :: "lexer \<Rightarrow> lexer" where
  "lex_get s =
     (let p = position s;
          s1 = s\<lparr>position := p\<lparr>chars_read_total := chars_read_total p + 1,
                           chars_read_current_line := chars_read_current_line p + 1\<rparr>\<rparr>;
          s2 = (if next_unget s1 then s1\<lparr>next_unget := False\<rparr>
                else (case get_character (ia s1) of (c, rest) \<Rightarrow> s1\<lparr>lex_current := c, ia := rest\<rparr>));
          s3 = (if lex_current s2 \<noteq> EOF
                then s2\<lparr>token_string := token_string s2 @ [to_char_type (lex_current s2)]\<rparr> else s2)
      in if lex_current s3 = 0x0A
         then s3\<lparr>position := (position s3)\<lparr>lines_read := lines_read (position s3) + 1,
                                      chars_read_current_line := 0\<rparr>\<rparr>
         else s3)"

definition unget :: "lexer \<Rightarrow> lexer res" where
  "unget s =
     (let p = position s;
          p1 = p\<lparr>chars_read_total := chars_read_total p - 1\<rparr>;
          p2 = (if chars_read_current_line p1 = 0
                then (if 0 < lines_read p1 then p1\<lparr>lines_read := lines_read p1 - 1\<rparr> else p1)
                else p1\<lparr>chars_read_current_line := chars_read_current_line p1 - 1\<rparr>);
          s1 = s\<lparr>next_unget := True, position := p2\<rparr>
      in if lex_current s1 \<noteq> EOF
         then bind_res (c_assert (token_string s1 \<noteq> []) ''token_string.size() != 0'') (\<lambda>_.
              Inr (s1\<lparr>token_string := butlast (token_string s1)\<rparr>))
         else Inr s1)"

definition lex_add :: "int \<Rightarrow> lexer \<Rightarrow> lexer" where
  "lex_add c s = s\<lparr>token_buffer := token_buffer s @ [to_char_type c]\<rparr>"

definition fail_with :: "string \<Rightarrow> lexer \<Rightarrow> token_type \<times> lexer" where
  "fail_with msg s = (parse_error_token, s\<lparr>error_message := msg\<rparr>)"

definition skip_bom :: "lexer \<Rightarrow> (bool \<times> lexer) res" where
  "skip_bom s =
     (let s1 = lex_get s
      in if lex_current s1 = 0xEF
         then (let s2 = lex_get s1
               in if lex_current s2 = 0xBB
                  then (let s3 = lex_get s2 in Inr (lex_current s3 = 0xBF, s3))
                  else Inr (False, s2))
         else bind_res (unget s1) (\<lambda>s2. Inr (True, s2)))"

text \<open>The last token with control characters written out, for messages.\<close>

definition hex_upper :: "nat \<Rightarrow> char" where
  "hex_upper n = (if n < 10 then char_of (n + 48) else char_of (n + 55))"

definition get_token_string :: "lexer \<Rightarrow> string" where
  "get_token_string s = concat (map (\<lambda>c.
     if c \<le> 0x1F then ''<U+00'' @ [hex_upper (unat c div 16), hex_upper (unat c mod 16)] @ ''>''
     else [char_of (unat c)]) (token_string s))"

section \<open>Strings\<close>

text \<open>The loop of \<open>get_codepoint\<close> over the shifts of the four hexadecimal digits.\<close>

fun codepoint_loop :: "nat list \<Rightarrow> int \<Rightarrow> lexer \<Rightarrow> int option \<times> lexer" where
  "codepoint_loop [] cp s = (Some cp, s)"
| "codepoint_loop (factor # fs) cp s =
     (let s1 = lex_get s; c = lex_current s1
      in if 0x30 \<le> c \<and> c \<le> 0x39 then codepoint_loop fs (cp + push_bit factor (c - 0x30)) s1
         else if 0x41 \<le> c \<and> c \<le> 0x46 then codepoint_loop fs (cp + push_bit factor (c - 0x37)) s1
         else if 0x61 \<le> c \<and> c \<le> 0x66 then codepoint_loop fs (cp + push_bit factor (c - 0x57)) s1
         else (None, s1))"

definition get_codepoint :: "lexer \<Rightarrow> (int \<times> lexer) res" where
  "get_codepoint s =
     bind_res (c_assert (lex_current s = 0x75) ''current == u'') (\<lambda>_.
     case codepoint_loop [12, 8, 4, 0] 0 s of
       (None, s1) \<Rightarrow> Inr (- 1, s1)
     | (Some cp, s1) \<Rightarrow>
         bind_res (c_assert (0 \<le> cp \<and> cp \<le> 0xFFFF) ''0x0000 <= codepoint and codepoint <= 0xFFFF'') (\<lambda>_.
         Inr (cp, s1)))"

fun ranges_loop :: "(int \<times> int) list \<Rightarrow> lexer \<Rightarrow> bool \<times> lexer" where
  "ranges_loop [] s = (True, s)"
| "ranges_loop ((lo, hi) # rs) s =
     (let s1 = lex_get s
      in if lo \<le> lex_current s1 \<and> lex_current s1 \<le> hi
         then ranges_loop rs (lex_add (lex_current s1) s1)
         else (False, s1\<lparr>error_message := ''invalid string: ill-formed UTF-8 byte''\<rparr>))"

definition next_byte_in_range :: "(int \<times> int) list \<Rightarrow> lexer \<Rightarrow> bool \<times> lexer" where
  "next_byte_in_range ranges s = ranges_loop ranges (lex_add (lex_current s) s)"

text \<open>The bytes of a code point, as \<open>scan_string\<close> adds them.\<close>

definition add_codepoint :: "int \<Rightarrow> lexer \<Rightarrow> lexer" where
  "add_codepoint cp s =
     (if cp < 0x80 then lex_add cp s
      else if cp \<le> 0x7FF then
        lex_add (0x80 OR (cp AND 0x3F)) (lex_add (0xC0 OR drop_bit 6 cp) s)
      else if cp \<le> 0xFFFF then
        lex_add (0x80 OR (cp AND 0x3F)) (lex_add (0x80 OR (drop_bit 6 cp AND 0x3F))
          (lex_add (0xE0 OR drop_bit 12 cp) s))
      else
        lex_add (0x80 OR (cp AND 0x3F)) (lex_add (0x80 OR (drop_bit 6 cp AND 0x3F))
          (lex_add (0x80 OR (drop_bit 12 cp AND 0x3F)) (lex_add (0xF0 OR drop_bit 18 cp) s))))"

definition hex_digits_message :: string where
  "hex_digits_message =
     ''invalid string: '' @ squote (CHR 0x5C # ''u'') @ '' must be followed by 4 hex digits''"

definition low_surrogate_message :: string where
  "low_surrogate_message =
     ''invalid string: surrogate U+DC00..U+DFFF must be followed by U+DC00..U+DFFF''"

definition high_surrogate_message :: string where
  "high_surrogate_message =
     ''invalid string: surrogate U+DC00..U+DFFF must follow U+D800..U+DBFF''"

text \<open>
  A part of the scan of a string: it goes on with the next character (\<open>None\<close>) or returns a token.
\<close>

type_synonym scan_result = "(token_type option \<times> lexer) res"

definition scan_fails :: "string \<Rightarrow> lexer \<Rightarrow> scan_result" where
  "scan_fails msg s = Inr (Some parse_error_token, s\<lparr>error_message := msg\<rparr>)"

text \<open>The last steps for an escaped code point: the assertion and the translation into bytes.\<close>

definition finish_codepoint :: "int \<Rightarrow> lexer \<Rightarrow> scan_result" where
  "finish_codepoint cp s =
     bind_res (c_assert (0 \<le> cp \<and> cp \<le> 0x10FFFF) ''0x00 <= codepoint and codepoint <= 0x10FFFF'') (\<lambda>_.
     Inr (None, add_codepoint cp s))"

definition scan_unicode :: "lexer \<Rightarrow> scan_result" where
  "scan_unicode s =
     bind_res (get_codepoint s) (\<lambda>(codepoint1, s1).
     if codepoint1 = - 1 then scan_fails hex_digits_message s1
     else if 0xD800 \<le> codepoint1 \<and> codepoint1 \<le> 0xDBFF then
       (let s2 = lex_get s1
        in if lex_current s2 \<noteq> 0x5C then scan_fails low_surrogate_message s2
           else let s3 = lex_get s2
                in if lex_current s3 \<noteq> 0x75 then scan_fails low_surrogate_message s3
                   else bind_res (get_codepoint s3) (\<lambda>(codepoint2, s4).
                     if codepoint2 = - 1 then scan_fails hex_digits_message s4
                     else if 0xDC00 \<le> codepoint2 \<and> codepoint2 \<le> 0xDFFF
                     then finish_codepoint (push_bit 10 codepoint1 + codepoint2 - 0x35FDC00) s4
                     else scan_fails low_surrogate_message s4))
     else if 0xDC00 \<le> codepoint1 \<and> codepoint1 \<le> 0xDFFF then scan_fails high_surrogate_message s1
     else finish_codepoint codepoint1 s1)"

definition scan_escape :: "lexer \<Rightarrow> scan_result" where
  "scan_escape s =
     (let s1 = lex_get s; c = lex_current s1
      in if c = 0x22 then Inr (None, lex_add 0x22 s1)
         else if c = 0x5C then Inr (None, lex_add 0x5C s1)
         else if c = 0x2F then Inr (None, lex_add 0x2F s1)
         else if c = 0x62 then Inr (None, lex_add 0x08 s1)
         else if c = 0x66 then Inr (None, lex_add 0x0C s1)
         else if c = 0x6E then Inr (None, lex_add 0x0A s1)
         else if c = 0x72 then Inr (None, lex_add 0x0D s1)
         else if c = 0x74 then Inr (None, lex_add 0x09 s1)
         else if c = 0x75 then scan_unicode s1
         else scan_fails ''invalid string: forbidden character after backslash'' s1)"

text \<open>The messages for control characters: name and, for some, the short escape.\<close>

definition control_names :: "string list" where
  "control_names = [''NUL'', ''SOH'', ''STX'', ''ETX'', ''EOT'', ''ENQ'', ''ACK'', ''BEL'', ''BS'', ''HT'',
     ''LF'', ''VT'', ''FF'', ''CR'', ''SO'', ''SI'', ''DLE'', ''DC1'', ''DC2'', ''DC3'', ''DC4'', ''NAK'', ''SYN'',
     ''ETB'', ''CAN'', ''EM'', ''SUB'', ''ESC'', ''FS'', ''GS'', ''RS'', ''US'']"

definition control_message :: "nat \<Rightarrow> string" where
  "control_message c =
     (let h = [hex_upper (c div 16), hex_upper (c mod 16)];
          short = (if c = 0x08 then ''b'' else if c = 0x09 then ''t'' else if c = 0x0A then ''n''
                   else if c = 0x0C then ''f'' else if c = 0x0D then ''r'' else [])
      in ''invalid string: control character U+00'' @ h @ '' ('' @ control_names ! c @
         '') must be escaped to '' @ CHR 0x5C # ''u00'' @ h @
         (if short = [] then [] else '' or '' @ CHR 0x5C # short))"

text \<open>The continuation bytes that may follow a first byte of a multi-byte character.\<close>

definition utf8_ranges :: "int \<Rightarrow> (int \<times> int) list option" where
  "utf8_ranges c =
     (if 0xC2 \<le> c \<and> c \<le> 0xDF then Some [(0x80, 0xBF)]
      else if c = 0xE0 then Some [(0xA0, 0xBF), (0x80, 0xBF)]
      else if (0xE1 \<le> c \<and> c \<le> 0xEC) \<or> c = 0xEE \<or> c = 0xEF then Some [(0x80, 0xBF), (0x80, 0xBF)]
      else if c = 0xED then Some [(0x80, 0x9F), (0x80, 0xBF)]
      else if c = 0xF0 then Some [(0x90, 0xBF), (0x80, 0xBF), (0x80, 0xBF)]
      else if 0xF1 \<le> c \<and> c \<le> 0xF3 then Some [(0x80, 0xBF), (0x80, 0xBF), (0x80, 0xBF)]
      else if c = 0xF4 then Some [(0x80, 0x8F), (0x80, 0xBF), (0x80, 0xBF)]
      else None)"

text \<open>One round of the loop of \<open>scan_string\<close>.\<close>

definition string_round :: "lexer \<Rightarrow> scan_result" where
  "string_round s =
     (let s1 = lex_get s; c = lex_current s1
      in if c = EOF then scan_fails ''invalid string: missing closing quote'' s1
         else if c = 0x22 then Inr (Some value_string, s1)
         else if c = 0x5C then scan_escape s1
         else if c \<le> 0x1F then scan_fails (control_message (nat c)) s1
         else if c \<le> 0x7F then Inr (None, lex_add c s1)
         else (case utf8_ranges c of
             Some ranges \<Rightarrow> (case next_byte_in_range ranges s1 of
                 (ok, s2) \<Rightarrow> Inr (if ok then None else Some parse_error_token, s2))
           | None \<Rightarrow> scan_fails ''invalid string: ill-formed UTF-8 byte'' s1))"

text \<open>The number of characters that are still to be read.\<close>

definition remaining :: "lexer \<Rightarrow> nat" where
  "remaining s = length (ia s) + (if next_unget s \<and> lex_current s \<noteq> EOF then 1 else 0)"

lemma lex_current_get:
  "lex_current (lex_get s) = (if next_unget s then lex_current s
     else case ia s of [] \<Rightarrow> EOF | b # _ \<Rightarrow> uint b)"
  by (simp add: lex_get_def get_character_def Let_def split: list.split)

lemma ia_get [simp]: "ia (lex_get s) = (if next_unget s then ia s else tl (ia s))"
  by (simp add: lex_get_def get_character_def Let_def split: list.split)

lemma next_unget_get [simp]: "\<not> next_unget (lex_get s)"
  by (simp add: lex_get_def get_character_def Let_def split: list.split)

lemma remaining_get: "remaining (lex_get s) \<le> remaining s"
  by (auto simp: remaining_def)

lemma remaining_get_less: "lex_current (lex_get s) \<noteq> EOF \<Longrightarrow> remaining (lex_get s) < remaining s"
  by (auto simp: remaining_def lex_current_get split: if_splits list.splits)

lemma remaining_simps [simp]:
  "remaining (lex_add c s) = remaining s" "remaining (s\<lparr>error_message := m\<rparr>) = remaining s"
  by (simp_all add: remaining_def lex_add_def)

lemma remaining_codepoint_loop: "codepoint_loop fs cp s = (r, s') \<Longrightarrow> remaining s' \<le> remaining s"
proof (induction fs cp s arbitrary: r s' rule: codepoint_loop.induct)
  case (2 factor fs cp s)
  then show ?case
    using remaining_get [of s] by (fastforce simp: Let_def split: if_splits)
qed simp

lemma remaining_get_codepoint: "get_codepoint s = Inr (r, s') \<Longrightarrow> remaining s' \<le> remaining s"
  by (auto simp: get_codepoint_def bind_res_eq_Inr simp del: codepoint_loop.simps
      dest: remaining_codepoint_loop split: prod.splits option.splits)

lemma remaining_ranges_loop: "ranges_loop rs s = (r, s') \<Longrightarrow> remaining s' \<le> remaining s"
proof (induction rs s arbitrary: r s' rule: ranges_loop.induct)
  case (2 lo hi rs s)
  then show ?case
    using remaining_get [of s] by (fastforce simp: Let_def split: if_splits)
qed simp

lemma remaining_add_codepoint [simp]: "remaining (add_codepoint cp s) = remaining s"
  by (simp add: add_codepoint_def)

lemma remaining_scan_fails: "scan_fails m s = Inr (r, s') \<Longrightarrow> remaining s' = remaining s \<and> r = Some parse_error_token"
  by (auto simp: scan_fails_def)

lemma remaining_finish: "finish_codepoint cp s = Inr (r, s') \<Longrightarrow> remaining s' = remaining s"
  by (auto simp: finish_codepoint_def bind_res_eq_Inr)

lemma remaining_scan_unicode: "scan_unicode s = Inr (r, s') \<Longrightarrow> remaining s' \<le> remaining s"
  by (auto simp: scan_unicode_def bind_res_eq_Inr Let_def split: if_splits prod.splits
      dest!: remaining_get_codepoint remaining_scan_fails remaining_finish
      intro: order_trans [OF _ order_trans [OF _ order_trans [OF remaining_get]]] order_trans [OF remaining_get]
        order_trans [OF remaining_get order_trans [OF remaining_get]])

lemma remaining_scan_escape: "scan_escape s = Inr (r, s') \<Longrightarrow> remaining s' \<le> remaining s"
  using remaining_get [of s]
  by (auto simp: scan_escape_def Let_def split: if_splits
      dest!: remaining_scan_unicode remaining_scan_fails)

lemma remaining_string_round:
  assumes "string_round s = Inr (r, s')"
  shows "remaining s' \<le> remaining s" and "lex_current (lex_get s) \<noteq> EOF \<Longrightarrow> remaining s' < remaining s"
    and "r = None \<Longrightarrow> remaining s' < remaining s"
proof -
  have le: "remaining s' \<le> remaining (lex_get s)"
    using assms
    by (auto simp: string_round_def next_byte_in_range_def Let_def split: if_splits option.splits prod.splits
        dest!: remaining_scan_escape remaining_scan_fails remaining_ranges_loop)
  then show "remaining s' \<le> remaining s" using remaining_get [of s] by simp
  show less: "remaining s' < remaining s" if "lex_current (lex_get s) \<noteq> EOF"
    using le remaining_get_less [OF that] by simp
  assume "r = None"
  then show "remaining s' < remaining s"
    using assms less by (cases "lex_current (lex_get s) = EOF") (auto simp: string_round_def scan_fails_def)
qed

function scan_string_loop :: "lexer \<Rightarrow> (token_type \<times> lexer) res" where
  "scan_string_loop s =
     (case string_round s of
        Inl e \<Rightarrow> Inl e
      | Inr (Some t, s') \<Rightarrow> Inr (t, s')
      | Inr (None, s') \<Rightarrow> scan_string_loop s')"
  by pat_completeness auto
termination
  by (relation "measure remaining") (auto simp: remaining_string_round(3))

declare scan_string_loop.simps [simp del]

definition scan_string :: "lexer \<Rightarrow> (token_type \<times> lexer) res" where
  "scan_string s =
     (let s1 = reset s
      in bind_res (c_assert (lex_current s1 = 0x22) ''current == quote'') (\<lambda>_. scan_string_loop s1))"

section \<open>Numbers\<close>

text \<open>The labels of \<open>scan_number\<close>; \<open>number_done\<close> and \<open>number_failed\<close> end its \<open>goto\<close>s.\<close>

datatype number_label =
    number_minus | number_zero | number_any1 | number_decimal1 | number_decimal2
  | number_exponent | number_sign | number_any2 | number_done | number_failed

definition nonzero_digit :: "int \<Rightarrow> bool" where
  "nonzero_digit c \<longleftrightarrow> 0x31 \<le> c \<and> c \<le> 0x39"

definition digit_char :: "int \<Rightarrow> bool" where
  "digit_char c \<longleftrightarrow> 0x30 \<le> c \<and> c \<le> 0x39"

definition exponent_char :: "int \<Rightarrow> bool" where
  "exponent_char c \<longleftrightarrow> c = 0x65 \<or> c = 0x45"

text \<open>The code behind a label: the type found so far is \<open>ty\<close>, the result says where it goes on.\<close>

fun number_block :: "number_label \<Rightarrow> token_type \<Rightarrow> lexer \<Rightarrow> number_label \<times> token_type \<times> lexer" where
  "number_block number_minus ty s =
     (let s1 = lex_get s; c = lex_current s1
      in if c = 0x30 then (number_zero, value_integer_token, lex_add c s1)
         else if nonzero_digit c then (number_any1, value_integer_token, lex_add c s1)
         else (number_failed, value_integer_token, s1\<lparr>error_message :=
           ''invalid number; expected digit after '' @ squote ''-''\<rparr>))"
| "number_block number_zero ty s =
     (let s1 = lex_get s; c = lex_current s1
      in if c = 0x2E then (number_decimal1, ty, lex_add (uint (decimal_point_char s1)) s1)
         else if exponent_char c then (number_exponent, ty, lex_add c s1)
         else (number_done, ty, s1))"
| "number_block number_any1 ty s =
     (let s1 = lex_get s; c = lex_current s1
      in if digit_char c then (number_any1, ty, lex_add c s1)
         else if c = 0x2E then (number_decimal1, ty, lex_add (uint (decimal_point_char s1)) s1)
         else if exponent_char c then (number_exponent, ty, lex_add c s1)
         else (number_done, ty, s1))"
| "number_block number_decimal1 ty s =
     (let s1 = lex_get s; c = lex_current s1
      in if digit_char c then (number_decimal2, value_float_token, lex_add c s1)
         else (number_failed, value_float_token, s1\<lparr>error_message :=
           ''invalid number; expected digit after '' @ squote ''.''\<rparr>))"
| "number_block number_decimal2 ty s =
     (let s1 = lex_get s; c = lex_current s1
      in if digit_char c then (number_decimal2, ty, lex_add c s1)
         else if exponent_char c then (number_exponent, ty, lex_add c s1)
         else (number_done, ty, s1))"
| "number_block number_exponent ty s =
     (let s1 = lex_get s; c = lex_current s1
      in if c = 0x2B \<or> c = 0x2D then (number_sign, value_float_token, lex_add c s1)
         else if digit_char c then (number_any2, value_float_token, lex_add c s1)
         else (number_failed, value_float_token, s1\<lparr>error_message := ''invalid number; expected '' @
           squote ''+'' @ '', '' @ squote ''-'' @ '', or digit after exponent''\<rparr>))"
| "number_block number_sign ty s =
     (let s1 = lex_get s; c = lex_current s1
      in if digit_char c then (number_any2, ty, lex_add c s1)
         else (number_failed, ty, s1\<lparr>error_message :=
           ''invalid number; expected digit after exponent sign''\<rparr>))"
| "number_block number_any2 ty s =
     (let s1 = lex_get s; c = lex_current s1
      in if digit_char c then (number_any2, ty, lex_add c s1) else (number_done, ty, s1))"
| "number_block number_done ty s = (number_done, ty, s)"
| "number_block number_failed ty s = (number_failed, ty, s)"

lemma number_block_less:
  assumes "number_block l ty s = (l', ty', s')" and "l' \<noteq> number_done" "l' \<noteq> number_failed"
  shows "remaining s' < remaining s"
proof -
  have "lex_current (lex_get s) \<noteq> EOF \<and> remaining s' = remaining (lex_get s)"
    using assms
    by (cases l) (auto simp: Let_def nonzero_digit_def digit_char_def exponent_char_def split: if_splits)
  then show ?thesis using remaining_get_less by simp
qed

lemma number_block_le: "number_block l ty s = (l', ty', s') \<Longrightarrow> remaining s' \<le> remaining s"
  using remaining_get [of s] by (cases l) (auto simp: Let_def split: if_splits)

function number_loop :: "number_label \<Rightarrow> token_type \<Rightarrow> lexer \<Rightarrow> number_label \<times> token_type \<times> lexer" where
  "number_loop l ty s =
     (if l = number_done \<or> l = number_failed then (l, ty, s)
      else (case number_block l ty s of (l', ty', s') \<Rightarrow>
        if l' = number_done \<or> l' = number_failed then (l', ty', s') else number_loop l' ty' s'))"
  by pat_completeness auto
termination
  by (relation "measure (\<lambda>(l, ty, s). remaining s)") (auto split: prod.splits dest: number_block_less)

declare number_loop.simps [simp del]

lemma number_loop_ends: "number_loop l ty s = (l', ty', s') \<Longrightarrow> l' = number_done \<or> l' = number_failed"
proof (induction l ty s rule: number_loop.induct)
  case (1 l ty s)
  then show ?case by (subst (asm) (2) number_loop.simps) (auto split: if_splits prod.splits)
qed

text \<open>What follows the label \<open>scan_number_done\<close>: the conversion of the buffer.\<close>

definition convert_float :: "lexer \<Rightarrow> (token_type \<times> lexer) res" where
  "convert_float s =
     (case strtod (decimal_point_char s) (token_buffer s) of (x, k) \<Rightarrow>
        bind_res (c_assert (k = length (token_buffer s)) ''endptr == token_buffer.data() + token_buffer.size()'')
          (\<lambda>_. Inr (value_float_token, s\<lparr>value_float := x\<rparr>)))"

definition convert_number :: "token_type \<Rightarrow> lexer \<Rightarrow> (token_type \<times> lexer) res" where
  "convert_number number_type s =
     (if number_type = value_unsigned then
        (case strtoull (token_buffer s) of (x, erange, k) \<Rightarrow>
           bind_res (c_assert (k = length (token_buffer s)) ''endptr == token_buffer.data() + token_buffer.size()'')
             (\<lambda>_. if \<not> erange then Inr (value_unsigned, s\<lparr>value_unsigned_number := x\<rparr>)
                  else convert_float s))
      else if number_type = value_integer_token then
        (case strtoll (token_buffer s) of (x, erange, k) \<Rightarrow>
           bind_res (c_assert (k = length (token_buffer s)) ''endptr == token_buffer.data() + token_buffer.size()'')
             (\<lambda>_. if \<not> erange then Inr (value_integer_token, s\<lparr>value_integer := x\<rparr>)
                  else convert_float s))
      else convert_float s)"

definition scan_number :: "lexer \<Rightarrow> (token_type \<times> lexer) res" where
  "scan_number s0 =
     (let s = reset s0; c = lex_current s
      in if c = 0x2D \<or> c = 0x30 \<or> nonzero_digit c then
           (case number_loop (if c = 0x2D then number_minus else if c = 0x30 then number_zero else number_any1)
                   value_unsigned (lex_add c s) of
              (l, number_type, s1) \<Rightarrow>
                if l = number_failed then Inr (parse_error_token, s1)
                else bind_res (unget s1) (\<lambda>s2. convert_number number_type s2))
         else Inl (AssertFailed ''false''))"

section \<open>Literals and the scanner\<close>

fun literal_loop :: "byte list \<Rightarrow> lexer \<Rightarrow> bool \<times> lexer" where
  "literal_loop [] s = (True, s)"
| "literal_loop (b # bs) s =
     (let s1 = lex_get s in if lex_current s1 \<noteq> uint b then (False, s1) else literal_loop bs s1)"

definition scan_literal :: "byte list \<Rightarrow> token_type \<Rightarrow> lexer \<Rightarrow> (token_type \<times> lexer) res" where
  "scan_literal literal_text return_type s =
     bind_res (c_assert (lex_current s = uint (hd literal_text)) ''current == literal_text[0]'') (\<lambda>_.
     case literal_loop (tl literal_text) s of
       (True, s1) \<Rightarrow> Inr (return_type, s1)
     | (False, s1) \<Rightarrow> Inr (fail_with ''invalid literal'' s1))"

definition white :: "int \<Rightarrow> bool" where
  "white c \<longleftrightarrow> c = 0x20 \<or> c = 0x09 \<or> c = 0x0A \<or> c = 0x0D"

function skip_white :: "lexer \<Rightarrow> lexer" where
  "skip_white s = (let s1 = lex_get s in if white (lex_current s1) then skip_white s1 else s1)"
  by pat_completeness auto
termination
  by (relation "measure remaining") (auto simp: white_def intro: remaining_get_less)

declare skip_white.simps [simp del]

definition true_text :: "byte list" where "true_text = [0x74, 0x72, 0x75, 0x65]"
definition false_text :: "byte list" where "false_text = [0x66, 0x61, 0x6C, 0x73, 0x65]"
definition null_text :: "byte list" where "null_text = [0x6E, 0x75, 0x6C, 0x6C]"

text \<open>The switch of \<open>scan\<close> over the first character of a token.\<close>

definition scan_token :: "lexer \<Rightarrow> (token_type \<times> lexer) res" where
  "scan_token s =
     (let c = lex_current s
      in if c = 0x5B then Inr (begin_array, s)
         else if c = 0x5D then Inr (end_array_token, s)
         else if c = 0x7B then Inr (begin_object, s)
         else if c = 0x7D then Inr (end_object_token, s)
         else if c = 0x3A then Inr (name_separator, s)
         else if c = 0x2C then Inr (value_separator, s)
         else if c = 0x74 then scan_literal true_text literal_true s
         else if c = 0x66 then scan_literal false_text literal_false s
         else if c = 0x6E then scan_literal null_text literal_null s
         else if c = 0x22 then scan_string s
         else if c = 0x2D \<or> digit_char c then scan_number s
         else if c = 0 \<or> c = EOF then Inr (end_of_input, s)
         else Inr (fail_with ''invalid literal'' s))"

definition scan :: "lexer \<Rightarrow> (token_type \<times> lexer) res" where
  "scan s =
     bind_res (if chars_read_total (position s) = 0 then skip_bom s else Inr (True, s)) (\<lambda>(ok, s1).
     if \<not> ok then Inr (fail_with ''invalid BOM; must be 0xEF 0xBB 0xBF if given'' s1)
     else scan_token (skip_white s1))"

end
