(* ===== verification/Utf8.thy ===== *)
theory Utf8
  imports Prelude
begin

unbundle bit_operations_syntax

text \<open>
  The encoding of Unicode text as bytes, as the standard defines it (RFC 3629): what the JSON
  lexer and serializer are measured against.
\<close>

section \<open>The encoding\<close>

text \<open>Scalar values: code points that are no surrogates.\<close>

definition scalar :: "int \<Rightarrow> bool" where
  "scalar c \<longleftrightarrow> 0 \<le> c \<and> c \<le> 0x10FFFF \<and> \<not> (0xD800 \<le> c \<and> c \<le> 0xDFFF)"

definition utf8_ints :: "int \<Rightarrow> int list" where
  "utf8_ints c =
     (if c < 0x80 then [c]
      else if c < 0x800 then [0xC0 + c div 64, 0x80 + c mod 64]
      else if c < 0x10000 then [0xE0 + c div 4096, 0x80 + c div 64 mod 64, 0x80 + c mod 64]
      else [0xF0 + c div 262144, 0x80 + c div 4096 mod 64, 0x80 + c div 64 mod 64, 0x80 + c mod 64])"

definition utf8_encode :: "int \<Rightarrow> byte list" where
  "utf8_encode c = map word_of_int (utf8_ints c)"

definition encode_text :: "int list \<Rightarrow> byte list" where
  "encode_text cs = concat (map utf8_encode cs)"

definition valid_utf8 :: "byte list \<Rightarrow> bool" where
  "valid_utf8 bs \<longleftrightarrow> (\<exists>cs. (\<forall>c \<in> set cs. scalar c) \<and> bs = encode_text cs)"

lemma encode_text_simps [simp]:
  "encode_text [] = []" "encode_text (c # cs) = utf8_encode c @ encode_text cs"
  "encode_text (cs @ ds) = encode_text cs @ encode_text ds"
  by (simp_all add: encode_text_def)

lemma valid_utf8_Nil [simp]: "valid_utf8 []"
  by (auto simp: valid_utf8_def intro: exI [of _ "[]"])

lemma valid_utf8_append: "valid_utf8 xs \<Longrightarrow> valid_utf8 ys \<Longrightarrow> valid_utf8 (xs @ ys)"
proof -
  assume "valid_utf8 xs" "valid_utf8 ys"
  then obtain cs ds where "\<forall>c \<in> set (cs @ ds). scalar c" "xs @ ys = encode_text (cs @ ds)"
    by (auto simp: valid_utf8_def)
  then show ?thesis unfolding valid_utf8_def by blast
qed

lemma valid_utf8_encode: "scalar c \<Longrightarrow> valid_utf8 (utf8_encode c)"
  by (auto simp: valid_utf8_def intro!: exI [of _ "[c]"])

lemma length_utf8_encode: "1 \<le> length (utf8_encode c) \<and> length (utf8_encode c) \<le> 4"
  by (simp add: utf8_encode_def utf8_ints_def)

lemma utf8_ints_range: "scalar c \<Longrightarrow> b \<in> set (utf8_ints c) \<Longrightarrow> 0 \<le> b \<and> b < 256"
  by (auto simp: scalar_def utf8_ints_def split: if_splits) (presburger+)?

section \<open>Bits\<close>

lemma and_63: "c AND 0x3F = c mod 64"
  for c :: int
proof -
  have "c AND 0x3F = take_bit 6 c" by (simp add: take_bit_eq_mask mask_eq_exp_minus_1)
  then show ?thesis by (simp add: take_bit_eq_mod)
qed

lemma small_upto: "0 \<le> x \<Longrightarrow> x < k \<Longrightarrow> list_all P [0..k - 1] \<Longrightarrow> P x"
  for x :: int
  by (simp add: list_all_iff)

lemma or_80: "0 \<le> x \<Longrightarrow> x < 64 \<Longrightarrow> 0x80 OR x = 0x80 + x"
  for x :: int
  by (erule (1) small_upto) code_simp

lemma or_C0: "0 \<le> x \<Longrightarrow> x < 32 \<Longrightarrow> 0xC0 OR x = 0xC0 + x"
  for x :: int
  by (erule (1) small_upto) code_simp

lemma or_E0: "0 \<le> x \<Longrightarrow> x < 16 \<Longrightarrow> 0xE0 OR x = 0xE0 + x"
  for x :: int
  by (erule (1) small_upto) code_simp

lemma or_F0: "0 \<le> x \<Longrightarrow> x < 8 \<Longrightarrow> 0xF0 OR x = 0xF0 + x"
  for x :: int
  by (erule (1) small_upto) code_simp

end
