(* ===== verification/Json_Lexer_Strings.thy ===== *)
theory Json_Lexer_Strings
  imports Json_Lexer Utf8
begin

text \<open>
  What the lexer makes of strings: the text it accepts is well-formed UTF-8 whatever the input, and
  how it reads the input character by character.
\<close>

section \<open>Reading\<close>

text \<open>
  The characters the next calls of \<open>get\<close> return, up to the end of the input; a character that was
  put back comes first. Behind the end nothing is left in the adapter.
\<close>

definition pending :: "lexer \<Rightarrow> byte list" where
  "pending s = (if next_unget s \<and> lex_current s \<noteq> EOF then [to_char_type (lex_current s)] else []) @ ia s"

definition lex_ok :: "lexer \<Rightarrow> bool" where
  "lex_ok s \<longleftrightarrow> EOF \<le> lex_current s \<and> lex_current s < 256 \<and>
     (next_unget s \<and> lex_current s = EOF \<longrightarrow> ia s = [])"

text \<open>What reading leaves alone.\<close>

definition same_values :: "lexer \<Rightarrow> lexer \<Rightarrow> bool" where
  "same_values s s' \<longleftrightarrow> token_buffer s' = token_buffer s \<and> error_message s' = error_message s \<and>
     value_integer s' = value_integer s \<and> value_unsigned_number s' = value_unsigned_number s \<and>
     value_float s' = value_float s \<and> decimal_point_char s' = decimal_point_char s"

lemma same_values_get [simp]: "same_values s (lex_get s)"
  by (simp add: same_values_def lex_get_def get_character_def Let_def split: list.split)

lemma same_values_trans: "same_values s s' \<Longrightarrow> same_values s' s'' \<Longrightarrow> same_values s s''"
  by (simp add: same_values_def)

lemma same_values_refl [simp]: "same_values s s"
  by (simp add: same_values_def)

lemma token_buffer_get [simp]: "token_buffer (lex_get s) = token_buffer s"
  using same_values_get [of s] unfolding same_values_def by blast

lemma uint_byte: "0 \<le> uint b \<and> uint b < 256"
  for b :: byte
  using uint_lt2p [of b] by simp

lemma uint_word_of_int8: "0 \<le> c \<Longrightarrow> c < 256 \<Longrightarrow> uint (word_of_int c :: byte) = c"
  by (simp add: unsigned_of_int take_bit_eq_mod)

lemma to_char_uint [simp]: "to_char_type (uint c) = c"
  by (simp add: to_char_type_def)

lemma get_Cons:
  assumes "lex_ok s" and "pending s = b # bs"
  shows "lex_current (lex_get s) = uint b \<and> pending (lex_get s) = bs \<and> lex_ok (lex_get s)"
  using assms uint_byte [of b] order_trans [OF _ conjunct1 [OF uint_byte [of b]], of EOF]
  by (auto simp: lex_ok_def pending_def lex_current_get to_char_type_def uint_word_of_int8 split: if_splits list.splits)

lemma get_Nil:
  assumes "lex_ok s" and "pending s = []"
  shows "lex_current (lex_get s) = EOF \<and> pending (lex_get s) = [] \<and> lex_ok (lex_get s)"
  using assms
  by (auto simp: lex_ok_def pending_def lex_current_get split: if_splits list.splits)

lemma get_cases [consumes 1, case_names char ended]:
  assumes "lex_ok s"
  obtains c where "lex_current (lex_get s) = uint c" "pending s = c # pending (lex_get s)" "lex_ok (lex_get s)"
  | "lex_current (lex_get s) = EOF" "pending s = []" "pending (lex_get s) = []" "lex_ok (lex_get s)"
proof (cases "pending s")
  case Nil
  then show ?thesis using get_Nil [OF assms] that(2) by simp
next
  case (Cons c bs)
  then show ?thesis using get_Cons [OF assms Cons] that(1) [of c] by simp
qed

lemma get_char: "lex_ok s \<Longrightarrow> lex_current (lex_get s) = uint c \<Longrightarrow> pending s = c # pending (lex_get s)"
  for c :: byte
  by (erule get_cases) (use uint_byte [of c] in \<open>auto simp: word_uint_eq_iff\<close>)

lemma lex_ok_get [simp]: "lex_ok s \<Longrightarrow> lex_ok (lex_get s)"
  by (cases "pending s") (auto dest: get_Cons get_Nil)

lemma current_get_byte: "lex_ok s \<Longrightarrow> EOF \<le> lex_current (lex_get s) \<and> lex_current (lex_get s) < 256"
  using lex_ok_get [of s] unfolding lex_ok_def by blast

lemma lex_ok_simps [simp]:
  "lex_ok (lex_add c s) = lex_ok s" "lex_ok (s\<lparr>error_message := m\<rparr>) = lex_ok s"
  "pending (lex_add c s) = pending s" "pending (s\<lparr>error_message := m\<rparr>) = pending s"
  "token_buffer (lex_add c s) = token_buffer s @ [to_char_type c]"
  by (simp_all add: lex_ok_def pending_def lex_add_def)

section \<open>Consuming input\<close>

text \<open>
  Reading from \<open>s\<close> to \<open>s'\<close> takes the characters \<open>bs\<close> from the input. The count of characters never falls,
  so only the first scan looks for a byte order mark.
\<close>

definition consumes :: "lexer \<Rightarrow> byte list \<Rightarrow> lexer \<Rightarrow> bool" where
  "consumes s bs s' \<longleftrightarrow> lex_ok s' \<and> pending s = bs @ pending s' \<and> decimal_point_char s' = decimal_point_char s \<and>
     chars_read_total (position s) \<le> chars_read_total (position s')"

lemma chars_get [simp]: "chars_read_total (position (lex_get s)) = Suc (chars_read_total (position s))"
  by (simp add: lex_get_def get_character_def Let_def split: list.split)

lemma dp_frame [simp]:
  "decimal_point_char (lex_add c s) = decimal_point_char s" "decimal_point_char (lex_get s) = decimal_point_char s"
  "position (lex_add c s) = position s"
  using same_values_get [of s] by (simp_all add: lex_add_def same_values_def)

lemma consumes_refl [simp]: "consumes s [] s = lex_ok s"
  by (simp add: consumes_def)

lemma consumes_ok: "consumes s bs s' \<Longrightarrow> lex_ok s'"
  by (simp add: consumes_def)

lemma consumes_trans: "consumes s xs s1 \<Longrightarrow> consumes s1 ys s2 \<Longrightarrow> consumes s (xs @ ys) s2"
  by (simp add: consumes_def)

lemma consumes_simps [simp]:
  "consumes s bs (lex_add c s') = consumes s bs s'" "consumes s bs (s'\<lparr>error_message := m\<rparr>) = consumes s bs s'"
  "consumes (lex_add c s) bs s' = consumes s bs s'"
  by (simp_all add: consumes_def)

lemma consumes_get: "lex_ok s \<Longrightarrow> pending s = c # r \<Longrightarrow>
    consumes s [c] (lex_get s) \<and> pending (lex_get s) = r \<and> lex_current (lex_get s) = uint c"
  using get_Cons [of s c r] by (simp add: consumes_def)

lemma consumes_end: "lex_ok s \<Longrightarrow> pending s = [] \<Longrightarrow>
    consumes s [] (lex_get s) \<and> pending (lex_get s) = [] \<and> lex_current (lex_get s) = EOF"
  using get_Nil [of s] by (simp add: consumes_def)

lemma consumes_get_some: "lex_ok s \<Longrightarrow> \<exists>bs. consumes s bs (lex_get s)"
  using consumes_get [of s] consumes_end [of s] by (cases "pending s") blast+

lemma consumes_step: "lex_ok s \<Longrightarrow> pending s = c # r \<Longrightarrow> consumes (lex_get s) bs s' \<Longrightarrow> consumes s (c # bs) s'"
  using consumes_trans [of s "[c]" "lex_get s" bs s'] consumes_get [of s c r] by simp

lemma consumes_some_trans: "consumes s xs s1 \<Longrightarrow> \<exists>ys. consumes s1 ys s2 \<Longrightarrow> \<exists>zs. consumes s zs s2"
  using consumes_trans by blast

lemma consumes_some_get: "lex_ok s \<Longrightarrow> \<exists>ys. consumes (lex_get s) ys s2 \<Longrightarrow> \<exists>zs. consumes s zs s2"
  using consumes_some_trans consumes_get_some by blast

section \<open>Encoding a code point\<close>

lemma add_codepoint_encodes:
  assumes "0 \<le> cp" and "cp \<le> 0x10FFFF"
  shows "token_buffer (add_codepoint cp s) = token_buffer s @ utf8_encode cp"
proof -
  have m: "0 \<le> x mod 64 \<and> x mod 64 < 64" for x :: int by simp
  have "0x80 OR (x mod 64) = 0x80 + x mod 64" for x :: int using or_80 [of "x mod 64"] m [of x] by simp
  note or = this or_C0 [of "cp div 64"] or_E0 [of "cp div 4096"] or_F0 [of "cp div 262144"]
  show ?thesis
    using assms or
    by (auto simp: add_codepoint_def and_63 drop_bit_eq_div utf8_encode_def utf8_ints_def to_char_type_def)
qed

lemma add_codepoint_frame [simp]:
  "pending (add_codepoint cp s) = pending s" "lex_ok (add_codepoint cp s) = lex_ok s"
  "consumes s' bs (add_codepoint cp s) = consumes s' bs s"
  by (simp_all add: add_codepoint_def)

section \<open>Well-formed UTF-8\<close>

text \<open>Continuation bytes in the ranges of their first byte complete the encoding of a scalar value.\<close>

lemma base64: "0 \<le> z \<Longrightarrow> z < 64 \<Longrightarrow> (k * 64 + z) div 64 = k \<and> (k * 64 + z) mod 64 = z"
  for k z :: int
  by simp

lemma div_4096: "n div 4096 = n div 64 div 64" "n div 262144 = n div 64 div 64 div 64"
  for n :: int
  by (simp_all add: zdiv_zmult2_eq [symmetric])

lemma shift_iff: "0 \<le> z \<Longrightarrow> z < 64 \<Longrightarrow> (p * 64 \<le> m * 64 + z) = (p \<le> m) \<and> (m * 64 + z < p * 64) = (m < p)"
  for m z p :: int
  by linarith

lemma scalar2:
  assumes "2 \<le> x" "x < 32" "0 \<le> y" "y < (64 :: int)"
  shows "scalar (x * 64 + y) \<and> utf8_ints (x * 64 + y) = [0xC0 + x, 0x80 + y]"
  using assms base64 [of y x] shift_iff [of y 2 x] shift_iff [of y 32 x] by (simp add: scalar_def utf8_ints_def)

lemma scalar3:
  assumes "0 \<le> x" "x < 16" "0 \<le> y" "y < 64" "0 \<le> z" "z < (64 :: int)" "x = 0 \<longrightarrow> 32 \<le> y" "x = 13 \<longrightarrow> y < 32"
  shows "\<exists>cp. scalar cp \<and> utf8_ints cp = [0xE0 + x, 0x80 + y, 0x80 + z]"
proof -
  define m where "m = x * 64 + y"
  have m: "m div 64 = x" "m mod 64 = y" using base64 [of y x] assms unfolding m_def by simp_all
  have lo: "32 \<le> m" using assms shift_iff [of y 1 x] unfolding m_def by (cases "x = 0") simp_all
  have hi: "m < 1024" using assms shift_iff [of y 16 x] unfolding m_def by simp
  have su: "m < 864 \<or> 896 \<le> m"
  proof (cases "x = 13")
    case True
    then show ?thesis using assms unfolding m_def by simp
  next
    case False
    then have "x < 13 \<or> 14 \<le> x" by linarith
    then show ?thesis using assms shift_iff [of y 13 x] shift_iff [of y 14 x] unfolding m_def by linarith
  qed
  define n where "n = m * 64 + z"
  have n: "n div 64 = m" "n mod 64 = z" using base64 [of z m] assms unfolding n_def by simp_all
  have "0x800 \<le> n" "n < 0x10000" "n < 0xD800 \<or> 0xDFFF < n"
    using lo hi su assms(5,6) unfolding n_def by linarith+
  then have "scalar n \<and> utf8_ints n = [0xE0 + x, 0x80 + y, 0x80 + z]"
    using m n by (auto simp: scalar_def utf8_ints_def div_4096)
  then show ?thesis ..
qed

lemma scalar4:
  assumes "0 \<le> w" "w \<le> 4" "0 \<le> x" "x < 64" "0 \<le> y" "y < 64" "0 \<le> z" "z < (64 :: int)"
    and "w = 0 \<longrightarrow> 16 \<le> x" and "w = 4 \<longrightarrow> x < 16"
  shows "\<exists>cp. scalar cp \<and> utf8_ints cp = [0xF0 + w, 0x80 + x, 0x80 + y, 0x80 + z]"
proof -
  define l where "l = w * 64 + x"
  have l: "l div 64 = w" "l mod 64 = x" using base64 [of x w] assms unfolding l_def by simp_all
  have lo: "16 \<le> l" using assms shift_iff [of x 1 w] unfolding l_def by (cases "w = 0") simp_all
  have hi: "l < 272" using assms shift_iff [of x 4 w] unfolding l_def by (cases "w = 4") simp_all
  define m where "m = l * 64 + y"
  have m: "m div 64 = l" "m mod 64 = y" using base64 [of y l] assms unfolding m_def by simp_all
  have mb: "1024 \<le> m" "m < 17408" using lo hi assms(5,6) unfolding m_def by linarith+
  define n where "n = m * 64 + z"
  have n: "n div 64 = m" "n mod 64 = z" using base64 [of z m] assms unfolding n_def by simp_all
  have "0x10000 \<le> n" "n \<le> 0x10FFFF" using mb assms(7,8) unfolding n_def by linarith+
  then have "scalar n \<and> utf8_ints n = [0xF0 + w, 0x80 + x, 0x80 + y, 0x80 + z]"
    using l m n by (simp add: scalar_def utf8_ints_def div_4096)
  then show ?thesis ..
qed

lemma ranges_scalar:
  assumes "utf8_ranges a = Some rs" and "list_all2 (\<lambda>(lo, hi) b. lo \<le> b \<and> b \<le> hi) rs bs"
  shows "\<exists>cp. scalar cp \<and> utf8_ints cp = a # bs"
proof -
  consider (two) b where "bs = [b]" "0xC2 \<le> a" "a \<le> 0xDF" "0x80 \<le> b" "b \<le> 0xBF"
    | (three) b c where "bs = [b, c]" "0xE0 \<le> a" "a \<le> 0xEF" "0x80 \<le> b" "b \<le> 0xBF" "0x80 \<le> c" "c \<le> 0xBF"
        "a = 0xE0 \<longrightarrow> 0xA0 \<le> b" "a = 0xED \<longrightarrow> b \<le> 0x9F"
    | (four) b c d where "bs = [b, c, d]" "0xF0 \<le> a" "a \<le> 0xF4" "0x80 \<le> b" "b \<le> 0xBF" "0x80 \<le> c" "c \<le> 0xBF"
        "0x80 \<le> d" "d \<le> 0xBF" "a = 0xF0 \<longrightarrow> 0x90 \<le> b" "a = 0xF4 \<longrightarrow> b \<le> 0x8F"
    using assms by (auto simp: utf8_ranges_def list_all2_Cons1 split: if_splits)
  then show ?thesis
  proof cases
    case two
    then show ?thesis using scalar2 [of "a - 0xC0" "b - 0x80"] by auto
  next
    case three
    then show ?thesis using scalar3 [of "a - 0xE0" "b - 0x80" "c - 0x80"] by auto
  next
    case four
    then show ?thesis using scalar4 [of "a - 0xF0" "b - 0x80" "c - 0x80" "d - 0x80"] by auto
  qed
qed

end
