(* ===== verification/Json_Strings.thy ===== *)
theory Json_Strings
  imports Json_Lexer_Strings
begin

text \<open>
  The strings of JSON as RFC 8259 defines them, and the proof that \<open>scan_string\<close> of
  \<open>src/nlohmann/detail/input/lexer.hpp\<close> reads exactly them and leaves their text as UTF-8 in the token
  buffer.
\<close>

section \<open>The grammar\<close>

definition hex_digit :: "byte \<Rightarrow> int option" where
  "hex_digit c =
     (if 0x30 \<le> c \<and> c \<le> 0x39 then Some (uint c - 0x30)
      else if 0x41 \<le> c \<and> c \<le> 0x46 then Some (uint c - 0x37)
      else if 0x61 \<le> c \<and> c \<le> 0x66 then Some (uint c - 0x57) else None)"

text \<open>The value of four hexadecimal digits.\<close>

fun hex4 :: "byte list \<Rightarrow> int option" where
  "hex4 [a, b, c, d] =
     (case (hex_digit a, hex_digit b, hex_digit c, hex_digit d) of
        (Some w, Some x, Some y, Some z) \<Rightarrow> Some (w * 4096 + x * 256 + y * 16 + z)
      | _ \<Rightarrow> None)"
| "hex4 _ = None"

definition short_escapes :: "(byte \<times> int) list" where
  "short_escapes = [(0x22, 0x22), (0x5C, 0x5C), (0x2F, 0x2F), (0x62, 8), (0x66, 0x0C), (0x6E, 0x0A), (0x72, 0x0D), (0x74, 9)]"

text \<open>The texts a character can have in a string.\<close>

inductive char_text :: "int \<Rightarrow> byte list \<Rightarrow> bool" where
  plain: "scalar cp \<Longrightarrow> 0x20 \<le> cp \<Longrightarrow> cp \<noteq> 0x22 \<Longrightarrow> cp \<noteq> 0x5C \<Longrightarrow> char_text cp (utf8_encode cp)"
| short: "(c, cp) \<in> set short_escapes \<Longrightarrow> char_text cp [0x5C, c]"
| escaped: "hex4 h = Some cp \<Longrightarrow> scalar cp \<Longrightarrow> char_text cp (0x5C # 0x75 # h)"
| pair: "hex4 h = Some hi \<Longrightarrow> hex4 l = Some lo \<Longrightarrow> 0xD800 \<le> hi \<Longrightarrow> hi \<le> 0xDBFF \<Longrightarrow> 0xDC00 \<le> lo \<Longrightarrow> lo \<le> 0xDFFF \<Longrightarrow>
    char_text (0x10000 + (hi - 0xD800) * 1024 + (lo - 0xDC00)) (0x5C # 0x75 # h @ 0x5C # 0x75 # l)"

inductive string_text :: "int list \<Rightarrow> byte list \<Rightarrow> bool" where
  empty: "string_text [] []"
| char: "char_text cp t \<Longrightarrow> string_text cps ts \<Longrightarrow> string_text (cp # cps) (t @ ts)"

section \<open>Hexadecimal digits\<close>

lemma hex_digit_bounds: "hex_digit c = Some x \<Longrightarrow> 0 \<le> x \<and> x \<le> 15"
  by (auto simp: hex_digit_def word_le_def split: if_splits)

lemma hex4_bounds: "hex4 h = Some x \<Longrightarrow> 0 \<le> x \<and> x \<le> 0xFFFF"
  by (induction h rule: hex4.induct) (auto split: option.splits dest!: hex_digit_bounds)

lemma codepoint_loop_char:
  assumes "lex_current (lex_get s) = uint c"
  shows "codepoint_loop (f # fs) cp s =
    (case hex_digit c of None \<Rightarrow> (None, lex_get s) | Some x \<Rightarrow> codepoint_loop fs (cp + push_bit f x) (lex_get s))"
  using assms by (auto simp: Let_def hex_digit_def word_le_def)

lemma codepoint_loop_end:
  "lex_current (lex_get s) = EOF \<Longrightarrow> codepoint_loop (f # fs) cp s = (None, lex_get s)"
  by (simp add: Let_def)

text \<open>The digits that the loop reads, and what it makes of them.\<close>

lemma codepoint_loop_reads:
  assumes "codepoint_loop fs cp s = (r, s')" and "lex_ok s"
  shows "token_buffer s' = token_buffer s \<and> (\<exists>bs. consumes s bs s') \<and>
    (\<forall>v. r = Some v \<longrightarrow> (\<exists>h xs. consumes s h s' \<and> map hex_digit h = map Some xs \<and> length h = length fs \<and>
       v = cp + sum_list (map2 push_bit fs xs)))"
  using assms
proof (induction fs arbitrary: cp s)
  case Nil
  then show ?case by (auto intro: exI [of _ "[]"])
next
  case (Cons f fs)
  show ?case
  proof (rule get_cases [OF Cons(3)])
    fix c
    assume c: "lex_current (lex_get s) = uint c" "pending s = c # pending (lex_get s)" "lex_ok (lex_get s)"
    show ?thesis
    proof (cases "hex_digit c")
      case None
      then show ?thesis
        using Cons(2) codepoint_loop_char [OF c(1)] consumes_get_some [OF Cons(3)] by auto
    next
      case (Some x)
      then have "codepoint_loop fs (cp + push_bit f x) (lex_get s) = (r, s')"
        using Cons(2) codepoint_loop_char [OF c(1)] by simp
      note ih = Cons(1) [OF this c(3)]
      have "\<exists>h xs. consumes s h s' \<and> map hex_digit h = map Some xs \<and> length h = length (f # fs) \<and>
          v = cp + sum_list (map2 push_bit (f # fs) xs)" if r: "r = Some v" for v
      proof -
        obtain h xs where "consumes (lex_get s) h s'" "map hex_digit h = map Some xs" "length h = length fs"
          "v = cp + push_bit f x + sum_list (map2 push_bit fs xs)"
          using ih r by blast
        then show ?thesis
          using consumes_step [OF Cons(3) c(2)] Some by (intro exI [of _ "c # h"] exI [of _ "x # xs"]) simp
      qed
      then show ?thesis using ih consumes_some_get [OF Cons(3)] by simp
    qed
  next
    assume "lex_current (lex_get s) = EOF"
    then show ?thesis
      using Cons(2) codepoint_loop_end [of s f fs cp] consumes_get_some [OF Cons(3)] by auto
  qed
qed

lemma push_bits: "push_bit 12 w + (push_bit 8 x + (push_bit 4 y + push_bit 0 z)) = w * 4096 + x * 256 + y * 16 + z"
  for w x y z :: int
  by (simp add: push_bit_eq_mult)

lemma get_codepoint_reads:
  assumes "lex_ok s" "lex_current s = 0x75"
  shows "(\<exists>s' bs. get_codepoint s = Inr (- 1, s') \<and> consumes s bs s' \<and> token_buffer s' = token_buffer s) \<or>
    (\<exists>x h s'. get_codepoint s = Inr (x, s') \<and> hex4 h = Some x \<and> consumes s h s' \<and> token_buffer s' = token_buffer s)"
proof -
  obtain r s' where l: "codepoint_loop [12, 8, 4, 0] 0 s = (r, s')" by (cases "codepoint_loop [12, 8, 4, 0] 0 s")
  note f = codepoint_loop_reads [OF l assms(1)]
  show ?thesis
  proof (cases r)
    case None
    then have "get_codepoint s = Inr (- 1, s')" using l assms(2) by (simp add: get_codepoint_def del: codepoint_loop.simps)
    then show ?thesis using f by blast
  next
    case (Some v)
    then obtain h xs where h: "consumes s h s'" "map hex_digit h = map Some xs" "length h = 4"
        "v = sum_list (map2 push_bit [12, 8, 4, 0] xs)"
      using f by auto
    then obtain a b c d where abcd: "h = [a, b, c, d]" by (auto simp: numeral_eq_Suc length_Suc_conv)
    then obtain w x y z where "xs = [w, x, y, z]" using h(2) by (auto simp: Cons_eq_map_conv)
    then have v: "hex4 h = Some v" using h(2,4) abcd push_bits [of w x y z] by simp
    then have "get_codepoint s = Inr (v, s')"
      using l assms(2) Some hex4_bounds [OF v] by (simp add: get_codepoint_def del: codepoint_loop.simps)
    then show ?thesis using f v h(1) by blast
  qed
qed

lemma get_codepoint_hex4:
  assumes "lex_ok s" "lex_current s = 0x75" "pending s = h @ r" "hex4 h = Some x"
  shows "\<exists>s'. get_codepoint s = Inr (x, s') \<and> consumes s h s' \<and> token_buffer s' = token_buffer s"
proof -
  obtain a b c d where h: "h = [a, b, c, d]" using assms(4) by (cases h rule: hex4.cases) auto
  obtain w x1 y z where d: "hex_digit a = Some w" "hex_digit b = Some x1" "hex_digit c = Some y" "hex_digit d = Some z"
    and x: "x = w * 4096 + x1 * 256 + y * 16 + z"
    using assms(4) by (auto simp: h split: option.splits)
  let ?s1 = "lex_get s" and ?s2 = "lex_get (lex_get s)" and ?s3 = "lex_get (lex_get (lex_get s))"
  let ?s4 = "lex_get ?s3"
  have p: "pending s = a # b # c # d # r" using assms(3) h by simp
  note g1 = consumes_get [OF assms(1) p]
  have o1: "lex_ok ?s1" using g1 by (simp add: consumes_def)
  note g2 = consumes_get [OF o1 conjunct1 [OF conjunct2 [OF g1]]]
  have o2: "lex_ok ?s2" using g2 by (simp add: consumes_def)
  note g3 = consumes_get [OF o2 conjunct1 [OF conjunct2 [OF g2]]]
  have o3: "lex_ok ?s3" using g3 by (simp add: consumes_def)
  note g4 = consumes_get [OF o3 conjunct1 [OF conjunct2 [OF g3]]]
  have "codepoint_loop [12, 8, 4, 0] 0 s = (Some x, ?s4)"
    using g1 g2 g3 g4 d push_bits [of w x1 y z]
    by (simp add: codepoint_loop_char x add.assoc del: codepoint_loop.simps(2))
  then have "get_codepoint s = Inr (x, ?s4)"
    using assms(2) hex4_bounds [OF assms(4)] by (simp add: get_codepoint_def del: codepoint_loop.simps)
  moreover have "consumes s h ?s4"
    unfolding h
    using consumes_step [OF assms(1) p consumes_step [OF o1 conjunct1 [OF conjunct2 [OF g1]]
      consumes_step [OF o2 conjunct1 [OF conjunct2 [OF g2]] conjunct1 [OF g4]]]] .
  ultimately show ?thesis by simp
qed


section \<open>Escapes\<close>

text \<open>
  The scan of one character behind the text \<open>pre\<close> that has been read already: it adds the character, or
  fails.
\<close>

definition reads_char :: "byte list \<Rightarrow> lexer \<Rightarrow> scan_result \<Rightarrow> bool" where
  "reads_char pre s r \<longleftrightarrow>
     (\<exists>cp u s'. r = Inr (None, s') \<and> char_text cp (pre @ u) \<and> consumes s u s' \<and>
        token_buffer s' = token_buffer s @ utf8_encode cp) \<or>
     (\<exists>s' bs. r = Inr (Some parse_error_token, s') \<and> consumes s bs s')"

definition adds_char :: "int \<Rightarrow> byte list \<Rightarrow> lexer \<Rightarrow> scan_result \<Rightarrow> bool" where
  "adds_char cp u s r \<longleftrightarrow> (\<exists>s'. r = Inr (None, s') \<and> consumes s u s' \<and> token_buffer s' = token_buffer s @ utf8_encode cp)"

lemma reads_charI: "adds_char cp u s r \<Longrightarrow> char_text cp (pre @ u) \<Longrightarrow> reads_char pre s r"
  unfolding reads_char_def adds_char_def by blast

lemma reads_char_fails: "consumes s bs s' \<Longrightarrow> reads_char pre s (scan_fails m s')"
  unfolding reads_char_def scan_fails_def by (intro disjI2 exI) auto

lemma adds_char_get:
  "lex_ok s \<Longrightarrow> pending s = c # p \<Longrightarrow> adds_char cp u (lex_get s) r \<Longrightarrow> adds_char cp (c # u) s r"
  unfolding adds_char_def using consumes_step by fastforce

lemma adds_char_trans:
  "consumes s xs s1 \<Longrightarrow> token_buffer s1 = token_buffer s \<Longrightarrow> adds_char cp u s1 r \<Longrightarrow> adds_char cp (xs @ u) s r"
  unfolding adds_char_def using consumes_trans by fastforce

lemma reads_char_get:
  "lex_ok s \<Longrightarrow> pending s = c # p \<Longrightarrow> reads_char (pre @ [c]) (lex_get s) r \<Longrightarrow> reads_char pre s r"
  unfolding reads_char_def using consumes_step [of s c p] by fastforce

lemma finish_codepoint_adds: "scalar cp \<Longrightarrow> lex_ok s \<Longrightarrow> adds_char cp [] s (finish_codepoint cp s)"
  by (auto simp: adds_char_def finish_codepoint_def scalar_def add_codepoint_encodes)

lemma surrogates:
  assumes "0xD800 \<le> hi" "hi \<le> 0xDBFF" "0xDC00 \<le> lo" "lo \<le> 0xDFFF"
  shows "push_bit 10 hi + lo - 0x35FDC00 = 0x10000 + (hi - 0xD800) * 1024 + (lo - 0xDC00)"
    and "scalar (0x10000 + (hi - 0xD800) * 1024 + (lo - 0xDC00))"
  using assms by (simp_all add: push_bit_eq_mult scalar_def)

lemma scan_unicode_one:
  assumes "get_codepoint s = Inr (x, s1)" "hex4 h = Some x" "consumes s h s1" "token_buffer s1 = token_buffer s" "scalar x"
  shows "adds_char x h s (scan_unicode s)"
proof -
  have "x \<noteq> - 1" using assms(5) by (simp add: scalar_def)
  then have "scan_unicode s = finish_codepoint x s1"
    using assms(1,5) by (auto simp: scan_unicode_def scalar_def)
  then show ?thesis
    using adds_char_trans [OF assms(3,4) finish_codepoint_adds [OF assms(5) consumes_ok [OF assms(3)]]] by simp
qed

lemma scan_unicode_pair:
  assumes "get_codepoint s = Inr (hi, s1)" "consumes s h s1" "token_buffer s1 = token_buffer s"
    "0xD800 \<le> hi" "hi \<le> 0xDBFF" "pending s1 = 0x5C # 0x75 # r"
    "get_codepoint (lex_get (lex_get s1)) = Inr (lo, s4)" "consumes (lex_get (lex_get s1)) l s4"
    "token_buffer s4 = token_buffer s1" "0xDC00 \<le> lo" "lo \<le> 0xDFFF"
  shows "adds_char (0x10000 + (hi - 0xD800) * 1024 + (lo - 0xDC00)) (h @ 0x5C # 0x75 # l) s (scan_unicode s)"
proof -
  let ?cp = "0x10000 + (hi - 0xD800) * 1024 + (lo - 0xDC00)"
  have o1: "lex_ok s1" using consumes_ok assms(2) .
  note g2 = consumes_get [OF o1 assms(6)]
  have o2: "lex_ok (lex_get s1)" using g2 consumes_ok by blast
  note p3 = conjunct1 [OF conjunct2 [OF g2]]
  note g3 = consumes_get [OF o2 p3]
  have "scan_unicode s = finish_codepoint ?cp s4"
    using assms(1,4,5,7,10,11) g2 g3 surrogates(1) [OF assms(4,5,10,11)] by (simp add: scan_unicode_def Let_def)
  moreover have "adds_char ?cp l (lex_get (lex_get s1)) (finish_codepoint ?cp s4)"
    using adds_char_trans [OF assms(8) _ finish_codepoint_adds [OF surrogates(2) [OF assms(4,5,10,11)] consumes_ok [OF assms(8)]]]
      assms(9) by simp
  then have "adds_char ?cp (0x5C # 0x75 # l) s1 (finish_codepoint ?cp s4)"
    using adds_char_get [OF o1 assms(6)] adds_char_get [OF o2 p3] by blast
  ultimately show ?thesis using adds_char_trans [OF assms(2,3)] by simp
qed

lemma scan_unicode_reads:
  assumes "lex_ok s" "lex_current s = 0x75"
  shows "reads_char [0x5C, 0x75] s (scan_unicode s)"
  using get_codepoint_reads [OF assms]
proof
  assume "\<exists>s' bs. get_codepoint s = Inr (- 1, s') \<and> consumes s bs s' \<and> token_buffer s' = token_buffer s"
  then show ?thesis using reads_char_fails by (auto simp: scan_unicode_def)
next
  assume "\<exists>x h s'. get_codepoint s = Inr (x, s') \<and> hex4 h = Some x \<and> consumes s h s' \<and> token_buffer s' = token_buffer s"
  then obtain hi h s1 where g: "get_codepoint s = Inr (hi, s1)" "hex4 h = Some hi" "consumes s h s1"
    "token_buffer s1 = token_buffer s" by blast
  have r: "hi \<noteq> - 1" "0 \<le> hi" "hi \<le> 0xFFFF" using hex4_bounds [OF g(2)] by auto
  have fail: "reads_char [0x5C, 0x75] s (scan_fails m s')" if "\<exists>bs. consumes s1 bs s'" for m s'
    using consumes_some_trans [OF g(3) that] reads_char_fails by blast
  consider (scalar) "scalar hi" | (low) "0xDC00 \<le> hi" "hi \<le> 0xDFFF" | (high) "0xD800 \<le> hi" "hi \<le> 0xDBFF"
    using r by (fastforce simp: scalar_def)
  then show ?thesis
  proof cases
    case scalar
    then show ?thesis using reads_charI [OF scan_unicode_one [OF g scalar]] escaped [OF g(2) scalar] by simp
  next
    case low
    then have "scan_unicode s = scan_fails high_surrogate_message s1" using g r by (simp add: scan_unicode_def)
    then show ?thesis using reads_char_fails [OF g(3)] by simp
  next
    case high
    have o1: "lex_ok s1" using consumes_ok g(3) .
    have o2: "lex_ok (lex_get s1)" using o1 by simp
    have some: "\<exists>bs. consumes s1 bs (lex_get s1)" "\<exists>bs. consumes s1 bs (lex_get (lex_get s1))"
      using consumes_get_some [OF o1] consumes_some_get [OF o1 consumes_get_some [OF o2]] by blast+
    show ?thesis
    proof (cases "lex_current (lex_get s1) = 0x5C \<and> lex_current (lex_get (lex_get s1)) = 0x75")
      case False
      then have "scan_unicode s = scan_fails low_surrogate_message (lex_get s1) \<or>
          scan_unicode s = scan_fails low_surrogate_message (lex_get (lex_get s1))"
        using g r high by (auto simp: scan_unicode_def Let_def)
      then show ?thesis using fail [OF some(1)] fail [OF some(2)] by auto
    next
      case True
      then have "pending s1 = 0x5C # pending (lex_get s1)" "pending (lex_get s1) = 0x75 # pending (lex_get (lex_get s1))"
        using get_char [OF o1, of "0x5C"] get_char [OF o2, of "0x75"] by simp_all
      then have ps: "pending s1 = 0x5C # 0x75 # pending (lex_get (lex_get s1))" by simp
      have o3: "lex_ok (lex_get (lex_get s1))" using o2 by simp
      have su: "scan_unicode s = bind_res (get_codepoint (lex_get (lex_get s1))) (\<lambda>(codepoint2, s4).
           if codepoint2 = - 1 then scan_fails hex_digits_message s4
           else if 0xDC00 \<le> codepoint2 \<and> codepoint2 \<le> 0xDFFF
           then finish_codepoint (push_bit 10 hi + codepoint2 - 0x35FDC00) s4
           else scan_fails low_surrogate_message s4)"
        using g r high True by (simp add: scan_unicode_def Let_def)
      have some4: "\<exists>bs. consumes s1 bs s4" if "consumes (lex_get (lex_get s1)) xs s4" for xs s4
        using consumes_some_get [OF o1 consumes_some_get [OF o2]] that by blast
      from get_codepoint_reads [OF o3] True
      consider s4 bs where "get_codepoint (lex_get (lex_get s1)) = Inr (- 1, s4)" "consumes (lex_get (lex_get s1)) bs s4"
        | lo l s4 where "get_codepoint (lex_get (lex_get s1)) = Inr (lo, s4)" "hex4 l = Some lo"
            "consumes (lex_get (lex_get s1)) l s4" "token_buffer s4 = token_buffer s1" by auto
      then show ?thesis
      proof cases
        case 1
        then show ?thesis using su fail [OF some4 [OF 1(2)]] by auto
      next
        case 2
        show ?thesis
        proof (cases "0xDC00 \<le> lo \<and> lo \<le> 0xDFFF")
          case True
          then show ?thesis
            using reads_charI [OF scan_unicode_pair [OF g(1,3,4) high ps 2(1,3,4)]] pair [OF g(2) 2(2) high] by simp
        next
          case False
          then show ?thesis
            using su 2 hex4_bounds [OF 2(2)] fail [OF some4 [OF 2(3)]] by auto
        qed
      qed
    qed
  qed
qed


section \<open>Multi-byte characters\<close>

abbreviation in_ranges :: "(int \<times> int) list \<Rightarrow> int list \<Rightarrow> bool" where
  "in_ranges rs bs \<equiv> list_all2 (\<lambda>(lo, hi) b. lo \<le> b \<and> b \<le> hi) rs bs"

lemma ranges_loop_adds:
  assumes "ranges_loop rs s = (ok, s')" and "lex_ok s" and "\<forall>(lo, hi) \<in> set rs. 0 \<le> lo"
  shows "(\<exists>bs. consumes s bs s') \<and> (ok \<longrightarrow> (\<exists>bs. in_ranges rs bs \<and> consumes s (map word_of_int bs) s' \<and>
    token_buffer s' = token_buffer s @ map word_of_int bs))"
  using assms
proof (induction rs s rule: ranges_loop.induct)
  case (1 s)
  then show ?case by (auto intro: exI [of _ "[]"])
next
  case (2 lo hi rs s)
  let ?c = "lex_current (lex_get s)"
  let ?s = "lex_add ?c (lex_get s)"
  show ?case
  proof (cases "lo \<le> ?c \<and> ?c \<le> hi")
    case False
    then show ?thesis using 2(2) consumes_get_some [OF 2(3)] by (auto simp: Let_def split: if_splits)
  next
    case True
    then have "?c \<noteq> EOF" using 2(4) by auto
    then obtain c where c: "?c = uint c" "pending s = c # pending (lex_get s)"
      using get_cases [OF 2(3)] by metis
    have r: "ranges_loop rs ?s = (ok, s')" using 2(2) True by (simp add: Let_def)
    have ok1: "lex_ok (lex_get s)" using 2(3) by simp
    note ih = 2(1) [OF refl True r]
    have "\<exists>bs. in_ranges ((lo, hi) # rs) bs \<and> consumes s (map word_of_int bs) s' \<and>
        token_buffer s' = token_buffer s @ map word_of_int bs" if k: ok
    proof -
      obtain bs where "in_ranges rs bs" "consumes (lex_get s) (map word_of_int bs) s'"
        "token_buffer s' = token_buffer s @ c # map word_of_int bs"
        using ih ok1 c 2(4) k by auto
      then show ?thesis
        using True c consumes_step [OF 2(3) c(2)] by (intro exI [of _ "uint c # bs"]) simp
    qed
    then show ?thesis using ih ok1 2(4) consumes_some_get [OF 2(3)] by simp
  qed
qed

lemma ranges_loop_accepts:
  assumes "in_ranges rs bs" "lex_ok s" "pending s = map word_of_int bs @ r" "\<forall>b \<in> set bs. 0 \<le> b \<and> b < 256"
  shows "\<exists>s'. ranges_loop rs s = (True, s') \<and> consumes s (map word_of_int bs) s' \<and>
    token_buffer s' = token_buffer s @ map word_of_int bs"
  using assms
proof (induction rs bs arbitrary: s rule: list_all2_induct)
  case Nil
  then show ?case by simp
next
  case (Cons x rs b bs)
  obtain lo hi where x: "x = (lo, hi)" "lo \<le> b" "b \<le> hi" using Cons(1) by (cases x) auto
  have b: "0 \<le> b" "b < 256" using Cons(6) by simp_all
  have p: "pending s = word_of_int b # map word_of_int bs @ r" using Cons(5) by simp
  note g = consumes_get [OF Cons(4) p]
  have c: "lex_current (lex_get s) = b" using g uint_word_of_int8 [OF b] by simp
  let ?s = "lex_add b (lex_get s)"
  have "lex_ok ?s" "pending ?s = map word_of_int bs @ r" using g Cons(4) by simp_all
  then obtain s' where "ranges_loop rs ?s = (True, s')" "consumes ?s (map word_of_int bs) s'"
    "token_buffer s' = token_buffer ?s @ map word_of_int bs"
    using Cons(3) [of ?s] Cons(6) by auto
  then show ?case
    using x c consumes_step [OF Cons(4) p, of "map word_of_int bs" s'] by (auto simp: to_char_type_def)
qed

text \<open>The encoding of a scalar value from 128 on lies in the ranges of its first byte.\<close>

lemma scalar_ranges:
  assumes "scalar cp" "0x80 \<le> cp"
  shows "\<exists>a bs rs. utf8_ints cp = a # bs \<and> 0x80 \<le> a \<and> a < 256 \<and> utf8_ranges a = Some rs \<and> in_ranges rs bs \<and>
    (\<forall>b \<in> set bs. 0x80 \<le> b \<and> b < 0xC0)"
proof -
  have m: "0 \<le> x mod 64 \<and> x mod 64 < 64" for x :: int by simp
  define m where "m = cp div 64"
  define l where "l = m div 64"
  define k where "k = l div 64"
  have mb: "m = l * 64 + m mod 64" "l = k * 64 + l mod 64" by (simp_all add: l_def k_def)
  have d: "cp div 4096 = l" "cp div 262144 = k" by (simp_all add: div_4096 m_def l_def k_def)
  consider "cp < 0x800" | "0x800 \<le> cp" "cp < 0x10000" | "0x10000 \<le> cp" by linarith
  then show ?thesis
  proof cases
    case 1
    have "2 \<le> m" "m < 32" using 1 assms(2) by (simp_all add: m_def)
    then show ?thesis
      using 1 assms m [of cp] by (simp add: utf8_ints_def utf8_ranges_def m_def [symmetric])
  next
    case 2
    have b: "32 \<le> m" "m < 1024" using 2 by (simp_all add: m_def)
    have s: "m < 864 \<or> 896 \<le> m" using assms(1) by (auto simp: scalar_def m_def)
    have l: "0 \<le> l" "l < 16" using b by (simp_all add: l_def)
    have r: "l = 0 \<longrightarrow> 32 \<le> m mod 64" "l = 13 \<longrightarrow> m mod 64 < 32" using mb(1) b s m [of m] by linarith+
    show ?thesis
      using 2 l r m [of m] m [of cp] by (auto simp: utf8_ints_def utf8_ranges_def d m_def [symmetric])
  next
    case 3
    have b: "1024 \<le> m" "m < 17408" using 3 assms(1) by (simp_all add: m_def scalar_def)
    have l: "16 \<le> l" "l < 272" using b by (simp_all add: l_def)
    have k: "0 \<le> k" "k \<le> 4" using l by (simp_all add: k_def)
    have r: "k = 0 \<longrightarrow> 16 \<le> l mod 64" "k = 4 \<longrightarrow> l mod 64 < 16" using mb(2) l m [of l] by linarith+
    show ?thesis
      using 3 k r m [of l] m [of m] m [of cp] by (auto simp: utf8_ints_def utf8_ranges_def d m_def [symmetric])
  qed
qed


section \<open>One character\<close>

lemma encode_ascii: "0 \<le> cp \<Longrightarrow> cp < 0x80 \<Longrightarrow> utf8_encode cp = [to_char_type cp]"
  by (simp add: utf8_encode_def utf8_ints_def to_char_type_def)

lemma adds_char_add:
  "lex_ok s \<Longrightarrow> 0 \<le> cp \<Longrightarrow> cp < 0x80 \<Longrightarrow> adds_char cp [] s (Inr (None, lex_add cp s))"
  by (simp add: adds_char_def encode_ascii)

lemma short_escapes_ascii: "(c, cp) \<in> set short_escapes \<Longrightarrow> 0 \<le> cp \<and> cp < 0x80 \<and> scalar cp"
  by (auto simp: short_escapes_def scalar_def)

lemma short_escapes_from:
  assumes "c \<in> {0x22, 0x5C, 0x2F, 0x62, 0x66, 0x6E, 0x72, 0x74}"
  shows "\<exists>cp. (c, cp) \<in> set short_escapes"
  using assms by (auto simp: short_escapes_def)

lemma scan_escape_short:
  assumes "lex_ok s" "pending s = c # r" "(c, cp) \<in> set short_escapes"
  shows "adds_char cp [c] s (scan_escape s)"
proof -
  note g = consumes_get [OF assms(1,2)]
  have "scan_escape s = Inr (None, lex_add cp (lex_get s))"
    using g assms(3) by (auto simp: scan_escape_def short_escapes_def)
  moreover have "lex_ok (lex_get s)" using assms(1) by simp
  ultimately show ?thesis
    using adds_char_get [OF assms(1,2) adds_char_add] short_escapes_ascii [OF assms(3)] by simp
qed

lemma scan_escape_reads:
  assumes "lex_ok s"
  shows "reads_char [0x5C] s (scan_escape s)"
proof (cases "\<exists>c cp. lex_current (lex_get s) = uint c \<and> (c, cp) \<in> set short_escapes")
  case True
  then obtain c cp where "lex_current (lex_get s) = uint c" and e: "(c, cp) \<in> set short_escapes" by blast
  then have "pending s = c # pending (lex_get s)" using get_char [OF assms] by blast
  then show ?thesis using reads_charI [OF scan_escape_short [OF assms _ e]] short [OF e] by simp
next
  case False
  then have n: "uint c \<noteq> lex_current (lex_get s)" if "c \<in> {0x22, 0x5C, 0x2F, 0x62, 0x66, 0x6E, 0x72, 0x74}" for c :: byte
    using short_escapes_from [OF that] by metis
  let ?c = "lex_current (lex_get s)"
  have c: "?c \<noteq> 0x22" "?c \<noteq> 0x5C" "?c \<noteq> 0x2F" "?c \<noteq> 0x62" "?c \<noteq> 0x66" "?c \<noteq> 0x6E" "?c \<noteq> 0x72" "?c \<noteq> 0x74"
    using n [of "0x22"] n [of "0x5C"] n [of "0x2F"] n [of "0x62"] n [of "0x66"] n [of "0x6E"] n [of "0x72"] n [of "0x74"]
    by auto
  show ?thesis
  proof (cases "?c = 0x75")
    case True
    then have "pending s = 0x75 # pending (lex_get s)" using get_char [OF assms, of "0x75"] by simp
    then have "reads_char [0x5C] s (scan_unicode (lex_get s))"
      using reads_char_get [OF assms] scan_unicode_reads [of "lex_get s"] True assms by simp
    then show ?thesis using c True by (simp add: scan_escape_def)
  next
    case False
    then have "scan_escape s = scan_fails ''invalid string: forbidden character after backslash'' (lex_get s)"
      using c by (simp add: scan_escape_def Let_def)
    then show ?thesis using consumes_get_some [OF assms] reads_char_fails by auto
  qed
qed

lemma scan_escape_u:
  "lex_ok s \<Longrightarrow> pending s = 0x75 # r \<Longrightarrow> adds_char cp u (lex_get s) (scan_unicode (lex_get s)) \<Longrightarrow>
    adds_char cp (0x75 # u) s (scan_escape s)"
  using adds_char_get [of s "0x75" r cp u "scan_unicode (lex_get s)"] consumes_get [of s "0x75" r]
  by (simp add: scan_escape_def)

lemma scan_escape_escaped:
  assumes "lex_ok s" "pending s = 0x75 # h @ r" "hex4 h = Some cp" "scalar cp"
  shows "adds_char cp (0x75 # h) s (scan_escape s)"
proof -
  note g = consumes_get [OF assms(1,2)]
  obtain s1 where "get_codepoint (lex_get s) = Inr (cp, s1)" "consumes (lex_get s) h s1"
    "token_buffer s1 = token_buffer (lex_get s)"
    using get_codepoint_hex4 [of "lex_get s" h r cp] g assms(1,3) by auto
  then show ?thesis using scan_escape_u [OF assms(1,2)] scan_unicode_one assms(3,4) by blast
qed

lemma scan_escape_pair:
  assumes "lex_ok s" "pending s = 0x75 # h @ 0x5C # 0x75 # l @ r" "hex4 h = Some hi" "hex4 l = Some lo"
    "0xD800 \<le> hi" "hi \<le> 0xDBFF" "0xDC00 \<le> lo" "lo \<le> 0xDFFF"
  shows "adds_char (0x10000 + (hi - 0xD800) * 1024 + (lo - 0xDC00)) (0x75 # h @ 0x5C # 0x75 # l) s (scan_escape s)"
proof -
  note g = consumes_get [OF assms(1,2)]
  obtain s1 where s1: "get_codepoint (lex_get s) = Inr (hi, s1)" "consumes (lex_get s) h s1"
    "token_buffer s1 = token_buffer (lex_get s)"
    using get_codepoint_hex4 [of "lex_get s" h "0x5C # 0x75 # l @ r" hi] g assms(1,3) by auto
  have o1: "lex_ok s1" using consumes_ok s1(2) .
  have p1: "pending s1 = 0x5C # 0x75 # l @ r" using s1(2) g by (simp add: consumes_def)
  note g2 = consumes_get [OF o1 p1]
  have o2: "lex_ok (lex_get s1)" using o1 by simp
  note g3 = consumes_get [OF o2 conjunct1 [OF conjunct2 [OF g2]]]
  obtain s4 where "get_codepoint (lex_get (lex_get s1)) = Inr (lo, s4)" "consumes (lex_get (lex_get s1)) l s4"
    "token_buffer s4 = token_buffer s1"
    using get_codepoint_hex4 [of "lex_get (lex_get s1)" l r lo] g3 o2 assms(4) by auto
  then show ?thesis
    using scan_escape_u [OF assms(1,2) scan_unicode_pair [OF s1 assms(5,6) p1 _ _ _ assms(7,8)]] by blast
qed

text \<open>Every text of a character is read as that character.\<close>

lemma string_round_escape:
  "lex_ok s \<Longrightarrow> pending s = 0x5C # r \<Longrightarrow> adds_char cp u (lex_get s) (scan_escape (lex_get s)) \<Longrightarrow>
    adds_char cp (0x5C # u) s (string_round s)"
  using adds_char_get [of s "0x5C" r cp u "scan_escape (lex_get s)"] consumes_get [of s "0x5C" r]
  by (simp add: string_round_def)

lemma string_round_plain:
  assumes "lex_ok s" "pending s = utf8_encode cp @ r" "scalar cp" "0x20 \<le> cp" "cp \<noteq> 0x22" "cp \<noteq> 0x5C"
  shows "adds_char cp (utf8_encode cp) s (string_round s)"
proof (cases "cp < 0x80")
  case True
  then have e: "utf8_encode cp = [to_char_type cp]" using assms(4) encode_ascii by simp
  have u: "uint (to_char_type cp) = cp" using True assms(4) uint_word_of_int8 [of cp] by (simp add: to_char_type_def)
  have p: "pending s = to_char_type cp # r" using assms(2) e by simp
  then have "string_round s = Inr (None, lex_add cp (lex_get s))"
    using consumes_get [OF assms(1) p] u True assms(4-6) by (simp add: string_round_def)
  then show ?thesis
    using adds_char_get [OF assms(1) p adds_char_add [of "lex_get s" cp]] assms(1,4) True e by simp
next
  case False
  then obtain a bs rs where ab: "utf8_ints cp = a # bs" "0x80 \<le> a" "a < 256" "utf8_ranges a = Some rs" "in_ranges rs bs"
    "\<forall>b \<in> set bs. 0x80 \<le> b \<and> b < 0xC0"
    using scalar_ranges [OF assms(3)] by auto
  have p: "pending s = word_of_int a # map word_of_int bs @ r" using assms(2) ab(1) by (simp add: utf8_encode_def)
  note g = consumes_get [OF assms(1) p]
  have c: "lex_current (lex_get s) = a" using g uint_word_of_int8 [of a] ab(2,3) by simp
  let ?s = "lex_add a (lex_get s)"
  have bs: "\<forall>b \<in> set bs. 0 \<le> b \<and> b < 256" using ab(6) by fastforce
  obtain s' where s': "ranges_loop rs ?s = (True, s')" "consumes ?s (map word_of_int bs) s'"
    "token_buffer s' = token_buffer ?s @ map word_of_int bs"
    using ranges_loop_accepts [OF ab(5), of ?s r] assms(1) g bs by auto
  then have "string_round s = Inr (None, s')"
    using c ab(2,3,4) by (simp add: string_round_def next_byte_in_range_def)
  then show ?thesis
    using s' consumes_step [OF assms(1) p] ab(1) by (auto simp: adds_char_def utf8_encode_def to_char_type_def)
qed

lemma string_round_accepts:
  assumes "char_text cp t" "lex_ok s" "pending s = t @ r"
  shows "adds_char cp t s (string_round s)"
  using assms(1)
proof cases
  case plain
  then show ?thesis using string_round_plain [of s cp r] assms(2,3) by simp
next
  case (short c)
  then have p: "pending s = 0x5C # c # r" using assms(3) by simp
  then show ?thesis
    using string_round_escape [OF assms(2) p scan_escape_short [of "lex_get s" c r cp]] consumes_get [OF assms(2) p]
      assms(2) short by simp
next
  case (escaped h)
  then have p: "pending s = 0x5C # 0x75 # h @ r" using assms(3) by simp
  then show ?thesis
    using string_round_escape [OF assms(2) p scan_escape_escaped [of "lex_get s" h r cp]] consumes_get [OF assms(2) p]
      assms(2) escaped by simp
next
  case (pair h hi l lo)
  then have p: "pending s = 0x5C # 0x75 # h @ 0x5C # 0x75 # l @ r" using assms(3) by simp
  then show ?thesis
    using string_round_escape [OF assms(2) p scan_escape_pair [of "lex_get s" h l r hi lo]] consumes_get [OF assms(2) p]
      assms(2) pair by simp
qed


section \<open>The loop\<close>

lemma utf8_ranges_lower: "utf8_ranges a = Some rs \<Longrightarrow> \<forall>(lo, hi) \<in> set rs. 0x80 \<le> lo"
  by (auto simp: utf8_ranges_def split: if_splits)

lemma next_byte_reads:
  assumes "lex_ok s" "lex_current (lex_get s) = uint c" "pending s = c # p" "0x80 \<le> uint c" "utf8_ranges (uint c) = Some rs"
    and n: "next_byte_in_range rs (lex_get s) = (ok, s')"
  shows "reads_char [] s (Inr (if ok then None else Some parse_error_token, s'))"
proof -
  let ?s = "lex_add (uint c) (lex_get s)"
  have "\<forall>(lo, hi) \<in> set rs. 0 \<le> lo" using utf8_ranges_lower [OF assms(5)] by fastforce
  then have r: "(\<exists>bs. consumes ?s bs s') \<and> (ok \<longrightarrow> (\<exists>bs. in_ranges rs bs \<and> consumes ?s (map word_of_int bs) s' \<and>
    token_buffer s' = token_buffer ?s @ map word_of_int bs))"
    using ranges_loop_adds [of rs ?s ok s'] n assms(1,2) by (simp add: next_byte_in_range_def)
  show ?thesis
  proof (cases ok)
    case False
    obtain bs where "consumes (lex_get s) bs s'" using r by auto
    then show ?thesis using consumes_step [OF assms(1,3)] False by (auto simp: reads_char_def)
  next
    case True
    then obtain bs where bs: "in_ranges rs bs" "consumes (lex_get s) (map word_of_int bs) s'"
      "token_buffer s' = token_buffer s @ c # map word_of_int bs" using r by auto
    obtain cp where cp: "scalar cp" "utf8_ints cp = uint c # bs" using ranges_scalar [OF assms(5) bs(1)] by blast
    then have "utf8_encode cp = c # map word_of_int bs" by (simp add: utf8_encode_def)
    moreover have "0x80 \<le> cp"
      using cp assms(4) by (auto simp: utf8_ints_def split: if_splits)
    then have "char_text cp (utf8_encode cp)" using plain [OF cp(1)] by simp
    ultimately show ?thesis
      using True bs consumes_step [OF assms(1,3) bs(2)]
      unfolding reads_char_def by (intro disjI1 exI [of _ cp] exI [of _ "c # map word_of_int bs"]) auto
  qed
qed

lemma string_round_reads:
  assumes "lex_ok s"
  shows "reads_char [] s (string_round s) \<or>
    (\<exists>s'. string_round s = Inr (Some value_string, s') \<and> consumes s [0x22] s' \<and> token_buffer s' = token_buffer s)"
proof (rule get_cases [OF assms])
  assume "lex_current (lex_get s) = EOF"
  then have "string_round s = scan_fails ''invalid string: missing closing quote'' (lex_get s)"
    by (simp add: string_round_def)
  then show ?thesis using consumes_get_some [OF assms] reads_char_fails by auto
next
  fix c
  assume c: "lex_current (lex_get s) = uint c" "pending s = c # pending (lex_get s)"
  have fails: "reads_char [] s (scan_fails m (lex_get s))" for m
    using consumes_get_some [OF assms] reads_char_fails by blast
  have c0: "uint c \<noteq> EOF" using uint_byte [of c] by linarith
  consider "uint c = 0x22" | "uint c = 0x5C" | "uint c \<le> 0x1F" | "0x20 \<le> uint c" "uint c \<le> 0x7F" "uint c \<noteq> 0x22" "uint c \<noteq> 0x5C"
    | "0x80 \<le> uint c" by linarith
  then show ?thesis
  proof cases
    case 1
    then have "c = 0x22" by (simp add: word_uint_eq_iff)
    moreover have "string_round s = Inr (Some value_string, lex_get s)" using c(1) 1 by (simp add: string_round_def)
    ultimately show ?thesis using consumes_get [OF assms c(2)] by simp
  next
    case 2
    then have "c = 0x5C" by (simp add: word_uint_eq_iff)
    moreover have "string_round s = scan_escape (lex_get s)" using c(1) 2 by (simp add: string_round_def)
    ultimately show ?thesis
      using reads_char_get [OF assms, of "0x5C" "pending (lex_get s)" "[]"] scan_escape_reads [of "lex_get s"] assms c(2) by simp
  next
    case 3
    then have "string_round s = scan_fails (control_message (nat (uint c))) (lex_get s)"
      using c(1) c0 by (simp add: string_round_def)
    then show ?thesis using fails by simp
  next
    case 4
    then have "string_round s = Inr (None, lex_add (uint c) (lex_get s))" using c(1) by (simp add: string_round_def)
    moreover have "adds_char (uint c) [c] s (Inr (None, lex_add (uint c) (lex_get s)))"
      using adds_char_get [OF assms c(2) adds_char_add] 4 assms by simp
    moreover have "char_text (uint c) [c]"
      using plain [of "uint c"] 4 encode_ascii [of "uint c"] by (simp add: scalar_def)
    ultimately show ?thesis using reads_charI [of "uint c" "[c]" s _ "[]"] by simp
  next
    case 5
    show ?thesis
    proof (cases "utf8_ranges (uint c)")
      case None
      then have "string_round s = scan_fails ''invalid string: ill-formed UTF-8 byte'' (lex_get s)"
        using c(1) 5 by (simp add: string_round_def)
      then show ?thesis using fails by simp
    next
      case (Some rs)
      obtain ok s' where n: "next_byte_in_range rs (lex_get s) = (ok, s')" by (cases "next_byte_in_range rs (lex_get s)")
      then have "string_round s = Inr (if ok then None else Some parse_error_token, s')"
        using c(1) 5 Some by (simp add: string_round_def)
      then show ?thesis using next_byte_reads [OF assms c 5 Some n] by simp
    qed
  qed
qed

lemma scan_string_loop_reads:
  assumes "lex_ok s"
  shows "(\<exists>s' bs. scan_string_loop s = Inr (parse_error_token, s') \<and> consumes s bs s') \<or>
    (\<exists>cps t s'. scan_string_loop s = Inr (value_string, s') \<and> string_text cps t \<and> consumes s (t @ [0x22]) s' \<and>
       token_buffer s' = token_buffer s @ encode_text cps)"
  using assms
proof (induction s rule: scan_string_loop.induct)
  case (1 s)
  from string_round_reads [OF 1(2)]
  consider (more) cp u s1 where "string_round s = Inr (None, s1)" "char_text cp u" "consumes s u s1"
      "token_buffer s1 = token_buffer s @ utf8_encode cp"
    | (fail) s1 bs where "string_round s = Inr (Some parse_error_token, s1)" "consumes s bs s1"
    | (quote) s1 where "string_round s = Inr (Some value_string, s1)" "consumes s [0x22] s1" "token_buffer s1 = token_buffer s"
    by (auto simp: reads_char_def)
  then show ?case
  proof cases
    case more
    note ih = 1(1) [OF more(1) refl refl consumes_ok [OF more(3)]]
    have loop: "scan_string_loop s = scan_string_loop s1" using more(1) by (subst scan_string_loop.simps) simp
    from ih show ?thesis
    proof
      assume "\<exists>s' bs. scan_string_loop s1 = Inr (parse_error_token, s') \<and> consumes s1 bs s'"
      then show ?thesis using loop consumes_trans [OF more(3)] by auto
    next
      assume "\<exists>cps t s'. scan_string_loop s1 = Inr (value_string, s') \<and> string_text cps t \<and> consumes s1 (t @ [0x22]) s' \<and>
         token_buffer s' = token_buffer s1 @ encode_text cps"
      then obtain cps t s' where "scan_string_loop s1 = Inr (value_string, s')" "string_text cps t"
        "consumes s1 (t @ [0x22]) s'" "token_buffer s' = token_buffer s1 @ encode_text cps" by blast
      then show ?thesis
        using loop consumes_trans [OF more(3), of "t @ [0x22]" s'] more(4) char [OF more(2)]
        by (intro disjI2 exI [of _ "cp # cps"] exI [of _ "u @ t"] exI [of _ s']) simp
    qed
  next
    case fail
    then have "scan_string_loop s = Inr (parse_error_token, s1)" by (subst scan_string_loop.simps) simp
    then show ?thesis using fail(2) by blast
  next
    case quote
    then have "scan_string_loop s = Inr (value_string, s1)" by (subst scan_string_loop.simps) simp
    then show ?thesis
      using quote by (intro disjI2 exI [of _ "[]"] exI [of _ s1]) (simp add: string_text.empty)
  qed
qed

lemma scan_string_loop_accepts:
  assumes "string_text cps t" "lex_ok s" "pending s = t @ 0x22 # r"
  shows "\<exists>s'. scan_string_loop s = Inr (value_string, s') \<and> consumes s (t @ [0x22]) s' \<and>
    token_buffer s' = token_buffer s @ encode_text cps"
  using assms
proof (induction cps t arbitrary: s rule: string_text.induct)
  case empty
  then have p: "pending s = 0x22 # r" by simp
  have "string_round s = Inr (Some value_string, lex_get s)"
    using consumes_get [OF empty(1) p] by (simp add: string_round_def)
  then have "scan_string_loop s = Inr (value_string, lex_get s)" by (subst scan_string_loop.simps) simp
  then show ?case using consumes_get [OF empty(1) p] by simp
next
  case (char cp t cps ts)
  have "adds_char cp t s (string_round s)" using string_round_accepts [OF char(1,4)] char(5) by simp
  then obtain s1 where s1: "string_round s = Inr (None, s1)" "consumes s t s1" "token_buffer s1 = token_buffer s @ utf8_encode cp"
    by (auto simp: adds_char_def)
  have "pending s1 = ts @ 0x22 # r" using s1(2) char(5) by (simp add: consumes_def)
  then obtain s' where s': "scan_string_loop s1 = Inr (value_string, s')" "consumes s1 (ts @ [0x22]) s'"
    "token_buffer s' = token_buffer s1 @ encode_text cps"
    using char(3) consumes_ok [OF s1(2)] by blast
  have "scan_string_loop s = scan_string_loop s1" using s1(1) by (subst scan_string_loop.simps) simp
  then show ?case using s' s1(3) consumes_trans [OF s1(2) s'(2)] by simp
qed

lemma reset_frame [simp]:
  "lex_ok (reset s) = lex_ok s" "consumes (reset s) bs s' = consumes s bs s'" "pending (reset s) = pending s"
  "token_buffer (reset s) = []" "lex_current (reset s) = lex_current s"
  by (simp_all add: reset_def lex_ok_def consumes_def pending_def)

lemma scan_string_reads:
  assumes "lex_ok s" "lex_current s = 0x22"
  shows "(\<exists>s' bs. scan_string s = Inr (parse_error_token, s') \<and> consumes s bs s') \<or>
    (\<exists>cps t s'. scan_string s = Inr (value_string, s') \<and> string_text cps t \<and> consumes s (t @ [0x22]) s' \<and>
       token_buffer s' = encode_text cps)"
  using scan_string_loop_reads [of "reset s"] assms by (simp add: scan_string_def Let_def)

lemma scan_string_accepts:
  assumes "string_text cps t" "lex_ok s" "lex_current s = 0x22" "pending s = t @ 0x22 # r"
  shows "\<exists>s'. scan_string s = Inr (value_string, s') \<and> consumes s (t @ [0x22]) s' \<and> token_buffer s' = encode_text cps"
  using scan_string_loop_accepts [OF assms(1), of "reset s" r] assms by (simp add: scan_string_def Let_def)

lemma char_text_scalar: "char_text cp t \<Longrightarrow> scalar cp"
  by (induction cp t rule: char_text.induct) (auto simp: short_escapes_def scalar_def)

lemma string_text_scalar: "string_text cps t \<Longrightarrow> \<forall>cp \<in> set cps. scalar cp"
  by (induction cps t rule: string_text.induct) (auto dest: char_text_scalar)

lemma string_text_valid: "string_text cps t \<Longrightarrow> valid_utf8 (encode_text cps)"
  unfolding valid_utf8_def using string_text_scalar by blast

end
