(* ===== verification/Json_Decoder.thy ===== *)
theory Json_Decoder
  imports Json_Serializer Json_Strings
begin

text \<open>
  The decoder of \<open>src/nlohmann/detail/output/serializer.hpp\<close>, \<open>decode\<close> with its table, is a state machine
  for UTF-8: its states are the byte ranges that are still to come, its code point is the one encoded.
\<close>

section \<open>The table\<close>

text \<open>The classes of bytes, and the states by the ranges of the bytes that complete a character.\<close>

definition byte_class :: "byte \<Rightarrow> nat" where
  "byte_class b =
     (if b < 0x80 then 0 else if b < 0x90 then 1 else if b < 0xA0 then 9 else if b < 0xC0 then 7 else if b < 0xC2 then 8
      else if b < 0xE0 then 2 else if b = 0xE0 then 10 else if b = 0xED then 4 else if b < 0xF0 then 3
      else if b = 0xF0 then 11 else if b < 0xF4 then 6 else if b = 0xF4 then 5 else 8)"

definition decoder_state :: "(int \<times> int) list \<Rightarrow> byte" where
  "decoder_state rs =
     (if rs = [] then 0 else if rs = [(0x80, 0xBF)] then 2 else if rs = [(0x80, 0xBF), (0x80, 0xBF)] then 3
      else if rs = [(0xA0, 0xBF), (0x80, 0xBF)] then 4 else if rs = [(0x80, 0x9F), (0x80, 0xBF)] then 5
      else if rs = [(0x90, 0xBF), (0x80, 0xBF), (0x80, 0xBF)] then 6
      else if rs = [(0x80, 0xBF), (0x80, 0xBF), (0x80, 0xBF)] then 7
      else if rs = [(0x80, 0x8F), (0x80, 0xBF), (0x80, 0xBF)] then 8 else 1)"

definition decoder_ranges :: "(int \<times> int) list list" where
  "decoder_ranges = [[(0x80, 0xBF)], [(0x80, 0xBF), (0x80, 0xBF)], [(0xA0, 0xBF), (0x80, 0xBF)], [(0x80, 0x9F), (0x80, 0xBF)],
     [(0x90, 0xBF), (0x80, 0xBF), (0x80, 0xBF)], [(0x80, 0xBF), (0x80, 0xBF), (0x80, 0xBF)],
     [(0x80, 0x8F), (0x80, 0xBF), (0x80, 0xBF)]]"

lemma utf8d_classes: "take 256 utf8d = map (\<lambda>n. word_of_nat (byte_class (word_of_nat n))) [0..<256]"
  by code_simp

lemma utf8d_class: "utf8d ! unat b = word_of_nat (byte_class b)"
proof -
  have l: "unat b < 256" using unsigned_less [of b] by simp
  have "utf8d ! unat b = take 256 utf8d ! unat b" using l by simp
  also have "\<dots> = word_of_nat (byte_class b)" unfolding utf8d_classes using l by simp
  finally show ?thesis .
qed

lemma unat_class: "unat (word_of_nat (byte_class b) :: byte) = byte_class b"
  by (simp add: byte_class_def)

definition transitions :: "byte list" where
  "transitions = drop 256 utf8d"

lemma transitions_code: "transitions =
    [0, 1, 2, 3, 5, 8, 7, 1, 1, 1, 4, 6, 1, 1, 1, 1, 1, 1, 1, 1, 1, 1, 1, 1, 1, 1, 1, 1, 1, 1, 1, 1,
     1, 0, 1, 1, 1, 1, 1, 0, 1, 0, 1, 1, 1, 1, 1, 1, 1, 2, 1, 1, 1, 1, 1, 2, 1, 2, 1, 1, 1, 1, 1, 1,
     1, 1, 1, 1, 1, 1, 1, 2, 1, 1, 1, 1, 1, 1, 1, 1, 1, 2, 1, 1, 1, 1, 1, 1, 1, 2, 1, 1, 1, 1, 1, 1,
     1, 1, 1, 1, 1, 1, 1, 3, 1, 3, 1, 1, 1, 1, 1, 1, 1, 3, 1, 1, 1, 1, 1, 3, 1, 3, 1, 1, 1, 1, 1, 1,
     1, 3, 1, 1, 1, 1, 1, 1, 1, 1, 1, 1, 1, 1, 1, 1]"
  by (simp add: transitions_def utf8d_def)

lemma length_utf8d: "length utf8d = 400"
  by (simp add: utf8d_def)

lemma decode_step:
  assumes "unat st \<le> 8"
  shows "decode st cp b = Inr (transitions ! (unat st * 16 + byte_class b),
    if st \<noteq> UTF8_ACCEPT then (ucast b AND 0x3F) OR push_bit 6 cp else drop_bit (byte_class b) 0xFF AND ucast b)"
proof -
  have "byte_class b < 12" by (simp add: byte_class_def)
  then show ?thesis
    using assms by (simp add: decode_def utf8d_class unat_class transitions_def length_utf8d add.assoc Let_def)
qed

text \<open>From the accepting state: an ASCII character, the first byte of a longer one, or no first byte.\<close>


lemmas byte_order = word_less_def word_le_def word_uint_eq_iff

lemma transition_first:
  "transitions ! byte_class b =
    (if b < 0x80 then 0 else case utf8_ranges (uint b) of Some rs \<Rightarrow> decoder_state rs | None \<Rightarrow> 1)"
  by (auto simp: byte_class_def utf8_ranges_def transitions_code decoder_state_def byte_order)

lemma transition_next:
  assumes "(lo, hi) # rs \<in> set decoder_ranges"
  shows "transitions ! (unat (decoder_state ((lo, hi) # rs)) * 16 + byte_class b) =
    (if lo \<le> uint b \<and> uint b \<le> hi then decoder_state rs else 1)"
proof -
  consider "(lo, hi) # rs = [(0x80, 0xBF)]" | "(lo, hi) # rs = [(0x80, 0xBF), (0x80, 0xBF)]"
    | "(lo, hi) # rs = [(0xA0, 0xBF), (0x80, 0xBF)]" | "(lo, hi) # rs = [(0x80, 0x9F), (0x80, 0xBF)]"
    | "(lo, hi) # rs = [(0x90, 0xBF), (0x80, 0xBF), (0x80, 0xBF)]" | "(lo, hi) # rs = [(0x80, 0xBF), (0x80, 0xBF), (0x80, 0xBF)]"
    | "(lo, hi) # rs = [(0x80, 0x8F), (0x80, 0xBF), (0x80, 0xBF)]"
    using assms by (auto simp: decoder_ranges_def)
  then show ?thesis
    by cases (auto simp: byte_class_def transitions_code decoder_state_def byte_order)
qed

lemma decoder_state_bounds: "unat (decoder_state rs) \<le> 8"
  by (simp add: decoder_state_def)

lemma decoder_state_open: "rs \<in> set decoder_ranges \<Longrightarrow> decoder_state rs \<noteq> 0 \<and> decoder_state rs \<noteq> 1"
  by (auto simp: decoder_ranges_def decoder_state_def)

lemma decoder_ranges_tl: "r # rs \<in> set decoder_ranges \<Longrightarrow> rs = [] \<or> rs \<in> set decoder_ranges"
  by (auto simp: decoder_ranges_def)

lemma utf8_ranges_decoder: "utf8_ranges a = Some rs \<Longrightarrow> rs \<in> set decoder_ranges"
  by (auto simp: utf8_ranges_def decoder_ranges_def split: if_splits)

section \<open>The code point\<close>

text \<open>The payload of a first byte.\<close>

definition payload :: "int \<Rightarrow> int" where
  "payload a = (if a < 0x80 then a else if a < 0xE0 then a - 0xC0 else if a < 0xF0 then a - 0xE0 else a - 0xF0)"

lemma first_payload_all: "list_all (\<lambda>n. let b = word_of_int n :: byte in
    utf8_ranges n = None \<and> 0x80 \<le> n \<or> uint (drop_bit (byte_class b) 0xFF AND ucast b :: u32) = payload n) [0..255]"
  by code_simp

lemma first_payload:
  assumes "b < 0x80 \<or> utf8_ranges (uint b) \<noteq> None"
  shows "uint (drop_bit (byte_class b) 0xFF AND ucast b :: u32) = payload (uint b)"
proof -
  have "uint b \<in> set [0..255]" using uint_byte [of b] by simp
  then have "let c = word_of_int (uint b) :: byte in utf8_ranges (uint b) = None \<and> 0x80 \<le> uint b \<or>
      uint (drop_bit (byte_class c) 0xFF AND ucast c :: u32) = payload (uint b)"
    using first_payload_all unfolding list_all_iff by blast
  then show ?thesis using assms by (auto simp: byte_order)
qed

lemma next_payload:
  fixes b :: byte and cp :: u32
  assumes "uint cp < 2 ^ 26"
  shows "uint ((ucast b AND 0x3F) OR push_bit 6 cp) = uint cp * 64 + uint b mod 64"
proof -
  have p: "uint (push_bit 6 cp) = uint cp * 64"
    using assms by (simp add: push_bit_eq_mult uint_word_ariths)
  have u: "uint (ucast b AND 0x3F :: u32) = uint b AND 0x3F"
    using uint_byte [of b] by (simp add: unsigned_and_eq unsigned_ucast_eq take_bit_int_eq_self)
  have "take_bit 6 (uint b) AND push_bit 6 (uint cp) = 0"
    by (rule bit_eqI) (auto simp: bit_simps)
  then have "take_bit 6 (uint b) OR push_bit 6 (uint cp) = take_bit 6 (uint b) + push_bit 6 (uint cp)"
    by (simp add: disjunctive_add_eq_or)
  then have "(uint b mod 64) OR (uint cp * 64) = uint b mod 64 + uint cp * 64"
    by (simp add: take_bit_eq_mod push_bit_eq_mult)
  then show ?thesis by (simp add: unsigned_or_eq p u and_63)
qed


section \<open>Characters\<close>

lemma decode_start:
  assumes "b < 0x80 \<or> utf8_ranges (uint b) \<noteq> None"
  shows "\<exists>cp'. decode UTF8_ACCEPT cp b =
      Inr (if b < 0x80 then UTF8_ACCEPT else decoder_state (the (utf8_ranges (uint b))), cp') \<and> uint cp' = payload (uint b)"
proof -
  have "unat UTF8_ACCEPT = 0" by (simp add: UTF8_ACCEPT_def)
  then show ?thesis
    using decode_step [of UTF8_ACCEPT cp b] transition_first [of b] first_payload [OF assms] assms
    by (auto simp: UTF8_ACCEPT_def)
qed

lemma decode_no_start:
  assumes "\<not> b < 0x80" "utf8_ranges (uint b) = None"
  shows "\<exists>cp'. decode UTF8_ACCEPT cp b = Inr (UTF8_REJECT, cp')"
  using decode_step [of UTF8_ACCEPT cp b] transition_first [of b] assms
  by (simp add: UTF8_ACCEPT_def UTF8_REJECT_def)

lemma decode_next:
  assumes "(lo, hi) # rs \<in> set decoder_ranges" "lo \<le> uint b" "uint b \<le> hi" "uint cp < 2 ^ 26"
  shows "\<exists>cp'. decode (decoder_state ((lo, hi) # rs)) cp b = Inr (decoder_state rs, cp') \<and> uint cp' = uint cp * 64 + uint b mod 64"
proof -
  have "decoder_state ((lo, hi) # rs) \<noteq> UTF8_ACCEPT"
    using decoder_state_open [OF assms(1)] by (simp add: UTF8_ACCEPT_def)
  then show ?thesis
    using decode_step [OF decoder_state_bounds] transition_next [OF assms(1)] assms(2,3) next_payload [OF assms(4)] by simp
qed

lemma decode_reject:
  assumes "(lo, hi) # rs \<in> set decoder_ranges" "\<not> (lo \<le> uint b \<and> uint b \<le> hi)"
  shows "\<exists>cp'. decode (decoder_state ((lo, hi) # rs)) cp b = Inr (UTF8_REJECT, cp')"
  using decode_step [OF decoder_state_bounds, of "(lo, hi) # rs" cp b] transition_next [OF assms(1), of b] assms(2)
  by (auto simp: UTF8_REJECT_def)

text \<open>The value of a first byte with the payloads of those that follow.\<close>

definition code_value :: "int \<Rightarrow> int list \<Rightarrow> int" where
  "code_value = foldl (\<lambda>n b. n * 64 + b mod 64)"

lemma code_value_simps [simp]:
  "code_value n [] = n" "code_value n (b # bs) = code_value (n * 64 + b mod 64) bs"
  by (simp_all add: code_value_def)

lemma payload_value:
  assumes "scalar cp" "utf8_ints cp = a # bs"
  shows "code_value (payload a) bs = cp" and "0 \<le> payload a" and "length bs \<le> 3" and "payload a < 2 ^ 7"
proof -
  have c: "0 \<le> cp" "cp \<le> 0x10FFFF" using assms(1) by (simp_all add: scalar_def)
  define m where "m = cp div 64"
  define l where "l = m div 64"
  define k where "k = l div 64"
  have d: "cp div 4096 = l" "cp div 262144 = k" by (simp_all add: div_4096 m_def l_def k_def)
  have r: "m * 64 + cp mod 64 = cp" "l * 64 + m mod 64 = m" "k * 64 + l mod 64 = l" by (simp_all add: m_def l_def k_def)
  have z: "(0x80 + x mod 64) mod 64 = x mod 64" for x :: int by (simp add: mod_add_eq [symmetric])
  have b: "0 \<le> m" "0 \<le> l" "0 \<le> k" "k \<le> 4" using c by (simp_all add: m_def l_def k_def)
  have b2: "cp < 0x800 \<longrightarrow> m < 32" "cp < 0x10000 \<longrightarrow> l < 16" unfolding m_def d(1) [symmetric] by presburger+
  note f = d m_def [symmetric] z r
  have "code_value (payload a) bs = cp \<and> 0 \<le> payload a \<and> length bs \<le> 3 \<and> payload a < 2 ^ 7"
    using assms(2) c b b2 by (auto simp: utf8_ints_def payload_def f split: if_splits)
  then show "code_value (payload a) bs = cp" "0 \<le> payload a" "length bs \<le> 3" "payload a < 2 ^ 7" by simp_all
qed

lemma code_value_mono: "0 \<le> n \<Longrightarrow> n \<le> code_value n bs"
proof (induction bs arbitrary: n)
  case (Cons b bs)
  have "n \<le> n * 64 + b mod 64" using Cons(2) by simp
  also have "\<dots> \<le> code_value (n * 64 + b mod 64) bs" using Cons(1) Cons(2) by simp
  finally show ?case by simp
qed simp

section \<open>Running the decoder\<close>

text \<open>The decoder over a byte string, as far as it does not reject.\<close>

fun decode_run :: "byte \<Rightarrow> u32 \<Rightarrow> byte list \<Rightarrow> (byte \<times> u32) res" where
  "decode_run st cp [] = Inr (st, cp)"
| "decode_run st cp (b # bs) =
     bind_res (decode st cp b) (\<lambda>(st', cp'). if st' = UTF8_REJECT then Inr (st', cp') else decode_run st' cp' bs)"

lemma states_distinct [simp]: "UTF8_ACCEPT \<noteq> UTF8_REJECT" "UTF8_REJECT \<noteq> UTF8_ACCEPT" "decoder_state [] = UTF8_ACCEPT"
  by (simp_all add: UTF8_ACCEPT_def UTF8_REJECT_def decoder_state_def)

lemma decoder_state_live [simp]: "rs = [] \<or> rs \<in> set decoder_ranges \<Longrightarrow> decoder_state rs \<noteq> UTF8_REJECT"
  by (auto simp: UTF8_REJECT_def UTF8_ACCEPT_def dest: decoder_state_open)

lemma decode_run_ranges:
  assumes "in_ranges rs bs" "rs = [] \<or> rs \<in> set decoder_ranges" "code_value (uint cp) bs < 2 ^ 26"
    "\<forall>b \<in> set bs. 0 \<le> b \<and> b < 256"
  shows "\<exists>cp'. decode_run (decoder_state rs) cp (map word_of_int bs @ r) = decode_run UTF8_ACCEPT cp' r \<and>
    uint cp' = code_value (uint cp) bs"
  using assms
proof (induction rs bs arbitrary: cp rule: list_all2_induct)
  case (Cons x rs b bs)
  obtain lo hi where x: "x = (lo, hi)" by (cases x)
  have ub: "uint (word_of_int b :: byte) = b" using Cons(6) uint_word_of_int8 by simp
  have "uint cp < 2 ^ 26"
    using code_value_mono [of "uint cp" "b # bs"] Cons(5) by simp
  then obtain cp1 where c1: "decode (decoder_state (x # rs)) cp (word_of_int b) = Inr (decoder_state rs, cp1)"
    "uint cp1 = uint cp * 64 + b mod 64"
    using decode_next [of lo hi rs "word_of_int b" cp] Cons(1,4) x ub by auto
  have tl: "rs = [] \<or> rs \<in> set decoder_ranges" using Cons(4) decoder_ranges_tl by blast
  obtain cp' where "decode_run (decoder_state rs) cp1 (map word_of_int bs @ r) = decode_run UTF8_ACCEPT cp' r"
    "uint cp' = code_value (uint cp1) bs"
    using Cons(3) [OF tl, of cp1] Cons(5,6) c1(2) by auto
  then show ?case using c1 tl by auto
qed auto

lemma scalar_first:
  assumes "scalar cp"
  obtains a bs rs where "utf8_ints cp = a # bs" "0 \<le> a" "a < 256" "in_ranges rs bs" "rs = [] \<or> rs \<in> set decoder_ranges"
    "\<forall>b \<in> set bs. 0x80 \<le> b \<and> b < 0xC0" "a < 0x80 \<and> rs = [] \<or> 0x80 \<le> a \<and> utf8_ranges a = Some rs"
proof (cases "cp < 0x80")
  case True
  then show ?thesis using that [of cp "[]" "[]"] assms by (simp add: utf8_ints_def scalar_def)
next
  case False
  then obtain a bs rs where "utf8_ints cp = a # bs" "0x80 \<le> a" "a < 256" "utf8_ranges a = Some rs" "in_ranges rs bs"
    "\<forall>b \<in> set bs. 0x80 \<le> b \<and> b < 0xC0" using scalar_ranges [OF assms] by auto
  then show ?thesis using that [of a bs rs] utf8_ranges_decoder by simp
qed

lemma decode_run_scalar:
  assumes "scalar cp"
  shows "\<exists>cp'. decode_run UTF8_ACCEPT c (utf8_encode cp @ r) = decode_run UTF8_ACCEPT cp' r \<and> uint cp' = cp"
proof -
  obtain a bs rs where u: "utf8_ints cp = a # bs" "0 \<le> a" "a < 256" "in_ranges rs bs" "rs = [] \<or> rs \<in> set decoder_ranges"
    "\<forall>b \<in> set bs. 0x80 \<le> b \<and> b < 0xC0" "a < 0x80 \<and> rs = [] \<or> 0x80 \<le> a \<and> utf8_ranges a = Some rs"
    using scalar_first [OF assms] by blast
  have a: "uint (word_of_int a :: byte) = a" using u(2,3) uint_word_of_int8 by simp
  have lt: "(word_of_int a :: byte) < 0x80 \<longleftrightarrow> a < 0x80" using a by (simp add: word_less_def)
  obtain c1 where c1: "decode UTF8_ACCEPT c (word_of_int a) = Inr (decoder_state rs, c1)" "uint c1 = payload a"
    using decode_start [of "word_of_int a" c] u(7) a lt by auto
  have v: "code_value (uint c1) bs = cp" using payload_value(1) [OF assms u(1)] c1(2) by simp
  moreover have "cp < 2 ^ 26" using assms by (simp add: scalar_def)
  ultimately obtain cp' where "decode_run (decoder_state rs) c1 (map word_of_int bs @ r) = decode_run UTF8_ACCEPT cp' r" "uint cp' = cp"
    using decode_run_ranges [OF u(4,5), of c1 r] u(6) by force
  then show ?thesis using c1(1) u(1,5) by (auto simp: utf8_encode_def)
qed

lemma decode_run_text:
  "\<forall>cp \<in> set cps. scalar cp \<Longrightarrow> \<exists>cp'. decode_run UTF8_ACCEPT c (encode_text cps) = Inr (UTF8_ACCEPT, cp')"
proof (induction cps arbitrary: c)
  case (Cons cp cps)
  then show ?case using decode_run_scalar [of cp c "encode_text cps"] by auto
qed simp

text \<open>Conversely, what it accepts is UTF-8.\<close>

lemma decode_run_accepts_ranges:
  assumes "rs \<in> set decoder_ranges" "decode_run (decoder_state rs) cp bs = Inr (UTF8_ACCEPT, cp')"
  shows "\<exists>xs r c. bs = xs @ r \<and> in_ranges rs (map uint xs) \<and> decode_run UTF8_ACCEPT c r = Inr (UTF8_ACCEPT, cp')"
  using assms
proof (induction rs arbitrary: cp bs)
  case Nil
  then show ?case by (simp add: decoder_ranges_def)
next
  case (Cons x rs)
  obtain lo hi where x: "x = (lo, hi)" by (cases x)
  obtain b bs' where b: "bs = b # bs'"
    using Cons(3) decoder_state_open [OF Cons(2)] by (cases bs) (auto simp: UTF8_ACCEPT_def)
  have r: "lo \<le> uint b \<and> uint b \<le> hi"
  proof (rule ccontr)
    assume "\<not> ?thesis"
    then show False using decode_reject [of lo hi rs b cp] Cons(2,3) x b by auto
  qed
  have "transitions ! (unat (decoder_state (x # rs)) * 16 + byte_class b) = decoder_state rs"
    using transition_next [of lo hi rs b] Cons(2) r x by simp
  then obtain c1 where "decode (decoder_state (x # rs)) cp b = Inr (decoder_state rs, c1)"
    using decode_step [OF decoder_state_bounds, of "x # rs" cp b] by simp
  moreover have tl: "rs = [] \<or> rs \<in> set decoder_ranges" using Cons(2) decoder_ranges_tl by blast
  ultimately have run: "decode_run (decoder_state rs) c1 bs' = Inr (UTF8_ACCEPT, cp')" using Cons(3) b by simp
  show ?case
  proof (cases "rs = []")
    case True
    then show ?thesis using run b r x by (intro exI [of _ "[b]"] exI [of _ bs'] exI [of _ c1]) simp
  next
    case False
    then obtain xs r' c where "bs' = xs @ r'" "in_ranges rs (map uint xs)" "decode_run UTF8_ACCEPT c r' = Inr (UTF8_ACCEPT, cp')"
      using Cons(1) [OF _ run] tl by blast
    then show ?thesis using b r x by (intro exI [of _ "b # xs"] exI [of _ r'] exI [of _ c]) simp
  qed
qed

lemma decode_run_accepts: "decode_run UTF8_ACCEPT cp bs = Inr (UTF8_ACCEPT, cp') \<Longrightarrow> valid_utf8 bs"
proof (induction "length bs" arbitrary: cp bs rule: less_induct)
  case less
  show ?case
  proof (cases bs)
    case (Cons b bs')
    have st: "b < 0x80 \<or> utf8_ranges (uint b) \<noteq> None"
    proof (rule ccontr)
      assume "\<not> ?thesis"
      then obtain c where "decode UTF8_ACCEPT cp b = Inr (UTF8_REJECT, c)" using decode_no_start [of b cp] by auto
      then show False using less(2) Cons by simp
    qed
    obtain c1 where c1: "decode UTF8_ACCEPT cp b = Inr (if b < 0x80 then UTF8_ACCEPT else decoder_state (the (utf8_ranges (uint b))), c1)"
      using decode_start [OF st] by blast
    show ?thesis
    proof (cases "b < 0x80")
      case True
      then have "decode_run UTF8_ACCEPT c1 bs' = Inr (UTF8_ACCEPT, cp')" using less(2) Cons c1 by simp
      then have "valid_utf8 bs'" using less(1) Cons by simp
      moreover have "utf8_encode (uint b) = [b]" "scalar (uint b)"
        using True by (simp_all add: utf8_encode_def utf8_ints_def scalar_def word_less_def)
      ultimately show ?thesis using valid_utf8_append [of "[b]" bs'] valid_utf8_encode [of "uint b"] Cons by simp
    next
      case False
      then obtain rs where rs: "utf8_ranges (uint b) = Some rs" using st by auto
      then have run: "decode_run (decoder_state rs) c1 bs' = Inr (UTF8_ACCEPT, cp')"
        using less(2) Cons c1 False utf8_ranges_decoder [OF rs] by simp
      obtain xs r c where x: "bs' = xs @ r" "in_ranges rs (map uint xs)" "decode_run UTF8_ACCEPT c r = Inr (UTF8_ACCEPT, cp')"
        using decode_run_accepts_ranges [OF utf8_ranges_decoder [OF rs] run] by blast
      obtain sc where "scalar sc" "utf8_ints sc = uint b # map uint xs" using ranges_scalar [OF rs x(2)] by blast
      then have "utf8_encode sc = b # xs" "scalar sc" by (simp_all add: utf8_encode_def map_idI)
      moreover have "valid_utf8 r" using less(1) x(1,3) Cons by simp
      ultimately show ?thesis using valid_utf8_append [of "b # xs" r] valid_utf8_encode [of sc] x(1) Cons by simp
    qed
  qed simp
qed

end
