(* ===== verification/Json_Escaping.thy ===== *)
theory Json_Escaping
  imports Json_Decoder
begin

text \<open>
  What \<open>dump_escaped\<close> of \<open>src/nlohmann/detail/output/serializer.hpp\<close> writes for a text in UTF-8: each
  character in its escaped form, through a buffer of 512 bytes that it never leaves.
\<close>

section \<open>Escaped characters\<close>

definition letter_escapes :: "(int \<times> byte) list" where
  "letter_escapes = [(8, 0x62), (9, 0x74), (0x0A, 0x6E), (0x0C, 0x66), (0x0D, 0x72), (0x22, 0x22), (0x5C, 0x5C)]"

definition escape_unit :: "int \<Rightarrow> byte list" where
  "escape_unit c = escape_u (word_of_int c)"

definition escape_char :: "bool \<Rightarrow> int \<Rightarrow> byte list" where
  "escape_char ascii cp =
     (case map_of letter_escapes cp of
        Some c \<Rightarrow> [0x5C, c]
      | None \<Rightarrow>
          if cp \<le> 0x1F \<or> ascii \<and> 0x7F \<le> cp then
            if cp \<le> 0xFFFF then escape_unit cp
            else escape_unit (0xD800 + (cp - 0x10000) div 1024) @ escape_unit (0xDC00 + (cp - 0x10000) mod 1024)
          else utf8_encode cp)"

definition escape_text :: "bool \<Rightarrow> int list \<Rightarrow> byte list" where
  "escape_text ascii cps = concat (map (escape_char ascii) cps)"

lemma escape_text_simps [simp]:
  "escape_text a [] = []" "escape_text a (cp # cps) = escape_char a cp @ escape_text a cps"
  by (simp_all add: escape_text_def)

definition copied :: "bool \<Rightarrow> int \<Rightarrow> bool" where
  "copied ascii cp \<longleftrightarrow> map_of letter_escapes cp = None \<and> 0x1F < cp \<and> (ascii \<longrightarrow> cp < 0x7F)"

lemma escape_char_copied: "copied a cp \<Longrightarrow> escape_char a cp = utf8_encode cp"
  by (auto simp: escape_char_def copied_def)

lemma length_escape_u [simp]: "length (escape_u w) = 6"
  by (simp add: escape_u_def)

section \<open>The buffer\<close>

text \<open>All that has been written: what the adapter has and what waits in the buffer.\<close>

definition written :: "escaping \<Rightarrow> byte list" where
  "written e = out (ser e) @ take (nbytes e) (string_buffer (ser e))"

definition filled :: "byte list \<Rightarrow> escaping \<Rightarrow> escaping" where
  "filled cs e = e\<lparr>ser := (ser e)\<lparr>string_buffer := take (nbytes e) (string_buffer (ser e)) @ cs @
      drop (nbytes e + length cs) (string_buffer (ser e))\<rparr>, nbytes := nbytes e + length cs\<rparr>"

lemma put_eq: "nbytes e < length (string_buffer (ser e)) \<Longrightarrow> put c e = Inr (filled [c] e)"
  by (simp add: put_def filled_def upd_conv_take_nth_drop)

lemma puts_eq: "nbytes e + length cs \<le> length (string_buffer (ser e)) \<Longrightarrow> puts cs e = Inr (filled cs e)"
proof (induction cs arbitrary: e)
  case Nil
  then show ?case by (simp add: filled_def)
next
  case (Cons c cs)
  have "puts (c # cs) e = puts cs (filled [c] e)" using Cons(2) by (simp add: put_eq)
  also have "\<dots> = Inr (filled cs (filled [c] e))" using Cons by (simp add: filled_def)
  also have "filled cs (filled [c] e) = filled (c # cs) e" using Cons(2) by (simp add: filled_def add_ac)
  finally show ?case .
qed

text \<open>Serializers that differ only in what they have written.\<close>

definition same_style :: "serializer \<Rightarrow> serializer \<Rightarrow> bool" where
  "same_style z z' \<longleftrightarrow> length (string_buffer z') = length (string_buffer z) \<and> indent_char z' = indent_char z \<and>
     indent_string z' = indent_string z \<and> error_handler z' = error_handler z"

lemma same_style_refl [simp]: "same_style z z"
  by (simp add: same_style_def)

lemma same_style_trans: "same_style z1 z2 \<Longrightarrow> same_style z2 z3 \<Longrightarrow> same_style z1 z3"
  by (simp add: same_style_def)

lemma filled_simps [simp]:
  "pos (filled cs e) = pos e" "dstate (filled cs e) = dstate e" "codepoint (filled cs e) = codepoint e"
  "undumped_chars (filled cs e) = undumped_chars e" "bytes_after_last_accept (filled cs e) = bytes_after_last_accept e"
  "nbytes (filled cs e) = nbytes e + length cs"
  by (simp_all add: filled_def)

lemma filled_written:
  assumes "nbytes e + length cs \<le> length (string_buffer (ser e))"
  shows "written (filled cs e) = written e @ cs" "same_style (ser e) (ser (filled cs e))"
  using assms by (simp_all add: filled_def written_def same_style_def)

lemma flush_written [simp]:
  "written ((flush_buffer (nbytes e) e)\<lparr>nbytes := 0\<rparr>) = written e" "same_style (ser e) (ser (flush_buffer n e))"
  "pos (flush_buffer n e) = pos e" "dstate (flush_buffer n e) = dstate e" "codepoint (flush_buffer n e) = codepoint e"
  "nbytes (flush_buffer n e) = nbytes e"
  by (simp_all add: flush_buffer_def written_def write_characters_def same_style_def)

text \<open>A formatted text is put with a zero behind it.\<close>

definition formatted :: "byte list \<Rightarrow> escaping \<Rightarrow> escaping" where
  "formatted cs e = (filled [0] (filled cs e))\<lparr>nbytes := nbytes e + length cs\<rparr>"

lemma put_format_eq:
  assumes "nbytes e + length cs < length (string_buffer (ser e))"
  shows "put_format cs e = Inr (formatted cs e)" "written (formatted cs e) = written e @ cs" "same_style (ser e) (ser (formatted cs e))"
proof -
  have "nbytes (filled cs e) < length (string_buffer (ser (filled cs e)))" using assms by (simp add: filled_def)
  then show "put_format cs e = Inr (formatted cs e)"
    using assms by (simp add: put_format_def puts_eq put_eq formatted_def)
  show "written (formatted cs e) = written e @ cs" "same_style (ser e) (ser (formatted cs e))"
    using assms by (simp_all add: formatted_def filled_def written_def same_style_def)
qed

lemma formatted_simps [simp]:
  "pos (formatted cs e) = pos e" "dstate (formatted cs e) = dstate e" "nbytes (formatted cs e) = nbytes e + length cs"
  by (simp_all add: formatted_def)

section \<open>One character\<close>

text \<open>The state between two characters: there is room for the longest one.\<close>

definition between :: "escaping \<Rightarrow> bool" where
  "between e \<longleftrightarrow> dstate e = UTF8_ACCEPT \<and> undumped_chars e = 0 \<and> nbytes e \<le> 499 \<and> bytes_after_last_accept e = nbytes e \<and>
     length (string_buffer (ser e)) = 512"

text \<open>The texts \<open>dump_codepoint\<close> puts.\<close>

lemma codepoint_cases:
  fixes c :: u32
  assumes "uint c = cp"
  shows "c = 0x08 \<longleftrightarrow> cp = 8" "c = 0x09 \<longleftrightarrow> cp = 9" "c = 0x0A \<longleftrightarrow> cp = 0x0A" "c = 0x0C \<longleftrightarrow> cp = 0x0C" "c = 0x0D \<longleftrightarrow> cp = 0x0D"
    "c = 0x22 \<longleftrightarrow> cp = 0x22" "c = 0x5C \<longleftrightarrow> cp = 0x5C" "c \<le> 0x1F \<longleftrightarrow> cp \<le> 0x1F" "0x7F \<le> c \<longleftrightarrow> 0x7F \<le> cp"
    "c \<le> 0xFFFF \<longleftrightarrow> cp \<le> 0xFFFF"
  using assms by (auto simp: word_uint_eq_iff word_le_def)

lemma surrogate_units:
  fixes c :: u32
  assumes "uint c = cp" "0x10000 \<le> cp" "cp \<le> 0x10FFFF"
  shows "ucast (0xD7C0 + drop_bit 10 c) = (word_of_int (0xD800 + (cp - 0x10000) div 1024) :: u16)"
    and "ucast (0xDC00 + (c AND 0x3FF)) = (word_of_int (0xDC00 + (cp - 0x10000) mod 1024) :: u16)"
proof -
  have d: "uint (drop_bit 10 c) = cp div 1024" using assms(1) by (simp add: drop_bit_eq_div uint_div)
  have m: "uint (c AND 0x3FF) = cp mod 1024"
  proof -
    have "c AND 0x3FF = take_bit 10 c" by (simp add: take_bit_eq_mask mask_eq_exp_minus_1)
    then show ?thesis using assms(1) by (simp add: take_bit_eq_mod uint_mod)
  qed
  have q: "0xD800 + (cp - 0x10000) div 1024 = 0xD7C0 + cp div 1024" "(cp - 0x10000) mod 1024 = cp mod 1024"
    "cp div 1024 < 2048" "0 \<le> cp div 1024"
  proof -
    have "cp - 0x10000 = cp + (- 64) * 1024" by simp
    then show "0xD800 + (cp - 0x10000) div 1024 = 0xD7C0 + cp div 1024" "(cp - 0x10000) mod 1024 = cp mod 1024"
      by (simp_all, metis mod_mult_self1)
    show "cp div 1024 < 2048" "0 \<le> cp div 1024" using assms(2,3) by simp_all
  qed
  have "uint (0xD7C0 + drop_bit 10 c) = 0xD7C0 + cp div 1024" "uint (0xDC00 + (c AND 0x3FF)) = 0xDC00 + cp mod 1024"
    using q(3,4) by (simp_all add: uint_word_ariths d m)
  then show "ucast (0xD7C0 + drop_bit 10 c) = (word_of_int (0xD800 + (cp - 0x10000) div 1024) :: u16)"
    "ucast (0xDC00 + (c AND 0x3FF)) = (word_of_int (0xDC00 + (cp - 0x10000) mod 1024) :: u16)"
    unfolding q(1,2) by (metis word_of_int_uint ucast_eq)+
qed

lemma ucast_codepoint: "uint c = cp \<Longrightarrow> ucast c = (word_of_int cp :: u16)"
  for c :: u32
  by (metis ucast_eq)

lemma put_codepoint_eq:
  assumes "uint (codepoint e) = cp" "cp \<le> 0x10FFFF"
  shows "put_codepoint a b e =
    (if copied a cp then put b e else case map_of letter_escapes cp of Some c \<Rightarrow> puts [0x5C, c] e | None \<Rightarrow> put_format (escape_char a cp) e)"
proof (cases "map_of letter_escapes cp")
  case (Some c)
  then show ?thesis
    by (auto simp: put_codepoint_def Let_def codepoint_cases [OF assms(1)] copied_def letter_escapes_def simp del: puts.simps split: if_splits)
next
  case None
  note n = None [unfolded letter_escapes_def, simplified]
  show ?thesis
  proof (cases "copied a cp")
    case True
    then show ?thesis using None n
      by (auto simp: put_codepoint_def Let_def codepoint_cases [OF assms(1)] copied_def simp del: puts.simps split: if_splits)
  next
    case False
    then have s: "cp \<le> 0x1F \<or> a \<and> 0x7F \<le> cp" using None by (auto simp: copied_def)
    show ?thesis
    proof (cases "cp \<le> 0xFFFF")
      case True
      then show ?thesis using None n False s
        by (simp add: put_codepoint_def Let_def codepoint_cases [OF assms(1)] escape_char_def escape_unit_def ucast_codepoint [OF assms(1)] split: if_splits)
    next
      case big: False
      then show ?thesis using None n False s assms(2)
        by (simp add: put_codepoint_def Let_def codepoint_cases [OF assms(1)] escape_char_def escape_unit_def surrogate_units [OF assms(1)] split: if_splits)
    qed
  qed
qed

lemma length_escape_char: "\<not> copied a cp \<Longrightarrow> length (escape_char a cp) \<le> 12"
  by (auto simp: escape_char_def copied_def escape_unit_def split: option.splits)

lemma put_codepoint_writes:
  assumes "uint (codepoint e) = cp" "cp \<le> 0x10FFFF" "length (string_buffer (ser e)) = 512"
    "nbytes e \<le> (if copied a cp then 502 else 499)"
  obtains e' where "put_codepoint a b e = Inr e'" "written e' = written e @ (if copied a cp then [b] else escape_char a cp)"
    "same_style (ser e) (ser e')" "pos e' = pos e" "dstate e' = dstate e" "nbytes e' \<le> 512"
proof (cases "copied a cp")
  case True
  then show ?thesis
    using assms filled_written [of e "[b]"] put_codepoint_eq [OF assms(1,2)]
    by (intro that [of "filled [b] e"]) (simp_all add: put_eq)
next
  case False
  show ?thesis
  proof (cases "map_of letter_escapes cp")
    case None
    have "nbytes e + length (escape_char a cp) < length (string_buffer (ser e))"
      using assms(3,4) False length_escape_char [OF False] by simp
    note f = put_format_eq [OF this]
    show ?thesis
      using assms False f None put_codepoint_eq [OF assms(1,2)] length_escape_char [OF False]
      by (intro that [of "formatted (escape_char a cp) e"]) simp_all
  next
    case (Some c)
    have "nbytes e + length [0x5C, c] \<le> length (string_buffer (ser e))" using assms(3,4) False by simp
    note f = filled_written [OF this] puts_eq [OF this]
    have "escape_char a cp = [0x5C, c]" using Some by (simp add: escape_char_def)
    then show ?thesis
      using assms False f Some put_codepoint_eq [OF assms(1,2)]
      by (intro that [of "filled [0x5C, c] e"]) (simp_all del: puts.simps)
  qed
qed

lemma dump_codepoint_writes:
  assumes "uint (codepoint e) = cp" "cp \<le> 0x10FFFF" "length (string_buffer (ser e)) = 512" "dstate e = UTF8_ACCEPT"
    "nbytes e \<le> (if copied a cp then 502 else 499)"
  obtains e' where "dump_codepoint a b e = Inr e'" "written e' = written e @ (if copied a cp then [b] else escape_char a cp)"
    "same_style (ser e) (ser e')" "pos e' = pos e" "between e'"
proof -
  obtain e1 where e1: "put_codepoint a b e = Inr e1" "written e1 = written e @ (if copied a cp then [b] else escape_char a cp)"
    "same_style (ser e) (ser e1)" "pos e1 = pos e" "dstate e1 = dstate e" "nbytes e1 \<le> 512"
    using put_codepoint_writes [OF assms(1,2,3,5)] by blast
  define e2 where "e2 = (if length (string_buffer (ser e1)) - nbytes e1 < 13
                then (flush_buffer (nbytes e1) e1)\<lparr>nbytes := 0\<rparr> else e1)"
  let ?e = "e2\<lparr>bytes_after_last_accept := nbytes e2, undumped_chars := 0\<rparr>"
  have l: "length (string_buffer (ser e1)) = 512" using e1(3) assms(3) by (simp add: same_style_def)
  have d: "dump_codepoint a b e = Inr ?e" using e1(1) by (simp add: dump_codepoint_def e2_def Let_def)
  have w: "written e2 = written e1" "same_style (ser e1) (ser e2)" "pos e2 = pos e1" "dstate e2 = dstate e1"
    by (simp_all add: e2_def)
  have n: "nbytes e2 \<le> 499" using l by (auto simp: e2_def)
  have l2: "length (string_buffer (ser e2)) = 512" using w(2) l by (simp add: same_style_def)
  show ?thesis
    using that [OF d] w n e1 l2 assms(4) same_style_trans [OF e1(3) w(2)]
    by (simp add: written_def between_def)
qed

section \<open>Rounds of the loop\<close>

text \<open>The loop gets on: it has read \<open>n\<close> bytes and written \<open>w\<close>.\<close>

definition dumps :: "bool \<Rightarrow> byte list \<Rightarrow> nat \<Rightarrow> byte list \<Rightarrow> escaping \<Rightarrow> escaping \<Rightarrow> bool" where
  "dumps a s n w e e' \<longleftrightarrow> dump_loop a s e = dump_loop a s e' \<and> pos e' = pos e + n \<and> written e' = written e @ w \<and>
     same_style (ser e) (ser e')"

lemma dumps_refl [simp]: "dumps a s 0 [] e e"
  by (simp add: dumps_def)

lemma dumps_trans: "dumps a s m v e e1 \<Longrightarrow> dumps a s n w e1 e2 \<Longrightarrow> dumps a s (m + n) (v @ w) e e2"
  using same_style_trans by (auto simp: dumps_def)

lemma dump_loop_step: "pos e < length s \<Longrightarrow> dump_round a s e = Inr e' \<Longrightarrow> dump_loop a s e = dump_loop a s e'"
  by (subst dump_loop.simps) simp

lemma written_frame [simp]:
  "written (e\<lparr>dstate := st\<rparr>) = written e" "written (e\<lparr>codepoint := c\<rparr>) = written e" "written (e\<lparr>pos := p\<rparr>) = written e"
  "written (e\<lparr>undumped_chars := u\<rparr>) = written e"
  by (simp_all add: written_def)

lemma dumps_accept:
  assumes "pos e < length s" "decode (dstate e) (codepoint e) (s ! pos e) = Inr (UTF8_ACCEPT, c)" "uint c = cp" "cp \<le> 0x10FFFF"
    "length (string_buffer (ser e)) = 512" "nbytes e \<le> (if copied a cp then 502 else 499)"
  obtains e' where "dumps a s 1 (if copied a cp then [s ! pos e] else escape_char a cp) e e'" "between e'"
proof -
  let ?e = "e\<lparr>dstate := UTF8_ACCEPT, codepoint := c\<rparr>"
  have "uint (codepoint ?e) = cp" "length (string_buffer (ser ?e)) = 512" "dstate ?e = UTF8_ACCEPT"
    "nbytes ?e \<le> (if copied a cp then 502 else 499)"
    using assms by simp_all
  from dump_codepoint_writes [OF this(1) assms(4) this(2-4), of "s ! pos e"] obtain e' where
    e': "dump_codepoint a (s ! pos e) ?e = Inr e'" "written e' = written ?e @ (if copied a cp then [s ! pos e] else escape_char a cp)"
    "same_style (ser ?e) (ser e')" "pos e' = pos ?e" "between e'"
    by blast
  have "dump_round a s e = Inr (e'\<lparr>pos := pos e' + 1\<rparr>)"
    using assms(2) e'(1) by (simp add: dump_round_def Let_def)
  then show ?thesis
    using dump_loop_step [OF assms(1)] e'
    by (intro that [of "e'\<lparr>pos := pos e' + 1\<rparr>"]) (simp_all add: dumps_def between_def)
qed

lemma dumps_more:
  assumes "pos e < length s" "decode (dstate e) (codepoint e) (s ! pos e) = Inr (st, c)" "st \<noteq> UTF8_ACCEPT" "st \<noteq> UTF8_REJECT"
    "length (string_buffer (ser e)) = 512" "nbytes e < 512"
  obtains e' where "dumps a s 1 (if a then [] else [s ! pos e]) e e'" "dstate e' = st" "codepoint e' = c"
    "nbytes e' = (if a then nbytes e else nbytes e + 1)"
proof -
  let ?e = "e\<lparr>dstate := st, codepoint := c\<rparr>"
  define e2 where "e2 = (if a then ?e else filled [s ! pos e] ?e)"
  have w: "written (filled [s ! pos e] ?e) = written e @ [s ! pos e]" "same_style (ser e) (ser (filled [s ! pos e] ?e))"
    using filled_written [of ?e "[s ! pos e]"] assms(5,6) by simp_all
  have "dump_round a s e = Inr (e2\<lparr>undumped_chars := undumped_chars e2 + 1, pos := pos e2 + 1\<rparr>)"
    using assms(2-6) put_eq [of ?e "s ! pos e"] by (simp add: dump_round_def Let_def e2_def)
  then show ?thesis
    using dump_loop_step [OF assms(1)] w
    by (intro that [of "e2\<lparr>undumped_chars := undumped_chars e2 + 1, pos := pos e2 + 1\<rparr>"]) (simp_all add: dumps_def e2_def)
qed

text \<open>The bytes of a character behind the first one.\<close>

lemma dumps_ranges:
  assumes "in_ranges rs bs" "rs \<in> set decoder_ranges" "dstate e = decoder_state rs" "code_value (uint (codepoint e)) bs = cp"
    "\<forall>b \<in> set bs. 0 \<le> b \<and> b < 256" "0x80 \<le> cp" "cp \<le> 0x10FFFF"
    "\<forall>i < length bs. pos e + i < length s \<and> s ! (pos e + i) = word_of_int (bs ! i)"
    "length (string_buffer (ser e)) = 512" "if a then nbytes e \<le> 499 else nbytes e + length bs \<le> 503"
  shows "\<exists>e'. dumps a s (length bs) (if a then escape_char a cp else map word_of_int bs) e e' \<and> between e'"
  using assms
proof (induction rs bs arbitrary: e rule: list_all2_induct)
  case Nil
  then show ?case by (simp add: decoder_ranges_def)
next
  case (Cons x rs b bs)
  obtain lo hi where x: "x = (lo, hi)" by (cases x)
  have ub: "uint (word_of_int b :: byte) = b" using Cons.prems(4) uint_word_of_int8 by simp
  have s: "pos e < length s" "s ! pos e = word_of_int b" using Cons.prems(7) by force+
  have copied: "copied a cp \<longleftrightarrow> \<not> a"
    using Cons.prems(5) by (auto simp: copied_def letter_escapes_def)
  have "uint (codepoint e) \<le> cp"
    using code_value_mono [of "uint (codepoint e)" "b # bs"] Cons.prems(3) by simp
  then obtain c1 where c1: "decode (dstate e) (codepoint e) (s ! pos e) = Inr (decoder_state rs, c1)"
    "uint c1 = uint (codepoint e) * 64 + b mod 64"
    using decode_next [of lo hi rs "word_of_int b" "codepoint e"] Cons.hyps(1) Cons.prems(1,2,6) x ub s(2) by auto
  show ?case
  proof (cases "rs = []")
    case True
    then have bs: "bs = []" using Cons.hyps(2) by simp
    then have "uint c1 = cp" using c1(2) Cons.prems(3) by simp
    moreover have "nbytes e \<le> (if copied a cp then 502 else 499)" using Cons.prems(9) bs copied by (auto split: if_splits)
    ultimately obtain e' where "dumps a s 1 (if copied a cp then [s ! pos e] else escape_char a cp) e e'" "between e'"
      using dumps_accept [OF s(1), of c1 cp a] c1(1) True Cons.prems(6,8) by auto
    then show ?thesis using bs copied s(2) by (intro exI [of _ e']) auto
  next
    case False
    have tl: "rs \<in> set decoder_ranges" using Cons.prems(1) decoder_ranges_tl False by blast
    have st: "decoder_state rs \<noteq> UTF8_ACCEPT" "decoder_state rs \<noteq> UTF8_REJECT"
      using decoder_state_open [OF tl] by (simp_all add: UTF8_ACCEPT_def UTF8_REJECT_def)
    have "nbytes e < 512" using Cons.prems(9) by (auto split: if_splits)
    then obtain e1 where e1: "dumps a s 1 (if a then [] else [s ! pos e]) e e1" "dstate e1 = decoder_state rs" "codepoint e1 = c1"
      "nbytes e1 = (if a then nbytes e else nbytes e + 1)"
      using dumps_more [OF s(1) c1(1) st Cons.prems(8)] by blast
    have p1: "pos e1 = pos e + 1" "length (string_buffer (ser e1)) = 512"
      using e1(1) Cons.prems(8) by (simp_all add: dumps_def same_style_def)
    have "\<forall>i < length bs. pos e1 + i < length s \<and> s ! (pos e1 + i) = word_of_int (bs ! i)"
    proof (intro allI impI)
      fix i assume "i < length bs"
      then show "pos e1 + i < length s \<and> s ! (pos e1 + i) = word_of_int (bs ! i)"
        using Cons.prems(7) [THEN spec, of "Suc i"] p1(1) by simp
    qed
    moreover have "code_value (uint (codepoint e1)) bs = cp" using Cons.prems(3) c1(2) e1(3) by simp
    ultimately obtain e' where e': "dumps a s (length bs) (if a then escape_char a cp else map word_of_int bs) e1 e'" "between e'"
      using Cons.IH [OF tl, of e1] e1(2,4) Cons.prems(4-6,9) p1(2) by (auto split: if_splits)
    show ?thesis
      using dumps_trans [OF e1(1) e'(1)] e'(2) s(2) by (intro exI [of _ e']) (auto split: if_splits)
  qed
qed

section \<open>Strings\<close>

lemma dumps_char:
  assumes "scalar cp" "s = pre @ utf8_encode cp @ r" "pos e = length pre" "between e"
  shows "\<exists>e'. dumps a s (length (utf8_encode cp)) (escape_char a cp) e e' \<and> between e'"
proof -
  obtain b bs rs where u: "utf8_ints cp = b # bs" "0 \<le> b" "b < 256" "in_ranges rs bs" "rs = [] \<or> rs \<in> set decoder_ranges"
    "\<forall>b \<in> set bs. 0x80 \<le> b \<and> b < 0xC0" "b < 0x80 \<and> rs = [] \<or> 0x80 \<le> b \<and> utf8_ranges b = Some rs"
    using scalar_first [OF assms(1)] by blast
  have enc: "utf8_encode cp = word_of_int b # map word_of_int bs" using u(1) by (simp add: utf8_encode_def)
  have s: "pos e < length s" "s ! pos e = word_of_int b" using assms(2,3) enc by simp_all
  have ub: "uint (word_of_int b :: byte) = b" using u(2,3) uint_word_of_int8 by simp
  have lt: "(word_of_int b :: byte) < 0x80 \<longleftrightarrow> b < 0x80" using ub by (simp add: word_less_def)
  obtain c where c: "decode (dstate e) (codepoint e) (s ! pos e) = Inr (decoder_state rs, c)" "uint c = payload b"
    using decode_start [of "word_of_int b" "codepoint e"] u(7) ub lt assms(4) s(2) by (auto simp: between_def)
  have v: "code_value (uint c) bs = cp" using payload_value(1) [OF assms(1) u(1)] c(2) by simp
  have l: "length (string_buffer (ser e)) = 512" "nbytes e \<le> 499" using assms(4) by (simp_all add: between_def)
  have cp: "cp \<le> 0x10FFFF" using assms(1) by (simp add: scalar_def)
  show ?thesis
  proof (cases "rs = []")
    case True
    then have bs: "bs = []" using u(4) by simp
    then have cv: "uint c = cp" using v by simp
    have dc: "decode (dstate e) (codepoint e) (s ! pos e) = Inr (UTF8_ACCEPT, c)" using c(1) True by simp
    have "nbytes e \<le> (if copied a cp then 502 else 499)" using l(2) by simp
    then obtain e' where "dumps a s 1 (if copied a cp then [s ! pos e] else escape_char a cp) e e'" "between e'"
      using dumps_accept [OF s(1) dc cv cp l(1)] by blast
    moreover have "utf8_encode cp = [s ! pos e]" using enc bs s(2) by simp
    ultimately show ?thesis using escape_char_copied [of a cp] by (intro exI [of _ e']) (simp split: if_splits)
  next
    case False
    have big: "0x80 \<le> cp" using u(1,7) False by (auto simp: utf8_ints_def split: if_splits)
    have rs: "rs \<in> set decoder_ranges" using u(5) False by blast
    have st: "decoder_state rs \<noteq> UTF8_ACCEPT" "decoder_state rs \<noteq> UTF8_REJECT"
      using decoder_state_open [OF rs] by (simp_all add: UTF8_ACCEPT_def UTF8_REJECT_def)
    obtain e1 where e1: "dumps a s 1 (if a then [] else [s ! pos e]) e e1" "dstate e1 = decoder_state rs" "codepoint e1 = c"
      "nbytes e1 = (if a then nbytes e else nbytes e + 1)"
      using dumps_more [OF s(1) c(1) st l(1)] l(2) by auto
    have p1: "pos e1 = pos e + 1" "length (string_buffer (ser e1)) = 512"
      using e1(1) l(1) by (simp_all add: dumps_def same_style_def)
    have at: "\<forall>i < length bs. pos e1 + i < length s \<and> s ! (pos e1 + i) = word_of_int (bs ! i)"
      using assms(2,3) enc p1(1) by (simp add: nth_append)
    have rng: "\<forall>b \<in> set bs. 0 \<le> b \<and> b < 256" using u(6) by fastforce
    have len: "length bs \<le> 3" using payload_value(3) [OF assms(1) u(1)] .
    have "if a then nbytes e1 \<le> 499 else nbytes e1 + length bs \<le> 503" using e1(4) l(2) len by simp
    then obtain e' where e': "dumps a s (length bs) (if a then escape_char a cp else map word_of_int bs) e1 e'" "between e'"
      using dumps_ranges [OF u(4) rs e1(2) _ rng big cp at p1(2)] v e1(3) by auto
    have "copied a cp" if "\<not> a" using that big by (auto simp: copied_def letter_escapes_def)
    then show ?thesis
      using dumps_trans [OF e1(1) e'(1)] e'(2) s(2) enc escape_char_copied [of a cp]
      by (intro exI [of _ e']) (auto split: if_splits)
  qed
qed

lemma dumps_text:
  "\<forall>cp \<in> set cps. scalar cp \<Longrightarrow> s = pre @ encode_text cps @ r \<Longrightarrow> pos e = length pre \<Longrightarrow> between e \<Longrightarrow>
   \<exists>e'. dumps a s (length (encode_text cps)) (escape_text a cps) e e' \<and> between e'"
proof (induction cps arbitrary: pre e)
  case Nil
  then show ?case by (intro exI [of _ e]) simp
next
  case (Cons cp cps)
  have "scalar cp" "s = pre @ utf8_encode cp @ (encode_text cps @ r)" using Cons.prems(1,2) by simp_all
  from dumps_char [OF this Cons.prems(3,4)] obtain e1 where e1: "dumps a s (length (utf8_encode cp)) (escape_char a cp) e e1" "between e1"
    by blast
  have "\<forall>cp \<in> set cps. scalar cp" "s = (pre @ utf8_encode cp) @ encode_text cps @ r" "pos e1 = length (pre @ utf8_encode cp)"
    using Cons.prems(1-3) e1(1) by (simp_all add: dumps_def)
  from Cons.IH [OF this e1(2)] show ?case using dumps_trans [OF e1(1)] by fastforce
qed

lemma dump_loop_end: "\<not> pos e < length s \<Longrightarrow> dump_loop a s e = Inr e"
  by (subst dump_loop.simps) simp

definition appends :: "byte list \<Rightarrow> serializer \<Rightarrow> serializer res \<Rightarrow> bool" where
  "appends w z r \<longleftrightarrow> (\<exists>z'. r = Inr z' \<and> out z' = out z @ w \<and> same_style z z')"

lemma dump_escaped_writes:
  assumes "\<forall>cp \<in> set cps. scalar cp" "length (string_buffer z) = 512"
  shows "appends (escape_text a cps) z (dump_escaped (encode_text cps) a z)"
proof -
  let ?e = "\<lparr>ser = z, codepoint = 0, dstate = UTF8_ACCEPT, nbytes = 0, bytes_after_last_accept = 0, undumped_chars = 0, pos = 0\<rparr>"
  have "between ?e" using assms(2) by (simp add: between_def)
  then obtain e' where e': "dumps a (encode_text cps) (length (encode_text cps)) (escape_text a cps) ?e e'" "between e'"
    using dumps_text [OF assms(1), of "encode_text cps" "[]" "[]" ?e a] by auto
  have "dump_loop a (encode_text cps) e' = Inr e'"
    using e'(1) by (intro dump_loop_end) (simp add: dumps_def)
  then have loop: "dump_loop a (encode_text cps) ?e = Inr e'" using e'(1) by (simp add: dumps_def)
  let ?z = "ser (if 0 < nbytes e' then flush_buffer (nbytes e') e' else e')"
  have "dump_escaped (encode_text cps) a z = Inr ?z"
    using loop e'(2) by (simp add: dump_escaped_def between_def)
  moreover have "out ?z = out z @ escape_text a cps" "same_style z ?z"
    using e'(1) by (auto simp: dumps_def written_def flush_buffer_def write_characters_def same_style_def)
  ultimately show ?thesis unfolding appends_def by blast
qed

section \<open>Any byte string\<close>

text \<open>Without replacement the buffer is never left, whatever the bytes are.\<close>

definition stays :: "bool \<Rightarrow> escaping \<Rightarrow> bool" where
  "stays a e \<longleftrightarrow> length (string_buffer (ser e)) = 512 \<and> error_handler (ser e) \<noteq> replace \<and> bytes_after_last_accept e \<le> 499 \<and>
     (\<exists>rs. dstate e = decoder_state rs \<and> (rs = [] \<or> rs \<in> set decoder_ranges) \<and>
        nbytes e \<le> (if a \<or> rs = [] then 499 else 503 - length rs))"

lemma put_codepoint_stays:
  assumes "length (string_buffer (ser e)) = 512" "nbytes e \<le> (if a then 499 else 502)"
  obtains e' where "put_codepoint a b e = Inr e'" "same_style (ser e) (ser e')" "nbytes e' \<le> 512"
proof -
  have p: "\<exists>e'. puts cs e = Inr e' \<and> same_style (ser e) (ser e') \<and> nbytes e' \<le> 512" if c: "length cs \<le> 2" for cs
  proof -
    have "nbytes e + length cs \<le> length (string_buffer (ser e))" using c assms by (auto split: if_splits)
    then show ?thesis using puts_eq filled_written(2) assms(1) by simp
  qed
  have f: "\<exists>e'. put_format cs e = Inr e' \<and> same_style (ser e) (ser e') \<and> nbytes e' \<le> 512"
    if c: "length cs \<le> 6 \<or> a \<and> length cs \<le> 12" for cs
  proof -
    have "nbytes e + length cs < length (string_buffer (ser e))" using c assms by (auto split: if_splits)
    then show ?thesis using put_format_eq assms(1) by simp
  qed
  have q: "\<exists>e'. put b e = Inr e' \<and> same_style (ser e) (ser e') \<and> nbytes e' \<le> 512"
    using put_eq [of e b] filled_written(2) [of e "[b]"] assms by (auto split: if_splits)
  have "\<exists>e'. put_codepoint a b e = Inr e' \<and> same_style (ser e) (ser e') \<and> nbytes e' \<le> 512"
  proof (cases "codepoint e \<le> 0xFFFF")
    case True
    then show ?thesis using q p f by (simp add: put_codepoint_def Let_def del: puts.simps(2))
  next
    case False
    then have "\<not> codepoint e \<le> 0x1F" by (auto simp: word_le_def)
    then show ?thesis using False q p f by (simp add: put_codepoint_def Let_def del: puts.simps(2))
  qed
  then show ?thesis using that by blast
qed

lemma dump_codepoint_stays:
  assumes "length (string_buffer (ser e)) = 512" "nbytes e \<le> (if a then 499 else 502)" "dstate e = UTF8_ACCEPT"
  obtains e' where "dump_codepoint a b e = Inr e'" "same_style (ser e) (ser e')" "between e'"
proof -
  obtain e1 where e1: "put_codepoint a b e = Inr e1" "same_style (ser e) (ser e1)" "nbytes e1 \<le> 512"
    using put_codepoint_stays [OF assms(1,2)] by blast
  have d: "dstate e1 = UTF8_ACCEPT" using put_codepoint_keeps [OF e1(1)] assms(3) by simp
  have l: "length (string_buffer (ser e1)) = 512" using e1(2) assms(1) by (simp add: same_style_def)
  define e2 where "e2 = (if length (string_buffer (ser e1)) - nbytes e1 < 13
                then (flush_buffer (nbytes e1) e1)\<lparr>nbytes := 0\<rparr> else e1)"
  have w: "same_style (ser e1) (ser e2)" "dstate e2 = UTF8_ACCEPT" using d by (simp_all add: e2_def)
  have n: "nbytes e2 \<le> 499" using l by (auto simp: e2_def)
  have l2: "length (string_buffer (ser e2)) = 512" using w(1) l by (simp add: same_style_def)
  have "dump_codepoint a b e = Inr (e2\<lparr>bytes_after_last_accept := nbytes e2, undumped_chars := 0\<rparr>)"
    using e1(1) by (simp add: dump_codepoint_def e2_def Let_def)
  then show ?thesis using that same_style_trans [OF e1(2) w(1)] w(2) n l2 by (simp add: between_def)
qed

lemma decoder_ranges_length: "rs \<in> set decoder_ranges \<Longrightarrow> length rs \<le> 3"
  by (auto simp: decoder_ranges_def)

lemma decode_any:
  assumes "rs = [] \<or> rs \<in> set decoder_ranges"
  obtains c where "decode (decoder_state rs) cp b = Inr (UTF8_REJECT, c)"
  | c rs' where "decode (decoder_state rs) cp b = Inr (decoder_state rs', c)" "rs' = [] \<or> rs' \<in> set decoder_ranges"
      "rs = [] \<and> length rs' \<le> 3 \<or> rs \<noteq> [] \<and> length rs' = length rs - 1"
proof (cases rs)
  case Nil
  show ?thesis
  proof (cases "b < 0x80")
    case True
    then obtain c where "decode UTF8_ACCEPT cp b = Inr (decoder_state [], c)" using decode_start [of b cp] by auto
    then show ?thesis using that(2) [of "[]"] Nil by simp
  next
    case False
    show ?thesis
    proof (cases "utf8_ranges (uint b)")
      case None
      then obtain c where "decode UTF8_ACCEPT cp b = Inr (UTF8_REJECT, c)" using decode_no_start [OF False] by blast
      then show ?thesis using that(1) Nil by simp
    next
      case (Some rs')
      then obtain c where "decode UTF8_ACCEPT cp b = Inr (decoder_state rs', c)" using decode_start [of b cp] False by auto
      then show ?thesis using that(2) [of rs' c] Nil utf8_ranges_decoder [OF Some] decoder_ranges_length [of rs'] by simp
    qed
  qed
next
  case (Cons x rs')
  obtain lo hi where x: "x = (lo, hi)" by (cases x)
  have r: "(lo, hi) # rs' \<in> set decoder_ranges" using assms Cons x by simp
  show ?thesis
  proof (cases "lo \<le> uint b \<and> uint b \<le> hi")
    case False
    then obtain c where "decode (decoder_state ((lo, hi) # rs')) cp b = Inr (UTF8_REJECT, c)" using decode_reject [OF r] by blast
    then show ?thesis using that(1) Cons x by simp
  next
    case True
    have "transitions ! (unat (decoder_state ((lo, hi) # rs')) * 16 + byte_class b) = decoder_state rs'"
      using transition_next [OF r, of b] True by simp
    then obtain c where "decode (decoder_state ((lo, hi) # rs')) cp b = Inr (decoder_state rs', c)"
      using decode_step [OF decoder_state_bounds, of "(lo, hi) # rs'" cp b] by simp
    then show ?thesis using that(2) Cons x decoder_ranges_tl [OF r] by auto
  qed
qed

lemma accept_state: "rs = [] \<or> rs \<in> set decoder_ranges \<Longrightarrow> decoder_state rs = UTF8_ACCEPT \<longleftrightarrow> rs = []"
  using decoder_state_open [of rs] by (auto simp: UTF8_ACCEPT_def decoder_state_def)

lemma codepoint_keeps: "dump_codepoint a b e = Inr e' \<Longrightarrow> codepoint e' = codepoint e"
proof -
  assume d: "dump_codepoint a b e = Inr e'"
  have f: "codepoint e1 = codepoint e" if "put_format cs e = Inr e1" for cs e1
    using that by (auto simp: put_format_def bind_res_eq_Inr dest!: put_keeps puts_keeps)
  have "codepoint e1 = codepoint e" if "put_codepoint a b e = Inr e1" for e1
    using that put_keeps puts_keeps f by (auto simp: put_codepoint_def Let_def simp del: puts.simps split: if_splits)
  then show ?thesis
    using d by (auto simp: dump_codepoint_def Let_def bind_res_eq_Inr flush_buffer_def split: if_splits)
qed

lemma dump_round_any:
  assumes "stays a e"
  shows "error_handler (ser e) = strict \<and> (\<exists>m. dump_round a s e = Inl (Uncaught m)) \<and>
      (\<exists>c. decode (dstate e) (codepoint e) (s ! pos e) = Inr (UTF8_REJECT, c)) \<or>
    (\<exists>e'. dump_round a s e = Inr e' \<and> stays a e' \<and> same_style (ser e) (ser e') \<and>
      (error_handler (ser e) = strict \<longrightarrow> pos e' = pos e + 1 \<and> dstate e' \<noteq> UTF8_REJECT \<and>
        decode (dstate e) (codepoint e) (s ! pos e) = Inr (dstate e', codepoint e')))"
proof -
  obtain rs where rs: "dstate e = decoder_state rs" "rs = [] \<or> rs \<in> set decoder_ranges"
    "nbytes e \<le> (if a \<or> rs = [] then 499 else 503 - length rs)"
    and l: "length (string_buffer (ser e)) = 512" "error_handler (ser e) \<noteq> replace" "bytes_after_last_accept e \<le> 499"
    using assms by (auto simp: stays_def)
  let ?b = "s ! pos e"
  from decode_any [OF rs(2), of "codepoint e" ?b] show ?thesis
  proof cases
    case (1 c)
    then have d: "decode (dstate e) (codepoint e) ?b = Inr (UTF8_REJECT, c)" using rs(1) by simp
    let ?e = "e\<lparr>dstate := UTF8_REJECT, codepoint := c\<rparr>"
    have r: "dump_round a s e = bind_res (dump_rejected a ?b ?e) (\<lambda>e3. Inr (e3\<lparr>pos := pos e3 + 1\<rparr>))"
      using d by (simp add: dump_round_def Let_def)
    show ?thesis
    proof (cases "error_handler (ser e)")
      case strict
      then show ?thesis using r d by (simp add: dump_rejected_def json_throw_def)
    next
      case ignore
      let ?e1 = "(if 0 < undumped_chars ?e then ?e\<lparr>pos := pos ?e - 1\<rparr> else ?e)"
      have "dump_rejected a ?b ?e = Inr (?e1\<lparr>nbytes := bytes_after_last_accept e, undumped_chars := 0, dstate := UTF8_ACCEPT\<rparr>)"
        using ignore by (simp add: dump_rejected_def Let_def)
      moreover have "stays a (?e1\<lparr>nbytes := bytes_after_last_accept e, undumped_chars := 0, dstate := UTF8_ACCEPT, pos := p\<rparr>)" for p
        using l by (auto simp: stays_def intro!: exI [of _ "[]"])
      ultimately show ?thesis using r ignore by simp
    qed (use l(2) in simp)
  next
    case (2 c rs')
    then have d: "decode (dstate e) (codepoint e) ?b = Inr (decoder_state rs', c)" using rs(1) by simp
    let ?e = "e\<lparr>dstate := decoder_state rs', codepoint := c\<rparr>"
    have live: "decoder_state rs' \<noteq> UTF8_REJECT" using 2(2) by (rule decoder_state_live)
    show ?thesis
    proof (cases "rs' = []")
      case True
      have n: "nbytes ?e \<le> (if a then 499 else 502)" using rs(3) by (cases rs) (auto split: if_splits)
      then obtain e' where e': "dump_codepoint a ?b ?e = Inr e'" "same_style (ser ?e) (ser e')" "between e'"
        using dump_codepoint_stays [of ?e a ?b] l(1) True by auto
      have "dump_round a s e = Inr (e'\<lparr>pos := pos e' + 1\<rparr>)" using d e'(1) True by (simp add: dump_round_def Let_def)
      moreover have "stays a (e'\<lparr>pos := pos e' + 1\<rparr>)"
        using e'(2,3) l(2) by (auto simp: stays_def between_def same_style_def intro!: exI [of _ "[]"])
      ultimately show ?thesis
        using d e' dump_codepoint_keeps [OF e'(1)] codepoint_keeps [OF e'(1)] live by simp
    next
      case False
      have na: "decoder_state rs' \<noteq> UTF8_ACCEPT" using accept_state [OF 2(2)] False by simp
      have len: "nbytes e \<le> (if a then 499 else 502 - length rs')" "nbytes e < 512"
        using rs(3) 2(3) by (cases rs; auto split: if_splits)+
      define e2 where "e2 = (if a then ?e else filled [?b] ?e)"
      have e2: "same_style (ser e) (ser e2)" "nbytes e2 = (if a then nbytes e else nbytes e + 1)" "dstate e2 = decoder_state rs'"
        "codepoint e2 = c" "pos e2 = pos e" "bytes_after_last_accept e2 = bytes_after_last_accept e"
        using filled_written(2) [of ?e "[?b]"] l(1) len(2) by (simp_all add: e2_def)
      have "dump_round a s e = Inr (e2\<lparr>undumped_chars := undumped_chars e2 + 1, pos := pos e2 + 1\<rparr>)"
        using d live na len(2) l(1) put_eq [of ?e ?b] by (simp add: dump_round_def Let_def e2_def)
      moreover have "stays a (e2\<lparr>undumped_chars := undumped_chars e2 + 1, pos := pos e2 + 1\<rparr>)"
        using e2 l len 2(2,3) False decoder_ranges_length [of rs']
        by (auto simp: stays_def same_style_def intro!: exI [of _ rs'])
      ultimately show ?thesis using d live e2 by simp
    qed
  qed
qed

lemma dump_loop_any:
  "stays a e \<Longrightarrow> error_handler (ser e) = strict \<and> (\<exists>m. dump_loop a s e = Inl (Uncaught m)) \<or>
    (\<exists>e'. dump_loop a s e = Inr e' \<and> stays a e' \<and> same_style (ser e) (ser e') \<and>
      (error_handler (ser e) = strict \<longrightarrow>
        decode_run (dstate e) (codepoint e) (drop (pos e) s) = Inr (dstate e', codepoint e')))"
proof (induction a s e rule: dump_loop.induct)
  case (1 a s e)
  show ?case
  proof (cases "pos e < length s")
    case False
    then show ?thesis using dump_loop_end [OF False] 1(2) by simp
  next
    case True
    have d: "drop (pos e) s = s ! pos e # drop (Suc (pos e)) s" using True by (simp add: Cons_nth_drop_Suc)
    from dump_round_any [OF 1(2), of s] show ?thesis
    proof (elim disjE conjE exE)
      fix m assume "error_handler (ser e) = strict" "dump_round a s e = Inl (Uncaught m)"
      then show ?thesis using True by (subst (1 2) dump_loop.simps) simp
    next
      fix e1 assume e1: "dump_round a s e = Inr e1" "stays a e1" "same_style (ser e) (ser e1)"
        "error_handler (ser e) = strict \<longrightarrow> pos e1 = pos e + 1 \<and> dstate e1 \<noteq> UTF8_REJECT \<and>
          decode (dstate e) (codepoint e) (s ! pos e) = Inr (dstate e1, codepoint e1)"
      have h: "error_handler (ser e1) = error_handler (ser e)" using e1(3) by (simp add: same_style_def)
      have l: "dump_loop a s e = dump_loop a s e1" using dump_loop_step [OF True e1(1)] .
      have "error_handler (ser e) = strict \<longrightarrow>
          decode_run (dstate e) (codepoint e) (drop (pos e) s) = decode_run (dstate e1) (codepoint e1) (drop (pos e1) s)"
        using e1(4) d by auto
      then show ?thesis using 1(1) [OF True e1(1,2)] l h same_style_trans [OF e1(3)] by auto
    qed
  qed
qed

text \<open>
  \<open>dump_escaped\<close> on any bytes, unless it replaces: it returns, and with the handler \<open>strict\<close> either
  the bytes are UTF-8 and their escaped text is written, or an exception is thrown.
\<close>

lemma dump_escaped_any:
  assumes "length (string_buffer z) = 512" "error_handler z \<noteq> replace"
  shows "(\<exists>z'. dump_escaped bs a z = Inr z' \<and> same_style z z' \<and> (error_handler z = strict \<longrightarrow> valid_utf8 bs)) \<or>
    error_handler z = strict \<and> \<not> valid_utf8 bs \<and> (\<exists>m. dump_escaped bs a z = Inl (Uncaught m))"
proof -
  let ?e = "\<lparr>ser = z, codepoint = 0, dstate = UTF8_ACCEPT, nbytes = 0, bytes_after_last_accept = 0, undumped_chars = 0, pos = 0\<rparr>"
  have st: "stays a ?e" using assms by (auto simp: stays_def intro!: exI [of _ "[]"])
  have ok: "dump_escaped bs a z \<noteq> Inl (Uncaught m)" if v: "valid_utf8 bs" for m
  proof -
    obtain cps where "\<forall>cp \<in> set cps. scalar cp" "bs = encode_text cps" using v by (auto simp: valid_utf8_def)
    then show ?thesis using dump_escaped_writes [of cps z a] assms(1) by (auto simp: appends_def)
  qed
  from dump_loop_any [OF st, of bs] show ?thesis
  proof (elim disjE conjE exE)
    fix m assume "error_handler (ser ?e) = strict" "dump_loop a bs ?e = Inl (Uncaught m)"
    then show ?thesis using ok by (auto simp: dump_escaped_def)
  next
    fix e assume e: "dump_loop a bs ?e = Inr e" "same_style (ser ?e) (ser e)" "error_handler (ser ?e) = strict \<longrightarrow>
        decode_run (dstate ?e) (codepoint ?e) (drop (pos ?e) bs) = Inr (dstate e, codepoint e)"
    have h: "error_handler (ser e) = error_handler z" using e(2) by (simp add: same_style_def)
    show ?thesis
    proof (cases "dstate e = UTF8_ACCEPT")
      case True
      have "valid_utf8 bs" if "error_handler z = strict" using e(3) that True decode_run_accepts by simp
      moreover have "same_style (ser e) (ser (if 0 < nbytes e then flush_buffer (nbytes e) e else e))" by simp
      ultimately show ?thesis using e(1,2) True same_style_trans [of z "ser e"] by (simp add: dump_escaped_def)
    next
      case False
      have "same_style z (ser (flush_buffer (bytes_after_last_accept e) e))" using e(2) same_style_trans [of z "ser e"] by simp
      then show ?thesis
        using e(1) False h assms(2) ok
        by (cases "error_handler z") (auto simp: dump_escaped_def json_throw_def)
    qed
  qed
qed

section \<open>Replacement\<close>

text \<open>
  Printable ASCII characters without an escape, and bytes that no character begins with. Of the
  second kind every byte is replaced, by as many bytes as \<open>replacement\<close> has, and the buffer is not
  written out.
\<close>

definition plain_byte :: "byte \<Rightarrow> bool" where
  "plain_byte b \<longleftrightarrow> 0x20 \<le> uint b \<and> uint b < 0x7F \<and> b \<noteq> 0x22 \<and> b \<noteq> 0x5C"

definition bad_byte :: "byte \<Rightarrow> bool" where
  "bad_byte b \<longleftrightarrow> 0x80 \<le> uint b \<and> uint b < 0xC2 \<or> 0xF5 \<le> uint b"

definition replacement :: "bool \<Rightarrow> byte list" where
  "replacement a = (if a then [0x5C, 0x75, 0x66, 0x66, 0x66, 0x64] else [0xEF, 0xBF, 0xBD])"

definition replacing :: "escaping \<Rightarrow> bool" where
  "replacing e \<longleftrightarrow> dstate e = UTF8_ACCEPT \<and> undumped_chars e = 0 \<and> error_handler (ser e) = replace \<and>
     length (string_buffer (ser e)) = 512 \<and> bytes_after_last_accept e = nbytes e"

lemma dump_round_plain:
  assumes "replacing e" "plain_byte (s ! pos e)" "nbytes e \<le> 499"
  shows "\<exists>e'. dump_round a s e = Inr e' \<and> replacing e' \<and> pos e' = pos e + 1 \<and> nbytes e' = (nbytes e + 1) mod 500"
proof -
  let ?b = "s ! pos e"
  have b: "?b < 0x80" "0x20 \<le> uint ?b" "uint ?b < 0x7F" "?b \<noteq> 0x22" "?b \<noteq> 0x5C"
    using assms(2) by (auto simp: plain_byte_def word_less_def)
  obtain c where c: "decode UTF8_ACCEPT (codepoint e) ?b = Inr (UTF8_ACCEPT, c)" "uint c = uint ?b"
    using decode_start [of ?b "codepoint e"] b(1,3) by (auto simp: payload_def)
  let ?e = "e\<lparr>dstate := UTF8_ACCEPT, codepoint := c\<rparr>"
  have room: "nbytes ?e < length (string_buffer (ser ?e))" using assms(1,3) by (simp add: replacing_def)
  have ne: "uint ?b \<noteq> 0x22" "uint ?b \<noteq> 0x5C" using b(4,5) by (simp_all add: word_uint_eq_iff)
  have "put_codepoint a ?b ?e = put ?b ?e"
    using b(2,3) ne c(2) by (auto simp: put_codepoint_def Let_def word_uint_eq_iff word_le_def)
  then have p: "put_codepoint a ?b ?e = Inr (filled [?b] ?e)" using put_eq [OF room] by simp
  have f: "same_style (ser e) (ser (filled [?b] ?e))" using filled_written(2) [of ?e "[?b]"] room by simp
  let ?full = "nbytes e = 499"
  have d: "dump_codepoint a ?b ?e = Inr (let e2 = (if ?full then (flush_buffer (nbytes e + 1) (filled [?b] ?e))\<lparr>nbytes := 0\<rparr>
      else filled [?b] ?e) in e2\<lparr>bytes_after_last_accept := nbytes e2, undumped_chars := 0\<rparr>)"
    using p f assms(1,3) by (auto simp: dump_codepoint_def same_style_def replacing_def Let_def)
  show ?thesis
  proof (cases ?full)
    case True
    have "same_style (ser e) (ser (flush_buffer (nbytes e + 1) (filled [?b] ?e)))"
      using f same_style_trans flush_written(2) by blast
    then show ?thesis
      using True d c(1) assms(1)
      by (auto simp: dump_round_def replacing_def same_style_def Let_def)
  next
    case False
    then show ?thesis
      using d c(1) f assms(1,3)
      by (auto simp: dump_round_def replacing_def same_style_def Let_def)
  qed
qed

lemma dump_round_bad:
  assumes "replacing e" "bad_byte (s ! pos e)"
  shows "if nbytes e + length (replacement a) \<le> 512
    then \<exists>e'. dump_round a s e = Inr e' \<and> replacing e' \<and> pos e' = pos e + 1 \<and> nbytes e' = nbytes e + length (replacement a)
    else dump_round a s e = Inl (Undefined ''string_buffer'')"
proof -
  have "\<not> s ! pos e < 0x80" "utf8_ranges (uint (s ! pos e)) = None"
    using assms(2) by (auto simp: bad_byte_def utf8_ranges_def word_less_def)
  then obtain c where d: "decode (dstate e) (codepoint e) (s ! pos e) = Inr (UTF8_REJECT, c)"
    using decode_no_start assms(1) by (auto simp: replacing_def)
  let ?e = "e\<lparr>dstate := UTF8_REJECT, codepoint := c, nbytes := nbytes e\<rparr>"
  have r: "(if a then [0x5C, 0x75, 0x66, 0x66, 0x66, 0x64] else [0xEF, 0xBF, 0xBD]) = replacement a"
    by (simp add: replacement_def)
  have e: "undumped_chars e = 0" "error_handler (ser e) = replace" "length (string_buffer (ser e)) = 512"
    "bytes_after_last_accept e = nbytes e"
    using assms(1) by (simp_all add: replacing_def)
  show ?thesis
  proof (cases "nbytes e + length (replacement a) \<le> 512")
    case True
    then have "nbytes ?e + length (replacement a) \<le> length (string_buffer (ser ?e))" using e(3) by simp
    note f = puts_eq [OF this] filled_written(2) [OF this]
    show ?thesis
      using d f True e by (simp add: dump_round_def dump_rejected_def r replacing_def same_style_def Let_def)
  next
    case False
    have "puts cs x = Inl (Undefined ''string_buffer'')"
      if "length (string_buffer (ser x)) < nbytes x + length cs" "nbytes x \<le> length (string_buffer (ser x))" for cs x
      using that
    proof (induction cs arbitrary: x)
      case (Cons c cs)
      then show ?case by (cases "nbytes x < length (string_buffer (ser x))") (simp_all add: put_def)
    qed simp
    moreover have "puts (c # cs) x = Inl (Undefined ''string_buffer'')" if "length (string_buffer (ser x)) < nbytes x" for c cs x
      using that by (simp add: put_def)
    moreover have "\<exists>c cs. replacement a = c # cs" by (simp add: replacement_def)
    ultimately have "puts (replacement a) ?e = Inl (Undefined ''string_buffer'')"
      using False e(3) by (cases "nbytes e \<le> 512") auto
    then show ?thesis
      using d False e by (simp add: dump_round_def dump_rejected_def r Let_def)
  qed
qed

lemma dump_loop_plain:
  assumes "replacing e" "\<forall>b \<in> set ps. plain_byte b" "pos e \<le> length ps" "nbytes e = pos e mod 500"
  shows "\<exists>e'. dump_loop a (ps @ bs) e = dump_loop a (ps @ bs) e' \<and> replacing e' \<and> pos e' = length ps \<and>
    nbytes e' = length ps mod 500"
  using assms
proof (induction "length ps - pos e" arbitrary: e)
  case 0
  then show ?case by (intro exI [of _ e]) auto
next
  case (Suc k)
  then have p: "pos e < length ps" "pos e < length (ps @ bs)" by simp_all
  have "plain_byte ((ps @ bs) ! pos e)" using Suc.prems(2) p(1) by (simp add: nth_append)
  moreover have "nbytes e \<le> 499" unfolding Suc.prems(4) by (rule less_Suc_eq_le [THEN iffD1]) simp
  ultimately obtain e1 where e1: "dump_round a (ps @ bs) e = Inr e1" "replacing e1" "pos e1 = pos e + 1"
    "nbytes e1 = (nbytes e + 1) mod 500"
    using dump_round_plain [OF Suc.prems(1)] by blast
  have n: "nbytes e1 = pos e1 mod 500" using e1(3,4) Suc.prems(4) by (simp add: mod_Suc_eq)
  have k: "k = length ps - pos e1" "pos e1 \<le> length ps" using Suc.hyps(2) e1(3) p(1) by simp_all
  obtain e' where "dump_loop a (ps @ bs) e1 = dump_loop a (ps @ bs) e'" "replacing e'" "pos e' = length ps"
    "nbytes e' = length ps mod 500"
    using Suc.hyps(1) [OF k(1) e1(2) Suc.prems(2) k(2) n] by blast
  then show ?case using dump_loop_step [OF p(2) e1(1)] by auto
qed

lemma dump_loop_bad:
  assumes "replacing e" "pos e \<le> length s" "\<forall>i. pos e \<le> i \<and> i < length s \<longrightarrow> bad_byte (s ! i)" "nbytes e \<le> 512"
  shows "if nbytes e + length (replacement a) * (length s - pos e) \<le> 512
    then \<exists>e'. dump_loop a s e = Inr e' \<and> dstate e' = UTF8_ACCEPT
    else dump_loop a s e = Inl (Undefined ''string_buffer'')"
  using assms
proof (induction "length s - pos e" arbitrary: e)
  case 0
  then have "\<not> pos e < length s" by simp
  then show ?case using dump_loop_end 0 by (auto simp: replacing_def)
next
  case (Suc k)
  then have p: "pos e < length s" by simp
  then have b: "bad_byte (s ! pos e)" using Suc.prems(3) by simp
  note r = dump_round_bad [OF Suc.prems(1) b, of a]
  have m: "length (replacement a) * (length s - pos e) =
      length (replacement a) + length (replacement a) * (length s - (pos e + 1))"
    using Suc.hyps(2) p by (metis Suc_eq_plus1 Suc_diff_Suc mult_Suc_right)
  show ?case
  proof (cases "nbytes e + length (replacement a) \<le> 512")
    case False
    then have "dump_loop a s e = Inl (Undefined ''string_buffer'')"
      using r p by (subst dump_loop.simps) simp
    then show ?thesis using False m by simp
  next
    case True
    then obtain e1 where e1: "dump_round a s e = Inr e1" "replacing e1" "pos e1 = pos e + 1"
      "nbytes e1 = nbytes e + length (replacement a)"
      using r by auto
    have "dump_loop a s e = dump_loop a s e1"
      by (rule dump_loop_step [OF p e1(1)])
    then show ?thesis
      using Suc.hyps(1) [of e1] Suc.hyps(2) Suc.prems e1 True m by (simp add: add.assoc)
  qed
qed

lemma dump_escaped_replace:
  assumes "length (string_buffer z) = 512" "error_handler z = replace"
    and "\<forall>b \<in> set ps. plain_byte b" "\<forall>b \<in> set bs. bad_byte b"
  shows "if length ps mod 500 + length (replacement a) * length bs \<le> 512
    then \<exists>z'. dump_escaped (ps @ bs) a z = Inr z'
    else dump_escaped (ps @ bs) a z = Inl (Undefined ''string_buffer'')"
proof -
  let ?e = "\<lparr>ser = z, codepoint = 0, dstate = UTF8_ACCEPT, nbytes = 0, bytes_after_last_accept = 0, undumped_chars = 0, pos = 0\<rparr>"
  have "replacing ?e" using assms(1,2) by (simp add: replacing_def)
  then obtain e where e: "dump_loop a (ps @ bs) ?e = dump_loop a (ps @ bs) e" "replacing e" "pos e = length ps"
    "nbytes e = length ps mod 500"
    using dump_loop_plain [of ?e ps a bs] assms(3) by auto
  have "\<forall>i. pos e \<le> i \<and> i < length (ps @ bs) \<longrightarrow> bad_byte ((ps @ bs) ! i)"
  proof (intro allI impI)
    fix i assume "pos e \<le> i \<and> i < length (ps @ bs)"
    then have "\<not> i < length ps" "bs ! (i - length ps) \<in> set bs" using e(3) by (auto intro: nth_mem)
    then show "bad_byte ((ps @ bs) ! i)" using assms(4) by (simp add: nth_append)
  qed
  moreover have "nbytes e \<le> 512"
    using e(4) mod_less_divisor [of 500 "length ps"] by linarith
  ultimately show ?thesis
    using dump_loop_bad [OF e(2), of "ps @ bs" a] e by (auto simp: dump_escaped_def split: if_splits)
qed

end
