(* ===== verification/Json_Sax.thy ===== *)
theory Json_Sax
  imports Json_Value
begin

text \<open>
  The consumers of the parser's events, \<open>src/nlohmann/detail/input/json_sax.hpp\<close>: the interface
  \<open>json_sax\<close> as a record of functions on a handler's state, \<open>json_sax_dom_parser\<close>, which builds a
  value in place through pointers into it, and \<open>json_sax_acceptor\<close>, which only watches for errors.
\<close>

section \<open>The interface\<close>

text \<open>Every function says whether parsing should proceed, and may throw.\<close>

record 'h sax =
  sax_null :: "'h \<Rightarrow> (bool \<times> 'h) res"
  sax_boolean :: "bool \<Rightarrow> 'h \<Rightarrow> (bool \<times> 'h) res"
  sax_number_integer :: "int64 \<Rightarrow> 'h \<Rightarrow> (bool \<times> 'h) res"
  sax_number_unsigned :: "u64 \<Rightarrow> 'h \<Rightarrow> (bool \<times> 'h) res"
  sax_number_float :: "double \<Rightarrow> byte list \<Rightarrow> 'h \<Rightarrow> (bool \<times> 'h) res"
  sax_string :: "byte list \<Rightarrow> 'h \<Rightarrow> (bool \<times> 'h) res"
  sax_start_object :: "u64 \<Rightarrow> 'h \<Rightarrow> (bool \<times> 'h) res"
  sax_key :: "byte list \<Rightarrow> 'h \<Rightarrow> (bool \<times> 'h) res"
  sax_end_object :: "'h \<Rightarrow> (bool \<times> 'h) res"
  sax_start_array :: "u64 \<Rightarrow> 'h \<Rightarrow> (bool \<times> 'h) res"
  sax_end_array :: "'h \<Rightarrow> (bool \<times> 'h) res"
  sax_parse_error :: "nat \<Rightarrow> string \<Rightarrow> json_exception \<Rightarrow> 'h \<Rightarrow> (bool \<times> 'h) res"

section \<open>Pointers into a value\<close>

text \<open>
  A \<open>BasicJsonType*\<close> into the value under construction is the way to its target from the root:
  elements of arrays by index, members of objects by key.
\<close>

datatype ref_step = Elem nat | Member "byte list"

type_synonym ref = "ref_step list"

fun json_at :: "ref \<Rightarrow> json \<Rightarrow> json option" where
  "json_at [] j = Some j"
| "json_at (Elem n # r) (JArray xs) = (if n < length xs then json_at r (xs ! n) else None)"
| "json_at (Member k # r) (JObject m) = (case map_find k m of None \<Rightarrow> None | Some v \<Rightarrow> json_at r v)"
| "json_at (_ # _) _ = None"

text \<open>Changing the target by \<open>f\<close>; a pointer without target changes nothing.\<close>

fun json_update :: "ref \<Rightarrow> (json \<Rightarrow> json) \<Rightarrow> json \<Rightarrow> json" where
  "json_update [] f j = f j"
| "json_update (Elem n # r) f (JArray xs) =
     (if n < length xs then JArray (xs[n := json_update r f (xs ! n)]) else JArray xs)"
| "json_update (Member k # r) f (JObject m) =
     (case map_find k m of None \<Rightarrow> JObject m | Some v \<Rightarrow> JObject (map_assign k (json_update r f v) m))"
| "json_update (_ # _) f j = j"

text \<open>Reading through a pointer: without a target the behaviour is undefined.\<close>

definition load :: "ref \<Rightarrow> json \<Rightarrow> json res" where
  "load r j = deref ''pointer into a JSON value'' (json_at r j)"

section \<open>The DOM parser\<close>

text \<open>
  The back of \<open>ref_stack\<close> is the head of the list; \<open>None\<close> is the null pointer. The limits of the
  containers of the C++ library are members too.
\<close>

record dom =
  root :: json
  ref_stack :: "ref list"
  object_element :: "ref option"
  errored :: bool
  allow_exceptions :: bool
  container_max_size :: u64

definition json_sax_dom_parser :: "u64 \<Rightarrow> json \<Rightarrow> bool \<Rightarrow> dom" where
  "json_sax_dom_parser limit r allow =
     \<lparr>root = r, ref_stack = [], object_element = None, errored = False, allow_exceptions = allow,
      container_max_size = limit\<rparr>"

definition handle_value :: "json \<Rightarrow> dom \<Rightarrow> (ref \<times> dom) res" where
  "handle_value v d =
     (case ref_stack d of
        [] \<Rightarrow> Inr ([], d\<lparr>root := v\<rparr>)
      | r # _ \<Rightarrow>
          bind_res (load r (root d)) (\<lambda>back.
          bind_res (c_assert (is_array back \<or> is_object back) ''is_array() or is_object()'') (\<lambda>_.
          case back of
            JArray xs \<Rightarrow> Inr (r @ [Elem (length xs)], d\<lparr>root := json_update r (\<lambda>_. JArray (xs @ [v])) (root d)\<rparr>)
          | _ \<Rightarrow>
              (case object_element d of
                 None \<Rightarrow> Inl (AssertFailed ''object_element'')
               | Some e \<Rightarrow> bind_res (load e (root d)) (\<lambda>_.
                   Inr (e, d\<lparr>root := json_update e (\<lambda>_. v) (root d)\<rparr>))))))"

definition dom_value :: "json \<Rightarrow> dom \<Rightarrow> (bool \<times> dom) res" where
  "dom_value v d = bind_res (handle_value v d) (\<lambda>(_, d'). Inr (True, d'))"

text \<open>\<open>start_object\<close> and \<open>start_array\<close>: the new container is pushed.\<close>

definition dom_start :: "json \<Rightarrow> string \<Rightarrow> u64 \<Rightarrow> dom \<Rightarrow> (bool \<times> dom) res" where
  "dom_start v what len d =
     bind_res (handle_value v d) (\<lambda>(r, d1).
     let d2 = d1\<lparr>ref_stack := r # ref_stack d1\<rparr>
     in if len \<noteq> - 1 \<and> container_max_size d2 < len
        then json_throw (out_of_range_create 408 (''excessive '' @ what @ '' size: '' @ to_string (unat len)))
        else Inr (True, d2))"

text \<open>\<open>end_object\<close> and \<open>end_array\<close>.\<close>

definition dom_end :: "dom \<Rightarrow> (bool \<times> dom) res" where
  "dom_end d =
     (case ref_stack d of
        [] \<Rightarrow> Inl (Undefined ''pop_back of an empty vector'')
      | _ # rs \<Rightarrow> Inr (True, d\<lparr>ref_stack := rs\<rparr>))"

definition dom_key :: "byte list \<Rightarrow> dom \<Rightarrow> (bool \<times> dom) res" where
  "dom_key val d =
     (case ref_stack d of
        [] \<Rightarrow> Inl (Undefined ''back of an empty vector'')
      | r # _ \<Rightarrow>
          bind_res (load r (root d)) (\<lambda>back.
          case back of
            JObject m \<Rightarrow> Inr (True, d\<lparr>root := json_update r (\<lambda>_. JObject (map_at val m)) (root d),
                                     object_element := Some (r @ [Member val])\<rparr>)
          | _ \<Rightarrow> Inl (Undefined ''m_value.object of a value that is no object'')))"

definition dom_parse_error :: "nat \<Rightarrow> string \<Rightarrow> json_exception \<Rightarrow> dom \<Rightarrow> (bool \<times> dom) res" where
  "dom_parse_error pos lt ex d =
     (let d1 = d\<lparr>errored := True\<rparr>
      in if allow_exceptions d1 then
           (if ex_id ex div 100 mod 100 \<in> {1, 2, 3, 4, 5} then json_throw ex else Inl (AssertFailed ''false''))
         else Inr (False, d1))"

definition dom_sax :: "dom sax" where
  "dom_sax =
     \<lparr>sax_null = dom_value JNull, sax_boolean = (\<lambda>b. dom_value (JBoolean b)),
      sax_number_integer = (\<lambda>n. dom_value (JInteger n)),
      sax_number_unsigned = (\<lambda>n. dom_value (JUnsigned n)),
      sax_number_float = (\<lambda>x s. dom_value (JFloat x)), sax_string = (\<lambda>s. dom_value (JString s)),
      sax_start_object = dom_start (json_of_type object_t) ''object'', sax_key = dom_key,
      sax_end_object = dom_end,
      sax_start_array = dom_start (json_of_type array_t) ''array'', sax_end_array = dom_end,
      sax_parse_error = dom_parse_error\<rparr>"

section \<open>The acceptor\<close>

definition acceptor_sax :: "unit sax" where
  "acceptor_sax =
     \<lparr>sax_null = (\<lambda>u. Inr (True, u)), sax_boolean = (\<lambda>_ u. Inr (True, u)),
      sax_number_integer = (\<lambda>_ u. Inr (True, u)), sax_number_unsigned = (\<lambda>_ u. Inr (True, u)),
      sax_number_float = (\<lambda>_ _ u. Inr (True, u)), sax_string = (\<lambda>_ u. Inr (True, u)),
      sax_start_object = (\<lambda>_ u. Inr (True, u)), sax_key = (\<lambda>_ u. Inr (True, u)),
      sax_end_object = (\<lambda>u. Inr (True, u)), sax_start_array = (\<lambda>_ u. Inr (True, u)),
      sax_end_array = (\<lambda>u. Inr (True, u)), sax_parse_error = (\<lambda>_ _ _ u. Inr (False, u))\<rparr>"

end
