(* ===== verification/Json_Parser.thy ===== *)
theory Json_Parser
  imports Json_Lexer Json_Sax
begin

text \<open>
  The parser of \<open>src/nlohmann/detail/input/parser.hpp\<close>: \<open>sax_parse_internal\<close>, its loop over the
  tokens of the lexer, for any consumer of events, and the functions built on it. The parser
  has no callback here, as in every use in the program.
\<close>

section \<open>Tokens and messages\<close>

record parser =
  last_token :: token_type
  m_lexer :: lexer

definition get_token :: "parser \<Rightarrow> (token_type \<times> parser) res" where
  "get_token p =
     bind_res (scan (m_lexer p)) (\<lambda>(t, s). Inr (t, p\<lparr>last_token := t, m_lexer := s\<rparr>))"

definition new_parser :: "byte \<Rightarrow> byte list \<Rightarrow> parser res" where
  "new_parser dp input =
     bind_res (get_token \<lparr>last_token = uninitialized, m_lexer = new_lexer dp input\<rparr>) (\<lambda>(_, p). Inr p)"

definition exception_message :: "parser \<Rightarrow> token_type \<Rightarrow> string \<Rightarrow> string" where
  "exception_message p expected cxt =
     ''syntax error '' @
     (if cxt \<noteq> [] then ''while parsing '' @ cxt @ '' '' else []) @ ''- '' @
     (if last_token p = parse_error_token
      then error_message (m_lexer p) @ ''; last read: '' @ squote (get_token_string (m_lexer p))
      else ''unexpected '' @ token_type_name (last_token p)) @
     (if expected \<noteq> uninitialized then ''; expected '' @ token_type_name expected else [])"

definition get_position :: "parser \<Rightarrow> position_t" where
  "get_position p = position (m_lexer p)"

definition syntax_error :: "parser \<Rightarrow> token_type \<Rightarrow> string \<Rightarrow> json_exception" where
  "syntax_error p expected cxt =
     (let pos = get_position p
      in parse_error_create 101 (lines_read pos) (chars_read_current_line pos) (chars_read_total pos)
           (exception_message p expected cxt))"

section \<open>One round of the loop\<close>

text \<open>
  The state of the loop: the parser, the consumer, the stack of open containers (true for an
  array, the back at the head of the list) and \<open>skip_to_state_evaluation\<close>. A round returns the
  value of the function, or \<open>None\<close> to continue.
\<close>

record 'h loop =
  psr :: parser
  handler :: 'h
  states :: "bool list"
  skip_to_state_evaluation :: bool

type_synonym 'h round = "(bool option \<times> 'h loop) res"

definition report :: "'h sax \<Rightarrow> json_exception \<Rightarrow> 'h loop \<Rightarrow> 'h round" where
  "report S ex l =
     bind_res (sax_parse_error S (chars_read_total (get_position (psr l))) (get_token_string (m_lexer (psr l))) ex
                 (handler l)) (\<lambda>(b, h).
     Inr (Some b, l\<lparr>handler := h\<rparr>))"

text \<open>
  Calling the consumer: when it answers false the function returns false, otherwise it goes on.
\<close>

definition tell :: "('h \<Rightarrow> (bool \<times> 'h) res) \<Rightarrow> 'h loop \<Rightarrow> ('h loop \<Rightarrow> 'h round) \<Rightarrow> 'h round" where
  "tell f l k = bind_res (f (handler l)) (\<lambda>(b, h).
     let l1 = l\<lparr>handler := h\<rparr> in if b then k l1 else Inr (Some False, l1))"

definition next_token :: "'h loop \<Rightarrow> (token_type \<Rightarrow> 'h loop \<Rightarrow> 'h round) \<Rightarrow> 'h round" where
  "next_token l k = bind_res (get_token (psr l)) (\<lambda>(t, p). k t (l\<lparr>psr := p\<rparr>))"

text \<open>
  The part of the loop behind a complete value (\<open>states.empty ()\<close> and what follows it).
\<close>

definition parse_key :: "'h sax \<Rightarrow> 'h loop \<Rightarrow> ('h loop \<Rightarrow> 'h round) \<Rightarrow> 'h round" where
  "parse_key S l k =
     tell (sax_key S (token_buffer (m_lexer (psr l)))) l (\<lambda>l1.
     next_token l1 (\<lambda>t l2.
     if t \<noteq> name_separator
     then report S (syntax_error (psr l2) name_separator ''object separator'') l2
     else k l2))"

definition evaluate_state :: "'h sax \<Rightarrow> 'h loop \<Rightarrow> 'h round" where
  "evaluate_state S l =
     (case states l of
        [] \<Rightarrow> Inr (Some True, l)
      | True # outer \<Rightarrow>
          next_token l (\<lambda>t l1.
          if t = value_separator then next_token l1 (\<lambda>_ l2. Inr (None, l2))
          else if t = end_array_token then
            tell (sax_end_array S) l1 (\<lambda>l2.
            Inr (None, l2\<lparr>states := outer, skip_to_state_evaluation := True\<rparr>))
          else report S (syntax_error (psr l1) end_array_token ''array'') l1)
      | False # outer \<Rightarrow>
          next_token l (\<lambda>t l1.
          if t = value_separator then
            next_token l1 (\<lambda>t2 l2.
            if t2 \<noteq> value_string
            then report S (syntax_error (psr l2) value_string ''object key'') l2
            else parse_key S l2 (\<lambda>l3. next_token l3 (\<lambda>_ l4. Inr (None, l4))))
          else if t = end_object_token then
            tell (sax_end_object S) l1 (\<lambda>l2.
            Inr (None, l2\<lparr>states := outer, skip_to_state_evaluation := True\<rparr>))
          else report S (syntax_error (psr l1) end_object_token ''object'') l1))"

text \<open>The switch over \<open>last_token\<close>.\<close>

definition parse_value :: "'h sax \<Rightarrow> 'h loop \<Rightarrow> 'h round" where
  "parse_value S l =
     (let s = m_lexer (psr l) in
      case last_token (psr l) of
        begin_object \<Rightarrow>
          tell (sax_start_object S (- 1)) l (\<lambda>l1.
          next_token l1 (\<lambda>t l2.
          if t = end_object_token then tell (sax_end_object S) l2 (evaluate_state S)
          else if t \<noteq> value_string
          then report S (syntax_error (psr l2) value_string ''object key'') l2
          else parse_key S l2 (\<lambda>l3.
            next_token (l3\<lparr>states := False # states l3\<rparr>) (\<lambda>_ l4. Inr (None, l4)))))
      | begin_array \<Rightarrow>
          tell (sax_start_array S (- 1)) l (\<lambda>l1.
          next_token l1 (\<lambda>t l2.
          if t = end_array_token then tell (sax_end_array S) l2 (evaluate_state S)
          else Inr (None, l2\<lparr>states := True # states l2\<rparr>)))
      | value_float_token \<Rightarrow>
          (if \<not> isfinite (value_float s)
           then report S (out_of_range_create 406
                  (''number overflow parsing '' @ squote (get_token_string s))) l
           else tell (sax_number_float S (value_float s) (token_buffer s)) l (evaluate_state S))
      | literal_false \<Rightarrow> tell (sax_boolean S False) l (evaluate_state S)
      | literal_null \<Rightarrow> tell (sax_null S) l (evaluate_state S)
      | literal_true \<Rightarrow> tell (sax_boolean S True) l (evaluate_state S)
      | value_integer_token \<Rightarrow> tell (sax_number_integer S (value_integer s)) l (evaluate_state S)
      | value_string \<Rightarrow> tell (sax_string S (token_buffer s)) l (evaluate_state S)
      | value_unsigned \<Rightarrow> tell (sax_number_unsigned S (value_unsigned_number s)) l (evaluate_state S)
      | parse_error_token \<Rightarrow> report S (syntax_error (psr l) uninitialized ''value'') l
      | _ \<Rightarrow> report S (syntax_error (psr l) literal_or_value ''value'') l)"

definition parse_round :: "'h sax \<Rightarrow> 'h loop \<Rightarrow> 'h round" where
  "parse_round S l =
     (if skip_to_state_evaluation l then evaluate_state S (l\<lparr>skip_to_state_evaluation := False\<rparr>)
      else parse_value S l)"

section \<open>How much input is left\<close>

lemma remaining_scan_string_loop:
  "scan_string_loop s = Inr (t, s') \<Longrightarrow> remaining s' \<le> remaining s"
proof (induction s rule: scan_string_loop.induct)
  case (1 s)
  then show ?case
    using remaining_string_round(1) [of s]
    by (subst (asm) (2) scan_string_loop.simps) (fastforce split: sum.splits option.splits prod.splits)
qed

lemma remaining_number_loop:
  "number_loop l ty s = (l', ty', s') \<Longrightarrow> remaining s' \<le> remaining s"
proof (induction l ty s rule: number_loop.induct)
  case (1 l ty s)
  then show ?case
    using number_block_le [of l ty s]
    by (subst (asm) (2) number_loop.simps) (fastforce split: if_splits prod.splits)
qed

text \<open>The character behind a number is put back, so the lexer has read less than it seems.\<close>

lemma number_loop_done:
  assumes "number_loop l ty s = (number_done, ty', s')" and "l \<noteq> number_done"
  shows "\<exists>s0. s' = lex_get s0 \<and> remaining s0 \<le> remaining s"
  using assms
proof (induction l ty s rule: number_loop.induct)
  case (1 l ty s)
  show ?case
  proof (cases "number_block l ty s")
    case (fields l1 ty1 s1)
    show ?thesis
    proof (cases "l1 = number_done \<or> l1 = number_failed")
      case True
      then have "number_block l ty s = (number_done, ty', s')"
        using 1 fields by (subst (asm) (2) number_loop.simps) (auto split: if_splits)
      then have "s' = lex_get s" using 1(3) by (cases l) (auto simp: Let_def split: if_splits)
      then show ?thesis by blast
    next
      case False
      then have l: "\<not> (l = number_done \<or> l = number_failed)"
        using fields by (cases l) auto
      then have "number_loop l1 ty1 s1 = (number_done, ty', s')"
        using 1(2) fields False by (subst (asm) number_loop.simps) simp
      then obtain s0 where "s' = lex_get s0" "remaining s0 \<le> remaining s1"
        using 1(1) [OF l fields [symmetric] refl False] False fields by auto
      then show ?thesis using number_block_le [OF fields] by (auto intro: order_trans)
    qed
  qed
qed

lemma remaining_unget:
  "unget (lex_get s) = Inr s' \<Longrightarrow> remaining s' \<le> remaining s"
  using remaining_get_less [of s]
  by (auto simp: unget_def Let_def remaining_def bind_res_eq_Inr split: if_splits)

lemma remaining_convert_float: "convert_float s = Inr (t, s') \<Longrightarrow> remaining s' = remaining s \<and> t \<noteq> end_of_input"
  by (auto simp: convert_float_def bind_res_eq_Inr remaining_def split: prod.splits)

lemma remaining_convert_number:
  "convert_number ty s = Inr (t, s') \<Longrightarrow> remaining s' = remaining s \<and> t \<noteq> end_of_input"
  by (auto simp: convert_number_def bind_res_eq_Inr remaining_def
      dest: remaining_convert_float [unfolded remaining_def] split: prod.splits if_splits)

lemma remaining_scan_number:
  assumes "scan_number s = Inr (t, s')"
  shows "remaining s' \<le> remaining s \<and> t \<noteq> end_of_input"
proof -
  let ?c = "lex_current (reset s)"
  let ?l = "if ?c = 0x2D then number_minus else if ?c = 0x30 then number_zero else number_any1"
  obtain l ty s1 where n: "number_loop ?l value_unsigned (lex_add ?c (reset s)) = (l, ty, s1)"
    by (cases "number_loop ?l value_unsigned (lex_add ?c (reset s))")
  have r: "remaining (lex_add ?c (reset s)) = remaining s" by (simp add: remaining_def reset_def lex_add_def)
  show ?thesis
  proof (cases "l = number_failed")
    case True
    then show ?thesis
      using assms n remaining_number_loop [OF n] r by (auto simp: scan_number_def Let_def split: if_splits)
  next
    case False
    then have d: "l = number_done" using number_loop_ends [OF n] by simp
    obtain s2 where s2: "unget s1 = Inr s2" "convert_number ty s2 = Inr (t, s')"
      using assms n False by (auto simp: scan_number_def Let_def bind_res_eq_Inr split: if_splits)
    have "?l \<noteq> number_done" by simp
    then obtain s0 where "s1 = lex_get s0" "remaining s0 \<le> remaining s"
      using number_loop_done [OF n [unfolded d]] r by auto
    then show ?thesis
      using remaining_unget [of s0 s2] s2 remaining_convert_number [OF s2(2)] by auto
  qed
qed

lemma remaining_scan_string:
  "scan_string s = Inr (t, s') \<Longrightarrow> remaining s' \<le> remaining s"
  using remaining_scan_string_loop [of "reset s" t s']
  by (auto simp: scan_string_def bind_res_eq_Inr Let_def remaining_def reset_def)

lemma remaining_literal_loop: "literal_loop bs s = (b, s') \<Longrightarrow> remaining s' \<le> remaining s"
proof (induction bs s arbitrary: b s' rule: literal_loop.induct)
  case (2 c bs s)
  then show ?case using remaining_get [of s] by (fastforce simp: Let_def split: if_splits)
qed simp

lemma remaining_scan_literal:
  "scan_literal bs t s = Inr (t', s') \<Longrightarrow> remaining s' \<le> remaining s"
  by (auto simp: scan_literal_def bind_res_eq_Inr fail_with_def dest: remaining_literal_loop
      split: prod.splits bool.splits)

lemma remaining_scan_token:
  "scan_token s = Inr (t, s') \<Longrightarrow> remaining s' \<le> remaining s \<and> (lex_current s = EOF \<longrightarrow> t = end_of_input)"
  by (auto simp: scan_token_def Let_def fail_with_def digit_char_def split: if_splits
      dest: remaining_scan_literal remaining_scan_string remaining_scan_number)

lemma remaining_skip_white:
  "remaining (skip_white s) \<le> remaining s \<and> (lex_current (skip_white s) \<noteq> EOF \<longrightarrow> remaining (skip_white s) < remaining s)"
proof (induction s rule: skip_white.induct)
  case (1 s)
  show ?case
  proof (cases "white (lex_current (lex_get s))")
    case True
    then have "skip_white s = skip_white (lex_get s)" by (subst skip_white.simps) simp
    then show ?thesis using 1 [OF refl True] remaining_get [of s] by auto
  next
    case False
    then have "skip_white s = lex_get s" by (subst skip_white.simps) simp
    then show ?thesis using remaining_get [of s] remaining_get_less [of s] by simp
  qed
qed

lemma remaining_skip_bom:
  assumes "skip_bom s = Inr (ok, s')"
  shows "remaining s' \<le> remaining s \<and> (\<not> ok \<longrightarrow> remaining s' < remaining s)"
proof -
  have "remaining s' < remaining s" if "lex_current (lex_get s) = 0xEF"
    using assms that remaining_get_less [of s] remaining_get [of "lex_get s"] remaining_get [of "lex_get (lex_get s)"]
    by (auto simp: skip_bom_def Let_def split: if_splits)
  then show ?thesis
    using assms remaining_unget [of s]
    by (cases "lex_current (lex_get s) = 0xEF") (auto simp: skip_bom_def Let_def bind_res_eq_Inr)
qed

lemma remaining_scan:
  assumes "scan s = Inr (t, s')"
  shows "remaining s' \<le> remaining s" and "t \<noteq> end_of_input \<Longrightarrow> remaining s' < remaining s"
proof -
  obtain ok s1 where s1: "(if chars_read_total (position s) = 0 then skip_bom s else Inr (True, s)) = Inr (ok, s1)"
    and r: "(if \<not> ok then Inr (fail_with ''invalid BOM; must be 0xEF 0xBB 0xBF if given'' s1)
       else scan_token (skip_white s1)) = Inr (t, s')"
    using assms by (auto simp: scan_def bind_res_eq_Inr)
  have b: "remaining s1 \<le> remaining s \<and> (\<not> ok \<longrightarrow> remaining s1 < remaining s)"
    using s1 remaining_skip_bom by (auto split: if_splits)
  show "remaining s' \<le> remaining s"
    using r b remaining_scan_token [of "skip_white s1" t s'] remaining_skip_white [of s1]
    by (auto simp: fail_with_def split: if_splits)
  assume "t \<noteq> end_of_input"
  then show "remaining s' < remaining s"
    using r b remaining_scan_token [of "skip_white s1" t s'] remaining_skip_white [of s1]
    by (auto simp: fail_with_def split: if_splits)
qed

section \<open>The loop\<close>

text \<open>
  Every round that goes on has read a character, or the last token was not the end of the input
  and now is.
\<close>

definition loop_measure :: "'h loop \<Rightarrow> nat" where
  "loop_measure l = 2 * remaining (m_lexer (psr l)) + (if last_token (psr l) = end_of_input then 0 else 1)"

definition left :: "'h loop \<Rightarrow> nat" where
  "left l = remaining (m_lexer (psr l))"

lemma left_simps [simp]:
  "left (l\<lparr>handler := h\<rparr>) = left l" "left (l\<lparr>states := st\<rparr>) = left l"
  "left (l\<lparr>skip_to_state_evaluation := b\<rparr>) = left l"
  by (simp_all add: left_def)

lemma next_token_Inr:
  assumes "next_token l k = Inr r"
  shows "\<exists>t l1. k t l1 = Inr r \<and> left l1 \<le> left l \<and> (t \<noteq> end_of_input \<longrightarrow> left l1 < left l) \<and>
    last_token (psr l1) = t \<and> states l1 = states l \<and> handler l1 = handler l \<and>
    skip_to_state_evaluation l1 = skip_to_state_evaluation l"
proof -
  obtain t p where "get_token (psr l) = Inr (t, p)" and k: "k t (l\<lparr>psr := p\<rparr>) = Inr r"
    using assms by (auto simp: next_token_def bind_res_eq_Inr)
  then obtain s where s: "scan (m_lexer (psr l)) = Inr (t, s)" and p: "p = psr l\<lparr>last_token := t, m_lexer := s\<rparr>"
    by (auto simp: get_token_def bind_res_eq_Inr)
  show ?thesis
    using k remaining_scan [OF s] unfolding p
    by (intro exI [of _ t] exI [of _ "l\<lparr>psr := psr l\<lparr>last_token := t, m_lexer := s\<rparr>\<rparr>"])
      (simp add: left_def)
qed

lemma tell_Inr:
  "tell f l k = Inr (r, l') \<Longrightarrow>
     (\<exists>h. f (handler l) = Inr (True, h) \<and> k (l\<lparr>handler := h\<rparr>) = Inr (r, l')) \<or> r = Some False"
  by (auto simp: tell_def bind_res_eq_Inr Let_def split: if_splits)

lemma report_Inr: "report S ex l = Inr (r, l') \<Longrightarrow> r \<noteq> None"
  by (auto simp: report_def bind_res_eq_Inr)

lemma parse_key_Inr:
  "parse_key S l k = Inr (None, l') \<Longrightarrow> \<exists>l1. left l1 < left l \<and> k l1 = Inr (None, l')"
  by (auto simp: parse_key_def dest!: tell_Inr next_token_Inr report_Inr split: if_splits)

lemma evaluate_state_less: "evaluate_state S l = Inr (None, l') \<Longrightarrow> left l' < left l"
  by (auto simp: evaluate_state_def split: list.splits bool.splits if_splits
      dest!: next_token_Inr tell_Inr report_Inr parse_key_Inr)

lemma parse_value_less:
  assumes "parse_value S l = Inr (None, l')"
  shows "left l' < left l \<or>
    last_token (psr l) \<noteq> end_of_input \<and> last_token (psr l') = end_of_input \<and> left l' \<le> left l"
  using assms
  by (auto simp: parse_value_def Let_def split: token_type.splits if_splits
      dest!: next_token_Inr tell_Inr report_Inr parse_key_Inr evaluate_state_less)

lemma parse_round_less:
  assumes "parse_round S l = Inr (None, l')"
  shows "loop_measure l' < loop_measure l"
proof -
  have "left l' < left l \<or>
    last_token (psr l) \<noteq> end_of_input \<and> last_token (psr l') = end_of_input \<and> left l' \<le> left l"
    using assms evaluate_state_less [of S "l\<lparr>skip_to_state_evaluation := False\<rparr>" l'] parse_value_less [of S l l']
    by (auto simp: parse_round_def split: if_splits)
  then show ?thesis by (auto simp: loop_measure_def left_def)
qed

function sax_parse_loop :: "'h sax \<Rightarrow> 'h loop \<Rightarrow> (bool \<times> 'h loop) res" where
  "sax_parse_loop S l =
     (case parse_round S l of
        Inl e \<Rightarrow> Inl e
      | Inr (Some b, l') \<Rightarrow> Inr (b, l')
      | Inr (None, l') \<Rightarrow> sax_parse_loop S l')"
  by pat_completeness auto
termination
  by (relation "measure (\<lambda>(S, l). loop_measure l)") (auto dest: parse_round_less)

declare sax_parse_loop.simps [simp del]

definition sax_parse_internal :: "'h sax \<Rightarrow> parser \<Rightarrow> 'h \<Rightarrow> (bool \<times> parser \<times> 'h) res" where
  "sax_parse_internal S p h =
     bind_res (sax_parse_loop S \<lparr>psr = p, handler = h, states = [], skip_to_state_evaluation = False\<rparr>)
       (\<lambda>(b, l). Inr (b, psr l, handler l))"

section \<open>Entry points\<close>

text \<open>\<open>sax_parse\<close>, also for \<open>accept\<close>.\<close>

definition sax_parse :: "'h sax \<Rightarrow> bool \<Rightarrow> parser \<Rightarrow> 'h \<Rightarrow> (bool \<times> 'h) res" where
  "sax_parse S strict p h =
     bind_res (sax_parse_internal S p h) (\<lambda>(b, p1, h1).
     if b \<and> strict then
       bind_res (get_token p1) (\<lambda>(t, p2).
       if t \<noteq> end_of_input
       then sax_parse_error S (chars_read_total (get_position p2)) (get_token_string (m_lexer p2))
              (syntax_error p2 end_of_input ''value'') h1
       else Inr (b, h1))
     else Inr (b, h1))"

definition accept :: "bool \<Rightarrow> parser \<Rightarrow> bool res" where
  "accept strict p = bind_res (sax_parse acceptor_sax strict p ()) (\<lambda>(b, _). Inr b)"

text \<open>\<open>parse\<close> without a callback: the value at \<open>result\<close> before and after.\<close>

definition parse :: "u64 \<Rightarrow> bool \<Rightarrow> bool \<Rightarrow> parser \<Rightarrow> json \<Rightarrow> json res" where
  "parse limit allow strict p result =
     bind_res (sax_parse_internal dom_sax p (json_sax_dom_parser limit result allow)) (\<lambda>(b, p1, sdp).
     bind_res (if strict
               then bind_res (get_token p1) (\<lambda>(t, p2).
                 if t \<noteq> end_of_input
                 then bind_res (sax_parse_error dom_sax (chars_read_total (get_position p2))
                        (get_token_string (m_lexer p2)) (syntax_error p2 end_of_input ''value'') sdp)
                      (\<lambda>(_, sdp'). Inr sdp')
                 else Inr sdp)
               else Inr sdp) (\<lambda>sdp1.
     if errored sdp1 then Inr JDiscarded else Inr (root sdp1)))"

text \<open>
  \<open>operator>>\<close> of \<open>src/nlohmann/json.hpp\<close> on a stream that delivers the bytes \<open>input\<close>: not strict, with
  exceptions.
\<close>

definition json_from_stream :: "u64 \<Rightarrow> byte \<Rightarrow> byte list \<Rightarrow> json \<Rightarrow> json res" where
  "json_from_stream limit dp input j =
     bind_res (new_parser dp input) (\<lambda>p. parse limit True False p j)"

end
