(* ===== verification/Json_Dom.thy ===== *)
theory Json_Dom
  imports Json_Sax
begin

text \<open>
  The DOM parser of \<open>src/nlohmann/detail/input/json_sax.hpp\<close> builds its value in place, through
  pointers to the open containers. Here it is shown to implement a stack: the containers around the
  place where the next value goes, each with what it holds so far.
\<close>

section \<open>Contexts\<close>

text \<open>
  A container with a hole for its next value: an array with its elements, or an object with the key of
  the member, which it holds already. The innermost container is the first of a list.
\<close>

datatype frame = ArrayFrame "json list" | ObjectFrame "(byte list \<times> json) list" "byte list"

fun fill :: "frame \<Rightarrow> json \<Rightarrow> json" where
  "fill (ArrayFrame xs) v = JArray (xs @ [v])"
| "fill (ObjectFrame m k) v = JObject (map_assign k v m)"

fun plug :: "frame list \<Rightarrow> json \<Rightarrow> json" where
  "plug [] v = v"
| "plug (f # fs) v = plug fs (fill f v)"

fun frame_step :: "frame \<Rightarrow> ref_step" where
  "frame_step (ArrayFrame xs) = Elem (length xs)"
| "frame_step (ObjectFrame m k) = Member k"

fun path :: "frame list \<Rightarrow> ref" where
  "path [] = []"
| "path (f # fs) = path fs @ [frame_step f]"

fun frame_ok :: "frame \<Rightarrow> bool" where
  "frame_ok (ArrayFrame xs) \<longleftrightarrow> True"
| "frame_ok (ObjectFrame m k) \<longleftrightarrow> map_find k m \<noteq> None"

definition frames_ok :: "frame list \<Rightarrow> bool" where
  "frames_ok fs \<longleftrightarrow> list_all frame_ok fs"

lemma frames_ok_simps [simp]: "frames_ok []" "frames_ok (f # fs) \<longleftrightarrow> frame_ok f \<and> frames_ok fs"
  by (simp_all add: frames_ok_def)

lemma map_assign_assign [simp]: "map_assign k y (map_assign k x m) = map_assign k y m"
  by (induction k x m rule: map_assign.induct) auto

lemma json_at_fill: "frame_ok f \<Longrightarrow> json_at (frame_step f # p) (fill f v) = json_at p v"
  by (cases f) (auto simp: map_find_assign)

lemma json_update_fill: "frame_ok f \<Longrightarrow> json_update (frame_step f # p) g (fill f v) = fill f (json_update p g v)"
  by (cases f) (auto simp: map_find_assign)

lemma json_at_plug: "frames_ok fs \<Longrightarrow> json_at (path fs @ p) (plug fs v) = json_at p v"
  by (induction fs arbitrary: p v) (simp_all add: json_at_fill)

lemma json_update_plug: "frames_ok fs \<Longrightarrow> json_update (path fs @ p) g (plug fs v) = plug fs (json_update p g v)"
  by (induction fs arbitrary: p v) (simp_all add: json_update_fill)

lemmas json_at_plug0 = json_at_plug [where p = "[]", simplified]
lemmas json_update_plug0 = json_update_plug [where p = "[]", simplified]

section \<open>The states of the DOM parser\<close>

text \<open>The pointers to the open containers, the innermost first.\<close>

fun ref_paths :: "frame list \<Rightarrow> ref list" where
  "ref_paths [] = [[]]"
| "ref_paths (f # fs) = path (f # fs) # ref_paths fs"

lemma ref_paths_Cons: "\<exists>rs. ref_paths fs = path fs # rs"
  by (cases fs) simp_all

text \<open>The innermost open container is \<open>cur\<close>, in the context \<open>fs\<close>.\<close>

definition dom_open :: "frame list \<Rightarrow> json \<Rightarrow> dom \<Rightarrow> bool" where
  "dom_open fs cur d \<longleftrightarrow> frames_ok fs \<and> root d = plug fs cur \<and> ref_stack d = ref_paths fs"

text \<open>A value is expected in the context \<open>fs\<close>; a value \<open>v\<close> has been put there.\<close>

fun dom_hole :: "frame list \<Rightarrow> dom \<Rightarrow> bool" where
  "dom_hole [] d \<longleftrightarrow> ref_stack d = []"
| "dom_hole (ArrayFrame xs # fs) d \<longleftrightarrow> dom_open fs (JArray xs) d"
| "dom_hole (ObjectFrame m k # fs) d \<longleftrightarrow> dom_open fs (JObject m) d \<and> map_find k m \<noteq> None \<and>
     object_element d = Some (path fs @ [Member k])"

fun dom_filled :: "frame list \<Rightarrow> json \<Rightarrow> dom \<Rightarrow> bool" where
  "dom_filled [] v d \<longleftrightarrow> ref_stack d = [] \<and> root d = v"
| "dom_filled (f # fs) v d \<longleftrightarrow> dom_open fs (fill f v) d"

text \<open>What the calls keep.\<close>

definition same_options :: "dom \<Rightarrow> dom \<Rightarrow> bool" where
  "same_options d d' \<longleftrightarrow> errored d' = errored d \<and> allow_exceptions d' = allow_exceptions d \<and>
     container_max_size d' = container_max_size d"

lemma same_options_trans: "same_options d d1 \<Longrightarrow> same_options d1 d2 \<Longrightarrow> same_options d d2"
  by (simp add: same_options_def)

lemma handle_value_hole:
  assumes "dom_hole fs d"
  shows "\<exists>d'. handle_value v d = Inr (path fs, d') \<and> frames_ok fs \<and> root d' = plug fs v \<and> ref_stack d' = ref_stack d \<and>
    ref_stack d = (case fs of [] \<Rightarrow> [] | _ # outer \<Rightarrow> ref_paths outer) \<and> same_options d d'"
proof (cases fs)
  case Nil
  then show ?thesis using assms by (simp add: handle_value_def same_options_def)
next
  case (Cons f outer)
  obtain rs where rs: "ref_paths outer = path outer # rs" using ref_paths_Cons by blast
  show ?thesis
  proof (cases f)
    case (ArrayFrame xs)
    then have d: "frames_ok outer" "root d = plug outer (JArray xs)" "ref_stack d = ref_paths outer"
      using assms Cons by (simp_all add: dom_open_def)
    then show ?thesis
      using Cons ArrayFrame rs
      by (simp add: handle_value_def load_def json_at_plug0 json_update_plug0 is_array_def same_options_def)
  next
    case (ObjectFrame m k)
    then have d: "frames_ok outer" "root d = plug outer (JObject m)" "ref_stack d = ref_paths outer"
      "map_find k m \<noteq> None" "object_element d = Some (path outer @ [Member k])"
      using assms Cons by (simp_all add: dom_open_def)
    then show ?thesis
      using Cons ObjectFrame rs
      by (auto simp: handle_value_def load_def json_at_plug0 json_at_plug json_update_plug is_object_def same_options_def)
  qed
qed

lemma dom_value_hole:
  assumes "dom_hole fs d"
  shows "\<exists>d'. dom_value v d = Inr (True, d') \<and> dom_filled fs v d' \<and> same_options d d'"
  using handle_value_hole [OF assms, of v]
  by (cases fs) (auto simp: dom_value_def dom_open_def)

text \<open>A new container becomes the current one; its end completes it as a value of the outer one.\<close>

lemma dom_start_sized:
  assumes "dom_hole fs d" "len = - 1 \<or> len \<le> container_max_size d"
  shows "\<exists>d'. dom_start v what len d = Inr (True, d') \<and> dom_open fs v d' \<and> same_options d d'"
  using handle_value_hole [OF assms(1), of v] assms(2)
  by (cases fs) (auto simp: dom_start_def dom_open_def same_options_def Let_def)

lemma dom_start_hole:
  assumes "dom_hole fs d"
  shows "\<exists>d'. dom_start v what (- 1) d = Inr (True, d') \<and> dom_open fs v d' \<and> same_options d d'"
  using dom_start_sized [OF assms] by simp

lemma dom_end_open:
  assumes "dom_open fs v d"
  shows "\<exists>d'. dom_end d = Inr (True, d') \<and> dom_filled fs v d' \<and> same_options d d'"
  using assms by (cases fs) (auto simp: dom_end_def dom_open_def same_options_def)

lemma dom_key_open:
  assumes "dom_open fs (JObject m) d" "map_ok m"
  shows "\<exists>d'. dom_key k d = Inr (True, d') \<and> dom_hole (ObjectFrame (map_at k m) k # fs) d' \<and> same_options d d'"
proof -
  obtain rs where rs: "ref_paths fs = path fs # rs" using ref_paths_Cons by blast
  have "map_find k (map_at k m) \<noteq> None" using map_find_map_at [OF assms(2), of k k] by simp
  then show ?thesis
    using assms rs by (auto simp: dom_key_def dom_open_def load_def json_at_plug0 json_update_plug0 same_options_def)
qed

lemma dom_hole_array: "dom_open fs (JArray xs) d \<Longrightarrow> dom_hole (ArrayFrame xs # fs) d"
  by simp

end
