(* ===== verification/Json_Numerals.thy ===== *)
theory Json_Numerals
  imports Json_Lexer_Strings
begin

text \<open>
  The numbers of JSON as RFC 8259 defines them, and the proof that \<open>scan_number\<close> of
  \<open>src/nlohmann/detail/input/lexer.hpp\<close> reads exactly them: its state machine against the grammar,
  and the values its conversions deliver.
\<close>

section \<open>The grammar\<close>

text \<open>
  The parts of a number: a minus sign, the digits before the point, those behind it, and the
  exponent with its letter, its sign and its digits.
\<close>

record numeral =
  negative :: bool
  whole :: "byte list"
  fraction :: "byte list option"
  exponent :: "(byte \<times> byte list \<times> byte list) option"

definition digits_ok :: "byte list \<Rightarrow> bool" where
  "digits_ok ds \<longleftrightarrow> ds \<noteq> [] \<and> list_all is_digit ds"

definition whole_ok :: "byte list \<Rightarrow> bool" where
  "whole_ok ds \<longleftrightarrow> ds = [0x30] \<or> digits_ok ds \<and> hd ds \<noteq> 0x30"

definition exponent_letter :: "byte \<Rightarrow> bool" where
  "exponent_letter c \<longleftrightarrow> c = 0x65 \<or> c = 0x45"

definition numeral_ok :: "numeral \<Rightarrow> bool" where
  "numeral_ok n \<longleftrightarrow> whole_ok (whole n) \<and> pred_option digits_ok (fraction n) \<and>
     pred_option (\<lambda>(e, sg, ds). exponent_letter e \<and> sg \<in> {[], [0x2B], [0x2D]} \<and> digits_ok ds) (exponent n)"

text \<open>The text, with the decimal point \<open>dp\<close>.\<close>

definition numeral_text :: "byte \<Rightarrow> numeral \<Rightarrow> byte list" where
  "numeral_text dp n =
     (if negative n then [0x2D] else []) @ whole n @
     (case fraction n of None \<Rightarrow> [] | Some f \<Rightarrow> dp # f) @
     (case exponent n of None \<Rightarrow> [] | Some (e, sg, ds) \<Rightarrow> e # sg @ ds)"

definition plain_integer :: "numeral \<Rightarrow> bool" where
  "plain_integer n \<longleftrightarrow> fraction n = None \<and> exponent n = None"

definition numeral_int :: "numeral \<Rightarrow> int" where
  "numeral_int n = (if negative n then - digits_value (whole n) else digits_value (whole n))"

definition numeral_double :: "numeral \<Rightarrow> double" where
  "numeral_double n =
     (let f = (case fraction n of None \<Rightarrow> [] | Some f \<Rightarrow> f);
          ex = (case exponent n of None \<Rightarrow> 0
                | Some (e, sg, ds) \<Rightarrow> if sg = [0x2D] then - digits_value ds else digits_value ds)
      in nearest_double (negative n) (of_int (digits_value (whole n @ f)) * 10 powi (ex - int (length f))))"

text \<open>
  The token of a number and the value it carries: integers that fit keep their kind, everything
  else becomes a double.
\<close>

definition numeral_token :: "numeral \<Rightarrow> token_type" where
  "numeral_token n =
     (if plain_integer n \<and> \<not> negative n \<and> numeral_int n < 2 ^ 64 then value_unsigned
      else if plain_integer n \<and> negative n \<and> - (2 ^ 63) \<le> numeral_int n then value_integer_token
      else value_float_token)"

definition carries :: "numeral \<Rightarrow> lexer \<Rightarrow> bool" where
  "carries n s \<longleftrightarrow> (case numeral_token n of
       value_unsigned \<Rightarrow> value_unsigned_number s = word_of_int (numeral_int n)
     | value_integer_token \<Rightarrow> value_integer s = word_of_int (numeral_int n)
     | _ \<Rightarrow> value_float s = numeral_double n)"

text \<open>A decimal point that is none of the characters of a number.\<close>

definition point_ok :: "byte \<Rightarrow> bool" where
  "point_ok dp \<longleftrightarrow> \<not> is_digit dp \<and> \<not> exponent_letter dp"

section \<open>The conversions\<close>

lemma takeWhile_digits: "list_all is_digit ds \<Longrightarrow> takeWhile is_digit (ds @ r) = ds @ takeWhile is_digit r"
  by (induction ds) auto

lemma takeWhile_all_digits: "list_all is_digit ds \<Longrightarrow> takeWhile is_digit ds = ds"
  using takeWhile_digits [of ds "[]"] by simp

lemma drop_digits [simp]: "drop (length ds) (ds @ r) = r"
  by simp

lemma not_digit_simps [simp]:
  "\<not> is_digit 0x2D" "\<not> is_digit 0x2B" "\<not> is_digit 0x2E" "is_digit 0x30"
  by (simp_all add: is_digit_def)

lemma no_letter_simps [simp]: "\<not> exponent_letter 0x2E"
  by (simp add: exponent_letter_def)

lemma letter_no_digit: "exponent_letter c \<Longrightarrow> \<not> is_digit c"
  by (auto simp: exponent_letter_def is_digit_def)

lemma digits_value_ge_0: "list_all is_digit ds \<Longrightarrow> 0 \<le> digits_value ds"
proof (induction ds rule: rev_induct)
  case (snoc c ds)
  then show ?case using digit_value_bounds [of c] by simp
qed simp

lemma whole_digits: "whole_ok w \<Longrightarrow> digits_ok w"
  by (auto simp: whole_ok_def digits_ok_def)

lemma whole_head: "digits_ok w \<Longrightarrow> \<exists>c ds. w = c # ds \<and> is_digit c"
  by (cases w) (auto simp: digits_ok_def)

lemma strtoull_whole:
  assumes "digits_ok w"
  shows "strtoull w = (if digits_value w < 2 ^ 64 then (word_of_int (digits_value w), False, length w)
    else (2 ^ 64 - 1, True, length w))"
  using assms by (simp add: strtoull_def Let_def digits_ok_def takeWhile_all_digits)

lemma strtoll_negative:
  assumes "digits_ok w"
  shows "strtoll (0x2D # w) = (if - digits_value w < - (2 ^ 63) then (word_of_int (- (2 ^ 63)), True, Suc (length w))
    else (word_of_int (- digits_value w), False, Suc (length w)))"
  using digits_value_ge_0 [of w] assms by (simp add: strtoll_def Let_def digits_ok_def takeWhile_all_digits)

lemma strtod_numeral:
  assumes "numeral_ok n" and "point_ok dp"
  shows "strtod dp (numeral_text dp n) = (numeral_double n, length (numeral_text dp n))"
proof -
  obtain c ds where w: "whole n = c # ds" "is_digit c" "list_all is_digit (whole n)"
  proof -
    have "digits_ok (whole n)" using assms(1) whole_digits by (simp add: numeral_ok_def)
    then show ?thesis using that whole_head [of "whole n"] by (auto simp: digits_ok_def)
  qed
  have c: "c \<noteq> 0x2D" using w(2) by auto
  let ?e = "case exponent n of None \<Rightarrow> [] | Some (e, sg, ds) \<Rightarrow> e # sg @ ds"
  let ?f = "case fraction n of None \<Rightarrow> [] | Some f \<Rightarrow> dp # f"
  have e: "takeWhile is_digit ?e = []"
    using assms(1) by (auto simp: numeral_ok_def dest: letter_no_digit split: option.split)
  have fe: "takeWhile is_digit (?f @ ?e) = []"
    using assms(2) e by (auto simp: point_ok_def split: option.split)
  have tw: "takeWhile is_digit (whole n @ ?f @ ?e) = whole n"
    using takeWhile_digits [OF w(3), of "?f @ ?e"] fe by simp
  have sgn: "(case numeral_text dp n of c # _ \<Rightarrow> c = 0x2D | [] \<Rightarrow> False) = negative n"
    using w c by (auto simp: numeral_text_def)
  have s1: "(if negative n then tl (numeral_text dp n) else numeral_text dp n) = whole n @ ?f @ ?e"
    by (simp add: numeral_text_def)
  have fr: "(case ?f @ ?e of c # s3 \<Rightarrow> if c = dp then takeWhile is_digit s3 else [] | [] \<Rightarrow> []) =
      (case fraction n of None \<Rightarrow> [] | Some f \<Rightarrow> f)"
  proof (cases "fraction n")
    case None
    then show ?thesis
      using assms by (auto simp: numeral_ok_def point_ok_def split: option.split)
  next
    case (Some f)
    then have "list_all is_digit f" using assms(1) by (simp add: numeral_ok_def digits_ok_def)
    then show ?thesis using takeWhile_digits [of f ?e] e Some by simp
  qed
  have s4: "(case ?f @ ?e of c # s3 \<Rightarrow> if c = dp then drop (length (case fraction n of None \<Rightarrow> [] | Some f \<Rightarrow> f)) s3
      else ?f @ ?e | [] \<Rightarrow> []) = ?e"
    using assms by (cases "fraction n") (auto simp: numeral_ok_def point_ok_def split: option.split)
  show ?thesis
  proof (cases "exponent n")
    case None
    then show ?thesis
      unfolding strtod_def Let_def sgn s1 tw drop_digits fr s4
      by (simp add: numeral_double_def Let_def)
  next
    case (Some x)
    obtain l sg es where x: "exponent n = Some (l, sg, es)" using Some by (cases x) auto
    then have es: "exponent_letter l" "sg \<in> {[], [0x2B], [0x2D]}" "es \<noteq> []" "list_all is_digit es"
      using assms(1) by (auto simp: numeral_ok_def digits_ok_def)
    obtain d es' where "es = d # es'" and "is_digit d" using es by (cases es) auto
    then have d: "es = d # es'" "d \<noteq> 0x2B" "d \<noteq> 0x2D" by auto
    have l: "l = 0x65 \<or> l = 0x45" using es(1) by (simp add: exponent_letter_def)
    have ls: "(case l # sg @ es of e # c # _ \<Rightarrow> if (e = 0x65 \<or> e = 0x45) \<and> (c = 0x2B \<or> c = 0x2D) then [c] else []
        | _ \<Rightarrow> []) = sg"
      using l d es(2) by (auto split: list.split)
    have le: "takeWhile is_digit es = es" using takeWhile_all_digits es(4) by simp
    show ?thesis
      unfolding strtod_def Let_def sgn s1 tw drop_digits fr s4
      using ls l es(3) unfolding x
      by (simp add: le numeral_double_def x numeral_text_def Let_def)
  qed
qed


section \<open>The state machine\<close>

text \<open>The part of a number that has been read when the scan is at a label, and its type so far.\<close>

fun read_at :: "number_label \<Rightarrow> numeral \<Rightarrow> bool" where
  "read_at number_minus n \<longleftrightarrow> negative n \<and> whole n = [] \<and> plain_integer n"
| "read_at number_zero n \<longleftrightarrow> whole n = [0x30] \<and> plain_integer n"
| "read_at number_any1 n \<longleftrightarrow> digits_ok (whole n) \<and> hd (whole n) \<noteq> 0x30 \<and> plain_integer n"
| "read_at number_decimal1 n \<longleftrightarrow> whole_ok (whole n) \<and> fraction n = Some [] \<and> exponent n = None"
| "read_at number_decimal2 n \<longleftrightarrow> numeral_ok n \<and> fraction n \<noteq> None \<and> exponent n = None"
| "read_at number_exponent n \<longleftrightarrow> numeral_ok (n\<lparr>exponent := None\<rparr>) \<and>
     (\<exists>e. exponent_letter e \<and> exponent n = Some (e, [], []))"
| "read_at number_sign n \<longleftrightarrow> numeral_ok (n\<lparr>exponent := None\<rparr>) \<and>
     (\<exists>e sg. exponent_letter e \<and> exponent n = Some (e, sg, []) \<and> sg \<in> {[0x2B], [0x2D]})"
| "read_at number_any2 n \<longleftrightarrow> numeral_ok n \<and> exponent n \<noteq> None"
| "read_at number_done n \<longleftrightarrow> numeral_ok n"
| "read_at number_failed n \<longleftrightarrow> False"

definition numeral_kind :: "numeral \<Rightarrow> token_type" where
  "numeral_kind n =
     (if \<not> plain_integer n then value_float_token else if negative n then value_integer_token else value_unsigned)"

fun type_at :: "number_label \<Rightarrow> numeral \<Rightarrow> token_type \<Rightarrow> bool" where
  "type_at l n ty \<longleftrightarrow> l \<in> {number_minus, number_decimal1, number_exponent} \<or> ty = numeral_kind n"

text \<open>A number followed by the character \<open>c\<close>, at a label.\<close>

definition with_exponent :: "byte \<Rightarrow> numeral \<Rightarrow> numeral" where
  "with_exponent c n =
     (case exponent n of
        None \<Rightarrow> n\<lparr>exponent := Some (c, [], [])\<rparr>
      | Some (e, sg, ds) \<Rightarrow>
          if is_digit c then n\<lparr>exponent := Some (e, sg, ds @ [c])\<rparr> else n\<lparr>exponent := Some (e, [c], [])\<rparr>)"

definition with_digit :: "byte \<Rightarrow> numeral \<Rightarrow> numeral" where
  "with_digit c n =
     (if exponent n \<noteq> None then with_exponent c n
      else case fraction n of
        None \<Rightarrow> n\<lparr>whole := whole n @ [c]\<rparr>
      | Some f \<Rightarrow> n\<lparr>fraction := Some (f @ [c])\<rparr>)"

definition with_char :: "byte \<Rightarrow> numeral \<Rightarrow> numeral" where
  "with_char c n =
     (if is_digit c then with_digit c n
      else if c = 0x2E then n\<lparr>fraction := Some []\<rparr> else with_exponent c n)"

lemma int_chars:
  "digit_char (uint c) = is_digit c" "exponent_char (uint c) = exponent_letter c"
  "nonzero_digit (uint c) = (is_digit c \<and> c \<noteq> 0x30)"
  "uint c = 0x2E \<longleftrightarrow> c = 0x2E" "uint c = 0x30 \<longleftrightarrow> c = 0x30" "uint c = 0x2B \<longleftrightarrow> c = 0x2B" "uint c = 0x2D \<longleftrightarrow> c = 0x2D"
  by (auto simp: digit_char_def is_digit_def exponent_char_def exponent_letter_def nonzero_digit_def
      word_le_def word_uint_eq_iff)

text \<open>The characters with which the scan goes on, and the label it goes to.\<close>

definition next_label :: "number_label \<Rightarrow> byte \<Rightarrow> number_label" where
  "next_label l c =
     (case l of
        number_minus \<Rightarrow> if c = 0x30 then number_zero else if is_digit c then number_any1 else number_failed
      | number_zero \<Rightarrow> if c = 0x2E then number_decimal1 else if exponent_letter c then number_exponent else number_done
      | number_any1 \<Rightarrow> if is_digit c then number_any1 else if c = 0x2E then number_decimal1
          else if exponent_letter c then number_exponent else number_done
      | number_decimal1 \<Rightarrow> if is_digit c then number_decimal2 else number_failed
      | number_decimal2 \<Rightarrow> if is_digit c then number_decimal2 else if exponent_letter c then number_exponent else number_done
      | number_exponent \<Rightarrow> if c = 0x2B \<or> c = 0x2D then number_sign else if is_digit c then number_any2 else number_failed
      | number_sign \<Rightarrow> if is_digit c then number_any2 else number_failed
      | number_any2 \<Rightarrow> if is_digit c then number_any2 else number_done
      | _ \<Rightarrow> l)"

definition next_type :: "number_label \<Rightarrow> token_type \<Rightarrow> token_type" where
  "next_type l ty =
     (case l of number_minus \<Rightarrow> value_integer_token | number_decimal1 \<Rightarrow> value_float_token
      | number_exponent \<Rightarrow> value_float_token | _ \<Rightarrow> ty)"

definition stops :: "number_label \<Rightarrow> bool" where
  "stops l \<longleftrightarrow> l = number_done \<or> l = number_failed"

lemma stops_simps [simp]:
  "stops number_done" "stops number_failed" "\<not> stops number_minus" "\<not> stops number_zero" "\<not> stops number_any1"
  "\<not> stops number_decimal1" "\<not> stops number_decimal2" "\<not> stops number_exponent" "\<not> stops number_sign" "\<not> stops number_any2"
  by (simp_all add: stops_def)

lemma number_block_goes_on:
  assumes "lex_current (lex_get s) = uint c" and "\<not> stops l" and "\<not> stops (next_label l c)"
  shows "number_block l ty s = (next_label l c, next_type l ty,
    lex_add (uint (if c = 0x2E then decimal_point_char s else c)) (lex_get s))"
  using assms
  by (cases l) (auto simp: Let_def int_chars next_label_def next_type_def exponent_letter_def split: if_splits)

lemma number_block_stops:
  assumes "\<not> stops l"
    and "lex_current (lex_get s) = EOF \<or> (\<exists>c. lex_current (lex_get s) = uint c \<and> stops (next_label l c))"
  shows "number_block l ty s = (number_done, ty, lex_get s) \<and> l \<in> {number_zero, number_any1, number_decimal2, number_any2} \<or>
    (\<exists>ty' m. number_block l ty s = (number_failed, ty', (lex_get s)\<lparr>error_message := m\<rparr>)) \<and>
      l \<in> {number_minus, number_decimal1, number_exponent, number_sign}"
  using assms(2)
proof
  assume "lex_current (lex_get s) = EOF"
  then show ?thesis
    using assms(1)
    by (cases l) (auto simp: Let_def digit_char_def exponent_char_def nonzero_digit_def)
next
  assume "\<exists>c. lex_current (lex_get s) = uint c \<and> stops (next_label l c)"
  then obtain c where "lex_current (lex_get s) = uint c" "stops (next_label l c)" by blast
  then show ?thesis
    using assms(1)
    by (cases l) (auto simp: Let_def int_chars next_label_def split: if_splits)
qed

lemma read_next:
  assumes "read_at l n" and "type_at l n ty" and "\<not> stops l" and "\<not> stops (next_label l c)"
  shows "read_at (next_label l c) (with_char c n) \<and> type_at (next_label l c) (with_char c n) (next_type l ty) \<and>
    numeral_text dp (with_char c n) = numeral_text dp n @ [if c = 0x2E then dp else c]"
  using assms
  by (cases l)
    (auto simp: next_label_def next_type_def with_char_def with_digit_def with_exponent_def numeral_text_def numeral_ok_def
      numeral_kind_def plain_integer_def digits_ok_def whole_ok_def dest: letter_no_digit split: if_splits option.splits)


text \<open>
  Reading a whole number: it either fails, or has read a numeral and the character behind it, with
  which no longer one goes on.
\<close>

definition reads_numeral :: "lexer \<Rightarrow> numeral \<Rightarrow> lexer \<Rightarrow> numeral \<Rightarrow> bool" where
  "reads_numeral s n s' n' \<longleftrightarrow> lex_ok s' \<and> decimal_point_char s' = decimal_point_char s \<and>
     token_buffer s' = numeral_text (decimal_point_char s) n' \<and>
     numeral_text 0x2E n @ pending s = numeral_text 0x2E n' @ pending s' \<and>
     chars_read_total (position s) \<le> chars_read_total (position s')"

lemma number_loop_reads:
  assumes "number_loop l ty s = (number_done, ty', s')"
    and "lex_ok s" "token_buffer s = numeral_text (decimal_point_char s) n" "read_at l n" "type_at l n ty" "\<not> stops l"
  shows "\<exists>n' s0. s' = lex_get s0 \<and> numeral_ok n' \<and> ty' = numeral_kind n' \<and> reads_numeral s n s0 n'"
  using assms
proof (induction l ty s arbitrary: n rule: number_loop.induct)
  case (1 l ty s)
  have loop: "number_loop l ty s = (case number_block l ty s of (l', ty', s') \<Rightarrow>
        if l' = number_done \<or> l' = number_failed then (l', ty', s') else number_loop l' ty' s')"
    using 1(7) by (subst number_loop.simps) (simp add: stops_def)
  show ?case
  proof (cases "\<exists>c. lex_current (lex_get s) = uint c \<and> \<not> stops (next_label l c)")
    case True
    then obtain c where c: "lex_current (lex_get s) = uint c" "\<not> stops (next_label l c)" by blast
    let ?s = "lex_add (uint (if c = 0x2E then decimal_point_char s else c)) (lex_get s)"
    let ?n = "with_char c n"
    have b: "number_block l ty s = (next_label l c, next_type l ty, ?s)"
      using number_block_goes_on [OF c(1) 1(7) c(2)] .
    have p: "pending s = c # pending (lex_get s)"
      by (rule get_cases [OF 1(3)]) (use c(1) uint_byte [of c] in \<open>auto simp: word_uint_eq_iff\<close>)
    note r = read_next [OF 1(5,6,7) c(2)]
    have "number_loop (next_label l c) (next_type l ty) ?s = (number_done, ty', s')"
      using loop b c(2) 1(2) by (simp add: stops_def)
    moreover have "token_buffer ?s = numeral_text (decimal_point_char ?s) ?n"
      using r [of "decimal_point_char s"] 1(4) by simp
    ultimately obtain n' s0 where "s' = lex_get s0" "numeral_ok n'" "ty' = numeral_kind n'" "reads_numeral ?s ?n s0 n'"
      using 1(1) [OF _ b [symmetric] refl _, of ?n] r 1(3) 1(7) c(2) by (auto simp: stops_def)
    then have "reads_numeral s n s0 n'" using r [of "0x2E"] p by (simp add: reads_numeral_def)
    then show ?thesis using \<open>s' = lex_get s0\<close> \<open>numeral_ok n'\<close> \<open>ty' = numeral_kind n'\<close> by blast
  next
    case False
    have "lex_current (lex_get s) = EOF \<or> (\<exists>c :: byte. lex_current (lex_get s) = uint c)"
      by (rule get_cases [OF 1(3)]) auto
    then have "lex_current (lex_get s) = EOF \<or> (\<exists>c. lex_current (lex_get s) = uint c \<and> stops (next_label l c))"
      using False by blast
    note stop = number_block_stops [OF 1(7) this, of ty]
    have "fst (number_block l ty s) \<noteq> number_failed"
      using loop 1(2) by (auto split: prod.splits if_splits)
    then have b: "number_block l ty s = (number_done, ty, lex_get s)"
      and l: "l \<in> {number_zero, number_any1, number_decimal2, number_any2}"
      using stop by (auto simp del: number_block.simps)
    have "s' = lex_get s" "ty' = ty" using loop 1(2) unfolding b by simp_all
    moreover have "numeral_ok n" "ty = numeral_kind n"
      using l 1(5,6) by (auto simp: numeral_ok_def plain_integer_def whole_ok_def)
    ultimately show ?thesis using 1(3,4) by (auto simp: reads_numeral_def)
  qed
qed


section \<open>Putting the last character back\<close>

text \<open>The last character of the token is in \<open>token_string\<close>, so it can be put back.\<close>

lemma token_string_get: "lex_current (lex_get s) \<noteq> EOF \<Longrightarrow> token_string (lex_get s) \<noteq> []"
  by (cases "next_unget s"; cases "ia s") (auto simp: lex_get_def get_character_def Let_def split: if_splits)

lemma unget_get:
  assumes "lex_ok s"
  obtains s' where "unget (lex_get s) = Inr s'" "lex_ok s'" "pending s' = pending s" "same_values s s'"
    "chars_read_total (position s') = chars_read_total (position s)"
proof -
  have "lex_current (lex_get s) \<noteq> EOF \<Longrightarrow> token_string (lex_get s) \<noteq> []" by (rule token_string_get)
  then obtain s' where u: "unget (lex_get s) = Inr s'"
    by (cases "lex_current (lex_get s) = EOF") (auto simp: unget_def Let_def)
  have f: "lex_current s' = lex_current (lex_get s)" "next_unget s'" "ia s' = ia (lex_get s)"
    "same_values (lex_get s) s'" "chars_read_total (position s') = chars_read_total (position s)"
    using u by (auto simp: unget_def Let_def same_values_def bind_res_eq_Inr c_assert_eq_Inr split: if_splits)
  have sv: "same_values s s'" using f(4) same_values_trans same_values_get by blast
  have p: "pending (lex_get s) = ia (lex_get s)" by (simp add: pending_def)
  have p': "pending s' = (if lex_current (lex_get s) \<noteq> EOF then [to_char_type (lex_current (lex_get s))] else []) @ pending (lex_get s)"
    using f(1-3) p by (simp add: pending_def [of s'])
  have ok': "lex_ok s' \<longleftrightarrow> EOF \<le> lex_current (lex_get s) \<and> lex_current (lex_get s) < 256 \<and>
     (lex_current (lex_get s) = EOF \<longrightarrow> pending (lex_get s) = [])"
    using f(1-3) p by (simp add: lex_ok_def [of s'])
  show ?thesis
  proof (rule get_cases [OF assms])
    fix c
    assume c: "lex_current (lex_get s) = uint c" "pending s = c # pending (lex_get s)" "lex_ok (lex_get s)"
    have "uint c \<noteq> EOF" "EOF \<le> uint c" "uint c < 256" using uint_byte [of c] by linarith+
    then have "pending s' = pending s" "lex_ok s'" unfolding p' ok' c(1) c(2) by simp_all
    then show ?thesis using that u sv f(5) by blast
  next
    assume c: "lex_current (lex_get s) = EOF" "pending s = []" "pending (lex_get s) = []" "lex_ok (lex_get s)"
    then have "pending s' = pending s" "lex_ok s'" unfolding p' ok' by simp_all
    then show ?thesis using that u sv f(5) by blast
  qed
qed

section \<open>The result\<close>

lemma numeral_kind_simps:
  "plain_integer n \<Longrightarrow> negative n \<Longrightarrow> numeral_text dp n = 0x2D # whole n"
  "plain_integer n \<Longrightarrow> \<not> negative n \<Longrightarrow> numeral_text dp n = whole n"
  by (simp_all add: plain_integer_def numeral_text_def)

lemma convert_float_numeral:
  assumes "numeral_ok n" "point_ok (decimal_point_char s)" "token_buffer s = numeral_text (decimal_point_char s) n"
  shows "convert_float s = Inr (value_float_token, s\<lparr>value_float := numeral_double n\<rparr>)"
  using strtod_numeral [OF assms(1,2)] assms(3) by (simp add: convert_float_def)

text \<open>The conversion leaves the reading state alone.\<close>

definition same_reading :: "lexer \<Rightarrow> lexer \<Rightarrow> bool" where
  "same_reading s s' \<longleftrightarrow> lex_ok s' = lex_ok s \<and> pending s' = pending s \<and> token_buffer s' = token_buffer s \<and>
     decimal_point_char s' = decimal_point_char s \<and> position s' = position s"

lemma convert_number_numeral:
  assumes "numeral_ok n" "point_ok (decimal_point_char s)" "token_buffer s = numeral_text (decimal_point_char s) n"
  shows "\<exists>s'. convert_number (numeral_kind n) s = Inr (numeral_token n, s') \<and> carries n s' \<and> same_reading s s'"
proof -
  note [simp] = same_reading_def lex_ok_def pending_def
  note f = convert_float_numeral [OF assms]
  have w: "digits_ok (whole n)" using assms(1) whole_digits by (simp add: numeral_ok_def)
  have pos: "0 \<le> digits_value (whole n)" using w digits_value_ge_0 by (simp add: digits_ok_def)
  consider (float) "\<not> plain_integer n" | (pos) "plain_integer n" "\<not> negative n" | (neg) "plain_integer n" "negative n"
    by blast
  then show ?thesis
  proof cases
    case float
    then have t: "numeral_token n = value_float_token" "numeral_kind n = value_float_token"
      by (simp_all add: numeral_token_def numeral_kind_def)
    show ?thesis using f by (simp add: t convert_number_def carries_def)
  next
    case pos
    then have t: "numeral_kind n = value_unsigned" by (simp add: numeral_kind_def)
    have b: "strtoull (token_buffer s) = (if digits_value (whole n) < 2 ^ 64
        then (word_of_int (digits_value (whole n)), False, length (token_buffer s))
        else (2 ^ 64 - 1, True, length (token_buffer s)))"
      using strtoull_whole [OF w] numeral_kind_simps(2) [OF pos] assms(3) by simp
    show ?thesis
      using pos b f by (auto simp: t numeral_token_def numeral_int_def convert_number_def carries_def)
  next
    case neg
    then have t: "numeral_kind n = value_integer_token" by (simp add: numeral_kind_def)
    have b: "strtoll (token_buffer s) = (if - digits_value (whole n) < - (2 ^ 63)
        then (word_of_int (- (2 ^ 63)), True, length (token_buffer s))
        else (word_of_int (- digits_value (whole n)), False, length (token_buffer s)))"
      using strtoll_negative [OF w] numeral_kind_simps(1) [OF neg] assms(3) by simp
    show ?thesis
      using neg b f by (auto simp: t numeral_token_def numeral_int_def convert_number_def carries_def)
  qed
qed


text \<open>What follows the scan of a number: the character behind it is put back and the text converted.\<close>

lemma finish_numeral:
  assumes "lex_ok s0" "numeral_ok n" "token_buffer s0 = numeral_text (decimal_point_char s0) n" "point_ok (decimal_point_char s0)"
  shows "\<exists>s'. bind_res (unget (lex_get s0)) (\<lambda>s2. convert_number (numeral_kind n) s2) = Inr (numeral_token n, s') \<and>
    carries n s' \<and> consumes s0 [] s'"
proof -
  obtain s2 where s2: "unget (lex_get s0) = Inr s2" "lex_ok s2" "pending s2 = pending s0" "same_values s0 s2"
    "chars_read_total (position s2) = chars_read_total (position s0)"
    using unget_get [OF assms(1)] by blast
  have "decimal_point_char s2 = decimal_point_char s0" "token_buffer s2 = numeral_text (decimal_point_char s2) n"
    using s2(4) assms(3) by (simp_all add: same_values_def)
  then obtain s' where "convert_number (numeral_kind n) s2 = Inr (numeral_token n, s')" "carries n s'" "same_reading s2 s'"
    using convert_number_numeral [OF assms(2), of s2] assms(4) by auto
  then show ?thesis
    using s2 \<open>decimal_point_char s2 = decimal_point_char s0\<close> by (auto simp: same_reading_def consumes_def)
qed

text \<open>The state in which \<open>scan_number\<close> enters its machine, behind the first character \<open>c\<close>.\<close>

definition first_label :: "byte \<Rightarrow> number_label" where
  "first_label c = (if c = 0x2D then number_minus else if c = 0x30 then number_zero else number_any1)"

definition first_char :: "byte \<Rightarrow> numeral" where
  "first_char c = \<lparr>negative = c = 0x2D, whole = if c = 0x2D then [] else [c], fraction = None, exponent = None\<rparr>"

definition first_state :: "byte \<Rightarrow> lexer \<Rightarrow> lexer" where
  "first_state c s = lex_add (uint c) (reset s)"

lemma first_state:
  assumes "c = 0x2D \<or> is_digit c"
  shows "read_at (first_label c) (first_char c)" "type_at (first_label c) (first_char c) value_unsigned"
    "\<not> stops (first_label c)" "numeral_text dp (first_char c) = [c]"
    "lex_ok (first_state c s) = lex_ok s" "pending (first_state c s) = pending s"
    "decimal_point_char (first_state c s) = decimal_point_char s" "position (first_state c s) = position s"
    "token_buffer (first_state c s) = numeral_text dp (first_char c)"
  using assms
  by (auto simp: first_label_def first_char_def first_state_def plain_integer_def digits_ok_def numeral_kind_def
      numeral_text_def reset_def lex_ok_def pending_def lex_add_def)

lemma scan_number_first:
  assumes "lex_current s = uint c" "c = 0x2D \<or> is_digit c"
    and "number_loop (first_label c) value_unsigned (first_state c s) = (l, ty, s1)"
  shows "scan_number s = (if l = number_failed then Inr (parse_error_token, s1)
      else bind_res (unget s1) (\<lambda>s2. convert_number ty s2))"
  using assms by (auto simp: scan_number_def Let_def reset_def int_chars first_label_def first_state_def)

lemma number_block_consumes:
  assumes "number_block l ty s = (l', ty', s')" "lex_ok s"
  shows "\<exists>bs. consumes s bs s'"
proof -
  obtain bs where "consumes s bs (lex_get s)" using consumes_get_some assms(2) by blast
  moreover have "\<exists>bs. consumes s bs s" using assms(2) by (intro exI [of _ "[]"]) simp
  ultimately show ?thesis using assms(1) by (cases l) (auto simp: Let_def split: if_splits)
qed

lemma number_loop_consumes: "number_loop l ty s = (l', ty', s') \<Longrightarrow> lex_ok s \<Longrightarrow> \<exists>bs. consumes s bs s'"
proof (induction l ty s rule: number_loop.induct)
  case (1 l ty s)
  show ?case
  proof (cases "l = number_done \<or> l = number_failed")
    case True
    then show ?thesis using 1(2,3) by (subst (asm) number_loop.simps) (auto intro: exI [of _ "[]"])
  next
    case False
    obtain l1 ty1 s1 where b: "number_block l ty s = (l1, ty1, s1)" by (cases "number_block l ty s")
    obtain bs where bs: "consumes s bs s1" using number_block_consumes [OF b 1(3)] by blast
    show ?thesis
    proof (cases "l1 = number_done \<or> l1 = number_failed")
      case True
      then have "s' = s1" using 1(2) False b by (subst (asm) number_loop.simps) simp
      then show ?thesis using bs by blast
    next
      case False': False
      then have "number_loop l1 ty1 s1 = (l', ty', s')" using 1(2) False b by (subst (asm) number_loop.simps) simp
      then show ?thesis using 1(1) [OF False b [symmetric] refl False'] consumes_some_trans [OF bs] consumes_ok [OF bs] by blast
    qed
  qed
qed

lemma numeral_text_Cons: "numeral_ok n \<Longrightarrow> \<exists>c u. numeral_text 0x2E n = c # u \<and> (c = 0x2D \<or> is_digit c)"
  using whole_head [of "whole n"] whole_digits [of "whole n"] by (auto simp: numeral_ok_def numeral_text_def)

lemma scan_number_reads:
  assumes "lex_ok s" "lex_current s = uint c" "c = 0x2D \<or> is_digit c" "point_ok (decimal_point_char s)"
  shows "(\<exists>s' bs. scan_number s = Inr (parse_error_token, s') \<and> consumes s bs s') \<or>
    (\<exists>n u s'. scan_number s = Inr (numeral_token n, s') \<and> numeral_ok n \<and> carries n s' \<and>
       numeral_text 0x2E n = c # u \<and> consumes s u s')"
proof -
  let ?s = "first_state c s"
  note f = first_state [OF assms(3)]
  have ok: "lex_ok ?s" using f(5) assms(1) by simp
  obtain l ty s1 where loop: "number_loop (first_label c) value_unsigned ?s = (l, ty, s1)"
    by (cases "number_loop (first_label c) value_unsigned ?s")
  note r = scan_number_first [OF assms(2,3) loop]
  show ?thesis
  proof (cases "l = number_failed")
    case True
    then show ?thesis
      using r number_loop_consumes [OF loop ok] f(6-8) by (auto simp: consumes_def)
  next
    case False
    then have "l = number_done" using loop by (metis number_loop_ends)
    then obtain n s0 where n: "s1 = lex_get s0" "numeral_ok n" "ty = numeral_kind n" "reads_numeral ?s (first_char c) s0 n"
      using number_loop_reads [OF _ ok f(9) f(1-3)] loop by blast
    have d: "decimal_point_char s0 = decimal_point_char s" "token_buffer s0 = numeral_text (decimal_point_char s0) n" "lex_ok s0"
      using n(4) f(7) by (simp_all add: reads_numeral_def)
    obtain s' where s': "scan_number s = Inr (numeral_token n, s')" "carries n s'" "consumes s0 [] s'"
      using finish_numeral [OF d(3) n(2) d(2)] d(1) assms(4) r False n by auto
    obtain c' u where u: "numeral_text 0x2E n = c' # u" using numeral_text_Cons [OF n(2)] by blast
    have "c # pending s = numeral_text 0x2E n @ pending s0"
      using n(4) f(4,6) by (simp add: reads_numeral_def)
    then have "c' = c" "consumes s u s0"
      using u n(4) f(6-8) by (simp_all add: reads_numeral_def consumes_def)
    then show ?thesis
      using s' n(2) u consumes_trans [of s u s0 "[]" s'] by auto
  qed
qed


section \<open>Every numeral is read\<close>

text \<open>The labels and the numeral along a text that the machine goes through without stopping.\<close>

fun runs :: "number_label \<Rightarrow> numeral \<Rightarrow> byte list \<Rightarrow> (number_label \<times> numeral) option" where
  "runs l n [] = Some (l, n)"
| "runs l n (c # cs) = (if stops (next_label l c) then None else runs (next_label l c) (with_char c n) cs)"

lemma runs_append: "runs l n xs = Some (l', n') \<Longrightarrow> runs l n (xs @ ys) = runs l' n' ys"
  by (induction xs arbitrary: l n) (auto split: if_splits)

lemma runs_whole:
  "list_all is_digit ds \<Longrightarrow> plain_integer n \<Longrightarrow> runs number_any1 n ds = Some (number_any1, n\<lparr>whole := whole n @ ds\<rparr>)"
  by (induction ds arbitrary: n)
    (auto simp: next_label_def with_char_def with_digit_def plain_integer_def)

lemma runs_fraction:
  "list_all is_digit ds \<Longrightarrow> fraction n = Some f \<Longrightarrow> exponent n = None \<Longrightarrow>
    runs number_decimal2 n ds = Some (number_decimal2, n\<lparr>fraction := Some (f @ ds)\<rparr>)"
  by (induction ds arbitrary: n f)
    (auto simp: next_label_def with_char_def with_digit_def)

lemma runs_exponent:
  "list_all is_digit ds \<Longrightarrow> exponent n = Some (e, sg, xs) \<Longrightarrow>
    runs number_any2 n ds = Some (number_any2, n\<lparr>exponent := Some (e, sg, xs @ ds)\<rparr>)"
  by (induction ds arbitrary: n xs)
    (auto simp: next_label_def with_char_def with_digit_def with_exponent_def)

definition whole_part :: "numeral \<Rightarrow> numeral" where
  "whole_part n = n\<lparr>fraction := None, exponent := None\<rparr>"

lemma runs_whole_part:
  assumes "whole_ok (whole n)"
  obtains c u l where "numeral_text 0x2E (whole_part n) = c # u" "c = 0x2D \<or> is_digit c"
    "runs (first_label c) (first_char c) u = Some (l, whole_part n)" "l \<in> {number_zero, number_any1}"
proof -
  obtain d ds where w: "whole n = d # ds" "is_digit d" "list_all is_digit ds"
    using whole_head [OF whole_digits [OF assms]] whole_digits [OF assms] by (auto simp: digits_ok_def)
  have z: "d = 0x30 \<Longrightarrow> ds = []" using assms w(1) by (auto simp: whole_ok_def)
  have d: "d \<noteq> 0x2D" using w(2) by auto
  let ?l = "if d = 0x30 then number_zero else number_any1"
  let ?n = "\<lparr>negative = negative n, whole = [d], fraction = None, exponent = None\<rparr>"
  have r: "runs ?l ?n ds = Some (?l, whole_part n)"
    using runs_whole [OF w(3), of ?n] z w(1) by (auto simp: plain_integer_def whole_part_def)
  show ?thesis
  proof (cases "negative n")
    case True
    then have "runs (first_label 0x2D) (first_char 0x2D) (d # ds) = Some (?l, whole_part n)"
      using r w(2) d
      by (cases "d = 0x30") (simp_all add: first_label_def first_char_def next_label_def with_char_def with_digit_def)
    then show ?thesis using that [of "0x2D" "d # ds" ?l] True w(1) by (auto simp: numeral_text_def whole_part_def)
  next
    case False
    then have "runs (first_label d) (first_char d) ds = Some (?l, whole_part n)"
      using r d by (simp add: first_label_def first_char_def)
    then show ?thesis using that [of d ds ?l] False w(1,2) by (auto simp: numeral_text_def whole_part_def)
  qed
qed

lemma runs_numeral:
  assumes "numeral_ok n"
  obtains c u l where "numeral_text 0x2E n = c # u" "c = 0x2D \<or> is_digit c"
    "runs (first_label c) (first_char c) u = Some (l, n)" "l \<in> {number_zero, number_any1, number_decimal2, number_any2}"
proof -
  have "whole_ok (whole n)" using assms by (simp add: numeral_ok_def)
  then obtain c u l where w: "numeral_text 0x2E (whole_part n) = c # u" "c = 0x2D \<or> is_digit c"
    "runs (first_label c) (first_char c) u = Some (l, whole_part n)" "l \<in> {number_zero, number_any1}"
    by (rule runs_whole_part)
  define nf where "nf = n\<lparr>exponent := None\<rparr>"
  let ?f = "case fraction n of None \<Rightarrow> [] | Some f \<Rightarrow> 0x2E # f"
  have "\<exists>l'. runs l (whole_part n) ?f = Some (l', nf) \<and> l' \<in> {number_zero, number_any1, number_decimal2}"
  proof (cases "fraction n")
    case None
    then show ?thesis using w(4) by (auto simp: nf_def whole_part_def)
  next
    case (Some f)
    then obtain d ds where f: "f = d # ds" "is_digit d" "list_all is_digit ds"
      using assms by (cases f) (auto simp: numeral_ok_def digits_ok_def)
    have "runs l (whole_part n) (0x2E # d # []) = Some (number_decimal2, (whole_part n)\<lparr>fraction := Some [d]\<rparr>)"
      using w(4) f(2) by (auto simp: next_label_def with_char_def with_digit_def whole_part_def)
    then have "runs l (whole_part n) ([0x2E, d] @ ds) = runs number_decimal2 ((whole_part n)\<lparr>fraction := Some [d]\<rparr>) ds"
      by (rule runs_append)
    also have "\<dots> = Some (number_decimal2, nf)"
      using runs_fraction [OF f(3), of "(whole_part n)\<lparr>fraction := Some [d]\<rparr>" "[d]"] Some f(1)
      by (simp add: nf_def whole_part_def)
    finally show ?thesis using Some f(1) by auto
  qed
  then obtain l1 where l1: "runs l (whole_part n) ?f = Some (l1, nf)" "l1 \<in> {number_zero, number_any1, number_decimal2}"
    by blast
  let ?e = "case exponent n of None \<Rightarrow> [] | Some (e, sg, ds) \<Rightarrow> e # sg @ ds"
  have "\<exists>l'. runs l1 nf ?e = Some (l', n) \<and> l' \<in> {number_zero, number_any1, number_decimal2, number_any2}"
  proof (cases "exponent n")
    case None
    then show ?thesis using l1(2) by (auto simp: nf_def)
  next
    case (Some x)
    obtain e sg es where x: "exponent n = Some (e, sg, es)" using Some by (cases x) auto
    then have ok: "exponent_letter e" "sg \<in> {[], [0x2B], [0x2D]}" "es \<noteq> []" "list_all is_digit es"
      using assms by (auto simp: numeral_ok_def digits_ok_def)
    obtain d ds where es: "es = d # ds" "is_digit d" "list_all is_digit ds" using ok(3,4) by (cases es) auto
    have e: "\<not> is_digit e" "e \<noteq> 0x2E" using ok(1) letter_no_digit by auto
    have dn: "d \<noteq> 0x2B" "d \<noteq> 0x2D" using es(2) by auto
    have "runs l1 nf (e # sg @ [d]) = Some (number_any2, nf\<lparr>exponent := Some (e, sg, [d])\<rparr>)"
      using l1(2) ok(1,2) e es(2) dn by (auto simp: next_label_def with_char_def with_digit_def with_exponent_def nf_def)
    then have "runs l1 nf ((e # sg @ [d]) @ ds) = runs number_any2 (nf\<lparr>exponent := Some (e, sg, [d])\<rparr>) ds"
      by (rule runs_append)
    also have "\<dots> = Some (number_any2, n)"
      using runs_exponent [OF es(3), of "nf\<lparr>exponent := Some (e, sg, [d])\<rparr>" e sg "[d]"] x es(1)
      by (simp add: nf_def)
    finally show ?thesis using x es(1) by auto
  qed
  then obtain l2 where l2: "runs l1 nf ?e = Some (l2, n)" "l2 \<in> {number_zero, number_any1, number_decimal2, number_any2}"
    by blast
  have "runs (first_label c) (first_char c) (u @ ?f @ ?e) = Some (l2, n)"
    using runs_append [OF w(3)] runs_append [OF l1(1)] l2(1) by simp
  moreover have "numeral_text 0x2E n = c # (u @ ?f @ ?e)"
    using w(1) by (simp add: numeral_text_def whole_part_def)
  ultimately show ?thesis using that w(2) l2(2) by blast
qed

text \<open>The characters that can continue a number.\<close>

definition number_char :: "byte \<Rightarrow> bool" where
  "number_char c \<longleftrightarrow> is_digit c \<or> c = 0x2E \<or> exponent_letter c"

definition number_ends :: "byte list \<Rightarrow> bool" where
  "number_ends r \<longleftrightarrow> r = [] \<or> \<not> number_char (hd r)"

lemma next_label_stops:
  "l \<in> {number_zero, number_any1, number_decimal2, number_any2} \<Longrightarrow> \<not> number_char c \<Longrightarrow> stops (next_label l c)"
  by (auto simp: next_label_def number_char_def)

lemma number_loop_accepts:
  assumes "runs l n cs = Some (l', n')" "l' \<in> {number_zero, number_any1, number_decimal2, number_any2}"
    and "lex_ok s" "token_buffer s = numeral_text (decimal_point_char s) n" "read_at l n" "type_at l n ty" "\<not> stops l"
    and "pending s = cs @ r" "number_ends r"
  shows "\<exists>s0. number_loop l ty s = (number_done, numeral_kind n', lex_get s0) \<and> consumes s cs s0 \<and>
    token_buffer s0 = numeral_text (decimal_point_char s0) n'"
  using assms
proof (induction cs arbitrary: l n ty s)
  case Nil
  then have eq: "l' = l" "n' = n" by simp_all
  have "lex_current (lex_get s) = EOF \<or> (\<exists>c. lex_current (lex_get s) = uint c \<and> stops (next_label l c))"
  proof (rule get_cases [OF Nil(3)])
    fix c
    assume c: "lex_current (lex_get s) = uint c" "pending s = c # pending (lex_get s)"
    then have "\<not> number_char c" using Nil(8,9) by (cases r) (auto simp: number_ends_def)
    then show ?thesis using c(1) next_label_stops Nil(2) eq by blast
  qed simp
  then have "number_block l ty s = (number_done, ty, lex_get s)"
    using number_block_stops [OF Nil(7), of s ty] Nil(2) eq by auto
  then have "number_loop l ty s = (number_done, ty, lex_get s)"
    using Nil(7) by (subst number_loop.simps) (simp add: stops_def)
  moreover have "ty = numeral_kind n" using Nil(2,6) eq by auto
  ultimately show ?case using Nil(3,4) eq by (intro exI [of _ s]) simp
next
  case (Cons c cs)
  have st: "\<not> stops (next_label l c)" and rc: "runs (next_label l c) (with_char c n) cs = Some (l', n')"
    using Cons(2) by (simp_all split: if_splits)
  have p: "pending s = c # cs @ r" using Cons(9) by simp
  note g = consumes_get [OF Cons(4) p]
  let ?s = "lex_add (uint (if c = 0x2E then decimal_point_char s else c)) (lex_get s)"
  have b: "number_block l ty s = (next_label l c, next_type l ty, ?s)"
    using number_block_goes_on [OF _ Cons(8) st] g by simp
  note rn = read_next [OF Cons(6,7,8) st]
  have "token_buffer ?s = numeral_text (decimal_point_char ?s) (with_char c n)"
    using rn [of "decimal_point_char s"] Cons(5) by simp
  then obtain s0 where s0: "number_loop (next_label l c) (next_type l ty) ?s = (number_done, numeral_kind n', lex_get s0)"
    "consumes ?s cs s0" "token_buffer s0 = numeral_text (decimal_point_char s0) n'"
    using Cons(1) [OF rc Cons(3), of ?s "next_type l ty"] g Cons(4,10) rn st by auto
  have "number_loop l ty s = (number_done, numeral_kind n', lex_get s0)"
    using Cons(8) st b s0(1) by (subst number_loop.simps) (simp add: stops_def)
  then show ?case using s0(2,3) consumes_step [OF Cons(4) p, of cs s0] by auto
qed

lemma scan_number_accepts:
  assumes "lex_ok s" "lex_current s = uint c" "numeral_ok n" "numeral_text 0x2E n = c # u" "pending s = u @ r"
    "number_ends r" "point_ok (decimal_point_char s)"
  shows "\<exists>s'. scan_number s = Inr (numeral_token n, s') \<and> carries n s' \<and> consumes s u s'"
proof -
  obtain l where c: "c = 0x2D \<or> is_digit c" and l: "runs (first_label c) (first_char c) u = Some (l, n)"
    "l \<in> {number_zero, number_any1, number_decimal2, number_any2}"
    using runs_numeral [OF assms(3)] assms(4) by (metis list.inject)
  let ?s = "first_state c s"
  note f = first_state [OF c]
  have ok: "lex_ok ?s" "pending ?s = u @ r" using f(5,6) assms(1,5) by simp_all
  obtain s0 where s0: "number_loop (first_label c) value_unsigned ?s = (number_done, numeral_kind n, lex_get s0)"
    "consumes ?s u s0" "token_buffer s0 = numeral_text (decimal_point_char s0) n"
    using number_loop_accepts [OF l ok(1) f(9) f(1-3) ok(2) assms(6)] by blast
  have d: "decimal_point_char s0 = decimal_point_char s" using s0(2) f(7) by (simp add: consumes_def)
  obtain s' where s': "scan_number s = Inr (numeral_token n, s')" "carries n s'" "consumes s0 [] s'"
    using finish_numeral [OF consumes_ok [OF s0(2)] assms(3) s0(3)] d assms(7) scan_number_first [OF assms(2) c s0(1)]
    by auto
  have "consumes s u s0" using s0(2) f(6-8) by (simp add: consumes_def)
  then show ?thesis using s' consumes_trans [of s u s0 "[]" s'] by auto
qed

end
