(* ===== verification/Json_Tokens.thy ===== *)
theory Json_Tokens
  imports Json_Strings Json_Numerals
begin

text \<open>
  The tokens of JSON and the proof that \<open>scan\<close> of \<open>src/nlohmann/detail/input/lexer.hpp\<close> splits its
  input into them: whatever the input, it answers with a token of the grammar, with the end or with an
  error, and no assertion of the lexer fails; and it finds every token there is.
\<close>

section \<open>The grammar\<close>

datatype lexeme =
    Punct token_type
  | Literal token_type
  | Text "int list"
  | Number numeral

definition puncts :: "(token_type \<times> byte) list" where
  "puncts = [(begin_array, 0x5B), (end_array_token, 0x5D), (begin_object, 0x7B), (end_object_token, 0x7D),
     (name_separator, 0x3A), (value_separator, 0x2C)]"

definition literals :: "(token_type \<times> byte list) list" where
  "literals = [(literal_true, true_text), (literal_false, false_text), (literal_null, null_text)]"

inductive lexeme_text :: "lexeme \<Rightarrow> byte list \<Rightarrow> bool" where
  Punct: "(t, c) \<in> set puncts \<Longrightarrow> lexeme_text (Punct t) [c]"
| Literal: "(t, u) \<in> set literals \<Longrightarrow> lexeme_text (Literal t) u"
| Text: "string_text cps u \<Longrightarrow> lexeme_text (Text cps) (0x22 # u @ [0x22])"
| Number: "numeral_ok n \<Longrightarrow> lexeme_text (Number n) (numeral_text 0x2E n)"

inductive_cases lexeme_text_elims:
  "lexeme_text (Punct t) u" "lexeme_text (Literal t) u" "lexeme_text (Text cps) u" "lexeme_text (Number n) u"

fun lexeme_token :: "lexeme \<Rightarrow> token_type" where
  "lexeme_token (Punct t) = t"
| "lexeme_token (Literal t) = t"
| "lexeme_token (Text _) = value_string"
| "lexeme_token (Number n) = numeral_token n"

text \<open>What the lexer holds of a token.\<close>

fun lexeme_held :: "lexeme \<Rightarrow> lexer \<Rightarrow> bool" where
  "lexeme_held (Text cps) s \<longleftrightarrow> token_buffer s = encode_text cps"
| "lexeme_held (Number n) s \<longleftrightarrow> carries n s"
| "lexeme_held _ s \<longleftrightarrow> True"

definition blank :: "byte list \<Rightarrow> bool" where
  "blank ws \<longleftrightarrow> (\<forall>c \<in> set ws. white (uint c))"

text \<open>A lexer that finds no byte order mark: it is behind its first characters, or these are no mark.\<close>

definition lexing :: "lexer \<Rightarrow> bool" where
  "lexing s \<longleftrightarrow> lex_ok s \<and> point_ok (decimal_point_char s) \<and>
     (0 < chars_read_total (position s) \<or> pending s = [] \<or> hd (pending s) \<noteq> 0xEF)"

section \<open>White space\<close>

text \<open>
  \<open>skip_white\<close> reads the blanks and one character behind them, or the end.
\<close>

lemma skip_white_reads:
  assumes "lex_ok s"
  shows "(\<exists>ws c. blank ws \<and> \<not> white (uint c) \<and> lex_current (skip_white s) = uint c \<and> consumes s (ws @ [c]) (skip_white s)) \<or>
    (\<exists>ws. blank ws \<and> lex_current (skip_white s) = EOF \<and> pending s = ws \<and> consumes s ws (skip_white s))"
  using assms
proof (induction s rule: skip_white.induct)
  case (1 s)
  show ?case
  proof (cases "white (lex_current (lex_get s))")
    case False
    then have eq: "skip_white s = lex_get s" by (subst skip_white.simps) simp
    show ?thesis
    proof (rule get_cases [OF 1(2)])
      fix c
      assume c: "lex_current (lex_get s) = uint c" "pending s = c # pending (lex_get s)"
      then show ?thesis
        using False eq consumes_get [OF 1(2) c(2)]
        by (intro disjI1 exI [of _ "[]"] exI [of _ c]) (simp add: blank_def)
    next
      assume "lex_current (lex_get s) = EOF" "pending s = []"
      then show ?thesis using eq consumes_end [OF 1(2)] by (auto simp: blank_def)
    qed
  next
    case True
    then have eq: "skip_white s = skip_white (lex_get s)" by (subst skip_white.simps) simp
    have ok: "lex_ok (lex_get s)" using 1(2) by simp
    obtain c where c: "lex_current (lex_get s) = uint c" "pending s = c # pending (lex_get s)"
      by (rule get_cases [OF 1(2)]) (use True in \<open>auto simp: white_def\<close>)
    from 1(1) [OF refl True ok] show ?thesis
    proof
      assume "\<exists>ws d. blank ws \<and> \<not> white (uint d) \<and> lex_current (skip_white (lex_get s)) = uint d \<and>
          consumes (lex_get s) (ws @ [d]) (skip_white (lex_get s))"
      then obtain ws d where "blank ws" "\<not> white (uint d)" "lex_current (skip_white (lex_get s)) = uint d"
        "consumes (lex_get s) (ws @ [d]) (skip_white (lex_get s))" by blast
      then show ?thesis
        using eq True c consumes_step [OF 1(2) c(2)]
        by (intro disjI1 exI [of _ "c # ws"] exI [of _ d]) (simp add: blank_def)
    next
      assume "\<exists>ws. blank ws \<and> lex_current (skip_white (lex_get s)) = EOF \<and> pending (lex_get s) = ws \<and>
          consumes (lex_get s) ws (skip_white (lex_get s))"
      then show ?thesis
        using eq True c consumes_step [OF 1(2) c(2)] by (intro disjI2 exI [of _ "pending s"]) (auto simp: blank_def)
    qed
  qed
qed

lemma skip_white_accepts:
  assumes "blank ws" "\<not> white (uint c)" "lex_ok s" "pending s = ws @ c # r"
  shows "lex_current (skip_white s) = uint c \<and> consumes s (ws @ [c]) (skip_white s)"
  using assms
proof (induction ws arbitrary: s)
  case Nil
  then have p: "pending s = c # r" by simp
  note g = consumes_get [OF Nil(3) p]
  then have "skip_white s = lex_get s" using Nil(2) by (subst skip_white.simps) simp
  then show ?case using g by simp
next
  case (Cons w ws)
  have p: "pending s = w # ws @ c # r" using Cons(5) by simp
  note g = consumes_get [OF Cons(4) p]
  have "white (uint w)" using Cons(2) by (simp add: blank_def)
  then have eq: "skip_white s = skip_white (lex_get s)" using g by (subst skip_white.simps) simp
  have "blank ws" using Cons(2) by (simp add: blank_def)
  then have "lex_current (skip_white (lex_get s)) = uint c \<and> consumes (lex_get s) (ws @ [c]) (skip_white (lex_get s))"
    using Cons(1) [OF _ Cons(3)] g Cons(4) by simp
  then show ?case using eq consumes_step [OF Cons(4) p] by simp
qed

section \<open>Literals\<close>

lemma literal_loop_consumes: "literal_loop bs s = (b, s') \<Longrightarrow> lex_ok s \<Longrightarrow>
    (\<exists>xs. consumes s xs s') \<and> (b \<longrightarrow> consumes s bs s')"
proof (induction bs arbitrary: s)
  case Nil
  then show ?case by (auto intro: exI [of _ "[]"])
next
  case (Cons c bs)
  show ?case
  proof (cases "lex_current (lex_get s) = uint c")
    case True
    then have "literal_loop bs (lex_get s) = (b, s')" using Cons(2) by simp
    note ih = Cons(1) [OF this]
    show ?thesis
      using ih Cons(3) consumes_some_get [OF Cons(3)] consumes_step [OF Cons(3) get_char [OF Cons(3) True]] by simp
  next
    case False
    then show ?thesis using Cons(2) consumes_get_some [OF Cons(3)] by auto
  qed
qed

lemma literal_loop_accepts: "lex_ok s \<Longrightarrow> pending s = bs @ r \<Longrightarrow> \<exists>s'. literal_loop bs s = (True, s') \<and> consumes s bs s'"
proof (induction bs arbitrary: s)
  case Nil
  then show ?case by simp
next
  case (Cons c bs)
  then have p: "pending s = c # bs @ r" by simp
  note g = consumes_get [OF Cons(2) p]
  obtain s' where "literal_loop bs (lex_get s) = (True, s')" "consumes (lex_get s) bs s'"
    using Cons(1) [of "lex_get s"] g Cons(2) by auto
  then show ?case using g consumes_step [OF Cons(2) p] by auto
qed

lemma scan_literal_reads:
  assumes "lex_ok s" "lex_current s = uint c" "(t, c # u) \<in> set literals"
  shows "(\<exists>s' bs. scan_literal (c # u) t s = Inr (parse_error_token, s') \<and> consumes s bs s') \<or>
    (\<exists>s'. scan_literal (c # u) t s = Inr (t, s') \<and> consumes s u s')"
proof -
  obtain b s1 where l: "literal_loop u s = (b, s1)" by (cases "literal_loop u s")
  then show ?thesis
    using literal_loop_consumes [OF l assms(1)] assms(2)
    by (cases b) (auto simp: scan_literal_def fail_with_def simp del: literal_loop.simps)
qed

lemma scan_literal_accepts:
  assumes "lex_ok s" "lex_current s = uint c" "pending s = u @ r"
  shows "\<exists>s'. scan_literal (c # u) t s = Inr (t, s') \<and> consumes s u s'"
  using literal_loop_accepts [OF assms(1,3)] assms(2)
  by (auto simp: scan_literal_def simp del: literal_loop.simps)

section \<open>A token\<close>

text \<open>The scan from the state \<open>s\<close> where \<open>c\<close> has been read: a token that starts with it, or an error.\<close>

definition reads_token :: "byte \<Rightarrow> lexer \<Rightarrow> (token_type \<times> lexer) res \<Rightarrow> bool" where
  "reads_token c s r \<longleftrightarrow>
     (\<exists>s' bs. r = Inr (parse_error_token, s') \<and> consumes s bs s') \<or>
     (\<exists>lx u s'. r = Inr (lexeme_token lx, s') \<and> lexeme_text lx (c # u) \<and> lexeme_held lx s' \<and> consumes s u s')"

lemma scan_token_punct:
  assumes "(t, c) \<in> set puncts" "lex_current s = uint c"
  shows "scan_token s = Inr (t, s)"
  using assms by (auto simp: puncts_def scan_token_def)

lemma literal_split: "(t, v) \<in> set literals \<Longrightarrow> \<exists>c u. v = c # u \<and>
    (\<forall>s. lex_current s = uint c \<longrightarrow> scan_token s = scan_literal v t s)"
  by (auto simp: literals_def scan_token_def true_text_def false_text_def null_text_def)

lemma scan_token_number: "lex_current s = uint c \<Longrightarrow> c = 0x2D \<or> is_digit c \<Longrightarrow> scan_token s = scan_number s"
  by (auto simp: scan_token_def int_chars Let_def digit_char_def [symmetric] split: if_splits)
    (auto simp: is_digit_def word_le_def)


lemma scan_token_reads:
  assumes "lex_ok s" "lex_current s = uint c" "point_ok (decimal_point_char s)"
  shows "reads_token c s (scan_token s) \<or> scan_token s = Inr (end_of_input, s) \<and> c = 0"
proof -
  have stay: "consumes s [] s" using assms(1) by simp
  consider (punct) t where "(t, c) \<in> set puncts" | (literal) t u where "(t, c # u) \<in> set literals" | (quote) "c = 0x22"
    | (number) "c = 0x2D \<or> is_digit c" | (zero) "c = 0"
    | (other) "c \<notin> snd ` set puncts" "c \<notin> hd ` snd ` set literals" "c \<noteq> 0x22" "c \<noteq> 0x2D" "\<not> is_digit c" "c \<noteq> 0"
    by (fastforce simp: literals_def true_text_def false_text_def null_text_def)
  then show ?thesis
  proof cases
    case punct
    then have "scan_token s = Inr (t, s)" using scan_token_punct assms(2) by blast
    then have "reads_token c s (scan_token s)"
      using lexeme_text.Punct [OF punct] stay unfolding reads_token_def
      by (intro disjI2 exI [of _ "Punct t"] exI [of _ "[]"] exI [of _ s]) simp
    then show ?thesis ..
  next
    case literal
    then have "scan_token s = scan_literal (c # u) t s" using literal_split [OF literal] assms(2) by auto
    moreover have "reads_token c s (scan_literal (c # u) t s)"
      using scan_literal_reads [OF assms(1,2) literal] lexeme_text.Literal [OF literal]
      unfolding reads_token_def by (fastforce intro: exI [of _ "Literal t"])
    ultimately show ?thesis by simp
  next
    case quote
    then have "scan_token s = scan_string s" using assms(2) by (simp add: scan_token_def)
    moreover have "reads_token c s (scan_string s)"
      using scan_string_reads [of s] assms(1,2) lexeme_text.Text quote
      unfolding reads_token_def by (fastforce intro: exI [of _ "Text cps" for cps])
    ultimately show ?thesis by simp
  next
    case number
    have "reads_token c s (scan_number s)"
      using scan_number_reads [OF assms(1,2) number assms(3)]
    proof
      assume "\<exists>n u s'. scan_number s = Inr (numeral_token n, s') \<and> numeral_ok n \<and> carries n s' \<and>
         numeral_text 0x2E n = c # u \<and> consumes s u s'"
      then obtain n u s' where "scan_number s = Inr (numeral_token n, s')" "numeral_ok n" "carries n s'"
        "numeral_text 0x2E n = c # u" "consumes s u s'" by blast
      then show ?thesis
        using lexeme_text.Number [of n] unfolding reads_token_def
        by (intro disjI2 exI [of _ "Number n"] exI [of _ u] exI [of _ s']) simp
    qed (auto simp: reads_token_def)
    then show ?thesis using scan_token_number [OF assms(2) number] by simp
  next
    case zero
    then show ?thesis using assms(2) by (simp add: scan_token_def digit_char_def)
  next
    case other
    have u: "uint c \<noteq> uint d" if "d \<noteq> c" for d :: byte using that by (simp add: word_uint_eq_iff)
    have "\<not> digit_char (uint c)" using other(5) int_chars(1) by simp
    moreover have "uint c \<noteq> EOF" using uint_byte [of c] by linarith
    ultimately have "scan_token s = Inr (fail_with ''invalid literal'' s)"
      using other u [of "0x5B"] u [of "0x5D"] u [of "0x7B"] u [of "0x7D"] u [of "0x3A"] u [of "0x2C"] u [of "0x74"]
        u [of "0x66"] u [of "0x6E"] u [of "0x22"] u [of "0x2D"] u [of 0] assms(2)
      by (simp add: scan_token_def puncts_def literals_def true_text_def false_text_def null_text_def Let_def)
    then have "\<exists>s' bs. scan_token s = Inr (parse_error_token, s') \<and> consumes s bs s'"
      using stay by (intro exI [of _ "s\<lparr>error_message := ''invalid literal''\<rparr>"] exI [of _ "[]"]) (simp add: fail_with_def)
    then show ?thesis by (simp add: reads_token_def)
  qed
qed

definition lexeme_ends :: "lexeme \<Rightarrow> byte list \<Rightarrow> bool" where
  "lexeme_ends lx r \<longleftrightarrow> (case lx of Number n \<Rightarrow> number_ends r | _ \<Rightarrow> True)"

lemma lexeme_text_first: "lexeme_text lx v \<Longrightarrow> \<exists>c u. v = c # u \<and> \<not> white (uint c) \<and> c \<noteq> 0xEF"
proof (induction lx v rule: lexeme_text.induct)
  case (Number n)
  then obtain c u where "numeral_text 0x2E n = c # u" "c = 0x2D \<or> is_digit c" using numeral_text_Cons by blast
  moreover from this(2) have "\<not> white (uint c) \<and> c \<noteq> 0xEF" by (auto simp: is_digit_def word_le_def white_def)
  ultimately show ?case by blast
qed (auto simp: white_def puncts_def literals_def true_text_def false_text_def null_text_def)

lemma scan_token_accepts:
  assumes "lexeme_text lx (c # u)" "lex_ok s" "lex_current s = uint c" "pending s = u @ r" "lexeme_ends lx r"
    "point_ok (decimal_point_char s)"
  shows "\<exists>s'. scan_token s = Inr (lexeme_token lx, s') \<and> lexeme_held lx s' \<and> consumes s u s'"
proof (cases lx)
  case (Punct t)
  then have "(t, c) \<in> set puncts" "u = []" using assms(1) by (auto elim: lexeme_text_elims)
  then show ?thesis using scan_token_punct assms(2,3) Punct by fastforce
next
  case (Literal t)
  then have l: "(t, c # u) \<in> set literals" using assms(1) by (auto elim: lexeme_text_elims)
  then have "scan_token s = scan_literal (c # u) t s" using literal_split [OF l] assms(3) by auto
  then show ?thesis using scan_literal_accepts [OF assms(2-4)] Literal by simp
next
  case (Text cps)
  then obtain v where v: "string_text cps v" "c = 0x22" "u = v @ [0x22]" using assms(1) by (auto elim: lexeme_text_elims)
  then have "scan_token s = scan_string s" using assms(3) by (simp add: scan_token_def)
  then show ?thesis using scan_string_accepts [OF v(1) assms(2)] assms(3,4) v Text by auto
next
  case (Number n)
  then have n: "numeral_ok n" "numeral_text 0x2E n = c # u" using assms(1) by (auto elim: lexeme_text_elims)
  then have "c = 0x2D \<or> is_digit c" using numeral_text_Cons by fastforce
  then have "scan_token s = scan_number s" using scan_token_number assms(3) by blast
  then show ?thesis
    using scan_number_accepts [OF assms(2,3) n assms(4) _ assms(6)] assms(5) Number by (simp add: lexeme_ends_def)
qed

section \<open>The scanner\<close>

text \<open>
  What \<open>scan\<close> can answer: an error; the end of the input, behind blanks, which a zero character also
  ends; or a token behind blanks.
\<close>

definition goes :: "lexer \<Rightarrow> byte list \<Rightarrow> lexer \<Rightarrow> bool" where
  "goes s bs s' \<longleftrightarrow> consumes s bs s' \<and> 0 < chars_read_total (position s')"

definition scans :: "lexer \<Rightarrow> (token_type \<times> lexer) res \<Rightarrow> bool" where
  "scans s r \<longleftrightarrow>
     (\<exists>s' bs. r = Inr (parse_error_token, s') \<and> goes s bs s') \<or>
     (\<exists>ws z s'. r = Inr (end_of_input, s') \<and> blank ws \<and> (z = [] \<and> pending s' = [] \<or> z = [0]) \<and> goes s (ws @ z) s') \<or>
     (\<exists>ws lx u s'. r = Inr (lexeme_token lx, s') \<and> blank ws \<and> lexeme_text lx u \<and> lexeme_held lx s' \<and>
        goes s (ws @ u) s')"

lemma scans_Inr: "scans s r \<Longrightarrow> \<exists>t s'. r = Inr (t, s')"
  unfolding scans_def by blast

lemma point_skip_white: "consumes s bs s' \<Longrightarrow> point_ok (decimal_point_char s') = point_ok (decimal_point_char s)"
  by (simp add: consumes_def)

lemma skip_white_chars: "chars_read_total (position s) < chars_read_total (position (skip_white s))"
proof (induction s rule: skip_white.induct)
  case (1 s)
  then show ?case by (subst skip_white.simps) (use chars_get [of s] in \<open>auto simp: Let_def intro: less_trans\<close>)
qed

lemma goes_trans: "consumes s xs (skip_white s) \<Longrightarrow> consumes (skip_white s) ys s' \<Longrightarrow> goes s (xs @ ys) s'"
  using skip_white_chars [of s] by (simp add: goes_def consumes_def)

lemma scan_token_skip_white:
  assumes "lex_ok s" "point_ok (decimal_point_char s)"
  shows "scans s (scan_token (skip_white s))"
  using skip_white_reads [OF assms(1)]
proof
  assume "\<exists>ws c. blank ws \<and> \<not> white (uint c) \<and> lex_current (skip_white s) = uint c \<and> consumes s (ws @ [c]) (skip_white s)"
  then obtain ws c where w: "blank ws" "lex_current (skip_white s) = uint c" "consumes s (ws @ [c]) (skip_white s)" by blast
  from scan_token_reads [OF consumes_ok [OF w(3)] w(2)] point_skip_white [OF w(3)] assms(2)
  have "reads_token c (skip_white s) (scan_token (skip_white s)) \<or> scan_token (skip_white s) = Inr (end_of_input, skip_white s) \<and> c = 0"
    by simp
  then consider (error) s' bs where "scan_token (skip_white s) = Inr (parse_error_token, s')" "consumes (skip_white s) bs s'"
    | (token) lx u s' where "scan_token (skip_white s) = Inr (lexeme_token lx, s')" "lexeme_text lx (c # u)"
        "lexeme_held lx s'" "consumes (skip_white s) u s'"
    | (zero) "scan_token (skip_white s) = Inr (end_of_input, skip_white s)" "c = 0"
    by (auto simp: reads_token_def)
  then show ?thesis
  proof cases
    case error
    then show ?thesis using goes_trans [OF w(3)] unfolding scans_def by blast
  next
    case token
    then show ?thesis
      using w(1) goes_trans [OF w(3) token(4)] unfolding scans_def
      by (intro disjI2 exI [of _ ws] exI [of _ lx] exI [of _ "c # u"] exI [of _ s']) simp
  next
    case zero
    moreover have "goes s (ws @ [0]) (skip_white s)"
      using goes_trans [OF w(3), of "[]" "skip_white s"] consumes_ok [OF w(3)] zero(2) by simp
    ultimately show ?thesis using w(1) unfolding scans_def by blast
  qed
next
  assume "\<exists>ws. blank ws \<and> lex_current (skip_white s) = EOF \<and> pending s = ws \<and> consumes s ws (skip_white s)"
  then obtain ws where w: "blank ws" "lex_current (skip_white s) = EOF" "pending s = ws" "consumes s ws (skip_white s)"
    by blast
  have "scan_token (skip_white s) = Inr (end_of_input, skip_white s)"
    using w(2) by (simp add: scan_token_def digit_char_def)
  moreover have "pending (skip_white s) = []" using w(3,4) by (simp add: consumes_def)
  moreover have "goes s ws (skip_white s)"
    using goes_trans [OF w(4), of "[]" "skip_white s"] consumes_ok [OF w(4)] by simp
  ultimately show ?thesis
    using w(1) unfolding scans_def by (intro disjI2 disjI1 exI [of _ ws] exI [of _ "[]"] exI [of _ "skip_white s"]) simp
qed

lemma scan_token_accepts_blank:
  assumes "blank ws" "lexeme_text lx u" "lex_ok s" "point_ok (decimal_point_char s)" "pending s = ws @ u @ r" "lexeme_ends lx r"
  shows "\<exists>s'. scan_token (skip_white s) = Inr (lexeme_token lx, s') \<and> lexeme_held lx s' \<and> goes s (ws @ u) s'"
proof -
  obtain c v where u: "u = c # v" "\<not> white (uint c)" using lexeme_text_first [OF assms(2)] by blast
  have w: "lex_current (skip_white s) = uint c" "consumes s (ws @ [c]) (skip_white s)"
    using skip_white_accepts [OF assms(1) u(2) assms(3), of "v @ r"] assms(5) u(1) by simp_all
  have "pending (skip_white s) = v @ r" using w(2) assms(5) u(1) by (simp add: consumes_def)
  then obtain s' where "scan_token (skip_white s) = Inr (lexeme_token lx, s')" "lexeme_held lx s'" "consumes (skip_white s) v s'"
    using scan_token_accepts [OF assms(2) [unfolded u(1)] consumes_ok [OF w(2)] w(1) _ assms(6)] assms(4)
      point_skip_white [OF w(2)] by blast
  then show ?thesis using goes_trans [OF w(2), of v s'] u(1) by auto
qed

section \<open>The first token\<close>

definition byte_order_mark :: "byte list" where
  "byte_order_mark = [0xEF, 0xBB, 0xBF]"

lemma new_lexer_frame [simp]:
  "lex_ok (new_lexer dp input)" "pending (new_lexer dp input) = input" "decimal_point_char (new_lexer dp input) = dp"
  "chars_read_total (position (new_lexer dp input)) = 0"
  by (simp_all add: new_lexer_def lex_ok_def pending_def)

lemma skip_bom_none:
  assumes "lex_ok s" "lex_current (lex_get s) \<noteq> 0xEF"
  shows "\<exists>s'. skip_bom s = Inr (True, s') \<and> consumes s [] s'"
proof -
  obtain s' where s': "unget (lex_get s) = Inr s'" "lex_ok s'" "pending s' = pending s" "same_values s s'"
    "chars_read_total (position s') = chars_read_total (position s)"
    using unget_get [OF assms(1)] by blast
  have "skip_bom s = Inr (True, s')" using assms(2) s'(1) by (simp add: skip_bom_def)
  then show ?thesis using s' by (auto simp: consumes_def same_values_def)
qed

lemma skip_bom_mark:
  assumes "lex_ok s" "pending s = byte_order_mark @ r"
  shows "\<exists>s'. skip_bom s = Inr (True, s') \<and> consumes s byte_order_mark s' \<and> 0 < chars_read_total (position s')"
proof -
  let ?s1 = "lex_get s" and ?s2 = "lex_get (lex_get s)" and ?s3 = "lex_get (lex_get (lex_get s))"
  have p: "pending s = 0xEF # 0xBB # 0xBF # r" using assms(2) by (simp add: byte_order_mark_def)
  note g1 = consumes_get [OF assms(1) p]
  have o: "lex_ok ?s1" "lex_ok ?s2" using assms(1) by simp_all
  note p1 = conjunct1 [OF conjunct2 [OF g1]]
  note g2 = consumes_get [OF o(1) p1]
  note p2 = conjunct1 [OF conjunct2 [OF g2]]
  note g3 = consumes_get [OF o(2) p2]
  have "skip_bom s = Inr (True, ?s3)" using g1 g2 g3 by (simp add: skip_bom_def Let_def)
  moreover have "consumes s byte_order_mark ?s3"
    using consumes_step [OF assms(1) p consumes_step [OF o(1) p1 conjunct1 [OF g3]]] by (simp add: byte_order_mark_def)
  ultimately show ?thesis by (intro exI [of _ ?s3]) simp
qed

lemma goes_lexing: "goes s bs s' \<Longrightarrow> point_ok (decimal_point_char s) \<Longrightarrow> lexing s'"
  by (auto simp: goes_def lexing_def consumes_def)

lemma goes_from: "consumes s xs s1 \<Longrightarrow> goes s1 ys s' \<Longrightarrow> goes s (xs @ ys) s'"
  using consumes_trans [of s xs s1 ys s'] by (simp add: goes_def)

lemma scan_lexing:
  assumes "lexing s"
  obtains s1 where "scan s = scan_token (skip_white s1)" "consumes s [] s1"
proof (cases "0 < chars_read_total (position s)")
  case True
  then have "scan s = scan_token (skip_white s)" by (simp add: scan_def)
  then show ?thesis using that assms by (simp add: lexing_def)
next
  case False
  have ok: "lex_ok s" using assms by (simp add: lexing_def)
  have "lex_current (lex_get s) \<noteq> 0xEF"
  proof (rule get_cases [OF ok])
    fix c
    assume "lex_current (lex_get s) = uint c" "pending s = c # pending (lex_get s)"
    then show ?thesis using False assms by (auto simp: lexing_def word_uint_eq_iff)
  qed simp
  then obtain s' where "skip_bom s = Inr (True, s')" "consumes s [] s'" using skip_bom_none [OF ok] by blast
  then show ?thesis using that False by (simp add: scan_def)
qed

lemma scans_from:
  assumes "consumes s [] s1" "scans s1 r"
  shows "scans s r"
proof -
  have g: "goes s bs s'" if "goes s1 bs s'" for bs s'
    using goes_from [OF assms(1) that] by simp
  from assms(2) consider (error) s' bs where "r = Inr (parse_error_token, s')" "goes s1 bs s'"
    | (ending) ws z s' where "r = Inr (end_of_input, s')" "blank ws" "z = [] \<and> pending s' = [] \<or> z = [0]" "goes s1 (ws @ z) s'"
    | (token) ws lx u s' where "r = Inr (lexeme_token lx, s')" "blank ws" "lexeme_text lx u" "lexeme_held lx s'" "goes s1 (ws @ u) s'"
    unfolding scans_def by blast
  then show ?thesis
  proof cases
    case error
    then show ?thesis using g [OF error(2)] unfolding scans_def by blast
  next
    case ending
    then show ?thesis using g [OF ending(4)] unfolding scans_def by blast
  next
    case token
    then show ?thesis using g [OF token(5)] unfolding scans_def by blast
  qed
qed

lemma scan_reads:
  assumes "lexing s"
  shows "scans s (scan s)"
proof -
  obtain s1 where s1: "scan s = scan_token (skip_white s1)" "consumes s [] s1" using assms by (rule scan_lexing)
  have "scans s1 (scan s)"
    using scan_token_skip_white [OF consumes_ok [OF s1(2)]] s1 assms by (simp add: lexing_def consumes_def)
  then show ?thesis using scans_from [OF s1(2)] by blast
qed

lemma scan_accepts:
  assumes "lexing s" "blank ws" "lexeme_text lx u" "pending s = ws @ u @ r" "lexeme_ends lx r"
  shows "\<exists>s'. scan s = Inr (lexeme_token lx, s') \<and> lexeme_held lx s' \<and> goes s (ws @ u) s'"
proof -
  obtain s1 where s1: "scan s = scan_token (skip_white s1)" "consumes s [] s1" using assms(1) by (rule scan_lexing)
  have "point_ok (decimal_point_char s1)" "pending s1 = ws @ u @ r"
    using s1(2) assms(1,4) by (simp_all add: lexing_def consumes_def)
  then show ?thesis
    using scan_token_accepts_blank [OF assms(2,3) consumes_ok [OF s1(2)] _ _ assms(5)] goes_from [OF s1(2), of "ws @ u"] s1(1)
    by auto
qed

lemma skip_bom_reads:
  assumes "lex_ok s"
  shows "\<exists>bs s'. skip_bom s = Inr (bs \<noteq> [] \<longrightarrow> bs = byte_order_mark, s') \<and> consumes s bs s'"
proof (cases "lex_current (lex_get s) = 0xEF")
  case False
  then show ?thesis using skip_bom_none [OF assms] by (intro exI [of _ "[]"]) simp
next
  case True
  have o1: "lex_ok (lex_get s)" using assms by simp
  have p1: "pending s = 0xEF # pending (lex_get s)" using get_char [OF assms, of "0xEF"] True by simp
  have c1: "consumes s [0xEF] (lex_get s)" using consumes_get [OF assms p1] by simp
  show ?thesis
  proof (cases "lex_current (lex_get (lex_get s)) = 0xBB")
    case False
    obtain bs where bs: "consumes (lex_get s) bs (lex_get (lex_get s))" using consumes_get_some [OF o1] by blast
    have "0xEF # bs \<noteq> byte_order_mark"
    proof
      assume "0xEF # bs = byte_order_mark"
      then have "bs = [0xBB, 0xBF]" by (simp add: byte_order_mark_def)
      then have "pending (lex_get s) = 0xBB # 0xBF # pending (lex_get (lex_get s))" using bs by (simp add: consumes_def)
      then show False using consumes_get [OF o1] False by fastforce
    qed
    moreover have "skip_bom s = Inr (False, lex_get (lex_get s))" using True False by (simp add: skip_bom_def)
    ultimately show ?thesis
      using consumes_trans [OF c1 bs] by (intro exI [of _ "0xEF # bs"] exI [of _ "lex_get (lex_get s)"]) simp
  next
    case c2: True
    have o2: "lex_ok (lex_get (lex_get s))" using o1 by simp
    have p2: "pending (lex_get s) = 0xBB # pending (lex_get (lex_get s))" using get_char [OF o1, of "0xBB"] c2 by simp
    have k2: "consumes s [0xEF, 0xBB] (lex_get (lex_get s))"
      using consumes_trans [OF c1, of "[0xBB]"] consumes_get [OF o1 p2] by simp
    have "skip_bom s = Inr (lex_current (lex_get (lex_get (lex_get s))) = 0xBF, lex_get (lex_get (lex_get s)))"
      using True c2 by (simp add: skip_bom_def Let_def)
    moreover obtain bs where bs: "consumes (lex_get (lex_get s)) bs (lex_get (lex_get (lex_get s)))"
      and b: "bs = [0xBF] \<longleftrightarrow> lex_current (lex_get (lex_get (lex_get s))) = 0xBF"
    proof (rule get_cases [OF o2])
      fix c
      assume c: "lex_current (lex_get (lex_get (lex_get s))) = uint c" "pending (lex_get (lex_get s)) = c # pending (lex_get (lex_get (lex_get s)))"
      then show ?thesis
        using that [of "[c]"] consumes_get [OF o2 c(2)] by (simp add: word_uint_eq_iff)
    next
      assume e: "lex_current (lex_get (lex_get (lex_get s))) = EOF" "pending (lex_get (lex_get s)) = []"
      then show ?thesis using that [of "[]"] consumes_end [OF o2 e(2)] by simp
    qed
    ultimately show ?thesis
      using consumes_trans [OF k2 bs]
      by (intro exI [of _ "[0xEF, 0xBB] @ bs"] exI [of _ "lex_get (lex_get (lex_get s))"]) (auto simp: byte_order_mark_def)
  qed
qed


text \<open>The first scan of an input: behind a byte order mark, or it is malformed.\<close>

lemma scan_first_reads:
  assumes "point_ok dp"
  shows "(\<exists>s' bs. scan (new_lexer dp input) = Inr (parse_error_token, s') \<and> goes (new_lexer dp input) bs s') \<or>
    (\<exists>bom s1. (bom = [] \<or> bom = byte_order_mark) \<and> consumes (new_lexer dp input) bom s1 \<and>
       scan (new_lexer dp input) = scan_token (skip_white s1) \<and> scans s1 (scan (new_lexer dp input)))"
proof -
  let ?s = "new_lexer dp input"
  obtain bs s1 where b: "skip_bom ?s = Inr (bs \<noteq> [] \<longrightarrow> bs = byte_order_mark, s1)" "consumes ?s bs s1"
    using skip_bom_reads [of ?s] by auto
  show ?thesis
  proof (cases "bs \<noteq> [] \<longrightarrow> bs = byte_order_mark")
    case True
    then have "scan ?s = scan_token (skip_white s1)" using b(1) by (simp add: scan_def)
    moreover have "scans s1 (scan_token (skip_white s1))"
      using scan_token_skip_white [OF consumes_ok [OF b(2)]] assms b(2) by (simp add: consumes_def)
    ultimately show ?thesis using True b(2) by auto
  next
    case False
    then have bad: "skip_bom ?s = Inr (False, s1)" using b(1) by simp
    then have "0 < chars_read_total (position s1)"
      by (auto simp: skip_bom_def Let_def bind_res_eq_Inr split: if_splits)
    then show ?thesis
      using bad b(2) by (intro disjI1) (auto simp: scan_def fail_with_def goes_def)
  qed
qed

text \<open>Behind the mark, if there is one, the first scan is a scan like the others.\<close>

lemma scan_first:
  assumes "point_ok dp" "bom = [] \<and> (input = [] \<or> hd input \<noteq> 0xEF) \<or> bom = byte_order_mark"
  obtains s1 where "scan (new_lexer dp (bom @ input)) = scan s1" "lexing s1" "pending s1 = input"
    "consumes (new_lexer dp (bom @ input)) bom s1"
proof (cases "bom = []")
  case True
  then show ?thesis
    using that [of "new_lexer dp input"] assms by (auto simp: lexing_def byte_order_mark_def)
next
  case False
  let ?s = "new_lexer dp (bom @ input)"
  have "pending ?s = byte_order_mark @ input" using False assms(2) by simp
  then obtain s1 where s1: "skip_bom ?s = Inr (True, s1)" "consumes ?s bom s1" "0 < chars_read_total (position s1)"
    using skip_bom_mark [of ?s input] False assms(2) by auto
  have "scan ?s = scan s1" using s1(1,3) by (simp add: scan_def)
  moreover have "lexing s1" "pending s1 = input"
    using s1(2,3) assms(1) by (simp_all add: lexing_def consumes_def)
  ultimately show ?thesis using that s1(2) by blast
qed


section \<open>The end\<close>

text \<open>What may be behind a value: blanks, and anything behind a zero character.\<close>

definition rest_ok :: "byte list \<Rightarrow> bool" where
  "rest_ok r \<longleftrightarrow> (\<exists>ws z. r = ws @ z \<and> blank ws \<and> (z = [] \<or> hd z = 0))"

lemma skip_white_end:
  "blank ws \<Longrightarrow> lex_ok s \<Longrightarrow> pending s = ws \<Longrightarrow> lex_current (skip_white s) = EOF"
proof (induction ws arbitrary: s)
  case Nil
  note g = consumes_end [OF Nil(2,3)]
  then show ?case by (subst skip_white.simps) (simp add: white_def)
next
  case (Cons c ws)
  note g = consumes_get [OF Cons(3,4)]
  have "white (uint c)" using Cons(2) by (simp add: blank_def)
  then have "skip_white s = skip_white (lex_get s)" using g by (subst skip_white.simps) simp
  then show ?case using Cons(1) [of "lex_get s"] Cons(2,3) g by (simp add: blank_def)
qed

lemma scan_end_accepts:
  assumes "lexing s" "rest_ok (pending s)"
  shows "\<exists>s'. scan s = Inr (end_of_input, s')"
proof -
  obtain s1 where s1: "scan s = scan_token (skip_white s1)" "consumes s [] s1" using assms(1) by (rule scan_lexing)
  obtain ws z where w: "pending s1 = ws @ z" "blank ws" "z = [] \<or> hd z = 0"
    using assms(2) s1(2) by (auto simp: rest_ok_def consumes_def)
  have "lex_current (skip_white s1) \<in> {0, EOF}"
  proof (cases z)
    case Nil
    then show ?thesis using skip_white_end [OF w(2) consumes_ok [OF s1(2)]] w(1) by simp
  next
    case (Cons c r)
    then show ?thesis
      using skip_white_accepts [OF w(2) _ consumes_ok [OF s1(2)], of c r] w(1,3) by (simp add: white_def)
  qed
  then show ?thesis using s1(1) by (auto simp: scan_token_def digit_char_def)
qed

end
