(* ===== verification/Json_Grammar.thy ===== *)
theory Json_Grammar
  imports Json_Tokens Json_Value
begin

text \<open>
  JSON texts as RFC 8259 defines them, with the values they stand for: the specification of the parser.
\<close>

section \<open>Values of tokens\<close>

definition number_value :: "numeral \<Rightarrow> json option" where
  "number_value n =
     (if numeral_token n = value_unsigned then Some (JUnsigned (word_of_int (numeral_int n)))
      else if numeral_token n = value_integer_token then Some (JInteger (word_of_int (numeral_int n)))
      else if isfinite (numeral_double n) then Some (JFloat (numeral_double n)) else None)"

fun lexeme_value :: "lexeme \<Rightarrow> json option" where
  "lexeme_value (Literal t) =
     (if t = literal_true then Some (JBoolean True) else if t = literal_false then Some (JBoolean False)
      else if t = literal_null then Some JNull else None)"
| "lexeme_value (Text cps) = Some (JString (encode_text cps))"
| "lexeme_value (Number n) = number_value n"
| "lexeme_value (Punct t) = None"

section \<open>Texts\<close>

text \<open>A token with blanks in front.\<close>

definition token_at :: "lexeme \<Rightarrow> byte list \<Rightarrow> bool" where
  "token_at lx bs \<longleftrightarrow> (\<exists>ws u. bs = ws @ u \<and> blank ws \<and> lexeme_text lx u)"

text \<open>The object of a list of members: of members with the same key the last one stays.\<close>

definition object_of :: "(byte list \<times> json) list \<Rightarrow> (byte list \<times> json) list" where
  "object_of = foldl (\<lambda>m (k, v). map_assign k v (map_at k m)) []"

inductive json_text :: "json \<Rightarrow> byte list \<Rightarrow> bool"
  and elements_text :: "json list \<Rightarrow> byte list \<Rightarrow> bool"
  and members_text :: "(byte list \<times> json) list \<Rightarrow> byte list \<Rightarrow> bool"
where
  scalar: "token_at lx bs \<Longrightarrow> lexeme_value lx = Some v \<Longrightarrow> json_text v bs"
| empty_array: "token_at (Punct begin_array) a \<Longrightarrow> token_at (Punct end_array_token) b \<Longrightarrow> json_text (JArray []) (a @ b)"
| array: "token_at (Punct begin_array) a \<Longrightarrow> elements_text xs b \<Longrightarrow> token_at (Punct end_array_token) c \<Longrightarrow>
    json_text (JArray xs) (a @ b @ c)"
| empty_object: "token_at (Punct begin_object) a \<Longrightarrow> token_at (Punct end_object_token) b \<Longrightarrow> json_text (JObject []) (a @ b)"
| object: "token_at (Punct begin_object) a \<Longrightarrow> members_text ms b \<Longrightarrow> token_at (Punct end_object_token) c \<Longrightarrow>
    json_text (JObject (object_of ms)) (a @ b @ c)"
| first_element: "json_text v a \<Longrightarrow> elements_text [v] a"
| next_element: "elements_text xs a \<Longrightarrow> token_at (Punct value_separator) b \<Longrightarrow> json_text v c \<Longrightarrow>
    elements_text (xs @ [v]) (a @ b @ c)"
| first_member: "token_at (Text k) a \<Longrightarrow> token_at (Punct name_separator) b \<Longrightarrow> json_text v c \<Longrightarrow>
    members_text [(encode_text k, v)] (a @ b @ c)"
| next_member: "members_text ms a \<Longrightarrow> token_at (Punct value_separator) b \<Longrightarrow> token_at (Text k) c \<Longrightarrow>
    token_at (Punct name_separator) d \<Longrightarrow> json_text v e \<Longrightarrow>
    members_text (ms @ [(encode_text k, v)]) (a @ b @ c @ d @ e)"

section \<open>What the values of texts are\<close>

lemma object_of_snoc [simp]: "object_of [] = []"
  "object_of (ms @ [(k, v)]) = map_assign k v (map_at k (object_of ms))"
  by (simp_all add: object_of_def)

lemma map_ok_object_of: "map_ok (object_of ms)"
proof (induction ms rule: rev_induct)
  case Nil
  then show ?case by (simp add: map_ok_def)
next
  case (snoc kv ms)
  then show ?case by (cases kv) (simp add: map_ok_map_at)
qed

lemma map_assign_at_entries: "map_ok m \<Longrightarrow> set (map_assign k v (map_at k m)) \<subseteq> insert (k, v) (set m)"
proof (induction k m rule: map_at.induct)
  case (2 k k' w m)
  have "map_ok m" using 2(2) by (simp add: map_ok_def)
  then show ?case using 2(1) by auto
qed simp

lemma set_object_of: "set (object_of ms) \<subseteq> set ms"
proof (induction ms rule: rev_induct)
  case (snoc kv ms)
  obtain k v where kv: "kv = (k, v)" by (cases kv)
  have "set (map_assign k v (map_at k (object_of ms))) \<subseteq> insert (k, v) (set (object_of ms))"
    using map_assign_at_entries map_ok_object_of by blast
  then show ?case using snoc kv by auto
qed simp

text \<open>
  Well-formed values: objects are maps, strings and keys are UTF-8, numbers finite and nothing is
  discarded.
\<close>

fun json_wf :: "json \<Rightarrow> bool" where
  "json_wf (JObject m) \<longleftrightarrow> map_ok m \<and> (\<forall>(k, v) \<in> set m. valid_utf8 k \<and> json_wf v)"
| "json_wf (JArray xs) \<longleftrightarrow> (\<forall>v \<in> set xs. json_wf v)"
| "json_wf (JString s) \<longleftrightarrow> valid_utf8 s"
| "json_wf (JFloat x) \<longleftrightarrow> isfinite x"
| "json_wf JDiscarded \<longleftrightarrow> False"
| "json_wf _ \<longleftrightarrow> True"

lemma token_text_valid: "token_at (Text k) a \<Longrightarrow> valid_utf8 (encode_text k)"
  by (auto simp: token_at_def elim!: lexeme_text_elims intro: string_text_valid)

lemma lexeme_value_wf: "token_at lx bs \<Longrightarrow> lexeme_value lx = Some v \<Longrightarrow> json_wf v"
  by (cases lx) (auto simp: number_value_def dest: token_text_valid split: if_splits)

lemma json_text_wf:
  "json_text v a \<Longrightarrow> json_wf v"
  "elements_text xs a \<Longrightarrow> \<forall>v \<in> set xs. json_wf v"
  "members_text ms a \<Longrightarrow> \<forall>(k, v) \<in> set ms. valid_utf8 k \<and> json_wf v"
proof (induction rule: json_text_elements_text_members_text.inducts)
  case (scalar lx bs v)
  then show ?case using lexeme_value_wf by blast
next
  case (object a ms b c)
  then show ?case using map_ok_object_of set_object_of [of ms] by (auto simp: subset_iff)
next
  case empty_object
  then show ?case by (simp add: map_ok_def)
next
  case (first_member k a b v c)
  then show ?case using token_text_valid by auto
next
  case (next_member ms a b k c d v e)
  then show ?case using token_text_valid by auto
qed auto

end
