(* ===== verification/Json_Sound.thy ===== *)
theory Json_Sound
  imports Json_Parser Json_Dom Json_Grammar
begin

text \<open>
  The parser accepts only JSON: whatever the bytes, \<open>sax_parse_internal\<close> of
  \<open>src/nlohmann/detail/input/parser.hpp\<close> with the DOM parser either reports an error, by an exception or
  by its result, or has read a text of the grammar and built its value. Nothing else can happen: no
  assertion fails and no pointer is without target.
\<close>

section \<open>Tokens\<close>

lemma lexeme_token_cases:
  assumes "lexeme_text lx u"
  shows "lexeme_token lx \<notin> {uninitialized, parse_error_token, end_of_input, literal_or_value}"
    and "lexeme_token lx \<in> fst ` set puncts \<Longrightarrow> lx = Punct (lexeme_token lx)"
    and "lexeme_token lx \<in> fst ` set literals \<Longrightarrow> lx = Literal (lexeme_token lx)"
    and "lexeme_token lx = value_string \<Longrightarrow> \<exists>cps. lx = Text cps"
    and "lexeme_token lx \<in> {value_unsigned, value_integer_token, value_float_token} \<Longrightarrow>
      \<exists>n. lx = Number n \<and> numeral_token n = lexeme_token lx"
  using assms by (cases lx; auto elim!: lexeme_text_elims simp: puncts_def literals_def numeral_token_def split: if_splits)+

lemma scans_token:
  assumes "scans s (Inr (t, s'))" "t \<noteq> parse_error_token" "t \<noteq> end_of_input"
  obtains lx a where "t = lexeme_token lx" "token_at lx a" "lexeme_held lx s'" "goes s a s'"
  using assms unfolding scans_def token_at_def by auto

lemma scans_punct:
  assumes "scans s (Inr (t, s'))" "t \<in> fst ` set puncts"
  obtains a where "token_at (Punct t) a" "goes s a s'"
proof -
  have "t \<noteq> parse_error_token" "t \<noteq> end_of_input" using assms(2) by (auto simp: puncts_def)
  then obtain lx a where lx: "t = lexeme_token lx" "token_at lx a" "goes s a s'" using scans_token [OF assms(1)] by metis
  obtain u where "lexeme_text lx u" using lx(2) by (auto simp: token_at_def)
  then have "lx = Punct t" using lexeme_token_cases(2) assms(2) lx(1) by metis
  then show ?thesis using that lx by blast
qed

lemma scans_string:
  assumes "scans s (Inr (value_string, s'))"
  obtains cps a where "token_at (Text cps) a" "token_buffer s' = encode_text cps" "goes s a s'"
proof -
  obtain lx a where lx: "value_string = lexeme_token lx" "token_at lx a" "lexeme_held lx s'" "goes s a s'"
    using scans_token [OF assms] by blast
  obtain u where "lexeme_text lx u" using lx(2) by (auto simp: token_at_def)
  then obtain cps where "lx = Text cps" using lexeme_token_cases(4) lx(1) by metis
  then show ?thesis using that lx by simp
qed

lemma scans_goes: "scans s (Inr (t, s')) \<Longrightarrow> \<exists>a. goes s a s'"
  unfolding scans_def by auto

section \<open>The text of a context\<close>

definition is_array_frame :: "frame \<Rightarrow> bool" where
  "is_array_frame f = (case f of ArrayFrame _ \<Rightarrow> True | _ \<Rightarrow> False)"

lemma is_array_frame_simps [simp]: "is_array_frame (ArrayFrame xs)" "\<not> is_array_frame (ObjectFrame m k)"
  by (simp_all add: is_array_frame_def)

text \<open>What has been read when the next value is to be put in the context.\<close>

inductive context_text :: "frame list \<Rightarrow> byte list \<Rightarrow> bool" where
  top: "context_text [] []"
| first_element: "context_text fs a \<Longrightarrow> token_at (Punct begin_array) b \<Longrightarrow> context_text (ArrayFrame [] # fs) (a @ b)"
| next_element: "context_text fs a \<Longrightarrow> token_at (Punct begin_array) b \<Longrightarrow> elements_text xs c \<Longrightarrow>
    token_at (Punct value_separator) d \<Longrightarrow> context_text (ArrayFrame xs # fs) (a @ b @ c @ d)"
| first_member: "context_text fs a \<Longrightarrow> token_at (Punct begin_object) b \<Longrightarrow> token_at (Text k) c \<Longrightarrow>
    token_at (Punct name_separator) d \<Longrightarrow>
    context_text (ObjectFrame (map_at (encode_text k) []) (encode_text k) # fs) (a @ b @ c @ d)"
| next_member: "context_text fs a \<Longrightarrow> token_at (Punct begin_object) b \<Longrightarrow> members_text ms c \<Longrightarrow>
    token_at (Punct value_separator) d \<Longrightarrow> token_at (Text k) e \<Longrightarrow> token_at (Punct name_separator) f \<Longrightarrow>
    context_text (ObjectFrame (map_at (encode_text k) (object_of ms)) (encode_text k) # fs) (a @ b @ c @ d @ e @ f)"

text \<open>A value completes an array or object, up to its closing bracket.\<close>

lemma filled_array:
  assumes "context_text (ArrayFrame xs # fs) a" "json_text v b"
  obtains a' c d where "a @ b = a' @ c @ d" "context_text fs a'" "token_at (Punct begin_array) c" "elements_text (xs @ [v]) d"
  using assms(1)
proof cases
  case (first_element a' c)
  then show ?thesis using that [of a' c b] json_text_elements_text_members_text.first_element [OF assms(2)] by simp
next
  case (next_element a' c d e)
  then show ?thesis
    using that [of a' c "d @ e @ b"] json_text_elements_text_members_text.next_element [of xs d e v b] assms(2) by simp
qed

lemma filled_object:
  assumes "context_text (ObjectFrame m k # fs) a" "json_text v b"
  obtains a' c d ms where "a @ b = a' @ c @ d" "context_text fs a'" "token_at (Punct begin_object) c" "members_text ms d"
    "map_assign k v m = object_of ms"
  using assms(1)
proof cases
  case (first_member a' c key d e)
  then show ?thesis
    using that [of a' c "d @ e @ b" "[(k, v)]"] json_text_elements_text_members_text.first_member [of key d e v b] assms(2)
      object_of_snoc(2) [of "[]" k v] by simp
next
  case (next_member a' c ms d e key f g)
  then show ?thesis
    using that [of a' c "d @ e @ f @ g @ b" "ms @ [(k, v)]"]
      json_text_elements_text_members_text.next_member [of ms d e key f g v b] assms(2)
    by simp
qed

section \<open>States and outcomes\<close>

abbreviation the_lexer :: "'h loop \<Rightarrow> lexer" where
  "the_lexer l \<equiv> m_lexer (psr l)"

text \<open>
  The next value goes in the context \<open>fs\<close> and its first token has been scanned; a value is complete there.
  The parse began at the lexer \<open>s0\<close>.
\<close>

definition expects :: "lexer \<Rightarrow> frame list \<Rightarrow> dom loop \<Rightarrow> bool" where
  "expects s0 fs l \<longleftrightarrow> dom_hole fs (handler l) \<and> states l = map is_array_frame fs \<and> \<not> skip_to_state_evaluation l \<and>
     lexing (the_lexer l) \<and>
     (\<exists>a s. context_text fs a \<and> consumes s0 a s \<and> scans s (Inr (last_token (psr l), the_lexer l)))"

definition completed :: "lexer \<Rightarrow> frame list \<Rightarrow> json \<Rightarrow> dom loop \<Rightarrow> bool" where
  "completed s0 fs v l \<longleftrightarrow> dom_filled fs v (handler l) \<and> states l = map is_array_frame fs \<and> lexing (the_lexer l) \<and>
     (\<exists>a b. context_text fs a \<and> json_text v b \<and> consumes s0 (a @ b) (the_lexer l))"

definition going :: "bool \<Rightarrow> dom loop \<Rightarrow> bool" where
  "going allow l \<longleftrightarrow> allow_exceptions (handler l) = allow \<and> \<not> errored (handler l)"

text \<open>What a round may return: it goes on well, has reported an error, or is through.\<close>

fun outcome :: "bool \<Rightarrow> lexer \<Rightarrow> dom round \<Rightarrow> bool" where
  "outcome allow s0 (Inl e) \<longleftrightarrow> allow \<and> (\<exists>m. e = Uncaught m)"
| "outcome allow s0 (Inr (Some b, l)) \<longleftrightarrow>
     (if b then going allow l \<and> (\<exists>v. completed s0 [] v l) else \<not> allow \<and> \<not> allow_exceptions (handler l) \<and> errored (handler l) \<and> lexing (the_lexer l))"
| "outcome allow s0 (Inr (None, l)) \<longleftrightarrow> going allow l \<and>
     (\<exists>fs. expects s0 fs l \<or> skip_to_state_evaluation l \<and> (\<exists>v. completed s0 fs v l))"

lemma outcome_report:
  assumes "allow_exceptions (handler l) = allow" "ex_id ex = 101 \<or> ex_id ex = 406" "lexing (the_lexer l)"
  shows "outcome allow s0 (report dom_sax ex l)"
  using assms by (auto simp: report_def dom_sax_def dom_parse_error_def json_throw_def Let_def)

lemma outcome_syntax_error:
  "going allow l \<Longrightarrow> lexing (the_lexer l) \<Longrightarrow> outcome allow s0 (report dom_sax (syntax_error p t c) l)"
  by (rule outcome_report) (simp_all add: going_def syntax_error_def parse_error_create_def Let_def)

lemma tell_goes_on: "f (handler l) = Inr (True, h) \<Longrightarrow> tell f l k = k (l\<lparr>handler := h\<rparr>)"
  by (simp add: tell_def)

lemma going_handler: "going allow l \<Longrightarrow> same_options (handler l) h \<Longrightarrow> going allow (l\<lparr>handler := h\<rparr>)"
  by (simp add: going_def same_options_def)

lemma going_frame [simp]:
  "going allow (l\<lparr>psr := p\<rparr>) = going allow l" "going allow (l\<lparr>states := st\<rparr>) = going allow l"
  "going allow (l\<lparr>skip_to_state_evaluation := b\<rparr>) = going allow l"
  by (simp_all add: going_def)

text \<open>The next token, with the lexer behind it.\<close>

definition with_token :: "token_type \<Rightarrow> lexer \<Rightarrow> 'h loop \<Rightarrow> 'h loop" where
  "with_token t s l = l\<lparr>psr := (psr l)\<lparr>last_token := t, m_lexer := s\<rparr>\<rparr>"

lemma with_token_simps [simp]:
  "handler (with_token t s l) = handler l" "states (with_token t s l) = states l"
  "skip_to_state_evaluation (with_token t s l) = skip_to_state_evaluation l"
  "the_lexer (with_token t s l) = s" "last_token (psr (with_token t s l)) = t"
  "going allow (with_token t s l) = going allow l"
  by (simp_all add: with_token_def)

lemma next_token_scan: "scan (the_lexer l) = Inr (t, s) \<Longrightarrow> next_token l k = k t (with_token t s l)"
  by (simp add: next_token_def get_token_def with_token_def)

lemma next_token_cases:
  assumes "lexing (the_lexer l)"
  obtains t s where "next_token l k = k t (with_token t s l)" "scans (the_lexer l) (Inr (t, s))" "lexing s"
proof -
  obtain t s where s: "scan (the_lexer l) = Inr (t, s)" "scans (the_lexer l) (Inr (t, s))"
    using scan_reads [OF assms] scans_Inr by metis
  have "point_ok (decimal_point_char (the_lexer l))" using assms by (simp add: lexing_def)
  then have "lexing s" using scans_goes [OF s(2)] goes_lexing by blast
  then show ?thesis using that s next_token_scan by blast
qed

lemma goes_consumes: "consumes s0 a s \<Longrightarrow> goes s b s' \<Longrightarrow> consumes s0 (a @ b) s'"
  using consumes_trans by (simp add: goes_def)


section \<open>The rounds\<close>

lemma dom_sax_simps [simp]:
  "sax_null dom_sax = dom_value JNull" "sax_boolean dom_sax b = dom_value (JBoolean b)"
  "sax_number_integer dom_sax n = dom_value (JInteger n)" "sax_number_unsigned dom_sax u = dom_value (JUnsigned u)"
  "sax_number_float dom_sax x s = dom_value (JFloat x)" "sax_string dom_sax s = dom_value (JString s)"
  "sax_start_object dom_sax n = dom_start (JObject []) ''object'' n" "sax_key dom_sax s = dom_key s"
  "sax_end_object dom_sax = dom_end" "sax_start_array dom_sax n = dom_start (JArray []) ''array'' n"
  "sax_end_array dom_sax = dom_end" "sax_parse_error dom_sax = dom_parse_error"
  by (simp_all add: dom_sax_def)

text \<open>Behind a comma, a colon or an opening bracket the next value is expected.\<close>

lemma outcome_expects:
  assumes "going allow l" "dom_hole fs (handler l)" "states l = map is_array_frame fs" "\<not> skip_to_state_evaluation l"
    "lexing (the_lexer l)" "context_text fs a" "consumes s0 a (the_lexer l)"
  shows "outcome allow s0 (next_token l (\<lambda>_ l2. Inr (None, l2)))"
proof -
  let ?k = "\<lambda>_ l2. Inr (None, l2) :: dom round"
  obtain t s where t: "next_token l ?k = ?k t (with_token t s l)"
    "scans (the_lexer l) (Inr (t, s))" "lexing s"
    using assms(5) by (rule next_token_cases)
  have "expects s0 fs (with_token t s l)"
    using assms t(2,3) by (auto simp: expects_def)
  then show ?thesis using t(1) assms(1) by auto
qed

text \<open>A closing bracket completes the container.\<close>

lemma outcome_end:
  assumes "going allow l" "dom_open fs v (handler l)" "lexing (the_lexer l)" "context_text fs a" "json_text v b"
    "consumes s0 (a @ b) (the_lexer l)"
  shows "outcome allow s0 (tell dom_end l (\<lambda>l2. Inr (None, l2\<lparr>states := map is_array_frame fs, skip_to_state_evaluation := True\<rparr>)))"
proof -
  obtain d' where d': "dom_end (handler l) = Inr (True, d')" "dom_filled fs v d'" "same_options (handler l) d'"
    using dom_end_open [OF assms(2)] by blast
  let ?l = "l\<lparr>handler := d', states := map is_array_frame fs, skip_to_state_evaluation := True\<rparr>"
  have "completed s0 fs v ?l" using d'(2) assms(3-6) by (auto simp: completed_def)
  then show ?thesis using d' going_handler [OF assms(1) d'(3)] by (auto simp: tell_goes_on)
qed

text \<open>A key: its member is there afterwards and its value expected.\<close>

lemma outcome_key:
  assumes "going allow l" "dom_open fs (JObject m) (handler l)" "map_ok m" "lexing (the_lexer l)"
    "token_buffer (the_lexer l) = encode_text key"
    and cont: "\<And>t h s d. t = name_separator \<Longrightarrow> dom_hole (ObjectFrame (map_at (encode_text key) m) (encode_text key) # fs) h \<Longrightarrow>
      going allow (l\<lparr>handler := h\<rparr>) \<Longrightarrow> lexing s \<Longrightarrow> token_at (Punct name_separator) d \<Longrightarrow> goes (the_lexer l) d s \<Longrightarrow>
      outcome allow s0 (k (with_token t s (l\<lparr>handler := h\<rparr>)))"
  shows "outcome allow s0 (parse_key dom_sax l k)"
proof -
  obtain h where h: "dom_key (encode_text key) (handler l) = Inr (True, h)"
    "dom_hole (ObjectFrame (map_at (encode_text key) m) (encode_text key) # fs) h" "same_options (handler l) h"
    using dom_key_open [OF assms(2,3)] by blast
  let ?l = "l\<lparr>handler := h\<rparr>"
  have g: "going allow ?l" using going_handler [OF assms(1) h(3)] .
  let ?k = "\<lambda>t l2. if t \<noteq> name_separator
       then report dom_sax (syntax_error (psr l2) name_separator ''object separator'') l2 else k l2"
  have "lexing (the_lexer ?l)" using assms(4) by simp
  then obtain t s where t: "next_token ?l ?k = ?k t (with_token t s ?l)" "scans (the_lexer ?l) (Inr (t, s))" "lexing s"
    by (rule next_token_cases)
  have "parse_key dom_sax l k = ?k t (with_token t s ?l)"
    using h(1) t(1) assms(5) by (simp add: parse_key_def tell_goes_on)
  moreover have "outcome allow s0 (k (with_token t s ?l))" if sep: "t = name_separator"
  proof -
    obtain d where "token_at (Punct name_separator) d" "goes (the_lexer l) d s"
      using scans_punct [OF t(2)] sep by (auto simp: puncts_def)
    then show ?thesis using cont [OF sep h(2) g t(3)] by blast
  qed
  ultimately show ?thesis using outcome_syntax_error g t(3) by simp
qed


lemma array_punct [simp]:
  "begin_array \<in> fst ` set puncts" "end_array_token \<in> fst ` set puncts" "begin_object \<in> fst ` set puncts"
  "end_object_token \<in> fst ` set puncts" "name_separator \<in> fst ` set puncts" "value_separator \<in> fst ` set puncts"
  by (simp_all add: puncts_def)

lemma evaluate_array:
  assumes "going allow l" "\<not> skip_to_state_evaluation l" "completed s0 (ArrayFrame xs # fs) v l"
  shows "outcome allow s0 (evaluate_state dom_sax l)"
proof -
  obtain a b where c: "dom_open fs (JArray (xs @ [v])) (handler l)" "states l = True # map is_array_frame fs"
    "lexing (the_lexer l)" "context_text (ArrayFrame xs # fs) a" "json_text v b" "consumes s0 (a @ b) (the_lexer l)"
    using assms(3) by (auto simp: completed_def)
  obtain a' o' e where f: "a @ b = a' @ o' @ e" "context_text fs a'" "token_at (Punct begin_array) o'"
    "elements_text (xs @ [v]) e" using filled_array [OF c(4,5)] by blast
  let ?k = "\<lambda>t l1. if t = value_separator then next_token l1 (\<lambda>_ l2. Inr (None, l2))
          else if t = end_array_token then tell (sax_end_array dom_sax) l1 (\<lambda>l2.
            Inr (None, l2\<lparr>states := map is_array_frame fs, skip_to_state_evaluation := True\<rparr>))
          else report dom_sax (syntax_error (psr l1) end_array_token ''array'') l1"
  obtain t s where t: "next_token l ?k = ?k t (with_token t s l)" "scans (the_lexer l) (Inr (t, s))" "lexing s"
    using c(3) by (rule next_token_cases)
  have r: "evaluate_state dom_sax l = ?k t (with_token t s l)" using t(1) c(2) by (simp add: evaluate_state_def)
  consider (comma) "t = value_separator" | (bracket) "t = end_array_token" | (other) "t \<noteq> value_separator" "t \<noteq> end_array_token"
    by blast
  then show ?thesis
  proof cases
    case comma
    then obtain d where d: "token_at (Punct value_separator) d" "goes (the_lexer l) d s"
      using scans_punct [OF t(2)] by auto
    have "context_text (ArrayFrame (xs @ [v]) # fs) (a' @ o' @ e @ d)"
      using context_text.next_element [OF f(2,3,4) d(1)] .
    moreover have "consumes s0 (a' @ o' @ e @ d) s" using goes_consumes [OF c(6) d(2)] f(1) by simp
    ultimately show ?thesis
      using r comma assms(1,2) c(1,2) t(3)
        outcome_expects [of allow "with_token t s l" "ArrayFrame (xs @ [v]) # fs" "a' @ o' @ e @ d" s0] by simp
  next
    case bracket
    then obtain d where d: "token_at (Punct end_array_token) d" "goes (the_lexer l) d s"
      using scans_punct [OF t(2)] by auto
    have "json_text (JArray (xs @ [v])) (o' @ e @ d)" using json_text_elements_text_members_text.array [OF f(3,4) d(1)] .
    moreover have "consumes s0 (a' @ o' @ e @ d) s" using goes_consumes [OF c(6) d(2)] f(1) by simp
    ultimately show ?thesis
      using r bracket assms(1) c(1) t(3) f(2) outcome_end [of allow "with_token t s l" fs "JArray (xs @ [v])" a' "o' @ e @ d" s0]
      by simp
  next
    case other
    then show ?thesis using r outcome_syntax_error assms(1) t(3) by simp
  qed
qed

lemma evaluate_object:
  assumes "going allow l" "\<not> skip_to_state_evaluation l" "completed s0 (ObjectFrame m k # fs) v l"
  shows "outcome allow s0 (evaluate_state dom_sax l)"
proof -
  obtain a b where c: "dom_open fs (JObject (map_assign k v m)) (handler l)" "states l = False # map is_array_frame fs"
    "lexing (the_lexer l)" "context_text (ObjectFrame m k # fs) a" "json_text v b" "consumes s0 (a @ b) (the_lexer l)"
    using assms(3) by (auto simp: completed_def)
  obtain a' o' e ms where f: "a @ b = a' @ o' @ e" "context_text fs a'" "token_at (Punct begin_object) o'"
    "members_text ms e" "map_assign k v m = object_of ms" using filled_object [OF c(4,5)] by blast
  let ?kk = "\<lambda>l3 :: dom loop. next_token l3 (\<lambda>_ l4. Inr (None, l4) :: dom round)"
  let ?k2 = "\<lambda>t2 l2. if t2 \<noteq> value_string then report dom_sax (syntax_error (psr l2) value_string ''object key'') l2
            else parse_key dom_sax l2 ?kk"
  let ?k = "\<lambda>t l1. if t = value_separator then next_token l1 ?k2
          else if t = end_object_token then tell (sax_end_object dom_sax) l1 (\<lambda>l2.
            Inr (None, l2\<lparr>states := map is_array_frame fs, skip_to_state_evaluation := True\<rparr>))
          else report dom_sax (syntax_error (psr l1) end_object_token ''object'') l1"
  obtain t s where t: "next_token l ?k = ?k t (with_token t s l)" "scans (the_lexer l) (Inr (t, s))" "lexing s"
    using c(3) by (rule next_token_cases)
  have r: "evaluate_state dom_sax l = ?k t (with_token t s l)" using t(1) c(2) by (simp add: evaluate_state_def)
  consider (comma) "t = value_separator" | (bracket) "t = end_object_token" | (other) "t \<noteq> value_separator" "t \<noteq> end_object_token"
    by blast
  then show ?thesis
  proof cases
    case comma
    then obtain d where d: "token_at (Punct value_separator) d" "goes (the_lexer l) d s"
      using scans_punct [OF t(2)] by auto
    let ?l = "with_token t s l"
    have "lexing (the_lexer ?l)" using t(3) by simp
    then obtain t2 s2 where t2: "next_token ?l ?k2 = ?k2 t2 (with_token t2 s2 ?l)" "scans (the_lexer ?l) (Inr (t2, s2))" "lexing s2"
      by (rule next_token_cases)
    have "outcome allow s0 (parse_key dom_sax (with_token t2 s2 ?l) ?kk)" if st: "t2 = value_string"
    proof -
      have "scans s (Inr (value_string, s2))" using t2(2) st by simp
      then obtain key g where key: "token_at (Text key) g" "token_buffer s2 = encode_text key" "goes s g s2"
        by (rule scans_string)
      show ?thesis
      proof (rule outcome_key [where fs = fs and m = "object_of ms" and key = key])
        fix t3 h s3 d3
        assume a: "t3 = name_separator"
          "dom_hole (ObjectFrame (map_at (encode_text key) (object_of ms)) (encode_text key) # fs) h"
          "going allow ((with_token t2 s2 ?l)\<lparr>handler := h\<rparr>)" "lexing s3" "token_at (Punct name_separator) d3"
          "goes (the_lexer (with_token t2 s2 ?l)) d3 s3"
        have "consumes s0 (a' @ o' @ e @ d @ g @ d3) s3"
          using goes_consumes [OF goes_consumes [OF goes_consumes [OF c(6) d(2)] key(3)], of d3 s3] a(6) f(1) by simp
        moreover note context_text.next_member [OF f(2,3,4) d(1) key(1) a(5)]
        ultimately show "outcome allow s0 (?kk (with_token t3 s3 ((with_token t2 s2 ?l)\<lparr>handler := h\<rparr>)))"
          using a(2-4) assms(2) c(2)
          by (intro outcome_expects [of allow _ "ObjectFrame (map_at (encode_text key) (object_of ms)) (encode_text key) # fs" "a' @ o' @ e @ d @ g @ d3"])
            simp_all
      qed (use assms(1) c(1) f(5) t2(3) key(2) map_ok_object_of in simp_all)
    qed
    then show ?thesis using r comma t2(1,3) outcome_syntax_error assms(1) by simp
  next
    case bracket
    then obtain d where d: "token_at (Punct end_object_token) d" "goes (the_lexer l) d s"
      using scans_punct [OF t(2)] by auto
    have "json_text (JObject (object_of ms)) (o' @ e @ d)" using json_text_elements_text_members_text.object [OF f(3,4) d(1)] .
    moreover have "consumes s0 (a' @ o' @ e @ d) s" using goes_consumes [OF c(6) d(2)] f(1) by simp
    ultimately show ?thesis
      using r bracket assms(1) c(1) t(3) f(2,5) outcome_end [of allow "with_token t s l" fs "JObject (object_of ms)" a' "o' @ e @ d" s0]
      by simp
  next
    case other
    then show ?thesis using r outcome_syntax_error assms(1) t(3) by simp
  qed
qed

lemma evaluate_outcome:
  assumes "going allow l" "\<not> skip_to_state_evaluation l" "completed s0 fs v l"
  shows "outcome allow s0 (evaluate_state dom_sax l)"
proof (cases fs)
  case Nil
  then have "states l = []" using assms(3) by (simp add: completed_def)
  then show ?thesis using assms(1,3) Nil by (auto simp: evaluate_state_def)
next
  case (Cons f outer)
  then show ?thesis using evaluate_array evaluate_object assms by (cases f) blast+
qed


text \<open>A value of one token.\<close>

lemma outcome_scalar:
  assumes "going allow l" "expects s0 fs l" "last_token (psr l) = lexeme_token lx" "token_at lx b"
    "goes s b (the_lexer l)" "context_text fs a" "consumes s0 a s" "lexeme_value lx = Some v"
  shows "outcome allow s0 (tell (dom_value v) l (evaluate_state dom_sax))"
proof -
  have e: "dom_hole fs (handler l)" "states l = map is_array_frame fs" "\<not> skip_to_state_evaluation l" "lexing (the_lexer l)"
    using assms(2) by (simp_all add: expects_def)
  obtain h where h: "dom_value v (handler l) = Inr (True, h)" "dom_filled fs v h" "same_options (handler l) h"
    using dom_value_hole [OF e(1)] by blast
  have "json_text v b" using scalar [OF assms(4,8)] .
  moreover have "consumes s0 (a @ b) (the_lexer l)" using goes_consumes [OF assms(7,5)] .
  ultimately have "completed s0 fs v (l\<lparr>handler := h\<rparr>)"
    using e(2,4) h(2) assms(6) by (auto simp: completed_def)
  then show ?thesis
    using h going_handler [OF assms(1) h(3)] e(3) evaluate_outcome [of allow "l\<lparr>handler := h\<rparr>" s0 fs v]
    by (simp add: tell_goes_on)
qed

text \<open>An empty container is complete at once.\<close>

lemma outcome_empty:
  assumes "going allow l" "dom_open fs v (handler l)" "states l = map is_array_frame fs" "\<not> skip_to_state_evaluation l"
    "lexing (the_lexer l)" "context_text fs a" "json_text v b" "consumes s0 (a @ b) (the_lexer l)"
  shows "outcome allow s0 (tell dom_end l (evaluate_state dom_sax))"
proof -
  obtain h where h: "dom_end (handler l) = Inr (True, h)" "dom_filled fs v h" "same_options (handler l) h"
    using dom_end_open [OF assms(2)] by blast
  have "completed s0 fs v (l\<lparr>handler := h\<rparr>)" using h(2) assms(3,5-8) by (auto simp: completed_def)
  then show ?thesis
    using h going_handler [OF assms(1) h(3)] assms(4) evaluate_outcome [of allow "l\<lparr>handler := h\<rparr>" s0 fs v]
    by (simp add: tell_goes_on)
qed

lemma parse_array:
  assumes "going allow l" "expects s0 fs l" "last_token (psr l) = begin_array" "token_at (Punct begin_array) b"
    "goes s b (the_lexer l)" "context_text fs a" "consumes s0 a s"
  shows "outcome allow s0 (parse_value dom_sax l)"
proof -
  have e: "dom_hole fs (handler l)" "states l = map is_array_frame fs" "\<not> skip_to_state_evaluation l" "lexing (the_lexer l)"
    using assms(2) by (simp_all add: expects_def)
  obtain h where h: "dom_start (JArray []) ''array'' (- 1) (handler l) = Inr (True, h)" "dom_open fs (JArray []) h"
    "same_options (handler l) h" using dom_start_hole [OF e(1)] by blast
  let ?l = "l\<lparr>handler := h\<rparr>"
  have g: "going allow ?l" using going_handler [OF assms(1) h(3)] .
  have c: "consumes s0 (a @ b) (the_lexer ?l)" using goes_consumes [OF assms(7,5)] by simp
  let ?k = "\<lambda>t l2. if t = end_array_token then tell (sax_end_array dom_sax) l2 (evaluate_state dom_sax)
          else Inr (None, l2\<lparr>states := True # states l2\<rparr>)"
  have "lexing (the_lexer ?l)" using e(4) by simp
  then obtain t s1 where t: "next_token ?l ?k = ?k t (with_token t s1 ?l)" "scans (the_lexer ?l) (Inr (t, s1))" "lexing s1"
    by (rule next_token_cases)
  have r: "parse_value dom_sax l = ?k t (with_token t s1 ?l)"
    using assms(3) h(1) t(1) by (simp add: parse_value_def tell_goes_on)
  show ?thesis
  proof (cases "t = end_array_token")
    case True
    then obtain d where d: "token_at (Punct end_array_token) d" "goes (the_lexer l) d s1"
      using scans_punct [OF t(2)] by auto
    have "consumes s0 (a @ b @ d) s1" using goes_consumes [OF c] d(2) by simp
    then show ?thesis
      using r True g h(2) e(2,3) t(3) assms(6) empty_array [OF assms(4) d(1)]
        outcome_empty [of allow "with_token t s1 ?l" fs "JArray []" a "b @ d" s0] by simp
  next
    case False
    let ?m = "(with_token t s1 ?l)\<lparr>states := True # states (with_token t s1 ?l)\<rparr>"
    have "expects s0 (ArrayFrame [] # fs) ?m"
      using h(2) e(2,3) t(2,3) context_text.first_element [OF assms(6,4)] c by (auto simp: expects_def with_token_def)
    then show ?thesis using r False g by auto
  qed
qed

lemma parse_object:
  assumes "going allow l" "expects s0 fs l" "last_token (psr l) = begin_object" "token_at (Punct begin_object) b"
    "goes s b (the_lexer l)" "context_text fs a" "consumes s0 a s"
  shows "outcome allow s0 (parse_value dom_sax l)"
proof -
  have e: "dom_hole fs (handler l)" "states l = map is_array_frame fs" "\<not> skip_to_state_evaluation l" "lexing (the_lexer l)"
    using assms(2) by (simp_all add: expects_def)
  obtain h where h: "dom_start (JObject []) ''object'' (- 1) (handler l) = Inr (True, h)" "dom_open fs (JObject []) h"
    "same_options (handler l) h" using dom_start_hole [OF e(1)] by blast
  let ?l = "l\<lparr>handler := h\<rparr>"
  have g: "going allow ?l" using going_handler [OF assms(1) h(3)] .
  have c: "consumes s0 (a @ b) (the_lexer ?l)" using goes_consumes [OF assms(7,5)] by simp
  let ?kk = "\<lambda>l3 :: dom loop. next_token (l3\<lparr>states := False # states l3\<rparr>) (\<lambda>_ l4. Inr (None, l4) :: dom round)"
  let ?k = "\<lambda>t l2. if t = end_object_token then tell (sax_end_object dom_sax) l2 (evaluate_state dom_sax)
          else if t \<noteq> value_string then report dom_sax (syntax_error (psr l2) value_string ''object key'') l2
          else parse_key dom_sax l2 ?kk"
  have "lexing (the_lexer ?l)" using e(4) by simp
  then obtain t s1 where t: "next_token ?l ?k = ?k t (with_token t s1 ?l)" "scans (the_lexer ?l) (Inr (t, s1))" "lexing s1"
    by (rule next_token_cases)
  have r: "parse_value dom_sax l = ?k t (with_token t s1 ?l)"
    using assms(3) h(1) t(1) by (simp add: parse_value_def tell_goes_on)
  consider "t = end_object_token" | "t = value_string" | "t \<noteq> end_object_token" "t \<noteq> value_string" by blast
  then show ?thesis
  proof cases
    case 1
    then obtain d where d: "token_at (Punct end_object_token) d" "goes (the_lexer l) d s1"
      using scans_punct [OF t(2)] by auto
    have "consumes s0 (a @ b @ d) s1" using goes_consumes [OF c] d(2) by simp
    then show ?thesis
      using r 1 g h(2) e(2,3) t(3) assms(6) empty_object [OF assms(4) d(1)]
        outcome_empty [of allow "with_token t s1 ?l" fs "JObject []" a "b @ d" s0] by simp
  next
    case 2
    then have "scans (the_lexer ?l) (Inr (value_string, s1))" using t(2) by simp
    then obtain key k where key: "token_at (Text key) k" "token_buffer s1 = encode_text key" "goes (the_lexer ?l) k s1"
      by (rule scans_string)
    have "outcome allow s0 (parse_key dom_sax (with_token t s1 ?l) ?kk)"
    proof (rule outcome_key [where fs = fs and m = "[]" and key = key])
      fix t3 h3 s3 d3
      assume a3: "t3 = name_separator" "dom_hole (ObjectFrame (map_at (encode_text key) []) (encode_text key) # fs) h3"
        "going allow ((with_token t s1 ?l)\<lparr>handler := h3\<rparr>)" "lexing s3" "token_at (Punct name_separator) d3"
        "goes (the_lexer (with_token t s1 ?l)) d3 s3"
      have "consumes s0 (a @ b @ k @ d3) s3"
        using goes_consumes [OF goes_consumes [OF c key(3)], of d3 s3] a3(6) by simp
      moreover note context_text.first_member [OF assms(6,4) key(1) a3(5)]
      ultimately show "outcome allow s0 (?kk (with_token t3 s3 ((with_token t s1 ?l)\<lparr>handler := h3\<rparr>)))"
        using a3(2-4) e(2,3)
        by (intro outcome_expects [of allow _ "ObjectFrame (map_at (encode_text key) []) (encode_text key) # fs" "a @ b @ k @ d3"])
          simp_all
    qed (use g h(2) t(3) key(2) in \<open>simp_all add: map_ok_def\<close>)
    then show ?thesis using r 2 by simp
  next
    case 3
    then show ?thesis using r outcome_syntax_error g t(3) by simp
  qed
qed

lemma parse_value_outcome:
  assumes "going allow l" "expects s0 fs l"
  shows "outcome allow s0 (parse_value dom_sax l)"
proof -
  obtain a s where e: "context_text fs a" "consumes s0 a s" "scans s (Inr (last_token (psr l), the_lexer l))"
    using assms(2) by (auto simp: expects_def)
  have lx: "lexing (the_lexer l)" using assms(2) by (simp add: expects_def)
  note err = outcome_syntax_error [OF assms(1) lx]
  consider (bad) "last_token (psr l) \<in> {parse_error_token, end_of_input}"
    | (good) lx b where "last_token (psr l) = lexeme_token lx" "token_at lx b" "lexeme_held lx (the_lexer l)" "goes s b (the_lexer l)"
    using scans_token [OF e(3)] by blast
  then show ?thesis
  proof cases
    case bad
    then show ?thesis using err by (auto simp: parse_value_def Let_def)
  next
    case good
    obtain u where u: "lexeme_text lx u" using good(2) by (auto simp: token_at_def)
    note sc = outcome_scalar [OF assms good(1,2,4) e(1,2)]
    show ?thesis
    proof (cases lx)
      case (Punct t)
      then have t: "t \<in> fst ` set puncts" using u by (force elim: lexeme_text_elims)
      show ?thesis
        using t Punct good e parse_array [OF assms _ _ good(4) e(1,2)] parse_object [OF assms _ _ good(4) e(1,2)] err
        by (auto simp: puncts_def parse_value_def [of dom_sax l] Let_def)
    next
      case (Literal t)
      then have t: "t \<in> fst ` set literals" using u by (force elim: lexeme_text_elims)
      show ?thesis using t Literal good(1) sc by (auto simp: literals_def parse_value_def Let_def)
    next
      case (Text cps)
      then show ?thesis using good(1,3) sc by (simp add: parse_value_def Let_def)
    next
      case (Number n)
      have c: "carries n (the_lexer l)" using good(3) Number by simp
      have "numeral_token n \<in> {value_unsigned, value_integer_token, value_float_token}" by (simp add: numeral_token_def)
      then consider "numeral_token n = value_unsigned" | "numeral_token n = value_integer_token"
        | "numeral_token n = value_float_token" by blast
      then show ?thesis
      proof cases
        case 1
        then show ?thesis using good(1) Number c sc by (simp add: parse_value_def Let_def carries_def number_value_def)
      next
        case 2
        then show ?thesis using good(1) Number c sc by (simp add: parse_value_def Let_def carries_def number_value_def)
      next
        case 3
        have "outcome allow s0 (report dom_sax (out_of_range_create 406 m) l)" for m
          using assms(1) lx by (intro outcome_report) (simp_all add: going_def out_of_range_create_def)
        then show ?thesis using good(1) Number c sc 3 by (simp add: parse_value_def Let_def carries_def number_value_def)
      qed
    qed
  qed
qed


section \<open>The loop and the parser\<close>

lemma parse_round_outcome:
  assumes "going allow l" "expects s0 fs l \<or> skip_to_state_evaluation l \<and> completed s0 fs v l"
  shows "outcome allow s0 (parse_round dom_sax l)"
proof (cases "skip_to_state_evaluation l")
  case False
  then show ?thesis using assms parse_value_outcome by (simp add: parse_round_def)
next
  case True
  then have "completed s0 fs v (l\<lparr>skip_to_state_evaluation := False\<rparr>)"
    using assms(2) by (auto simp: completed_def expects_def)
  then show ?thesis using True assms(1) evaluate_outcome by (simp add: parse_round_def)
qed

fun loop_outcome :: "bool \<Rightarrow> lexer \<Rightarrow> (bool \<times> dom loop) res \<Rightarrow> bool" where
  "loop_outcome allow s0 (Inl e) \<longleftrightarrow> allow \<and> (\<exists>m. e = Uncaught m)"
| "loop_outcome allow s0 (Inr (b, l)) \<longleftrightarrow>
     (if b then going allow l \<and> (\<exists>v. completed s0 [] v l) else \<not> allow \<and> \<not> allow_exceptions (handler l) \<and> errored (handler l) \<and> lexing (the_lexer l))"

lemma sax_parse_loop_outcome:
  assumes "S = dom_sax" "going allow l" "\<exists>fs. expects s0 fs l \<or> skip_to_state_evaluation l \<and> (\<exists>v. completed s0 fs v l)"
  shows "loop_outcome allow s0 (sax_parse_loop S l)"
  using assms
proof (induction S l rule: sax_parse_loop.induct)
  case (1 S l)
  have o': "outcome allow s0 (parse_round S l)" using parse_round_outcome 1(2-4) by blast
  show ?case
  proof (cases "parse_round S l")
    case (Inl e)
    then show ?thesis using o' by (subst sax_parse_loop.simps) simp
  next
    case (Inr r)
    obtain ob l1 where r: "r = (ob, l1)" by (cases r)
    show ?thesis
    proof (cases ob)
      case None
      then have "loop_outcome allow s0 (sax_parse_loop S l1)" using 1(1) 1(2) Inr r o' by simp
      then show ?thesis using Inr r None by (subst sax_parse_loop.simps) simp
    next
      case (Some b)
      then show ?thesis using Inr r o' by (subst sax_parse_loop.simps) simp
    qed
  qed
qed

text \<open>A fresh parser has scanned the first token of its input, behind the byte order mark.\<close>

definition starts :: "byte list \<Rightarrow> lexer \<Rightarrow> parser \<Rightarrow> bool" where
  "starts input s0 p \<longleftrightarrow> (\<exists>dp bom. point_ok dp \<and> (bom = [] \<or> bom = byte_order_mark) \<and> consumes (new_lexer dp input) bom s0) \<and>
     scans s0 (Inr (last_token p, m_lexer p)) \<and> lexing (m_lexer p)"

lemma new_parser_starts:
  assumes "point_ok dp"
  shows "\<exists>p s0. new_parser dp input = Inr p \<and> starts input s0 p"
proof -
  let ?s = "new_lexer dp input"
  have "\<exists>bom s0. (bom = [] \<or> bom = byte_order_mark) \<and> consumes ?s bom s0 \<and> scans s0 (scan ?s)"
    using scan_first_reads [OF assms, of input]
  proof
    assume "\<exists>s' bs. scan ?s = Inr (parse_error_token, s') \<and> goes ?s bs s'"
    then have "scans ?s (scan ?s)" unfolding scans_def by blast
    then show ?thesis by (intro exI [of _ "[]"] exI [of _ ?s]) simp
  qed blast
  then obtain bom s0 where b: "bom = [] \<or> bom = byte_order_mark" "consumes ?s bom s0" "scans s0 (scan ?s)" by blast
  obtain t s where s: "scan ?s = Inr (t, s)" using scans_Inr [OF b(3)] by blast
  have sc: "scans s0 (Inr (t, s))" using b(3) s by simp
  have "point_ok (decimal_point_char s0)" using b(2) assms by (simp add: consumes_def)
  then have "lexing s" using scans_goes [OF sc] goes_lexing by blast
  moreover have "new_parser dp input = Inr \<lparr>last_token = t, m_lexer = s\<rparr>"
    using s by (simp add: new_parser_def get_token_def)
  ultimately show ?thesis using b sc assms unfolding starts_def by (intro exI conjI) (auto simp: exI)
qed

lemma sax_parse_internal_outcome:
  assumes "starts input s0 p"
  shows "(\<exists>m. allow \<and> sax_parse_internal dom_sax p (json_sax_dom_parser limit j allow) = Inl (Uncaught m)) \<or>
    (\<exists>p' d. \<not> allow \<and> sax_parse_internal dom_sax p (json_sax_dom_parser limit j allow) = Inr (False, p', d) \<and>
       errored d \<and> \<not> allow_exceptions d \<and> lexing (m_lexer p')) \<or>
    (\<exists>p' d v b. sax_parse_internal dom_sax p (json_sax_dom_parser limit j allow) = Inr (True, p', d) \<and>
       \<not> errored d \<and> allow_exceptions d = allow \<and> root d = v \<and> json_text v b \<and> consumes s0 b (m_lexer p') \<and> lexing (m_lexer p'))"
proof -
  let ?l = "\<lparr>psr = p, handler = json_sax_dom_parser limit j allow, states = [], skip_to_state_evaluation = False\<rparr>"
  have "lex_ok s0" using assms by (auto simp: starts_def consumes_def)
  then have "consumes s0 [] s0" by simp
  then have "expects s0 [] ?l"
    using assms context_text.top unfolding expects_def starts_def json_sax_dom_parser_def
    by (intro conjI exI [of _ "[]"] exI [of _ s0]) auto
  moreover have "going allow ?l" by (simp add: going_def json_sax_dom_parser_def)
  ultimately have o': "loop_outcome allow s0 (sax_parse_loop dom_sax ?l)" using sax_parse_loop_outcome by blast
  show ?thesis
  proof (cases "sax_parse_loop dom_sax ?l")
    case (Inl e)
    then show ?thesis using o' by (auto simp: sax_parse_internal_def)
  next
    case (Inr r)
    obtain b l where r: "r = (b, l)" by (cases r)
    show ?thesis
    proof (cases b)
      case False
      then show ?thesis using Inr r o' by (auto simp: sax_parse_internal_def)
    next
      case True
      then obtain v where v: "going allow l" "completed s0 [] v l" using Inr r o' by auto
      then obtain a b' where "context_text [] a" "json_text v b'" "consumes s0 (a @ b') (the_lexer l)" "root (handler l) = v"
        "lexing (the_lexer l)" by (auto simp: completed_def)
      moreover from this(1) have "a = []" by (cases rule: context_text.cases)
      ultimately show ?thesis
        using Inr r True v(1) by (intro disjI2) (auto simp: sax_parse_internal_def going_def)
    qed
  qed
qed

lemma scans_end:
  assumes "scans s (Inr (end_of_input, s'))"
  shows "rest_ok (pending s)"
proof -
  from assms obtain ws z where w: "blank ws" "z = [] \<and> pending s' = [] \<or> z = [0]" "goes s (ws @ z) s'"
    unfolding scans_def by (auto dest: lexeme_token_cases(1))
  have "pending s = ws @ z @ pending s'" using w(3) by (simp add: goes_def consumes_def)
  then show ?thesis using w(1,2) unfolding rest_ok_def by (intro exI [of _ ws] exI [of _ "z @ pending s'"]) auto
qed

theorem parse_reads:
  assumes "starts input s0 p"
  shows "(\<exists>m. allow \<and> parse limit allow strict p j = Inl (Uncaught m)) \<or>
    \<not> allow \<and> parse limit allow strict p j = Inr JDiscarded \<or>
    (\<exists>v bom b r. parse limit allow strict p j = Inr v \<and> (bom = [] \<or> bom = byte_order_mark) \<and> input = bom @ b @ r \<and>
       json_text v b \<and> (strict \<longrightarrow> rest_ok r))"
proof -
  from sax_parse_internal_outcome [OF assms, of allow limit j]
  consider (thrown) m where "allow" "sax_parse_internal dom_sax p (json_sax_dom_parser limit j allow) = Inl (Uncaught m)"
    | (bad) p' d where "\<not> allow" "sax_parse_internal dom_sax p (json_sax_dom_parser limit j allow) = Inr (False, p', d)" "errored d" "\<not> allow_exceptions d" "lexing (m_lexer p')"
    | (read) p' d b where "sax_parse_internal dom_sax p (json_sax_dom_parser limit j allow) = Inr (True, p', d)" "\<not> errored d"
        "allow_exceptions d = allow" "json_text (root d) b" "consumes s0 b (m_lexer p')" "lexing (m_lexer p')"
    by blast
  then show ?thesis
  proof cases
    case thrown
    then show ?thesis by (auto simp: parse_def)
  next
    case bad
    obtain t p2 where t: "get_token p' = Inr (t, p2)"
      using scan_reads [OF bad(5)] scans_Inr by (fastforce simp: get_token_def)
    then show ?thesis
      using bad by (auto simp: parse_def dom_parse_error_def)
  next
    case read
    obtain t s where t: "scan (m_lexer p') = Inr (t, s)" "scans (m_lexer p') (Inr (t, s))"
      using scan_reads [OF read(6)] scans_Inr by metis
    have gt: "get_token p' = Inr (t, p'\<lparr>last_token := t, m_lexer := s\<rparr>)" using t(1) by (simp add: get_token_def)
    obtain dp bom where b: "bom = [] \<or> bom = byte_order_mark" "consumes (new_lexer dp input) bom s0"
      using assms by (auto simp: starts_def)
    have i: "input = bom @ b @ pending (m_lexer p')"
      using consumes_trans [OF b(2) read(5)] by (simp add: consumes_def)
    show ?thesis
    proof (cases "strict \<and> t \<noteq> end_of_input")
      case False
      then have "parse limit allow strict p j = Inr (root d)"
        using read(1,2) gt by (auto simp: parse_def)
      moreover have "rest_ok (pending (m_lexer p'))" if "strict"
        using False that t(2) scans_end by blast
      ultimately show ?thesis using b(1) i read(4) by blast
    next
      case True
      then show ?thesis
        using read(1,3) gt
        by (auto simp: parse_def dom_parse_error_def json_throw_def syntax_error_def parse_error_create_def Let_def)
    qed
  qed
qed

end
