(* ===== verification/Json_Complete.thy ===== *)
theory Json_Complete
  imports Json_Sound
begin

text \<open>
  The parser accepts all of JSON: from every text of the grammar \<open>sax_parse_internal\<close> builds the value
  the grammar gives it. With \<open>Json_Sound\<close> this makes the parser the decision procedure of RFC 8259.
\<close>

section \<open>Runs of the loop\<close>

definition loop_after :: "dom round \<Rightarrow> (bool \<times> dom loop) res" where
  "loop_after r = (case r of Inl e \<Rightarrow> Inl e | Inr (Some b, l) \<Rightarrow> Inr (b, l) | Inr (None, l) \<Rightarrow> sax_parse_loop dom_sax l)"

lemma loop_after_simps [simp]:
  "loop_after (Inr (Some b, l)) = Inr (b, l)" "loop_after (Inr (None, l)) = sax_parse_loop dom_sax l"
  by (simp_all add: loop_after_def)

lemma sax_parse_loop_round: "sax_parse_loop dom_sax l = loop_after (parse_round dom_sax l)"
  by (subst sax_parse_loop.simps) (simp add: loop_after_def)

text \<open>A value is read next; a value has been read.\<close>

definition value_next :: "dom loop \<Rightarrow> (bool \<times> dom loop) res" where
  "value_next l = loop_after (next_token l (\<lambda>_ l2. Inr (None, l2)))"

definition value_done :: "dom loop \<Rightarrow> (bool \<times> dom loop) res" where
  "value_done l = loop_after (evaluate_state dom_sax l)"

lemma skip_value_done:
  "\<not> skip_to_state_evaluation l \<Longrightarrow> sax_parse_loop dom_sax (l\<lparr>skip_to_state_evaluation := True\<rparr>) = value_done l"
  by (subst sax_parse_loop_round) (cases l, simp add: parse_round_def value_done_def)

definition going_on :: "frame list \<Rightarrow> dom loop \<Rightarrow> bool" where
  "going_on fs l \<longleftrightarrow> states l = map is_array_frame fs \<and> \<not> skip_to_state_evaluation l \<and> lexing (the_lexer l)"

definition advances :: "dom loop \<Rightarrow> byte list \<Rightarrow> dom loop \<Rightarrow> bool" where
  "advances l a l' \<longleftrightarrow> consumes (the_lexer l) a (the_lexer l') \<and> same_options (handler l) (handler l')"

lemma advances_trans: "advances l a l1 \<Longrightarrow> advances l1 b l2 \<Longrightarrow> advances l (a @ b) l2"
  using consumes_trans same_options_trans unfolding advances_def by blast

lemma advances_pending: "advances l a l' \<Longrightarrow> pending (the_lexer l) = a @ r \<Longrightarrow> pending (the_lexer l') = r"
  by (simp add: advances_def consumes_def)

section \<open>Tokens\<close>

lemma next_token_accepts:
  assumes "token_at lx a" "lexing (the_lexer l)" "pending (the_lexer l) = a @ r" "lexeme_ends lx r"
  shows "\<exists>s. (\<forall>k. next_token l k = k (lexeme_token lx) (with_token (lexeme_token lx) s l)) \<and> lexeme_held lx s \<and> lexing s \<and>
    consumes (the_lexer l) a s \<and> pending s = r"
proof -
  obtain ws u where a: "a = ws @ u" "blank ws" "lexeme_text lx u" using assms(1) by (auto simp: token_at_def)
  obtain s where s: "scan (the_lexer l) = Inr (lexeme_token lx, s)" "lexeme_held lx s" "goes (the_lexer l) a s"
    using scan_accepts [OF assms(2) a(2,3) _ assms(4)] assms(3) a(1) by auto
  have "point_ok (decimal_point_char (the_lexer l))" using assms(2) by (simp add: lexing_def)
  then have "lexing s" using goes_lexing [OF s(3)] by blast
  then show ?thesis
    using s assms(3) next_token_scan [OF s(1)] by (intro exI [of _ s]) (auto simp: goes_def consumes_def)
qed

lemma punct_ends: "token_at (Punct t) a \<Longrightarrow> number_ends (a @ r)"
proof -
  assume "token_at (Punct t) a"
  then obtain ws c where "a = ws @ [c]" "blank ws" "(t, c) \<in> set puncts"
    by (auto simp: token_at_def elim!: lexeme_text_elims)
  then show ?thesis
    by (cases ws)
      (auto simp: number_ends_def number_char_def blank_def white_def puncts_def is_digit_def exponent_letter_def word_le_def)
qed

lemma lexeme_ends_simps [simp]:
  "lexeme_ends (Punct t) r" "lexeme_ends (Literal t) r" "lexeme_ends (Text cps) r" "lexeme_ends (Number n) r = number_ends r"
  by (simp_all add: lexeme_ends_def)

lemma lexeme_ends_number: "number_ends r \<Longrightarrow> lexeme_ends lx r"
  by (cases lx) simp_all

text \<open>The first token of a value is no closing bracket.\<close>

lemma first_token:
  "json_text v b \<Longrightarrow> lexing s \<Longrightarrow> pending s = b @ r \<Longrightarrow> number_ends r \<Longrightarrow>
     \<exists>t s'. scan s = Inr (t, s') \<and> t \<noteq> end_array_token"
  "elements_text xs b \<Longrightarrow> lexing s \<Longrightarrow> pending s = b @ r \<Longrightarrow> number_ends r \<Longrightarrow>
     \<exists>t s'. scan s = Inr (t, s') \<and> t \<noteq> end_array_token"
  "members_text ms b \<Longrightarrow> True"
proof (induction arbitrary: r and r and r rule: json_text_elements_text_members_text.inducts)
  case (scalar lx bs v)
  then obtain ws u where u: "bs = ws @ u" "blank ws" "lexeme_text lx u" by (auto simp: token_at_def)
  have "lexeme_token lx \<noteq> end_array_token"
  proof
    assume e: "lexeme_token lx = end_array_token"
    then have "lx = Punct end_array_token" using lexeme_token_cases(2) [OF u(3)] by simp
    then show False using scalar(2) by simp
  qed
  then show ?case using scan_accepts [OF scalar(3) u(2,3)] scalar(4,5) u(1) lexeme_ends_number by fastforce
next
  case (next_element xs a b v c)
  then show ?case using punct_ends [of _ b "c @ r"] by simp
qed (auto simp: token_at_def dest: scan_accepts)


section \<open>Values\<close>

text \<open>A text is read as its value: from where it is expected to where it is complete.\<close>

definition reads_value :: "json \<Rightarrow> byte list \<Rightarrow> bool" where
  "reads_value v b \<longleftrightarrow> (\<forall>fs l r. dom_hole fs (handler l) \<longrightarrow> going_on fs l \<longrightarrow> pending (the_lexer l) = b @ r \<longrightarrow> number_ends r \<longrightarrow>
     (\<exists>l'. value_next l = value_done l' \<and> dom_filled fs v (handler l') \<and> going_on fs l' \<and> advances l b l'))"

definition reads_elements :: "json list \<Rightarrow> byte list \<Rightarrow> bool" where
  "reads_elements xs b \<longleftrightarrow> (\<forall>fs l r. dom_open fs (JArray []) (handler l) \<longrightarrow> going_on (ArrayFrame [] # fs) l \<longrightarrow>
     pending (the_lexer l) = b @ r \<longrightarrow> number_ends r \<longrightarrow>
     (\<exists>l'. value_next l = value_done l' \<and> dom_open fs (JArray xs) (handler l') \<and> going_on (ArrayFrame [] # fs) l' \<and> advances l b l'))"

text \<open>The members of an object, from behind its bracket; the continuation is that of \<open>parse_value\<close>.\<close>

definition members_next :: "dom loop \<Rightarrow> (bool \<times> dom loop) res" where
  "members_next l = loop_after (next_token l (\<lambda>t l2.
     if t = end_object_token then tell (sax_end_object dom_sax) l2 (evaluate_state dom_sax)
     else if t \<noteq> value_string then report dom_sax (syntax_error (psr l2) value_string ''object key'') l2
     else parse_key dom_sax l2 (\<lambda>l3. next_token (l3\<lparr>states := False # states l3\<rparr>) (\<lambda>_ l4. Inr (None, l4)))))"

definition reads_members :: "(byte list \<times> json) list \<Rightarrow> byte list \<Rightarrow> bool" where
  "reads_members ms b \<longleftrightarrow> (\<forall>fs l r. dom_open fs (JObject []) (handler l) \<longrightarrow> going_on fs l \<longrightarrow>
     pending (the_lexer l) = b @ r \<longrightarrow> number_ends r \<longrightarrow>
     (\<exists>l'. members_next l = value_done l' \<and> dom_open fs (JObject (object_of ms)) (handler l') \<and>
        going_on (ObjectFrame [] [] # fs) l' \<and> advances l b l'))"

text \<open>The first round behind the first token of a value.\<close>

lemma value_next_token:
  assumes "token_at lx a" "going_on fs l" "pending (the_lexer l) = a @ r" "lexeme_ends lx r"
  obtains s where "value_next l = loop_after (parse_value dom_sax (with_token (lexeme_token lx) s l))" "lexeme_held lx s"
    "going_on fs (with_token (lexeme_token lx) s l)" "advances l a (with_token (lexeme_token lx) s l)" "pending s = r"
proof -
  have "lexing (the_lexer l)" using assms(2) by (simp add: going_on_def)
  then obtain s where s: "\<forall>k. next_token l k = (k (lexeme_token lx) (with_token (lexeme_token lx) s l) :: dom round)"
    "lexeme_held lx s" "lexing s" "consumes (the_lexer l) a s" "pending s = r"
    using next_token_accepts [OF assms(1) _ assms(3,4)] by blast
  have "value_next l = loop_after (parse_value dom_sax (with_token (lexeme_token lx) s l))"
    using s(1) assms(2) sax_parse_loop_round [of "with_token (lexeme_token lx) s l"]
    by (simp add: value_next_def parse_round_def going_on_def)
  then show ?thesis
    using that s assms(2) by (simp add: going_on_def advances_def same_options_def)
qed

lemma advances_handler: "advances l a l' \<Longrightarrow> same_options (handler l') h \<Longrightarrow> advances l a (l'\<lparr>handler := h\<rparr>)"
  using same_options_trans unfolding advances_def by fastforce

lemma going_on_handler [simp]: "going_on fs (l\<lparr>handler := h\<rparr>) = going_on fs l"
  by (simp add: going_on_def)

lemma reads_scalar:
  assumes "token_at lx b" "lexeme_value lx = Some v"
  shows "reads_value v b"
  unfolding reads_value_def
proof (intro allI impI)
  fix fs l r
  assume h: "dom_hole fs (handler l)" and g: "going_on fs l" and p: "pending (the_lexer l) = b @ r" "number_ends r"
  obtain s where s: "value_next l = loop_after (parse_value dom_sax (with_token (lexeme_token lx) s l))" "lexeme_held lx s"
    "going_on fs (with_token (lexeme_token lx) s l)" "advances l b (with_token (lexeme_token lx) s l)"
    using value_next_token [OF assms(1) g p(1) lexeme_ends_number [OF p(2)]] by metis
  obtain d where d: "dom_value v (handler l) = Inr (True, d)" "dom_filled fs v d" "same_options (handler l) d"
    using dom_value_hole [OF h] by blast
  let ?l = "with_token (lexeme_token lx) s l"
  have "parse_value dom_sax ?l = tell (dom_value v) ?l (evaluate_state dom_sax)"
  proof (cases lx)
    case (Number n)
    have "numeral_token n \<in> {value_unsigned, value_integer_token, value_float_token}" by (simp add: numeral_token_def)
    then show ?thesis
      using assms(2) Number s(2) by (auto simp: parse_value_def Let_def carries_def number_value_def split: if_splits)
  qed (use assms s(2) in \<open>auto simp: parse_value_def Let_def split: if_splits\<close>)
  then have "value_next l = value_done (?l\<lparr>handler := d\<rparr>)"
    using s(1) d(1) by (simp add: tell_goes_on value_done_def)
  moreover have "advances l b (?l\<lparr>handler := d\<rparr>)" using advances_handler [OF s(4)] d(3) by simp
  ultimately show "\<exists>l'. value_next l = value_done l' \<and> dom_filled fs v (handler l') \<and> going_on fs l' \<and> advances l b l'"
    using d(2) s(3) by (intro exI [of _ "?l\<lparr>handler := d\<rparr>"]) simp
qed

section \<open>Arrays\<close>

text \<open>Behind an opening bracket.\<close>

lemma array_begin:
  assumes "token_at (Punct begin_array) a" "dom_hole fs (handler l)" "going_on fs l" "pending (the_lexer l) = a @ r"
  obtains l1 where "value_next l = loop_after (next_token l1 (\<lambda>t l2.
      if t = end_array_token then tell (sax_end_array dom_sax) l2 (evaluate_state dom_sax)
      else Inr (None, l2\<lparr>states := True # states l2\<rparr>)))"
    "dom_open fs (JArray []) (handler l1)" "going_on fs l1" "advances l a l1" "pending (the_lexer l1) = r"
proof -
  obtain s where s: "value_next l = loop_after (parse_value dom_sax (with_token begin_array s l))"
    "going_on fs (with_token begin_array s l)" "advances l a (with_token begin_array s l)" "pending s = r"
    using value_next_token [OF assms(1,3,4)] by auto
  obtain h where h: "dom_start (JArray []) ''array'' (- 1) (handler l) = Inr (True, h)" "dom_open fs (JArray []) h"
    "same_options (handler l) h" using dom_start_hole [OF assms(2)] by blast
  let ?l = "(with_token begin_array s l)\<lparr>handler := h\<rparr>"
  have "advances l a ?l" using advances_handler [OF s(3)] h(3) by simp
  then show ?thesis
    using that [of ?l] s h(1,2) by (simp add: parse_value_def tell_goes_on)
qed

lemma reads_empty_array:
  assumes "token_at (Punct begin_array) a" "token_at (Punct end_array_token) b"
  shows "reads_value (JArray []) (a @ b)"
  unfolding reads_value_def
proof (intro allI impI)
  fix fs l r
  assume h: "dom_hole fs (handler l)" and g: "going_on fs l" and p: "pending (the_lexer l) = (a @ b) @ r" "number_ends r"
  have p': "pending (the_lexer l) = a @ b @ r" using p(1) by simp
  obtain l1 where l1: "value_next l = loop_after (next_token l1 (\<lambda>t l2.
      if t = end_array_token then tell (sax_end_array dom_sax) l2 (evaluate_state dom_sax)
      else Inr (None, l2\<lparr>states := True # states l2\<rparr>)))"
    "dom_open fs (JArray []) (handler l1)" "going_on fs l1" "advances l a l1" "pending (the_lexer l1) = b @ r"
    by (rule array_begin [OF assms(1) h g p'])
  have "lexing (the_lexer l1)" using l1(3) by (simp add: going_on_def)
  then obtain s where s: "\<forall>k. next_token l1 k = (k end_array_token (with_token end_array_token s l1) :: dom round)"
    "lexing s" "consumes (the_lexer l1) b s"
    using next_token_accepts [OF assms(2) _ l1(5)] by auto
  let ?l = "with_token end_array_token s l1"
  obtain d where d: "dom_end (handler l1) = Inr (True, d)" "dom_filled fs (JArray []) d" "same_options (handler l1) d"
    using dom_end_open [OF l1(2)] by blast
  have "value_next l = value_done (?l\<lparr>handler := d\<rparr>)"
    using l1(1) s(1) d(1) by (simp add: tell_goes_on value_done_def)
  moreover have "advances l1 b (?l\<lparr>handler := d\<rparr>)" using s(3) d(3) by (simp add: advances_def)
  then have "advances l (a @ b) (?l\<lparr>handler := d\<rparr>)" by (rule advances_trans [OF l1(4)])
  ultimately show "\<exists>l'. value_next l = value_done l' \<and> dom_filled fs (JArray []) (handler l') \<and> going_on fs l' \<and> advances l (a @ b) l'"
    using d(2) s(2) l1(3) by (intro exI [of _ "?l\<lparr>handler := d\<rparr>"]) (simp add: going_on_def)
qed

text \<open>Behind a value in an array: the closing bracket, or a comma and the next value.\<close>

lemma array_end:
  assumes "token_at (Punct end_array_token) c" "dom_open fs v (handler l)" "going_on (ArrayFrame xs # fs) l"
    "pending (the_lexer l) = c @ r"
  obtains l' where "value_done l = value_done l'" "dom_filled fs v (handler l')" "going_on fs l'" "advances l c l'"
proof -
  have "lexing (the_lexer l)" using assms(3) by (simp add: going_on_def)
  then obtain s where s: "\<forall>k. next_token l k = (k end_array_token (with_token end_array_token s l) :: dom round)"
    "lexing s" "consumes (the_lexer l) c s"
    using next_token_accepts [OF assms(1) _ assms(4)] by auto
  obtain d where d: "dom_end (handler l) = Inr (True, d)" "dom_filled fs v d" "same_options (handler l) d"
    using dom_end_open [OF assms(2)] by blast
  let ?l = "(with_token end_array_token s l)\<lparr>handler := d, states := map is_array_frame fs\<rparr>"
  have "value_done l = sax_parse_loop dom_sax (?l\<lparr>skip_to_state_evaluation := True\<rparr>)"
    using s(1) d(1) assms(3) by (simp add: value_done_def evaluate_state_def going_on_def tell_goes_on)
  also have "\<dots> = value_done ?l" using assms(3) by (intro skip_value_done) (simp add: going_on_def)
  finally show ?thesis
    using that [of ?l] d(2,3) s(2,3) assms(3) by (simp add: going_on_def advances_def)
qed

lemma array_comma:
  assumes "token_at (Punct value_separator) c" "going_on (ArrayFrame xs # fs) l" "pending (the_lexer l) = c @ r"
  obtains l' where "value_done l = value_next l'" "handler l' = handler l" "going_on (ArrayFrame xs # fs) l'" "advances l c l'"
proof -
  have "lexing (the_lexer l)" using assms(2) by (simp add: going_on_def)
  then obtain s where s: "\<forall>k. next_token l k = (k value_separator (with_token value_separator s l) :: dom round)"
    "lexing s" "consumes (the_lexer l) c s"
    using next_token_accepts [OF assms(1) _ assms(3)] by auto
  have "value_done l = value_next (with_token value_separator s l)"
    using s(1) assms(2) by (simp add: value_done_def value_next_def evaluate_state_def going_on_def)
  then show ?thesis
    using that [of "with_token value_separator s l"] s(2,3) assms(2) by (simp add: going_on_def advances_def same_options_def)
qed

lemma going_on_array: "going_on (ArrayFrame xs # fs) l \<longleftrightarrow> going_on (ArrayFrame ys # fs) l"
  by (simp add: going_on_def)

lemma reads_first_element: "reads_value v a \<Longrightarrow> reads_elements [v] a"
  unfolding reads_value_def reads_elements_def
proof (intro allI impI)
  fix fs l r
  assume a: "\<forall>fs l r. dom_hole fs (handler l) \<longrightarrow> going_on fs l \<longrightarrow> pending (the_lexer l) = a @ r \<longrightarrow> number_ends r \<longrightarrow>
     (\<exists>l'. value_next l = value_done l' \<and> dom_filled fs v (handler l') \<and> going_on fs l' \<and> advances l a l')"
    and h: "dom_open fs (JArray []) (handler l)" "going_on (ArrayFrame [] # fs) l" "pending (the_lexer l) = a @ r" "number_ends r"
  show "\<exists>l'. value_next l = value_done l' \<and> dom_open fs (JArray [v]) (handler l') \<and> going_on (ArrayFrame [] # fs) l' \<and> advances l a l'"
    using a [rule_format, of "ArrayFrame [] # fs" l r] h by simp
qed

lemma reads_next_element:
  assumes "reads_elements xs a" "token_at (Punct value_separator) b" "reads_value v c"
  shows "reads_elements (xs @ [v]) (a @ b @ c)"
  unfolding reads_elements_def
proof (intro allI impI)
  fix fs l r
  assume h: "dom_open fs (JArray []) (handler l)" "going_on (ArrayFrame [] # fs) l"
    and p: "pending (the_lexer l) = (a @ b @ c) @ r" "number_ends r"
  obtain l1 where l1: "value_next l = value_done l1" "dom_open fs (JArray xs) (handler l1)" "going_on (ArrayFrame [] # fs) l1"
    "advances l a l1"
    using assms(1) h p(1) punct_ends [OF assms(2), of "c @ r"] unfolding reads_elements_def
    by (metis append.assoc)
  have p1: "pending (the_lexer l1) = b @ c @ r" using advances_pending [OF l1(4), of "b @ c @ r"] p(1) by simp
  obtain l2 where l2: "value_done l1 = value_next l2" "handler l2 = handler l1" "going_on (ArrayFrame [] # fs) l2"
    "advances l1 b l2" by (rule array_comma [OF assms(2) l1(3) p1])
  have p2: "pending (the_lexer l2) = c @ r" using advances_pending [OF l2(4) p1] .
  obtain l3 where l3: "value_next l2 = value_done l3" "dom_filled (ArrayFrame xs # fs) v (handler l3)"
    "going_on (ArrayFrame xs # fs) l3" "advances l2 c l3"
    using assms(3) l1(2) l2(2,3) p2 p(2) going_on_array unfolding reads_value_def by (metis dom_hole.simps(2))
  show "\<exists>l'. value_next l = value_done l' \<and> dom_open fs (JArray (xs @ [v])) (handler l') \<and>
      going_on (ArrayFrame [] # fs) l' \<and> advances l (a @ b @ c) l'"
    using l1(1) l2(1) l3 going_on_array advances_trans [OF l1(4) advances_trans [OF l2(4) l3(4)]]
    by (intro exI [of _ l3]) auto
qed

lemma reads_array:
  assumes "token_at (Punct begin_array) a" "elements_text xs b" "reads_elements xs b" "token_at (Punct end_array_token) c"
  shows "reads_value (JArray xs) (a @ b @ c)"
  unfolding reads_value_def
proof (intro allI impI)
  fix fs l r
  assume h: "dom_hole fs (handler l)" and g: "going_on fs l" and p: "pending (the_lexer l) = (a @ b @ c) @ r" "number_ends r"
  have p': "pending (the_lexer l) = a @ b @ c @ r" using p(1) by simp
  obtain l1 where l1: "value_next l = loop_after (next_token l1 (\<lambda>t l2.
      if t = end_array_token then tell (sax_end_array dom_sax) l2 (evaluate_state dom_sax)
      else Inr (None, l2\<lparr>states := True # states l2\<rparr>)))"
    "dom_open fs (JArray []) (handler l1)" "going_on fs l1" "advances l a l1" "pending (the_lexer l1) = b @ c @ r"
    by (rule array_begin [OF assms(1) h g p'])
  have e: "number_ends (c @ r)" using punct_ends [OF assms(4)] .
  have lx: "lexing (the_lexer l1)" using l1(3) by (simp add: going_on_def)
  obtain t s where t: "scan (the_lexer l1) = Inr (t, s)" "t \<noteq> end_array_token"
    using first_token(2) [OF assms(2) lx l1(5) e] by blast
  let ?l = "l1\<lparr>states := True # states l1\<rparr>"
  have t': "scan (the_lexer ?l) = Inr (t, s)" using t(1) by simp
  have eq: "(with_token t s l1)\<lparr>states := True # states (with_token t s l1)\<rparr> = with_token t s ?l"
    by (cases l1) (simp add: with_token_def)
  have "value_next l = loop_after (Inr (None, (with_token t s l1)\<lparr>states := True # states (with_token t s l1)\<rparr>))"
    unfolding l1(1) next_token_scan [OF t(1)] using t(2) by simp
  also have "\<dots> = value_next ?l" unfolding eq value_next_def next_token_scan [OF t'] ..
  finally have "value_next l = value_next ?l" .
  moreover have "going_on (ArrayFrame [] # fs) ?l" "pending (the_lexer ?l) = b @ c @ r" "dom_open fs (JArray []) (handler ?l)"
    using l1 by (simp_all add: going_on_def)
  moreover have "advances l a ?l" using l1(4) by (simp add: advances_def)
  ultimately obtain l2 where l2: "value_next l = value_done l2" "dom_open fs (JArray xs) (handler l2)"
    "going_on (ArrayFrame [] # fs) l2" "advances l a ?l" "advances ?l b l2"
    using assms(3) e unfolding reads_elements_def by metis
  have p2: "pending (the_lexer l2) = c @ r"
    using advances_pending [OF l2(5)] l1(5) by simp
  obtain l3 where "value_done l2 = value_done l3" "dom_filled fs (JArray xs) (handler l3)" "going_on fs l3" "advances l2 c l3"
    by (rule array_end [OF assms(4) l2(2,3) p2])
  then show "\<exists>l'. value_next l = value_done l' \<and> dom_filled fs (JArray xs) (handler l') \<and> going_on fs l' \<and> advances l (a @ b @ c) l'"
    using l2(1) advances_trans [OF l2(4) advances_trans [OF l2(5)]] by auto
qed


section \<open>Objects\<close>

lemma object_begin:
  assumes "token_at (Punct begin_object) a" "dom_hole fs (handler l)" "going_on fs l" "pending (the_lexer l) = a @ r"
  obtains l1 where "value_next l = members_next l1" "dom_open fs (JObject []) (handler l1)" "going_on fs l1" "advances l a l1"
    "pending (the_lexer l1) = r"
proof -
  obtain s where s: "value_next l = loop_after (parse_value dom_sax (with_token begin_object s l))"
    "going_on fs (with_token begin_object s l)" "advances l a (with_token begin_object s l)" "pending s = r"
    using value_next_token [OF assms(1,3,4)] by auto
  obtain h where h: "dom_start (JObject []) ''object'' (- 1) (handler l) = Inr (True, h)" "dom_open fs (JObject []) h"
    "same_options (handler l) h" using dom_start_hole [OF assms(2)] by blast
  let ?l = "(with_token begin_object s l)\<lparr>handler := h\<rparr>"
  have "advances l a ?l" using advances_handler [OF s(3)] h(3) by simp
  then show ?thesis
    using that [of ?l] s h(1,2) by (simp add: parse_value_def tell_goes_on members_next_def)
qed

lemma reads_empty_object:
  assumes "token_at (Punct begin_object) a" "token_at (Punct end_object_token) b"
  shows "reads_value (JObject []) (a @ b)"
  unfolding reads_value_def
proof (intro allI impI)
  fix fs l r
  assume h: "dom_hole fs (handler l)" and g: "going_on fs l" and p: "pending (the_lexer l) = (a @ b) @ r" "number_ends r"
  have p': "pending (the_lexer l) = a @ b @ r" using p(1) by simp
  obtain l1 where l1: "value_next l = members_next l1" "dom_open fs (JObject []) (handler l1)" "going_on fs l1" "advances l a l1"
    "pending (the_lexer l1) = b @ r"
    by (rule object_begin [OF assms(1) h g p'])
  have "lexing (the_lexer l1)" using l1(3) by (simp add: going_on_def)
  then obtain s where s: "\<forall>k. next_token l1 k = (k end_object_token (with_token end_object_token s l1) :: dom round)"
    "lexing s" "consumes (the_lexer l1) b s"
    using next_token_accepts [OF assms(2) _ l1(5)] by auto
  let ?l = "with_token end_object_token s l1"
  obtain d where d: "dom_end (handler l1) = Inr (True, d)" "dom_filled fs (JObject []) d" "same_options (handler l1) d"
    using dom_end_open [OF l1(2)] by blast
  have "value_next l = value_done (?l\<lparr>handler := d\<rparr>)"
    using l1(1) s(1) d(1) by (simp add: tell_goes_on value_done_def members_next_def)
  moreover have "advances l1 b (?l\<lparr>handler := d\<rparr>)" using s(3) d(3) by (simp add: advances_def)
  then have "advances l (a @ b) (?l\<lparr>handler := d\<rparr>)" by (rule advances_trans [OF l1(4)])
  ultimately show "\<exists>l'. value_next l = value_done l' \<and> dom_filled fs (JObject []) (handler l') \<and> going_on fs l' \<and> advances l (a @ b) l'"
    using d(2) s(2) l1(3) by (intro exI [of _ "?l\<lparr>handler := d\<rparr>"]) (simp add: going_on_def)
qed

lemma object_end:
  assumes "token_at (Punct end_object_token) c" "dom_open fs v (handler l)" "going_on (ObjectFrame m k # fs) l"
    "pending (the_lexer l) = c @ r"
  obtains l' where "value_done l = value_done l'" "dom_filled fs v (handler l')" "going_on fs l'" "advances l c l'"
proof -
  have "lexing (the_lexer l)" using assms(3) by (simp add: going_on_def)
  then obtain s where s: "\<forall>k. next_token l k = (k end_object_token (with_token end_object_token s l) :: dom round)"
    "lexing s" "consumes (the_lexer l) c s"
    using next_token_accepts [OF assms(1) _ assms(4)] by auto
  obtain d where d: "dom_end (handler l) = Inr (True, d)" "dom_filled fs v d" "same_options (handler l) d"
    using dom_end_open [OF assms(2)] by blast
  let ?l = "(with_token end_object_token s l)\<lparr>handler := d, states := map is_array_frame fs\<rparr>"
  have "value_done l = sax_parse_loop dom_sax (?l\<lparr>skip_to_state_evaluation := True\<rparr>)"
    using s(1) d(1) assms(3) by (simp add: value_done_def evaluate_state_def going_on_def tell_goes_on)
  also have "\<dots> = value_done ?l" using assms(3) by (intro skip_value_done) (simp add: going_on_def)
  finally show ?thesis
    using that [of ?l] d(2,3) s(2,3) assms(3) by (simp add: going_on_def advances_def)
qed

text \<open>A key with its colon, read from the state where its value is expected.\<close>

lemma key_reads:
  assumes "token_at (Text key) a" "token_at (Punct name_separator) b" "dom_open fs (JObject m) (handler l)" "map_ok m"
    "lexing (the_lexer l)" "pending (the_lexer l) = a @ b @ r"
  obtains s l' where "\<forall>k. next_token l k = (k value_string (with_token value_string s l) :: dom round)"
    "\<forall>k. parse_key dom_sax (with_token value_string s l) k = (k l' :: dom round)"
    "dom_hole (ObjectFrame (map_at (encode_text key) m) (encode_text key) # fs) (handler l')"
    "states l' = states l" "skip_to_state_evaluation l' = skip_to_state_evaluation l" "lexing (the_lexer l')"
    "advances l (a @ b) l'" "pending (the_lexer l') = r"
proof -
  obtain s where s: "\<forall>k. next_token l k = (k value_string (with_token value_string s l) :: dom round)"
    "token_buffer s = encode_text key" "lexing s" "consumes (the_lexer l) a s" "pending s = b @ r"
    using next_token_accepts [OF assms(1,5,6)] by auto
  obtain h where h: "dom_key (encode_text key) (handler l) = Inr (True, h)"
    "dom_hole (ObjectFrame (map_at (encode_text key) m) (encode_text key) # fs) h" "same_options (handler l) h"
    using dom_key_open [OF assms(3,4)] by blast
  let ?l = "(with_token value_string s l)\<lparr>handler := h\<rparr>"
  have "lexing (the_lexer ?l)" "pending (the_lexer ?l) = b @ r" using s(3,5) by simp_all
  then obtain s2 where s2: "\<forall>k. next_token ?l k = (k name_separator (with_token name_separator s2 ?l) :: dom round)"
    "lexing s2" "consumes s b s2" "pending s2 = r"
    using next_token_accepts [OF assms(2), of ?l r] by auto
  have "parse_key dom_sax (with_token value_string s l) k = k (with_token name_separator s2 ?l)" for k
    using h(1) s(2) s2(1) by (simp add: parse_key_def tell_goes_on)
  then show ?thesis
    using that [of s "with_token name_separator s2 ?l"] s h s2 consumes_trans [OF s(4) s2(3)]
    by (simp add: advances_def)
qed

lemma reads_first_member:
  assumes "token_at (Text key) a" "token_at (Punct name_separator) b" "reads_value v c"
  shows "reads_members [(encode_text key, v)] (a @ b @ c)"
  unfolding reads_members_def
proof (intro allI impI)
  fix fs l r
  assume h: "dom_open fs (JObject []) (handler l)" "going_on fs l" and p: "pending (the_lexer l) = (a @ b @ c) @ r" "number_ends r"
  have lx: "lexing (the_lexer l)" using h(2) by (simp add: going_on_def)
  have p': "pending (the_lexer l) = a @ b @ c @ r" using p(1) by simp
  have ok: "map_ok ([] :: (byte list \<times> json) list)" by (simp add: map_ok_def)
  obtain s l1 where k: "\<forall>k. next_token l k = (k value_string (with_token value_string s l) :: dom round)"
    "\<forall>k. parse_key dom_sax (with_token value_string s l) k = (k l1 :: dom round)"
    "dom_hole (ObjectFrame (map_at (encode_text key) []) (encode_text key) # fs) (handler l1)"
    "states l1 = states l" "skip_to_state_evaluation l1 = skip_to_state_evaluation l" "lexing (the_lexer l1)"
    "advances l (a @ b) l1" "pending (the_lexer l1) = c @ r"
    by (rule key_reads [OF assms(1,2) h(1) ok lx p'])
  let ?l = "l1\<lparr>states := False # states l1\<rparr>"
  let ?fs = "ObjectFrame (map_at (encode_text key) []) (encode_text key) # fs"
  have "members_next l = value_next ?l" using k(1,2) by (simp add: members_next_def value_next_def)
  moreover have "dom_hole ?fs (handler ?l)" "going_on ?fs ?l" "pending (the_lexer ?l) = c @ r"
    using k(3-6,8) h(2) by (simp_all add: going_on_def)
  then obtain l2 where "value_next ?l = value_done l2" "dom_filled ?fs v (handler l2)" "going_on ?fs l2" "advances ?l c l2"
    using assms(3) p(2) unfolding reads_value_def by blast
  moreover have "advances l (a @ b) ?l" using k(7) by (simp add: advances_def)
  ultimately show "\<exists>l'. members_next l = value_done l' \<and> dom_open fs (JObject (object_of [(encode_text key, v)])) (handler l') \<and>
        going_on (ObjectFrame [] [] # fs) l' \<and> advances l (a @ b @ c) l'"
    using object_of_snoc(2) [of "[]" "encode_text key" v] advances_trans [of l "a @ b" ?l c l2]
    by (intro exI [of _ l2]) (simp add: going_on_def)
qed

lemma reads_next_member:
  assumes "reads_members ms a" "token_at (Punct value_separator) b" "token_at (Text key) c" "token_at (Punct name_separator) d"
    "reads_value v e"
  shows "reads_members (ms @ [(encode_text key, v)]) (a @ b @ c @ d @ e)"
  unfolding reads_members_def
proof (intro allI impI)
  fix fs l r
  assume h: "dom_open fs (JObject []) (handler l)" "going_on fs l" and p: "pending (the_lexer l) = (a @ b @ c @ d @ e) @ r" "number_ends r"
  have p0: "pending (the_lexer l) = a @ b @ c @ d @ e @ r" using p(1) by simp
  obtain l1 where l1: "members_next l = value_done l1" "dom_open fs (JObject (object_of ms)) (handler l1)"
    "going_on (ObjectFrame [] [] # fs) l1" "advances l a l1"
    using assms(1) h p0 punct_ends [OF assms(2), of "c @ d @ e @ r"] unfolding reads_members_def by blast
  have p1: "pending (the_lexer l1) = b @ c @ d @ e @ r" using advances_pending [OF l1(4) p0] .
  have lx1: "lexing (the_lexer l1)" using l1(3) by (simp add: going_on_def)
  obtain s where s: "\<forall>k. next_token l1 k = (k value_separator (with_token value_separator s l1) :: dom round)"
    "lexing s" "consumes (the_lexer l1) b s" "pending s = c @ d @ e @ r"
    using next_token_accepts [OF assms(2) lx1 p1] by auto
  let ?l = "with_token value_separator s l1"
  have l: "dom_open fs (JObject (object_of ms)) (handler ?l)" "lexing (the_lexer ?l)" "pending (the_lexer ?l) = c @ d @ e @ r"
    using l1(2) s(2,4) by simp_all
  obtain s2 l2 where k: "\<forall>k. next_token ?l k = (k value_string (with_token value_string s2 ?l) :: dom round)"
    "\<forall>k. parse_key dom_sax (with_token value_string s2 ?l) k = (k l2 :: dom round)"
    "dom_hole (ObjectFrame (map_at (encode_text key) (object_of ms)) (encode_text key) # fs) (handler l2)"
    "states l2 = states ?l" "skip_to_state_evaluation l2 = skip_to_state_evaluation ?l" "lexing (the_lexer l2)"
    "advances ?l (c @ d) l2" "pending (the_lexer l2) = e @ r"
    by (rule key_reads [OF assms(3,4) l(1) map_ok_object_of l(2,3)])
  let ?fs = "ObjectFrame (map_at (encode_text key) (object_of ms)) (encode_text key) # fs"
  have "value_done l1 = value_next l2"
    using s(1) k(1,2) l1(3) by (simp add: value_done_def evaluate_state_def going_on_def value_next_def)
  moreover have "going_on ?fs l2" using k(4,5,6) l1(3) by (simp add: going_on_def)
  then obtain l3 where "value_next l2 = value_done l3" "dom_filled ?fs v (handler l3)" "going_on ?fs l3" "advances l2 e l3"
    using assms(5) p(2) k(3,8) unfolding reads_value_def by blast
  moreover have "advances l1 b ?l" using s(3) by (simp add: advances_def same_options_def)
  ultimately show "\<exists>l'. members_next l = value_done l' \<and> dom_open fs (JObject (object_of (ms @ [(encode_text key, v)]))) (handler l') \<and>
        going_on (ObjectFrame [] [] # fs) l' \<and> advances l (a @ b @ c @ d @ e) l'"
    using l1(1) advances_trans [OF l1(4) advances_trans [OF _ advances_trans [OF k(7)]]]
    by (intro exI [of _ l3]) (auto simp: going_on_def)
qed

lemma reads_object:
  assumes "token_at (Punct begin_object) a" "reads_members ms b" "token_at (Punct end_object_token) c"
  shows "reads_value (JObject (object_of ms)) (a @ b @ c)"
  unfolding reads_value_def
proof (intro allI impI)
  fix fs l r
  assume h: "dom_hole fs (handler l)" and g: "going_on fs l" and p: "pending (the_lexer l) = (a @ b @ c) @ r" "number_ends r"
  have p': "pending (the_lexer l) = a @ b @ c @ r" using p(1) by simp
  obtain l1 where l1: "value_next l = members_next l1" "dom_open fs (JObject []) (handler l1)" "going_on fs l1" "advances l a l1"
    "pending (the_lexer l1) = b @ c @ r"
    by (rule object_begin [OF assms(1) h g p'])
  obtain l2 where l2: "members_next l1 = value_done l2" "dom_open fs (JObject (object_of ms)) (handler l2)"
    "going_on (ObjectFrame [] [] # fs) l2" "advances l1 b l2"
    using assms(2) l1(2,3,5) punct_ends [OF assms(3), of r] unfolding reads_members_def by blast
  obtain l3 where "value_done l2 = value_done l3" "dom_filled fs (JObject (object_of ms)) (handler l3)" "going_on fs l3"
    "advances l2 c l3"
    by (rule object_end [OF assms(3) l2(2,3) advances_pending [OF l2(4) l1(5)]])
  then show "\<exists>l'. value_next l = value_done l' \<and> dom_filled fs (JObject (object_of ms)) (handler l') \<and> going_on fs l' \<and>
      advances l (a @ b @ c) l'"
    using l1(1) l2(1) advances_trans [OF l1(4) advances_trans [OF l2(4)]] by auto
qed

section \<open>The parser\<close>

lemma reads_text:
  "json_text v b \<Longrightarrow> reads_value v b" "elements_text xs b \<Longrightarrow> reads_elements xs b" "members_text ms b \<Longrightarrow> reads_members ms b"
proof (induction rule: json_text_elements_text_members_text.inducts)
  case (scalar lx bs v)
  then show ?case by (rule reads_scalar)
next
  case (empty_array a b)
  then show ?case by (rule reads_empty_array)
next
  case (array a xs b c)
  then show ?case by (intro reads_array)
next
  case (empty_object a b)
  then show ?case by (rule reads_empty_object)
next
  case (object a ms b c)
  then show ?case by (intro reads_object)
next
  case (first_element v a)
  then show ?case by (intro reads_first_element)
next
  case (next_element xs a b v c)
  then show ?case by (intro reads_next_element)
next
  case (first_member k a b v c)
  then show ?case by (intro reads_first_member)
next
  case (next_member ms a b k c d v e)
  then show ?case by (intro reads_next_member)
qed

text \<open>
  A text of the grammar, with a byte order mark or not, is parsed to its value; behind it there may be
  anything that does not continue a number, or for a strict parse only blanks.
\<close>

lemma json_text_first: "json_text v b \<Longrightarrow> \<exists>c u. b = c # u \<and> c \<noteq> 0xEF"
  "elements_text xs b \<Longrightarrow> True" "members_text ms b \<Longrightarrow> True"
proof (induction rule: json_text_elements_text_members_text.inducts)
  have t: "\<exists>c u. a = c # u \<and> c \<noteq> 0xEF" if tk: "token_at lx a" for lx a
  proof -
    obtain ws u where a: "a = ws @ u" "blank ws" "lexeme_text lx u" using tk by (auto simp: token_at_def)
    then show ?thesis using lexeme_text_first [OF a(3)] by (cases ws) (auto simp: blank_def white_def)
  qed
  {
    case (scalar lx bs v)
    then show ?case using t by blast
  next
    case (empty_array a b)
    then show ?case using t by fastforce
  next
    case (array a xs b c)
    then show ?case using t by fastforce
  next
    case (empty_object a b)
    then show ?case using t by fastforce
  next
    case (object a ms b c)
    then show ?case using t by fastforce
  }
qed simp_all

theorem parse_accepts:
  assumes "json_text v b" "point_ok dp" "bom = [] \<or> bom = byte_order_mark" "number_ends r" "strict \<longrightarrow> rest_ok r"
  obtains p where "new_parser dp (bom @ b @ r) = Inr p" "parse limit allow strict p j = Inr v"
proof -
  obtain c u where "b = c # u" "c \<noteq> 0xEF" using json_text_first(1) [OF assms(1)] by blast
  then have "bom = [] \<and> (b @ r = [] \<or> hd (b @ r) \<noteq> 0xEF) \<or> bom = byte_order_mark" using assms(3) by auto
  then obtain s1 where s1: "scan (new_lexer dp (bom @ b @ r)) = scan s1" "lexing s1" "pending s1 = b @ r"
    using scan_first [OF assms(2), of bom "b @ r"] by metis
  obtain t s where t: "scan s1 = Inr (t, s)" using scan_reads [OF s1(2)] scans_Inr by blast
  let ?p = "\<lparr>last_token = t, m_lexer = s\<rparr>"
  let ?l = "\<lparr>psr = \<lparr>last_token = uninitialized, m_lexer = s1\<rparr>, handler = json_sax_dom_parser limit j allow,
    states = [], skip_to_state_evaluation = False\<rparr>"
  have p: "new_parser dp (bom @ b @ r) = Inr ?p" using s1(1) t by (simp add: new_parser_def get_token_def)
  have "dom_hole [] (handler ?l)" "going_on [] ?l" "pending (the_lexer ?l) = b @ r"
    using s1(2,3) by (simp_all add: json_sax_dom_parser_def going_on_def)
  then obtain l' where l': "value_next ?l = value_done l'" "dom_filled [] v (handler l')" "going_on [] l'" "advances ?l b l'"
    using reads_text(1) [OF assms(1)] assms(4) unfolding reads_value_def by blast
  have fin: "value_done l' = Inr (True, l')" using l'(3) by (simp add: value_done_def evaluate_state_def going_on_def)
  have "sax_parse_loop dom_sax (?l\<lparr>psr := ?p\<rparr>) = value_next ?l"
    using t next_token_scan [of ?l t s] by (simp add: value_next_def with_token_def)
  then have "sax_parse_loop dom_sax (?l\<lparr>psr := ?p\<rparr>) = Inr (True, l')" using l'(1) fin by (simp only:)
  then have loop: "sax_parse_internal dom_sax ?p (json_sax_dom_parser limit j allow) = Inr (True, psr l', handler l')"
    by (simp add: sax_parse_internal_def)
  have d: "\<not> errored (handler l')" "root (handler l') = v"
    using l'(2,4) by (simp_all add: advances_def same_options_def json_sax_dom_parser_def)
  have pe: "pending (m_lexer (psr l')) = r" using advances_pending [OF l'(4)] s1(3) by simp
  have lx: "lexing (m_lexer (psr l'))" using l'(3) by (simp add: going_on_def)
  have "parse limit allow strict ?p j = Inr v"
  proof (cases strict)
    case False
    then show ?thesis using loop d by (simp add: parse_def)
  next
    case True
    obtain s2 where "scan (m_lexer (psr l')) = Inr (end_of_input, s2)"
      using scan_end_accepts [OF lx] pe assms(5) True by auto
    then show ?thesis using loop d by (simp add: parse_def get_token_def)
  qed
  then show ?thesis using that p by blast
qed

end
