(* ===== verification/Json_Text.thy ===== *)
theory Json_Text
  imports Json_Escaping Json_Complete
begin

text \<open>
  What the serializer of \<open>src/nlohmann/detail/output/serializer.hpp\<close> writes for a value, and that the
  parser reads it back.
\<close>

section \<open>Integers\<close>

fun decimal_digits :: "nat \<Rightarrow> byte list" where
  "decimal_digits n = (if n < 10 then [0x30 + word_of_nat n] else decimal_digits (n div 10) @ [0x30 + word_of_nat (n mod 10)])"

declare decimal_digits.simps [simp del]

definition integer_text :: "int \<Rightarrow> byte list" where
  "integer_text x = (if x < 0 then [0x2D] else []) @ decimal_digits (nat \<bar>x\<bar>)"

lemma length_decimal_digits: "n < 10 ^ k \<Longrightarrow> 0 < k \<Longrightarrow> length (decimal_digits n) \<le> k"
proof (induction n arbitrary: k rule: decimal_digits.induct)
  case (1 n)
  show ?case
  proof (cases "n < 10")
    case True
    then show ?thesis using 1(3) by (subst decimal_digits.simps) simp
  next
    case False
    then obtain j where j: "k = Suc j" "0 < j"
      using 1(2,3) by (cases k; cases "k - 1") auto
    then have "n div 10 < 10 ^ j" using 1(2) by (simp add: div_less_iff_less_mult mult.commute)
    then show ?thesis using 1(1) [OF False] j False by (subst decimal_digits.simps) simp
  qed
qed

text \<open>The loop writes the digits from the last to the first.\<close>

lemma integer_loop_digits:
  assumes "0 < \<bar>x\<bar>" "length buf + length (decimal_digits (nat \<bar>x\<bar>)) \<le> 63"
  shows "integer_loop x buf = Inr (buf @ rev (decimal_digits (nat \<bar>x\<bar>)))"
  using assms
proof (induction x buf rule: integer_loop.induct)
  case (1 x buf)
  have x: "x \<noteq> 0" using 1(2) by simp
  have d: "\<bar>x sdiv 10\<bar> = \<bar>x\<bar> div 10" "\<bar>x smod 10\<bar> = \<bar>x\<bar> mod 10"
    using x by (simp_all add: signed_divide_int_def signed_modulo_int_def abs_mult abs_sgn_eq)
  show ?case
  proof (cases "\<bar>x\<bar> < 10")
    case True
    then have "x sdiv 10 = 0" using d(1) by simp
    moreover have "decimal_digits (nat \<bar>x\<bar>) = [0x30 + word_of_nat (nat \<bar>x\<bar>)]"
    proof -
      have "nat \<bar>x\<bar> < 10" using True by linarith
      then show ?thesis by (subst decimal_digits.simps) simp
    qed
    moreover have "length buf < 63" using 1(3) calculation(2) by simp
    ultimately show ?thesis
      using x True d(2) by (subst integer_loop.simps) (simp add: integer_loop.simps [of 0])
  next
    case False
    have n: "nat \<bar>x\<bar> div 10 = nat \<bar>x sdiv 10\<bar>" "nat \<bar>x\<bar> mod 10 = nat \<bar>x smod 10\<bar>" using d by (simp_all add: nat_div_distrib nat_mod_distrib)
    have dd: "decimal_digits (nat \<bar>x\<bar>) = decimal_digits (nat \<bar>x sdiv 10\<bar>) @ [0x30 + word_of_int \<bar>x smod 10\<bar>]"
    proof -
      have "\<not> nat \<bar>x\<bar> < 10" using False by linarith
      then show ?thesis using n by (subst decimal_digits.simps) simp
    qed
    have "0 < \<bar>x sdiv 10\<bar>" using d(1) False by simp
    moreover have "length (decimal_digits (nat \<bar>x sdiv 10\<bar>)) \<noteq> 0" by (subst decimal_digits.simps) simp
    ultimately show ?thesis
      using 1(1) [OF x] 1(3) dd x by (subst integer_loop.simps) simp
  qed
qed

lemma dump_integer_writes:
  assumes "\<bar>x\<bar> < 10 ^ 20"
  shows "appends (integer_text x) z (dump_integer x z)"
proof (cases "x = 0")
  case True
  then show ?thesis by (simp add: dump_integer_def integer_text_def decimal_digits.simps appends_def write_characters_def same_style_def)
next
  case False
  have "nat \<bar>x\<bar> < 10 ^ 20" using assms by simp
  then have l: "length (decimal_digits (nat \<bar>x\<bar>)) \<le> 20" by (rule length_decimal_digits) simp
  then have l2: "x < 0 \<Longrightarrow> length (decimal_digits (nat (- x))) < 62" by simp
  from l have "integer_loop x [] = Inr (rev (decimal_digits (nat \<bar>x\<bar>)))"
    using integer_loop_digits [of x "[]"] False by simp
  then show ?thesis
    using False l l2 by (simp add: dump_integer_def integer_text_def appends_def write_characters_def same_style_def)
qed

section \<open>Reading escaped characters\<close>

lemma hex_lower_digit: "n < 16 \<Longrightarrow> hex_digit (hex_lower n) = Some (int n)"
proof -
  assume "n < 16"
  then have "n \<in> set [0..<16]" by simp
  moreover have "list_all (\<lambda>n. hex_digit (hex_lower n) = Some (int n)) [0..<16]" by code_simp
  ultimately show ?thesis unfolding list_all_iff by blast
qed

lemma escape_unit_hex4:
  assumes "0 \<le> c" "c \<le> 0xFFFF"
  obtains h where "escape_unit c = 0x5C # 0x75 # h" "hex4 h = Some c"
proof -
  define n where "n = nat c"
  have u: "unat (word_of_int c :: u16) = n" using assms by (simp add: n_def unat_eq_nat_uint uint_word_of_int)
  have b: "n < 65536" using assms by (simp add: n_def)
  have s: "n div 4096 * 4096 + n div 256 mod 16 * 256 + n div 16 mod 16 * 16 + n mod 16 = n"
  proof -
    have d: "n div 4096 = n div 16 div 16 div 16" "n div 256 = n div 16 div 16" by (simp_all flip: div_mult2_eq)
    have "n div 16 * 16 + n mod 16 = n" "n div 16 div 16 * 16 + n div 16 mod 16 = n div 16"
      "n div 16 div 16 div 16 * 16 + n div 16 div 16 mod 16 = n div 16 div 16"
      by (rule div_mult_mod_eq)+
    then show ?thesis unfolding d by linarith
  qed
  have "int (n div 4096) * 4096 + int (n div 256 mod 16) * 256 + int (n div 16 mod 16) * 16 + int (n mod 16) = c"
  proof -
    have "int (n div 4096 * 4096 + n div 256 mod 16 * 256 + n div 16 mod 16 * 16 + n mod 16) = int n" by (simp only: s)
    then show ?thesis using assms by (simp add: n_def)
  qed
  then have "hex4 [hex_lower (n div 4096), hex_lower (n div 256 mod 16), hex_lower (n div 16 mod 16), hex_lower (n mod 16)] = Some c"
    using b by (simp add: hex_lower_digit)
  then show ?thesis using that by (simp add: escape_unit_def escape_u_def u)
qed

lemma escape_char_text:
  assumes "scalar cp"
  shows "char_text cp (escape_char a cp)"
proof (cases "map_of letter_escapes cp")
  case (Some c)
  then have "(c, cp) \<in> set short_escapes" by (auto simp: letter_escapes_def short_escapes_def split: if_splits)
  then show ?thesis using Some char_text.short by (simp add: escape_char_def)
next
  case None
  have c: "0 \<le> cp" "cp \<le> 0x10FFFF" using assms by (simp_all add: scalar_def)
  show ?thesis
  proof (cases "cp \<le> 0x1F \<or> a \<and> 0x7F \<le> cp")
    case False
    then show ?thesis
      using None assms char_text.plain [of cp] by (auto simp: escape_char_def letter_escapes_def split: if_splits)
  next
    case True
    show ?thesis
    proof (cases "cp \<le> 0xFFFF")
      case small: True
      obtain h where "escape_unit cp = 0x5C # 0x75 # h" "hex4 h = Some cp" using escape_unit_hex4 [OF c(1) small] by blast
      then show ?thesis using True None small assms char_text.escaped by (simp add: escape_char_def)
    next
      case False
      define q where "q = (cp - 0x10000) div 1024"
      define m where "m = (cp - 0x10000) mod 1024"
      have qm: "q * 1024 + m = cp - 0x10000" unfolding q_def m_def by (rule div_mult_mod_eq)
      have b: "0 \<le> q" "q \<le> 0x3FF" "0 \<le> m" "m \<le> 0x3FF" using c(2) False by (simp_all add: q_def m_def)
      have r: "0 \<le> 0xD800 + q" "0xD800 + q \<le> 0xFFFF" "0 \<le> 0xDC00 + m" "0xDC00 + m \<le> 0xFFFF" using b by simp_all
      obtain h where h: "escape_unit (0xD800 + q) = 0x5C # 0x75 # h" "hex4 h = Some (0xD800 + q)"
        using escape_unit_hex4 [OF r(1,2)] by blast
      obtain l where l: "escape_unit (0xDC00 + m) = 0x5C # 0x75 # l" "hex4 l = Some (0xDC00 + m)"
        using escape_unit_hex4 [OF r(3,4)] by blast
      have "0x10000 + (0xD800 + q - 0xD800) * 1024 + (0xDC00 + m - 0xDC00) = cp" using qm by simp
      then have "char_text cp (0x5C # 0x75 # h @ 0x5C # 0x75 # l)" using char_text.pair [OF h(2) l(2)] b by simp
      then show ?thesis using True None False h(1) l(1) by (simp add: escape_char_def q_def m_def)
    qed
  qed
qed

lemma escape_text_string: "\<forall>cp \<in> set cps. scalar cp \<Longrightarrow> string_text cps (escape_text a cps)"
  by (induction cps) (auto intro: string_text.intros escape_char_text)

text \<open>The characters of a byte string in UTF-8.\<close>

function utf8_decode :: "byte list \<Rightarrow> int list" where
  "utf8_decode [] = []"
| "utf8_decode (b # bs) =
     (let n = (case utf8_ranges (uint b) of None \<Rightarrow> 0 | Some rs \<Rightarrow> length rs)
      in code_value (payload (uint b)) (map uint (take n bs)) # utf8_decode (drop n bs))"
  by pat_completeness auto
termination by (relation "measure length") (auto split: option.splits)

lemma utf8_decode_encode: "\<forall>cp \<in> set cps. scalar cp \<Longrightarrow> utf8_decode (encode_text cps) = cps"
proof (induction cps)
  case (Cons cp cps)
  have sc: "scalar cp" using Cons(2) by simp
  obtain b bs rs where u: "utf8_ints cp = b # bs" "0 \<le> b" "b < 256" "in_ranges rs bs" "rs = [] \<or> rs \<in> set decoder_ranges"
    "\<forall>b \<in> set bs. 0x80 \<le> b \<and> b < 0xC0" "b < 0x80 \<and> rs = [] \<or> 0x80 \<le> b \<and> utf8_ranges b = Some rs"
    using scalar_first [OF sc] by blast
  have n: "(case utf8_ranges b of None \<Rightarrow> 0 | Some rs \<Rightarrow> length rs) = length bs"
  proof -
    have "utf8_ranges b = None" if "b < 0x80" using that by (simp add: utf8_ranges_def)
    then show ?thesis using u(7) list_all2_lengthD [OF u(4)] by auto
  qed
  have bs: "map (\<lambda>b. uint (word_of_int b :: byte)) bs = bs" using u(6) by (intro map_idI uint_word_of_int8) fastforce+
  have ub: "uint (word_of_int b :: byte) = b" using u(2,3) uint_word_of_int8 by simp
  show ?case
    using Cons payload_value(1) [OF sc u(1)] u(1) n bs by (simp add: utf8_encode_def ub Let_def comp_def del: take_map)
qed simp

end
