(* ===== verification/Json_Roundtrip.thy ===== *)
theory Json_Roundtrip
  imports Json_Text
begin

text \<open>
  The text of a whole value as \<open>dump\<close> lays it out, compact or indented, and the round trip through the
  parser.
\<close>

section \<open>The layout\<close>

text \<open>With \<open>Some k\<close> every level is indented by \<open>k\<close> blanks, with \<open>None\<close> all is on one line.\<close>

definition new_line :: "nat option \<Rightarrow> nat \<Rightarrow> byte list" where
  "new_line ps n = (case ps of None \<Rightarrow> [] | Some _ \<Rightarrow> 0x0A # replicate n 0x20)"

definition deeper :: "nat option \<Rightarrow> nat \<Rightarrow> nat" where
  "deeper ps n = (case ps of None \<Rightarrow> n | Some k \<Rightarrow> n + k)"

fun separated :: "'a list \<Rightarrow> 'a list list \<Rightarrow> 'a list" where
  "separated sep [] = []"
| "separated sep (t # ts) = (if ts = [] then t else t @ sep @ separated sep ts)"

definition text_of_string :: "bool \<Rightarrow> byte list \<Rightarrow> byte list" where
  "text_of_string a s = 0x22 # escape_text a (utf8_decode s) @ [0x22]"

definition colon :: "nat option \<Rightarrow> byte list" where
  "colon ps = (if ps = None then [0x3A] else [0x3A, 0x20])"

fun value_text :: "bool \<Rightarrow> nat option \<Rightarrow> nat \<Rightarrow> json \<Rightarrow> byte list" where
  "value_text a ps n (JObject m) =
     (if m = [] then [0x7B, 0x7D]
      else 0x7B # new_line ps (deeper ps n) @
        separated (0x2C # new_line ps (deeper ps n)) (map (\<lambda>(k, v). text_of_string a k @ colon ps @ value_text a ps (deeper ps n) v) m) @
        new_line ps n @ [0x7D])"
| "value_text a ps n (JArray xs) =
     (if xs = [] then [0x5B, 0x5D]
      else 0x5B # new_line ps (deeper ps n) @
        separated (0x2C # new_line ps (deeper ps n)) (map (value_text a ps (deeper ps n)) xs) @
        new_line ps n @ [0x5D])"
| "value_text a ps n (JString s) = text_of_string a s"
| "value_text a ps n (JBoolean b) = (if b then true_text else false_text)"
| "value_text a ps n (JInteger x) = integer_text (sint x)"
| "value_text a ps n (JUnsigned x) = integer_text (uint x)"
| "value_text a ps n JNull = null_text"
| "value_text a ps n _ = []"

text \<open>
  A text says of a number only whether it is negative: as read back, signed numbers that are not
  negative are unsigned. \<open>map_leaves g\<close> is \<open>g\<close> at the numbers, strings and literals in a value.
\<close>

fun map_leaves :: "(json \<Rightarrow> json) \<Rightarrow> json \<Rightarrow> json" where
  "map_leaves g (JObject m) = JObject (map (\<lambda>(k, v). (k, map_leaves g v)) m)"
| "map_leaves g (JArray xs) = JArray (map (map_leaves g) xs)"
| "map_leaves g j = g j"

definition unsigned_leaf :: "json \<Rightarrow> json" where
  "unsigned_leaf j = (case j of JInteger n \<Rightarrow> if 0 \<le> sint n then JUnsigned n else j | _ \<Rightarrow> j)"

fun no_floats :: "json \<Rightarrow> bool" where
  "no_floats (JObject m) \<longleftrightarrow> (\<forall>(k, v) \<in> set m. no_floats v)"
| "no_floats (JArray xs) \<longleftrightarrow> (\<forall>v \<in> set xs. no_floats v)"
| "no_floats (JFloat x) \<longleftrightarrow> False"
| "no_floats _ \<longleftrightarrow> True"

fun json_depth :: "json \<Rightarrow> nat" where
  "json_depth (JObject m) = Suc (Max (insert 0 ((\<lambda>(k, v). json_depth v) ` set m)))"
| "json_depth (JArray xs) = Suc (Max (insert 0 (json_depth ` set xs)))"
| "json_depth _ = 0"

lemma json_depth_element: "v \<in> set xs \<Longrightarrow> json_depth v < json_depth (JArray xs)"
  by (simp add: le_imp_less_Suc)

lemma json_depth_member: "(k, v) \<in> set m \<Longrightarrow> json_depth v < json_depth (JObject m)"
proof -
  assume "(k, v) \<in> set m"
  then have "json_depth v \<in> (\<lambda>(k, v). json_depth v) ` set m" by force
  then have "json_depth v \<le> Max (insert 0 ((\<lambda>(k, v). json_depth v) ` set m))" by (intro Max_ge) auto
  then show ?thesis by simp
qed

section \<open>Writing\<close>

text \<open>A serializer whose buffers are as the code expects them.\<close>

definition ready :: "bool \<Rightarrow> serializer \<Rightarrow> bool" where
  "ready pretty z \<longleftrightarrow> length (string_buffer z) = 512 \<and>
     (pretty \<longrightarrow> 512 \<le> length (indent_string z) \<and> indent_string z = replicate (length (indent_string z)) 0x20)"

definition emits :: "bool \<Rightarrow> byte list \<Rightarrow> serializer \<Rightarrow> serializer res \<Rightarrow> bool" where
  "emits pretty w z r \<longleftrightarrow> (\<exists>z'. r = Inr z' \<and> out z' = out z @ w \<and> ready pretty z' \<and>
     length (indent_string z) \<le> length (indent_string z'))"

lemma emits_bind:
  assumes "emits pretty v z r"
    and "\<And>z'. ready pretty z' \<Longrightarrow> length (indent_string z) \<le> length (indent_string z') \<Longrightarrow> emits pretty w z' (f z')"
  shows "emits pretty (v @ w) z (bind_res r f)"
proof -
  obtain z1 where z1: "r = Inr z1" "out z1 = out z @ v" "ready pretty z1" "length (indent_string z) \<le> length (indent_string z1)"
    using assms(1) by (auto simp: emits_def)
  then show ?thesis using assms(2) [OF z1(3,4)] by (auto simp: emits_def)
qed

lemma emits_write:
  assumes "emits pretty w (write_characters cs z) r"
  shows "emits pretty (cs @ w) z r"
  using assms by (auto simp: emits_def write_characters_def)

lemma emits_Inr: "ready pretty z \<Longrightarrow> emits pretty cs z (Inr (write_characters cs z))"
  by (simp add: emits_def ready_def write_characters_def)

lemma emits_refl: "ready pretty z \<Longrightarrow> emits pretty [] z (Inr z)"
  by (simp add: emits_def)

lemma appends_emits: "appends w z r \<Longrightarrow> ready pretty z \<Longrightarrow> emits pretty w z r"
  by (auto simp: appends_def emits_def ready_def same_style_def)

lemma ready_write [simp]: "ready pretty (write_characters cs z) = ready pretty z"
  "indent_string (write_characters cs z) = indent_string z" "string_buffer (write_characters cs z) = string_buffer z"
  by (simp_all add: ready_def write_characters_def)

lemma emits_indent:
  assumes "ready True z" "unat n \<le> length (indent_string z)"
  shows "emits True (replicate (unat n) 0x20) z (write_indent n z)"
proof -
  obtain k where k: "indent_string z = replicate k 0x20" "512 \<le> k" using assms(1) by (auto simp: ready_def)
  have "take (unat n) (indent_string z @ [0]) = replicate (unat n) 0x20" using k(1) assms(2) by (simp add: min_def)
  then show ?thesis using assms by (simp add: write_indent_def emits_Inr [of True z "replicate (unat n) 0x20"])
qed

lemma widen_ready:
  assumes "ready True z" "unat n \<le> 2 * length (indent_string z)"
  shows "ready True (widen_indent n z)" "unat n \<le> length (indent_string (widen_indent n z))" "out (widen_indent n z) = out z"
    "length (indent_string z) \<le> length (indent_string (widen_indent n z))"
proof -
  obtain k where k: "indent_string z = replicate k 0x20" "512 \<le> k" "length (string_buffer z) = 512"
    using assms(1) by (auto simp: ready_def)
  show "ready True (widen_indent n z)"
    using k by (auto simp: ready_def widen_indent_def replicate_add [symmetric])
qed (use assms(2) in \<open>simp_all add: widen_indent_def\<close>)

lemma emits_widen:
  assumes "emits True w (widen_indent n z) r" "ready True z" "unat n \<le> 2 * length (indent_string z)"
  shows "emits True w z r"
  using assms(1) widen_ready [OF assms(2,3)] by (auto simp: emits_def)

text \<open>Strings and keys.\<close>

lemma emits_string:
  assumes "valid_utf8 s" "ready pretty z"
  shows "emits pretty (escape_text a (utf8_decode s)) z (dump_escaped s a z)"
proof -
  obtain cps where c: "\<forall>cp \<in> set cps. scalar cp" "s = encode_text cps" using assms(1) by (auto simp: valid_utf8_def)
  have "appends (escape_text a cps) z (dump_escaped s a z)"
    using dump_escaped_writes [OF c(1)] assms(2) c(2) by (simp add: ready_def)
  then show ?thesis using appends_emits assms(2) c utf8_decode_encode [OF c(1)] by simp
qed

lemma emits_key:
  assumes "valid_utf8 k" "ready pretty z"
  shows "emits pretty (text_of_string a k @ cs) z (dump_key k (0x22 # cs) a z)"
proof -
  have "emits pretty (escape_text a (utf8_decode k) @ 0x22 # cs) (write_characters [0x22] z)
      (bind_res (dump_escaped k a (write_characters [0x22] z)) (\<lambda>z1. Inr (write_characters (0x22 # cs) z1)))"
    by (rule emits_bind [OF emits_string [OF assms(1)]]) (simp_all add: assms(2) emits_Inr)
  then show ?thesis using emits_write by (fastforce simp: dump_key_def text_of_string_def)
qed

section \<open>Values\<close>

definition layout :: "bool \<Rightarrow> u32 \<Rightarrow> nat option" where
  "layout pretty step = (if pretty then Some (unat step) else None)"

definition indent :: "bool \<Rightarrow> u32 \<Rightarrow> byte list" where
  "indent pretty n = (if pretty then replicate (unat n) 0x20 else [])"

text \<open>The indentation of all levels fits its width, and that of this one the string of blanks.\<close>

definition fits :: "bool \<Rightarrow> u32 \<Rightarrow> u32 \<Rightarrow> nat \<Rightarrow> serializer \<Rightarrow> bool" where
  "fits pretty step cur d z \<longleftrightarrow> ready pretty z \<and> (pretty \<longrightarrow> unat step \<le> 512 \<and> unat cur \<le> length (indent_string z) \<and>
     unat cur + d * unat step < 2 ^ 32)"

lemma fits_later: "fits pretty step cur d z \<Longrightarrow> ready pretty z' \<Longrightarrow> length (indent_string z) \<le> length (indent_string z') \<Longrightarrow>
    fits pretty step cur d z'"
  by (auto simp: fits_def)

lemma fits_write [simp]: "fits pretty step cur d (write_characters cs z) = fits pretty step cur d z"
  by (simp add: fits_def)

lemma emits_line:
  assumes "fits pretty step cur d z"
  shows "emits pretty (indent pretty cur) z (if pretty then write_indent cur z else Inr z)"
  using assms emits_indent emits_refl by (auto simp: fits_def indent_def)

definition dumps_well :: "bool \<Rightarrow> bool \<Rightarrow> u32 \<Rightarrow> json \<Rightarrow> bool" where
  "dumps_well pretty a step v \<longleftrightarrow> (\<forall>cur z. fits pretty step cur (json_depth v) z \<longrightarrow>
     emits pretty (value_text a (layout pretty step) (unat cur) v) z (dump v pretty a step cur z))"

lemma separator: "0x2C # new_line (layout pretty step) (unat cur) = (if pretty then [0x2C, 0x0A] else [0x2C]) @ indent pretty cur"
  by (simp add: new_line_def layout_def indent_def)

lemma dump_elements_emits:
  assumes "\<forall>v \<in> set xs. dumps_well pretty a step v \<and> fits pretty step cur (json_depth v) z" "xs \<noteq> []"
  shows "emits pretty (indent pretty cur @ separated (0x2C # new_line (layout pretty step) (unat cur))
      (map (value_text a (layout pretty step) (unat cur)) xs)) z (dump_elements xs pretty a step cur z)"
  using assms
proof (induction xs arbitrary: z)
  case (Cons x xs)
  let ?t = "value_text a (layout pretty step) (unat cur)"
  let ?s = "0x2C # new_line (layout pretty step) (unat cur)"
  have x: "dumps_well pretty a step x" "fits pretty step cur (json_depth x) z" using Cons.prems(1) by simp_all
  have later: "emits pretty (?t x @ (if xs = [] then [] else ?s @ separated ?s (map ?t xs))) z1
      (bind_res (dump x pretty a step cur z1) (\<lambda>z2. if xs = [] then Inr z2
        else dump_elements xs pretty a step cur (write_characters (if pretty then [0x2C, 0x0A] else [0x2C]) z2)))"
    if z1: "ready pretty z1" "length (indent_string z) \<le> length (indent_string z1)" for z1
  proof (rule emits_bind)
    show "emits pretty (?t x) z1 (dump x pretty a step cur z1)"
      using x fits_later [OF x(2) z1] by (simp add: dumps_well_def)
    fix z2 assume z2: "ready pretty z2" "length (indent_string z1) \<le> length (indent_string z2)"
    show "emits pretty (if xs = [] then [] else ?s @ separated ?s (map ?t xs)) z2
        (if xs = [] then Inr z2 else dump_elements xs pretty a step cur (write_characters (if pretty then [0x2C, 0x0A] else [0x2C]) z2))"
    proof (cases "xs = []")
      case True
      then show ?thesis using emits_refl [OF z2(1)] by simp
    next
      case False
      let ?z = "write_characters (if pretty then [0x2C, 0x0A] else [0x2C]) z2"
      have "\<forall>v \<in> set xs. dumps_well pretty a step v \<and> fits pretty step cur (json_depth v) ?z"
        using Cons.prems(1) fits_later [of pretty step cur _ z z2] z1 z2 by auto
      from emits_write [OF Cons.IH [OF this False]] show ?thesis using False by (simp add: separator)
    qed
  qed
  have eq: "separated ?s (map ?t (x # xs)) = ?t x @ (if xs = [] then [] else ?s @ separated ?s (map ?t xs))" by simp
  show ?case unfolding eq dump_elements.simps by (rule emits_bind [OF emits_line [OF x(2)] later])
qed simp

lemma dump_members_emits:
  assumes "\<forall>(k, v) \<in> set m. valid_utf8 k \<and> dumps_well pretty a step v \<and> fits pretty step cur (json_depth v) z" "m \<noteq> []"
  shows "emits pretty (indent pretty cur @ separated (0x2C # new_line (layout pretty step) (unat cur))
      (map (\<lambda>(k, v). text_of_string a k @ colon (layout pretty step) @ value_text a (layout pretty step) (unat cur) v) m)) z
      (dump_members m pretty a step cur z)"
  using assms
proof (induction m arbitrary: z)
  case (Cons kv m)
  obtain k x where kv: "kv = (k, x)" by (cases kv)
  let ?v = "value_text a (layout pretty step) (unat cur)"
  let ?c = "colon (layout pretty step)"
  let ?t = "\<lambda>(k, v). text_of_string a k @ ?c @ ?v v"
  let ?s = "0x2C # new_line (layout pretty step) (unat cur)"
  have x: "valid_utf8 k" "dumps_well pretty a step x" "fits pretty step cur (json_depth x) z" using Cons.prems(1) kv by simp_all
  have c: "(if pretty then [0x22, 0x3A, 0x20] else [0x22, 0x3A]) = 0x22 # ?c" by (simp add: colon_def layout_def)
  have later: "emits pretty (?v x @ (if m = [] then [] else ?s @ separated ?s (map ?t m))) z1
      (bind_res (dump x pretty a step cur z1) (\<lambda>z2. if m = [] then Inr z2
        else dump_members m pretty a step cur (write_characters (if pretty then [0x2C, 0x0A] else [0x2C]) z2)))"
    if z1: "ready pretty z1" "length (indent_string z) \<le> length (indent_string z1)" for z1
  proof (rule emits_bind)
    show "emits pretty (?v x) z1 (dump x pretty a step cur z1)"
      using x fits_later [OF x(3) z1] by (simp add: dumps_well_def)
    fix z2 assume z2: "ready pretty z2" "length (indent_string z1) \<le> length (indent_string z2)"
    show "emits pretty (if m = [] then [] else ?s @ separated ?s (map ?t m)) z2
        (if m = [] then Inr z2 else dump_members m pretty a step cur (write_characters (if pretty then [0x2C, 0x0A] else [0x2C]) z2))"
    proof (cases "m = []")
      case True
      then show ?thesis using emits_refl [OF z2(1)] by simp
    next
      case False
      let ?z = "write_characters (if pretty then [0x2C, 0x0A] else [0x2C]) z2"
      have "\<forall>(k, v) \<in> set m. valid_utf8 k \<and> dumps_well pretty a step v \<and> fits pretty step cur (json_depth v) ?z"
        using Cons.prems(1) fits_later [of pretty step cur _ z z2] z1 z2 by fastforce
      from emits_write [OF Cons.IH [OF this False]] show ?thesis using False by (simp add: separator)
    qed
  qed
  have key: "emits pretty ((text_of_string a k @ ?c) @ ?v x @ (if m = [] then [] else ?s @ separated ?s (map ?t m))) z1
      (bind_res (dump_key k (if pretty then [0x22, 0x3A, 0x20] else [0x22, 0x3A]) a z1) (\<lambda>z2.
       bind_res (dump x pretty a step cur z2) (\<lambda>z3. if m = [] then Inr z3
        else dump_members m pretty a step cur (write_characters (if pretty then [0x2C, 0x0A] else [0x2C]) z3))))"
    if z1: "ready pretty z1" "length (indent_string z) \<le> length (indent_string z1)" for z1
    unfolding c by (rule emits_bind [OF emits_key [OF x(1) z1(1)] later]) (use z1 in simp_all)
  have eq: "separated ?s (map ?t ((k, x) # m)) =
      (text_of_string a k @ ?c) @ ?v x @ (if m = [] then [] else ?s @ separated ?s (map ?t m))" by simp
  show ?case unfolding kv eq dump_members.simps by (rule emits_bind [OF emits_line [OF x(3)] key])
qed simp

lemma emits_bracket:
  assumes "ready pretty z" "pretty \<Longrightarrow> unat cur \<le> length (indent_string z)"
  shows "emits pretty (new_line (layout pretty step) (unat cur) @ [c]) z
    (if pretty then bind_res (write_indent cur (write_characters [0x0A] z)) (\<lambda>z2. Inr (write_characters [c] z2))
     else Inr (write_characters [c] z))"
proof (cases pretty)
  case True
  have "emits True (replicate (unat cur) 0x20 @ [c]) (write_characters [0x0A] z)
      (bind_res (write_indent cur (write_characters [0x0A] z)) (\<lambda>z2. Inr (write_characters [c] z2)))"
    using assms True by (intro emits_bind emits_indent emits_Inr) simp_all
  from emits_write [OF this] show ?thesis using True by (simp add: new_line_def layout_def)
next
  case False
  then show ?thesis using assms(1) by (simp add: new_line_def layout_def emits_Inr)
qed

text \<open>One level down.\<close>

definition inner :: "bool \<Rightarrow> u32 \<Rightarrow> u32 \<Rightarrow> u32" where
  "inner pretty step cur = (if pretty then cur + step else cur)"

definition opened :: "bool \<Rightarrow> byte \<Rightarrow> u32 \<Rightarrow> serializer \<Rightarrow> serializer" where
  "opened pretty c n z = (if pretty then widen_indent n (write_characters [c, 0x0A] z) else write_characters [c] z)"

lemma unat_inner:
  assumes "fits pretty step cur (Suc d) z"
  shows "unat (inner pretty step cur) = deeper (layout pretty step) (unat cur)"
proof (cases pretty)
  case True
  then have "unat cur + unat step < 2 ^ 32" using assms by (simp add: fits_def)
  then have "unat (cur + step) = unat cur + unat step" by (subst unat_add_lem [symmetric]) simp
  then show ?thesis using True by (simp add: inner_def deeper_def layout_def)
qed (simp add: inner_def deeper_def layout_def)

lemma fits_inner:
  assumes "fits pretty step cur (Suc d) z" "d' \<le> d"
  shows "fits pretty step (inner pretty step cur) d' (opened pretty c (inner pretty step cur) z)"
proof (cases pretty)
  case True
  have u: "unat (inner pretty step cur) = unat cur + unat step" using unat_inner [OF assms(1)] True by (simp add: deeper_def layout_def)
  have "unat (inner pretty step cur) \<le> 2 * length (indent_string (write_characters [c, 0x0A] z))"
    using u assms(1) True by (auto simp: fits_def ready_def)
  note w = widen_ready [OF _ this]
  have "d' * unat step \<le> d * unat step" using assms(2) by (rule mult_le_mono1)
  moreover have "unat cur + (unat step + d * unat step) < 2 ^ 32" using assms(1) True by (simp add: fits_def)
  ultimately have "unat (inner pretty step cur) + d' * unat step < 2 ^ 32" unfolding u by linarith
  then show ?thesis using w assms(1) True by (simp add: fits_def opened_def)
next
  case False
  then show ?thesis using assms(1) by (simp add: fits_def opened_def)
qed

lemma emits_opened:
  assumes "emits pretty (indent pretty (inner pretty step cur) @ w) (opened pretty c (inner pretty step cur) z) r" "fits pretty step cur (Suc d) z"
  shows "emits pretty (c # new_line (layout pretty step) (deeper (layout pretty step) (unat cur)) @ w) z r"
proof (cases pretty)
  case True
  have u: "unat (inner pretty step cur) = unat cur + unat step" using unat_inner [OF assms(2)] True by (simp add: deeper_def layout_def)
  have "unat (inner pretty step cur) \<le> 2 * length (indent_string (write_characters [c, 0x0A] z))"
    using u assms(2) True by (auto simp: fits_def ready_def)
  then have "emits True (indent pretty (inner pretty step cur) @ w) (write_characters [c, 0x0A] z) r"
    using emits_widen [of _ "inner pretty step cur" "write_characters [c, 0x0A] z" r] assms True by (simp add: opened_def fits_def)
  from emits_write [OF this] show ?thesis using True u by (simp add: new_line_def layout_def deeper_def indent_def)
next
  case False
  then show ?thesis using emits_write [of pretty _ "[c]" z r] assms(1) by (simp add: new_line_def layout_def indent_def opened_def)
qed

lemma emits_container:
  assumes "fits pretty step cur (Suc d) z"
    and "emits pretty (indent pretty (inner pretty step cur) @ w) (opened pretty c (inner pretty step cur) z) r"
  shows "emits pretty (c # new_line (layout pretty step) (deeper (layout pretty step) (unat cur)) @ w @ new_line (layout pretty step) (unat cur) @ [c']) z
    (bind_res r (\<lambda>z1. if pretty then bind_res (write_indent cur (write_characters [0x0A] z1)) (\<lambda>z2. Inr (write_characters [c'] z2))
       else Inr (write_characters [c'] z1)))"
proof (rule emits_opened [OF _ assms(1)])
  let ?z = "opened pretty c (inner pretty step cur) z"
  have "emits pretty ((indent pretty (inner pretty step cur) @ w) @ new_line (layout pretty step) (unat cur) @ [c']) ?z
    (bind_res r (\<lambda>z1. if pretty then bind_res (write_indent cur (write_characters [0x0A] z1)) (\<lambda>z2. Inr (write_characters [c'] z2))
       else Inr (write_characters [c'] z1)))"
  proof (rule emits_bind [OF assms(2) emits_bracket])
    fix z1 assume z1: "length (indent_string ?z) \<le> length (indent_string z1)" "pretty"
    have "length (indent_string z) \<le> length (indent_string ?z)" by (simp add: opened_def widen_indent_def)
    then show "unat cur \<le> length (indent_string z1)" using z1 assms(1) by (simp add: fits_def)
  qed
  then show "emits pretty (indent pretty (inner pretty step cur) @ w @ new_line (layout pretty step) (unat cur) @ [c']) ?z
    (bind_res r (\<lambda>z1. if pretty then bind_res (write_indent cur (write_characters [0x0A] z1)) (\<lambda>z2. Inr (write_characters [c'] z2))
       else Inr (write_characters [c'] z1)))" by simp
qed

lemma dump_container:
  "xs \<noteq> [] \<Longrightarrow> dump (JArray xs) pretty a step cur z = bind_res (dump_elements xs pretty a step (inner pretty step cur) (opened pretty 0x5B (inner pretty step cur) z))
     (\<lambda>z1. if pretty then bind_res (write_indent cur (write_characters [0x0A] z1)) (\<lambda>z2. Inr (write_characters [0x5D] z2))
        else Inr (write_characters [0x5D] z1))"
  "m \<noteq> [] \<Longrightarrow> dump (JObject m) pretty a step cur z = bind_res (dump_members m pretty a step (inner pretty step cur) (opened pretty 0x7B (inner pretty step cur) z))
     (\<lambda>z1. if pretty then bind_res (write_indent cur (write_characters [0x0A] z1)) (\<lambda>z2. Inr (write_characters [0x7D] z2))
        else Inr (write_characters [0x7D] z1))"
  by (simp_all add: opened_def inner_def Let_def)

lemma dump_array:
  assumes "\<forall>v \<in> set xs. dumps_well pretty a step v"
  shows "dumps_well pretty a step (JArray xs)"
proof (cases "xs = []")
  case True
  then show ?thesis by (simp add: dumps_well_def fits_def emits_Inr)
next
  case False
  show ?thesis unfolding dumps_well_def
  proof (intro allI impI)
    fix cur z assume f: "fits pretty step cur (json_depth (JArray xs)) z"
    obtain d where d: "json_depth (JArray xs) = Suc d" by simp
    note f' = f [unfolded d]
    let ?n = "inner pretty step cur"
    have "\<forall>v \<in> set xs. dumps_well pretty a step v \<and> fits pretty step ?n (json_depth v) (opened pretty 0x5B ?n z)"
      using assms fits_inner [OF f'] json_depth_element [of _ xs] d by auto
    from emits_container [OF f' dump_elements_emits [OF this False]]
    show "emits pretty (value_text a (layout pretty step) (unat cur) (JArray xs)) z (dump (JArray xs) pretty a step cur z)"
      using False unat_inner [OF f'] by (simp only: dump_container(1) [OF False] value_text.simps if_False)
  qed
qed

lemma dump_object:
  assumes "\<forall>(k, v) \<in> set m. valid_utf8 k \<and> dumps_well pretty a step v"
  shows "dumps_well pretty a step (JObject m)"
proof (cases "m = []")
  case True
  then show ?thesis by (simp add: dumps_well_def fits_def emits_Inr)
next
  case False
  show ?thesis unfolding dumps_well_def
  proof (intro allI impI)
    fix cur z assume f: "fits pretty step cur (json_depth (JObject m)) z"
    obtain d where d: "json_depth (JObject m) = Suc d" by simp
    note f' = f [unfolded d]
    let ?n = "inner pretty step cur"
    have "\<forall>(k, v) \<in> set m. valid_utf8 k \<and> dumps_well pretty a step v \<and> fits pretty step ?n (json_depth v) (opened pretty 0x7B ?n z)"
    proof (intro ballI, clarify)
      fix k v assume kv: "(k, v) \<in> set m"
      then have "json_depth v \<le> d" using json_depth_member [of k v m] d by simp
      then show "valid_utf8 k \<and> dumps_well pretty a step v \<and> fits pretty step ?n (json_depth v) (opened pretty 0x7B ?n z)"
        using assms kv fits_inner [OF f'] by auto
    qed
    from emits_container [OF f' dump_members_emits [OF this False]]
    show "emits pretty (value_text a (layout pretty step) (unat cur) (JObject m)) z (dump (JObject m) pretty a step cur z)"
      using False unat_inner [OF f'] by (simp only: dump_container(2) [OF False] value_text.simps if_False)
  qed
qed

lemma dump_writes: "json_wf v \<Longrightarrow> no_floats v \<Longrightarrow> dumps_well pretty a step v"
proof (induction v)
  case (JObject m)
  then show ?case by (intro dump_object) fastforce
next
  case (JArray xs)
  then show ?case by (intro dump_array) simp
next
  case (JInteger x)
  have "\<bar>sint x\<bar> < 10 ^ 20" using sint_ge [of x] sint_lt [of x] by simp
  then show ?case using dump_integer_writes appends_emits by (simp add: dumps_well_def fits_def)
next
  case (JUnsigned x)
  have "\<bar>uint x\<bar> < 10 ^ 20" using uint_lt2p [of x] by simp
  then show ?case using dump_integer_writes appends_emits by (simp add: dumps_well_def fits_def)
next
  case (JString s)
  have "emits pretty (escape_text a (utf8_decode s) @ [0x22]) (write_characters [0x22] z)
      (bind_res (dump_escaped s a (write_characters [0x22] z)) (\<lambda>z1. Inr (write_characters [0x22] z1)))" if "ready pretty z" for z
    using JString that by (intro emits_bind emits_string emits_Inr) simp_all
  then show ?case using emits_write by (fastforce simp: dumps_well_def fits_def text_of_string_def)
qed (simp_all add: dumps_well_def fits_def emits_Inr true_text_def false_text_def null_text_def)

section \<open>Reading\<close>

lemma decimal_digits_ok: "digits_value (decimal_digits n) = int n \<and> list_all is_digit (decimal_digits n) \<and> decimal_digits n \<noteq> [] \<and>
    (0 < n \<longrightarrow> hd (decimal_digits n) \<noteq> 0x30)"
proof (induction n rule: decimal_digits.induct)
  case (1 n)
  have d: "is_digit (0x30 + word_of_nat k)" "digit_value (0x30 + word_of_nat k) = int k" if "k < 10" for k
  proof -
    have "k \<in> set [0..<10]" using that by simp
    moreover have "list_all (\<lambda>k. is_digit (0x30 + word_of_nat k) \<and> digit_value (0x30 + word_of_nat k) = int k) [0..<10]" by code_simp
    ultimately show "is_digit (0x30 + word_of_nat k)" "digit_value (0x30 + word_of_nat k) = int k" unfolding list_all_iff by blast+
  qed
  show ?case
  proof (cases "n < 10")
    case True
    have "digit_value (0x30 + word_of_nat n) \<noteq> digit_value 0x30" if "0 < n" using d(2) [OF True] that by (simp add: digit_value_def)
    then have "(0x30 + word_of_nat n :: byte) \<noteq> 0x30" if "0 < n" using that by metis
    then show ?thesis
      using True d [OF True] by (subst (1 2 3 4) decimal_digits.simps) (simp add: digits_value_def)
  next
    case False
    have "n div 10 * 10 + n mod 10 = n" by (rule div_mult_mod_eq)
    then have "10 * int (n div 10) + int (n mod 10) = int n" by linarith
    then show ?thesis
      using False 1 [OF False] d [of "n mod 10"] by (subst (1 2 3 4) decimal_digits.simps) simp
  qed
qed

lemma integer_token: "numeral_ok \<lparr>negative = x < 0, whole = decimal_digits (nat \<bar>x\<bar>), fraction = None, exponent = None\<rparr>"
proof (cases "x = 0")
  case True
  then show ?thesis by (simp add: numeral_ok_def whole_ok_def decimal_digits.simps)
next
  case False
  then show ?thesis using decimal_digits_ok [of "nat \<bar>x\<bar>"] by (simp add: numeral_ok_def whole_ok_def digits_ok_def)
qed

lemma token_here: "lexeme_text lx u \<Longrightarrow> token_at lx u"
  unfolding token_at_def by (intro exI [of _ "[]"] exI [of _ u]) (simp add: blank_def)

lemma integer_lexeme:
  assumes "- (2 ^ 63) \<le> x" "x < 2 ^ 64"
  shows "\<exists>lx. token_at lx (integer_text x) \<and>
    lexeme_value lx = Some (if x < 0 then JInteger (word_of_int x) else JUnsigned (word_of_int x))"
proof -
  let ?n = "\<lparr>negative = x < 0, whole = decimal_digits (nat \<bar>x\<bar>), fraction = None, exponent = None\<rparr>"
  have "numeral_int ?n = x" using decimal_digits_ok [of "nat \<bar>x\<bar>"] by (cases "x < 0") (simp_all add: numeral_int_def)
  then have "number_value ?n = Some (if x < 0 then JInteger (word_of_int x) else JUnsigned (word_of_int x))"
    using assms by (cases "x < 0") (simp_all add: number_value_def numeral_token_def plain_integer_def)
  moreover have "lexeme_text (Number ?n) (integer_text x)"
    using lexeme_text.Number [OF integer_token [of x]] by (simp add: numeral_text_def integer_text_def)
  then have "token_at (Number ?n) (integer_text x)" by (rule token_here)
  ultimately show ?thesis by (intro exI [of _ "Number ?n"]) simp
qed

text \<open>Blanks in front of a text.\<close>

lemma token_at_blank: "token_at lx b \<Longrightarrow> blank ws \<Longrightarrow> token_at lx (ws @ b)"
proof -
  assume "token_at lx b" "blank ws"
  then obtain ws' u where "b = ws' @ u" "blank (ws @ ws')" "lexeme_text lx u" by (auto simp: token_at_def blank_def)
  then show ?thesis unfolding token_at_def by (intro exI [of _ "ws @ ws'"] exI [of _ u]) simp
qed

lemma json_text_blank:
  "json_text v b \<Longrightarrow> blank ws \<Longrightarrow> json_text v (ws @ b)"
  "elements_text xs b \<Longrightarrow> True"
  "members_text ms b \<Longrightarrow> True"
proof (induction rule: json_text_elements_text_members_text.inducts)
  case (scalar lx bs v)
  then show ?case using token_at_blank json_text_elements_text_members_text.scalar by blast
next
  case (empty_array a b)
  from json_text_elements_text_members_text.empty_array [OF token_at_blank [OF empty_array(1,3)] empty_array(2)] show ?case by simp
next
  case (array a xs b c)
  from json_text_elements_text_members_text.array [OF token_at_blank [OF array(1) array(5)] array(2,3)] show ?case by simp
next
  case (empty_object a b)
  from json_text_elements_text_members_text.empty_object [OF token_at_blank [OF empty_object(1,3)] empty_object(2)] show ?case by simp
next
  case (object a ms b c)
  from json_text_elements_text_members_text.object [OF token_at_blank [OF object(1) object(5)] object(2,3)] show ?case by simp
qed simp_all

lemma blank_new_line [simp]: "blank (new_line ps n)"
  by (auto simp: blank_def new_line_def white_def split: option.splits)

lemma punct_at: "(t, c) \<in> set puncts \<Longrightarrow> blank ws \<Longrightarrow> token_at (Punct t) (ws @ [c])"
  by (auto simp: token_at_def intro: lexeme_text.Punct)

lemma punct_here: "(t, c) \<in> set puncts \<Longrightarrow> token_at (Punct t) [c]"
  using punct_at [of t c "[]"] by (simp add: blank_def)

lemma string_at:
  assumes "valid_utf8 s"
  shows "token_at (Text (utf8_decode s)) (text_of_string a s)" "encode_text (utf8_decode s) = s"
proof -
  obtain cps where c: "\<forall>cp \<in> set cps. scalar cp" "s = encode_text cps" using assms by (auto simp: valid_utf8_def)
  then have d: "utf8_decode s = cps" using utf8_decode_encode by simp
  have "lexeme_text (Text cps) (0x22 # escape_text a cps @ [0x22])" using lexeme_text.Text [OF escape_text_string [OF c(1)]] .
  then show "token_at (Text (utf8_decode s)) (text_of_string a s)" unfolding text_of_string_def d
    by (rule token_here)
  show "encode_text (utf8_decode s) = s" using d c(2) by simp
qed

lemma separated_snoc: "ts \<noteq> [] \<Longrightarrow> separated sep (ts @ [t]) = separated sep ts @ sep @ t"
  by (induction ts) auto

lemma elements_separated:
  assumes "\<forall>v \<in> set xs. json_text (g v) (f v)" "xs \<noteq> []" "blank ws"
  shows "elements_text (map g xs) (ws @ separated (0x2C # ws) (map f xs))"
  using assms
proof (induction xs rule: rev_induct)
  case (snoc x xs)
  have x: "json_text (g x) (ws @ f x)" using snoc.prems(1,3) json_text_blank(1) by simp
  show ?case
  proof (cases "xs = []")
    case True
    then show ?thesis using json_text_elements_text_members_text.first_element [OF x] by simp
  next
    case False
    have "elements_text (map g xs) (ws @ separated (0x2C # ws) (map f xs))" using snoc False by simp
    from json_text_elements_text_members_text.next_element [OF this _ x, of "[0x2C]"] show ?thesis
      using False punct_here [of value_separator "0x2C"] separated_snoc [of "map f xs" "0x2C # ws" "f x"] by (simp add: puncts_def)
  qed
qed simp

lemma members_separated:
  assumes "\<forall>(k, v) \<in> set m. valid_utf8 k \<and> json_text (g v) (f v)" "m \<noteq> []" "blank ws"
  shows "members_text (map (\<lambda>(k, v). (k, g v)) m)
    (ws @ separated (0x2C # ws) (map (\<lambda>(k, v). text_of_string a k @ colon ps @ f v) m))"
  using assms
proof (induction m rule: rev_induct)
  case (snoc kv m)
  obtain k v where kv: "kv = (k, v)" by (cases kv)
  have k: "token_at (Text (utf8_decode k)) (ws @ text_of_string a k)" "encode_text (utf8_decode k) = k"
    using string_at(1) [of k a] string_at(2) [of k] token_at_blank snoc.prems(1,3) kv by simp_all
  have c: "colon ps = [0x3A] @ (if ps = None then [] else [0x20])" by (simp add: colon_def)
  have n: "token_at (Punct name_separator) [0x3A]" using punct_here [of name_separator "0x3A"] by (simp add: puncts_def)
  have s: "token_at (Punct value_separator) [0x2C]" using punct_here [of value_separator "0x2C"] by (simp add: puncts_def)
  have v: "json_text (g v) ((if ps = None then [] else [0x20]) @ f v)"
    using snoc.prems(1) kv by (intro json_text_blank(1)) (simp_all add: blank_def white_def)
  show ?case
  proof (cases "m = []")
    case True
    then show ?thesis using json_text_elements_text_members_text.first_member [OF k(1) n v] k(2) c kv by simp
  next
    case False
    let ?t = "\<lambda>(k, v). text_of_string a k @ colon ps @ f v"
    have m: "members_text (map (\<lambda>(k, v). (k, g v)) m) (ws @ separated (0x2C # ws) (map ?t m))" using snoc False by simp
    from json_text_elements_text_members_text.next_member [OF m s k(1) n v] show ?thesis
      using False k(2) c kv separated_snoc [of "map ?t m" "0x2C # ws" "?t kv"] by simp
  qed
qed simp

lemma map_ok_values [simp]: "map_ok (map (\<lambda>(k, v). (k, g v)) m) = map_ok m"
  by (simp add: map_ok_def case_prod_unfold comp_def)

lemma object_of_ok: "map_ok m \<Longrightarrow> object_of m = m"
proof (induction m rule: rev_induct)
  case (snoc kv m)
  obtain k v where kv: "kv = (k, v)" by (cases kv)
  have new: "\<forall>x \<in> fst ` set m. x < k" "map_ok m" using snoc.prems kv by (auto simp: map_ok_def sorted_wrt_append)
  have "map_assign k v (map_at k m) = m @ [(k, v)]" using new(1) by (induction m) auto
  then show ?case using snoc.IH new(2) kv by simp
qed simp

lemma literal_text:
  assumes "(t, u) \<in> set literals" "lexeme_value (Literal t) = Some v"
  shows "json_text v u"
  using scalar [OF token_here [OF lexeme_text.Literal [OF assms(1)]] assms(2)] .

lemma value_text_reads: "json_wf v \<Longrightarrow> no_floats v \<Longrightarrow> json_text (map_leaves unsigned_leaf v) (value_text a ps n v)"
proof (induction v arbitrary: n)
  case (JObject m)
  show ?case
  proof (cases "m = []")
    case True
    have "token_at (Punct begin_object) [0x7B]" "token_at (Punct end_object_token) [0x7D]"
      using punct_here [of begin_object "0x7B"] punct_here [of end_object_token "0x7D"] by (simp_all add: puncts_def)
    from empty_object [OF this] show ?thesis using True by simp
  next
    case False
    have "token_at (Punct begin_object) [0x7B]" "token_at (Punct end_object_token) (new_line ps n @ [0x7D])"
      using punct_here [of begin_object "0x7B"] punct_at [of end_object_token "0x7D" "new_line ps n"] by (simp_all add: puncts_def)
    moreover have "\<forall>(k, v) \<in> set m. valid_utf8 k \<and> json_text (map_leaves unsigned_leaf v) (value_text a ps (deeper ps n) v)"
      using JObject by fastforce
    from members_separated [OF this False blank_new_line] have "members_text (map (\<lambda>(k, v). (k, map_leaves unsigned_leaf v)) m) (new_line ps (deeper ps n) @
        separated (0x2C # new_line ps (deeper ps n)) (map (\<lambda>(k, v). text_of_string a k @ colon ps @ value_text a ps (deeper ps n) v) m))" .
    ultimately show ?thesis
      using json_text_elements_text_members_text.object object_of_ok [of "map (\<lambda>(k, v). (k, map_leaves unsigned_leaf v)) m"]
        JObject.prems(1) False by fastforce
  qed
next
  case (JArray xs)
  show ?case
  proof (cases "xs = []")
    case True
    have "token_at (Punct begin_array) [0x5B]" "token_at (Punct end_array_token) [0x5D]"
      using punct_here [of begin_array "0x5B"] punct_here [of end_array_token "0x5D"] by (simp_all add: puncts_def)
    from empty_array [OF this] show ?thesis using True by simp
  next
    case False
    have "token_at (Punct begin_array) [0x5B]" "token_at (Punct end_array_token) (new_line ps n @ [0x5D])"
      using punct_here [of begin_array "0x5B"] punct_at [of end_array_token "0x5D" "new_line ps n"] by (simp_all add: puncts_def)
    moreover have "\<forall>v \<in> set xs. json_text (map_leaves unsigned_leaf v) (value_text a ps (deeper ps n) v)" using JArray by simp
    from elements_separated [OF this False blank_new_line] have "elements_text (map (map_leaves unsigned_leaf) xs) (new_line ps (deeper ps n) @
        separated (0x2C # new_line ps (deeper ps n)) (map (value_text a ps (deeper ps n)) xs))" .
    ultimately show ?thesis using json_text_elements_text_members_text.array False by fastforce
  qed
next
  case (JString s)
  then show ?case using scalar [OF string_at(1) [of s a]] string_at(2) [of s] by (simp add: unsigned_leaf_def)
next
  case (JInteger x)
  then obtain lx where lx: "token_at lx (integer_text (sint x))"
    "lexeme_value lx = Some (if sint x < 0 then JInteger (word_of_int (sint x)) else JUnsigned (word_of_int (sint x)))"
    using integer_lexeme [of "sint x"] sint_ge [of x] sint_lt [of x] by auto
  have "(word_of_int (sint x) :: 64 word) = x" by simp
  then show ?case using scalar [OF lx] by (auto simp: unsigned_leaf_def split: if_splits)
next
  case (JUnsigned x)
  have "- (2 ^ 63) \<le> uint x" by (rule order_trans [OF _ uint_ge_0]) simp
  then obtain lx where "token_at lx (integer_text (uint x))" "lexeme_value lx = Some (JUnsigned (word_of_int (uint x)))"
    using integer_lexeme [of "uint x"] uint_lt2p [of x] by auto
  then show ?case using scalar by (fastforce simp: unsigned_leaf_def)
next
  case (JBoolean b)
  then show ?case
    using literal_text [of literal_true] literal_text [of literal_false] by (simp add: literals_def unsigned_leaf_def)
next
  case JNull
  then show ?case using literal_text [of literal_null] by (simp add: literals_def unsigned_leaf_def)
qed simp_all

section \<open>The functions of the class\<close>

lemma ready_new: "pretty \<longrightarrow> ichar = 0x20 \<Longrightarrow> ready pretty (new_serializer ichar eh)"
  by (simp add: ready_def new_serializer_def)

lemma dump_text:
  assumes "json_wf v" "no_floats v" "pretty \<longrightarrow> ichar = 0x20 \<and> step \<le> 512 \<and> json_depth v * unat step < 2 ^ 32"
  shows "bind_res (dump v pretty a step 0 (new_serializer ichar eh)) (\<lambda>z. Inr (out z)) = Inr (value_text a (layout pretty step) 0 v)"
proof -
  have "fits pretty step 0 (json_depth v) (new_serializer ichar eh)"
    using assms(3) ready_new [of pretty ichar eh] by (auto simp: fits_def word_le_nat_alt new_serializer_def)
  then have "emits pretty (value_text a (layout pretty step) 0 v) (new_serializer ichar eh) (dump v pretty a step 0 (new_serializer ichar eh))"
    using dump_writes [OF assms(1,2), of pretty a step] unfolding dumps_well_def by force
  then show ?thesis by (auto simp: emits_def new_serializer_def)
qed

text \<open>What \<open>operator<<\<close> and \<open>dump\<close> write, in their own arguments.\<close>

definition print_layout :: "int \<Rightarrow> nat option" where
  "print_layout width = (if 0 \<le> width then Some (nat width) else None)"

definition printable :: "int \<Rightarrow> byte \<Rightarrow> json \<Rightarrow> bool" where
  "printable width ichar v \<longleftrightarrow> 0 \<le> width \<longrightarrow> ichar = 0x20 \<and> width \<le> 512 \<and> int (json_depth v) * width < 2 ^ 32"

lemma printable_step:
  assumes "printable width ichar v" "0 \<le> width"
  shows "ichar = 0x20 \<and> (word_of_int width :: u32) \<le> 512 \<and> json_depth v * unat (word_of_int width :: u32) < 2 ^ 32"
    and "unat (word_of_int width :: u32) = nat width"
proof -
  show u: "unat (word_of_int width :: u32) = nat width"
    using assms by (simp add: printable_def unat_eq_nat_uint uint_word_of_int)
  have "int (json_depth v * nat width) < 2 ^ 32" using assms by (simp add: printable_def)
  then have "json_depth v * nat width < 2 ^ 32" by (metis of_nat_less_iff of_nat_numeral of_nat_power)
  moreover have "nat width \<le> 512" using assms by (auto simp: printable_def)
  ultimately show "ichar = 0x20 \<and> (word_of_int width :: u32) \<le> 512 \<and> json_depth v * unat (word_of_int width :: u32) < 2 ^ 32"
    using assms u by (simp add: printable_def word_le_nat_alt)
qed

lemma json_dump_text:
  assumes "json_wf v" "no_floats v" "printable width ichar v"
  shows "json_dump v width ichar a eh = Inr (value_text a (print_layout width) 0 v)"
  using dump_text [OF assms(1,2), of True ichar "word_of_int width" a eh] dump_text [OF assms(1,2), of False ichar 0 a eh]
    printable_step [OF assms(3)]
  by (simp add: json_dump_def print_layout_def layout_def)

lemma json_to_stream_text:
  assumes "json_wf v" "no_floats v" "printable width ichar v" "0 < width"
  shows "json_to_stream width ichar v = Inr (value_text False (Some (nat width)) 0 v)"
  using dump_text [OF assms(1,2), of True ichar "word_of_int width" False strict] printable_step [OF assms(3)] assms(4)
  by (simp add: json_to_stream_def layout_def)

end
