(* ===== verification/Json_Properties.thy ===== *)
theory Json_Properties
  imports Json_Roundtrip
begin

text \<open>
  What the parser of \<open>src/nlohmann\<close> promises to its callers: the operator \<open>>>\<close> of
  \<open>src/nlohmann/json.hpp\<close>, the strict parser, and the decoder of the serializer.
\<close>

section \<open>The functions of the class\<close>

text \<open>\<open>basic_json::parse\<close>, without a callback, and \<open>basic_json::accept\<close>, on the bytes \<open>input\<close>.\<close>

definition json_parse :: "u64 \<Rightarrow> byte \<Rightarrow> byte list \<Rightarrow> bool \<Rightarrow> json res" where
  "json_parse limit dp input allow =
     bind_res (new_parser dp input) (\<lambda>p. parse limit allow True p JNull)"

definition json_accept :: "byte \<Rightarrow> byte list \<Rightarrow> bool res" where
  "json_accept dp input = bind_res (new_parser dp input) (accept True)"

section \<open>Parsing\<close>

text \<open>
  A document as the library reads it: a text of RFC 8259 whose numbers are finite as a \<open>double\<close>, with at most a
  byte order mark in front. When it is \<open>to_end\<close>, only blanks may follow, up to the end of the input or to
  a zero byte: \<open>lexer::scan\<close> takes that for the end, and what is behind it is not read.
\<close>

definition json_document :: "bool \<Rightarrow> json \<Rightarrow> byte list \<Rightarrow> bool" where
  "json_document to_end v input \<longleftrightarrow> (\<exists>bom b r. (bom = [] \<or> bom = byte_order_mark) \<and> input = bom @ b @ r \<and>
     json_text v b \<and> (to_end \<longrightarrow> rest_ok r))"

lemma json_parse_cases:
  assumes "point_ok dp"
  shows "(\<exists>m. allow \<and> json_parse limit dp input allow = Inl (Uncaught m)) \<or>
    \<not> allow \<and> json_parse limit dp input allow = Inr JDiscarded \<or>
    (\<exists>v. json_parse limit dp input allow = Inr v \<and> json_document True v input)"
proof -
  obtain p s0 where "new_parser dp input = Inr p" "starts input s0 p" using new_parser_starts [OF assms] by blast
  then show ?thesis
    using parse_reads [of input s0 p allow limit True JNull] by (auto simp: json_parse_def json_document_def)
qed

lemma rest_number_ends: "rest_ok r \<Longrightarrow> number_ends r"
proof -
  assume "rest_ok r"
  then obtain ws z where "r = ws @ z" "blank ws" "z = [] \<or> hd z = 0" by (auto simp: rest_ok_def)
  then show ?thesis
    by (cases ws; cases z)
      (auto simp: number_ends_def number_char_def blank_def white_def is_digit_def exponent_letter_def word_le_def)
qed

lemma json_parse_document:
  assumes "point_ok dp" "json_document True v input"
  shows "json_parse limit dp input allow = Inr v"
proof -
  obtain bom b r where i: "bom = [] \<or> bom = byte_order_mark" "input = bom @ b @ r" "json_text v b" "rest_ok r"
    using assms(2) by (auto simp: json_document_def)
  obtain p where "new_parser dp (bom @ b @ r) = Inr p" "parse limit allow True p JNull = Inr v"
    using parse_accepts [OF i(3) assms(1) i(1) rest_number_ends [OF i(4)]] i(4) by metis
  then show ?thesis using i(2) by (simp add: json_parse_def)
qed

lemma json_document_wf: "json_document to_end v input \<Longrightarrow> json_wf v"
  using json_text_wf(1) by (auto simp: json_document_def)

lemma json_from_stream_cases:
  assumes "point_ok dp"
  shows "(\<exists>m. json_from_stream limit dp input j = Inl (Uncaught m)) \<or>
    (\<exists>v. json_from_stream limit dp input j = Inr v \<and> json_document False v input)"
proof -
  obtain p s0 where "new_parser dp input = Inr p" "starts input s0 p" using new_parser_starts [OF assms] by blast
  then show ?thesis
    using parse_reads [of input s0 p True limit False j] by (auto simp: json_from_stream_def json_document_def)
qed

text \<open>
  C29. Every value the operator \<open>>>\<close> delivers is well-formed, whatever the stream holds: its
  objects are maps with increasing keys, its strings and keys are UTF-8, its numbers are
  finite, and no part of it is discarded.
\<close>

theorem parsed_wf:
  assumes "point_ok dp" and "json_from_stream limit dp input j = Inr v"
  shows "json_wf v"
  using json_from_stream_cases [OF assms(1), of limit input j] assms(2) json_document_wf by auto

theorem parsed_wf_witness:
  "json_from_stream 10 0x2E [0x5B, 0x31, 0x5D] JNull = Inr (JArray [JUnsigned 1]) \<and> json_wf (JArray [JUnsigned 1])"
proof -
  have "json_from_stream 10 0x2E [0x5B, 0x31, 0x5D] JNull = Inr (JArray [JUnsigned 1])"
    by code_simp
  moreover have "point_ok 0x2E" by (simp add: point_ok_def)
  ultimately show ?thesis using parsed_wf by blast
qed

text \<open>
  C10. The parser decides RFC 8259: \<open>basic_json::parse\<close> delivers a value exactly for the inputs that
  are a JSON text with this value and finite numbers, after an optional byte order mark and before blanks; a zero
  byte ends the input, whatever is behind it. The decimal point of the locale is no digit and no exponent letter.
\<close>

theorem parser_decides_json:
  assumes "point_ok dp"
  shows "json_parse limit dp input True = Inr v \<longleftrightarrow> json_document True v input"
proof
  assume "json_parse limit dp input True = Inr v"
  then show "json_document True v input" using json_parse_cases [OF assms, of True limit input] by auto
qed (rule json_parse_document [OF assms])

theorem parser_decides_json_witness:
  "json_parse 10 0x2E [0x5B, 0x31, 0x5D, 0x20] True = Inr (JArray [JUnsigned 1]) \<and>
   json_document True (JArray [JUnsigned 1]) [0x5B, 0x31, 0x5D, 0x20]"
proof -
  have "json_parse 10 0x2E [0x5B, 0x31, 0x5D, 0x20] True = Inr (JArray [JUnsigned 1])"
    by code_simp
  moreover have "point_ok 0x2E" by (simp add: point_ok_def)
  ultimately show ?thesis using parser_decides_json by blast
qed

text \<open>
  C30. Parsing ends on every input without a failed assertion and without leaving a buffer: with
  exceptions it throws where without them it delivers a discarded value, and where it delivers a
  value both ways deliver the same one, which is not discarded.
\<close>

theorem parser_total:
  assumes "point_ok dp"
  shows "(\<exists>m. json_parse limit dp input True = Inl (Uncaught m)) \<and> json_parse limit dp input False = Inr JDiscarded \<or>
    (\<exists>v. json_parse limit dp input True = Inr v \<and> json_parse limit dp input False = Inr v \<and> v \<noteq> JDiscarded)"
proof (cases "\<exists>v. json_document True v input")
  case True
  then obtain v where "json_document True v input" by blast
  then show ?thesis using json_parse_document [OF assms] json_document_wf by force
next
  case False
  then show ?thesis
    using json_parse_cases [OF assms, of True limit input] json_parse_cases [OF assms, of False limit input] by auto
qed

theorem parser_total_witness:
  "json_parse 10 0x2E [0x5B, 0x31] False = Inr JDiscarded \<and>
   (\<exists>m. json_parse 10 0x2E [0x5B, 0x31] True = Inl (Uncaught m))"
proof -
  have "json_parse 10 0x2E [0x5B, 0x31] False = Inr JDiscarded"
    by code_simp
  moreover have "point_ok 0x2E" by (simp add: point_ok_def)
  ultimately show ?thesis using parser_total [of "0x2E" 10 "[0x5B, 0x31]"] by auto
qed

section \<open>Decoding\<close>

text \<open>
  C36. The decoder of the serializer, a state machine in a table of 400 bytes, recognises UTF-8: run
  over a byte string from its initial state it ends in the accepting state exactly when
  the string is the encoding of a sequence of Unicode scalar values, and it never reads outside its table.
\<close>

theorem decoder_decides_utf8:
  "(\<exists>cp'. decode_run UTF8_ACCEPT cp bs = Inr (UTF8_ACCEPT, cp')) \<longleftrightarrow> valid_utf8 bs"
  using decode_run_accepts decode_run_text by (auto simp: valid_utf8_def)

section \<open>Writing\<close>

text \<open>
  C11. What is written is read back: the text \<open>dump\<close> writes for a well-formed value without
  floating-point numbers, with any treatment of non-ASCII characters, parses to the same value,
  where a number that is not negative comes back unsigned. A compact text can be of any depth; an
  indented one has at most 512 blanks a level, and less than \<open>2^32\<close> blanks in front of a line. The
  decimal point of the locale is as above.
\<close>

theorem json_roundtrip:
  assumes "json_wf v" and "no_floats v" and "printable width ichar v" and "point_ok dp"
  shows "\<exists>text. json_dump v width ichar ascii eh = Inr text \<and>
    json_parse limit dp text True = Inr (map_leaves unsigned_leaf v)"
proof (intro exI conjI)
  show "json_dump v width ichar ascii eh = Inr (value_text ascii (print_layout width) 0 v)"
    by (rule json_dump_text [OF assms(1-3)])
  have "json_document True (map_leaves unsigned_leaf v) (value_text ascii (print_layout width) 0 v)"
    using value_text_reads [OF assms(1,2)] unfolding json_document_def
    by (intro exI [of _ "[]"] exI [of _ "value_text ascii (print_layout width) 0 v"]) (auto simp: rest_ok_def blank_def)
  then show "json_parse limit dp (value_text ascii (print_layout width) 0 v) True = Inr (map_leaves unsigned_leaf v)"
    by (rule json_parse_document [OF assms(4)])
qed

theorem json_roundtrip_witness:
  "\<exists>text. json_dump (JObject [([0x61], JArray [JInteger (- 5), JInteger 5, JNull])]) 4 0x20 False strict = Inr text \<and>
     json_parse 10 0x2E text True = Inr (JObject [([0x61], JArray [JInteger (- 5), JUnsigned 5, JNull])])"
proof -
  let ?v = "JObject [([0x61], JArray [JInteger (- 5), JInteger 5, JNull])]"
  have "valid_utf8 [0x61]" using valid_utf8_encode [of "0x61"] by (simp add: scalar_def utf8_encode_def utf8_ints_def)
  then have "json_wf ?v" by (simp add: map_ok_def)
  moreover have "printable 4 0x20 ?v" "point_ok 0x2E"
    by (simp_all add: printable_def point_ok_def is_digit_def exponent_letter_def)
  ultimately show ?thesis
    using json_roundtrip [of ?v 4 "0x20" "0x2E" False strict 10] by (simp add: unsigned_leaf_def)
qed

text \<open>
  C27. A string is written exactly when it is UTF-8: with the handler \<open>strict\<close> the quoted text with
  each character escaped, otherwise an exception; in no case the buffer of 512 bytes is left.
\<close>

theorem dump_string_strict:
  "if valid_utf8 s then json_dump (JString s) width ichar ascii strict = Inr (text_of_string ascii s)
   else \<exists>m. json_dump (JString s) width ichar ascii strict = Inl (Uncaught m)"
proof -
  let ?z = "write_characters [0x22] (new_serializer ichar strict)"
  have d: "json_dump (JString s) width ichar ascii strict =
      bind_res (dump_escaped s ascii ?z) (\<lambda>z1. Inr (out (write_characters [0x22] z1)))"
    by (cases "dump_escaped s ascii ?z") (simp_all add: json_dump_def)
  show ?thesis
  proof (cases "valid_utf8 s")
    case True
    then obtain cps where c: "\<forall>cp \<in> set cps. scalar cp" "s = encode_text cps" by (auto simp: valid_utf8_def)
    have "appends (escape_text ascii cps) ?z (dump_escaped s ascii ?z)"
      using dump_escaped_writes [OF c(1), of ?z ascii] c(2) by (simp add: write_characters_def new_serializer_def)
    then show ?thesis using d True c utf8_decode_encode [OF c(1)]
      by (auto simp: appends_def text_of_string_def write_characters_def new_serializer_def)
  next
    case False
    then show ?thesis using d dump_escaped_any [of ?z s ascii] by (auto simp: write_characters_def new_serializer_def)
  qed
qed

text \<open>
  C28. With the handler \<open>replace\<close> the buffer is left: the replacements are put without a look at the
  room, and only a valid character has the buffer written out. When printable ASCII characters that
  need no escape are followed by bytes that no character begins with, \<open>dump\<close> writes behind its
  512 bytes exactly when the characters since the last 500 and the replacements, 3 bytes each or 6 with
  \<open>ensure_ascii\<close>, are more than 512 together: 171 such bytes alone, 86 with \<open>ensure_ascii\<close>, or
  5 behind 499 characters.
\<close>

theorem replacement_overflows:
  assumes "\<forall>b \<in> set ps. plain_byte b" and "\<forall>b \<in> set bs. bad_byte b"
  shows "json_dump (JString (ps @ bs)) width ichar ensure_ascii replace = Inl (Undefined ''string_buffer'') \<longleftrightarrow>
    512 < length ps mod 500 + (if ensure_ascii then 6 else 3) * length bs"
proof -
  let ?z = "write_characters [0x22] (new_serializer ichar replace)"
  have "json_dump (JString (ps @ bs)) width ichar ensure_ascii replace =
      bind_res (dump_escaped (ps @ bs) ensure_ascii ?z) (\<lambda>z1. Inr (out (write_characters [0x22] z1)))"
    by (cases "dump_escaped (ps @ bs) ensure_ascii ?z") (simp_all add: json_dump_def)
  moreover have "length (replacement ensure_ascii) = (if ensure_ascii then 6 else 3)" by (simp add: replacement_def)
  ultimately show ?thesis
    using dump_escaped_replace [of ?z ps bs ensure_ascii] assms
    by (auto simp: write_characters_def new_serializer_def split: if_splits)
qed

theorem replacement_overflows_witness:
  "json_dump (JString (replicate 499 0x61 @ replicate 5 0xFF)) (- 1) 0x20 False replace = Inl (Undefined ''string_buffer'') \<and>
   json_dump (JString (replicate 499 0x61 @ replicate 4 0xFF)) (- 1) 0x20 False replace \<noteq> Inl (Undefined ''string_buffer'')"
proof -
  have p: "\<forall>b \<in> set (replicate 499 0x61). plain_byte b" by (simp add: plain_byte_def)
  have b: "\<forall>b \<in> set (replicate n 0xFF). bad_byte b" for n by (simp add: bad_byte_def)
  show ?thesis
    using replacement_overflows [OF p b, of 5 "- 1" "0x20" False] replacement_overflows [OF p b, of 4 "- 1" "0x20" False]
    by simp
qed

text \<open>
  The string of indentation characters is doubled once, whatever width is needed: with more than 1025
  characters a level, \<open>dump\<close> reads behind it.
\<close>

theorem wide_indentation_overreads:
  assumes "0 \<le> width" and "width < 2 ^ 31"
  shows "json_dump (JArray [JNull]) width ichar ascii eh = Inl (Undefined ''indent_string.c_str()'') \<longleftrightarrow> 1025 < width"
proof -
  have u: "unat (word_of_int width :: u32) = nat width"
    using assms by (simp add: unat_eq_nat_uint uint_word_of_int)
  have l: "length (indent_string (widen_indent (word_of_int width) (write_characters [0x5B, 0x0A] (new_serializer ichar eh)))) =
      (if 512 < nat width then 1024 else 512)"
    using u by (simp add: widen_indent_def new_serializer_def)
  have "write_indent (word_of_int width) (widen_indent (word_of_int width) (write_characters [0x5B, 0x0A] (new_serializer ichar eh))) =
      Inl (Undefined ''indent_string.c_str()'') \<longleftrightarrow> 1025 < width"
    using u l assms by (auto simp: write_indent_def)
  then show ?thesis
    using assms u
    by (auto simp: json_dump_def Let_def write_indent_def write_characters_def new_serializer_def widen_indent_def)
qed

theorem wide_indentation_overreads_witness:
  "json_dump (JArray [JNull]) 1026 0x20 False strict = Inl (Undefined ''indent_string.c_str()'')"
  using wide_indentation_overreads [of 1026] by simp

end
