(* ===== verification/Configuration.thy ===== *)
theory Configuration
  imports Device_Properties Json_Properties
begin

text \<open>
  \<open>DoInitialize\<close> of \<open>src/model/point-to-point-net-device.cc\<close>: the device reads the protocol to compress
  from \<open>config.json\<close> through the JSON library and a hexadecimal input stream.
\<close>

section \<open>Initialisation\<close>

text \<open>
  \<open>buffer >> std::hex >> m_protocol\<close> into a 16-bit unsigned integer: white space, a sign and a
  \<open>0x\<close> are skipped, then hexadecimal digits are read; without a digit the result is 0 and a
  value that does not fit gives 65535. When nothing but white space is there the stream fails before it
  reads, and the variable keeps the value \<open>old\<close>.
\<close>

definition hex_nibble :: "char \<Rightarrow> nat option" where
  "hex_nibble c = (let n = of_char c :: nat in
     if 48 \<le> n \<and> n \<le> 57 then Some (n - 48)
     else if 65 \<le> n \<and> n \<le> 70 then Some (n - 55)
     else if 97 \<le> n \<and> n \<le> 102 then Some (n - 87)
     else None)"

fun hex_value :: "nat \<Rightarrow> string \<Rightarrow> nat" where
  "hex_value acc [] = acc"
| "hex_value acc (c # cs) =
     (case hex_nibble c of None \<Rightarrow> acc | Some k \<Rightarrow> hex_value (16 * acc + k) cs)"

definition is_space :: "char \<Rightarrow> bool" where
  "is_space c = (let n = of_char c :: nat in n = 32 \<or> (9 \<le> n \<and> n \<le> 13))"

definition skip_0x :: "string \<Rightarrow> string" where
  "skip_0x s = (case s of
       z # x # rest \<Rightarrow> if z = CHR ''0'' \<and> (x = CHR ''x'' \<or> x = CHR ''X'') then rest else s
     | _ \<Rightarrow> s)"

definition read_hex16 :: "string \<Rightarrow> u16 \<Rightarrow> u16" where
  "read_hex16 str old =
     (let s = dropWhile is_space str;
          minus_sign = (case s of c # _ \<Rightarrow> c = CHR ''-'' | [] \<Rightarrow> False);
          any_sign = (case s of c # _ \<Rightarrow> c = CHR ''-'' \<or> c = CHR ''+'' | [] \<Rightarrow> False);
          v = hex_value 0 (skip_0x (if any_sign then tl s else s))
      in if s = [] then old else if v \<ge> 2 ^ 16 then 65535 else if minus_sign then - of_nat v else of_nat v)"

text \<open>
  The value read from a file, written to the terminal with a width of 4, and its member
  \<open>protocolsToCompress\<close>.
\<close>

definition protocols_key :: "byte list" where
  "protocols_key = map of_char ''protocolsToCompress''"

definition chars_of :: "byte list \<Rightarrow> string" where
  "chars_of = map (\<lambda>b. char_of (unat b))"

definition read_configuration :: "'p env \<Rightarrow> string \<Rightarrow> string res" where
  "read_configuration E file =
     bind_res (json_from_stream (max_container E) (decimal_point E) (file_bytes E file) JNull) (\<lambda>j.
     bind_res (json_to_stream 4 0x20 j) (\<lambda>_.
     bind_res (json_index j protocols_key) (\<lambda>(member, _).
     bind_res (get_string member) (\<lambda>s. Inr (chars_of s)))))"

definition DoInitialize :: "'p env \<Rightarrow> 'p p2p_device \<Rightarrow> 'p p2p_device res" where
  "DoInitialize E d =
     bind_res
       (case m_queueInterface d of None \<Rightarrow> Inr d
        | Some qi \<Rightarrow>
            bind_res (ns_assert (asserts_on E) (m_queue d \<noteq> None)
              ''A Queue object has not been attached to the device'') (\<lambda>_.
            Inr (emit [ConnectQueueTraces qi] d))) (\<lambda>d1.
     bind_res (read_configuration E ''./config.json'') (\<lambda>protocol.
     let d2 = d1\<lparr>m_protocol := read_hex16 protocol (m_protocol d1)\<rparr> in
     bind_res (PppToEther (asserts_on E) (m_protocol d2)) (\<lambda>ether.
     Inr (d2\<lparr>m_protocol := ether\<rparr>))))"


section \<open>The value read\<close>

lemma json_from_stream_document:
  assumes "point_ok dp" "json_document True v input"
  shows "json_from_stream limit dp input j = Inr v"
proof -
  obtain bom b r where i: "bom = [] \<or> bom = byte_order_mark" "input = bom @ b @ r" "json_text v b" "rest_ok r"
    using assms(2) by (auto simp: json_document_def)
  obtain p where "new_parser dp (bom @ b @ r) = Inr p" "parse limit True False p j = Inr v"
    using parse_accepts [OF i(3) assms(1) i(1) rest_number_ends [OF i(4)]] by metis
  then show ?thesis using i(2) by (simp add: json_from_stream_def)
qed

lemma map_at_found: "map_find k m = Some v \<Longrightarrow> map_ok m \<Longrightarrow> map_find k (map_at k m) = Some v"
  by (simp add: map_find_map_at)

lemma read_configuration_document:
  assumes "point_ok (decimal_point E)" "json_document True (JObject m) (file_bytes E file)"
    and "no_floats (JObject m)" "json_depth (JObject m) < 2 ^ 30" "map_find protocols_key m = Some (JString s)"
  shows "read_configuration E file = Inr (chars_of s)"
proof -
  have wf: "json_wf (JObject m)" using json_document_wf assms(2) by blast
  have "printable 4 0x20 (JObject m)" using assms(4) by (simp add: printable_def)
  then have "json_to_stream 4 0x20 (JObject m) = Inr (value_text False (Some 4) 0 (JObject m))"
    using json_to_stream_text [OF wf assms(3), of 4 "0x20"] by simp
  moreover have "map_find protocols_key (map_at protocols_key m) = Some (JString s)"
    using map_at_found [OF assms(5)] wf by simp
  ultimately show ?thesis
    using json_from_stream_document [OF assms(1,2)]
    by (simp add: read_configuration_def json_index_def Let_def get_string_def del: value_text.simps json_wf.simps)
qed

text \<open>
  C22. The configuration file decides what a device compresses: let it hold a JSON text for an object
  without floating-point numbers, nested to less than \<open>2^30\<close> levels, whose member
  \<open>protocolsToCompress\<close> is a string. When the number \<open>>>\<close> reads from the string is one that \<open>PppToEther\<close>
  returns for, and a device with a queue interface has its queue, \<open>DoInitialize\<close> sets
  \<open>m_protocol\<close> to the Ethernet number and connects the traces of the queue to the interface, if there
  is one; nothing else of the device changes. The decimal point of the locale is no digit and no exponent letter.
\<close>

theorem DoInitialize_reads:
  assumes "point_ok (decimal_point E)" and "json_document True (JObject m) (file_bytes E ''./config.json'')"
    and "no_floats (JObject m)" and "json_depth (JObject m) < 2 ^ 30" and "map_find protocols_key m = Some (JString s)"
    and "m_queueInterface d = None \<or> m_queue d \<noteq> None"
    and "PppToEther (asserts_on E) (read_hex16 (chars_of s) (m_protocol d)) = Inr ether"
  shows "DoInitialize E d = Inr ((case m_queueInterface d of None \<Rightarrow> d
     | Some qi \<Rightarrow> emit [ConnectQueueTraces qi] d)\<lparr>m_protocol := ether\<rparr>)"
  using assms(6,7) read_configuration_document [OF assms(1-5)]
  by (auto simp: DoInitialize_def Let_def ns_assert_holds emit_def split: option.splits)

lemma read_0x0021: "read_hex16 ''0x0021'' old = 0x0021"
  by (simp add: read_hex16_def is_space_def skip_0x_def hex_nibble_def Let_def)

lemma chars_of_0x0021: "chars_of (map of_char ''0x0021'') = ''0x0021''"
  by code_simp

lemma ascii_valid: "\<forall>b \<in> set bs. b < 0x80 \<Longrightarrow> valid_utf8 bs"
proof (induction bs)
  case (Cons b bs)
  have "valid_utf8 [b]" using Cons(2) valid_utf8_encode [of "uint b"]
    by (simp add: utf8_encode_def utf8_ints_def scalar_def word_less_def)
  then show ?case using Cons valid_utf8_append [of "[b]" bs] by simp
qed simp

lemma config_json_document: "json_document True (JObject [(protocols_key, JString (map of_char ''0x0021''))]) config_json"
proof -
  let ?v = "JObject [(protocols_key, JString (map of_char ''0x0021''))]"
  have "list_all (\<lambda>b. b < 0x80) protocols_key" "list_all (\<lambda>b :: byte. b < 0x80) (map of_char ''0x0021'')" by code_simp+
  then have "json_wf ?v" using ascii_valid by (simp add: list_all_iff map_ok_def)
  moreover have "value_text False None 0 ?v = config_json" by code_simp
  ultimately have "json_text ?v config_json" using value_text_reads [of ?v False None 0] by (simp add: unsigned_leaf_def)
  then show ?thesis unfolding json_document_def
    by (intro exI [of _ "[]"] exI [of _ config_json]) (auto simp: rest_ok_def blank_def)
qed

text \<open>With the \<open>config.json\<close> of the repository the device compresses IPv4.\<close>

theorem DoInitialize_reads_witness:
  "DoInitialize (byte_env True) (sample_device :: byte list p2p_device) = Inr (sample_device\<lparr>m_protocol := 0x0800\<rparr>)"
proof -
  let ?m = "[(protocols_key, JString (map of_char ''0x0021''))]"
  have "DoInitialize (byte_env True) (sample_device :: byte list p2p_device) =
    Inr ((case m_queueInterface (sample_device :: byte list p2p_device) of None \<Rightarrow> sample_device
      | Some qi \<Rightarrow> emit [ConnectQueueTraces qi] sample_device)\<lparr>m_protocol := 0x0800\<rparr>)"
  proof (rule DoInitialize_reads [where m = ?m and s = "map of_char ''0x0021''"])
    show "json_document True (JObject ?m) (file_bytes (byte_env True) ''./config.json'')"
      using config_json_document by simp
    show "PppToEther (asserts_on (byte_env True))
        (read_hex16 (chars_of (map of_char ''0x0021'')) (m_protocol (sample_device :: byte list p2p_device))) = Inr 0x0800"
      by (simp only: chars_of_0x0021 read_0x0021) (simp add: PppToEther_def)
  qed (simp_all add: point_ok_def sample_device_def)
  then show ?thesis by (simp add: sample_device_def)
qed

lemma read_configuration_fails:
  assumes "point_ok (decimal_point E)" "\<not> (\<exists>v. json_document False v (file_bytes E file))"
  shows "\<exists>m. read_configuration E file = Inl (Uncaught m)"
  using json_from_stream_cases [OF assms(1), of "max_container E" "file_bytes E file" JNull] assms(2)
  by (auto simp: read_configuration_def)

lemma no_document_Nil: "\<not> json_document t v []"
  using json_text_first(1) by (fastforce simp: json_document_def byte_order_mark_def)

text \<open>
  C34. Without a JSON text in \<open>./config.json\<close> no device can be initialised, also none that does not compress:
  the exception of the parser is caught nowhere. A file that cannot be opened is such a case.
\<close>

theorem DoInitialize_needs_config:
  assumes "point_ok (decimal_point E)" and "\<not> (\<exists>v. json_document False v (file_bytes E ''./config.json''))"
    and "m_queueInterface d = None \<or> m_queue d \<noteq> None"
  shows "\<exists>m. DoInitialize E d = Inl (Uncaught m)"
  using read_configuration_fails [OF assms(1,2)] assms(3)
  by (auto simp: DoInitialize_def ns_assert_holds split: option.splits)

theorem DoInitialize_needs_config_witness:
  "\<exists>m. DoInitialize ((byte_env True)\<lparr>file_bytes := (\<lambda>f. [])\<rparr>) (sample_device :: byte list p2p_device) = Inl (Uncaught m)"
  by (rule DoInitialize_needs_config) (simp_all add: no_document_Nil point_ok_def sample_device_def)

end
