(* ===== verification/Older_Programs.thy ===== *)
theory Older_Programs
  imports Configuration Scenario_Properties
begin

text \<open>
  The earlier programs in the repository: \<open>src/examples/udp-app.cc\<close>, which reads the configuration itself and
  sets up the topology of the later one, and \<open>src/example1.cc\<close>, which installs point-to-point devices on four nodes.
\<close>

section \<open>udp-app.cc\<close>

text \<open>
  The server is on the second node of the CSMA segment, a client on the first one and one on the first node of
  the compression link; none of the clients is given a time to start or stop.
\<close>

definition udp_app_apps :: "'p main_env \<Rightarrow> address \<Rightarrow> 'p installed_app list res" where
  "udp_app_apps M udpServerInterfaces =
     bind_res (install_server M 0 receiver_node 0 3000000000000) (\<lambda>server.
     bind_res (install_client M udpServerInterfaces 0 sender_node 0 0) (\<lambda>client.
     bind_res (install_client M udpServerInterfaces 1 comp_node 0 0) (\<lambda>p2pClient.
     Inr [server, client, p2pClient])))"

definition udp_app_setup :: "'p main_env \<Rightarrow> main_args \<Rightarrow> 'p scenario res" where
  "udp_app_setup M args =
     bind_res (read_configuration (dev_env (main_helper M)) ''config.json'') (\<lambda>_.
     let p2pNodes = [comp_node, decomp_node]; udpNodes = [sender_node, receiver_node] in
      bind_res (Install_container (main_helper M) (pointToPoint M args) (mem_device M 0) (mem_device M 1)
        p2pNodes) (\<lambda>(devA, devB, normal).
      let (addrs, udpServerInterfaces) = main_addresses M args in
      bind_res (udp_app_apps M udpServerInterfaces) (\<lambda>apps.
      Inr \<lparr>devComp = devA, devDecomp = devB,
        links = [P2P_Link comp_node decomp_node, Csma_Link udpNodes],
        csma_attributes = csma_settings, ip_stacks = udpNodes @ p2pNodes, interfaces = addrs, applications = apps,
        pcap = EnablePcapInternal (pcap_name M comp_node) ''udp-p2p-l'' (as_traced comp_node devA) False False @
          EnablePcapInternal (pcap_name M decomp_node) ''udp-p2p-l'' (as_traced decomp_node devB) False False\<rparr>)))"

text \<open>The configuration is needed here too, although the string it holds is only printed.\<close>

lemma udp_app_needs_config:
  assumes "point_ok (decimal_point (dev_env (main_helper M)))"
    and "\<not> (\<exists>v. json_document False v (file_bytes (dev_env (main_helper M)) ''config.json''))"
  shows "\<exists>m. udp_app_setup M args = Inl (Uncaught m)"
  using read_configuration_fails [OF assms] by (auto simp: udp_app_setup_def)

lemma udp_app_apps_succeeds: "\<exists>apps. udp_app_apps M peer = Inr apps"
  by (simp add: udp_app_apps_def install_server_def install_client_def server_InstallPriv_def
      client_InstallPriv_def server_defaults_def client_defaults_def main_server_def main_client_def
      server_SetAttribute_def client_SetAttribute_def UdpAppServerHelper_def UdpAppClientHelper_def)

lemma udp_app_setup_cases:
  assumes "udp_app_setup M args = Inr s"
  obtains normal where
    "Install (main_helper M) (pointToPoint M args) (mem_device M 0) (mem_device M 1) comp_node decomp_node =
       Inr (devComp s, devDecomp s, normal)"
    "udp_app_apps M (snd (main_addresses M args)) = Inr (applications s)"
    "links s = topology"
    "interfaces s = fst (main_addresses M args)"
proof -
  obtain protocol devA devB normal where d:
    "read_configuration (dev_env (main_helper M)) ''config.json'' = Inr protocol"
    "Install_container (main_helper M) (pointToPoint M args) (mem_device M 0) (mem_device M 1)
       [comp_node, decomp_node] = Inr (devA, devB, normal)"
    "devComp s = devA" "devDecomp s = devB"
    "udp_app_apps M (snd (main_addresses M args)) = Inr (applications s)"
    "links s = topology"
    "interfaces s = fst (main_addresses M args)"
    using assms by (cases "main_addresses M args") (auto simp: udp_app_setup_def topology_def Let_def bind_res_eq_Inr)
  then show thesis by (intro that [of normal]) (simp_all add: Install_container_def)
qed

text \<open>
  With any configuration from which \<open>protocolsToCompress\<close> can be read, the program sets up the devices and
  the topology of the later one, whatever protocol it names.
\<close>

theorem udp_app_devices:
  assumes "main_laws M L" and "read_configuration (dev_env (main_helper M)) ''config.json'' = Inr protocol"
  shows "\<exists>s s'. udp_app_setup M args = Inr s \<and> main_setup M args = Inr s' \<and>
    devComp s = devComp s' \<and> devDecomp s = devDecomp s' \<and> links s = links s' \<and> interfaces s = interfaces s'"
proof -
  obtain s' where s': "main_setup M args = Inr s'" using main_setup_succeeds [OF assms(1)] by blast
  then obtain normal where m: "Install (main_helper M) (pointToPoint M args) (mem_device M 0) (mem_device M 1) comp_node decomp_node =
       Inr (devComp s', devDecomp s', normal)" "links s' = topology" "interfaces s' = fst (main_addresses M args)"
    by (rule main_setup_cases)
  obtain apps where a: "udp_app_apps M (snd (main_addresses M args)) = Inr apps" using udp_app_apps_succeeds by blast
  have "\<exists>s. udp_app_setup M args = Inr s \<and> devComp s = devComp s' \<and> devDecomp s = devDecomp s' \<and>
      links s = links s' \<and> interfaces s = interfaces s'"
    using assms(2) m a
    by (cases "main_addresses M args") (simp add: udp_app_setup_def Install_container_def topology_def Let_def)
  then show ?thesis using s' by blast
qed

lemma udp_app_client_app:
  assumes "udp_app_apps M peer = Inr apps" and "a \<in> set apps" and "app a = ClientApp c"
  shows "app_node a \<in> {comp_node, sender_node} \<and> main_configured M peer c"
  using assms
  by (auto simp: udp_app_apps_def bind_res_eq_Inr dest!: install_client_app install_server_app)

text \<open>Its client on the compression link sends to the receiver's address too, which it cannot get to.\<close>

theorem udp_app_bypasses_compression:
  assumes "udp_app_setup M args = Inr s" and "a \<in> set (applications s)" and "app a = ClientApp c"
  shows "(receiver_node, m_peerAddress c) \<in> set (interfaces s) \<and>
    (joined (links s) (app_node a) receiver_node \<longleftrightarrow> app_node a = sender_node)"
proof -
  obtain normal where m: "udp_app_apps M (snd (main_addresses M args)) = Inr (applications s)"
    "links s = topology" "interfaces s = fst (main_addresses M args)"
    using assms(1) by (rule udp_app_setup_cases)
  have k: "app_node a \<in> {comp_node, sender_node}" "m_peerAddress c = snd (main_addresses M args)"
    using udp_app_client_app [OF m(1) assms(2,3)] by (auto simp: main_configured_def configured_def)
  show ?thesis
    using k main_receiver_address [of M args]
    unfolding m(2,3) joined_topology by (auto simp: node_numbers)
qed

section \<open>example1.cc\<close>

text \<open>
  The echo applications are outside the repository: their node, port, attributes and times (in
  nanoseconds) are kept as the program gives them.
\<close>

record echo_app =
  echo_node :: nat
  echo_port :: u16
  echo_peer :: "u32 option"
  echo_settings :: "(string \<times> attribute_value) list"
  echo_start :: int
  echo_stop :: int

record 'p echo_scenario =
  echo_devices :: "'p p2p_device \<times> 'p p2p_device"
  echo_stacks :: "nat list"
  echo_interfaces :: "u32 list"
  echo_server :: echo_app
  echo_client :: echo_app

definition example1_helper :: "'p helper_env \<Rightarrow> p2p_helper" where
  "example1_helper H =
     SetChannelAttribute H ''Delay'' (TimeValue 2000000)
       (SetDeviceAttribute H ''DataRate'' (DataRateValue ''5Mbps'') PointToPointHelper)"

definition example1_setup :: "'p main_env \<Rightarrow> 'p echo_scenario res" where
  "example1_setup M =
     (let nodes = [0, 1, 2, 3]; H = main_helper M in
      bind_res (Install_container H (example1_helper H) (mem_device M 0) (mem_device M 1) nodes) (\<lambda>(devA, devB, normal).
      let addrs = map (assign4 M 0x0a010100) [0, 1] in
      Inr \<lparr>echo_devices = (devA, devB), echo_stacks = nodes, echo_interfaces = addrs,
        echo_server = \<lparr>echo_node = 1, echo_port = 9, echo_peer = None, echo_settings = [],
          echo_start = 1000000000, echo_stop = 10000000000\<rparr>,
        echo_client = \<lparr>echo_node = 0, echo_port = 9, echo_peer = Some (addrs ! 1),
          echo_settings = [(''MaxPackets'', UintegerValue 1), (''Interval'', TimeValue 1000000000),
            (''PacketSize'', UintegerValue 1024)],
          echo_start = 2000000000, echo_stop = 10000000000\<rparr>\<rparr>))"

text \<open>
  The program gives four nodes to the helper for two: a debug build stops there, an optimised one
  connects the first two, which are the ones the applications are on.
\<close>

theorem example1_outcome:
  "example1_setup M =
    (if asserts_on (dev_env (main_helper M)) then Inl (AssertFailed ''c.GetN () == 2'')
     else bind_res (Install (main_helper M) (example1_helper (main_helper M)) (mem_device M 0) (mem_device M 1) 0 1)
       (\<lambda>(devA, devB, normal). Inr
         \<lparr>echo_devices = (devA, devB), echo_stacks = [0, 1, 2, 3], echo_interfaces = map (assign4 M 0x0a010100) [0, 1],
          echo_server = \<lparr>echo_node = 1, echo_port = 9, echo_peer = None, echo_settings = [],
            echo_start = 1000000000, echo_stop = 10000000000\<rparr>,
          echo_client = \<lparr>echo_node = 0, echo_port = 9, echo_peer = Some (assign4 M 0x0a010100 1),
            echo_settings = [(''MaxPackets'', UintegerValue 1), (''Interval'', TimeValue 1000000000),
              (''PacketSize'', UintegerValue 1024)],
            echo_start = 2000000000, echo_stop = 10000000000\<rparr>\<rparr>))"
  by (simp add: example1_setup_def Install_container_def ns_assert_def Let_def)

end
