(* ===== verification/Json_Binary.thy ===== *)
theory Json_Binary
  imports Json_Sax
begin

text \<open>
  What the binary formats of the library share: numbers as bytes in the order of the machine or of
  the network (\<open>write_number\<close> and \<open>get_number\<close>), and the reader of
  \<open>src/nlohmann/detail/input/binary_reader.hpp\<close> with its access to the input, its errors and the
  combinators that compose its functions.
\<close>

section \<open>Bytes of a number\<close>

text \<open>\<open>k\<close> bytes of a number, the lowest first, and the number they stand for.\<close>

primrec value_bytes :: "nat \<Rightarrow> int \<Rightarrow> byte list" where
  "value_bytes 0 n = []"
| "value_bytes (Suc k) n = word_of_int n # value_bytes k (n div 256)"

fun bytes_value :: "byte list \<Rightarrow> int" where
  "bytes_value [] = 0"
| "bytes_value (b # bs) = uint b + 256 * bytes_value bs"

definition wsize :: "'w::len itself \<Rightarrow> nat" where
  "wsize _ = LENGTH('w) div 8"

text \<open>\<open>memcpy\<close> between a number and an array of its size, on a machine with the byte order \<open>le\<close>.\<close>

definition to_memory :: "bool \<Rightarrow> 'w::len word \<Rightarrow> byte list" where
  "to_memory le w = (let bs = value_bytes (wsize TYPE('w)) (uint w) in if le then bs else rev bs)"

definition from_memory :: "bool \<Rightarrow> byte list \<Rightarrow> 'w::len word" where
  "from_memory le vec = word_of_int (bytes_value (if le then vec else rev vec))"

text \<open>\<open>binary_writer::write_number\<close>.\<close>

definition write_number :: "bool \<Rightarrow> bool \<Rightarrow> 'w::len word \<Rightarrow> byte list" where
  "write_number is_little_endian OutputIsLittleEndian n =
     (let vec = to_memory is_little_endian n
      in if is_little_endian \<and> \<not> OutputIsLittleEndian then rev vec else vec)"

lemma length_value_bytes [simp]: "length (value_bytes k n) = k"
  by (induction k arbitrary: n) simp_all

lemma bytes_value_bytes: "bytes_value (value_bytes k n) = n mod 256 ^ k"
proof (induction k arbitrary: n)
  case (Suc k)
  have "uint (word_of_int n :: byte) = n mod 256" by (simp add: unsigned_of_int take_bit_eq_mod)
  then show ?case using Suc zmod_zmult2_eq [of "256 ^ k" n 256] by simp
qed simp

lemma bytes_value_of_word:
  assumes "LENGTH('w::len) = 8 * k"
  shows "bytes_value (value_bytes k (uint (w :: 'w word))) = uint w"
proof -
  have "(256 :: int) ^ k = 2 ^ LENGTH('w)" using assms by (simp add: power_mult)
  then show ?thesis by (simp add: bytes_value_bytes)
qed

text \<open>In network order the bytes do not depend on the machine.\<close>

lemma write_number_network: "write_number le False (w :: 'w::len word) = rev (value_bytes (wsize TYPE('w)) (uint w))"
  by (simp add: write_number_def to_memory_def Let_def)

lemma length_write_number [simp]: "length (write_number le ole (w :: 'w::len word)) = wsize TYPE('w)"
  by (simp add: write_number_def to_memory_def Let_def)

section \<open>The reader\<close>

datatype input_format_t = json_format | cbor_format | msgpack_format | ubjson_format | bson_format

text \<open>
  The members of \<open>binary_reader\<close>: the input that is left (\<open>ia\<close>), \<open>current\<close>, \<open>chars_read\<close> and
  \<open>is_little_endian\<close>, and the state of the handler \<open>sax\<close> points to. A function of the class gives
  its result and the next state, or the program stops; \<open>None\<close> is a loop or a recursion that has
  not ended within the fuel. The functions that deliver a value through a reference return
  \<open>None\<close> as that value for the answer false.
\<close>

record 'h binary_reader =
  bin_input :: "byte list"
  bin_current :: int
  bin_read :: nat
  bin_little_endian :: bool
  bin_sax :: 'h

type_synonym ('h, 'a) rd = "'h binary_reader \<Rightarrow> ('a \<times> 'h binary_reader) res option"

definition new_binary_reader :: "bool \<Rightarrow> byte list \<Rightarrow> 'h \<Rightarrow> 'h binary_reader" where
  "new_binary_reader le input h =
     \<lparr>bin_input = input, bin_current = - 1, bin_read = 0, bin_little_endian = le, bin_sax = h\<rparr>"

definition rd_return :: "'a \<Rightarrow> ('h, 'a) rd" where
  "rd_return x r = Some (Inr (x, r))"

definition rd_bind :: "('h, 'a) rd \<Rightarrow> ('a \<Rightarrow> ('h, 'b) rd) \<Rightarrow> ('h, 'b) rd" where
  "rd_bind m k r =
     (case m r of None \<Rightarrow> None | Some (Inl e) \<Rightarrow> Some (Inl e) | Some (Inr (x, r')) \<Rightarrow> k x r')"

text \<open>The operator \<open>and\<close> behind a function that delivers a value, and behind one that does not.\<close>

definition rd_with :: "('h, 'a option) rd \<Rightarrow> ('a \<Rightarrow> ('h, bool) rd) \<Rightarrow> ('h, bool) rd" where
  "rd_with m k = rd_bind m (\<lambda>v. case v of None \<Rightarrow> rd_return False | Some x \<Rightarrow> k x)"

definition rd_and :: "('h, bool) rd \<Rightarrow> ('h, bool) rd \<Rightarrow> ('h, bool) rd" where
  "rd_and m k = rd_bind m (\<lambda>b. if b then k else rd_return False)"

text \<open>The loop \<open>for (std::size_t i = 0; i < len; ++i)\<close> that returns false with its body.\<close>

primrec rd_repeat :: "nat \<Rightarrow> ('h, bool) rd \<Rightarrow> ('h, bool) rd" where
  "rd_repeat 0 body = rd_return True"
| "rd_repeat (Suc n) body = rd_and body (rd_repeat n body)"

text \<open>
  The loop \<open>while (c)\<close> that returns false with its body, where \<open>c\<close> may read.
\<close>

primrec rd_while :: "nat \<Rightarrow> ('h, bool) rd \<Rightarrow> ('h, bool) rd \<Rightarrow> ('h, bool) rd" where
  "rd_while 0 c body = (\<lambda>r. None)"
| "rd_while (Suc n) c body =
     rd_bind c (\<lambda>b. if b then rd_and body (rd_while n c body) else rd_return True)"

text \<open>Calling the handler; reading a member.\<close>

definition rd_sax :: "('h \<Rightarrow> (bool \<times> 'h) res) \<Rightarrow> ('h, bool) rd" where
  "rd_sax f r = Some (bind_res (f (bin_sax r)) (\<lambda>(b, h). Inr (b, r\<lparr>bin_sax := h\<rparr>)))"

definition rd_current :: "('h, int) rd" where
  "rd_current r = Some (Inr (bin_current r, r))"

section \<open>Input and errors\<close>

definition binary_get :: "('h, int) rd" where
  "binary_get r =
     (let r1 = (case bin_input r of
                  [] \<Rightarrow> r\<lparr>bin_current := - 1, bin_read := Suc (bin_read r)\<rparr>
                | b # bs \<Rightarrow> r\<lparr>bin_input := bs, bin_current := uint b, bin_read := Suc (bin_read r)\<rparr>)
      in Some (Inr (bin_current r1, r1)))"

text \<open>\<open>%.2hhX\<close>\<close>

definition hex_upper :: "int \<Rightarrow> char" where
  "hex_upper d = char_of (nat (if d < 10 then 48 + d else 55 + d))"

definition hex_byte :: "int \<Rightarrow> string" where
  "hex_byte c = [hex_upper (c mod 256 div 16), hex_upper (c mod 16)]"

definition binary_token_string :: "'h binary_reader \<Rightarrow> string" where
  "binary_token_string r = hex_byte (bin_current r)"

definition format_name :: "input_format_t \<Rightarrow> string res" where
  "format_name fmt = (case fmt of
     cbor_format \<Rightarrow> Inr ''CBOR'' | msgpack_format \<Rightarrow> Inr ''MessagePack'' | ubjson_format \<Rightarrow> Inr ''UBJSON''
   | bson_format \<Rightarrow> Inr ''BSON'' | json_format \<Rightarrow> Inl (AssertFailed ''false''))"

definition binary_exception_message :: "input_format_t \<Rightarrow> string \<Rightarrow> string \<Rightarrow> string res" where
  "binary_exception_message fmt detail cxt =
     bind_res (format_name fmt) (\<lambda>name.
     Inr (''syntax error while parsing '' @ name @ '' '' @ cxt @ '': '' @ detail))"

text \<open>
  \<open>sax->parse_error (chars_read, last_token, parse_error::create (id, chars_read,
  exception_message (format, detail, context)))\<close>
\<close>

definition binary_error ::
    "'h sax \<Rightarrow> input_format_t \<Rightarrow> nat \<Rightarrow> string \<Rightarrow> string \<Rightarrow> string \<Rightarrow> ('h, bool) rd" where
  "binary_error S fmt eid token detail cxt r =
     (case binary_exception_message fmt detail cxt of
        Inl e \<Rightarrow> Some (Inl e)
      | Inr m \<Rightarrow> rd_sax (sax_parse_error S (bin_read r) token (parse_error_at eid (bin_read r) m)) r)"

definition unexpect_eof :: "'h sax \<Rightarrow> input_format_t \<Rightarrow> string \<Rightarrow> ('h, bool) rd" where
  "unexpect_eof S fmt cxt r =
     (if bin_current r = - 1
      then binary_error S fmt 110 ''<end of file>'' ''unexpected end of input'' cxt r
      else rd_return True r)"

text \<open>\<open>get_number\<close>: \<open>n\<close> bytes in the order of the input, or none for the answer false.\<close>

primrec number_bytes :: "'h sax \<Rightarrow> input_format_t \<Rightarrow> nat \<Rightarrow> ('h, byte list option) rd" where
  "number_bytes S fmt 0 = rd_return (Some [])"
| "number_bytes S fmt (Suc n) =
     rd_bind binary_get (\<lambda>c.
     rd_bind (unexpect_eof S fmt ''number'') (\<lambda>b.
     if b then rd_bind (number_bytes S fmt n) (\<lambda>v. rd_return (map_option ((#) (word_of_int c)) v))
     else rd_return None))"

definition get_number :: "'h sax \<Rightarrow> bool \<Rightarrow> input_format_t \<Rightarrow> ('h, 'w::len word option) rd" where
  "get_number S InputIsLittleEndian fmt r =
     rd_bind (number_bytes S fmt (wsize TYPE('w))) (\<lambda>v.
     rd_return (map_option (\<lambda>bs. from_memory (bin_little_endian r)
       (if bin_little_endian r \<and> \<not> InputIsLittleEndian then rev bs else bs)) v)) r"

text \<open>
  \<open>get_string\<close> reads as many characters as it was asked for, also behind the end of the input, and
  remembers whether one was missing.
\<close>

primrec string_bytes :: "'h sax \<Rightarrow> input_format_t \<Rightarrow> nat \<Rightarrow> ('h, bool \<times> byte list) rd" where
  "string_bytes S fmt 0 = rd_return (True, [])"
| "string_bytes S fmt (Suc n) =
     rd_bind binary_get (\<lambda>c.
     rd_bind (unexpect_eof S fmt ''string'') (\<lambda>b.
     rd_bind (string_bytes S fmt n) (\<lambda>(success, s). rd_return (b \<and> success, word_of_int c # s))))"

definition binary_get_string :: "'h sax \<Rightarrow> input_format_t \<Rightarrow> nat \<Rightarrow> ('h, byte list option) rd" where
  "binary_get_string S fmt len =
     rd_bind (string_bytes S fmt len) (\<lambda>(success, s). rd_return (if success then Some s else None))"

text \<open>\<open>get_number (format, len) and get_string (format, len, result)\<close>\<close>

definition sized_string ::
    "'h sax \<Rightarrow> input_format_t \<Rightarrow> ('h, nat option) rd \<Rightarrow> ('h, byte list option) rd" where
  "sized_string S fmt len =
     rd_bind len (\<lambda>n. case n of None \<Rightarrow> rd_return None | Some k \<Rightarrow> binary_get_string S fmt k)"

definition unsigned_length ::
    "'h sax \<Rightarrow> input_format_t \<Rightarrow> 'w::len itself \<Rightarrow> ('h, nat option) rd" where
  "unsigned_length S fmt _ =
     rd_bind (get_number S False fmt) (\<lambda>n. rd_return (map_option (unat :: 'w word \<Rightarrow> nat) n))"

text \<open>\<open>get_ignore_noop\<close>\<close>

function (sequential) get_ignore_noop :: "'h binary_reader \<Rightarrow> (int \<times> 'h binary_reader) res option" where
  "get_ignore_noop r =
     (case bin_input r of
        [] \<Rightarrow> binary_get r
      | b # bs \<Rightarrow> if b = 0x4E then get_ignore_noop (r\<lparr>bin_input := bs, bin_current := 0x4E, bin_read := Suc (bin_read r)\<rparr>)
                  else binary_get r)"
  by pat_completeness auto
termination by (relation "measure (length \<circ> bin_input)") auto

declare get_ignore_noop.simps [simp del]

section \<open>Half and single precision\<close>

text \<open>A \<open>float\<close> as a \<open>double\<close>: the same number, or a quiet NaN with its payload.\<close>

definition double_of_single :: "32 word \<Rightarrow> double" where
  "double_of_single x =
     (let neg = 2 ^ 31 \<le> uint x; e = uint x div 2 ^ 23 mod 2 ^ 8; f = uint x mod 2 ^ 23
      in if e = 255
         then word_of_int (sign_bits neg + infinity_bits + (if f = 0 then 0 else 2 ^ 51 + f mod 2 ^ 22 * 2 ^ 29))
         else nearest_double neg (if e = 0 then of_int f * 2 powi (- 149) else of_int (2 ^ 23 + f) * 2 powi (e - 150)))"

text \<open>The decoder of RFC 7049 for half precision, on the 16 bits of the number.\<close>

definition double_of_half :: "int \<Rightarrow> double" where
  "double_of_half half =
     (let exponent = half div 2 ^ 10 mod 2 ^ 5; mant = half mod 2 ^ 10; neg = half div 2 ^ 15 mod 2 = 1
      in if exponent = 0 then nearest_double neg (of_int mant * 2 powi (- 24))
         else if exponent = 31
         then word_of_int (sign_bits neg + infinity_bits + (if mant = 0 then 0 else 2 ^ 51))
         else nearest_double neg (of_int (mant + 1024) * 2 powi (exponent - 25)))"

end
