(* ===== verification/Json_Cbor.thy ===== *)
theory Json_Cbor
  imports Json_Binary
begin

text \<open>
  CBOR: \<open>parse_cbor_internal\<close> and the functions below it in
  \<open>src/nlohmann/detail/input/binary_reader.hpp\<close>, and \<open>write_cbor\<close> of
  \<open>src/nlohmann/detail/output/binary_writer.hpp\<close>.
\<close>

section \<open>Reading\<close>

text \<open>
  A string; the fuel bounds the nesting of strings of indefinite length and the number of their
  chunks. Here and below the first character has been read already.
\<close>

primrec cbor_chunks :: "nat \<Rightarrow> ('h, byte list option) rd \<Rightarrow> byte list \<Rightarrow> ('h, byte list option) rd" where
  "cbor_chunks 0 chunk acc = (\<lambda>r. None)"
| "cbor_chunks (Suc n) chunk acc =
     rd_bind binary_get (\<lambda>c.
     if c = 0xFF then rd_return (Some acc)
     else rd_bind chunk (\<lambda>s. case s of None \<Rightarrow> rd_return None | Some s' \<Rightarrow> cbor_chunks n chunk (acc @ s')))"

primrec get_cbor_string :: "nat \<Rightarrow> 'h sax \<Rightarrow> ('h, byte list option) rd" where
  "get_cbor_string 0 S = (\<lambda>r. None)"
| "get_cbor_string (Suc n) S =
     rd_bind (unexpect_eof S cbor_format ''string'') (\<lambda>b.
     if \<not> b then rd_return None
     else rd_bind rd_current (\<lambda>c.
     if 0x60 \<le> c \<and> c \<le> 0x77 then binary_get_string S cbor_format (nat (c mod 0x20))
     else if c = 0x78 then sized_string S cbor_format (unsigned_length S cbor_format TYPE(8))
     else if c = 0x79 then sized_string S cbor_format (unsigned_length S cbor_format TYPE(16))
     else if c = 0x7A then sized_string S cbor_format (unsigned_length S cbor_format TYPE(32))
     else if c = 0x7B then sized_string S cbor_format (unsigned_length S cbor_format TYPE(64))
     else if c = 0x7F then cbor_chunks n (get_cbor_string n S) []
     else rd_bind (binary_error S cbor_format 113 (hex_byte c)
       (''expected length specification (0x60-0x7B) or indefinite string type (0x7F); last byte: 0x'' @ hex_byte c)
       ''string'') (\<lambda>b. rd_return (if b then Some [] else None))))"

text \<open>
  Arrays and objects, for the reader \<open>rec\<close> of their elements, whose argument is \<open>get_char\<close>. The
  length \<open>-1\<close> is the indefinite one.
\<close>

definition not_break :: "('h, bool) rd" where
  "not_break = rd_bind binary_get (\<lambda>c. rd_return (c \<noteq> 0xFF))"

definition get_cbor_array :: "nat \<Rightarrow> 'h sax \<Rightarrow> (bool \<Rightarrow> ('h, bool) rd) \<Rightarrow> u64 \<Rightarrow> ('h, bool) rd" where
  "get_cbor_array n S rec len =
     rd_and (rd_sax (sax_start_array S len))
    (rd_and (if len \<noteq> - 1 then rd_repeat (unat len) (rec True) else rd_while n not_break (rec False))
            (rd_sax (sax_end_array S)))"

definition cbor_member :: "nat \<Rightarrow> 'h sax \<Rightarrow> (bool \<Rightarrow> ('h, bool) rd) \<Rightarrow> ('h, bool) rd" where
  "cbor_member n S rec =
     rd_and (rd_with (get_cbor_string n S) (\<lambda>k. rd_sax (sax_key S k))) (rec True)"

definition get_cbor_object :: "nat \<Rightarrow> 'h sax \<Rightarrow> (bool \<Rightarrow> ('h, bool) rd) \<Rightarrow> u64 \<Rightarrow> ('h, bool) rd" where
  "get_cbor_object n S rec len =
     rd_and (rd_sax (sax_start_object S len))
    (rd_and (if len \<noteq> - 1 then rd_repeat (unat len) (rd_bind binary_get (\<lambda>_. cbor_member n S rec))
             else rd_while n not_break (cbor_member n S rec))
            (rd_sax (sax_end_object S)))"

text \<open>The cases of \<open>parse_cbor_internal\<close> for the character \<open>c\<close>.\<close>

definition cbor_half :: "'h sax \<Rightarrow> ('h, bool) rd" where
  "cbor_half S =
     rd_bind binary_get (\<lambda>byte1_raw.
     rd_and (unexpect_eof S cbor_format ''number'') (
     rd_bind binary_get (\<lambda>byte2_raw.
     rd_and (unexpect_eof S cbor_format ''number'') (
     let half = byte1_raw mod 256 * 256 + byte2_raw mod 256
     in rd_sax (sax_number_float S (double_of_half half) [])))))"

definition parse_cbor_value :: "nat \<Rightarrow> 'h sax \<Rightarrow> (bool \<Rightarrow> ('h, bool) rd) \<Rightarrow> int \<Rightarrow> ('h, bool) rd" where
  "parse_cbor_value n S rec c =
     (if c = - 1 then unexpect_eof S cbor_format ''value''
      else if 0 \<le> c \<and> c \<le> 0x17 then rd_sax (sax_number_unsigned S (word_of_int c))
      else if c = 0x18 then rd_with (get_number S False cbor_format) (\<lambda>n :: byte. rd_sax (sax_number_unsigned S (ucast n)))
      else if c = 0x19 then rd_with (get_number S False cbor_format) (\<lambda>n :: u16. rd_sax (sax_number_unsigned S (ucast n)))
      else if c = 0x1A then rd_with (get_number S False cbor_format) (\<lambda>n :: u32. rd_sax (sax_number_unsigned S (ucast n)))
      else if c = 0x1B then rd_with (get_number S False cbor_format) (\<lambda>n :: u64. rd_sax (sax_number_unsigned S n))
      else if 0x20 \<le> c \<and> c \<le> 0x37 then rd_sax (sax_number_integer S (word_of_int (0x20 - 1 - c)))
      else if c = 0x38 then rd_with (get_number S False cbor_format) (\<lambda>n :: byte. rd_sax (sax_number_integer S (- 1 - ucast n)))
      else if c = 0x39 then rd_with (get_number S False cbor_format) (\<lambda>n :: u16. rd_sax (sax_number_integer S (- 1 - ucast n)))
      else if c = 0x3A then rd_with (get_number S False cbor_format) (\<lambda>n :: u32. rd_sax (sax_number_integer S (- 1 - ucast n)))
      else if c = 0x3B then rd_with (get_number S False cbor_format) (\<lambda>n :: u64. rd_sax (sax_number_integer S (- 1 - n)))
      else if 0x60 \<le> c \<and> c \<le> 0x7B \<or> c = 0x7F
      then rd_with (get_cbor_string n S) (\<lambda>s. rd_sax (sax_string S s))
      else if 0x80 \<le> c \<and> c \<le> 0x97 then get_cbor_array n S rec (word_of_int (c mod 0x20))
      else if c = 0x98 then rd_with (get_number S False cbor_format) (\<lambda>l :: byte. get_cbor_array n S rec (ucast l))
      else if c = 0x99 then rd_with (get_number S False cbor_format) (\<lambda>l :: u16. get_cbor_array n S rec (ucast l))
      else if c = 0x9A then rd_with (get_number S False cbor_format) (\<lambda>l :: u32. get_cbor_array n S rec (ucast l))
      else if c = 0x9B then rd_with (get_number S False cbor_format) (\<lambda>l :: u64. get_cbor_array n S rec l)
      else if c = 0x9F then get_cbor_array n S rec (- 1)
      else if 0xA0 \<le> c \<and> c \<le> 0xB7 then get_cbor_object n S rec (word_of_int (c mod 0x20))
      else if c = 0xB8 then rd_with (get_number S False cbor_format) (\<lambda>l :: byte. get_cbor_object n S rec (ucast l))
      else if c = 0xB9 then rd_with (get_number S False cbor_format) (\<lambda>l :: u16. get_cbor_object n S rec (ucast l))
      else if c = 0xBA then rd_with (get_number S False cbor_format) (\<lambda>l :: u32. get_cbor_object n S rec (ucast l))
      else if c = 0xBB then rd_with (get_number S False cbor_format) (\<lambda>l :: u64. get_cbor_object n S rec l)
      else if c = 0xBF then get_cbor_object n S rec (- 1)
      else if c = 0xF4 then rd_sax (sax_boolean S False)
      else if c = 0xF5 then rd_sax (sax_boolean S True)
      else if c = 0xF6 then rd_sax (sax_null S)
      else if c = 0xF9 then cbor_half S
      else if c = 0xFA then rd_with (get_number S False cbor_format) (\<lambda>n :: u32. rd_sax (sax_number_float S (double_of_single n) []))
      else if c = 0xFB then rd_with (get_number S False cbor_format) (\<lambda>n :: u64. rd_sax (sax_number_float S n []))
      else binary_error S cbor_format 112 (hex_byte c) (''invalid byte: 0x'' @ hex_byte c) ''value'')"

primrec parse_cbor_internal :: "nat \<Rightarrow> 'h sax \<Rightarrow> bool \<Rightarrow> ('h, bool) rd" where
  "parse_cbor_internal 0 S get_char = (\<lambda>r. None)"
| "parse_cbor_internal (Suc n) S get_char =
     rd_bind (if get_char then binary_get else rd_current) (parse_cbor_value n S (parse_cbor_internal n S))"

section \<open>Writing\<close>

text \<open>
  The control byte with what it counts: up to 0x17 in the byte \<open>base\<close> itself, larger ones behind
  \<open>base\<close> + 0x18 to \<open>base\<close> + 0x1B.
\<close>

definition cbor_head :: "bool \<Rightarrow> byte \<Rightarrow> nat \<Rightarrow> byte list" where
  "cbor_head le base N =
     (if N \<le> 0x17 then write_number le False (base + of_nat N)
      else if N \<le> 0xFF then (base + 0x18) # write_number le False (of_nat N :: byte)
      else if N \<le> 0xFFFF then (base + 0x19) # write_number le False (of_nat N :: u16)
      else if N \<le> 0xFFFFFFFF then (base + 0x1A) # write_number le False (of_nat N :: u32)
      else if N \<le> 0xFFFFFFFFFFFFFFFF then (base + 0x1B) # write_number le False (of_nat N :: u64)
      else [])"

definition cbor_string :: "bool \<Rightarrow> byte list \<Rightarrow> byte list" where
  "cbor_string le s = cbor_head le 0x60 (length s) @ s"

fun write_cbor :: "bool \<Rightarrow> json \<Rightarrow> byte list" where
  "write_cbor le JNull = [0xF6]"
| "write_cbor le (JBoolean b) = [if b then 0xF5 else 0xF4]"
| "write_cbor le (JInteger n) =
     (if 0 \<le> sint n then cbor_head le 0 (nat (sint n)) else cbor_head le 0x20 (nat (- 1 - sint n)))"
| "write_cbor le (JUnsigned n) = cbor_head le 0 (unat n)"
| "write_cbor le (JFloat x) = 0xFB # write_number le False x"
| "write_cbor le (JString s) = cbor_string le s"
| "write_cbor le (JArray xs) = cbor_head le 0x80 (length xs) @ concat (map (write_cbor le) xs)"
| "write_cbor le (JObject m) =
     cbor_head le 0xA0 (length m) @ concat (map (\<lambda>(k, v). cbor_string le k @ write_cbor le v) m)"
| "write_cbor le JDiscarded = []"

end
