(* ===== verification/Json_Binary_Rules.thy ===== *)
theory Json_Binary_Rules
  imports Json_Binary Json_Roundtrip
begin

text \<open>
  Rules for the readers of the binary formats: sequencing, numbers and strings that are in the input,
  and the loops over the elements of arrays and the members of objects, with the DOM parser as the
  handler.
\<close>

section \<open>Sequencing\<close>

lemma rd_bind_return [simp]: "rd_bind (rd_return x) k = k x"
  by (rule ext) (simp add: rd_bind_def rd_return_def)

lemma rd_bind_assoc: "rd_bind (rd_bind m f) g = rd_bind m (\<lambda>x. rd_bind (f x) g)"
  by (rule ext) (simp add: rd_bind_def split: option.splits sum.splits)

lemma rd_bind_ok: "m r = Some (Inr (x, r')) \<Longrightarrow> rd_bind m k r = k x r'"
  by (simp add: rd_bind_def)

lemma rd_current_bind [simp]: "rd_bind rd_current k r = k (bin_current r) r"
  by (simp add: rd_bind_def rd_current_def)

text \<open>The reader with the input that is left behind the next byte.\<close>

definition fed :: "byte \<Rightarrow> byte list \<Rightarrow> 'h binary_reader \<Rightarrow> 'h binary_reader" where
  "fed b rest r = r\<lparr>bin_input := rest, bin_current := uint b, bin_read := Suc (bin_read r)\<rparr>"

lemma fed_simps [simp]:
  "bin_input (fed b rest r) = rest" "bin_current (fed b rest r) = uint b"
  "bin_sax (fed b rest r) = bin_sax r" "bin_little_endian (fed b rest r) = bin_little_endian r"
  "bin_read (fed b rest r) = Suc (bin_read r)"
  by (simp_all add: fed_def)

lemma get_bind: "bin_input r = b # rest \<Longrightarrow> rd_bind binary_get k r = k (uint b) (fed b rest r)"
  by (simp add: rd_bind_def binary_get_def fed_def)

lemma uint_byte_range: "0 \<le> uint (b :: byte)" "uint b < 256" "uint b \<noteq> - 1"
proof -
  show "0 \<le> uint b" by simp
  then show "uint b \<noteq> - 1" by linarith
  show "uint b < 256" using uint_bounded [of b] by simp
qed

lemma unexpect_eof_bind [simp]:
  "bin_current r \<noteq> - 1 \<Longrightarrow> rd_bind (unexpect_eof S fmt cxt) k r = k True r"
  by (simp add: rd_bind_def unexpect_eof_def rd_return_def)

lemma unexpect_eof_and: "bin_current r \<noteq> - 1 \<Longrightarrow> rd_and (unexpect_eof S fmt cxt) k r = k r"
  by (simp add: rd_and_def)

lemma rd_and_with: "m r = Some (Inr (Some x, r')) \<Longrightarrow> rd_and (rd_with m f) k r = rd_and (f x) k r'"
  by (simp add: rd_and_def rd_with_def rd_bind_def)

lemma noop_skipped:
  "bin_input r = b # rest \<Longrightarrow> b \<noteq> 0x4E \<Longrightarrow> rd_bind get_ignore_noop k r = k (uint b) (fed b rest r)"
  by (simp add: rd_bind_def get_ignore_noop.simps binary_get_def fed_def)

section \<open>Numbers and strings\<close>

text \<open>From \<open>r\<close> to \<open>r'\<close> only input was read, up to \<open>rest\<close>.\<close>

definition left_at :: "'h binary_reader \<Rightarrow> byte list \<Rightarrow> 'h binary_reader \<Rightarrow> bool" where
  "left_at r rest r' \<longleftrightarrow>
     bin_input r' = rest \<and> bin_sax r' = bin_sax r \<and> bin_little_endian r' = bin_little_endian r"

lemma left_at_fed: "left_at (fed b bs r) rest r' \<Longrightarrow> left_at r rest r'"
  by (simp add: left_at_def)

lemma left_at_trans: "left_at r bs r1 \<Longrightarrow> left_at r1 rest r' \<Longrightarrow> left_at r rest r'"
  by (simp add: left_at_def)

lemma number_bytes_ok:
  "bin_input r = bs @ rest \<Longrightarrow>
     \<exists>r'. number_bytes S fmt (length bs) r = Some (Inr (Some bs, r')) \<and> left_at r rest r'"
proof (induction bs arbitrary: r)
  case (Cons b bs)
  obtain r' where r': "number_bytes S fmt (length bs) (fed b (bs @ rest) r) = Some (Inr (Some bs, r'))"
    "left_at (fed b (bs @ rest) r) rest r'"
    using Cons.IH [of "fed b (bs @ rest) r"] by auto
  have "number_bytes S fmt (length (b # bs)) r = Some (Inr (Some (b # bs), r'))"
    using Cons.prems uint_byte_range(3) [of b] r'(1)
    by (simp add: get_bind rd_bind_ok rd_return_def)
  then show ?case using r'(2) left_at_fed by blast
qed (simp add: rd_return_def left_at_def)

lemma get_number_ok:
  assumes "bin_input r = write_number le ole (w :: 'w::len word) @ rest" "LENGTH('w) = 8 * wsize TYPE('w)"
    "ole \<longrightarrow> le = bin_little_endian r"
  shows "\<exists>r'. get_number S ole fmt r = Some (Inr (Some w, r')) \<and> left_at r rest r'"
proof -
  obtain r' where r': "number_bytes S fmt (wsize TYPE('w)) r = Some (Inr (Some (write_number le ole w), r'))"
    "left_at r rest r'"
    using number_bytes_ok [OF assms(1), of S fmt] by auto
  have "from_memory (bin_little_endian r)
      (if bin_little_endian r \<and> \<not> ole then rev (write_number le ole w) else write_number le ole w) = w"
    using assms(3) bytes_value_of_word [OF assms(2), of w]
    by (auto simp: from_memory_def write_number_def to_memory_def Let_def)
  then show ?thesis
    using r' by (simp add: get_number_def rd_bind_ok rd_return_def)
qed

lemma wsize_simps [simp]: "wsize TYPE(8) = 1" "wsize TYPE(16) = 2" "wsize TYPE(32) = 4" "wsize TYPE(64) = 8"
  by (simp_all add: wsize_def)

text \<open>The number \<open>N\<close> read as an unsigned number of its width.\<close>

lemma unsigned_number_ok:
  assumes "bin_input r = write_number le False (of_nat N :: 'w::len word) @ rest" "N < 2 ^ LENGTH('w)"
    "LENGTH('w) = 8 * wsize TYPE('w)"
  shows "\<exists>r' w. get_number S False fmt r = Some (Inr (Some (w :: 'w word), r')) \<and> unat w = N \<and> left_at r rest r'"
proof -
  have "unat (of_nat N :: 'w word) = N"
    using assms(2) by (simp add: unsigned_of_nat take_bit_nat_eq_self)
  then show ?thesis using get_number_ok [OF assms(1,3)] by blast
qed

lemma write_byte [simp]: "write_number le ole (b :: byte) = [b]"
  by (simp add: write_number_def to_memory_def Let_def)

lemma string_bytes_ok:
  "bin_input r = s @ rest \<Longrightarrow>
     \<exists>r'. string_bytes S fmt (length s) r = Some (Inr ((True, s), r')) \<and> left_at r rest r'"
proof (induction s arbitrary: r)
  case (Cons b s)
  obtain r' where r': "string_bytes S fmt (length s) (fed b (s @ rest) r) = Some (Inr ((True, s), r'))"
    "left_at (fed b (s @ rest) r) rest r'"
    using Cons.IH [of "fed b (s @ rest) r"] by auto
  have "string_bytes S fmt (length (b # s)) r = Some (Inr ((True, b # s), r'))"
    using Cons.prems uint_byte_range(3) [of b] r'(1)
    by (simp add: get_bind rd_bind_ok rd_return_def)
  then show ?case using r'(2) left_at_fed by blast
qed (simp add: rd_return_def left_at_def)

lemma get_string_ok:
  assumes "bin_input r = s @ rest" "n = length s"
  shows "\<exists>r'. binary_get_string S fmt n r = Some (Inr (Some s, r')) \<and> left_at r rest r'"
  using string_bytes_ok [OF assms(1), of S fmt] assms(2)
  by (auto simp: binary_get_string_def rd_bind_ok rd_return_def)

section \<open>Building a value\<close>

text \<open>
  What is left of the input and where the DOM parser stands: before a value in the context \<open>fs\<close>, in an
  open container, behind a value. \<open>L\<close> is the limit of the containers.
\<close>

type_synonym rd_state = "dom binary_reader \<Rightarrow> bool"

definition reading :: "u64 \<Rightarrow> bool \<Rightarrow> byte list \<Rightarrow> rd_state" where
  "reading L le bs r \<longleftrightarrow> container_max_size (bin_sax r) = L \<and> bin_little_endian r = le \<and> bin_input r = bs"

definition at_hole :: "u64 \<Rightarrow> bool \<Rightarrow> frame list \<Rightarrow> byte list \<Rightarrow> rd_state" where
  "at_hole L le fs bs r \<longleftrightarrow> reading L le bs r \<and> dom_hole fs (bin_sax r)"

definition at_open :: "u64 \<Rightarrow> bool \<Rightarrow> frame list \<Rightarrow> json \<Rightarrow> byte list \<Rightarrow> rd_state" where
  "at_open L le fs v bs r \<longleftrightarrow> reading L le bs r \<and> dom_open fs v (bin_sax r)"

definition at_filled :: "u64 \<Rightarrow> bool \<Rightarrow> frame list \<Rightarrow> json \<Rightarrow> byte list \<Rightarrow> rd_state" where
  "at_filled L le fs v bs r \<longleftrightarrow> reading L le bs r \<and> dom_filled fs v (bin_sax r)"

lemmas at_defs = at_hole_def at_open_def at_filled_def reading_def

text \<open>The function answers true and leads to a state.\<close>

definition leads :: "(dom, bool) rd \<Rightarrow> dom binary_reader \<Rightarrow> rd_state \<Rightarrow> bool" where
  "leads m r P \<longleftrightarrow> (\<exists>r'. m r = Some (Inr (True, r')) \<and> P r')"

lemma leads_and: "leads m r P \<Longrightarrow> (\<And>r'. P r' \<Longrightarrow> leads k r' Q) \<Longrightarrow> leads (rd_and m k) r Q"
  by (auto simp: leads_def rd_and_def rd_bind_def)

lemma leads_return [simp]: "leads (rd_return True) r P \<longleftrightarrow> P r"
  by (simp add: leads_def rd_return_def)

lemma leads_if: "leads (if c then m else m') r P \<longleftrightarrow> (if c then leads m r P else leads m' r P)"
  by simp

lemma at_fed:
  "at_hole L le fs (b # bs) r \<Longrightarrow> at_hole L le fs bs (fed b bs r)"
  "at_open L le fs v (b # bs) r \<Longrightarrow> at_open L le fs v bs (fed b bs r)"
  by (simp_all add: at_defs)

lemma at_left:
  "at_hole L le fs bs r \<Longrightarrow> left_at r rest r' \<Longrightarrow> at_hole L le fs rest r'"
  "at_open L le fs v bs r \<Longrightarrow> left_at r rest r' \<Longrightarrow> at_open L le fs v rest r'"
  by (simp_all add: at_defs left_at_def)

lemma sax_value_leads:
  "at_hole L le fs bs r \<Longrightarrow> leads (rd_sax (dom_value v)) r (at_filled L le fs v bs)"
  using dom_value_hole [of fs "bin_sax r" v]
  by (auto simp: leads_def rd_sax_def at_defs same_options_def)

lemma sax_start_leads:
  "at_hole L le fs bs r \<Longrightarrow> len = - 1 \<or> len \<le> L \<Longrightarrow> leads (rd_sax (dom_start v what len)) r (at_open L le fs v bs)"
  using dom_start_sized [of fs "bin_sax r" len v what]
  by (auto simp: leads_def rd_sax_def at_defs same_options_def)

lemma sax_end_leads:
  "at_open L le fs v bs r \<Longrightarrow> leads (rd_sax dom_end) r (at_filled L le fs v bs)"
  using dom_end_open [of fs v "bin_sax r"]
  by (auto simp: leads_def rd_sax_def at_defs same_options_def)

lemma sax_key_leads:
  "at_open L le fs (JObject m) bs r \<Longrightarrow> map_ok m \<Longrightarrow>
     leads (rd_sax (dom_key k)) r (at_hole L le (ObjectFrame (map_at k m) k # fs) bs)"
  using dom_key_open [of fs m "bin_sax r" k]
  by (auto simp: leads_def rd_sax_def at_defs same_options_def)

lemma dom_handler_simps [simp]:
  "sax_null dom_sax = dom_value JNull" "sax_boolean dom_sax b = dom_value (JBoolean b)"
  "sax_number_integer dom_sax n = dom_value (JInteger n)"
  "sax_number_unsigned dom_sax m = dom_value (JUnsigned m)"
  "sax_number_float dom_sax x t = dom_value (JFloat x)" "sax_string dom_sax s = dom_value (JString s)"
  "sax_start_object dom_sax = dom_start (JObject []) ''object''" "sax_key dom_sax = dom_key"
  "sax_end_object dom_sax = dom_end"
  "sax_start_array dom_sax = dom_start (JArray []) ''array''" "sax_end_array dom_sax = dom_end"
  "sax_parse_error dom_sax = dom_parse_error"
  by (simp_all add: dom_sax_def)

lemma rd_and_assoc: "rd_and (rd_and a b) c = rd_and a (rd_and b c)"
proof -
  have "rd_bind (if x then b else rd_return False) (\<lambda>y. if y then c else rd_return False) =
      (if x then rd_bind b (\<lambda>y. if y then c else rd_return False) else rd_return False)" for x
    by simp
  then show ?thesis by (simp add: rd_and_def rd_bind_assoc)
qed

section \<open>Loops\<close>

text \<open>\<open>m\<close> reads the value \<open>v\<close> from the bytes \<open>bs\<close>, in every context.\<close>

definition reads_as :: "u64 \<Rightarrow> bool \<Rightarrow> (dom, bool) rd \<Rightarrow> byte list \<Rightarrow> json \<Rightarrow> bool" where
  "reads_as L le m bs v \<longleftrightarrow>
     (\<forall>fs rest r. at_hole L le fs (bs @ rest) r \<longrightarrow> leads m r (at_filled L le fs v rest))"

lemma reads_asD: "reads_as L le m bs v \<Longrightarrow> at_hole L le fs (bs @ rest) r \<Longrightarrow> leads m r (at_filled L le fs v rest)"
  by (simp add: reads_as_def)

lemma hole_array: "at_open L le fs (JArray ys) bs r \<Longrightarrow> at_hole L le (ArrayFrame ys # fs) bs r"
  by (simp add: at_defs)

lemma filled_open: "at_filled L le (f # fs) v bs = at_open L le fs (fill f v) bs"
  by (rule ext) (simp add: at_defs)

lemma repeat_elements:
  assumes "\<forall>v \<in> set xs. reads_as L le m (w v) (val v)"
    and "at_open L le fs (JArray ys) (concat (map w xs) @ rest) r"
  shows "leads (rd_repeat (length xs) m) r (at_open L le fs (JArray (ys @ map val xs)) rest)"
  using assms
proof (induction xs arbitrary: ys r)
  case (Cons v xs)
  have "at_hole L le (ArrayFrame ys # fs) (w v @ concat (map w xs) @ rest) r"
    using Cons.prems(2) hole_array by auto
  then have "leads m r (at_filled L le (ArrayFrame ys # fs) (val v) (concat (map w xs) @ rest))"
    using Cons.prems(1) reads_asD by (metis list.set_intros(1))
  then have v: "leads m r (at_open L le fs (JArray (ys @ [val v])) (concat (map w xs) @ rest))"
    unfolding filled_open by simp
  have "leads (rd_repeat (length xs) m) r' (at_open L le fs (JArray ((ys @ [val v]) @ map val xs)) rest)"
    if "at_open L le fs (JArray (ys @ [val v])) (concat (map w xs) @ rest) r'" for r'
    using Cons.IH [OF _ that] Cons.prems(1) by simp
  then show ?case using leads_and [OF v] by simp
qed simp

text \<open>An object with members added.\<close>

definition with_members :: "(byte list \<times> json) list \<Rightarrow> (byte list \<times> json) list \<Rightarrow> (byte list \<times> json) list" where
  "with_members = foldl (\<lambda>m (k, v). map_assign k v (map_at k m))"

lemma with_members_simps [simp]: "with_members m [] = m"
  "with_members m ((k, v) # ms) = with_members (map_assign k v (map_at k m)) ms"
  by (simp_all add: with_members_def)

text \<open>\<open>m\<close> reads a member: its key and its value.\<close>

definition member_as :: "u64 \<Rightarrow> bool \<Rightarrow> (dom, bool) rd \<Rightarrow> byte list \<Rightarrow> byte list \<Rightarrow> json \<Rightarrow> bool" where
  "member_as L le m bs k v \<longleftrightarrow>
     (\<forall>fs obj rest r. map_ok obj \<longrightarrow> at_open L le fs (JObject obj) (bs @ rest) r \<longrightarrow>
        leads m r (at_open L le fs (JObject (map_assign k v (map_at k obj))) rest))"

lemma member_asI:
  assumes "\<And>fs obj rest r. map_ok obj \<Longrightarrow> at_open L le fs (JObject obj) (bs @ rest) r \<Longrightarrow>
      leads key r (at_hole L le (ObjectFrame (map_at k obj) k # fs) (vs @ rest))"
    and "reads_as L le m vs v"
  shows "member_as L le (rd_and key m) bs k v"
  unfolding member_as_def
proof (intro allI impI)
  fix fs obj rest r
  assume "map_ok obj" "at_open L le fs (JObject obj) (bs @ rest) r"
  then have "leads key r (at_hole L le (ObjectFrame (map_at k obj) k # fs) (vs @ rest))" by (rule assms(1))
  moreover have "leads m r' (at_open L le fs (JObject (map_assign k v (map_at k obj))) rest)"
    if "at_hole L le (ObjectFrame (map_at k obj) k # fs) (vs @ rest) r'" for r'
    using reads_asD [OF assms(2) that] unfolding filled_open by simp
  ultimately show "leads (rd_and key m) r (at_open L le fs (JObject (map_assign k v (map_at k obj))) rest)"
    by (rule leads_and)
qed

lemma repeat_members:
  assumes "\<forall>(k, v) \<in> set ms. member_as L le m (w k v) k (val v)" "map_ok obj"
    and "at_open L le fs (JObject obj) (concat (map (\<lambda>(k, v). w k v) ms) @ rest) r"
  shows "leads (rd_repeat (length ms) m) r
    (at_open L le fs (JObject (with_members obj (map (\<lambda>(k, v). (k, val v)) ms))) rest)"
  using assms
proof (induction ms arbitrary: obj r)
  case (Cons kv ms)
  obtain k v where kv: "kv = (k, v)" by (cases kv)
  let ?obj = "map_assign k (val v) (map_at k obj)"
  let ?w = "concat (map (\<lambda>(k, v). w k v) ms) @ rest"
  have v: "leads m r (at_open L le fs (JObject ?obj) ?w)"
    using Cons.prems kv unfolding member_as_def by auto
  have "map_ok ?obj" using map_ok_map_at Cons.prems(2) by simp
  then have "leads (rd_repeat (length ms) m) r'
      (at_open L le fs (JObject (with_members ?obj (map (\<lambda>(k, v). (k, val v)) ms))) rest)"
    if "at_open L le fs (JObject ?obj) ?w r'" for r'
    using Cons.IH [OF _ _ that] Cons.prems(1) by simp
  then show ?case using leads_and [OF v] kv by simp
qed simp

lemma with_members_map_ok:
  "map_ok m \<Longrightarrow> with_members [] (map (\<lambda>(k, v). (k, val v)) m) = map (\<lambda>(k, v). (k, val v)) m"
proof -
  assume "map_ok m"
  then have "map_ok (map (\<lambda>(k, v). (k, val v)) m)"
    by (simp add: map_ok_def case_prod_unfold comp_def)
  then show ?thesis
    using object_of_ok by (simp add: with_members_def object_of_def)
qed

lemma uint_not_eof: "uint (w :: 'w::len word) \<noteq> - 1"
proof -
  have "0 \<le> uint w" by simp
  then show ?thesis by linarith
qed

text \<open>Numbers of 64 bits written with fewer.\<close>

lemma uint_ucast_down: "uint (n :: u64) < 2 ^ LENGTH('w) \<Longrightarrow> uint (ucast n :: 'w::len word) = uint n"
  by (simp add: unsigned_ucast_eq unsigned_take_bit_eq take_bit_int_eq_self)

lemma ucast_back: "unat (n :: u64) < 2 ^ LENGTH('w) \<Longrightarrow> ucast (ucast n :: 'w::len word) = n"
proof -
  assume "unat n < 2 ^ LENGTH('w)"
  then have "int (unat n) < int (2 ^ LENGTH('w))" by (simp only: of_nat_less_iff)
  then have "uint n < 2 ^ LENGTH('w)" by (simp add: uint_nat [symmetric])
  then have "ucast (ucast n :: 'w word) = (word_of_int (uint n) :: u64)"
    by (simp only: ucast_eq [of "ucast n :: 'w word"] uint_ucast_down)
  then show ?thesis by simp
qed

lemma scast_back:
  assumes "- (2 ^ (LENGTH('w) - 1)) \<le> sint (n :: u64)" "sint n < 2 ^ (LENGTH('w) - 1)" "LENGTH('w) \<le> 64" shows "scast (ucast n :: 'w::len word) = n"
proof -
  have "(ucast n :: 'w word) = word_of_int (sint n)" using assms(3) by transfer (simp add: take_bit_signed_take_bit)
  then have "sint (ucast n :: 'w word) = signed_take_bit (LENGTH('w) - 1) (sint n)" by (simp only: sint_sbintrunc')
  also have "\<dots> = sint n" using assms by (intro signed_take_bit_int_eq_self) auto
  finally have "sint (ucast n :: 'w word) = sint n" .
  then have "word_of_int (sint (ucast n :: 'w word)) = (word_of_int (sint n) :: u64)" by (simp only:)
  then show ?thesis by simp
qed
lemma of_nat_back: "N < 2 ^ LENGTH('w) \<Longrightarrow> ucast (of_nat N :: 'w::len word) = (of_nat N :: u64)"
  by (simp add: ucast_eq unsigned_of_nat take_bit_nat_eq_self)

lemma sint_of_nat: "N < 2 ^ (LENGTH('w) - 1) \<Longrightarrow> sint (of_nat N :: 'w::len word) = int N"
proof -
  assume "N < 2 ^ (LENGTH('w) - 1)"
  then have "int N < int (2 ^ (LENGTH('w) - 1))" by (simp only: of_nat_less_iff)
  then have "signed_take_bit (LENGTH('w) - 1) (int N) = int N" by (intro signed_take_bit_int_eq_self) (auto intro: order_trans [of _ 0])
  then show ?thesis by (simp add: signed_of_nat)
qed

lemma scast_of_nat: "N < 2 ^ (LENGTH('w) - 1) \<Longrightarrow> scast (of_nat N :: 'w::len word) = (of_nat N :: u64)"
  by (simp add: scast_eq sint_of_nat)

section \<open>Control bytes\<close>

text \<open>Functions that go on behind a control byte, alone or with a number behind it.\<close>

lemma of_nat_unat64: "of_nat (unat (w :: u64)) = w" "of_nat (unat (x :: byte)) = (ucast x :: u64)"
  "of_nat (unat (y :: u16)) = (ucast y :: u64)" "of_nat (unat (z :: u32)) = (ucast z :: u64)"
  by simp_all

lemma number_follows_order:
  assumes i: "bin_input r = write_number le ole (w :: 'w::len word) @ rest" and w: "LENGTH('w) = 8 * wsize TYPE('w)"
    and o: "ole \<longrightarrow> le = bin_little_endian r"
    and m: "m r = rd_bind (get_number S ole fmt) (\<lambda>v. case v of None \<Rightarrow> no | Some w \<Rightarrow> f (w :: 'w word)) r"
  shows "\<exists>r'. left_at r rest r' \<and> m r = f w r'"
  using get_number_ok [of r le ole w rest S fmt] i w o m by (auto simp: rd_bind_ok)

lemmas number_follows = number_follows_order [where ole = False, simplified]

lemma wide_head:
  fixes F :: "int \<Rightarrow> ('h, 'x) rd"
  assumes i: "bin_input r = b # write_number le False (of_nat N :: 'w::len word) @ rest"
    and w: "N < 2 ^ LENGTH('w)" "LENGTH('w) = 8 * wsize TYPE('w)" and b: "uint b = c"
    and F: "\<And>r. bin_current r = c \<Longrightarrow> F c r =
        rd_bind (get_number S False fmt) (\<lambda>v. case v of None \<Rightarrow> no | Some w \<Rightarrow> f (unat (w :: 'w word))) r"
  shows "\<exists>r'. left_at r rest r' \<and> rd_bind binary_get F r = f N r'"
proof -
  let ?r = "fed b (write_number le False (of_nat N :: 'w word) @ rest) r"
  have "unat (of_nat N :: 'w word) = N" using w(1) by (simp add: unsigned_of_nat take_bit_nat_eq_self)
  then obtain r' where "left_at ?r rest r'" "F c ?r = f N r'"
    using number_follows [of ?r le "of_nat N :: 'w word" rest "F c" S fmt no "\<lambda>w. f (unat w)"] F [of ?r] b w(2) by auto
  then show ?thesis using get_bind [OF i, of F] b left_at_fed by metis
qed

lemma short_head:
  assumes "bin_input r = b # rest" "uint b = c" "\<And>r. bin_current r = c \<Longrightarrow> F c r = g r"
  shows "\<exists>r'. left_at r rest r' \<and> rd_bind binary_get F r = g r'"
  using get_bind [OF assms(1), of F] assms(2) assms(3) [of "fed b rest r"]
  by (intro exI [of _ "fed b rest r"]) (simp add: left_at_def)

section \<open>Values\<close>

text \<open>
  Containers of at most \<open>c\<close> elements, strings and keys shorter than \<open>s\<close>, and nothing discarded; objects are
  maps.
\<close>

fun sizes_ok :: "nat \<Rightarrow> nat \<Rightarrow> json \<Rightarrow> bool" where
  "sizes_ok c s (JObject m) \<longleftrightarrow> map_ok m \<and> length m \<le> c \<and> (\<forall>(k, v) \<in> set m. length k < s \<and> sizes_ok c s v)"
| "sizes_ok c s (JArray xs) \<longleftrightarrow> length xs \<le> c \<and> (\<forall>v \<in> set xs. sizes_ok c s v)"
| "sizes_ok c s (JString t) \<longleftrightarrow> length t < s"
| "sizes_ok c s JDiscarded \<longleftrightarrow> False"
| "sizes_ok c s _ \<longleftrightarrow> True"

lemmas sized_simps = sized_string_def unsigned_length_def rd_bind_assoc case_map_option comp_def

section \<open>Whole values\<close>

lemma value_leads:
  assumes "at_hole L le fs bs r" "left_at r rest r'" "m r = rd_sax (dom_value v) r'"
  shows "leads m r (at_filled L le fs v rest)"
  using sax_value_leads [OF at_left(1) [OF assms(1,2)], of v] assms(3) by (simp add: leads_def)

lemma array_leads:
  assumes "at_hole L le fs (concat (map w xs) @ rest) r" "\<forall>v \<in> set xs. reads_as L le m (w v) (val v)"
    "len = - 1 \<or> len \<le> L"
  shows "leads (rd_and (rd_sax (dom_start (JArray []) what len)) (rd_and (rd_repeat (length xs) m) (rd_sax dom_end))) r
    (at_filled L le fs (JArray (map val xs)) rest)"
  using repeat_elements [OF assms(2), where ys = "[]"]
  by (intro leads_and [OF sax_start_leads [OF assms(1,3)]] leads_and [of "rd_repeat (length xs) m"] sax_end_leads) auto

lemma object_leads:
  assumes "at_hole L le fs (concat (map (\<lambda>(k, v). w k v) ms) @ rest) r"
    "\<forall>(k, v) \<in> set ms. member_as L le m (w k v) k (val v)" "len = - 1 \<or> len \<le> L" "map_ok ms"
  shows "leads (rd_and (rd_sax (dom_start (JObject []) what len)) (rd_and (rd_repeat (length ms) m) (rd_sax dom_end))) r
    (at_filled L le fs (JObject (map (\<lambda>(k, v). (k, val v)) ms)) rest)"
  using repeat_members [OF assms(2), where obj = "[]"] with_members_map_ok [OF assms(4), of val]
  by (intro leads_and [OF sax_start_leads [OF assms(1,3)]] leads_and [of "rd_repeat (length ms) m"] sax_end_leads)
    (auto simp: map_ok_def)

text \<open>A key that is a string in the input.\<close>

lemma key_leads:
  assumes "at_open L le fs (JObject obj) bs r" "map_ok obj" "left_at r rest r'" "m r = Some (Inr (Some k, r'))"
  shows "leads (rd_with m (\<lambda>k. rd_sax (dom_key k))) r (at_hole L le (ObjectFrame (map_at k obj) k # fs) rest)"
proof -
  have "at_open L le fs (JObject obj) rest r'" using at_left(2) [OF assms(1,3)] .
  then have "leads (rd_sax (dom_key k)) r' (at_hole L le (ObjectFrame (map_at k obj) k # fs) rest)"
    using sax_key_leads assms(2) by blast
  then show ?thesis using assms(4) by (simp add: leads_def rd_with_def rd_bind_ok)
qed

lemma length_le_concat: "x \<in> set xs \<Longrightarrow> length (f x) \<le> length (concat (map f xs))"
  by (induction xs) auto

lemma count_le_concat: "(\<And>x. x \<in> set xs \<Longrightarrow> f x \<noteq> []) \<Longrightarrow> length xs \<le> length (concat (map f xs))"
proof (induction xs)
  case (Cons x xs)
  have "f x \<noteq> []" "length xs \<le> length (concat (map f xs))" using Cons by simp_all
  then show ?case by (cases "f x") auto
qed simp

lemma length_word_le: "n \<le> unat L \<Longrightarrow> (of_nat n :: 'w::len word) \<le> L"
  by (metis le_unat_uoi word_le_nat_alt)

lemma length_word_unat: "n \<le> unat (L :: u64) \<Longrightarrow> unat (of_nat n :: u64) = n"
  by (rule le_unat_uoi)

lemma reads_asI:
  assumes "\<And>fs rest r. at_hole L le fs (bs @ rest) r \<Longrightarrow> leads m r (at_filled L le fs v rest)"
  shows "reads_as L le m bs v"
  using assms by (simp add: reads_as_def)

lemma hole_input: "at_hole L le fs bs r \<Longrightarrow> bin_input r = bs"
  by (simp add: at_defs)

lemma open_input: "at_open L le fs v bs r \<Longrightarrow> bin_input r = bs"
  by (simp add: at_defs)

text \<open>A reader that ends in handing over a value.\<close>

lemma value_reads:
  assumes "\<And>rest r. bin_input r = bs @ rest \<Longrightarrow> \<exists>r'. left_at r rest r' \<and> m r = rd_sax (dom_value v) r'"
  shows "reads_as L le m bs v"
proof (rule reads_asI)
  fix fs rest r
  assume h: "at_hole L le fs (bs @ rest) r"
  then obtain r' where "left_at r rest r'" "m r = rd_sax (dom_value v) r'" using assms hole_input by blast
  then show "leads m r (at_filled L le fs v rest)" using value_leads h by blast
qed

text \<open>A control byte is a value of its own, or a number follows it.\<close>

lemma byte_value_reads:
  assumes "\<And>r. bin_current r = uint b \<Longrightarrow> F (uint b) r = rd_sax (dom_value v) r"
  shows "reads_as L le (rd_bind binary_get F) [b] v"
  using assms short_head [of _ b _ "uint b" F] by (intro value_reads) auto

lemma number_value_reads:
  assumes "\<And>r. bin_current r = uint b \<Longrightarrow> F (uint b) r =
      rd_with (get_number S False fmt) (\<lambda>n :: 'w::len word. rd_sax (dom_value (f n))) r"
    "LENGTH('w) = 8 * wsize TYPE('w)"
  shows "reads_as L le (rd_bind binary_get F) (b # write_number le' False (w :: 'w word)) (f w)"
proof (rule value_reads)
  fix rest and r :: "dom binary_reader"
  assume i: "bin_input r = (b # write_number le' False w) @ rest"
  let ?r = "fed b (write_number le' False w @ rest) r"
  obtain r' where "get_number S False fmt ?r = Some (Inr (Some w, r'))" "left_at ?r rest r'"
    using get_number_ok [of ?r le' False w rest S fmt] assms(2) by auto
  then show "\<exists>r'. left_at r rest r' \<and> rd_bind binary_get F r = rd_sax (dom_value (f w)) r'"
    using i left_at_fed [of b "write_number le' False w @ rest" r rest r'] assms(1) [of ?r]
    by (auto simp: get_bind rd_with_def rd_bind_ok)
qed

text \<open>The size of a container within the limit, as a number of its own.\<close>

lemma container_size:
  assumes "n \<le> unat (L :: u64)" "L \<noteq> - 1"
  shows "unat (of_nat n :: u64) = n" "(of_nat n :: u64) \<le> L" "(of_nat n :: u64) \<noteq> - 1" "n < 2 ^ 64"
proof -
  show *: "unat (of_nat n :: u64) = n" "(of_nat n :: u64) \<le> L"
    using assms(1) length_word_unat length_word_le by auto
  then show "(of_nat n :: u64) \<noteq> - 1" using assms(2) word_order.extremum_uniqueI by fastforce
  have "unat L < 2 ^ 64" by (rule order_less_le_trans [OF unsigned_less]) simp
  then show "n < 2 ^ 64" using assms(1) by simp
qed

text \<open>Containers behind their control bytes \<open>h\<close>.\<close>

lemma array_reads:
  assumes "\<And>rest r. bin_input r = h @ rest \<Longrightarrow> \<exists>r'. left_at r rest r' \<and> m r =
      rd_and (rd_sax (dom_start (JArray []) what len)) (rd_and (rd_repeat (length xs) rec) (rd_sax dom_end)) r'"
    "\<forall>v \<in> set xs. reads_as L le rec (w v) (val v)" "len = - 1 \<or> len \<le> L"
  shows "reads_as L le m (h @ concat (map w xs)) (JArray (map val xs))"
proof (rule reads_asI)
  fix fs rest r
  assume at: "at_hole L le fs ((h @ concat (map w xs)) @ rest) r"
  then have "bin_input r = h @ (concat (map w xs) @ rest)" using hole_input by simp
  from assms(1) [OF this] obtain r' where r': "left_at r (concat (map w xs) @ rest) r'" "m r =
      rd_and (rd_sax (dom_start (JArray []) what len)) (rd_and (rd_repeat (length xs) rec) (rd_sax dom_end)) r'"
    by blast
  show "leads m r (at_filled L le fs (JArray (map val xs)) rest)"
    using array_leads [OF at_left(1) [OF at r'(1)] assms(2,3), of what] r'(2) by (simp add: leads_def)
qed

lemma object_reads:
  assumes "\<And>rest r. bin_input r = h @ rest \<Longrightarrow> \<exists>r'. left_at r rest r' \<and> m r =
      rd_and (rd_sax (dom_start (JObject []) what len)) (rd_and (rd_repeat (length ms) rec) (rd_sax dom_end)) r'"
    "\<forall>(k, v) \<in> set ms. member_as L le rec (w k v) k (val v)" "len = - 1 \<or> len \<le> L" "map_ok ms"
  shows "reads_as L le m (h @ concat (map (\<lambda>(k, v). w k v) ms)) (JObject (map (\<lambda>(k, v). (k, val v)) ms))"
proof (rule reads_asI)
  fix fs rest r
  let ?w = "concat (map (\<lambda>(k, v). w k v) ms)"
  assume at: "at_hole L le fs ((h @ ?w) @ rest) r"
  then have "bin_input r = h @ (?w @ rest)" using hole_input by simp
  from assms(1) [OF this] obtain r' where r': "left_at r (?w @ rest) r'" "m r =
      rd_and (rd_sax (dom_start (JObject []) what len)) (rd_and (rd_repeat (length ms) rec) (rd_sax dom_end)) r'"
    by blast
  show "leads m r (at_filled L le fs (JObject (map (\<lambda>(k, v). (k, val v)) ms)) rest)"
    using object_leads [OF at_left(1) [OF at r'(1)] assms(2-4), of what] r'(2) by (simp add: leads_def)
qed

text \<open>A key behind its control bytes, read by a function of its own.\<close>

lemma member_reads:
  assumes "\<And>rest r. bin_input r = ks @ rest \<Longrightarrow> \<exists>r'. key r = Some (Inr (Some k, r')) \<and> left_at r rest r'"
    "reads_as L le m vs v"
  shows "member_as L le (rd_and (rd_with key (\<lambda>k. rd_sax (dom_key k))) m) (ks @ vs) k v"
proof (rule member_asI [OF _ assms(2)])
  fix fs obj rest r
  assume obj: "map_ok obj" "at_open L le fs (JObject obj) ((ks @ vs) @ rest) r"
  have "bin_input r = ks @ (vs @ rest)" using open_input [OF obj(2)] by simp
  from assms(1) [OF this] show "leads (rd_with key (\<lambda>k. rd_sax (dom_key k))) r
      (at_hole L le (ObjectFrame (map_at k obj) k # fs) (vs @ rest))"
    using key_leads obj by blast
qed

lemma number_reads:
  assumes "\<And>r. m r = rd_with (get_number S False fmt) (\<lambda>n :: 'w::len word. rd_sax (dom_value (f n))) r"
    "LENGTH('w) = 8 * wsize TYPE('w)"
  shows "reads_as L le m (write_number le' False (w :: 'w word)) (f w)"
proof (rule value_reads)
  fix rest and r :: "dom binary_reader"
  assume "bin_input r = write_number le' False w @ rest"
  then show "\<exists>r'. left_at r rest r' \<and> m r = rd_sax (dom_value (f w)) r'"
    using number_follows [of r le' w rest m S fmt "rd_return False" "\<lambda>w. rd_sax (dom_value (f w))"] assms
    by (simp add: rd_with_def)
qed

lemma nothing_reads: "(\<And>r. m r = rd_sax (dom_value v) r) \<Longrightarrow> reads_as L le m [] v"
  by (rule value_reads) (auto simp: left_at_def)

end
