(* ===== verification/Json_Cbor_Roundtrip.thy ===== *)
theory Json_Cbor_Roundtrip
  imports Json_Cbor Json_Binary_Rules
begin

text \<open>
  What \<open>to_cbor\<close> writes, \<open>from_cbor\<close> reads back: the same value, where an integer that is not
  negative comes back as an unsigned one.
\<close>

section \<open>Control bytes\<close>

lemma head_byte:
  assumes "uint (base :: byte) \<le> 0xA0" "k \<le> 0x1B"
  shows "uint (base + of_nat k) = uint base + int k"
proof -
  have "uint (of_nat k :: byte) = int k" using assms(2) by (simp add: unsigned_of_nat take_bit_nat_eq_self)
  moreover have "uint base + int k < 2 ^ 8" using assms by simp
  ultimately show ?thesis by (simp add: uint_plus_if')
qed

lemma cbor_head_dispatch:
  fixes F :: "int \<Rightarrow> ('h, 'x) rd"
  assumes "bin_input r = cbor_head le base N @ rest" "N < 2 ^ 64" "uint base \<le> 0xA0"
    and small: "\<And>c r. bin_current r = c \<Longrightarrow> uint base \<le> c \<Longrightarrow> c \<le> uint base + 0x17 \<Longrightarrow> F c r = f (nat (c - uint base)) r"
    and wide: "\<And>r. bin_current r = uint base + 0x18 \<Longrightarrow> F (uint base + 0x18) r =
        rd_bind (get_number S False cbor_format) (\<lambda>v. case v of None \<Rightarrow> no | Some w \<Rightarrow> f (unat (w :: byte))) r"
      "\<And>r. bin_current r = uint base + 0x19 \<Longrightarrow> F (uint base + 0x19) r =
        rd_bind (get_number S False cbor_format) (\<lambda>v. case v of None \<Rightarrow> no | Some w \<Rightarrow> f (unat (w :: u16))) r"
      "\<And>r. bin_current r = uint base + 0x1A \<Longrightarrow> F (uint base + 0x1A) r =
        rd_bind (get_number S False cbor_format) (\<lambda>v. case v of None \<Rightarrow> no | Some w \<Rightarrow> f (unat (w :: u32))) r"
      "\<And>r. bin_current r = uint base + 0x1B \<Longrightarrow> F (uint base + 0x1B) r =
        rd_bind (get_number S False cbor_format) (\<lambda>v. case v of None \<Rightarrow> no | Some w \<Rightarrow> f (unat (w :: u64))) r"
  shows "\<exists>r'. left_at r rest r' \<and> rd_bind binary_get F r = f N r'"
proof -
  have sum: "k \<le> 0x1B \<Longrightarrow> uint (base + of_nat k) = uint base + int k" for k using head_byte [OF assms(3)] .
  consider "N \<le> 0x17" | "0x17 < N" "N < 2 ^ 8" | "2 ^ 8 \<le> N" "N < 2 ^ 16" | "2 ^ 16 \<le> N" "N < 2 ^ 32"
    | "2 ^ 32 \<le> N" by fastforce
  then show ?thesis
  proof cases
    case 1
    then show ?thesis using assms(1) sum [of N] small [of _ "uint base + int N"]
      by (intro short_head [where c = "uint base + int N" and b = "base + of_nat N"]) (auto simp: cbor_head_def)
  next
    case 2
    then show ?thesis using assms(1) wide(1) sum [of "0x18"]
      by (intro wide_head [where 'w = 8 and c = "uint base + 0x18" and b = "base + 0x18"]) (auto simp: cbor_head_def)
  next
    case 3
    then show ?thesis using assms(1) wide(2) sum [of "0x19"]
      by (intro wide_head [where 'w = 16 and c = "uint base + 0x19" and b = "base + 0x19"]) (auto simp: cbor_head_def)
  next
    case 4
    then show ?thesis using assms(1) wide(3) sum [of "0x1A"]
      by (intro wide_head [where 'w = 32 and c = "uint base + 0x1A" and b = "base + 0x1A"]) (auto simp: cbor_head_def)
  next
    case 5
    then show ?thesis using assms(1,2) wide(4) sum [of "0x1B"]
      by (intro wide_head [where 'w = 64 and c = "uint base + 0x1B" and b = "base + 0x1B"]) (auto simp: cbor_head_def)
  qed
qed

lemma cbor_unsigned:
  assumes "bin_input r = cbor_head le 0 N @ rest" "N < 2 ^ 64"
  shows "\<exists>r'. left_at r rest r' \<and>
    rd_bind binary_get (parse_cbor_value n S rec) r = rd_sax (sax_number_unsigned S (of_nat N)) r'"
  by (rule cbor_head_dispatch [OF assms, where S = S and no = "rd_return False"])
    (simp_all add: parse_cbor_value_def rd_with_def of_nat_unat64 cong: option.case_cong)

lemma cbor_negative:
  assumes "bin_input r = cbor_head le 0x20 N @ rest" "N < 2 ^ 64"
  shows "\<exists>r'. left_at r rest r' \<and>
    rd_bind binary_get (parse_cbor_value n S rec) r = rd_sax (sax_number_integer S (- 1 - of_nat N)) r'"
  by (rule cbor_head_dispatch [OF assms, where S = S and no = "rd_return False"])
    (simp_all add: parse_cbor_value_def rd_with_def of_nat_unat64 cong: option.case_cong)

lemma cbor_get_string:
  assumes "bin_input r = cbor_string le s @ rest" "length s < 2 ^ 64"
  shows "\<exists>r'. rd_bind binary_get (\<lambda>_. get_cbor_string (Suc n) S) r = Some (Inr (Some s, r')) \<and> left_at r rest r'"
proof -
  have i: "bin_input r = cbor_head le 0x60 (length s) @ (s @ rest)" using assms(1) by (simp add: cbor_string_def)
  have "\<exists>r1. left_at r (s @ rest) r1 \<and>
    rd_bind binary_get (\<lambda>_. get_cbor_string (Suc n) S) r = binary_get_string S cbor_format (length s) r1"
  proof (rule cbor_head_dispatch [OF i assms(2), where S = S and no = "rd_return None"], goal_cases)
    case (2 c r)
    have "c mod 32 = c - 0x60"
      using 2 mod_pos_pos_trivial [of "c - 0x60" 32] mod_add_right_eq [of "c - 0x60" "0x60" 32] by simp
    then show ?case using 2 by simp
  qed (simp_all add: sized_simps cong: option.case_cong)
  then obtain r1 where r1: "left_at r (s @ rest) r1"
    "rd_bind binary_get (\<lambda>_. get_cbor_string (Suc n) S) r = binary_get_string S cbor_format (length s) r1"
    by blast
  moreover have "bin_input r1 = s @ rest" using r1(1) by (simp add: left_at_def)
  ultimately show ?thesis using get_string_ok [of r1 s rest "length s" S cbor_format] left_at_trans by metis
qed

lemma cbor_array_head:
  assumes "bin_input r = cbor_head le 0x80 N @ rest" "N < 2 ^ 64"
  shows "\<exists>r'. left_at r rest r' \<and>
    rd_bind binary_get (parse_cbor_value n S rec) r = get_cbor_array n S rec (of_nat N) r'"
proof (rule cbor_head_dispatch [OF assms, where S = S and no = "rd_return False"], goal_cases)
  case (2 c r)
  have "c mod 32 = c - 0x80"
    using 2 mod_pos_pos_trivial [of "c - 0x80" 32] mod_add_right_eq [of "c - 0x80" "0x80" 32] by simp
  then show ?case using 2 by (simp add: parse_cbor_value_def)
qed (simp_all add: parse_cbor_value_def rd_with_def of_nat_unat64 cong: option.case_cong)

lemma cbor_object_head:
  assumes "bin_input r = cbor_head le 0xA0 N @ rest" "N < 2 ^ 64"
  shows "\<exists>r'. left_at r rest r' \<and>
    rd_bind binary_get (parse_cbor_value n S rec) r = get_cbor_object n S rec (of_nat N) r'"
proof (rule cbor_head_dispatch [OF assms, where S = S and no = "rd_return False"], goal_cases)
  case (2 c r)
  have "c mod 32 = c - 0xA0"
    using 2 mod_pos_pos_trivial [of "c - 0xA0" 32] mod_add_right_eq [of "c - 0xA0" "0xA0" 32] by simp
  then show ?case using 2 by (simp add: parse_cbor_value_def)
qed (simp_all add: parse_cbor_value_def rd_with_def of_nat_unat64 cong: option.case_cong)

lemma cbor_head_first:
  assumes "N < 2 ^ 64" "uint base \<le> 0xA0"
  shows "\<exists>b bs. cbor_head le base N = b # bs \<and> uint base \<le> uint b \<and> uint b \<le> uint base + 0x1B"
  using head_byte [OF assms(2), of N] head_byte [OF assms(2), of "0x18"] head_byte [OF assms(2), of "0x19"]
    head_byte [OF assms(2), of "0x1A"] head_byte [OF assms(2), of "0x1B"] assms(1)
  by (auto simp: cbor_head_def)

lemma cbor_value_string:
  assumes "bin_input r = cbor_string le s @ rest" "length s < 2 ^ 64"
  shows "\<exists>r'. left_at r rest r' \<and>
    rd_bind binary_get (parse_cbor_value (Suc n) S rec) r = rd_sax (sax_string S s) r'"
proof -
  obtain b bs where b: "cbor_head le 0x60 (length s) = b # bs" "0x60 \<le> uint b" "uint b \<le> 0x7B"
    using cbor_head_first [OF assms(2), of "0x60" le] by auto
  have i: "bin_input r = b # bs @ s @ rest" using assms(1) b(1) by (simp add: cbor_string_def)
  let ?K = "\<lambda>s. rd_sax (sax_string S s)"
  have "rd_bind binary_get (parse_cbor_value (Suc n) S rec) r =
      rd_with (rd_bind binary_get (\<lambda>_. get_cbor_string (Suc n) S)) ?K r"
    unfolding rd_with_def rd_bind_assoc get_bind [OF i] using b(2,3)
    by (simp add: parse_cbor_value_def rd_with_def del: get_cbor_string.simps)
  then show ?thesis
    using cbor_get_string [OF assms, of n S] by (auto simp: rd_with_def rd_bind_ok)
qed

section \<open>Values\<close>

lemma cbor_member_reads:
  assumes "length k < 2 ^ 64" "reads_as L le (rec True) vs v"
  shows "member_as L le (rd_bind binary_get (\<lambda>_. cbor_member (Suc n) dom_sax rec)) (cbor_string le' k @ vs) k v"
proof -
  have eq: "rd_bind binary_get (\<lambda>_. cbor_member (Suc n) dom_sax rec) =
      rd_and (rd_with (rd_bind binary_get (\<lambda>_. get_cbor_string (Suc n) dom_sax)) (\<lambda>k. rd_sax (dom_key k))) (rec True)"
    unfolding cbor_member_def rd_and_def rd_with_def by (simp add: rd_bind_assoc)
  show ?thesis unfolding eq
    by (rule member_reads [OF _ assms(2)]) (use cbor_get_string assms(1) in blast)
qed

lemma cbor_reads:
  assumes "sizes_ok (unat L) (2 ^ 64) j" "L \<noteq> - 1" "length (write_cbor le' j) < n"
  shows "reads_as L le (parse_cbor_internal n dom_sax True) (write_cbor le' j) (map_leaves unsigned_leaf j)"
  using assms(1,3)
proof (induction j arbitrary: n)
  case JNull
  then show ?case by (cases n) (auto simp: parse_cbor_value_def unsigned_leaf_def intro!: byte_value_reads)
next
  case (JBoolean b)
  then show ?case by (cases n) (auto simp: parse_cbor_value_def unsigned_leaf_def intro!: byte_value_reads)
next
  case (JFloat x)
  then show ?case
    by (cases n) (auto simp: parse_cbor_value_def unsigned_leaf_def intro!: number_value_reads [where f = JFloat])
next
  case (JUnsigned x)
  then obtain m where n: "n = Suc m" by (cases n) auto
  have "unat x < 2 ^ 64" using unsigned_less [of x] by simp
  then have "\<exists>r'. left_at r rest r' \<and> parse_cbor_internal n dom_sax True r = rd_sax (dom_value (JUnsigned x)) r'"
    if "bin_input r = cbor_head le' 0 (unat x) @ rest" for r rest
    using cbor_unsigned [OF that, of m dom_sax "parse_cbor_internal m dom_sax"] n by simp
  then show ?case by (intro value_reads) (simp add: unsigned_leaf_def)
next
  case (JInteger x)
  then obtain m where n: "n = Suc m" by (cases n) auto
  let ?m = "parse_cbor_internal n dom_sax True"
  show ?case
  proof (cases "0 \<le> sint x")
    case True
    have "nat (sint x) < 2 ^ 64" using sint_lt [of x] by simp
    then have "\<exists>r'. left_at r rest r' \<and> ?m r = rd_sax (dom_value (JUnsigned x)) r'"
      if "bin_input r = cbor_head le' 0 (nat (sint x)) @ rest" for r rest
      using cbor_unsigned [OF that, of m dom_sax "parse_cbor_internal m dom_sax"] n True by simp
    then show ?thesis using True by (intro value_reads) (simp add: unsigned_leaf_def)
  next
    case False
    have "nat (- 1 - sint x) < 2 ^ 64" using sint_ge [of x] by simp
    then have "\<exists>r'. left_at r rest r' \<and> ?m r = rd_sax (dom_value (JInteger x)) r'"
      if "bin_input r = cbor_head le' 0x20 (nat (- 1 - sint x)) @ rest" for r rest
      using cbor_negative [OF that, of m dom_sax "parse_cbor_internal m dom_sax"] n False by simp
    then show ?thesis using False by (intro value_reads) (simp add: unsigned_leaf_def)
  qed
next
  case (JString s)
  then obtain m where n: "n = Suc (Suc m)"
    by (cases n; cases "n - 1") (auto simp: cbor_string_def cbor_head_def split: if_splits)
  have "\<exists>r'. left_at r rest r' \<and> parse_cbor_internal n dom_sax True r = rd_sax (dom_value (JString s)) r'"
    if "bin_input r = cbor_string le' s @ rest" for r rest
    using cbor_value_string [OF that, of m dom_sax] n JString by simp
  then show ?case by (intro value_reads) (simp add: unsigned_leaf_def)
next
  case (JArray xs)
  then obtain m where n: "n = Suc m" by (cases n) auto
  let ?rec = "parse_cbor_internal m dom_sax True"
  have N: "unat (of_nat (length xs) :: u64) = length xs" "(of_nat (length xs) :: u64) \<le> L"
    and N1: "(of_nat (length xs) :: u64) \<noteq> - 1" and N2: "length xs < 2 ^ 64"
    using container_size [OF _ assms(2), of "length xs"] JArray.prems(1) by simp_all
  have elements: "\<forall>v \<in> set xs. reads_as L le ?rec (write_cbor le' v) (map_leaves unsigned_leaf v)"
  proof
    fix v assume v: "v \<in> set xs"
    obtain b bs where "cbor_head le' 0x80 (length xs) = b # bs" using cbor_head_first [OF N2, of "0x80" le'] by auto
    then have "length (write_cbor le' v) < m"
      using length_le_concat [OF v, of "write_cbor le'"] JArray.prems(2) n by simp
    then show "reads_as L le ?rec (write_cbor le' v) (map_leaves unsigned_leaf v)"
      using JArray.IH [OF v] JArray.prems(1) v by simp
  qed
  have "reads_as L le (parse_cbor_internal n dom_sax True) (cbor_head le' 0x80 (length xs) @ concat (map (write_cbor le') xs))
      (JArray (map (map_leaves unsigned_leaf) xs))"
  proof (rule array_reads [OF _ elements])
    show "\<exists>r'. left_at r rest r' \<and> parse_cbor_internal n dom_sax True r =
        rd_and (rd_sax (dom_start (JArray []) ''array'' (of_nat (length xs)))) (rd_and (rd_repeat (length xs) ?rec) (rd_sax dom_end)) r'"
      if "bin_input r = cbor_head le' 0x80 (length xs) @ rest" for rest r
      using cbor_array_head [OF that N2, of m dom_sax "parse_cbor_internal m dom_sax"] n N N1
      by (simp add: get_cbor_array_def)
  qed (use N in simp)
  then show ?case by simp
next
  case (JObject ms)
  have N: "unat (of_nat (length ms) :: u64) = length ms" "(of_nat (length ms) :: u64) \<le> L"
    and N1: "(of_nat (length ms) :: u64) \<noteq> - 1" and N2: "length ms < 2 ^ 64"
    using container_size [OF _ assms(2), of "length ms"] JObject.prems(1) by simp_all
  obtain b bs where b: "cbor_head le' 0xA0 (length ms) = b # bs" using cbor_head_first [OF N2, of "0xA0" le'] by auto
  then obtain m where n: "n = Suc (Suc m)" using JObject.prems(2) by (cases n; cases "n - 1") auto
  let ?rec = "parse_cbor_internal (Suc m) dom_sax"
  let ?w = "\<lambda>k v. cbor_string le' k @ write_cbor le' v"
  have members: "\<forall>(k, v) \<in> set ms. member_as L le (rd_bind binary_get (\<lambda>_. cbor_member (Suc m) dom_sax ?rec)) (?w k v) k
      (map_leaves unsigned_leaf v)"
  proof clarify
    fix k v assume v: "(k, v) \<in> set ms"
    have "length (write_cbor le' v) < Suc m"
      using length_le_concat [OF v, of "\<lambda>(k, v). ?w k v"] JObject.prems(2) n b by simp
    then have "reads_as L le (?rec True) (write_cbor le' v) (map_leaves unsigned_leaf v)"
      using JObject.IH [OF v, of v] JObject.prems(1) v by (auto simp del: parse_cbor_internal.simps)
    then show "member_as L le (rd_bind binary_get (\<lambda>_. cbor_member (Suc m) dom_sax ?rec)) (?w k v) k
        (map_leaves unsigned_leaf v)"
      using cbor_member_reads [of k L le ?rec] JObject.prems(1) v by (auto simp del: parse_cbor_internal.simps)
  qed
  have "reads_as L le (parse_cbor_internal n dom_sax True) (cbor_head le' 0xA0 (length ms) @ concat (map (\<lambda>(k, v). ?w k v) ms))
      (JObject (map (\<lambda>(k, v). (k, map_leaves unsigned_leaf v)) ms))"
  proof (rule object_reads [OF _ members])
    show "\<exists>r'. left_at r rest r' \<and> parse_cbor_internal n dom_sax True r =
        rd_and (rd_sax (dom_start (JObject []) ''object'' (of_nat (length ms)))) (rd_and (rd_repeat (length ms)
          (rd_bind binary_get (\<lambda>_. cbor_member (Suc m) dom_sax ?rec))) (rd_sax dom_end)) r'"
      if "bin_input r = cbor_head le' 0xA0 (length ms) @ rest" for rest r
      using cbor_object_head [OF that N2, of "Suc m" dom_sax ?rec] n N N1
      by (simp add: get_cbor_object_def)
  qed (use N JObject.prems(1) in simp_all)
  then show ?case by simp
qed simp

end
