(* ===== verification/Json_Msgpack.thy ===== *)
theory Json_Msgpack
  imports Json_Binary
begin

text \<open>
  MessagePack: \<open>parse_msgpack_internal\<close> and the functions below it in
  \<open>src/nlohmann/detail/input/binary_reader.hpp\<close>, and \<open>write_msgpack\<close> of
  \<open>src/nlohmann/detail/output/binary_writer.hpp\<close>. Every length is explicit here, so the fuel only
  bounds the nesting of containers.
\<close>

section \<open>Reading\<close>

definition get_msgpack_string :: "'h sax \<Rightarrow> ('h, byte list option) rd" where
  "get_msgpack_string S =
     rd_bind (unexpect_eof S msgpack_format ''string'') (\<lambda>b.
     if \<not> b then rd_return None
     else rd_bind rd_current (\<lambda>c.
     if 0xA0 \<le> c \<and> c \<le> 0xBF then binary_get_string S msgpack_format (nat (c mod 0x20))
     else if c = 0xD9 then sized_string S msgpack_format (unsigned_length S msgpack_format TYPE(8))
     else if c = 0xDA then sized_string S msgpack_format (unsigned_length S msgpack_format TYPE(16))
     else if c = 0xDB then sized_string S msgpack_format (unsigned_length S msgpack_format TYPE(32))
     else rd_bind (binary_error S msgpack_format 113 (hex_byte c)
       (''expected length specification (0xA0-0xBF, 0xD9-0xDB); last byte: 0x'' @ hex_byte c) ''string'')
       (\<lambda>b. rd_return (if b then Some [] else None))))"

definition get_msgpack_array :: "'h sax \<Rightarrow> ('h, bool) rd \<Rightarrow> u64 \<Rightarrow> ('h, bool) rd" where
  "get_msgpack_array S rec len =
     rd_and (rd_sax (sax_start_array S len))
    (rd_and (rd_repeat (unat len) rec)
            (rd_sax (sax_end_array S)))"

definition msgpack_member :: "'h sax \<Rightarrow> ('h, bool) rd \<Rightarrow> ('h, bool) rd" where
  "msgpack_member S rec =
     rd_bind binary_get (\<lambda>_.
     rd_and (rd_with (get_msgpack_string S) (\<lambda>k. rd_sax (sax_key S k))) rec)"

definition get_msgpack_object :: "'h sax \<Rightarrow> ('h, bool) rd \<Rightarrow> u64 \<Rightarrow> ('h, bool) rd" where
  "get_msgpack_object S rec len =
     rd_and (rd_sax (sax_start_object S len))
    (rd_and (rd_repeat (unat len) (msgpack_member S rec))
            (rd_sax (sax_end_object S)))"

definition parse_msgpack_value :: "'h sax \<Rightarrow> ('h, bool) rd \<Rightarrow> int \<Rightarrow> ('h, bool) rd" where
  "parse_msgpack_value S rec c =
     (if c = - 1 then unexpect_eof S msgpack_format ''value''
      else if 0 \<le> c \<and> c \<le> 0x7F then rd_sax (sax_number_unsigned S (word_of_int c))
      else if 0x80 \<le> c \<and> c \<le> 0x8F then get_msgpack_object S rec (word_of_int (c mod 0x10))
      else if 0x90 \<le> c \<and> c \<le> 0x9F then get_msgpack_array S rec (word_of_int (c mod 0x10))
      else if 0xA0 \<le> c \<and> c \<le> 0xBF \<or> 0xD9 \<le> c \<and> c \<le> 0xDB
      then rd_with (get_msgpack_string S) (\<lambda>s. rd_sax (sax_string S s))
      else if c = 0xC0 then rd_sax (sax_null S)
      else if c = 0xC2 then rd_sax (sax_boolean S False)
      else if c = 0xC3 then rd_sax (sax_boolean S True)
      else if c = 0xCA
      then rd_with (get_number S False msgpack_format) (\<lambda>n :: u32. rd_sax (sax_number_float S (double_of_single n) []))
      else if c = 0xCB then rd_with (get_number S False msgpack_format) (\<lambda>n :: u64. rd_sax (sax_number_float S n []))
      else if c = 0xCC then rd_with (get_number S False msgpack_format) (\<lambda>n :: byte. rd_sax (sax_number_unsigned S (ucast n)))
      else if c = 0xCD then rd_with (get_number S False msgpack_format) (\<lambda>n :: u16. rd_sax (sax_number_unsigned S (ucast n)))
      else if c = 0xCE then rd_with (get_number S False msgpack_format) (\<lambda>n :: u32. rd_sax (sax_number_unsigned S (ucast n)))
      else if c = 0xCF then rd_with (get_number S False msgpack_format) (\<lambda>n :: u64. rd_sax (sax_number_unsigned S n))
      else if c = 0xD0 then rd_with (get_number S False msgpack_format) (\<lambda>n :: byte. rd_sax (sax_number_integer S (scast n)))
      else if c = 0xD1 then rd_with (get_number S False msgpack_format) (\<lambda>n :: u16. rd_sax (sax_number_integer S (scast n)))
      else if c = 0xD2 then rd_with (get_number S False msgpack_format) (\<lambda>n :: u32. rd_sax (sax_number_integer S (scast n)))
      else if c = 0xD3 then rd_with (get_number S False msgpack_format) (\<lambda>n :: u64. rd_sax (sax_number_integer S n))
      else if c = 0xDC then rd_with (get_number S False msgpack_format) (\<lambda>l :: u16. get_msgpack_array S rec (ucast l))
      else if c = 0xDD then rd_with (get_number S False msgpack_format) (\<lambda>l :: u32. get_msgpack_array S rec (ucast l))
      else if c = 0xDE then rd_with (get_number S False msgpack_format) (\<lambda>l :: u16. get_msgpack_object S rec (ucast l))
      else if c = 0xDF then rd_with (get_number S False msgpack_format) (\<lambda>l :: u32. get_msgpack_object S rec (ucast l))
      else if 0xE0 \<le> c \<and> c \<le> 0xFF then rd_sax (sax_number_integer S (scast (word_of_int c :: byte)))
      else binary_error S msgpack_format 112 (hex_byte c) (''invalid byte: 0x'' @ hex_byte c) ''value'')"

primrec parse_msgpack_internal :: "nat \<Rightarrow> 'h sax \<Rightarrow> ('h, bool) rd" where
  "parse_msgpack_internal 0 S = (\<lambda>r. None)"
| "parse_msgpack_internal (Suc n) S = rd_bind binary_get (parse_msgpack_value S (parse_msgpack_internal n S))"

section \<open>Writing\<close>

text \<open>A number that is not negative, in the shortest of its five forms.\<close>

definition msgpack_unsigned :: "bool \<Rightarrow> u64 \<Rightarrow> byte list" where
  "msgpack_unsigned le n =
     (if unat n < 128 then write_number le False (ucast n :: byte)
      else if unat n \<le> 0xFF then 0xCC # write_number le False (ucast n :: byte)
      else if unat n \<le> 0xFFFF then 0xCD # write_number le False (ucast n :: u16)
      else if unat n \<le> 0xFFFFFFFF then 0xCE # write_number le False (ucast n :: u32)
      else 0xCF # write_number le False n)"

definition msgpack_negative :: "bool \<Rightarrow> int64 \<Rightarrow> byte list" where
  "msgpack_negative le n =
     (if - 32 \<le> sint n then write_number le False (ucast n :: byte)
      else if - (2 ^ 7) \<le> sint n \<and> sint n < 2 ^ 7 then 0xD0 # write_number le False (ucast n :: byte)
      else if - (2 ^ 15) \<le> sint n \<and> sint n < 2 ^ 15 then 0xD1 # write_number le False (ucast n :: u16)
      else if - (2 ^ 31) \<le> sint n \<and> sint n < 2 ^ 31 then 0xD2 # write_number le False (ucast n :: u32)
      else 0xD3 # write_number le False n)"

text \<open>The control bytes in front of strings and of containers: beyond 32 bits there is none.\<close>

definition msgpack_string :: "bool \<Rightarrow> byte list \<Rightarrow> byte list" where
  "msgpack_string le s =
     (let N = length s in
      (if N \<le> 31 then write_number le False (or 0xA0 (of_nat N) :: byte)
       else if N \<le> 0xFF then 0xD9 # write_number le False (of_nat N :: byte)
       else if N \<le> 0xFFFF then 0xDA # write_number le False (of_nat N :: u16)
       else if N \<le> 0xFFFFFFFF then 0xDB # write_number le False (of_nat N :: u32)
       else []) @ s)"

definition msgpack_head :: "bool \<Rightarrow> byte \<Rightarrow> byte \<Rightarrow> nat \<Rightarrow> byte list" where
  "msgpack_head le fixed sized N =
     (if N \<le> 15 then write_number le False (or fixed (of_nat N))
      else if N \<le> 0xFFFF then sized # write_number le False (of_nat N :: u16)
      else if N \<le> 0xFFFFFFFF then (sized + 1) # write_number le False (of_nat N :: u32)
      else [])"

fun write_msgpack :: "bool \<Rightarrow> json \<Rightarrow> byte list" where
  "write_msgpack le JNull = [0xC0]"
| "write_msgpack le (JBoolean b) = [if b then 0xC3 else 0xC2]"
| "write_msgpack le (JInteger n) = (if 0 \<le> sint n then msgpack_unsigned le n else msgpack_negative le n)"
| "write_msgpack le (JUnsigned n) = msgpack_unsigned le n"
| "write_msgpack le (JFloat x) = 0xCB # write_number le False x"
| "write_msgpack le (JString s) = msgpack_string le s"
| "write_msgpack le (JArray xs) = msgpack_head le 0x90 0xDC (length xs) @ concat (map (write_msgpack le) xs)"
| "write_msgpack le (JObject m) =
     msgpack_head le 0x80 0xDE (length m) @ concat (map (\<lambda>(k, v). msgpack_string le k @ write_msgpack le v) m)"
| "write_msgpack le JDiscarded = []"

end
