(* ===== verification/Json_Msgpack_Roundtrip.thy ===== *)
theory Json_Msgpack_Roundtrip
  imports Json_Msgpack Json_Binary_Rules
begin

text \<open>
  What \<open>to_msgpack\<close> writes, \<open>from_msgpack\<close> reads back: the same value, where an integer that is not
  negative comes back as an unsigned one.
\<close>

section \<open>Numbers\<close>

lemma msgpack_unsigned_reads:
  "reads_as L le (rd_bind binary_get (parse_msgpack_value dom_sax rec)) (msgpack_unsigned le' n) (JUnsigned n)"
proof -
  let ?F = "parse_msgpack_value dom_sax rec"
  consider "unat n < 128" | "128 \<le> unat n" "unat n < 2 ^ 8" | "2 ^ 8 \<le> unat n" "unat n < 2 ^ 16"
    | "2 ^ 16 \<le> unat n" "unat n < 2 ^ 32" | "2 ^ 32 \<le> unat n" by fastforce
  then show ?thesis
  proof cases
    case 1
    then have "int (unat n) < 128" by linarith
    then have "uint n < 128" by (simp only: uint_nat)
    then have "uint (ucast n :: byte) = uint n" "uint n \<le> 127" "uint n \<noteq> - 1"
      using uint_not_eof [of n] by (simp_all add: uint_ucast_down)
    then have "reads_as L le (rd_bind binary_get ?F) [ucast n] (JUnsigned n)"
      by (intro byte_value_reads) (simp add: parse_msgpack_value_def)
    then show ?thesis using 1 by (simp add: msgpack_unsigned_def)
  next
    case 2
    then have "reads_as L le (rd_bind binary_get ?F) (0xCC # write_number le' False (ucast n :: byte)) (JUnsigned (ucast (ucast n :: byte)))"
      by (intro number_value_reads [where f = "\<lambda>w. JUnsigned (ucast w)"]) (auto simp: parse_msgpack_value_def)
    then show ?thesis using 2 by (simp add: msgpack_unsigned_def ucast_back)
  next
    case 3
    have "reads_as L le (rd_bind binary_get ?F) (0xCD # write_number le' False (ucast n :: u16)) (JUnsigned (ucast (ucast n :: u16)))"
      by (intro number_value_reads [where f = "\<lambda>w. JUnsigned (ucast w)"]) (auto simp: parse_msgpack_value_def)
    then show ?thesis using 3 by (simp add: msgpack_unsigned_def ucast_back)
  next
    case 4
    have "reads_as L le (rd_bind binary_get ?F) (0xCE # write_number le' False (ucast n :: u32)) (JUnsigned (ucast (ucast n :: u32)))"
      by (intro number_value_reads [where f = "\<lambda>w. JUnsigned (ucast w)"]) (auto simp: parse_msgpack_value_def)
    then show ?thesis using 4 by (simp add: msgpack_unsigned_def ucast_back)
  next
    case 5
    have "reads_as L le (rd_bind binary_get ?F) (0xCF # write_number le' False n) (JUnsigned n)"
      by (intro number_value_reads) (auto simp: parse_msgpack_value_def)
    then show ?thesis using 5 by (simp add: msgpack_unsigned_def)
  qed
qed

lemma msgpack_negative_reads:
  assumes "sint n < 0"
  shows "reads_as L le (rd_bind binary_get (parse_msgpack_value dom_sax rec)) (msgpack_negative le' n) (JInteger n)"
proof -
  let ?F = "parse_msgpack_value dom_sax rec"
  consider "- 32 \<le> sint n" | "sint n < - 32" "- (2 ^ 7) \<le> sint n" | "sint n < - (2 ^ 7)" "- (2 ^ 15) \<le> sint n"
    | "sint n < - (2 ^ 15)" "- (2 ^ 31) \<le> sint n" | "sint n < - (2 ^ 31)" by linarith
  then show ?thesis
  proof cases
    case 1
    have "(ucast n :: byte) = word_of_int (sint n)" by transfer (simp add: take_bit_signed_take_bit)
    then have "uint (ucast n :: byte) = sint n mod 2 ^ LENGTH(8)" by (simp only: uint_word_of_int)
    also have "\<dots> = sint n mod 256" by simp
    also have "\<dots> = sint n + 256" using 1 assms mod_pos_pos_trivial [of "sint n + 256" 256] by simp
    finally have b: "uint (ucast n :: byte) = sint n + 256" .
    define w :: byte where "w = ucast n"
    have w: "0xE0 \<le> uint w" "uint w \<le> 0xFF" "scast w = n" unfolding w_def using 1 assms b by (simp_all add: scast_back)
    have "reads_as L le (rd_bind binary_get ?F) [w] (JInteger n)"
      using 1 assms w by (intro byte_value_reads) (simp add: parse_msgpack_value_def)
    then show ?thesis using 1 by (simp add: msgpack_negative_def w_def)
  next
    case 2
    have "reads_as L le (rd_bind binary_get ?F) (0xD0 # write_number le' False (ucast n :: byte)) (JInteger (scast (ucast n :: byte)))"
      by (intro number_value_reads [where f = "\<lambda>w. JInteger (scast w)"]) (auto simp: parse_msgpack_value_def)
    then show ?thesis using 2 assms by (simp add: msgpack_negative_def scast_back)
  next
    case 3
    have "reads_as L le (rd_bind binary_get ?F) (0xD1 # write_number le' False (ucast n :: u16)) (JInteger (scast (ucast n :: u16)))"
      by (intro number_value_reads [where f = "\<lambda>w. JInteger (scast w)"]) (auto simp: parse_msgpack_value_def)
    then show ?thesis using 3 assms by (simp add: msgpack_negative_def scast_back)
  next
    case 4
    have "reads_as L le (rd_bind binary_get ?F) (0xD2 # write_number le' False (ucast n :: u32)) (JInteger (scast (ucast n :: u32)))"
      by (intro number_value_reads [where f = "\<lambda>w. JInteger (scast w)"]) (auto simp: parse_msgpack_value_def)
    then show ?thesis using 4 assms by (simp add: msgpack_negative_def scast_back)
  next
    case 5
    have "reads_as L le (rd_bind binary_get ?F) (0xD3 # write_number le' False n) (JInteger n)"
      by (intro number_value_reads) (auto simp: parse_msgpack_value_def)
    then show ?thesis using 5 assms by (simp add: msgpack_negative_def)
  qed
qed

section \<open>Strings and containers\<close>

lemma or_byte:
  assumes "uint (base :: byte) mod 2 ^ k = 0" "n < 2 ^ k" "k \<le> 8"
  shows "uint (or base (of_nat n)) = uint base + int n"
proof -
  have n: "uint (of_nat n :: byte) = int n"
    using assms(2) power_increasing [OF assms(3), of "2 :: nat"]
    by (simp add: unsigned_of_nat take_bit_nat_eq_self)
  have "and (uint base) (int n) = 0"
  proof (rule bit_eqI)
    fix i
    have "\<not> bit (int n) i" if "k \<le> i"
      using assms(2) that by (metis bit_take_bit_iff of_nat_take_bit take_bit_nat_eq_self leD)
    moreover have "\<not> bit (uint base) i" if "i < k"
      using assms(1) that by (metis bit_0_eq bit_take_bit_iff bot_apply bot_bool_def take_bit_eq_mod)
    ultimately show "bit (and (uint base) (int n)) i = bit 0 i"
      by (cases "k \<le> i") (auto simp: bit_and_iff)
  qed
  then have "or (uint base) (int n) = uint base + int n" by (simp add: disjunctive_add_eq_or)
  then show ?thesis by (simp add: unsigned_or_eq n)
qed

lemma msgpack_string_first:
  assumes "length s < 2 ^ 32"
  shows "\<exists>b bs. msgpack_string le s = b # bs \<and> (0xA0 \<le> uint b \<and> uint b \<le> 0xBF \<or> 0xD9 \<le> uint b \<and> uint b \<le> 0xDB)"
  using or_byte [of "0xA0" 5 "length s"] assms by (auto simp: msgpack_string_def Let_def)

lemma msgpack_get_string:
  assumes "bin_input r = msgpack_string le s @ rest" "length s < 2 ^ 32"
  shows "\<exists>r'. rd_bind binary_get (\<lambda>_. get_msgpack_string S) r = Some (Inr (Some s, r')) \<and> left_at r rest r'"
proof -
  let ?get = "rd_bind binary_get (\<lambda>_. get_msgpack_string S)"
  have "\<exists>r1. left_at r (s @ rest) r1 \<and> ?get r = binary_get_string S msgpack_format (length s) r1"
  proof -
    consider "length s \<le> 31" | "31 < length s" "length s < 2 ^ 8" | "2 ^ 8 \<le> length s" "length s < 2 ^ 16"
      | "2 ^ 16 \<le> length s" by fastforce
    then show ?thesis
    proof cases
      case 1
      then have b: "uint (or 0xA0 (of_nat (length s)) :: byte) = 0xA0 + int (length s)" by (simp add: or_byte [of _ 5])
      have "(0xA0 + int (length s)) mod 32 = int (length s)"
        using 1 mod_add_left_eq [of "0xA0" 32 "int (length s)"] by simp
      then show ?thesis using 1 assms(1) b
        by (intro short_head [where b = "or 0xA0 (of_nat (length s))" and c = "0xA0 + int (length s)"])
          (auto simp: msgpack_string_def Let_def get_msgpack_string_def)
    next
      case 2
      then show ?thesis using assms(1)
        by (intro wide_head [where 'w = 8 and c = "0xD9" and b = "0xD9" and S = S and fmt = msgpack_format and no = "rd_return None"])
          (auto simp: msgpack_string_def Let_def get_msgpack_string_def sized_simps cong: option.case_cong)
    next
      case 3
      then show ?thesis using assms(1)
        by (intro wide_head [where 'w = 16 and c = "0xDA" and b = "0xDA" and S = S and fmt = msgpack_format and no = "rd_return None"])
          (auto simp: msgpack_string_def Let_def get_msgpack_string_def sized_simps cong: option.case_cong)
    next
      case 4
      then show ?thesis using assms
        by (intro wide_head [where 'w = 32 and c = "0xDB" and b = "0xDB" and S = S and fmt = msgpack_format and no = "rd_return None"])
          (auto simp: msgpack_string_def Let_def get_msgpack_string_def sized_simps cong: option.case_cong)
    qed
  qed
  then obtain r1 where r1: "left_at r (s @ rest) r1" "?get r = binary_get_string S msgpack_format (length s) r1"
    by blast
  moreover have "bin_input r1 = s @ rest" using r1(1) by (simp add: left_at_def)
  ultimately show ?thesis using get_string_ok [of r1 s rest "length s" S msgpack_format] left_at_trans by metis
qed

lemma msgpack_value_string:
  assumes "bin_input r = msgpack_string le s @ rest" "length s < 2 ^ 32"
  shows "\<exists>r'. left_at r rest r' \<and> rd_bind binary_get (parse_msgpack_value S rec) r = rd_sax (sax_string S s) r'"
proof -
  obtain b bs where b: "msgpack_string le s = b # bs"
    "0xA0 \<le> uint b \<and> uint b \<le> 0xBF \<or> 0xD9 \<le> uint b \<and> uint b \<le> 0xDB"
    using msgpack_string_first [OF assms(2), of le] by auto
  have i: "bin_input r = b # bs @ rest" using assms(1) b(1) by simp
  have "rd_bind binary_get (parse_msgpack_value S rec) r =
      rd_with (rd_bind binary_get (\<lambda>_. get_msgpack_string S)) (\<lambda>s. rd_sax (sax_string S s)) r"
    unfolding rd_with_def rd_bind_assoc get_bind [OF i] using b(2)
    by (auto simp: parse_msgpack_value_def rd_with_def)
  then show ?thesis
    using msgpack_get_string [OF assms, of S] by (auto simp: rd_with_def rd_bind_ok)
qed

lemma msgpack_head_dispatch:
  fixes F :: "int \<Rightarrow> ('h, bool) rd"
  assumes "bin_input r = msgpack_head le fixed sized N @ rest" "N < 2 ^ 32" "uint fixed mod 2 ^ 4 = 0" "uint sized < 255"
    and small: "\<And>r. N \<le> 15 \<Longrightarrow> F (uint fixed + int N) r = f N r"
    and wide: "\<And>r. F (uint sized) r =
        rd_bind (get_number S False msgpack_format) (\<lambda>v. case v of None \<Rightarrow> rd_return False | Some w \<Rightarrow> f (unat (w :: u16))) r"
      "\<And>r. F (uint sized + 1) r =
        rd_bind (get_number S False msgpack_format) (\<lambda>v. case v of None \<Rightarrow> rd_return False | Some w \<Rightarrow> f (unat (w :: u32))) r"
  shows "\<exists>r'. left_at r rest r' \<and> rd_bind binary_get F r = f N r'"
proof -
  consider "N \<le> 15" | "15 < N" "N < 2 ^ 16" | "2 ^ 16 \<le> N" by fastforce
  then show ?thesis
  proof cases
    case 1
    then have "uint (or fixed (of_nat N)) = uint fixed + int N" using assms(3) by (simp add: or_byte [of _ 4])
    then show ?thesis using 1 assms(1) small
      by (intro short_head [where b = "or fixed (of_nat N)"]) (auto simp: msgpack_head_def)
  next
    case 2
    then show ?thesis using assms(1) wide(1)
      by (intro wide_head [where 'w = 16 and c = "uint sized" and b = sized]) (auto simp: msgpack_head_def)
  next
    case 3
    have "uint (sized + 1) = uint sized + 1" using assms(4) by (simp add: uint_plus_if')
    then show ?thesis using 3 assms(1,2) wide(2)
      by (intro wide_head [where 'w = 32 and c = "uint sized + 1" and b = "sized + 1"]) (auto simp: msgpack_head_def)
  qed
qed

lemma low_bits: "N \<le> 15 \<Longrightarrow> (0x80 + int N) mod 16 = int N" "N \<le> 15 \<Longrightarrow> (0x90 + int N) mod 16 = int N"
  using mod_add_left_eq [of "0x80" 16 "int N"] mod_add_left_eq [of "0x90" 16 "int N"] by simp_all

lemma msgpack_array_head:
  assumes "bin_input r = msgpack_head le 0x90 0xDC N @ rest" "N < 2 ^ 32"
  shows "\<exists>r'. left_at r rest r' \<and>
    rd_bind binary_get (parse_msgpack_value S rec) r = get_msgpack_array S rec (of_nat N) r'"
  by (rule msgpack_head_dispatch [OF assms, where S = S])
    (simp_all add: parse_msgpack_value_def rd_with_def of_nat_unat64 low_bits cong: option.case_cong)

lemma msgpack_object_head:
  assumes "bin_input r = msgpack_head le 0x80 0xDE N @ rest" "N < 2 ^ 32"
  shows "\<exists>r'. left_at r rest r' \<and>
    rd_bind binary_get (parse_msgpack_value S rec) r = get_msgpack_object S rec (of_nat N) r'"
  by (rule msgpack_head_dispatch [OF assms, where S = S])
    (simp_all add: parse_msgpack_value_def rd_with_def of_nat_unat64 low_bits cong: option.case_cong)

lemma msgpack_head_not_Nil: "N < 2 ^ 32 \<Longrightarrow> \<exists>b bs. msgpack_head le fixed sized N = b # bs"
  by (auto simp: msgpack_head_def)

section \<open>Values\<close>

lemma msgpack_member_reads:
  assumes "length k < 2 ^ 32" "reads_as L le rec vs v"
  shows "member_as L le (msgpack_member dom_sax rec) (msgpack_string le' k @ vs) k v"
proof -
  have eq: "msgpack_member dom_sax rec =
      rd_and (rd_with (rd_bind binary_get (\<lambda>_. get_msgpack_string dom_sax)) (\<lambda>k. rd_sax (dom_key k))) rec"
    unfolding msgpack_member_def rd_and_def rd_with_def by (simp add: rd_bind_assoc)
  show ?thesis unfolding eq
    by (rule member_reads [OF _ assms(2)]) (use msgpack_get_string assms(1) in blast)
qed

lemma msgpack_reads:
  assumes "sizes_ok c (2 ^ 32) j" "c \<le> unat L" "c < 2 ^ 32" "length (write_msgpack le' j) < n"
  shows "reads_as L le (parse_msgpack_internal n dom_sax) (write_msgpack le' j) (map_leaves unsigned_leaf j)"
  using assms(1,4)
proof (induction j arbitrary: n)
  case JNull
  then show ?case by (cases n) (auto simp: parse_msgpack_value_def unsigned_leaf_def intro!: byte_value_reads)
next
  case (JBoolean b)
  then show ?case by (cases n) (auto simp: parse_msgpack_value_def unsigned_leaf_def intro!: byte_value_reads)
next
  case (JFloat x)
  then show ?case
    by (cases n) (auto simp: parse_msgpack_value_def unsigned_leaf_def intro!: number_value_reads [where f = JFloat])
next
  case (JUnsigned x)
  then show ?case using msgpack_unsigned_reads by (cases n) (auto simp: unsigned_leaf_def)
next
  case (JInteger x)
  then show ?case using msgpack_unsigned_reads msgpack_negative_reads by (cases n) (auto simp: unsigned_leaf_def)
next
  case (JString s)
  then obtain m where n: "n = Suc m" by (cases n) auto
  have "\<exists>r'. left_at r rest r' \<and> parse_msgpack_internal n dom_sax r = rd_sax (dom_value (JString s)) r'"
    if "bin_input r = msgpack_string le' s @ rest" for r rest
    using msgpack_value_string [OF that, of dom_sax] n JString by simp
  then show ?case by (intro value_reads) (simp add: unsigned_leaf_def)
next
  case (JArray xs)
  then obtain m where n: "n = Suc m" by (cases n) auto
  let ?rec = "parse_msgpack_internal m dom_sax"
  have N: "length xs < 2 ^ 32" "length xs \<le> unat L" using JArray.prems(1) assms(2,3) by simp_all
  obtain b bs where b: "msgpack_head le' 0x90 0xDC (length xs) = b # bs" using msgpack_head_not_Nil [OF N(1)] by blast
  have elements: "\<forall>v \<in> set xs. reads_as L le ?rec (write_msgpack le' v) (map_leaves unsigned_leaf v)"
  proof
    fix v assume v: "v \<in> set xs"
    have "length (write_msgpack le' v) < m"
      using length_le_concat [OF v, of "write_msgpack le'"] JArray.prems(2) n b by simp
    then show "reads_as L le ?rec (write_msgpack le' v) (map_leaves unsigned_leaf v)"
      using JArray.IH [OF v] JArray.prems(1) v by simp
  qed
  have "reads_as L le (parse_msgpack_internal n dom_sax) (msgpack_head le' 0x90 0xDC (length xs) @ concat (map (write_msgpack le') xs))
      (JArray (map (map_leaves unsigned_leaf) xs))"
  proof (rule array_reads [OF _ elements])
    show "\<exists>r'. left_at r rest r' \<and> parse_msgpack_internal n dom_sax r =
        rd_and (rd_sax (dom_start (JArray []) ''array'' (of_nat (length xs)))) (rd_and (rd_repeat (length xs) ?rec) (rd_sax dom_end)) r'"
      if "bin_input r = msgpack_head le' 0x90 0xDC (length xs) @ rest" for rest r
      using msgpack_array_head [OF that N(1), of dom_sax ?rec] n length_word_unat [OF N(2)]
      by (simp add: get_msgpack_array_def)
  qed (use length_word_le [OF N(2)] in simp)
  then show ?case by simp
next
  case (JObject ms)
  then obtain m where n: "n = Suc m" by (cases n) auto
  let ?rec = "parse_msgpack_internal m dom_sax" and ?w = "\<lambda>k v. msgpack_string le' k @ write_msgpack le' v"
  have N: "length ms < 2 ^ 32" "length ms \<le> unat L" using JObject.prems(1) assms(2,3) by simp_all
  obtain b bs where b: "msgpack_head le' 0x80 0xDE (length ms) = b # bs" using msgpack_head_not_Nil [OF N(1)] by blast
  have members: "\<forall>(k, v) \<in> set ms. member_as L le (msgpack_member dom_sax ?rec) (?w k v) k (map_leaves unsigned_leaf v)"
  proof clarify
    fix k v assume v: "(k, v) \<in> set ms"
    have "length (write_msgpack le' v) < m"
      using length_le_concat [OF v, of "\<lambda>(k, v). ?w k v"] JObject.prems(2) n b by simp
    then have "reads_as L le ?rec (write_msgpack le' v) (map_leaves unsigned_leaf v)"
      using JObject.IH [OF v, of v] JObject.prems(1) v by auto
    then show "member_as L le (msgpack_member dom_sax ?rec) (?w k v) k (map_leaves unsigned_leaf v)"
      using msgpack_member_reads [of k L le ?rec] JObject.prems(1) v by auto
  qed
  have "reads_as L le (parse_msgpack_internal n dom_sax) (msgpack_head le' 0x80 0xDE (length ms) @ concat (map (\<lambda>(k, v). ?w k v) ms))
      (JObject (map (\<lambda>(k, v). (k, map_leaves unsigned_leaf v)) ms))"
  proof (rule object_reads [OF _ members])
    show "\<exists>r'. left_at r rest r' \<and> parse_msgpack_internal n dom_sax r =
        rd_and (rd_sax (dom_start (JObject []) ''object'' (of_nat (length ms))))
          (rd_and (rd_repeat (length ms) (msgpack_member dom_sax ?rec)) (rd_sax dom_end)) r'"
      if "bin_input r = msgpack_head le' 0x80 0xDE (length ms) @ rest" for rest r
      using msgpack_object_head [OF that N(1), of dom_sax ?rec] n length_word_unat [OF N(2)]
      by (simp add: get_msgpack_object_def)
  qed (use length_word_le [OF N(2)] JObject.prems(1) in simp_all)
  then show ?case by simp
qed simp

end
