(* ===== verification/Json_Ubjson.thy ===== *)
theory Json_Ubjson
  imports Json_Binary
begin

text \<open>
  UBJSON: \<open>parse_ubjson_internal\<close> and the functions below it in
  \<open>src/nlohmann/detail/input/binary_reader.hpp\<close>, and \<open>write_ubjson\<close> of
  \<open>src/nlohmann/detail/output/binary_writer.hpp\<close>.
\<close>

section \<open>Reading\<close>

text \<open>
  The lengths of strings are signed but for one type; \<open>std::generate_n\<close> does nothing for a
  negative one.
\<close>

definition signed_length ::
    "'h sax \<Rightarrow> input_format_t \<Rightarrow> 'w::len itself \<Rightarrow> ('h, nat option) rd" where
  "signed_length S fmt _ =
     rd_bind (get_number S False fmt) (\<lambda>n. rd_return (map_option (\<lambda>w :: 'w word. nat (sint w)) n))"

definition get_ubjson_string :: "'h sax \<Rightarrow> bool \<Rightarrow> ('h, byte list option) rd" where
  "get_ubjson_string S get_char =
     rd_bind (if get_char then binary_get else rd_current) (\<lambda>c.
     rd_bind (unexpect_eof S ubjson_format ''value'') (\<lambda>b.
     if \<not> b then rd_return None
     else if c = 0x55 then sized_string S ubjson_format (unsigned_length S ubjson_format TYPE(8))
     else if c = 0x69 then sized_string S ubjson_format (signed_length S ubjson_format TYPE(8))
     else if c = 0x49 then sized_string S ubjson_format (signed_length S ubjson_format TYPE(16))
     else if c = 0x6C then sized_string S ubjson_format (signed_length S ubjson_format TYPE(32))
     else if c = 0x4C then sized_string S ubjson_format (signed_length S ubjson_format TYPE(64))
     else rd_bind (binary_error S ubjson_format 113 (hex_byte c)
       (''expected length type specification (U, i, I, l, L); last byte: 0x'' @ hex_byte c) ''string'')
       (\<lambda>b. rd_return (if b then Some [] else None))))"

text \<open>The size behind \<open>#\<close>, converted to \<open>std::size_t\<close>, for the size \<open>old\<close> that is kept otherwise.\<close>

definition size_as ::
    "'h sax \<Rightarrow> ('w::len word \<Rightarrow> u64) \<Rightarrow> ('h, u64 option) rd" where
  "size_as S f = rd_bind (get_number S False ubjson_format) (\<lambda>n. rd_return (map_option f n))"

definition get_ubjson_size_value :: "'h sax \<Rightarrow> u64 \<Rightarrow> ('h, u64 option) rd" where
  "get_ubjson_size_value S old =
     rd_bind get_ignore_noop (\<lambda>c.
     if c = 0x55 then size_as S (ucast :: byte \<Rightarrow> u64)
     else if c = 0x69 then size_as S (scast :: byte \<Rightarrow> u64)
     else if c = 0x49 then size_as S (scast :: u16 \<Rightarrow> u64)
     else if c = 0x6C then size_as S (scast :: u32 \<Rightarrow> u64)
     else if c = 0x4C then size_as S (scast :: u64 \<Rightarrow> u64)
     else rd_bind (binary_error S ubjson_format 113 (hex_byte c)
       (''expected length type specification (U, i, I, l, L) after '' @ [char_of (39 :: nat)] @ ''#'' @ [char_of (39 :: nat)] @
        ''; last byte: 0x'' @ hex_byte c) ''size'')
       (\<lambda>b. rd_return (if b then Some old else None)))"

text \<open>The size, \<open>-1\<close> when there is none, and the type, 0 when there is none.\<close>

definition get_ubjson_size_type :: "'h sax \<Rightarrow> ('h, (u64 \<times> int) option) rd" where
  "get_ubjson_size_type S =
     rd_bind get_ignore_noop (\<lambda>c.
     if c = 0x24 then
       rd_bind binary_get (\<lambda>type.
       rd_bind (unexpect_eof S ubjson_format ''type'') (\<lambda>b.
       if \<not> b then rd_return None
       else rd_bind get_ignore_noop (\<lambda>c2.
         if c2 \<noteq> 0x23 then
           rd_bind (unexpect_eof S ubjson_format ''value'') (\<lambda>b2.
           if \<not> b2 then rd_return None
           else rd_bind (binary_error S ubjson_format 112 (hex_byte c2)
             (''expected '' @ [char_of (39 :: nat)] @ ''#'' @ [char_of (39 :: nat)] @
              '' after type information; last byte: 0x'' @ hex_byte c2) ''size'')
             (\<lambda>b3. rd_return (if b3 then Some (- 1, type) else None)))
         else rd_bind (get_ubjson_size_value S (- 1)) (\<lambda>n. rd_return (map_option (\<lambda>k. (k, type)) n)))))
     else if c = 0x23 then rd_bind (get_ubjson_size_value S (- 1)) (\<lambda>n. rd_return (map_option (\<lambda>k. (k, 0)) n))
     else rd_return (Some (- 1, 0)))"

text \<open>
  Containers, for the reader \<open>val\<close> of the values behind a prefix. \<open>parse_ubjson_internal\<close> first
  reads the prefix, or takes the last character for it.
\<close>

definition parse_ubjson_internal :: "(int \<Rightarrow> ('h, bool) rd) \<Rightarrow> bool \<Rightarrow> ('h, bool) rd" where
  "parse_ubjson_internal val get_char = rd_bind (if get_char then get_ignore_noop else rd_current) val"

definition current_not :: "int \<Rightarrow> ('h, bool) rd" where
  "current_not c = rd_bind rd_current (\<lambda>c'. rd_return (c' \<noteq> c))"

definition then_next :: "('h, bool) rd \<Rightarrow> ('h, bool) rd" where
  "then_next m = rd_and m (rd_bind get_ignore_noop (\<lambda>_. rd_return True))"

definition get_ubjson_array :: "nat \<Rightarrow> 'h sax \<Rightarrow> (int \<Rightarrow> ('h, bool) rd) \<Rightarrow> ('h, bool) rd" where
  "get_ubjson_array n S val =
     rd_with (get_ubjson_size_type S) (\<lambda>(size, type).
     if size \<noteq> - 1 then
       rd_and (rd_sax (sax_start_array S size))
      (rd_and (if type \<noteq> 0 then (if type \<noteq> 0x4E then rd_repeat (unat size) (val type) else rd_return True)
               else rd_repeat (unat size) (parse_ubjson_internal val True))
              (rd_sax (sax_end_array S)))
     else
       rd_and (rd_sax (sax_start_array S (- 1)))
      (rd_and (rd_while n (current_not 0x5D) (then_next (parse_ubjson_internal val False)))
              (rd_sax (sax_end_array S))))"

definition ubjson_member :: "'h sax \<Rightarrow> bool \<Rightarrow> ('h, bool) rd \<Rightarrow> ('h, bool) rd" where
  "ubjson_member S get_char v =
     rd_and (rd_with (get_ubjson_string S get_char) (\<lambda>k. rd_sax (sax_key S k))) v"

definition get_ubjson_object :: "nat \<Rightarrow> 'h sax \<Rightarrow> (int \<Rightarrow> ('h, bool) rd) \<Rightarrow> ('h, bool) rd" where
  "get_ubjson_object n S val =
     rd_with (get_ubjson_size_type S) (\<lambda>(size, type).
     if size \<noteq> - 1 then
       rd_and (rd_sax (sax_start_object S size))
      (rd_and (rd_repeat (unat size)
                 (ubjson_member S True (if type \<noteq> 0 then val type else parse_ubjson_internal val True)))
              (rd_sax (sax_end_object S)))
     else
       rd_and (rd_sax (sax_start_object S (- 1)))
      (rd_and (rd_while n (current_not 0x7D) (then_next (ubjson_member S False (parse_ubjson_internal val True))))
              (rd_sax (sax_end_object S))))"

definition ubjson_char :: "'h sax \<Rightarrow> ('h, bool) rd" where
  "ubjson_char S =
     rd_bind binary_get (\<lambda>c.
     rd_and (unexpect_eof S ubjson_format ''char'')
       (if 127 < c
        then binary_error S ubjson_format 113 (hex_byte c)
          (''byte after '' @ [char_of (39 :: nat)] @ ''C'' @ [char_of (39 :: nat)] @
           '' must be in range 0x00..0x7F; last byte: 0x'' @ hex_byte c) ''char''
        else rd_sax (sax_string S [word_of_int c])))"

definition ubjson_value :: "nat \<Rightarrow> 'h sax \<Rightarrow> (int \<Rightarrow> ('h, bool) rd) \<Rightarrow> int \<Rightarrow> ('h, bool) rd" where
  "ubjson_value n S val prefix =
     (if prefix = - 1 then unexpect_eof S ubjson_format ''value''
      else if prefix = 0x54 then rd_sax (sax_boolean S True)
      else if prefix = 0x46 then rd_sax (sax_boolean S False)
      else if prefix = 0x5A then rd_sax (sax_null S)
      else if prefix = 0x55 then rd_with (get_number S False ubjson_format) (\<lambda>n :: byte. rd_sax (sax_number_unsigned S (ucast n)))
      else if prefix = 0x69 then rd_with (get_number S False ubjson_format) (\<lambda>n :: byte. rd_sax (sax_number_integer S (scast n)))
      else if prefix = 0x49 then rd_with (get_number S False ubjson_format) (\<lambda>n :: u16. rd_sax (sax_number_integer S (scast n)))
      else if prefix = 0x6C then rd_with (get_number S False ubjson_format) (\<lambda>n :: u32. rd_sax (sax_number_integer S (scast n)))
      else if prefix = 0x4C then rd_with (get_number S False ubjson_format) (\<lambda>n :: u64. rd_sax (sax_number_integer S n))
      else if prefix = 0x64
      then rd_with (get_number S False ubjson_format) (\<lambda>n :: u32. rd_sax (sax_number_float S (double_of_single n) []))
      else if prefix = 0x44 then rd_with (get_number S False ubjson_format) (\<lambda>n :: u64. rd_sax (sax_number_float S n []))
      else if prefix = 0x43 then ubjson_char S
      else if prefix = 0x53 then rd_with (get_ubjson_string S True) (\<lambda>s. rd_sax (sax_string S s))
      else if prefix = 0x5B then get_ubjson_array n S val
      else if prefix = 0x7B then get_ubjson_object n S val
      else rd_bind rd_current (\<lambda>c.
        binary_error S ubjson_format 112 (hex_byte c) (''invalid byte: 0x'' @ hex_byte c) ''value''))"

primrec get_ubjson_value :: "nat \<Rightarrow> 'h sax \<Rightarrow> int \<Rightarrow> ('h, bool) rd" where
  "get_ubjson_value 0 S prefix = (\<lambda>r. None)"
| "get_ubjson_value (Suc n) S prefix = ubjson_value n S (get_ubjson_value n S) prefix"

section \<open>Writing\<close>

text \<open>\<open>write_number_with_ubjson_prefix\<close> for numbers with and without a sign.\<close>

definition prefixed :: "bool \<Rightarrow> byte \<Rightarrow> byte list \<Rightarrow> byte list" where
  "prefixed add_prefix c bs = (if add_prefix then c # bs else bs)"

definition ubjson_unsigned :: "bool \<Rightarrow> u64 \<Rightarrow> bool \<Rightarrow> byte list res" where
  "ubjson_unsigned le n add_prefix =
     (if unat n < 2 ^ 7 then Inr (prefixed add_prefix 0x69 (write_number le False (ucast n :: byte)))
      else if unat n < 2 ^ 8 then Inr (prefixed add_prefix 0x55 (write_number le False (ucast n :: byte)))
      else if unat n < 2 ^ 15 then Inr (prefixed add_prefix 0x49 (write_number le False (ucast n :: u16)))
      else if unat n < 2 ^ 31 then Inr (prefixed add_prefix 0x6C (write_number le False (ucast n :: u32)))
      else if unat n < 2 ^ 63 then Inr (prefixed add_prefix 0x4C (write_number le False n))
      else json_throw (out_of_range_create 407 (''integer number '' @ to_string (unat n) @
        '' cannot be represented by UBJSON as it does not fit int64'')))"

definition ubjson_signed :: "bool \<Rightarrow> int64 \<Rightarrow> bool \<Rightarrow> byte list" where
  "ubjson_signed le n add_prefix =
     (if - (2 ^ 7) \<le> sint n \<and> sint n < 2 ^ 7 then prefixed add_prefix 0x69 (write_number le False (ucast n :: byte))
      else if 0 \<le> sint n \<and> sint n < 2 ^ 8 then prefixed add_prefix 0x55 (write_number le False (ucast n :: byte))
      else if - (2 ^ 15) \<le> sint n \<and> sint n < 2 ^ 15
      then prefixed add_prefix 0x49 (write_number le False (ucast n :: u16))
      else if - (2 ^ 31) \<le> sint n \<and> sint n < 2 ^ 31
      then prefixed add_prefix 0x6C (write_number le False (ucast n :: u32))
      else prefixed add_prefix 0x4C (write_number le False n))"

text \<open>The prefix that the elements of a container share.\<close>

definition ubjson_prefix :: "json \<Rightarrow> byte" where
  "ubjson_prefix j =
     (case j of
        JNull \<Rightarrow> 0x5A
      | JBoolean b \<Rightarrow> if b then 0x54 else 0x46
      | JInteger n \<Rightarrow>
          if - (2 ^ 7) \<le> sint n \<and> sint n < 2 ^ 7 then 0x69
          else if 0 \<le> sint n \<and> sint n < 2 ^ 8 then 0x55
          else if - (2 ^ 15) \<le> sint n \<and> sint n < 2 ^ 15 then 0x49
          else if - (2 ^ 31) \<le> sint n \<and> sint n < 2 ^ 31 then 0x6C
          else 0x4C
      | JUnsigned n \<Rightarrow>
          if unat n < 2 ^ 7 then 0x69 else if unat n < 2 ^ 8 then 0x55
          else if unat n < 2 ^ 15 then 0x49 else if unat n < 2 ^ 31 then 0x6C
          else 0x4C
      | JFloat _ \<Rightarrow> 0x44
      | JString _ \<Rightarrow> 0x53
      | JArray _ \<Rightarrow> 0x5B
      | JObject _ \<Rightarrow> 0x7B
      | JDiscarded \<Rightarrow> 0x4E)"

definition ubjson_string :: "bool \<Rightarrow> byte list \<Rightarrow> byte list res" where
  "ubjson_string le s = bind_res (ubjson_unsigned le (of_nat (length s)) True) (\<lambda>h. Inr (h @ s))"

text \<open>
  The front of a container with the elements \<open>vs\<close>: \<open>$\<close> and the type, when it is wanted and they have
  one, then \<open>#\<close> and the size, when it is wanted; and whether the elements need prefixes.
\<close>

definition same_prefix :: "json list \<Rightarrow> bool" where
  "same_prefix vs \<longleftrightarrow> list_all (\<lambda>v. ubjson_prefix v = ubjson_prefix (hd vs)) vs"

definition ubjson_front :: "bool \<Rightarrow> bool \<Rightarrow> bool \<Rightarrow> json list \<Rightarrow> (bool \<times> byte list) res" where
  "ubjson_front le use_count use_type vs =
     bind_res (if use_type \<and> vs \<noteq> [] then c_assert use_count ''use_count'' else Inr ()) (\<lambda>_.
     let same = (use_type \<and> vs \<noteq> [] \<and> same_prefix vs);
         type = (if same then [0x24, ubjson_prefix (hd vs)] else [])
     in if use_count
        then bind_res (ubjson_unsigned le (of_nat (length vs)) True) (\<lambda>h. Inr (\<not> same, type @ 0x23 # h))
        else Inr (\<not> same, type))"

fun write_ubjson :: "bool \<Rightarrow> bool \<Rightarrow> bool \<Rightarrow> bool \<Rightarrow> json \<Rightarrow> byte list res"
  and ubjson_elements :: "bool \<Rightarrow> bool \<Rightarrow> bool \<Rightarrow> bool \<Rightarrow> json list \<Rightarrow> byte list res"
  and ubjson_members :: "bool \<Rightarrow> bool \<Rightarrow> bool \<Rightarrow> bool \<Rightarrow> (byte list \<times> json) list \<Rightarrow> byte list res" where
  "write_ubjson le use_count use_type add_prefix JNull = Inr (prefixed add_prefix 0x5A [])"
| "write_ubjson le use_count use_type add_prefix (JBoolean b) = Inr (prefixed add_prefix (if b then 0x54 else 0x46) [])"
| "write_ubjson le use_count use_type add_prefix (JInteger n) = Inr (ubjson_signed le n add_prefix)"
| "write_ubjson le use_count use_type add_prefix (JUnsigned n) = ubjson_unsigned le n add_prefix"
| "write_ubjson le use_count use_type add_prefix (JFloat x) = Inr (prefixed add_prefix 0x44 (write_number le False x))"
| "write_ubjson le use_count use_type add_prefix (JString s) =
     bind_res (ubjson_string le s) (\<lambda>b. Inr (prefixed add_prefix 0x53 b))"
| "write_ubjson le use_count use_type add_prefix (JArray xs) =
     bind_res (ubjson_front le use_count use_type xs) (\<lambda>(prefix_required, front).
     bind_res (ubjson_elements le use_count use_type prefix_required xs) (\<lambda>b.
     Inr (prefixed add_prefix 0x5B (front @ b @ (if use_count then [] else [0x5D])))))"
| "write_ubjson le use_count use_type add_prefix (JObject m) =
     bind_res (ubjson_front le use_count use_type (map snd m)) (\<lambda>(prefix_required, front).
     bind_res (ubjson_members le use_count use_type prefix_required m) (\<lambda>b.
     Inr (prefixed add_prefix 0x7B (front @ b @ (if use_count then [] else [0x7D])))))"
| "write_ubjson le use_count use_type add_prefix JDiscarded = Inr []"
| "ubjson_elements le use_count use_type prefix_required [] = Inr []"
| "ubjson_elements le use_count use_type prefix_required (v # vs) =
     bind_res (write_ubjson le use_count use_type prefix_required v) (\<lambda>b.
     bind_res (ubjson_elements le use_count use_type prefix_required vs) (\<lambda>bs. Inr (b @ bs)))"
| "ubjson_members le use_count use_type prefix_required [] = Inr []"
| "ubjson_members le use_count use_type prefix_required ((k, v) # m) =
     bind_res (ubjson_string le k) (\<lambda>kb.
     bind_res (write_ubjson le use_count use_type prefix_required v) (\<lambda>b.
     bind_res (ubjson_members le use_count use_type prefix_required m) (\<lambda>bs. Inr (kb @ b @ bs))))"

end
