(* ===== verification/Json_Ubjson_Roundtrip.thy ===== *)
theory Json_Ubjson_Roundtrip
  imports Json_Ubjson Json_Binary_Rules
begin

text \<open>
  What \<open>to_ubjson\<close> writes, with and without sizes and types, \<open>from_ubjson\<close> reads back: the same value,
  where the integers have the sign of their encoding.
\<close>

section \<open>Loops to a stop byte\<close>

text \<open>
  A loop whose body finds the first byte of an item in \<open>current\<close> and reads the rest of it: \<open>Q x bs\<close> is the
  state behind some items with \<open>bs\<close> left, \<open>st x i\<close> what it becomes with the item \<open>i\<close>.
\<close>

lemma current_not_bind: "rd_bind (current_not c) k r = k (bin_current r \<noteq> c) r"
  by (simp add: current_not_def rd_bind_assoc)

lemma leads_current_not: "leads (rd_bind (current_not c) k) r P \<longleftrightarrow> leads (k (bin_current r \<noteq> c)) r P"
  by (simp add: leads_def current_not_bind)

lemma while_items:
  fixes Q :: "'x \<Rightarrow> byte list \<Rightarrow> rd_state"
  assumes feed: "\<And>x b bs r. Q x (b # bs) r \<Longrightarrow> Q x bs (fed b bs r)"
    and input: "\<And>x bs r. Q x bs r \<Longrightarrow> bin_input r = bs"
    and start: "\<And>i. i \<in> set items \<Longrightarrow> \<exists>b bs. w i = b # bs \<and> b \<noteq> stop \<and> b \<noteq> 0x4E"
    and step: "\<And>i x b bs rest r. i \<in> set items \<Longrightarrow> w i = b # bs \<Longrightarrow> ok x \<Longrightarrow> Q x (bs @ rest) r \<Longrightarrow>
        bin_current r = uint b \<Longrightarrow> leads body r (Q (st x i) rest) \<and> ok (st x i)"
    and stop: "stop \<noteq> 0x4E"
    and now: "ok x" "Q x bs r" "concat (map w items) @ stop # rest = b # bs" "bin_current r = uint b" "length items < n"
  shows "leads (rd_while n (current_not (uint stop)) (then_next body)) r (Q (foldl st x items) rest)"
  using start step now
proof (induction items arbitrary: x b bs r n)
  case Nil
  then obtain m where n: "n = Suc m" by (cases n) auto
  then show ?case using Nil by (simp add: leads_current_not)
next
  case (Cons i items)
  obtain m where n: "n = Suc m" using Cons.prems(7) by (cases n) auto
  obtain bi bsi where i: "w i = bi # bsi" "bi \<noteq> stop" "bi \<noteq> 0x4E" using Cons.prems(1) [of i] by auto
  let ?z = "concat (map w items) @ stop # rest"
  have b: "b = bi" "bs = bsi @ ?z" using Cons.prems(5) i(1) by simp_all
  obtain c cs where c: "?z = c # cs" "c \<noteq> 0x4E"
    using Cons.prems(1) stop by (cases items) fastforce+
  have body: "leads body r (Q (st x i) (c # cs))" "ok (st x i)"
    using Cons.prems(2) [of i bi bsi x "c # cs" r] Cons.prems(3,4,6) i(1) b c(1) by simp_all
  have "leads (rd_and (rd_bind get_ignore_noop (\<lambda>_. rd_return True))
      (rd_while m (current_not (uint stop)) (then_next body))) r1 (Q (foldl st x (i # items)) rest)"
    if "Q (st x i) (c # cs) r1" for r1
  proof -
    have "leads (rd_while m (current_not (uint stop)) (then_next body)) (fed c cs r1) (Q (foldl st (st x i) items) rest)"
      using Cons.prems(1,2,7) n feed [OF that] c(1) body(2) by (intro Cons.IH [where b = c and bs = cs]) auto
    then show ?thesis
      by (simp add: leads_def rd_and_def rd_bind_assoc noop_skipped [OF input [OF that] c(2)])
  qed
  then have "leads (rd_and body (rd_and (rd_bind get_ignore_noop (\<lambda>_. rd_return True))
      (rd_while m (current_not (uint stop)) (then_next body)))) r (Q (foldl st x (i # items)) rest)"
    using leads_and [OF body(1)] by blast
  moreover have "rd_and (then_next body) k = rd_and body (rd_and (rd_bind get_ignore_noop (\<lambda>_. rd_return True)) k)" for k
    by (simp add: then_next_def rd_and_assoc)
  moreover have "bin_current r \<noteq> uint stop" using Cons.prems(6) b(1) i(2) by (simp add: word_uint_eq_iff)
  ultimately show ?case
    using n by (simp add: leads_current_not)
qed

section \<open>Lengths\<close>

text \<open>
  A length as \<open>write_number_with_ubjson_prefix\<close> writes it: its type \<open>p\<close> and its bytes \<open>ns\<close>, which both readers
  of lengths understand.
\<close>

definition length_bytes :: "nat \<Rightarrow> byte \<Rightarrow> byte list \<Rightarrow> bool" where
  "length_bytes N p ns \<longleftrightarrow>
     p \<in> {0x69, 0x55, 0x49, 0x6C, 0x4C} \<and>
     (\<forall>rest (r :: dom binary_reader). bin_input r = ns @ rest \<longrightarrow>
        (bin_current r = uint p \<longrightarrow> (\<exists>r'. left_at r rest r' \<and>
           get_ubjson_string dom_sax False r = binary_get_string dom_sax ubjson_format N r'))) \<and>
     (\<forall>rest old (r :: dom binary_reader). bin_input r = p # ns @ rest \<longrightarrow> (\<exists>r'. left_at r rest r' \<and>
           get_ubjson_size_value dom_sax old r = Some (Inr (Some (of_nat N), r'))))"

lemma signed_string:
  assumes "bin_input r = write_number le False (of_nat N :: 'w::len word) @ rest" "N < 2 ^ (LENGTH('w) - 1)"
    "LENGTH('w) = 8 * wsize TYPE('w)"
  shows "\<exists>r'. left_at r rest r' \<and> sized_string S fmt (signed_length S fmt TYPE('w)) r = binary_get_string S fmt N r'"
  using number_follows [OF assms(1,3), of "sized_string S fmt (signed_length S fmt TYPE('w))" S fmt "rd_return None"
      "\<lambda>w. binary_get_string S fmt (nat (sint w))"] assms(2)
  by (simp add: sized_simps signed_length_def sint_of_nat cong: option.case_cong)

lemma unsigned_string:
  assumes "bin_input r = write_number le False (of_nat N :: 'w::len word) @ rest" "N < 2 ^ LENGTH('w)"
    "LENGTH('w) = 8 * wsize TYPE('w)"
  shows "\<exists>r'. left_at r rest r' \<and> sized_string S fmt (unsigned_length S fmt TYPE('w)) r = binary_get_string S fmt N r'"
  using number_follows [OF assms(1,3), of "sized_string S fmt (unsigned_length S fmt TYPE('w))" S fmt "rd_return None"
      "\<lambda>w. binary_get_string S fmt (unat w)"] assms(2)
  by (simp add: sized_simps unsigned_of_nat take_bit_nat_eq_self cong: option.case_cong)

lemma size_as_ok:
  assumes "bin_input r = write_number le False (w :: 'w::len word) @ rest" "LENGTH('w) = 8 * wsize TYPE('w)"
  shows "\<exists>r'. left_at r rest r' \<and> size_as S f r = Some (Inr (Some (f w), r'))"
  using get_number_ok [OF assms, of S ubjson_format] by (auto simp: size_as_def rd_bind_ok rd_return_def)

lemma size_value_ok:
  assumes "bin_input r = b # write_number le False (w :: 'w::len word) @ rest" "LENGTH('w) = 8 * wsize TYPE('w)"
    "b \<noteq> 0x4E" "get_ubjson_size_value S old = rd_bind get_ignore_noop F" "F (uint b) = size_as S f"
  shows "\<exists>r'. left_at r rest r' \<and> get_ubjson_size_value S old r = Some (Inr (Some (f w), r'))"
proof -
  let ?r = "fed b (write_number le False w @ rest) r"
  obtain r' where "left_at ?r rest r'" "size_as S f ?r = Some (Inr (Some (f w), r'))"
    using size_as_ok [of ?r le w rest S f] assms(2) by auto
  then show ?thesis
    using noop_skipped [OF assms(1,3), of F] assms(4,5) left_at_fed by metis
qed

lemma length_bytesI:
  assumes "p \<in> {0x69, 0x55, 0x49, 0x6C, 0x4C}"
    and "\<And>rest (r :: dom binary_reader). bin_input r = ns @ rest \<Longrightarrow> bin_current r = uint p \<Longrightarrow>
        \<exists>r'. left_at r rest r' \<and> get_ubjson_string dom_sax False r = binary_get_string dom_sax ubjson_format N r'"
    and "\<And>rest old (r :: dom binary_reader). bin_input r = p # ns @ rest \<Longrightarrow> \<exists>r'. left_at r rest r' \<and>
        get_ubjson_size_value dom_sax old r = Some (Inr (Some (of_nat N), r'))"
  shows "length_bytes N p ns"
  using assms by (simp add: length_bytes_def)

lemma length_bytes_forms:
  "N < 2 ^ 7 \<Longrightarrow> length_bytes N 0x69 (write_number le False (of_nat N :: byte))"
  "N < 2 ^ 8 \<Longrightarrow> length_bytes N 0x55 (write_number le False (of_nat N :: byte))"
  "N < 2 ^ 15 \<Longrightarrow> length_bytes N 0x49 (write_number le False (of_nat N :: u16))"
  "N < 2 ^ 31 \<Longrightarrow> length_bytes N 0x6C (write_number le False (of_nat N :: u32))"
  "N < 2 ^ 63 \<Longrightarrow> length_bytes N 0x4C (write_number le False (of_nat N :: u64))"
proof -
  note defs = get_ubjson_string_def get_ubjson_size_value_def scast_of_nat of_nat_back
  show "N < 2 ^ 7 \<Longrightarrow> length_bytes N 0x69 (write_number le False (of_nat N :: byte))"
    using signed_string [where 'w = 8, of _ le N _ dom_sax ubjson_format]
      size_value_ok [of _ "0x69" le "of_nat N :: byte" _ dom_sax _ _ scast]
    by (intro length_bytesI) (simp_all add: defs del: write_byte)
  show "N < 2 ^ 8 \<Longrightarrow> length_bytes N 0x55 (write_number le False (of_nat N :: byte))"
    using unsigned_string [where 'w = 8, of _ le N _ dom_sax ubjson_format]
      size_value_ok [of _ "0x55" le "of_nat N :: byte" _ dom_sax _ _ ucast]
    by (intro length_bytesI) (simp_all add: defs del: write_byte)
  show "N < 2 ^ 15 \<Longrightarrow> length_bytes N 0x49 (write_number le False (of_nat N :: u16))"
    using signed_string [where 'w = 16, of _ le N _ dom_sax ubjson_format]
      size_value_ok [of _ "0x49" le "of_nat N :: u16" _ dom_sax _ _ scast]
    by (intro length_bytesI) (simp_all add: defs)
  show "N < 2 ^ 31 \<Longrightarrow> length_bytes N 0x6C (write_number le False (of_nat N :: u32))"
    using signed_string [where 'w = 32, of _ le N _ dom_sax ubjson_format]
      size_value_ok [of _ "0x6C" le "of_nat N :: u32" _ dom_sax _ _ scast]
    by (intro length_bytesI) (simp_all add: defs)
  show "N < 2 ^ 63 \<Longrightarrow> length_bytes N 0x4C (write_number le False (of_nat N :: u64))"
    using signed_string [where 'w = 64, of _ le N _ dom_sax ubjson_format]
      size_value_ok [of _ "0x4C" le "of_nat N :: u64" _ dom_sax _ _ scast]
    by (intro length_bytesI) (simp_all add: defs)
qed

lemma ucast_of_nat: "N < 2 ^ LENGTH('w) \<Longrightarrow> N < 2 ^ 64 \<Longrightarrow> ucast (of_nat N :: u64) = (of_nat N :: 'w::len word)"
  by (simp add: ucast_eq unsigned_of_nat take_bit_nat_eq_self)

lemma length_bytes:
  assumes "N < 2 ^ 63"
  shows "\<exists>p ns. ubjson_unsigned le (of_nat N) True = Inr (p # ns) \<and> length_bytes N p ns"
proof -
  have N: "unat (of_nat N :: u64) = N" using assms by (simp add: unsigned_of_nat take_bit_nat_eq_self)
  show ?thesis
    using assms length_bytes_forms [of N le] ucast_of_nat [where 'w = 8, of N] ucast_of_nat [where 'w = 16, of N]
      ucast_of_nat [where 'w = 32, of N]
    by (simp add: ubjson_unsigned_def N prefixed_def del: write_byte)
qed

section \<open>Strings\<close>

lemma ubjson_string_bytes:
  assumes "length s < 2 ^ 63"
  shows "\<exists>p ns. ubjson_string le s = Inr (p # ns @ s) \<and> length_bytes (length s) p ns"
  using length_bytes [OF assms, of le] by (auto simp: ubjson_string_def)

lemma string_now:
  assumes "length_bytes (length s) p ns" "bin_input r = ns @ s @ rest" "bin_current r = uint p"
  shows "\<exists>r'. get_ubjson_string dom_sax False r = Some (Inr (Some s, r')) \<and> left_at r rest r'"
proof -
  obtain r1 where r1: "left_at r (s @ rest) r1"
    "get_ubjson_string dom_sax False r = binary_get_string dom_sax ubjson_format (length s) r1"
    using assms unfolding length_bytes_def by metis
  moreover have "bin_input r1 = s @ rest" using r1(1) by (simp add: left_at_def)
  ultimately show ?thesis using get_string_ok [of r1 s rest "length s" dom_sax ubjson_format] left_at_trans by metis
qed

lemma string_next:
  assumes "ubjson_string le s = Inr b" "length s < 2 ^ 63" "bin_input r = b @ rest"
  shows "\<exists>r'. get_ubjson_string dom_sax True r = Some (Inr (Some s, r')) \<and> left_at r rest r'"
proof -
  obtain p ns where p: "b = p # ns @ s" "length_bytes (length s) p ns"
    using ubjson_string_bytes [OF assms(2), of le] assms(1) by auto
  then have i: "bin_input r = p # ns @ s @ rest" using assms(3) by simp
  obtain r' where r': "get_ubjson_string dom_sax False (fed p (ns @ s @ rest) r) = Some (Inr (Some s, r'))"
    "left_at (fed p (ns @ s @ rest) r) rest r'"
    using string_now [OF p(2), of "fed p (ns @ s @ rest) r" rest] by auto
  moreover have "get_ubjson_string dom_sax True r = get_ubjson_string dom_sax False (fed p (ns @ s @ rest) r)"
    using i by (simp add: get_ubjson_string_def get_bind uint_not_eof)
  ultimately show ?thesis using left_at_fed [OF r'(2)] by auto
qed

section \<open>Prefixes\<close>

lemma ubjson_unsigned_prefixed:
  "ubjson_unsigned le n True = bind_res (ubjson_unsigned le n False) (\<lambda>b. Inr (ubjson_prefix (JUnsigned n) # b))"
  by (simp add: ubjson_unsigned_def prefixed_def ubjson_prefix_def json_throw_def)

lemma ubjson_prefixed:
  "j \<noteq> JDiscarded \<Longrightarrow> write_ubjson le uc ut True j =
     bind_res (write_ubjson le uc ut False j) (\<lambda>b. Inr (ubjson_prefix j # b))"
proof (cases j)
  case (JUnsigned n)
  then show ?thesis using ubjson_unsigned_prefixed by simp
next
  case (JInteger n)
  then show ?thesis by (simp add: ubjson_signed_def prefixed_def ubjson_prefix_def)
qed (simp_all add: prefixed_def ubjson_prefix_def res_simps case_prod_unfold)

lemma ubjson_prefix_kinds:
  "j \<noteq> JDiscarded \<Longrightarrow> ubjson_prefix j \<noteq> 0x4E \<and> ubjson_prefix j \<noteq> 0x24 \<and> ubjson_prefix j \<noteq> 0x23 \<and>
     ubjson_prefix j \<noteq> 0x5D \<and> ubjson_prefix j \<noteq> 0"
  by (cases j) (simp_all add: ubjson_prefix_def)

lemma ubjson_prefixed_Inr:
  assumes "j \<noteq> JDiscarded" "write_ubjson le uc ut True j = Inr w"
  shows "\<exists>b. w = ubjson_prefix j # b \<and> write_ubjson le uc ut False j = Inr b"
  using assms(2) unfolding ubjson_prefixed [OF assms(1)] bind_res_eq_Inr by auto

text \<open>A value with its prefix is read by reading the prefix, and the value behind it.\<close>

lemma prefix_reads:
  assumes "reads_as L le (val (uint (ubjson_prefix j))) b v" "j \<noteq> JDiscarded"
  shows "reads_as L le (parse_ubjson_internal val True) (ubjson_prefix j # b) v"
proof (rule reads_asI)
  fix fs rest r
  assume h: "at_hole L le fs ((ubjson_prefix j # b) @ rest) r"
  then have i: "bin_input r = ubjson_prefix j # (b @ rest)" using hole_input by simp
  have "at_hole L le fs (b @ rest) (fed (ubjson_prefix j) (b @ rest) r)" using h at_fed(1) by simp
  then have "leads (val (uint (ubjson_prefix j))) (fed (ubjson_prefix j) (b @ rest) r) (at_filled L le fs v rest)"
    using reads_asD [OF assms(1)] by blast
  then show "leads (parse_ubjson_internal val True) r (at_filled L le fs v rest)"
    using ubjson_prefix_kinds [OF assms(2)] by (simp add: leads_def parse_ubjson_internal_def noop_skipped [OF i])
qed

section \<open>Numbers\<close>

lemma sint_range64: "sint (x :: u64) < 2 ^ 63" "- (2 ^ 63) \<le> sint x"
  using sint_lt [of x] sint_ge [of x] by simp_all

lemma uint_sint64: "0 \<le> sint (x :: u64) \<Longrightarrow> uint x = sint x"
  using sint_range64 [of x] by (simp only: uint_sint [of x]) (simp add: take_bit_int_eq_self)

definition ubjson_leaf :: "json \<Rightarrow> json" where
  "ubjson_leaf j = (case j of
     JInteger n \<Rightarrow> if 2 ^ 7 \<le> sint n \<and> sint n < 2 ^ 8 then JUnsigned n else JInteger n
   | JUnsigned n \<Rightarrow> if 2 ^ 7 \<le> sint n \<and> sint n < 2 ^ 8 then JUnsigned n else JInteger n
   | _ \<Rightarrow> j)"

lemma ubjson_signed_reads:
  "reads_as L le (get_ubjson_value (Suc n) dom_sax (uint (ubjson_prefix (JInteger x)))) (ubjson_signed le' x False)
     (ubjson_leaf (JInteger x))"
proof -
  let ?m = "get_ubjson_value (Suc n) dom_sax"
  have signed8: "reads_as L le (?m 0x69) (write_number le' False (w :: byte)) (JInteger (scast w))" for w
    by (rule number_reads [where f = "\<lambda>w. JInteger (scast w)"]) (simp_all add: ubjson_value_def)
  have unsigned8: "reads_as L le (?m 0x55) (write_number le' False (w :: byte)) (JUnsigned (ucast w))" for w
    by (rule number_reads [where f = "\<lambda>w. JUnsigned (ucast w)"]) (simp_all add: ubjson_value_def)
  have signed16: "reads_as L le (?m 0x49) (write_number le' False (w :: u16)) (JInteger (scast w))" for w
    by (rule number_reads [where f = "\<lambda>w. JInteger (scast w)"]) (simp_all add: ubjson_value_def)
  have signed32: "reads_as L le (?m 0x6C) (write_number le' False (w :: u32)) (JInteger (scast w))" for w
    by (rule number_reads [where f = "\<lambda>w. JInteger (scast w)"]) (simp_all add: ubjson_value_def)
  have signed64: "reads_as L le (?m 0x4C) (write_number le' False x) (JInteger x)"
    by (rule number_reads) (simp_all add: ubjson_value_def)
  consider "- (2 ^ 7) \<le> sint x" "sint x < 2 ^ 7" | "2 ^ 7 \<le> sint x" "sint x < 2 ^ 8"
    | "- (2 ^ 15) \<le> sint x" "sint x < 2 ^ 15" "\<not> (- (2 ^ 7) \<le> sint x \<and> sint x < 2 ^ 8)"
    | "- (2 ^ 31) \<le> sint x" "sint x < 2 ^ 31" "\<not> (- (2 ^ 15) \<le> sint x \<and> sint x < 2 ^ 15)"
    | "\<not> (- (2 ^ 31) \<le> sint x \<and> sint x < 2 ^ 31)" by linarith
  then show ?thesis
  proof cases
    case 1
    then show ?thesis using signed8 [of "ucast x"]
      by (simp add: ubjson_signed_def ubjson_prefix_def ubjson_leaf_def prefixed_def scast_back del: get_ubjson_value.simps)
  next
    case 2
    then have "sint x = uint x" using 2 sint_range64 [of x] uint_sint64 [of x] by simp
    then have "int (unat x) < int (2 ^ 8)" using 2 by (simp flip: uint_nat)
    then have "unat x < 2 ^ 8" by (simp only: of_nat_less_iff)
    then show ?thesis using 2 unsigned8 [of "ucast x"]
      by (simp add: ubjson_signed_def ubjson_prefix_def ubjson_leaf_def prefixed_def ucast_back del: get_ubjson_value.simps)
  next
    case 3
    then show ?thesis using signed16 [of "ucast x"]
      by (auto simp add: ubjson_signed_def ubjson_prefix_def ubjson_leaf_def prefixed_def scast_back simp del: get_ubjson_value.simps)
  next
    case 4
    then show ?thesis using signed32 [of "ucast x"]
      by (auto simp add: ubjson_signed_def ubjson_prefix_def ubjson_leaf_def prefixed_def scast_back simp del: get_ubjson_value.simps)
  next
    case 5
    then show ?thesis using signed64
      by (auto simp add: ubjson_signed_def ubjson_prefix_def ubjson_leaf_def prefixed_def simp del: get_ubjson_value.simps)
  qed
qed

lemma ubjson_unsigned_leaf:
  assumes "ubjson_unsigned le x ap = Inr b"
  shows "b = ubjson_signed le x ap \<and> ubjson_prefix (JUnsigned x) = ubjson_prefix (JInteger x) \<and>
    ubjson_leaf (JUnsigned x) = ubjson_leaf (JInteger x)"
proof -
  have x: "unat x < 2 ^ 63" using assms by (auto simp: ubjson_unsigned_def json_throw_def split: if_splits)
  obtain N where "unat x = N" "sint x = int N" using sint_of_nat [of "unat x", where 'w = 64] x by simp
  then show ?thesis
    using assms x by (auto simp: ubjson_unsigned_def ubjson_signed_def ubjson_prefix_def ubjson_leaf_def split: if_splits)
qed

section \<open>Containers\<close>

text \<open>What the writer gives for the elements and members, when it does not throw.\<close>

definition written_as :: "bool \<Rightarrow> bool \<Rightarrow> bool \<Rightarrow> bool \<Rightarrow> json \<Rightarrow> byte list" where
  "written_as le uc ut ap j = projr (write_ubjson le uc ut ap j)"

lemma ubjson_elements_written:
  "ubjson_elements le uc ut ap xs = Inr b \<Longrightarrow>
     b = concat (map (written_as le uc ut ap) xs) \<and>
     (\<forall>v \<in> set xs. write_ubjson le uc ut ap v = Inr (written_as le uc ut ap v))"
  by (induction xs arbitrary: b) (auto simp: bind_res_eq_Inr written_as_def)

definition key_bytes :: "bool \<Rightarrow> byte list \<Rightarrow> byte list" where
  "key_bytes le k = projr (ubjson_string le k)"

lemma ubjson_members_written:
  "ubjson_members le uc ut ap ms = Inr b \<Longrightarrow>
     b = concat (map (\<lambda>(k, v). key_bytes le k @ written_as le uc ut ap v) ms) \<and>
     (\<forall>k v. (k, v) \<in> set ms \<longrightarrow> write_ubjson le uc ut ap v = Inr (written_as le uc ut ap v) \<and>
        ubjson_string le k = Inr (key_bytes le k))"
  by (induction ms arbitrary: b) (auto simp: bind_res_eq_Inr written_as_def key_bytes_def)

text \<open>The size and type that the front of a container gives.\<close>

definition front_type :: "bool \<Rightarrow> json list \<Rightarrow> int" where
  "front_type prefix_required vs = (if prefix_required then 0 else uint (ubjson_prefix (hd vs)))"

lemma ubjson_front_cases:
  assumes "ubjson_front le uc ut vs = Inr (prefix_required, front)"
  shows "prefix_required \<and> (\<exists>b. (if uc then ubjson_unsigned le (of_nat (length vs)) True = Inr b \<and> front = 0x23 # b
      else front = [])) \<or>
    \<not> prefix_required \<and> uc \<and> vs \<noteq> [] \<and> same_prefix vs \<and>
      (\<exists>b. ubjson_unsigned le (of_nat (length vs)) True = Inr b \<and> front = 0x24 # ubjson_prefix (hd vs) # 0x23 # b)"
proof (cases "ut \<and> vs \<noteq> []")
  case True
  then show ?thesis using assms
    by (cases uc) (auto simp: ubjson_front_def Let_def c_assert_def bind_res_eq_Inr split: if_splits)
next
  case False
  then have "bind_res (if ut \<and> vs \<noteq> [] then c_assert uc ''use_count'' else Inr ()) f = f ()" for f :: "unit \<Rightarrow> (bool \<times> byte list) res"
    by auto
  then show ?thesis using assms False
    by (cases uc) (auto simp: ubjson_front_def Let_def bind_res_eq_Inr)
qed

lemma front_counted:
  assumes "ubjson_front le True ut vs = Inr (prefix_required, front)" "length vs < 2 ^ 63"
    and "bin_input r = front @ rest"
  shows "\<exists>r'. left_at r rest r' \<and>
    get_ubjson_size_type dom_sax r = Some (Inr (Some (of_nat (length vs), front_type prefix_required vs), r'))"
proof -
  obtain p ns where p: "ubjson_unsigned le (of_nat (length vs)) True = Inr (p # ns)" "length_bytes (length vs) p ns"
    using length_bytes [OF assms(2), of le] by blast
  have size: "\<exists>r'. left_at r1 rest r' \<and>
      get_ubjson_size_value dom_sax (- 1) r1 = Some (Inr (Some (of_nat (length vs)), r'))"
    if "bin_input r1 = p # ns @ rest" for r1 :: "dom binary_reader"
    using p(2) that unfolding length_bytes_def by blast
  show ?thesis
  proof (cases prefix_required)
    case True
    then have i: "bin_input r = 0x23 # p # ns @ rest"
      using ubjson_front_cases [OF assms(1)] assms(3) p(1) by auto
    obtain r' where "left_at (fed 0x23 (p # ns @ rest) r) rest r'"
      "get_ubjson_size_value dom_sax (- 1) (fed 0x23 (p # ns @ rest) r) = Some (Inr (Some (of_nat (length vs)), r'))"
      using size [of "fed 0x23 (p # ns @ rest) r"] by auto
    then show ?thesis
      using True left_at_fed [of _ _ r rest r']
      by (auto simp: get_ubjson_size_type_def noop_skipped [OF i] rd_bind_ok rd_return_def front_type_def)
  next
    case False
    let ?t = "ubjson_prefix (hd vs)" and ?z = "p # ns @ rest"
    have i: "bin_input r = 0x24 # ?t # 0x23 # ?z"
      using False ubjson_front_cases [OF assms(1)] assms(3) p(1) by auto
    let ?r1 = "fed 0x24 (?t # 0x23 # ?z) r"
    let ?r2 = "fed ?t (0x23 # ?z) ?r1"
    let ?r3 = "fed 0x23 ?z ?r2"
    obtain r' where r': "left_at ?r3 rest r'"
      "get_ubjson_size_value dom_sax (- 1) ?r3 = Some (Inr (Some (of_nat (length vs)), r'))"
      using size [of ?r3] by auto
    have "left_at r rest r'" using r'(1) by (simp add: left_at_def)
    moreover have "get_ubjson_size_type dom_sax r = Some (Inr (Some (of_nat (length vs), front_type prefix_required vs), r'))"
      using False r'(2)
      by (simp add: get_ubjson_size_type_def noop_skipped [OF i] get_bind [of ?r1 ?t "0x23 # ?z"]
          noop_skipped [of ?r2 "0x23" ?z] rd_bind_ok rd_return_def front_type_def uint_not_eof)
    ultimately show ?thesis by blast
  qed
qed

lemma front_typed:
  assumes "ubjson_front le uc ut vs = Inr (False, front)"
  shows "vs \<noteq> []" "uc" "v \<in> set vs \<Longrightarrow> ubjson_prefix v = ubjson_prefix (hd vs)"
  using ubjson_front_cases [OF assms] unfolding same_prefix_def list_all_iff by blast+

lemma front_uncounted: "ubjson_front le False ut vs = Inr (prefix_required, front) \<Longrightarrow> prefix_required \<and> front = []"
  using ubjson_front_cases [of le False ut vs] by auto

section \<open>Values\<close>

text \<open>Containers without a size: the items up to the stop byte.\<close>

lemma size_type_none:
  assumes "bin_input r = b # bs" "b \<noteq> 0x4E" "b \<noteq> 0x24" "b \<noteq> 0x23"
  shows "rd_with (get_ubjson_size_type dom_sax) K r = K (- 1, 0) (fed b bs r)"
proof -
  have "uint b \<noteq> 0x24" "uint b \<noteq> 0x23"
    using assms(3,4) word_uint_eq_iff [of b "0x24"] word_uint_eq_iff [of b "0x23"] by simp_all
  then show ?thesis
    by (simp add: rd_with_def get_ubjson_size_type_def rd_bind_assoc noop_skipped [OF assms(1,2)])
qed

text \<open>The first byte of the first item, or the stop byte, is read before the container starts.\<close>

lemma uncounted_start:
  assumes "at_hole L le fs bs0 r" "bs0 = b # bs"
    and "\<And>r1. at_open L le fs v bs r1 \<Longrightarrow> bin_current r1 = uint b \<Longrightarrow> leads loop r1 (at_open L le fs v' rest)"
  shows "leads (rd_and (rd_sax (dom_start v what (- 1))) (rd_and loop (rd_sax dom_end))) (fed b bs r)
    (at_filled L le fs v' rest)"
proof -
  have "at_hole L le fs bs (fed b bs r)" using assms(1,2) at_fed(1) by simp
  then have "leads (rd_sax (dom_start v what (- 1))) (fed b bs r)
      (\<lambda>r1. at_open L le fs v bs r1 \<and> bin_current r1 = uint b)"
    using sax_start_leads [of L le fs bs "fed b bs r" "- 1" v what]
    by (auto simp: leads_def rd_sax_def bind_res_eq_Inr)
  then show ?thesis using assms(3) by (blast intro: leads_and sax_end_leads)
qed

lemma uncounted_array:
  assumes "\<forall>v \<in> set xs. \<exists>b. w v = ubjson_prefix v # b \<and> v \<noteq> JDiscarded \<and>
      reads_as L le (val (uint (ubjson_prefix v))) b (g v)"
    and "length xs < n"
  shows "reads_as L le (get_ubjson_array n dom_sax val) (concat (map w xs) @ [0x5D]) (JArray (map g xs))"
proof (rule reads_asI)
  fix fs rest r
  assume h: "at_hole L le fs ((concat (map w xs) @ [0x5D]) @ rest) r"
  obtain b bs where b: "concat (map w xs) @ 0x5D # rest = b # bs"
    by (cases "concat (map w xs) @ 0x5D # rest") auto
  have i: "bin_input r = b # bs" using hole_input [OF h] b by simp
  have bn: "b \<noteq> 0x4E \<and> b \<noteq> 0x24 \<and> b \<noteq> 0x23"
  proof (cases xs)
    case (Cons v vs)
    then have v: "v \<in> set xs" by simp
    obtain c where c: "w v = ubjson_prefix v # c" "v \<noteq> JDiscarded" using bspec [OF assms(1) v] by blast
    have "b = ubjson_prefix v" using b unfolding Cons by (simp add: c(1))
    then show ?thesis using ubjson_prefix_kinds [OF c(2)] by simp
  qed (use b in simp)
  have loop: "leads (rd_while n (current_not 0x5D) (then_next (parse_ubjson_internal val False))) r1
      (at_open L le fs (JArray (map g xs)) rest)"
    if "at_open L le fs (JArray []) bs r1" "bin_current r1 = uint b" for r1
  proof -
    have "leads (rd_while n (current_not (uint (0x5D :: byte))) (then_next (parse_ubjson_internal val False))) r1
      (at_open L le fs (JArray (foldl (\<lambda>ys v. ys @ [g v]) [] xs)) rest)"
    proof (rule while_items [where w = w and ok = "\<lambda>_. True" and Q = "\<lambda>ys. at_open L le fs (JArray ys)" and b = b and bs = bs])
      fix v ys c cs rest' r2
      assume v: "v \<in> set xs" "w v = c # cs" and q: "at_open L le fs (JArray ys) (cs @ rest') r2" "bin_current r2 = uint c"
      then have c: "c = ubjson_prefix v" "reads_as L le (val (uint c)) cs (g v)" using bspec [OF assms(1) v(1)] unfolding v(2) by blast+
      have "leads (val (uint c)) r2 (at_filled L le (ArrayFrame ys # fs) (g v) rest')"
        using reads_asD [OF c(2)] hole_array [OF q(1)] by blast
      then show "leads (parse_ubjson_internal val False) r2 (at_open L le fs (JArray (ys @ [g v])) rest') \<and> True"
        using q(2) by (simp add: filled_open leads_def parse_ubjson_internal_def)
    next
      fix v assume "v \<in> set xs"
      then obtain c where "w v = ubjson_prefix v # c" "v \<noteq> JDiscarded" using bspec [OF assms(1)] by blast
      then show "\<exists>c cs. w v = c # cs \<and> c \<noteq> 0x5D \<and> c \<noteq> 0x4E" using ubjson_prefix_kinds [of v] by simp
    qed (use that b assms(2) at_fed(2) open_input in auto)
    moreover have "foldl (\<lambda>ys v. ys @ [g v]) [] xs = map g xs" by (induction xs rule: rev_induct) simp_all
    ultimately show ?thesis by simp
  qed
  show "leads (get_ubjson_array n dom_sax val) r (at_filled L le fs (JArray (map g xs)) rest)"
    using bn uncounted_start [OF h _ loop, where what = "''array''"] b
    by (simp add: leads_def get_ubjson_array_def size_type_none [OF i])
qed

lemma length_bytes_type: "length_bytes N p ns \<Longrightarrow> p \<noteq> 0x4E \<and> p \<noteq> 0x24 \<and> p \<noteq> 0x23 \<and> p \<noteq> 0x7D"
  by (auto simp: length_bytes_def)

lemma ubjson_member_now:
  assumes "length_bytes (length k) p ns" "v \<noteq> JDiscarded" "reads_as L le (val (uint (ubjson_prefix v))) b x"
    and "at_open L le fs (JObject obj) (ns @ k @ ubjson_prefix v # b @ rest) r" "bin_current r = uint p" "map_ok obj"
  shows "leads (ubjson_member dom_sax False (parse_ubjson_internal val True)) r
    (at_open L le fs (JObject (map_assign k x (map_at k obj))) rest)"
proof -
  obtain r' where r': "get_ubjson_string dom_sax False r = Some (Inr (Some k, r'))"
    "left_at r (ubjson_prefix v # b @ rest) r'"
    using string_now [OF assms(1), of r "ubjson_prefix v # b @ rest"] open_input [OF assms(4)] assms(5) by auto
  have key: "leads (rd_with (get_ubjson_string dom_sax False) (\<lambda>k. rd_sax (dom_key k))) r
      (at_hole L le (ObjectFrame (map_at k obj) k # fs) (ubjson_prefix v # b @ rest))"
    using key_leads [OF assms(4,6) r'(2), of "get_ubjson_string dom_sax False"] r'(1) by simp
  have "leads (parse_ubjson_internal val True) r1 (at_open L le fs (JObject (map_assign k x (map_at k obj))) rest)"
    if "at_hole L le (ObjectFrame (map_at k obj) k # fs) (ubjson_prefix v # b @ rest) r1" for r1
    using reads_asD [OF prefix_reads [where val = val and j = v, OF assms(3,2)], of "ObjectFrame (map_at k obj) k # fs" rest r1] that by (simp add: filled_open)
  then show ?thesis using leads_and [OF key] by (simp add: ubjson_member_def)
qed

lemma uncounted_object:
  assumes "\<And>k v. (k, v) \<in> set ms \<Longrightarrow> \<exists>p ns b. w k v = p # ns @ k @ ubjson_prefix v # b \<and> length_bytes (length k) p ns \<and>
      v \<noteq> JDiscarded \<and> reads_as L le (val (uint (ubjson_prefix v))) b (g v)"
    and "length ms < n" "map_ok ms"
  shows "reads_as L le (get_ubjson_object n dom_sax val) (concat (map (\<lambda>(k, v). w k v) ms) @ [0x7D])
    (JObject (map (\<lambda>(k, v). (k, g v)) ms))"
proof (rule reads_asI)
  fix fs rest r
  let ?ws = "concat (map (\<lambda>(k, v). w k v) ms)" and ?st = "\<lambda>obj (k, v). map_assign k (g v) (map_at k obj)"
  assume h: "at_hole L le fs ((?ws @ [0x7D]) @ rest) r"
  obtain b bs where b: "?ws @ 0x7D # rest = b # bs" by (cases "?ws @ 0x7D # rest") auto
  have i: "bin_input r = b # bs" using hole_input [OF h] b by simp
  have bn: "b \<noteq> 0x4E \<and> b \<noteq> 0x24 \<and> b \<noteq> 0x23"
  proof (cases ms)
    case (Cons kv rest)
    obtain k v where kv: "kv = (k, v)" by (cases kv)
    then obtain p ns c where c: "w k v = p # c" "length_bytes (length k) p ns" using assms(1) [of k v] Cons by auto
    have "b = p" using b unfolding Cons kv by (simp add: c(1))
    then show ?thesis using length_bytes_type [OF c(2)] by simp
  qed (use b in simp)
  have loop: "leads (rd_while n (current_not 0x7D) (then_next (ubjson_member dom_sax False (parse_ubjson_internal val True)))) r1
      (at_open L le fs (JObject (map (\<lambda>(k, v). (k, g v)) ms)) rest)"
    if "at_open L le fs (JObject []) bs r1" "bin_current r1 = uint b" for r1
  proof -
    have "leads (rd_while n (current_not (uint (0x7D :: byte)))
        (then_next (ubjson_member dom_sax False (parse_ubjson_internal val True)))) r1
      (at_open L le fs (JObject (foldl ?st [] ms)) rest)"
    proof (rule while_items [where w = "\<lambda>(k, v). w k v" and ok = map_ok and Q = "\<lambda>obj. at_open L le fs (JObject obj)"
          and b = b and bs = bs])
      fix kv obj c cs rest' r2
      assume m: "kv \<in> set ms" "(case kv of (k, v) \<Rightarrow> w k v) = c # cs" "map_ok obj"
        and q: "at_open L le fs (JObject obj) (cs @ rest') r2" "bin_current r2 = uint c"
      obtain k v where kv: "kv = (k, v)" by (cases kv)
      obtain p ns b where v: "w k v = p # ns @ k @ ubjson_prefix v # b" "length_bytes (length k) p ns" "v \<noteq> JDiscarded"
        "reads_as L le (val (uint (ubjson_prefix v))) b (g v)"
        using assms(1) [of k v] m(1) kv by auto
      then have "p = c" "cs = ns @ k @ ubjson_prefix v # b" using m(2) kv by simp_all
      then show "leads (ubjson_member dom_sax False (parse_ubjson_internal val True)) r2
          (at_open L le fs (JObject (?st obj kv)) rest') \<and> map_ok (?st obj kv)"
        using ubjson_member_now [where val = val and v = v and x = "g v", OF v(2-4), of fs obj rest' r2] q m(3) map_ok_map_at kv by simp
    next
      fix kv assume "kv \<in> set ms"
      moreover obtain k v where "kv = (k, v)" by (cases kv)
      ultimately show "\<exists>c cs. (case kv of (k, v) \<Rightarrow> w k v) = c # cs \<and> c \<noteq> 0x7D \<and> c \<noteq> 0x4E"
        using assms(1) [of k v] length_bytes_type by auto
    qed (use that b assms(2) at_fed(2) open_input in \<open>auto simp: map_ok_def\<close>)
    moreover have "foldl ?st [] ms = map (\<lambda>(k, v). (k, g v)) ms"
      using with_members_map_ok [OF assms(3), of g] by (simp add: with_members_def foldl_map case_prod_unfold)
    ultimately show ?thesis by simp
  qed
  show "leads (get_ubjson_object n dom_sax val) r (at_filled L le fs (JObject (map (\<lambda>(k, v). (k, g v)) ms)) rest)"
    using bn uncounted_start [OF h _ loop, where what = "''object''"] b
    by (simp add: leads_def get_ubjson_object_def size_type_none [OF i])
qed

section \<open>Containers with a size\<close>

lemma front_size:
  assumes "N \<le> c" "c \<le> unat (L :: u64)" "c < 2 ^ 63"
  shows "unat (of_nat N :: u64) = N" "(of_nat N :: u64) \<le> L" "(of_nat N :: u64) \<noteq> - 1" "N < 2 ^ 63"
proof -
  show N: "unat (of_nat N :: u64) = N" "(of_nat N :: u64) \<le> L"
    using length_word_unat [of N L] length_word_le [of N L] assms by auto
  show N63: "N < 2 ^ 63" using assms by simp
  have "unat (of_nat (Suc N) :: u64) = Suc N"
    using N63 by (simp add: unsigned_of_nat take_bit_nat_eq_self del: of_nat_Suc)
  then show "(of_nat N :: u64) \<noteq> - 1" by auto
qed

lemma front_type_known: "list_all (\<lambda>v. v \<noteq> JDiscarded) vs \<Longrightarrow> prefix_required \<or> vs \<noteq> [] \<Longrightarrow>
    front_type prefix_required vs \<noteq> 0x4E \<and> (front_type prefix_required vs = 0 \<longleftrightarrow> prefix_required)"
proof -
  assume a: "list_all (\<lambda>v. v \<noteq> JDiscarded) vs" "prefix_required \<or> vs \<noteq> []"
  show ?thesis
  proof (cases prefix_required)
    case False
    then have "hd vs \<noteq> JDiscarded" using a by (cases vs) auto
    then have "ubjson_prefix (hd vs) \<noteq> 0x4E" "ubjson_prefix (hd vs) \<noteq> 0" using ubjson_prefix_kinds by blast+
    then show ?thesis
      using False word_uint_eq_iff [of "ubjson_prefix (hd vs)" "0x4E"] word_uint_eq_iff [of "ubjson_prefix (hd vs)" 0]
      by (simp add: front_type_def)
  qed (simp add: front_type_def)
qed

definition element_reader :: "(int \<Rightarrow> (dom, bool) rd) \<Rightarrow> bool \<Rightarrow> json list \<Rightarrow> (dom, bool) rd" where
  "element_reader val prefix_required vs =
     (if prefix_required then parse_ubjson_internal val True else val (uint (ubjson_prefix (hd vs))))"

text \<open>The elements of a container, as they are written and read.\<close>

lemma element_reads:
  assumes "ubjson_front le' uc ut vs = Inr (pr, front)" "v \<in> set vs" "v \<noteq> JDiscarded" "write_ubjson le' uc ut pr v = Inr b"
    and "\<And>b'. write_ubjson le' uc ut False v = Inr b' \<Longrightarrow> length b' \<le> length b \<Longrightarrow> reads_as L le (val (uint (ubjson_prefix v))) b' x"
  shows "reads_as L le (element_reader val pr vs) b x"
proof (cases pr)
  case True
  then obtain b' where "b = ubjson_prefix v # b'" "write_ubjson le' uc ut False v = Inr b'"
    using ubjson_prefixed_Inr [OF assms(3), of le' uc ut b] assms(4) by auto
  then show ?thesis using assms(5) prefix_reads [where val = val and j = v] assms(3) True by (simp add: element_reader_def)
next
  case False
  then have "ubjson_prefix v = ubjson_prefix (hd vs)" using front_typed(3) [of le' uc ut vs front v] assms(1,2) by simp
  moreover have "reads_as L le (val (uint (ubjson_prefix v))) b x" using assms(4,5) False by simp
  ultimately show ?thesis using False by (simp add: element_reader_def)
qed

lemma counted_array:
  assumes "ubjson_front le' True ut xs = Inr (pr, front)" "length xs \<le> c" "c \<le> unat L" "c < 2 ^ 63"
    and "\<forall>v \<in> set xs. v \<noteq> JDiscarded \<and> reads_as L le (element_reader val pr xs) (w v) (g v)"
  shows "reads_as L le (get_ubjson_array n dom_sax val) (front @ concat (map w xs)) (JArray (map g xs))"
proof (rule array_reads [where len = "of_nat (length xs)" and what = "''array''"])
  note N = front_size [OF assms(2-4)]
  fix rest and r :: "dom binary_reader"
  assume "bin_input r = front @ rest"
  from front_counted [OF assms(1) N(4) this] obtain r' where r': "left_at r rest r'"
    "get_ubjson_size_type dom_sax r = Some (Inr (Some (of_nat (length xs), front_type pr xs), r'))" by blast
  have "pr \<or> xs \<noteq> []" using front_typed(1) [of le' True ut xs front] assms(1) by (cases pr) auto
  then have t: "front_type pr xs \<noteq> 0x4E" "front_type pr xs = 0 \<longleftrightarrow> pr"
    using front_type_known [of xs pr] assms(5) by (simp_all add: list_all_iff)
  have "get_ubjson_array n dom_sax val r =
      rd_and (rd_sax (dom_start (JArray []) ''array'' (of_nat (length xs))))
        (rd_and (rd_repeat (length xs) (element_reader val pr xs)) (rd_sax dom_end)) r'"
    using r'(2) N t by (cases pr) (simp_all add: get_ubjson_array_def rd_with_def rd_bind_ok element_reader_def front_type_def)
  then show "\<exists>r'. left_at r rest r' \<and> get_ubjson_array n dom_sax val r =
      rd_and (rd_sax (dom_start (JArray []) ''array'' (of_nat (length xs))))
        (rd_and (rd_repeat (length xs) (element_reader val pr xs)) (rd_sax dom_end)) r'"
    using r'(1) by blast
qed (use assms(5) front_size [OF assms(2-4)] in auto)

lemma counted_object:
  assumes "ubjson_front le' True ut (map snd ms) = Inr (pr, front)" "length ms \<le> c" "c \<le> unat L" "c < 2 ^ 63" "map_ok ms"
    and "\<And>k v. (k, v) \<in> set ms \<Longrightarrow> v \<noteq> JDiscarded \<and> length k < 2 ^ 63 \<and> ubjson_string le' k = Inr (kb k) \<and>
        reads_as L le (element_reader val pr (map snd ms)) (w v) (g v)"
  shows "reads_as L le (get_ubjson_object n dom_sax val) (front @ concat (map (\<lambda>(k, v). kb k @ w v) ms))
    (JObject (map (\<lambda>(k, v). (k, g v)) ms))"
proof (rule object_reads [where len = "of_nat (length ms)" and what = "''object''"])
  note N = front_size [OF assms(2-4)]
  let ?mem = "ubjson_member dom_sax True (element_reader val pr (map snd ms))"
  show "\<forall>(k, v) \<in> set ms. member_as L le ?mem (kb k @ w v) k (g v)"
  proof clarify
    fix k v assume "(k, v) \<in> set ms"
    then have k: "length k < 2 ^ 63" "ubjson_string le' k = Inr (kb k)"
      "reads_as L le (element_reader val pr (map snd ms)) (w v) (g v)" using assms(6) by blast+
    show "member_as L le ?mem (kb k @ w v) k (g v)"
      using member_reads [OF _ k(3), of "kb k" "get_ubjson_string dom_sax True" k] string_next [OF k(2,1)]
      by (simp add: ubjson_member_def)
  qed
  fix rest and r :: "dom binary_reader"
  assume "bin_input r = front @ rest"
  from front_counted [OF assms(1) _ this] N(4) obtain r' where r': "left_at r rest r'"
    "get_ubjson_size_type dom_sax r = Some (Inr (Some (of_nat (length ms), front_type pr (map snd ms)), r'))" by auto
  have "pr \<or> map snd ms \<noteq> []" using front_typed(1) [of le' True ut "map snd ms" front] assms(1) by (cases pr) auto
  then have t: "front_type pr (map snd ms) = 0 \<longleftrightarrow> pr"
    using front_type_known [of "map snd ms" pr] assms(6) by (force simp: list_all_iff)
  have "get_ubjson_object n dom_sax val r =
      rd_and (rd_sax (dom_start (JObject []) ''object'' (of_nat (length ms))))
        (rd_and (rd_repeat (length ms) ?mem) (rd_sax dom_end)) r'"
    using r'(2) N t by (simp add: get_ubjson_object_def rd_with_def rd_bind_ok element_reader_def front_type_def)
  then show "\<exists>r'. left_at r rest r' \<and> get_ubjson_object n dom_sax val r =
      rd_and (rd_sax (dom_start (JObject []) ''object'' (of_nat (length ms))))
        (rd_and (rd_repeat (length ms) ?mem) (rd_sax dom_end)) r'"
    using r'(1) by blast
qed (use assms(5) front_size [OF assms(2-4)] in auto)

section \<open>The round trip of a value\<close>

lemma front_not_Nil: "ubjson_front le True ut vs = Inr (pr, front) \<Longrightarrow> front \<noteq> []"
  using ubjson_front_cases [of le True ut vs pr front] by auto

lemma ubjson_array_reads:
  assumes "sizes_ok c (2 ^ 63) (JArray xs)" "c \<le> unat L" "c < 2 ^ 63"
    and "write_ubjson le' uc ut False (JArray xs) = Inr b" "length b < Suc m"
    and inner: "\<And>v b'. v \<in> set xs \<Longrightarrow> write_ubjson le' uc ut False v = Inr b' \<Longrightarrow> length b' < m \<Longrightarrow>
      reads_as L le (get_ubjson_value m dom_sax (uint (ubjson_prefix v))) b' (map_leaves ubjson_leaf v)"
  shows "reads_as L le (get_ubjson_value (Suc m) dom_sax (uint (ubjson_prefix (JArray xs)))) b
    (map_leaves ubjson_leaf (JArray xs))"
proof -
  let ?val = "get_ubjson_value m dom_sax" and ?g = "map_leaves ubjson_leaf"
  obtain pr front b1 where f: "ubjson_front le' uc ut xs = Inr (pr, front)" "ubjson_elements le' uc ut pr xs = Inr b1"
    "b = front @ b1 @ (if uc then [] else [0x5D])"
    using assms(4) by (auto simp: bind_res_eq_Inr prefixed_def)
  let ?w = "written_as le' uc ut pr"
  have w: "b1 = concat (map ?w xs)" "v \<in> set xs \<Longrightarrow> write_ubjson le' uc ut pr v = Inr (?w v)" for v
    using ubjson_elements_written [OF f(2)] by blast+
  have ok: "v \<noteq> JDiscarded" if "v \<in> set xs" for v
    using assms(1) that by auto
  have l: "length (?w v) \<le> length b1" if "v \<in> set xs" for v
    using length_le_concat [OF that, of ?w] w(1) by simp
  show ?thesis
  proof (cases uc)
    case True
    have "length b1 < m"
      using f(3) assms(5) front_not_Nil [of le' ut xs pr front] f(1) True by (cases front) auto
    then have "\<forall>v \<in> set xs. v \<noteq> JDiscarded \<and> reads_as L le (element_reader ?val pr xs) (?w v) (?g v)"
      using element_reads [OF f(1) _ _ w(2)] ok inner l by (meson le_less_trans)
    then show ?thesis
      using counted_array [of le' ut xs pr front c L le ?val ?w ?g m] f w(1) True assms(1) assms(2,3)
      by (simp add: ubjson_prefix_def ubjson_value_def)
  next
    case False
    then have pr: "pr" "front = []" using front_uncounted [of le' ut xs] f(1) by simp_all
    have m: "length b1 < m" using f(3) assms(5) False pr by simp
    have e: "\<exists>b'. ?w v = ubjson_prefix v # b' \<and> v \<noteq> JDiscarded \<and> reads_as L le (?val (uint (ubjson_prefix v))) b' (?g v)"
      if v: "v \<in> set xs" for v
    proof -
      obtain b' where "?w v = ubjson_prefix v # b'" "write_ubjson le' uc ut False v = Inr b'"
        using ubjson_prefixed_Inr [OF ok [OF v], of le' uc ut "?w v"] w(2) [OF v] pr(1) by auto
      then show ?thesis using inner [OF v, of b'] l [OF v] m ok [OF v] by auto
    qed
    have "?w v \<noteq> []" if "v \<in> set xs" for v using e [OF that] by auto
    then have "length xs \<le> length b1" using count_le_concat [of xs ?w] w(1) by simp
    then show ?thesis
      using uncounted_array [of xs ?w L le ?val ?g m] e m f(3) False pr w(1)
      by (simp add: ubjson_prefix_def ubjson_value_def)
  qed
qed

lemma ubjson_object_reads:
  assumes "sizes_ok c (2 ^ 63) (JObject ms)" "c \<le> unat L" "c < 2 ^ 63"
    and "write_ubjson le' uc ut False (JObject ms) = Inr b" "length b < Suc m"
    and inner: "\<And>k v b'. (k, v) \<in> set ms \<Longrightarrow> write_ubjson le' uc ut False v = Inr b' \<Longrightarrow> length b' < m \<Longrightarrow>
      reads_as L le (get_ubjson_value m dom_sax (uint (ubjson_prefix v))) b' (map_leaves ubjson_leaf v)"
  shows "reads_as L le (get_ubjson_value (Suc m) dom_sax (uint (ubjson_prefix (JObject ms)))) b
    (map_leaves ubjson_leaf (JObject ms))"
proof -
  let ?val = "get_ubjson_value m dom_sax" and ?g = "map_leaves ubjson_leaf"
  obtain pr front b1 where f: "ubjson_front le' uc ut (map snd ms) = Inr (pr, front)"
    "ubjson_members le' uc ut pr ms = Inr b1" "b = front @ b1 @ (if uc then [] else [0x7D])"
    using assms(4) by (auto simp: bind_res_eq_Inr prefixed_def)
  let ?w = "written_as le' uc ut pr" and ?k = "key_bytes le'"
  have w: "b1 = concat (map (\<lambda>(k, v). ?k k @ ?w v) ms)"
    "(k, v) \<in> set ms \<Longrightarrow> write_ubjson le' uc ut pr v = Inr (?w v) \<and> ubjson_string le' k = Inr (?k k)" for k v
    using ubjson_members_written [OF f(2)] by blast+
  have ok: "v \<noteq> JDiscarded" "length k < 2 ^ 63" if "(k, v) \<in> set ms" for k v
    using assms(1) that by auto
  have l: "length (?k k) + length (?w v) \<le> length b1" if "(k, v) \<in> set ms" for k v
    using length_le_concat [OF that, of "\<lambda>(k, v). ?k k @ ?w v"] w(1) by simp
  show ?thesis
  proof (cases uc)
    case True
    have m: "length b1 < m"
      using f(3) assms(5) front_not_Nil [of le' ut "map snd ms" pr front] f(1) True by (cases front) auto
    have "v \<noteq> JDiscarded \<and> length k < 2 ^ 63 \<and> ubjson_string le' k = Inr (?k k) \<and>
        reads_as L le (element_reader ?val pr (map snd ms)) (?w v) (?g v)" if v: "(k, v) \<in> set ms" for k v
    proof -
      have "v \<in> set (map snd ms)" using v by force
      then have "reads_as L le (element_reader ?val pr (map snd ms)) (?w v) (?g v)"
        using element_reads [where val = ?val and x = "?g v" and b = "?w v", OF f(1) _ ok(1) [OF v]] w(2) [OF v] inner [OF v] l [OF v] m by simp
      then show ?thesis using ok [OF v] w(2) [OF v] by simp
    qed
    then show ?thesis
      using counted_object [of le' ut ms pr front c L ?k le ?val ?w ?g m] f w(1) True assms(1) assms(2,3)
      by (simp add: ubjson_prefix_def ubjson_value_def)
  next
    case False
    then have pr: "pr" "front = []" using front_uncounted [of le' ut "map snd ms"] f(1) by simp_all
    have m: "length b1 < m" using f(3) assms(5) False pr by simp
    have e: "\<exists>p ns b'. ?k k @ ?w v = p # ns @ k @ ubjson_prefix v # b' \<and> length_bytes (length k) p ns \<and>
        v \<noteq> JDiscarded \<and> reads_as L le (?val (uint (ubjson_prefix v))) b' (?g v)"
      if v: "(k, v) \<in> set ms" for k v
    proof -
      obtain b' where b': "?w v = ubjson_prefix v # b'" "write_ubjson le' uc ut False v = Inr b'"
        using ubjson_prefixed_Inr [OF ok(1) [OF v], of le' uc ut "?w v"] w(2) [OF v] pr(1) by auto
      obtain p ns where "?k k = p # ns @ k" "length_bytes (length k) p ns"
        using ubjson_string_bytes [OF ok(2) [OF v], of le'] w(2) [OF v] by auto
      then show ?thesis using b' inner [OF v, of b'] l [OF v] m ok(1) [OF v] by auto
    qed
    have "(\<lambda>(k, v). ?k k @ ?w v) kv \<noteq> []" if "kv \<in> set ms" for kv using e [of "fst kv" "snd kv"] that by (auto simp: case_prod_unfold)
    then have "length ms \<le> length b1" using count_le_concat [of ms "\<lambda>(k, v). ?k k @ ?w v"] w(1) by simp
    then show ?thesis
      using uncounted_object [of ms "\<lambda>k v. ?k k @ ?w v" L le ?val ?g m] e m f(3) False pr w(1) assms(1)
      by (simp add: ubjson_prefix_def ubjson_value_def)
  qed
qed

lemma ubjson_reads:
  assumes "sizes_ok c (2 ^ 63) j" "c \<le> unat L" "c < 2 ^ 63" "write_ubjson le' uc ut False j = Inr b" "length b < n"
  shows "reads_as L le (get_ubjson_value n dom_sax (uint (ubjson_prefix j))) b (map_leaves ubjson_leaf j)"
  using assms(1,4,5)
proof (induction j arbitrary: n b)
  case JNull
  then show ?case
    by (cases n) (auto simp: prefixed_def ubjson_prefix_def ubjson_value_def ubjson_leaf_def intro!: nothing_reads)
next
  case (JBoolean x)
  then show ?case
    by (cases n; cases x) (auto simp: prefixed_def ubjson_prefix_def ubjson_value_def ubjson_leaf_def intro!: nothing_reads)
next
  case (JFloat x)
  then show ?case
    by (cases n)
      (auto simp: prefixed_def ubjson_prefix_def ubjson_value_def ubjson_leaf_def intro!: number_reads [where f = JFloat])
next
  case (JInteger x)
  then show ?case using ubjson_signed_reads by (cases n) (auto simp del: get_ubjson_value.simps)
next
  case (JUnsigned x)
  then show ?case using ubjson_signed_reads ubjson_unsigned_leaf [of le' x False b]
    by (cases n) (auto simp del: get_ubjson_value.simps)
next
  case (JString s)
  then obtain m where n: "n = Suc m" by (cases n) auto
  have s: "length s < 2 ^ 63" "ubjson_string le' s = Inr b"
    using JString by (auto simp: prefixed_def bind_res_eq_Inr)
  have "\<exists>r'. left_at r rest r' \<and> get_ubjson_value n dom_sax 0x53 r = rd_sax (dom_value (JString s)) r'"
    if "bin_input r = b @ rest" for r rest
    using string_next [OF s(2,1) that] n by (auto simp: ubjson_value_def rd_with_def rd_bind_ok)
  then show ?case by (intro value_reads) (simp add: ubjson_leaf_def ubjson_prefix_def)
next
  case (JArray xs)
  then obtain m where n: "n = Suc m" by (cases n) auto
  have "sizes_ok c (2 ^ 63) v" if "v \<in> set xs" for v using JArray.prems(1) that by auto
  then show ?case using ubjson_array_reads [OF JArray.prems(1) assms(2,3) JArray.prems(2)] JArray.IH JArray.prems(3) n by blast
next
  case (JObject ms)
  then obtain m where n: "n = Suc m" by (cases n) auto
  have "sizes_ok c (2 ^ 63) v" if "(k, v) \<in> set ms" for k v using JObject.prems(1) that by auto
  then have "reads_as L le (get_ubjson_value m dom_sax (uint (ubjson_prefix v))) b' (map_leaves ubjson_leaf v)"
    if "(k, v) \<in> set ms" "write_ubjson le' uc ut False v = Inr b'" "length b' < m" for k v b'
    using JObject.IH [OF that(1), of v b' m] that by simp
  then show ?case
    using ubjson_object_reads [OF JObject.prems(1) assms(2,3) JObject.prems(2)] JObject.prems(3) n by blast
qed simp

end
