(* ===== verification/Json_Bson.thy ===== *)
theory Json_Bson
  imports Json_Binary
begin

text \<open>
  BSON: \<open>parse_bson_internal\<close> and the functions below it in
  \<open>src/nlohmann/detail/input/binary_reader.hpp\<close>, and \<open>write_bson\<close> and the functions below it in
  \<open>src/nlohmann/detail/output/binary_writer.hpp\<close>.
\<close>

section \<open>Reading\<close>

primrec get_bson_cstr :: "nat \<Rightarrow> 'h sax \<Rightarrow> byte list \<Rightarrow> ('h, byte list option) rd" where
  "get_bson_cstr 0 S acc = (\<lambda>r. None)"
| "get_bson_cstr (Suc n) S acc =
     rd_bind binary_get (\<lambda>c.
     rd_bind (unexpect_eof S bson_format ''cstring'') (\<lambda>b.
     if \<not> b then rd_return None
     else if c = 0 then rd_return (Some acc)
     else get_bson_cstr n S (acc @ [word_of_int c])))"

text \<open>
  Behind the characters of the string a terminator is read, whatever it is; at the end of the input
  the answer is false, without an error for the handler.
\<close>

definition int_to_string :: "int \<Rightarrow> string" where
  "int_to_string n = (if n < 0 then ''-'' @ to_string (nat (- n)) else to_string (nat n))"

definition get_bson_string :: "'h sax \<Rightarrow> 32 word \<Rightarrow> ('h, byte list option) rd" where
  "get_bson_string S len =
     (if sint len < 1
      then rd_bind rd_current (\<lambda>c.
        rd_bind (binary_error S bson_format 112 (hex_byte c)
          (''string length must be at least 1, is '' @ int_to_string (sint len)) ''string'')
          (\<lambda>b. rd_return (if b then Some [] else None)))
      else rd_bind (binary_get_string S bson_format (nat (sint len - 1))) (\<lambda>v.
        case v of
          None \<Rightarrow> rd_return None
        | Some s \<Rightarrow> rd_bind binary_get (\<lambda>c. rd_return (if c \<noteq> - 1 then Some s else None))))"

text \<open>
  Documents and arrays: four bytes that are read and not used, and the list of elements.
\<close>

definition bson_container ::
    "'h sax \<Rightarrow> (u64 \<Rightarrow> 'h \<Rightarrow> (bool \<times> 'h) res) \<Rightarrow> ('h \<Rightarrow> (bool \<times> 'h) res) \<Rightarrow> ('h, bool) rd \<Rightarrow> ('h, bool) rd" where
  "bson_container S start finish elements =
     rd_bind (get_number S True bson_format) (\<lambda>document_size :: 32 word option.
     rd_and (rd_sax (start (- 1))) (rd_and elements (rd_sax finish)))"

text \<open>\<open>parse_bson_internal\<close> and \<open>parse_bson_array\<close>, for the reader of the list of elements.\<close>

definition parse_bson_internal :: "'h sax \<Rightarrow> (bool \<Rightarrow> ('h, bool) rd) \<Rightarrow> ('h, bool) rd" where
  "parse_bson_internal S rec = bson_container S (sax_start_object S) (sax_end_object S) (rec False)"

definition parse_bson_array :: "'h sax \<Rightarrow> (bool \<Rightarrow> ('h, bool) rd) \<Rightarrow> ('h, bool) rd" where
  "parse_bson_array S rec = bson_container S (sax_start_array S) (sax_end_array S) (rec True)"

definition parse_bson_element_internal ::
    "'h sax \<Rightarrow> (bool \<Rightarrow> ('h, bool) rd) \<Rightarrow> int \<Rightarrow> nat \<Rightarrow> ('h, bool) rd" where
  "parse_bson_element_internal S rec element_type element_type_parse_position =
     (if element_type = 0x01 then rd_with (get_number S True bson_format) (\<lambda>n :: u64. rd_sax (sax_number_float S n []))
      else if element_type = 0x02
      then rd_with (get_number S True bson_format) (\<lambda>len.
           rd_with (get_bson_string S len) (\<lambda>s. rd_sax (sax_string S s)))
      else if element_type = 0x03 then parse_bson_internal S rec
      else if element_type = 0x04 then parse_bson_array S rec
      else if element_type = 0x08 then rd_bind binary_get (\<lambda>c. rd_sax (sax_boolean S (c \<noteq> 0)))
      else if element_type = 0x0A then rd_sax (sax_null S)
      else if element_type = 0x10 then rd_with (get_number S True bson_format) (\<lambda>n :: u32. rd_sax (sax_number_integer S (scast n)))
      else if element_type = 0x12 then rd_with (get_number S True bson_format) (\<lambda>n :: u64. rd_sax (sax_number_integer S n))
      else rd_sax (sax_parse_error S element_type_parse_position (hex_byte element_type)
             (parse_error_at 114 element_type_parse_position
               (''Unsupported BSON record type 0x'' @ hex_byte element_type))))"

definition rd_position :: "('h, nat) rd" where
  "rd_position r = Some (Inr (bin_read r, r))"

text \<open>\<open>parse_bson_element_list\<close>: the fuel bounds the nesting and the number of elements.\<close>

primrec bson_elements :: "nat \<Rightarrow> nat \<Rightarrow> 'h sax \<Rightarrow> (bool \<Rightarrow> ('h, bool) rd) \<Rightarrow> bool \<Rightarrow> ('h, bool) rd" where
  "bson_elements 0 m S rec is_arr = (\<lambda>r. None)"
| "bson_elements (Suc n) m S rec is_arr =
     rd_bind binary_get (\<lambda>element_type.
     if element_type = 0 then rd_return True
     else rd_and (unexpect_eof S bson_format ''element list'') (
       rd_bind rd_position (\<lambda>pos.
       rd_and (rd_with (get_bson_cstr m S []) (\<lambda>key. if is_arr then rd_return True else rd_sax (sax_key S key))) (
       rd_and (parse_bson_element_internal S rec element_type pos) (
       bson_elements n m S rec is_arr)))))"

primrec parse_bson_element_list :: "nat \<Rightarrow> 'h sax \<Rightarrow> bool \<Rightarrow> ('h, bool) rd" where
  "parse_bson_element_list 0 S is_arr = (\<lambda>r. None)"
| "parse_bson_element_list (Suc n) S is_arr = bson_elements n n S (parse_bson_element_list n S) is_arr"

section \<open>Writing\<close>

definition calc_bson_entry_header_size :: "byte list \<Rightarrow> nat res" where
  "calc_bson_entry_header_size name =
     (if 0 \<in> set name
      then json_throw (out_of_range_create 409 (''BSON key cannot contain code point U+0000 (at byte '' @
        to_string (length (takeWhile (\<lambda>b. b \<noteq> 0) name)) @ '')''))
      else Inr (1 + length name + 1))"

text \<open>The characters of \<open>name.c_str ()\<close> with the terminator.\<close>

definition write_bson_entry_header :: "byte list \<Rightarrow> byte \<Rightarrow> byte list" where
  "write_bson_entry_header name element_type = element_type # name @ [0]"

definition calc_bson_string_size :: "byte list \<Rightarrow> nat" where
  "calc_bson_string_size s = 4 + length s + 1"

definition calc_bson_integer_size :: "int64 \<Rightarrow> nat" where
  "calc_bson_integer_size n = (if - (2 ^ 31) \<le> sint n \<and> sint n < 2 ^ 31 then 4 else 8)"

definition calc_bson_unsigned_size :: "u64 \<Rightarrow> nat" where
  "calc_bson_unsigned_size n = (if unat n < 2 ^ 31 then 4 else 8)"

definition write_bson_boolean :: "byte list \<Rightarrow> bool \<Rightarrow> byte list" where
  "write_bson_boolean name b = write_bson_entry_header name 0x08 @ [if b then 0x01 else 0x00]"

definition write_bson_double :: "bool \<Rightarrow> byte list \<Rightarrow> double \<Rightarrow> byte list" where
  "write_bson_double le name x = write_bson_entry_header name 0x01 @ write_number le True x"

definition write_bson_string :: "bool \<Rightarrow> byte list \<Rightarrow> byte list \<Rightarrow> byte list" where
  "write_bson_string le name s =
     write_bson_entry_header name 0x02 @ write_number le True (of_nat (length s + 1) :: u32) @ s @ [0]"

definition write_bson_null :: "byte list \<Rightarrow> byte list" where
  "write_bson_null name = write_bson_entry_header name 0x0A"

definition write_bson_integer :: "bool \<Rightarrow> byte list \<Rightarrow> int64 \<Rightarrow> byte list" where
  "write_bson_integer le name n =
     (if - (2 ^ 31) \<le> sint n \<and> sint n < 2 ^ 31
      then write_bson_entry_header name 0x10 @ write_number le True (ucast n :: u32)
      else write_bson_entry_header name 0x12 @ write_number le True n)"

definition write_bson_unsigned :: "bool \<Rightarrow> byte list \<Rightarrow> u64 \<Rightarrow> byte list res" where
  "write_bson_unsigned le name n =
     (if unat n < 2 ^ 31 then Inr (write_bson_entry_header name 0x10 @ write_number le True (ucast n :: u32))
      else if unat n < 2 ^ 63 then Inr (write_bson_entry_header name 0x12 @ write_number le True n)
      else json_throw (out_of_range_create 407 (''integer number '' @ to_string (unat n) @
        '' cannot be represented by BSON as it does not fit int64'')))"

text \<open>
  The sizes of elements, arrays from the index \<open>i\<close> on and objects; the keys of the elements of an
  array are their indices (\<open>index_key\<close>).
\<close>

fun calc_bson_element_size :: "byte list \<Rightarrow> json \<Rightarrow> nat res"
  and bson_array_size :: "nat \<Rightarrow> json list \<Rightarrow> nat res"
  and bson_object_size :: "(byte list \<times> json) list \<Rightarrow> nat res" where
  "calc_bson_element_size name j =
     bind_res (calc_bson_entry_header_size name) (\<lambda>header_size.
     case j of
       JObject m \<Rightarrow> bind_res (bson_object_size m) (\<lambda>n. Inr (header_size + (4 + n + 1)))
     | JArray xs \<Rightarrow> bind_res (bson_array_size 0 xs) (\<lambda>n. Inr (header_size + (4 + n + 1)))
     | JBoolean _ \<Rightarrow> Inr (header_size + 1)
     | JFloat _ \<Rightarrow> Inr (header_size + 8)
     | JInteger n \<Rightarrow> Inr (header_size + calc_bson_integer_size n)
     | JUnsigned n \<Rightarrow> Inr (header_size + calc_bson_unsigned_size n)
     | JString s \<Rightarrow> Inr (header_size + calc_bson_string_size s)
     | JNull \<Rightarrow> Inr (header_size + 0)
     | JDiscarded \<Rightarrow> Inl (AssertFailed ''false''))"
| "bson_array_size i [] = Inr 0"
| "bson_array_size i (v # vs) =
     bind_res (calc_bson_element_size (index_key i) v) (\<lambda>n.
     bind_res (bson_array_size (Suc i) vs) (\<lambda>k. Inr (n + k)))"
| "bson_object_size [] = Inr 0"
| "bson_object_size ((k, v) # m) =
     bind_res (calc_bson_element_size k v) (\<lambda>n.
     bind_res (bson_object_size m) (\<lambda>k. Inr (n + k)))"

definition calc_bson_array_size :: "json list \<Rightarrow> nat res" where
  "calc_bson_array_size xs = bind_res (bson_array_size 0 xs) (\<lambda>n. Inr (4 + n + 1))"

definition calc_bson_object_size :: "(byte list \<times> json) list \<Rightarrow> nat res" where
  "calc_bson_object_size m = bind_res (bson_object_size m) (\<lambda>n. Inr (4 + n + 1))"

text \<open>
  An array or object: its size as \<open>std::int32_t\<close>, its elements and a zero.
\<close>

definition bson_document :: "bool \<Rightarrow> nat res \<Rightarrow> byte list res \<Rightarrow> byte list res" where
  "bson_document le document_size elements =
     bind_res document_size (\<lambda>n.
     bind_res elements (\<lambda>b. Inr (write_number le True (of_nat n :: u32) @ b @ [0])))"

fun write_bson_element :: "bool \<Rightarrow> byte list \<Rightarrow> json \<Rightarrow> byte list res"
  and write_bson_elements :: "bool \<Rightarrow> nat \<Rightarrow> json list \<Rightarrow> byte list res"
  and write_bson_members :: "bool \<Rightarrow> (byte list \<times> json) list \<Rightarrow> byte list res" where
  "write_bson_element le name (JObject m) =
     bind_res (bson_document le (calc_bson_object_size m) (write_bson_members le m)) (\<lambda>b.
     Inr (write_bson_entry_header name 0x03 @ b))"
| "write_bson_element le name (JArray xs) =
     bind_res (bson_document le (calc_bson_array_size xs) (write_bson_elements le 0 xs)) (\<lambda>b.
     Inr (write_bson_entry_header name 0x04 @ b))"
| "write_bson_element le name (JBoolean b) = Inr (write_bson_boolean name b)"
| "write_bson_element le name (JFloat x) = Inr (write_bson_double le name x)"
| "write_bson_element le name (JInteger n) = Inr (write_bson_integer le name n)"
| "write_bson_element le name (JUnsigned n) = write_bson_unsigned le name n"
| "write_bson_element le name (JString s) = Inr (write_bson_string le name s)"
| "write_bson_element le name JNull = Inr (write_bson_null name)"
| "write_bson_element le name JDiscarded = Inl (AssertFailed ''false'')"
| "write_bson_elements le i [] = Inr []"
| "write_bson_elements le i (v # vs) =
     bind_res (write_bson_element le (index_key i) v) (\<lambda>b.
     bind_res (write_bson_elements le (Suc i) vs) (\<lambda>bs. Inr (b @ bs)))"
| "write_bson_members le [] = Inr []"
| "write_bson_members le ((k, v) # m) =
     bind_res (write_bson_element le k v) (\<lambda>b.
     bind_res (write_bson_members le m) (\<lambda>bs. Inr (b @ bs)))"

definition write_bson_object :: "bool \<Rightarrow> (byte list \<times> json) list \<Rightarrow> byte list res" where
  "write_bson_object le m = bson_document le (calc_bson_object_size m) (write_bson_members le m)"

definition write_bson :: "bool \<Rightarrow> json \<Rightarrow> byte list res" where
  "write_bson le j =
     (case j of
        JObject m \<Rightarrow> write_bson_object le m
      | _ \<Rightarrow> json_throw (type_error_create 317
          (''to serialize to BSON, top-level type must be object, but is '' @ type_name j)))"

end
