(* ===== verification/Json_Bson_Roundtrip.thy ===== *)
theory Json_Bson_Roundtrip
  imports Json_Bson Json_Binary_Rules
begin

text \<open>
  What \<open>to_bson\<close> writes, \<open>from_bson\<close> reads back on a machine with the same byte order: the same value,
  where every integer is a signed one.
\<close>

section \<open>Keys\<close>

lemma get_bson_cstr_ok:
  assumes "bin_input r = k @ 0 # rest" "0 \<notin> set k" "length k < n"
  shows "\<exists>r'. get_bson_cstr n S acc r = Some (Inr (Some (acc @ k), r')) \<and> left_at r rest r'"
  using assms
proof (induction k arbitrary: n acc r)
  case Nil
  then obtain m where n: "n = Suc m" by (cases n) auto
  have "get_bson_cstr n S acc r = Some (Inr (Some acc, fed 0 rest r))"
    using Nil by (simp add: n get_bind rd_return_def)
  then show ?case by (auto simp: left_at_def)
next
  case (Cons b k)
  then obtain m where n: "n = Suc m" by (cases n) auto
  let ?r = "fed b (k @ 0 # rest) r"
  obtain r' where "get_bson_cstr m S (acc @ [b]) ?r = Some (Inr (Some ((acc @ [b]) @ k), r'))" "left_at ?r rest r'"
    using Cons.IH [of ?r m "acc @ [b]"] Cons.prems n by auto
  moreover have "uint b \<noteq> 0" using Cons.prems(2) word_uint_eq_iff [of b 0] by auto
  ultimately show ?case
    using Cons.prems(1) left_at_fed [of b "k @ 0 # rest" r rest r'] by (auto simp: n get_bind uint_not_eof)
qed

text \<open>The keys of arrays are digits.\<close>

lemma index_key_digits: "0 \<notin> set (index_key i)"
proof -
  have digits: "\<forall>c \<in> set (to_string n). of_char c \<in> {48..57 :: nat}" for n
  proof (induction n rule: to_string.induct)
    case (1 n)
    then show ?case by (subst to_string.simps) (auto simp: of_char_of)
  qed
  have "(of_char c :: byte) \<noteq> 0" if "c \<in> set (to_string i)" for c
  proof -
    have "of_char c \<in> {48..57 :: nat}" using digits that by blast
    then have "(of_nat (of_char c) :: byte) \<noteq> 0"
      using word_of_nat_eq_0_iff [where 'a = 8, of "of_char c"] by (auto dest: dvd_imp_le)
    then show ?thesis by (simp only: of_nat_of_char not_False_eq_True)
  qed
  then show ?thesis by (force simp: index_key_def)
qed

section \<open>Lists of elements\<close>

lemma bson_loop:
  fixes Q :: "'x \<Rightarrow> byte list \<Rightarrow> rd_state"
  assumes feed: "\<And>x b bs r. Q x (b # bs) r \<Longrightarrow> Q x bs (fed b bs r)"
    and input: "\<And>x bs r. Q x bs r \<Longrightarrow> bin_input r = bs"
    and later: "\<And>x bs r rest r'. Q x bs r \<Longrightarrow> left_at r rest r' \<Longrightarrow> Q x rest r'"
    and start: "\<And>i. i \<in> set items \<Longrightarrow> w i = t i # k i @ 0 # p i \<and> t i \<noteq> 0 \<and> 0 \<notin> set (k i) \<and> length (k i) < m"
    and step: "\<And>i x rest r pos. i \<in> set items \<Longrightarrow> ok x \<Longrightarrow> Q x (p i @ rest) r \<Longrightarrow>
        leads (rd_and (if arr then rd_return True else rd_sax (dom_key (k i)))
          (parse_bson_element_internal dom_sax rec (uint (t i)) pos)) r (Q (st x i) rest) \<and> ok (st x i)"
    and now: "ok x" "Q x (concat (map w items) @ 0 # rest) r" "length items < n"
  shows "leads (bson_elements n m dom_sax rec arr) r (Q (foldl st x items) rest)"
  using start step now
proof (induction items arbitrary: x r n)
  case Nil
  then obtain n' where n: "n = Suc n'" by (cases n) auto
  have "Q x (0 # rest) r" using Nil by simp
  then have "leads (rd_return True) (fed 0 rest r) (Q x rest)" using feed by simp
  then show ?case by (simp add: n leads_def get_bind [OF input [OF \<open>Q x (0 # rest) r\<close>]])
next
  case (Cons i items)
  obtain n' where n: "n = Suc n'" using Cons.prems(5) by (cases n) auto
  let ?z = "concat (map w items) @ 0 # rest"
  have w: "w i = t i # k i @ 0 # p i" "t i \<noteq> 0" "0 \<notin> set (k i)" "length (k i) < m" using Cons.prems(1) [of i] by auto
  let ?r = "fed (t i) (k i @ 0 # p i @ ?z) r"
  have q: "Q x (t i # k i @ 0 # p i @ ?z) r" using Cons.prems(4) w(1) by simp
  have q': "Q x (k i @ 0 # p i @ ?z) ?r" using feed [OF q] .
  obtain r1 where r1: "get_bson_cstr m dom_sax [] ?r = Some (Inr (Some (k i), r1))" "left_at ?r (p i @ ?z) r1"
    using get_bson_cstr_ok [of ?r "k i" "p i @ ?z" m dom_sax "[]"] w(3,4) by auto
  let ?key = "if arr then rd_return True else rd_sax (dom_key (k i))"
  let ?el = "parse_bson_element_internal dom_sax rec (uint (t i)) (bin_read ?r)"
  have item: "leads (rd_and ?key ?el) r1 (Q (st x i) ?z)" "ok (st x i)"
    using Cons.prems(2) [of i x ?z r1 "bin_read ?r"] Cons.prems(3) later [OF q' r1(2)] by simp_all
  have "leads (bson_elements n' m dom_sax rec arr) r2 (Q (foldl st x (i # items)) rest)" if "Q (st x i) ?z r2" for r2
    using Cons.IH [OF _ _ item(2) that] Cons.prems(1,2,5) n by simp
  then have "leads (rd_and (rd_and ?key ?el) (bson_elements n' m dom_sax rec arr)) r1 (Q (foldl st x (i # items)) rest)"
    using leads_and [OF item(1)] by blast
  moreover have "bson_elements n m dom_sax rec arr r = rd_and (rd_and ?key ?el) (bson_elements n' m dom_sax rec arr) r1"
  proof -
    have "uint (t i) \<noteq> 0" using w(2) word_uint_eq_iff [of "t i" 0] by simp
    then show ?thesis
      using r1(1) by (simp add: n get_bind [OF input [OF q]] unexpect_eof_and rd_position_def rd_bind_ok [of rd_position] rd_and_with rd_and_assoc uint_not_eof)
  qed
  ultimately show ?case by (simp add: leads_def)
qed

section \<open>Values\<close>

definition signed_leaf :: "json \<Rightarrow> json" where
  "signed_leaf j = (case j of JUnsigned n \<Rightarrow> JInteger n | _ \<Rightarrow> j)"

lemma little_number_reads:
  assumes "\<And>r. m r = rd_with (get_number S True fmt) (\<lambda>n :: 'w::len word. rd_sax (dom_value (f n))) r"
    "LENGTH('w) = 8 * wsize TYPE('w)"
  shows "reads_as L le m (write_number le True (w :: 'w word)) (f w)"
proof (rule reads_asI)
  fix fs rest r
  assume h: "at_hole L le fs (write_number le True w @ rest) r"
  then have "le = bin_little_endian r" by (simp add: at_defs)
  then obtain r' where "left_at r rest r'" "m r = rd_sax (dom_value (f w)) r'"
    using number_follows_order [OF hole_input [OF h] assms(2), of m S fmt "rd_return False" "\<lambda>w. rd_sax (dom_value (f w))"]
      assms(1) by (auto simp: rd_with_def)
  then show "leads m r (at_filled L le fs (f w) rest)" using value_leads h by blast
qed

lemma bson_container_reads:
  assumes "\<And>fs rest r. at_open L le fs v0 (els @ 0 # rest) r \<Longrightarrow> leads elements r (at_open L le fs v rest)"
  shows "reads_as L le (bson_container dom_sax (dom_start v0 what) dom_end elements) (write_number le True (sz :: u32) @ els @ [0]) v"
proof (rule reads_asI)
  fix fs rest r
  let ?m = "bson_container dom_sax (dom_start v0 what) dom_end elements"
  assume h: "at_hole L le fs ((write_number le True sz @ els @ [0]) @ rest) r"
  then have i: "bin_input r = write_number le True sz @ (els @ 0 # rest)" "le = bin_little_endian r"
    by (simp_all add: at_defs)
  obtain r' where r': "get_number dom_sax True bson_format r = Some (Inr (Some sz, r'))" "left_at r (els @ 0 # rest) r'"
    using get_number_ok [OF i(1), of dom_sax bson_format] i(2) by auto
  have "leads (rd_and (rd_sax (dom_start v0 what (- 1))) (rd_and elements (rd_sax dom_end))) r' (at_filled L le fs v rest)"
    using assms by (blast intro: leads_and sax_start_leads [OF at_left(1) [OF h r'(2)]] sax_end_leads)
  then show "leads ?m r (at_filled L le fs v rest)"
    using r'(1) by (simp add: leads_def bson_container_def rd_bind_ok)
qed

text \<open>An element in the input: its type, its name and its value.\<close>

definition element_as :: "u64 \<Rightarrow> bool \<Rightarrow> nat \<Rightarrow> byte list \<Rightarrow> byte list \<Rightarrow> json \<Rightarrow> bool" where
  "element_as L le n name b v \<longleftrightarrow> (\<exists>t p. b = t # name @ 0 # p \<and> t \<noteq> 0 \<and>
     (\<forall>pos. reads_as L le (parse_bson_element_internal dom_sax (parse_bson_element_list n dom_sax) (uint t) pos) p v))"

lemma element_asI:
  assumes "t \<noteq> 0" "\<And>pos. reads_as L le (parse_bson_element_internal dom_sax (parse_bson_element_list n dom_sax) (uint t) pos) p v"
  shows "element_as L le n name (write_bson_entry_header name t @ p) v"
  using assms by (auto simp: element_as_def write_bson_entry_header_def)

text \<open>What the writer gives for lists of elements.\<close>

lemma bson_elements_written:
  "write_bson_elements le j xs = Inr b \<Longrightarrow>
     b = concat (map (\<lambda>(i, v). projr (write_bson_element le (index_key i) v)) (enumerate j xs)) \<and>
     (\<forall>i v. (i, v) \<in> set (enumerate j xs) \<longrightarrow>
        write_bson_element le (index_key i) v = Inr (projr (write_bson_element le (index_key i) v)))"
  by (induction xs arbitrary: j b) (auto simp: bind_res_eq_Inr)

lemma bson_members_written:
  "write_bson_members le ms = Inr b \<Longrightarrow>
     b = concat (map (\<lambda>(k, v). projr (write_bson_element le k v)) ms) \<and>
     (\<forall>k v. (k, v) \<in> set ms \<longrightarrow> write_bson_element le k v = Inr (projr (write_bson_element le k v)))"
  by (induction ms arbitrary: b) (auto simp: bind_res_eq_Inr)

lemma element_as_parts:
  assumes "element_as L le m name b v"
  shows "b = hd b # name @ 0 # drop (length name + 2) b" "hd b \<noteq> 0"
    "reads_as L le (parse_bson_element_internal dom_sax (parse_bson_element_list m dom_sax) (uint (hd b)) z)
      (drop (length name + 2) b) v"
  using assms by (auto simp: element_as_def)

lemma bson_array_loop:
  assumes "\<And>i v. (i, v) \<in> set (enumerate j xs) \<Longrightarrow>
      element_as L le m (index_key i) (w i v) (g v) \<and> length (w i v) \<le> m"
    and "at_open L le fs (JArray []) (concat (map (\<lambda>(i, v). w i v) (enumerate j xs)) @ 0 # rest) r" "length xs < m"
  shows "leads (parse_bson_element_list (Suc m) dom_sax True) r (at_open L le fs (JArray (map g xs)) rest)"
proof -
  let ?items = "enumerate j xs" and ?w = "\<lambda>(i, v). w i v" and ?st = "\<lambda>ys (i :: nat, v). ys @ [g v]"
  have "leads (bson_elements m m dom_sax (parse_bson_element_list m dom_sax) True) r
      (at_open L le fs (JArray (foldl ?st [] ?items)) rest)"
  proof (rule bson_loop [where w = ?w and ok = "\<lambda>_. True" and Q = "\<lambda>ys. at_open L le fs (JArray ys)"
        and t = "\<lambda>x. hd (?w x)" and k = "\<lambda>(i, v). index_key i" and p = "\<lambda>(i, v). drop (length (index_key i) + 2) (w i v)"])
    fix x assume x: "x \<in> set ?items"
    obtain i v where iv: "x = (i, v)" by (cases x)
    have "element_as L le m (index_key i) (w i v) (g v)" "length (w i v) \<le> m" using assms(1) x iv by auto
    then show "?w x = hd (?w x) # (case x of (i, v) \<Rightarrow> index_key i) @ 0 # (case x of (i, v) \<Rightarrow> drop (length (index_key i) + 2) (w i v)) \<and>
        hd (?w x) \<noteq> 0 \<and> 0 \<notin> set (case x of (i, v) \<Rightarrow> index_key i) \<and> length (case x of (i, v) \<Rightarrow> index_key i) < m"
      using index_key_digits by (auto simp: iv element_as_def)
  next
    fix x ys rest' r' pos
    assume x: "x \<in> set ?items" and q: "at_open L le fs (JArray ys) ((case x of (i, v) \<Rightarrow> drop (length (index_key i) + 2) (w i v)) @ rest') r'"
    obtain i v where iv: "x = (i, v)" by (cases x)
    have "element_as L le m (index_key i) (w i v) (g v)" using assms(1) x iv by auto
    from reads_asD [OF element_as_parts(3) [OF this], of "ArrayFrame ys # fs" rest' r' pos] hole_array [OF q]
    show "leads (rd_and (if True then rd_return True else rd_sax (dom_key (case x of (i, v) \<Rightarrow> index_key i)))
        (parse_bson_element_internal dom_sax (parse_bson_element_list m dom_sax) (uint (hd (?w x))) pos)) r'
        (at_open L le fs (JArray (?st ys x)) rest') \<and> True"
      by (simp add: iv filled_open rd_and_def)
  qed (use assms(2,3) at_fed(2) at_left(2) open_input in auto)
  moreover have "foldl ?st [] ?items = map g xs"
    by (induction xs arbitrary: j rule: rev_induct) (simp_all add: enumerate_append_eq)
  ultimately show ?thesis by simp
qed

lemma bson_object_loop:
  assumes "\<And>k v. (k, v) \<in> set ms \<Longrightarrow> element_as L le m k (w k v) (g v) \<and> length (w k v) \<le> m \<and> 0 \<notin> set k"
    and "at_open L le fs (JObject []) (concat (map (\<lambda>(k, v). w k v) ms) @ 0 # rest) r" "length ms < m" "map_ok ms"
  shows "leads (parse_bson_element_list (Suc m) dom_sax False) r
    (at_open L le fs (JObject (map (\<lambda>(k, v). (k, g v)) ms)) rest)"
proof -
  let ?w = "\<lambda>(k, v). w k v" and ?st = "\<lambda>obj (k, v). map_assign k (g v) (map_at k obj)"
  have "leads (bson_elements m m dom_sax (parse_bson_element_list m dom_sax) False) r
      (at_open L le fs (JObject (foldl ?st [] ms)) rest)"
  proof (rule bson_loop [where w = ?w and ok = map_ok and Q = "\<lambda>obj. at_open L le fs (JObject obj)"
        and t = "\<lambda>x. hd (?w x)" and k = fst and p = "\<lambda>(k, v). drop (length k + 2) (w k v)"])
    fix x assume x: "x \<in> set ms"
    obtain k v where kv: "x = (k, v)" by (cases x)
    have "element_as L le m k (w k v) (g v)" "length (w k v) \<le> m" "0 \<notin> set k" using assms(1) x kv by auto
    then show "?w x = hd (?w x) # fst x @ 0 # (case x of (k, v) \<Rightarrow> drop (length k + 2) (w k v)) \<and>
        hd (?w x) \<noteq> 0 \<and> 0 \<notin> set (fst x) \<and> length (fst x) < m"
      by (auto simp: kv element_as_def)
  next
    fix x obj rest' r' pos
    assume x: "x \<in> set ms" "map_ok obj"
      and q: "at_open L le fs (JObject obj) ((case x of (k, v) \<Rightarrow> drop (length k + 2) (w k v)) @ rest') r'"
    obtain k v where kv: "x = (k, v)" by (cases x)
    have e: "element_as L le m k (w k v) (g v)" using assms(1) x kv by auto
    have "leads (rd_sax (dom_key k)) r' (at_hole L le (ObjectFrame (map_at k obj) k # fs) (drop (length k + 2) (w k v) @ rest'))"
      using sax_key_leads q x(2) kv by simp
    moreover have "leads (parse_bson_element_internal dom_sax (parse_bson_element_list m dom_sax) (uint (hd (w k v))) pos) r2
        (at_open L le fs (JObject (?st obj (k, v))) rest')"
      if "at_hole L le (ObjectFrame (map_at k obj) k # fs) (drop (length k + 2) (w k v) @ rest') r2" for r2
      using reads_asD [OF element_as_parts(3) [OF e] that, of pos] by (simp add: filled_open)
    ultimately show "leads (rd_and (if False then rd_return True else rd_sax (dom_key (fst x)))
        (parse_bson_element_internal dom_sax (parse_bson_element_list m dom_sax) (uint (hd (?w x))) pos)) r'
        (at_open L le fs (JObject (?st obj x)) rest') \<and> map_ok (?st obj x)"
      using leads_and map_ok_map_at [OF x(2)] by (simp add: kv)
  qed (use assms(2,3) at_fed(2) at_left(2) open_input in \<open>auto simp: map_ok_def\<close>)
  moreover have "foldl ?st [] ms = map (\<lambda>(k, v). (k, g v)) ms"
    using with_members_map_ok [OF assms(4), of g] by (simp add: with_members_def foldl_map case_prod_unfold)
  ultimately show ?thesis by simp
qed

lemma bson_string_reads:
  assumes "length s < 2 ^ 31 - 1"
  shows "reads_as L le (parse_bson_element_internal dom_sax rec 0x02 z)
    (write_number le True (of_nat (length s + 1) :: u32) @ s @ [0]) (JString s)"
proof (rule reads_asI)
  fix fs rest r
  let ?len = "of_nat (length s + 1) :: u32"
  assume h: "at_hole L le fs ((write_number le True ?len @ s @ [0]) @ rest) r"
  then have i: "bin_input r = write_number le True ?len @ (s @ 0 # rest)" "le = bin_little_endian r"
    by (simp_all add: at_defs)
  obtain r1 where r1: "get_number dom_sax True bson_format r = Some (Inr (Some ?len, r1))" "left_at r (s @ 0 # rest) r1"
    using get_number_ok [OF i(1), of dom_sax bson_format] i(2) by auto
  have "bin_input r1 = s @ 0 # rest" using r1(2) by (simp add: left_at_def)
  then obtain r2 where r2: "binary_get_string dom_sax bson_format (length s) r1 = Some (Inr (Some s, r2))" "left_at r1 (0 # rest) r2"
    using get_string_ok [of r1 s "0 # rest" "length s" dom_sax bson_format] by auto
  have i2: "bin_input r2 = 0 # rest" using r2(2) by (simp add: left_at_def)
  have "sint ?len = int (length s + 1)" using assms by (intro sint_of_nat) simp
  then have "nat (sint ?len - 1) = length s" "\<not> sint ?len < 1" by simp_all
  then have "get_bson_string dom_sax ?len r1 = Some (Inr (Some s, fed 0 rest r2))"
    using r2(1) by (simp add: get_bson_string_def rd_bind_ok get_bind [OF i2] rd_return_def del: of_nat_Suc of_nat_add)
  then have "parse_bson_element_internal dom_sax rec 0x02 z r = rd_sax (dom_value (JString s)) (fed 0 rest r2)"
    using r1(1) by (simp add: parse_bson_element_internal_def rd_with_def rd_bind_ok del: of_nat_Suc of_nat_add)
  moreover have "left_at r rest (fed 0 rest r2)" using r1(2) r2(2) by (simp add: left_at_def)
  ultimately show "leads (parse_bson_element_internal dom_sax rec 0x02 z) r (at_filled L le fs (JString s) rest)"
    using value_leads h by blast
qed

lemma bson_integer_as:
  "element_as L le n name (write_bson_integer le name x) (JInteger x)"
proof (cases "- (2 ^ 31) \<le> sint x \<and> sint x < 2 ^ 31")
  case True
  then have "scast (ucast x :: u32) = x" by (simp add: scast_back)
  moreover have "reads_as L le (parse_bson_element_internal dom_sax rec 0x10 z) (write_number le True (w :: u32)) (JInteger (scast w))"
    for rec z w
    by (rule little_number_reads [where f = "\<lambda>w. JInteger (scast w)"]) (simp_all add: parse_bson_element_internal_def)
  ultimately have "reads_as L le (parse_bson_element_internal dom_sax rec 0x10 z) (write_number le True (ucast x :: u32)) (JInteger x)"
    for rec z by metis
  then show ?thesis using True by (simp add: write_bson_integer_def) (rule element_asI, simp_all)
next
  case False
  have "reads_as L le (parse_bson_element_internal dom_sax rec 0x12 z) (write_number le True x) (JInteger x)" for rec z
    by (rule little_number_reads) (simp_all add: parse_bson_element_internal_def)
  then have "element_as L le n name (write_bson_entry_header name 0x12 @ write_number le True x) (JInteger x)"
    by (intro element_asI) simp_all
  then show ?thesis using False by (auto simp: write_bson_integer_def)
qed

lemma bson_unsigned_as:
  assumes "write_bson_unsigned le name x = Inr b"
  shows "element_as L le n name b (JInteger x)"
proof -
  have x: "unat x < 2 ^ 63" using assms by (auto simp: write_bson_unsigned_def json_throw_def split: if_splits)
  obtain N where "unat x = N" "sint x = int N" using sint_of_nat [of "unat x", where 'w = 64] x by simp
  then have "b = write_bson_integer le name x"
    using assms x by (auto simp: write_bson_unsigned_def write_bson_integer_def split: if_splits)
  then show ?thesis using bson_integer_as by simp
qed

lemma bson_document_parts:
  assumes "bson_document le sz els = Inr b"
  shows "\<exists>n e. sz = Inr n \<and> els = Inr e \<and> b = write_number le True (of_nat n :: u32) @ e @ [0]"
  using assms by (auto simp: bson_document_def bind_res_eq_Inr)

lemma bson_object_keys:
  "bson_object_size ms = Inr n \<Longrightarrow> (k, v) \<in> set ms \<Longrightarrow> 0 \<notin> set k"
  by (induction ms arbitrary: n)
    (auto simp: bind_res_eq_Inr calc_bson_entry_header_size_def json_throw_def split: if_splits)

text \<open>A container, for its elements.\<close>

lemma bson_array_as:
  assumes "write_bson_element le name (JArray xs) = Inr b" "length b < n"
    and inner: "\<And>i v b'. v \<in> set xs \<Longrightarrow> write_bson_element le (index_key i) v = Inr b' \<Longrightarrow> length b' < n - 1 \<Longrightarrow>
      element_as L le (n - 1) (index_key i) b' (g v)"
  shows "element_as L le n name b (JArray (map g xs))"
proof -
  obtain sz e where b: "b = write_bson_entry_header name 0x04 @ write_number le True (sz :: u32) @ e @ [0]"
    "write_bson_elements le 0 xs = Inr e"
    using assms(1) by (auto simp: bind_res_eq_Inr dest!: bson_document_parts)
  obtain m where n: "n = Suc m" using assms(2) by (cases n) auto
  have m: "length e < m" using assms(2) b(1) n by (simp add: write_bson_entry_header_def)
  let ?w = "\<lambda>i v. projr (write_bson_element le (index_key i) v)"
  have w: "e = concat (map (\<lambda>(i, v). ?w i v) (enumerate 0 xs))"
    "(i, v) \<in> set (enumerate 0 xs) \<Longrightarrow> write_bson_element le (index_key i) v = Inr (?w i v)" for i v
    using bson_elements_written [OF b(2)] by blast+
  have el: "element_as L le m (index_key i) (?w i v) (g v) \<and> length (?w i v) \<le> m" if iv: "(i, v) \<in> set (enumerate 0 xs)" for i v
  proof -
    have l: "length (?w i v) < m" using length_le_concat [OF iv, of "\<lambda>(i, v). ?w i v"] w(1) m by simp
    moreover have "v \<in> set xs" using iv by (auto simp: in_set_enumerate_eq)
    ultimately show ?thesis using inner [of v i "?w i v"] w(2) [OF iv] n by simp
  qed
  have "(\<lambda>(i, v). ?w i v) x \<noteq> []" if "x \<in> set (enumerate 0 xs)" for x
    using el [of "fst x" "snd x"] that by (auto simp: element_as_def case_prod_unfold)
  then have "length xs \<le> length e" using count_le_concat [of "enumerate 0 xs" "\<lambda>(i, v). ?w i v"] w(1) by simp
  then have loop: "leads (parse_bson_element_list n dom_sax True) r (at_open L le fs (JArray (map g xs)) rest)"
    if "at_open L le fs (JArray []) (e @ 0 # rest) r" for fs rest r
    using bson_array_loop [of 0 xs L le m ?w g, OF el] that w(1) m n by simp
  show ?thesis unfolding b(1)
  proof (rule element_asI)
    show "reads_as L le (parse_bson_element_internal dom_sax (parse_bson_element_list n dom_sax) (uint (0x04 :: byte)) z)
        (write_number le True sz @ e @ [0]) (JArray (map g xs))" for z
      using bson_container_reads [of L le "JArray []" e "parse_bson_element_list n dom_sax True", OF loop]
      by (simp add: parse_bson_element_internal_def parse_bson_array_def)
  qed simp
qed

lemma bson_object_document:
  assumes "write_bson_members le ms = Inr e" "length e < m" "map_ok ms" "bson_object_size ms = Inr k"
    and inner: "\<And>k v b'. (k, v) \<in> set ms \<Longrightarrow> write_bson_element le k v = Inr b' \<Longrightarrow> length b' < m \<Longrightarrow>
      element_as L le m k b' (g v)"
  shows "reads_as L le (parse_bson_internal dom_sax (parse_bson_element_list (Suc m) dom_sax))
    (write_number le True (sz :: u32) @ e @ [0]) (JObject (map (\<lambda>(k, v). (k, g v)) ms))"
proof -
  let ?w = "\<lambda>k v. projr (write_bson_element le k v)"
  have w: "e = concat (map (\<lambda>(k, v). ?w k v) ms)"
    "(k, v) \<in> set ms \<Longrightarrow> write_bson_element le k v = Inr (?w k v)" for k v
    using bson_members_written [OF assms(1)] by blast+
  have el: "element_as L le m k (?w k v) (g v) \<and> length (?w k v) \<le> m \<and> 0 \<notin> set k" if kv: "(k, v) \<in> set ms" for k v
  proof -
    have "length (?w k v) < m" using length_le_concat [OF kv, of "\<lambda>(k, v). ?w k v"] w(1) assms(2) by simp
    then show ?thesis using inner [OF kv w(2) [OF kv]] bson_object_keys [OF assms(4) kv] by simp
  qed
  have "(\<lambda>(k, v). ?w k v) x \<noteq> []" if "x \<in> set ms" for x
    using el [of "fst x" "snd x"] that by (auto simp: element_as_def case_prod_unfold)
  then have "length ms \<le> length e" using count_le_concat [of ms "\<lambda>(k, v). ?w k v"] w(1) by simp
  then have loop: "leads (parse_bson_element_list (Suc m) dom_sax False) r
      (at_open L le fs (JObject (map (\<lambda>(k, v). (k, g v)) ms)) rest)"
    if "at_open L le fs (JObject []) (e @ 0 # rest) r" for fs rest r
    using bson_object_loop [of ms L le m ?w g, OF el] that w(1) assms(2,3) by simp
  show ?thesis
    using bson_container_reads [of L le "JObject []" e "parse_bson_element_list (Suc m) dom_sax False", OF loop]
    by (simp add: parse_bson_internal_def)
qed

lemma bson_element_reads:
  assumes "write_bson_element le name j = Inr b" "sizes_ok c (2 ^ 31 - 1) j" "length b < n"
  shows "element_as L le n name b (map_leaves signed_leaf j)"
  using assms
proof (induction j arbitrary: n name b)
  case JNull
  then have b: "b = write_bson_entry_header name 0x0A @ []" by (simp add: write_bson_null_def)
  show ?case unfolding b
    by (rule element_asI) (auto simp: parse_bson_element_internal_def signed_leaf_def intro!: nothing_reads)
next
  case (JBoolean x)
  then have b: "b = write_bson_entry_header name 0x08 @ [if x then 0x01 else 0x00]" by (simp add: write_bson_boolean_def)
  show ?case unfolding b
    by (rule element_asI) (auto simp: parse_bson_element_internal_def signed_leaf_def intro!: byte_value_reads)
next
  case (JFloat x)
  then have b: "b = write_bson_entry_header name 0x01 @ write_number le True x" by (simp add: write_bson_double_def)
  show ?case unfolding b
    by (rule element_asI)
      (auto simp: parse_bson_element_internal_def signed_leaf_def intro!: little_number_reads [where f = JFloat])
next
  case (JInteger x)
  then show ?case using bson_integer_as by (auto simp: signed_leaf_def)
next
  case (JUnsigned x)
  then show ?case using bson_unsigned_as by (simp add: signed_leaf_def)
next
  case (JString s)
  then have b: "b = write_bson_entry_header name 0x02 @ write_number le True (of_nat (length s + 1) :: u32) @ s @ [0]"
    by (simp add: write_bson_string_def)
  show ?case unfolding b
    by (rule element_asI) (use JString.prems(2) bson_string_reads in \<open>simp_all add: signed_leaf_def del: of_nat_Suc of_nat_add\<close>)
next
  case (JArray xs)
  have "element_as L le (n - 1) (index_key i) b' (map_leaves signed_leaf v)"
    if "v \<in> set xs" "write_bson_element le (index_key i) v = Inr b'" "length b' < n - 1" for i v b'
    using JArray.IH [OF that(1,2)] JArray.prems(2) that by auto
  then show ?case using bson_array_as [OF JArray.prems(1,3)] by simp
next
  case (JObject ms)
  obtain k e where b: "b = write_bson_entry_header name 0x03 @ write_number le True (of_nat (4 + k + 1) :: u32) @ e @ [0]"
    "write_bson_members le ms = Inr e" "bson_object_size ms = Inr k"
    using JObject.prems(1) by (auto simp: bind_res_eq_Inr calc_bson_object_size_def dest!: bson_document_parts)
  obtain m where n: "n = Suc m" using JObject.prems(3) by (cases n) auto
  have m: "length e < m" using JObject.prems(3) b(1) n by (simp add: write_bson_entry_header_def)
  have "element_as L le m k b' (map_leaves signed_leaf v)"
    if "(k, v) \<in> set ms" "write_bson_element le k v = Inr b'" "length b' < m" for k v b'
    using JObject.IH [OF that(1), of v k b' m] JObject.prems(2) that by auto
  from bson_object_document [OF b(2) m _ b(3) this] show ?case
    using JObject.prems(2) n unfolding b(1)
    by (intro element_asI) (simp_all add: parse_bson_element_internal_def del: of_nat_add)
qed simp

end
