(* ===== verification/Json_Binary_Formats.thy ===== *)
theory Json_Binary_Formats
  imports Json_Cbor Json_Msgpack Json_Ubjson Json_Bson
begin

text \<open>
  The entry points to the binary formats: \<open>binary_reader::sax_parse\<close>, and \<open>to_cbor\<close>, \<open>from_cbor\<close> and
  their siblings of \<open>src/nlohmann/json.hpp\<close>, from and to vectors of bytes.
\<close>

section \<open>Reading\<close>

text \<open>Enough fuel for every input: more than its bytes.\<close>

definition binary_fuel :: "'h binary_reader \<Rightarrow> nat" where
  "binary_fuel r = length (bin_input r) + 2"

definition parse_format :: "input_format_t \<Rightarrow> 'h sax \<Rightarrow> ('h, bool) rd" where
  "parse_format fmt S r =
     (let n = binary_fuel r in
      case fmt of
        bson_format \<Rightarrow> parse_bson_internal S (parse_bson_element_list n S) r
      | cbor_format \<Rightarrow> parse_cbor_internal n S True r
      | msgpack_format \<Rightarrow> parse_msgpack_internal n S r
      | ubjson_format \<Rightarrow> parse_ubjson_internal (get_ubjson_value n S) True r
      | json_format \<Rightarrow> Some (Inl (AssertFailed ''false'')))"

definition binary_sax_parse :: "input_format_t \<Rightarrow> 'h sax \<Rightarrow> bool \<Rightarrow> ('h, bool) rd" where
  "binary_sax_parse fmt S strict =
     rd_bind (parse_format fmt S) (\<lambda>result.
     if result \<and> strict then
       rd_bind (if fmt = ubjson_format then get_ignore_noop else binary_get) (\<lambda>c.
       if c \<noteq> - 1
       then binary_error S fmt 110 (hex_byte c) (''expected end of input; last byte: 0x'' @ hex_byte c) ''value''
       else rd_return result)
     else rd_return result)"

text \<open>The value the DOM parser builds from an input, or a discarded one.\<close>

definition from_binary :: "input_format_t \<Rightarrow> u64 \<Rightarrow> bool \<Rightarrow> byte list \<Rightarrow> bool \<Rightarrow> bool \<Rightarrow> json res option" where
  "from_binary fmt limit le input strict allow =
     (case binary_sax_parse fmt dom_sax strict
             (new_binary_reader le input (json_sax_dom_parser limit JNull allow)) of
        None \<Rightarrow> None
      | Some (Inl e) \<Rightarrow> Some (Inl e)
      | Some (Inr (res, r)) \<Rightarrow> Some (Inr (if res then root (bin_sax r) else JDiscarded)))"

definition from_cbor :: "u64 \<Rightarrow> bool \<Rightarrow> byte list \<Rightarrow> bool \<Rightarrow> bool \<Rightarrow> json res option" where
  "from_cbor = from_binary cbor_format"

definition from_msgpack :: "u64 \<Rightarrow> bool \<Rightarrow> byte list \<Rightarrow> bool \<Rightarrow> bool \<Rightarrow> json res option" where
  "from_msgpack = from_binary msgpack_format"

definition from_ubjson :: "u64 \<Rightarrow> bool \<Rightarrow> byte list \<Rightarrow> bool \<Rightarrow> bool \<Rightarrow> json res option" where
  "from_ubjson = from_binary ubjson_format"

definition from_bson :: "u64 \<Rightarrow> bool \<Rightarrow> byte list \<Rightarrow> bool \<Rightarrow> bool \<Rightarrow> json res option" where
  "from_bson = from_binary bson_format"

section \<open>Writing\<close>

definition to_cbor :: "bool \<Rightarrow> json \<Rightarrow> byte list" where
  "to_cbor le j = write_cbor le j"

definition to_msgpack :: "bool \<Rightarrow> json \<Rightarrow> byte list" where
  "to_msgpack le j = write_msgpack le j"

definition to_ubjson :: "bool \<Rightarrow> json \<Rightarrow> bool \<Rightarrow> bool \<Rightarrow> byte list res" where
  "to_ubjson le j use_size use_type = write_ubjson le use_size use_type True j"

definition to_bson :: "bool \<Rightarrow> json \<Rightarrow> byte list res" where
  "to_bson le j = write_bson le j"

end
