(* ===== verification/Json_Binary_Total.thy ===== *)
theory Json_Binary_Total
  imports Json_Binary_Formats Json_Binary_Rules
begin

text \<open>
  The readers of the binary formats end on every input, for every handler that answers false to an error:
  no function ever puts input back, and what they recurse and loop on has read some.
\<close>

section \<open>Readers that end\<close>

abbreviation rem :: "'h binary_reader \<Rightarrow> nat" where
  "rem r \<equiv> length (bin_input r)"

text \<open>The handler does not go on behind an error.\<close>

definition stops_at_errors :: "'h sax \<Rightarrow> bool" where
  "stops_at_errors S \<longleftrightarrow> (\<forall>p t e h h'. sax_parse_error S p t e h \<noteq> Inr (True, h'))"

lemma dom_stops: "stops_at_errors dom_sax"
  by (auto simp: stops_at_errors_def dom_parse_error_def Let_def json_throw_def split: if_splits)

lemma acceptor_stops: "stops_at_errors acceptor_sax"
  by (simp add: stops_at_errors_def acceptor_sax_def)

text \<open>From \<open>r\<close>, the function ends with \<open>Q\<close>, unless the program stops.\<close>

definition ends :: "('h, 'a) rd \<Rightarrow> 'h binary_reader \<Rightarrow> ('a \<Rightarrow> 'h binary_reader \<Rightarrow> bool) \<Rightarrow> bool" where
  "ends m r Q \<longleftrightarrow> m r \<noteq> None \<and> (\<forall>x r'. m r = Some (Inr (x, r')) \<longrightarrow> Q x r')"

lemma ends_bind: "ends m r Q \<Longrightarrow> (\<And>x r'. Q x r' \<Longrightarrow> ends (k x) r' R) \<Longrightarrow> ends (rd_bind m k) r R"
  by (fastforce simp: ends_def rd_bind_def split: option.splits sum.splits)

lemma ends_mono: "ends m r Q \<Longrightarrow> (\<And>x r'. Q x r' \<Longrightarrow> R x r') \<Longrightarrow> ends m r R"
  by (auto simp: ends_def)

lemma ends_cong: "m r = m' r \<Longrightarrow> ends m' r Q \<Longrightarrow> ends m r Q"
  by (simp add: ends_def)

lemma ends_return [simp]: "ends (rd_return x) r Q \<longleftrightarrow> Q x r"
  by (simp add: ends_def rd_return_def)

text \<open>With at most \<open>n\<close> bytes left it ends, with no more left than before.\<close>

definition sure :: "nat \<Rightarrow> ('h, 'a) rd \<Rightarrow> bool" where
  "sure n m \<longleftrightarrow> (\<forall>r. rem r < n \<longrightarrow> ends m r (\<lambda>x r'. rem r' \<le> rem r))"

lemma sureI: "(\<And>r. rem r < n \<Longrightarrow> ends m r (\<lambda>x r'. rem r' \<le> rem r)) \<Longrightarrow> sure n m"
  by (simp add: sure_def)

lemma sureD: "sure n m \<Longrightarrow> rem r < n \<Longrightarrow> ends m r (\<lambda>x r'. rem r' \<le> rem r)"
  by (simp add: sure_def)

lemma sure_le: "sure n m \<Longrightarrow> k \<le> n \<Longrightarrow> sure k m"
  by (simp add: sure_def)

lemma ends_then:
  assumes "ends m r (\<lambda>x r'. rem r' \<le> N)" "\<And>x n. sure n (k x)"
  shows "ends (rd_bind m k) r (\<lambda>x r'. rem r' \<le> N)"
  using assms(1)
proof (rule ends_bind)
  fix x and r1 :: "'a binary_reader" assume r1: "rem r1 \<le> N"
  have "ends (k x) r1 (\<lambda>y r'. rem r' \<le> rem r1)" by (rule sureD [OF assms(2) lessI])
  then show "ends (k x) r1 (\<lambda>y r'. rem r' \<le> N)" by (rule ends_mono) (use r1 in simp)
qed

named_theorems sure_intros "rules for functions that end"

lemma sure_return [sure_intros]: "sure n (rd_return x)"
  by (simp add: sure_def)

lemma sure_bind [sure_intros]: "sure n (m :: ('h, 'a) rd) \<Longrightarrow> (\<And>x. sure n (k x)) \<Longrightarrow> sure n (rd_bind m k)"
proof (rule sureI)
  fix r :: "'h binary_reader" assume m: "sure n m" "\<And>x. sure n (k x)" "rem r < n"
  show "ends (rd_bind m k) r (\<lambda>x r'. rem r' \<le> rem r)"
  proof (rule ends_bind [OF sureD [OF m(1,3)]])
    fix x and r' :: "'h binary_reader" assume r': "rem r' \<le> rem r"
    then have "ends (k x) r' (\<lambda>x r''. rem r'' \<le> rem r')" using sureD [OF m(2)] m(3) by simp
    then show "ends (k x) r' (\<lambda>x r''. rem r'' \<le> rem r)" using r' by (auto elim!: ends_mono)
  qed
qed

lemma sure_if [sure_intros]: "(c \<Longrightarrow> sure n m) \<Longrightarrow> (\<not> c \<Longrightarrow> sure n m') \<Longrightarrow> sure n (if c then m else m')"
  by simp

lemma sure_with [sure_intros]: "sure n m \<Longrightarrow> (\<And>x. sure n (k x)) \<Longrightarrow> sure n (rd_with m k)"
  unfolding rd_with_def by (intro sure_intros) (auto intro: sure_intros split: option.splits)

lemma sure_and [sure_intros]: "sure n m \<Longrightarrow> sure n k \<Longrightarrow> sure n (rd_and m k)"
  unfolding rd_and_def by (intro sure_intros)

lemma sure_repeat [sure_intros]: "sure n m \<Longrightarrow> sure n (rd_repeat k m)"
  by (induction k) (auto intro: sure_intros)

lemma sure_current [sure_intros]: "sure n rd_current"
  by (auto simp: sure_def ends_def rd_current_def)

lemma sure_sax [sure_intros]: "sure n (rd_sax f)"
  by (auto simp: sure_def ends_def rd_sax_def bind_res_eq_Inr)

text \<open>Reading a byte: the end of the input, or a byte less.\<close>

definition next_byte :: "'h binary_reader \<Rightarrow> int \<Rightarrow> 'h binary_reader \<Rightarrow> bool" where
  "next_byte r c r' \<longleftrightarrow> c = bin_current r' \<and> (if c = - 1 then rem r' = 0 else rem r' < rem r)"

lemma get_next: "ends binary_get r (next_byte r)"
  by (auto simp: ends_def binary_get_def next_byte_def Let_def uint_not_eof split: list.splits)

lemma noop_next: "ends get_ignore_noop r (next_byte r)"
proof (induction r rule: get_ignore_noop.induct)
  case (1 r)
  show ?case
  proof (cases "\<exists>bs. bin_input r = 0x4E # bs")
    case True
    then obtain bs where bs: "bin_input r = 0x4E # bs" by blast
    let ?r = "r\<lparr>bin_input := bs, bin_current := 0x4E, bin_read := Suc (bin_read r)\<rparr>"
    have "ends get_ignore_noop ?r (next_byte ?r)" using 1 bs by blast
    moreover have "get_ignore_noop r = get_ignore_noop ?r" using bs by (subst get_ignore_noop.simps) simp
    ultimately have "ends get_ignore_noop r (next_byte ?r)" by (simp add: ends_def)
    then show ?thesis using bs by (elim ends_mono) (auto simp: next_byte_def split: if_splits)
  next
    case False
    then have "get_ignore_noop r = binary_get r"
      by (subst get_ignore_noop.simps) (auto split: list.splits)
    then show ?thesis using get_next [of r] by (simp add: ends_def)
  qed
qed

lemma next_le: "next_byte r c r' \<Longrightarrow> rem r' \<le> rem r"
  by (simp add: next_byte_def split: if_splits)

lemma sure_get [sure_intros]: "sure n binary_get" "sure n get_ignore_noop"
  by (auto intro!: sureI ends_mono [OF get_next next_le] ends_mono [OF noop_next next_le])

text \<open>Errors, and the functions without loops.\<close>

lemma sure_error [sure_intros]: "sure n (binary_error S fmt eid t d c)"
proof -
  have "ends (binary_error S fmt eid t d c) r (\<lambda>x r'. rem r' \<le> rem r)" for r
    using sureD [OF sure_sax, of r "Suc (rem r)"]
    by (auto simp: ends_def binary_error_def split: sum.splits)
  then show ?thesis by (simp add: sure_def)
qed

lemma sure_eof [sure_intros]: "sure n (unexpect_eof S fmt cxt)"
proof -
  have "ends (unexpect_eof S fmt cxt) r (\<lambda>x r'. rem r' \<le> rem r)" for r
    using sureD [OF sure_error, of r "Suc (rem r)"] by (simp add: ends_def unexpect_eof_def rd_return_def)
  then show ?thesis by (simp add: sure_def)
qed

lemma sure_number_bytes [sure_intros]: "sure n (number_bytes S fmt k)"
  by (induction k) (auto intro!: sure_intros)

lemma sure_number [sure_intros]: "sure n (get_number S le fmt :: ('h, 'a::len word option) rd)"
proof -
  have "ends (get_number S le fmt :: ('h, 'a word option) rd) r (\<lambda>x r'. rem r' \<le> rem r)" for r
  proof -
    have "sure (Suc (rem r)) (rd_bind (number_bytes S fmt k) (\<lambda>v. rd_return (map_option F v)))"
      for k and F :: "byte list \<Rightarrow> 'a word"
      by (intro sure_intros)
    from sureD [OF this, of r] show ?thesis by (simp add: ends_def get_number_def)
  qed
  then show ?thesis by (simp add: sure_def)
qed

lemma sure_string_bytes [sure_intros]: "sure n (string_bytes S fmt k)"
  by (induction k) (auto intro!: sure_intros split: prod.splits)

lemma sure_string [sure_intros]: "sure n (binary_get_string S fmt k)"
  unfolding binary_get_string_def by (auto intro!: sure_intros split: prod.splits)

lemma sure_option [sure_intros]:
  "sure n m \<Longrightarrow> (\<And>x. sure n (f x)) \<Longrightarrow> sure n (case v of None \<Rightarrow> m | Some x \<Rightarrow> f x)"
  by (simp split: option.splits)

lemma sure_sized [sure_intros]: "sure n l \<Longrightarrow> sure n (sized_string S fmt l)"
  unfolding sized_string_def by (intro sure_intros)

lemma sure_lengths [sure_intros]: "sure n (unsigned_length S fmt t)" "sure n (signed_length S fmt t)"
  unfolding unsigned_length_def signed_length_def by (intro sure_intros)+

section \<open>CBOR\<close>

text \<open>What the functions that find a character read do at the end of the input.\<close>

definition fails_at_end :: "('h, bool) rd \<Rightarrow> bool" where
  "fails_at_end m \<longleftrightarrow> (\<forall>r. bin_current r = - 1 \<longrightarrow> ends m r (\<lambda>b r'. \<not> b \<and> rem r' \<le> rem r))"

definition none_at_end :: "('h, 'a option) rd \<Rightarrow> bool" where
  "none_at_end m \<longleftrightarrow> (\<forall>r. bin_current r = - 1 \<longrightarrow> ends m r (\<lambda>v r'. v = None \<and> rem r' \<le> rem r))"

lemma ends_error: "stops_at_errors S \<Longrightarrow> ends (binary_error S fmt eid t d c) r (\<lambda>b r'. \<not> b \<and> rem r' \<le> rem r)"
  by (auto simp: ends_def binary_error_def rd_sax_def stops_at_errors_def bind_res_eq_Inr split: sum.splits)

lemma eof_fails:
  assumes "stops_at_errors S" "bin_current r = - 1"
  shows "ends (unexpect_eof S fmt cxt) r (\<lambda>b r'. \<not> b \<and> rem r' \<le> rem r)"
proof -
  have "unexpect_eof S fmt cxt r =
      binary_error S fmt 110 ''<end of file>'' ''unexpected end of input'' cxt r"
    using assms(2) by (simp add: unexpect_eof_def)
  then show ?thesis using ends_error [OF assms(1)] by (rule ends_cong)
qed

lemma eof_first_none:
  assumes "stops_at_errors S"
  shows "none_at_end (rd_bind (unexpect_eof S fmt cxt) (\<lambda>b. if \<not> b then rd_return None else k))"
  unfolding none_at_end_def by (auto intro!: ends_bind [OF eof_fails [OF assms]])

lemma with_fails: "none_at_end m \<Longrightarrow> fails_at_end (rd_with m k)"
  unfolding fails_at_end_def none_at_end_def rd_with_def by (auto intro!: ends_bind)

lemma and_fails: "fails_at_end m \<Longrightarrow> fails_at_end (rd_and m k)"
  unfolding fails_at_end_def rd_and_def by (auto intro!: ends_bind)

lemma cbor_string_at_end: "stops_at_errors S \<Longrightarrow> none_at_end (get_cbor_string (Suc n) S)"
  unfolding get_cbor_string.simps by (rule eof_first_none)

lemma chunks_end:
  assumes "none_at_end chunk" "sure (j - 1) chunk"
  shows "rem r < k \<Longrightarrow> rem r < j \<Longrightarrow> ends (cbor_chunks k chunk acc) r (\<lambda>v r'. rem r' \<le> rem r)"
proof (induction k arbitrary: r acc)
  case (Suc k)
  let ?rest = "\<lambda>s. case s of None \<Rightarrow> rd_return None | Some s' \<Rightarrow> cbor_chunks k chunk (acc @ s')"
  have "ends (rd_bind chunk ?rest) r1 (\<lambda>v r'. rem r' \<le> rem r)" if r1: "next_byte r c r1" for c r1
  proof (cases "c = - 1")
    case True
    then have c: "bin_current r1 = - 1" "rem r1 \<le> rem r" using r1 by (simp_all add: next_byte_def)
    have "ends chunk r1 (\<lambda>v r'. v = None \<and> rem r' \<le> rem r)"
      using assms(1) c by (auto simp: none_at_end_def elim!: ends_mono)
    then show ?thesis by (rule ends_bind) simp
  next
    case False
    then have l: "rem r1 < rem r" using r1 by (simp add: next_byte_def)
    have "ends chunk r1 (\<lambda>v r'. rem r' \<le> rem r1)" using sureD [OF assms(2)] l Suc.prems by simp
    then show ?thesis
    proof (rule ends_bind)
      fix v and r2 :: "'a binary_reader" assume "rem r2 \<le> rem r1"
      then show "ends (?rest v) r2 (\<lambda>v r'. rem r' \<le> rem r)"
        using ends_mono [OF Suc.IH [of r2]] Suc.prems l by (auto split: option.splits)
    qed
  qed
  then show ?case using next_le
    by (auto intro!: ends_bind [OF get_next])
qed simp

lemma sure_cbor_string: "stops_at_errors S \<Longrightarrow> sure (n - 1) (get_cbor_string n S)"
proof (induction n)
  case (Suc n)
  have "sure n (cbor_chunks n (get_cbor_string n S) [])"
  proof (cases n)
    case m: (Suc m)
    then have "none_at_end (get_cbor_string n S)" using cbor_string_at_end [OF Suc.prems] by blast
    from chunks_end [OF this Suc.IH [OF Suc.prems], of _ n] show ?thesis by (auto intro!: sureI)
  qed (simp add: sure_def)
  then show ?case by (auto intro!: sure_intros)
qed (simp add: sure_def)

text \<open>A loop that reads a character before its body and stops at the break.\<close>

lemma break_loop_ends:
  assumes "fails_at_end body" "sure (j - 1) body"
  shows "rem r < k \<Longrightarrow> rem r < j \<Longrightarrow> ends (rd_while k not_break body) r (\<lambda>v r'. rem r' \<le> rem r)"
proof (induction k arbitrary: r)
  case (Suc k)
  have "ends (rd_and body (rd_while k not_break body)) r1 (\<lambda>v r'. rem r' \<le> rem r)" if r1: "next_byte r c r1" for c r1
  proof (cases "c = - 1")
    case True
    then have "ends body r1 (\<lambda>v r'. \<not> v \<and> rem r' \<le> rem r)"
      using assms(1) r1 by (auto simp: fails_at_end_def next_byte_def elim!: ends_mono)
    then show ?thesis unfolding rd_and_def by (rule ends_bind) simp
  next
    case False
    then have l: "rem r1 < rem r" using r1 by (simp add: next_byte_def)
    have "ends body r1 (\<lambda>v r'. rem r' \<le> rem r1)" using sureD [OF assms(2)] l Suc.prems by simp
    then show ?thesis unfolding rd_and_def
    proof (rule ends_bind)
      fix v and r2 :: "'a binary_reader" assume "rem r2 \<le> rem r1"
      then show "ends (if v then rd_while k not_break body else rd_return False) r2 (\<lambda>v r'. rem r' \<le> rem r)"
        using ends_mono [OF Suc.IH [of r2]] Suc.prems l by auto
    qed
  qed
  then show ?case using next_le
    unfolding rd_while.simps not_break_def rd_bind_assoc
    by (auto intro!: ends_bind [OF get_next])
qed simp

lemma sure_not_break [sure_intros]: "sure n not_break"
  unfolding not_break_def by (intro sure_intros)

lemma sure_break_loop:
  assumes "fails_at_end body" "sure (j - 1) body" "j \<le> k"
  shows "sure j (rd_while k not_break body)"
proof (rule sureI)
  fix r :: "'a binary_reader" assume "rem r < j"
  then show "ends (rd_while k not_break body) r (\<lambda>x r'. rem r' \<le> rem r)"
    using break_loop_ends [OF assms(1,2), of r k] assms(3) by simp
qed

text \<open>A value of CBOR, behind its first character.\<close>

lemma sure_cbor_value:
  assumes S: "stops_at_errors S" and rec: "sure (n - 1) (rec True)" "sure (n - 2) (rec False)" "0 < n \<Longrightarrow> fails_at_end (rec False)"
  shows "sure (n - 1) (parse_cbor_value n S rec c)"
proof (cases n)
  case (Suc m)
  have n: "sure m (rec True)" "sure (m - 1) (rec False)" "fails_at_end (rec False)" "sure m (get_cbor_string n S)"
    using rec sure_cbor_string [OF S, of n] Suc by (simp_all add: numeral_2_eq_2)
  have member: "sure m (cbor_member n S rec)" "fails_at_end (cbor_member n S rec)"
    unfolding cbor_member_def using n cbor_string_at_end [OF S, of m] Suc
    by (auto intro!: sure_intros and_fails with_fails simp del: get_cbor_string.simps)
  have loops: "sure m (rd_while n not_break (rec False))" "sure m (rd_while n not_break (cbor_member n S rec))"
    using sure_break_loop [OF n(3,2), of n] sure_break_loop [OF member(2) sure_le [OF member(1)], of m n] Suc
    by (simp_all del: rd_while.simps)
  have arrays: "sure m (get_cbor_array n S rec len)" for len
    unfolding get_cbor_array_def by (intro sure_intros n(1) loops)
  have objects: "sure m (get_cbor_object n S rec len)" for len
    unfolding get_cbor_object_def by (intro sure_intros member(1) loops)
  have "sure m (parse_cbor_value n S rec c)"
    unfolding parse_cbor_value_def cbor_half_def Let_def
    by (intro sure_intros arrays objects n(4))
  then show ?thesis using Suc by simp
qed (simp add: sure_def)

lemma cbor_value_at_end:
  "stops_at_errors S \<Longrightarrow> bin_current r = - 1 \<Longrightarrow> ends (parse_cbor_value n S rec (- 1)) r (\<lambda>b r'. \<not> b \<and> rem r' \<le> rem r)"
  using eof_fails by (simp add: parse_cbor_value_def)

lemma cbor_at_end:
  assumes "stops_at_errors S"
  shows "fails_at_end (parse_cbor_internal (Suc n) S False)"
  unfolding fails_at_end_def
proof (intro allI impI)
  fix r :: "'a binary_reader" assume r: "bin_current r = - 1"
  have "parse_cbor_internal (Suc n) S False r = parse_cbor_value n S (parse_cbor_internal n S) (- 1) r"
    using r by simp
  then show "ends (parse_cbor_internal (Suc n) S False) r (\<lambda>b r'. \<not> b \<and> rem r' \<le> rem r)"
    by (rule ends_cong) (rule cbor_value_at_end [OF assms r])
qed

lemma sure_cbor:
  assumes S: "stops_at_errors S"
  shows "sure (n - 1) (parse_cbor_internal n S True) \<and> sure (n - 2) (parse_cbor_internal n S False)"
proof (induction n)
  case (Suc n)
  let ?reader = "parse_cbor_value n S (parse_cbor_internal n S)"
  have v: "sure (n - 1) (?reader c)" for c
  proof (cases n)
    case (Suc m)
    then show ?thesis
      using Suc.IH cbor_at_end [OF S, of m] by (intro sure_cbor_value [OF S]) (simp_all del: parse_cbor_internal.simps)
  qed (simp add: sure_def)
  have "ends (?reader c) r1 (\<lambda>b r'. rem r' \<le> rem r)" if "next_byte r c r1" "rem r < n" for r r1 c
  proof (cases "c = - 1")
    case True
    then have c: "bin_current r1 = - 1" "rem r1 = 0" using that by (simp_all add: next_byte_def)
    from cbor_value_at_end [OF S c(1)] show ?thesis unfolding True by (rule ends_mono) (simp add: c(2))
  next
    case False
    then have l: "rem r1 < rem r" using that by (simp add: next_byte_def)
    then show ?thesis using ends_mono [OF sureD [OF v, of r1 c]] that by simp
  qed
  then have "sure n (rd_bind binary_get ?reader)" by (auto intro!: sureI ends_bind [OF get_next])
  moreover have "sure (n - 1) (rd_bind rd_current ?reader)" using v by (intro sure_intros)
  ultimately have "sure n (rd_bind binary_get ?reader) \<and> sure (n - 1) (rd_bind rd_current ?reader)" by blast
  then show ?case unfolding parse_cbor_internal.simps if_True if_False by (simp only: diff_Suc_1 One_nat_def numeral_2_eq_2 diff_Suc_Suc diff_zero)
qed (simp add: sure_def)

section \<open>MessagePack and BSON\<close>

text \<open>A character and what depends on it, where the end of the input fails.\<close>

definition quits_at_end :: "('h, 'a) rd \<Rightarrow> bool" where
  "quits_at_end m \<longleftrightarrow> (\<forall>r. bin_current r = - 1 \<longrightarrow> ends m r (\<lambda>x r'. rem r' \<le> rem r))"

lemma fails_quits: "fails_at_end m \<Longrightarrow> quits_at_end m"
  unfolding fails_at_end_def quits_at_end_def by (blast intro: ends_mono)

lemma none_quits: "none_at_end m \<Longrightarrow> quits_at_end m"
  unfolding none_at_end_def quits_at_end_def by (blast intro: ends_mono)

lemma eof_fails_at_end: "stops_at_errors S \<Longrightarrow> fails_at_end (unexpect_eof S fmt cxt)"
  by (simp add: fails_at_end_def eof_fails)

lemma first_ends:
  assumes "\<And>c. sure (n - 1) (k c)" "quits_at_end (k (- 1))" "next_byte r c r1" "rem r < n"
  shows "ends (k c) r1 (\<lambda>x r'. rem r' \<le> rem r)"
proof (cases "c = - 1")
  case True
  then have "bin_current r1 = - 1" using assms(3) by (simp add: next_byte_def)
  then have "ends (k (- 1)) r1 (\<lambda>x r'. rem r' \<le> rem r1)"
    using assms(2) unfolding quits_at_end_def by blast
  then show ?thesis unfolding True by (rule ends_mono) (use next_le [OF assms(3)] in simp)
next
  case False
  then have l: "rem r1 < rem r" using assms(3) by (simp add: next_byte_def)
  then have "ends (k c) r1 (\<lambda>x r'. rem r' \<le> rem r1)" using sureD [OF assms(1), of r1] assms(4) by simp
  then show ?thesis by (rule ends_mono) (use l in simp)
qed

lemma sure_get_first:
  assumes "\<And>c. sure (n - 1) (k c)" "quits_at_end (k (- 1))"
  shows "sure n (rd_bind binary_get k)" "sure n (rd_bind get_ignore_noop k)"
  using first_ends [of n k, OF assms]
  by (auto intro!: sureI ends_bind [OF get_next] ends_bind [OF noop_next])

lemma sure_msgpack_string [sure_intros]: "sure n (get_msgpack_string S)"
  unfolding get_msgpack_string_def by (intro sure_intros)

lemma sure_msgpack_value: "sure n rec \<Longrightarrow> sure n (parse_msgpack_value S rec c)"
  unfolding parse_msgpack_value_def get_msgpack_array_def get_msgpack_object_def msgpack_member_def
  by (intro sure_intros)

lemma sure_msgpack:
  assumes S: "stops_at_errors S"
  shows "sure n (parse_msgpack_internal n S)"
proof (induction n)
  case (Suc n)
  have "sure n (parse_msgpack_value S (parse_msgpack_internal n S) c)" for c by (rule sure_msgpack_value [OF Suc.IH])
  moreover have "parse_msgpack_value S rec (- 1) = unexpect_eof S msgpack_format ''value''" for rec
    by (simp add: parse_msgpack_value_def)
  then have "quits_at_end (parse_msgpack_value S (parse_msgpack_internal n S) (- 1))"
    using fails_quits [OF eof_fails_at_end [OF S]] by simp
  ultimately show ?case by (auto intro: sure_get_first)
qed (simp add: sure_def)

lemma sure_bson_cstr:
  assumes S: "stops_at_errors S"
  shows "sure n (get_bson_cstr n S acc)"
proof (induction n arbitrary: acc)
  case (Suc n)
  show ?case unfolding get_bson_cstr.simps
  proof (rule sure_get_first)
    show "quits_at_end (rd_bind (unexpect_eof S bson_format ''cstring'') (\<lambda>b.
        if \<not> b then rd_return None else if - 1 = (0 :: int) then rd_return (Some acc)
        else get_bson_cstr n S (acc @ [word_of_int (- 1)])))"
      using none_quits [OF eof_first_none [OF S]] .
  qed (unfold diff_Suc_1, intro sure_intros Suc.IH)
qed (simp add: sure_def)

lemma sure_bson_string [sure_intros]: "sure n (get_bson_string S len)"
  unfolding get_bson_string_def by (intro sure_intros)

lemma sure_bson_container [sure_intros]: "sure n elements \<Longrightarrow> sure n (bson_container S start finish elements)"
  unfolding bson_container_def by (intro sure_intros)

lemma sure_bson_element: "(\<And>b. sure n (rec b)) \<Longrightarrow> sure n (parse_bson_element_internal S rec t p)"
  unfolding parse_bson_element_internal_def parse_bson_internal_def parse_bson_array_def by (intro sure_intros)

lemma sure_position [sure_intros]: "sure n rd_position"
  by (auto simp: sure_def ends_def rd_position_def)

lemma sure_bson_elements:
  assumes S: "stops_at_errors S" and rec: "\<And>b. sure (j - 1) (rec b)" and j: "j \<le> m"
  shows "sure (min k j) (bson_elements k m S rec b)"
proof (induction k)
  case (Suc k)
  let ?n = "min (Suc k) j - 1"
  have le: "?n \<le> j - 1" "?n \<le> min k j" "?n \<le> m" using j by auto
  have "sure ?n (rec b)" for b using sure_le [OF rec le(1)] .
  from sure_bson_element [OF this] have element: "sure ?n (parse_bson_element_internal S rec t p)" for t p .
  have rest: "sure ?n (bson_elements k m S rec b)" using sure_le [OF Suc.IH le(2)] .
  have cstr: "sure ?n (get_bson_cstr m S [])" using sure_le [OF sure_bson_cstr [OF S] le(3)] .
  have "fails_at_end (rd_and (unexpect_eof S bson_format ''element list'') k)" for k
    by (rule and_fails [OF eof_fails_at_end [OF S]])
  then show ?case unfolding bson_elements.simps
    by (intro sure_get_first) (intro sure_intros element rest cstr, simp add: fails_quits)
qed (simp add: sure_def)

lemma sure_bson: "stops_at_errors S \<Longrightarrow> sure (n - 1) (parse_bson_element_list n S b)"
proof (induction n arbitrary: b)
  case (Suc n)
  from sure_bson_elements [OF Suc.prems, of n "parse_bson_element_list n S" n n b] Suc show ?case by simp
qed (simp add: sure_def)

section \<open>UBJSON\<close>

lemma sure_ubjson_string [sure_intros]: "sure n (get_ubjson_string S b)"
  unfolding get_ubjson_string_def by (intro sure_intros)

lemma sure_ubjson_size [sure_intros]: "sure n (get_ubjson_size_value S old)"
  unfolding get_ubjson_size_value_def size_as_def by (intro sure_intros)

lemma sure_ubjson_char [sure_intros]: "sure n (ubjson_char S)"
  unfolding ubjson_char_def by (intro sure_intros)

text \<open>Behind the optional type and size: something was read, or there is no size and the input is at its end.\<close>

definition container_start :: "'h binary_reader \<Rightarrow> (u64 \<times> int) option \<Rightarrow> 'h binary_reader \<Rightarrow> bool" where
  "container_start r v r' \<longleftrightarrow> rem r' \<le> rem r \<and>
     (\<forall>k t. v = Some (k, t) \<longrightarrow> rem r' < rem r \<or> (k = - 1 \<and> bin_current r' = - 1))"

lemma size_type_ends: "ends (get_ubjson_size_type S) r (container_start r)"
proof -
  let ?typed = "\<lambda>type c2. if c2 \<noteq> 0x23 then
           rd_bind (unexpect_eof S ubjson_format ''value'') (\<lambda>b2.
           if \<not> b2 then rd_return None
           else rd_bind (binary_error S ubjson_format 112 (hex_byte c2)
             (''expected '' @ [char_of (39 :: nat)] @ ''#'' @ [char_of (39 :: nat)] @
              '' after type information; last byte: 0x'' @ hex_byte c2) ''size'')
             (\<lambda>b3. rd_return (if b3 then Some (- 1, type) else None)))
         else rd_bind (get_ubjson_size_value S (- 1)) (\<lambda>n. rd_return (map_option (\<lambda>k. (k, type)) n))"
  let ?rest = "\<lambda>c :: int. if c = 0x24 then
       rd_bind binary_get (\<lambda>type.
       rd_bind (unexpect_eof S ubjson_format ''type'') (\<lambda>b.
       if \<not> b then rd_return None else rd_bind get_ignore_noop (?typed type)))
     else if c = 0x23 then rd_bind (get_ubjson_size_value S (- 1)) (\<lambda>n. rd_return (map_option (\<lambda>k. (k, 0 :: int)) n))
     else rd_return (Some (- 1, 0))"
  have rest: "sure n (?rest c)" for n c by (intro sure_intros)
  have "ends (?rest c) r1 (container_start r)" if r1: "next_byte r c r1" for c r1
  proof (cases "c = - 1")
    case True
    then show ?thesis using r1 by (simp add: container_start_def next_byte_def)
  next
    case False
    then have "rem r1 < rem r" using r1 by (simp add: next_byte_def)
    then show ?thesis
      by (intro ends_mono [OF sureD [OF rest [of "Suc (rem r1)"]]]) (auto simp: container_start_def)
  qed
  then show ?thesis unfolding get_ubjson_size_type_def by (rule ends_bind [OF noop_next])
qed

text \<open>The loops up to a bracket: the current character counts until the end of the input.\<close>

lemma bracket_loop_ends:
  assumes body: "fails_at_end body" "sure j body"
  shows "\<lbrakk>bin_current r \<noteq> - 1 \<Longrightarrow> rem r < j; (if bin_current r = - 1 then 0 else Suc (rem r)) < k\<rbrakk>
    \<Longrightarrow> ends (rd_while k (current_not c) (then_next body)) r (\<lambda>v r'. rem r' \<le> rem r)"
proof (induction k arbitrary: r)
  case (Suc k)
  let ?loop = "rd_while k (current_not c) (then_next body)"
  have "ends (rd_and (then_next body) ?loop) r (\<lambda>v r'. rem r' \<le> rem r)"
  proof (cases "bin_current r = - 1")
    case True
    then have "ends body r (\<lambda>b r'. \<not> b \<and> rem r' \<le> rem r)" using body(1) by (simp add: fails_at_end_def)
    then have "ends (then_next body) r (\<lambda>b r'. \<not> b \<and> rem r' \<le> rem r)"
      unfolding then_next_def rd_and_def by (rule ends_bind) simp
    then show ?thesis unfolding rd_and_def by (rule ends_bind) simp
  next
    case False
    then have l: "rem r < j" "rem r < k" using Suc.prems by simp_all
    have "ends (then_next body) r (\<lambda>b r'. rem r' \<le> rem r \<and> (b \<longrightarrow> bin_current r' = - 1 \<or> rem r' < rem r))"
      unfolding then_next_def rd_and_def
    proof (rule ends_bind [OF sureD [OF body(2) l(1)]])
      fix b and r1 :: "'a binary_reader" assume r1: "rem r1 \<le> rem r"
      show "ends (if b then rd_bind get_ignore_noop (\<lambda>_. rd_return True) else rd_return False) r1
          (\<lambda>b r'. rem r' \<le> rem r \<and> (b \<longrightarrow> bin_current r' = - 1 \<or> rem r' < rem r))"
        using r1 by (auto intro!: ends_bind [OF noop_next] simp: next_byte_def split: if_splits)
    qed
    then show ?thesis unfolding rd_and_def
    proof (rule ends_bind)
      fix b and r1 :: "'a binary_reader"
      assume r1: "rem r1 \<le> rem r \<and> (b \<longrightarrow> bin_current r1 = - 1 \<or> rem r1 < rem r)"
      then have "b \<Longrightarrow> ends ?loop r1 (\<lambda>v r'. rem r' \<le> rem r1)" using l by (intro Suc.IH) auto
      then show "ends (if b then ?loop else rd_return False) r1 (\<lambda>v r'. rem r' \<le> rem r)"
        using r1 by (auto elim!: ends_mono)
    qed
  qed
  moreover have "rd_while (Suc k) (current_not c) (then_next body) r =
      (if bin_current r \<noteq> c then rd_and (then_next body) ?loop r else rd_return True r)"
    by (simp add: current_not_def rd_bind_assoc rd_bind_def rd_current_def rd_return_def)
  ultimately show ?case by (simp add: ends_def rd_return_def)
qed simp

text \<open>Containers, for a reader of values that can rely on a byte less.\<close>

definition value_reader :: "nat \<Rightarrow> (int \<Rightarrow> ('h, bool) rd) \<Rightarrow> bool" where
  "value_reader n val \<longleftrightarrow> (\<forall>c. sure (n - 1) (val c)) \<and> (0 < n \<longrightarrow> fails_at_end (parse_ubjson_internal val False))"

lemma sure_ubjson_internal [sure_intros]: "(\<And>c. sure n (val c)) \<Longrightarrow> sure n (parse_ubjson_internal val b)"
  unfolding parse_ubjson_internal_def by (intro sure_intros)

lemma sized_or_bracket:
  assumes sized: "sure (n - 1) (sized k t)" and body: "fails_at_end body" "sure (n - 1) body"
    and start: "container_start r (Some (k, t)) r1" "rem r < n"
  shows "ends (if k \<noteq> - 1 then sized k t
     else rd_and (rd_sax f) (rd_and (rd_while n (current_not c) (then_next body)) (rd_sax g))) r1
     (\<lambda>x r'. rem r' \<le> rem r)"
proof (cases "k = - 1")
  case False
  then have l: "rem r1 < rem r" using start by (simp add: container_start_def)
  then have "ends (sized k t) r1 (\<lambda>x r'. rem r' \<le> rem r1)" using sureD [OF sized, of r1] start(2) by simp
  then show ?thesis using False l by (auto elim!: ends_mono)
next
  case True
  let ?loop = "rd_while n (current_not c) (then_next body)"
  have le: "rem r1 \<le> rem r" using start by (simp add: container_start_def)
  have "ends (rd_sax f) r1 (\<lambda>b r'. bin_current r' = bin_current r1 \<and> rem r' = rem r1)"
    by (auto simp: ends_def rd_sax_def bind_res_eq_Inr)
  then have "ends (rd_and (rd_sax f) (rd_and ?loop (rd_sax g))) r1 (\<lambda>b r'. rem r' \<le> rem r)"
    unfolding rd_and_def
  proof (rule ends_bind)
    fix b and r2 :: "'a binary_reader" assume r2: "bin_current r2 = bin_current r1 \<and> rem r2 = rem r1"
    have "ends ?loop r2 (\<lambda>b r'. rem r' \<le> rem r2)"
      using start r2 by (intro bracket_loop_ends [OF body]) (auto simp: container_start_def)
    then have "ends (rd_bind ?loop (\<lambda>b. if b then rd_sax g else rd_return False)) r2 (\<lambda>b r'. rem r' \<le> rem r2)"
      by (rule ends_then) (intro sure_intros)
    then show "ends (if b then rd_bind ?loop (\<lambda>b. if b then rd_sax g else rd_return False) else rd_return False) r2
        (\<lambda>b r'. rem r' \<le> rem r)"
      using r2 le by (auto elim!: ends_mono)
  qed
  then show ?thesis using True by simp
qed

lemma sure_ubjson_container:
  assumes "\<And>k t. sure (n - 1) (sized k t)" "0 < n \<Longrightarrow> fails_at_end body" "sure (n - 1) body"
  shows "sure n (rd_with (get_ubjson_size_type S) (\<lambda>(k, t). if k \<noteq> - 1 then sized k t
     else rd_and (rd_sax f) (rd_and (rd_while n (current_not c) (then_next body)) (rd_sax g))))"
  unfolding rd_with_def
proof (rule sureI, rule ends_bind [OF size_type_ends])
  fix r v and r1 :: "'a binary_reader" assume r: "rem r < n" "container_start r v r1"
  show "ends (case v of None \<Rightarrow> rd_return False | Some (k, t) \<Rightarrow> if k \<noteq> - 1 then sized k t
     else rd_and (rd_sax f) (rd_and (rd_while n (current_not c) (then_next body)) (rd_sax g))) r1 (\<lambda>x r'. rem r' \<le> rem r)"
  proof (cases v)
    case None
    then show ?thesis using r by (simp add: container_start_def)
  next
    case (Some kt)
    obtain k t where kt: "kt = (k, t)" by (cases kt)
    have "0 < n" using r by simp
    from sized_or_bracket [where sized = sized, OF assms(1) assms(2) [OF this] assms(3) r(2) [unfolded Some kt] r(1)]
    show ?thesis unfolding Some kt option.case prod.case .
  qed
qed

lemma none_current: "none_at_end (k (- 1)) \<Longrightarrow> none_at_end (rd_bind rd_current k)"
  by (simp only: none_at_end_def ends_def rd_current_bind) metis

lemma fails_current: "fails_at_end (k (- 1)) \<Longrightarrow> fails_at_end (rd_bind rd_current k)"
  by (simp only: fails_at_end_def ends_def rd_current_bind) metis

lemma ubjson_string_at_end: "stops_at_errors S \<Longrightarrow> none_at_end (get_ubjson_string S False)"
  unfolding get_ubjson_string_def if_False by (rule none_current) (rule eof_first_none)

lemma sure_ubjson_value:
  assumes S: "stops_at_errors S" and val: "value_reader n val"
  shows "sure n (ubjson_value n S val c)"
proof -
  have v: "sure (n - 1) (val c)" "sure (n - 1) (parse_ubjson_internal val b)"
      "0 < n \<Longrightarrow> fails_at_end (parse_ubjson_internal val False)" for c b
    using val by (auto simp: value_reader_def intro!: sure_intros)
  have member: "sure (n - 1) (ubjson_member S b m)" if "sure (n - 1) m" for b m
    unfolding ubjson_member_def by (intro sure_intros that)
  have "fails_at_end (ubjson_member S False m)" for m
    unfolding ubjson_member_def by (intro and_fails with_fails ubjson_string_at_end S)
  then have objects: "sure n (get_ubjson_object n S val)"
    unfolding get_ubjson_object_def
    by (intro sure_ubjson_container) (intro sure_intros v member, assumption, intro member v)
  have arrays: "sure n (get_ubjson_array n S val)"
    unfolding get_ubjson_array_def
    by (intro sure_ubjson_container) (intro sure_intros v, intro v, assumption, intro v)
  show ?thesis unfolding ubjson_value_def by (intro sure_intros arrays objects)
qed

lemma ubjson_value_reader:
  assumes S: "stops_at_errors S"
  shows "value_reader n (get_ubjson_value n S)"
proof (induction n)
  case (Suc n)
  have "ubjson_value n S val (- 1) = unexpect_eof S ubjson_format ''value''" for val
    by (simp add: ubjson_value_def)
  then have "fails_at_end (parse_ubjson_internal (get_ubjson_value (Suc n) S) False)"
    unfolding parse_ubjson_internal_def if_False
    by (intro fails_current) (simp add: eof_fails_at_end [OF S])
  moreover have "sure n (get_ubjson_value (Suc n) S c)" for c
    using sure_ubjson_value [OF S Suc.IH] by simp
  ultimately show ?case by (simp only: value_reader_def diff_Suc_1 simp_thms)
qed (simp add: value_reader_def sure_def)

section \<open>The entry points\<close>

lemma parse_format_ends:
  assumes S: "stops_at_errors S"
  shows "parse_format fmt S r \<noteq> None"
proof -
  let ?n = "binary_fuel r"
  have n: "rem r < ?n" "rem r < ?n - 1" by (simp_all add: binary_fuel_def)
  have "sure (?n - 1) (parse_bson_internal S (parse_bson_element_list ?n S))"
    unfolding parse_bson_internal_def by (intro sure_intros sure_bson S)
  moreover have "sure (?n - 1) (parse_ubjson_internal (get_ubjson_value ?n S) True)"
    using ubjson_value_reader [OF S] by (auto simp: value_reader_def intro!: sure_intros)
  moreover have "sure (?n - 1) (parse_cbor_internal ?n S True)" using sure_cbor [OF S] by blast
  moreover have "sure ?n (parse_msgpack_internal ?n S)" by (rule sure_msgpack [OF S])
  ultimately show ?thesis using n by (auto simp: parse_format_def Let_def sure_def ends_def split: input_format_t.splits)
qed

lemma sax_parse_ends:
  assumes S: "stops_at_errors S"
  shows "binary_sax_parse fmt S st r \<noteq> None"
proof -
  have "ends (parse_format fmt S) r (\<lambda>x r'. True)" using parse_format_ends [OF S] by (simp add: ends_def)
  moreover have "ends (if x \<and> st then
       rd_bind (if fmt = ubjson_format then get_ignore_noop else binary_get) (\<lambda>c.
       if c \<noteq> - 1
       then binary_error S fmt 110 (hex_byte c) (''expected end of input; last byte: 0x'' @ hex_byte c) ''value''
       else rd_return x) else rd_return x) r' (\<lambda>x r''. True)" for x r'
    by (rule ends_mono [OF sureD [where n = "Suc (rem r')"]]) (intro sure_intros, simp_all)
  ultimately have "ends (binary_sax_parse fmt S st) r (\<lambda>x r'. True)"
    unfolding binary_sax_parse_def by (rule ends_bind)
  then show ?thesis by (simp add: ends_def)
qed

lemma from_binary_ends: "from_binary fmt limit le input st allow \<noteq> None"
  using sax_parse_ends [OF dom_stops] by (auto simp: from_binary_def split: option.splits sum.splits)

end
