(* ===== verification/Json_Binary_Safe.thy ===== *)
theory Json_Binary_Safe
  imports Json_Binary_Formats Json_Binary_Rules
begin

text \<open>
  The readers of the binary formats never fail an assertion of the DOM parser and never follow a pointer of
  it to nowhere, whatever the input: they only call it where a value, a key or an end is due. What they
  deliver is a value whose objects are maps and that holds nothing discarded.
\<close>

section \<open>Delivered values\<close>

fun delivered :: "json \<Rightarrow> bool" where
  "delivered (JObject m) \<longleftrightarrow> map_ok m \<and> (\<forall>(k, v) \<in> set m. delivered v)"
| "delivered (JArray xs) \<longleftrightarrow> (\<forall>v \<in> set xs. delivered v)"
| "delivered JDiscarded \<longleftrightarrow> False"
| "delivered _ \<longleftrightarrow> True"

fun frame_built :: "frame \<Rightarrow> bool" where
  "frame_built (ArrayFrame xs) \<longleftrightarrow> delivered (JArray xs)"
| "frame_built (ObjectFrame m k) \<longleftrightarrow> delivered (JObject m)"

lemma delivered_fill: "frame_built f \<Longrightarrow> delivered v \<Longrightarrow> delivered (fill f v)"
  using set_map_assign by (cases f) (fastforce split: prod.splits)+

lemma delivered_map_at: "delivered (JObject m) \<Longrightarrow> delivered (JObject (map_at k m))"
  using set_map_at_entries [of k m] by (auto simp: map_ok_map_at split: prod.splits)

text \<open>Where the DOM parser stands: before a value, behind it, in an array, in an object, behind a key.\<close>

definition hole :: "frame list \<Rightarrow> dom \<Rightarrow> bool" where
  "hole fs d \<longleftrightarrow> dom_hole fs d \<and> list_all frame_built fs"

definition filled_in :: "frame list \<Rightarrow> dom \<Rightarrow> bool" where
  "filled_in fs d \<longleftrightarrow> (\<exists>v. dom_filled fs v d \<and> delivered v) \<and> list_all frame_built fs"

definition in_array :: "frame list \<Rightarrow> dom \<Rightarrow> bool" where
  "in_array fs d \<longleftrightarrow> (\<exists>xs. dom_open fs (JArray xs) d \<and> delivered (JArray xs)) \<and> list_all frame_built fs"

definition in_object :: "frame list \<Rightarrow> dom \<Rightarrow> bool" where
  "in_object fs d \<longleftrightarrow> (\<exists>m. dom_open fs (JObject m) d \<and> delivered (JObject m)) \<and> list_all frame_built fs"

definition in_member :: "frame list \<Rightarrow> dom \<Rightarrow> bool" where
  "in_member fs d \<longleftrightarrow> (\<exists>m k. hole (ObjectFrame m k # fs) d)"

lemma array_hole: "in_array fs d \<Longrightarrow> \<exists>xs. hole (ArrayFrame xs # fs) d"
  by (auto simp: in_array_def hole_def)

lemma in_array_filled: "filled_in (ArrayFrame xs # fs) d \<Longrightarrow> in_array fs d"
  using delivered_fill [of "ArrayFrame xs"] by (fastforce simp: filled_in_def in_array_def)

lemma in_object_filled: "filled_in (ObjectFrame m k # fs) d \<Longrightarrow> in_object fs d"
  using delivered_fill [of "ObjectFrame m k"] by (fastforce simp: filled_in_def in_object_def)

text \<open>An error only sets a flag.\<close>

definition same_place :: "dom \<Rightarrow> dom \<Rightarrow> bool" where
  "same_place d d' \<longleftrightarrow> root d' = root d \<and> ref_stack d' = ref_stack d \<and> object_element d' = object_element d"

lemma same_place_refl [simp]: "same_place d d"
  by (simp add: same_place_def)

lemma same_place_trans: "same_place d1 d2 \<Longrightarrow> same_place d2 d3 \<Longrightarrow> same_place d1 d3"
  by (simp add: same_place_def)

definition stable :: "(dom \<Rightarrow> bool) \<Rightarrow> bool" where
  "stable P \<longleftrightarrow> (\<forall>d d'. same_place d d' \<longrightarrow> P d \<longrightarrow> P d')"

lemma dom_place:
  assumes "same_place d d'"
  shows "dom_open fs v d' = dom_open fs v d" "dom_hole fs d' = dom_hole fs d" "dom_filled fs v d' = dom_filled fs v d"
proof -
  show o: "dom_open fs v d' = dom_open fs v d" for fs v using assms by (simp add: dom_open_def same_place_def)
  show "dom_hole fs d' = dom_hole fs d"
  proof (cases fs)
    case (Cons f gs)
    then show ?thesis using assms o by (cases f) (auto simp: same_place_def)
  qed (use assms in \<open>simp add: same_place_def\<close>)
  show "dom_filled fs v d' = dom_filled fs v d" using assms o by (cases fs) (auto simp: same_place_def)
qed

lemma stable_places [simp]: "stable (hole fs)" "stable (filled_in fs)" "stable (in_array fs)" "stable (in_object fs)"
  "stable (in_member fs)"
proof -
  show h: "stable (hole fs)" for fs by (auto simp: stable_def hole_def dom_place)
  show "stable (in_member fs)" using h unfolding stable_def in_member_def by blast
qed (auto simp: stable_def filled_in_def in_array_def in_object_def dom_place)

section \<open>Readers that stay where they are\<close>

text \<open>The program does not stop but with an exception, and the answers satisfy \<open>Q\<close>.\<close>

definition calm :: "('h, 'a) rd \<Rightarrow> 'h binary_reader \<Rightarrow> ('a \<Rightarrow> 'h binary_reader \<Rightarrow> bool) \<Rightarrow> bool" where
  "calm m r Q \<longleftrightarrow> (\<forall>e. m r = Some (Inl e) \<longrightarrow> (\<exists>t. e = Uncaught t)) \<and> (\<forall>x r'. m r = Some (Inr (x, r')) \<longrightarrow> Q x r')"

lemma calm_bind: "calm m r Q \<Longrightarrow> (\<And>x r'. Q x r' \<Longrightarrow> calm (k x) r' R) \<Longrightarrow> calm (rd_bind m k) r R"
  by (fastforce simp: calm_def rd_bind_def split: option.splits sum.splits)

lemma calm_return [simp]: "calm (rd_return x) r Q \<longleftrightarrow> Q x r"
  by (simp add: calm_def rd_return_def)

lemma calm_none [simp]: "calm (\<lambda>r. None) r Q"
  by (simp add: calm_def)

lemma calm_mono: "calm m r Q \<Longrightarrow> (\<And>x r'. Q x r' \<Longrightarrow> R x r') \<Longrightarrow> calm m r R"
  by (auto simp: calm_def)

lemma calm_cong: "m r = m' r \<Longrightarrow> calm m' r Q \<Longrightarrow> calm m r Q"
  by (simp add: calm_def)

text \<open>A reader that leaves the DOM parser where it is.\<close>

definition neutral :: "(dom, 'a) rd \<Rightarrow> bool" where
  "neutral m \<longleftrightarrow> (\<forall>r. calm m r (\<lambda>x r'. same_place (bin_sax r) (bin_sax r')))"

lemma neutralI: "(\<And>r. calm m r (\<lambda>x r'. same_place (bin_sax r) (bin_sax r'))) \<Longrightarrow> neutral m"
  by (simp add: neutral_def)

lemma neutralD: "neutral m \<Longrightarrow> calm m r (\<lambda>x r'. same_place (bin_sax r) (bin_sax r'))"
  by (simp add: neutral_def)

named_theorems neutral_intros "rules for readers that leave the DOM parser alone"

lemma neutral_return [neutral_intros]: "neutral (rd_return x)"
  by (simp add: neutral_def)

lemma neutral_none [neutral_intros]: "neutral (\<lambda>r. None)"
  by (simp add: neutral_def)

lemma neutral_bind [neutral_intros]: "neutral m \<Longrightarrow> (\<And>x. neutral (k x)) \<Longrightarrow> neutral (rd_bind m k)"
  by (rule neutralI, rule calm_bind [OF neutralD], assumption)
    (auto intro: calm_mono [OF neutralD] same_place_trans)

lemma neutral_if [neutral_intros]: "neutral m \<Longrightarrow> neutral m' \<Longrightarrow> neutral (if c then m else m')"
  by simp

lemma neutral_option [neutral_intros]:
  "neutral m \<Longrightarrow> (\<And>x. neutral (f x)) \<Longrightarrow> neutral (case v of None \<Rightarrow> m | Some x \<Rightarrow> f x)"
  by (simp split: option.splits)

lemma neutral_pair [neutral_intros]: "(\<And>a b. neutral (f a b)) \<Longrightarrow> neutral (case p of (a, b) \<Rightarrow> f a b)"
  by (simp split: prod.splits)

lemma neutral_current [neutral_intros]: "neutral rd_current" "neutral rd_position"
  by (simp_all add: neutral_def calm_def rd_current_def rd_position_def)

lemma neutral_get [neutral_intros]: "neutral binary_get"
  by (auto simp: neutral_def calm_def binary_get_def Let_def split: list.splits)

lemma neutral_noop [neutral_intros]: "neutral get_ignore_noop"
proof (rule neutralI)
  fix r :: "dom binary_reader"
  show "calm get_ignore_noop r (\<lambda>x r'. same_place (bin_sax r) (bin_sax r'))"
  proof (induction r rule: get_ignore_noop.induct)
    case (1 r)
    show ?case
    proof (cases "\<exists>bs. bin_input r = 0x4E # bs")
      case True
      then obtain bs where bs: "bin_input r = 0x4E # bs" by blast
      let ?r = "r\<lparr>bin_input := bs, bin_current := 0x4E, bin_read := Suc (bin_read r)\<rparr>"
      have "get_ignore_noop r = get_ignore_noop ?r" using bs by (subst get_ignore_noop.simps) simp
      moreover have "calm get_ignore_noop ?r (\<lambda>x r'. same_place (bin_sax ?r) (bin_sax r'))" using 1 bs by blast
      ultimately show ?thesis by (simp add: calm_def)
    next
      case False
      then have "get_ignore_noop r = binary_get r"
        by (subst get_ignore_noop.simps) (auto split: list.splits)
      then show ?thesis using neutralD [OF neutral_get, of r] by (simp add: calm_def)
    qed
  qed
qed

text \<open>The errors of the readers have numbers that \<open>parse_error\<close> of the DOM parser knows.\<close>

lemma ex_id_parse_error_at: "ex_id (parse_error_at eid n m) = eid"
  by (simp add: parse_error_at_def)

lemma dom_error_calm:
  assumes "eid div 100 mod 100 \<in> {1, 2, 3, 4, 5}"
  shows "(\<exists>t. dom_parse_error p tok (parse_error_at eid n m) d = Inl (Uncaught t)) \<or>
    (\<exists>d'. dom_parse_error p tok (parse_error_at eid n m) d = Inr (False, d') \<and> same_place d d')"
  using assms by (auto simp: dom_parse_error_def ex_id_parse_error_at json_throw_def same_place_def Let_def)

lemma named_format: "fmt \<noteq> json_format \<Longrightarrow> \<exists>m. binary_exception_message fmt detail cxt = Inr m"
  by (cases fmt) (simp_all add: binary_exception_message_def format_name_def)

lemma other_formats [simp, neutral_intros]:
  "cbor_format \<noteq> json_format" "msgpack_format \<noteq> json_format" "ubjson_format \<noteq> json_format" "bson_format \<noteq> json_format"
  by simp_all

lemma neutral_error:
  assumes "fmt \<noteq> json_format" "eid div 100 mod 100 \<in> {1, 2, 3, 4, 5}"
  shows "neutral (binary_error dom_sax fmt eid tok detail cxt)"
proof (rule neutralI)
  fix r :: "dom binary_reader"
  obtain m where m: "binary_exception_message fmt detail cxt = Inr m"
    using named_format [OF assms(1), of detail cxt] ..
  show "calm (binary_error dom_sax fmt eid tok detail cxt) r (\<lambda>x r'. same_place (bin_sax r) (bin_sax r'))"
    using dom_error_calm [OF assms(2), of "bin_read r" tok "bin_read r" m "bin_sax r"] m
    by (auto simp: calm_def binary_error_def rd_sax_def)
qed

lemma error_fails: "calm (binary_error dom_sax fmt eid tok detail cxt) r (\<lambda>b r'. \<not> b)"
  if fmt: "fmt \<noteq> json_format" and eid: "eid div 100 mod 100 \<in> {1, 2, 3, 4, 5}"
proof -
  obtain m where m: "binary_exception_message fmt detail cxt = Inr m"
    using named_format [OF fmt, of detail cxt] ..
  show ?thesis
    using dom_error_calm [OF eid, of "bin_read r" tok "bin_read r" m "bin_sax r"] m
    by (auto simp: calm_def binary_error_def rd_sax_def)
qed

lemma neutral_eof [neutral_intros]:
  assumes "fmt \<noteq> json_format"
  shows "neutral (unexpect_eof dom_sax fmt cxt)"
proof (rule neutralI)
  fix r :: "dom binary_reader"
  have "neutral (binary_error dom_sax fmt 110 tok detail cxt)" for tok detail
    by (rule neutral_error) (use assms in simp_all)
  then show "calm (unexpect_eof dom_sax fmt cxt) r (\<lambda>x r'. same_place (bin_sax r) (bin_sax r'))"
    by (auto simp: unexpect_eof_def calm_def rd_return_def neutral_def)
qed

lemma eof_fails_calm:
  assumes "fmt \<noteq> json_format" "bin_current r = - 1"
  shows "calm (unexpect_eof dom_sax fmt cxt) r (\<lambda>b r'. \<not> b)"
proof -
  have "unexpect_eof dom_sax fmt cxt r =
      binary_error dom_sax fmt 110 ''<end of file>'' ''unexpected end of input'' cxt r"
    using assms(2) by (simp add: unexpect_eof_def)
  then show ?thesis by (rule calm_cong) (rule error_fails, use assms(1) in simp_all)
qed

lemma neutral_number_bytes [neutral_intros]: "fmt \<noteq> json_format \<Longrightarrow> neutral (number_bytes dom_sax fmt k)"
  by (induction k) (auto intro!: neutral_intros)

lemma neutral_number [neutral_intros]:
  assumes "fmt \<noteq> json_format"
  shows "neutral (get_number dom_sax le fmt :: (dom, 'a::len word option) rd)"
proof (rule neutralI)
  fix r :: "dom binary_reader"
  have "neutral (rd_bind (number_bytes dom_sax fmt k) (\<lambda>v. rd_return (map_option F v)))"
    for k and F :: "byte list \<Rightarrow> 'a word"
    by (intro neutral_intros assms)
  from neutralD [OF this, where r = r] show
    "calm (get_number dom_sax le fmt :: (dom, 'a word option) rd) r (\<lambda>x r'. same_place (bin_sax r) (bin_sax r'))"
    by (simp add: calm_def get_number_def)
qed

lemma neutral_string_bytes [neutral_intros]: "fmt \<noteq> json_format \<Longrightarrow> neutral (string_bytes dom_sax fmt k)"
  by (induction k) (auto intro!: neutral_intros)

lemma neutral_string [neutral_intros]: "fmt \<noteq> json_format \<Longrightarrow> neutral (binary_get_string dom_sax fmt k)"
  unfolding binary_get_string_def by (intro neutral_intros)

lemma neutral_sized [neutral_intros]:
  "fmt \<noteq> json_format \<Longrightarrow> neutral l \<Longrightarrow> neutral (sized_string dom_sax fmt l)"
  unfolding sized_string_def by (intro neutral_intros)

lemma neutral_lengths [neutral_intros]:
  "fmt \<noteq> json_format \<Longrightarrow> neutral (unsigned_length dom_sax fmt t)"
  "fmt \<noteq> json_format \<Longrightarrow> neutral (signed_length dom_sax fmt u)"
proof -
  assume f: "fmt \<noteq> json_format"
  show "neutral (unsigned_length dom_sax fmt t)" unfolding unsigned_length_def by (intro neutral_intros f)
  show "neutral (signed_length dom_sax fmt u)" unfolding signed_length_def by (intro neutral_intros f)
qed

section \<open>Readers that move on\<close>

text \<open>Where \<open>P\<close> holds of the DOM parser and the answer is true, \<open>Q\<close> holds behind it.\<close>

definition moves :: "(dom \<Rightarrow> bool) \<Rightarrow> (dom, bool) rd \<Rightarrow> (dom \<Rightarrow> bool) \<Rightarrow> bool" where
  "moves P m Q \<longleftrightarrow> (\<forall>r. P (bin_sax r) \<longrightarrow> calm m r (\<lambda>b r'. b \<longrightarrow> Q (bin_sax r')))"

lemma movesI: "(\<And>r. P (bin_sax r) \<Longrightarrow> calm m r (\<lambda>b r'. b \<longrightarrow> Q (bin_sax r'))) \<Longrightarrow> moves P m Q"
  by (simp add: moves_def)

lemma movesD: "moves P m Q \<Longrightarrow> P (bin_sax r) \<Longrightarrow> calm m r (\<lambda>b r'. b \<longrightarrow> Q (bin_sax r'))"
  by (simp add: moves_def)

lemma moves_return [simp]: "moves P (rd_return False) Q" "moves P (rd_return True) P"
  by (simp_all add: moves_def)

lemma moves_none [simp]: "moves P (\<lambda>r. None) Q"
  by (simp add: moves_def)

lemma moves_and: "moves P m Q \<Longrightarrow> moves Q k R \<Longrightarrow> moves P (rd_and m k) R"
  unfolding rd_and_def
proof (rule movesI)
  fix r :: "dom binary_reader" assume a: "moves P m Q" "moves Q k R" "P (bin_sax r)"
  show "calm (rd_bind m (\<lambda>b. if b then k else rd_return False)) r (\<lambda>b r'. b \<longrightarrow> R (bin_sax r'))"
  proof (rule calm_bind [OF movesD [OF a(1,3)]])
    fix b and r' :: "dom binary_reader" assume "b \<longrightarrow> Q (bin_sax r')"
    then show "calm (if b then k else rd_return False) r' (\<lambda>b r'. b \<longrightarrow> R (bin_sax r'))"
      using movesD [OF a(2), of r'] by simp
  qed
qed

lemma moves_neutral: "neutral m \<Longrightarrow> stable P \<Longrightarrow> moves P m P"
  unfolding moves_def stable_def by (blast intro: calm_mono [OF neutralD])

lemma moves_bind: "neutral m \<Longrightarrow> stable P \<Longrightarrow> (\<And>x. moves P (k x) Q) \<Longrightarrow> moves P (rd_bind m k) Q"
proof (rule movesI)
  fix r :: "dom binary_reader" assume a: "neutral m" "stable P" "\<And>x. moves P (k x) Q" "P (bin_sax r)"
  show "calm (rd_bind m k) r (\<lambda>b r'. b \<longrightarrow> Q (bin_sax r'))"
  proof (rule calm_bind [OF neutralD [OF a(1)]])
    fix x and r' :: "dom binary_reader" assume "same_place (bin_sax r) (bin_sax r')"
    then have "P (bin_sax r')" using a(2,4) by (auto simp: stable_def)
    then show "calm (k x) r' (\<lambda>b r'. b \<longrightarrow> Q (bin_sax r'))" by (rule movesD [OF a(3)])
  qed
qed

lemma moves_with: "neutral m \<Longrightarrow> stable P \<Longrightarrow> (\<And>x. moves P (k x) Q) \<Longrightarrow> moves P (rd_with m k) Q"
  unfolding rd_with_def by (rule moves_bind) (simp_all split: option.splits)

lemma moves_if: "(c \<Longrightarrow> moves P m Q) \<Longrightarrow> (\<not> c \<Longrightarrow> moves P m' Q) \<Longrightarrow> moves P (if c then m else m') Q"
  by simp

lemma moves_repeat: "moves P m P \<Longrightarrow> moves P (rd_repeat n m) P"
  by (induction n) (auto intro: moves_and)

lemma moves_while: "neutral c \<Longrightarrow> stable P \<Longrightarrow> moves P m P \<Longrightarrow> moves P (rd_while n c m) P"
  by (induction n) (auto intro!: moves_bind moves_if moves_and)

lemma moves_error:
  "fmt \<noteq> json_format \<Longrightarrow> eid div 100 mod 100 \<in> {1, 2, 3, 4, 5} \<Longrightarrow> moves P (binary_error dom_sax fmt eid tok detail cxt) Q"
  unfolding moves_def by (blast intro: calm_mono [OF error_fails])

text \<open>The calls of the DOM parser.\<close>

lemma moves_value:
  assumes "delivered v"
  shows "moves (hole fs) (rd_sax (dom_value v)) (filled_in fs)"
proof (rule movesI)
  fix r :: "dom binary_reader" assume h: "hole fs (bin_sax r)"
  then obtain d' where "dom_value v (bin_sax r) = Inr (True, d')" "dom_filled fs v d'"
    using dom_value_hole [of fs "bin_sax r" v] by (auto simp: hole_def)
  then show "calm (rd_sax (dom_value v)) r (\<lambda>b r'. b \<longrightarrow> filled_in fs (bin_sax r'))"
    using h assms by (auto simp: calm_def rd_sax_def filled_in_def hole_def)
qed

lemma dom_start_calm:
  assumes "dom_hole fs d"
  shows "(\<exists>t. dom_start v what len d = Inl (Uncaught t)) \<or> (\<exists>d'. dom_start v what len d = Inr (True, d') \<and> dom_open fs v d')"
proof -
  obtain d' where "handle_value v d = Inr (path fs, d')" "frames_ok fs" "root d' = plug fs v"
    "ref_stack d' = (case fs of [] \<Rightarrow> [] | _ # outer \<Rightarrow> ref_paths outer)"
    using handle_value_hole [OF assms, of v] by auto
  then show ?thesis
    by (cases fs) (auto simp: dom_start_def dom_open_def json_throw_def Let_def)
qed

lemma moves_start:
  "moves (hole fs) (rd_sax (dom_start (JArray []) what len)) (in_array fs)"
  "moves (hole fs) (rd_sax (dom_start (JObject []) what len)) (in_object fs)"
proof -
  have start: "calm (rd_sax (dom_start v what len)) r (\<lambda>b r'. dom_open fs v (bin_sax r'))"
    if "hole fs (bin_sax r)" for v r
    using dom_start_calm [of fs "bin_sax r" v what len] that
    by (auto simp: calm_def rd_sax_def hole_def)
  show "moves (hole fs) (rd_sax (dom_start (JArray []) what len)) (in_array fs)"
    by (rule movesI, rule calm_mono [OF start]) (auto simp: in_array_def hole_def)
  show "moves (hole fs) (rd_sax (dom_start (JObject []) what len)) (in_object fs)"
    by (rule movesI, rule calm_mono [OF start]) (auto simp: in_object_def hole_def map_ok_def)
qed

lemma end_calm:
  assumes "dom_open fs v (bin_sax r)" "delivered v" "list_all frame_built fs"
  shows "calm (rd_sax dom_end) r (\<lambda>b r'. b \<longrightarrow> filled_in fs (bin_sax r'))"
proof -
  obtain d' where d: "dom_end (bin_sax r) = Inr (True, d')" "dom_filled fs v d'"
    using dom_end_open [OF assms(1)] by blast
  then have "filled_in fs d'" using assms(2,3) unfolding filled_in_def by blast
  then show ?thesis using d(1) by (simp add: calm_def rd_sax_def)
qed

lemma moves_end:
  "moves (in_array fs) (rd_sax dom_end) (filled_in fs)"
  "moves (in_object fs) (rd_sax dom_end) (filled_in fs)"
  unfolding moves_def in_array_def in_object_def using end_calm by blast+

lemma moves_key: "moves (in_object fs) (rd_sax (dom_key k)) (in_member fs)"
proof (rule movesI)
  fix r :: "dom binary_reader" assume "in_object fs (bin_sax r)"
  then obtain m where m: "dom_open fs (JObject m) (bin_sax r)" "delivered (JObject m)" "list_all frame_built fs"
    by (auto simp: in_object_def)
  then have "map_ok m" by simp
  then obtain d' where d: "dom_key k (bin_sax r) = Inr (True, d')" "dom_hole (ObjectFrame (map_at k m) k # fs) d'"
    using dom_key_open [OF m(1)] by blast
  have "in_member fs d'"
    unfolding in_member_def hole_def using d(2) delivered_map_at [OF m(2), of k] m(3)
    by (auto simp del: dom_hole.simps delivered.simps)
  then show "calm (rd_sax (dom_key k)) r (\<lambda>b r'. b \<longrightarrow> in_member fs (bin_sax r'))"
    using d(1) by (simp add: calm_def rd_sax_def)
qed

text \<open>A reader of values, for the elements of an array and the members of an object.\<close>

lemma moves_element: "(\<And>gs. moves (hole gs) m (filled_in gs)) \<Longrightarrow> moves (in_array fs) m (in_array fs)"
proof (rule movesI)
  fix r :: "dom binary_reader" assume m: "\<And>gs. moves (hole gs) m (filled_in gs)" and "in_array fs (bin_sax r)"
  then obtain xs where "hole (ArrayFrame xs # fs) (bin_sax r)" using array_hole by blast
  from movesD [OF m this] show "calm m r (\<lambda>b r'. b \<longrightarrow> in_array fs (bin_sax r'))"
    by (rule calm_mono) (auto intro: in_array_filled)
qed

lemma moves_member: "(\<And>gs. moves (hole gs) m (filled_in gs)) \<Longrightarrow> moves (in_member fs) m (in_object fs)"
proof (rule movesI)
  fix r :: "dom binary_reader" assume m: "\<And>gs. moves (hole gs) m (filled_in gs)" and "in_member fs (bin_sax r)"
  then obtain obj k where "hole (ObjectFrame obj k # fs) (bin_sax r)" by (auto simp: in_member_def)
  from movesD [OF m this] show "calm m r (\<lambda>b r'. b \<longrightarrow> in_object fs (bin_sax r'))"
    by (rule calm_mono) (auto intro: in_object_filled)
qed

text \<open>A reader of the value that begins with a character: at the end of the input it answers false.\<close>

definition reads_from :: "(int \<Rightarrow> (dom, bool) rd) \<Rightarrow> bool" where
  "reads_from k \<longleftrightarrow> (\<forall>fs c. c \<noteq> - 1 \<longrightarrow> moves (hole fs) (k c) (filled_in fs)) \<and>
     (\<forall>r. bin_current r = - 1 \<longrightarrow> calm (k (- 1)) r (\<lambda>b r'. \<not> b))"

lemma reads_fromI:
  assumes "\<And>fs c. c \<noteq> - 1 \<Longrightarrow> moves (hole fs) (k c) (filled_in fs)"
    and "k (- 1) = unexpect_eof dom_sax fmt cxt" "fmt \<noteq> json_format"
  shows "reads_from k"
  using assms eof_fails_calm by (simp add: reads_from_def)

lemma current_after:
  "calm binary_get r (\<lambda>c r'. bin_current r' = c)"
  "calm rd_current r (\<lambda>c r'. bin_current r' = c)"
  by (simp_all add: calm_def binary_get_def rd_current_def Let_def)

lemma noop_after: "calm get_ignore_noop r (\<lambda>c r'. bin_current r' = c)"
proof (induction r rule: get_ignore_noop.induct)
  case (1 r)
  show ?case
  proof (cases "\<exists>bs. bin_input r = 0x4E # bs")
    case True
    then obtain bs where bs: "bin_input r = 0x4E # bs" by blast
    then have "get_ignore_noop r = get_ignore_noop (r\<lparr>bin_input := bs, bin_current := 0x4E, bin_read := Suc (bin_read r)\<rparr>)"
      by (subst get_ignore_noop.simps) simp
    then show ?thesis using 1 bs by (simp add: calm_def)
  next
    case False
    then have "get_ignore_noop r = binary_get r"
      by (subst get_ignore_noop.simps) (auto split: list.splits)
    then show ?thesis using current_after(1) [of r] by (simp add: calm_def)
  qed
qed

lemma reads_first:
  assumes "reads_from k" "neutral m" "\<And>r. calm m r (\<lambda>c r'. bin_current r' = c)"
  shows "moves (hole fs) (rd_bind m k) (filled_in fs)"
proof (rule movesI)
  fix r :: "dom binary_reader" assume h: "hole fs (bin_sax r)"
  have "calm m r (\<lambda>c r'. bin_current r' = c \<and> hole fs (bin_sax r'))"
    using neutralD [OF assms(2), of r] assms(3) [of r] h stable_places(1) [of fs]
    unfolding calm_def stable_def by blast
  then show "calm (rd_bind m k) r (\<lambda>b r'. b \<longrightarrow> filled_in fs (bin_sax r'))"
  proof (rule calm_bind)
    fix c and r' :: "dom binary_reader" assume c: "bin_current r' = c \<and> hole fs (bin_sax r')"
    show "calm (k c) r' (\<lambda>b r''. b \<longrightarrow> filled_in fs (bin_sax r''))"
    proof (cases "c = - 1")
      case True
      then have "calm (k c) r' (\<lambda>b r''. \<not> b)" using assms(1) c by (simp add: reads_from_def)
      then show ?thesis by (rule calm_mono) simp
    next
      case False
      then have "moves (hole fs) (k c) (filled_in fs)" using assms(1) by (simp add: reads_from_def)
      then show ?thesis using c by (auto dest: movesD)
    qed
  qed
qed

lemmas reads_firsts = reads_first [OF _ neutral_get current_after(1)]
  reads_first [OF _ neutral_current(1) current_after(2)] reads_first [OF _ neutral_noop noop_after]

section \<open>CBOR\<close>

lemma neutral_chunks [neutral_intros]: "neutral chunk \<Longrightarrow> neutral (cbor_chunks k chunk acc)"
  by (induction k arbitrary: acc) (auto intro!: neutral_intros split: option.splits)

lemma neutral_cbor_string [neutral_intros]: "neutral (get_cbor_string n dom_sax)"
  by (induction n) (auto intro!: neutral_intros neutral_error)

lemma neutral_not_break [neutral_intros]: "neutral not_break"
  unfolding not_break_def by (intro neutral_intros)

lemma moves_cbor_array:
  assumes "\<And>fs b. moves (hole fs) (rec b) (filled_in fs)"
  shows "moves (hole fs) (get_cbor_array n dom_sax rec len) (filled_in fs)"
  unfolding get_cbor_array_def dom_handler_simps
  by (intro moves_and [OF moves_start(1)] moves_and [OF _ moves_end(1)] moves_if moves_repeat moves_while
      moves_element assms neutral_intros stable_places)

lemma moves_cbor_member:
  assumes "\<And>fs b. moves (hole fs) (rec b) (filled_in fs)"
  shows "moves (in_object fs) (cbor_member n dom_sax rec) (in_object fs)"
  unfolding cbor_member_def dom_handler_simps
  by (intro moves_and [OF moves_with [OF _ _ moves_key]] moves_member assms neutral_intros stable_places)

lemma moves_cbor_object:
  assumes "\<And>fs b. moves (hole fs) (rec b) (filled_in fs)"
  shows "moves (hole fs) (get_cbor_object n dom_sax rec len) (filled_in fs)"
  unfolding get_cbor_object_def dom_handler_simps
  by (intro moves_and [OF moves_start(2)] moves_and [OF _ moves_end(2)] moves_if moves_repeat moves_while
      moves_bind moves_cbor_member assms neutral_intros stable_places)

lemma moves_cbor_value:
  assumes "\<And>fs b. moves (hole fs) (rec b) (filled_in fs)" "c \<noteq> - 1"
  shows "moves (hole fs) (parse_cbor_value n dom_sax rec c) (filled_in fs)"
proof -
  have half: "moves (hole fs) (cbor_half dom_sax) (filled_in fs)"
    unfolding cbor_half_def dom_handler_simps Let_def
    by (intro moves_bind moves_and [OF moves_neutral] moves_value neutral_intros stable_places) simp_all
  show ?thesis
    unfolding parse_cbor_value_def dom_handler_simps if_not_P [OF assms(2)]
    by (intro moves_if half moves_cbor_array moves_cbor_object assms(1) moves_with moves_value moves_error
        neutral_intros stable_places; simp)
qed

lemma moves_cbor: "moves (hole fs) (parse_cbor_internal n dom_sax b) (filled_in fs)"
proof (induction n arbitrary: fs b)
  case (Suc n)
  have "reads_from (parse_cbor_value n dom_sax (parse_cbor_internal n dom_sax))"
    by (rule reads_fromI [where fmt = cbor_format, OF moves_cbor_value [OF Suc.IH]])
      (simp_all add: parse_cbor_value_def)
  then show ?case using reads_firsts by (cases b) (simp_all del: rd_current_bind)
qed simp

section \<open>MessagePack\<close>

lemma neutral_msgpack_string [neutral_intros]: "neutral (get_msgpack_string dom_sax)"
  unfolding get_msgpack_string_def by (intro neutral_intros neutral_error) simp_all

lemma moves_msgpack_value:
  assumes "\<And>fs. moves (hole fs) rec (filled_in fs)" "c \<noteq> - 1"
  shows "moves (hole fs) (parse_msgpack_value dom_sax rec c) (filled_in fs)"
proof -
  have arrays: "moves (hole fs) (get_msgpack_array dom_sax rec len) (filled_in fs)" for fs len
    unfolding get_msgpack_array_def dom_handler_simps
    by (intro moves_and [OF moves_start(1)] moves_and [OF _ moves_end(1)] moves_repeat moves_element assms(1))
  have "moves (in_object fs) (msgpack_member dom_sax rec) (in_object fs)" for fs
    unfolding msgpack_member_def dom_handler_simps
    by (intro moves_bind moves_and [OF moves_with [OF _ _ moves_key]] moves_member assms(1) neutral_intros stable_places)
  then have objects: "moves (hole fs) (get_msgpack_object dom_sax rec len) (filled_in fs)" for fs len
    unfolding get_msgpack_object_def dom_handler_simps
    by (intro moves_and [OF moves_start(2)] moves_and [OF _ moves_end(2)] moves_repeat)
  show ?thesis
    unfolding parse_msgpack_value_def dom_handler_simps if_not_P [OF assms(2)]
    by (intro moves_if arrays objects moves_with moves_value moves_error neutral_intros stable_places; simp)
qed

lemma moves_msgpack: "moves (hole fs) (parse_msgpack_internal n dom_sax) (filled_in fs)"
proof (induction n arbitrary: fs)
  case (Suc n)
  have "reads_from (parse_msgpack_value dom_sax (parse_msgpack_internal n dom_sax))"
    by (rule reads_fromI [where fmt = msgpack_format, OF moves_msgpack_value [OF Suc.IH]])
      (simp_all add: parse_msgpack_value_def)
  then show ?case using reads_firsts by simp
qed simp

section \<open>UBJSON\<close>

lemma neutral_ubjson_string [neutral_intros]: "neutral (get_ubjson_string dom_sax b)"
  unfolding get_ubjson_string_def by (intro neutral_intros neutral_error) simp_all

lemma neutral_ubjson_size [neutral_intros]: "neutral (get_ubjson_size_value dom_sax old)"
  unfolding get_ubjson_size_value_def size_as_def by (intro neutral_intros neutral_error) simp_all

lemma neutral_size_type: "neutral (get_ubjson_size_type dom_sax)"
  unfolding get_ubjson_size_type_def by (intro neutral_intros neutral_error) simp_all

text \<open>The type in front of a container is a character of the input.\<close>

definition answers :: "('a \<Rightarrow> bool) \<Rightarrow> (dom, 'a) rd \<Rightarrow> bool" where
  "answers P m \<longleftrightarrow> (\<forall>r. calm m r (\<lambda>x r'. P x))"

lemma answers_return: "P x \<Longrightarrow> answers P (rd_return x)"
  by (simp add: answers_def)

lemma answers_bind: "neutral m \<Longrightarrow> (\<And>x. answers P (k x)) \<Longrightarrow> answers P (rd_bind m k)"
  unfolding answers_def by (blast intro: calm_bind neutralD)

lemma answers_if: "(c \<Longrightarrow> answers P m) \<Longrightarrow> (\<not> c \<Longrightarrow> answers P m') \<Longrightarrow> answers P (if c then m else m')"
  by simp

definition typed :: "(u64 \<times> int) option \<Rightarrow> bool" where
  "typed v \<longleftrightarrow> (\<forall>k t. v = Some (k, t) \<longrightarrow> t \<noteq> - 1)"

lemma typed_simps [simp]:
  "typed None" "typed (Some (k, t)) \<longleftrightarrow> t \<noteq> - 1" "t \<noteq> - 1 \<Longrightarrow> typed (map_option (\<lambda>k. (k, t)) n)"
  by (auto simp: typed_def)

lemma eof_guard:
  assumes "\<And>c. c \<noteq> - 1 \<Longrightarrow> answers P (m c)" "P x"
  shows "answers P (rd_bind binary_get (\<lambda>c. rd_bind (unexpect_eof dom_sax ubjson_format cxt) (\<lambda>b.
     if \<not> b then rd_return x else m c)))"
  unfolding answers_def
proof (rule allI, rule calm_bind [OF current_after(1)])
  fix r c and r' :: "dom binary_reader" assume c: "bin_current r' = c"
  show "calm (rd_bind (unexpect_eof dom_sax ubjson_format cxt) (\<lambda>b. if \<not> b then rd_return x else m c)) r' (\<lambda>x r'. P x)"
  proof (cases "c = - 1")
    case True
    then have "calm (unexpect_eof dom_sax ubjson_format cxt) r' (\<lambda>b r'. \<not> b)" using c by (intro eof_fails_calm) simp_all
    then show ?thesis by (rule calm_bind) (simp add: assms(2))
  next
    case False
    from assms(1) [OF this] have "answers P (if \<not> b then rd_return x else m c)" for b
      using assms(2) by (simp add: answers_return)
    then have "calm (if \<not> b then rd_return x else m c) r (\<lambda>x r'. P x)" for b r
      unfolding answers_def by blast
    then show ?thesis by (rule calm_bind [OF neutralD [OF neutral_eof [OF other_formats(3)]]])
  qed
qed

lemma answers_size_type: "answers typed (get_ubjson_size_type dom_sax)"
  unfolding get_ubjson_size_type_def
  by (intro answers_bind [OF neutral_noop] answers_if eof_guard answers_return answers_bind neutral_intros neutral_error) simp_all

lemma moves_size_type:
  assumes "\<And>k t. t \<noteq> - 1 \<Longrightarrow> moves P (f k t) Q" "stable P"
  shows "moves P (rd_with (get_ubjson_size_type dom_sax) (\<lambda>(k, t). f k t)) Q"
  unfolding rd_with_def
proof (rule movesI)
  fix r :: "dom binary_reader" assume r: "P (bin_sax r)"
  have "calm (get_ubjson_size_type dom_sax) r (\<lambda>v r'. typed v \<and> P (bin_sax r'))"
    using neutralD [OF neutral_size_type, of r] answers_size_type assms(2) r
    unfolding calm_def answers_def stable_def by blast
  then show "calm (rd_bind (get_ubjson_size_type dom_sax) (\<lambda>v. case v of None \<Rightarrow> rd_return False | Some (k, t) \<Rightarrow> f k t))
      r (\<lambda>b r'. b \<longrightarrow> Q (bin_sax r'))"
  proof (rule calm_bind)
    fix v and r' :: "dom binary_reader" assume v: "typed v \<and> P (bin_sax r')"
    show "calm (case v of None \<Rightarrow> rd_return False | Some (k, t) \<Rightarrow> f k t) r' (\<lambda>b r'. b \<longrightarrow> Q (bin_sax r'))"
    proof (cases v)
      case (Some kt)
      then have "moves P (f (fst kt) (snd kt)) Q" using v by (intro assms(1)) (simp add: typed_def prod_eq_iff)
      then show ?thesis using v Some by (auto simp: case_prod_beta dest: movesD)
    qed simp
  qed
qed

lemma moves_internal: "reads_from val \<Longrightarrow> moves (hole fs) (parse_ubjson_internal val b) (filled_in fs)"
  unfolding parse_ubjson_internal_def using reads_firsts by (cases b) (simp_all del: rd_current_bind)

lemma moves_then_next: "moves P m Q \<Longrightarrow> stable Q \<Longrightarrow> moves P (then_next m) Q"
  unfolding then_next_def
  by (rule moves_and [where Q = Q], assumption, rule moves_bind) (intro neutral_intros, simp_all)

lemma neutral_current_not [neutral_intros]: "neutral (current_not c)"
  unfolding current_not_def by (intro neutral_intros)

lemma moves_ubjson_array:
  assumes "reads_from val"
  shows "moves (hole fs) (get_ubjson_array n dom_sax val) (filled_in fs)"
  unfolding get_ubjson_array_def dom_handler_simps
proof (intro moves_size_type moves_if stable_places)
  fix k :: u64 and t :: int assume "t \<noteq> - 1"
  then have "moves (hole gs) (val t) (filled_in gs)" for gs using assms by (simp add: reads_from_def)
  then show "moves (hole fs) (rd_and (rd_sax (dom_start (JArray []) ''array'' k))
      (rd_and (if t \<noteq> 0 then if t \<noteq> 0x4E then rd_repeat (unat k) (val t) else rd_return True
               else rd_repeat (unat k) (parse_ubjson_internal val True)) (rd_sax dom_end))) (filled_in fs)"
    by (intro moves_and [OF moves_start(1)] moves_and [OF _ moves_end(1)] moves_if moves_repeat moves_return
        moves_element moves_internal assms)
next
  show "moves (hole fs) (rd_and (rd_sax (dom_start (JArray []) ''array'' (- 1)))
      (rd_and (rd_while n (current_not 0x5D) (then_next (parse_ubjson_internal val False))) (rd_sax dom_end))) (filled_in fs)"
    by (intro moves_and [OF moves_start(1)] moves_and [OF _ moves_end(1)] moves_while moves_then_next
        moves_element moves_internal assms neutral_intros stable_places)
qed

lemma moves_ubjson_member:
  assumes "\<And>gs. moves (hole gs) m (filled_in gs)"
  shows "moves (in_object fs) (ubjson_member dom_sax b m) (in_object fs)"
  unfolding ubjson_member_def dom_handler_simps
  by (intro moves_and [OF moves_with [OF _ _ moves_key]] moves_member assms neutral_intros stable_places)

lemma moves_ubjson_object:
  assumes "reads_from val"
  shows "moves (hole fs) (get_ubjson_object n dom_sax val) (filled_in fs)"
  unfolding get_ubjson_object_def dom_handler_simps
proof (intro moves_size_type moves_if stable_places)
  fix k :: u64 and t :: int assume "t \<noteq> - 1"
  then have "moves (hole gs) (val t) (filled_in gs)" for gs using assms by (simp add: reads_from_def)
  then show "moves (hole fs) (rd_and (rd_sax (dom_start (JObject []) ''object'' k))
      (rd_and (rd_repeat (unat k) (ubjson_member dom_sax True (if t \<noteq> 0 then val t else parse_ubjson_internal val True)))
        (rd_sax dom_end))) (filled_in fs)"
    by (intro moves_and [OF moves_start(2)] moves_and [OF _ moves_end(2)] moves_repeat moves_ubjson_member
        moves_if moves_internal assms)
next
  show "moves (hole fs) (rd_and (rd_sax (dom_start (JObject []) ''object'' (- 1)))
      (rd_and (rd_while n (current_not 0x7D) (then_next (ubjson_member dom_sax False (parse_ubjson_internal val True))))
        (rd_sax dom_end))) (filled_in fs)"
    by (intro moves_and [OF moves_start(2)] moves_and [OF _ moves_end(2)] moves_while moves_then_next
        moves_ubjson_member moves_internal assms neutral_intros stable_places)
qed

lemma ubjson_reads_from:
  assumes "reads_from val"
  shows "reads_from (ubjson_value n dom_sax val)"
proof (rule reads_fromI [where fmt = ubjson_format])
  fix fs and c :: int assume c: "c \<noteq> - 1"
  have char: "moves (hole fs) (ubjson_char dom_sax) (filled_in fs)"
    unfolding ubjson_char_def dom_handler_simps
    by (intro moves_bind moves_and [OF moves_neutral] moves_if moves_value moves_error neutral_intros stable_places) simp_all
  have "moves (hole fs) (rd_bind rd_current (\<lambda>c. binary_error dom_sax ubjson_format 112 (t c) (d c) x)) (filled_in fs)" for t d x
    by (intro moves_bind moves_error neutral_intros stable_places) simp_all
  then show "moves (hole fs) (ubjson_value n dom_sax val c) (filled_in fs)"
    unfolding ubjson_value_def dom_handler_simps if_not_P [OF c]
    by (intro moves_if char moves_ubjson_array moves_ubjson_object assms moves_with moves_value
        neutral_intros stable_places; simp del: rd_current_bind)
qed (simp_all add: ubjson_value_def)

lemma moves_ubjson: "reads_from (get_ubjson_value n dom_sax)"
proof (induction n)
  case 0
  then show ?case by (simp add: reads_from_def)
next
  case (Suc n)
  then show ?case using ubjson_reads_from by simp
qed

section \<open>BSON\<close>

lemma neutral_bson_cstr [neutral_intros]: "neutral (get_bson_cstr n dom_sax acc)"
  by (induction n arbitrary: acc) (auto intro!: neutral_intros)

lemma neutral_bson_string [neutral_intros]: "neutral (get_bson_string dom_sax len)"
  unfolding get_bson_string_def by (intro neutral_intros neutral_error) simp_all

lemma moves_unsupported: "moves P (rd_sax (dom_parse_error p tok (parse_error_at 114 n m))) Q"
proof (rule movesI)
  fix r :: "dom binary_reader"
  show "calm (rd_sax (dom_parse_error p tok (parse_error_at 114 n m))) r (\<lambda>b r'. b \<longrightarrow> Q (bin_sax r'))"
    using dom_error_calm [of 114 p tok n m "bin_sax r"] by (auto simp: calm_def rd_sax_def)
qed

lemma moves_bson_container:
  assumes "moves P start R" "moves R elements R" "moves R finish Q" "stable P"
  shows "moves P (rd_bind (get_number dom_sax True bson_format) (\<lambda>size :: 32 word option. rd_and start (rd_and elements finish))) Q"
  by (rule moves_bind [OF neutral_number [OF other_formats(4)] assms(4) moves_and [OF assms(1) moves_and [OF assms(2,3)]]])

lemma moves_bson_array:
  "(\<And>gs. moves (in_array gs) (rec True) (in_array gs)) \<Longrightarrow> moves (hole fs) (parse_bson_array dom_sax rec) (filled_in fs)"
  unfolding parse_bson_array_def bson_container_def dom_handler_simps
  by (rule moves_bson_container [OF moves_start(1) _ moves_end(1) stable_places(1)])

lemma moves_bson_object:
  "(\<And>gs. moves (in_object gs) (rec False) (in_object gs)) \<Longrightarrow> moves (hole fs) (parse_bson_internal dom_sax rec) (filled_in fs)"
  unfolding parse_bson_internal_def bson_container_def dom_handler_simps
  by (rule moves_bson_container [OF moves_start(2) _ moves_end(2) stable_places(1)])

definition in_container :: "bool \<Rightarrow> frame list \<Rightarrow> dom \<Rightarrow> bool" where
  "in_container is_arr fs = (if is_arr then in_array fs else in_object fs)"

lemma stable_container [simp]: "stable (in_container b fs)"
  by (simp add: in_container_def)

lemma moves_bson_element:
  assumes "\<And>b gs. moves (in_container b gs) (rec b) (in_container b gs)"
  shows "moves (hole fs) (parse_bson_element_internal dom_sax rec t p) (filled_in fs)"
proof -
  have "moves (in_array gs) (rec True) (in_array gs)" "moves (in_object gs) (rec False) (in_object gs)" for gs
    using assms [of True gs] assms [of False gs] by (simp_all add: in_container_def)
  then show ?thesis
    unfolding parse_bson_element_internal_def dom_handler_simps
    by (intro moves_if moves_bson_array moves_bson_object moves_with moves_bind moves_value moves_unsupported
        neutral_intros stable_places; simp)
qed

lemma moves_bson_elements:
  assumes "\<And>b gs. moves (in_container b gs) (rec b) (in_container b gs)"
  shows "moves (in_container b fs) (bson_elements n m dom_sax rec b) (in_container b fs)"
proof (induction n)
  case (Suc n)
  let ?key = "rd_with (get_bson_cstr m dom_sax []) (\<lambda>key. if b then rd_return True else rd_sax (dom_key key))"
  have e: "moves (hole gs) (parse_bson_element_internal dom_sax rec t p) (filled_in gs)" for gs t p
    by (rule moves_bson_element [OF assms])
  have member: "moves (in_container b fs) (rd_and ?key (rd_and (parse_bson_element_internal dom_sax rec t p) k)) Q"
    if "moves (in_container b fs) k Q" for k Q t p
  proof (cases b)
    case True
    have "moves (in_array fs) ?key (in_array fs)" unfolding if_P [OF True]
      by (intro moves_with moves_return neutral_intros stable_places)
    then show ?thesis using that True moves_and [OF moves_element [OF e, of fs]]
      by (auto simp: in_container_def intro: moves_and)
  next
    case False
    have "moves (in_object fs) ?key (in_member fs)" unfolding if_not_P [OF False]
      by (intro moves_with moves_key neutral_intros stable_places)
    then show ?thesis using that False moves_and [OF moves_member [OF e, of fs]]
      by (auto simp: in_container_def intro: moves_and)
  qed
  have eof: "moves (in_container b fs) (unexpect_eof dom_sax bson_format cxt) (in_container b fs)" for cxt
    by (intro moves_neutral neutral_intros stable_container)
  show ?case
    unfolding bson_elements.simps dom_handler_simps
    by (rule moves_bind [OF neutral_get stable_container moves_if [OF moves_return(2) moves_and [OF eof
        moves_bind [OF neutral_current(2) stable_container member [OF Suc.IH]]]]])
qed simp

lemma moves_bson: "moves (in_container b fs) (parse_bson_element_list n dom_sax b) (in_container b fs)"
proof (induction n arbitrary: b fs)
  case (Suc n)
  show ?case unfolding parse_bson_element_list.simps by (rule moves_bson_elements [OF Suc.IH])
qed simp

section \<open>The entry points\<close>

lemma parse_format_moves:
  assumes "fmt \<noteq> json_format"
  shows "moves (hole fs) (parse_format fmt dom_sax) (filled_in fs)"
proof (rule movesI)
  fix r :: "dom binary_reader" assume h: "hole fs (bin_sax r)"
  let ?n = "binary_fuel r"
  have "moves (in_object gs) (parse_bson_element_list ?n dom_sax False) (in_object gs)" for gs
    using moves_bson [of False gs ?n] by (simp add: in_container_def)
  from movesD [OF moves_bson_object [where rec = "parse_bson_element_list ?n dom_sax", OF this] h] movesD [OF moves_cbor h] movesD [OF moves_msgpack h]
    movesD [OF moves_internal [OF moves_ubjson] h] assms
  show "calm (parse_format fmt dom_sax) r (\<lambda>b r'. b \<longrightarrow> filled_in fs (bin_sax r'))"
    by (cases fmt) (simp_all add: calm_def parse_format_def Let_def)
qed

lemma sax_parse_moves:
  assumes "fmt \<noteq> json_format"
  shows "moves (hole fs) (binary_sax_parse fmt dom_sax st) (filled_in fs)"
proof -
  have rest: "moves (filled_in fs) (rd_bind (if fmt = ubjson_format then get_ignore_noop else binary_get) (\<lambda>c.
       if c \<noteq> - 1 then binary_error dom_sax fmt 110 (hex_byte c) (d c) ''value'' else rd_return True)) (filled_in fs)" for d
    by (intro moves_bind moves_if moves_error moves_return neutral_intros stable_places) (simp_all add: assms)
  show ?thesis unfolding binary_sax_parse_def
  proof (rule movesI, rule calm_bind [OF movesD [OF parse_format_moves [OF assms]]], assumption)
    fix result and r' :: "dom binary_reader" assume r: "result \<longrightarrow> filled_in fs (bin_sax r')"
    show "calm (if result \<and> st then
       rd_bind (if fmt = ubjson_format then get_ignore_noop else binary_get) (\<lambda>c.
       if c \<noteq> - 1
       then binary_error dom_sax fmt 110 (hex_byte c) (''expected end of input; last byte: 0x'' @ hex_byte c) ''value''
       else rd_return result) else rd_return result) r' (\<lambda>b r'. b \<longrightarrow> filled_in fs (bin_sax r'))"
    proof (cases "result \<and> st")
      case True
      then have t: "result = True" "st = True" by simp_all
      from movesD [OF rest [of "\<lambda>c. ''expected end of input; last byte: 0x'' @ hex_byte c"], of r'] show ?thesis
        using r unfolding t by (simp split del: if_split)
    next
      case False
      then show ?thesis unfolding if_not_P [OF False] using r by simp
    qed
  qed
qed

text \<open>What a reader of one of the formats may answer, beside not at all.\<close>

lemma from_binary_safe:
  assumes "fmt \<noteq> json_format" "from_binary fmt limit le input st allow = Some a"
  shows "case a of Inl e \<Rightarrow> \<exists>t. e = Uncaught t | Inr v \<Rightarrow> v = JDiscarded \<or> delivered v"
proof -
  let ?r = "new_binary_reader le input (json_sax_dom_parser limit JNull allow)"
  have "hole [] (bin_sax ?r)" by (simp add: hole_def new_binary_reader_def json_sax_dom_parser_def)
  from movesD [OF sax_parse_moves [OF assms(1)] this]
  show ?thesis using assms(2)
    by (auto simp: from_binary_def calm_def filled_in_def split: option.splits sum.splits if_splits)
qed

end
