(* ===== verification/Json_Binary_Properties.thy ===== *)
theory Json_Binary_Properties
  imports Json_Cbor_Roundtrip Json_Msgpack_Roundtrip Json_Ubjson_Roundtrip Json_Bson_Roundtrip
    Json_Binary_Total Json_Binary_Safe Json_Properties
begin

text \<open>
  What the binary formats promise: every reader ends on every input, and a value written in one of
  the formats is read back, but for the types of some numbers. Then the inputs on which the readers
  do not do what their comments say.
\<close>

section \<open>A whole input\<close>

lemma from_binary_reads:
  assumes "reads_as L le m bs v" "\<And>r. bin_input r = bs \<Longrightarrow> parse_format fmt dom_sax r = m r"
  shows "from_binary fmt L le bs st allow = Some (Inr v)"
proof -
  let ?r = "new_binary_reader le bs (json_sax_dom_parser L JNull allow)"
  have "at_hole L le [] (bs @ []) ?r"
    by (simp add: at_defs new_binary_reader_def json_sax_dom_parser_def)
  then obtain r' where r': "m ?r = Some (Inr (True, r'))" "at_filled L le [] v [] r'"
    using reads_asD [OF assms(1), of "[]" "[]"] by (auto simp: leads_def)
  have "parse_format fmt dom_sax ?r = m ?r" by (rule assms(2)) (simp add: new_binary_reader_def)
  moreover have "bin_input r' = []" "root (bin_sax r') = v" using r'(2) by (simp_all add: at_defs)
  ultimately show ?thesis using r'(1)
    by (auto simp: from_binary_def binary_sax_parse_def rd_bind_def binary_get_def get_ignore_noop.simps
        rd_return_def Let_def)
qed

section \<open>Round trips\<close>

text \<open>
  C12. CBOR round trip: what \<open>to_cbor\<close> writes on a machine of either byte order, \<open>from_cbor\<close> reads on a
  machine of either byte order as the same value, where a number that is not negative comes back
  unsigned. The value has containers within \<open>max_size ()\<close> and strings below 2^64 bytes.
\<close>

theorem cbor_roundtrip:
  assumes "sizes_ok (unat limit) (2 ^ 64) j" "limit \<noteq> - 1"
  shows "from_cbor limit le (to_cbor le' j) st allow = Some (Inr (map_leaves unsigned_leaf j))"
  unfolding from_cbor_def to_cbor_def
  by (rule from_binary_reads [OF cbor_reads [OF assms, of le' "length (write_cbor le' j) + 2" le]])
    (simp_all add: parse_format_def binary_fuel_def Let_def)

theorem cbor_roundtrip_witness:
  "from_cbor 1000 True (to_cbor False (JArray [JInteger (- 5), JString [0x61], JObject [([0x6B], JInteger 300)]])) True True =
   Some (Inr (JArray [JInteger (- 5), JString [0x61], JObject [([0x6B], JUnsigned 300)]]))"
  using cbor_roundtrip [of 1000 "JArray [JInteger (- 5), JString [0x61], JObject [([0x6B], JInteger 300)]]" True False True True]
  by (simp add: map_ok_def unsigned_leaf_def)

text \<open>
  C15. MessagePack round trip: what \<open>to_msgpack\<close> writes, \<open>from_msgpack\<close> reads as the same value, where a
  number that is not negative comes back unsigned. The value has containers of less than 2^32
  elements and strings below 2^32 bytes.
\<close>

theorem msgpack_roundtrip:
  assumes "sizes_ok c (2 ^ 32) j" "c \<le> unat limit" "c < 2 ^ 32"
  shows "from_msgpack limit le (to_msgpack le' j) st allow = Some (Inr (map_leaves unsigned_leaf j))"
  unfolding from_msgpack_def to_msgpack_def
  by (rule from_binary_reads [OF msgpack_reads [OF assms, of le' "length (write_msgpack le' j) + 2" le]])
    (simp_all add: parse_format_def binary_fuel_def Let_def)

theorem msgpack_roundtrip_witness:
  "from_msgpack 1000 True (to_msgpack False (JObject [([0x6B], JArray [JInteger (- 200), JNull, JFloat 0])])) True True =
   Some (Inr (JObject [([0x6B], JArray [JInteger (- 200), JNull, JFloat 0])]))"
  using msgpack_roundtrip [of 1000 "JObject [([0x6B], JArray [JInteger (- 200), JNull, JFloat 0])]" 1000 True False True True]
  by (simp add: map_ok_def unsigned_leaf_def)

text \<open>
  C14. UBJSON round trip: whenever \<open>to_ubjson\<close> writes a value, with or without sizes and types in
  front of containers, \<open>from_ubjson\<close> reads it as the same value, where a number comes back unsigned
  exactly from 128 to 255.
\<close>

theorem ubjson_roundtrip:
  assumes "to_ubjson le' j use_size use_type = Inr w" "sizes_ok c (2 ^ 63) j" "c \<le> unat limit" "c < 2 ^ 63"
  shows "from_ubjson limit le w st allow = Some (Inr (map_leaves ubjson_leaf j))"
proof -
  have d: "j \<noteq> JDiscarded" using assms(2) by auto
  obtain b where w: "w = ubjson_prefix j # b" "write_ubjson le' use_size use_type False j = Inr b"
    using ubjson_prefixed_Inr [OF d] assms(1) unfolding to_ubjson_def by blast
  have "length b < length w + 2" by (simp add: w)
  from prefix_reads [where val = "get_ubjson_value (length w + 2) dom_sax", OF ubjson_reads [OF assms(2,3,4) w(2) this, of le] d]
  have "reads_as limit le (parse_ubjson_internal (get_ubjson_value (length w + 2) dom_sax) True) w (map_leaves ubjson_leaf j)"
    by (simp add: w(1))
  then show ?thesis unfolding from_ubjson_def
    by (rule from_binary_reads) (simp add: parse_format_def binary_fuel_def Let_def)
qed

theorem ubjson_roundtrip_witness:
  "from_ubjson 1000 True (projr (to_ubjson False (JArray [JInteger 5, JInteger 6]) True True)) True True =
   Some (Inr (JArray [JInteger 5, JInteger 6]))"
proof -
  have "to_ubjson False (JArray [JInteger 5, JInteger 6]) True True =
      Inr (projr (to_ubjson False (JArray [JInteger 5, JInteger 6]) True True))"
    by code_simp
  from ubjson_roundtrip [OF this, of 1000 1000 True True True] show ?thesis
    by (simp add: ubjson_leaf_def)
qed

text \<open>
  C13. BSON round trip: whenever \<open>to_bson\<close> writes a value, an object without a zero byte in its keys and
  with numbers that fit 64 bits with a sign, \<open>from_bson\<close> reads it on a machine with the same byte order
  as the same value, where every integer comes back with a sign.
\<close>

theorem bson_roundtrip:
  assumes "to_bson le j = Inr w" "sizes_ok c (2 ^ 31 - 1) j"
  shows "from_bson limit le w st allow = Some (Inr (map_leaves signed_leaf j))"
proof -
  obtain m where j: "j = JObject m" using assms(1)
    by (cases j) (simp_all add: to_bson_def write_bson_def json_throw_def)
  obtain n e where w: "w = write_number le True (of_nat n :: u32) @ e @ [0]"
      "write_bson_members le m = Inr e" "calc_bson_object_size m = Inr n"
    using assms(1) by (auto simp: j to_bson_def write_bson_def write_bson_object_def bson_document_def bind_res_eq_Inr)
  obtain k where k: "bson_object_size m = Inr k" using w(3) by (auto simp: calc_bson_object_size_def bind_res_eq_Inr)
  have "reads_as limit le (parse_bson_internal dom_sax (parse_bson_element_list (Suc (length w + 1)) dom_sax)) w
      (JObject (map (\<lambda>(k, v). (k, map_leaves signed_leaf v)) m))"
    unfolding w(1)
  proof (rule bson_object_document [OF w(2) _ _ k])
    show "map_ok m" using assms(2) by (simp add: j)
  next
    fix k v b
    assume v: "(k, v) \<in> set m" "write_bson_element le k v = Inr b"
      "length b < length (write_number le True (of_nat n :: u32) @ e @ [0]) + 1"
    then show "element_as limit le (length (write_number le True (of_nat n :: u32) @ e @ [0]) + 1) k b (map_leaves signed_leaf v)"
      using assms(2) by (intro bson_element_reads [where c = c]) (auto simp: j)
  qed simp
  then show ?thesis unfolding from_bson_def j map_leaves.simps
    by (rule from_binary_reads) (simp add: parse_format_def binary_fuel_def Let_def)
qed

theorem bson_roundtrip_witness:
  "from_bson 1000 True (projr (to_bson True (JObject [([0x6B], JUnsigned 7)]))) True True =
   Some (Inr (JObject [([0x6B], JInteger 7)]))"
proof -
  have "to_bson True (JObject [([0x6B], JUnsigned 7)]) = Inr (projr (to_bson True (JObject [([0x6B], JUnsigned 7)])))"
    by (simp add: to_bson_def write_bson_def write_bson_object_def bson_document_def calc_bson_object_size_def
        calc_bson_entry_header_size_def write_bson_unsigned_def)
  from bson_roundtrip [OF this, of 1000 1000 True True] show ?thesis by (simp add: map_ok_def signed_leaf_def)
qed

section \<open>Every input\<close>

text \<open>
  C16. The readers of the four binary formats end on every input, hostile or not, whatever limit, byte order
  and options: with an exception of the library, with a discarded value, or with a value whose objects
  are maps and that holds nothing discarded. They do not run into a failed assertion, into undefined
  behaviour of the DOM parser, or on without end; the recursion never goes deeper than the number of bytes.
\<close>

definition answered :: "json res option \<Rightarrow> bool" where
  "answered a \<longleftrightarrow> (\<exists>t. a = Some (Inl (Uncaught t))) \<or> a = Some (Inr JDiscarded) \<or> (\<exists>v. a = Some (Inr v) \<and> delivered v)"

lemma from_binary_answered: "fmt \<noteq> json_format \<Longrightarrow> answered (from_binary fmt limit le input st allow)"
proof -
  assume fmt: "fmt \<noteq> json_format"
  obtain a where a: "from_binary fmt limit le input st allow = Some a" using from_binary_ends by blast
  from from_binary_safe [OF fmt a] show ?thesis using a by (auto simp: answered_def split: sum.splits)
qed

theorem binary_reader_total:
  "answered (from_cbor limit le input st allow) \<and> answered (from_msgpack limit le input st allow) \<and>
   answered (from_ubjson limit le input st allow) \<and> answered (from_bson limit le input st allow)"
  unfolding from_cbor_def from_msgpack_def from_ubjson_def from_bson_def by (intro conjI from_binary_answered) simp_all

section \<open>Where the readers do something else\<close>

text \<open>A negative CBOR number below -2^63 comes back as a number that is not negative.\<close>

lemma cbor_negative_reads:
  "from_cbor limit le (0x3B # write_number le' False (n :: u64)) st allow = Some (Inr (JInteger (- 1 - n)))"
proof -
  let ?w = "0x3B # write_number le' False n"
  have "reads_as limit le (parse_cbor_internal (length ?w + 2) dom_sax True) ?w (JInteger (- 1 - n))"
    unfolding add_2_eq_Suc' parse_cbor_internal.simps if_True
    by (rule number_value_reads) (simp_all add: parse_cbor_value_def wsize_def)
  then show ?thesis unfolding from_cbor_def
    by (rule from_binary_reads) (simp add: parse_format_def binary_fuel_def Let_def del: parse_cbor_internal.simps)
qed

lemma complement_not_negative: "2 ^ 63 \<le> unat (n :: u64) \<Longrightarrow> 0 \<le> sint (- 1 - n)"
proof -
  assume n: "2 ^ 63 \<le> unat n"
  have m: "unat n < 2 ^ 64" using unsigned_less [of n, where 'a = nat] by simp
  let ?N = "18446744073709551615 :: nat"
  have "(of_nat (?N - unat n) :: u64) = of_nat ?N - of_nat (unat n)" using m by (intro of_nat_diff) simp
  moreover have "of_nat ?N = (- 1 :: u64)" by simp
  ultimately have "- 1 - n = of_nat (?N - unat n)" by simp
  moreover have "sint (of_nat (?N - unat n) :: u64) = int (?N - unat n)"
    using n by (intro sint_of_nat) simp
  ultimately show ?thesis by (simp only: of_nat_0_le_iff)
qed

lemma bson_string_cut: "from_bson 1000 True [0x0E, 0, 0, 0, 0x02, 0x6B, 0, 0x02, 0, 0, 0, 0x61] True True = Some (Inr JDiscarded)"
  by code_simp

lemma cbor_length_wraps: "from_cbor 1000 True (0x9B # replicate 8 0xFF @ [0xFF]) True True = Some (Inr (JArray []))"
  by code_simp

end
