(* ===== verification/Json_Compare.thy ===== *)
theory Json_Compare
  imports Json_Value
begin

text \<open>
  Comparison of JSON values: \<open>operator==\<close> and \<open>operator<\<close> of \<open>src/nlohmann/json.hpp\<close> with the
  order of the types in \<open>src/nlohmann/detail/value_t.hpp\<close>.
\<close>

section \<open>Numbers\<close>

text \<open>
  Comparison of doubles, where a NaN is neither equal to nor less than anything; the value of an
  infinity is the magnitude behind the largest finite one.
\<close>

definition isnan :: "double \<Rightarrow> bool" where
  "isnan x \<longleftrightarrow> double_exponent x = 2047 \<and> double_fraction x \<noteq> 0"

definition signed_value :: "double \<Rightarrow> rat" where
  "signed_value x = (if signbit x then - magnitude x else magnitude x)"

definition double_eq :: "double \<Rightarrow> double \<Rightarrow> bool" where
  "double_eq x y \<longleftrightarrow> \<not> isnan x \<and> \<not> isnan y \<and> signed_value x = signed_value y"

definition double_less :: "double \<Rightarrow> double \<Rightarrow> bool" where
  "double_less x y \<longleftrightarrow> \<not> isnan x \<and> \<not> isnan y \<and> signed_value x < signed_value y"

text \<open>\<open>static_cast<number_float_t>\<close> of an integer.\<close>

definition double_of_int :: "int \<Rightarrow> double" where
  "double_of_int n = nearest_double (n < 0) (of_int \<bar>n\<bar>)"

section \<open>Types\<close>

definition type_order :: "value_t \<Rightarrow> nat" where
  "type_order t = (case t of null_t \<Rightarrow> 0 | object_t \<Rightarrow> 3 | array_t \<Rightarrow> 4 | string_t \<Rightarrow> 5 | boolean_t \<Rightarrow> 1
     | number_integer_t \<Rightarrow> 2 | number_unsigned_t \<Rightarrow> 2 | number_float_t \<Rightarrow> 2 | discarded_t \<Rightarrow> 8)"

text \<open>\<open>discarded\<close> is behind the end of the array \<open>order\<close>.\<close>

definition type_less :: "value_t \<Rightarrow> value_t \<Rightarrow> bool" where
  "type_less l r \<longleftrightarrow> l \<noteq> discarded_t \<and> r \<noteq> discarded_t \<and> type_order l < type_order r"

section \<open>Values\<close>

text \<open>
  Vectors and maps are equal when they have the same size and equal elements; they are ordered
  lexicographically, and pairs by their first components before their second.
\<close>

fun json_eq :: "json \<Rightarrow> json \<Rightarrow> bool"
  and array_eq :: "json list \<Rightarrow> json list \<Rightarrow> bool"
  and object_eq :: "(byte list \<times> json) list \<Rightarrow> (byte list \<times> json) list \<Rightarrow> bool" where
  "json_eq lhs rhs = (case (lhs, rhs) of
     (JArray xs, JArray ys) \<Rightarrow> array_eq xs ys
   | (JObject m, JObject n) \<Rightarrow> object_eq m n
   | (JNull, JNull) \<Rightarrow> True
   | (JString s, JString t) \<Rightarrow> s = t
   | (JBoolean a, JBoolean b) \<Rightarrow> a = b
   | (JInteger a, JInteger b) \<Rightarrow> a = b
   | (JUnsigned a, JUnsigned b) \<Rightarrow> a = b
   | (JFloat x, JFloat y) \<Rightarrow> double_eq x y
   | (JInteger a, JFloat y) \<Rightarrow> double_eq (double_of_int (sint a)) y
   | (JFloat x, JInteger b) \<Rightarrow> double_eq x (double_of_int (sint b))
   | (JUnsigned a, JFloat y) \<Rightarrow> double_eq (double_of_int (uint a)) y
   | (JFloat x, JUnsigned b) \<Rightarrow> double_eq x (double_of_int (uint b))
   | (JUnsigned a, JInteger b) \<Rightarrow> a = b
   | (JInteger a, JUnsigned b) \<Rightarrow> a = b
   | _ \<Rightarrow> False)"
| "array_eq [] ys = (ys = [])"
| "array_eq (x # xs) ys = (case ys of [] \<Rightarrow> False | y # ys' \<Rightarrow> json_eq x y \<and> array_eq xs ys')"
| "object_eq [] n = (n = [])"
| "object_eq ((k, v) # m) n = (case n of [] \<Rightarrow> False | (k', v') # n' \<Rightarrow> k = k' \<and> json_eq v v' \<and> object_eq m n')"

function json_less :: "json \<Rightarrow> json \<Rightarrow> bool"
  and array_less :: "json list \<Rightarrow> json list \<Rightarrow> bool"
  and object_less :: "(byte list \<times> json) list \<Rightarrow> (byte list \<times> json) list \<Rightarrow> bool" where
  "json_less lhs rhs = (case (lhs, rhs) of
     (JArray xs, JArray ys) \<Rightarrow> array_less xs ys
   | (JObject m, JObject n) \<Rightarrow> object_less m n
   | (JNull, JNull) \<Rightarrow> False
   | (JString s, JString t) \<Rightarrow> s < t
   | (JBoolean a, JBoolean b) \<Rightarrow> a < b
   | (JInteger a, JInteger b) \<Rightarrow> sint a < sint b
   | (JUnsigned a, JUnsigned b) \<Rightarrow> a < b
   | (JFloat x, JFloat y) \<Rightarrow> double_less x y
   | (JInteger a, JFloat y) \<Rightarrow> double_less (double_of_int (sint a)) y
   | (JFloat x, JInteger b) \<Rightarrow> double_less x (double_of_int (sint b))
   | (JUnsigned a, JFloat y) \<Rightarrow> double_less (double_of_int (uint a)) y
   | (JFloat x, JUnsigned b) \<Rightarrow> double_less x (double_of_int (uint b))
   | (JInteger a, JUnsigned b) \<Rightarrow> sint a < sint b
   | (JUnsigned a, JInteger b) \<Rightarrow> sint a < sint b
   | (l, r) \<Rightarrow> type_less (m_type l) (m_type r))"
| "array_less xs ys = (case ys of [] \<Rightarrow> False | y # ys' \<Rightarrow>
     (case xs of [] \<Rightarrow> True | x # xs' \<Rightarrow> json_less x y \<or> \<not> json_less y x \<and> array_less xs' ys'))"
| "object_less m n = (case n of [] \<Rightarrow> False | (k', v') # n' \<Rightarrow>
     (case m of [] \<Rightarrow> True | (k, v) # m' \<Rightarrow>
        (k < k' \<or> \<not> k' < k \<and> json_less v v') \<or>
        \<not> (k' < k \<or> \<not> k < k' \<and> json_less v' v) \<and> object_less m' n'))"

  by pat_completeness auto
termination
  by (relation "measure (\<lambda>s. case s of Inl (l, r) \<Rightarrow> size l + size r
      | Inr (Inl (xs, ys)) \<Rightarrow> size_list size xs + size_list size ys
      | Inr (Inr (m, n)) \<Rightarrow> size_list (size_prod (\<lambda>_. 0) size) m + size_list (size_prod (\<lambda>_. 0) size) n)") auto

declare json_eq.simps [simp del] json_less.simps [simp del] array_less.simps [simp del] object_less.simps [simp del]

text \<open>\<open>operator!=\<close>, \<open><=\<close>, \<open>>\<close> and \<open>>=\<close>.\<close>

definition json_neq :: "json \<Rightarrow> json \<Rightarrow> bool" where
  "json_neq lhs rhs \<longleftrightarrow> \<not> json_eq lhs rhs"

definition json_le :: "json \<Rightarrow> json \<Rightarrow> bool" where
  "json_le lhs rhs \<longleftrightarrow> \<not> json_less rhs lhs"

definition json_greater :: "json \<Rightarrow> json \<Rightarrow> bool" where
  "json_greater lhs rhs \<longleftrightarrow> \<not> json_le lhs rhs"

definition json_ge :: "json \<Rightarrow> json \<Rightarrow> bool" where
  "json_ge lhs rhs \<longleftrightarrow> \<not> json_less lhs rhs"

section \<open>Equations\<close>

lemma json_eq_simps [simp]:
  "json_eq (JArray xs) (JArray ys) = array_eq xs ys"
  "json_eq (JObject m) (JObject n) = object_eq m n"
  "json_eq JNull JNull" "json_eq (JString s) (JString t) \<longleftrightarrow> s = t"
  "json_eq (JBoolean a) (JBoolean b) \<longleftrightarrow> a = b"
  "json_eq (JInteger i) (JInteger k) \<longleftrightarrow> i = k" "json_eq (JUnsigned i) (JUnsigned k) \<longleftrightarrow> i = k"
  "json_eq (JUnsigned i) (JInteger k) \<longleftrightarrow> i = k" "json_eq (JInteger i) (JUnsigned k) \<longleftrightarrow> i = k"
  "json_eq (JFloat x) (JFloat y) = double_eq x y"
  "json_eq JDiscarded j = False" "json_eq j JDiscarded = False"
  by (simp_all add: json_eq.simps split: json.splits)

lemma json_less_simps [simp]:
  "json_less (JArray xs) (JArray ys) = array_less xs ys"
  "json_less (JObject m) (JObject n) = object_less m n"
  "json_less JNull JNull = False" "json_less (JString s) (JString t) \<longleftrightarrow> s < t"
  "json_less (JBoolean a) (JBoolean b) \<longleftrightarrow> a < b"
  "json_less (JInteger i) (JInteger k) \<longleftrightarrow> sint i < sint k" "json_less (JUnsigned i) (JUnsigned k) \<longleftrightarrow> i < k"
  "json_less (JUnsigned i) (JInteger k) \<longleftrightarrow> sint i < sint k" "json_less (JInteger i) (JUnsigned k) \<longleftrightarrow> sint i < sint k"
  "json_less (JFloat x) (JFloat y) = double_less x y"
  "json_less JDiscarded j = False" "json_less j JDiscarded = False"
  by (simp_all add: json_less.simps type_less_def split: json.splits)

lemma array_less_simps [simp]:
  "array_less xs [] = False" "array_less [] (y # ys) = True"
  "array_less (x # xs) (y # ys) \<longleftrightarrow> json_less x y \<or> \<not> json_less y x \<and> array_less xs ys"
  by (simp_all add: array_less.simps)

lemma object_less_simps [simp]:
  "object_less m [] = False" "object_less [] (p # n) = True"
  "object_less ((k, v) # m) ((k', v') # n) \<longleftrightarrow>
     k < k' \<or> k = k' \<and> (json_less v v' \<or> \<not> json_less v' v \<and> object_less m n)"
  by (auto simp: object_less.simps)

text \<open>A value is equal to itself unless it has a NaN or a discarded value in it.\<close>

fun self_equal :: "json \<Rightarrow> bool" where
  "self_equal (JObject m) \<longleftrightarrow> (\<forall>(k, v) \<in> set m. self_equal v)"
| "self_equal (JArray xs) \<longleftrightarrow> (\<forall>v \<in> set xs. self_equal v)"
| "self_equal (JFloat x) \<longleftrightarrow> \<not> isnan x"
| "self_equal JDiscarded \<longleftrightarrow> False"
| "self_equal _ \<longleftrightarrow> True"

lemma array_eq_list_all2: "array_eq xs ys = list_all2 json_eq xs ys"
  by (induction xs arbitrary: ys) (auto split: list.splits)

lemma object_eq_list_all2: "object_eq m n = list_all2 (\<lambda>(k, v) (k', v'). k = k' \<and> json_eq v v') m n"
proof (induction m arbitrary: n)
  case (Cons p m)
  then show ?case by (cases p; cases n) auto
qed auto

lemma json_eq_refl: "json_eq j j \<longleftrightarrow> self_equal j"
proof (induction j)
  case (JObject m)
  then have "object_eq m m \<longleftrightarrow> (\<forall>(k, v) \<in> set m. self_equal v)"
    by (fastforce simp: object_eq_list_all2 list_all2_same)
  then show ?case by simp
qed (auto simp: array_eq_list_all2 list_all2_same double_eq_def)

end
