(* ===== verification/Json_Order.thy ===== *)
theory Json_Order
  imports Json_Compare
begin

text \<open>
  On values without NaN, discarded values and integers beyond \<open>2 ^ 53\<close>, \<open>operator<\<close> is the
  lexicographic order of a list of numbers that spells the value out, and \<open>operator==\<close> is equality of it.
\<close>

section \<open>Integers as doubles\<close>

text \<open>The fields of a normal double.\<close>

lemma double_fields:
  fixes x :: double
  assumes "0 \<le> e" "e < 2047" "0 \<le> f" "f < 2 ^ 52" and x_def: "x = word_of_int (sign_bits neg + (e * 2 ^ 52 + f))"
  shows "double_exponent x = e" "double_fraction x = f" "signbit x = neg"
proof -
  let ?s = "if neg then 2 ^ 11 else 0 :: int"
  have bits: "sign_bits neg + (e * 2 ^ 52 + f) = f + (e + ?s) * 2 ^ 52"
    by (simp add: sign_bits_def)
  moreover have "0 \<le> sign_bits neg + (e * 2 ^ 52 + f)" "sign_bits neg + (e * 2 ^ 52 + f) < 2 ^ 64"
    using assms(1-4) by (simp_all add: sign_bits_def)
  then have u: "uint x = sign_bits neg + (e * 2 ^ 52 + f)"
    by (simp only: x_def unsigned_of_int) (simp add: take_bit_int_eq_self)
  ultimately have u': "uint x = f + (e + ?s) * 2 ^ 52" by simp
  have "uint x div 2 ^ 52 = e + ?s" using assms(3,4) by (simp add: u' del: power_numeral)
  then show "double_exponent x = e" using assms(1,2) by (simp add: double_exponent_def)
  show "double_fraction x = f" using assms(3,4) by (simp add: double_fraction_def u' del: power_numeral)
  show "signbit x = neg" using assms(1-4) by (simp add: signbit_def u sign_bits_def)
qed

lemma leading_exponent_int:
  assumes "0 < k"
  shows "leading_exponent (of_int k) = int (log2_int k)"
proof -
  have "(of_int (2 ^ log2_int k) :: rat) \<le> of_int k" using log2_int_bounds [OF assms] unfolding of_int_le_iff by simp
  then show ?thesis by (simp add: leading_exponent_def quotient_of_int log2_int.simps [of 1])
qed

lemma nearest_double_exact:
  assumes "0 < k" "k \<le> 2 ^ 53"
  shows "\<exists>e m. nearest_double neg (of_int k) = word_of_int (sign_bits neg + (e * 2 ^ 52 + m)) \<and> 0 < e \<and> e < 2047 \<and>
    0 \<le> m \<and> m < 2 ^ 52 \<and> of_int (2 ^ 52 + m) * 2 powi (e - 1075) = (of_int k :: rat)"
proof -
  let ?l = "log2_int k"
  have bounds: "2 ^ ?l \<le> k" "k < 2 ^ Suc ?l" using log2_int_bounds [OF assms(1)] by simp_all
  have "?l \<le> 53"
  proof (rule ccontr)
    assume "\<not> ?l \<le> 53"
    then have "(2 :: int) ^ 54 \<le> 2 ^ ?l" by (intro power_increasing) simp_all
    then show False using bounds(1) assms(2) by simp
  qed
  obtain m where m: "of_int m * 2 powi (int ?l - 52) = (of_int k :: rat)" "2 ^ 52 \<le> m" "m < 2 ^ 53"
  proof (cases "?l = 53")
    case True
    then have "k = 2 ^ 53" using bounds assms(2) by simp
    then show ?thesis using that [of "2 ^ 52"] True by simp
  next
    case False
    then obtain d where d: "52 = ?l + d" using \<open>?l \<le> 53\<close> le_Suc_ex [of ?l 52] by auto
    have p: "2 ^ ?l * 2 ^ d = (2 :: int) ^ 52" "2 ^ Suc ?l * 2 ^ d = (2 :: int) ^ 53"
    proof -
      show "2 ^ ?l * 2 ^ d = (2 :: int) ^ 52" by (simp only: d power_add)
      then show "2 ^ Suc ?l * 2 ^ d = (2 :: int) ^ 53" by (simp add: mult.commute)
    qed
    have "2 ^ 52 \<le> k * 2 ^ d" "k * 2 ^ d < 2 ^ 53"
      unfolding p [symmetric] using bounds by (simp_all del: power_Suc add: mult_strict_right_mono)
    moreover have "int ?l - 52 = - int d" using d by simp
    then have "of_int (k * 2 ^ d) * 2 powi (int ?l - 52) = (of_int k :: rat)" by (simp add: power_int_minus)
    ultimately show ?thesis by (intro that)
  qed
  have "of_int k / 2 powi (int ?l - 52) = (of_int m :: rat)" using m(1) by (simp add: field_simps)
  then have "nearest_double neg (of_int k) =
      word_of_int (sign_bits neg + min ((int ?l - 52 + 1074) * 2 ^ 52 + m) infinity_bits)"
    using assms(1) by (simp add: nearest_double_def leading_exponent_int Let_def max_def)
  moreover have "min ((int ?l - 52 + 1074) * 2 ^ 52 + m) infinity_bits = (int ?l + 1023) * 2 ^ 52 + (m - 2 ^ 52)"
    using \<open>?l \<le> 53\<close> m(3) by (simp add: infinity_bits_def min_def)
  ultimately show ?thesis using m \<open>?l \<le> 53\<close>
    by (intro exI [of _ "int ?l + 1023"] exI [of _ "m - 2 ^ 52"]) (simp add: algebra_simps)
qed

lemma double_of_int_exact:
  assumes "\<bar>n\<bar> \<le> 2 ^ 53"
  shows "signed_value (double_of_int n) = of_int n" "\<not> isnan (double_of_int n)"
proof -
  consider "n = 0" | "0 < \<bar>n\<bar>" by linarith
  then have "signed_value (double_of_int n) = of_int n \<and> \<not> isnan (double_of_int n)"
  proof cases
    case 1
    then show ?thesis
      by (simp add: double_of_int_def nearest_double_def sign_bits_def signed_value_def magnitude_def isnan_def
          double_exponent_def double_fraction_def)
  next
    case 2
    obtain e m where em: "double_of_int n = word_of_int (sign_bits (n < 0) + (e * 2 ^ 52 + m))"
      "0 < e" "e < 2047" "0 \<le> m" "m < 2 ^ 52" "of_int (2 ^ 52 + m) * 2 powi (e - 1075) = (of_int \<bar>n\<bar> :: rat)"
      using nearest_double_exact [OF 2 assms, of "n < 0"] unfolding double_of_int_def by blast
    then have "double_exponent (double_of_int n) = e" "double_fraction (double_of_int n) = m"
      "signbit (double_of_int n) = (n < 0)"
      using double_fields [of e m "double_of_int n" "n < 0"] by simp_all
    then show ?thesis using em(2,3,6) by (simp add: signed_value_def magnitude_def isnan_def)
  qed
  then show "signed_value (double_of_int n) = of_int n" "\<not> isnan (double_of_int n)" by simp_all
qed

section \<open>The order\<close>

fun tame :: "json \<Rightarrow> bool" where
  "tame (JObject m) \<longleftrightarrow> (\<forall>(k, v) \<in> set m. tame v)"
| "tame (JArray xs) \<longleftrightarrow> (\<forall>v \<in> set xs. tame v)"
| "tame (JInteger n) \<longleftrightarrow> \<bar>sint n\<bar> \<le> 2 ^ 53"
| "tame (JUnsigned n) \<longleftrightarrow> uint n \<le> 2 ^ 53"
| "tame (JFloat x) \<longleftrightarrow> \<not> isnan x"
| "tame JDiscarded \<longleftrightarrow> False"
| "tame _ \<longleftrightarrow> True"

text \<open>
  The list that spells a value out: no list is the start of another one, so lists that are put
  one behind the other are compared piece by piece.
\<close>

definition number_key :: "int \<Rightarrow> rat" where
  "number_key n = of_int n"

lemma number_key [simp]: "number_key i < number_key k \<longleftrightarrow> i < k" "number_key i = number_key k \<longleftrightarrow> i = k"
  by (simp_all add: number_key_def)

definition byte_key :: "byte \<Rightarrow> rat" where
  "byte_key b = of_int (uint b) + 1"

lemma byte_key [simp]: "0 < byte_key b" "byte_key b \<noteq> 0" "0 \<noteq> byte_key b" "\<not> byte_key b < 0"
  "byte_key a < byte_key b \<longleftrightarrow> a < b" "byte_key a = byte_key b \<longleftrightarrow> a = b"
proof -
  show *: "0 < byte_key b" for b unfolding byte_key_def by (simp only: of_int_0_le_iff uint_ge_0 add_nonneg_pos zero_less_one)
  show "byte_key b \<noteq> 0" "0 \<noteq> byte_key b" "\<not> byte_key b < 0" using * [of b] by auto
  show "byte_key a < byte_key b \<longleftrightarrow> a < b" unfolding byte_key_def by (simp only: add_less_cancel_right of_int_less_iff word_less_def)
  show "byte_key a = byte_key b \<longleftrightarrow> a = b" unfolding byte_key_def by (simp only: add_right_cancel of_int_eq_iff word_uint_eq_iff)
qed

definition text_key :: "byte list \<Rightarrow> rat list" where
  "text_key s = map byte_key s @ [0]"

fun spelling :: "json \<Rightarrow> rat list" where
  "spelling JNull = [0]"
| "spelling (JBoolean b) = [1, if b then 1 else 0]"
| "spelling (JInteger n) = [2, number_key (sint n)]"
| "spelling (JUnsigned n) = [2, number_key (uint n)]"
| "spelling (JFloat x) = [2, signed_value x]"
| "spelling (JObject m) = 3 # concat (map (\<lambda>(k, v). 1 # text_key k @ spelling v) m) @ [0]"
| "spelling (JArray xs) = 4 # concat (map (\<lambda>v. 1 # spelling v) xs) @ [0]"
| "spelling (JString s) = 5 # text_key s"
| "spelling JDiscarded = [6]"

lemma text_key_order:
  "text_key s @ r < text_key t @ u \<longleftrightarrow> s < t \<or> s = t \<and> r < u"
  "text_key s @ r = text_key t @ u \<longleftrightarrow> s = t \<and> r = u"
proof (induction s arbitrary: t)
  case Nil
  { case 1 show ?case by (cases t) (simp_all add: text_key_def)
  next case 2 show ?case by (cases t) (simp_all add: text_key_def) }
next
  case (Cons b s)
  { case 1 show ?case using Cons by (cases t) (auto simp: text_key_def)
  next case 2 show ?case using Cons by (cases t) (auto simp: text_key_def) }
qed

definition ordered :: "json \<Rightarrow> json \<Rightarrow> bool" where
  "ordered x y \<longleftrightarrow>
     (\<forall>r u. (spelling x @ r < spelling y @ u \<longleftrightarrow> json_less x y \<or> json_eq x y \<and> r < u) \<and>
            (spelling x @ r = spelling y @ u \<longleftrightarrow> json_eq x y \<and> r = u))"

lemma ordered_total: "ordered x y \<Longrightarrow> ordered y x \<Longrightarrow> json_eq x y \<longleftrightarrow> \<not> json_less x y \<and> \<not> json_less y x"
  unfolding ordered_def by (metis append_Nil2 less_irrefl linorder_less_linear order_less_imp_not_less)

lemma ordered_append:
  assumes "ordered x y \<and> ordered y x"
  shows "spelling x @ r < spelling y @ u \<longleftrightarrow> json_less x y \<or> \<not> json_less y x \<and> r < u"
    "spelling x @ r = spelling y @ u \<longleftrightarrow> json_eq x y \<and> r = u"
  using assms ordered_total [of x y] unfolding ordered_def by blast+

lemma array_order:
  assumes "\<And>x y. x \<in> set xs \<Longrightarrow> y \<in> set ys \<Longrightarrow> ordered x y \<and> ordered y x"
  shows "concat (map (\<lambda>v. 1 # spelling v) xs) @ 0 # r < concat (map (\<lambda>v. 1 # spelling v) ys) @ 0 # u \<longleftrightarrow>
      array_less xs ys \<or> array_eq xs ys \<and> r < u"
    "concat (map (\<lambda>v. 1 # spelling v) xs) @ 0 # r = concat (map (\<lambda>v. 1 # spelling v) ys) @ 0 # u \<longleftrightarrow>
      array_eq xs ys \<and> r = u"
  using assms
proof (induction xs arbitrary: ys)
  case Nil
  { case 1 show ?case by (cases ys) simp_all
  next case 2 show ?case by (cases ys) simp_all }
next
  case (Cons x xs)
  { case 1
    then show ?case
    proof (cases ys)
      case (Cons y ys')
      then have "ordered x y \<and> ordered y x" using 1 by simp
      moreover from this have "json_eq x y \<longleftrightarrow> \<not> json_less x y \<and> \<not> json_less y x" using ordered_total by blast
      ultimately show ?thesis using Cons.IH(1) [of ys'] 1 Cons by (auto simp: ordered_append(1))
    qed simp
  next
    case 2
    then show ?case
    proof (cases ys)
      case (Cons y ys')
      then have "ordered x y \<and> ordered y x" using 2 by simp
      then show ?thesis using Cons.IH(2) [of ys'] 2 Cons by (simp add: ordered_append)
    qed simp }
qed

lemma object_order:
  assumes "\<And>x y. x \<in> snd ` set m \<Longrightarrow> y \<in> snd ` set n \<Longrightarrow> ordered x y \<and> ordered y x"
  shows "concat (map (\<lambda>(k, v). 1 # text_key k @ spelling v) m) @ 0 # r < concat (map (\<lambda>(k, v). 1 # text_key k @ spelling v) n) @ 0 # u \<longleftrightarrow>
      object_less m n \<or> object_eq m n \<and> r < u"
    "concat (map (\<lambda>(k, v). 1 # text_key k @ spelling v) m) @ 0 # r = concat (map (\<lambda>(k, v). 1 # text_key k @ spelling v) n) @ 0 # u \<longleftrightarrow>
      object_eq m n \<and> r = u"
  using assms
proof (induction m arbitrary: n)
  case Nil
  { case 1 show ?case by (cases n) auto
  next case 2 show ?case by (cases n) auto }
next
  case (Cons p m)
  obtain k x where p: "p = (k, x)" by (cases p)
  { case 1
    then show ?case
    proof (cases n)
      case (Cons q n')
      moreover obtain k' y where q: "q = (k', y)" by (cases q)
      ultimately have o: "ordered x y \<and> ordered y x" using 1 p by simp
      then have "json_eq x y \<longleftrightarrow> \<not> json_less x y \<and> \<not> json_less y x" using ordered_total by blast
      then show ?thesis using Cons.IH(1) [of n'] 1 Cons p q
        by (auto simp: ordered_append(1) [OF o] text_key_order)
    qed (simp add: p)
  next
    case 2
    then show ?case
    proof (cases n)
      case (Cons q n')
      moreover obtain k' y where q: "q = (k', y)" by (cases q)
      ultimately have "ordered x y \<and> ordered y x" using 2 p by simp
      then show ?thesis using Cons.IH(2) [of n'] 2 Cons p q by (auto simp: ordered_append(2) text_key_order)
    qed (simp add: p) }
qed

text \<open>The values that are not containers.\<close>

lemma small_unsigned:
  fixes n :: u64
  assumes "uint n \<le> 2 ^ 53"
  shows "sint n = uint n"
proof -
  have "sint n = signed_take_bit 63 (uint n)" by (simp add: sint_uint)
  moreover have "- (2 ^ 63) \<le> uint n" by (rule order_trans [OF _ uint_ge_0]) simp
  ultimately show ?thesis using assms by (simp add: signed_take_bit_int_eq_self_iff)
qed

fun json_number :: "json \<Rightarrow> rat option" where
  "json_number (JInteger n) = Some (number_key (sint n))"
| "json_number (JUnsigned n) = Some (number_key (uint n))"
| "json_number (JFloat x) = Some (signed_value x)"
| "json_number _ = None"

lemma sint_eq: "sint i = sint k \<longleftrightarrow> i = (k :: 64 word)"
  by (auto intro: signed_word_eqI)

lemma double_number: "\<bar>n\<bar> \<le> 2 ^ 53 \<Longrightarrow> signed_value (double_of_int n) = number_key n"
  by (simp add: double_of_int_exact number_key_def)

lemma numbers_less:
  assumes "tame x" "tame y" "json_number x = Some p" "json_number y = Some q"
  shows "json_less x y \<longleftrightarrow> p < q" "json_eq x y \<longleftrightarrow> p = q" "spelling x = [2, p]"
  using assms
  by (cases x; cases y; auto simp: json_less.simps json_eq.simps small_unsigned double_less_def double_eq_def
      double_number double_of_int_exact(2) word_less_def sint_eq [symmetric] word_uint_eq_iff)+

lemma ordered_numbers:
  assumes "tame x" "tame y" "json_number x = Some p" "json_number y = Some q"
  shows "ordered x y"
  using numbers_less [OF assms] numbers_less(3) [OF assms(2,1,4,3)] by (simp add: ordered_def)

lemma ordered_values:
  assumes "tame x" "tame y" "json_number x = None \<or> json_number y = None"
    "\<not> (is_object x \<and> is_object y)" "\<not> (is_array x \<and> is_array y)"
  shows "ordered x y"
  using assms
  by (cases x; cases y) (auto simp: ordered_def text_key_order json_less.simps json_eq.simps type_less_def type_order_def
      is_object_def is_array_def)

lemma tame_ordered: "tame x \<Longrightarrow> tame y \<Longrightarrow> ordered x y"
proof (induction "size x + size y" arbitrary: x y rule: less_induct)
  case less
  consider (numbers) p q where "json_number x = Some p" "json_number y = Some q"
    | (arrays) xs ys where "x = JArray xs" "y = JArray ys" | (objects) m n where "x = JObject m" "y = JObject n"
    | (other) "json_number x = None \<or> json_number y = None" "\<not> (is_object x \<and> is_object y)" "\<not> (is_array x \<and> is_array y)"
    by (cases x; cases y) (auto simp: is_object_def is_array_def)
  then show ?case
  proof cases
    case numbers
    then show ?thesis using less.prems by (intro ordered_numbers)
  next
    case arrays
    have "ordered v w \<and> ordered w v" if "v \<in> set xs" "w \<in> set ys" for v w
    proof -
      have "size v < size x" "size w < size y" using that size_list_estimation' [of _ _ _ size] arrays
        by (auto simp: less_Suc_eq_le size_list_estimation')
      then show ?thesis using that less.hyps [of v w] less.hyps [of w v] less.prems arrays by simp
    qed
    then show ?thesis using array_order [of xs ys] arrays by (simp add: ordered_def)
  next
    case objects
    have "ordered v w \<and> ordered w v" if "v \<in> snd ` set m" "w \<in> snd ` set n" for v w
    proof -
      have "size v < size x" "size w < size y" using that objects
        by (auto simp: less_Suc_eq_le intro!: size_list_estimation')
      moreover have "tame v" "tame w" using that less.prems objects by auto
      ultimately show ?thesis using less.hyps [of v w] less.hyps [of w v] by simp
    qed
    then show ?thesis using object_order [of m n] objects by (simp add: ordered_def)
  qed (use less.prems in \<open>intro ordered_values\<close>)
qed

lemma tame_less: "tame x \<Longrightarrow> tame y \<Longrightarrow> json_less x y \<longleftrightarrow> spelling x < spelling y"
  using tame_ordered [of x y, unfolded ordered_def, THEN spec, THEN spec, of "[]" "[]"] by simp

lemma tame_eq: "tame x \<Longrightarrow> tame y \<Longrightarrow> json_eq x y \<longleftrightarrow> spelling x = spelling y"
  using tame_ordered [of x y, unfolded ordered_def, THEN spec, THEN spec, of "[]" "[]"] by simp

section \<open>Properties\<close>

text \<open>
  C20. The comparisons agree with each other: of two values exactly one of less, equal and greater holds,
  \<open>operator<\<close> and \<open>operator==\<close> are transitive, and \<open><=\<close>, \<open>>\<close> and \<open>>=\<close> are what they say; on values without
  NaN, discarded values and integers beyond \<open>2 ^ 53\<close>.
\<close>

theorem comparison_order:
  assumes "tame x" "tame y" "tame z"
  shows "(json_eq x y \<longleftrightarrow> \<not> json_less x y \<and> \<not> json_less y x) \<and> \<not> (json_less x y \<and> json_less y x) \<and>
    (json_less x y \<and> json_less y z \<longrightarrow> json_less x z) \<and> (json_eq x y \<and> json_eq y z \<longrightarrow> json_eq x z) \<and>
    (json_le x y \<longleftrightarrow> json_less x y \<or> json_eq x y) \<and> (json_greater x y \<longleftrightarrow> json_less y x) \<and>
    (json_ge x y \<longleftrightarrow> json_less y x \<or> json_eq x y)"
  using assms by (auto simp: tame_less tame_eq json_le_def json_greater_def json_ge_def)

lemma comparison_order_witness:
  "(json_eq (JArray [JNull]) (JArray [JBoolean True]) \<longleftrightarrow>
      \<not> json_less (JArray [JNull]) (JArray [JBoolean True]) \<and> \<not> json_less (JArray [JBoolean True]) (JArray [JNull])) \<and>
    \<not> (json_less (JArray [JNull]) (JArray [JBoolean True]) \<and> json_less (JArray [JBoolean True]) (JArray [JNull]))"
  using comparison_order [of "JArray [JNull]" "JArray [JBoolean True]" "JInteger (- 3)"] by (simp del: json_less_simps json_eq_simps)

text \<open>Without that: \<open>2 ^ 64 - 1\<close> is taken for \<open>- 1\<close> beside a signed integer, so the order has a cycle.\<close>

lemma comparison_cycle:
  "json_less (JUnsigned (- 1)) (JInteger 0)" "json_less (JInteger 0) (JUnsigned 5)" "json_less (JUnsigned 5) (JUnsigned (- 1))"
  "json_eq (JUnsigned (- 1)) (JInteger (- 1))"
proof -
  have "(5 :: u64) < - 1" by code_simp
  then show "json_less (JUnsigned 5) (JUnsigned (- 1))" by simp
qed simp_all

end
