(* ===== verification/Json_Container.thy ===== *)
theory Json_Container
  imports Json_Compare
begin

text \<open>
  Element access and modifiers of \<open>basic_json\<close> in \<open>src/nlohmann/json.hpp\<close>. An operation that
  changes the value returns it changed; one that returns a reference returns what the reference
  denotes. The largest size of a vector is an argument (\<open>limit\<close>).
\<close>

section \<open>Types of values\<close>

definition is_null :: "json \<Rightarrow> bool" where
  "is_null j \<longleftrightarrow> m_type j = null_t"

definition is_boolean :: "json \<Rightarrow> bool" where
  "is_boolean j \<longleftrightarrow> m_type j = boolean_t"

definition is_number_integer :: "json \<Rightarrow> bool" where
  "is_number_integer j \<longleftrightarrow> m_type j = number_integer_t \<or> m_type j = number_unsigned_t"

definition is_number_float :: "json \<Rightarrow> bool" where
  "is_number_float j \<longleftrightarrow> m_type j = number_float_t"

definition is_number :: "json \<Rightarrow> bool" where
  "is_number j \<longleftrightarrow> is_number_integer j \<or> is_number_float j"

definition is_primitive :: "json \<Rightarrow> bool" where
  "is_primitive j \<longleftrightarrow> is_null j \<or> is_string j \<or> is_boolean j \<or> is_number j"

definition is_structured :: "json \<Rightarrow> bool" where
  "is_structured j \<longleftrightarrow> is_array j \<or> is_object j"

definition is_discarded :: "json \<Rightarrow> bool" where
  "is_discarded j \<longleftrightarrow> m_type j = discarded_t"

lemma is_type_simps [simp]:
  "is_null j \<longleftrightarrow> j = JNull" "is_object (JObject m)" "is_array (JArray xs)" "is_string (JString s)"
  "\<not> is_object (JArray xs)" "\<not> is_array (JObject m)" "\<not> is_object JNull" "\<not> is_array JNull"
  by (cases j) (simp_all add: is_null_def is_object_def is_array_def is_string_def)

section \<open>Capacity\<close>

definition json_empty :: "json \<Rightarrow> bool" where
  "json_empty j = (case j of JNull \<Rightarrow> True | JArray xs \<Rightarrow> xs = [] | JObject m \<Rightarrow> m = [] | _ \<Rightarrow> False)"

definition json_size :: "json \<Rightarrow> nat" where
  "json_size j = (case j of JNull \<Rightarrow> 0 | JArray xs \<Rightarrow> length xs | JObject m \<Rightarrow> length m | _ \<Rightarrow> 1)"

section \<open>Element access\<close>

definition cannot_use :: "nat \<Rightarrow> string \<Rightarrow> json \<Rightarrow> 'a res" where
  "cannot_use eid what j = json_throw (type_error_create eid (''cannot use '' @ what @ '' with '' @ type_name j))"

definition index_out_of_range :: "u64 \<Rightarrow> 'a res" where
  "index_out_of_range idx = json_throw (out_of_range_create 401 (''array index '' @ to_string (unat idx) @ '' is out of range''))"

definition text_of :: "byte list \<Rightarrow> string" where
  "text_of s = map (\<lambda>b. char_of (unat b)) s"

definition squoted :: "byte list \<Rightarrow> string" where
  "squoted s = char_of (39 :: nat) # text_of s @ [char_of (39 :: nat)]"

definition at_index :: "json \<Rightarrow> u64 \<Rightarrow> json res" where
  "at_index j idx =
     (case j of
        JArray xs \<Rightarrow> if unat idx < length xs then Inr (xs ! unat idx) else index_out_of_range idx
      | _ \<Rightarrow> cannot_use 304 ''at()'' j)"

definition at_key :: "json \<Rightarrow> byte list \<Rightarrow> json res" where
  "at_key j key =
     (case j of
        JObject m \<Rightarrow>
          (case map_find key m of
             Some v \<Rightarrow> Inr v
           | None \<Rightarrow> json_throw (out_of_range_create 403 (''key '' @ squoted key @ '' not found'')))
      | _ \<Rightarrow> cannot_use 304 ''at()'' j)"

text \<open>
  \<open>operator[]\<close> with an index: null becomes an array, which is filled up with null. The number of
  values to add is computed in 64 bits.
\<close>

definition json_elem :: "u64 \<Rightarrow> json \<Rightarrow> u64 \<Rightarrow> json res" where
  "json_elem limit j idx =
     (case (if is_null j then JArray [] else j) of
        JArray xs \<Rightarrow>
          (if unat idx < length xs then Inr (JArray xs)
           else let cnt = idx - of_nat (length xs) + 1
                in if unat limit < length xs + unat cnt then Inl (Uncaught ''vector::_M_fill_insert'')
                   else let ys = xs @ replicate (unat cnt) JNull
                        in if unat idx < length ys then Inr (JArray ys) else Inl (Undefined ''vector::operator[]''))
      | j1 \<Rightarrow> cannot_use 305 ''operator[] with a numeric argument'' j1)"

text \<open>The constant versions neither check nor add.\<close>

definition json_elem_const :: "json \<Rightarrow> u64 \<Rightarrow> json res" where
  "json_elem_const j idx =
     (case j of
        JArray xs \<Rightarrow> if unat idx < length xs then Inr (xs ! unat idx) else Inl (Undefined ''vector::operator[]'')
      | _ \<Rightarrow> cannot_use 305 ''operator[] with a numeric argument'' j)"

definition json_index_const :: "json \<Rightarrow> byte list \<Rightarrow> json res" where
  "json_index_const j key =
     (case j of
        JObject m \<Rightarrow>
          (case map_find key m of
             Some v \<Rightarrow> Inr v
           | None \<Rightarrow> Inl (AssertFailed ''m_value.object->find(key) != m_value.object->end()''))
      | _ \<Rightarrow> cannot_use 305 ''operator[] with a string argument'' j)"

text \<open>\<open>value (key, default_value)\<close>, \<open>find\<close> and \<open>count\<close>.\<close>

definition json_find :: "json \<Rightarrow> byte list \<Rightarrow> json option" where
  "json_find j key = (case j of JObject m \<Rightarrow> map_find key m | _ \<Rightarrow> None)"

definition json_count :: "json \<Rightarrow> byte list \<Rightarrow> nat" where
  "json_count j key = (if json_find j key = None then 0 else 1)"

definition json_value :: "json \<Rightarrow> byte list \<Rightarrow> json \<Rightarrow> json res" where
  "json_value j key default_value =
     (if is_object j then Inr (case json_find j key of Some v \<Rightarrow> v | None \<Rightarrow> default_value)
      else cannot_use 306 ''value()'' j)"

section \<open>Modifiers\<close>

definition json_clear :: "json \<Rightarrow> json" where
  "json_clear j = (case j of JNull \<Rightarrow> JNull | JDiscarded \<Rightarrow> JDiscarded | _ \<Rightarrow> json_of_type (m_type j))"

definition map_erase :: "byte list \<Rightarrow> (byte list \<times> 'a) list \<Rightarrow> (byte list \<times> 'a) list" where
  "map_erase k m = filter (\<lambda>(k', v). k' \<noteq> k) m"

text \<open>\<open>erase\<close> of a key gives the number of members removed; \<open>erase\<close> of an index.\<close>

definition erase_key :: "json \<Rightarrow> byte list \<Rightarrow> (nat \<times> json) res" where
  "erase_key j key =
     (case j of
        JObject m \<Rightarrow> Inr (json_count j key, JObject (map_erase key m))
      | _ \<Rightarrow> cannot_use 307 ''erase()'' j)"

definition erase_index :: "json \<Rightarrow> u64 \<Rightarrow> json res" where
  "erase_index j idx =
     (case j of
        JArray xs \<Rightarrow>
          if unat idx < length xs then Inr (JArray (take (unat idx) xs @ drop (Suc (unat idx)) xs))
          else index_out_of_range idx
      | _ \<Rightarrow> cannot_use 307 ''erase()'' j)"

text \<open>\<open>push_back\<close> and \<open>emplace_back\<close> of a value; of a pair, which does not replace a member.\<close>

definition push_back :: "json \<Rightarrow> json \<Rightarrow> json res" where
  "push_back j v =
     (case (if is_null j then JArray [] else j) of
        JArray xs \<Rightarrow> Inr (JArray (xs @ [v]))
      | _ \<Rightarrow> cannot_use 308 ''push_back()'' j)"

definition emplace_back :: "json \<Rightarrow> json \<Rightarrow> json res" where
  "emplace_back j v =
     (case (if is_null j then JArray [] else j) of
        JArray xs \<Rightarrow> Inr (JArray (xs @ [v]))
      | _ \<Rightarrow> cannot_use 311 ''emplace_back()'' j)"

definition map_insert :: "byte list \<Rightarrow> json \<Rightarrow> (byte list \<times> json) list \<Rightarrow> (byte list \<times> json) list" where
  "map_insert k v m = (if map_find k m = None then map_assign k v (map_at k m) else m)"

definition push_back_pair :: "json \<Rightarrow> byte list \<times> json \<Rightarrow> json res" where
  "push_back_pair j kv =
     (case (if is_null j then JObject [] else j) of
        JObject m \<Rightarrow> Inr (JObject (map_insert (fst kv) (snd kv) m))
      | _ \<Rightarrow> cannot_use 308 ''push_back()'' j)"

text \<open>\<open>emplace\<close> also tells whether the member is new.\<close>

definition emplace :: "json \<Rightarrow> byte list \<Rightarrow> json \<Rightarrow> (bool \<times> json) res" where
  "emplace j k v =
     (case (if is_null j then JObject [] else j) of
        JObject m \<Rightarrow> Inr (map_find k m = None, JObject (map_insert k v m))
      | _ \<Rightarrow> cannot_use 311 ''emplace()'' j)"

text \<open>\<open>update\<close> replaces members.\<close>

definition map_put :: "byte list \<Rightarrow> json \<Rightarrow> (byte list \<times> json) list \<Rightarrow> (byte list \<times> json) list" where
  "map_put k v m = map_assign k v (map_at k m)"

definition json_update_from :: "json \<Rightarrow> json \<Rightarrow> json res" where
  "json_update_from j other =
     (case (if is_null j then JObject [] else j) of
        JObject m \<Rightarrow>
          (case other of
             JObject n \<Rightarrow> Inr (JObject (foldl (\<lambda>m (k, v). map_put k v m) m n))
           | _ \<Rightarrow> cannot_use 312 ''update()'' other)
      | j1 \<Rightarrow> cannot_use 312 ''update()'' j1)"

text \<open>\<open>swap\<close> with an array, an object and a string: the values both have afterwards.\<close>

definition swap_array :: "json \<Rightarrow> json list \<Rightarrow> (json \<times> json list) res" where
  "swap_array j other = (case j of JArray xs \<Rightarrow> Inr (JArray other, xs) | _ \<Rightarrow> cannot_use 310 ''swap()'' j)"

definition swap_object :: "json \<Rightarrow> (byte list \<times> json) list \<Rightarrow> (json \<times> (byte list \<times> json) list) res" where
  "swap_object j other = (case j of JObject m \<Rightarrow> Inr (JObject other, m) | _ \<Rightarrow> cannot_use 310 ''swap()'' j)"

definition swap_string :: "json \<Rightarrow> byte list \<Rightarrow> (json \<times> byte list) res" where
  "swap_string j other = (case j of JString s \<Rightarrow> Inr (JString other, s) | _ \<Rightarrow> cannot_use 310 ''swap()'' j)"

section \<open>Maps after their operations\<close>

lemma map_find_erase: "map_find k' (map_erase k m) = (if k' = k then None else map_find k' m)"
  by (induction m) (auto simp: map_erase_def)

lemma map_ok_erase: "map_ok m \<Longrightarrow> map_ok (map_erase k m)"
  unfolding map_ok_def map_erase_def by (induction m) auto

lemma map_find_put: "map_ok m \<Longrightarrow> map_find k' (map_put k v m) = (if k' = k then Some v else map_find k' m)"
  by (simp add: map_put_def map_find_assign map_find_map_at)

lemma map_ok_put: "map_ok m \<Longrightarrow> map_ok (map_put k v m)"
  by (simp add: map_put_def map_ok_map_at)

lemma map_find_insert:
  "map_ok m \<Longrightarrow> map_find k' (map_insert k v m) =
     (if k' = k then Some (case map_find k m of None \<Rightarrow> v | Some u \<Rightarrow> u) else map_find k' m)"
  using map_find_put [of m k' k v] by (auto simp: map_insert_def map_put_def)

lemma map_ok_insert: "map_ok m \<Longrightarrow> map_ok (map_insert k v m)"
  by (simp add: map_insert_def map_ok_map_at)

text \<open>A map is determined by what it finds.\<close>

lemma map_find_in: "map_find k m = Some v \<Longrightarrow> (k, v) \<in> set m"
  by (induction m) (auto split: if_splits)

lemma map_find_None: "map_find k m = None \<longleftrightarrow> k \<notin> fst ` set m"
  by (induction k m rule: map_find.induct) simp_all

lemma map_ok_find: "map_ok m \<Longrightarrow> (k, v) \<in> set m \<Longrightarrow> map_find k m = Some v"
  by (induction m) (force simp: map_ok_def)+

lemma map_ok_eqI:
  assumes "map_ok m" "map_ok n" "\<And>k. map_find k m = map_find k n"
  shows "m = n"
proof -
  have "set m = set n"
    using assms map_ok_find map_find_in by (metis subsetI subset_antisym surj_pair)
  moreover have "sorted (map fst m)" "sorted (map fst n)" "distinct (map fst m)" "distinct (map fst n)"
    using assms(1,2) by (simp_all add: map_ok_def strict_sorted_iff)
  ultimately show ?thesis using map_sorted_distinct_set_unique [of fst m n] by (auto simp: distinct_map)
qed

end
