(* ===== verification/Json_Pointer.thy ===== *)
theory Json_Pointer
  imports Json_Container Json_Sax
begin

text \<open>
  JSON pointers: the class \<open>json_pointer\<close> of \<open>src/nlohmann/detail/json_pointer.hpp\<close>. A reference
  to a value inside another is the path to it (\<open>ref\<close>); a function that creates values on its
  way returns the changed value with the path.
\<close>

section \<open>Pointers as text\<close>

text \<open>
  \<open>replace_substring\<close>, whose assertion that \<open>f\<close> is not empty holds in all four calls.
\<close>

fun replace_substring :: "byte list \<Rightarrow> byte list \<Rightarrow> byte list \<Rightarrow> byte list" where
  "replace_substring [] f t = []"
| "replace_substring (c # s) f t =
     (if f \<noteq> [] \<and> take (length f) (c # s) = f
      then t @ replace_substring (drop (length f - 1) s) f t
      else c # replace_substring s f t)"

definition escape :: "byte list \<Rightarrow> byte list" where
  "escape s = replace_substring (replace_substring s [0x7E] [0x7E, 0x30]) [0x2F] [0x7E, 0x31]"

definition unescape :: "byte list \<Rightarrow> byte list" where
  "unescape s = replace_substring (replace_substring s [0x7E, 0x31] [0x2F]) [0x7E, 0x30] [0x7E]"

definition pointer_to_string :: "byte list list \<Rightarrow> byte list" where
  "pointer_to_string reference_tokens = concat (map (\<lambda>t. 0x2F # escape t) reference_tokens)"

text \<open>The texts between the slashes, and the check of the tildes in one of them.\<close>

function split_slashes :: "byte list \<Rightarrow> byte list list" where
  "split_slashes s =
     (let t = takeWhile (\<lambda>c. c \<noteq> 0x2F) s; r = drop (length t) s
      in t # (if r = [] then [] else split_slashes (tl r)))"
  by pat_completeness auto
termination
  by (relation "measure length") (auto dest: length_greater_0_conv [THEN iffD2])

declare split_slashes.simps [simp del]

fun tildes_ok :: "byte list \<Rightarrow> bool" where
  "tildes_ok [] = True"
| "tildes_ok (c # s) \<longleftrightarrow>
     (c = 0x7E \<longrightarrow> (case s of [] \<Rightarrow> False | d # _ \<Rightarrow> d = 0x30 \<or> d = 0x31)) \<and> tildes_ok s"

fun unescape_tokens :: "byte list list \<Rightarrow> byte list list res" where
  "unescape_tokens [] = Inr []"
| "unescape_tokens (t # ts) =
     (if tildes_ok t
      then bind_res (unescape_tokens ts) (\<lambda>us. Inr (unescape t # us))
      else json_throw (parse_error_at 108 0
        (''escape character '' @ squoted [0x7E] @ '' must be followed with '' @ squoted [0x30] @ '' or '' @ squoted [0x31])))"

definition split :: "byte list \<Rightarrow> byte list list res" where
  "split reference_string =
     (case reference_string of
        [] \<Rightarrow> Inr []
      | c # s \<Rightarrow>
          if c \<noteq> 0x2F
          then json_throw (parse_error_at 107 1 (''JSON pointer must be empty or begin with '' @ squoted [0x2F] @
                 '' - was: '' @ squoted reference_string))
          else unescape_tokens (split_slashes s))"

text \<open>The constructor.\<close>

definition json_pointer :: "byte list \<Rightarrow> byte list list res" where
  "json_pointer s = split s"

section \<open>Array indices\<close>

text \<open>
  \<open>std::stoi\<close>: white space, a sign and digits; the number and how many characters it takes. It
  throws \<open>std::invalid_argument\<close> without digits and \<open>std::out_of_range\<close> beyond 32 bits.
\<close>

definition c_isspace :: "byte \<Rightarrow> bool" where
  "c_isspace c \<longleftrightarrow> c = 0x20 \<or> 0x09 \<le> c \<and> c \<le> 0x0D"

definition stoi :: "byte list \<Rightarrow> (int \<times> nat) res" where
  "stoi s =
     (let ws = takeWhile c_isspace s; s1 = drop (length ws) s;
          sgn = (case s1 of c # _ \<Rightarrow> if c = 0x2B \<or> c = 0x2D then [c] else [] | [] \<Rightarrow> []);
          ds = takeWhile is_digit (drop (length sgn) s1);
          n = (if sgn = [0x2D] then - digits_value ds else digits_value ds)
      in if ds = [] then Inl (Uncaught ''std::invalid_argument'')
         else if n < - (2 ^ 31) \<or> 2 ^ 31 \<le> n then Inl (Uncaught ''std::out_of_range'')
         else Inr (n, length ws + length sgn + length ds))"

definition array_index :: "byte list \<Rightarrow> int res" where
  "array_index s =
     bind_res (stoi s) (\<lambda>(n, processed_chars).
     if processed_chars \<noteq> length s
     then json_throw (out_of_range_create 404 (''unresolved reference token '' @ squoted s))
     else Inr n)"

text \<open>\<open>JSON_CATCH (std::invalid_argument&)\<close>\<close>

definition catch_invalid_argument :: "'a res \<Rightarrow> 'a res \<Rightarrow> 'a res" where
  "catch_invalid_argument m handler = (if m = Inl (Uncaught ''std::invalid_argument'') then handler else m)"

definition not_a_number :: "byte list \<Rightarrow> 'a res" where
  "not_a_number token = json_throw (parse_error_at 109 0 (''array index '' @ squoted token @ '' is not a number''))"

definition leading_zero :: "byte list \<Rightarrow> 'a res" where
  "leading_zero token = json_throw (parse_error_at 106 0 (''array index '' @ squoted token @ '' must not begin with '' @ squoted [0x30]))"

definition unresolved :: "byte list \<Rightarrow> 'a res" where
  "unresolved token = json_throw (out_of_range_create 404 (''unresolved reference token '' @ squoted token))"

definition dash_out_of_range :: "json list \<Rightarrow> 'a res" where
  "dash_out_of_range xs = json_throw (out_of_range_create 402
     (''array index '' @ squoted [0x2D] @ '' ('' @ to_string (length xs) @ '') is out of range''))"

section \<open>Following a pointer\<close>

text \<open>\<open>pop_back\<close> and \<open>top\<close>\<close>

definition no_parent :: "'a res" where
  "no_parent = json_throw (out_of_range_create 405 ''JSON pointer has no parent'')"

definition pop_back :: "byte list list \<Rightarrow> (byte list \<times> byte list list) res" where
  "pop_back reference_tokens = (if reference_tokens = [] then no_parent else Inr (last reference_tokens, butlast reference_tokens))"

definition top :: "byte list list \<Rightarrow> byte list list res" where
  "top reference_tokens = (if reference_tokens = [] then no_parent else Inr [hd reference_tokens])"

text \<open>
  Going on behind one step: \<open>k\<close> changes the child and gives the path from there.
\<close>

definition into_child :: "json \<Rightarrow> ref_step \<Rightarrow> (json \<Rightarrow> (json \<times> ref) res) \<Rightarrow> (json \<times> ref) res" where
  "into_child j st k =
     bind_res (load [st] j) (\<lambda>c.
     bind_res (k c) (\<lambda>(c', r). Inr (json_update [st] (\<lambda>_. c') j, st # r)))"

text \<open>\<open>operator[]\<close> with a token that is an index, and with one that is a key.\<close>

definition child_elem :: "u64 \<Rightarrow> json \<Rightarrow> u64 \<Rightarrow> (json \<times> ref_step) res" where
  "child_elem limit j idx = bind_res (json_elem limit j idx) (\<lambda>j'. Inr (j', Elem (unat idx)))"

definition child_member :: "json \<Rightarrow> byte list \<Rightarrow> (json \<times> ref_step) res" where
  "child_member j key = bind_res (json_index j key) (\<lambda>(_, j'). Inr (j', Member key))"

definition create_child :: "u64 \<Rightarrow> json \<Rightarrow> byte list \<Rightarrow> (json \<times> ref_step) res" where
  "create_child limit j token =
     (case j of
        JNull \<Rightarrow> if token = [0x30] then child_elem limit j 0 else child_member j token
      | JObject _ \<Rightarrow> child_member j token
      | JArray _ \<Rightarrow>
          catch_invalid_argument
            (bind_res (array_index token) (\<lambda>i. child_elem limit j (word_of_int i))) (not_a_number token)
      | _ \<Rightarrow> json_throw (type_error_create 313 ''invalid value to unflatten''))"

fun get_and_create :: "u64 \<Rightarrow> json \<Rightarrow> byte list list \<Rightarrow> (json \<times> ref) res" where
  "get_and_create limit j [] = Inr (j, [])"
| "get_and_create limit j (t # ts) =
     bind_res (create_child limit j t) (\<lambda>(j', st). into_child j' st (\<lambda>c. get_and_create limit c ts))"

text \<open>\<open>get_unchecked\<close>, which changes null to an array or an object by the look of the token.\<close>

definition unchecked_child :: "u64 \<Rightarrow> json \<Rightarrow> byte list \<Rightarrow> (json \<times> ref_step) res" where
  "unchecked_child limit j token =
     (case (if is_null j then (if list_all is_digit token \<or> token = [0x2D] then JArray [] else JObject []) else j) of
        JObject m \<Rightarrow> child_member (JObject m) token
      | JArray xs \<Rightarrow>
          if 1 < length token \<and> hd token = 0x30 then leading_zero token
          else if token = [0x2D] then child_elem limit (JArray xs) (of_nat (length xs))
          else catch_invalid_argument
            (bind_res (array_index token) (\<lambda>i. child_elem limit (JArray xs) (word_of_int i))) (not_a_number token)
      | _ \<Rightarrow> unresolved token)"

fun get_unchecked :: "u64 \<Rightarrow> json \<Rightarrow> byte list list \<Rightarrow> (json \<times> ref) res" where
  "get_unchecked limit j [] = Inr (j, [])"
| "get_unchecked limit j (t # ts) =
     bind_res (unchecked_child limit j t) (\<lambda>(j', st). into_child j' st (\<lambda>c. get_unchecked limit c ts))"

text \<open>\<open>get_checked\<close>: the path and the value; nothing is created.\<close>

definition checked_child :: "json \<Rightarrow> byte list \<Rightarrow> (ref_step \<times> json) res" where
  "checked_child j token =
     (case j of
        JObject m \<Rightarrow> bind_res (at_key j token) (\<lambda>v. Inr (Member token, v))
      | JArray xs \<Rightarrow>
          if token = [0x2D] then dash_out_of_range xs
          else if 1 < length token \<and> hd token = 0x30 then leading_zero token
          else catch_invalid_argument
            (bind_res (array_index token) (\<lambda>i.
             bind_res (at_index j (word_of_int i)) (\<lambda>v. Inr (Elem (unat (word_of_int i :: u64)), v)))) (not_a_number token)
      | _ \<Rightarrow> unresolved token)"

fun get_checked :: "json \<Rightarrow> byte list list \<Rightarrow> (ref \<times> json) res" where
  "get_checked j [] = Inr ([], j)"
| "get_checked j (t # ts) =
     bind_res (checked_child j t) (\<lambda>(st, c).
     bind_res (get_checked c ts) (\<lambda>(r, v). Inr (st # r, v)))"

text \<open>\<open>get_unchecked\<close> of a constant value.\<close>

definition const_child :: "json \<Rightarrow> byte list \<Rightarrow> json res" where
  "const_child j token =
     (case j of
        JObject m \<Rightarrow> json_index_const j token
      | JArray xs \<Rightarrow>
          if token = [0x2D] then dash_out_of_range xs
          else if 1 < length token \<and> hd token = 0x30 then leading_zero token
          else catch_invalid_argument
            (bind_res (array_index token) (\<lambda>i. json_elem_const j (word_of_int i))) (not_a_number token)
      | _ \<Rightarrow> unresolved token)"

fun get_unchecked_const :: "json \<Rightarrow> byte list list \<Rightarrow> json res" where
  "get_unchecked_const j [] = Inr j"
| "get_unchecked_const j (t # ts) = bind_res (const_child j t) (\<lambda>c. get_unchecked_const c ts)"

text \<open>\<open>operator[]\<close>, \<open>at\<close> and \<open>value\<close> of \<open>basic_json\<close> with a pointer.\<close>

definition pointer_index :: "u64 \<Rightarrow> json \<Rightarrow> byte list list \<Rightarrow> (json \<times> ref) res" where
  "pointer_index limit j ptr = get_unchecked limit j ptr"

definition pointer_at :: "json \<Rightarrow> byte list list \<Rightarrow> (ref \<times> json) res" where
  "pointer_at j ptr = get_checked j ptr"

text \<open>The class of an exception of the library is the start of its message.\<close>

definition is_out_of_range :: "abort \<Rightarrow> bool" where
  "is_out_of_range e \<longleftrightarrow> (let p = ''[json.exception.out_of_range.'' in
     case e of Uncaught msg \<Rightarrow> take (length p) msg = p | _ \<Rightarrow> False)"

definition pointer_value :: "json \<Rightarrow> byte list list \<Rightarrow> json \<Rightarrow> json res" where
  "pointer_value j ptr default_value =
     (if is_object j
      then (case get_checked j ptr of
              Inr (_, v) \<Rightarrow> Inr v
            | Inl e \<Rightarrow> if is_out_of_range e then Inr default_value else Inl e)
      else cannot_use 306 ''value()'' j)"

section \<open>Flattening\<close>

text \<open>The members of the object \<open>result\<close> behind those that are there.\<close>

fun flatten :: "byte list \<Rightarrow> json \<Rightarrow> (byte list \<times> json) list \<Rightarrow> (byte list \<times> json) list"
  and flatten_elements :: "byte list \<Rightarrow> nat \<Rightarrow> json list \<Rightarrow> (byte list \<times> json) list \<Rightarrow> (byte list \<times> json) list"
  and flatten_members :: "byte list \<Rightarrow> (byte list \<times> json) list \<Rightarrow> (byte list \<times> json) list \<Rightarrow> (byte list \<times> json) list" where
  "flatten reference_string (JArray xs) result =
     (if xs = [] then map_put reference_string JNull result else flatten_elements reference_string 0 xs result)"
| "flatten reference_string (JObject m) result =
     (if m = [] then map_put reference_string JNull result else flatten_members reference_string m result)"
| "flatten reference_string value1 result = map_put reference_string value1 result"
| "flatten_elements reference_string i [] result = result"
| "flatten_elements reference_string i (v # vs) result =
     flatten_elements reference_string (Suc i) vs (flatten (reference_string @ 0x2F # index_key i) v result)"
| "flatten_members reference_string [] result = result"
| "flatten_members reference_string ((k, v) # m) result =
     flatten_members reference_string m (flatten (reference_string @ 0x2F # escape k) v result)"

definition json_flatten :: "json \<Rightarrow> json" where
  "json_flatten j = JObject (flatten [] j [])"

text \<open>Assigning the members of a flattened object one after the other.\<close>

fun unflatten_members :: "u64 \<Rightarrow> (byte list \<times> json) list \<Rightarrow> json \<Rightarrow> json res" where
  "unflatten_members limit [] result = Inr result"
| "unflatten_members limit ((k, v) # m) result =
     (if \<not> is_primitive v then json_throw (type_error_create 315 ''values in object must be primitive'')
      else bind_res (json_pointer k) (\<lambda>ptr.
           bind_res (get_and_create limit result ptr) (\<lambda>(j, r).
           unflatten_members limit m (json_update r (\<lambda>_. v) j))))"

definition json_unflatten :: "u64 \<Rightarrow> json \<Rightarrow> json res" where
  "json_unflatten limit j =
     (case j of
        JObject m \<Rightarrow> unflatten_members limit m JNull
      | _ \<Rightarrow> json_throw (type_error_create 314 ''only objects can be unflattened''))"

end
