(* ===== verification/Json_Patch.thy ===== *)
theory Json_Patch
  imports Json_Pointer Json_Serializer
begin

text \<open>
  JSON patches and merge patches: \<open>patch\<close>, \<open>diff\<close> and \<open>merge_patch\<close> of
  \<open>src/nlohmann/json.hpp\<close>. Patches work on a copy of the value, so an exception leaves nothing behind.
\<close>

section \<open>Applying a patch\<close>

datatype patch_operations = add_op | remove_op | replace_op | move_op | copy_op | test_op | invalid_op

definition bytes_of :: "string \<Rightarrow> byte list" where
  "bytes_of s = map of_char s"

definition get_op :: "byte list \<Rightarrow> patch_operations" where
  "get_op s =
     (if s = bytes_of ''add'' then add_op
      else if s = bytes_of ''remove'' then remove_op
      else if s = bytes_of ''replace'' then replace_op
      else if s = bytes_of ''move'' then move_op
      else if s = bytes_of ''copy'' then copy_op
      else if s = bytes_of ''test'' then test_op
      else invalid_op)"

text \<open>\<open>insert\<close> in front of the position \<open>idx\<close> of an array, which is within it.\<close>

definition insert_at :: "json list \<Rightarrow> nat \<Rightarrow> json \<Rightarrow> json list" where
  "insert_at xs idx v = take idx xs @ v # drop idx xs"

text \<open>\<open>std::to_string\<close> of an \<open>int\<close>.\<close>

definition int_text :: "int \<Rightarrow> string" where
  "int_text i = (if i < 0 then ''-'' @ to_string (nat (- i)) else to_string (nat i))"

text \<open>What \<open>operation_add\<close> does to the parent.\<close>

definition add_child :: "json \<Rightarrow> byte list \<Rightarrow> json \<Rightarrow> json res" where
  "add_child parent last_path v =
     (case parent of
        JArray xs \<Rightarrow>
          if last_path = [0x2D] then push_back parent v
          else bind_res (array_index last_path) (\<lambda>i.
            let idx = word_of_int i :: u64
            in if length xs < unat idx
                then json_throw (out_of_range_create 401 (''array index '' @ int_text i @ '' is out of range''))
               else Inr (JArray (insert_at xs (unat idx) v)))
      | JNull \<Rightarrow> bind_res (json_index parent last_path) (\<lambda>(_, j). Inr (json_update [Member last_path] (\<lambda>_. v) j))
      | JObject _ \<Rightarrow> bind_res (json_index parent last_path) (\<lambda>(_, j). Inr (json_update [Member last_path] (\<lambda>_. v) j))
      | _ \<Rightarrow> Inl (AssertFailed ''false''))"

definition operation_add :: "u64 \<Rightarrow> json \<Rightarrow> byte list list \<Rightarrow> json \<Rightarrow> json res" where
  "operation_add limit result ptr v =
     (if ptr = [] then Inr v
      else bind_res (top ptr) (\<lambda>top_pointer.
           bind_res (if top_pointer \<noteq> ptr then bind_res (pointer_at result top_pointer) (\<lambda>_. Inr ()) else Inr ()) (\<lambda>_.
           bind_res (pop_back ptr) (\<lambda>(last_path, ptr').
           bind_res (pointer_index limit result ptr') (\<lambda>(result', r).
           bind_res (load r result') (\<lambda>parent.
           bind_res (add_child parent last_path v) (\<lambda>parent'.
           Inr (json_update r (\<lambda>_. parent') result'))))))))"

definition remove_child :: "json \<Rightarrow> byte list \<Rightarrow> json res" where
  "remove_child parent last_path =
     (case parent of
        JObject m \<Rightarrow>
          (if map_find last_path m \<noteq> None then Inr (JObject (map_erase last_path m))
           else json_throw (out_of_range_create 403 (''key '' @ squoted last_path @ '' not found'')))
      | JArray xs \<Rightarrow> bind_res (array_index last_path) (\<lambda>i. erase_index parent (word_of_int i))
      | _ \<Rightarrow> Inr parent)"

definition operation_remove :: "json \<Rightarrow> byte list list \<Rightarrow> json res" where
  "operation_remove result ptr =
     bind_res (pop_back ptr) (\<lambda>(last_path, ptr').
     bind_res (pointer_at result ptr') (\<lambda>(r, parent).
     bind_res (remove_child parent last_path) (\<lambda>parent'.
     Inr (json_update r (\<lambda>_. parent') result))))"

text \<open>\<open>get_value\<close>: a member of an operation, which has to be a string if \<open>string_type\<close>.\<close>

definition get_value :: "(byte list \<times> json) list \<Rightarrow> byte list \<Rightarrow> string \<Rightarrow> bool \<Rightarrow> json res" where
  "get_value val1 op member1 string_type =
     (let error_msg = (if op = bytes_of ''op'' then ''operation'' else ''operation '' @ squoted op)
      in case map_find (bytes_of member1) val1 of
           None \<Rightarrow> json_throw (parse_error_at 105 0 (error_msg @ '' must have member '' @ squoted (bytes_of member1)))
         | Some v \<Rightarrow>
             if string_type \<and> \<not> is_string v
             then json_throw (parse_error_at 105 0 (error_msg @ '' must have string member '' @ squoted (bytes_of member1)))
             else Inr v)"

definition get_string_value :: "(byte list \<times> json) list \<Rightarrow> byte list \<Rightarrow> string \<Rightarrow> byte list res" where
  "get_string_value val1 op member1 = bind_res (get_value val1 op member1 True) get_string"

text \<open>
  The operation \<open>test\<close>: an exception of the class \<open>out_of_range\<close> is a failed test; \<open>dump\<close> of
  the operation is the message.
\<close>

definition other_error_create :: "nat \<Rightarrow> string \<Rightarrow> json_exception" where
  "other_error_create eid what_arg =
     \<lparr>ex_id = eid, ex_what = exception_name ''other_error'' eid @ what_arg, ex_byte = 0\<rparr>"

definition operation_test :: "json \<Rightarrow> json \<Rightarrow> byte list list \<Rightarrow> (byte list \<times> json) list \<Rightarrow> unit res" where
  "operation_test result op ptr val1 =
     bind_res
       (case bind_res (pointer_at result ptr) (\<lambda>(_, v). bind_res (get_value val1 (bytes_of ''test'') ''value'' False) (\<lambda>w. Inr (json_eq v w))) of
          Inr b \<Rightarrow> Inr b
        | Inl e \<Rightarrow> if is_out_of_range e then Inr False else Inl e) (\<lambda>success.
     if success then Inr ()
     else bind_res (json_dump op (- 1) 0x20 False strict) (\<lambda>text.
          json_throw (other_error_create 501 (''unsuccessful: '' @ text_of text))))"

text \<open>
  One operation of a patch. For \<open>replace\<close> and \<open>test\<close> the source calls \<open>at\<close> and \<open>get_value\<close> in one expression,
  where C++11 leaves open which comes first; the model takes them from left to right. The other order differs
  only in which of two exceptions is thrown when both throw.
\<close>

definition apply_operation :: "u64 \<Rightarrow> json \<Rightarrow> json \<Rightarrow> json res" where
  "apply_operation limit result op_value =
     (case op_value of
        JObject val1 \<Rightarrow>
          bind_res (get_string_value val1 (bytes_of ''op'') ''op'') (\<lambda>op.
          bind_res (get_string_value val1 op ''path'') (\<lambda>path1.
          bind_res (json_pointer path1) (\<lambda>ptr.
          case get_op op of
            add_op \<Rightarrow> bind_res (get_value val1 (bytes_of ''add'') ''value'' False) (\<lambda>v. operation_add limit result ptr v)
          | remove_op \<Rightarrow> operation_remove result ptr
          | replace_op \<Rightarrow>
              bind_res (pointer_at result ptr) (\<lambda>(r, _).
              bind_res (get_value val1 (bytes_of ''replace'') ''value'' False) (\<lambda>v.
              Inr (json_update r (\<lambda>_. v) result)))
          | move_op \<Rightarrow>
              bind_res (get_string_value val1 (bytes_of ''move'') ''from'') (\<lambda>from_path.
              bind_res (json_pointer from_path) (\<lambda>from_ptr.
              bind_res (pointer_at result from_ptr) (\<lambda>(_, v).
              bind_res (operation_remove result from_ptr) (\<lambda>result'.
              operation_add limit result' ptr v))))
          | copy_op \<Rightarrow>
              bind_res (get_string_value val1 (bytes_of ''copy'') ''from'') (\<lambda>from_path.
              bind_res (json_pointer from_path) (\<lambda>from_ptr.
              bind_res (pointer_at result from_ptr) (\<lambda>(_, v).
              operation_add limit result ptr v)))
          | test_op \<Rightarrow> bind_res (operation_test result op_value ptr val1) (\<lambda>_. Inr result)
          | invalid_op \<Rightarrow> json_throw (parse_error_at 105 0 (''operation value '' @ squoted op @ '' is invalid'')))))
      | _ \<Rightarrow> json_throw (parse_error_at 104 0 ''JSON patch must be an array of objects''))"

fun apply_operations :: "u64 \<Rightarrow> json list \<Rightarrow> json \<Rightarrow> json res" where
  "apply_operations limit [] result = Inr result"
| "apply_operations limit (op # ops) result =
     bind_res (apply_operation limit result op) (\<lambda>result'. apply_operations limit ops result')"

definition patch :: "u64 \<Rightarrow> json \<Rightarrow> json \<Rightarrow> json res" where
  "patch limit j json_patch =
     (case json_patch of
        JArray ops \<Rightarrow> apply_operations limit ops j
      | _ \<Rightarrow> json_throw (parse_error_at 104 0 ''JSON patch must be an array of objects''))"

section \<open>Creating a patch\<close>

text \<open>The operations of a difference, with their members in the order of the map.\<close>

definition replace_value :: "byte list \<Rightarrow> json \<Rightarrow> json" where
  "replace_value path1 v = JObject
     [(bytes_of ''op'', JString (bytes_of ''replace'')), (bytes_of ''path'', JString path1), (bytes_of ''value'', v)]"

definition add_value :: "byte list \<Rightarrow> json \<Rightarrow> json" where
  "add_value path1 v = JObject
     [(bytes_of ''op'', JString (bytes_of ''add'')), (bytes_of ''path'', JString path1), (bytes_of ''value'', v)]"

definition remove_value :: "byte list \<Rightarrow> json" where
  "remove_value path1 = JObject [(bytes_of ''op'', JString (bytes_of ''remove'')), (bytes_of ''path'', JString path1)]"

definition index_path :: "byte list \<Rightarrow> nat \<Rightarrow> byte list" where
  "index_path path1 i = path1 @ 0x2F # index_key i"

definition key_path :: "byte list \<Rightarrow> byte list \<Rightarrow> byte list" where
  "key_path path1 k = path1 @ 0x2F # escape k"

text \<open>
  The second pass over arrays: the elements that are too many, the last one first, or those that are missing. The second pass
  over objects: the members of the target that are missing.
\<close>

definition remaining_elements :: "json list \<Rightarrow> json list \<Rightarrow> byte list \<Rightarrow> json list" where
  "remaining_elements xs ys path1 =
     rev (map (\<lambda>i. remove_value (index_path path1 i)) [length ys ..< length xs]) @
     map (\<lambda>i. add_value (index_path path1 i) (ys ! i)) [length xs ..< length ys]"

definition missing_members :: "(byte list \<times> json) list \<Rightarrow> (byte list \<times> json) list \<Rightarrow> byte list \<Rightarrow> json list" where
  "missing_members m n path1 =
     map (\<lambda>(k, v). add_value (key_path path1 k) v) (filter (\<lambda>(k, v). map_find k m = None) n)"

fun diff :: "json \<Rightarrow> json \<Rightarrow> byte list \<Rightarrow> json list"
  and diff_elements :: "nat \<Rightarrow> json list \<Rightarrow> json list \<Rightarrow> byte list \<Rightarrow> json list"
  and diff_members :: "(byte list \<times> json) list \<Rightarrow> (byte list \<times> json) list \<Rightarrow> byte list \<Rightarrow> json list" where
  "diff source1 target1 path1 =
     (if json_eq source1 target1 then []
      else if m_type source1 \<noteq> m_type target1 then [replace_value path1 target1]
      else case source1 of
             JArray xs \<Rightarrow> (case target1 of
               JArray ys \<Rightarrow> diff_elements 0 xs ys path1 @ remaining_elements xs ys path1
             | _ \<Rightarrow> [])
           | JObject m \<Rightarrow> (case target1 of
               JObject n \<Rightarrow> diff_members m n path1 @ missing_members m n path1
             | _ \<Rightarrow> [])
           | _ \<Rightarrow> [replace_value path1 target1])"
| "diff_elements i [] ys path1 = []"
| "diff_elements i (x # xs) ys path1 =
     (case ys of
        [] \<Rightarrow> []
      | y # ys' \<Rightarrow> diff x y (index_path path1 i) @ diff_elements (Suc i) xs ys' path1)"
| "diff_members [] n path1 = []"
| "diff_members ((k, v) # m) n path1 =
     (case map_find k n of
        Some w \<Rightarrow> diff v w (key_path path1 k)
      | None \<Rightarrow> [remove_value (key_path path1 k)]) @ diff_members m n path1"

definition json_diff :: "json \<Rightarrow> json \<Rightarrow> json" where
  "json_diff source1 target1 = JArray (diff source1 target1 [])"

section \<open>Merging\<close>

text \<open>\<open>operator[]\<close> gives null for a missing member, which is then merged with.\<close>

fun merge_patch :: "json \<Rightarrow> json \<Rightarrow> json"
  and merge_members :: "(byte list \<times> json) list \<Rightarrow> (byte list \<times> json) list \<Rightarrow> (byte list \<times> json) list" where
  "merge_patch j apply_patch =
     (case apply_patch of
        JObject p \<Rightarrow> JObject (merge_members (case j of JObject m \<Rightarrow> m | _ \<Rightarrow> []) p)
      | _ \<Rightarrow> apply_patch)"
| "merge_members m [] = m"
| "merge_members m ((k, v) # p) =
     (if v = JNull then merge_members (map_erase k m) p
      else merge_members (map_put k (merge_patch (case map_find k m of Some u \<Rightarrow> u | None \<Rightarrow> JNull) v) m) p)"

declare diff.simps [simp del] merge_patch.simps [simp del]

end
