(* ===== verification/Json_Pointer_Rules.thy ===== *)
theory Json_Pointer_Rules
  imports Json_Pointer Json_Roundtrip
begin

text \<open>
  Pointers as text and back, and what following a pointer does in a value that is given as a
  context around the value pointed to.
\<close>

section \<open>Escaping\<close>

definition escape_one :: "byte \<Rightarrow> byte list" where
  "escape_one c = (if c = 0x7E then [0x7E, 0x30] else if c = 0x2F then [0x7E, 0x31] else [c])"

definition escape_tilde :: "byte \<Rightarrow> byte list" where
  "escape_tilde c = (if c = 0x7E then [0x7E, 0x30] else [c])"

lemma replace_one: "replace_substring s [c] t = concat (map (\<lambda>x. if x = c then t else [x]) s)"
  by (induction s "[c]" t rule: replace_substring.induct) auto

lemma replace_append:
  "\<forall>c \<in> set u. c \<noteq> f0 \<Longrightarrow> replace_substring (u @ s) (f0 # f) t = u @ replace_substring s (f0 # f) t"
  by (induction u) auto

lemma escape_concat: "escape s = concat (map escape_one s)"
proof -
  have "concat (map (\<lambda>x. if x = 0x2F then [0x7E, 0x31] else [x]) (concat (map escape_tilde s))) =
      concat (map escape_one s)"
    by (induction s) (simp_all add: escape_one_def escape_tilde_def)
  moreover have "(\<lambda>x. if x = 0x7E then [0x7E, 0x30] else [x]) = escape_tilde"
    by (simp add: fun_eq_iff escape_tilde_def)
  ultimately show ?thesis by (simp add: escape_def replace_one)
qed

lemma unescape_escape [simp]: "unescape (escape s) = s"
proof -
  have 1: "replace_substring (concat (map escape_one s)) [0x7E, 0x31] [0x2F] = concat (map escape_tilde s)"
    by (induction s) (simp_all add: escape_one_def escape_tilde_def)
  have 2: "replace_substring (concat (map escape_tilde s)) [0x7E, 0x30] [0x7E] = s"
    by (induction s) (simp_all add: escape_tilde_def)
  show ?thesis by (simp add: unescape_def escape_concat 1 2)
qed

lemma escape_no_slash: "0x2F \<notin> set (escape s)"
  by (auto simp: escape_concat escape_one_def split: if_splits)

lemma tildes_escape: "tildes_ok (escape s)"
  unfolding escape_concat by (induction s) (auto simp: escape_one_def)

lemma split_slashes_tokens: "split_slashes (escape t @ pointer_to_string ts) = map escape (t # ts)"
proof (induction ts arbitrary: t)
  case Nil
  have "takeWhile (\<lambda>c. c \<noteq> 0x2F) (escape t) = escape t"
    using escape_no_slash [of t] by (auto simp: takeWhile_eq_all_conv)
  then show ?case by (subst split_slashes.simps) (simp add: pointer_to_string_def Let_def del: takeWhile_eq_all_conv)
next
  case (Cons u ts)
  have "takeWhile (\<lambda>c. c \<noteq> 0x2F) (escape t @ 0x2F # w) = escape t" for w
    using escape_no_slash [of t] by (subst takeWhile_append2) auto
  then show ?case using Cons
    by (subst split_slashes.simps) (simp add: pointer_to_string_def Let_def)
qed

lemma unescape_tokens_escape: "unescape_tokens (map escape ts) = Inr ts"
  by (induction ts) (simp_all add: tildes_escape)

lemma split_pointer: "json_pointer (pointer_to_string ts) = Inr ts"
proof (cases ts)
  case Nil
  then show ?thesis by (simp add: json_pointer_def split_def pointer_to_string_def)
next
  case (Cons t us)
  then have "pointer_to_string ts = 0x2F # escape t @ pointer_to_string us" by (simp add: pointer_to_string_def)
  then show ?thesis
    using Cons unescape_tokens_escape [of ts] by (simp add: json_pointer_def split_def split_slashes_tokens)
qed

lemma pointer_append: "pointer_to_string (ts @ [t]) = pointer_to_string ts @ 0x2F # escape t"
  by (simp add: pointer_to_string_def)

section \<open>Indices\<close>

lemma index_key_decimal: "index_key n = decimal_digits n"
proof (induction n rule: decimal_digits.induct)
  case (1 n)
  have "(of_char (char_of (48 + k :: nat)) :: byte) = 0x30 + word_of_nat k" if "k < 10" for k
  proof -
    have "(of_char (char_of (48 + k :: nat) :: char) :: byte) = of_nat (of_char (char_of (48 + k)))"
      by (simp only: of_nat_of_char)
    also have "\<dots> = of_nat (48 + k)" using that by (simp add: of_char_of)
    finally show ?thesis by simp
  qed
  then show ?case using 1
    by (subst decimal_digits.simps, cases "n < 10")
      (simp_all add: index_key_def to_string.simps [of n])
qed

lemma index_key_digit: "list_all is_digit (index_key i)" "index_key i \<noteq> []" "digits_value (index_key i) = int i"
  using decimal_digits_ok [of i] by (simp_all add: index_key_decimal)

lemma index_key_no_zero: "(1 < length (index_key i) \<and> hd (index_key i) = 0x30) = False"
proof (cases "i = 0")
  case True
  then show ?thesis by (simp add: index_key_decimal decimal_digits.simps)
next
  case False
  then show ?thesis using decimal_digits_ok [of i] by (simp add: index_key_decimal)
qed

lemma index_key_not_dash: "index_key i \<noteq> [0x2D]"
proof
  assume "index_key i = [0x2D]"
  then show False using index_key_digit(1) [of i] by (simp add: is_digit_def)
qed

lemma escape_index: "escape (index_key i) = index_key i"
proof -
  have "escape_one c = [c]" if "is_digit c" for c
  proof -
    have "c \<noteq> 0x7E" "c \<noteq> 0x2F" using that by (auto simp: is_digit_def)
    then show ?thesis by (simp add: escape_one_def)
  qed
  then have "concat (map escape_one ds) = ds" if "list_all is_digit ds" for ds
    using that by (induction ds) simp_all
  then show ?thesis using index_key_digit(1) by (simp add: escape_concat)
qed

lemma array_index_key:
  assumes "i < 2 ^ 31"
  shows "array_index (index_key i) = Inr (int i)"
proof -
  let ?s = "index_key i"
  obtain c s where s: "?s = c # s" using index_key_digit(2) by (cases ?s) auto
  have c: "is_digit c" using index_key_digit(1) [of i] by (simp add: s)
  have "\<not> c_isspace c" "c \<noteq> 0x2B" "c \<noteq> 0x2D"
    using c by (auto simp: is_digit_def c_isspace_def word_le_nat_alt)
  moreover have "takeWhile is_digit ?s = ?s" using takeWhile_all_digits index_key_digit(1) .
  ultimately have "stoi ?s = Inr (int i, length ?s)"
    using assms index_key_digit(3) [of i] by (simp add: stoi_def s Let_def)
  then show ?thesis by (simp add: array_index_def)
qed

section \<open>Values in a context\<close>

text \<open>A value in an array or object around it; the contexts of a value inside, the outermost first.\<close>

datatype spot = InArray "json list" "json list" | InObject "(byte list \<times> json) list" "byte list"

fun fill_spot :: "spot \<Rightarrow> json \<Rightarrow> json" where
  "fill_spot (InArray before behind) v = JArray (before @ v # behind)"
| "fill_spot (InObject m k) v = JObject (map_assign k v m)"

fun spot_token :: "spot \<Rightarrow> byte list" where
  "spot_token (InArray before behind) = index_key (length before)"
| "spot_token (InObject m k) = k"

fun spot_step :: "spot \<Rightarrow> ref_step" where
  "spot_step (InArray before behind) = Elem (length before)"
| "spot_step (InObject m k) = Member k"

fun spot_ok :: "spot \<Rightarrow> bool" where
  "spot_ok (InArray before behind) \<longleftrightarrow> length before < 2 ^ 31"
| "spot_ok (InObject m k) \<longleftrightarrow> map_ok m \<and> map_find k m \<noteq> None"

fun in_spots :: "spot list \<Rightarrow> json \<Rightarrow> json" where
  "in_spots [] v = v"
| "in_spots (c # cs) v = fill_spot c (in_spots cs v)"

abbreviation spots_ok :: "spot list \<Rightarrow> bool" where
  "spots_ok cs \<equiv> list_all spot_ok cs"

definition spots_text :: "spot list \<Rightarrow> byte list" where
  "spots_text cs = pointer_to_string (map spot_token cs)"

lemma in_spots_snoc: "in_spots (cs @ [c]) v = in_spots cs (fill_spot c v)"
  by (induction cs) simp_all

lemma spots_text_snoc: "spots_text (cs @ [c]) = spots_text cs @ 0x2F # escape (spot_token c)"
  by (simp add: spots_text_def pointer_append)

lemma word_of_length: "n < 2 ^ 31 \<Longrightarrow> unat (word_of_int (int n) :: u64) = n"
  by (simp add: unsigned_of_nat take_bit_nat_eq_self)

lemma map_at_present: "map_ok m \<Longrightarrow> map_find k m \<noteq> None \<Longrightarrow> map_at k m = m"
proof (induction k m rule: map_at.induct)
  case (2 k k' v m)
  show ?case
  proof (cases "k = k'")
    case False
    then have k: "k \<in> fst ` set m" using 2(3) map_find_None [of k m] by auto
    then have "\<not> k < k'" using 2(2) by (auto simp: map_ok_def dest: order_less_trans)
    moreover have "map_at k m = m" using 2(1) [OF False \<open>\<not> k < k'\<close>] 2(2) k map_find_None [of k m] by (auto simp: map_ok_def)
    ultimately show ?thesis using False by simp
  qed simp
qed simp

lemma map_assign_twice: "map_assign k x (map_assign k y m) = map_assign k x m"
  by (induction k y m rule: map_assign.induct) simp_all

lemma map_find_assigned: "map_find k m \<noteq> None \<Longrightarrow> map_find k (map_assign k v m) = Some v"
  by (auto simp: map_find_assign)

lemma checked_spot: "spot_ok c \<Longrightarrow> checked_child (fill_spot c v) (spot_token c) = Inr (spot_step c, v)"
proof (cases c)
  case (InArray before behind)
  assume "spot_ok c"
  then show ?thesis
    using InArray word_of_length [of "length before"]
    by (simp only: fill_spot.simps spot_token.simps index_key_no_zero if_False json.case checked_child_def index_key_not_dash)
      (simp add: checked_child_def array_index_key catch_invalid_argument_def at_index_def)
next
  case (InObject m k)
  assume "spot_ok c"
  then show ?thesis using InObject by (simp add: checked_child_def at_key_def map_find_assigned)
qed

lemma unchecked_spot: "spot_ok c \<Longrightarrow> unchecked_child limit (fill_spot c v) (spot_token c) = Inr (fill_spot c v, spot_step c)"
proof (cases c)
  case (InArray before behind)
  assume "spot_ok c"
  then show ?thesis
    using InArray word_of_length [of "length before"]
    by (simp only: fill_spot.simps spot_token.simps index_key_no_zero if_False json.case unchecked_child_def index_key_not_dash
        is_type_simps json.distinct)
      (simp add: unchecked_child_def array_index_key catch_invalid_argument_def child_elem_def json_elem_def)
next
  case (InObject m k)
  assume "spot_ok c"
  then show ?thesis using InObject
    by (simp add: unchecked_child_def child_member_def json_index_def Let_def map_at_present map_find_assigned)
qed

lemma at_spot: "spot_ok c \<Longrightarrow> json_at (spot_step c # r) (fill_spot c v) = json_at r v"
  by (cases c) (auto simp: map_find_assign)

lemma update_spot: "spot_ok c \<Longrightarrow> json_update (spot_step c # r) f (fill_spot c v) = fill_spot c (json_update r f v)"
  by (cases c) (auto simp: map_find_assign map_assign_twice)

lemma checked_spots:
  "spots_ok cs \<Longrightarrow> get_checked (in_spots cs v) (map spot_token cs @ ts) =
     bind_res (get_checked v ts) (\<lambda>(r, w). Inr (map spot_step cs @ r, w))"
  by (induction cs) (simp_all add: checked_spot bind_res_assoc case_prod_unfold)

lemma unchecked_spots:
  "spots_ok cs \<Longrightarrow> get_unchecked limit (in_spots cs v) (map spot_token cs) = Inr (in_spots cs v, map spot_step cs)"
  by (induction cs)
    (simp_all add: unchecked_spot into_child_def load_def deref_def at_spot [where r = "[]", simplified]
      update_spot [where r = "[]", simplified])

lemma at_spots: "spots_ok cs \<Longrightarrow> json_at (map spot_step cs @ r) (in_spots cs v) = json_at r v"
  by (induction cs) (simp_all add: at_spot)

lemma update_spots: "spots_ok cs \<Longrightarrow> json_update (map spot_step cs @ r) f (in_spots cs v) = in_spots cs (json_update r f v)"
  by (induction cs) (simp_all add: update_spot)

lemmas at_spots0 = at_spots [where r = "[]", simplified]
lemmas update_spots0 = update_spots [where r = "[]", simplified]
lemmas checked_spots0 = checked_spots [where ts = "[]", simplified]

end
