(* ===== verification/Json_Patch_Rules.thy ===== *)
theory Json_Patch_Rules
  imports Json_Patch Json_Pointer_Rules
begin

text \<open>
  What the operations that \<open>diff\<close> writes do in a context, and that together they lead from the
  source to a value equal to the target.
\<close>

section \<open>Single operations\<close>

lemma member_names:
  "bytes_of ''op'' = bytes_of ''path'' \<longleftrightarrow> False" "bytes_of ''op'' = bytes_of ''value'' \<longleftrightarrow> False"
  "bytes_of ''path'' = bytes_of ''value'' \<longleftrightarrow> False" "bytes_of ''path'' = bytes_of ''op'' \<longleftrightarrow> False"
  by code_simp+

lemma operation_names:
  "get_op (bytes_of ''add'') = add_op" "get_op (bytes_of ''remove'') = remove_op"
  "get_op (bytes_of ''replace'') = replace_op"
  by code_simp+

lemma replace_applies:
  "json_pointer p = Inr ptr \<Longrightarrow> apply_operation limit R (replace_value p v) =
     bind_res (pointer_at R ptr) (\<lambda>(r, _). Inr (json_update r (\<lambda>_. v) R))"
  by (simp add: apply_operation_def replace_value_def get_string_value_def get_value_def get_string_def
      member_names operation_names)

lemma add_applies:
  "json_pointer p = Inr ptr \<Longrightarrow> apply_operation limit R (add_value p v) = operation_add limit R ptr v"
  by (simp add: apply_operation_def add_value_def get_string_value_def get_value_def get_string_def
      member_names operation_names)

lemma remove_applies:
  "json_pointer p = Inr ptr \<Longrightarrow> apply_operation limit R (remove_value p) = operation_remove R ptr"
  by (simp add: apply_operation_def remove_value_def get_string_value_def get_value_def get_string_def
      member_names operation_names)

lemma spots_pointer: "json_pointer (spots_text cs) = Inr (map spot_token cs)"
  by (simp add: spots_text_def split_pointer)

lemma child_pointer: "json_pointer (spots_text cs @ 0x2F # escape t) = Inr (map spot_token cs @ [t])"
  by (simp only: spots_text_def pointer_append [symmetric] split_pointer)

lemma replace_in:
  assumes "spots_ok cs"
  shows "apply_operation limit (in_spots cs u) (replace_value (spots_text cs) v) = Inr (in_spots cs v)"
  by (simp add: replace_applies [OF spots_pointer] pointer_at_def checked_spots0 [OF assms] update_spots0 [OF assms])

lemma remove_in:
  assumes "spots_ok cs" "remove_child parent t = Inr parent'"
  shows "apply_operation limit (in_spots cs parent) (remove_value (spots_text cs @ 0x2F # escape t)) = Inr (in_spots cs parent')"
  using assms(2)
  by (simp add: remove_applies [OF child_pointer] operation_remove_def pop_back_def pointer_at_def
      checked_spots0 [OF assms(1)] update_spots0 [OF assms(1)])

lemma add_in:
  assumes cs: "spots_ok cs" and add: "add_child parent t v = Inr parent'"
  shows "apply_operation limit (in_spots cs parent) (add_value (spots_text cs @ 0x2F # escape t) v) = Inr (in_spots cs parent')"
proof -
  let ?ptr = "map spot_token cs @ [t]" and ?R = "in_spots cs parent"
  have "bind_res (if [hd ?ptr] \<noteq> ?ptr then bind_res (pointer_at ?R [hd ?ptr]) (\<lambda>_. Inr ()) else Inr ()) (\<lambda>_. k) = k" for k :: "json res"
  proof (cases cs)
    case (Cons c cs')
    then have "pointer_at ?R [spot_token c] = Inr ([spot_step c], in_spots cs' parent)"
      using cs by (simp add: pointer_at_def checked_spot)
    then show ?thesis using Cons by simp
  qed simp
  then show ?thesis using add
    by (simp add: add_applies [OF child_pointer] operation_add_def top_def pop_back_def pointer_index_def
        unchecked_spots [OF cs] load_def deref_def at_spots0 [OF cs] update_spots0 [OF cs])
qed

section \<open>Sequences of operations\<close>

lemma unat_of_length: "n < 2 ^ 31 \<Longrightarrow> unat (word_of_nat n :: u64) = n"
  using word_of_length [of n] by simp

lemma apply_append:
  "apply_operations limit (ops @ ops') R = bind_res (apply_operations limit ops R) (apply_operations limit ops')"
proof (induction ops arbitrary: R)
  case (Cons op ops)
  then have "apply_operations limit (ops @ ops') = (\<lambda>R. bind_res (apply_operations limit ops R) (apply_operations limit ops'))"
    by (rule ext)
  then show ?case by (simp add: bind_res_assoc)
qed simp

text \<open>The elements of an array from \<open>n\<close> on are removed, the last one first.\<close>

lemma remove_elements:
  assumes "spots_ok cs" "length xs \<le> 2 ^ 31" "n \<le> length xs"
  shows "apply_operations limit (rev (map (\<lambda>i. remove_value (index_path (spots_text cs) i)) [n ..< length xs])) (in_spots cs (JArray xs)) =
    Inr (in_spots cs (JArray (take n xs)))"
  using assms(2,3)
proof (induction xs rule: rev_induct)
  case (snoc x xs)
  show ?case
  proof (cases "n \<le> length xs")
    case True
    have i: "length xs < 2 ^ 31" using snoc.prems(1) by simp
    have "remove_child (JArray (xs @ [x])) (index_key (length xs)) = Inr (JArray xs)"
      using i by (simp add: remove_child_def array_index_key erase_index_def unat_of_length)
    from remove_in [OF assms(1) this]
    show ?thesis using snoc True by (simp add: index_path_def escape_index)
  qed (use snoc.prems in simp)
qed simp

text \<open>Elements are added at the end.\<close>

lemma add_elements:
  assumes "spots_ok cs"
  shows "length xs + length zs \<le> 2 ^ 31 \<Longrightarrow>
    apply_operations limit (map (\<lambda>i. add_value (index_path (spots_text cs) i) (ys ! i)) [length xs ..< length xs + length zs])
      (in_spots cs (JArray xs)) = Inr (in_spots cs (JArray (xs @ map (nth ys) [length xs ..< length xs + length zs])))"
proof (induction zs arbitrary: xs)
  case (Cons z zs)
  have i: "length xs < 2 ^ 31" using Cons.prems by simp
  let ?y = "ys ! length xs"
  have "add_child (JArray xs) (index_key (length xs)) ?y = Inr (JArray (xs @ [?y]))"
    using i by (simp add: add_child_def array_index_key index_key_not_dash unat_of_length insert_at_def Let_def)
  moreover have "[length xs ..< length xs + length (z # zs)] = length xs # [length (xs @ [?y]) ..< length (xs @ [?y]) + length zs]"
    by (simp add: upt_conv_Cons del: upt_Suc)
  ultimately show ?case using add_in [OF assms, of "JArray xs" "index_key (length xs)"] Cons.IH [of "xs @ [?y]"] Cons.prems
    by (simp add: index_path_def escape_index del: upt_Suc)
qed simp

lemma remaining_elements_apply:
  assumes "spots_ok cs" "length xs \<le> 2 ^ 31" "length ys \<le> 2 ^ 31" "length rs = length xs"
  shows "apply_operations limit (remaining_elements xs ys (spots_text cs)) (in_spots cs (JArray rs)) =
    Inr (in_spots cs (JArray (take (length ys) rs @ drop (length xs) ys)))"
proof (cases "length ys \<le> length xs")
  case True
  then show ?thesis using remove_elements [OF assms(1), of rs "length ys" limit] assms
    by (simp add: remaining_elements_def apply_append)
next
  case False
  have "map (nth ys) [length xs ..< length ys] = drop (length xs) ys"
    using False by (intro nth_equalityI) (simp_all add: add.commute)
  then show ?thesis using add_elements [OF assms(1), of rs "drop (length xs) ys" limit ys] assms False
    by (simp add: remaining_elements_def)
qed

end
