(* ===== verification/Json_Diff_Rules.thy ===== *)
theory Json_Diff_Rules
  imports Json_Patch_Rules
begin

text \<open>
  The patch that \<open>diff\<close> writes, applied to the source inside any context, leads to a value equal
  to the target.
\<close>

section \<open>Values that can be patched\<close>

text \<open>The maps are in order, and an index into an array is read back by \<open>std::stoi\<close>.\<close>

fun patchable :: "json \<Rightarrow> bool" where
  "patchable (JObject m) \<longleftrightarrow> map_ok m \<and> (\<forall>v \<in> snd ` set m. patchable v)"
| "patchable (JArray xs) \<longleftrightarrow> length xs \<le> 2 ^ 31 \<and> (\<forall>v \<in> set xs. patchable v)"
| "patchable _ \<longleftrightarrow> True"

section \<open>Members\<close>

lemma assign_same: "map_find k m = Some v \<Longrightarrow> map_assign k v m = m"
  by (induction k v m rule: map_assign.induct) (auto split: if_splits)

lemma in_member: "map_find k m = Some v \<Longrightarrow> in_spots (cs @ [InObject m k]) v = in_spots cs (JObject m)"
  by (simp add: in_spots_snoc assign_same)

lemma in_element: "in_spots (cs @ [InArray before behind]) v = in_spots cs (JArray (before @ v # behind))"
  by (simp add: in_spots_snoc)

lemma key_path_spot: "key_path (spots_text cs) k = spots_text (cs @ [InObject m k])"
  by (simp add: key_path_def spots_text_snoc)

lemma index_path_spot: "index_path (spots_text cs) (length before) = spots_text (cs @ [InArray before behind])"
  by (simp add: index_path_def spots_text_snoc escape_index)

lemma remove_member:
  assumes "spots_ok cs" "map_find k m \<noteq> None"
  shows "apply_operation limit (in_spots cs (JObject m)) (remove_value (key_path (spots_text cs) k)) =
    Inr (in_spots cs (JObject (map_erase k m)))"
  using remove_in [OF assms(1), of "JObject m" k] assms(2) by (simp add: key_path_def remove_child_def)

lemma add_member:
  assumes "spots_ok cs"
  shows "apply_operation limit (in_spots cs (JObject m)) (add_value (key_path (spots_text cs) k) v) =
    Inr (in_spots cs (JObject (map_put k v m)))"
proof -
  have "add_child (JObject m) k v = Inr (JObject (map_put k v m))"
    using map_find_None [of k "map_at k m"]
    by (auto simp: add_child_def json_index_def Let_def map_put_def set_map_at split: option.splits)
  from add_in [OF assms this] show ?thesis by (simp add: key_path_def)
qed

text \<open>The members that are missing are added.\<close>

lemma add_members:
  assumes "spots_ok cs"
  shows "apply_operations limit (map (\<lambda>(k, v). add_value (key_path (spots_text cs) k) v) ps) (in_spots cs (JObject m)) =
    Inr (in_spots cs (JObject (foldl (\<lambda>m (k, v). map_put k v m) m ps)))"
  by (induction ps arbitrary: m) (auto simp: add_member [OF assms])

lemma map_find_puts:
  assumes "map_ok m" "distinct (map fst ps)"
  shows "map_ok (foldl (\<lambda>m (k, v). map_put k v m) m ps)"
    "map_find k (foldl (\<lambda>m (k, v). map_put k v m) m ps) = (case map_find k ps of None \<Rightarrow> map_find k m | Some v \<Rightarrow> Some v)"
  using assms
proof (induction ps arbitrary: m)
  case (Cons p ps)
  obtain k' v' where p: "p = (k', v')" by (cases p)
  {
    case 1
    then show ?case using Cons.IH(1) p by (simp add: map_ok_put)
  next
    case 2
    then have "k' \<notin> fst ` set ps" using p by simp
    then have "map_find k' ps = None" by (simp add: map_find_None)
    then show ?case using 2 Cons.IH(2) [of "map_put k' v' m"] p by (auto simp: map_ok_put map_find_put split: option.splits)
  }
qed simp_all

lemma map_find_filter: "map_ok n \<Longrightarrow> map_find k (filter (\<lambda>(k, v). P k) n) = (if P k then map_find k n else None)"
  by (induction n) (auto simp: map_ok_def)

lemma object_eqI:
  assumes "map_ok m" "map_ok n" "\<And>k. rel_option json_eq (map_find k m) (map_find k n)"
  shows "object_eq m n"
proof -
  let ?f = "\<lambda>m. map fst (m :: (byte list \<times> json) list)"
  have "set (?f m) = set (?f n)"
  proof -
    have "k \<in> fst ` set m \<longleftrightarrow> k \<in> fst ` set n" for k
      using assms(3) [of k] map_find_None [of k m] map_find_None [of k n] by (cases "map_find k m"; cases "map_find k n") auto
    then show ?thesis by auto
  qed
  then have keys: "?f m = ?f n"
    using assms(1,2) by (intro sorted_distinct_set_unique) (simp_all add: map_ok_def strict_sorted_iff)
  then have len: "length m = length n" by (metis length_map)
  have "fst (m ! i) = fst (n ! i) \<and> json_eq (snd (m ! i)) (snd (n ! i))" if i: "i < length m" for i
  proof -
    let ?k = "fst (m ! i)"
    have k: "fst (n ! i) = ?k" using keys i len by (metis nth_map)
    have "map_find ?k m = Some (snd (m ! i))" using i by (intro map_ok_find [OF assms(1)]) simp
    moreover have "map_find ?k n = Some (snd (n ! i))" using i len k by (intro map_ok_find [OF assms(2)]) (metis nth_mem prod.collapse)
    ultimately show ?thesis using assms(3) [of ?k] k by simp
  qed
  then show ?thesis using len by (auto simp: object_eq_list_all2 list_all2_conv_all_nth case_prod_unfold)
qed

section \<open>The difference\<close>

text \<open>
  By induction on \<open>diff\<close>: the elements visited become equal to those of the target, the
  others stay; a member visited is then found as in the target, the others as before.
\<close>

definition leads :: "u64 \<Rightarrow> spot list \<Rightarrow> json \<Rightarrow> json list \<Rightarrow> json \<Rightarrow> bool" where
  "leads limit cs u ops w \<longleftrightarrow> apply_operations limit ops (in_spots cs u) = Inr (in_spots cs w)"

lemma leads_append: "leads limit cs u ops v \<Longrightarrow> leads limit cs v ops' w \<Longrightarrow> leads limit cs u (ops @ ops') w"
  by (simp add: leads_def apply_append)

lemma leads_nil: "leads limit cs u [] u"
  by (simp add: leads_def)

lemma leads_replace: "spots_ok cs \<Longrightarrow> leads limit cs u [replace_value (spots_text cs) v] v"
  by (simp add: leads_def replace_in)

definition diff_good :: "u64 \<Rightarrow> json \<Rightarrow> json \<Rightarrow> byte list \<Rightarrow> bool" where
  "diff_good limit s t path1 \<longleftrightarrow>
     (\<forall>cs. spots_ok cs \<and> path1 = spots_text cs \<and> patchable s \<and> patchable t \<and> self_equal t \<longrightarrow>
       (\<exists>r. leads limit cs s (diff s t path1) r \<and> json_eq r t))"

definition elements_good :: "u64 \<Rightarrow> nat \<Rightarrow> json list \<Rightarrow> json list \<Rightarrow> byte list \<Rightarrow> bool" where
  "elements_good limit i xs ys path1 \<longleftrightarrow>
     (\<forall>cs before. spots_ok cs \<and> path1 = spots_text cs \<and> length before = i \<and> i + length xs \<le> 2 ^ 31 \<and>
         list_all patchable xs \<and> list_all patchable ys \<and> list_all self_equal ys \<longrightarrow>
       (\<exists>rs. leads limit cs (JArray (before @ xs)) (diff_elements i xs ys path1) (JArray (before @ rs)) \<and>
         length rs = length xs \<and> list_all2 json_eq (take (length ys) rs) (take (length xs) ys)))"

definition members_good :: "u64 \<Rightarrow> (byte list \<times> json) list \<Rightarrow> (byte list \<times> json) list \<Rightarrow> byte list \<Rightarrow> bool" where
  "members_good limit m n path1 \<longleftrightarrow>
     (\<forall>cs m0. spots_ok cs \<and> path1 = spots_text cs \<and> map_ok m \<and> map_ok m0 \<and> map_ok n \<and>
         (\<forall>(k, v) \<in> set m. map_find k m0 = Some v \<and> patchable v) \<and> (\<forall>(k, v) \<in> set n. patchable v \<and> self_equal v) \<longrightarrow>
       (\<exists>m1. leads limit cs (JObject m0) (diff_members m n path1) (JObject m1) \<and> map_ok m1 \<and>
         (\<forall>k. if k \<in> fst ` set m then rel_option json_eq (map_find k m1) (map_find k n) else map_find k m1 = map_find k m0)))"

lemma diff_elements_step:
  assumes "diff_good limit x y (index_path path1 i)" "elements_good limit (Suc i) xs ys path1"
  shows "elements_good limit i (x # xs) (y # ys) path1"
  unfolding elements_good_def
proof (intro allI impI, elim conjE)
  fix cs :: "spot list" and before :: "json list"
  assume cs: "spots_ok cs" "path1 = spots_text cs" and i: "length before = i" "i + length (x # xs) \<le> 2 ^ 31"
    and ok: "list_all patchable (x # xs)" "list_all patchable (y # ys)" "list_all self_equal (y # ys)"
  let ?cs = "cs @ [InArray before xs]"
  have "spots_ok ?cs" "index_path path1 i = spots_text ?cs" using cs i index_path_spot [of cs before xs] by simp_all
  then obtain r where r: "leads limit ?cs x (diff x y (index_path path1 i)) r" "json_eq r y"
    using assms(1) ok unfolding diff_good_def by (metis list.pred_inject(2))
  then have step: "leads limit cs (JArray (before @ x # xs)) (diff x y (index_path path1 i)) (JArray (before @ r # xs))"
    by (simp add: leads_def in_element)
  obtain rs where rs: "leads limit cs (JArray ((before @ [r]) @ xs)) (diff_elements (Suc i) xs ys path1) (JArray ((before @ [r]) @ rs))"
    "length rs = length xs" "list_all2 json_eq (take (length ys) rs) (take (length xs) ys)"
    using assms(2) [unfolded elements_good_def, rule_format, of cs "before @ [r]"] cs i ok by auto
  show "\<exists>rs. leads limit cs (JArray (before @ x # xs)) (diff_elements i (x # xs) (y # ys) path1) (JArray (before @ rs)) \<and>
      length rs = length (x # xs) \<and> list_all2 json_eq (take (length (y # ys)) rs) (take (length (x # xs)) (y # ys))"
    using leads_append [OF step] rs r(2) by (intro exI [of _ "r # rs"]) simp
qed

lemma diff_member_step:
  assumes "\<And>w. map_find k n = Some w \<Longrightarrow> diff_good limit v w (key_path path1 k)" "members_good limit m n path1"
  shows "members_good limit ((k, v) # m) n path1"
  unfolding members_good_def
proof (intro allI impI, elim conjE)
  fix cs m0
  assume cs: "spots_ok cs" "path1 = spots_text cs" and ok: "map_ok ((k, v) # m)" "map_ok m0" "map_ok n"
    and m0: "\<forall>(k, v) \<in> set ((k, v) # m). map_find k m0 = Some v \<and> patchable v"
    and n: "\<forall>(k, v) \<in> set n. patchable v \<and> self_equal v"
  let ?op = "case map_find k n of Some w \<Rightarrow> diff v w (key_path path1 k) | None \<Rightarrow> [remove_value (key_path path1 k)]"
  have v: "map_find k m0 = Some v" "patchable v" using m0 by auto
  obtain m1 where m1: "leads limit cs (JObject m0) ?op (JObject m1)" "map_ok m1"
    "rel_option json_eq (map_find k m1) (map_find k n)" "\<forall>k'. k' \<noteq> k \<longrightarrow> map_find k' m1 = map_find k' m0"
  proof (cases "map_find k n")
    case None
    then show ?thesis
      using that [of "map_erase k m0"] remove_member [OF cs(1), of k m0] v ok(2)
      by (simp add: leads_def cs(2) map_ok_erase map_find_erase)
  next
    case (Some w)
    let ?cs = "cs @ [InObject m0 k]"
    have "spots_ok ?cs" "key_path path1 k = spots_text ?cs" using cs v ok(2) key_path_spot [of cs k m0] by simp_all
    moreover have "patchable w" "self_equal w" using n map_find_in [OF Some] by auto
    ultimately obtain r where r: "leads limit ?cs v (diff v w (key_path path1 k)) r" "json_eq r w"
      using assms(1) [OF Some] v(2) unfolding diff_good_def by metis
    then have "leads limit cs (JObject m0) (diff v w (key_path path1 k)) (JObject (map_assign k r m0))"
      using in_member [OF v(1)] by (simp add: leads_def in_spots_snoc)
    then show ?thesis using that [of "map_assign k r m0"] Some r(2) ok(2) v(1) by (simp add: map_find_assign)
  qed
  have "k \<notin> fst ` set m" "map_ok m" using ok(1) by (auto simp: map_ok_def)
  then have "map_find k' m1 = Some v' \<and> patchable v'" if "(k', v') \<in> set m" for k' v'
  proof -
    have "k' \<noteq> k" using that \<open>k \<notin> fst ` set m\<close> by force
    moreover have "map_find k' m0 = Some v' \<and> patchable v'" using that m0 by auto
    ultimately show ?thesis using m1(4) by simp
  qed
  then have "\<forall>(k', v') \<in> set m. map_find k' m1 = Some v' \<and> patchable v'" by blast
  then have "spots_ok cs \<and> path1 = spots_text cs \<and> map_ok m \<and> map_ok m1 \<and> map_ok n \<and>
      (\<forall>(k, v) \<in> set m. map_find k m1 = Some v \<and> patchable v) \<and> (\<forall>(k, v) \<in> set n. patchable v \<and> self_equal v)"
    using cs m1(2) ok(3) \<open>map_ok m\<close> n by simp
  from assms(2) [unfolded members_good_def, THEN spec, THEN spec, THEN mp, OF this]
  obtain m2 where m2: "leads limit cs (JObject m1) (diff_members m n path1) (JObject m2)" "map_ok m2"
    "\<forall>k. if k \<in> fst ` set m then rel_option json_eq (map_find k m2) (map_find k n) else map_find k m2 = map_find k m1" by blast
  have "if k' \<in> fst ` set ((k, v) # m) then rel_option json_eq (map_find k' m2) (map_find k' n) else map_find k' m2 = map_find k' m0" for k'
    using m2(3) [rule_format, of k'] m1(3,4) \<open>k \<notin> fst ` set m\<close> by (cases "k' = k") auto
  then show "\<exists>m1. leads limit cs (JObject m0) (diff_members ((k, v) # m) n path1) (JObject m1) \<and> map_ok m1 \<and>
      (\<forall>k'. if k' \<in> fst ` set ((k, v) # m) then rel_option json_eq (map_find k' m1) (map_find k' n) else map_find k' m1 = map_find k' m0)"
    using leads_append [OF m1(1) m2(1)] m2(2) by (intro exI [of _ m2]) simp
qed

lemma diff_values:
  assumes "\<And>xs ys. s = JArray xs \<Longrightarrow> t = JArray ys \<Longrightarrow> elements_good limit 0 xs ys path1"
    and "\<And>m n. s = JObject m \<Longrightarrow> t = JObject n \<Longrightarrow> members_good limit m n path1"
  shows "diff_good limit s t path1"
  unfolding diff_good_def
proof (intro allI impI, elim conjE)
  fix cs
  assume cs: "spots_ok cs" "path1 = spots_text cs" and ok: "patchable s" "patchable t" "self_equal t"
  have replaced: "\<exists>r. leads limit cs s [replace_value path1 t] r \<and> json_eq r t"
    using leads_replace [OF cs(1)] ok(3) cs(2) by (intro exI [of _ t]) (simp add: json_eq_refl)
  have "diff s t path1 = [replace_value path1 t]" if "\<not> json_eq s t"
    "\<And>xs ys. s = JArray xs \<Longrightarrow> t \<noteq> JArray ys" "\<And>m n. s = JObject m \<Longrightarrow> t \<noteq> JObject n"
    using that by (cases s; cases t) (auto simp: diff.simps)
  then consider (equal) "json_eq s t" | (array) xs ys where "s = JArray xs" "t = JArray ys" "\<not> json_eq s t"
    | (object) m n where "s = JObject m" "t = JObject n" "\<not> json_eq s t"
    | (other) "diff s t path1 = [replace_value path1 t]"
    by blast
  then show "\<exists>r. leads limit cs s (diff s t path1) r \<and> json_eq r t"
  proof cases
    case equal
    then show ?thesis by (auto simp: diff.simps intro: leads_nil)
  next
    case array
    have ok': "length xs \<le> 2 ^ 31" "length ys \<le> 2 ^ 31" "list_all patchable xs" "list_all patchable ys" "list_all self_equal ys"
      using ok array by (simp_all add: list_all_iff)
    obtain rs where rs: "leads limit cs (JArray xs) (diff_elements 0 xs ys path1) (JArray rs)"
      "length rs = length xs" "list_all2 json_eq (take (length ys) rs) (take (length xs) ys)"
      using assms(1) [OF array(1,2), unfolded elements_good_def, rule_format, of cs "[]"] cs ok' by auto
    have "leads limit cs (JArray rs) (remaining_elements xs ys path1) (JArray (take (length ys) rs @ drop (length xs) ys))"
      using remaining_elements_apply [OF cs(1) ok'(1,2) rs(2)] by (simp add: leads_def cs(2))
    moreover have "list_all2 json_eq (drop (length xs) ys) (drop (length xs) ys)"
      using ok'(5) by (auto simp: list_all2_same json_eq_refl list_all_iff dest: in_set_dropD)
    from list_all2_appendI [OF rs(3) this]
    have "array_eq (take (length ys) rs @ drop (length xs) ys) ys" by (simp add: array_eq_list_all2)
    ultimately show ?thesis using array leads_append [OF rs(1)]
      by (intro exI [of _ "JArray (take (length ys) rs @ drop (length xs) ys)"]) (simp add: diff.simps)
  next
    case object
    have m: "map_ok m" "map_ok n" and vals: "\<forall>(k, v) \<in> set m. map_find k m = Some v \<and> patchable v"
      "\<forall>(k, v) \<in> set n. patchable v \<and> self_equal v"
      using ok object by (auto simp: map_ok_find)
    have "spots_ok cs \<and> path1 = spots_text cs \<and> map_ok m \<and> map_ok m \<and> map_ok n \<and>
        (\<forall>(k, v) \<in> set m. map_find k m = Some v \<and> patchable v) \<and> (\<forall>(k, v) \<in> set n. patchable v \<and> self_equal v)"
      using cs m vals by simp
    from assms(2) [OF object(1,2), unfolded members_good_def, THEN spec, THEN spec, THEN mp, OF this]
    obtain m1 where m1: "leads limit cs (JObject m) (diff_members m n path1) (JObject m1)" "map_ok m1"
      "\<forall>k. if k \<in> fst ` set m then rel_option json_eq (map_find k m1) (map_find k n) else map_find k m1 = map_find k m" by blast
    let ?ps = "filter (\<lambda>(k, v). map_find k m = None) n"
    let ?m2 = "foldl (\<lambda>m (k, v). map_put k v m) m1 ?ps"
    have "leads limit cs (JObject m1) (missing_members m n path1) (JObject ?m2)"
      by (simp add: leads_def missing_members_def cs(2) add_members [OF cs(1)])
    moreover have "distinct (map fst n)" using m(2) by (simp add: map_ok_def strict_sorted_iff)
    then have "distinct (map fst ?ps)" by (rule distinct_map_filter)
    then have "map_ok ?m2" and find: "\<And>k. map_find k ?m2 = (case map_find k ?ps of None \<Rightarrow> map_find k m1 | Some v \<Rightarrow> Some v)"
      by (simp_all add: map_find_puts [OF m1(2)])
    have "rel_option json_eq (map_find k ?m2) (map_find k n)" for k
    proof (cases "map_find k m")
      case None
      then have "map_find k m1 = None" using m1(3) [rule_format, of k] map_find_None [of k m] by simp
      then have "map_find k ?m2 = map_find k n" using None find [of k] map_find_filter [OF m(2)] by (simp split: option.splits)
      moreover have "json_eq v v" if "map_find k n = Some v" for v
        using map_find_in [OF that] vals(2) by (auto simp: json_eq_refl)
      ultimately show ?thesis by (cases "map_find k n") simp_all
    next
      case (Some v)
      then have "map_find k ?m2 = map_find k m1" using find [of k] map_find_filter [OF m(2)] by simp
      then show ?thesis using m1(3) [rule_format, of k] map_find_None [of k m] Some by (auto split: if_splits)
    qed
    then have "object_eq ?m2 n" using \<open>map_ok ?m2\<close> m(2) by (intro object_eqI)
    ultimately show ?thesis using object leads_append [OF m1(1)]
      by (intro exI [of _ "JObject ?m2"]) (simp add: diff.simps)
  qed (use replaced in simp)
qed

lemma diff_all:
  "diff_good limit s t path1"
  "elements_good limit i xs ys path1"
  "members_good limit m n path1"
proof (induction s t path1 and i xs ys path1 and m n path1 rule: diff_diff_elements_diff_members.induct)
  case (1 s t path1)
  show ?case
  proof (cases "json_eq s t")
    case True
    then show ?thesis by (auto simp: diff_good_def diff.simps intro: leads_nil)
  qed (rule diff_values; use 1 in simp)
next
  case (2 i ys path1)
  then show ?case by (auto simp: elements_good_def leads_nil)
next
  case (3 i x xs ys path1)
  show ?case
  proof (cases ys)
    case Nil
    then show ?thesis by (auto simp: elements_good_def leads_nil intro!: exI [of _ "x # xs"])
  qed (use 3 diff_elements_step in simp)
next
  case (4 n path1)
  then show ?case by (auto simp: members_good_def intro: leads_nil)
next
  case (5 k v m n path1)
  then show ?case by (intro diff_member_step)
qed

end
