(* ===== verification/Json_Flatten.thy ===== *)
theory Json_Flatten
  imports Json_Diff_Rules
begin

text \<open>
  Flattening and unflattening undo each other. The members of the flattened object come in the
  order of the pointers' texts; in between, the value built has the leaves assigned so far.
\<close>

section \<open>Leaves\<close>

type_synonym tokens = "byte list list"

fun leaves :: "json \<Rightarrow> (tokens \<times> json) list"
  and leaves_elements :: "nat \<Rightarrow> json list \<Rightarrow> (tokens \<times> json) list"
  and leaves_members :: "(byte list \<times> json) list \<Rightarrow> (tokens \<times> json) list" where
  "leaves (JArray xs) = (if xs = [] then [([], JNull)] else leaves_elements 0 xs)"
| "leaves (JObject m) = (if m = [] then [([], JNull)] else leaves_members m)"
| "leaves v = [([], v)]"
| "leaves_elements i [] = []"
| "leaves_elements i (v # vs) = map (\<lambda>(p, w). (index_key i # p, w)) (leaves v) @ leaves_elements (Suc i) vs"
| "leaves_members [] = []"
| "leaves_members ((k, v) # m) = map (\<lambda>(p, w). (k # p, w)) (leaves v) @ leaves_members m"

abbreviation puts :: "(byte list \<times> json) list \<Rightarrow> (byte list \<times> json) list \<Rightarrow> (byte list \<times> json) list" where
  "puts m ps \<equiv> foldl (\<lambda>m (k, v). map_put k v m) m ps"

definition texts :: "byte list \<Rightarrow> (tokens \<times> json) list \<Rightarrow> (byte list \<times> json) list" where
  "texts s ls = map (\<lambda>(p, v). (s @ pointer_to_string p, v)) ls"

lemma pointer_text [simp]: "pointer_to_string [] = []" "pointer_to_string (t # p) = 0x2F # escape t @ pointer_to_string p"
  by (simp_all add: pointer_to_string_def)

lemma pointer_text_inj [simp]: "pointer_to_string p = pointer_to_string q \<longleftrightarrow> p = q"
  by (metis split_pointer sum.inject(2))

lemma texts_simps [simp]:
  "texts s [] = []" "texts s (ls @ ls') = texts s ls @ texts s ls'" "texts s [([], v)] = [(s, v)]"
  "texts s (map (\<lambda>(p, w). (t # p, w)) ls) = texts (s @ 0x2F # escape t) ls"
  by (simp_all add: texts_def case_prod_unfold)

lemma flatten_leaves:
  "flatten s j m = puts m (texts s (leaves j))"
  "flatten_elements s i xs m = puts m (texts s (leaves_elements i xs))"
  "flatten_members s n m = puts m (texts s (leaves_members n))"
  by (induction s j m and s i xs m and s n m rule: flatten_flatten_elements_flatten_members.induct)
    (simp_all add: escape_index)

text \<open>Where the leaves are.\<close>

lemma index_key_inj [simp]: "index_key i = index_key k \<longleftrightarrow> i = k"
  by (metis index_key_digit(3) of_nat_eq_iff)

lemma leaves_elements_iff:
  "(p, v) \<in> set (leaves_elements i xs) \<longleftrightarrow> (\<exists>k q. k < length xs \<and> p = index_key (i + k) # q \<and> (q, v) \<in> set (leaves (xs ! k)))"
proof (induction xs arbitrary: i)
  case (Cons x xs)
  have "(\<exists>k q. k < length (x # xs) \<and> p = index_key (i + k) # q \<and> (q, v) \<in> set (leaves ((x # xs) ! k))) \<longleftrightarrow>
      (\<exists>q. p = index_key i # q \<and> (q, v) \<in> set (leaves x)) \<or>
      (\<exists>k q. k < length xs \<and> p = index_key (Suc i + k) # q \<and> (q, v) \<in> set (leaves (xs ! k)))"
    by (auto simp: less_Suc_eq_0_disj)
  then show ?case using Cons [of "Suc i"] by auto
qed simp

lemma leaves_members_iff:
  "(p, v) \<in> set (leaves_members m) \<longleftrightarrow> (\<exists>(k, x) \<in> set m. \<exists>q. p = k # q \<and> (q, v) \<in> set (leaves x))"
  by (induction m) auto

text \<open>Values that are flattened without loss.\<close>

fun flattens :: "json \<Rightarrow> bool" where
  "flattens (JArray xs) \<longleftrightarrow> xs \<noteq> [] \<and> length xs \<le> 2 ^ 31 \<and> (\<forall>v \<in> set xs. flattens v)"
| "flattens (JObject m) \<longleftrightarrow> m \<noteq> [] \<and> map_ok m \<and> (\<forall>(k, v) \<in> set m. k \<noteq> [0x30] \<and> flattens v)"
| "flattens JDiscarded \<longleftrightarrow> False"
| "flattens _ \<longleftrightarrow> True"

lemma leaves_distinct:
  "flattens j \<Longrightarrow> distinct (map fst (leaves j))"
  "\<forall>v \<in> set xs. flattens v \<Longrightarrow> distinct (map fst (leaves_elements i xs))"
  "map_ok m \<Longrightarrow> \<forall>(k, v) \<in> set m. flattens v \<Longrightarrow> distinct (map fst (leaves_members m))"
proof (induction j and i xs and m rule: leaves_leaves_elements_leaves_members.induct)
  case (5 i v vs)
  then show ?case by (auto simp: distinct_map inj_on_def leaves_elements_iff case_prod_unfold comp_def)
next
  case (7 k v m)
  then show ?case by (auto simp: distinct_map inj_on_def leaves_members_iff case_prod_unfold comp_def map_ok_def)
qed auto


lemma leaves_primitive:
  "flattens j \<Longrightarrow> (p, v) \<in> set (leaves j) \<Longrightarrow> is_primitive v"
  "\<forall>v \<in> set xs. flattens v \<Longrightarrow> (p, v) \<in> set (leaves_elements i xs) \<Longrightarrow> is_primitive v"
  "\<forall>(k, v) \<in> set m. flattens v \<Longrightarrow> (p, v) \<in> set (leaves_members m) \<Longrightarrow> is_primitive v"
proof (induction j and i xs and m arbitrary: p v and p v and p v rule: leaves_leaves_elements_leaves_members.induct)
  case (2 m)
  then have "\<forall>(k, v) \<in> set m. flattens v" by auto
  then show ?case using 2 by (auto simp: is_primitive_def split: if_splits)
qed (auto simp: is_primitive_def is_string_def is_boolean_def is_number_def is_number_integer_def is_number_float_def
  split: if_splits)

section \<open>The value in between\<close>

text \<open>
  The pointers behind a first token; how many elements an array has once some of its leaves are
  assigned; the value with the leaves that a set of pointers names.
\<close>

definition behind :: "byte list \<Rightarrow> tokens set \<Rightarrow> tokens set" where
  "behind t S = {p. t # p \<in> S}"

lemma behind_empty [simp]: "behind t {} = {}"
  by (simp add: behind_def)

lemma behind_insert: "behind t (insert (u # p) S) = (if u = t then insert p (behind t S) else behind t S)"
  by (auto simp: behind_def)

definition extent :: "nat \<Rightarrow> tokens set \<Rightarrow> nat" where
  "extent n S = Max (insert 0 {Suc i | i. i < n \<and> behind (index_key i) S \<noteq> {}})"

lemma extent_empty [simp]: "extent n {} = 0"
  by (simp add: extent_def)

lemma extent_finite: "finite {Suc i | i. i < n \<and> P i}"
  by (rule finite_subset [of _ "Suc ` {..<n}"]) auto

lemma extent_insert:
  assumes "i < n"
  shows "extent n (insert (index_key i # p) S) = max (extent n S) (Suc i)"
proof -
  have "{Suc k | k. k < n \<and> behind (index_key k) (insert (index_key i # p) S) \<noteq> {}} =
      insert (Suc i) {Suc k | k. k < n \<and> behind (index_key k) S \<noteq> {}}"
    using assms by (auto simp: behind_insert)
  then show ?thesis by (simp add: extent_def extent_finite insert_commute [of 0] max.commute del: Max_insert) (simp add: extent_finite max.commute)
qed

lemma extent_le: "extent n S \<le> n"
  unfolding extent_def by (subst Max_le_iff) (auto simp: extent_finite)

lemma extent_beyond: "i < n \<Longrightarrow> extent n S \<le> i \<Longrightarrow> behind (index_key i) S = {}"
proof (rule ccontr)
  assume "i < n" "extent n S \<le> i" "behind (index_key i) S \<noteq> {}"
  then have "Suc i \<le> extent n S" unfolding extent_def by (intro Max_ge) (auto simp: extent_finite)
  then show False using \<open>extent n S \<le> i\<close> by simp
qed

lemma zip_size [termination_simp]: "(i, x) \<in> set (zip ys xs) \<Longrightarrow> size x < Suc (size_list size xs)"
  by (auto dest!: set_zip_rightD simp: less_Suc_eq_le intro: size_list_estimation')

fun part :: "tokens set \<Rightarrow> json \<Rightarrow> json" where
  "part S (JArray xs) = (if S = {} then JNull
     else JArray (map (\<lambda>(i, x). part (behind (index_key i) S) x) (zip [0 ..< extent (length xs) S] xs)))"
| "part S (JObject m) = (if S = {} then JNull
     else JObject (map (\<lambda>(k, x). (k, part (behind k S) x)) (filter (\<lambda>(k, x). behind k S \<noteq> {}) m)))"
| "part S v = (if S = {} then JNull else v)"

lemma part_empty [simp]: "part {} j = JNull"
  by (cases j) simp_all

definition part_elements :: "tokens set \<Rightarrow> json list \<Rightarrow> nat \<Rightarrow> json list" where
  "part_elements S xs n = map (\<lambda>i. part (behind (index_key i) S) (xs ! i)) [0 ..< n]"

definition part_members :: "tokens set \<Rightarrow> (byte list \<times> json) list \<Rightarrow> (byte list \<times> json) list" where
  "part_members S m = map (\<lambda>(k, x). (k, part (behind k S) x)) (filter (\<lambda>(k, x). behind k S \<noteq> {}) m)"

lemma part_elements_nth [simp]:
  "length (part_elements S xs n) = n" "i < n \<Longrightarrow> part_elements S xs n ! i = part (behind (index_key i) S) (xs ! i)"
  by (simp_all add: part_elements_def del: upt_Suc)

lemma part_array: "S \<noteq> {} \<Longrightarrow> part S (JArray xs) = JArray (part_elements S xs (extent (length xs) S))"
  using extent_le [of "length xs" S] by (auto intro!: nth_equalityI)

lemma part_object: "S \<noteq> {} \<Longrightarrow> part S (JObject m) = JObject (part_members S m)"
  by (simp add: part_members_def)

lemma part_members_find:
  assumes "map_ok m"
  shows "map_ok (part_members S m)"
    "map_find k (part_members S m) = (if behind k S = {} then None else map_option (part (behind k S)) (map_find k m))"
proof -
  have keys: "map fst (part_members S m) = map fst (filter (\<lambda>(k, x). behind k S \<noteq> {}) m)"
    by (simp add: part_members_def case_prod_unfold comp_def)
  show "map_ok (part_members S m)"
    using assms unfolding map_ok_def keys by (simp add: sorted_wrt_map sorted_wrt_filter)
  have "map_find k (map (\<lambda>(k, x). (k, part (behind k S) x)) n) = map_option (part (behind k S)) (map_find k n)" for n
    by (induction n) auto
  then show "map_find k (part_members S m) = (if behind k S = {} then None else map_option (part (behind k S)) (map_find k m))"
    unfolding part_members_def using map_find_filter [OF assms] by simp
qed

section \<open>Assigning one leaf\<close>

definition below :: "json \<Rightarrow> tokens \<Rightarrow> tokens set" where
  "below j p = {q \<in> fst ` set (leaves j). pointer_to_string q < pointer_to_string p}"

lemma fst_image: "q \<in> fst ` S \<longleftrightarrow> (\<exists>v. (q, v) \<in> S)"
  by force

lemma in_leaves_array:
  "xs \<noteq> [] \<Longrightarrow> index_key i # q \<in> fst ` set (leaves (JArray xs)) \<longleftrightarrow> i < length xs \<and> q \<in> fst ` set (leaves (xs ! i))"
  unfolding fst_image by (auto simp: leaves_elements_iff)

lemma in_leaves_object:
  "m \<noteq> [] \<Longrightarrow> k # q \<in> fst ` set (leaves (JObject m)) \<longleftrightarrow> (\<exists>x. (k, x) \<in> set m \<and> q \<in> fst ` set (leaves x))"
  unfolding fst_image by (auto simp: leaves_members_iff)

lemma append_less [simp]: "(s @ u < s @ w) = (u < (w :: byte list))"
  by (induction s) simp_all

lemma behind_below_array:
  "i < length xs \<Longrightarrow> behind (index_key i) (below (JArray xs) (index_key i # p)) = below (xs ! i) p"
  by (cases "xs = []") (auto simp: behind_def below_def in_leaves_array simp del: leaves.simps)

lemma behind_below_object:
  assumes "map_ok m" "map_find k m = Some x"
  shows "behind k (below (JObject m) (k # p)) = below x p"
proof -
  have "(k, y) \<in> set m \<longleftrightarrow> y = x" for y using map_ok_find [OF assms(1)] map_find_in [OF assms(2)] assms(2) by fastforce
  moreover have "m \<noteq> []" using assms(2) by auto
  ultimately show ?thesis by (auto simp: behind_def below_def in_leaves_object simp del: leaves.simps)
qed

lemma leaves_nonempty: "flattens j \<Longrightarrow> leaves j \<noteq> []"
proof (induction j)
  case (JArray xs)
  then show ?case by (cases xs) simp_all
next
  case (JObject m)
  then obtain k x n where m: "m = (k, x) # n" by (cases m) auto
  then have "leaves x \<noteq> []" using JObject.IH [of "(k, x)" x] JObject.prems by simp
  then show ?case by (simp add: m)
qed simp_all

lemma index_key_hd: "0 < i \<Longrightarrow> 0x30 < hd (index_key i)"
proof -
  assume i: "0 < i"
  obtain c s where cs: "index_key i = c # s" using index_key_digit(2) by (cases "index_key i") auto
  have c: "is_digit c" using index_key_digit(1) [of i] by (simp add: cs)
  have "c \<noteq> 0x30"
  proof
    assume "c = 0x30"
    then have "s = []" using index_key_no_zero [of i] by (cases s) (simp_all add: cs)
    then have "digits_value (index_key i) = 0" using \<open>c = 0x30\<close> by (simp add: cs digits_value_def digit_value_def)
    then show False using index_key_digit(3) [of i] i by simp
  qed
  then show ?thesis using c by (simp add: cs is_digit_def order_less_le)
qed

lemma first_is_zero:
  assumes "flattens (JArray xs)" "i < length xs" "below (JArray xs) (index_key i # p) = {}"
  shows "i = 0"
proof (rule ccontr)
  assume "i \<noteq> 0"
  obtain q v where q: "(q, v) \<in> set (leaves (xs ! 0))"
    using assms(1,2) leaves_nonempty [of "xs ! 0"] by (metis flattens.simps(1) list.set_intros(1) neq_Nil_conv nth_Cons_0 surj_pair)
  have "index_key 0 = [0x30]" by code_simp
  then have "pointer_to_string (index_key 0 # q) < pointer_to_string (index_key i # p)"
    unfolding pointer_text escape_index
    using index_key_hd [of i] index_key_digit(2) [of i] \<open>i \<noteq> 0\<close> by (cases "index_key i") simp_all
  moreover have "index_key 0 # q \<in> fst ` set (leaves (JArray xs))" using q assms(1,2)
    by (subst in_leaves_array) (auto simp: fst_image)
  ultimately show False using assms(3) unfolding below_def by blast
qed

definition assign :: "u64 \<Rightarrow> json \<Rightarrow> tokens \<Rightarrow> json \<Rightarrow> json res" where
  "assign limit j p v = bind_res (get_and_create limit j p) (\<lambda>(j', r). Inr (json_update r (\<lambda>_. v) j'))"

lemma update_step: "json_update (st # r) f (json_update [st] (\<lambda>_. y) j) = json_update [st] (\<lambda>_. json_update r f y) j"
  by (cases st; cases j) (auto simp: map_find_assign map_assign_twice split: option.splits)

lemma assign_Nil: "assign limit j [] v = Inr v"
  by (simp add: assign_def)

lemma assign_Cons:
  "assign limit j (t # p) v = bind_res (create_child limit j t) (\<lambda>(j', st). bind_res (load [st] j') (\<lambda>x.
     bind_res (assign limit x p v) (\<lambda>x'. Inr (json_update [st] (\<lambda>_. x') j'))))"
  by (simp add: assign_def into_child_def bind_res_assoc case_prod_unfold update_step)

text \<open>An index behind the end fills the array up with null, which is what a part without leaves is.\<close>

lemma json_elem_pad:
  assumes "i < 2 ^ 31" "length ys \<le> 2 ^ 31" "2 ^ 31 \<le> unat limit"
  shows "json_elem limit (JArray ys) (word_of_nat i) = Inr (JArray (ys @ replicate (Suc i - length ys) JNull))"
proof (cases "i < length ys")
  case True
  then show ?thesis using assms(1) by (simp add: json_elem_def unat_of_length)
next
  case False
  have "(word_of_nat i :: u64) - word_of_nat (length ys) + 1 = word_of_nat (Suc i - length ys)"
    using False by (simp add: Suc_diff_le of_nat_diff)
  then have "unat ((word_of_nat i :: u64) - word_of_nat (length ys) + 1) = Suc i - length ys"
    using assms(1) by (simp only:) (simp add: unsigned_of_nat take_bit_nat_eq_self)
  then show ?thesis using False assms unfolding json_elem_def Let_def by (simp only: is_type_simps json.case json.distinct if_False)
    (simp add: unat_of_length)
qed

lemma json_elem_null: "json_elem limit JNull idx = json_elem limit (JArray []) idx"
  by (simp add: json_elem_def)

lemma part_elements_pad:
  assumes "i < length xs" and s: "s = extent (length xs) S"
  shows "part_elements S xs s @ replicate (Suc i - s) JNull = part_elements S xs (max s (Suc i))"
  using assms(1) extent_beyond [of _ "length xs" S] extent_le [of "length xs" S]
  by (intro nth_equalityI) (auto simp: nth_append s)

lemma part_elements_insert:
  assumes "i < length xs" "i < n"
  shows "(part_elements S xs n)[i := part (insert p (behind (index_key i) S)) (xs ! i)] =
    part_elements (insert (index_key i # p) S) xs n"
  using assms by (intro nth_equalityI) (auto simp: nth_list_update behind_insert)

lemma create_element:
  assumes "i < length xs" "length xs \<le> 2 ^ 31" "2 ^ 31 \<le> unat limit" "S = {} \<Longrightarrow> i = 0"
  shows "create_child limit (part S (JArray xs)) (index_key i) =
    Inr (JArray (part_elements S xs (max (extent (length xs) S) (Suc i))), Elem i)"
proof -
  let ?s = "extent (length xs) S"
  have i: "i < 2 ^ 31" using assms(1,2) by simp
  have s: "length (part_elements S xs ?s) = ?s" "?s \<le> 2 ^ 31" using extent_le [of "length xs" S] assms(2) by simp_all
  have elem: "json_elem limit (JArray (part_elements S xs ?s)) (word_of_nat i) =
      Inr (JArray (part_elements S xs (max ?s (Suc i))))"
    using json_elem_pad [OF i, of "part_elements S xs ?s" limit] s assms(3) part_elements_pad [OF assms(1) refl, of S] by simp
  show ?thesis
  proof (cases "S = {}")
    case True
    then have "i = 0" by (rule assms(4))
    moreover have "index_key 0 = [0x30]" by code_simp
    ultimately show ?thesis using elem True
      by (simp add: create_child_def child_elem_def json_elem_null part_elements_def)
  next
    case False
    then show ?thesis using elem i
      by (simp only: part_array [OF False] create_child_def json.case array_index_key [OF i])
        (simp add: catch_invalid_argument_def child_elem_def unat_of_length)
  qed
qed

lemma assign_element:
  assumes "i < length xs" "length xs \<le> 2 ^ 31" "2 ^ 31 \<le> unat limit" "S = {} \<Longrightarrow> i = 0"
    and "assign limit (part (behind (index_key i) S) (xs ! i)) p v = Inr (part (insert p (behind (index_key i) S)) (xs ! i))"
  shows "assign limit (part S (JArray xs)) (index_key i # p) v = Inr (part (insert (index_key i # p) S) (JArray xs))"
proof -
  let ?n = "max (extent (length xs) S) (Suc i)"
  have "?n \<le> length xs" using extent_le assms(1) by simp
  then have "length (part_elements S xs ?n) = ?n" "part_elements S xs ?n ! i = part (behind (index_key i) S) (xs ! i)"
    by simp_all
  then show ?thesis
    using assms(5) part_elements_insert [OF assms(1), of ?n S p]
    by (simp add: assign_Cons create_element [OF assms(1-4)] load_def deref_def part_array extent_insert [OF assms(1)] del: part.simps)
qed

lemma assign_member:
  assumes "map_ok m" "map_find k m = Some x" "S = {} \<Longrightarrow> k \<noteq> [0x30]"
    and "assign limit (part (behind k S) x) p v = Inr (part (insert p (behind k S)) x)"
  shows "assign limit (part S (JObject m)) (k # p) v = Inr (part (insert (k # p) S) (JObject m))"
proof -
  let ?m = "if S = {} then [] else part_members S m"
  have m: "map_ok ?m" "map_find k' ?m = (if behind k' S = {} then None else map_option (part (behind k' S)) (map_find k' m))" for k'
    using part_members_find [OF assms(1), where S = S] by (auto simp: map_ok_def)
  have "create_child limit (part S (JObject m)) k = Inr (JObject (map_at k ?m), Member k)"
    using assms(3) by (cases "S = {}")
      (simp_all add: create_child_def child_member_def json_index_def part_object Let_def del: part.simps(2))
  moreover have "map_find k (map_at k ?m) = Some (part (behind k S) x)"
    using m assms(2) by (auto simp: map_find_map_at)
  moreover have "map_assign k (part (insert p (behind k S)) x) (map_at k ?m) = part_members (insert (k # p) S) m"
    by (rule map_ok_eqI) (use m part_members_find [OF assms(1)] assms(2) in
      \<open>auto simp: map_ok_map_at map_find_assign map_find_map_at behind_insert\<close>)
  ultimately show ?thesis
    using assms(4) by (simp add: assign_Cons load_def deref_def part_object del: part.simps)
qed

lemma assign_leaf:
  assumes "2 ^ 31 \<le> unat limit"
  shows "flattens j \<Longrightarrow> (p, v) \<in> set (leaves j) \<Longrightarrow>
    assign limit (part (below j p) j) p v = Inr (part (insert p (below j p)) j)"
proof (induction j arbitrary: p v)
  case (JArray xs)
  obtain i q where p: "p = index_key i # q" "i < length xs" "(q, v) \<in> set (leaves (xs ! i))"
    using JArray.prems by (auto simp: leaves_elements_iff)
  have "assign limit (part (below (xs ! i) q) (xs ! i)) q v = Inr (part (insert q (below (xs ! i) q)) (xs ! i))"
    using JArray.IH [of "xs ! i" q v] JArray.prems(1) p by simp
  moreover have "length xs \<le> 2 ^ 31" using JArray.prems(1) by simp
  ultimately show ?case
    using assign_element [OF p(2) _ assms first_is_zero [OF JArray.prems(1) p(2), of q]] p(2)
    by (simp add: p(1) behind_below_array del: part.simps)
next
  case (JObject m)
  obtain k x q where p: "p = k # q" "(k, x) \<in> set m" "(q, v) \<in> set (leaves x)"
    using JObject.prems by (auto simp: leaves_members_iff)
  have m: "map_ok m" "k \<noteq> [0x30]" "flattens x" using JObject.prems(1) p(2) by auto
  have x: "map_find k m = Some x" using map_ok_find [OF m(1) p(2)] .
  have "assign limit (part (below x q) x) q v = Inr (part (insert q (below x q)) x)"
    using JObject.IH [of "(k, x)" x q v] p m by simp
  then show ?case
    using assign_member [OF m(1) x, of "below (JObject m) p" limit q v] m(2) behind_below_object [OF m(1) x, of q]
    by (simp add: p(1) del: part.simps)
qed (simp_all add: below_def assign_Nil)

lemma behind_all_array: "xs \<noteq> [] \<Longrightarrow> i < length xs \<Longrightarrow> behind (index_key i) (fst ` set (leaves (JArray xs))) = fst ` set (leaves (xs ! i))"
  by (auto simp: behind_def in_leaves_array simp del: leaves.simps)

lemma behind_all_object:
  assumes "map_ok m" "(k, x) \<in> set m"
  shows "behind k (fst ` set (leaves (JObject m))) = fst ` set (leaves x)"
proof -
  have "(k, y) \<in> set m \<longleftrightarrow> y = x" for y using map_ok_find [OF assms(1)] assms(2) by (metis option.inject)
  moreover have "m \<noteq> []" using assms(2) by auto
  ultimately show ?thesis by (auto simp: behind_def in_leaves_object simp del: leaves.simps)
qed

lemma part_all: "flattens j \<Longrightarrow> part (fst ` set (leaves j)) j = j"
proof (induction j)
  case (JArray xs)
  let ?S = "fst ` set (leaves (JArray xs))"
  have xs: "xs \<noteq> []" using JArray.prems by simp
  have each: "behind (index_key i) ?S = fst ` set (leaves (xs ! i))" "leaves (xs ! i) \<noteq> []" if "i < length xs" for i
    using behind_all_array [OF xs that] leaves_nonempty [of "xs ! i"] JArray.prems that by simp_all
  have "extent (length xs) ?S = length xs"
  proof (rule antisym [OF extent_le])
    have "behind (index_key (length xs - 1)) ?S \<noteq> {}" using each [of "length xs - 1"] xs by simp
    then show "length xs \<le> extent (length xs) ?S"
      using extent_beyond [of "length xs - 1" "length xs" ?S] xs by (cases "length xs") force+
  qed
  moreover have "?S \<noteq> {}" using leaves_nonempty [OF JArray.prems] by simp
  moreover have "part_elements ?S xs (length xs) = xs"
    using JArray.IH JArray.prems each by (intro nth_equalityI) (simp_all del: leaves.simps)
  ultimately show ?case by (simp add: part_array del: part.simps leaves.simps)
next
  case (JObject m)
  let ?S = "fst ` set (leaves (JObject m))"
  have m: "map_ok m" using JObject.prems by simp
  have each: "behind k ?S \<noteq> {}" "part (behind k ?S) x = x" if "(k, x) \<in> set m" for k x
    using behind_all_object [OF m that] leaves_nonempty [of x] JObject.IH [of "(k, x)" x] JObject.prems that by auto
  have "filter (\<lambda>(k, x). behind k ?S \<noteq> {}) m = m" using each(1) by (intro filter_True) auto
  moreover have "map (\<lambda>(k, x). (k, part (behind k ?S) x)) m = m" using each(2) by (intro map_idI) auto
  ultimately have "part_members ?S m = m" unfolding part_members_def by simp
  moreover have "?S \<noteq> {}" using leaves_nonempty [OF JObject.prems] by simp
  ultimately show ?case by (simp add: part_object del: part.simps leaves.simps)
qed simp_all

section \<open>All leaves\<close>

text \<open>The members of the flattened object are the leaves, in order.\<close>

lemma flattened:
  assumes "flattens j"
  obtains m where "json_flatten j = JObject m" "map_ok m" "set m = (\<lambda>(p, v). (pointer_to_string p, v)) ` set (leaves j)"
proof -
  let ?ps = "texts [] (leaves j)"
  have "map fst ?ps = map pointer_to_string (map fst (leaves j))" by (simp add: texts_def case_prod_unfold comp_def)
  then have d: "distinct (map fst ?ps)" using leaves_distinct(1) [OF assms] by (simp add: distinct_map inj_on_def)
  have m: "map_ok (puts [] ?ps)" "map_find k (puts [] ?ps) = map_find k ?ps" for k
    using map_find_puts(1) [of "[]" ?ps] map_find_puts(2) [of "[]" ?ps k] d by (auto simp: map_ok_def split: option.splits)
  have find: "map_find k n = Some v \<longleftrightarrow> (k, v) \<in> set n" if "distinct (map fst n)" for k v and n :: "(byte list \<times> json) list"
    using that by (induction n) force+
  have "distinct (map fst (puts [] ?ps))" using m(1) by (simp add: map_ok_def strict_sorted_iff)
  then have "set (puts [] ?ps) = set ?ps" using find m(2) d by (metis (no_types, lifting) subsetI subset_antisym surj_pair)
  then show ?thesis using that [of "puts [] ?ps"] m(1)
    by (simp add: json_flatten_def flatten_leaves texts_def)
qed

lemma leaf_text:
  assumes "set m = (\<lambda>(p, v). (pointer_to_string p, v)) ` set ls" "p \<in> fst ` set ls"
  shows "pointer_to_string p \<in> fst ` set m"
proof -
  obtain v where "(p, v) \<in> set ls" using assms(2) by (auto simp: fst_image)
  then have "(pointer_to_string p, v) \<in> set m" unfolding assms(1) by (rule image_eqI [rotated]) simp
  then show ?thesis by (auto simp: fst_image)
qed

lemma unflatten_rest:
  assumes "flattens j" "2 ^ 31 \<le> unat limit" "map_ok (before @ rest)"
    "set (before @ rest) = (\<lambda>(p, v). (pointer_to_string p, v)) ` set (leaves j)"
  shows "unflatten_members limit rest (part {p \<in> fst ` set (leaves j). pointer_to_string p \<in> fst ` set before} j) = Inr j"
  using assms(3,4)
proof (induction rest arbitrary: before)
  case Nil
  have "pointer_to_string p \<in> fst ` set before" if "p \<in> fst ` set (leaves j)" for p
    using leaf_text [OF Nil.prems(2) that] by simp
  then have "{p \<in> fst ` set (leaves j). pointer_to_string p \<in> fst ` set before} = fst ` set (leaves j)" by blast
  then show ?case using part_all [OF assms(1)] by simp
next
  case (Cons e rest)
  have "e \<in> (\<lambda>(p, v). (pointer_to_string p, v)) ` set (leaves j)" unfolding Cons.prems(2) [symmetric] by simp
  then obtain p v where e: "e = (pointer_to_string p, v)" "(p, v) \<in> set (leaves j)" by auto
  let ?S = "{p \<in> fst ` set (leaves j). pointer_to_string p \<in> fst ` set before}"
  let ?T = "{p \<in> fst ` set (leaves j). pointer_to_string p \<in> fst ` set (before @ [e])}"
  have sorted: "\<forall>k \<in> fst ` set before. k < pointer_to_string p" "\<forall>k \<in> fst ` set rest. pointer_to_string p < k"
    using Cons.prems(1) by (auto simp: map_ok_def e sorted_wrt_append)
  have "pointer_to_string q \<in> fst ` set before \<longleftrightarrow> pointer_to_string q < pointer_to_string p"
    if "q \<in> fst ` set (leaves j)" for q
  proof
    assume less: "pointer_to_string q < pointer_to_string p"
    have "pointer_to_string q \<in> fst ` set before \<or> pointer_to_string q \<in> fst ` set rest \<or> q = p"
      using leaf_text [OF Cons.prems(2) that] e(1) by auto
    then show "pointer_to_string q \<in> fst ` set before"
      using bspec [OF sorted(2), of "pointer_to_string q"] less by (metis order_less_asym order_less_irrefl)
  qed (rule bspec [OF sorted(1)])
  then have "?S = below j p" unfolding below_def by blast
  moreover have "?T = insert p ?S"
    using e by (auto simp: fst_image)
  ultimately have "assign limit (part ?S j) p v = Inr (part ?T j)"
    using assign_leaf [OF assms(2,1) e(2)] by simp
  moreover have "is_primitive v" using leaves_primitive(1) [OF assms(1) e(2)] .
  moreover have "unflatten_members limit rest (part ?T j) = Inr j"
    using Cons.IH [of "before @ [e]"] Cons.prems by simp
  moreover have "unflatten_members limit (e # rest) r =
      (if \<not> is_primitive v then json_throw (type_error_create 315 ''values in object must be primitive'')
       else bind_res (assign limit r p v) (unflatten_members limit rest))" for r
    by (simp add: e(1) split_pointer assign_def bind_res_assoc case_prod_unfold)
  ultimately show ?case by simp
qed

text \<open>
  C19. Flattening loses nothing: \<open>unflatten\<close> of the object that \<open>flatten\<close> gives is the value again, for values
  without empty containers, whose members do not have the key 0, and whose arrays are no longer than
  \<open>std::stoi\<close> reads indices of. Elements may come out of order (\<open>/10\<close> is before \<open>/2\<close>).
\<close>

theorem flatten_unflatten:
  assumes "flattens j" "2 ^ 31 \<le> unat limit"
  shows "json_unflatten limit (json_flatten j) = Inr j"
proof -
  obtain m where m: "json_flatten j = JObject m" "map_ok m" "set m = (\<lambda>(p, v). (pointer_to_string p, v)) ` set (leaves j)"
    using flattened [OF assms(1)] .
  show ?thesis using unflatten_rest [OF assms, of "[]" m] m by (simp add: json_unflatten_def)
qed

lemma flatten_unflatten_witness:
  "json_unflatten 0x100000000 (json_flatten (JObject [([0x2F], JArray [JNull, JBoolean True]), ([0x61], JString [0x7E])])) =
     Inr (JObject [([0x2F], JArray [JNull, JBoolean True]), ([0x61], JString [0x7E])])"
  by (rule flatten_unflatten) (simp_all add: map_ok_def)

end
