(* ===== verification/Json_Patch_Properties.thy ===== *)
theory Json_Patch_Properties
  imports Json_Diff_Rules
begin

text \<open>
  Properties of pointers, patches and merge patches, with their witnesses.
\<close>

section \<open>Merging, member by member\<close>

text \<open>What a patch says of one member, as in RFC 7396.\<close>

definition merged_member :: "json option \<Rightarrow> json option \<Rightarrow> json option" where
  "merged_member old change =
     (case change of
        None \<Rightarrow> old
      | Some v \<Rightarrow> if v = JNull then None else Some (merge_patch (case old of Some u \<Rightarrow> u | None \<Rightarrow> JNull) v))"

lemma merge_members_find:
  "map_ok p \<Longrightarrow> map_ok m \<Longrightarrow> map_ok (merge_members m p) \<and>
     map_find k (merge_members m p) = merged_member (map_find k m) (map_find k p)"
proof (induction p arbitrary: m)
  case Nil
  then show ?case by (simp add: merged_member_def)
next
  case (Cons kv p)
  obtain k' v where kv: "kv = (k', v)" by (cases kv)
  have p: "map_ok p" "map_find k' p = None" using Cons.prems(1) kv by (auto simp: map_ok_def map_find_None)
  show ?case
  proof (cases "v = JNull")
    case True
    then show ?thesis using Cons.IH [OF p(1), of "map_erase k' m"] Cons.prems(2) p(2) kv
      by (auto simp: map_ok_erase map_find_erase merged_member_def)
  next
    case False
    then show ?thesis using Cons.IH [OF p(1), of "map_put k' (merge_patch (case map_find k' m of Some u \<Rightarrow> u | None \<Rightarrow> JNull) v) m"]
        Cons.prems(2) p(2) kv
      by (auto simp: map_ok_put map_find_put merged_member_def)
  qed
qed

definition members :: "json \<Rightarrow> (byte list \<times> json) list" where
  "members j = (case j of JObject m \<Rightarrow> m | _ \<Rightarrow> [])"

lemma merge_patch_object: "merge_patch j (JObject p) = JObject (merge_members (members j) p)"
  by (simp add: merge_patch.simps members_def)

lemma members_ok: "json_ok j \<Longrightarrow> map_ok (members j)"
  by (cases j) (simp_all add: members_def map_ok_def)

lemma merge_twice:
  "json_ok p \<Longrightarrow> json_ok j \<Longrightarrow> merge_patch (merge_patch j p) p = merge_patch j p \<and> json_ok (merge_patch j p)"
proof (induction p arbitrary: j)
  case (JObject p)
  let ?m = "merge_members (members j) p" and ?old = "\<lambda>k. case map_find k (members j) of Some u \<Rightarrow> u | None \<Rightarrow> JNull"
  have ok: "map_ok p" "map_ok (members j)" using JObject.prems members_ok by auto
  have m: "map_ok ?m" "map_find k ?m = merged_member (map_find k (members j)) (map_find k p)" for k
    using merge_members_find [OF ok] by auto
  have mm: "map_ok (merge_members ?m p)" "map_find k (merge_members ?m p) = merged_member (map_find k ?m) (map_find k p)" for k
    using merge_members_find [OF ok(1) m(1)] by auto
  have member_ok: "json_ok u" if "map_find k (members j) = Some u" for k u
    using map_find_in [OF that] JObject.prems(2) by (cases j) (force simp: members_def)+
  then have old: "json_ok (?old k)" for k by (auto split: option.splits)
  have each: "merge_patch (merge_patch (?old k) v) v = merge_patch (?old k) v \<and> json_ok (merge_patch (?old k) v)"
    if "map_find k p = Some v" for k v
    using JObject.IH [of "(k, v)" v "?old k"] map_find_in [OF that] JObject.prems(1) old by force
  have "merge_members ?m p = ?m"
    by (rule map_ok_eqI [OF mm(1) m(1)]) (use each in \<open>auto simp: m(2) mm(2) merged_member_def split: option.splits\<close>)
  moreover have "json_ok u" if "(k, u) \<in> set ?m" for k u
    using map_ok_find [OF m(1) that] each [of k] member_ok [of k]
    by (cases "map_find k p") (auto simp: m(2) merged_member_def split: if_splits)
  ultimately show ?case using m(1) by (auto simp: merge_patch_object members_def)
qed (simp_all add: merge_patch.simps)

section \<open>Properties\<close>

text \<open>
  C17. The invariant documented at \<open>diff\<close>: the patch that \<open>diff\<close> creates, applied to the source,
  raises no exception and gives a value that \<open>operator==\<close> finds equal to the target. The maps are
  in order, no array has more elements than \<open>std::stoi\<close> reads indices of, and the target is
  equal to itself (it has no NaN in it).
\<close>

theorem patch_diff:
  assumes "patchable source1" "patchable target1" "self_equal target1"
  shows "\<exists>r. patch limit source1 (json_diff source1 target1) = Inr r \<and> json_eq r target1"
  using diff_all(1) [of limit source1 target1 "[]", unfolded diff_good_def, THEN spec, of "[]"] assms
  by (simp add: leads_def patch_def json_diff_def spots_text_def pointer_to_string_def)

lemma patch_diff_witness:
  "\<exists>r. patch 100 (JObject [([0x61], JArray [JNull, JBoolean True]), ([0x7E], JNull)])
      (json_diff (JObject [([0x61], JArray [JNull, JBoolean True]), ([0x7E], JNull)])
        (JObject [([0x2F], JString []), ([0x61], JArray [JInteger 1])])) = Inr r \<and>
    json_eq r (JObject [([0x2F], JString []), ([0x61], JArray [JInteger 1])])"
  by (rule patch_diff) (simp_all add: map_ok_def)

text \<open>
  C18. The invariant documented at \<open>to_string\<close>: the text of a pointer is parsed to the same
  tokens, whatever bytes they hold.
\<close>

theorem pointer_roundtrip: "json_pointer (pointer_to_string tokens) = Inr tokens"
  by (rule split_pointer)

text \<open>
  C21. \<open>merge_patch\<close> with an object follows RFC 7396 member by member: a member that the patch
  does not name stays, one that it sets to null is removed, and any other becomes the old
  member (null if there is none) merged with the patch's. The result is an object in order.
\<close>

theorem merge_patch_members:
  assumes "json_ok j" "map_ok p"
  shows "\<exists>m. merge_patch j (JObject p) = JObject m \<and> map_ok m \<and>
    (\<forall>k. map_find k m = merged_member (map_find k (members j)) (map_find k p))"
  using merge_members_find [OF assms(2) members_ok [OF assms(1)]] by (simp add: merge_patch_object)

lemma merge_patch_members_witness:
  "\<exists>m. merge_patch (JArray [JNull]) (JObject [([0x61], JObject [([0x62], JNull)])]) = JObject m \<and> map_ok m \<and>
    (\<forall>k. map_find k m = merged_member (map_find k (members (JArray [JNull])))
      (map_find k [([0x61], JObject [([0x62], JNull)])]))"
  by (rule merge_patch_members) (simp_all add: map_ok_def)

text \<open>
  Merging with the same patch once more changes nothing.\<close>

theorem merge_patch_idempotent:
  assumes "json_ok p" "json_ok j"
  shows "merge_patch (merge_patch j p) p = merge_patch j p"
  using merge_twice [OF assms] by simp

lemma merge_patch_idempotent_witness:
  "merge_patch (merge_patch (JObject [([0x61], JNull)]) (JObject [([0x62], JObject [])])) (JObject [([0x62], JObject [])]) =
     merge_patch (JObject [([0x61], JNull)]) (JObject [([0x62], JObject [])])"
  by (rule merge_patch_idempotent) (simp_all add: map_ok_def)

section \<open>What the documentation does not say\<close>

text \<open>
  Without the assumptions on the values: a patch of NaN ends with a value that is not equal
  to the target. A patch that adds a member under a primitive root stops at an assertion, and
  one that removes it does nothing. An index that is not a number raises
  \<open>std::invalid_argument\<close> and not \<open>parse_error.109\<close>.
\<close>

definition patch_of :: "string \<Rightarrow> string \<Rightarrow> json" where
  "patch_of op path1 = JArray [JObject
     [(bytes_of ''op'', JString (bytes_of op)), (bytes_of ''path'', JString (bytes_of path1)), (bytes_of ''value'', JNull)]]"

lemma diff_nan: "json_diff JNull (JFloat 0x7FF8000000000000) = JArray [replace_value [] (JFloat 0x7FF8000000000000)]"
  "\<not> json_eq (JFloat 0x7FF8000000000000) (JFloat 0x7FF8000000000000)"
  by code_simp+

lemma add_under_primitive: "patch 100 (JBoolean True) (patch_of ''add'' ''/a'') = Inl (AssertFailed ''false'')"
  by code_simp

lemma remove_under_primitive: "patch 100 (JBoolean True) (patch_of ''remove'' ''/a'') = Inr (JBoolean True)"
  by code_simp

lemma index_not_a_number: "patch 100 (JArray []) (patch_of ''remove'' ''/a'') = Inl (Uncaught ''std::invalid_argument'')"
  by code_simp

lemma index_wraps_empty: "json_elem 100 (JArray []) 0xFFFFFFFFFFFFFFFF = Inl (Undefined ''vector::operator[]'')"
  by (simp add: json_elem_def)

lemma flatten_key_zero:
  "json_flatten (JObject [([0x30], JNull)]) = JObject [([0x2F, 0x30], JNull)]"
  "json_unflatten 100 (JObject [([0x2F, 0x30], JNull)]) = Inr (JArray [JNull])"
proof -
  show "json_flatten (JObject [([0x30], JNull)]) = JObject [([0x2F, 0x30], JNull)]" by code_simp
  have "json_pointer [0x2F, 0x30] = Inr [[0x30]]" by code_simp
  then show "json_unflatten 100 (JObject [([0x2F, 0x30], JNull)]) = Inr (JArray [JNull])"
    by (simp add: json_unflatten_def create_child_def child_elem_def json_elem_def into_child_def load_def deref_def is_primitive_def)
qed

end
