(* ===== verification/Json_Callback.thy ===== *)
theory Json_Callback
  imports Json_Parser Json_Container
begin

text \<open>
  Parsing with a callback: \<open>json_sax_dom_callback_parser\<close> of
  \<open>src/nlohmann/detail/input/json_sax.hpp\<close> and the use of it in \<open>parse\<close> of
  \<open>src/nlohmann/detail/input/parser.hpp\<close>.
\<close>

section \<open>Callbacks\<close>

datatype parse_event_t = object_start | object_end | array_start | array_end | key_event | value_event

text \<open>
  A callback may change the value it is shown and a state of its own, and may throw.
\<close>

type_synonym 'c parser_callback_t = "int \<Rightarrow> parse_event_t \<Rightarrow> json \<Rightarrow> 'c \<Rightarrow> (bool \<times> json \<times> 'c) res"

text \<open>The back of every stack is the head of its list; \<open>None\<close> is the null pointer.\<close>

record 'c dom_callback =
  cb_root :: json
  cb_ref_stack :: "ref option list"
  keep_stack :: "bool list"
  key_keep_stack :: "bool list"
  cb_object_element :: "ref option"
  cb_errored :: bool
  cb_allow_exceptions :: bool
  cb_container_max_size :: u64
  discarded_value :: json
  cb_state :: 'c

definition json_sax_dom_callback_parser :: "u64 \<Rightarrow> json \<Rightarrow> 'c \<Rightarrow> bool \<Rightarrow> 'c dom_callback" where
  "json_sax_dom_callback_parser limit r c allow =
     \<lparr>cb_root = r, cb_ref_stack = [], keep_stack = [True], key_keep_stack = [], cb_object_element = None,
      cb_errored = False, cb_allow_exceptions = allow, cb_container_max_size = limit,
      discarded_value = JDiscarded, cb_state = c\<rparr>"

text \<open>A call with the depth \<open>static_cast<int>(ref_stack.size())\<close>, less one at the end of a container.\<close>

definition call_back ::
  "'c parser_callback_t \<Rightarrow> int \<Rightarrow> parse_event_t \<Rightarrow> json \<Rightarrow> 'c dom_callback \<Rightarrow> (bool \<times> json \<times> 'c dom_callback) res" where
  "call_back cb ending ev shown d =
     bind_res (cb (sint (of_nat (length (cb_ref_stack d)) :: 32 word) - ending) ev shown (cb_state d)) (\<lambda>(keep, shown', c).
     Inr (keep, shown', d\<lparr>cb_state := c\<rparr>))"

section \<open>Values\<close>

definition cb_handle_value ::
  "'c parser_callback_t \<Rightarrow> json \<Rightarrow> bool \<Rightarrow> 'c dom_callback \<Rightarrow> (bool \<times> ref option \<times> 'c dom_callback) res" where
  "cb_handle_value cb v skip_callback d =
     (case keep_stack d of
        [] \<Rightarrow> Inl (AssertFailed ''not keep_stack.empty()'')
      | False # _ \<Rightarrow> Inr (False, None, d)
      | True # _ \<Rightarrow>
          bind_res (if skip_callback then Inr (True, v, d) else call_back cb 0 value_event v d) (\<lambda>(keep, v', d1).
          if \<not> keep then Inr (False, None, d1)
          else case cb_ref_stack d1 of
                 [] \<Rightarrow> Inr (True, Some [], d1\<lparr>cb_root := v'\<rparr>)
               | None # _ \<Rightarrow> Inr (False, None, d1)
               | Some r # _ \<Rightarrow>
                   bind_res (load r (cb_root d1)) (\<lambda>back.
                   bind_res (c_assert (is_array back \<or> is_object back) ''is_array() or is_object()'') (\<lambda>_.
                   case back of
                     JArray xs \<Rightarrow> Inr (True, Some (r @ [Elem (length xs)]),
                       d1\<lparr>cb_root := json_update r (\<lambda>_. JArray (xs @ [v'])) (cb_root d1)\<rparr>)
                   | _ \<Rightarrow>
                       (case key_keep_stack d1 of
                          [] \<Rightarrow> Inl (AssertFailed ''not key_keep_stack.empty()'')
                        | False # ks \<Rightarrow> Inr (False, None, d1\<lparr>key_keep_stack := ks\<rparr>)
                        | True # ks \<Rightarrow>
                            (case cb_object_element d1 of
                               None \<Rightarrow> Inl (AssertFailed ''object_element'')
                             | Some e \<Rightarrow> bind_res (load e (cb_root d1)) (\<lambda>_.
                                 Inr (True, Some e, d1\<lparr>key_keep_stack := ks, cb_root := json_update e (\<lambda>_. v') (cb_root d1)\<rparr>))))))))"

definition cb_value :: "'c parser_callback_t \<Rightarrow> json \<Rightarrow> 'c dom_callback \<Rightarrow> (bool \<times> 'c dom_callback) res" where
  "cb_value cb v d = bind_res (cb_handle_value cb v False d) (\<lambda>(_, _, d'). Inr (True, d'))"

section \<open>Containers\<close>

text \<open>\<open>start_object\<close> and \<open>start_array\<close>: the container is handled without a call.\<close>

definition cb_start ::
  "'c parser_callback_t \<Rightarrow> parse_event_t \<Rightarrow> json \<Rightarrow> string \<Rightarrow> u64 \<Rightarrow> 'c dom_callback \<Rightarrow> (bool \<times> 'c dom_callback) res" where
  "cb_start cb ev v what len d =
     bind_res (call_back cb 0 ev (discarded_value d) d) (\<lambda>(keep, shown, d1).
     bind_res (cb_handle_value cb v True (d1\<lparr>discarded_value := shown, keep_stack := keep # keep_stack d1\<rparr>)) (\<lambda>(_, r, d2).
     let d3 = d2\<lparr>cb_ref_stack := r # cb_ref_stack d2\<rparr>
     in if r \<noteq> None \<and> len \<noteq> - 1 \<and> cb_container_max_size d3 < len
        then json_throw (out_of_range_create 408 (''excessive '' @ what @ '' size: '' @ to_string (unat len)))
        else Inr (True, d3)))"

definition cb_key :: "'c parser_callback_t \<Rightarrow> byte list \<Rightarrow> 'c dom_callback \<Rightarrow> (bool \<times> 'c dom_callback) res" where
  "cb_key cb val1 d =
     bind_res (call_back cb 0 key_event (JString val1) d) (\<lambda>(keep, _, d1).
     let d2 = d1\<lparr>key_keep_stack := keep # key_keep_stack d1\<rparr>
     in if \<not> keep then Inr (True, d2)
        else case cb_ref_stack d2 of
               [] \<Rightarrow> Inl (Undefined ''back of an empty vector'')
             | None # _ \<Rightarrow> Inr (True, d2)
             | Some r # _ \<Rightarrow>
                 bind_res (load r (cb_root d2)) (\<lambda>back.
                 case back of
                   JObject m \<Rightarrow> Inr (True, d2\<lparr>cb_root := json_update r (\<lambda>_. JObject (map_put val1 (discarded_value d2) m)) (cb_root d2),
                                            cb_object_element := Some (r @ [Member val1])\<rparr>)
                 | _ \<Rightarrow> Inl (Undefined ''m_value.object of a value that is no object'')))"

text \<open>The end of a container: the call, and discarding it; both stacks are popped.\<close>

definition cb_close ::
  "'c parser_callback_t \<Rightarrow> parse_event_t \<Rightarrow> 'c dom_callback \<Rightarrow> (bool \<times> 'c dom_callback) res" where
  "cb_close cb ev d =
     (case cb_ref_stack d of
        [] \<Rightarrow> Inl (Undefined ''back of an empty vector'')
      | back # rs \<Rightarrow>
          bind_res
            (case back of
               None \<Rightarrow> Inr (True, d)
             | Some r \<Rightarrow>
                 bind_res (load r (cb_root d)) (\<lambda>j.
                 bind_res (call_back cb 1 ev j d) (\<lambda>(keep, j', d1).
                 Inr (keep, d1\<lparr>cb_root := json_update r (\<lambda>_. if keep then j' else discarded_value d1) (cb_root d1)\<rparr>)))) (\<lambda>(keep, d2).
          bind_res (c_assert (keep_stack d2 \<noteq> []) ''not keep_stack.empty()'') (\<lambda>_.
          Inr (keep, d2\<lparr>cb_ref_stack := rs, keep_stack := tl (keep_stack d2)\<rparr>))))"

text \<open>The first discarded member of the parent is removed, or the last element.\<close>

fun erase_discarded :: "(byte list \<times> json) list \<Rightarrow> (byte list \<times> json) list" where
  "erase_discarded [] = []"
| "erase_discarded ((k, v) # m) = (if is_discarded v then m else (k, v) # erase_discarded m)"

definition cb_end_object :: "'c parser_callback_t \<Rightarrow> 'c dom_callback \<Rightarrow> (bool \<times> 'c dom_callback) res" where
  "cb_end_object cb d =
     bind_res (cb_close cb object_end d) (\<lambda>(_, d1).
     case cb_ref_stack d1 of
       Some r # _ \<Rightarrow>
         bind_res (load r (cb_root d1)) (\<lambda>back.
         Inr (True, case back of
                      JObject m \<Rightarrow> d1\<lparr>cb_root := json_update r (\<lambda>_. JObject (erase_discarded m)) (cb_root d1)\<rparr>
                    | _ \<Rightarrow> d1))
     | _ \<Rightarrow> Inr (True, d1))"

definition cb_end_array :: "'c parser_callback_t \<Rightarrow> 'c dom_callback \<Rightarrow> (bool \<times> 'c dom_callback) res" where
  "cb_end_array cb d =
     bind_res (cb_close cb array_end d) (\<lambda>(keep, d1).
     if keep \<or> cb_ref_stack d1 = [] then Inr (True, d1)
     else bind_res (deref ''ref_stack.back()'' (hd (cb_ref_stack d1))) (\<lambda>r.
          bind_res (load r (cb_root d1)) (\<lambda>back.
          case back of
            JArray xs \<Rightarrow>
              if xs = [] then Inl (Undefined ''pop_back of an empty vector'')
              else Inr (True, d1\<lparr>cb_root := json_update r (\<lambda>_. JArray (butlast xs)) (cb_root d1)\<rparr>)
          | _ \<Rightarrow> Inr (True, d1))))"

definition cb_parse_error :: "nat \<Rightarrow> string \<Rightarrow> json_exception \<Rightarrow> 'c dom_callback \<Rightarrow> (bool \<times> 'c dom_callback) res" where
  "cb_parse_error position1 last_read ex d =
     (let d1 = d\<lparr>cb_errored := True\<rparr>
      in if cb_allow_exceptions d1 then
           (if ex_id ex div 100 mod 100 \<in> {1, 2, 3, 4, 5} then json_throw ex else Inl (AssertFailed ''false''))
         else Inr (False, d1))"

definition callback_sax :: "'c parser_callback_t \<Rightarrow> 'c dom_callback sax" where
  "callback_sax cb =
     \<lparr>sax_null = cb_value cb JNull, sax_boolean = (\<lambda>b. cb_value cb (JBoolean b)),
      sax_number_integer = (\<lambda>n. cb_value cb (JInteger n)),
      sax_number_unsigned = (\<lambda>n. cb_value cb (JUnsigned n)),
      sax_number_float = (\<lambda>x s. cb_value cb (JFloat x)), sax_string = (\<lambda>s. cb_value cb (JString s)),
      sax_start_object = cb_start cb object_start (json_of_type object_t) ''object'', sax_key = cb_key cb,
      sax_end_object = cb_end_object cb,
      sax_start_array = cb_start cb array_start (json_of_type array_t) ''array'', sax_end_array = cb_end_array cb,
      sax_parse_error = cb_parse_error\<rparr>"

section \<open>Parsing\<close>

definition parse_callback ::
  "u64 \<Rightarrow> 'c parser_callback_t \<Rightarrow> 'c \<Rightarrow> bool \<Rightarrow> bool \<Rightarrow> parser \<Rightarrow> json \<Rightarrow> json res" where
  "parse_callback limit cb c allow strict p result =
     bind_res (sax_parse_internal (callback_sax cb) p (json_sax_dom_callback_parser limit result c allow)) (\<lambda>(b, p1, sdp).
     bind_res (if strict
               then bind_res (get_token p1) (\<lambda>(t, p2).
                 if t \<noteq> end_of_input
                 then bind_res (sax_parse_error (callback_sax cb) (chars_read_total (get_position p2))
                        (get_token_string (m_lexer p2)) (syntax_error p2 end_of_input ''value'') sdp)
                      (\<lambda>(_, sdp'). Inr sdp')
                 else Inr sdp)
               else Inr sdp) (\<lambda>sdp1.
     if cb_errored sdp1 then Inr JDiscarded
     else if is_discarded (cb_root sdp1) then Inr JNull else Inr (cb_root sdp1)))"

text \<open>\<open>basic_json::parse\<close> with a callback, on the bytes \<open>input\<close>.\<close>

definition json_parse_callback ::
  "u64 \<Rightarrow> byte \<Rightarrow> byte list \<Rightarrow> 'c parser_callback_t \<Rightarrow> 'c \<Rightarrow> bool \<Rightarrow> json res" where
  "json_parse_callback limit dp input cb c allow =
     bind_res (new_parser dp input) (\<lambda>p. parse_callback limit cb c allow True p JNull)"

end
