(* ===== verification/Json_Sax_Simulation.thy ===== *)
theory Json_Sax_Simulation
  imports Json_Parser
begin

text \<open>
  Two consumers of the parser's events that answer alike: what each call promises, stated as a
  locale along the protocol in which \<open>sax_parse_internal\<close> makes the calls, gives that the parser does
  the same with both.
\<close>

section \<open>Answers that agree\<close>

text \<open>
  The same exception or the same answer; behind a positive answer the states are related by \<open>R\<close>,
  behind a negative one by \<open>failed\<close>.
\<close>

fun agrees :: "('h \<Rightarrow> 'k \<Rightarrow> bool) \<Rightarrow> ('h \<Rightarrow> 'k \<Rightarrow> bool) \<Rightarrow> (bool \<times> 'h) res \<Rightarrow> (bool \<times> 'k) res \<Rightarrow> bool" where
  "agrees failed R (Inr (b, h)) (Inr (c, k)) \<longleftrightarrow> b = c \<and> (if b then R h k else failed h k)"
| "agrees failed R (Inl e) (Inl f) \<longleftrightarrow> e = f"
| "agrees failed R _ _ \<longleftrightarrow> False"

lemma agrees_cases:
  assumes "agrees failed R a b"
  obtains (yes) h k where "a = Inr (True, h)" "b = Inr (True, k)" "R h k"
  | (no) h k where "a = Inr (False, h)" "b = Inr (False, k)" "failed h k"
  | (abort) e where "a = Inl e" "b = Inl e"
  using assms by (cases "(failed, R, a, b)" rule: agrees.cases) (auto split: if_splits)

abbreviation loop_at :: "parser \<Rightarrow> bool list \<Rightarrow> bool \<Rightarrow> 'h \<Rightarrow> 'h loop" where
  "loop_at p st skip h \<equiv> \<lparr>psr = p, handler = h, states = st, skip_to_state_evaluation = skip\<rparr>"

section \<open>The protocol\<close>

text \<open>
  \<open>expected st\<close>: a value comes next in the open containers \<open>st\<close>; \<open>finished st\<close>: one is complete;
  \<open>in_object st\<close>, \<open>in_array st\<close>: an innermost object or array may be ended, or goes on with a key
  or a value.
\<close>

locale sax_simulation =
  fixes S :: "'h sax" and T :: "'k sax"
    and expected finished in_object in_array :: "bool list \<Rightarrow> 'h \<Rightarrow> 'k \<Rightarrow> bool"
    and failed :: "'h \<Rightarrow> 'k \<Rightarrow> bool"
  assumes null: "expected st h k \<Longrightarrow> agrees failed (finished st) (sax_null S h) (sax_null T k)"
    and boolean: "expected st h k \<Longrightarrow> agrees failed (finished st) (sax_boolean S b h) (sax_boolean T b k)"
    and number_integer: "expected st h k \<Longrightarrow> agrees failed (finished st) (sax_number_integer S i h) (sax_number_integer T i k)"
    and number_unsigned: "expected st h k \<Longrightarrow> agrees failed (finished st) (sax_number_unsigned S n h) (sax_number_unsigned T n k)"
    and number_float: "expected st h k \<Longrightarrow> agrees failed (finished st) (sax_number_float S x s h) (sax_number_float T x s k)"
    and string: "expected st h k \<Longrightarrow> agrees failed (finished st) (sax_string S s h) (sax_string T s k)"
    and start_object: "expected st h k \<Longrightarrow> agrees failed (in_object st) (sax_start_object S (- 1) h) (sax_start_object T (- 1) k)"
    and key: "in_object st h k \<Longrightarrow> agrees failed (expected (False # st)) (sax_key S s h) (sax_key T s k)"
    and end_object: "in_object st h k \<Longrightarrow> agrees failed (finished st) (sax_end_object S h) (sax_end_object T k)"
    and start_array: "expected st h k \<Longrightarrow> agrees failed (in_array st) (sax_start_array S (- 1) h) (sax_start_array T (- 1) k)"
    and end_array: "in_array st h k \<Longrightarrow> agrees failed (finished st) (sax_end_array S h) (sax_end_array T k)"
    and next_element: "in_array st h k \<Longrightarrow> expected (True # st) h k"
    and in_object: "finished (False # st) h k \<Longrightarrow> in_object st h k"
    and in_array: "finished (True # st) h k \<Longrightarrow> in_array st h k"
    and parse_error: "expected st h k \<or> finished st h k \<or> in_object st h k \<or> in_array st h k \<or> failed h k \<Longrightarrow>
      agrees failed (\<lambda>_ _. False) (sax_parse_error S pos last_read ex h) (sax_parse_error T pos last_read ex k)"
begin

fun loops :: "'h loop \<Rightarrow> 'k loop \<Rightarrow> bool" where
  "loops \<lparr>psr = p, handler = h, states = st, skip_to_state_evaluation = skip\<rparr> l \<longleftrightarrow>
     (\<exists>k. l = loop_at p st skip k \<and> (if skip then finished st h k else expected st h k))"

definition ended :: "bool \<Rightarrow> 'h loop \<Rightarrow> 'k loop \<Rightarrow> bool" where
  "ended b l m \<longleftrightarrow> psr l = psr m \<and> (if b then finished [] (handler l) (handler m) else failed (handler l) (handler m))"

fun rounds :: "'h round \<Rightarrow> 'k round \<Rightarrow> bool" where
  "rounds (Inr (Some b, l)) (Inr (Some c, m)) \<longleftrightarrow> b = c \<and> ended b l m"
| "rounds (Inr (None, l)) (Inr (None, m)) \<longleftrightarrow> loops l m"
| "rounds (Inl e) (Inl f) \<longleftrightarrow> e = f"
| "rounds _ _ \<longleftrightarrow> False"

lemma rounds_tell:
  assumes "agrees failed R (f h) (g k)" "\<And>h k. R h k \<Longrightarrow> rounds (c (loop_at p st skip h)) (d (loop_at p st skip k))"
  shows "rounds (tell f (loop_at p st skip h) c) (tell g (loop_at p st skip k) d)"
  using assms(1) by (cases rule: agrees_cases) (simp_all add: tell_def assms(2) ended_def)

lemma rounds_next:
  assumes "\<And>t p'. rounds (c t (loop_at p' st skip h)) (d t (loop_at p' st skip k))"
  shows "rounds (next_token (loop_at p st skip h) c) (next_token (loop_at p st skip k) d)"
  using assms by (cases "get_token p") (auto simp: next_token_def)

lemma rounds_report:
  assumes "expected st' h k \<or> finished st' h k \<or> in_object st' h k \<or> in_array st' h k"
  shows "rounds (report S ex (loop_at p st skip h)) (report T ex (loop_at p st skip k))"
proof -
  have "agrees failed (\<lambda>_ _. False) (sax_parse_error S n s ex h) (sax_parse_error T n s ex k)" for n s
    using parse_error assms by blast
  then show ?thesis
    by (cases rule: agrees_cases [of failed "\<lambda>_ _. False"
        "sax_parse_error S (chars_read_total (get_position p)) (get_token_string (m_lexer p)) ex h"
        "sax_parse_error T (chars_read_total (get_position p)) (get_token_string (m_lexer p)) ex k"])
      (auto simp: report_def ended_def)
qed

lemma rounds_key:
  assumes "in_object st' h k" "\<And>p h k. expected (False # st') h k \<Longrightarrow> rounds (c (loop_at p st skip h)) (d (loop_at p st skip k))"
  shows "rounds (parse_key S (loop_at p st skip h) c) (parse_key T (loop_at p st skip k) d)"
  unfolding parse_key_def loop.select_convs
proof (rule rounds_tell [where R = "expected (False # st')"])
  show "agrees failed (expected (False # st')) (sax_key S (token_buffer (m_lexer p)) h) (sax_key T (token_buffer (m_lexer p)) k)"
    using key [OF assms(1)] .
next
  fix h k
  assume e: "expected (False # st') h k"
  show "rounds
      (next_token (loop_at p st skip h) (\<lambda>t l2. if t \<noteq> name_separator
        then report S (syntax_error (psr l2) name_separator ''object separator'') l2 else c l2))
      (next_token (loop_at p st skip k) (\<lambda>t l2. if t \<noteq> name_separator
        then report T (syntax_error (psr l2) name_separator ''object separator'') l2 else d l2))"
    by (rule rounds_next) (use e assms(2) rounds_report [of "False # st'" h k] in simp)
qed

lemma rounds_evaluate:
  assumes "finished st h k"
  shows "rounds (evaluate_state S (loop_at p st False h)) (evaluate_state T (loop_at p st False k))"
proof (cases st)
  case Nil
  then show ?thesis using assms by (simp add: evaluate_state_def ended_def)
next
  case (Cons a outer)
  show ?thesis
  proof (cases a)
    case True
    then have st: "st = True # outer" using Cons by simp
    then have i: "in_array outer h k" using in_array assms by simp
    have "rounds (tell (sax_end_array S) (loop_at p' st False h) (\<lambda>l2. Inr (None, l2\<lparr>states := outer, skip_to_state_evaluation := True\<rparr>)))
        (tell (sax_end_array T) (loop_at p' st False k) (\<lambda>l2. Inr (None, l2\<lparr>states := outer, skip_to_state_evaluation := True\<rparr>)))" for p'
      by (rule rounds_tell [where R = "finished outer"]) (simp_all add: end_array [OF i])
    moreover have "rounds (next_token (loop_at p' st False h) (\<lambda>_ l2. Inr (None, l2)))
        (next_token (loop_at p' st False k) (\<lambda>_ l2. Inr (None, l2)))" for p'
      by (rule rounds_next) (use next_element [OF i] st in simp)
    moreover have "rounds (report S ex (loop_at p' st False h)) (report T ex (loop_at p' st False k))" for ex p'
      by (rule rounds_report [of outer]) (use i in simp)
    ultimately show ?thesis
      unfolding evaluate_state_def loop.select_convs st list.case bool.case by - (rule rounds_next, simp)
  next
    case False
    then have st: "st = False # outer" using Cons by simp
    then have i: "in_object outer h k" using in_object assms by simp
    have "rounds (tell (sax_end_object S) (loop_at p' st False h) (\<lambda>l2. Inr (None, l2\<lparr>states := outer, skip_to_state_evaluation := True\<rparr>)))
        (tell (sax_end_object T) (loop_at p' st False k) (\<lambda>l2. Inr (None, l2\<lparr>states := outer, skip_to_state_evaluation := True\<rparr>)))" for p'
      by (rule rounds_tell [where R = "finished outer"]) (simp_all add: end_object [OF i])
    moreover have report: "rounds (report S ex (loop_at p' st False h)) (report T ex (loop_at p' st False k))" for ex p'
      by (rule rounds_report [of outer]) (use i in simp)
    moreover have "rounds (parse_key S (loop_at p' st False h) (\<lambda>l3. next_token l3 (\<lambda>_ l4. Inr (None, l4))))
        (parse_key T (loop_at p' st False k) (\<lambda>l3. next_token l3 (\<lambda>_ l4. Inr (None, l4))))" for p'
      by (rule rounds_key [OF i], rule rounds_next) (simp add: st)
    then have "rounds
        (next_token (loop_at p' st False h) (\<lambda>t2 l2. if t2 \<noteq> value_string
          then report S (syntax_error (psr l2) value_string ''object key'') l2
          else parse_key S l2 (\<lambda>l3. next_token l3 (\<lambda>_ l4. Inr (None, l4)))))
        (next_token (loop_at p' st False k) (\<lambda>t2 l2. if t2 \<noteq> value_string
          then report T (syntax_error (psr l2) value_string ''object key'') l2
          else parse_key T l2 (\<lambda>l3. next_token l3 (\<lambda>_ l4. Inr (None, l4)))))" for p'
      by (intro rounds_next) (simp add: report)
    ultimately show ?thesis
      unfolding evaluate_state_def loop.select_convs st list.case bool.case by - (rule rounds_next, simp)
  qed
qed

lemma rounds_value:
  assumes "agrees failed (finished st) (f h) (g k)"
  shows "rounds (tell f (loop_at p st False h) (evaluate_state S)) (tell g (loop_at p st False k) (evaluate_state T))"
  by (rule rounds_tell [where R = "finished st"]) (simp_all add: assms rounds_evaluate)

lemma rounds_object:
  assumes "in_object st h k"
  shows "rounds
    (next_token (loop_at p st False h) (\<lambda>t l2.
       if t = end_object_token then tell (sax_end_object S) l2 (evaluate_state S)
       else if t \<noteq> value_string then report S (syntax_error (psr l2) value_string ''object key'') l2
       else parse_key S l2 (\<lambda>l3. next_token (l3\<lparr>states := False # states l3\<rparr>) (\<lambda>_ l4. Inr (None, l4)))))
    (next_token (loop_at p st False k) (\<lambda>t l2.
       if t = end_object_token then tell (sax_end_object T) l2 (evaluate_state T)
       else if t \<noteq> value_string then report T (syntax_error (psr l2) value_string ''object key'') l2
       else parse_key T l2 (\<lambda>l3. next_token (l3\<lparr>states := False # states l3\<rparr>) (\<lambda>_ l4. Inr (None, l4)))))"
proof (rule rounds_next)
  fix t p'
  have "rounds (report S ex (loop_at p' st False h)) (report T ex (loop_at p' st False k))" for ex
    by (rule rounds_report [of st]) (use assms in simp)
  moreover have "rounds
      (parse_key S (loop_at p' st False h) (\<lambda>l3. next_token (l3\<lparr>states := False # states l3\<rparr>) (\<lambda>_ l4. Inr (None, l4))))
      (parse_key T (loop_at p' st False k) (\<lambda>l3. next_token (l3\<lparr>states := False # states l3\<rparr>) (\<lambda>_ l4. Inr (None, l4))))"
    by (rule rounds_key [OF assms]) (simp, rule rounds_next, simp)
  ultimately show "rounds
      (if t = end_object_token then tell (sax_end_object S) (loop_at p' st False h) (evaluate_state S)
       else if t \<noteq> value_string then report S (syntax_error (psr (loop_at p' st False h)) value_string ''object key'') (loop_at p' st False h)
       else parse_key S (loop_at p' st False h) (\<lambda>l3. next_token (l3\<lparr>states := False # states l3\<rparr>) (\<lambda>_ l4. Inr (None, l4))))
      (if t = end_object_token then tell (sax_end_object T) (loop_at p' st False k) (evaluate_state T)
       else if t \<noteq> value_string then report T (syntax_error (psr (loop_at p' st False k)) value_string ''object key'') (loop_at p' st False k)
       else parse_key T (loop_at p' st False k) (\<lambda>l3. next_token (l3\<lparr>states := False # states l3\<rparr>) (\<lambda>_ l4. Inr (None, l4))))"
    using rounds_value [of st "sax_end_object S" h "sax_end_object T" k p', OF end_object [OF assms]] by simp
qed

lemma rounds_array:
  assumes "in_array st h k"
  shows "rounds
    (next_token (loop_at p st False h) (\<lambda>t l2.
       if t = end_array_token then tell (sax_end_array S) l2 (evaluate_state S)
       else Inr (None, l2\<lparr>states := True # states l2\<rparr>)))
    (next_token (loop_at p st False k) (\<lambda>t l2.
       if t = end_array_token then tell (sax_end_array T) l2 (evaluate_state T)
       else Inr (None, l2\<lparr>states := True # states l2\<rparr>)))"
  by (rule rounds_next)
    (use next_element [OF assms] rounds_value [of st "sax_end_array S" h "sax_end_array T" k, OF end_array [OF assms]] in simp)

lemma rounds_parse_value:
  assumes "expected st h k"
  shows "rounds (parse_value S (loop_at p st False h)) (parse_value T (loop_at p st False k))"
proof -
  have report: "rounds (report S ex (loop_at p st False h)) (report T ex (loop_at p st False k))" for ex
    by (rule rounds_report [of st]) (use assms in simp)
  have object: "rounds (tell (sax_start_object S (- 1)) (loop_at p st False h) c) (tell (sax_start_object T (- 1)) (loop_at p st False k) d)"
    if "\<And>h k. in_object st h k \<Longrightarrow> rounds (c (loop_at p st False h)) (d (loop_at p st False k))" for c d
    by (rule rounds_tell [where R = "in_object st"]) (simp_all add: start_object [OF assms] that)
  have array: "rounds (tell (sax_start_array S (- 1)) (loop_at p st False h) c) (tell (sax_start_array T (- 1)) (loop_at p st False k) d)"
    if "\<And>h k. in_array st h k \<Longrightarrow> rounds (c (loop_at p st False h)) (d (loop_at p st False k))" for c d
    by (rule rounds_tell [where R = "in_array st"]) (simp_all add: start_array [OF assms] that)
  show ?thesis
    unfolding parse_value_def Let_def loop.select_convs
    by (cases "last_token p")
      (simp_all add: report object array rounds_object rounds_array
        rounds_value null [OF assms] boolean [OF assms] number_integer [OF assms] number_unsigned [OF assms]
        number_float [OF assms] string [OF assms])
qed

lemma rounds_parse_round:
  assumes "loops l m"
  shows "rounds (parse_round S l) (parse_round T m)"
proof (cases l)
  case (fields p h st skip)
  then show ?thesis
    using assms rounds_evaluate rounds_parse_value by (auto simp: parse_round_def split: if_splits)
qed

fun results :: "(bool \<times> 'h loop) res \<Rightarrow> (bool \<times> 'k loop) res \<Rightarrow> bool" where
  "results (Inr (b, l)) (Inr (c, m)) \<longleftrightarrow> b = c \<and> ended b l m"
| "results (Inl e) (Inl f) \<longleftrightarrow> e = f"
| "results _ _ \<longleftrightarrow> False"

lemma rounds_loop: "loops l m \<Longrightarrow> results (sax_parse_loop S l) (sax_parse_loop T m)"
proof (induction "loop_measure l" arbitrary: l m rule: less_induct)
  case less
  have "rounds (parse_round S l) (parse_round T m)" using rounds_parse_round [OF less.prems] .
  moreover have "results (sax_parse_loop S l') (sax_parse_loop T m')" if "parse_round S l = Inr (None, l')" "loops l' m'" for l' m'
    using less.hyps [OF parse_round_less [OF that(1)] that(2)] .
  ultimately show ?case
    by (subst (1 2) sax_parse_loop.simps)
      (auto elim!: rounds.elims(2) split: sum.splits option.splits prod.splits)
qed

text \<open>The parser does the same with both consumers.\<close>

lemma parse_alike:
  assumes "expected [] h k"
  shows "(\<exists>e. sax_parse_internal S p h = Inl e \<and> sax_parse_internal T p k = Inl e) \<or>
    (\<exists>b p' h' k'. sax_parse_internal S p h = Inr (b, p', h') \<and> sax_parse_internal T p k = Inr (b, p', k') \<and>
       (if b then finished [] h' k' else failed h' k'))"
proof -
  have "results (sax_parse_loop S (loop_at p [] False h)) (sax_parse_loop T (loop_at p [] False k))"
    using assms by (intro rounds_loop) simp
  then show ?thesis
    unfolding sax_parse_internal_def
    by (cases "sax_parse_loop S (loop_at p [] False h)"; cases "sax_parse_loop T (loop_at p [] False k)")
      (auto simp: ended_def split: if_splits)
qed

end

end
