(* ===== verification/Json_Consumers.thy ===== *)
theory Json_Consumers
  imports Json_Callback Json_Sax_Simulation Json_Properties
begin

text \<open>
  The consumers of the parser compared: the acceptor says what the DOM parser finds, and a callback
  that keeps everything changes nothing.
\<close>

section \<open>The DOM parser along the protocol\<close>

text \<open>Contexts whose maps are in order and hold no discarded value.\<close>

fun frame_good :: "frame \<Rightarrow> bool" where
  "frame_good (ArrayFrame xs) \<longleftrightarrow> True"
| "frame_good (ObjectFrame m k) \<longleftrightarrow> map_ok m \<and> (\<forall>(k, v) \<in> set m. v \<noteq> JDiscarded)"

definition around :: "bool list \<Rightarrow> frame list \<Rightarrow> bool" where
  "around st fs \<longleftrightarrow> map is_array_frame fs = st \<and> list_all frame_good fs"

lemma around_simps [simp]: "around [] fs \<longleftrightarrow> fs = []"
  "around st (f # fs) \<longleftrightarrow> (\<exists>st'. st = is_array_frame f # st' \<and> around st' fs) \<and> frame_good f"
  "around (a # st) fs \<longleftrightarrow> (\<exists>f fs'. fs = f # fs' \<and> is_array_frame f = a \<and> frame_good f \<and> around st fs')"
  by (auto simp: around_def Cons_eq_map_conv)

lemma frame_array: "is_array_frame f \<longleftrightarrow> (\<exists>xs. f = ArrayFrame xs)"
  by (cases f) simp_all

lemma frame_object: "\<not> is_array_frame f \<longleftrightarrow> (\<exists>m k. f = ObjectFrame m k)"
  by (cases f) simp_all

lemma assign_clean: "\<forall>(k, v) \<in> set m. v \<noteq> JDiscarded \<Longrightarrow> v \<noteq> JDiscarded \<Longrightarrow> \<forall>(k, v) \<in> set (map_assign k' v m). v \<noteq> JDiscarded"
  by (induction k' v m rule: map_assign.induct) auto

lemma at_clean: "\<forall>(k, v) \<in> set m. v \<noteq> JDiscarded \<Longrightarrow> \<forall>(k, v) \<in> set (map_at k' m). v \<noteq> JDiscarded"
  by (induction k' m rule: map_at.induct) auto

section \<open>The acceptor\<close>

definition silent :: "dom \<Rightarrow> bool" where
  "silent d \<longleftrightarrow> \<not> errored d \<and> \<not> allow_exceptions d"

lemma silent_same: "silent d \<Longrightarrow> same_options d d' \<Longrightarrow> silent d'"
  by (simp add: silent_def same_options_def)

definition accept_expected :: "bool list \<Rightarrow> dom \<Rightarrow> unit \<Rightarrow> bool" where
  "accept_expected st d u \<longleftrightarrow> silent d \<and> (\<exists>fs. around st fs \<and> dom_hole fs d)"

definition accept_finished :: "bool list \<Rightarrow> dom \<Rightarrow> unit \<Rightarrow> bool" where
  "accept_finished st d u \<longleftrightarrow> silent d \<and> (\<exists>fs v. around st fs \<and> v \<noteq> JDiscarded \<and> dom_filled fs v d)"

definition accept_in_object :: "bool list \<Rightarrow> dom \<Rightarrow> unit \<Rightarrow> bool" where
  "accept_in_object st d u \<longleftrightarrow> silent d \<and>
     (\<exists>fs m. around st fs \<and> map_ok m \<and> (\<forall>(k, v) \<in> set m. v \<noteq> JDiscarded) \<and> dom_open fs (JObject m) d)"

definition accept_in_array :: "bool list \<Rightarrow> dom \<Rightarrow> unit \<Rightarrow> bool" where
  "accept_in_array st d u \<longleftrightarrow> silent d \<and> (\<exists>fs xs. around st fs \<and> dom_open fs (JArray xs) d)"

definition accept_failed :: "dom \<Rightarrow> unit \<Rightarrow> bool" where
  "accept_failed d u \<longleftrightarrow> errored d \<and> \<not> allow_exceptions d"

lemma accept_value:
  assumes "accept_expected st d u" "v \<noteq> JDiscarded"
  shows "agrees accept_failed (accept_finished st) (dom_value v d) (Inr (True, u))"
proof -
  obtain fs where fs: "around st fs" "dom_hole fs d" "silent d" using assms(1) by (auto simp: accept_expected_def)
  obtain d' where "dom_value v d = Inr (True, d')" "dom_filled fs v d'" "same_options d d'"
    using dom_value_hole [OF fs(2)] by blast
  then show ?thesis using fs assms(2) silent_same by (auto simp: accept_finished_def)
qed

interpretation acceptor: sax_simulation dom_sax acceptor_sax accept_expected accept_finished accept_in_object accept_in_array
  accept_failed
proof unfold_locales
  fix st d u
  assume "accept_expected st d u"
  then obtain fs where fs: "around st fs" "dom_hole fs d" "silent d" by (auto simp: accept_expected_def)
  obtain d' where "dom_start (JObject []) ''object'' (- 1) d = Inr (True, d')" "dom_open fs (JObject []) d'" "same_options d d'"
    using dom_start_hole [OF fs(2)] by blast
  then show "agrees accept_failed (accept_in_object st) (sax_start_object dom_sax (- 1) d) (sax_start_object acceptor_sax (- 1) u)"
    using fs silent_same by (auto simp: dom_sax_def acceptor_sax_def accept_in_object_def map_ok_def intro!: exI [of _ fs] exI [of _ "[] :: (byte list \<times> json) list"])
  obtain d' where "dom_start (JArray []) ''array'' (- 1) d = Inr (True, d')" "dom_open fs (JArray []) d'" "same_options d d'"
    using dom_start_hole [OF fs(2)] by blast
  then show "agrees accept_failed (accept_in_array st) (sax_start_array dom_sax (- 1) d) (sax_start_array acceptor_sax (- 1) u)"
    using fs silent_same by (auto simp: dom_sax_def acceptor_sax_def accept_in_array_def)
next
  fix st d u s
  assume "accept_in_object st d u"
  then obtain fs m where fs: "around st fs" "map_ok m" "\<forall>(k, v) \<in> set m. v \<noteq> JDiscarded" "dom_open fs (JObject m) d" "silent d"
    by (auto simp: accept_in_object_def)
  obtain d' where "dom_key s d = Inr (True, d')" "dom_hole (ObjectFrame (map_at s m) s # fs) d'" "same_options d d'"
    using dom_key_open [OF fs(4,2)] by blast
  then show "agrees accept_failed (accept_expected (False # st)) (sax_key dom_sax s d) (sax_key acceptor_sax s u)"
    using fs silent_same at_clean [OF fs(3), of s]
    by (auto simp: dom_sax_def acceptor_sax_def accept_expected_def map_ok_map_at intro!: exI [of _ "ObjectFrame (map_at s m) s # fs"])
next
  fix st d u
  assume "accept_in_object st d u"
  then obtain fs m where fs: "around st fs" "dom_open fs (JObject m) d" "silent d" by (auto simp: accept_in_object_def)
  obtain d' where "dom_end d = Inr (True, d')" "dom_filled fs (JObject m) d'" "same_options d d'" using dom_end_open [OF fs(2)] by blast
  then show "agrees accept_failed (accept_finished st) (sax_end_object dom_sax d) (sax_end_object acceptor_sax u)"
    using fs silent_same by (auto simp: dom_sax_def acceptor_sax_def accept_finished_def intro!: exI [of _ fs] exI [of _ "JObject m"])
next
  fix st d u
  assume "accept_in_array st d u"
  then obtain fs xs where fs: "around st fs" "dom_open fs (JArray xs) d" "silent d" by (auto simp: accept_in_array_def)
  obtain d' where "dom_end d = Inr (True, d')" "dom_filled fs (JArray xs) d'" "same_options d d'" using dom_end_open [OF fs(2)] by blast
  then show "agrees accept_failed (accept_finished st) (sax_end_array dom_sax d) (sax_end_array acceptor_sax u)"
    using fs silent_same by (auto simp: dom_sax_def acceptor_sax_def accept_finished_def intro!: exI [of _ fs] exI [of _ "JArray xs"])
  show "accept_expected (True # st) d u"
    using fs dom_hole_array [OF fs(2)] by (auto simp: accept_expected_def intro!: exI [of _ "ArrayFrame xs # fs"])
next
  fix st d u
  assume "accept_finished (False # st) d u"
  then show "accept_in_object st d u"
    by (auto simp: accept_finished_def accept_in_object_def frame_object) (metis assign_clean map_ok_assign(2))
next
  fix st d u
  assume "accept_finished (True # st) d u"
  then show "accept_in_array st d u" by (auto simp: accept_finished_def accept_in_array_def frame_array) blast
next
  fix st d u pos last_read ex
  assume "accept_expected st d u \<or> accept_finished st d u \<or> accept_in_object st d u \<or> accept_in_array st d u \<or> accept_failed d u"
  then have "\<not> allow_exceptions d"
    by (auto simp: accept_expected_def accept_finished_def accept_in_object_def accept_in_array_def accept_failed_def silent_def)
  then show "agrees accept_failed (\<lambda>_ _. False) (sax_parse_error dom_sax pos last_read ex d)
      (sax_parse_error acceptor_sax pos last_read ex u)"
    by (simp add: dom_sax_def acceptor_sax_def dom_parse_error_def accept_failed_def)
qed (simp_all add: dom_sax_def acceptor_sax_def accept_value)

lemma acceptor_alike:
  "(\<exists>e. sax_parse_internal dom_sax p (json_sax_dom_parser limit j False) = Inl e \<and> sax_parse_internal acceptor_sax p () = Inl e) \<or>
    (\<exists>b p' d. sax_parse_internal dom_sax p (json_sax_dom_parser limit j False) = Inr (b, p', d) \<and>
       sax_parse_internal acceptor_sax p () = Inr (b, p', ()) \<and> (if b then root d \<noteq> JDiscarded \<and> silent d else errored d))"
proof -
  have start: "accept_expected [] (json_sax_dom_parser limit j False) ()"
    by (simp add: accept_expected_def silent_def json_sax_dom_parser_def)
  have "root d \<noteq> JDiscarded \<and> silent d" if "accept_finished [] d ()" for d
    using that by (auto simp: accept_finished_def)
  moreover have "errored d" if "accept_failed d ()" for d using that by (simp add: accept_failed_def)
  ultimately show ?thesis using acceptor.parse_alike [OF start, of p] by (auto split: if_splits) metis
qed

lemma accept_parse:
  assumes "starts input s0 p"
  shows "accept to_end p = bind_res (parse limit False to_end p j) (\<lambda>v. Inr (v \<noteq> JDiscarded))"
proof -
  from acceptor_alike [of p limit j] sax_parse_internal_outcome [OF assms, of False limit j]
  obtain b p' d where d: "sax_parse_internal dom_sax p (json_sax_dom_parser limit j False) = Inr (b, p', d)"
    "sax_parse_internal acceptor_sax p () = Inr (b, p', ())" "if b then root d \<noteq> JDiscarded \<and> silent d else errored d \<and> \<not> allow_exceptions d"
    "lexing (m_lexer p')"
    by (fastforce split: if_splits)
  obtain t p2 where "get_token p' = Inr (t, p2)"
    using scan_reads [OF d(4)] scans_Inr by (fastforce simp: get_token_def)
  then show ?thesis
    using d(1-3) by (cases b) (auto simp: accept_def sax_parse_def parse_def silent_def dom_parse_error_def acceptor_sax_def)
qed

section \<open>Callbacks that keep everything\<close>

definition keeps :: "'c parser_callback_t \<Rightarrow> bool" where
  "keeps cb \<longleftrightarrow> (\<forall>depth ev j c. \<exists>c'. cb depth ev j c = Inr (True, j, c'))"

lemma keeps_call: "keeps cb \<Longrightarrow> \<exists>c. call_back cb n ev j d = Inr (True, j, d\<lparr>cb_state := c\<rparr>)"
proof -
  assume "keeps cb"
  then obtain c where "cb (sint (of_nat (length (cb_ref_stack d)) :: 32 word) - n) ev j (cb_state d) = Inr (True, j, c)"
    unfolding keeps_def by blast
  then show ?thesis by (auto simp: call_back_def)
qed

text \<open>The members of both consumers agree, but for a member that waits for its value.\<close>

definition mirrors :: "json \<Rightarrow> dom \<Rightarrow> 'c dom_callback \<Rightarrow> bool" where
  "mirrors j d e \<longleftrightarrow> cb_root e = j \<and> cb_ref_stack e = map Some (ref_stack d) \<and>
     discarded_value e = JDiscarded \<and>
     cb_errored e = errored d \<and> cb_allow_exceptions e = allow_exceptions d \<and> cb_container_max_size e = container_max_size d"

fun waiting :: "frame list \<Rightarrow> json" where
  "waiting (ObjectFrame m k # fs) = plug fs (JObject (map_assign k JDiscarded m))"
| "waiting _ = JNull"

fun cb_hole :: "frame list \<Rightarrow> dom \<Rightarrow> 'c dom_callback \<Rightarrow> bool" where
  "cb_hole (ObjectFrame m k # fs) d e \<longleftrightarrow> mirrors (waiting (ObjectFrame m k # fs)) d e \<and> key_keep_stack e = [True] \<and>
     cb_object_element e = object_element d"
| "cb_hole fs d e \<longleftrightarrow> mirrors (root d) d e \<and> key_keep_stack e = []"

lemma mirrors_state [simp]: "mirrors j d (e\<lparr>cb_state := c\<rparr>) = mirrors j d e"
  by (simp add: mirrors_def)

lemma cb_handle_hole:
  assumes "keeps cb" "dom_hole fs d" "cb_hole fs d e" and m: "keep_stack e = True # ks"
  shows "\<exists>e'. cb_handle_value cb v skip e = Inr (True, Some (path fs), e') \<and> mirrors (plug fs v) d e' \<and> key_keep_stack e' = [] \<and>
    keep_stack e' = True # ks"
proof -
  obtain c where c: "(if skip then Inr (True, v, e) else call_back cb 0 value_event v e) = Inr (True, v, e\<lparr>cb_state := c\<rparr>)"
    using that [of "cb_state e"] keeps_call [OF assms(1), of 0 value_event v e] by (cases skip) auto
  show ?thesis
  proof (cases fs)
    case Nil
    then show ?thesis using assms(2,3) c m by (auto simp: cb_handle_value_def mirrors_def)
  next
    case (Cons f outer)
    obtain rs where rs: "ref_paths outer = path outer # rs" using ref_paths_Cons by blast
    show ?thesis
    proof (cases f)
      case (ArrayFrame xs)
      then have d: "frames_ok outer" "root d = plug outer (JArray xs)" "ref_stack d = ref_paths outer"
        using assms(2) Cons by (simp_all add: dom_open_def)
      then show ?thesis
        using Cons ArrayFrame rs assms(3) c m
        by (auto simp: cb_handle_value_def load_def json_at_plug0 json_update_plug0 is_array_def mirrors_def)
    next
      case (ObjectFrame m' k)
      then have d: "frames_ok outer" "root d = plug outer (JObject m')" "ref_stack d = ref_paths outer"
        "map_find k m' \<noteq> None" "object_element d = Some (path outer @ [Member k])"
        using assms(2) Cons by (simp_all add: dom_open_def)
      then show ?thesis
        using Cons ObjectFrame rs assms(3) c m
        by (auto simp: cb_handle_value_def load_def json_at_plug0 json_at_plug json_update_plug is_object_def is_array_def
            mirrors_def map_find_assign)
    qed
  qed
qed

definition kept :: "dom \<Rightarrow> 'c dom_callback \<Rightarrow> bool" where
  "kept d e \<longleftrightarrow> keep_stack e = replicate (Suc (length (ref_stack d))) True"

definition level :: "dom \<Rightarrow> 'c dom_callback \<Rightarrow> bool" where
  "level d e \<longleftrightarrow> mirrors (root d) d e \<and> key_keep_stack e = [] \<and> kept d e"

lemma mirrors_move:
  "mirrors (root d') d e \<Longrightarrow> ref_stack d' = ref_stack d \<Longrightarrow> same_options d d' \<Longrightarrow> mirrors (root d') d' e"
  by (simp add: mirrors_def same_options_def)

definition keep_expected :: "bool list \<Rightarrow> dom \<Rightarrow> 'c dom_callback \<Rightarrow> bool" where
  "keep_expected st d e \<longleftrightarrow> (\<exists>fs. around st fs \<and> dom_hole fs d \<and> cb_hole fs d e \<and> kept d e)"

definition keep_finished :: "bool list \<Rightarrow> dom \<Rightarrow> 'c dom_callback \<Rightarrow> bool" where
  "keep_finished st d e \<longleftrightarrow> level d e \<and> (\<exists>fs v. around st fs \<and> v \<noteq> JDiscarded \<and> dom_filled fs v d)"

definition keep_in_object :: "bool list \<Rightarrow> dom \<Rightarrow> 'c dom_callback \<Rightarrow> bool" where
  "keep_in_object st d e \<longleftrightarrow> level d e \<and>
     (\<exists>fs m. around st fs \<and> map_ok m \<and> (\<forall>(k, v) \<in> set m. v \<noteq> JDiscarded) \<and> dom_open fs (JObject m) d)"

definition keep_in_array :: "bool list \<Rightarrow> dom \<Rightarrow> 'c dom_callback \<Rightarrow> bool" where
  "keep_in_array st d e \<longleftrightarrow> level d e \<and> (\<exists>fs xs. around st fs \<and> dom_open fs (JArray xs) d)"

definition keep_failed :: "dom \<Rightarrow> 'c dom_callback \<Rightarrow> bool" where
  "keep_failed d e \<longleftrightarrow> errored d \<and> cb_errored e \<and> allow_exceptions d = cb_allow_exceptions e"

lemma keep_value:
  assumes "keeps cb" "keep_expected st d e" "v \<noteq> JDiscarded"
  shows "agrees keep_failed (keep_finished st) (dom_value v d) (cb_value cb v e)"
proof -
  obtain fs where fs: "around st fs" "dom_hole fs d" "cb_hole fs d e" "kept d e" using assms(2) by (auto simp: keep_expected_def)
  obtain d' where d: "handle_value v d = Inr (path fs, d')" "frames_ok fs" "root d' = plug fs v" "ref_stack d' = ref_stack d"
    "ref_stack d = (case fs of [] \<Rightarrow> [] | _ # outer \<Rightarrow> ref_paths outer)" "same_options d d'"
    using handle_value_hole [OF fs(2), of v] by blast
  obtain e' where e: "cb_handle_value cb v False e = Inr (True, Some (path fs), e')" "mirrors (plug fs v) d e'" "key_keep_stack e' = []"
    "keep_stack e' = keep_stack e"
    using cb_handle_hole [OF assms(1) fs(2,3), of "replicate (length (ref_stack d)) True" v False] fs(4) by (auto simp: kept_def)
  have "dom_filled fs v d'" using d by (cases fs) (auto simp: dom_open_def)
  moreover have "level d' e'" using mirrors_move [of d' d e'] d e fs(4) by (simp add: level_def kept_def)
  ultimately show ?thesis using fs(1) assms(3) d(1) e(1) by (auto simp: dom_value_def cb_value_def keep_finished_def)
qed

lemma keep_start:
  assumes "keeps cb" "keep_expected st d e"
  shows "\<exists>d' e' fs. dom_start v what (- 1) d = Inr (True, d') \<and> cb_start cb ev v what (- 1) e = Inr (True, e') \<and> level d' e' \<and>
    around st fs \<and> dom_open fs v d'"
proof -
  obtain fs where fs: "around st fs" "dom_hole fs d" "cb_hole fs d e" "kept d e" using assms(2) by (auto simp: keep_expected_def)
  obtain d1 where d: "handle_value v d = Inr (path fs, d1)" "frames_ok fs" "root d1 = plug fs v" "ref_stack d1 = ref_stack d"
    "ref_stack d = (case fs of [] \<Rightarrow> [] | _ # outer \<Rightarrow> ref_paths outer)" "same_options d d1"
    using handle_value_hole [OF fs(2), of v] by blast
  obtain c where c: "call_back cb 0 ev (discarded_value e) e = Inr (True, discarded_value e, e\<lparr>cb_state := c\<rparr>)"
    using keeps_call [OF assms(1)] by blast
  let ?e = "e\<lparr>cb_state := c, discarded_value := discarded_value e, keep_stack := True # keep_stack e\<rparr>"
  have "cb_hole fs d ?e" using fs(3) by (cases "(fs, d, e)" rule: cb_hole.cases) (auto simp: mirrors_def)
  then obtain e1 where e: "cb_handle_value cb v True ?e = Inr (True, Some (path fs), e1)" "mirrors (plug fs v) d e1" "key_keep_stack e1 = []"
    "keep_stack e1 = True # keep_stack e"
    using cb_handle_hole [OF assms(1) fs(2), of ?e "keep_stack e" v True] by auto
  let ?d = "d1\<lparr>ref_stack := path fs # ref_stack d1\<rparr>" and ?f = "e1\<lparr>cb_ref_stack := Some (path fs) # cb_ref_stack e1\<rparr>"
  have "level ?d ?f" using d e fs(4) by (simp add: level_def kept_def mirrors_def same_options_def)
  moreover have "dom_open fs v ?d" using d by (cases fs) (auto simp: dom_open_def)
  ultimately show ?thesis using d(1) e(1) c fs(1) by (auto simp: dom_start_def cb_start_def)
qed

lemma close_open:
  assumes "keeps cb" "dom_open fs v d" "level d e"
  shows "\<exists>d' e'. dom_end d = Inr (True, d') \<and> cb_close cb ev e = Inr (True, e') \<and> level d' e' \<and> dom_filled fs v d' \<and> same_options d d'"
proof -
  obtain d' where d': "dom_end d = Inr (True, d')" "dom_filled fs v d'" "same_options d d'" using dom_end_open [OF assms(2)] by blast
  obtain rs where rs: "ref_stack d = path fs # rs" using assms(2) ref_paths_Cons [of fs] by (auto simp: dom_open_def)
  then have d: "d' = d\<lparr>ref_stack := rs\<rparr>" using d'(1) by (simp add: dom_end_def)
  have at: "json_at (path fs) (root d) = Some v" "json_update (path fs) (\<lambda>_. v) (root d) = root d"
    using assms(2) by (simp_all add: dom_open_def json_at_plug0 json_update_plug0)
  obtain c where c: "call_back cb 1 ev v e = Inr (True, v, e\<lparr>cb_state := c\<rparr>)" using keeps_call [OF assms(1)] by blast
  have "cb_close cb ev e = Inr (True, e\<lparr>cb_state := c, cb_ref_stack := map Some rs, keep_stack := tl (keep_stack e)\<rparr>)"
    using assms(3) rs at c by (simp add: cb_close_def level_def mirrors_def kept_def load_def)
  moreover have "level d' (e\<lparr>cb_state := c, cb_ref_stack := map Some rs, keep_stack := tl (keep_stack e)\<rparr>)"
    using assms(3) rs by (simp add: level_def mirrors_def kept_def d)
  ultimately show ?thesis using d' by blast
qed

lemma erase_clean: "\<forall>(k, v) \<in> set m. v \<noteq> JDiscarded \<Longrightarrow> erase_discarded m = m"
proof (induction m rule: erase_discarded.induct)
  case (2 k v m)
  then have "\<not> is_discarded v" by (cases v) (auto simp: is_discarded_def)
  then show ?case using 2 by auto
qed simp

lemma keep_end_object:
  assumes "keeps cb" "keep_in_object st d e"
  shows "agrees keep_failed (keep_finished st) (dom_end d) (cb_end_object cb e)"
proof -
  obtain fs m where fs: "around st fs" "dom_open fs (JObject m) d" "level d e" using assms(2) by (auto simp: keep_in_object_def)
  obtain d' e' where d: "dom_end d = Inr (True, d')" "cb_close cb object_end e = Inr (True, e')" "level d' e'" "dom_filled fs (JObject m) d'"
    using close_open [OF assms(1) fs(2,3)] by blast
  have "cb_end_object cb e = Inr (True, e')"
  proof (cases fs)
    case Nil
    then show ?thesis using d by (simp add: cb_end_object_def level_def mirrors_def)
  next
    case (Cons f outer)
    obtain rs where rs: "ref_stack d' = path outer # rs" using d(4) Cons ref_paths_Cons [of outer] by (auto simp: dom_open_def)
    have at: "json_at (path outer) (root d') = Some (fill f (JObject m))"
      "json_update (path outer) (\<lambda>_. fill f (JObject m)) (root d') = root d'"
      using d(4) Cons by (simp_all add: dom_open_def json_at_plug0 json_update_plug0)
    show ?thesis
    proof (cases f)
      case (ObjectFrame n k)
      then have "erase_discarded (map_assign k (JObject m) n) = map_assign k (JObject m) n"
        using fs(1) Cons assign_clean [of n "JObject m" k] erase_clean by auto
      then show ?thesis using d rs at ObjectFrame by (simp add: cb_end_object_def level_def mirrors_def load_def)
    qed (use d rs at in \<open>simp add: cb_end_object_def level_def mirrors_def load_def\<close>)
  qed
  then show ?thesis using d fs(1) by (auto simp: keep_finished_def intro!: exI [of _ fs] exI [of _ "JObject m"])
qed

lemma keep_key:
  assumes "keeps cb" "keep_in_object st d e"
  shows "agrees keep_failed (keep_expected (False # st)) (dom_key s d) (cb_key cb s e)"
proof -
  obtain fs m where fs: "around st fs" "map_ok m" "\<forall>(k, v) \<in> set m. v \<noteq> JDiscarded" "dom_open fs (JObject m) d" "level d e"
    using assms(2) by (auto simp: keep_in_object_def)
  obtain rs where rs: "ref_paths fs = path fs # rs" using ref_paths_Cons by blast
  let ?m = "map_at s m" and ?e = "Some (path fs @ [Member s])"
  let ?d = "d\<lparr>root := plug fs (JObject ?m), object_element := ?e\<rparr>"
  have d: "dom_key s d = Inr (True, ?d)"
    using fs(4) rs by (simp add: dom_key_def dom_open_def load_def json_at_plug0 json_update_plug0)
  obtain c where c: "call_back cb 0 key_event (JString s) e = Inr (True, JString s, e\<lparr>cb_state := c\<rparr>)"
    using keeps_call [OF assms(1)] by blast
  let ?f = "e\<lparr>cb_state := c, key_keep_stack := [True], cb_root := waiting (ObjectFrame ?m s # fs), cb_object_element := ?e\<rparr>"
  have "cb_key cb s e = Inr (True, ?f)"
    using fs(4,5) rs c by (simp add: cb_key_def level_def mirrors_def dom_open_def load_def json_at_plug0 json_update_plug0 map_put_def)
  moreover have "map_find s ?m \<noteq> None" using map_find_map_at [OF fs(2), of s s] by simp
  then have "dom_hole (ObjectFrame ?m s # fs) ?d" "cb_hole (ObjectFrame ?m s # fs) ?d ?f"
    using fs(4,5) by (simp_all add: dom_open_def level_def mirrors_def)
  moreover have "kept ?d ?f" using fs(5) by (simp add: level_def kept_def)
  ultimately have "keep_expected (False # st) ?d ?f"
    unfolding keep_expected_def
    using fs(1,2) at_clean [OF fs(3), of s] by (intro exI [of _ "ObjectFrame ?m s # fs"]) (simp add: map_ok_map_at del: dom_hole.simps cb_hole.simps)
  then show ?thesis using d \<open>cb_key cb s e = Inr (True, ?f)\<close> by simp
qed

lemma callback_simulation:
  assumes "keeps cb"
  shows "sax_simulation dom_sax (callback_sax cb) keep_expected keep_finished keep_in_object keep_in_array keep_failed"
proof unfold_locales
  fix st d e
  assume *: "keep_expected st d (e :: 'a dom_callback)"
  obtain d' e' fs where "dom_start (JObject []) ''object'' (- 1) d = Inr (True, d')"
    "cb_start cb object_start (JObject []) ''object'' (- 1) e = Inr (True, e')" "level d' e'" "around st fs" "dom_open fs (JObject []) d'"
    using keep_start [OF assms *] by blast
  then show "agrees keep_failed (keep_in_object st) (sax_start_object dom_sax (- 1) d) (sax_start_object (callback_sax cb) (- 1) e)"
    by (auto simp: callback_sax_def keep_in_object_def map_ok_def intro!: exI [of _ fs] exI [of _ "[] :: (byte list \<times> json) list"])
  obtain d' e' fs where "dom_start (JArray []) ''array'' (- 1) d = Inr (True, d')"
    "cb_start cb array_start (JArray []) ''array'' (- 1) e = Inr (True, e')" "level d' e'" "around st fs" "dom_open fs (JArray []) d'"
    using keep_start [OF assms *] by blast
  then show "agrees keep_failed (keep_in_array st) (sax_start_array dom_sax (- 1) d) (sax_start_array (callback_sax cb) (- 1) e)"
    by (auto simp: callback_sax_def keep_in_array_def)
next
  fix st d e
  assume "keep_in_array st d (e :: 'a dom_callback)"
  then obtain fs xs where fs: "around st fs" "dom_open fs (JArray xs) d" "level d e" by (auto simp: keep_in_array_def)
  obtain d' e' where "dom_end d = Inr (True, d')" "cb_close cb array_end e = Inr (True, e')" "level d' e'" "dom_filled fs (JArray xs) d'"
    using close_open [OF assms fs(2,3)] by blast
  then show "agrees keep_failed (keep_finished st) (sax_end_array dom_sax d) (sax_end_array (callback_sax cb) e)"
    using fs(1) by (auto simp: callback_sax_def cb_end_array_def keep_finished_def intro!: exI [of _ fs] exI [of _ "JArray xs"])
  show "keep_expected (True # st) d e"
    using fs dom_hole_array [OF fs(2)] by (auto simp: keep_expected_def level_def intro!: exI [of _ "ArrayFrame xs # fs"])
next
  fix st d e
  assume "keep_finished (False # st) d (e :: 'a dom_callback)"
  then show "keep_in_object st d e"
    by (auto simp: keep_finished_def keep_in_object_def frame_object) (metis assign_clean map_ok_assign(2))
next
  fix st d e
  assume "keep_finished (True # st) d (e :: 'a dom_callback)"
  then show "keep_in_array st d e" by (auto simp: keep_finished_def keep_in_array_def frame_array) blast
next
  fix st d e pos last_read ex
  assume "keep_expected st d (e :: 'a dom_callback) \<or> keep_finished st d e \<or> keep_in_object st d e \<or> keep_in_array st d e \<or> keep_failed d e"
  then have "allow_exceptions d = cb_allow_exceptions e"
    by (auto simp: keep_expected_def keep_finished_def keep_in_object_def keep_in_array_def keep_failed_def level_def mirrors_def
        elim!: cb_hole.elims)
  then show "agrees keep_failed (\<lambda>_ _. False) (sax_parse_error dom_sax pos last_read ex d)
      (sax_parse_error (callback_sax cb) pos last_read ex e)"
    by (simp add: callback_sax_def dom_parse_error_def cb_parse_error_def keep_failed_def json_throw_def)
qed (simp_all add: callback_sax_def keep_value [OF assms] keep_key [OF assms] keep_end_object [OF assms])

lemma parse_kept:
  fixes cb :: "'c parser_callback_t"
  assumes "keeps cb"
  shows "parse_callback limit cb c allow to_end p j = parse limit allow to_end p j"
proof -
  let ?d = "json_sax_dom_parser limit j allow" and ?e = "json_sax_dom_callback_parser limit j c allow"
  have start: "keep_expected [] ?d ?e"
    by (simp add: keep_expected_def kept_def mirrors_def json_sax_dom_parser_def json_sax_dom_callback_parser_def)
  have finished: "root d = cb_root e \<and> root d \<noteq> JDiscarded \<and> errored d = cb_errored e \<and> allow_exceptions d = cb_allow_exceptions e"
    if "keep_finished [] d e" for d and e :: "'c dom_callback"
    using that by (auto simp: keep_finished_def level_def mirrors_def)
  have disc: "\<not> is_discarded j" if "j \<noteq> JDiscarded" for j using that by (cases j) (auto simp: is_discarded_def)
  from sax_simulation.parse_alike [OF callback_simulation [OF assms] start, of p]
  consider (abort) e where "sax_parse_internal dom_sax p ?d = Inl e" "sax_parse_internal (callback_sax cb) p ?e = Inl e"
    | (result) b p' d e where "sax_parse_internal dom_sax p ?d = Inr (b, p', d)" "sax_parse_internal (callback_sax cb) p ?e = Inr (b, p', e)"
      "if b then keep_finished [] d e else keep_failed d e" by blast
  then show ?thesis
  proof cases
    case result
    have flags: "errored d = cb_errored e" "allow_exceptions d = cb_allow_exceptions e" "\<not> errored d \<Longrightarrow> root d = cb_root e \<and> root d \<noteq> JDiscarded"
      using result(3) finished [of d e] by (cases b; simp add: keep_failed_def)+
    then show ?thesis
      using result(1,2) disc
      by (cases "get_token p'")
        (auto simp: parse_callback_def parse_def callback_sax_def dom_parse_error_def cb_parse_error_def json_throw_def)
  qed (simp add: parse_callback_def parse_def)
qed

section \<open>Properties\<close>

text \<open>
  C31. \<open>accept\<close> always returns, and answers true exactly for the inputs that \<open>parse\<close> delivers a value for: a text of
  RFC 8259, behind an optional byte order mark and before blanks. This is more than RFC 8259 allows in that a
  zero byte ends the input and anything may follow it, and less in that numbers beyond the range of a
  \<open>double\<close>, like 1e999, are refused. The decimal point of the locale is no digit and no exponent letter.
\<close>

theorem accept_decides_json:
  assumes "point_ok dp"
  shows "json_accept dp input = Inr (\<exists>v. json_document True v input)"
proof -
  obtain p s0 where p: "new_parser dp input = Inr p" "starts input s0 p" using new_parser_starts [OF assms] by blast
  have "json_accept dp input = bind_res (json_parse 0 dp input False) (\<lambda>v. Inr (v \<noteq> JDiscarded))"
    using accept_parse [OF p(2), of True 0 JNull] p(1) by (simp add: json_accept_def json_parse_def)
  moreover have "json_parse 0 dp input False = Inr (if \<exists>v. json_document True v input then SOME v. json_document True v input else JDiscarded)"
  proof (cases "\<exists>v. json_document True v input")
    case True
    then have "json_document True (SOME v. json_document True v input) input" by (rule someI_ex)
    from json_parse_document [OF assms this] show ?thesis using True by simp
  next
    case False
    then show ?thesis using json_parse_cases [OF assms, of False 0 input] by auto
  qed
  moreover have "(SOME v. json_document True v input) \<noteq> JDiscarded" if "\<exists>v. json_document True v input"
    using json_document_wf [OF someI_ex [OF that]] by auto
  ultimately show ?thesis by simp
qed

lemma accept_decides_json_witness:
  "json_accept 0x2E [0x5B, 0x5D] = Inr True \<and> (\<exists>v. json_document True v [0x5B, 0x5D])"
proof -
  have "json_accept 0x2E [0x5B, 0x5D] = Inr True" by code_simp
  then show ?thesis using accept_decides_json [of "0x2E" "[0x5B, 0x5D]"] by (simp add: point_ok_def)
qed

text \<open>
  C32. A callback that keeps everything and changes nothing, whatever it does with its own state, makes no
  difference: the parse with it gives the same value, or throws the same exception, as the parse without one.
\<close>

theorem callback_keeps_all:
  assumes "keeps cb"
  shows "json_parse_callback limit dp input cb c allow = json_parse limit dp input allow"
  using parse_kept [OF assms] by (simp add: json_parse_callback_def json_parse_def)

lemma callback_keeps_all_witness:
  "json_parse_callback 10 0x2E [0x5B, 0x5D] (\<lambda>depth ev j n. Inr (True, j, Suc n)) 0 True = json_parse 10 0x2E [0x5B, 0x5D] True"
  by (rule callback_keeps_all) (simp add: keeps_def)

text \<open>
  A member whose value is rejected stays, discarded, and so does an object rejected inside of an array:
  the search behind the end of an object only looks at the members of its parent.
\<close>

lemma rejected_member_stays:
  "json_parse_callback 10 0x2E [0x7B, 0x22, 0x61, 0x22, 0x3A, 0x31, 0x7D] (\<lambda>depth ev j c. Inr (ev \<noteq> value_event, j, c)) () True =
     Inr (JObject [([0x61], JDiscarded)])"
  by code_simp

lemma rejected_object_stays:
  "json_parse_callback 10 0x2E [0x5B, 0x7B, 0x7D, 0x5D] (\<lambda>depth ev j c. Inr (ev \<noteq> object_end, j, c)) () True =
     Inr (JArray [JDiscarded])"
  by code_simp

end
