(* ===== verification/Spec2Isabelle.thy ===== *)
theory Spec2Isabelle
  imports Stock_Equivalence Timed_Detection Scenario_Properties Comp_Helper
    Older_Programs Json_Binary_Properties Json_Order Json_Flatten
    Json_Patch_Properties Json_Consumers
begin

text \<open>
  A verification library for the point-to-point compression link of an ns-3 project: a simulated
  network device that compresses what it sends, a pair of applications that try to detect the
  compression from outside by timing packets, the helpers that install them, and the program that
  puts a network together.

  THE PROGRAM. \<open>src/project1.cc\<close> creates two nodes joined by a compression link and two nodes
  on a CSMA segment. The link's devices (\<open>PointToPointNetDevice\<close>, made by
  \<open>PointToPointHelper::Install\<close>) take packets from the IP layer by \<open>Send\<close>, keep them in a
  drop-tail queue, give one at a time to the channel, and are called back by the simulator at
  the end of each transmission (\<open>TransmitComplete\<close>); the channel calls \<open>Receive\<close> of the other
  end. With compression, \<open>Send\<close> deflates packets of one configured protocol and \<open>Receive\<close>
  inflates them. \<open>UdpAppClient\<close> sends a phase of zero-filled packets, waits, and sends a phase of
  packets of random data; \<open>UdpAppServer\<close> times both and reports compression when the second took
  more than 100 ms longer. The protocol to compress is read from a JSON file with the library in
  \<open>src/nlohmann\<close>.

  CONVENTIONS. Machine integers keep their width (\<open>byte\<close>, \<open>u16\<close>, \<open>u32\<close>, \<open>u64\<close>, \<open>mac48\<close>);
  \<open>int\<close> arithmetic of C++ is checked for overflow where the source computes with it. An operation
  that can end the program returns \<open>'a res\<close>: the error is a failed assertion (only in a build with
  \<open>NS3_ASSERT_ENABLE\<close>), a fatal error, an exception nobody catches, or undefined behaviour
  (\<open>abort\<close> in Prelude). Objects are records passed through the operations; effects on the world
  (trace sources, scheduled events, calls to the channel, the sockets and the layer above) are
  appended to the object's list of events in the order the code causes them. What \<open>new\<close> finds in
  memory, and the memory an object is constructed in, are arguments. Members of different classes
  with one name get a suffix.

  CODE THAT IS NOT IN THE REPOSITORY (\<open>ns3::Packet\<close>, \<open>PppHeader\<close>, \<open>QueueBase\<close>, \<open>DataRate\<close>,
  the channel, sockets, object factories, zlib) is a record of functions given
  to the definitions; \<open>packet_laws\<close>, \<open>queue_base_laws\<close>, \<open>zlib_bounded\<close>, \<open>zlib_lossless\<close>,
  \<open>env_laws\<close>, \<open>app_laws\<close>, \<open>helper_laws\<close> and \<open>main_laws\<close> state the documented behaviour that is relied
  on. \<open>byte_packets\<close>, \<open>marked_codec\<close>, \<open>byte_env\<close>, \<open>client_env\<close>, \<open>byte_helper\<close> and
  \<open>byte_main\<close> are concrete instances that satisfy them.

  THEORIES AND THE CODE THEY MODEL.

  Prelude: words, results, buffers and C strings; the locale \<open>invariant_system\<close> of step relations
  with an invariant, and \<open>trace_refinement\<close> of labelled steps that an abstract machine follows. Platform: the interfaces to packets and zlib.

  Compression: \<open>Compress\<close> and \<open>Decompress\<close> of \<open>src/model/point-to-point-net-device.cc\<close>, with
  their \<open>strlen\<close> on binary data and their size arithmetic; what survives the round trip.

  Drop_Tail_Queue: the templates of \<open>src/ns3/queue.h\<close>, \<open>src/ns3/drop-tail-queue.h\<close> and the
  addition of \<open>src/ns3/queue-size.h\<close>. Its counters have 32 bits; the locale \<open>fifo_service\<close> states
  first-in-first-out order of a service and is interpreted for the transmit queue and for
  \<open>Flush\<close>.

  Device_State, Net_Device: the record of the device's members and all of its operations (\<open>Send\<close>
  with compression, the transmit machine, \<open>Receive\<close> with decompression, protocol numbers,
  attributes, setters and constant answers). Configuration: \<open>DoInitialize\<close>, which parses the
  configuration file with the JSON library and reads the protocol to compress from it.

  Transmit_Machine, Device_Machine: the invariant of the transmit machine, the device's commands as
  a step relation, its reachable states (interpretation \<open>device\<close> of \<open>invariant_system\<close>).
  Device_Safety: an abstract serial line with its bounded queue (\<open>line_react\<close>: what a packet offered, the
  end of a transmission or a change of the settings does to it), the proof that every
  history of the device is one of the line, event by event (interpretation \<open>line\<close> of the locale
  \<open>trace_refinement\<close>), and what follows from it: order, exclusive use, no failed assertion,
  draining, exact counters. Device_Properties: protocol numbers (locale \<open>number_codec\<close>),
  configuration, sizes and losses of compression, receptions. Link: two devices and the channel
  between them.

  Stock_Device, Stock_Equivalence: \<open>src/model/point-to-point-compression-net-device.cc\<close>, the
  alternative device in the repository, and the proof that it behaves like the other one when
  that does not compress.

  Udp_Client, Client_Data, Client_Run: \<open>src/model/udp-app-client.cc\<close>: attributes, data fills, the
  file and the array of random data, and whole runs of \<open>Send\<close>. Udp_Server, Single_Float,
  Server_Timing: \<open>src/model/udp-app-server.cc\<close>, with single precision arithmetic (rounding to
  24 bits of mantissa, to even) for the durations. Detection: client and server together.
  Timed_Line, Timed_Detection: the sending device as a serial line with a rate, its departure times, and that
  packets which compression makes equally large leave in the same rhythm.

  P2P_Helper, Helper_Properties, Comp_Helper: \<open>src/helper/point-to-point-helper.cc\<close> and its copy
  \<open>src/copies/point-to-point-comp-helper.cc\<close>. Udp_Helper: \<open>src/helper/udp-app-helper.cc\<close>.
  Scenario, Scenario_Properties: the set-up in \<open>src/project1.cc\<close>. Older_Programs: the earlier
  programs \<open>src/example1.cc\<close> and those of \<open>src/examples\<close>.

  The JSON library, \<open>src/nlohmann\<close>. Utf8: the decoder table of \<open>serializer.hpp\<close> and an abstract
  codec. Json_Number: \<open>strtoull\<close>, \<open>strtoll\<close>, \<open>strtod\<close> with binary64 rounding. Json_Value:
  \<open>basic_json\<close> as a datatype, its constructors and accessors. Json_Lexer: \<open>lexer.hpp\<close>. Json_Sax,
  Json_Parser: the event interface \<open>json_sax.hpp\<close> with its handlers and \<open>parser.hpp\<close>.
  Json_To_Chars: the decimal formatting of \<open>to_chars.hpp\<close>. Json_Serializer: \<open>serializer.hpp\<close>.
  About the reading: Json_Lexer_Strings, Json_Strings, Json_Numerals and Json_Tokens relate the
  lexer to the texts of strings, numerals and tokens; Json_Dom shows what the handlers build;
  Json_Grammar is a declarative grammar of JSON with its meaning, and Json_Sound and
  Json_Complete show that the parser decides it. About the writing: Json_Decoder (the table
  decides UTF-8), Json_Escaping (strings), Json_Text (numbers) and Json_Roundtrip (what is
  printed is a text of the grammar for the same value, where a number that is not negative becomes unsigned); Json_Properties puts the two together.
  Json_Callback is the consumer that asks a callback what to keep; the locale \<open>sax_simulation\<close> of
  Json_Sax_Simulation says when the parser does the same with two consumers, and Json_Consumers
  interprets it for the acceptor and for callbacks that keep everything.
  The binary formats: Json_Binary is what \<open>binary_reader.hpp\<close> and \<open>binary_writer.hpp\<close> share (bytes of
  numbers, input, errors and the state passing of the reader's functions); Json_Cbor,
  Json_Msgpack, Json_Ubjson and Json_Bson are the reader and the writer of each format, and
  Json_Binary_Formats the entry points \<open>to_cbor\<close>, \<open>from_cbor\<close> and so on. Json_Binary_Rules has the
  rules for readers that build a value, the theories with Roundtrip in their name show for each format
  that the reader undoes the writer, Json_Binary_Total that every reader ends, Json_Binary_Safe that it ends with a value or an exception
  and never with a failed assertion or undefined behaviour;
  Json_Binary_Properties puts that together and shows where the formats break.
  Values beyond reading and writing: Json_Compare (\<open>operator==\<close>, \<open>operator<\<close>) with Json_Order, which
  shows what kind of order that is; Json_Container (element access and modifiers of \<open>basic_json\<close>);
  Json_Pointer (\<open>json_pointer.hpp\<close>, with flattening) and Json_Pointer_Rules (pointers as text, and
  values in the context of the containers around them); Json_Patch (\<open>patch\<close>, \<open>diff\<close> and
  \<open>merge_patch\<close>), with Json_Patch_Rules and Json_Diff_Rules about patches applied inside such a
  context; Json_Flatten shows that flattening loses nothing; Json_Patch_Properties says what they promise, and where the documentation promises more.

  BOUNDS AND FUEL. Device properties hold for histories whose packets, as queued, have at most
  \<open>L\<close> bytes and whose queue is limited such that its byte counter does not wrap (\<open>sane_limit\<close>,
  \<open>run_time\<close>, \<open>within_limit\<close>): the
  assumptions under which the C++ counters are exact. \<open>Flush\<close> takes as fuel the number of queued
  packets, and \<open>Flush_terminates\<close> shows that to be enough. The pattern fill takes as fuel a number
  of rounds: the size of the data is enough for a pattern that is not empty, and none is for the
  empty one. \<open>run_sends n\<close> runs at most \<open>n\<close> send events; the properties give the number after
  which none is pending. The server's properties are for counts that fit its 16-bit counters.
  The loops of the JSON library's lexer and parser are recursive functions whose termination is proved
  from the input that is left. The readers of the binary formats take as fuel the size of the input
  and two (\<open>binary_fuel\<close>) for their nesting and for loops without a count, and
  \<open>binary_reader_total\<close> shows that to be enough for every input; the depth of the stack of a
  C++ program is not modelled. Their byte orders are arguments.

  NOT MODELLED: log and console output, the ns-3 simulator and its libraries beyond the headers named
  above, the generated Python bindings, the empty module skeleton, and of the JSON library its
  iterators and the operations on ranges of them and the overloads that only convert C++ types.

  STILL OPEN: the simulator's clock and event order across several objects (a whole network of
  devices, channel and applications with times), MTU and fragmentation of the probes, and that
  the shortest decimal text of a double reads back as that double.
\<close>

end
